(* ===== verification/Prelude.thy ===== *)
theory Prelude
  imports Main "HOL-Library.Word" "HOL-Library.Sublist"
begin

text \<open>
  Shared vocabulary of the development: the operations of Rust's standard library that
  the modelled code uses (\<open>Iterator::position\<close>, \<open>Vec::remove\<close>, \<open>Vec::insert\<close>,
  \<open>Vec::retain\<close>, \<open>iter_mut().find\<close>, \<open>str::lines\<close>, \<open>str::trim\<close>), and the generic
  lemmas about them that the component theories share.  Strings are lists of bytes
  (\<open>char\<close>).  Operations of the library that panic are modelled by \<open>option\<close> at their
  call sites; the total functions here are only applied where the code has checked the
  index first.
\<close>

named_theorems panel_simps \<open>unfolding rules of the client-side components\<close>
named_theorems gateway_simps \<open>unfolding rules of the gateway components\<close>

section \<open>Positions\<close>

text \<open>\<open>iter().position(|x| P x)\<close>: the index of the first element that satisfies \<open>P\<close>.\<close>

fun position :: "('a \<Rightarrow> bool) \<Rightarrow> 'a list \<Rightarrow> nat option" where
  "position P [] = None"
| "position P (x # xs) = (if P x then Some 0 else map_option Suc (position P xs))"

lemma position_None_iff: "position P xs = None \<longleftrightarrow> (\<forall>x\<in>set xs. \<not> P x)"
  by (induction xs) auto

lemma position_SomeD:
  assumes "position P xs = Some i"
  shows "i < length xs" and "P (xs ! i)" and "\<forall>j<i. \<not> P (xs ! j)"
proof -
  have "i < length xs \<and> P (xs ! i) \<and> (\<forall>j<i. \<not> P (xs ! j))"
    using assms
  proof (induction xs arbitrary: i)
    case Nil
    then show ?case by simp
  next
    case (Cons x xs)
    show ?case
    proof (cases "P x")
      case True
      with Cons.prems show ?thesis by simp
    next
      case False
      with Cons.prems obtain k where k: "position P xs = Some k" and i: "i = Suc k"
        by auto
      from Cons.IH [OF k] False i show ?thesis
        by (auto simp: nth_Cons split: nat.splits)
    qed
  qed
  then show "i < length xs" and "P (xs ! i)" and "\<forall>j<i. \<not> P (xs ! j)"
    by auto
qed

lemma position_Some_split:
  assumes "position P xs = Some i"
  shows "\<exists>ys x zs. xs = ys @ x # zs \<and> length ys = i \<and> P x \<and> (\<forall>y\<in>set ys. \<not> P y)"
proof (intro exI conjI)
  show "xs = take i xs @ xs ! i # drop (Suc i) xs"
    using position_SomeD(1) [OF assms] by (rule id_take_nth_drop)
  show "length (take i xs) = i" using position_SomeD(1) [OF assms] by simp
  show "P (xs ! i)" by (rule position_SomeD(2) [OF assms])
  show "\<forall>y\<in>set (take i xs). \<not> P y"
    using position_SomeD(3) [OF assms] by (auto simp: in_set_conv_nth)
qed

lemma position_append_hit:
  "\<forall>y\<in>set ys. \<not> P y \<Longrightarrow> P x \<Longrightarrow> position P (ys @ x # zs) = Some (length ys)"
  by (induction ys) auto

section \<open>Removal and insertion by index\<close>

definition remove_at :: "nat \<Rightarrow> 'a list \<Rightarrow> 'a list" where
  "remove_at i xs = take i xs @ drop (Suc i) xs"

definition insert_at :: "nat \<Rightarrow> 'a \<Rightarrow> 'a list \<Rightarrow> 'a list" where
  "insert_at i x xs = take i xs @ x # drop i xs"

lemma remove_at_append [simp]: "remove_at (length ys) (ys @ x # zs) = ys @ zs"
  by (simp add: remove_at_def)

lemma insert_at_append [simp]: "insert_at (length ys) x (ys @ zs) = ys @ x # zs"
  by (simp add: insert_at_def)

lemma insert_at_0 [simp]: "insert_at 0 x xs = x # xs"
  by (simp add: insert_at_def)

lemma remove_at_0_Cons [simp]: "remove_at 0 (x # xs) = xs"
  by (simp add: remove_at_def)

lemma length_insert_at [simp]: "length (insert_at i x xs) = Suc (length xs)"
  by (simp add: insert_at_def)

lemma length_remove_at [simp]: "i < length xs \<Longrightarrow> length (remove_at i xs) = length xs - 1"
  by (simp add: remove_at_def)

lemma set_remove_at_subset: "set (remove_at i xs) \<subseteq> set xs"
  by (auto simp: remove_at_def dest: in_set_takeD in_set_dropD)

lemma set_insert_at [simp]: "set (insert_at i x xs) = insert x (set xs)"
proof -
  have "set (take i xs) \<union> set (drop i xs) = set xs"
    by (metis append_take_drop_id set_append)
  then show ?thesis by (auto simp: insert_at_def)
qed

lemma map_remove_at: "map f (remove_at i xs) = remove_at i (map f xs)"
  by (simp add: remove_at_def take_map drop_map)

lemma map_insert_at: "map f (insert_at i x xs) = insert_at i (f x) (map f xs)"
  by (simp add: insert_at_def take_map drop_map)

lemma distinct_remove_at: "distinct xs \<Longrightarrow> distinct (remove_at i xs)"
  by (simp add: remove_at_def set_take_disj_set_drop_if_distinct)

section \<open>Lines of a text file\<close>

abbreviation newline :: char where
  "newline \<equiv> CHR 0x0A"

abbreviation carriage_return :: char where
  "carriage_return \<equiv> CHR 0x0D"

definition strip_cr :: "string \<Rightarrow> string" where
  "strip_cr s = (if s \<noteq> [] \<and> last s = carriage_return then butlast s else s)"

text \<open>
  \<open>str::lines\<close> and \<open>BufRead::lines\<close>: the text between newlines, with one carriage return
  before a newline dropped; a last line without a newline counts when it is not empty.
  The first argument is the reversed beginning of the current line.
\<close>

fun lines_from :: "string \<Rightarrow> string \<Rightarrow> string list" where
  "lines_from acc [] = (if acc = [] then [] else [rev acc])"
| "lines_from acc (c # cs) =
     (if c = newline then strip_cr (rev acc) # lines_from [] cs else lines_from (c # acc) cs)"

definition str_lines :: "string \<Rightarrow> string list" where
  "str_lines content = lines_from [] content"

text \<open>The characters with the Unicode property White Space, in UTF-8.\<close>

definition white_chars :: "string list" where
  "white_chars =
     [[CHR 0x20], [CHR 0x09], [CHR 0x0A], [CHR 0x0B], [CHR 0x0C], [CHR 0x0D],
      [CHR 0xC2, CHR 0x85], [CHR 0xC2, CHR 0xA0], [CHR 0xE1, CHR 0x9A, CHR 0x80]]
     @ map (\<lambda>n. [CHR 0xE2, CHR 0x80, char_of n]) [(0x80 :: nat)..<0x8B]
     @ [[CHR 0xE2, CHR 0x80, CHR 0xA8], [CHR 0xE2, CHR 0x80, CHR 0xA9], [CHR 0xE2, CHR 0x80, CHR 0xAF],
      [CHR 0xE2, CHR 0x81, CHR 0x9F], [CHR 0xE3, CHR 0x80, CHR 0x80]]"

function strip_front :: "string list \<Rightarrow> string \<Rightarrow> string" where
  "strip_front ws s =
     (case find (\<lambda>w. w \<noteq> [] \<and> prefix w s) ws of
        None \<Rightarrow> s
      | Some w \<Rightarrow> strip_front ws (drop (length w) s))"
  by auto
termination
proof (relation "measure (\<lambda>(ws, s). length s)")
  fix ws s w
  assume "find (\<lambda>w. w \<noteq> [] \<and> prefix w s) ws = Some w"
  then have "w \<noteq> []" "prefix w s" by (auto simp: find_Some_iff)
  then have "0 < length w" "length w \<le> length s" by (auto dest: prefix_length_le)
  then have "length s - length w < length s" by linarith
  then show "((ws, drop (length w) s), (ws, s)) \<in> measure (\<lambda>(ws, s). length s)" by simp
qed simp

declare strip_front.simps [simp del]

text \<open>\<open>str::trim\<close>, and \<open>line.trim().is_empty()\<close>.\<close>

definition trim :: "string \<Rightarrow> string" where
  "trim s = rev (strip_front (map rev white_chars) (rev (strip_front white_chars s)))"

definition is_blank :: "string \<Rightarrow> bool" where
  "is_blank s = (strip_front white_chars s = [])"

text \<open>A text that starts with a visible seven-bit character is not blank.\<close>

lemma strip_front_visible:
  assumes "c \<notin> set (map hd white_chars)"
  shows "strip_front white_chars (c # s) = c # s"
proof -
  have "find (\<lambda>w. w \<noteq> [] \<and> prefix w (c # s)) white_chars = None"
    using assms by (force simp: find_None_iff prefix_Cons image_iff)
  then show ?thesis by (subst strip_front.simps) simp
qed

lemma not_blank_visible: "c \<notin> set (map hd white_chars) \<Longrightarrow> \<not> is_blank (c # s)"
  by (simp add: is_blank_def strip_front_visible)

lemma is_blank_Nil [simp]: "is_blank []"
proof -
  have "find (\<lambda>w. w \<noteq> [] \<and> prefix w []) white_chars = None" by (auto simp: find_None_iff)
  then show ?thesis by (simp add: is_blank_def, subst strip_front.simps) simp
qed

text \<open>\<open>str::starts_with\<close> is \<open>prefix\<close>; \<open>str::contains\<close>; \<open>to_ascii_lowercase\<close>.\<close>

fun contains :: "string \<Rightarrow> string \<Rightarrow> bool" where
  "contains s sub = (prefix sub s \<or> (case s of [] \<Rightarrow> False | _ # s' \<Rightarrow> contains s' sub))"

declare contains.simps [simp del]

definition lower_char :: "char \<Rightarrow> char" where
  "lower_char c = (if 65 \<le> (of_char c :: nat) \<and> (of_char c :: nat) \<le> 90 then char_of (of_char c + 32 :: nat) else c)"

definition to_ascii_lowercase :: "string \<Rightarrow> string" where
  "to_ascii_lowercase s = map lower_char s"

section \<open>The first matching element\<close>

text \<open>\<open>iter_mut().find\<close> and an update through the reference, or a push when there is no match.\<close>

fun upsert :: "('a \<Rightarrow> bool) \<Rightarrow> ('a \<Rightarrow> 'a) \<Rightarrow> 'a \<Rightarrow> 'a list \<Rightarrow> 'a list" where
  "upsert P f new [] = [new]"
| "upsert P f new (x # xs) = (if P x then f x # xs else x # upsert P f new xs)"

lemma upsert_miss: "\<forall>x\<in>set xs. \<not> P x \<Longrightarrow> upsert P f new xs = xs @ [new]"
  by (induction xs) auto

lemma upsert_hit: "\<forall>x\<in>set xs. \<not> P x \<Longrightarrow> P y \<Longrightarrow> upsert P f new (xs @ y # ys) = xs @ f y # ys"
  by (induction xs) auto

lemma upsert_cong:
  assumes "\<And>x. P x = Q x" and "\<And>x. P x \<Longrightarrow> f x = g x"
  shows "upsert P f new xs = upsert Q g new xs"
  using assms by (induction xs) auto

lemma find_append: "find P (xs @ ys) = (case find P xs of None \<Rightarrow> find P ys | Some x \<Rightarrow> Some x)"
  by (induction xs) auto

section \<open>Text files\<close>

definition ends_with_newline :: "string \<Rightarrow> bool" where
  "ends_with_newline s = (s \<noteq> [] \<and> last s = newline)"

text \<open>The text up to and with its last newline: \<open>content.rfind('\n')\<close> plus one byte.\<close>

definition through_last_newline :: "string \<Rightarrow> string" where
  "through_last_newline s = rev (dropWhile (\<lambda>c. c \<noteq> newline) (rev s))"

text \<open>A line that \<open>lines\<close> returns as it was written.\<close>

definition plain_line :: "string \<Rightarrow> bool" where
  "plain_line l = (newline \<notin> set l \<and> carriage_return \<notin> set l)"

definition unlines :: "string list \<Rightarrow> string" where
  "unlines ls = concat (map (\<lambda>l. l @ [newline]) ls)"

lemma unlines_simps [simp]:
  "unlines [] = []" "unlines (l # ls) = l @ newline # unlines ls"
  "unlines (ls @ ls') = unlines ls @ unlines ls'"
  by (simp_all add: unlines_def)

lemma strip_cr_plain: "plain_line l \<Longrightarrow> strip_cr l = l"
  by (auto simp: strip_cr_def plain_line_def dest: last_in_set)

lemma lines_from_line:
  "newline \<notin> set l \<Longrightarrow> lines_from acc (l @ newline # rest) = strip_cr (rev acc @ l) # lines_from [] rest"
  by (induction l arbitrary: acc) auto

lemma lines_from_tail: "newline \<notin> set l \<Longrightarrow> lines_from acc l = (if rev acc @ l = [] then [] else [rev acc @ l])"
  by (induction l arbitrary: acc) auto

lemma str_lines_unlines:
  assumes "list_all plain_line ls" and "newline \<notin> set tail"
  shows "str_lines (unlines ls @ tail) = ls @ (if tail = [] then [] else [tail])"
  using assms
proof (induction ls)
  case Nil
  then show ?case by (simp add: str_lines_def lines_from_tail)
next
  case (Cons l ls)
  then have "newline \<notin> set l" by (simp add: plain_line_def)
  with Cons show ?case
    by (simp add: str_lines_def lines_from_line strip_cr_plain)
qed

lemma ends_with_newline_unlines: "ends_with_newline (unlines ls @ tail) \<longleftrightarrow>
    (if tail = [] then ls \<noteq> [] else last tail = newline)"
  by (cases ls rule: rev_cases) (auto simp: ends_with_newline_def)

lemma through_last_newline_unlines:
  assumes "newline \<notin> set tail"
  shows "through_last_newline (unlines ls @ tail) = unlines ls"
proof -
  have "dropWhile (\<lambda>c. c \<noteq> newline) (rev tail @ rev (unlines ls)) = rev (unlines ls)"
    using assms by (cases ls rule: rev_cases) (auto simp: dropWhile_append3)
  then show ?thesis by (simp add: through_last_newline_def)
qed

section \<open>File paths\<close>

text \<open>
  A path is its directory and its file name.  \<open>Path::with_extension\<close> replaces the text
  after the last dot of the file name; a name without a dot, or whose only dot is its
  first character, gets the extension appended.
\<close>

type_synonym path = "string \<times> string"

definition file_stem :: "string \<Rightarrow> string" where
  "file_stem name =
     (let before = rev (tl (dropWhile (\<lambda>c. c \<noteq> CHR ''.'') (rev name)))
      in if CHR ''.'' \<in> set name \<and> before \<noteq> [] then before else name)"

definition with_extension :: "path \<Rightarrow> string \<Rightarrow> path" where
  "with_extension p ext = (fst p, file_stem (snd p) @ ''.'' @ ext)"

lemma file_stem_cases:
  "file_stem name = name \<or> (\<exists>ext. CHR ''.'' \<notin> set ext \<and> name = file_stem name @ ''.'' @ ext)"
proof (cases "CHR ''.'' \<in> set name")
  case True
  let ?p = "\<lambda>c. c \<noteq> CHR ''.''"
  have ne: "dropWhile ?p (rev name) \<noteq> []" using True by (simp add: dropWhile_eq_Nil_conv)
  then have hd: "hd (dropWhile ?p (rev name)) = CHR ''.''" using hd_dropWhile [OF ne] by simp
  have "rev name = takeWhile ?p (rev name) @ CHR ''.'' # tl (dropWhile ?p (rev name))"
    using ne hd by (metis list.collapse takeWhile_dropWhile_id)
  then have split: "name = rev (tl (dropWhile ?p (rev name))) @ ''.'' @ rev (takeWhile ?p (rev name))"
    by (metis append.assoc append_Cons append_Nil rev.simps(2) rev_append rev_rev_ident)
  have nodot: "CHR ''.'' \<notin> set (rev (takeWhile ?p (rev name)))"
    by (auto dest: set_takeWhileD)
  show ?thesis
  proof (cases "file_stem name = name")
    case False
    then have "file_stem name = rev (tl (dropWhile ?p (rev name)))"
      by (auto simp: file_stem_def Let_def split: if_splits)
    with split nodot show ?thesis by metis
  qed simp
qed (simp add: file_stem_def)

text \<open>An extension that contains a dot never gives the path back.\<close>

lemma with_extension_neq:
  assumes "CHR ''.'' \<in> set ext"
  shows "with_extension p ext \<noteq> p"
proof
  assume "with_extension p ext = p"
  then have eq: "file_stem (snd p) @ ''.'' @ ext = snd p"
    by (cases p) (simp add: with_extension_def)
  from file_stem_cases [of "snd p"] show False
  proof
    assume "file_stem (snd p) = snd p"
    with eq show False by simp
  next
    assume "\<exists>e. CHR ''.'' \<notin> set e \<and> snd p = file_stem (snd p) @ ''.'' @ e"
    with eq assms show False by (metis append_same_eq same_append_eq)
  qed
qed

section \<open>Decimal numbers\<close>

text \<open>\<open>format!\<close> and \<open>to_string\<close> of an unsigned integer.\<close>

definition digit_char :: "nat \<Rightarrow> char" where
  "digit_char d = char_of (48 + d)"

fun show_nat :: "nat \<Rightarrow> string" where
  "show_nat n = (if n < 10 then [digit_char n] else show_nat (n div 10) @ [digit_char (n mod 10)])"

declare show_nat.simps [simp del]

definition read_nat :: "string \<Rightarrow> nat" where
  "read_nat s = foldl (\<lambda>n c. 10 * n + (of_char c - 48)) 0 s"

lemma of_char_digit: "d < 10 \<Longrightarrow> of_char (digit_char d) = 48 + d"
  by (simp add: digit_char_def)

lemma read_show_nat [simp]: "read_nat (show_nat n) = n"
proof (induction n rule: show_nat.induct)
  case (1 n)
  show ?case
  proof (cases "n < 10")
    case True
    then show ?thesis by (subst show_nat.simps) (simp add: read_nat_def of_char_digit)
  next
    case False
    with 1 have "read_nat (show_nat (n div 10)) = n div 10" by simp
    then have "read_nat (show_nat (n div 10) @ [digit_char (n mod 10)]) = 10 * (n div 10) + n mod 10"
      by (simp add: read_nat_def of_char_digit)
    with False show ?thesis by (subst show_nat.simps) simp
  qed
qed

lemma show_nat_eq_iff [simp]: "show_nat m = show_nat n \<longleftrightarrow> m = n"
  by (metis read_show_nat)

lemma length_show_nat:
  assumes "n < 10 ^ k" and "0 < k"
  shows "length (show_nat n) \<le> k"
  using assms
proof (induction n arbitrary: k rule: show_nat.induct)
  case (1 n)
  show ?case
  proof (cases "n < 10")
    case True
    then show ?thesis using 1(3) by (subst show_nat.simps) simp
  next
    case False
    with 1(2,3) obtain j where k: "k = Suc j" and j: "0 < j"
      by (cases k; cases "k - 1") auto
    with 1(2) have "n div 10 < 10 ^ j" by (simp add: less_mult_imp_div_less mult.commute)
    from 1(1) [OF False this j] k False show ?thesis by (subst show_nat.simps) simp
  qed
qed

text \<open>
  \<open>str::parse\<close> to \<open>usize\<close>: decimal digits after an optional plus sign, below the width.
\<close>

definition is_digit :: "char \<Rightarrow> bool" where
  "is_digit c = (48 \<le> (of_char c :: nat) \<and> (of_char c :: nat) \<le> 57)"

definition parse_usize :: "string \<Rightarrow> nat option" where
  "parse_usize s =
     (let ds = (case s of c # cs \<Rightarrow> if c = CHR ''+'' then cs else s | [] \<Rightarrow> [])
      in if ds \<noteq> [] \<and> list_all is_digit ds \<and> read_nat ds < 2 ^ 64 then Some (read_nat ds) else None)"

lemma show_nat_digits: "show_nat n \<noteq> [] \<and> list_all is_digit (show_nat n)"
proof (induction n rule: show_nat.induct)
  case (1 n)
  have digit: "d < 10 \<Longrightarrow> is_digit (digit_char d)" for d by (simp add: is_digit_def of_char_digit)
  show ?case
  proof (cases "n < 10")
    case True
    then show ?thesis by (subst (1 2) show_nat.simps) (simp add: digit)
  next
    case False
    with 1 show ?thesis by (subst (1 2) show_nat.simps) (simp add: digit)
  qed
qed

lemma parse_show_nat [simp]: "n < 2 ^ 64 \<Longrightarrow> parse_usize (show_nat n) = Some n"
proof -
  assume n: "n < 2 ^ 64"
  have "is_digit c \<Longrightarrow> c \<noteq> CHR ''+''" for c by (auto simp: is_digit_def)
  with n show_nat_digits [of n] show ?thesis
    using read_show_nat [of n] by (cases "show_nat n") (auto simp: parse_usize_def Let_def)
qed

section \<open>The last matching position\<close>

definition rposition :: "('a \<Rightarrow> bool) \<Rightarrow> 'a list \<Rightarrow> nat option" where
  "rposition P xs = map_option (\<lambda>i. length xs - 1 - i) (position P (rev xs))"

lemma rposition_SomeD:
  assumes "rposition P xs = Some i"
  shows "i < length xs" and "P (xs ! i)"
proof -
  obtain k where k: "position P (rev xs) = Some k" "i = length xs - 1 - k"
    using assms by (auto simp: rposition_def)
  then have "k < length xs" using position_SomeD(1) by fastforce
  then show "i < length xs" and "P (xs ! i)"
    using k position_SomeD(2) [OF k(1)] by (auto simp: rev_nth)
qed

end
