(* ===== verification/Nested.thy ===== *)
theory Nested
  imports Prelude "HOL-Library.AList"
begin

text \<open>
  Hash maps as association lists: counting the entries with a property, the sum of a map of
  counters, and maps of maps (\<open>HashMap<TenantId, HashMap<String, V>>\<close>) with their insertion,
  lookup, in-place modification and enumeration.  The iteration order of a hash map is not
  specified; here it is the order of the list, and nothing proved depends on it.
\<close>

lemma find_SomeD: "find P xs = Some x \<Longrightarrow> x \<in> set xs \<and> P x"
  by (auto simp: find_Some_iff)

section \<open>Counting entries\<close>

definition count_vals :: "('v \<Rightarrow> bool) \<Rightarrow> ('k \<times> 'v) list \<Rightarrow> nat" where
  "count_vals P kvs = length (filter (\<lambda>(k, v). P v) kvs)"

lemma count_vals_Nil [simp]: "count_vals P [] = 0"
  by (simp add: count_vals_def)

lemma count_vals_Cons [simp]: "count_vals P ((k, v) # kvs) = (if P v then 1 else 0) + count_vals P kvs"
  by (simp add: count_vals_def)

lemma count_vals_delete:
  "distinct (map fst kvs) \<Longrightarrow>
    count_vals P kvs = count_vals P (AList.delete k kvs) + (case map_of kvs k of Some v \<Rightarrow> if P v then 1 else 0 | None \<Rightarrow> 0)"
proof (induction kvs)
  case (Cons p kvs)
  obtain k' v' where p: "p = (k', v')" by (cases p)
  show ?case
  proof (cases "k' = k")
    case True
    then have "map_of kvs k = None" using Cons.prems p by (simp add: map_of_eq_None_iff)
    moreover have "AList.delete k kvs = kvs" using True Cons.prems p by (intro delete_id) simp
    ultimately show ?thesis using True by (simp add: p)
  qed (use Cons p in auto)
qed simp

lemma count_vals_update:
  "distinct (map fst kvs) \<Longrightarrow>
    count_vals P (AList.update k v kvs) = count_vals P (AList.delete k kvs) + (if P v then 1 else 0)"
proof (induction kvs)
  case (Cons p kvs)
  obtain k' v' where p: "p = (k', v')" by (cases p)
  show ?case
  proof (cases "k' = k")
    case True
    then have "AList.delete k kvs = kvs" using Cons.prems p by (intro delete_id) simp
    then show ?thesis using True by (simp add: p)
  qed (use Cons p in auto)
qed simp

section \<open>Maps of counters\<close>

definition counter :: "('k \<times> nat) list \<Rightarrow> 'k \<Rightarrow> nat" where
  "counter kvs k = (case map_of kvs k of None \<Rightarrow> 0 | Some n \<Rightarrow> n)"

definition total_of :: "('k \<times> nat) list \<Rightarrow> nat" where
  "total_of kvs = sum_list (map snd kvs)"

lemma counter_Nil [simp]: "counter [] k = 0"
  by (simp add: counter_def)

lemma total_of_Nil [simp]: "total_of [] = 0"
  by (simp add: total_of_def)

lemma total_of_Cons [simp]: "total_of ((k, n) # kvs) = n + total_of kvs"
  by (simp add: total_of_def)

lemma counter_update [simp]: "counter (AList.update k n kvs) k' = (if k' = k then n else counter kvs k')"
  by (simp add: counter_def update_conv')

lemma counter_delete [simp]: "counter (AList.delete k kvs) k' = (if k' = k then 0 else counter kvs k')"
  by (simp add: counter_def delete_conv')

lemma total_of_delete: "distinct (map fst kvs) \<Longrightarrow> total_of kvs = total_of (AList.delete k kvs) + counter kvs k"
proof (induction kvs)
  case (Cons p kvs)
  obtain k' n where p: "p = (k', n)" by (cases p)
  show ?case
  proof (cases "k' = k")
    case True
    then have "AList.delete k kvs = kvs" using Cons.prems p by (intro delete_id) simp
    then show ?thesis using True by (simp add: p counter_def)
  qed (use Cons p in \<open>auto simp: counter_def\<close>)
qed simp

lemma total_of_update: "distinct (map fst kvs) \<Longrightarrow> total_of (AList.update k n kvs) = total_of (AList.delete k kvs) + n"
proof (induction kvs)
  case (Cons p kvs)
  obtain k' n' where p: "p = (k', n')" by (cases p)
  show ?case
  proof (cases "k' = k")
    case True
    then have "AList.delete k kvs = kvs" using Cons.prems p by (intro delete_id) simp
    then show ?thesis using True by (simp add: p)
  qed (use Cons p in auto)
qed simp

lemma total_of_sum: "distinct (map fst kvs) \<Longrightarrow> total_of kvs = (\<Sum>k\<in>fst ` set kvs. counter kvs k)"
proof (induction kvs)
  case (Cons p kvs)
  obtain k n where p: "p = (k, n)" by (cases p)
  have "(\<Sum>k'\<in>fst ` set kvs. counter (p # kvs) k') = (\<Sum>k'\<in>fst ` set kvs. counter kvs k')"
    using Cons.prems by (intro sum.cong) (auto simp: p counter_def)
  then show ?case using Cons by (simp add: p counter_def)
qed simp

lemma counter_miss: "k \<notin> fst ` set kvs \<Longrightarrow> counter kvs k = 0"
  by (simp add: counter_def map_of_eq_None_iff [THEN iffD2])

text \<open>The sum over any finite set of keys that contains all the keys of the map.\<close>

lemma total_of_sum_superset:
  assumes "distinct (map fst kvs)" "finite A" "fst ` set kvs \<subseteq> A"
  shows "total_of kvs = (\<Sum>k\<in>A. counter kvs k)"
proof -
  have "(\<Sum>k\<in>fst ` set kvs. counter kvs k) = (\<Sum>k\<in>A. counter kvs k)"
    using assms(2,3) by (intro sum.mono_neutral_left) (auto intro: counter_miss)
  then show ?thesis by (simp add: total_of_sum [OF assms(1)])
qed

section \<open>Maps of maps\<close>

definition inner_map :: "('a \<times> ('b \<times> 'v) list) list \<Rightarrow> 'a \<Rightarrow> ('b \<times> 'v) list" where
  "inner_map m t = (case map_of m t of None \<Rightarrow> [] | Some kvs \<Rightarrow> kvs)"

definition nested_get :: "('a \<times> ('b \<times> 'v) list) list \<Rightarrow> 'a \<Rightarrow> 'b \<Rightarrow> 'v option" where
  "nested_get m t k = (case map_of m t of None \<Rightarrow> None | Some kvs \<Rightarrow> map_of kvs k)"

definition nested_insert :: "'a \<Rightarrow> 'b \<Rightarrow> 'v \<Rightarrow> ('a \<times> ('b \<times> 'v) list) list \<Rightarrow> ('a \<times> ('b \<times> 'v) list) list" where
  "nested_insert t k v m = AList.update t (AList.update k v (inner_map m t)) m"

definition nested_modify :: "'a \<Rightarrow> 'b \<Rightarrow> ('v \<Rightarrow> 'v) \<Rightarrow> ('a \<times> ('b \<times> 'v) list) list \<Rightarrow> ('a \<times> ('b \<times> 'v) list) list" where
  "nested_modify t k f m = (case nested_get m t k of None \<Rightarrow> m | Some v \<Rightarrow> nested_insert t k (f v) m)"

definition nested_entries :: "('a \<times> ('b \<times> 'v) list) list \<Rightarrow> ('a \<times> 'b \<times> 'v) list" where
  "nested_entries m = concat (map (\<lambda>(t, kvs). map (\<lambda>(k, v). (t, k, v)) kvs) m)"

definition nested_ok :: "('a \<times> ('b \<times> 'v) list) list \<Rightarrow> bool" where
  "nested_ok m \<longleftrightarrow> distinct (map fst m) \<and> (\<forall>(t, kvs)\<in>set m. distinct (map fst kvs))"

lemma nested_ok_Nil [simp]: "nested_ok []"
  by (simp add: nested_ok_def)

lemma nested_get_Nil [simp]: "nested_get [] t k = None"
  by (simp add: nested_get_def)

lemma inner_map_Nil [simp]: "inner_map [] t = []"
  by (simp add: inner_map_def)

lemma nested_get_inner: "nested_get m t k = map_of (inner_map m t) k"
  by (simp add: nested_get_def inner_map_def split: option.splits)

lemma inner_map_update [simp]: "inner_map (AList.update t kvs m) t' = (if t' = t then kvs else inner_map m t')"
  by (simp add: inner_map_def update_conv')

lemma inner_map_delete [simp]: "inner_map (AList.delete t m) t' = (if t' = t then [] else inner_map m t')"
  by (simp add: inner_map_def delete_conv')

lemma inner_map_insert [simp]:
  "inner_map (nested_insert t k v m) t' = (if t' = t then AList.update k v (inner_map m t) else inner_map m t')"
  by (simp add: nested_insert_def)

lemma nested_get_insert [simp]:
  "nested_get (nested_insert t k v m) t' k' = (if t' = t \<and> k' = k then Some v else nested_get m t' k')"
  by (simp add: nested_get_inner update_conv')

lemma nested_get_modify [simp]:
  "nested_get (nested_modify t k f m) t' k' =
    (if t' = t \<and> k' = k then map_option f (nested_get m t k) else nested_get m t' k')"
  by (simp add: nested_modify_def split: option.splits)

lemma nested_ok_inner: "nested_ok m \<Longrightarrow> distinct (map fst (inner_map m t))"
  by (auto simp: nested_ok_def inner_map_def split: option.splits dest!: map_of_SomeD)

lemma set_update_subset: "set (AList.update k v al) \<subseteq> insert (k, v) (set al)"
  by (induction al) auto

lemma nested_ok_update:
  "nested_ok m \<Longrightarrow> distinct (map fst kvs) \<Longrightarrow> nested_ok (AList.update t kvs m)"
  using set_update_subset [of t kvs m] by (auto simp: nested_ok_def distinct_update)

lemma nested_ok_delete: "nested_ok m \<Longrightarrow> nested_ok (AList.delete t m)"
  using distinct_delete [of m t] by (auto simp: nested_ok_def AList.delete_eq)

lemma nested_ok_insert [simp]: "nested_ok m \<Longrightarrow> nested_ok (nested_insert t k v m)"
  by (simp add: nested_insert_def nested_ok_update distinct_update nested_ok_inner)

lemma nested_ok_modify [simp]: "nested_ok m \<Longrightarrow> nested_ok (nested_modify t k f m)"
  by (simp add: nested_modify_def split: option.splits)

lemma nested_entries_get:
  assumes "nested_ok m"
  shows "(t, k, v) \<in> set (nested_entries m) \<longleftrightarrow> nested_get m t k = Some v"
proof -
  have "(t, k, v) \<in> set (nested_entries m) \<longleftrightarrow> (\<exists>kvs. (t, kvs) \<in> set m \<and> (k, v) \<in> set kvs)"
    by (force simp: nested_entries_def)
  also have "\<dots> \<longleftrightarrow> (\<exists>kvs. map_of m t = Some kvs \<and> map_of kvs k = Some v)"
    using assms unfolding nested_ok_def
    by (metis (no_types, lifting) case_prodD map_of_SomeD map_of_eq_Some_iff)
  finally show ?thesis by (auto simp: nested_get_def split: option.splits)
qed

lemma count_vals_entries: "length (filter (\<lambda>(t, k, v). P v) (nested_entries m)) = sum_list (map (\<lambda>(t, kvs). count_vals P kvs) m)"
proof (induction m)
  case (Cons p m)
  have "length (filter (\<lambda>(t, k, v). P v) (map (\<lambda>(k, v). (fst p, k, v)) (snd p))) = count_vals P (snd p)"
    by (induction "snd p" arbitrary: p) (auto simp: count_vals_def filter_map o_def case_prod_unfold)
  then show ?case using Cons by (simp add: nested_entries_def case_prod_unfold)
qed (simp add: nested_entries_def)

lemma count_vals_total:
  assumes "nested_ok m"
  shows "sum_list (map (\<lambda>(t, kvs). count_vals P kvs) m) = (\<Sum>t\<in>fst ` set m. count_vals P (inner_map m t))"
proof -
  have "distinct (map fst m)" using assms by (simp add: nested_ok_def)
  then show ?thesis
  proof (induction m)
    case (Cons p m)
    obtain t kvs where p: "p = (t, kvs)" by (cases p)
    have "(\<Sum>t'\<in>fst ` set m. count_vals P (inner_map (p # m) t')) = (\<Sum>t'\<in>fst ` set m. count_vals P (inner_map m t'))"
      using Cons.prems by (intro sum.cong) (auto simp: p inner_map_def)
    then show ?case using Cons by (simp add: p inner_map_def)
  qed simp
qed

lemma entry_of_update: "(a, b) \<in> set (AList.update k v xs) \<Longrightarrow> (a, b) = (k, v) \<or> (a, b) \<in> set xs"
  by (induction xs) (auto split: if_splits)

end
