(* ===== verification/Fifo.thy ===== *)
theory Fifo
  imports Prelude
begin

text \<open>
  The contract of a first-in-first-out message queue, shared by the client's send queue
  and the gateway's durable queue.  A provider gives the queued items as a list, a push,
  a pop that may decline, and the states in which it serves (\<open>ready\<close>); the client lemma
  is that over any run of pushes and pops each pushed item comes out once and in order.
\<close>

datatype 'a fifo_event = Push 'a | Pop

fun fifo_run ::
  "('a \<Rightarrow> 'q \<Rightarrow> 'q) \<Rightarrow> ('q \<Rightarrow> 'a option \<times> 'q) \<Rightarrow> 'a fifo_event list \<Rightarrow> 'q \<Rightarrow> 'a list \<times> 'q"
where
  "fifo_run push pop [] q = ([], q)"
| "fifo_run push pop (Push x # es) q = fifo_run push pop es (push x q)"
| "fifo_run push pop (Pop # es) q =
     (case pop q of
        (None, q') \<Rightarrow> fifo_run push pop es q'
      | (Some x, q') \<Rightarrow> (let (xs, q'') = fifo_run push pop es q' in (x # xs, q'')))"

fun pushed :: "'a fifo_event list \<Rightarrow> 'a list" where
  "pushed [] = []"
| "pushed (Push x # es) = x # pushed es"
| "pushed (Pop # es) = pushed es"

text \<open>Every push of the run happens in a state that can take the item.\<close>

fun pushes_fit ::
  "('a \<Rightarrow> 'q \<Rightarrow> bool) \<Rightarrow> ('a \<Rightarrow> 'q \<Rightarrow> 'q) \<Rightarrow> ('q \<Rightarrow> 'a option \<times> 'q) \<Rightarrow> 'a fifo_event list \<Rightarrow> 'q \<Rightarrow> bool"
where
  "pushes_fit fits push pop [] q = True"
| "pushes_fit fits push pop (Push x # es) q = (fits x q \<and> pushes_fit fits push pop es (push x q))"
| "pushes_fit fits push pop (Pop # es) q = pushes_fit fits push pop es (snd (pop q))"

lemma pushes_fit_always: "(\<And>x q. fits x q) \<Longrightarrow> pushes_fit fits push pop es q"
  by (induction es arbitrary: q rule: pushed.induct) auto

locale fifo_queue =
  fixes items :: "'q \<Rightarrow> 'a list"
    and ready :: "'q \<Rightarrow> bool"
    and fits :: "'a \<Rightarrow> 'q \<Rightarrow> bool"
    and push :: "'a \<Rightarrow> 'q \<Rightarrow> 'q"
    and pop :: "'q \<Rightarrow> 'a option \<times> 'q"
  assumes ready_push: "ready q \<Longrightarrow> fits x q \<Longrightarrow> ready (push x q)"
    and items_push: "ready q \<Longrightarrow> fits x q \<Longrightarrow> items (push x q) = items q @ [x]"
    and ready_pop: "ready q \<Longrightarrow> ready (snd (pop q))"
    and items_pop: "ready q \<Longrightarrow> items (snd (pop q)) = tl (items q)"
    and popped: "ready q \<Longrightarrow> fst (pop q) = (if items q = [] then None else Some (hd (items q)))"
begin

lemma pop_Nil: "ready q \<Longrightarrow> items q = [] \<Longrightarrow> \<exists>q'. pop q = (None, q') \<and> items q' = [] \<and> ready q'"
  using popped [of q] items_pop [of q] ready_pop [of q] by (cases "pop q") auto

lemma pop_Cons:
  "ready q \<Longrightarrow> items q = x # xs \<Longrightarrow> \<exists>q'. pop q = (Some x, q') \<and> items q' = xs \<and> ready q'"
  using popped [of q] items_pop [of q] ready_pop [of q] by (cases "pop q") auto

lemma delivered_in_order:
  "ready q \<Longrightarrow> pushes_fit fits push pop es q \<Longrightarrow> fifo_run push pop es q = (xs, q') \<Longrightarrow>
   xs @ items q' = items q @ pushed es \<and> ready q'"
proof (induction es arbitrary: q xs)
  case Nil
  then show ?case by simp
next
  case (Cons e es)
  show ?case
  proof (cases e)
    case (Push x)
    with Cons.prems Cons.IH [of "push x q" xs] show ?thesis
      by (simp add: ready_push items_push)
  next
    case Pop
    show ?thesis
    proof (cases "items q")
      case Nil
      with Cons.prems Pop pop_Nil [of q] Cons.IH show ?thesis by fastforce
    next
      case (Cons y ys)
      with Cons.prems(1) obtain q1 where q1: "pop q = (Some y, q1)" "items q1 = ys" "ready q1"
        using pop_Cons by blast
      obtain xs1 where "fifo_run push pop es q1 = (xs1, q')" "xs = y # xs1"
        using Cons.prems(3) Pop q1(1) by (auto split: prod.splits)
      with Cons.IH [of q1 xs1] Cons.prems(2) Pop q1 Cons show ?thesis by simp
    qed
  qed
qed

end

end
