(* ===== verification/ClaimTable.thy ===== *)
theory ClaimTable
  imports Nested
begin

text \<open>
  The contract of a table of waiting calls, shared by the response demultiplexer and by the relay
  of agent requests: an entry is taken out by the first call that claims it, and every later
  claim of it finds nothing.
\<close>

fun claims :: "('k \<Rightarrow> 's \<Rightarrow> 'w option \<times> 's) \<Rightarrow> 'k list \<Rightarrow> 's \<Rightarrow> 'w option list \<times> 's" where
  "claims claim [] s = ([], s)"
| "claims claim (k # ks) s =
     (let (w, s') = claim k s; (ws, s'') = claims claim ks s' in (w # ws, s''))"

locale claim_table =
  fixes entry :: "'s \<Rightarrow> 'k \<Rightarrow> 'w option"
    and claim :: "'k \<Rightarrow> 's \<Rightarrow> 'w option \<times> 's"
  assumes claimed: "fst (claim k s) = entry s k"
    and entry_claim: "entry (snd (claim k s)) k' = (if k' = k then None else entry s k')"
begin

lemma entry_claims: "entry (snd (claims claim ks s)) k = (if k \<in> set ks then None else entry s k)"
  by (induction ks arbitrary: s) (auto simp: case_prod_unfold Let_def entry_claim)

text \<open>The result of a claim depends only on whether the key was claimed before.\<close>

lemma claims_results:
  "fst (claims claim ks s) = map (\<lambda>i. if ks ! i \<in> set (take i ks) then None else entry s (ks ! i)) [0..<length ks]"
proof (induction ks arbitrary: s)
  case (Cons k ks)
  have "map (\<lambda>i. if ks ! i \<in> set (take i ks) then None else entry (snd (claim k s)) (ks ! i)) [0..<length ks]
      = map (\<lambda>i. if (k # ks) ! i \<in> set (take i (k # ks)) then None else entry s ((k # ks) ! i)) [1..<Suc (length ks)]"
    by (intro nth_equalityI) (auto simp: entry_claim simp del: upt_Suc)
  then show ?case
    using Cons.IH [of "snd (claim k s)"]
    by (simp add: case_prod_unfold Let_def claimed upt_conv_Cons del: upt_Suc)
qed simp

text \<open>Of any number of claims of the same entry one succeeds.\<close>

lemma claimed_once:
  assumes "i < j" and "j < length ks" and "ks ! i = ks ! j"
  shows "fst (claims claim ks s) ! j = None"
proof -
  have "ks ! j \<in> set (take j ks)" using assms by (metis in_set_conv_nth length_take min.absorb4 nth_take)
  then show ?thesis using assms by (simp add: claims_results)
qed

end

text \<open>Association lists are such a table.\<close>

definition take_entry :: "'k \<Rightarrow> ('k \<times> 'w) list \<Rightarrow> 'w option \<times> ('k \<times> 'w) list" where
  "take_entry k kvs = (map_of kvs k, AList.delete k kvs)"

interpretation assoc: claim_table map_of take_entry
  by unfold_locales (simp_all add: take_entry_def delete_conv')

end
