(* ===== verification/LineCodec.thy ===== *)
theory LineCodec
  imports Prelude
begin

text \<open>
  The contract of a line-oriented serializer.  The code writes JSONL files through
  \<open>serde_json\<close>, which is not part of the repository; what it relies on is that the parser
  inverts the serializer, that a serialized value is one non-blank line (JSON escapes
  control characters), and that two values on one line do not parse.  The serializer and
  the parser are arguments of the definitions that use them; the lemmas about whole files
  are proved here once.  A concrete codec for lists of strings shows that the contract can
  be met, and serves the witnesses of the components.
\<close>

locale line_codec =
  fixes enc :: "'r \<Rightarrow> string"
    and dec :: "string \<Rightarrow> 'r option"
  assumes dec_enc: "dec (enc r) = Some r"
    and enc_plain: "plain_line (enc r)"
    and enc_starts: "enc r \<noteq> [] \<and> hd (enc r) \<notin> set (map hd white_chars)"
    and dec_two: "dec (enc r @ enc r') = None"
begin

lemma enc_nonempty: "enc r \<noteq> []"
  using enc_starts [of r] by simp

lemma enc_visible_append: "\<not> is_blank (enc r @ s)"
  using enc_starts [of r] not_blank_visible [of "hd (enc r)"] by (cases "enc r") simp_all

lemma enc_visible: "\<not> is_blank (enc r)"
  using enc_visible_append [of r "[]"] by simp

lemma enc_no_newline: "newline \<notin> set (enc r)"
  using enc_plain [of r] by (simp add: plain_line_def)

lemma lines_of_file: "str_lines (unlines (map enc rs)) = map enc rs"
  using str_lines_unlines [of "map enc rs" "[]"] enc_plain by (simp add: list_all_iff)

lemma lines_of_torn_file:
  "newline \<notin> set tail \<Longrightarrow> tail \<noteq> [] \<Longrightarrow> str_lines (unlines (map enc rs) @ tail) = map enc rs @ [tail]"
  using str_lines_unlines [of "map enc rs" tail] enc_plain by (simp add: list_all_iff)

lemma visible_lines: "filter (\<lambda>l. \<not> is_blank l) (map enc rs) = map enc rs"
  using enc_visible by (simp add: filter_id_conv)

end

section \<open>How writes end\<close>

text \<open>
  How one whole-file rewrite can end: the temporary file cannot be created, it is
  written only in part, it cannot be renamed, or everything succeeds.
\<close>

datatype write_outcome = CreateFails | WriteFails string | RenameFails | Written

text \<open>
  An append writes its bytes at the end of the file; when it fails, or the process is killed,
  a part of them may be in the file.
\<close>

datatype append_outcome = AppendStops string | Appended

section \<open>A codec for lists of strings\<close>

definition escape_char :: "char \<Rightarrow> string" where
  "escape_char c =
     (if c = newline then [CHR 0x5C, CHR ''n'']
      else if c = carriage_return then [CHR 0x5C, CHR ''r'']
      else if c \<in> {CHR 0x5C, CHR '','', CHR 0x7B, CHR 0x7D} then [CHR 0x5C, c]
      else [c])"

definition unescape_char :: "char \<Rightarrow> char" where
  "unescape_char c = (if c = CHR ''n'' then newline else if c = CHR ''r'' then carriage_return else c)"

definition enc_field :: "string \<Rightarrow> string" where
  "enc_field f = concat (map escape_char f) @ [CHR '','']"

definition enc_fields :: "string list \<Rightarrow> string" where
  "enc_fields fs = CHR 0x7B # concat (map enc_field fs) @ [CHR 0x7D]"

fun dec_go :: "string \<Rightarrow> string \<Rightarrow> string list option" where
  "dec_go acc [] = None"
| "dec_go acc (c # cs) =
     (if c = CHR 0x7D then (if cs = [] \<and> acc = [] then Some [] else None)
      else if c = CHR '','' then map_option (Cons (rev acc)) (dec_go [] cs)
      else if c = CHR 0x5C then
        (case cs of [] \<Rightarrow> None | d # ds \<Rightarrow> dec_go (unescape_char d # acc) ds)
      else dec_go (c # acc) cs)"

definition dec_fields :: "string \<Rightarrow> string list option" where
  "dec_fields s = (case s of [] \<Rightarrow> None | c # cs \<Rightarrow> if c = CHR 0x7B then dec_go [] cs else None)"

lemma dec_go_escape: "dec_go acc (escape_char c @ rest) = dec_go (c # acc) rest"
  by (auto simp: escape_char_def unescape_char_def)

lemma dec_go_field: "dec_go acc (concat (map escape_char f) @ rest) = dec_go (rev f @ acc) rest"
  by (induction f arbitrary: acc) (simp_all add: dec_go_escape)

lemma dec_go_fields:
  "dec_go [] (concat (map enc_field fs) @ CHR 0x7D # rest) = (if rest = [] then Some fs else None)"
  by (induction fs) (simp_all add: enc_field_def dec_go_field)

lemma dec_enc_fields: "dec_fields (enc_fields fs) = Some fs"
  using dec_go_fields [of fs "[]"] by (simp add: dec_fields_def enc_fields_def)

lemma dec_two_fields: "dec_fields (enc_fields fs @ enc_fields fs') = None"
  using dec_go_fields [of fs "enc_fields fs'"] by (simp add: dec_fields_def enc_fields_def)

lemma escape_char_plain: "plain_line (escape_char c)"
  by (auto simp: plain_line_def escape_char_def)

lemma enc_fields_plain: "plain_line (enc_fields fs)"
  using escape_char_plain by (auto simp: plain_line_def enc_fields_def enc_field_def)

lemma enc_fields_starts: "enc_fields fs \<noteq> [] \<and> hd (enc_fields fs) \<notin> set (map hd white_chars)"
  by (simp add: enc_fields_def white_chars_def)

text \<open>Any type with an injection into string lists gets a codec.\<close>

lemma line_codec_via_fields:
  assumes "\<And>r. from_fields (to_fields r) = Some r"
  shows "line_codec (\<lambda>r. enc_fields (to_fields r)) (\<lambda>s. Option.bind (dec_fields s) from_fields)"
  by unfold_locales
    (simp_all add: assms dec_enc_fields dec_two_fields enc_fields_plain enc_fields_starts del: set_map)

definition enc_bool :: "bool \<Rightarrow> string" where
  "enc_bool b = (if b then ''true'' else ''false'')"

definition dec_bool :: "string \<Rightarrow> bool option" where
  "dec_bool s = (if s = ''true'' then Some True else if s = ''false'' then Some False else None)"

lemma dec_enc_bool [simp]: "dec_bool (enc_bool b) = Some b"
  by (simp add: enc_bool_def dec_bool_def)

interpretation fields: line_codec enc_fields dec_fields
  by unfold_locales (simp_all add: dec_enc_fields dec_two_fields enc_fields_plain enc_fields_starts del: set_map)

end
