(* ===== verification/Payload.thy ===== *)
theory Payload
  imports Prelude
begin

text \<open>
  Tool payloads and the bounds the panel puts on them:
  \<open>panel-rust/src/protocol_types.rs\<close>, lines 116 to 178.  A \<open>serde_json::Value\<close> is
  modelled by the data type of its variants (an object as its list of fields); its
  printer is the argument \<open>to_string\<close>.  Strings are UTF-8 byte lists, and their length is
  the \<open>len()\<close> of the source.
\<close>

section \<open>Payloads\<close>

datatype json =
    JNull
  | JBool bool
  | JNumber string
  | JString string
  | JArray "json list"
  | JObject "(string \<times> json) list"

definition max_raw_payload_string_bytes :: nat where
  "max_raw_payload_string_bytes = 4 * 1024"

definition max_raw_payload_total_bytes :: nat where
  "max_raw_payload_total_bytes = 32 * 1024"

section \<open>Truncation\<close>

text \<open>A byte \<open>10xxxxxx\<close>, which never starts a UTF-8 character.\<close>

definition is_continuation :: "char \<Rightarrow> bool" where
  "is_continuation c = (128 \<le> (of_char c :: nat) \<and> (of_char c :: nat) < 192)"

text \<open>\<open>str::is_char_boundary\<close>.\<close>

definition is_char_boundary :: "string \<Rightarrow> nat \<Rightarrow> bool" where
  "is_char_boundary s i =
     (i = 0 \<or> (if length s \<le> i then i = length s else \<not> is_continuation (s ! i)))"

text \<open>The loop that moves the cut down to a boundary.\<close>

fun boundary_cut :: "string \<Rightarrow> nat \<Rightarrow> nat" where
  "boundary_cut s i =
     (if 0 < i \<and> \<not> is_char_boundary s i then boundary_cut s (i - 1) else i)"

declare boundary_cut.simps [simp del]

text \<open>The three bytes of the ellipsis, a space and the number of bytes dropped.\<close>

definition elided_marker :: "nat \<Rightarrow> string" where
  "elided_marker dropped =
     [CHR 0xE2, CHR 0x80, CHR 0xA6] @ '' <'' @ show_nat dropped @ '' more bytes elided>''"

definition truncate_with_marker :: "string \<Rightarrow> nat \<Rightarrow> string" where
  "truncate_with_marker s max_len =
     (if length s \<le> max_len then s
      else
        let dropped = length s - max_len;
            i = boundary_cut s max_len
        in take i s @ elided_marker dropped)"

section \<open>Payload bounds\<close>

primrec elide_large_payload_strings :: "json \<Rightarrow> json" where
  "elide_large_payload_strings JNull = JNull"
| "elide_large_payload_strings (JBool b) = JBool b"
| "elide_large_payload_strings (JNumber n) = JNumber n"
| "elide_large_payload_strings (JString s) = JString (truncate_with_marker s max_raw_payload_string_bytes)"
| "elide_large_payload_strings (JArray items) = JArray (map elide_large_payload_strings items)"
| "elide_large_payload_strings (JObject fields) =
     JObject (map (map_prod id elide_large_payload_strings) fields)"

primrec has_oversized_string :: "json \<Rightarrow> bool" where
  "has_oversized_string JNull = False"
| "has_oversized_string (JBool b) = False"
| "has_oversized_string (JNumber n) = False"
| "has_oversized_string (JString s) = (max_raw_payload_string_bytes < length s)"
| "has_oversized_string (JArray items) = list_ex id (map has_oversized_string items)"
| "has_oversized_string (JObject fields) = list_ex snd (map (map_prod id has_oversized_string) fields)"

definition bounded_payload_display_string :: "(json \<Rightarrow> string) \<Rightarrow> json \<Rightarrow> string" where
  "bounded_payload_display_string to_string payload =
     (let out = (if has_oversized_string payload
                 then to_string (elide_large_payload_strings payload)
                 else to_string payload)
      in truncate_with_marker out max_raw_payload_total_bytes)"

section \<open>Lemmas\<close>

lemma boundary_cut_le: "boundary_cut s i \<le> i"
proof (induction s i rule: boundary_cut.induct)
  case (1 s i)
  then show ?case by (subst boundary_cut.simps) auto
qed

lemma length_elided_marker: "length (elided_marker n) = 24 + length (show_nat n)"
  by (simp add: elided_marker_def)

lemma length_truncate_with_marker:
  assumes "length s < 2 ^ 64"
  shows "length (truncate_with_marker s m) \<le> m + 44"
proof (cases "length s \<le> m")
  case False
  have "length s - m < 10 ^ 20" using assms by simp
  then have "length (show_nat (length s - m)) \<le> 20" by (rule length_show_nat) simp
  then show ?thesis
    using boundary_cut_le [of s m] False
    by (simp add: truncate_with_marker_def Let_def length_elided_marker)
qed (simp add: truncate_with_marker_def)

text \<open>A UTF-8 text as the list of its encoded characters: one leading byte, up to three others.\<close>

definition utf8_char :: "string \<Rightarrow> bool" where
  "utf8_char ch = (ch \<noteq> [] \<and> length ch \<le> 4 \<and> \<not> is_continuation (hd ch) \<and> list_all is_continuation (tl ch))"

lemma boundary_cut_step:
  "boundary_cut s i = (if i = 0 \<or> is_char_boundary s i then i else boundary_cut s (i - 1))"
  by (subst boundary_cut.simps) auto

text \<open>Within a character, only its first byte is a boundary.\<close>

lemma boundary_cut_in_char:
  assumes "utf8_char ch" and "j < length ch"
  shows "boundary_cut (pre @ ch @ post) (length pre + j) = length pre"
  using assms(2)
proof (induction j)
  case 0
  have "is_char_boundary (pre @ ch @ post) (length pre)"
    using assms by (cases ch) (auto simp: is_char_boundary_def utf8_char_def nth_append)
  then show ?case by (subst boundary_cut_step) simp
next
  case (Suc j)
  have "is_continuation (ch ! Suc j)"
    using assms(1) Suc.prems by (cases ch) (auto simp: utf8_char_def list_all_length)
  then have "\<not> is_char_boundary (pre @ ch @ post) (length pre + Suc j)"
    using Suc.prems by (simp add: is_char_boundary_def nth_append)
  then show ?case using Suc by (subst boundary_cut_step) simp
qed

lemma boundary_cut_chars:
  assumes "list_all utf8_char chs" and "m < length (concat chs)"
  shows "\<exists>k<length chs. boundary_cut (pre @ concat chs) (length pre + m) = length pre + length (concat (take k chs))
    \<and> length (concat (take k chs)) \<le> m \<and> m < length (concat (take k chs)) + 4"
  using assms
proof (induction chs arbitrary: pre m)
  case Nil
  then show ?case by simp
next
  case (Cons ch chs)
  show ?case
  proof (cases "m < length ch")
    case True
    with Cons.prems show ?thesis
      using boundary_cut_in_char [of ch m pre "concat chs"]
      by (intro exI [of _ 0]) (auto simp: utf8_char_def)
  next
    case False
    then have "m - length ch < length (concat chs)" using Cons.prems(2) by auto
    with False Cons.prems Cons.IH [of "m - length ch" "pre @ ch"]
    obtain k where "k < length chs"
      "boundary_cut (pre @ concat (ch # chs)) (length pre + m) = length pre + length ch + length (concat (take k chs))"
      "length (concat (take k chs)) \<le> m - length ch" "m - length ch < length (concat (take k chs)) + 4"
      by auto
    with False show ?thesis by (intro exI [of _ "Suc k"]) auto
  qed
qed

lemma take_length_concat: "take (length (concat (take k xss))) (concat xss) = concat (take k xss)"
proof -
  have "concat xss = concat (take k xss) @ concat (drop k xss)"
    by (metis append_take_drop_id concat_append)
  then show ?thesis by (metis append_eq_conv_conj)
qed

lemma elide_small: "\<not> has_oversized_string v \<Longrightarrow> elide_large_payload_strings v = v"
proof (induction v)
  case (JArray items)
  then show ?case by (auto simp: list_ex_iff intro: map_idI)
next
  case (JObject fields)
  have "map_prod id elide_large_payload_strings kv = kv" if "kv \<in> set fields" for kv
  proof -
    have "\<not> has_oversized_string (snd kv)"
      using JObject.prems that by (force simp: list_ex_iff)
    with JObject.IH [OF that, of "snd kv"] show ?thesis by (cases kv) auto
  qed
  then show ?case by (auto intro: map_idI)
qed (auto simp: truncate_with_marker_def)

text \<open>The longest string leaf of a payload.\<close>

primrec longest_string :: "json \<Rightarrow> nat" where
  "longest_string JNull = 0"
| "longest_string (JBool b) = 0"
| "longest_string (JNumber n) = 0"
| "longest_string (JString s) = length s"
| "longest_string (JArray items) = foldr max (map longest_string items) 0"
| "longest_string (JObject fields) = foldr max (map snd (map (map_prod id longest_string) fields)) 0"

lemma foldr_max_le_iff: "foldr max xs 0 \<le> (b :: nat) \<longleftrightarrow> (\<forall>x\<in>set xs. x \<le> b)"
  by (induction xs) auto

lemma longest_string_elide:
  assumes "longest_string v < 2 ^ 64"
  shows "longest_string (elide_large_payload_strings v) \<le> max_raw_payload_string_bytes + 44"
proof -
  have "longest_string v \<le> 2 ^ 64 - 1" using assms by simp
  then show ?thesis
  proof (induction v)
    case (JString s)
    then show ?case
      using length_truncate_with_marker [of s max_raw_payload_string_bytes] by simp
  next
    case (JArray items)
    then show ?case by (auto simp: foldr_max_le_iff)
  next
    case (JObject fields)
    then show ?case by (fastforce simp: foldr_max_le_iff)
  qed simp_all
qed

text \<open>A text of seven-bit characters: every position is a boundary.\<close>

lemma boundary_cut_ascii:
  assumes "list_all (\<lambda>c. (of_char c :: nat) < 128) s" and "m < length s"
  shows "boundary_cut s m = m"
proof -
  have "(of_char (s ! m) :: nat) < 128" using assms by (simp add: list_all_length)
  then have "is_char_boundary s m" using assms(2) by (simp add: is_char_boundary_def is_continuation_def)
  then show ?thesis by (subst boundary_cut_step) simp
qed

section \<open>Properties\<close>

text \<open>
  Truncation never splits a character: a text that is too long is cut between two of
  its characters, at most three bytes below the limit, and the marker names the number of
  bytes over the limit.
\<close>

theorem truncation_between_chars:
  assumes "list_all utf8_char chs" and "m < length (concat chs)"
  shows "\<exists>k<length chs. truncate_with_marker (concat chs) m
      = concat (take k chs) @ elided_marker (length (concat chs) - m)
    \<and> length (concat (take k chs)) \<le> m \<and> m < length (concat (take k chs)) + 4"
proof -
  from boundary_cut_chars [OF assms, of "[]"] obtain k where k: "k < length chs"
    "boundary_cut (concat chs) m = length (concat (take k chs))"
    "length (concat (take k chs)) \<le> m" "m < length (concat (take k chs)) + 4"
    by auto
  have "take (boundary_cut (concat chs) m) (concat chs) = concat (take k chs)"
    unfolding k(2) by (rule take_length_concat)
  then have "truncate_with_marker (concat chs) m
      = concat (take k chs) @ elided_marker (length (concat chs) - m)"
    using assms(2) unfolding truncate_with_marker_def by (simp add: Let_def del: length_concat)
  with k show ?thesis by blast
qed

theorem truncation_between_chars_witness:
  "\<exists>k<length [''a'', [CHR 0xC3, CHR 0xA9]]. truncate_with_marker (concat [''a'', [CHR 0xC3, CHR 0xA9]]) 2
      = concat (take k [''a'', [CHR 0xC3, CHR 0xA9]]) @ elided_marker (length (concat [''a'', [CHR 0xC3, CHR 0xA9]]) - 2)
    \<and> length (concat (take k [''a'', [CHR 0xC3, CHR 0xA9]])) \<le> 2
    \<and> 2 < length (concat (take k [''a'', [CHR 0xC3, CHR 0xA9]])) + 4"
  by (rule truncation_between_chars) (simp_all add: utf8_char_def is_continuation_def)

text \<open>
  The display string of any payload is bounded, and so is every string inside the
  payload it was printed from: by the two caps and the 44 bytes a marker can take.  The
  scan that avoids the copy is only an optimisation: the result is that of eliding always.
\<close>

theorem payload_display_bounded:
  assumes "longest_string v < 2 ^ 64" and "length (to_string (elide_large_payload_strings v)) < 2 ^ 64"
  shows "length (bounded_payload_display_string to_string v) \<le> max_raw_payload_total_bytes + 44
    \<and> longest_string (elide_large_payload_strings v) \<le> max_raw_payload_string_bytes + 44
    \<and> bounded_payload_display_string to_string v
        = truncate_with_marker (to_string (elide_large_payload_strings v)) max_raw_payload_total_bytes"
proof -
  have eq: "bounded_payload_display_string to_string v
      = truncate_with_marker (to_string (elide_large_payload_strings v)) max_raw_payload_total_bytes"
    by (simp add: bounded_payload_display_string_def Let_def elide_small)
  then show ?thesis
    using longest_string_elide [OF assms(1)] length_truncate_with_marker [OF assms(2)] by simp
qed

theorem payload_display_bounded_witness:
  "length (bounded_payload_display_string (\<lambda>_. ''{}'') (JObject [(''a'', JString ''b'')]))
    \<le> max_raw_payload_total_bytes + 44"
  by (rule conjunct1 [OF payload_display_bounded]) simp_all

text \<open>
  Eliding is not idempotent.  A string that the ingestion has shortened is still above
  the limit, by its own marker, so the display shortens it again: the marker that named the
  number of bytes dropped is cut off and the new one counts the bytes of the old marker.
\<close>

theorem elided_twice_miscounts:
  assumes "list_all (\<lambda>c. (of_char c :: nat) < 128) s" and "max_raw_payload_string_bytes < length s"
  shows "elide_large_payload_strings (elide_large_payload_strings (JString s))
    = JString (take max_raw_payload_string_bytes s
        @ elided_marker (length (elided_marker (length s - max_raw_payload_string_bytes))))"
proof -
  let ?m = max_raw_payload_string_bytes
  let ?t = "take ?m s @ elided_marker (length s - ?m)"
  have once: "truncate_with_marker s ?m = ?t"
    using assms boundary_cut_ascii [OF assms] by (simp add: truncate_with_marker_def Let_def)
  have "is_char_boundary ?t ?m"
    using assms(2) by (simp add: is_char_boundary_def nth_append elided_marker_def is_continuation_def)
  then have "boundary_cut ?t ?m = ?m" by (subst boundary_cut_step) simp
  moreover have "length ?t = ?m + length (elided_marker (length s - ?m))" using assms(2) by simp
  moreover have "0 < length (elided_marker (length s - ?m))" by (simp add: length_elided_marker)
  ultimately have "truncate_with_marker ?t ?m
      = take ?m s @ elided_marker (length (elided_marker (length s - ?m)))"
    using assms(2) by (simp add: truncate_with_marker_def Let_def)
  with once show ?thesis by simp
qed

theorem elided_twice_miscounts_witness:
  "elide_large_payload_strings (elide_large_payload_strings (JString (replicate 1000000 CHR ''A'')))
    = JString (replicate 4096 CHR ''A'' @ elided_marker 30)"
proof -
  let ?s = "replicate 1000000 CHR ''A''"
  have "list_all (\<lambda>c. (of_char c :: nat) < 128) ?s" by (simp add: list_all_iff)
  moreover have "max_raw_payload_string_bytes < length ?s" by (simp add: max_raw_payload_string_bytes_def)
  moreover have "length (show_nat 995904) = 6" by (simp add: show_nat.simps)
  ultimately show ?thesis
    using elided_twice_miscounts [of ?s]
    by (simp add: max_raw_payload_string_bytes_def length_elided_marker)
qed

end
