(* ===== verification/JsonCodec.thy ===== *)
theory JsonCodec
  imports Payload LineCodec
begin

text \<open>
  A concrete serializer and parser of JSON values, one line per value: a value becomes a list
  of tokens, with the lengths of arrays and objects, and the tokens are written by the codec of
  string lists.  It instantiates the contract of \<open>serde_json\<close> for the witnesses of the
  components whose files hold arbitrary values.
\<close>

primrec json_tokens :: "json \<Rightarrow> string list" where
  "json_tokens JNull = [''null'']"
| "json_tokens (JBool b) = [''bool'', enc_bool b]"
| "json_tokens (JNumber n) = [''number'', n]"
| "json_tokens (JString s) = [''string'', s]"
| "json_tokens (JArray vs) = ''array'' # show_nat (length vs) # concat (map json_tokens vs)"
| "json_tokens (JObject kvs) =
     ''object'' # show_nat (length kvs) # concat (map (\<lambda>(k, ts). k # ts) (map (map_prod id json_tokens) kvs))"

fun parse_many :: "(string list \<Rightarrow> ('v \<times> string list) option) \<Rightarrow> nat \<Rightarrow> string list \<Rightarrow> ('v list \<times> string list) option"
where
  "parse_many p 0 ts = Some ([], ts)"
| "parse_many p (Suc n) ts =
     (case p ts of None \<Rightarrow> None | Some (v, ts') \<Rightarrow> map_option (apfst (Cons v)) (parse_many p n ts'))"

definition parse_entry ::
  "(string list \<Rightarrow> (json \<times> string list) option) \<Rightarrow> string list \<Rightarrow> ((string \<times> json) \<times> string list) option"
where
  "parse_entry p ts = (case ts of [] \<Rightarrow> None | k # ts' \<Rightarrow> map_option (apfst (Pair k)) (p ts'))"

fun parse_json :: "nat \<Rightarrow> string list \<Rightarrow> (json \<times> string list) option" where
  "parse_json 0 ts = None"
| "parse_json (Suc fuel) ts =
     (case ts of
        [] \<Rightarrow> None
      | t # ts' \<Rightarrow>
          if t = ''null'' then Some (JNull, ts')
          else (case ts' of
            [] \<Rightarrow> None
          | a # rest \<Rightarrow>
              if t = ''bool'' then map_option (\<lambda>b. (JBool b, rest)) (dec_bool a)
              else if t = ''number'' then Some (JNumber a, rest)
              else if t = ''string'' then Some (JString a, rest)
              else if t = ''array'' then map_option (apfst JArray) (parse_many (parse_json fuel) (read_nat a) rest)
              else if t = ''object'' then map_option (apfst JObject) (parse_many (parse_entry (parse_json fuel)) (read_nat a) rest)
              else None))"

lemma parse_many_concat:
  assumes "\<And>v rest. v \<in> set vs \<Longrightarrow> p (enc v @ rest) = Some (v, rest)"
  shows "parse_many p (length vs) (concat (map enc vs) @ rest) = Some (vs, rest)"
  using assms by (induction vs) simp_all

lemma length_concat_ge: "x \<in> set xs \<Longrightarrow> length (f x) \<le> length (concat (map f xs))"
  by (induction xs) auto

lemma parse_json_tokens: "length (json_tokens v) \<le> fuel \<Longrightarrow> parse_json fuel (json_tokens v @ rest) = Some (v, rest)"
proof (induction v arbitrary: fuel rest)
  case (JArray vs)
  then obtain f where fuel: "fuel = Suc f" "length (concat (map json_tokens vs)) \<le> f" by (cases fuel) auto
  have "parse_many (parse_json f) (length vs) (concat (map json_tokens vs) @ rest) = Some (vs, rest)"
  proof (rule parse_many_concat)
    fix v rest assume v: "v \<in> set vs"
    then have "length (json_tokens v) \<le> f"
      using fuel(2) length_concat_ge [of v vs json_tokens] by linarith
    with JArray.IH [OF v] show "parse_json f (json_tokens v @ rest) = Some (v, rest)" by blast
  qed
  then show ?case by (simp add: fuel(1))
next
  case (JObject kvs)
  let ?enc = "\<lambda>(k, v). k # json_tokens v"
  have tokens: "json_tokens (JObject kvs) = ''object'' # show_nat (length kvs) # concat (map ?enc kvs)"
    by (simp add: comp_def case_prod_unfold)
  obtain f where fuel: "fuel = Suc f" "length (concat (map ?enc kvs)) \<le> f"
    using JObject.prems unfolding tokens by (cases fuel) auto
  have "parse_many (parse_entry (parse_json f)) (length kvs) (concat (map ?enc kvs) @ rest) = Some (kvs, rest)"
  proof (rule parse_many_concat)
    fix kv rest assume kv: "kv \<in> set kvs"
    then have "length (?enc kv) \<le> f"
      using fuel(2) length_concat_ge [of kv kvs ?enc] by linarith
    with JObject.IH [OF kv, of "snd kv" f rest] show "parse_entry (parse_json f) (?enc kv @ rest) = Some (kv, rest)"
      by (cases kv) (simp add: parse_entry_def)
  qed
  then show ?case unfolding tokens by (simp add: fuel(1))
next
  case JNull
  then show ?case by (cases fuel) simp_all
next
  case (JBool b)
  then show ?case by (cases fuel) simp_all
next
  case (JNumber n)
  then show ?case by (cases fuel) simp_all
next
  case (JString s)
  then show ?case by (cases fuel) simp_all
qed

definition json_of_tokens :: "string list \<Rightarrow> json option" where
  "json_of_tokens ts =
     (case parse_json (length ts) ts of Some (v, []) \<Rightarrow> Some v | _ \<Rightarrow> None)"

lemma json_of_json_tokens: "json_of_tokens (json_tokens v) = Some v"
  using parse_json_tokens [of v "length (json_tokens v)" "[]"] by (simp add: json_of_tokens_def)

definition ser_json :: "json \<Rightarrow> string" where
  "ser_json v = enc_fields (json_tokens v)"

definition de_json :: "string \<Rightarrow> json option" where
  "de_json s = Option.bind (dec_fields s) json_of_tokens"

interpretation json_codec: line_codec ser_json de_json
  using line_codec_via_fields [of json_of_tokens json_tokens] json_of_json_tokens
  by (simp add: ser_json_def [abs_def] de_json_def [abs_def])

end
