(* ===== verification/RowDiff.thy ===== *)
theory RowDiff
  imports Prelude "HOL-Library.Sublist"
begin

text \<open>
  The keyed row diff of \<open>panel-rust/src/dirty.rs\<close> (\<open>RowOp\<close>, \<open>diff_by_id\<close>) and its
  consumer \<open>panel-rust/src/list_model.rs\<close> (\<open>reconcile\<close>).  A diff is a sequence of
  \<open>Insert\<close>, \<open>Remove\<close> and \<open>Move\<close> operations that a persistent row model applies in
  order.  Duplicate-free key lists take the move-preserving working-list path, others
  the longest-common-subsequence fallback; both are modelled, with the dynamic
  programming table of the fallback built row by row as in the source.
\<close>

section \<open>Row operations\<close>

datatype 'a row_op = Insert nat 'a | Remove nat | Move nat nat

text \<open>
  \<open>Vec::insert\<close> panics beyond the length, \<open>Vec::remove\<close> at or beyond it: a panic is
  \<open>None\<close>.
\<close>

fun apply_op :: "'a list \<Rightarrow> 'a row_op \<Rightarrow> 'a list option" where
  "apply_op xs (Insert at row) = (if at \<le> length xs then Some (insert_at at row xs) else None)"
| "apply_op xs (Remove at) = (if at < length xs then Some (remove_at at xs) else None)"
| "apply_op xs (Move from to) =
     (if from < length xs
      then (let ys = remove_at from xs
            in if to \<le> length ys then Some (insert_at to (xs ! from) ys) else None)
      else None)"

fun apply_ops :: "'a list \<Rightarrow> 'a row_op list \<Rightarrow> 'a list option" where
  "apply_ops xs [] = Some xs"
| "apply_ops xs (op # ops) =
     (case apply_op xs op of None \<Rightarrow> None | Some ys \<Rightarrow> apply_ops ys ops)"

section \<open>The diff of duplicate-free keys\<close>

definition unique_keys :: "'k list \<Rightarrow> bool" where
  "unique_keys keys = list_all (\<lambda>idx. \<not> list_ex (\<lambda>prior. prior = keys ! idx) (take idx keys))
     [0..<length keys]"

text \<open>
  The loop over \<open>new_keys.iter().enumerate()\<close>: \<open>working\<close> is the list being transformed,
  \<open>target\<close> the loop index.
\<close>

fun diff_place :: "'k list \<Rightarrow> nat \<Rightarrow> 'k list \<Rightarrow> 'a list \<Rightarrow> 'k list \<times> 'a row_op list" where
  "diff_place working target [] new_rows = (working, [])"
| "diff_place working target (key # keys) new_rows =
     (if target < length working \<and> working ! target = key
      then diff_place working (Suc target) keys new_rows
      else case position (\<lambda>candidate. candidate = key) (drop target working) of
        Some offset \<Rightarrow>
          (let from = target + offset;
               moved = working ! from;
               working' = insert_at target moved (remove_at from working);
               (w, ops) = diff_place working' (Suc target) keys new_rows
           in (w, Move from target # ops))
      | None \<Rightarrow>
          (let working' = insert_at target key working;
               (w, ops) = diff_place working' (Suc target) keys new_rows
           in (w, Insert target (new_rows ! target) # ops)))"

text \<open>\<open>while working.len() > new_keys.len()\<close>: pop the surplus rows from the end.\<close>

fun diff_trim :: "nat \<Rightarrow> nat \<Rightarrow> 'a row_op list" where
  "diff_trim 0 n = []"
| "diff_trim (Suc w) n = (if n < Suc w then Remove w # diff_trim w n else [])"

definition diff_unique :: "'k list \<Rightarrow> 'k list \<Rightarrow> 'a list \<Rightarrow> 'a row_op list" where
  "diff_unique old_keys new_keys new_rows =
     (let (working, ops) = diff_place old_keys 0 new_keys new_rows
      in ops @ diff_trim (length working) (length new_keys))"

section \<open>The longest-common-subsequence fallback\<close>

text \<open>
  One row of the table: \<open>lcs_row x ys prev left\<close> fills the cells for the key \<open>x\<close> of
  the old list from the row above (\<open>prev\<close>) and the cell to the left.
\<close>

fun lcs_row :: "'k \<Rightarrow> 'k list \<Rightarrow> nat list \<Rightarrow> nat \<Rightarrow> nat list" where
  "lcs_row x (y # ys) (diag # up # prev) left =
     (let v = (if x = y then diag + 1 else max up left)
      in v # lcs_row x ys (up # prev) v)"
| "lcs_row x _ _ left = []"

fun lcs_rows :: "nat list \<Rightarrow> 'k list \<Rightarrow> 'k list \<Rightarrow> nat list list" where
  "lcs_rows row [] new_keys = [row]"
| "lcs_rows row (x # xs) new_keys =
     row # lcs_rows (0 # lcs_row x new_keys row 0) xs new_keys"

definition lcs_table :: "'k list \<Rightarrow> 'k list \<Rightarrow> nat list list" where
  "lcs_table old_keys new_keys =
     lcs_rows (replicate (length new_keys + 1) 0) old_keys new_keys"

datatype diff_step = KeepStep | RemoveStep | InsertStep

text \<open>The backward walk through the table; the steps come out last one first.\<close>

function lcs_walk :: "nat list list \<Rightarrow> 'k list \<Rightarrow> 'k list \<Rightarrow> nat \<Rightarrow> nat \<Rightarrow> diff_step list" where
  "lcs_walk lcs old_keys new_keys i j =
     (if i > 0 \<or> j > 0 then
        (if i > 0 \<and> j > 0 \<and> old_keys ! (i - 1) = new_keys ! (j - 1)
         then KeepStep # lcs_walk lcs old_keys new_keys (i - 1) (j - 1)
         else if j > 0 \<and> (i = 0 \<or> lcs ! i ! (j - 1) \<ge> lcs ! (i - 1) ! j)
         then InsertStep # lcs_walk lcs old_keys new_keys i (j - 1)
         else RemoveStep # lcs_walk lcs old_keys new_keys (i - 1) j)
      else [])"
  by pat_completeness auto
termination
  by (relation "measure (\<lambda>(lcs, old_keys, new_keys, i, j). i + j)") auto

declare lcs_walk.simps [simp del]

text \<open>The forward emission: \<open>pos\<close> is the position in the working list.\<close>

fun emit_steps :: "diff_step list \<Rightarrow> nat \<Rightarrow> nat \<Rightarrow> 'a list \<Rightarrow> 'a row_op list" where
  "emit_steps [] pos new_idx new_rows = []"
| "emit_steps (KeepStep # steps) pos new_idx new_rows =
     emit_steps steps (pos + 1) (new_idx + 1) new_rows"
| "emit_steps (RemoveStep # steps) pos new_idx new_rows =
     Remove pos # emit_steps steps pos new_idx new_rows"
| "emit_steps (InsertStep # steps) pos new_idx new_rows =
     Insert pos (new_rows ! new_idx) # emit_steps steps (pos + 1) (new_idx + 1) new_rows"

definition diff_lcs :: "'k list \<Rightarrow> 'k list \<Rightarrow> 'a list \<Rightarrow> 'a row_op list" where
  "diff_lcs old_keys new_keys new_rows =
     emit_steps
       (rev (lcs_walk (lcs_table old_keys new_keys) old_keys new_keys
          (length old_keys) (length new_keys)))
       0 0 new_rows"

text \<open>
  The whole function.  \<open>None\<close> is the failure of its \<open>debug_assert_eq!\<close> on the lengths
  of \<open>new_keys\<close> and \<open>new_rows\<close>.
\<close>

definition diff_by_id :: "'k list \<Rightarrow> 'k list \<Rightarrow> 'a list \<Rightarrow> 'a row_op list option" where
  "diff_by_id old_keys new_keys new_rows =
     (if length new_keys \<noteq> length new_rows then None
      else if unique_keys old_keys \<and> unique_keys new_keys
      then Some (diff_unique old_keys new_keys new_rows)
      else Some (diff_lcs old_keys new_keys new_rows))"

section \<open>Applying operations\<close>

lemma apply_ops_append:
  "apply_ops xs (ops @ ops') =
     (case apply_ops xs ops of None \<Rightarrow> None | Some ys \<Rightarrow> apply_ops ys ops')"
  by (induction ops arbitrary: xs) (auto split: option.splits)

lemma unique_keys_distinct: "unique_keys keys = distinct keys"
proof -
  have "unique_keys keys \<longleftrightarrow> (\<forall>i<length keys. \<forall>j<i. keys ! j \<noteq> keys ! i)"
    by (auto simp: unique_keys_def list_all_iff list_ex_iff in_set_conv_nth)
  also have "\<dots> \<longleftrightarrow> distinct keys"
    by (auto simp: distinct_conv_nth) (metis linorder_neqE_nat)
  finally show ?thesis .
qed

lemma apply_ops_trim:
  "length xs = w \<Longrightarrow> n \<le> w \<Longrightarrow> apply_ops xs (diff_trim w n) = Some (take n xs)"
proof (induction w arbitrary: xs)
  case 0
  then show ?case by simp
next
  case (Suc w)
  show ?case
  proof (cases "n < Suc w")
    case True
    with Suc.prems have "apply_ops (take w xs) (diff_trim w n) = Some (take n (take w xs))"
      by (intro Suc.IH) auto
    moreover have "remove_at w xs = take w xs" using Suc.prems by (simp add: remove_at_def)
    ultimately show ?thesis using True Suc.prems by simp
  next
    case False
    with Suc.prems show ?thesis by simp
  qed
qed

section \<open>Correctness of the move-preserving path\<close>

lemma take_Suc_insert_at:
  "target \<le> length xs \<Longrightarrow> take (Suc target) (insert_at target x xs) = take target xs @ [x]"
  by (simp add: insert_at_def)

lemma take_remove_at: "target \<le> i \<Longrightarrow> take target (remove_at i xs) = take target xs"
  by (simp add: remove_at_def min_def)

lemma list_all2_insert_at:
  "list_all2 R xs ys \<Longrightarrow> R x y \<Longrightarrow> list_all2 R (insert_at i x xs) (insert_at i y ys)"
  by (auto simp: insert_at_def intro!: list_all2_appendI list_all2_takeI list_all2_dropI)

lemma list_all2_remove_at:
  "list_all2 R xs ys \<Longrightarrow> list_all2 R (remove_at i xs) (remove_at i ys)"
  by (auto simp: remove_at_def intro!: list_all2_appendI list_all2_takeI list_all2_dropI)

text \<open>
  Rows and keys are related by an arbitrary \<open>R\<close>: \<open>\<lambda>row key. f row = key\<close> says that the
  rows carry their keys, the full relation says only that the lists have one length.
  One step of the loop puts \<open>key\<close> at index \<open>target\<close> and leaves the rows before it alone;
  the rows carried along are those whose keys \<open>working\<close> lists.
\<close>

lemma new_rows_head:
  assumes "list_all2 R (drop target new_rows) (key # keys)"
  shows "target < length new_rows" and "R (new_rows ! target) key"
    and "list_all2 R (drop (Suc target) new_rows) keys"
proof -
  show bound: "target < length new_rows" using assms by (metis drop_all leI list_all2_Nil list.discI)
  with assms show "R (new_rows ! target) key" and "list_all2 R (drop (Suc target) new_rows) keys"
    by (simp_all add: Cons_nth_drop_Suc [symmetric])
qed

lemma diff_place_correct:
  assumes "list_all2 R xs working" and "target \<le> length working"
    and "list_all2 R (drop target new_rows) keys"
    and "diff_place working target keys new_rows = (w, ops)"
  shows "\<exists>ys. apply_ops xs ops = Some ys \<and> list_all2 R ys w \<and> target + length keys \<le> length w
    \<and> take (target + length keys) w = take target working @ keys"
  using assms
proof (induction keys arbitrary: working target xs ops w)
  case Nil
  then show ?case by auto
next
  case (Cons key keys)
  note row = new_rows_head [OF Cons.prems(3)]
  have len: "length xs = length working" using Cons.prems(1) by (rule list_all2_lengthD)
  show ?case
  proof (cases "target < length working \<and> working ! target = key")
    case True
    then have "take (Suc target) working = take target working @ [key]"
      by (simp add: take_Suc_conv_app_nth)
    with True Cons.IH [OF Cons.prems(1) _ row(3), of w ops] Cons.prems(4) show ?thesis
      by simp
  next
    case here: False
    show ?thesis
    proof (cases "position (\<lambda>c. c = key) (drop target working)")
      case (Some offset)
      let ?from = "target + offset"
      let ?working' = "insert_at target (working ! ?from) (remove_at ?from working)"
      let ?xs' = "insert_at target (xs ! ?from) (remove_at ?from xs)"
      from position_SomeD [OF Some] have bound: "?from < length working"
        and key: "working ! ?from = key" by auto
      obtain ops' where rec: "diff_place ?working' (Suc target) keys new_rows = (w, ops')"
        and ops: "ops = Move ?from target # ops'"
        using Cons.prems(4) here Some by (auto simp: Let_def split: prod.splits)
      have "list_all2 R ?xs' ?working'"
        by (intro list_all2_insert_at list_all2_remove_at list_all2_nthD2 [OF Cons.prems(1) bound]
            Cons.prems(1))
      moreover have "Suc target \<le> length ?working'" using bound by simp
      moreover have "take (Suc target) ?working' = take target working @ [key]"
        using bound key by (simp add: take_Suc_insert_at take_remove_at)
      ultimately obtain ys where "apply_ops ?xs' ops' = Some ys" "list_all2 R ys w"
        "Suc target + length keys \<le> length w"
        "take (Suc target + length keys) w = take target working @ key # keys"
        using Cons.IH [of ?xs' ?working', OF _ _ row(3) rec] by auto
      with ops bound len show ?thesis by (auto simp: Let_def)
    next
      case None
      let ?working' = "insert_at target key working"
      let ?xs' = "insert_at target (new_rows ! target) xs"
      obtain ops' where rec: "diff_place ?working' (Suc target) keys new_rows = (w, ops')"
        and ops: "ops = Insert target (new_rows ! target) # ops'"
        using Cons.prems(4) here None by (auto simp: Let_def split: prod.splits)
      have "list_all2 R ?xs' ?working'" using Cons.prems(1) row(2) by (rule list_all2_insert_at)
      moreover have "Suc target \<le> length ?working'" using Cons.prems(2) by simp
      moreover have "take (Suc target) ?working' = take target working @ [key]"
        using Cons.prems(2) by (simp add: take_Suc_insert_at)
      ultimately obtain ys where "apply_ops ?xs' ops' = Some ys" "list_all2 R ys w"
        "Suc target + length keys \<le> length w"
        "take (Suc target + length keys) w = take target working @ key # keys"
        using Cons.IH [of ?xs' ?working', OF _ _ row(3) rec] by auto
      with ops Cons.prems(2) len show ?thesis by auto
    qed
  qed
qed

lemma diff_unique_correct:
  assumes "list_all2 R xs old_keys" and "list_all2 R new_rows new_keys"
  shows "\<exists>ys. apply_ops xs (diff_unique old_keys new_keys new_rows) = Some ys
    \<and> list_all2 R ys new_keys"
proof -
  obtain w ops where place: "diff_place old_keys 0 new_keys new_rows = (w, ops)"
    by (cases "diff_place old_keys 0 new_keys new_rows")
  from assms diff_place_correct [of R xs old_keys 0 new_rows new_keys w ops, OF _ _ _ place]
  obtain ys where ys: "apply_ops xs ops = Some ys" "list_all2 R ys w"
    "length new_keys \<le> length w" "take (length new_keys) w = new_keys"
    by auto
  have "apply_ops ys (diff_trim (length w) (length new_keys)) = Some (take (length new_keys) ys)"
    using ys by (intro apply_ops_trim) (auto dest: list_all2_lengthD)
  moreover have "list_all2 R (take (length new_keys) ys) new_keys"
    using list_all2_takeI [OF ys(2), of "length new_keys"] ys(4) by simp
  ultimately show ?thesis
    using place ys(1) by (simp add: diff_unique_def apply_ops_append)
qed

section \<open>Correctness of the fallback\<close>

text \<open>
  An edit script for two key lists: it consumes the old list and produces the new one.
\<close>

fun script_for :: "diff_step list \<Rightarrow> 'k list \<Rightarrow> 'k list \<Rightarrow> bool" where
  "script_for [] [] [] = True"
| "script_for (KeepStep # steps) (x # xs) (y # ys) = (x = y \<and> script_for steps xs ys)"
| "script_for (RemoveStep # steps) (x # xs) ys = script_for steps xs ys"
| "script_for (InsertStep # steps) xs (y # ys) = script_for steps xs ys"
| "script_for _ _ _ = False"

lemma script_for_snoc:
  "script_for steps xs ys \<Longrightarrow> script_for (steps @ [KeepStep]) (xs @ [z]) (ys @ [z])"
  "script_for steps xs ys \<Longrightarrow> script_for (steps @ [RemoveStep]) (xs @ [x]) ys"
  "script_for steps xs ys \<Longrightarrow> script_for (steps @ [InsertStep]) xs (ys @ [y])"
  by (induction steps xs ys rule: script_for.induct) auto

text \<open>Whatever the table holds, the walk is a script for the two prefixes.\<close>

lemma lcs_walk_script:
  "i \<le> length old_keys \<Longrightarrow> j \<le> length new_keys \<Longrightarrow>
   script_for (rev (lcs_walk lcs old_keys new_keys i j)) (take i old_keys) (take j new_keys)"
proof (induction lcs old_keys new_keys i j rule: lcs_walk.induct)
  case (1 lcs old_keys new_keys i j)
  have snoc: "take k zs = take (k - 1) zs @ [zs ! (k - 1)]" if "0 < k" "k \<le> length zs"
    for k and zs :: "'a list"
    using that by (cases k) (auto simp: take_Suc_conv_app_nth)
  consider (keep) "i > 0" "j > 0" "old_keys ! (i - 1) = new_keys ! (j - 1)"
    | (ins) "\<not> (i > 0 \<and> j > 0 \<and> old_keys ! (i - 1) = new_keys ! (j - 1))" "j > 0"
        "i = 0 \<or> lcs ! i ! (j - 1) \<ge> lcs ! (i - 1) ! j"
    | (rem) "\<not> (i > 0 \<and> j > 0 \<and> old_keys ! (i - 1) = new_keys ! (j - 1))" "i > 0"
        "\<not> (j > 0 \<and> (i = 0 \<or> lcs ! i ! (j - 1) \<ge> lcs ! (i - 1) ! j))"
    | (stop) "i = 0" "j = 0"
    by auto
  then show ?case
  proof cases
    case keep
    with 1 show ?thesis
      by (simp add: lcs_walk.simps [of lcs old_keys new_keys i j] script_for_snoc
          snoc [of i old_keys] snoc [of j new_keys])
  next
    case ins
    with 1 show ?thesis
      by (auto simp: lcs_walk.simps [of lcs old_keys new_keys i j] snoc [of j new_keys]
          intro: script_for_snoc)
  next
    case rem
    with 1 show ?thesis
      by (auto simp: lcs_walk.simps [of lcs old_keys new_keys i j] snoc [of i old_keys]
          intro: script_for_snoc)
  next
    case stop
    then show ?thesis by (simp add: lcs_walk.simps [of lcs old_keys new_keys 0 0])
  qed
qed

lemma emit_steps_correct:
  assumes "script_for steps ks ns" and "list_all2 R rest ks" and "length before = pos"
    and "list_all2 R (drop new_idx new_rows) ns"
  shows "\<exists>zs. apply_ops (before @ rest) (emit_steps steps pos new_idx new_rows) = Some (before @ zs)
    \<and> list_all2 R zs ns"
  using assms
proof (induction steps ks ns arbitrary: before rest pos new_idx rule: script_for.induct)
  case (2 steps x xs y ys)
  from 2(3) obtain r rest' where rest: "rest = r # rest'" "R r x" "list_all2 R rest' xs"
    by (auto simp: list_all2_Cons2)
  note row = new_rows_head [OF 2(5)]
  from 2(1) [of rest' "before @ [r]" "pos + 1" "new_idx + 1"] 2(2,4) rest row show ?case
    by force
next
  case (3 steps x xs ys)
  from 3(3) obtain r rest' where "rest = r # rest'" "list_all2 R rest' xs"
    by (auto simp: list_all2_Cons2)
  with 3 show ?case by (auto simp: remove_at_def)
next
  case (4 steps xs y ys)
  note row = new_rows_head [OF 4(5)]
  from 4(1) [of rest "before @ [new_rows ! new_idx]" "pos + 1" "new_idx + 1"] 4(2-4) row
  obtain zs where "apply_ops (before @ new_rows ! new_idx # rest)
      (emit_steps steps (pos + 1) (new_idx + 1) new_rows) = Some (before @ new_rows ! new_idx # zs)"
    and "list_all2 R zs ys"
    by auto
  with row 4(4) show ?case by (auto simp: insert_at_def)
qed auto

lemma diff_lcs_correct:
  assumes "list_all2 R xs old_keys" and "list_all2 R new_rows new_keys"
  shows "\<exists>ys. apply_ops xs (diff_lcs old_keys new_keys new_rows) = Some ys
    \<and> list_all2 R ys new_keys"
  using emit_steps_correct [of _ old_keys new_keys R xs "[]" 0 0 new_rows]
    lcs_walk_script [of "length old_keys" old_keys "length new_keys" new_keys] assms
  by (simp add: diff_lcs_def)

lemma diff_by_id_correct:
  assumes "list_all2 R xs old_keys" and "list_all2 R new_rows new_keys"
  shows "\<exists>ops ys. diff_by_id old_keys new_keys new_rows = Some ops \<and> apply_ops xs ops = Some ys
    \<and> list_all2 R ys new_keys"
  using diff_unique_correct [OF assms] diff_lcs_correct [OF assms] list_all2_lengthD [OF assms(2)]
  by (auto simp: diff_by_id_def)

section \<open>The table holds longest-common-subsequence lengths\<close>

fun lcs_ref :: "'k list \<Rightarrow> 'k list \<Rightarrow> nat \<Rightarrow> nat \<Rightarrow> nat" where
  "lcs_ref xs ys (Suc i) (Suc j) =
     (if xs ! i = ys ! j then lcs_ref xs ys i j + 1
      else max (lcs_ref xs ys i (Suc j)) (lcs_ref xs ys (Suc i) j))"
| "lcs_ref xs ys _ _ = 0"

lemma lcs_ref_0 [simp]: "lcs_ref xs ys 0 j = 0" "lcs_ref xs ys i 0 = 0"
  by (cases i; simp)+

lemma lcs_row_length: "length prev = Suc (length ys) \<Longrightarrow> length (lcs_row x ys prev left) = length ys"
  by (induction x ys prev left rule: lcs_row.induct) (auto simp: Let_def)

lemma lcs_row_nth:
  assumes "\<forall>k\<le>length ys. prev ! k = lcs_ref old new i (j0 + k)" and "length prev = Suc (length ys)"
    and "left = lcs_ref old new (Suc i) j0" and "x = old ! i" and "ys = drop j0 new"
    and "k < length ys"
  shows "lcs_row x ys prev left ! k = lcs_ref old new (Suc i) (Suc (j0 + k))"
  using assms
proof (induction x ys prev left arbitrary: j0 k rule: lcs_row.induct)
  case (1 x y ys diag up prev left)
  let ?v = "if x = y then diag + 1 else max up left"
  have "j0 < length new" using 1(6) by (metis drop_all leI list.discI)
  with 1(6) have y: "y = new ! j0" and ys: "ys = drop (Suc j0) new"
    by (simp_all add: Cons_nth_drop_Suc [symmetric])
  have "diag = lcs_ref old new i j0" "up = lcs_ref old new i (Suc j0)"
    using 1(2) [rule_format, of 0] 1(2) [rule_format, of 1] by simp_all
  then have v: "?v = lcs_ref old new (Suc i) (Suc j0)" using 1(4,5) y by simp
  show ?case
  proof (cases k)
    case 0
    with v show ?thesis by (simp add: Let_def)
  next
    case (Suc k')
    have "\<forall>m\<le>length ys. (up # prev) ! m = lcs_ref old new i (Suc j0 + m)"
      using 1(2) by (metis Suc_le_mono add_Suc_shift length_Cons nth_Cons_Suc)
    from 1(1) [OF refl this _ v _ ys, of k'] 1(3,5,7) Suc show ?thesis
      by (simp add: Let_def)
  qed
qed auto

lemma lcs_rows_nth:
  assumes "\<forall>j\<le>length new. row ! j = lcs_ref old new i0 j" and "length row = Suc (length new)"
    and "xs = drop i0 old" and "k \<le> length xs" and "j \<le> length new"
  shows "lcs_rows row xs new ! k ! j = lcs_ref old new (i0 + k) j"
  using assms
proof (induction xs arbitrary: row i0 k)
  case Nil
  then show ?case by simp
next
  case (Cons x xs)
  show ?case
  proof (cases k)
    case 0
    with Cons.prems(1,5) show ?thesis by simp
  next
    case (Suc k')
    have "i0 < length old" using Cons.prems(3) by (metis drop_all leI list.discI)
    with Cons.prems(3) have x: "x = old ! i0" and xs: "xs = drop (Suc i0) old"
      by (simp_all add: Cons_nth_drop_Suc [symmetric])
    let ?next = "0 # lcs_row x new row 0"
    have "\<forall>j\<le>length new. ?next ! j = lcs_ref old new (Suc i0) j"
    proof (intro allI impI)
      fix j assume "j \<le> length new"
      then show "?next ! j = lcs_ref old new (Suc i0) j"
        using lcs_row_nth [of new row old new i0 0 0 x "j - 1"] Cons.prems(1,2) x
        by (cases j) auto
    qed
    moreover have "length ?next = Suc (length new)"
      using Cons.prems(2) by (simp add: lcs_row_length)
    ultimately have "lcs_rows ?next xs new ! k' ! j = lcs_ref old new (Suc i0 + k') j"
      using xs Cons.prems(4,5) Suc by (intro Cons.IH) auto
    with Suc show ?thesis by simp
  qed
qed

lemma lcs_table_nth:
  "i \<le> length old \<Longrightarrow> j \<le> length new \<Longrightarrow> lcs_table old new ! i ! j = lcs_ref old new i j"
  using lcs_rows_nth [of new "replicate (length new + 1) 0" old 0 old i j]
  by (simp add: lcs_table_def nth_append del: replicate_Suc)

text \<open>The reference value is the length of a longest common subsequence.\<close>

lemma subseq_snoc_iff:
  "subseq (zs @ [z]) (xs @ [x]) \<longleftrightarrow> (if z = x then subseq zs xs else subseq (zs @ [z]) xs)"
proof (cases "z = x")
  case False
  show ?thesis
  proof
    assume "subseq (zs @ [z]) (xs @ [x])"
    then obtain us vs where split: "zs @ [z] = us @ vs" "subseq us xs" "subseq vs [x]"
      by (auto simp: subseq_append_iff)
    from split(3) have "vs = [] \<or> vs = [x]" by (cases vs) (auto simp: subseq_Cons2_iff split: if_splits)
    with split False have "subseq (zs @ [z]) xs" by auto
    with False show "if z = x then subseq zs xs else subseq (zs @ [z]) xs" by simp
  next
    assume "if z = x then subseq zs xs else subseq (zs @ [z]) xs"
    with False show "subseq (zs @ [z]) (xs @ [x])" by (simp add: subseq_rev_drop_many)
  qed
qed simp

lemma lcs_ref_upper:
  "subseq zs (take i xs) \<Longrightarrow> subseq zs (take j ys) \<Longrightarrow> i \<le> length xs \<Longrightarrow> j \<le> length ys \<Longrightarrow>
   length zs \<le> lcs_ref xs ys i j"
proof (induction xs ys i j arbitrary: zs rule: lcs_ref.induct)
  case (1 xs ys i j)
  have parts: "take (Suc i) xs = take i xs @ [xs ! i]" "take (Suc j) ys = take j ys @ [ys ! j]"
    using 1 by (simp_all add: take_Suc_conv_app_nth)
  show ?case
  proof (cases zs rule: rev_cases)
    case (snoc us z)
    have either: "if z = xs ! i then subseq us (take i xs) else subseq zs (take i xs)"
      "if z = ys ! j then subseq us (take j ys) else subseq zs (take j ys)"
      using 1(4,5) unfolding parts snoc subseq_snoc_iff by simp_all
    have weak: "subseq us (take i xs)" "subseq us (take j ys)"
      using either snoc by (auto split: if_splits intro: subseq_order.trans subseq_rev_drop_many)
    show ?thesis
    proof (cases "xs ! i = ys ! j")
      case True
      with 1(1) [OF True weak] 1(6,7) snoc show ?thesis by simp
    next
      case False
      then have "z \<noteq> xs ! i \<or> z \<noteq> ys ! j" by auto
      then show ?thesis
      proof
        assume "z \<noteq> xs ! i"
        with either have "subseq zs (take i xs)" by simp
        with 1(2) [OF False this 1(5)] 1(6,7) False show ?thesis by simp
      next
        assume "z \<noteq> ys ! j"
        with either have "subseq zs (take j ys)" by simp
        with 1(3) [OF False 1(4) this] 1(6,7) False show ?thesis by simp
      qed
    qed
  qed simp
qed auto

text \<open>The walk keeps exactly that many rows, so the script is as short as it can be.\<close>

definition is_keep :: "diff_step \<Rightarrow> bool" where
  "is_keep step = (step = KeepStep)"

lemma lcs_walk_keeps:
  "lcs = lcs_table old new \<Longrightarrow> i \<le> length old \<Longrightarrow> j \<le> length new \<Longrightarrow>
   length (filter is_keep (lcs_walk lcs old new i j)) = lcs_ref old new i j
   \<and> length (lcs_walk lcs old new i j) + lcs_ref old new i j = i + j"
proof (induction lcs old new i j rule: lcs_walk.induct)
  case (1 lcs old new i j)
  note unfold = lcs_walk.simps [of lcs old new i j]
  show ?case
  proof (cases "i = 0 \<or> j = 0")
    case True
    then show ?thesis
      using 1 unfold by (cases i; cases j) (auto simp: is_keep_def)
  next
    case False
    then obtain i' j' where ij: "i = Suc i'" "j = Suc j'"
      by (cases i; cases j) auto
    have cells: "lcs ! Suc i' ! j' = lcs_ref old new (Suc i') j'"
      "lcs ! i' ! Suc j' = lcs_ref old new i' (Suc j')"
      using 1(4-6) ij by (auto simp: lcs_table_nth)
    show ?thesis
      using 1 ij cells unfold by (auto simp: is_keep_def max_def)
  qed
qed

lemma length_emit_steps:
  "length (emit_steps steps pos new_idx new_rows) + length (filter is_keep steps) = length steps"
  by (induction steps pos new_idx new_rows rule: emit_steps.induct) (auto simp: is_keep_def)

lemma length_diff_lcs:
  "length (diff_lcs old new new_rows) + 2 * lcs_ref old new (length old) (length new)
   = length old + length new"
  using length_emit_steps [of "rev (lcs_walk (lcs_table old new) old new (length old) (length new))"
      0 0 new_rows]
    lcs_walk_keeps [of "lcs_table old new" old new "length old" "length new"]
  by (simp add: diff_lcs_def rev_filter [symmetric])

fun moves_nothing :: "'a row_op \<Rightarrow> bool" where
  "moves_nothing (Move from to) = False"
| "moves_nothing _ = True"

lemma subseq_drop_one:
  assumes "subseq zs (us @ x # vs)"
  shows "\<exists>zs'. subseq zs' (us @ vs) \<and> subseq zs' zs \<and> length zs \<le> length zs' + 1"
proof -
  from assms obtain as bs where zs: "zs = as @ bs" "subseq as us" "subseq bs (x # vs)"
    by (auto elim: subseq_appendE)
  show ?thesis
  proof (cases "subseq bs vs")
    case True
    with zs show ?thesis by (intro exI [of _ zs]) (auto intro: list_emb_append_mono)
  next
    case False
    with zs(3) obtain bs' where "bs = x # bs'" "subseq bs' vs"
      by (cases bs) (auto simp: subseq_Cons2_iff split: if_splits)
    with zs show ?thesis
      by (intro exI [of _ "as @ bs'"]) (auto intro: list_emb_append_mono)
  qed
qed

text \<open>Any sequence of insertions and removals leaves a common subsequence behind.\<close>

lemma ops_common_subseq:
  "apply_ops xs ops = Some ys \<Longrightarrow> list_all moves_nothing ops \<Longrightarrow>
   \<exists>zs. subseq zs xs \<and> subseq zs ys \<and> length xs + length ys \<le> length ops + 2 * length zs"
proof (induction ops arbitrary: xs)
  case Nil
  then show ?case by (auto intro!: exI [of _ xs])
next
  case (Cons op ops)
  from Cons.prems(1) obtain ms where ms: "apply_op xs op = Some ms" "apply_ops ms ops = Some ys"
    by (auto split: option.splits)
  from Cons.IH [OF ms(2)] Cons.prems(2) obtain zs where
    zs: "subseq zs ms" "subseq zs ys" "length ms + length ys \<le> length ops + 2 * length zs"
    by auto
  show ?case
  proof (cases op)
    case (Insert i row)
    with ms(1) have i: "i \<le> length xs" and m: "ms = take i xs @ row # drop i xs"
      by (auto simp: insert_at_def split: if_splits)
    from subseq_drop_one [OF zs(1) [unfolded m]] obtain zs' where
      "subseq zs' xs" "subseq zs' zs" "length zs \<le> length zs' + 1"
      by auto
    with zs m i show ?thesis
      by (intro exI [of _ zs']) (auto intro: subseq_order.trans)
  next
    case (Remove i)
    with ms(1) have i: "i < length xs" and m: "ms = take i xs @ drop (Suc i) xs"
      by (auto simp: remove_at_def split: if_splits)
    have "subseq ms (take i xs @ xs ! i # drop (Suc i) xs)"
      unfolding m by (intro list_emb_append_mono list_emb_Cons) simp_all
    with i have "subseq ms xs" by (simp add: id_take_nth_drop [symmetric])
    with zs m i show ?thesis
      by (intro exI [of _ zs]) (auto intro: subseq_order.trans)
  next
    case (Move i j)
    with Cons.prems(2) show ?thesis by simp
  qed
qed

lemma diff_lcs_shortest:
  assumes "apply_ops old ops = Some new" and "list_all moves_nothing ops"
  shows "length (diff_lcs old new new_rows) \<le> length ops"
proof -
  from ops_common_subseq [OF assms] obtain zs where zs: "subseq zs old" "subseq zs new"
    "length old + length new \<le> length ops + 2 * length zs" by blast
  then have "length zs \<le> lcs_ref old new (length old) (length new)"
    by (intro lcs_ref_upper) auto
  with zs(3) length_diff_lcs [of old new new_rows] show ?thesis by linarith
qed

section \<open>The move-preserving path never recreates a surviving row\<close>

lemma set_move:
  assumes "i < length working"
  shows "set (insert_at target (working ! i) (remove_at i working)) = set working"
proof -
  have "set working = set (take i working @ working ! i # drop (Suc i) working)"
    using id_take_nth_drop [OF assms] by (rule arg_cong)
  then show ?thesis by (simp add: remove_at_def)
qed

lemma diff_place_inserts_new:
  assumes "distinct (take target working @ keys)" and "set old \<subseteq> set working"
    and "target \<le> length working" and "list_all2 (\<lambda>row k. f row = k) (drop target new_rows) keys"
    and "Insert at row \<in> set (snd (diff_place working target keys new_rows))"
  shows "row \<in> set new_rows \<and> f row \<notin> set old"
  using assms
proof (induction keys arbitrary: working target)
  case Nil
  then show ?case by simp
next
  case (Cons key keys)
  note row = new_rows_head(1,2) [OF Cons.prems(4)]
  note rest = new_rows_head(3) [OF Cons.prems(4)]
  show ?case
  proof (cases "target < length working \<and> working ! target = key")
    case True
    then have "take (Suc target) working = take target working @ [key]"
      by (simp add: take_Suc_conv_app_nth)
    with Cons.prems rest True show ?thesis by (intro Cons.IH [of "Suc target" working]) auto
  next
    case here: False
    show ?thesis
    proof (cases "position (\<lambda>c. c = key) (drop target working)")
      case (Some offset)
      let ?working' = "insert_at target (working ! (target + offset))
        (remove_at (target + offset) working)"
      from position_SomeD [OF Some] have bound: "target + offset < length working"
        and at: "working ! (target + offset) = key" by auto
      have "take (Suc target) ?working' = take target working @ [key]"
        using bound at by (simp add: take_Suc_insert_at take_remove_at)
      moreover have "set ?working' = set working" using bound by (rule set_move)
      moreover have "Insert at row \<in> set (snd (diff_place ?working' (Suc target) keys new_rows))"
        using Cons.prems(5) here Some by (auto simp: Let_def split: prod.splits)
      ultimately show ?thesis
        using Cons.prems(1-3) rest bound by (intro Cons.IH [of "Suc target" ?working']) auto
    next
      case None
      let ?working' = "insert_at target key working"
      have key: "key \<notin> set working"
      proof -
        have "set working = set (take target working) \<union> set (drop target working)"
          by (metis append_take_drop_id set_append)
        with None Cons.prems(1) show ?thesis by (auto simp: position_None_iff)
      qed
      have "take (Suc target) ?working' = take target working @ [key]"
        using Cons.prems(3) by (simp add: take_Suc_insert_at)
      then have "distinct (take (Suc target) ?working' @ keys)" "set old \<subseteq> set ?working'"
        "Suc target \<le> length ?working'"
        using Cons.prems(1-3) by auto
      note IH = Cons.IH [OF this rest]
      consider "row = new_rows ! target"
        | "Insert at row \<in> set (snd (diff_place ?working' (Suc target) keys new_rows))"
        using Cons.prems(5) here None by (auto simp: Let_def split: prod.splits)
      then show ?thesis
      proof cases
        case 1
        with key Cons.prems(2) row show ?thesis by auto
      next
        case 2
        then show ?thesis by (rule IH)
      qed
    qed
  qed
qed

section \<open>Reconciling a row model\<close>

text \<open>
  Slint's \<open>VecModel\<close> is not part of the repository: its row operations are the fields
  of a record, an argument of \<open>reconcile\<close>, and the documented behaviour of a vector of
  rows is the contract below.  \<open>None\<close> is a panic.
\<close>

record ('m, 'a) row_model =
  rm_rows :: "'m \<Rightarrow> 'a list"
  rm_insert :: "nat \<Rightarrow> 'a \<Rightarrow> 'm \<Rightarrow> 'm option"
  rm_remove :: "nat \<Rightarrow> 'm \<Rightarrow> ('a \<times> 'm) option"
  rm_set_row :: "nat \<Rightarrow> 'a \<Rightarrow> 'm \<Rightarrow> 'm option"

fun model_op :: "('m, 'a) row_model \<Rightarrow> 'm \<Rightarrow> 'a row_op \<Rightarrow> 'm option" where
  "model_op vm m (Insert at row) = rm_insert vm at row m"
| "model_op vm m (Remove at) = map_option snd (rm_remove vm at m)"
| "model_op vm m (Move from to) =
     (case rm_remove vm from m of None \<Rightarrow> None | Some (row, m') \<Rightarrow> rm_insert vm to row m')"

fun model_ops :: "('m, 'a) row_model \<Rightarrow> 'm \<Rightarrow> 'a row_op list \<Rightarrow> 'm option" where
  "model_ops vm m [] = Some m"
| "model_ops vm m (op # ops) =
     (case model_op vm m op of None \<Rightarrow> None | Some m' \<Rightarrow> model_ops vm m' ops)"

text \<open>\<open>for _ in 0..model.row_count() { model.remove(0); }\<close>\<close>

fun clear_rows :: "('m, 'a) row_model \<Rightarrow> nat \<Rightarrow> 'm \<Rightarrow> 'm option" where
  "clear_rows vm 0 m = Some m"
| "clear_rows vm (Suc n) m =
     (case rm_remove vm 0 m of None \<Rightarrow> None | Some (row, m') \<Rightarrow> clear_rows vm n m')"

text \<open>The in-place refresh of rows whose key survived.\<close>

fun refresh_rows :: "('m, 'a) row_model \<Rightarrow> nat \<Rightarrow> 'a list \<Rightarrow> 'm \<Rightarrow> 'm option" where
  "refresh_rows vm index [] m = Some m"
| "refresh_rows vm index (row # rows) m =
     (if \<not> (index < length (rm_rows vm m) \<and> rm_rows vm m ! index = row)
      then (case rm_set_row vm index row m of
              None \<Rightarrow> None
            | Some m' \<Rightarrow> refresh_rows vm (index + 1) rows m')
      else refresh_rows vm (index + 1) rows m)"

text \<open>
  \<open>reconcile\<close>: the new model, the new key cache and the structural operations;
  \<open>None\<close> is the failed \<open>assert_eq!\<close> or a panic of the model.
\<close>

definition reconcile ::
  "('m, 'a) row_model \<Rightarrow> 'm \<Rightarrow> 'k list \<Rightarrow> 'k list \<Rightarrow> 'a list \<Rightarrow> ('m \<times> 'k list \<times> 'a row_op list) option"
where
  "reconcile vm m old_keys new_keys new_rows =
     (if length new_keys \<noteq> length new_rows then None
      else
        let desync = (length (rm_rows vm m) \<noteq> length old_keys);
            old_keys' = (if desync then [] else old_keys)
        in case (if desync then clear_rows vm (length (rm_rows vm m)) m else Some m) of
             None \<Rightarrow> None
           | Some m1 \<Rightarrow>
               (case diff_by_id old_keys' new_keys new_rows of
                  None \<Rightarrow> None
                | Some ops \<Rightarrow>
                    (case model_ops vm m1 ops of
                       None \<Rightarrow> None
                     | Some m2 \<Rightarrow>
                         (case refresh_rows vm 0 new_rows m2 of
                            None \<Rightarrow> None
                          | Some m3 \<Rightarrow> Some (m3, new_keys, ops)))))"

locale row_model_api =
  fixes vm :: "('m, 'a) row_model"
  assumes insert_row: "i \<le> length (rm_rows vm m) \<Longrightarrow>
      \<exists>m'. rm_insert vm i row m = Some m' \<and> rm_rows vm m' = insert_at i row (rm_rows vm m)"
    and remove_row: "i < length (rm_rows vm m) \<Longrightarrow>
      \<exists>m'. rm_remove vm i m = Some (rm_rows vm m ! i, m')
        \<and> rm_rows vm m' = remove_at i (rm_rows vm m)"
    and set_row: "i < length (rm_rows vm m) \<Longrightarrow>
      \<exists>m'. rm_set_row vm i row m = Some m' \<and> rm_rows vm m' = (rm_rows vm m)[i := row]"
begin

lemma model_op_refines:
  assumes "apply_op (rm_rows vm m) op = Some ys"
  shows "\<exists>m'. model_op vm m op = Some m' \<and> rm_rows vm m' = ys"
proof (cases op)
  case (Insert i row)
  with assms insert_row [of i m row] show ?thesis by (auto split: if_splits)
next
  case (Remove i)
  with assms remove_row [of i m] show ?thesis by (auto split: if_splits)
next
  case (Move i j)
  with assms remove_row [of i m] obtain m' where
    "rm_remove vm i m = Some (rm_rows vm m ! i, m')" "rm_rows vm m' = remove_at i (rm_rows vm m)"
    by (auto split: if_splits)
  with assms Move insert_row [of j m' "rm_rows vm m ! i"] show ?thesis
    by (auto simp: Let_def split: if_splits)
qed

lemma model_ops_refines:
  "apply_ops (rm_rows vm m) ops = Some ys \<Longrightarrow> \<exists>m'. model_ops vm m ops = Some m' \<and> rm_rows vm m' = ys"
proof (induction ops arbitrary: m)
  case (Cons op ops)
  then obtain ms where "apply_op (rm_rows vm m) op = Some ms" "apply_ops ms ops = Some ys"
    by (auto split: option.splits)
  with model_op_refines [of m op ms] Cons.IH show ?case by fastforce
qed simp

lemma clear_rows_empty:
  "\<exists>m'. clear_rows vm (length (rm_rows vm m)) m = Some m' \<and> rm_rows vm m' = []"
proof (induction "length (rm_rows vm m)" arbitrary: m)
  case (Suc n)
  from Suc.hyps(2) have "0 < length (rm_rows vm m)" by linarith
  from remove_row [OF this] obtain m1 where m1: "rm_remove vm 0 m = Some (rm_rows vm m ! 0, m1)"
    "rm_rows vm m1 = remove_at 0 (rm_rows vm m)" by blast
  with Suc.hyps(2) have "n = length (rm_rows vm m1)"
    by (metis \<open>0 < length (rm_rows vm m)\<close> diff_Suc_1 length_remove_at)
  with Suc.hyps(1) [of m1] m1(1) show ?case by (simp flip: Suc.hyps(2))
qed simp

lemma refresh_rows_sets:
  "length (rm_rows vm m) = index + length rows \<Longrightarrow>
   \<exists>m'. refresh_rows vm index rows m = Some m' \<and> rm_rows vm m' = take index (rm_rows vm m) @ rows"
proof (induction rows arbitrary: index m)
  case (Cons row rows)
  let ?xs = "rm_rows vm m"
  have upd: "?xs[index := row] = take index ?xs @ row # drop (Suc index) ?xs"
    using Cons.prems by (simp add: upd_conv_take_nth_drop)
  show ?case
  proof (cases "?xs ! index = row")
    case True
    with Cons.prems Cons.IH [of m "index + 1"] show ?thesis
      by (auto simp: take_Suc_conv_app_nth)
  next
    case False
    with set_row [of index m row] Cons.prems obtain m1 where
      "rm_set_row vm index row m = Some m1" "rm_rows vm m1 = ?xs[index := row]" by auto
    with Cons.prems Cons.IH [of m1 "index + 1"] upd False show ?thesis
      by (auto simp: min_def)
  qed
qed simp

text \<open>Whatever the model and the key cache held before, both end up as requested.\<close>

lemma reconcile_installs:
  assumes len: "length new_keys = length new_rows"
  shows "\<exists>m' ops. reconcile vm m old_keys new_keys new_rows = Some (m', new_keys, ops)
    \<and> rm_rows vm m' = new_rows"
proof -
  let ?desync = "length (rm_rows vm m) \<noteq> length old_keys"
  let ?old = "if ?desync then [] else old_keys"
  obtain m1 where m1: "(if ?desync then clear_rows vm (length (rm_rows vm m)) m else Some m) = Some m1"
    and len1: "length (rm_rows vm m1) = length ?old"
    using clear_rows_empty [of m] by (cases ?desync) auto
  have "list_all2 (\<lambda>_ _. True) (rm_rows vm m1) ?old"
    and "list_all2 (\<lambda>_ _. True) new_rows new_keys"
    using len1 len by (simp_all add: list_all2_conv_all_nth)
  from diff_by_id_correct [OF this] obtain ops ys where
    ops: "diff_by_id ?old new_keys new_rows = Some ops" "apply_ops (rm_rows vm m1) ops = Some ys"
    and "length ys = length new_keys"
    by (auto simp: list_all2_conv_all_nth)
  moreover from model_ops_refines [OF ops(2)] obtain m2 where
    m2: "model_ops vm m1 ops = Some m2" "rm_rows vm m2 = ys" by blast
  ultimately obtain m3 where "refresh_rows vm 0 new_rows m2 = Some m3" "rm_rows vm m3 = new_rows"
    using refresh_rows_sets [of m2 0 new_rows] len by auto
  with m1 ops(1) m2(1) len show ?thesis by (simp add: reconcile_def Let_def)
qed

end

text \<open>The model's own instance: a row model is the vector of its rows.\<close>

definition vec_model :: "('a list, 'a) row_model" where
  "vec_model = \<lparr>rm_rows = (\<lambda>xs. xs),
     rm_insert = (\<lambda>i row xs. if i \<le> length xs then Some (insert_at i row xs) else None),
     rm_remove = (\<lambda>i xs. if i < length xs then Some (xs ! i, remove_at i xs) else None),
     rm_set_row = (\<lambda>i row xs. if i < length xs then Some (xs[i := row]) else None)\<rparr>"

interpretation vec: row_model_api vec_model
  by unfold_locales (simp_all add: vec_model_def)

section \<open>Properties\<close>

text \<open>
  C32. Applying the diff, in the order it lists its operations, to any rows that stand for
  the old keys never runs out of range and yields rows that stand for the new keys, for
  arbitrary key lists (duplicates included): \<open>f\<close> reads a row's key.
\<close>

theorem diff_applies:
  assumes "map f xs = old_keys" and "map f new_rows = new_keys"
  shows "\<exists>ops ys. diff_by_id old_keys new_keys new_rows = Some ops \<and> apply_ops xs ops = Some ys
    \<and> map f ys = new_keys"
proof -
  have rel: "list_all2 (\<lambda>row key. f row = key) rows keys \<longleftrightarrow> map f rows = keys" for rows keys
    by (auto simp: list_all2_conv_all_nth list_eq_iff_nth_eq)
  from diff_by_id_correct [of "\<lambda>row key. f row = key" xs old_keys new_rows new_keys] assms
  show ?thesis unfolding rel by blast
qed

theorem diff_applies_witness:
  "\<exists>ops ys. diff_by_id [1, 2, 3] [3, 4, 1::nat] [3, 4, 1::nat] = Some ops
    \<and> apply_ops [1, 2, 3] ops = Some ys \<and> map (\<lambda>x. x) ys = [3, 4, 1]"
  by (rule diff_applies) simp_all

text \<open>
  For duplicate-free keys a row whose key survives is never inserted afresh: every
  \<open>Insert\<close> of the diff is for a key that the old list did not have, so reorders keep the
  identity of the rows they move.
\<close>

theorem diff_keeps_identity:
  assumes "distinct old_keys" and "distinct new_keys" and "map f new_rows = new_keys"
    and "diff_by_id old_keys new_keys new_rows = Some ops" and "Insert i row \<in> set ops"
  shows "f row \<in> set new_keys - set old_keys"
proof -
  have rel: "list_all2 (\<lambda>row key. f row = key) rows keys \<longleftrightarrow> map f rows = keys" for rows keys
    by (auto simp: list_all2_conv_all_nth list_eq_iff_nth_eq)
  have "Insert i row \<notin> set (diff_trim w n)" for w n
    by (induction w) auto
  with assms have "Insert i row \<in> set (snd (diff_place old_keys 0 new_keys new_rows))"
    by (auto simp: diff_by_id_def unique_keys_distinct diff_unique_def split: if_splits prod.splits)
  from diff_place_inserts_new [OF _ order_refl _ _ this, of f] assms(2,3)
  show ?thesis by (auto simp: rel)
qed

theorem diff_keeps_identity_witness:
  "(\<lambda>x. x) (4::nat) \<in> set [3, 4, 1] - set [1, 2, 3]"
  by (rule diff_keeps_identity [of "[1, 2, 3]" "[3, 4, 1]" "\<lambda>x. x" "[3, 4, 1]"
        "[Move 2 0, Insert 1 4, Remove 3]" 1 4]) code_simp+

text \<open>
  With duplicate keys the fallback is as short as possible: no sequence of insertions
  and removals that turns the old rows into the new ones has fewer operations.
\<close>

theorem diff_fallback_shortest:
  assumes "\<not> distinct old \<or> \<not> distinct new" and "diff_by_id old new new = Some ops"
    and "apply_ops old ops' = Some new" and "list_all moves_nothing ops'"
  shows "length ops \<le> length ops'"
proof -
  from assms(1,2) have "ops = diff_lcs old new new"
    by (auto simp: diff_by_id_def unique_keys_distinct split: if_splits)
  with diff_lcs_shortest [OF assms(3,4)] show ?thesis by simp
qed

theorem diff_fallback_shortest_witness:
  "length [Remove 0, Insert 2 (1::nat)] \<le> length [Remove 1, Insert 2 (1::nat)]"
proof (rule diff_fallback_shortest)
  show "\<not> distinct [1, 1, 2::nat] \<or> \<not> distinct [1, 2, 1::nat]" by simp
qed (code_simp)+

text \<open>
  For duplicate-free keys the diff is not minimal: dropping the first of four rows
  takes three moves and a removal, where the single removal does.
\<close>

theorem diff_unique_not_minimal:
  "diff_by_id [1, 2, 3, 4::nat] [2, 3, 4] [2, 3, 4::nat] = Some [Move 1 0, Move 2 1, Move 3 2, Remove 3]
   \<and> apply_ops [1, 2, 3, 4::nat] [Remove 0] = Some [2, 3, 4]"
  by code_simp

text \<open>
  \<open>reconcile\<close> installs exactly the requested rows and keys in any row model that
  keeps the contract, also when the key cache had lost step with the model.
\<close>

theorem reconcile_correct:
  assumes "row_model_api vm" and "length new_keys = length new_rows"
  shows "\<exists>m' ops. reconcile vm m old_keys new_keys new_rows = Some (m', new_keys, ops)
    \<and> rm_rows vm m' = new_rows"
  using assms by (rule row_model_api.reconcile_installs)

theorem reconcile_correct_witness:
  "\<exists>m' ops. reconcile vec_model [10, 20, 30] [1, 2::nat] [2, 3] [21, 31::nat] = Some (m', [2, 3], ops)
    \<and> rm_rows vec_model m' = [21, 31]"
  by (rule reconcile_correct [OF vec.row_model_api_axioms]) simp

end
