(* ===== verification/SendQueue.thy ===== *)
theory SendQueue
  imports Fifo LineCodec "HOL-Library.Multiset"
begin

text \<open>
  The client-side, per-thread queue of messages typed while a turn is in flight:
  \<open>panel-rust/src/send_queue.rs\<close>.  The state is the queue of entries, the small state
  machine that decides about automatic sending, and the ids the ACPX server gave to
  confirmed entries.  Every local mutation rewrites one JSONL file; its serializer and
  parser (\<open>serde_json\<close>) are the arguments \<open>ser\<close> and \<open>de\<close>, the outcome of each file
  operation is an argument too, so that every \<open>?\<close> of the source is a branch.  Entry ids
  are natural numbers: the \<open>u64\<close> counter would need \<open>2^64\<close> enqueues to overflow.
\<close>

section \<open>State\<close>

record queue_entry =
  entry_id :: nat
  entry_text :: string
  entry_steer :: bool

record persisted_entry =
  p_text :: string
  p_steer :: bool

datatype processing_state = AutoProcess | Paused | AbsorbingCancel

record send_queue =
  q_entries :: "queue_entry list"
  q_state :: processing_state
  q_can_fast_track :: bool
  q_next_id :: nat
  q_persist_path :: "path option"
  q_remote_ids :: "nat \<rightharpoonup> string"

datatype io_error = NotFound | InvalidData | OtherIo

type_synonym files = "path \<rightharpoonup> string"

type_synonym 'a queue_result = "send_queue \<times> files \<times> (io_error + 'a)"

definition sq_default :: send_queue where
  "sq_default = \<lparr>q_entries = [], q_state = AutoProcess, q_can_fast_track = False,
     q_next_id = 0, q_persist_path = None, q_remote_ids = Map.empty\<rparr>"

definition sq_new :: send_queue where
  "sq_new = sq_default"

definition sq_new_with_path :: "path \<Rightarrow> send_queue" where
  "sq_new_with_path path = sq_default\<lparr>q_persist_path := Some path\<rparr>"

definition send_queue_path :: "string \<Rightarrow> string \<Rightarrow> path" where
  "send_queue_path cache_dir thread_id = (cache_dir, thread_id @ ''.sendqueue.jsonl'')"

section \<open>Queries\<close>

definition sq_is_empty :: "send_queue \<Rightarrow> bool" where
  "sq_is_empty q = (q_entries q = [])"

definition sq_len :: "send_queue \<Rightarrow> nat" where
  "sq_len q = length (q_entries q)"

definition sq_first :: "send_queue \<Rightarrow> queue_entry option" where
  "sq_first q = (case q_entries q of [] \<Rightarrow> None | e # _ \<Rightarrow> Some e)"

definition sq_first_id :: "send_queue \<Rightarrow> nat option" where
  "sq_first_id q = map_option entry_id (sq_first q)"

definition sq_last_id :: "send_queue \<Rightarrow> nat option" where
  "sq_last_id q = (if q_entries q = [] then None else Some (entry_id (last (q_entries q))))"

definition front_wants_steer :: "send_queue \<Rightarrow> bool" where
  "front_wants_steer q = (case sq_first q of None \<Rightarrow> False | Some e \<Rightarrow> entry_steer e)"

definition can_fast_track :: "send_queue \<Rightarrow> bool" where
  "can_fast_track q = (q_can_fast_track q \<and> q_entries q \<noteq> [])"

definition entry_by_id :: "send_queue \<Rightarrow> nat \<Rightarrow> queue_entry option" where
  "entry_by_id q i = find (\<lambda>e. entry_id e = i) (q_entries q)"

definition remote_id_for :: "send_queue \<Rightarrow> nat \<Rightarrow> string option" where
  "remote_id_for q i = q_remote_ids q i"

section \<open>Persistence\<close>

definition persisted :: "queue_entry \<Rightarrow> persisted_entry" where
  "persisted e = \<lparr>p_text = entry_text e, p_steer = entry_steer e\<rparr>"

definition sq_persist ::
  "(persisted_entry \<Rightarrow> string) \<Rightarrow> write_outcome \<Rightarrow> send_queue \<Rightarrow> files \<Rightarrow> files \<times> (io_error + unit)"
where
  "sq_persist ser outcome q fs =
     (case q_persist_path q of
        None \<Rightarrow> (fs, Inr ())
      | Some path \<Rightarrow>
          (let out = unlines (map (\<lambda>e. ser (persisted e)) (q_entries q));
               tmp_path = with_extension path ''jsonl.tmp''
           in case outcome of
                CreateFails \<Rightarrow> (fs, Inl OtherIo)
              | WriteFails part \<Rightarrow> (fs(tmp_path \<mapsto> part), Inl OtherIo)
              | RenameFails \<Rightarrow> (fs(tmp_path \<mapsto> out), Inl OtherIo)
              | Written \<Rightarrow> ((fs(tmp_path := None))(path \<mapsto> out), Inr ())))"

text \<open>\<open>self.persist()?\<close> followed by \<open>Ok(value)\<close>: the mutation of the queue stays either way.\<close>

definition persist_then ::
  "(persisted_entry \<Rightarrow> string) \<Rightarrow> write_outcome \<Rightarrow> send_queue \<Rightarrow> files \<Rightarrow> 'a \<Rightarrow> 'a queue_result"
where
  "persist_then ser outcome q fs value =
     (case sq_persist ser outcome q fs of
        (fs', Inl e) \<Rightarrow> (q, fs', Inl e)
      | (fs', Inr _) \<Rightarrow> (q, fs', Inr value))"

definition next_id :: "send_queue \<Rightarrow> nat \<times> send_queue" where
  "next_id q = (q_next_id q, q\<lparr>q_next_id := q_next_id q + 1\<rparr>)"

text \<open>
  The loop of \<open>load\<close> over the lines of the file; each line may fail to be read.
\<close>

fun load_lines ::
  "(string \<Rightarrow> persisted_entry option) \<Rightarrow> send_queue \<Rightarrow> (io_error + string) list \<Rightarrow> io_error + send_queue"
where
  "load_lines de q [] = Inr q"
| "load_lines de q (Inl e # ls) = Inl e"
| "load_lines de q (Inr line # ls) =
     (if is_blank line then load_lines de q ls
      else case de line of
        None \<Rightarrow> Inl InvalidData
      | Some p \<Rightarrow>
          (let (i, q') = next_id q
           in load_lines de
                (q'\<lparr>q_entries := q_entries q' @ [\<lparr>entry_id = i, entry_text = p_text p,
                     entry_steer = p_steer p\<rparr>]\<rparr>) ls))"

definition sq_load ::
  "(string \<Rightarrow> persisted_entry option) \<Rightarrow> path \<Rightarrow> io_error + (io_error + string) list \<Rightarrow> io_error + send_queue"
where
  "sq_load de path opened =
     (let queue = sq_new_with_path path
      in case opened of
           Inl NotFound \<Rightarrow> Inr queue
         | Inl e \<Rightarrow> Inl e
         | Inr ls \<Rightarrow> map_sum id (\<lambda>q. q\<lparr>q_can_fast_track := False\<rparr>) (load_lines de queue ls))"

text \<open>Opening a file of the store and reading its lines without an error.\<close>

definition open_file :: "files \<Rightarrow> path \<Rightarrow> io_error + (io_error + string) list" where
  "open_file fs path = (case fs path of None \<Rightarrow> Inl NotFound | Some content \<Rightarrow> Inr (map Inr (str_lines content)))"

section \<open>Local mutations\<close>

definition toggle_steer ::
  "(persisted_entry \<Rightarrow> string) \<Rightarrow> write_outcome \<Rightarrow> nat \<Rightarrow> send_queue \<Rightarrow> files \<Rightarrow> unit queue_result"
where
  "toggle_steer ser outcome i q fs =
     (let q' = (case position (\<lambda>e. entry_id e = i) (q_entries q) of
                  None \<Rightarrow> q
                | Some k \<Rightarrow> q\<lparr>q_entries := (q_entries q)[k := (q_entries q ! k)\<lparr>entry_steer :=
                    \<not> entry_steer (q_entries q ! k)\<rparr>]\<rparr>)
      in persist_then ser outcome q' fs ())"

definition sq_enqueue ::
  "(persisted_entry \<Rightarrow> string) \<Rightarrow> write_outcome \<Rightarrow> string \<Rightarrow> bool \<Rightarrow> send_queue \<Rightarrow> files \<Rightarrow> nat queue_result"
where
  "sq_enqueue ser outcome text steer q fs =
     (let (i, q') = next_id q;
          q'' = q'\<lparr>q_entries := q_entries q' @ [\<lparr>entry_id = i, entry_text = text, entry_steer = steer\<rparr>],
                   q_state := AutoProcess, q_can_fast_track := True\<rparr>
      in persist_then ser outcome q'' fs i)"

text \<open>\<open>position\<close> and \<open>VecDeque::remove\<close>: the first entry with the id, if there is one.\<close>

definition take_entry :: "nat \<Rightarrow> send_queue \<Rightarrow> queue_entry option \<times> send_queue" where
  "take_entry i q =
     (case position (\<lambda>e. entry_id e = i) (q_entries q) of
        None \<Rightarrow> (None, q)
      | Some k \<Rightarrow> (Some (q_entries q ! k), q\<lparr>q_entries := remove_at k (q_entries q)\<rparr>))"

definition sq_remove ::
  "(persisted_entry \<Rightarrow> string) \<Rightarrow> write_outcome \<Rightarrow> nat \<Rightarrow> send_queue \<Rightarrow> files \<Rightarrow> queue_entry option queue_result"
where
  "sq_remove ser outcome i q fs =
     (let (removed, q') = take_entry i q in persist_then ser outcome q' fs removed)"

definition sq_clear ::
  "(persisted_entry \<Rightarrow> string) \<Rightarrow> write_outcome \<Rightarrow> send_queue \<Rightarrow> files \<Rightarrow> unit queue_result"
where
  "sq_clear ser outcome q fs =
     persist_then ser outcome (q\<lparr>q_entries := [], q_can_fast_track := False\<rparr>) fs ()"

definition pop_front :: "send_queue \<Rightarrow> queue_entry option \<times> send_queue" where
  "pop_front q = (sq_first q, q\<lparr>q_entries := tl (q_entries q)\<rparr>)"

definition try_fast_track ::
  "(persisted_entry \<Rightarrow> string) \<Rightarrow> write_outcome \<Rightarrow> bool \<Rightarrow> send_queue \<Rightarrow> files \<Rightarrow> queue_entry option queue_result"
where
  "try_fast_track ser outcome is_generating q fs =
     (if \<not> can_fast_track q then (q\<lparr>q_can_fast_track := False\<rparr>, fs, Inr None)
      else
        let (entry, q') = pop_front (q\<lparr>q_can_fast_track := False\<rparr>);
            q'' = q'\<lparr>q_state := (if is_generating then AbsorbingCancel else AutoProcess)\<rparr>
        in persist_then ser outcome q'' fs entry)"

definition on_generation_stopped ::
  "(persisted_entry \<Rightarrow> string) \<Rightarrow> write_outcome \<Rightarrow> bool \<Rightarrow> send_queue \<Rightarrow> files \<Rightarrow> queue_entry option queue_result"
where
  "on_generation_stopped ser outcome is_compose_focused q fs =
     (let (popped, q') =
        (case q_state q of
           AbsorbingCancel \<Rightarrow> (None, q\<lparr>q_state := AutoProcess\<rparr>)
         | Paused \<Rightarrow> (None, q)
         | AutoProcess \<Rightarrow> if is_compose_focused then (None, q) else pop_front q)
      in if popped \<noteq> None then persist_then ser outcome q' fs popped else (q', fs, Inr popped))"

definition send_now ::
  "(persisted_entry \<Rightarrow> string) \<Rightarrow> write_outcome \<Rightarrow> nat \<Rightarrow> bool \<Rightarrow> send_queue \<Rightarrow> files \<Rightarrow> queue_entry option queue_result"
where
  "send_now ser outcome i is_generating q fs =
     (let (entry, q') = take_entry i q;
          q'' = (if entry \<noteq> None \<and> is_generating then q'\<lparr>q_state := AbsorbingCancel\<rparr> else q')
      in if entry \<noteq> None then persist_then ser outcome q'' fs entry else (q'', fs, Inr entry))"

definition sq_pause :: "send_queue \<Rightarrow> send_queue" where
  "sq_pause q = q\<lparr>q_state := Paused\<rparr>"

definition sq_resume :: "send_queue \<Rightarrow> send_queue" where
  "sq_resume q = q\<lparr>q_state := AutoProcess\<rparr>"

section \<open>The projection of the server's queue\<close>

definition paused_state :: "bool \<Rightarrow> processing_state" where
  "paused_state paused = (if paused then Paused else AutoProcess)"

fun push_texts :: "send_queue \<Rightarrow> string list \<Rightarrow> send_queue" where
  "push_texts q [] = q"
| "push_texts q (text # texts) =
     (let (i, q') = next_id q
      in push_texts (q'\<lparr>q_entries := q_entries q' @ [\<lparr>entry_id = i, entry_text = text,
           entry_steer = False\<rparr>]\<rparr>) texts)"

definition replace_remote :: "string list \<Rightarrow> bool \<Rightarrow> send_queue \<Rightarrow> send_queue" where
  "replace_remote texts paused q =
     (push_texts (q\<lparr>q_entries := [], q_next_id := 0, q_remote_ids := Map.empty\<rparr>) texts)
       \<lparr>q_state := paused_state paused, q_can_fast_track := False\<rparr>"

text \<open>
  First loop: a confirmed entry that the snapshot no longer lists was dispatched, one
  that it lists is kept under its server id, the others are unconfirmed.
\<close>

fun sort_entries ::
  "(nat \<rightharpoonup> string) \<Rightarrow> string set \<Rightarrow> queue_entry list \<Rightarrow>
   string list \<Rightarrow> (string \<rightharpoonup> queue_entry) \<Rightarrow> queue_entry list \<Rightarrow>
   string list \<times> (string \<rightharpoonup> queue_entry) \<times> queue_entry list"
where
  "sort_entries old_remote_ids incoming_ids [] dispatched confirmed unconfirmed =
     (dispatched, confirmed, unconfirmed)"
| "sort_entries old_remote_ids incoming_ids (entry # entries) dispatched confirmed unconfirmed =
     (case old_remote_ids (entry_id entry) of
        Some remote_id \<Rightarrow>
          if remote_id \<notin> incoming_ids
          then sort_entries old_remote_ids incoming_ids entries
                 (dispatched @ [entry_text entry]) confirmed unconfirmed
          else sort_entries old_remote_ids incoming_ids entries
                 dispatched (confirmed(remote_id \<mapsto> entry)) unconfirmed
      | None \<Rightarrow> sort_entries old_remote_ids incoming_ids entries
                 dispatched confirmed (unconfirmed @ [entry]))"

text \<open>Second loop: one entry per incoming row.\<close>

fun merge_incoming ::
  "(string \<times> string) list \<Rightarrow> (string \<rightharpoonup> queue_entry) \<Rightarrow> queue_entry list \<Rightarrow> send_queue \<Rightarrow>
   queue_entry list \<times> send_queue"
where
  "merge_incoming [] confirmed unconfirmed q = (unconfirmed, q)"
| "merge_incoming ((remote_id, text) # rows) confirmed unconfirmed q =
     (let (entry, confirmed', unconfirmed', q') =
        (case confirmed remote_id of
           Some entry \<Rightarrow> (entry, confirmed(remote_id := None), unconfirmed, q)
         | None \<Rightarrow>
             (case position (\<lambda>e. entry_text e = text) unconfirmed of
                Some index \<Rightarrow> (unconfirmed ! index, confirmed, remove_at index unconfirmed, q)
              | None \<Rightarrow>
                  (let (i, q1) = next_id q
                   in (\<lparr>entry_id = i, entry_text = text, entry_steer = False\<rparr>,
                       confirmed, unconfirmed, q1))));
          entry' = entry\<lparr>entry_text := text\<rparr>
      in merge_incoming rows confirmed' unconfirmed'
           (q'\<lparr>q_remote_ids := (q_remote_ids q')(entry_id entry' \<mapsto> remote_id),
               q_entries := q_entries q' @ [entry']\<rparr>))"

definition replace_remote_items ::
  "(string \<times> string) list \<Rightarrow> bool \<Rightarrow> send_queue \<Rightarrow> string list \<times> send_queue"
where
  "replace_remote_items rows paused q =
     (let (dispatched, confirmed, unconfirmed) =
            sort_entries (q_remote_ids q) (set (map fst rows)) (q_entries q) [] Map.empty [];
          (survivors, q1) = merge_incoming rows confirmed unconfirmed
            (q\<lparr>q_entries := [], q_remote_ids := Map.empty, q_state := paused_state paused\<rparr>);
          q2 = q1\<lparr>q_entries := q_entries q1 @ survivors,
                  q_can_fast_track := (if survivors = [] then q_can_fast_track q1 else True)\<rparr>;
          q3 = (if q_entries q2 = [] then q2\<lparr>q_can_fast_track := False\<rparr> else q2)
      in (dispatched, q3))"

definition dequeue_matching_remote_message :: "string \<Rightarrow> send_queue \<Rightarrow> bool \<times> send_queue" where
  "dequeue_matching_remote_message text q =
     (case position (\<lambda>e. entry_text e = text) (q_entries q) of
        None \<Rightarrow> (False, q)
      | Some index \<Rightarrow>
          (True, q\<lparr>q_entries := remove_at index (q_entries q),
                   q_remote_ids := (q_remote_ids q)(entry_id (q_entries q ! index) := None)\<rparr>))"

section \<open>The invariant: ids are unique and below the counter\<close>

definition entries_ok :: "nat \<Rightarrow> queue_entry list \<Rightarrow> bool" where
  "entries_ok n es = (distinct (map entry_id es) \<and> (\<forall>e\<in>set es. entry_id e < n))"

definition sq_inv :: "send_queue \<Rightarrow> bool" where
  "sq_inv q = (entries_ok (q_next_id q) (q_entries q)
     \<and> (\<forall>i \<ge> q_next_id q. q_remote_ids q i = None))"

lemma entries_ok_Nil [simp]: "entries_ok n []"
  by (simp add: entries_ok_def)

lemma entries_ok_snoc: "entries_ok n es \<Longrightarrow> entry_id e = n \<Longrightarrow> entries_ok (Suc n) (es @ [e])"
  by (auto simp: entries_ok_def less_Suc_eq)

lemma entries_ok_remove_at: "entries_ok n es \<Longrightarrow> entries_ok n (remove_at k es)"
  using set_remove_at_subset [of k es]
  by (auto simp: entries_ok_def map_remove_at intro: distinct_remove_at)

lemma entries_ok_tl: "entries_ok n es \<Longrightarrow> entries_ok n (tl es)"
  by (cases es) (auto simp: entries_ok_def)

lemma entries_ok_update:
  assumes "entries_ok n es" and "k < length es" and "entry_id e = entry_id (es ! k)"
  shows "entries_ok n (es[k := e])"
proof -
  have "map entry_id (es[k := e]) = map entry_id es"
    using assms(2,3) by (simp add: map_update list_update_same_conv)
  moreover have "entry_id (es ! k) < n" using assms by (auto simp: entries_ok_def)
  ultimately show ?thesis
    using assms set_update_subset_insert [of es k e] by (auto simp: entries_ok_def)
qed

lemma persist_then_fst [panel_simps]: "fst (persist_then ser outcome q fs v) = q"
proof -
  obtain fs' r where "sq_persist ser outcome q fs = (fs', r)" by (cases "sq_persist ser outcome q fs")
  then show ?thesis by (cases r) (simp_all add: persist_then_def)
qed

lemma take_entry_snd:
  "snd (take_entry i q) = (case position (\<lambda>e. entry_id e = i) (q_entries q) of
     None \<Rightarrow> q | Some k \<Rightarrow> q\<lparr>q_entries := remove_at k (q_entries q)\<rparr>)"
  by (auto simp: take_entry_def split: option.splits)

lemma sq_inv_default: "sq_inv sq_default" "sq_inv (sq_new_with_path path)"
  by (simp_all add: sq_inv_def sq_default_def sq_new_with_path_def)

lemma sq_inv_append:
  "sq_inv q \<Longrightarrow> next_id q = (i, q') \<Longrightarrow> entry_id e = i \<Longrightarrow> sq_inv (q'\<lparr>q_entries := q_entries q' @ [e]\<rparr>)"
  by (auto simp: sq_inv_def next_id_def intro: entries_ok_snoc)

lemma sq_inv_load_lines: "sq_inv q \<Longrightarrow> load_lines de q ls = Inr q' \<Longrightarrow> sq_inv q'"
proof (induction de q ls rule: load_lines.induct)
  case (3 de q line ls)
  then show ?case
    by (fastforce simp: Let_def split: if_splits option.splits prod.splits intro: sq_inv_append)
qed auto

lemma sq_inv_load: "sq_load de path opened = Inr q \<Longrightarrow> sq_inv q"
proof -
  assume load: "sq_load de path opened = Inr q"
  show "sq_inv q"
  proof (cases opened)
    case (Inl e)
    with load show ?thesis by (cases e) (auto simp: sq_load_def sq_inv_default)
  next
    case (Inr ls)
    with load obtain q0 where q0: "load_lines de (sq_new_with_path path) ls = Inr q0"
      "q = q0\<lparr>q_can_fast_track := False\<rparr>"
      by (cases "load_lines de (sq_new_with_path path) ls") (auto simp: sq_load_def)
    have "sq_inv q0" using sq_inv_default(2) q0(1) by (rule sq_inv_load_lines)
    with q0(2) show ?thesis by (simp add: sq_inv_def)
  qed
qed

lemma sq_inv_remove_at: "sq_inv q \<Longrightarrow> sq_inv (q\<lparr>q_entries := remove_at k (q_entries q)\<rparr>)"
  by (simp add: sq_inv_def entries_ok_remove_at)

lemma sq_inv_take_entry: "sq_inv q \<Longrightarrow> sq_inv (snd (take_entry i q))"
  by (auto simp: take_entry_snd sq_inv_remove_at split: option.splits)

lemma sq_inv_frame [simp]:
  "sq_inv (q\<lparr>q_state := st\<rparr>) = sq_inv q" "sq_inv (q\<lparr>q_can_fast_track := b\<rparr>) = sq_inv q"
  by (simp_all add: sq_inv_def)

lemma sq_inv_toggle_steer: "sq_inv q \<Longrightarrow> sq_inv (fst (toggle_steer ser outcome i q fs))"
  by (auto simp: toggle_steer_def panel_simps sq_inv_def split: option.splits
      intro!: entries_ok_update dest: position_SomeD(1))

lemma sq_inv_enqueue: "sq_inv q \<Longrightarrow> sq_inv (fst (sq_enqueue ser outcome text steer q fs))"
  by (auto simp: sq_enqueue_def panel_simps sq_inv_def next_id_def intro: entries_ok_snoc)

lemma sq_inv_remove: "sq_inv q \<Longrightarrow> sq_inv (fst (sq_remove ser outcome i q fs))"
  using sq_inv_take_entry [of q i] by (auto simp: sq_remove_def panel_simps split: prod.splits)

lemma sq_inv_clear: "sq_inv q \<Longrightarrow> sq_inv (fst (sq_clear ser outcome q fs))"
  by (simp add: sq_clear_def panel_simps) (simp add: sq_inv_def)

lemma sq_inv_pop_front: "sq_inv q \<Longrightarrow> sq_inv (snd (pop_front q))"
  by (simp add: pop_front_def sq_inv_def entries_ok_tl)

lemma sq_inv_try_fast_track: "sq_inv q \<Longrightarrow> sq_inv (fst (try_fast_track ser outcome g q fs))"
  using sq_inv_pop_front [of "q\<lparr>q_can_fast_track := False\<rparr>"]
  by (auto simp: try_fast_track_def panel_simps Let_def split: prod.splits)

lemma sq_inv_on_generation_stopped:
  "sq_inv q \<Longrightarrow> sq_inv (fst (on_generation_stopped ser outcome focused q fs))"
  using sq_inv_pop_front [of q]
  by (auto simp: on_generation_stopped_def panel_simps Let_def
      split: processing_state.splits prod.splits if_splits)

lemma sq_inv_send_now: "sq_inv q \<Longrightarrow> sq_inv (fst (send_now ser outcome i g q fs))"
  using sq_inv_take_entry [of q i]
  by (auto simp: send_now_def panel_simps Let_def split: prod.splits)

lemma sq_inv_push_texts: "sq_inv q \<Longrightarrow> sq_inv (push_texts q texts)"
proof (induction q texts rule: push_texts.induct)
  case (2 q t ts)
  obtain i q' where n: "next_id q = (i, q')" by (cases "next_id q")
  with 2 show ?case by (simp add: sq_inv_append [OF 2(2) n])
qed simp

lemma sq_inv_replace_remote: "sq_inv (replace_remote texts paused q)"
proof -
  have "sq_inv (q\<lparr>q_entries := [], q_next_id := 0, q_remote_ids := Map.empty\<rparr>)"
    by (simp add: sq_inv_def)
  then show ?thesis by (simp add: replace_remote_def sq_inv_push_texts)
qed

lemma sq_inv_dequeue_matching:
  "sq_inv q \<Longrightarrow> sq_inv (snd (dequeue_matching_remote_message text q))"
  by (auto simp: dequeue_matching_remote_message_def sq_inv_def entries_ok_remove_at
      split: option.splits)

section \<open>Merging a server snapshot\<close>

definition confirmed_as :: "send_queue \<Rightarrow> queue_entry \<Rightarrow> string option" where
  "confirmed_as q e = q_remote_ids q (entry_id e)"

text \<open>The first loop, in closed form.\<close>

lemma sort_entries_lists:
  "sort_entries R I es d c u = (d', c', u') \<Longrightarrow>
   d' = d @ map entry_text (filter (\<lambda>e. \<exists>r. R (entry_id e) = Some r \<and> r \<notin> I) es)
   \<and> u' = u @ filter (\<lambda>e. R (entry_id e) = None) es"
  by (induction R I es d c u rule: sort_entries.induct) (auto split: option.splits if_splits)

lemma sort_entries_confirmed:
  "sort_entries R I es d c u = (d', c', u') \<Longrightarrow> c' r = Some e \<Longrightarrow>
   c r = Some e \<or> (e \<in> set es \<and> R (entry_id e) = Some r \<and> r \<in> I)"
  by (induction R I es d c u rule: sort_entries.induct) (auto split: option.splits if_splits)

lemma sort_entries_dom:
  "sort_entries R I es d c u = (d', c', u') \<Longrightarrow>
   dom c' = dom c \<union> {r \<in> I. \<exists>e\<in>set es. R (entry_id e) = Some r}"
  by (induction R I es d c u rule: sort_entries.induct) (auto split: option.splits if_splits)

text \<open>What the second loop relies on: all entries in flight carry different ids.\<close>

definition ids_of :: "queue_entry list \<Rightarrow> nat set" where
  "ids_of es = entry_id ` set es"

definition pools_ok ::
  "(string \<rightharpoonup> queue_entry) \<Rightarrow> queue_entry list \<Rightarrow> send_queue \<Rightarrow> bool"
where
  "pools_ok confirmed unconfirmed q =
     (distinct (map entry_id (q_entries q @ unconfirmed))
      \<and> ids_of (q_entries q @ unconfirmed) \<subseteq> {..<q_next_id q}
      \<and> (\<forall>i \<ge> q_next_id q. q_remote_ids q i = None)
      \<and> (\<forall>e \<in> ran confirmed. entry_id e < q_next_id q \<and> entry_id e \<notin> ids_of (q_entries q @ unconfirmed))
      \<and> (\<forall>r e r' e'. confirmed r = Some e \<longrightarrow> confirmed r' = Some e' \<longrightarrow> entry_id e = entry_id e' \<longrightarrow> r = r'))"

lemma ids_of_simps [simp]:
  "ids_of [] = {}" "ids_of (e # es) = insert (entry_id e) (ids_of es)"
  "ids_of (es @ es') = ids_of es \<union> ids_of es'"
  by (auto simp: ids_of_def)

lemma ids_of_iff: "i \<in> ids_of es \<longleftrightarrow> (\<exists>e\<in>set es. i = entry_id e)"
  by (auto simp: ids_of_def)

lemma entry_id_in_ids [simp]: "entry_id ` set es = ids_of es"
  by (simp add: ids_of_def)

text \<open>One iteration, by where the row's entry comes from.\<close>

definition place_row :: "string \<Rightarrow> string \<Rightarrow> queue_entry \<Rightarrow> send_queue \<Rightarrow> send_queue" where
  "place_row remote_id text entry q =
     q\<lparr>q_remote_ids := (q_remote_ids q)(entry_id entry \<mapsto> remote_id),
       q_entries := q_entries q @ [entry\<lparr>entry_text := text\<rparr>]\<rparr>"

lemma merge_incoming_hit:
  "confirmed r = Some e \<Longrightarrow> merge_incoming ((r, t) # rows) confirmed unconfirmed q =
     merge_incoming rows (confirmed(r := None)) unconfirmed (place_row r t e q)"
  by (simp add: place_row_def)

lemma merge_incoming_adopt:
  "confirmed r = None \<Longrightarrow> position (\<lambda>e. entry_text e = t) unconfirmed = Some k \<Longrightarrow>
   merge_incoming ((r, t) # rows) confirmed unconfirmed q =
     merge_incoming rows confirmed (remove_at k unconfirmed) (place_row r t (unconfirmed ! k) q)"
  by (simp add: place_row_def)

lemma merge_incoming_fresh:
  "confirmed r = None \<Longrightarrow> position (\<lambda>e. entry_text e = t) unconfirmed = None \<Longrightarrow>
   merge_incoming ((r, t) # rows) confirmed unconfirmed q =
     merge_incoming rows confirmed unconfirmed
       (place_row r t \<lparr>entry_id = q_next_id q, entry_text = t, entry_steer = False\<rparr>
         (q\<lparr>q_next_id := q_next_id q + 1\<rparr>))"
  by (simp add: place_row_def next_id_def)

declare merge_incoming.simps(2) [simp del]

lemma pools_ok_hit:
  assumes ok: "pools_ok confirmed unconfirmed q" and hit: "confirmed r = Some e"
  shows "pools_ok (confirmed(r := None)) unconfirmed (place_row r t e q)"
proof -
  have e: "entry_id e < q_next_id q" "entry_id e \<notin> ids_of (q_entries q @ unconfirmed)"
    using ok hit unfolding pools_ok_def by (auto intro: ranI)
  have other: "entry_id e' < q_next_id q \<and> entry_id e' \<notin> ids_of (q_entries q @ unconfirmed)
      \<and> entry_id e' \<noteq> entry_id e" if "e' \<in> ran (confirmed(r := None))" for e'
  proof -
    from that obtain r' where r': "confirmed r' = Some e'" "r' \<noteq> r"
      by (auto simp: ran_def split: if_splits)
    with ok hit show ?thesis unfolding pools_ok_def by (metis ranI)
  qed
  show ?thesis
    unfolding pools_ok_def
  proof (intro conjI)
    show "distinct (map entry_id (q_entries (place_row r t e q) @ unconfirmed))"
      using ok e by (auto simp: pools_ok_def place_row_def)
    show "ids_of (q_entries (place_row r t e q) @ unconfirmed) \<subseteq> {..<q_next_id (place_row r t e q)}"
      using ok e by (auto simp: pools_ok_def place_row_def)
    show "\<forall>i\<ge>q_next_id (place_row r t e q). q_remote_ids (place_row r t e q) i = None"
      using ok e by (auto simp: pools_ok_def place_row_def)
    show "\<forall>e'\<in>ran (confirmed(r := None)). entry_id e' < q_next_id (place_row r t e q)
        \<and> entry_id e' \<notin> ids_of (q_entries (place_row r t e q) @ unconfirmed)"
      using other by (auto simp: place_row_def)
    show "\<forall>r1 e1 r2 e2. (confirmed(r := None)) r1 = Some e1 \<longrightarrow> (confirmed(r := None)) r2 = Some e2
        \<longrightarrow> entry_id e1 = entry_id e2 \<longrightarrow> r1 = r2"
      using ok by (auto simp: pools_ok_def split: if_splits)
  qed
qed

lemma pools_ok_adopt:
  assumes "pools_ok confirmed unconfirmed q" and "k < length unconfirmed"
  shows "pools_ok confirmed (remove_at k unconfirmed) (place_row r t (unconfirmed ! k) q)"
proof -
  have "unconfirmed = take k unconfirmed @ unconfirmed ! k # drop (Suc k) unconfirmed"
    using assms(2) by (rule id_take_nth_drop)
  then obtain us v ws where u: "unconfirmed = us @ v # ws" "k = length us"
    using assms(2) by (metis length_take min.absorb4)
  then show ?thesis
    using assms(1) by (auto simp: pools_ok_def place_row_def)
qed

lemma pools_ok_fresh:
  assumes "pools_ok confirmed unconfirmed q"
  shows "pools_ok confirmed unconfirmed
    (place_row r t \<lparr>entry_id = q_next_id q, entry_text = t', entry_steer = b\<rparr>
      (q\<lparr>q_next_id := q_next_id q + 1\<rparr>))"
  using assms by (force simp: pools_ok_def place_row_def)

text \<open>
  The second loop: the new queue lists the rows in order, its texts are the server's, the
  unconfirmed entries that stay over are the multiset difference.
\<close>

lemma merge_incoming_inv:
  "pools_ok confirmed unconfirmed q \<Longrightarrow> merge_incoming rows confirmed unconfirmed q = (left, q') \<Longrightarrow>
   pools_ok (\<lambda>_. None) left q'
   \<and> map entry_text (q_entries q') = map entry_text (q_entries q) @ map snd rows
   \<and> q_state q' = q_state q \<and> q_can_fast_track q' = q_can_fast_track q
   \<and> q_persist_path q' = q_persist_path q"
proof (induction rows arbitrary: confirmed unconfirmed q)
  case Nil
  then show ?case by (auto simp: pools_ok_def)
next
  case (Cons row rows)
  obtain r t where row: "row = (r, t)" by (cases row)
  note mi = Cons.prems(2) [unfolded row]
  show ?case
  proof (cases "confirmed r")
    case (Some e)
    from Cons.IH [OF pools_ok_hit [OF Cons.prems(1) Some, of t]
        mi [unfolded merge_incoming_hit [of confirmed, OF Some]]]
    show ?thesis by (simp add: row place_row_def)
  next
    case None
    note none = None
    show ?thesis
    proof (cases "position (\<lambda>e. entry_text e = t) unconfirmed")
      case (Some k)
      from Cons.IH [OF pools_ok_adopt [OF Cons.prems(1) position_SomeD(1) [OF Some], of r t]
          mi [unfolded merge_incoming_adopt [of confirmed, OF none Some]]]
      show ?thesis by (simp add: row place_row_def)
    next
      case None
      from Cons.IH [OF pools_ok_fresh [OF Cons.prems(1), of r t t False]
          mi [unfolded merge_incoming_fresh [of confirmed, OF none None]]]
      show ?thesis by (simp add: row place_row_def)
    qed
  qed
qed

text \<open>For a snapshot without repeated server ids: which local entries stay over.\<close>

lemma mset_remove_at: "k < length xs \<Longrightarrow> mset (remove_at k xs) = mset xs - {#xs ! k#}"
proof -
  assume "k < length xs"
  then have "mset xs = mset (take k xs @ xs ! k # drop (Suc k) xs)"
    by (metis id_take_nth_drop)
  then show ?thesis by (simp add: remove_at_def)
qed

lemma merge_incoming_left:
  "distinct (map fst rows) \<Longrightarrow> merge_incoming rows confirmed unconfirmed q = (left, q') \<Longrightarrow>
   mset (map entry_text left) = mset (map entry_text unconfirmed)
     - mset (map snd (filter (\<lambda>row. confirmed (fst row) = None) rows))
   \<and> set left \<subseteq> set unconfirmed"
proof (induction rows arbitrary: confirmed unconfirmed q)
  case Nil
  then show ?case by simp
next
  case (Cons row rows)
  obtain r t where row: "row = (r, t)" by (cases row)
  note mi = Cons.prems(2) [unfolded row]
  have rows: "distinct (map fst rows)" "r \<notin> fst ` set rows" using Cons.prems(1) row by auto
  have same: "filter (\<lambda>row. (confirmed(r := None)) (fst row) = None) rows
      = filter (\<lambda>row. confirmed (fst row) = None) rows"
    using rows(2) by (intro filter_cong) auto
  show ?case
  proof (cases "confirmed r")
    case (Some e)
    from Cons.IH [OF rows(1) mi [unfolded merge_incoming_hit [of confirmed, OF Some]]] Some
    show ?thesis unfolding same by (simp add: row)
  next
    case None
    note none = None
    show ?thesis
    proof (cases "position (\<lambda>e. entry_text e = t) unconfirmed")
      case (Some k)
      from position_SomeD [OF Some] have k: "k < length unconfirmed" "entry_text (unconfirmed ! k) = t"
        by auto
      then have "mset (map entry_text (remove_at k unconfirmed))
          = mset (map entry_text unconfirmed) - {#t#}"
        by (simp add: map_remove_at mset_remove_at)
      with Cons.IH [OF rows(1) mi [unfolded merge_incoming_adopt [of confirmed, OF none Some]]]
        none set_remove_at_subset [of k unconfirmed]
      show ?thesis by (auto simp: row)
    next
      case None
      then have "t \<notin># mset (map entry_text unconfirmed)" by (auto simp: position_None_iff)
      with Cons.IH [OF rows(1) mi [unfolded merge_incoming_fresh [of confirmed, OF none None]]] none
      show ?thesis by (simp add: row diff_add_mset_swap [symmetric] del: set_mset_mset)
    qed
  qed
qed

lemma pools_ok_start:
  assumes "sq_inv q" and "sort_entries (q_remote_ids q) I (q_entries q) [] Map.empty [] = (d, c, u)"
  shows "pools_ok c u (q\<lparr>q_entries := [], q_remote_ids := Map.empty, q_state := st\<rparr>)"
proof -
  let ?es = "q_entries q"
  have u: "u = filter (\<lambda>e. q_remote_ids q (entry_id e) = None) ?es"
    using sort_entries_lists [OF assms(2)] by simp
  have c: "e \<in> set ?es \<and> q_remote_ids q (entry_id e) = Some r" if "c r = Some e" for r e
    using sort_entries_confirmed [OF assms(2) that] by simp
  have es: "distinct (map entry_id ?es)" "\<forall>e\<in>set ?es. entry_id e < q_next_id q"
    using assms(1) by (auto simp: sq_inv_def entries_ok_def)
  have notin: "entry_id e \<notin> ids_of u" if "c r = Some e" for r e
    using c [OF that] unfolding u ids_of_iff by auto
  show ?thesis
    unfolding pools_ok_def
  proof (intro conjI)
    show "distinct (map entry_id (q_entries (q\<lparr>q_entries := [], q_remote_ids := Map.empty, q_state := st\<rparr>) @ u))"
      using es(1) by (simp add: u distinct_map_filter)
    show "ids_of (q_entries (q\<lparr>q_entries := [], q_remote_ids := Map.empty, q_state := st\<rparr>) @ u)
        \<subseteq> {..<q_next_id (q\<lparr>q_entries := [], q_remote_ids := Map.empty, q_state := st\<rparr>)}"
      using es(2) by (auto simp: u ids_of_iff)
    show "\<forall>e\<in>ran c. entry_id e < q_next_id (q\<lparr>q_entries := [], q_remote_ids := Map.empty, q_state := st\<rparr>)
        \<and> entry_id e \<notin> ids_of (q_entries (q\<lparr>q_entries := [], q_remote_ids := Map.empty, q_state := st\<rparr>) @ u)"
      using c es(2) notin by (auto simp: ran_def)
    show "\<forall>r e r' e'. c r = Some e \<longrightarrow> c r' = Some e' \<longrightarrow> entry_id e = entry_id e' \<longrightarrow> r = r'"
      using c by (metis option.inject)
  qed simp
qed

text \<open>The whole operation over the results of its two loops.\<close>

lemma replace_remote_items_eq:
  assumes "sort_entries (q_remote_ids q) (set (map fst rows)) (q_entries q) [] Map.empty [] = (d, c, u)"
    and "merge_incoming rows c u
      (q\<lparr>q_entries := [], q_remote_ids := Map.empty, q_state := paused_state paused\<rparr>) = (l, q1)"
  shows "fst (replace_remote_items rows paused q) = d"
    and "q_entries (snd (replace_remote_items rows paused q)) = q_entries q1 @ l"
    and "q_next_id (snd (replace_remote_items rows paused q)) = q_next_id q1"
    and "q_remote_ids (snd (replace_remote_items rows paused q)) = q_remote_ids q1"
  using assms by (simp_all add: replace_remote_items_def)

lemma replace_remote_items_runs:
  obtains d c u l q1 where
    "sort_entries (q_remote_ids q) (set (map fst rows)) (q_entries q) [] Map.empty [] = (d, c, u)"
    "merge_incoming rows c u
      (q\<lparr>q_entries := [], q_remote_ids := Map.empty, q_state := paused_state paused\<rparr>) = (l, q1)"
  by (metis prod.exhaust)

lemma sq_inv_replace_remote_items:
  assumes "sq_inv q"
  shows "sq_inv (snd (replace_remote_items rows paused q))"
proof -
  obtain d c u l q1 where run:
    "sort_entries (q_remote_ids q) (set (map fst rows)) (q_entries q) [] Map.empty [] = (d, c, u)"
    "merge_incoming rows c u
      (q\<lparr>q_entries := [], q_remote_ids := Map.empty, q_state := paused_state paused\<rparr>) = (l, q1)"
    by (rule replace_remote_items_runs)
  have "pools_ok (\<lambda>_. None) l q1"
    using merge_incoming_inv [OF pools_ok_start [OF assms run(1)] run(2)] by simp
  then show ?thesis
    unfolding sq_inv_def replace_remote_items_eq [OF run] entries_ok_def pools_ok_def
    by (auto simp: ids_of_iff subset_iff)
qed

section \<open>Reachable queues\<close>

text \<open>One step is any operation of the queue, with any outcome of its file operations.\<close>

inductive sq_step :: "send_queue \<Rightarrow> send_queue \<Rightarrow> bool" where
  toggled: "sq_step q (fst (toggle_steer ser outcome i q fs))"
| enqueued: "sq_step q (fst (sq_enqueue ser outcome text steer q fs))"
| removed: "sq_step q (fst (sq_remove ser outcome i q fs))"
| cleared: "sq_step q (fst (sq_clear ser outcome q fs))"
| fast_tracked: "sq_step q (fst (try_fast_track ser outcome generating q fs))"
| stopped: "sq_step q (fst (on_generation_stopped ser outcome focused q fs))"
| sent_now: "sq_step q (fst (send_now ser outcome i generating q fs))"
| paused: "sq_step q (sq_pause q)"
| resumed: "sq_step q (sq_resume q)"
| projected: "sq_step q (replace_remote texts is_paused q)"
| merged: "sq_step q (snd (replace_remote_items rows is_paused q))"
| dequeued: "sq_step q (snd (dequeue_matching_remote_message text q))"

inductive sq_reachable :: "send_queue \<Rightarrow> bool" where
  fresh: "sq_reachable sq_new"
| with_path: "sq_reachable (sq_new_with_path path)"
| loaded: "sq_load de path opened = Inr q \<Longrightarrow> sq_reachable q"
| step: "sq_reachable q \<Longrightarrow> sq_step q q' \<Longrightarrow> sq_reachable q'"

lemmas sq_inv_operations =
  sq_inv_toggle_steer sq_inv_enqueue sq_inv_remove sq_inv_clear sq_inv_try_fast_track
  sq_inv_on_generation_stopped sq_inv_send_now sq_inv_replace_remote
  sq_inv_replace_remote_items sq_inv_dequeue_matching

lemma sq_step_inv: "sq_step q q' \<Longrightarrow> sq_inv q \<Longrightarrow> sq_inv q'"
  by (induction rule: sq_step.induct) (simp_all add: sq_inv_operations sq_pause_def sq_resume_def)

lemma sq_reachable_inv: "sq_reachable q \<Longrightarrow> sq_inv q"
  by (induction rule: sq_reachable.induct)
    (auto simp: sq_new_def sq_inv_default intro: sq_inv_load sq_step_inv)

section \<open>The queue as a FIFO\<close>

text \<open>
  A local queue with its file, whose writes succeed: a message is pushed by \<open>enqueue\<close> and
  taken by the end of a turn while the compose box is not focused.
\<close>

definition sq_fifo_items :: "send_queue \<times> files \<Rightarrow> string list" where
  "sq_fifo_items s = map entry_text (q_entries (fst s))"

definition sq_fifo_ready :: "send_queue \<times> files \<Rightarrow> bool" where
  "sq_fifo_ready s = (q_state (fst s) = AutoProcess)"

definition sq_fifo_push ::
  "(persisted_entry \<Rightarrow> string) \<Rightarrow> string \<Rightarrow> send_queue \<times> files \<Rightarrow> send_queue \<times> files"
where
  "sq_fifo_push ser text s =
     (case sq_enqueue ser Written text False (fst s) (snd s) of (q, fs, r) \<Rightarrow> (q, fs))"

definition sq_fifo_pop ::
  "(persisted_entry \<Rightarrow> string) \<Rightarrow> send_queue \<times> files \<Rightarrow> string option \<times> send_queue \<times> files"
where
  "sq_fifo_pop ser s =
     (case on_generation_stopped ser Written False (fst s) (snd s) of
        (q, fs, Inl e) \<Rightarrow> (None, q, fs)
      | (q, fs, Inr popped) \<Rightarrow> (map_option entry_text popped, q, fs))"

lemma persist_then_written:
  "\<exists>fs'. persist_then ser Written q fs v = (q, fs', Inr v)"
  by (auto simp: persist_then_def sq_persist_def Let_def split: option.splits)

lemma sq_fifo_push_queue:
  "fst (sq_fifo_push ser t s) = fst (sq_enqueue ser Written t False (fst s) (snd s))"
  by (auto simp: sq_fifo_push_def split: prod.splits)

lemma sq_fifo_pop_auto:
  "q_state q = AutoProcess \<Longrightarrow> \<exists>fs'. sq_fifo_pop ser (q, fs) =
     (map_option entry_text (sq_first q), q\<lparr>q_entries := tl (q_entries q)\<rparr>, fs')"
  using persist_then_written [of ser "q\<lparr>q_entries := tl (q_entries q)\<rparr>" fs "sq_first q"]
  by (auto simp: sq_fifo_pop_def on_generation_stopped_def pop_front_def sq_first_def split: list.splits)

interpretation sq_fifo: fifo_queue sq_fifo_items sq_fifo_ready "\<lambda>_ _. True"
  "sq_fifo_push ser" "sq_fifo_pop ser" for ser
proof unfold_locales
  fix s :: "send_queue \<times> files" and x :: string
  show "sq_fifo_ready (sq_fifo_push ser x s)"
    by (simp add: sq_fifo_ready_def sq_fifo_push_queue sq_enqueue_def next_id_def panel_simps)
  show "sq_fifo_items (sq_fifo_push ser x s) = sq_fifo_items s @ [x]"
    by (simp add: sq_fifo_items_def sq_fifo_push_queue sq_enqueue_def next_id_def panel_simps)
next
  fix s :: "send_queue \<times> files"
  assume "sq_fifo_ready s"
  then have auto: "q_state (fst s) = AutoProcess" by (simp add: sq_fifo_ready_def)
  obtain fs' where pop: "sq_fifo_pop ser s =
      (map_option entry_text (sq_first (fst s)), (fst s)\<lparr>q_entries := tl (q_entries (fst s))\<rparr>, fs')"
    using sq_fifo_pop_auto [OF auto, of ser "snd s"] by auto
  show "sq_fifo_ready (snd (sq_fifo_pop ser s))" using auto pop by (simp add: sq_fifo_ready_def)
  show "sq_fifo_items (snd (sq_fifo_pop ser s)) = tl (sq_fifo_items s)"
    using pop by (simp add: sq_fifo_items_def map_tl)
  show "fst (sq_fifo_pop ser s) = (if sq_fifo_items s = [] then None else Some (hd (sq_fifo_items s)))"
    using pop by (cases "q_entries (fst s)") (simp_all add: sq_fifo_items_def sq_first_def)
qed

section \<open>The persisted file\<close>

text \<open>
  The file of the queue after a rewrite: the new content when the rename happened, else
  what was there before.  Other files are untouched but for the temporary one.
\<close>

lemma sq_persist_atomic:
  assumes "q_persist_path q = Some path"
  shows "fst (sq_persist ser outcome q fs) path =
      (if outcome = Written then Some (unlines (map (\<lambda>e. ser (persisted e)) (q_entries q))) else fs path)"
  using with_extension_neq [of "''jsonl.tmp''" path] assms
  by (cases outcome) (auto simp: sq_persist_def Let_def)

lemma load_lines_entries:
  assumes codec: "line_codec ser de"
  shows "\<exists>q'. load_lines de q (map Inr (map ser ps)) = Inr q'
    \<and> map persisted (q_entries q') = map persisted (q_entries q) @ ps
    \<and> q_state q' = q_state q \<and> q_persist_path q' = q_persist_path q
    \<and> q_remote_ids q' = q_remote_ids q"
proof (induction ps arbitrary: q)
  case Nil
  then show ?case by simp
next
  case (Cons p ps)
  let ?e = "\<lparr>entry_id = q_next_id q, entry_text = p_text p, entry_steer = p_steer p\<rparr>"
  have "persisted ?e = p" by (simp add: persisted_def)
  with Cons.IH [of "q\<lparr>q_next_id := q_next_id q + 1, q_entries := q_entries q @ [?e]\<rparr>"]
  show ?case
    using line_codec.enc_visible [OF codec, of p] line_codec.dec_enc [OF codec, of p]
    by (auto simp: next_id_def)
qed

lemma load_persisted:
  assumes codec: "line_codec ser de" and path: "q_persist_path q = Some path"
    and stored: "fs path = Some (unlines (map (\<lambda>e. ser (persisted e)) (q_entries q)))"
  shows "\<exists>q'. sq_load de path (open_file fs path) = Inr q'
    \<and> map persisted (q_entries q') = map persisted (q_entries q)
    \<and> q_state q' = AutoProcess \<and> q_persist_path q' = Some path"
proof -
  have "str_lines (unlines (map ser (map persisted (q_entries q)))) = map ser (map persisted (q_entries q))"
    by (rule line_codec.lines_of_file [OF codec])
  then have "open_file fs path = Inr (map Inr (map ser (map persisted (q_entries q))))"
    using stored by (simp add: open_file_def comp_def)
  moreover obtain q0 where "load_lines de (sq_new_with_path path)
      (map Inr (map ser (map persisted (q_entries q)))) = Inr q0"
    "map persisted (q_entries q0) = map persisted (q_entries q)"
    "q_state q0 = AutoProcess" "q_persist_path q0 = Some path"
    using load_lines_entries [OF codec, of "sq_new_with_path path" "map persisted (q_entries q)"]
    by (auto simp: sq_new_with_path_def sq_default_def)
  ultimately show ?thesis by (simp add: sq_load_def)
qed

text \<open>A concrete codec for the entries.\<close>

definition entry_fields :: "persisted_entry \<Rightarrow> string list" where
  "entry_fields p = [p_text p, enc_bool (p_steer p)]"

definition fields_entry :: "string list \<Rightarrow> persisted_entry option" where
  "fields_entry fs =
     (case fs of [t, b] \<Rightarrow> map_option (\<lambda>s. \<lparr>p_text = t, p_steer = s\<rparr>) (dec_bool b) | _ \<Rightarrow> None)"

definition ser_entry :: "persisted_entry \<Rightarrow> string" where
  "ser_entry p = enc_fields (entry_fields p)"

definition de_entry :: "string \<Rightarrow> persisted_entry option" where
  "de_entry s = Option.bind (dec_fields s) fields_entry"

interpretation entry_codec: line_codec ser_entry de_entry
  using line_codec_via_fields [of fields_entry entry_fields]
  by (simp add: ser_entry_def [abs_def] de_entry_def [abs_def] fields_entry_def entry_fields_def)

section \<open>One local operation, with its file\<close>

datatype local_op =
    ToggleSteer nat
  | Enqueue string bool
  | Remove nat
  | Clear
  | FastTrack bool
  | GenerationStopped bool
  | SendNow nat bool

text \<open>The error of an operation, whatever it returns.\<close>

definition outcome_of :: "'a queue_result \<Rightarrow> send_queue \<times> files \<times> io_error option" where
  "outcome_of r = (case r of (q, fs, Inl e) \<Rightarrow> (q, fs, Some e) | (q, fs, Inr _) \<Rightarrow> (q, fs, None))"

fun run_local ::
  "(persisted_entry \<Rightarrow> string) \<Rightarrow> write_outcome \<Rightarrow> local_op \<Rightarrow> send_queue \<Rightarrow> files \<Rightarrow>
   send_queue \<times> files \<times> io_error option"
where
  "run_local ser out (ToggleSteer i) q fs = outcome_of (toggle_steer ser out i q fs)"
| "run_local ser out (Enqueue t s) q fs = outcome_of (sq_enqueue ser out t s q fs)"
| "run_local ser out (Remove i) q fs = outcome_of (sq_remove ser out i q fs)"
| "run_local ser out Clear q fs = outcome_of (sq_clear ser out q fs)"
| "run_local ser out (FastTrack g) q fs = outcome_of (try_fast_track ser out g q fs)"
| "run_local ser out (GenerationStopped c) q fs = outcome_of (on_generation_stopped ser out c q fs)"
| "run_local ser out (SendNow i g) q fs = outcome_of (send_now ser out i g q fs)"

text \<open>What a restart would read back from the file.\<close>

definition saved_queue ::
  "(string \<Rightarrow> persisted_entry option) \<Rightarrow> path \<Rightarrow> files \<Rightarrow> io_error + persisted_entry list"
where
  "saved_queue de path fs =
     map_sum id (\<lambda>q. map persisted (q_entries q)) (sq_load de path (open_file fs path))"

lemma saved_queue_stored:
  assumes codec: "line_codec ser de" and path: "q_persist_path q = Some path"
    and stored: "fs path = Some (unlines (map (\<lambda>e. ser (persisted e)) (q_entries q)))"
  shows "saved_queue de path fs = Inr (map persisted (q_entries q))"
  using load_persisted [of ser de q path fs] assms by (auto simp: saved_queue_def)

lemma saved_queue_same_file: "fs' path = fs path \<Longrightarrow> saved_queue de path fs' = saved_queue de path fs"
  by (simp add: saved_queue_def open_file_def)

text \<open>
  How an operation ends: the file holds the new entries, or, with an error, what it held.
\<close>

definition ends_saved ::
  "(string \<Rightarrow> persisted_entry option) \<Rightarrow> path \<Rightarrow> files \<Rightarrow> send_queue \<times> files \<times> io_error option \<Rightarrow> bool"
where
  "ends_saved de path fs r =
     (case r of (q1, fs1, err) \<Rightarrow> q_persist_path q1 = Some path
        \<and> saved_queue de path fs1 =
            (if err = None then Inr (map persisted (q_entries q1)) else saved_queue de path fs))"

lemma ends_saved_persist_then:
  assumes codec: "line_codec ser de" and path: "q_persist_path q = Some path"
  shows "ends_saved de path fs (outcome_of (persist_then ser out q fs v))"
proof (cases "out = Written")
  case True
  let ?out = "unlines (map (\<lambda>e. ser (persisted e)) (q_entries q))"
  have "outcome_of (persist_then ser out q fs v)
      = (q, (fs(with_extension path ''jsonl.tmp'' := None))(path \<mapsto> ?out), None)"
    using True path by (simp add: outcome_of_def persist_then_def sq_persist_def Let_def)
  with path saved_queue_stored [OF codec path, of "(fs(with_extension path ''jsonl.tmp'' := None))(path \<mapsto> ?out)"]
  show ?thesis by (simp add: ends_saved_def)
next
  case False
  then have "snd (sq_persist ser out q fs) = Inl OtherIo"
    using path by (cases out) (simp_all add: sq_persist_def Let_def)
  then obtain fs1 where persist: "sq_persist ser out q fs = (fs1, Inl OtherIo)"
    by (metis prod.collapse)
  then have "fs1 path = fs path" using sq_persist_atomic [OF path, of ser out fs] False by simp
  moreover have "outcome_of (persist_then ser out q fs v) = (q, fs1, Some OtherIo)"
    by (simp add: outcome_of_def persist_then_def persist)
  ultimately show ?thesis using path by (simp add: ends_saved_def saved_queue_same_file [of fs1 path fs])
qed

lemma ends_saved_untouched:
  assumes "saved_queue de path fs = Inr (map persisted (q_entries q))"
    and "q_persist_path q = Some path"
  shows "ends_saved de path fs (outcome_of (q, fs, Inr v))"
  using assms by (simp add: ends_saved_def outcome_of_def)

lemma run_local_ends_saved:
  assumes codec: "line_codec ser de" and path: "q_persist_path q = Some path"
    and saved: "saved_queue de path fs = Inr (map persisted (q_entries q))"
  shows "ends_saved de path fs (run_local ser out op q fs)"
proof -
  note rewrite = ends_saved_persist_then [OF codec]
  note keep = ends_saved_untouched [of de path fs]
  show ?thesis
  proof (cases op)
    case (ToggleSteer i)
    then show ?thesis
      by (simp only: run_local.simps toggle_steer_def Let_def)
        (rule rewrite, simp add: path split: option.splits)
  next
    case (Enqueue t s)
    then show ?thesis using path by (auto simp: sq_enqueue_def next_id_def Let_def intro!: rewrite)
  next
    case (Remove i)
    then show ?thesis
      using path by (auto simp: sq_remove_def take_entry_def intro!: rewrite split: option.splits)
  next
    case Clear
    then show ?thesis using path by (auto simp: sq_clear_def intro!: rewrite)
  next
    case (FastTrack g)
    then show ?thesis
      using path saved by (auto simp: try_fast_track_def pop_front_def Let_def intro!: rewrite keep)
  next
    case (GenerationStopped c)
    then show ?thesis
      using path saved
      by (cases "q_state q")
        (auto simp: on_generation_stopped_def pop_front_def sq_first_def Let_def
          intro!: rewrite keep split: list.splits)
  next
    case (SendNow i g)
    then show ?thesis
      using path saved
      by (auto simp: send_now_def take_entry_def Let_def intro!: rewrite keep split: option.splits)
  qed
qed

section \<open>Properties\<close>

text \<open>
  In every queue that any sequence of operations can produce, with any outcome of the
  file operations, the local ids are pairwise different, all are below the counter that
  mints the next one, and the server ids are kept for minted ids only.
\<close>

theorem send_queue_ids_unique:
  assumes "sq_reachable q"
  shows "distinct (map entry_id (q_entries q)) \<and> (\<forall>e\<in>set (q_entries q). entry_id e < q_next_id q)
    \<and> dom (q_remote_ids q) \<subseteq> {..<q_next_id q}"
proof -
  have "sq_inv q" by (rule sq_reachable_inv [OF assms])
  then show ?thesis by (auto simp: sq_inv_def entries_ok_def not_le [symmetric] domIff)
qed

theorem send_queue_ids_unique_witness:
  "let q = snd (replace_remote_items [(''r1'', ''a'')] False
      (fst (sq_enqueue ser_entry Written ''a'' False sq_new Map.empty)))
   in distinct (map entry_id (q_entries q)) \<and> (\<forall>e\<in>set (q_entries q). entry_id e < q_next_id q)
    \<and> dom (q_remote_ids q) \<subseteq> {..<q_next_id q}"
  unfolding Let_def
  by (rule send_queue_ids_unique)
    (rule sq_reachable.step [OF sq_reachable.step [OF sq_reachable.fresh sq_step.enqueued] sq_step.merged])

text \<open>
  Messages leave the queue in the order they were queued, each once: over any run of
  enqueues and ends of turns, what was sent followed by what is still queued is what was
  queued at the start followed by what was enqueued.
\<close>

theorem send_queue_fifo:
  assumes "q_state q = AutoProcess"
    and "fifo_run (sq_fifo_push ser) (sq_fifo_pop ser) events (q, fs) = (sent, (q', fs'))"
  shows "sent @ map entry_text (q_entries q') = map entry_text (q_entries q) @ pushed events"
  using sq_fifo.delivered_in_order [of "(q, fs)" ser events sent "(q', fs')"] assms
  by (simp add: sq_fifo_ready_def sq_fifo_items_def pushes_fit_always)

theorem send_queue_fifo_witness:
  "[''a'', ''b''] @ map entry_text (q_entries (sq_default\<lparr>q_next_id := 2, q_can_fast_track := True\<rparr>))
   = map entry_text (q_entries sq_default) @ pushed [Push ''a'', Push ''b'', Pop, Pop]"
proof (rule send_queue_fifo)
  show "q_state sq_default = AutoProcess" by (simp add: sq_default_def)
  show "fifo_run (sq_fifo_push ser_entry) (sq_fifo_pop ser_entry)
      [Push ''a'', Push ''b'', Pop, Pop] (sq_default, Map.empty)
    = ([''a'', ''b''], (sq_default\<lparr>q_next_id := 2, q_can_fast_track := True\<rparr>, Map.empty))"
    by (simp add: sq_fifo_push_def sq_fifo_pop_def sq_enqueue_def on_generation_stopped_def
        next_id_def persist_then_def sq_persist_def sq_default_def pop_front_def sq_first_def)
qed

text \<open>
  Sending an entry out of turn while a turn is running arms the queue to swallow the
  stop event of the cancelled turn: that event sends nothing more and changes nothing but
  the state, which goes back to automatic processing.
\<close>

theorem out_of_turn_send_absorbs_stop:
  assumes "try_fast_track ser out1 True q fs = (q1, fs1, Inr (Some e))
      \<or> send_now ser out1 i True q fs = (q1, fs1, Inr (Some e))"
  shows "on_generation_stopped ser out2 focused q1 fs1 = (q1\<lparr>q_state := AutoProcess\<rparr>, fs1, Inr None)"
proof -
  have "q_state q1 = AbsorbingCancel"
    using assms
    by (auto simp: try_fast_track_def send_now_def persist_then_def Let_def
        split: prod.splits sum.splits if_splits)
  then show ?thesis by (simp add: on_generation_stopped_def)
qed

theorem out_of_turn_send_absorbs_stop_witness:
  "on_generation_stopped ser_entry Written False
     (sq_default\<lparr>q_state := AbsorbingCancel, q_next_id := 1\<rparr>) Map.empty
   = (sq_default\<lparr>q_state := AbsorbingCancel, q_next_id := 1\<rparr>\<lparr>q_state := AutoProcess\<rparr>, Map.empty, Inr None)"
proof (rule out_of_turn_send_absorbs_stop)
  let ?e = "\<lparr>entry_id = 0, entry_text = ''a'', entry_steer = False\<rparr>"
  show "try_fast_track ser_entry Written True
        (sq_default\<lparr>q_entries := [?e], q_can_fast_track := True, q_next_id := 1\<rparr>) Map.empty
      = (sq_default\<lparr>q_state := AbsorbingCancel, q_next_id := 1\<rparr>, Map.empty, Inr (Some ?e))
    \<or> send_now ser_entry Written 0 True
        (sq_default\<lparr>q_entries := [?e], q_can_fast_track := True, q_next_id := 1\<rparr>) Map.empty
      = (sq_default\<lparr>q_state := AbsorbingCancel, q_next_id := 1\<rparr>, Map.empty, Inr (Some ?e))"
    by (simp add: try_fast_track_def can_fast_track_def pop_front_def sq_first_def sq_default_def
        persist_then_def sq_persist_def)
qed

text \<open>
  C5. A server snapshot without repeated ids: the queue shows the server's rows in the
  server's order, then exactly those unconfirmed local entries that no incoming row
  accounts for, counted with multiplicity (a row retires an unconfirmed entry of the same
  text only when its id was not known before); the reported texts are those of the
  confirmed entries the snapshot dropped, in their order.
\<close>

theorem snapshot_keeps_unconfirmed:
  assumes "sq_reachable q" and "distinct (map fst rows)"
  shows "\<exists>left. map entry_text (q_entries (snd (replace_remote_items rows paused q)))
        = map snd rows @ map entry_text left
    \<and> set left \<subseteq> {e \<in> set (q_entries q). confirmed_as q e = None}
    \<and> mset (map entry_text left) = mset (map entry_text (filter (\<lambda>e. confirmed_as q e = None) (q_entries q)))
        - mset (map snd (filter (\<lambda>row. Some (fst row) \<notin> confirmed_as q ` set (q_entries q)) rows))
    \<and> fst (replace_remote_items rows paused q)
        = map entry_text (filter (\<lambda>e. \<exists>r. confirmed_as q e = Some r \<and> r \<notin> fst ` set rows) (q_entries q))"
proof -
  obtain d c u l q1 where run:
    "sort_entries (q_remote_ids q) (set (map fst rows)) (q_entries q) [] Map.empty [] = (d, c, u)"
    "merge_incoming rows c u
      (q\<lparr>q_entries := [], q_remote_ids := Map.empty, q_state := paused_state paused\<rparr>) = (l, q1)"
    by (rule replace_remote_items_runs)
  have lists: "d = map entry_text (filter (\<lambda>e. \<exists>r. confirmed_as q e = Some r \<and> r \<notin> fst ` set rows) (q_entries q))"
    "u = filter (\<lambda>e. confirmed_as q e = None) (q_entries q)"
    using sort_entries_lists [OF run(1)] by (simp_all add: confirmed_as_def)
  have c_none: "c (fst row) = None \<longleftrightarrow> Some (fst row) \<notin> confirmed_as q ` set (q_entries q)"
    if "row \<in> set rows" for row
    using sort_entries_dom [OF run(1)] that by (force simp: domIff confirmed_as_def image_iff)
  then have fresh: "filter (\<lambda>row. c (fst row) = None) rows
      = filter (\<lambda>row. Some (fst row) \<notin> confirmed_as q ` set (q_entries q)) rows"
    by (intro filter_cong) auto
  have texts: "map entry_text (q_entries q1) = map snd rows"
    using merge_incoming_inv [OF pools_ok_start [OF sq_reachable_inv [OF assms(1)] run(1)] run(2)]
    by simp
  from merge_incoming_left [OF assms(2) run(2)] show ?thesis
    unfolding replace_remote_items_eq [OF run] fresh
    by (intro exI [of _ l]) (auto simp: texts lists)
qed

theorem snapshot_keeps_unconfirmed_witness:
  "let q = fst (sq_enqueue ser_entry Written ''a'' False (fst (sq_enqueue ser_entry Written ''b'' False sq_new Map.empty)) Map.empty)
   in \<exists>left :: queue_entry list. map entry_text (q_entries (snd (replace_remote_items [(''r1'', ''a'')] False q)))
        = map snd [(''r1'', ''a'')] @ map entry_text left"
proof -
  let ?q = "fst (sq_enqueue ser_entry Written ''a'' False (fst (sq_enqueue ser_entry Written ''b'' False sq_new Map.empty)) Map.empty)"
  have reach: "sq_reachable ?q"
    by (rule sq_reachable.step [OF sq_reachable.step [OF sq_reachable.fresh sq_step.enqueued] sq_step.enqueued])
  have rows: "distinct (map fst [(''r1'', ''a'')])" by simp
  from snapshot_keeps_unconfirmed [OF reach rows, of False]
  have "\<exists>left :: queue_entry list. map entry_text (q_entries (snd (replace_remote_items [(''r1'', ''a'')] False ?q)))
      = map snd [(''r1'', ''a'')] @ map entry_text left"
    by blast
  then show ?thesis unfolding Let_def .
qed

text \<open>
  Surviving a restart: if the file holds the queue, then after any local operation it
  holds the queue again, message by message and in order; and when the operation failed, at
  whatever stage of the rewrite, the file still holds the queue as it was before it.  The
  serializer is any one that its parser inverts and that writes one visible line per entry.
\<close>

theorem send_queue_survives_restart:
  assumes "line_codec ser de" and "q_persist_path q = Some path"
    and "saved_queue de path fs = Inr (map persisted (q_entries q))"
    and "run_local ser out op q fs = (q1, fs1, err)"
  shows "saved_queue de path fs1
    = Inr (map persisted (q_entries (if err = None then q1 else q)))"
  using run_local_ends_saved [OF assms(1-3), of out op] assms(3,4) by (auto simp: ends_saved_def)

theorem send_queue_survives_restart_witness:
  "saved_queue de_entry (''d'', ''t.jsonl'')
     (fst (snd (run_local ser_entry Written (Enqueue ''hi'' False)
        (sq_new_with_path (''d'', ''t.jsonl'')) Map.empty)))
   = Inr [\<lparr>p_text = ''hi'', p_steer = False\<rparr>]"
proof -
  let ?q = "sq_new_with_path (''d'', ''t.jsonl'')"
  have start: "q_persist_path ?q = Some (''d'', ''t.jsonl'')" "q_entries ?q = []"
    by (simp_all add: sq_new_with_path_def sq_default_def)
  have saved: "saved_queue de_entry (''d'', ''t.jsonl'') Map.empty = Inr (map persisted (q_entries ?q))"
    by (simp add: start saved_queue_def sq_load_def open_file_def)
  obtain q1 fs1 err where run: "run_local ser_entry Written (Enqueue ''hi'' False) ?q Map.empty = (q1, fs1, err)"
    by (metis prod.exhaust)
  then have "err = None" "map persisted (q_entries q1) = [\<lparr>p_text = ''hi'', p_steer = False\<rparr>]"
    by (auto simp: outcome_of_def sq_enqueue_def persist_then_def sq_persist_def Let_def next_id_def
        sq_new_with_path_def sq_default_def persisted_def)
  with send_queue_survives_restart [OF entry_codec.line_codec_axioms start(1) saved run] run
  show ?thesis by simp
qed

text \<open>
  When the rewrite of the file fails at the end of a turn, the entry that was popped is
  neither handed to the caller nor put back: the queue goes on without it, and the next
  successful rewrite removes it from the file as well.
\<close>

theorem failed_rewrite_loses_message:
  assumes "line_codec ser de" and "q_persist_path q = Some path" and "q_state q = AutoProcess"
    and "q_entries q = e # es" and "out \<noteq> Written"
  shows "\<exists>fs1. on_generation_stopped ser out False q fs = (q\<lparr>q_entries := es\<rparr>, fs1, Inl OtherIo)
    \<and> (\<exists>fs2 q2. run_local ser Written (Enqueue t s) (q\<lparr>q_entries := es\<rparr>) fs1 = (q2, fs2, None)
        \<and> saved_queue de path fs2 = Inr (map persisted es @ [\<lparr>p_text = t, p_steer = s\<rparr>]))"
proof -
  obtain fs1 where stop: "on_generation_stopped ser out False q fs = (q\<lparr>q_entries := es\<rparr>, fs1, Inl OtherIo)"
    using assms(2-5)
    by (cases out) (auto simp: on_generation_stopped_def pop_front_def sq_first_def persist_then_def
        sq_persist_def Let_def)
  let ?q1 = "q\<lparr>q_entries := es\<rparr>"
  let ?q2 = "?q1\<lparr>q_next_id := q_next_id q + 1,
      q_entries := es @ [\<lparr>entry_id = q_next_id q, entry_text = t, entry_steer = s\<rparr>],
      q_state := AutoProcess, q_can_fast_track := True\<rparr>"
  have run: "run_local ser Written (Enqueue t s) ?q1 fs1
      = outcome_of (persist_then ser Written ?q2 fs1 (q_next_id q))"
    by (simp add: sq_enqueue_def next_id_def Let_def)
  moreover obtain fs2 where "outcome_of (persist_then ser Written ?q2 fs1 (q_next_id q)) = (?q2, fs2, None)"
    using persist_then_written [of ser ?q2 fs1 "q_next_id q"] by (auto simp: outcome_of_def)
  moreover have "ends_saved de path fs1 (outcome_of (persist_then ser Written ?q2 fs1 (q_next_id q)))"
    by (rule ends_saved_persist_then [OF assms(1)]) (simp add: assms(2))
  ultimately have "saved_queue de path fs2 = Inr (map persisted es @ [\<lparr>p_text = t, p_steer = s\<rparr>])"
    by (simp add: ends_saved_def persisted_def)
  then show ?thesis using stop run \<open>outcome_of _ = (?q2, fs2, None)\<close> by auto
qed

theorem failed_rewrite_loses_message_witness:
  "\<exists>fs1. on_generation_stopped ser_entry RenameFails False
      ((sq_new_with_path (''d'', ''t.jsonl''))\<lparr>q_entries := [\<lparr>entry_id = 0, entry_text = ''hi'', entry_steer = False\<rparr>],
         q_next_id := 1\<rparr>) Map.empty
    = ((sq_new_with_path (''d'', ''t.jsonl''))\<lparr>q_entries := [], q_next_id := 1\<rparr>, fs1, Inl OtherIo)"
  using failed_rewrite_loses_message [OF entry_codec.line_codec_axioms, of
      "(sq_new_with_path (''d'', ''t.jsonl''))\<lparr>q_entries := [\<lparr>entry_id = 0, entry_text = ''hi'', entry_steer = False\<rparr>],
         q_next_id := 1\<rparr>" "(''d'', ''t.jsonl'')"
      "\<lparr>entry_id = 0, entry_text = ''hi'', entry_steer = False\<rparr>" "[]" RenameFails Map.empty]
  by (auto simp: sq_new_with_path_def sq_default_def)

end
