(* ===== verification/Conversation.thy ===== *)
theory Conversation
  imports Payload
begin

text \<open>
  The thread-scoped conversation reducer: \<open>panel-rust/src/conversation.rs\<close>.  A
  conversation is a list of transcript items; an event of the thread either changes the
  first item with its key in place or adds one at the end.  The rebuild from the raw feed
  of chat messages (\<open>panel-rust/src/protocol_types.rs\<close>, \<open>ChatMessage\<close>) gives the chunks
  without an id a synthetic one.
\<close>

section \<open>Items and events\<close>

datatype transcript_item =
    User (message_id: string) (item_text: string)
  | Assistant (message_id: string) (item_text: string) (streaming: bool)
  | Thought (message_id: string) (item_text: string) (streaming: bool)
  | Tool (tool_call_id: string) (title: string) (status: "string option") (detail: "string option")
      (raw_input: "string option") (raw_output: "string option")
  | Terminal (terminal_id: string) (title: string) (terminal_output: string) (exit_code: "32 word option")
  | Notice (item_text: string)

datatype conversation_event =
    UserMessage string string string
  | AssistantChunk string string string bool
  | ThoughtChunk string string string bool
  | ToolCall string string "string option" "string option" "string option" "string option" "string option"
  | TerminalCreated string string string
  | TerminalOutput string string string
  | TerminalExited string string "32 word"
  | NoticeEvent string string

primrec event_thread_id :: "conversation_event \<Rightarrow> string" where
  "event_thread_id (UserMessage t i s) = t"
| "event_thread_id (AssistantChunk t i s c) = t"
| "event_thread_id (ThoughtChunk t i s c) = t"
| "event_thread_id (ToolCall t i ti st de ri ro) = t"
| "event_thread_id (TerminalCreated t i ti) = t"
| "event_thread_id (TerminalOutput t i s) = t"
| "event_thread_id (TerminalExited t i c) = t"
| "event_thread_id (NoticeEvent t s) = t"

record conversation_state =
  conv_thread_id :: string
  conv_items :: "transcript_item list"

definition conv_new :: "string \<Rightarrow> conversation_state" where
  "conv_new t = \<lparr>conv_thread_id = t, conv_items = []\<rparr>"

section \<open>The reducer\<close>

fun complete_item :: "transcript_item \<Rightarrow> transcript_item" where
  "complete_item (Assistant i t s) = Assistant i t False"
| "complete_item (Thought i t s) = Thought i t False"
| "complete_item item = item"

definition mark_all_streaming_completed :: "conversation_state \<Rightarrow> conversation_state" where
  "mark_all_streaming_completed c = c\<lparr>conv_items := map complete_item (conv_items c)\<rparr>"

definition upsert_user :: "string \<Rightarrow> string \<Rightarrow> transcript_item list \<Rightarrow> transcript_item list" where
  "upsert_user i text items =
     upsert (\<lambda>item. case item of User j _ \<Rightarrow> j = i | _ \<Rightarrow> False)
       (\<lambda>item. case item of User j _ \<Rightarrow> User j text | _ \<Rightarrow> item)
       (User i text) items"

definition merge_text ::
  "string \<Rightarrow> string \<Rightarrow> bool \<Rightarrow> bool \<Rightarrow> transcript_item list \<Rightarrow> transcript_item list"
where
  "merge_text i text completed thought items =
     upsert
       (\<lambda>item. case item of Assistant j _ _ \<Rightarrow> \<not> thought \<and> j = i
                | Thought j _ _ \<Rightarrow> thought \<and> j = i
                | _ \<Rightarrow> False)
       (\<lambda>item. case item of Assistant j stored _ \<Rightarrow> Assistant j (stored @ text) (\<not> completed)
                | Thought j stored _ \<Rightarrow> Thought j (stored @ text) (\<not> completed)
                | _ \<Rightarrow> item)
       (if thought then Thought i text (\<not> completed) else Assistant i text (\<not> completed)) items"

text \<open>\<open>if new.is_some() { stored = new }\<close>.\<close>

definition or_keep :: "'a option \<Rightarrow> 'a option \<Rightarrow> 'a option" where
  "or_keep new stored = (if new \<noteq> None then new else stored)"

definition upsert_tool ::
  "string \<Rightarrow> string option \<Rightarrow> string option \<Rightarrow> string option \<Rightarrow> string option \<Rightarrow> string option \<Rightarrow>
   transcript_item list \<Rightarrow> transcript_item list"
where
  "upsert_tool i ti st de ri ro items =
     upsert (\<lambda>item. case item of Tool j _ _ _ _ _ \<Rightarrow> j = i | _ \<Rightarrow> False)
       (\<lambda>item. case item of Tool j ti' st' de' ri' ro' \<Rightarrow>
            Tool j (case ti of Some t \<Rightarrow> t | None \<Rightarrow> ti') (or_keep st st') (or_keep de de')
              (or_keep ri ri') (or_keep ro ro')
          | _ \<Rightarrow> item)
       (Tool i (case ti of Some t \<Rightarrow> t | None \<Rightarrow> []) st de ri ro) items"

definition upsert_terminal ::
  "string \<Rightarrow> string option \<Rightarrow> string option \<Rightarrow> 32 word option \<Rightarrow> transcript_item list \<Rightarrow> transcript_item list"
where
  "upsert_terminal i ti out code items =
     upsert (\<lambda>item. case item of Terminal j _ _ _ \<Rightarrow> j = i | _ \<Rightarrow> False)
       (\<lambda>item. case item of Terminal j ti' out' code' \<Rightarrow>
            Terminal j (case ti of Some t \<Rightarrow> t | None \<Rightarrow> ti')
              (case out of Some s \<Rightarrow> out' @ s | None \<Rightarrow> out') (or_keep code code')
          | _ \<Rightarrow> item)
       (Terminal i (case ti of Some t \<Rightarrow> t | None \<Rightarrow> ''Terminal'')
          (case out of Some s \<Rightarrow> s | None \<Rightarrow> []) code) items"

fun apply_items :: "conversation_event \<Rightarrow> transcript_item list \<Rightarrow> transcript_item list" where
  "apply_items (UserMessage t i text) items = upsert_user i text items"
| "apply_items (AssistantChunk t i text completed) items = merge_text i text completed False items"
| "apply_items (ThoughtChunk t i text completed) items = merge_text i text completed True items"
| "apply_items (ToolCall t i ti st de ri ro) items = upsert_tool i ti st de ri ro items"
| "apply_items (TerminalCreated t i ti) items = upsert_terminal i (Some ti) None None items"
| "apply_items (TerminalOutput t i text) items = upsert_terminal i None (Some text) None items"
| "apply_items (TerminalExited t i code) items = upsert_terminal i None None (Some code) items"
| "apply_items (NoticeEvent t text) items = items @ [Notice text]"

definition conv_apply :: "conversation_event \<Rightarrow> conversation_state \<Rightarrow> bool \<times> conversation_state" where
  "conv_apply ev c =
     (if event_thread_id ev \<noteq> conv_thread_id c then (False, c)
      else (True, c\<lparr>conv_items := apply_items ev (conv_items c)\<rparr>))"

section \<open>Rebuilding from the raw feed\<close>

datatype message_kind = KUser | KAgent | KThinking | KToolCall

record chat_message =
  cm_kind :: message_kind
  cm_text :: string
  cm_status :: "string option"
  cm_id :: "string option"
  cm_raw_input :: "json option"
  cm_raw_output :: "json option"

definition is_standalone_agent_status :: "string \<Rightarrow> bool" where
  "is_standalone_agent_status text =
     (let t = to_ascii_lowercase (trim text)
      in prefix ''reconnecting...'' t \<or> prefix ''unexpected status '' t
         \<or> contains t ''502 bad gateway'' \<or> contains t ''bad gateway'')"

definition synthetic_id :: "nat \<Rightarrow> string" where
  "synthetic_id n = ''synthetic-'' @ show_nat n"

text \<open>
  The state of the loop: the conversation, the open run and the counter of synthetic ids
  (a \<open>u64\<close> that the length of the feed bounds).
\<close>

record rebuild_state =
  rb_state :: conversation_state
  rb_open_run :: "(message_kind \<times> string) option"
  rb_counter :: nat

definition next_synthetic :: "rebuild_state \<Rightarrow> string \<times> rebuild_state" where
  "next_synthetic r = (synthetic_id (rb_counter r + 1), r\<lparr>rb_counter := rb_counter r + 1\<rparr>)"

text \<open>\<open>msg.id.clone().unwrap_or_else(|| next_synthetic(...))\<close>.\<close>

definition id_or_synthetic :: "chat_message \<Rightarrow> rebuild_state \<Rightarrow> string \<times> rebuild_state" where
  "id_or_synthetic msg r = (case cm_id msg of Some i \<Rightarrow> (i, r) | None \<Rightarrow> next_synthetic r)"

definition chunk_message_id :: "chat_message \<Rightarrow> rebuild_state \<Rightarrow> string \<times> rebuild_state" where
  "chunk_message_id msg r =
     (if cm_kind msg = KAgent \<and> is_standalone_agent_status (cm_text msg)
      then next_synthetic (r\<lparr>rb_open_run := None\<rparr>)
      else case cm_id msg of
        Some real_id \<Rightarrow> (real_id, r\<lparr>rb_open_run := Some (cm_kind msg, real_id)\<rparr>)
      | None \<Rightarrow>
          (case rb_open_run r of
             Some (kind, i) \<Rightarrow>
               if kind = cm_kind msg then (i, r)
               else (let (i', r') = next_synthetic r in (i', r'\<lparr>rb_open_run := Some (cm_kind msg, i')\<rparr>))
           | None \<Rightarrow>
               (let (i', r') = next_synthetic r in (i', r'\<lparr>rb_open_run := Some (cm_kind msg, i')\<rparr>))))"

definition rebuild_apply :: "conversation_event \<Rightarrow> rebuild_state \<Rightarrow> rebuild_state" where
  "rebuild_apply ev r = r\<lparr>rb_state := snd (conv_apply ev (rb_state r))\<rparr>"

fun rebuild_step :: "(json \<Rightarrow> string) \<Rightarrow> string \<Rightarrow> chat_message \<Rightarrow> rebuild_state \<Rightarrow> rebuild_state" where
  "rebuild_step to_string t msg r =
     (case cm_kind msg of
        KUser \<Rightarrow>
          (let (i, r') = id_or_synthetic msg (r\<lparr>rb_open_run := None\<rparr>)
           in rebuild_apply (UserMessage t i (cm_text msg)) r')
      | KAgent \<Rightarrow>
          (let (i, r') = chunk_message_id msg r
           in rebuild_apply (AssistantChunk t i (cm_text msg) True) r')
      | KThinking \<Rightarrow>
          (let (i, r') = chunk_message_id msg r
           in rebuild_apply (ThoughtChunk t i (cm_text msg) True) r')
      | KToolCall \<Rightarrow>
          (let (i, r') = id_or_synthetic msg (r\<lparr>rb_open_run := None\<rparr>)
           in rebuild_apply
                (ToolCall t i (if cm_text msg \<noteq> [] then Some (cm_text msg) else None) (cm_status msg) None
                   (map_option (bounded_payload_display_string to_string) (cm_raw_input msg))
                   (map_option (bounded_payload_display_string to_string) (cm_raw_output msg))) r'))"

declare rebuild_step.simps [simp del]

definition rebuild_start :: "string \<Rightarrow> rebuild_state" where
  "rebuild_start t = \<lparr>rb_state = conv_new t, rb_open_run = None, rb_counter = 0\<rparr>"

definition rebuild_run :: "(json \<Rightarrow> string) \<Rightarrow> string \<Rightarrow> chat_message list \<Rightarrow> rebuild_state" where
  "rebuild_run to_string t history = fold (rebuild_step to_string t) history (rebuild_start t)"

definition rebuild_from_chat_messages ::
  "(json \<Rightarrow> string) \<Rightarrow> string \<Rightarrow> chat_message list \<Rightarrow> conversation_state"
where
  "rebuild_from_chat_messages to_string t history = rb_state (rebuild_run to_string t history)"

section \<open>Items by key\<close>

datatype item_key =
    UserKey string | AssistantKey string | ThoughtKey string | ToolKey string | TerminalKey string

primrec key_of_item :: "transcript_item \<Rightarrow> item_key option" where
  "key_of_item (User i t) = Some (UserKey i)"
| "key_of_item (Assistant i t s) = Some (AssistantKey i)"
| "key_of_item (Thought i t s) = Some (ThoughtKey i)"
| "key_of_item (Tool i ti st de ri ro) = Some (ToolKey i)"
| "key_of_item (Terminal i ti out code) = Some (TerminalKey i)"
| "key_of_item (Notice t) = None"

primrec key_of_event :: "conversation_event \<Rightarrow> item_key option" where
  "key_of_event (UserMessage t i s) = Some (UserKey i)"
| "key_of_event (AssistantChunk t i s c) = Some (AssistantKey i)"
| "key_of_event (ThoughtChunk t i s c) = Some (ThoughtKey i)"
| "key_of_event (ToolCall t i ti st de ri ro) = Some (ToolKey i)"
| "key_of_event (TerminalCreated t i ti) = Some (TerminalKey i)"
| "key_of_event (TerminalOutput t i s) = Some (TerminalKey i)"
| "key_of_event (TerminalExited t i c) = Some (TerminalKey i)"
| "key_of_event (NoticeEvent t s) = None"

text \<open>
  The contract that the operations of the reducer share: an operation for a key updates the
  item with that key, or adds one for it at the end.
\<close>

locale keyed_upsert =
  fixes key :: "'i \<Rightarrow> 'k option" and k :: 'k and op :: "'i list \<Rightarrow> 'i list"
    and f :: "'i \<Rightarrow> 'i" and new :: 'i
  assumes op_upsert: "op xs = upsert (\<lambda>x. key x = Some k) f new xs"
    and key_f: "key x = Some k \<Longrightarrow> key (f x) = Some k"
    and key_new: "key new = Some k"
begin

lemma keys_op: "map key (op xs) = map key xs @ (if Some k \<in> set (map key xs) then [] else [Some k])"
  unfolding op_upsert by (induction xs) (auto simp: key_f key_new)

lemma find_op: "find (\<lambda>x. key x = Some k) (op xs)
    = Some (case find (\<lambda>x. key x = Some k) xs of None \<Rightarrow> new | Some x \<Rightarrow> f x)"
  unfolding op_upsert by (induction xs) (auto simp: key_f key_new)

lemma find_other: "k' \<noteq> k \<Longrightarrow> find (\<lambda>x. key x = Some k') (op xs) = find (\<lambda>x. key x = Some k') xs"
  unfolding op_upsert by (induction xs) (auto simp: key_f key_new)

end

text \<open>What an event makes of the item with its key, when there is one.\<close>

fun absorb :: "conversation_event \<Rightarrow> transcript_item option \<Rightarrow> transcript_item" where
  "absorb (UserMessage t i text) item = User i text"
| "absorb (AssistantChunk t i text c) item =
     Assistant i ((case item of None \<Rightarrow> [] | Some x \<Rightarrow> item_text x) @ text) (\<not> c)"
| "absorb (ThoughtChunk t i text c) item =
     Thought i ((case item of None \<Rightarrow> [] | Some x \<Rightarrow> item_text x) @ text) (\<not> c)"
| "absorb (ToolCall t i ti st de ri ro) item =
     (case item of
        None \<Rightarrow> Tool i (case ti of None \<Rightarrow> [] | Some s \<Rightarrow> s) st de ri ro
      | Some x \<Rightarrow> Tool i (case ti of None \<Rightarrow> title x | Some s \<Rightarrow> s) (or_keep st (status x))
          (or_keep de (detail x)) (or_keep ri (raw_input x)) (or_keep ro (raw_output x)))"
| "absorb (TerminalCreated t i ti) item =
     (case item of None \<Rightarrow> Terminal i ti [] None
      | Some x \<Rightarrow> Terminal i ti (terminal_output x) (exit_code x))"
| "absorb (TerminalOutput t i text) item =
     (case item of None \<Rightarrow> Terminal i ''Terminal'' text None
      | Some x \<Rightarrow> Terminal i (title x) (terminal_output x @ text) (exit_code x))"
| "absorb (TerminalExited t i code) item =
     (case item of None \<Rightarrow> Terminal i ''Terminal'' [] (Some code)
      | Some x \<Rightarrow> Terminal i (title x) (terminal_output x) (Some code))"
| "absorb (NoticeEvent t text) item = Notice text"

lemma apply_items_upsert:
  assumes "key_of_event ev = Some k"
  shows "apply_items ev items
    = upsert (\<lambda>x. key_of_item x = Some k) (\<lambda>x. absorb ev (Some x)) (absorb ev None) items"
proof (cases ev)
  case (UserMessage t i s)
  then show ?thesis using assms
    by (simp add: upsert_user_def) (rule upsert_cong; auto split: transcript_item.splits)
next
  case (AssistantChunk t i s c)
  then show ?thesis using assms
    by (simp add: merge_text_def) (rule upsert_cong; auto split: transcript_item.splits)
next
  case (ThoughtChunk t i s c)
  then show ?thesis using assms
    by (simp add: merge_text_def) (rule upsert_cong; auto split: transcript_item.splits)
next
  case (ToolCall t i ti st de ri ro)
  then show ?thesis using assms
    by (simp add: upsert_tool_def del: upsert.simps)
      (cases ti; simp; rule upsert_cong; auto split: transcript_item.splits)
next
  case (TerminalCreated t i ti)
  then show ?thesis using assms
    by (simp add: upsert_terminal_def) (rule upsert_cong; auto simp: or_keep_def split: transcript_item.splits)
next
  case (TerminalOutput t i s)
  then show ?thesis using assms
    by (simp add: upsert_terminal_def) (rule upsert_cong; auto simp: or_keep_def split: transcript_item.splits)
next
  case (TerminalExited t i c)
  then show ?thesis using assms
    by (simp add: upsert_terminal_def) (rule upsert_cong; auto simp: or_keep_def split: transcript_item.splits)
next
  case (NoticeEvent t s)
  then show ?thesis using assms by simp
qed

lemma key_absorb: "key_of_item (absorb ev item) = key_of_event ev"
  by (cases ev) (auto split: option.splits)

definition lookup_item :: "item_key \<Rightarrow> transcript_item list \<Rightarrow> transcript_item option" where
  "lookup_item k items = find (\<lambda>x. key_of_item x = Some k) items"

lemma keyed_upsert_event:
  "key_of_event ev = Some k \<Longrightarrow>
   keyed_upsert key_of_item k (apply_items ev) (\<lambda>x. absorb ev (Some x)) (absorb ev None)"
  by unfold_locales (simp_all add: apply_items_upsert key_absorb)

interpretation user: keyed_upsert key_of_item "UserKey i" "apply_items (UserMessage t i s)"
  "\<lambda>x. absorb (UserMessage t i s) (Some x)" "absorb (UserMessage t i s) None" for t i s
  by (rule keyed_upsert_event) simp

interpretation assistant: keyed_upsert key_of_item "AssistantKey i" "apply_items (AssistantChunk t i s c)"
  "\<lambda>x. absorb (AssistantChunk t i s c) (Some x)" "absorb (AssistantChunk t i s c) None" for t i s c
  by (rule keyed_upsert_event) simp

interpretation thought: keyed_upsert key_of_item "ThoughtKey i" "apply_items (ThoughtChunk t i s c)"
  "\<lambda>x. absorb (ThoughtChunk t i s c) (Some x)" "absorb (ThoughtChunk t i s c) None" for t i s c
  by (rule keyed_upsert_event) simp

interpretation tool: keyed_upsert key_of_item "ToolKey i" "apply_items (ToolCall t i ti st de ri ro)"
  "\<lambda>x. absorb (ToolCall t i ti st de ri ro) (Some x)" "absorb (ToolCall t i ti st de ri ro) None"
  for t i ti st de ri ro
  by (rule keyed_upsert_event) simp

interpretation created: keyed_upsert key_of_item "TerminalKey i" "apply_items (TerminalCreated t i ti)"
  "\<lambda>x. absorb (TerminalCreated t i ti) (Some x)" "absorb (TerminalCreated t i ti) None" for t i ti
  by (rule keyed_upsert_event) simp

interpretation printed: keyed_upsert key_of_item "TerminalKey i" "apply_items (TerminalOutput t i s)"
  "\<lambda>x. absorb (TerminalOutput t i s) (Some x)" "absorb (TerminalOutput t i s) None" for t i s
  by (rule keyed_upsert_event) simp

interpretation exited: keyed_upsert key_of_item "TerminalKey i" "apply_items (TerminalExited t i code)"
  "\<lambda>x. absorb (TerminalExited t i code) (Some x)" "absorb (TerminalExited t i code) None" for t i code
  by (rule keyed_upsert_event) simp

lemmas keys_op_events =
  user.keys_op assistant.keys_op thought.keys_op tool.keys_op created.keys_op printed.keys_op exited.keys_op

lemmas find_op_events =
  user.find_op assistant.find_op thought.find_op tool.find_op created.find_op printed.find_op exited.find_op

lemmas find_other_events =
  user.find_other assistant.find_other thought.find_other tool.find_other created.find_other
  printed.find_other exited.find_other

lemma keys_apply_items:
  "map key_of_item (apply_items ev items) = map key_of_item items
    @ (if key_of_event ev \<noteq> None \<and> key_of_event ev \<in> set (map key_of_item items) then [] else [key_of_event ev])"
  by (cases ev) (simp_all only: keys_op_events key_of_event.simps, simp_all)

lemma absorb_option:
  "(case it of None \<Rightarrow> absorb ev None | Some x \<Rightarrow> absorb ev (Some x)) = absorb ev it"
  by (cases it) simp_all

lemma lookup_apply_items:
  "lookup_item k (apply_items ev items)
    = (if key_of_event ev = Some k then Some (absorb ev (lookup_item k items)) else lookup_item k items)"
proof (cases "key_of_event ev = Some k")
  case True
  then show ?thesis
    using keyed_upsert.find_op [OF keyed_upsert_event [OF True], of items]
    by (simp add: lookup_item_def absorb_option)
next
  case False
  then show ?thesis
    unfolding lookup_item_def
    by (cases ev) (simp_all add: find_other_events del: apply_items.simps, simp add: find_append split: option.splits)
qed

section \<open>The summary of a conversation\<close>

text \<open>
  What the item with a key must be, from the events of the thread with that key alone: the
  last text of a user message, all the text of a streamed message, the latest value of each
  field of a tool call, all the output of a terminal.
\<close>

definition user_texts :: "string \<Rightarrow> conversation_event list \<Rightarrow> string list" where
  "user_texts i evs = concat (map (\<lambda>ev. case ev of UserMessage t j s \<Rightarrow> if j = i then [s] else [] | _ \<Rightarrow> []) evs)"

definition assistant_chunks :: "string \<Rightarrow> conversation_event list \<Rightarrow> (string \<times> bool) list" where
  "assistant_chunks i evs =
     concat (map (\<lambda>ev. case ev of AssistantChunk t j s c \<Rightarrow> if j = i then [(s, c)] else [] | _ \<Rightarrow> []) evs)"

definition thought_chunks :: "string \<Rightarrow> conversation_event list \<Rightarrow> (string \<times> bool) list" where
  "thought_chunks i evs =
     concat (map (\<lambda>ev. case ev of ThoughtChunk t j s c \<Rightarrow> if j = i then [(s, c)] else [] | _ \<Rightarrow> []) evs)"

type_synonym tool_update =
  "string option \<times> string option \<times> string option \<times> string option \<times> string option"

definition tool_updates :: "string \<Rightarrow> conversation_event list \<Rightarrow> tool_update list" where
  "tool_updates i evs =
     concat (map (\<lambda>ev. case ev of ToolCall t j ti st de ri ro \<Rightarrow> if j = i then [(ti, st, de, ri, ro)] else [] | _ \<Rightarrow> []) evs)"

type_synonym terminal_update = "string option \<times> string \<times> 32 word option"

definition terminal_updates :: "string \<Rightarrow> conversation_event list \<Rightarrow> terminal_update list" where
  "terminal_updates i evs =
     concat (map (\<lambda>ev. case ev of TerminalCreated t j ti \<Rightarrow> if j = i then [(Some ti, [], None)] else []
       | TerminalOutput t j s \<Rightarrow> if j = i then [(None, s, None)] else []
       | TerminalExited t j c \<Rightarrow> if j = i then [(None, [], Some c)] else []
       | _ \<Rightarrow> []) evs)"

text \<open>The last value that is present.\<close>

definition latest :: "'a option list \<Rightarrow> 'a option" where
  "latest xs = foldl (\<lambda>stored new. or_keep new stored) None xs"

definition or_default :: "'a \<Rightarrow> 'a option \<Rightarrow> 'a" where
  "or_default d x = (case x of None \<Rightarrow> d | Some y \<Rightarrow> y)"

fun summary :: "item_key \<Rightarrow> conversation_event list \<Rightarrow> transcript_item option" where
  "summary (UserKey i) evs =
     (let ts = user_texts i evs in if ts = [] then None else Some (User i (last ts)))"
| "summary (AssistantKey i) evs =
     (let cs = assistant_chunks i evs
      in if cs = [] then None else Some (Assistant i (concat (map fst cs)) (\<not> snd (last cs))))"
| "summary (ThoughtKey i) evs =
     (let cs = thought_chunks i evs
      in if cs = [] then None else Some (Thought i (concat (map fst cs)) (\<not> snd (last cs))))"
| "summary (ToolKey i) evs =
     (let us = tool_updates i evs
      in if us = [] then None
         else Some (Tool i (or_default [] (latest (map (\<lambda>(ti, st, de, ri, ro). ti) us)))
           (latest (map (\<lambda>(ti, st, de, ri, ro). st) us)) (latest (map (\<lambda>(ti, st, de, ri, ro). de) us))
           (latest (map (\<lambda>(ti, st, de, ri, ro). ri) us)) (latest (map (\<lambda>(ti, st, de, ri, ro). ro) us))))"
| "summary (TerminalKey i) evs =
     (let us = terminal_updates i evs
      in if us = [] then None
         else Some (Terminal i (or_default ''Terminal'' (latest (map (\<lambda>(ti, out, c). ti) us)))
           (concat (map (\<lambda>(ti, out, c). out) us)) (latest (map (\<lambda>(ti, out, c). c) us))))"

lemma latest_snoc: "latest (xs @ [x]) = or_keep x (latest xs)"
  by (simp add: latest_def)

lemma or_keep_simps [simp]: "or_keep None x = x" "or_keep (Some y) x = Some y"
  by (simp_all add: or_keep_def)

lemma latest_simps [simp]: "latest [] = None" "latest [x] = x"
  by (cases x; simp add: latest_def)+

lemmas summary_parts =
  user_texts_def assistant_chunks_def thought_chunks_def tool_updates_def terminal_updates_def

lemma or_keep_None [simp]: "or_keep x None = x"
  by (cases x) simp_all

lemma summary_tool_snoc:
  "summary (ToolKey i) (evs @ [ev]) = (if key_of_event ev = Some (ToolKey i)
     then Some (absorb ev (summary (ToolKey i) evs)) else summary (ToolKey i) evs)"
proof (cases "key_of_event ev = Some (ToolKey i)")
  case True
  then obtain t ti st de ri ro where ev: "ev = ToolCall t i ti st de ri ro" by (cases ev) auto
  have us: "tool_updates i (evs @ [ev]) = tool_updates i evs @ [(ti, st, de, ri, ro)]"
    by (simp add: tool_updates_def ev)
  show ?thesis
    unfolding summary.simps us using True
    by (cases "tool_updates i evs = []"; cases ti) (simp_all add: ev latest_snoc or_default_def Let_def)
next
  case False
  then have "tool_updates i (evs @ [ev]) = tool_updates i evs"
    by (cases ev) (simp_all add: tool_updates_def)
  with False show ?thesis by simp
qed

lemma summary_terminal_snoc:
  "summary (TerminalKey i) (evs @ [ev]) = (if key_of_event ev = Some (TerminalKey i)
     then Some (absorb ev (summary (TerminalKey i) evs)) else summary (TerminalKey i) evs)"
proof (cases "key_of_event ev = Some (TerminalKey i)")
  case True
  then obtain u where us: "terminal_updates i (evs @ [ev]) = terminal_updates i evs @ [u]"
    and u: "(\<exists>t ti. ev = TerminalCreated t i ti \<and> u = (Some ti, [], None))
      \<or> (\<exists>t s. ev = TerminalOutput t i s \<and> u = (None, s, None))
      \<or> (\<exists>t c. ev = TerminalExited t i c \<and> u = (None, [], Some c))"
    by (cases ev) (auto simp: terminal_updates_def)
  show ?thesis
    unfolding summary.simps us using True u
    by (cases "terminal_updates i evs = []") (elim disjE exE; simp add: latest_snoc or_default_def Let_def)+
next
  case False
  then have "terminal_updates i (evs @ [ev]) = terminal_updates i evs"
    by (cases ev) (simp_all add: terminal_updates_def)
  with False show ?thesis by simp
qed

lemma summary_snoc:
  "summary k (evs @ [ev]) = (if key_of_event ev = Some k then Some (absorb ev (summary k evs)) else summary k evs)"
proof (cases k)
  case (UserKey i)
  then show ?thesis by (cases ev) (simp_all add: summary_parts Let_def)
next
  case (AssistantKey i)
  then show ?thesis by (cases ev) (simp_all add: summary_parts Let_def)
next
  case (ThoughtKey i)
  then show ?thesis by (cases ev) (simp_all add: summary_parts Let_def)
qed (simp_all only: summary_tool_snoc summary_terminal_snoc)

text \<open>The conversation after a list of events.\<close>

definition conv_run :: "conversation_event list \<Rightarrow> conversation_state \<Rightarrow> conversation_state" where
  "conv_run evs c = fold (\<lambda>ev c. snd (conv_apply ev c)) evs c"

lemma conv_run_own:
  "conv_run evs c = c\<lparr>conv_items := fold apply_items
     (filter (\<lambda>ev. event_thread_id ev = conv_thread_id c) evs) (conv_items c)\<rparr>"
  unfolding conv_run_def by (induction evs arbitrary: c) (simp_all add: conv_apply_def)

lemma lookup_fold: "lookup_item k (fold apply_items evs []) = summary k evs"
proof (induction evs rule: rev_induct)
  case Nil
  then show ?case by (cases k) (simp_all add: lookup_item_def summary_parts)
next
  case (snoc ev evs)
  then show ?case by (simp add: lookup_apply_items summary_snoc)
qed

lemma keys_fold: "filter (\<lambda>k. k \<noteq> None) (map key_of_item (fold apply_items evs []))
    = rev (remdups (rev (filter (\<lambda>k. k \<noteq> None) (map key_of_event evs))))"
proof (induction evs rule: rev_induct)
  case Nil
  then show ?case by simp
next
  case (snoc ev evs)
  have "Some k \<in> set (map key_of_item (fold apply_items evs [])) \<longleftrightarrow> Some k \<in> set (map key_of_event evs)" for k
  proof -
    have "Some k \<in> set (map key_of_item (fold apply_items evs []))
      \<longleftrightarrow> Some k \<in> set (filter (\<lambda>k. k \<noteq> None) (map key_of_item (fold apply_items evs [])))" by auto
    then show ?thesis unfolding snoc by auto
  qed
  with snoc show ?case
    by (cases "key_of_event ev") (auto simp: keys_apply_items simp del: set_map)
qed

section \<open>The rebuild as events\<close>

text \<open>The event of one message, given the id chosen for it.\<close>

definition message_event :: "(json \<Rightarrow> string) \<Rightarrow> string \<Rightarrow> chat_message \<Rightarrow> string \<Rightarrow> conversation_event" where
  "message_event to_string t msg i =
     (case cm_kind msg of
        KUser \<Rightarrow> UserMessage t i (cm_text msg)
      | KAgent \<Rightarrow> AssistantChunk t i (cm_text msg) True
      | KThinking \<Rightarrow> ThoughtChunk t i (cm_text msg) True
      | KToolCall \<Rightarrow>
          ToolCall t i (if cm_text msg \<noteq> [] then Some (cm_text msg) else None) (cm_status msg) None
            (map_option (bounded_payload_display_string to_string) (cm_raw_input msg))
            (map_option (bounded_payload_display_string to_string) (cm_raw_output msg)))"

definition message_id_step :: "chat_message \<Rightarrow> rebuild_state \<Rightarrow> string \<times> rebuild_state" where
  "message_id_step msg r =
     (if cm_kind msg = KAgent \<or> cm_kind msg = KThinking then chunk_message_id msg r
      else id_or_synthetic msg (r\<lparr>rb_open_run := None\<rparr>))"

lemma rebuild_step_event:
  "rebuild_step to_string t msg r
    = (let (i, r') = message_id_step msg r in rebuild_apply (message_event to_string t msg i) r')"
  by (cases "cm_kind msg")
    (simp_all add: rebuild_step.simps message_id_step_def message_event_def split: prod.split)

lemma message_id_step_state:
  "message_id_step msg r = (i, r') \<Longrightarrow> rb_state r' = rb_state r \<and> rb_counter r \<le> rb_counter r'
    \<and> (cm_id msg = Some i \<or> (\<exists>k. rb_open_run r = Some (k, i)) \<or> (i = synthetic_id (rb_counter r') \<and> rb_counter r < rb_counter r'))"
  by (auto simp: message_id_step_def chunk_message_id_def id_or_synthetic_def next_synthetic_def Let_def
      split: if_splits option.splits prod.splits)

lemma event_thread_message [simp]: "event_thread_id (message_event to_string t msg i) = t"
  by (cases "cm_kind msg") (simp_all add: message_event_def)

lemma rebuild_run_snoc:
  "rebuild_run to_string t (h @ [msg]) = rebuild_step to_string t msg (rebuild_run to_string t h)"
  by (simp add: rebuild_run_def)

lemma rebuild_run_Nil [simp]: "rebuild_run to_string t [] = rebuild_start t"
  by (simp add: rebuild_run_def)

abbreviation rebuilt_items :: "(json \<Rightarrow> string) \<Rightarrow> string \<Rightarrow> chat_message list \<Rightarrow> transcript_item list" where
  "rebuilt_items to_string t h \<equiv> conv_items (rb_state (rebuild_run to_string t h))"

lemma conv_thread_rebuild: "conv_thread_id (rb_state (rebuild_run to_string t h)) = t"
proof (induction h rule: rev_induct)
  case Nil
  then show ?case by (simp add: rebuild_start_def conv_new_def)
next
  case (snoc msg h)
  obtain i r' where "message_id_step msg (rebuild_run to_string t h) = (i, r')" by (metis prod.exhaust)
  with snoc message_id_step_state [OF this] show ?case
    by (simp add: rebuild_run_snoc rebuild_step_event rebuild_apply_def conv_apply_def)
qed

text \<open>One message more.\<close>

lemma rebuild_snoc:
  assumes "message_id_step msg (rebuild_run to_string t h) = (i, r')"
  shows "rebuild_run to_string t (h @ [msg]) = rebuild_apply (message_event to_string t msg i) r'"
    and "rebuilt_items to_string t (h @ [msg]) = apply_items (message_event to_string t msg i) (rebuilt_items to_string t h)"
    and "rb_counter (rebuild_run to_string t (h @ [msg])) = rb_counter r'"
    and "rb_open_run (rebuild_run to_string t (h @ [msg])) = rb_open_run r'"
  using assms message_id_step_state [OF assms] conv_thread_rebuild [of to_string t h]
  by (simp_all add: rebuild_run_snoc rebuild_step_event rebuild_apply_def conv_apply_def)

text \<open>Every id in use is one of the feed or a synthetic one that was minted.\<close>

primrec id_of_key :: "item_key \<Rightarrow> string" where
  "id_of_key (UserKey i) = i"
| "id_of_key (AssistantKey i) = i"
| "id_of_key (ThoughtKey i) = i"
| "id_of_key (ToolKey i) = i"
| "id_of_key (TerminalKey i) = i"

definition known_id :: "chat_message list \<Rightarrow> nat \<Rightarrow> string \<Rightarrow> bool" where
  "known_id h n i = (Some i \<in> cm_id ` set h \<or> (\<exists>k\<le>n. i = synthetic_id k))"

lemma known_id_mono: "known_id h n i \<Longrightarrow> n \<le> n' \<Longrightarrow> known_id (h @ [m]) n' i"
  unfolding known_id_def by (auto intro: le_trans)

lemma key_of_message_event: "\<exists>k. key_of_event (message_event to_string t msg i) = Some k \<and> id_of_key k = i"
  by (cases "cm_kind msg") (simp_all add: message_event_def)

lemma known_ids:
  "(\<forall>k. Some k \<in> set (map key_of_item (rebuilt_items to_string t h)) \<longrightarrow>
      known_id h (rb_counter (rebuild_run to_string t h)) (id_of_key k))
   \<and> (\<forall>k i. rb_open_run (rebuild_run to_string t h) = Some (k, i) \<longrightarrow>
      known_id h (rb_counter (rebuild_run to_string t h)) i)"
proof (induction h rule: rev_induct)
  case Nil
  then show ?case by (simp add: rebuild_start_def conv_new_def)
next
  case (snoc msg h)
  obtain i r' where id: "message_id_step msg (rebuild_run to_string t h) = (i, r')" by (metis prod.exhaust)
  note st = message_id_step_state [OF id]
  let ?n = "rb_counter r'"
  have i: "known_id (h @ [msg]) ?n i"
    using st snoc known_id_mono [of h _ i ?n msg] by (fastforce simp: known_id_def)
  have keys: "known_id (h @ [msg]) ?n (id_of_key k)"
    if "Some k \<in> set (map key_of_item (rebuilt_items to_string t (h @ [msg])))" for k
  proof -
    from key_of_message_event [of to_string t msg i] obtain k'
      where "key_of_event (message_event to_string t msg i) = Some k'" "id_of_key k' = i" by blast
    with that i show ?thesis
      using snoc st known_id_mono [of h _ "id_of_key k" ?n msg]
      unfolding rebuild_snoc(2) [OF id] keys_apply_items by (auto split: if_splits)
  qed
  have opn: "known_id (h @ [msg]) ?n j" if "rb_open_run r' = Some (k, j)" for k j
  proof -
    have "j = i \<or> rb_open_run (rebuild_run to_string t h) = Some (k, j)"
      using id that
      by (auto simp: message_id_step_def chunk_message_id_def id_or_synthetic_def next_synthetic_def Let_def
          split: if_splits option.splits prod.splits)
    then show ?thesis using i snoc st known_id_mono [of h _ j ?n msg] by blast
  qed
  from keys opn show ?case unfolding rebuild_snoc(3,4) [OF id] by blast
qed

lemma synthetic_id_eq_iff [simp]: "synthetic_id m = synthetic_id n \<longleftrightarrow> m = n"
  by (simp add: synthetic_id_def)

text \<open>A message that gets a new synthetic id is a new item, when no id of the feed looks like one.\<close>

lemma apply_items_new:
  assumes "key_of_event ev = Some k" and "Some k \<notin> set (map key_of_item items)"
  shows "apply_items ev items = items @ [absorb ev None]"
  unfolding apply_items_upsert [OF assms(1)] using assms(2) by (intro upsert_miss) (force simp: image_iff)

lemma apply_items_last:
  assumes "key_of_event ev = Some k" and "Some k \<notin> set (map key_of_item items)" and "key_of_item x = Some k"
  shows "apply_items ev (items @ [x]) = items @ [absorb ev (Some x)]"
  unfolding apply_items_upsert [OF assms(1)] using assms(2,3) by (subst upsert_hit) (auto simp: image_iff)

section \<open>Runs of chunks\<close>

text \<open>
  The reference for a feed without ids: consecutive chunks of one kind form a run, a user
  message, a tool call and a status row stand alone.
\<close>

definition streams :: "chat_message \<Rightarrow> bool" where
  "streams msg = (cm_kind msg = KThinking
     \<or> cm_kind msg = KAgent \<and> \<not> is_standalone_agent_status (cm_text msg))"

definition add_to_runs :: "chat_message list list \<Rightarrow> chat_message \<Rightarrow> chat_message list list" where
  "add_to_runs runs msg =
     (if runs \<noteq> [] \<and> streams (last (last runs)) \<and> streams msg \<and> cm_kind (last (last runs)) = cm_kind msg
      then butlast runs @ [last runs @ [msg]]
      else runs @ [[msg]])"

definition history_runs :: "chat_message list \<Rightarrow> chat_message list list" where
  "history_runs h = foldl add_to_runs [] h"

definition run_item :: "(json \<Rightarrow> string) \<Rightarrow> nat \<Rightarrow> chat_message list \<Rightarrow> transcript_item" where
  "run_item to_string n run =
     (let msg = hd run; texts = concat (map cm_text run)
      in case cm_kind msg of
           KUser \<Rightarrow> User (synthetic_id n) texts
         | KAgent \<Rightarrow> Assistant (synthetic_id n) texts False
         | KThinking \<Rightarrow> Thought (synthetic_id n) texts False
         | KToolCall \<Rightarrow> Tool (synthetic_id n) texts (cm_status msg) None
             (map_option (bounded_payload_display_string to_string) (cm_raw_input msg))
             (map_option (bounded_payload_display_string to_string) (cm_raw_output msg)))"

definition run_items :: "(json \<Rightarrow> string) \<Rightarrow> chat_message list list \<Rightarrow> transcript_item list" where
  "run_items to_string runs = map (\<lambda>n. run_item to_string (n + 1) (runs ! n)) [0..<length runs]"

lemma run_items_snoc:
  "run_items to_string (runs @ [run]) = run_items to_string runs @ [run_item to_string (length runs + 1) run]"
  by (auto simp: run_items_def nth_append)

lemma key_run_item: "\<exists>k. key_of_item (run_item to_string n run) = Some k \<and> id_of_key k = synthetic_id n"
  by (cases "cm_kind (hd run)") (simp_all add: run_item_def Let_def)

lemma run_items_keys:
  assumes "id_of_key k = synthetic_id n" and "length runs < n"
  shows "Some k \<notin> set (map key_of_item (run_items to_string runs))"
proof
  assume "Some k \<in> set (map key_of_item (run_items to_string runs))"
  then obtain m where "m < length runs" "key_of_item (run_item to_string (m + 1) (runs ! m)) = Some k"
    by (auto simp: run_items_def)
  with key_run_item [of to_string "m + 1" "runs ! m"] assms show False by auto
qed

lemma run_item_single:
  "run_item to_string n [msg] = absorb (message_event to_string t msg (synthetic_id n)) None"
  by (cases "cm_kind msg") (simp_all add: run_item_def message_event_def Let_def)

lemma run_item_more:
  assumes "run \<noteq> []" and "cm_kind (hd run) = cm_kind msg" and "streams msg"
  shows "run_item to_string n (run @ [msg])
    = absorb (message_event to_string t msg (synthetic_id n)) (Some (run_item to_string n run))"
  using assms by (cases "cm_kind msg") (auto simp: run_item_def message_event_def Let_def streams_def)

lemma history_runs_snoc: "history_runs (h @ [msg]) = add_to_runs (history_runs h) msg"
  by (simp add: history_runs_def)

text \<open>A run is not empty and of one kind.\<close>

lemma history_runs_uniform:
  "run \<in> set (history_runs h) \<Longrightarrow> run \<noteq> [] \<and> (\<exists>kd. \<forall>m\<in>set run. cm_kind m = kd)"
proof (induction h arbitrary: run rule: rev_induct)
  case Nil
  then show ?case by (simp add: history_runs_def)
next
  case (snoc msg h)
  show ?case
  proof (cases "run = last (history_runs h) @ [msg] \<and> history_runs h \<noteq> []
      \<and> cm_kind (last (last (history_runs h))) = cm_kind msg")
    case True
    then have "last (history_runs h) \<in> set (history_runs h)" by simp
    from snoc.IH [OF this] obtain kd where ne: "last (history_runs h) \<noteq> []"
      and kd: "\<forall>m\<in>set (last (history_runs h)). cm_kind m = kd" by blast
    then have "cm_kind msg = kd" using True last_in_set [OF ne] by auto
    with True kd show ?thesis by auto
  next
    case False
    with snoc.prems have "run \<in> set (history_runs h) \<or> run = [msg]"
      by (auto simp: history_runs_snoc add_to_runs_def dest: in_set_butlastD split: if_splits)
    with snoc.IH [of run] show ?thesis by auto
  qed
qed

lemma rebuild_runs:
  assumes "\<forall>m\<in>set h. cm_id m = None"
  shows "rebuilt_items to_string t h = run_items to_string (history_runs h)
    \<and> rb_counter (rebuild_run to_string t h) = length (history_runs h)
    \<and> rb_open_run (rebuild_run to_string t h) =
        (if history_runs h \<noteq> [] \<and> streams (last (last (history_runs h)))
         then Some (cm_kind (last (last (history_runs h))), synthetic_id (length (history_runs h))) else None)"
  using assms
proof (induction h rule: rev_induct)
  case Nil
  then show ?case by (simp add: rebuild_start_def conv_new_def history_runs_def run_items_def)
next
  case (snoc msg h)
  let ?rs = "history_runs h"
  let ?r = "rebuild_run to_string t h"
  from snoc have items: "rebuilt_items to_string t h = run_items to_string ?rs"
    and n: "rb_counter ?r = length ?rs"
    and opn: "rb_open_run ?r = (if ?rs \<noteq> [] \<and> streams (last (last ?rs))
         then Some (cm_kind (last (last ?rs)), synthetic_id (length ?rs)) else None)"
    and none: "cm_id msg = None"
    by auto
  obtain i r' where id: "message_id_step msg ?r = (i, r')" by (metis prod.exhaust)
  obtain k where k: "key_of_event (message_event to_string t msg i) = Some k" "id_of_key k = i"
    using key_of_message_event by blast
  show ?case
  proof (cases "?rs \<noteq> [] \<and> streams (last (last ?rs)) \<and> streams msg \<and> cm_kind (last (last ?rs)) = cm_kind msg")
    case True
    define rs run where "rs = butlast ?rs" and "run = last ?rs"
    have split: "?rs = rs @ [run]" using True by (simp add: rs_def run_def)
    have run: "run \<noteq> []" "cm_kind (hd run) = cm_kind msg"
    proof -
      obtain kd where ne: "run \<noteq> []" and kd: "\<forall>m\<in>set run. cm_kind m = kd"
        using history_runs_uniform [of run h] split by auto
      then show "run \<noteq> []" "cm_kind (hd run) = cm_kind msg"
        using True last_in_set [OF ne] by (auto simp: run_def)
    qed
    have i: "i = synthetic_id (length rs + 1)" and r': "r' = ?r"
      using id opn none True split
      by (auto simp: message_id_step_def chunk_message_id_def streams_def split: if_splits)
    have ev: "apply_items (message_event to_string t msg i) (run_items to_string rs @ [run_item to_string (length rs + 1) run])
        = run_items to_string rs @ [absorb (message_event to_string t msg i) (Some (run_item to_string (length rs + 1) run))]"
      using run_items_keys [of k "length rs + 1" rs] k i run(2)
      by (intro apply_items_last [OF k(1)])
        (auto simp: message_event_def run_item_def Let_def split: message_kind.splits)
    have more: "run_item to_string (Suc (length rs)) (run @ [msg])
        = absorb (message_event to_string t msg (synthetic_id (Suc (length rs))))
            (Some (run_item to_string (Suc (length rs)) run))"
      by (rule run_item_more) (use run True in auto)
    have "add_to_runs ?rs msg = rs @ [run @ [msg]]"
      using True split by (simp add: add_to_runs_def)
    with ev items n opn r' True split show ?thesis
      unfolding history_runs_snoc rebuild_snoc(2-4) [OF id]
      by (simp add: run_items_snoc more i)
  next
    case False
    then have add: "add_to_runs ?rs msg = ?rs @ [[msg]]" by (auto simp: add_to_runs_def)
    have i: "i = synthetic_id (length ?rs + 1)" "rb_counter r' = length ?rs + 1"
      "rb_open_run r' = (if streams msg then Some (cm_kind msg, i) else None)"
      using id opn none n False
      by (cases "cm_kind msg"; auto simp: message_id_step_def chunk_message_id_def id_or_synthetic_def
          next_synthetic_def streams_def Let_def split: if_splits)+
    have "apply_items (message_event to_string t msg i) (run_items to_string ?rs)
        = run_items to_string ?rs @ [absorb (message_event to_string t msg i) None]"
      using run_items_keys [of k "length ?rs + 1" ?rs] k i by (intro apply_items_new [OF k(1)]) auto
    with items i add show ?thesis
      unfolding history_runs_snoc rebuild_snoc(2-4) [OF id]
      by (simp add: run_items_snoc run_item_single [of _ _ _ t])
  qed
qed

section \<open>Properties\<close>

text \<open>
  C31. The reducer implements the summary: after any events, of whatever threads, the item
  with a key is exactly what the events of the thread itself with that key add up to, and
  there is no item when there was no such event.
\<close>

theorem conversation_is_summary:
  "lookup_item k (conv_items (conv_run evs (conv_new t)))
    = summary k (filter (\<lambda>ev. event_thread_id ev = t) evs)"
  by (simp add: conv_run_own conv_new_def lookup_fold)

text \<open>
  There is one item for each key, in the order in which the keys first occurred in the
  events of the thread; later events never move or remove an item.
\<close>

theorem conversation_keys_ordered:
  "filter (\<lambda>k. k \<noteq> None) (map key_of_item (conv_items (conv_run evs (conv_new t))))
      = rev (remdups (rev (filter (\<lambda>k. k \<noteq> None) (map key_of_event (filter (\<lambda>ev. event_thread_id ev = t) evs)))))
    \<and> prefix (map key_of_item (conv_items (conv_run evs (conv_new t))))
        (map key_of_item (conv_items (conv_run (evs @ later) (conv_new t))))"
proof -
  have "prefix (map key_of_item items) (map key_of_item (fold apply_items es items))" for es items
  proof (induction es rule: rev_induct)
    case (snoc ev es)
    then show ?case by (auto simp: keys_apply_items prefix_def)
  qed simp
  then have "prefix (map key_of_item (conv_items (conv_run evs (conv_new t))))
      (map key_of_item (conv_items (conv_run (evs @ later) (conv_new t))))"
    by (simp add: conv_run_own conv_new_def)
  moreover have "conv_items (conv_run evs (conv_new t))
      = fold apply_items (filter (\<lambda>ev. event_thread_id ev = t) evs) []"
    by (simp add: conv_run_own conv_new_def)
  ultimately show ?thesis by (simp only: keys_fold simp_thms)
qed

text \<open>
  Rebuilding a feed without ids: every maximal run of consecutive chunks of one kind is
  one item with the concatenated text, and every user message, tool call and status row is
  an item of its own, in the order of the feed.
\<close>

theorem rebuild_merges_runs:
  assumes "\<forall>m\<in>set h. cm_id m = None"
  shows "conv_items (rebuild_from_chat_messages to_string t h) = run_items to_string (history_runs h)"
  using rebuild_runs [OF assms] by (simp add: rebuild_from_chat_messages_def)

definition plain_chunk :: "message_kind \<Rightarrow> string \<Rightarrow> chat_message" where
  "plain_chunk k s = \<lparr>cm_kind = k, cm_text = s, cm_status = None, cm_id = None, cm_raw_input = None, cm_raw_output = None\<rparr>"

theorem rebuild_merges_runs_witness:
  "conv_items (rebuild_from_chat_messages (\<lambda>_. []) ''t'' [plain_chunk KThinking ''a'', plain_chunk KThinking ''b'', plain_chunk KUser ''c''])
    = [Thought (synthetic_id 1) ''ab'' False, User (synthetic_id 2) ''c'']"
  by (subst rebuild_merges_runs)
    (simp_all add: plain_chunk_def history_runs_def add_to_runs_def streams_def run_items_def run_item_def upt_rec)

text \<open>
  A status row (a reconnect notice, a gateway error) is never merged into another item,
  whatever ids the feed carries: it is a new item at the end with exactly its own text.  No
  id of the feed may look like a synthetic one.
\<close>

theorem status_rows_stand_alone:
  assumes "cm_kind msg = KAgent" and "is_standalone_agent_status (cm_text msg)"
    and "\<forall>m\<in>set h. \<forall>n. cm_id m \<noteq> Some (synthetic_id n)"
  shows "\<exists>n. conv_items (rebuild_from_chat_messages to_string t (h @ [msg]))
    = conv_items (rebuild_from_chat_messages to_string t h) @ [Assistant (synthetic_id n) (cm_text msg) False]"
proof -
  let ?r = "rebuild_run to_string t h"
  let ?i = "synthetic_id (rb_counter ?r + 1)"
  have id: "message_id_step msg ?r = (?i, ?r\<lparr>rb_open_run := None, rb_counter := rb_counter ?r + 1\<rparr>)"
    using assms(1,2) by (simp add: message_id_step_def chunk_message_id_def next_synthetic_def)
  have ev: "message_event to_string t msg ?i = AssistantChunk t ?i (cm_text msg) True"
    by (simp add: message_event_def assms(1))
  have "\<not> known_id h (rb_counter ?r) ?i" using assms(3) by (auto simp: known_id_def) (metis Suc_n_not_le_n)
  then have "Some (AssistantKey ?i) \<notin> set (map key_of_item (rebuilt_items to_string t h))"
    using known_ids [of to_string t h] by force
  then have "apply_items (AssistantChunk t ?i (cm_text msg) True) (rebuilt_items to_string t h)
      = rebuilt_items to_string t h @ [Assistant ?i (cm_text msg) False]"
    by (subst apply_items_new [of _ "AssistantKey ?i"]) simp_all
  then show ?thesis
    using rebuild_snoc(2) [OF id] ev by (auto simp: rebuild_from_chat_messages_def)
qed

theorem status_rows_stand_alone_witness:
  "\<exists>n. conv_items (rebuild_from_chat_messages (\<lambda>_. []) ''t'' ([plain_chunk KAgent ''hi''] @ [plain_chunk KAgent ''Reconnecting... 1/5'']))
    = conv_items (rebuild_from_chat_messages (\<lambda>_. []) ''t'' [plain_chunk KAgent ''hi''])
      @ [Assistant (synthetic_id n) (cm_text (plain_chunk KAgent ''Reconnecting... 1/5'')) False]"
proof (rule status_rows_stand_alone)
  show "is_standalone_agent_status (cm_text (plain_chunk KAgent ''Reconnecting... 1/5''))"
    by (code_simp)
qed (simp_all add: plain_chunk_def)

text \<open>
  A chunk with an id opens a run for that id: the chunks without an id that follow it,
  of the same kind, are appended to its message (the comment on \<open>open_run\<close> says that such a
  chunk closes the run).
\<close>

theorem real_id_opens_run:
  assumes "streams m1" and "cm_id m1 = Some i" and "streams m2" and "cm_id m2 = None"
    and "cm_kind m1 = KAgent" and "cm_kind m2 = KAgent"
  shows "\<exists>s. lookup_item (AssistantKey i) (conv_items (rebuild_from_chat_messages to_string t (h @ [m1])))
        = Some (Assistant i (s @ cm_text m1) False)
    \<and> lookup_item (AssistantKey i) (conv_items (rebuild_from_chat_messages to_string t (h @ [m1, m2])))
        = Some (Assistant i (s @ cm_text m1 @ cm_text m2) False)"
proof -
  let ?r = "rebuild_run to_string t h"
  have id1: "message_id_step m1 ?r = (i, ?r\<lparr>rb_open_run := Some (KAgent, i)\<rparr>)"
    using assms by (simp add: message_id_step_def chunk_message_id_def streams_def)
  have opn: "rb_open_run (rebuild_run to_string t (h @ [m1])) = Some (KAgent, i)"
    using rebuild_snoc(4) [OF id1] by simp
  have id2: "message_id_step m2 (rebuild_run to_string t (h @ [m1])) = (i, rebuild_run to_string t (h @ [m1]))"
    using assms opn by (simp add: message_id_step_def chunk_message_id_def streams_def)
  have ev: "message_event to_string t m i = AssistantChunk t i (cm_text m) True" if "cm_kind m = KAgent" for m
    using that by (simp add: message_event_def)
  show ?thesis
    using rebuild_snoc(2) [OF id1] rebuild_snoc(2) [OF id2] assms(5,6)
    by (auto simp: rebuild_from_chat_messages_def ev lookup_apply_items simp del: apply_items.simps)
qed

theorem real_id_opens_run_witness:
  "\<exists>s. lookup_item (AssistantKey ''m'') (conv_items (rebuild_from_chat_messages (\<lambda>_. []) ''t''
          ([] @ [(plain_chunk KAgent ''a'')\<lparr>cm_id := Some ''m''\<rparr>])))
        = Some (Assistant ''m'' (s @ cm_text ((plain_chunk KAgent ''a'')\<lparr>cm_id := Some ''m''\<rparr>)) False)
    \<and> lookup_item (AssistantKey ''m'') (conv_items (rebuild_from_chat_messages (\<lambda>_. []) ''t''
          ([] @ [(plain_chunk KAgent ''a'')\<lparr>cm_id := Some ''m''\<rparr>, plain_chunk KAgent ''b''])))
        = Some (Assistant ''m'' (s @ cm_text ((plain_chunk KAgent ''a'')\<lparr>cm_id := Some ''m''\<rparr>) @ cm_text (plain_chunk KAgent ''b'')) False)"
proof (rule real_id_opens_run)
  show "streams ((plain_chunk KAgent ''a'')\<lparr>cm_id := Some ''m''\<rparr>)" by code_simp
  show "streams (plain_chunk KAgent ''b'')" by code_simp
qed (simp_all add: plain_chunk_def)

end
