(* ===== verification/MessageIndex.thy ===== *)
theory MessageIndex
  imports Prelude
begin

text \<open>
  The per-thread index from message keys to rows, with the rendered markdown of each row:
  \<open>panel-rust/src/thread_message_index.rs\<close>.  The rendered blocks, lines and block caches are
  opaque values (\<open>'b\<close>, \<open>'l\<close>, \<open>'c\<close>); the content hash of the standard library is the
  argument \<open>hash_content\<close>.
\<close>

section \<open>State and operations\<close>

record ('b, 'l, 'c) message_entry =
  me_key :: string
  content_hash :: "64 word"
  row_index :: nat
  rendered_blocks :: "'b option"
  rendered_lines :: "'l option"
  block_cache :: "'c list"

type_synonym ('b, 'l, 'c) message_index = "string \<rightharpoonup> ('b, 'l, 'c) message_entry"

datatype row_change = New | Changed nat | Unchanged nat

definition mi_is_empty :: "('b, 'l, 'c) message_index \<Rightarrow> bool" where
  "mi_is_empty ix = (dom ix = {})"

definition mi_len :: "('b, 'l, 'c) message_index \<Rightarrow> nat" where
  "mi_len ix = card (dom ix)"

definition row_index_for :: "('b, 'l, 'c) message_index \<Rightarrow> string \<Rightarrow> nat option" where
  "row_index_for ix key = map_option row_index (ix key)"

definition content_hash_for :: "('b, 'l, 'c) message_index \<Rightarrow> string \<Rightarrow> 64 word option" where
  "content_hash_for ix key = map_option content_hash (ix key)"

definition mi_check ::
  "(string \<Rightarrow> 64 word) \<Rightarrow> ('b, 'l, 'c) message_index \<Rightarrow> string \<Rightarrow> string \<Rightarrow> row_change"
where
  "mi_check hash_content ix key s =
     (case ix key of
        None \<Rightarrow> New
      | Some entry \<Rightarrow>
          if hash_content s = content_hash entry then Unchanged (row_index entry)
          else Changed (row_index entry))"

definition fresh_entry :: "string \<Rightarrow> 64 word \<Rightarrow> nat \<Rightarrow> ('b, 'l, 'c) message_entry" where
  "fresh_entry key h i =
     \<lparr>me_key = key, content_hash = h, row_index = i, rendered_blocks = None, rendered_lines = None,
      block_cache = []\<rparr>"

definition mi_record ::
  "(string \<Rightarrow> 64 word) \<Rightarrow> string \<Rightarrow> nat \<Rightarrow> string \<Rightarrow> ('b, 'l, 'c) message_index \<Rightarrow> ('b, 'l, 'c) message_index"
where
  "mi_record hash_content key i s ix =
     (let h = hash_content s
      in case ix key of
           Some entry \<Rightarrow>
             if content_hash entry = h then ix(key \<mapsto> entry\<lparr>row_index := i\<rparr>)
             else ix(key \<mapsto> fresh_entry key h i)
         | None \<Rightarrow> ix(key \<mapsto> fresh_entry key h i))"

definition block_cache_for :: "('b, 'l, 'c) message_index \<Rightarrow> string \<Rightarrow> 'c list" where
  "block_cache_for ix key = (case ix key of Some e \<Rightarrow> block_cache e | None \<Rightarrow> [])"

text \<open>\<open>if let Some(entry) = self.by_key.get_mut(key)\<close>.\<close>

definition update_entry ::
  "(('b, 'l, 'c) message_entry \<Rightarrow> ('b, 'l, 'c) message_entry) \<Rightarrow> string \<Rightarrow> ('b, 'l, 'c) message_index \<Rightarrow>
   ('b, 'l, 'c) message_index"
where
  "update_entry f key ix = (case ix key of Some e \<Rightarrow> ix(key \<mapsto> f e) | None \<Rightarrow> ix)"

definition set_block_cache :: "string \<Rightarrow> 'c list \<Rightarrow> ('b, 'l, 'c) message_index \<Rightarrow> ('b, 'l, 'c) message_index" where
  "set_block_cache key cache = update_entry (\<lambda>e. e\<lparr>block_cache := cache\<rparr>) key"

definition block_cache_is_empty :: "('b, 'l, 'c) message_index \<Rightarrow> string \<Rightarrow> bool" where
  "block_cache_is_empty ix key = (case ix key of None \<Rightarrow> True | Some e \<Rightarrow> block_cache e = [])"

definition clear_block_cache :: "string \<Rightarrow> ('b, 'l, 'c) message_index \<Rightarrow> ('b, 'l, 'c) message_index" where
  "clear_block_cache key = update_entry (\<lambda>e. e\<lparr>block_cache := []\<rparr>) key"

definition set_rendered_blocks :: "string \<Rightarrow> 'b \<Rightarrow> ('b, 'l, 'c) message_index \<Rightarrow> ('b, 'l, 'c) message_index" where
  "set_rendered_blocks key model = update_entry (\<lambda>e. e\<lparr>rendered_blocks := Some model\<rparr>) key"

definition set_rendered_lines :: "string \<Rightarrow> 'l \<Rightarrow> ('b, 'l, 'c) message_index \<Rightarrow> ('b, 'l, 'c) message_index" where
  "set_rendered_lines key model = update_entry (\<lambda>e. e\<lparr>rendered_lines := Some model\<rparr>) key"

definition rendered_blocks_for :: "('b, 'l, 'c) message_index \<Rightarrow> string \<Rightarrow> 'b option" where
  "rendered_blocks_for ix key = Option.bind (ix key) rendered_blocks"

definition rendered_lines_for :: "('b, 'l, 'c) message_index \<Rightarrow> string \<Rightarrow> 'l option" where
  "rendered_lines_for ix key = Option.bind (ix key) rendered_lines"

definition rebuilt_entry ::
  "(string \<Rightarrow> 64 word) \<Rightarrow> ('b, 'l, 'c) message_index \<Rightarrow> nat \<Rightarrow> string \<Rightarrow> string \<Rightarrow> ('b, 'l, 'c) message_entry"
where
  "rebuilt_entry hash_content ix i key s =
     (let h = hash_content s;
          (blocks, lines, cache) =
            (case ix key of
               Some prev \<Rightarrow>
                 if content_hash prev = h then (rendered_blocks prev, rendered_lines prev, block_cache prev)
                 else (None, None, block_cache prev)
             | None \<Rightarrow> (None, None, []))
      in \<lparr>me_key = key, content_hash = h, row_index = i, rendered_blocks = blocks,
          rendered_lines = lines, block_cache = cache\<rparr>)"

fun rebuild_rows ::
  "(string \<Rightarrow> 64 word) \<Rightarrow> ('b, 'l, 'c) message_index \<Rightarrow> nat \<Rightarrow> (string \<times> string) list \<Rightarrow>
   ('b, 'l, 'c) message_index \<Rightarrow> ('b, 'l, 'c) message_index"
where
  "rebuild_rows hash_content ix i [] by_key = by_key"
| "rebuild_rows hash_content ix i ((key, s) # rows) by_key =
     rebuild_rows hash_content ix (Suc i) rows (by_key(key \<mapsto> rebuilt_entry hash_content ix i key s))"

definition mi_rebuild ::
  "(string \<Rightarrow> 64 word) \<Rightarrow> ('b, 'l, 'c) message_index \<Rightarrow> string list \<Rightarrow> string list \<Rightarrow> ('b, 'l, 'c) message_index"
where
  "mi_rebuild hash_content ix keys texts = rebuild_rows hash_content ix 0 (zip keys texts) Map.empty"

definition keys_match :: "('b, 'l, 'c) message_index \<Rightarrow> string list \<Rightarrow> bool" where
  "keys_match ix new_keys =
     (if length new_keys \<noteq> mi_len ix then False
      else list_all (\<lambda>(i, key). map_option row_index (ix key) = Some i) (enumerate 0 new_keys))"

section \<open>Lemmas\<close>

lemma rebuild_rows_other:
  "key \<notin> fst ` set rows \<Longrightarrow> rebuild_rows hash_content ix i rows acc key = acc key"
  by (induction rows arbitrary: i acc) auto

lemma rebuild_rows_nth:
  assumes "distinct (map fst rows)" and "j < length rows"
  shows "rebuild_rows hash_content ix i rows acc (fst (rows ! j))
    = Some (rebuilt_entry hash_content ix (i + j) (fst (rows ! j)) (snd (rows ! j)))"
  using assms
proof (induction rows arbitrary: i j acc)
  case Nil
  then show ?case by simp
next
  case (Cons row rows)
  show ?case
  proof (cases j)
    case 0
    with Cons.prems show ?thesis
      by (cases row) (auto simp: rebuild_rows_other image_iff)
  next
    case (Suc k)
    with Cons show ?thesis by (cases row) auto
  qed
qed

lemma dom_rebuild_rows: "dom (rebuild_rows hash_content ix i rows acc) = fst ` set rows \<union> dom acc"
proof (induction rows arbitrary: i acc)
  case (Cons row rows)
  obtain key s where row: "row = (key, s)" by (cases row)
  show ?case unfolding row rebuild_rows.simps Cons.IH dom_fun_upd by simp
qed simp

lemma mi_rebuild_nth:
  assumes "distinct keys" and "length texts = length keys" and "j < length keys"
  shows "mi_rebuild hash_content ix keys texts (keys ! j)
    = Some (rebuilt_entry hash_content ix j (keys ! j) (texts ! j))"
  using rebuild_rows_nth [of "zip keys texts" j hash_content ix 0 Map.empty] assms
  by (simp add: mi_rebuild_def)

lemma dom_mi_rebuild: "length texts = length keys \<Longrightarrow> dom (mi_rebuild hash_content ix keys texts) = set keys"
  by (simp add: mi_rebuild_def dom_rebuild_rows flip: set_map)

lemma rebuilt_entry_simps [simp]:
  "row_index (rebuilt_entry hash_content ix i key s) = i"
  "content_hash (rebuilt_entry hash_content ix i key s) = hash_content s"
  by (auto simp: rebuilt_entry_def Let_def split: prod.splits)

lemma keys_match_iff:
  "keys_match ix keys \<longleftrightarrow> length keys = card (dom ix)
    \<and> (\<forall>j<length keys. row_index_for ix (keys ! j) = Some j)"
  by (auto simp: keys_match_def mi_len_def row_index_for_def list_all_length nth_enumerate_eq)

section \<open>The render cache\<close>

text \<open>
  \<open>R h b\<close>: \<open>b\<close> is a rendering of a text with hash \<open>h\<close>.  The index is coherent when what it
  keeps for a key is a rendering for the hash it records for that key.
\<close>

definition entry_coherent ::
  "(64 word \<Rightarrow> 'b \<Rightarrow> bool) \<Rightarrow> (64 word \<Rightarrow> 'l \<Rightarrow> bool) \<Rightarrow> ('b, 'l, 'c) message_entry \<Rightarrow> bool"
where
  "entry_coherent R S e =
     (pred_option (R (content_hash e)) (rendered_blocks e) \<and> pred_option (S (content_hash e)) (rendered_lines e))"

definition coherent ::
  "(64 word \<Rightarrow> 'b \<Rightarrow> bool) \<Rightarrow> (64 word \<Rightarrow> 'l \<Rightarrow> bool) \<Rightarrow> ('b, 'l, 'c) message_index \<Rightarrow> bool"
where
  "coherent R S ix = (\<forall>key e. ix key = Some e \<longrightarrow> entry_coherent R S e)"

inductive mi_step ::
  "(string \<Rightarrow> 64 word) \<Rightarrow> (64 word \<Rightarrow> 'b \<Rightarrow> bool) \<Rightarrow> (64 word \<Rightarrow> 'l \<Rightarrow> bool) \<Rightarrow>
   ('b, 'l, 'c) message_index \<Rightarrow> ('b, 'l, 'c) message_index \<Rightarrow> bool"
  for hash_content R S
where
  recorded: "mi_step hash_content R S ix (mi_record hash_content key i s ix)"
| rebuilt: "mi_step hash_content R S ix (mi_rebuild hash_content ix keys texts)"
| cached: "mi_step hash_content R S ix (set_block_cache key cache ix)"
| cleared: "mi_step hash_content R S ix (clear_block_cache key ix)"
| blocks: "content_hash_for ix key = Some h \<Longrightarrow> R h b \<Longrightarrow> mi_step hash_content R S ix (set_rendered_blocks key b ix)"
| lines_set: "content_hash_for ix key = Some h \<Longrightarrow> S h l \<Longrightarrow> mi_step hash_content R S ix (set_rendered_lines key l ix)"

lemma entry_coherent_block_cache [simp]:
  "entry_coherent R S (block_cache_update f e) = entry_coherent R S e"
  by (simp add: entry_coherent_def)

lemma coherentD: "coherent R S ix \<Longrightarrow> ix key = Some e \<Longrightarrow> entry_coherent R S e"
  by (simp add: coherent_def)

lemma coherent_upd: "coherent R S ix \<Longrightarrow> entry_coherent R S e \<Longrightarrow> coherent R S (ix(key \<mapsto> e))"
  by (simp add: coherent_def)

lemma coherent_update_entry:
  "coherent R S ix \<Longrightarrow> (\<And>e. ix key = Some e \<Longrightarrow> entry_coherent R S (f e)) \<Longrightarrow> coherent R S (update_entry f key ix)"
  by (auto simp: update_entry_def coherent_upd split: option.splits)

lemma coherent_rebuilt_entry:
  "coherent R S ix \<Longrightarrow> entry_coherent R S (rebuilt_entry hash_content ix i key s)"
  using coherentD [of R S ix key]
  by (cases "ix key") (auto simp: rebuilt_entry_def entry_coherent_def Let_def)

lemma coherent_rebuild_rows:
  assumes "coherent R S ix" and "coherent R S acc"
  shows "coherent R S (rebuild_rows hash_content ix i rows acc)"
  using assms(2)
proof (induction rows arbitrary: i acc)
  case (Cons row rows)
  obtain key s where row: "row = (key, s)" by (cases row)
  show ?case unfolding row rebuild_rows.simps
    by (rule Cons.IH [OF coherent_upd [OF Cons.prems coherent_rebuilt_entry [OF assms(1)]]])
qed simp

lemma coherent_step: "mi_step hash_content R S ix ix' \<Longrightarrow> coherent R S ix \<Longrightarrow> coherent R S ix'"
proof (induction rule: mi_step.induct)
  case (recorded ix key i s)
  then show ?case
    using coherentD [of R S ix key]
    by (auto simp: mi_record_def fresh_entry_def entry_coherent_def Let_def intro!: coherent_upd split: option.split)
next
  case (rebuilt ix keys texts)
  have "coherent R S Map.empty" by (simp add: coherent_def)
  then show ?case unfolding mi_rebuild_def by (rule coherent_rebuild_rows [OF rebuilt])
next
  case (cached ix key cache)
  then show ?case
    by (auto simp: set_block_cache_def dest: coherentD intro!: coherent_update_entry)
next
  case (cleared ix key)
  then show ?case
    by (auto simp: clear_block_cache_def dest: coherentD intro!: coherent_update_entry)
next
  case (blocks ix key h b)
  then show ?case
    by (auto simp: set_rendered_blocks_def content_hash_for_def entry_coherent_def dest: coherentD
        intro!: coherent_update_entry)
next
  case (lines_set ix key h l)
  then show ?case
    by (auto simp: set_rendered_lines_def content_hash_for_def entry_coherent_def dest: coherentD
        intro!: coherent_update_entry)
qed

section \<open>Properties\<close>

text \<open>
  What is shown is never stale: along any sequence of operations from an empty index in
  which each rendering is attached under the hash recorded for its key, the blocks and the
  lines returned for a key are renderings of a text with the hash recorded for it.
\<close>

theorem rendered_never_stale:
  assumes "(mi_step hash_content R S)\<^sup>*\<^sup>* Map.empty ix"
    and "rendered_blocks_for ix key = Some b" and "rendered_lines_for ix key = Some l"
  shows "\<exists>h. content_hash_for ix key = Some h \<and> R h b \<and> S h l"
proof -
  have "coherent R S ix"
    using assms(1)
  proof (induction rule: rtranclp_induct)
    case base
    then show ?case by (simp add: coherent_def)
  qed (rule coherent_step)
  with assms(2,3) show ?thesis
    by (auto simp: rendered_blocks_for_def rendered_lines_for_def content_hash_for_def
        bind_eq_Some_conv entry_coherent_def dest: coherentD)
qed

definition length_hash :: "string \<Rightarrow> 64 word" where
  "length_hash s = of_nat (length s)"

theorem rendered_never_stale_witness:
  "\<exists>h. content_hash_for (set_rendered_lines ''k'' ''l'' (set_rendered_blocks ''k'' ''b''
          (mi_record length_hash ''k'' 0 ''hi'' (Map.empty :: (string, string, nat) message_index)))) ''k'' = Some h
    \<and> h = 2 \<and> h = (2 :: 64 word)"
proof (rule rendered_never_stale [where R = "\<lambda>h b. h = 2" and S = "\<lambda>h l. h = 2" and b = "''b''" and l = "''l''"])
  let ?ix = "mi_record length_hash ''k'' 0 ''hi'' (Map.empty :: (string, string, nat) message_index)"
  let ?step = "mi_step length_hash (\<lambda>h b. h = 2) (\<lambda>h l. h = 2)"
  have h: "content_hash_for ?ix ''k'' = Some 2" "content_hash_for (set_rendered_blocks ''k'' ''b'' ?ix) ''k'' = Some 2"
    by (simp_all add: mi_record_def content_hash_for_def fresh_entry_def set_rendered_blocks_def
        update_entry_def length_hash_def)
  have 1: "?step Map.empty ?ix" by (rule mi_step.recorded)
  have 2: "?step ?ix (set_rendered_blocks ''k'' ''b'' ?ix)" by (rule mi_step.blocks [OF h(1)]) simp
  have 3: "?step (set_rendered_blocks ''k'' ''b'' ?ix) (set_rendered_lines ''k'' ''l'' (set_rendered_blocks ''k'' ''b'' ?ix))"
    by (rule mi_step.lines_set [OF h(2)]) simp
  from 1 2 3 show "?step\<^sup>*\<^sup>* Map.empty (set_rendered_lines ''k'' ''l'' (set_rendered_blocks ''k'' ''b'' ?ix))"
    by (meson converse_rtranclp_into_rtranclp r_into_rtranclp)
  show "rendered_blocks_for (set_rendered_lines ''k'' ''l'' (set_rendered_blocks ''k'' ''b'' ?ix)) ''k'' = Some ''b''"
    and "rendered_lines_for (set_rendered_lines ''k'' ''l'' (set_rendered_blocks ''k'' ''b'' ?ix)) ''k'' = Some ''l''"
    by (simp_all add: mi_record_def fresh_entry_def set_rendered_blocks_def set_rendered_lines_def
        rendered_blocks_for_def rendered_lines_for_def update_entry_def)
qed

text \<open>
  A rebuild keeps the renderings of exactly the rows whose text did not change, wherever
  they have moved, and makes every row the row of its key: afterwards the keys match, and every
  row is reported as unchanged.
\<close>

theorem rebuild_keeps_renderings:
  assumes "distinct keys" and "length texts = length keys" and "j < length keys"
  shows "rendered_blocks_for (mi_rebuild hash_content ix keys texts) (keys ! j)
      = (if content_hash_for ix (keys ! j) = Some (hash_content (texts ! j))
         then rendered_blocks_for ix (keys ! j) else None)
    \<and> keys_match (mi_rebuild hash_content ix keys texts) keys
    \<and> mi_check hash_content (mi_rebuild hash_content ix keys texts) (keys ! j) (texts ! j) = Unchanged j"
proof -
  let ?ix' = "mi_rebuild hash_content ix keys texts"
  have "keys_match ?ix' keys"
    using assms(1,2)
    by (simp add: keys_match_iff dom_mi_rebuild distinct_card row_index_for_def mi_rebuild_nth)
  then show ?thesis
    using mi_rebuild_nth [OF assms, of hash_content ix]
    by (auto simp: mi_check_def rendered_blocks_for_def content_hash_for_def rebuilt_entry_def Let_def
        split: option.splits)
qed

theorem rebuild_keeps_renderings_witness:
  "rendered_blocks_for (mi_rebuild length_hash
      (set_rendered_blocks ''k'' ''b'' (mi_record length_hash ''k'' 0 ''hi'' (Map.empty :: (string, string, nat) message_index)))
      [''j'', ''k''] [''new'', ''hi'']) ''k'' = Some ''b''"
proof -
  let ?ix = "set_rendered_blocks ''k'' ''b'' (mi_record length_hash ''k'' 0 ''hi'' (Map.empty :: (string, string, nat) message_index))"
  have "content_hash_for ?ix ''k'' = Some (length_hash ''hi'')" "rendered_blocks_for ?ix ''k'' = Some ''b''"
    by (simp_all add: mi_record_def fresh_entry_def set_rendered_blocks_def update_entry_def
        rendered_blocks_for_def content_hash_for_def)
  then show ?thesis
    using rebuild_keeps_renderings [of "[''j'', ''k'']" "[''new'', ''hi'']" 1 length_hash ?ix] by simp
qed

text \<open>
  Recording a row makes its text the recorded one, keeps a rendering exactly when the
  hash of the text is the one recorded before, and touches no other key.
\<close>

theorem record_is_local:
  "mi_check hash_content (mi_record hash_content key i s ix) key s = Unchanged i
    \<and> rendered_blocks_for (mi_record hash_content key i s ix) key
        = (if content_hash_for ix key = Some (hash_content s) then rendered_blocks_for ix key else None)
    \<and> (key' = key \<or> mi_record hash_content key i s ix key' = ix key')"
  by (cases "ix key")
    (simp_all add: mi_check_def mi_record_def fresh_entry_def rendered_blocks_for_def content_hash_for_def Let_def)

end
