(* ===== verification/QueueLog.thy ===== *)
theory QueueLog
  imports Fifo "HOL-Library.Multiset"
begin

text \<open>
  The gateway's durable prompt queue as a log of records:
  \<open>acpx-core/src/persistence/queue.rs\<close>.  The queue of a session is what the replay of its
  records gives; every operation reads the log, replays it, decides what to append, and
  appends one record.  This theory holds the records, the replay and the decisions of the
  operations; the file is in \<open>QueueFile\<close>.
\<close>

section \<open>Items and records\<close>

record queue_item =
  queue_entry_id :: string
  idempotency_key :: string
  qi_text :: string
  qi_state :: string
  qi_position :: "32 word"

datatype queue_operation = QEnqueue | QSendNow | QCancel | QPause | QResume

record mutation_params =
  mp_idempotency_key :: string
  mp_operation :: queue_operation
  mp_queue_entry_id :: "string option"
  mp_text :: "string option"

datatype record_operation =
  REnqueue | RSendNow | RCancel | RPause | RResume | RClaim | RComplete | RRelease

fun record_operation_of :: "queue_operation \<Rightarrow> record_operation" where
  "record_operation_of QEnqueue = REnqueue"
| "record_operation_of QSendNow = RSendNow"
| "record_operation_of QCancel = RCancel"
| "record_operation_of QPause = RPause"
| "record_operation_of QResume = RResume"

record queue_record =
  qr_operation :: record_operation
  qr_item :: "queue_item option"
  qr_key :: string
  qr_entry_id :: "string option"

record replay_state =
  rs_queue :: "queue_item list"
  rs_paused :: bool
  rs_claimed :: "queue_item list"

section \<open>Replay\<close>

definition replay_empty :: replay_state where
  "replay_empty = \<lparr>rs_queue = [], rs_paused = False, rs_claimed = []\<rparr>"

text \<open>\<open>retain(|item| item.queue_entry_id != entry_id)\<close>.\<close>

definition without_entry :: "string \<Rightarrow> queue_item list \<Rightarrow> queue_item list" where
  "without_entry i items = filter (\<lambda>item. queue_entry_id item \<noteq> i) items"

definition replay_step :: "queue_record \<Rightarrow> replay_state \<Rightarrow> replay_state" where
  "replay_step r st =
     (case qr_operation r of
        REnqueue \<Rightarrow>
          (case qr_item r of
             Some item \<Rightarrow>
               if list_ex (\<lambda>current. idempotency_key current = idempotency_key item) (rs_queue st) then st
               else st\<lparr>rs_queue := rs_queue st @ [item]\<rparr>
           | None \<Rightarrow> st)
      | RSendNow \<Rightarrow>
          (case qr_item r of
             Some item \<Rightarrow>
               st\<lparr>rs_queue := item # filter (\<lambda>current. idempotency_key current \<noteq> idempotency_key item
                    \<and> queue_entry_id current \<noteq> queue_entry_id item) (rs_queue st)\<rparr>
           | None \<Rightarrow> st)
      | RCancel \<Rightarrow>
          (case qr_entry_id r of
             Some i \<Rightarrow> st\<lparr>rs_queue := without_entry i (rs_queue st), rs_claimed := without_entry i (rs_claimed st)\<rparr>
           | None \<Rightarrow> st)
      | RPause \<Rightarrow> st\<lparr>rs_paused := True\<rparr>
      | RResume \<Rightarrow> st\<lparr>rs_paused := False\<rparr>
      | RClaim \<Rightarrow>
          (case qr_item r of
             Some item \<Rightarrow>
               st\<lparr>rs_queue := without_entry (queue_entry_id item) (rs_queue st),
                  rs_claimed := without_entry (queue_entry_id item) (rs_claimed st) @ [item]\<rparr>
           | None \<Rightarrow> st)
      | RComplete \<Rightarrow>
          (case qr_entry_id r of
             Some i \<Rightarrow> st\<lparr>rs_claimed := without_entry i (rs_claimed st)\<rparr>
           | None \<Rightarrow> st)
      | RRelease \<Rightarrow>
          (case qr_entry_id r of
             Some i \<Rightarrow>
               (case position (\<lambda>item. queue_entry_id item = i) (rs_claimed st) of
                  Some index \<Rightarrow>
                    st\<lparr>rs_claimed := remove_at index (rs_claimed st),
                       rs_queue := rs_claimed st ! index # rs_queue st\<rparr>
                | None \<Rightarrow>
                    (case qr_item r of
                       Some item \<Rightarrow> st\<lparr>rs_queue := item # rs_queue st\<rparr>
                     | None \<Rightarrow> st))
           | None \<Rightarrow> st))"

text \<open>The loops \<open>for (position, item) in queue.iter_mut().enumerate()\<close>.\<close>

definition number_queue :: "queue_item list \<Rightarrow> queue_item list" where
  "number_queue items = map (\<lambda>(i, item). item\<lparr>qi_position := of_nat i\<rparr>) (enumerate 0 items)"

definition replay_records :: "queue_record list \<Rightarrow> replay_state" where
  "replay_records records =
     (let st = fold replay_step records replay_empty
      in st\<lparr>rs_queue := number_queue (rs_queue st)\<rparr>)"

section \<open>What the operations append\<close>

definition is_duplicate :: "mutation_params \<Rightarrow> queue_item \<Rightarrow> bool" where
  "is_duplicate p item = (idempotency_key item = mp_idempotency_key p
     \<or> mp_queue_entry_id p = Some (queue_entry_id item))"

definition find_duplicate :: "mutation_params \<Rightarrow> replay_state \<Rightarrow> queue_item option" where
  "find_duplicate p st =
     (if mp_operation p = QEnqueue \<or> mp_operation p = QSendNow
      then find (is_duplicate p) (rs_queue st @ rs_claimed st) else None)"

text \<open>The id of a mutation: the duplicate's, the given one, or one made from the key.\<close>

definition mutation_entry_id :: "mutation_params \<Rightarrow> replay_state \<Rightarrow> string" where
  "mutation_entry_id p st =
     (case find_duplicate p st of
        Some item \<Rightarrow> queue_entry_id item
      | None \<Rightarrow> (case mp_queue_entry_id p of Some i \<Rightarrow> i | None \<Rightarrow> ''queue-'' @ mp_idempotency_key p))"

definition new_item :: "mutation_params \<Rightarrow> string \<Rightarrow> queue_item" where
  "new_item p i =
     \<lparr>queue_entry_id = i, idempotency_key = mp_idempotency_key p,
      qi_text = (case mp_text p of Some t \<Rightarrow> t | None \<Rightarrow> []), qi_state = ''queued'', qi_position = 0\<rparr>"

definition mutated_queue :: "mutation_params \<Rightarrow> replay_state \<Rightarrow> queue_item list \<times> bool" where
  "mutated_queue p st =
     (case find_duplicate p st of
        Some duplicate \<Rightarrow>
          (if mp_operation p = QSendNow then
             (case position (\<lambda>item. queue_entry_id item = queue_entry_id duplicate) (rs_queue st) of
                Some index \<Rightarrow> rs_queue st ! index # remove_at index (rs_queue st)
              | None \<Rightarrow> rs_queue st)
           else rs_queue st, rs_paused st)
      | None \<Rightarrow>
          (case mp_operation p of
             QEnqueue \<Rightarrow> (rs_queue st @ [new_item p (mutation_entry_id p st)], rs_paused st)
           | QSendNow \<Rightarrow> (new_item p (mutation_entry_id p st) # rs_queue st, rs_paused st)
           | QCancel \<Rightarrow>
               (case mp_queue_entry_id p of
                  Some i \<Rightarrow> (without_entry i (rs_queue st), rs_paused st)
                | None \<Rightarrow> (rs_queue st, rs_paused st))
           | QPause \<Rightarrow> (rs_queue st, True)
           | QResume \<Rightarrow> (rs_queue st, False)))"

text \<open>The queue and the pause flag that the mutation answers with, its entry id, its record.\<close>

definition mutate_plan ::
  "mutation_params \<Rightarrow> replay_state \<Rightarrow> queue_item list \<times> bool \<times> string \<times> queue_record"
where
  "mutate_plan p st =
     (let entry_id = mutation_entry_id p st;
          (queue0, paused) = mutated_queue p st;
          queue = number_queue queue0
      in (queue, paused, entry_id,
          \<lparr>qr_operation = record_operation_of (mp_operation p),
           qr_item = find (\<lambda>item. queue_entry_id item = entry_id) queue,
           qr_key = mp_idempotency_key p, qr_entry_id = mp_queue_entry_id p\<rparr>))"

definition claim_record :: "queue_item \<Rightarrow> queue_record" where
  "claim_record item =
     \<lparr>qr_operation = RClaim, qr_item = Some item, qr_key = ''dispatch:'' @ idempotency_key item,
      qr_entry_id = Some (queue_entry_id item)\<rparr>"

definition take_next_plan :: "replay_state \<Rightarrow> (queue_item \<times> queue_record) option" where
  "take_next_plan st =
     (if rs_paused st \<or> rs_queue st = [] then None
      else Some (hd (rs_queue st), claim_record (hd (rs_queue st))))"

definition finish_record :: "record_operation \<Rightarrow> queue_item \<Rightarrow> queue_record" where
  "finish_record operation item =
     \<lparr>qr_operation = operation, qr_item = Some item, qr_key = ''dispatch:'' @ queue_entry_id item,
      qr_entry_id = Some (queue_entry_id item)\<rparr>"

definition recovery_record :: "queue_item \<Rightarrow> queue_record" where
  "recovery_record item =
     \<lparr>qr_operation = RRelease, qr_item = Some item, qr_key = ''recovery:'' @ idempotency_key item,
      qr_entry_id = Some (queue_entry_id item)\<rparr>"

section \<open>Compaction\<close>

definition enqueue_record :: "queue_item \<Rightarrow> queue_record" where
  "enqueue_record item =
     \<lparr>qr_operation = REnqueue, qr_item = Some item, qr_key = idempotency_key item,
      qr_entry_id = Some (queue_entry_id item)\<rparr>"

definition pause_record :: queue_record where
  "pause_record = \<lparr>qr_operation = RPause, qr_item = None, qr_key = ''compact:pause'', qr_entry_id = None\<rparr>"

definition compacted_records :: "replay_state \<Rightarrow> queue_record list" where
  "compacted_records st =
     map enqueue_record (rs_queue st) @ map claim_record (rs_claimed st)
     @ (if rs_paused st then [pause_record] else [])"

definition compaction_record_limit :: nat where
  "compaction_record_limit = 128"

definition needs_compaction :: "queue_record list \<Rightarrow> bool" where
  "needs_compaction records =
     (let st = replay_records records;
          live_records = length (rs_queue st) + length (rs_claimed st)
      in compaction_record_limit < length records \<and> live_records + 32 < length records)"

section \<open>Positions do not matter\<close>

text \<open>
  The replay numbers the queue once, at the end, while the operations work on a numbered
  queue: the items are compared without their positions.
\<close>

definition core :: "queue_item \<Rightarrow> queue_item" where
  "core item = item\<lparr>qi_position := 0\<rparr>"

lemma core_simps [simp]:
  "queue_entry_id (core x) = queue_entry_id x" "idempotency_key (core x) = idempotency_key x"
  "qi_text (core x) = qi_text x" "qi_state (core x) = qi_state x"
  "core (x\<lparr>qi_position := p\<rparr>) = core x"
  by (simp_all add: core_def)

lemma core_set_position [simp]: "(core x)\<lparr>qi_position := p\<rparr> = x\<lparr>qi_position := p\<rparr>"
  by (simp add: core_def)

lemma number_from_core:
  "map (\<lambda>(i, item). item\<lparr>qi_position := of_nat i\<rparr>) (enumerate n (map core q))
    = map (\<lambda>(i, item). item\<lparr>qi_position := of_nat i\<rparr>) (enumerate n q)"
  by (induction q arbitrary: n) simp_all

lemma core_number_from:
  "map core (map (\<lambda>(i, item). item\<lparr>qi_position := of_nat i\<rparr>) (enumerate n q)) = map core q"
  by (induction q arbitrary: n) simp_all

lemma core_number [simp]: "map core (number_queue q) = map core q"
  using core_number_from [of 0 q] by (simp add: number_queue_def)

lemma number_queue_core: "map core q = map core q' \<Longrightarrow> number_queue q = number_queue q'"
  using number_from_core [of 0 q] number_from_core [of 0 q'] by (simp add: number_queue_def)

lemma number_queue_idem [simp]: "number_queue (number_queue q) = number_queue q"
  by (rule number_queue_core) simp

lemma map_core_eq:
  assumes "map core q = map core q'" and f: "\<And>x. f (core x) = f x"
  shows "map f q = map f q'"
proof -
  have "map f xs = map f (map core xs)" for xs by (simp add: f)
  then show ?thesis using assms(1) by metis
qed

lemma map_number [simp]: "(\<And>x. f (core x) = f x) \<Longrightarrow> map f (number_queue q) = map f q"
  by (rule map_core_eq) simp_all

lemma number_queue_Nil_iff [simp]: "number_queue q = [] \<longleftrightarrow> q = []"
  by (metis core_number map_is_Nil_conv)

lemma length_number [simp]: "length (number_queue q) = length q"
  by (metis core_number length_map)

lemma filter_core:
  assumes "map core q = map core q'" and "\<And>x. P (core x) = P x"
  shows "map core (filter P q) = map core (filter P q')"
proof -
  have "map core (filter P xs) = filter P (map core xs)" for xs
    by (simp add: filter_map comp_def assms(2))
  then show ?thesis using assms(1) by simp
qed

definition renumber :: "replay_state \<Rightarrow> replay_state" where
  "renumber st = st\<lparr>rs_queue := number_queue (rs_queue st)\<rparr>"

lemma renumber_simps [simp]:
  "rs_queue (renumber st) = number_queue (rs_queue st)" "rs_paused (renumber st) = rs_paused st"
  "rs_claimed (renumber st) = rs_claimed st" "renumber (renumber st) = renumber st"
  by (simp_all add: renumber_def)

definition same_core :: "replay_state \<Rightarrow> replay_state \<Rightarrow> bool" where
  "same_core st st' = (map core (rs_queue st) = map core (rs_queue st')
     \<and> rs_paused st = rs_paused st' \<and> rs_claimed st = rs_claimed st')"

lemma same_core_renumber [simp]: "same_core (renumber st) st" "same_core st (renumber st)"
  by (simp_all add: same_core_def)

lemma renumber_same: "same_core st st' \<Longrightarrow> renumber st = renumber st'"
  using number_queue_core [of "rs_queue st" "rs_queue st'"]
  by (cases st; cases st') (simp add: same_core_def renumber_def)

lemma list_ex_core:
  assumes "map core q = map core q'"
  shows "list_ex (\<lambda>x. idempotency_key x = k) q = list_ex (\<lambda>x. idempotency_key x = k) q'"
proof -
  have "map idempotency_key q = map idempotency_key q'" using assms by (rule map_core_eq) simp
  then have "k \<in> set (map idempotency_key q) \<longleftrightarrow> k \<in> set (map idempotency_key q')" by simp
  then show ?thesis by (auto simp: list_ex_iff)
qed

lemma replay_step_core: "same_core st st' \<Longrightarrow> same_core (replay_step r st) (replay_step r st')"
proof -
  assume same: "same_core st st'"
  then have q: "map core (rs_queue st) = map core (rs_queue st')"
    and [simp]: "rs_paused st' = rs_paused st" "rs_claimed st' = rs_claimed st"
    by (simp_all add: same_core_def)
  note filters = filter_core [OF q] list_ex_core [OF q]
  show ?thesis
    by (cases "qr_operation r"; cases "qr_item r"; cases "qr_entry_id r")
      (simp_all add: replay_step_def same_core_def q filters without_entry_def split: option.splits)
qed

lemma replay_records_renumber: "replay_records rs = renumber (fold replay_step rs replay_empty)"
  by (simp add: replay_records_def renumber_def Let_def)

lemma replay_append: "replay_records (rs @ [r]) = renumber (replay_step r (replay_records rs))"
  unfolding replay_records_renumber
  by simp (rule renumber_same [OF replay_step_core [OF same_core_renumber(2)]])

lemma replay_append_list:
  "replay_records (rs @ rs') = renumber (fold replay_step rs' (replay_records rs))"
proof (induction rs' rule: rev_induct)
  case Nil
  then show ?case by (simp add: replay_records_renumber)
next
  case (snoc r rs')
  have "replay_records (rs @ rs' @ [r]) = renumber (replay_step r (replay_records (rs @ rs')))"
    using replay_append [of "rs @ rs'" r] by simp
  also have "\<dots> = renumber (replay_step r (renumber (fold replay_step rs' (replay_records rs))))"
    by (simp add: snoc)
  also have "\<dots> = renumber (replay_step r (fold replay_step rs' (replay_records rs)))"
    by (rule renumber_same [OF replay_step_core]) simp
  finally show ?case by simp
qed

lemma replay_Nil [simp]: "replay_records [] = replay_empty"
  by (simp add: replay_records_def replay_empty_def number_queue_def Let_def)

lemma replay_numbered [simp]: "number_queue (rs_queue (replay_records rs)) = rs_queue (replay_records rs)"
  by (simp add: replay_records_renumber)

section \<open>Well-formed states\<close>

definition log_ids :: "replay_state \<Rightarrow> string list" where
  "log_ids st = map queue_entry_id (rs_queue st @ rs_claimed st)"

definition log_keys :: "replay_state \<Rightarrow> string list" where
  "log_keys st = map idempotency_key (rs_queue st @ rs_claimed st)"

text \<open>Queued and claimed items have pairwise different ids and pairwise different keys.\<close>

definition log_ok :: "replay_state \<Rightarrow> bool" where
  "log_ok st = (distinct (log_ids st) \<and> distinct (log_keys st))"

text \<open>The id that a mutation gives to a new item is not in use.\<close>

definition entry_id_free :: "mutation_params \<Rightarrow> replay_state \<Rightarrow> bool" where
  "entry_id_free p st =
     (if (mp_operation p = QEnqueue \<or> mp_operation p = QSendNow) \<and> find_duplicate p st = None
      then mutation_entry_id p st \<notin> set (log_ids st) else True)"

lemma log_renumber [simp]: "log_ids (renumber st) = log_ids st" "log_keys (renumber st) = log_keys st"
    "log_ok (renumber st) = log_ok st"
  by (simp_all add: log_ids_def log_keys_def log_ok_def)

lemma log_ok_perm:
  assumes "mset (rs_queue st @ rs_claimed st) = mset (rs_queue st' @ rs_claimed st')"
  shows "log_ok st \<longleftrightarrow> log_ok st'"
proof -
  have "mset (map f (rs_queue st @ rs_claimed st)) = mset (map f (rs_queue st' @ rs_claimed st'))"
    for f :: "queue_item \<Rightarrow> string"
    by (simp only: mset_map assms)
  then show ?thesis
    unfolding log_ok_def log_ids_def log_keys_def by (metis mset_eq_imp_distinct_iff)
qed

definition unique_items :: "queue_item list \<Rightarrow> bool" where
  "unique_items items = (distinct (map queue_entry_id items) \<and> distinct (map idempotency_key items))"

lemma log_ok_unique: "log_ok st = unique_items (rs_queue st @ rs_claimed st)"
  by (simp only: log_ok_def log_ids_def log_keys_def unique_items_def)

lemma unique_items_Cons: "unique_items (x # items) \<longleftrightarrow>
    queue_entry_id x \<notin> set (map queue_entry_id items) \<and> idempotency_key x \<notin> set (map idempotency_key items)
    \<and> unique_items items"
  unfolding unique_items_def list.map distinct.simps by blast

lemma unique_items_filter: "unique_items items \<Longrightarrow> unique_items (filter P items)"
  by (simp add: unique_items_def distinct_map_filter)

lemma log_ok_Cons:
  "log_ok (st\<lparr>rs_queue := x # rs_queue st\<rparr>) \<longleftrightarrow>
    queue_entry_id x \<notin> set (log_ids st) \<and> idempotency_key x \<notin> set (log_keys st) \<and> log_ok st"
  by (simp add: log_ok_unique unique_items_Cons log_ids_def log_keys_def del: set_map)

lemma log_ok_empty [simp]: "log_ok replay_empty"
  by (simp add: log_ok_def log_ids_def log_keys_def replay_empty_def)

lemma find_in_set: "find P xs = Some x \<Longrightarrow> x \<in> set xs \<and> P x"
  by (auto simp: find_Some_iff)

lemma find_None_set: "find P xs = None \<longleftrightarrow> (\<forall>x\<in>set xs. \<not> P x)"
  by (auto simp: find_None_iff)

text \<open>An explicit id is free when there is no duplicate.\<close>

lemma no_duplicate_ids:
  assumes "find_duplicate p st = None" and "mp_operation p = QEnqueue \<or> mp_operation p = QSendNow"
    and "mp_queue_entry_id p = Some i"
  shows "i \<notin> set (log_ids st)"
  using assms by (auto simp: find_duplicate_def find_None_set is_duplicate_def log_ids_def)

lemma entry_id_free_explicit:
  assumes "mp_queue_entry_id p = Some i"
  shows "entry_id_free p st"
  using no_duplicate_ids [of p st i] assms by (auto simp: entry_id_free_def mutation_entry_id_def)

lemma no_duplicate_keys:
  "find_duplicate p st = None \<Longrightarrow> mp_operation p = QEnqueue \<or> mp_operation p = QSendNow \<Longrightarrow>
   \<forall>x\<in>set (rs_queue st @ rs_claimed st). idempotency_key x \<noteq> mp_idempotency_key p"
  by (auto simp: find_duplicate_def find_None_set is_duplicate_def)

lemma without_entry_absent: "i \<notin> queue_entry_id ` set xs \<Longrightarrow> without_entry i xs = xs"
  by (auto simp: without_entry_def filter_id_conv)

lemma without_entry_append [simp]: "without_entry i (xs @ ys) = without_entry i xs @ without_entry i ys"
  by (simp add: without_entry_def)

lemma without_entry_Cons [simp]:
  "without_entry i (x # xs) = (if queue_entry_id x = i then without_entry i xs else x # without_entry i xs)"
  by (simp add: without_entry_def)

lemma find_number_last:
  "i \<notin> queue_entry_id ` set q \<Longrightarrow> queue_entry_id x = i \<Longrightarrow>
   \<exists>p. find (\<lambda>it. queue_entry_id it = i) (number_queue (q @ [x])) = Some (x\<lparr>qi_position := p\<rparr>)"
proof -
  assume new: "i \<notin> queue_entry_id ` set q" and x: "queue_entry_id x = i"
  have "number_queue (q @ [x]) = number_queue q @ [x\<lparr>qi_position := of_nat (length q)\<rparr>]"
    by (simp add: number_queue_def enumerate_append_eq)
  moreover have "find (\<lambda>it. queue_entry_id it = i) (number_queue q) = None"
  proof -
    have "map queue_entry_id (number_queue q) = map queue_entry_id q" by simp
    with new show ?thesis unfolding find_None_set by (metis image_eqI list.set_map)
  qed
  ultimately show ?thesis using x by (auto simp: find_append)
qed

lemma find_number_first:
  "queue_entry_id x = i \<Longrightarrow>
   find (\<lambda>it. queue_entry_id it = i) (number_queue (x # q)) = Some (x\<lparr>qi_position := 0\<rparr>)"
  by (simp add: number_queue_def)

lemma find_number_None:
  assumes "i \<notin> queue_entry_id ` set q"
  shows "find (\<lambda>it. queue_entry_id it = i) (number_queue q) = None"
proof -
  have "map queue_entry_id (number_queue q) = map queue_entry_id q" by simp
  with assms show ?thesis unfolding find_None_set by (metis image_eqI list.set_map)
qed

text \<open>The record of a mutation replays to the queue it answered with.\<close>

definition mutation_record :: "mutation_params \<Rightarrow> replay_state \<Rightarrow> queue_record" where
  "mutation_record p st = snd (snd (snd (mutate_plan p st)))"

text \<open>What a mutation leaves of the claimed items.\<close>

definition mutated_claimed :: "mutation_params \<Rightarrow> replay_state \<Rightarrow> queue_item list" where
  "mutated_claimed p st =
     (case (mp_operation p, mp_queue_entry_id p) of
        (QCancel, Some i) \<Rightarrow> without_entry i (rs_claimed st)
      | _ \<Rightarrow> rs_claimed st)"

lemma mutation_record_simps:
  "qr_operation (mutation_record p st) = record_operation_of (mp_operation p)"
  "qr_entry_id (mutation_record p st) = mp_queue_entry_id p"
  "qr_item (mutation_record p st) = find (\<lambda>item. queue_entry_id item = mutation_entry_id p st)
     (number_queue (fst (mutated_queue p st)))"
  by (auto simp: mutation_record_def mutate_plan_def Let_def split: prod.splits)

lemma replay_enqueue_duplicate:
  assumes "log_ok st" and "mp_operation p = QEnqueue" and "find_duplicate p st = Some d"
  shows "same_core (replay_step (mutation_record p st) st)
    (st\<lparr>rs_queue := fst (mutated_queue p st), rs_paused := snd (mutated_queue p st)\<rparr>)"
proof -
  have q: "mutated_queue p st = (rs_queue st, rs_paused st)"
    using assms(2,3) by (simp add: mutated_queue_def)
  show ?thesis
  proof (cases "qr_item (mutation_record p st)")
    case None
    then show ?thesis by (simp add: replay_step_def mutation_record_simps assms(2) q same_core_def)
  next
    case (Some item)
    then have "item \<in> set (number_queue (rs_queue st))"
      using find_in_set by (fastforce simp: mutation_record_simps q)
    moreover have "map idempotency_key (number_queue (rs_queue st)) = map idempotency_key (rs_queue st)" by simp
    ultimately have "idempotency_key item \<in> set (map idempotency_key (rs_queue st))"
      by (metis image_eqI list.set_map)
    then have "list_ex (\<lambda>c. idempotency_key c = idempotency_key item) (rs_queue st)"
      by (auto simp: list_ex_iff)
    with Some show ?thesis
      by (simp add: replay_step_def mutation_record_simps(1,2) assms(2) q same_core_def)
  qed
qed

lemma filter_others:
  assumes "distinct (map queue_entry_id (ys @ x # zs))" and "distinct (map idempotency_key (ys @ x # zs))"
  shows "filter (\<lambda>c. idempotency_key c \<noteq> idempotency_key x \<and> queue_entry_id c \<noteq> queue_entry_id x) (ys @ x # zs) = ys @ zs"
proof -
  let ?P = "\<lambda>c. idempotency_key c \<noteq> idempotency_key x \<and> queue_entry_id c \<noteq> queue_entry_id x"
  have "filter ?P ys = ys" "filter ?P zs = zs"
    using assms by (auto intro!: filter_True simp: image_iff)
  then show ?thesis by simp
qed

lemma replay_send_now_duplicate:
  assumes "log_ok st" and "mp_operation p = QSendNow" and "find_duplicate p st = Some d"
  shows "same_core (replay_step (mutation_record p st) st)
    (st\<lparr>rs_queue := fst (mutated_queue p st), rs_paused := snd (mutated_queue p st)\<rparr>)"
proof (cases "position (\<lambda>item. queue_entry_id item = queue_entry_id d) (rs_queue st)")
  case None
  then have q: "mutated_queue p st = (rs_queue st, rs_paused st)"
    using assms(2,3) by (simp add: mutated_queue_def)
  have i: "mutation_entry_id p st = queue_entry_id d" by (simp add: mutation_entry_id_def assms(3))
  have "queue_entry_id d \<notin> queue_entry_id ` set (rs_queue st)"
    using None by (auto simp: position_None_iff)
  then have "qr_item (mutation_record p st) = None"
    by (simp add: mutation_record_simps q i find_number_None)
  then show ?thesis by (simp add: replay_step_def mutation_record_simps(1,2) assms(2) q same_core_def)
next
  case (Some k)
  then obtain ys x zs where split: "rs_queue st = ys @ x # zs" "length ys = k" "queue_entry_id x = queue_entry_id d"
    using position_Some_split [OF Some] by blast
  then have q: "mutated_queue p st = (x # ys @ zs, rs_paused st)"
    using assms(2,3) Some by (auto simp: mutated_queue_def)
  have i: "mutation_entry_id p st = queue_entry_id d" by (simp add: mutation_entry_id_def assms(3))
  have item: "qr_item (mutation_record p st) = Some (x\<lparr>qi_position := 0\<rparr>)"
    by (simp add: mutation_record_simps(3) q i find_number_first split(3))
  have "distinct (map queue_entry_id (ys @ x # zs))" "distinct (map idempotency_key (ys @ x # zs))"
    using assms(1) unfolding log_ok_def log_ids_def log_keys_def split(1) map_append distinct_append by blast+
  from filter_others [OF this] show ?thesis
    by (simp add: replay_step_def mutation_record_simps(1,2) item assms(2) q same_core_def split(1))
qed

lemma replay_new:
  assumes "log_ok st" and "mp_operation p = QEnqueue \<or> mp_operation p = QSendNow"
    and "find_duplicate p st = None" and "mutation_entry_id p st \<notin> set (log_ids st)"
  shows "same_core (replay_step (mutation_record p st) st)
    (st\<lparr>rs_queue := fst (mutated_queue p st), rs_paused := snd (mutated_queue p st)\<rparr>)"
proof -
  let ?i = "mutation_entry_id p st"
  let ?x = "new_item p ?i"
  have x: "queue_entry_id ?x = ?i" "idempotency_key ?x = mp_idempotency_key p"
    by (simp_all add: new_item_def)
  have ids: "?i \<notin> queue_entry_id ` set (rs_queue st)"
    using assms(4) by (auto simp: log_ids_def)
  have keys: "\<forall>c\<in>set (rs_queue st). idempotency_key c \<noteq> mp_idempotency_key p"
    using no_duplicate_keys [OF assms(3,2)] by auto
  show ?thesis
  proof (cases "mp_operation p = QEnqueue")
    case True
    then have q: "mutated_queue p st = (rs_queue st @ [?x], rs_paused st)"
      by (simp add: mutated_queue_def assms(3))
    obtain n where item: "qr_item (mutation_record p st) = Some (?x\<lparr>qi_position := n\<rparr>)"
      using find_number_last [OF ids x(1)] by (auto simp: mutation_record_simps(3) q)
    have "\<not> list_ex (\<lambda>c. idempotency_key c = mp_idempotency_key p) (rs_queue st)"
      using keys by (simp add: list_ex_iff)
    then show ?thesis
      by (simp add: replay_step_def mutation_record_simps(1,2) True item q x same_core_def)
  next
    case False
    then have op: "mp_operation p = QSendNow" using assms(2) by simp
    then have q: "mutated_queue p st = (?x # rs_queue st, rs_paused st)"
      by (simp add: mutated_queue_def assms(3))
    have item: "qr_item (mutation_record p st) = Some (?x\<lparr>qi_position := 0\<rparr>)"
      by (simp add: mutation_record_simps(3) q find_number_first x(1))
    have "filter (\<lambda>c. idempotency_key c \<noteq> mp_idempotency_key p \<and> queue_entry_id c \<noteq> ?i) (rs_queue st) = rs_queue st"
      using keys ids by (auto intro!: filter_True simp: image_iff)
    then show ?thesis
      by (simp add: replay_step_def mutation_record_simps(1,2) op item q x same_core_def)
  qed
qed

lemma replay_other:
  assumes "mp_operation p \<noteq> QEnqueue" and "mp_operation p \<noteq> QSendNow"
  shows "same_core (replay_step (mutation_record p st) st)
    (st\<lparr>rs_queue := fst (mutated_queue p st), rs_paused := snd (mutated_queue p st),
        rs_claimed := mutated_claimed p st\<rparr>)"
  using assms
  by (cases "mp_operation p"; cases "mp_queue_entry_id p")
    (simp_all add: replay_step_def mutation_record_simps(1,2) mutated_queue_def mutated_claimed_def
      find_duplicate_def same_core_def)

lemma mutation_replays:
  assumes "log_ok st" and "entry_id_free p st"
  shows "same_core (replay_step (mutation_record p st) st)
    (st\<lparr>rs_queue := fst (mutated_queue p st), rs_paused := snd (mutated_queue p st),
        rs_claimed := mutated_claimed p st\<rparr>)"
proof (cases "mp_operation p = QEnqueue \<or> mp_operation p = QSendNow")
  case True
  then have c: "st\<lparr>rs_queue := q, rs_paused := b, rs_claimed := mutated_claimed p st\<rparr>
      = st\<lparr>rs_queue := q, rs_paused := b\<rparr>" for q b
    by (auto simp: mutated_claimed_def)
  show ?thesis
  proof (cases "find_duplicate p st")
    case None
    then show ?thesis
      unfolding c using replay_new [OF assms(1) True None] assms(2) True by (simp add: entry_id_free_def)
  next
    case (Some d)
    then show ?thesis
      unfolding c
      using replay_enqueue_duplicate [OF assms(1) _ Some] replay_send_now_duplicate [OF assms(1) _ Some] True
      by blast
  qed
qed (simp add: replay_other)

text \<open>The answer of a mutation is the replay of the log with its record.\<close>

lemma mutate_plan_replay:
  assumes "log_ok (replay_records rs)" and "entry_id_free p (replay_records rs)"
    and "mutate_plan p (replay_records rs) = (queue, paused, i, r)"
  shows "rs_queue (replay_records (rs @ [r])) = queue" and "rs_paused (replay_records (rs @ [r])) = paused"
    and "rs_claimed (replay_records (rs @ [r])) = mutated_claimed p (replay_records rs)"
proof -
  have r: "r = mutation_record p (replay_records rs)"
    and q: "queue = number_queue (fst (mutated_queue p (replay_records rs)))"
      "paused = snd (mutated_queue p (replay_records rs))"
    using assms(3) by (auto simp: mutation_record_def mutate_plan_def Let_def split: prod.splits)
  note same = mutation_replays [OF assms(1,2)]
  show "rs_queue (replay_records (rs @ [r])) = queue" "rs_paused (replay_records (rs @ [r])) = paused"
    "rs_claimed (replay_records (rs @ [r])) = mutated_claimed p (replay_records rs)"
    unfolding replay_append r using renumber_same [OF same] by (simp_all add: q)
qed

section \<open>Well-formedness is kept\<close>

lemma mutated_ids:
  assumes "log_ok st" and "entry_id_free p st"
  shows "log_ok (st\<lparr>rs_queue := fst (mutated_queue p st), rs_paused := b, rs_claimed := mutated_claimed p st\<rparr>)"
proof (cases "find_duplicate p st")
  case (Some d)
  then have op: "mp_operation p = QEnqueue \<or> mp_operation p = QSendNow"
    by (auto simp: find_duplicate_def split: if_splits)
  have "mset (fst (mutated_queue p st)) = mset (rs_queue st)"
  proof (cases "position (\<lambda>item. queue_entry_id item = queue_entry_id d) (rs_queue st)")
    case None
    with Some show ?thesis by (simp add: mutated_queue_def)
  next
    case (Some k)
    obtain ys x zs where "rs_queue st = ys @ x # zs" "length ys = k" using position_Some_split [OF Some] by blast
    with Some \<open>find_duplicate p st = Some d\<close> show ?thesis by (auto simp: mutated_queue_def)
  qed
  moreover have "mutated_claimed p st = rs_claimed st" using op by (auto simp: mutated_claimed_def)
  ultimately show ?thesis using assms(1) by (subst log_ok_perm [of _ st]) simp_all
next
  case None
  show ?thesis
  proof (cases "mp_operation p = QEnqueue \<or> mp_operation p = QSendNow")
    case True
    have "mutation_entry_id p st \<notin> set (log_ids st)"
      using assms(2) True None by (simp add: entry_id_free_def)
    moreover have "mp_idempotency_key p \<notin> set (log_keys st)"
      using no_duplicate_keys [OF None True] by (auto simp: log_keys_def)
    ultimately have "log_ok (st\<lparr>rs_queue := new_item p (mutation_entry_id p st) # rs_queue st\<rparr>)"
      using assms(1) by (simp add: log_ok_Cons new_item_def)
    then show ?thesis
      by (subst log_ok_perm [of _ "st\<lparr>rs_queue := new_item p (mutation_entry_id p st) # rs_queue st\<rparr>"])
        (use True None in \<open>auto simp: mutated_queue_def mutated_claimed_def\<close>)
  next
    case False
    have "unique_items (without_entry i (rs_queue st) @ without_entry i (rs_claimed st))" for i
      using unique_items_filter [of "rs_queue st @ rs_claimed st"] assms(1)
      by (simp add: log_ok_unique without_entry_def)
    then show ?thesis
      using assms(1) False None
      by (cases "mp_operation p"; cases "mp_queue_entry_id p")
        (simp_all add: mutated_queue_def mutated_claimed_def log_ok_unique)
  qed
qed

lemma log_ok_same_core: "same_core st st' \<Longrightarrow> log_ok st \<longleftrightarrow> log_ok st'"
  by (metis log_renumber(3) renumber_same)

lemma log_ok_mutate:
  assumes "log_ok (replay_records rs)" and "entry_id_free p (replay_records rs)"
  shows "log_ok (replay_records (rs @ [mutation_record p (replay_records rs)]))"
  unfolding replay_append
  using log_ok_same_core [OF mutation_replays [OF assms]] mutated_ids [OF assms] by simp

section \<open>Claims\<close>

lemma take_next_record:
  assumes "log_ok st" and "take_next_plan st = Some (item, r)"
  shows "rs_queue st = item # tl (rs_queue st)" and "rs_paused st = False"
    and "replay_step r st = st\<lparr>rs_queue := tl (rs_queue st), rs_claimed := rs_claimed st @ [item]\<rparr>"
proof -
  show q: "rs_queue st = item # tl (rs_queue st)" and "rs_paused st = False"
    using assms(2) by (cases "rs_queue st"; auto simp: take_next_plan_def split: if_splits)+
  have r: "r = claim_record item" using assms(2) by (auto simp: take_next_plan_def split: if_splits)
  obtain q0 where q0: "rs_queue st = item # q0" using q by blast
  have "without_entry (queue_entry_id item) q0 = q0"
    "without_entry (queue_entry_id item) (rs_claimed st) = rs_claimed st"
    using assms(1) q0 by (auto simp: log_ok_unique unique_items_Cons intro!: without_entry_absent)
  then show "replay_step r st = st\<lparr>rs_queue := tl (rs_queue st), rs_claimed := rs_claimed st @ [item]\<rparr>"
    by (simp add: replay_step_def r claim_record_def q0)
qed

lemma complete_record:
  "replay_step (finish_record RComplete item) st
    = st\<lparr>rs_claimed := without_entry (queue_entry_id item) (rs_claimed st)\<rparr>"
  by (simp add: replay_step_def finish_record_def)

lemma position_unique:
  assumes "unique_items (ys @ x # zs)"
  shows "position (\<lambda>it. queue_entry_id it = queue_entry_id x) (ys @ x # zs) = Some (length ys)"
  using assms by (intro position_append_hit) (auto simp: unique_items_def image_iff)

lemma release_claimed:
  assumes "log_ok st" and "rs_claimed st = ys @ item # zs"
    and "qr_operation r = RRelease" and "qr_entry_id r = Some (queue_entry_id item)"
  shows "replay_step r st = st\<lparr>rs_claimed := ys @ zs, rs_queue := item # rs_queue st\<rparr>"
proof -
  have "unique_items (ys @ item # zs)"
    using assms(1,2) by (simp add: log_ok_def log_ids_def log_keys_def unique_items_def)
  from position_unique [OF this] show ?thesis
    using assms(2-4) by (simp add: replay_step_def)
qed

text \<open>Releasing every claim in the order of the claims.\<close>

lemma release_all:
  assumes "log_ok st"
  shows "fold replay_step (map recovery_record (rs_claimed st)) st
    = st\<lparr>rs_claimed := [], rs_queue := rev (rs_claimed st) @ rs_queue st\<rparr>"
  using assms
proof (induction "rs_claimed st" arbitrary: st)
  case Nil
  then show ?case by (cases st) simp
next
  case (Cons item items)
  let ?st = "st\<lparr>rs_claimed := items, rs_queue := item # rs_queue st\<rparr>"
  have step: "replay_step (recovery_record item) st = ?st"
    using release_claimed [OF Cons.prems, of "[]" item items] Cons.hyps(2)
    by (simp add: recovery_record_def)
  have "log_ok ?st" using Cons.prems by (subst log_ok_perm [of _ st]) (simp_all add: Cons.hyps(2) [symmetric])
  from Cons.hyps(1) [of ?st] this show ?case
    unfolding Cons.hyps(2) [symmetric] by (simp add: step)
qed

section \<open>Compaction keeps the state\<close>

lemma fold_enqueue:
  assumes "unique_items (rs_queue st @ items)"
  shows "fold replay_step (map enqueue_record items) st = st\<lparr>rs_queue := rs_queue st @ items\<rparr>"
  using assms
proof (induction items arbitrary: st)
  case Nil
  then show ?case by simp
next
  case (Cons item items)
  have "\<not> list_ex (\<lambda>c. idempotency_key c = idempotency_key item) (rs_queue st)"
    using Cons.prems by (auto simp: list_ex_iff unique_items_def image_iff)
  then have step: "replay_step (enqueue_record item) st = st\<lparr>rs_queue := rs_queue st @ [item]\<rparr>"
    by (simp add: replay_step_def enqueue_record_def)
  show ?case using Cons.IH [of "st\<lparr>rs_queue := rs_queue st @ [item]\<rparr>"] Cons.prems by (simp add: step)
qed

lemma fold_claim:
  assumes "unique_items (rs_queue st @ rs_claimed st @ items)"
  shows "fold replay_step (map claim_record items) st = st\<lparr>rs_claimed := rs_claimed st @ items\<rparr>"
  using assms
proof (induction items arbitrary: st)
  case Nil
  then show ?case by simp
next
  case (Cons item items)
  have "without_entry (queue_entry_id item) (rs_queue st) = rs_queue st"
    "without_entry (queue_entry_id item) (rs_claimed st) = rs_claimed st"
    using Cons.prems by (auto simp: unique_items_def intro!: without_entry_absent)
  then have step: "replay_step (claim_record item) st = st\<lparr>rs_claimed := rs_claimed st @ [item]\<rparr>"
    by (simp add: replay_step_def claim_record_def)
  show ?case using Cons.IH [of "st\<lparr>rs_claimed := rs_claimed st @ [item]\<rparr>"] Cons.prems by (simp add: step)
qed

lemma compacted_replay:
  assumes "log_ok (replay_records rs)"
  shows "replay_records (compacted_records (replay_records rs)) = replay_records rs"
proof -
  let ?st = "replay_records rs"
  have u: "unique_items (rs_queue ?st @ rs_claimed ?st)" using assms by (simp only: log_ok_unique)
  then have uq: "unique_items (rs_queue ?st)" by (simp add: unique_items_def)
  have "fold replay_step (map enqueue_record (rs_queue ?st) @ map claim_record (rs_claimed ?st)) replay_empty
      = \<lparr>rs_queue = rs_queue ?st, rs_paused = False, rs_claimed = rs_claimed ?st\<rparr>"
    using fold_enqueue [of replay_empty "rs_queue ?st"] uq u
      fold_claim [of "\<lparr>rs_queue = rs_queue ?st, rs_paused = False, rs_claimed = []\<rparr>" "rs_claimed ?st"]
    by (simp add: replay_empty_def)
  then have "fold replay_step (compacted_records ?st) replay_empty = ?st"
    by (cases ?st) (auto simp: compacted_records_def replay_step_def pause_record_def)
  then show ?thesis
    unfolding replay_records_renumber [of "compacted_records ?st"]
    by (simp add: renumber_def)
qed

lemma length_compacted:
  "length (compacted_records st) \<le> length (rs_queue st) + length (rs_claimed st) + 1"
  by (simp add: compacted_records_def)

section \<open>The log as a FIFO\<close>

text \<open>
  A message is the id, the key and the text of an item.  It is pushed by an \<open>enqueue\<close>
  mutation; a pop is a claim of the head followed by its completion.
\<close>

type_synonym message = "string \<times> string \<times> string"

definition message_of :: "queue_item \<Rightarrow> message" where
  "message_of item = (queue_entry_id item, idempotency_key item, qi_text item)"

definition enqueue_params :: "message \<Rightarrow> mutation_params" where
  "enqueue_params m =
     (case m of (i, k, t) \<Rightarrow> \<lparr>mp_idempotency_key = k, mp_operation = QEnqueue, mp_queue_entry_id = Some i, mp_text = Some t\<rparr>)"

definition log_push :: "message \<Rightarrow> queue_record list \<Rightarrow> queue_record list" where
  "log_push m rs = rs @ [mutation_record (enqueue_params m) (replay_records rs)]"

definition log_pop :: "queue_record list \<Rightarrow> message option \<times> queue_record list" where
  "log_pop rs =
     (case take_next_plan (replay_records rs) of
        None \<Rightarrow> (None, rs)
      | Some (item, r) \<Rightarrow> (Some (message_of item), rs @ [r, finish_record RComplete item]))"

definition log_items :: "queue_record list \<Rightarrow> message list" where
  "log_items rs = map message_of (rs_queue (replay_records rs))"

definition log_ready :: "queue_record list \<Rightarrow> bool" where
  "log_ready rs = (log_ok (replay_records rs) \<and> \<not> rs_paused (replay_records rs))"

definition log_fits :: "message \<Rightarrow> queue_record list \<Rightarrow> bool" where
  "log_fits m rs = (find_duplicate (enqueue_params m) (replay_records rs) = None)"

lemma message_of_core [simp]: "message_of (core item) = message_of item"
  by (simp add: message_of_def)

lemma replay_finish:
  assumes "log_ok (replay_records rs)" and "take_next_plan (replay_records rs) = Some (item, r)"
  shows "replay_records (rs @ [r, finish_record RComplete item])
    = renumber ((replay_records rs)\<lparr>rs_queue := tl (rs_queue (replay_records rs))\<rparr>)"
proof -
  let ?st = "replay_records rs"
  note step = take_next_record [OF assms]
  have "unique_items (rs_queue ?st @ rs_claimed ?st)" using assms(1) by (simp only: log_ok_unique)
  then have "queue_entry_id item \<notin> queue_entry_id ` set (rs_claimed ?st)"
    by (subst (asm) step(1)) (simp add: unique_items_Cons)
  then have "fold replay_step [r, finish_record RComplete item] ?st = ?st\<lparr>rs_queue := tl (rs_queue ?st)\<rparr>"
    by (intro replay_state.equality) (simp_all add: step(3) complete_record without_entry_absent)
  then show ?thesis unfolding replay_append_list by simp
qed

interpretation log_fifo: fifo_queue log_items log_ready log_fits log_push log_pop
proof unfold_locales
  fix rs :: "queue_record list" and m :: message
  let ?st = "replay_records rs" and ?p = "enqueue_params m"
  assume ready: "log_ready rs" and fits: "log_fits m rs"
  have ok: "log_ok ?st" using ready by (simp add: log_ready_def)
  have free: "entry_id_free ?p ?st"
    by (cases m) (simp add: entry_id_free_explicit enqueue_params_def)
  have op: "mp_operation ?p = QEnqueue" by (cases m) (simp add: enqueue_params_def)
  have q: "mutated_queue ?p ?st = (rs_queue ?st @ [new_item ?p (mutation_entry_id ?p ?st)], rs_paused ?st)"
    using fits by (simp add: mutated_queue_def log_fits_def op)
  obtain queue paused i r where plan: "mutate_plan ?p ?st = (queue, paused, i, r)" by (metis prod.exhaust)
  have r: "r = mutation_record ?p ?st" and queue: "queue = number_queue (fst (mutated_queue ?p ?st))"
    "paused = snd (mutated_queue ?p ?st)"
    using plan by (auto simp: mutation_record_def mutate_plan_def Let_def split: prod.splits)
  note replay = mutate_plan_replay [OF ok free plan]
  show "log_ready (log_push m rs)"
    using ready log_ok_mutate [OF ok free] replay(2) r queue(2) q by (simp add: log_ready_def log_push_def)
  have "message_of (new_item ?p (mutation_entry_id ?p ?st)) = m"
    using fits by (cases m) (simp add: message_of_def new_item_def mutation_entry_id_def log_fits_def enqueue_params_def)
  then show "log_items (log_push m rs) = log_items rs @ [m]"
    using replay(1) r queue(1) q by (simp add: log_items_def log_push_def)
next
  fix rs :: "queue_record list"
  assume ready: "log_ready rs"
  let ?st = "replay_records rs"
  have ok: "log_ok ?st" and run: "\<not> rs_paused ?st" using ready by (simp_all add: log_ready_def)
  have "log_ready (snd (log_pop rs)) \<and> log_items (snd (log_pop rs)) = tl (log_items rs)
    \<and> fst (log_pop rs) = (if log_items rs = [] then None else Some (hd (log_items rs)))"
  proof (cases "rs_queue ?st")
    case Nil
    then have "log_pop rs = (None, rs)" by (simp add: log_pop_def take_next_plan_def)
    with Nil ready show ?thesis by (simp add: log_items_def)
  next
    case (Cons item q)
    let ?r = "claim_record item"
    have plan: "take_next_plan ?st = Some (item, ?r)" using Cons run by (simp add: take_next_plan_def)
    have pop: "log_pop rs = (Some (message_of item), rs @ [?r, finish_record RComplete item])"
      by (simp add: log_pop_def plan)
    have st: "replay_records (rs @ [?r, finish_record RComplete item]) = renumber (?st\<lparr>rs_queue := q\<rparr>)"
      using replay_finish [OF ok plan] Cons by simp
    have "log_ok (?st\<lparr>rs_queue := q\<rparr>)"
      using ok unfolding log_ok_unique by (simp add: Cons unique_items_Cons)
    then show ?thesis using pop st run Cons by (simp add: log_ready_def log_items_def)
  qed
  then show "log_ready (snd (log_pop rs))" and "log_items (snd (log_pop rs)) = tl (log_items rs)"
    and "fst (log_pop rs) = (if log_items rs = [] then None else Some (hd (log_items rs)))"
    by blast+
qed

section \<open>Properties\<close>

text \<open>
  The log implements the queue: the queue and the pause flag that a mutation answers with
  are exactly what a replay of the log with its record gives, on every operation, duplicates
  included, and the ids and keys in the log stay pairwise different.  The log must be
  well-formed and the id of a new item not in use; an id given by the client always is.
\<close>

theorem mutation_answers_replay:
  assumes "log_ok (replay_records rs)" and "entry_id_free p (replay_records rs)"
    and "mutate_plan p (replay_records rs) = (queue, paused, i, r)"
  shows "rs_queue (replay_records (rs @ [r])) = queue \<and> rs_paused (replay_records (rs @ [r])) = paused
    \<and> rs_claimed (replay_records (rs @ [r])) = mutated_claimed p (replay_records rs)
    \<and> log_ok (replay_records (rs @ [r]))"
proof -
  have "r = mutation_record p (replay_records rs)" using assms(3) by (simp add: mutation_record_def)
  then show ?thesis
    using mutate_plan_replay [OF assms] log_ok_mutate [OF assms(1,2)] by simp
qed

definition sample_item :: "string \<Rightarrow> string \<Rightarrow> queue_item" where
  "sample_item i k = \<lparr>queue_entry_id = i, idempotency_key = k, qi_text = ''hi'', qi_state = ''queued'', qi_position = 0\<rparr>"

theorem mutation_answers_replay_witness:
  "let p = enqueue_params (''e2'', ''k2'', ''x''); rs = [enqueue_record (sample_item ''e1'' ''k1'')];
       plan = mutate_plan p (replay_records rs)
   in map message_of (rs_queue (replay_records (rs @ [snd (snd (snd plan))]))) = [(''e1'', ''k1'', ''hi''), (''e2'', ''k2'', ''x'')]
     \<and> rs_queue (replay_records (rs @ [snd (snd (snd plan))])) = fst plan"
proof -
  let ?p = "enqueue_params (''e2'', ''k2'', ''x'')" and ?rs = "[enqueue_record (sample_item ''e1'' ''k1'')]"
  have st: "replay_records ?rs = \<lparr>rs_queue = [sample_item ''e1'' ''k1''], rs_paused = False, rs_claimed = []\<rparr>"
    by (simp add: replay_records_def replay_step_def enqueue_record_def replay_empty_def sample_item_def number_queue_def)
  have ok: "log_ok (replay_records ?rs)" by (simp add: st log_ok_def log_ids_def log_keys_def)
  have free: "entry_id_free ?p (replay_records ?rs)"
    by (rule entry_id_free_explicit) (simp add: enqueue_params_def)
  obtain queue paused i r where plan: "mutate_plan ?p (replay_records ?rs) = (queue, paused, i, r)"
    by (metis prod.exhaust)
  from mutation_answers_replay [OF ok free plan] have "rs_queue (replay_records (?rs @ [r])) = queue" by blast
  moreover have "map message_of queue = [(''e1'', ''k1'', ''hi''), (''e2'', ''k2'', ''x'')]"
    using plan unfolding st
    by (auto simp: mutate_plan_def mutated_queue_def mutation_entry_id_def find_duplicate_def is_duplicate_def
        enqueue_params_def new_item_def sample_item_def message_of_def number_queue_def Let_def)
  ultimately show ?thesis by (simp add: plan)
qed



text \<open>
  Compaction is invisible and final: the records it writes replay to the very state of
  the log they replace, and the compacted log does not ask for another compaction.
\<close>

theorem compaction_keeps_state:
  assumes "log_ok (replay_records rs)"
  shows "replay_records (compacted_records (replay_records rs)) = replay_records rs
    \<and> \<not> needs_compaction (compacted_records (replay_records rs))"
  using compacted_replay [OF assms] length_compacted [of "replay_records rs"]
  by (simp add: needs_compaction_def Let_def)

theorem compaction_keeps_state_witness:
  "let rs = [enqueue_record (sample_item ''e1'' ''k1''), enqueue_record (sample_item ''e2'' ''k2''),
        claim_record (sample_item ''e1'' ''k1''), pause_record]
   in replay_records (compacted_records (replay_records rs)) = replay_records rs
      \<and> \<not> needs_compaction (compacted_records (replay_records rs))"
  unfolding Let_def by (rule compaction_keeps_state) code_simp

text \<open>
  A crash loses no claimed prompt: the recovery returns every claim to the queue, before
  what was queued, and leaves no claim; several claims come back in the reverse of the order
  in which they were taken.
\<close>

theorem recovery_requeues_claims:
  assumes "log_ok (replay_records rs)"
  shows "replay_records (rs @ map recovery_record (rs_claimed (replay_records rs)))
    = (replay_records rs)\<lparr>rs_claimed := [],
         rs_queue := number_queue (rev (rs_claimed (replay_records rs)) @ rs_queue (replay_records rs))\<rparr>"
  unfolding replay_append_list release_all [OF assms] by (simp add: renumber_def)

theorem recovery_requeues_claims_witness:
  "let rs = [enqueue_record (sample_item ''e1'' ''k1''), enqueue_record (sample_item ''e2'' ''k2''),
        claim_record (sample_item ''e1'' ''k1''), claim_record (sample_item ''e2'' ''k2'')]
   in map queue_entry_id (rs_queue (replay_records (rs @ map recovery_record (rs_claimed (replay_records rs))))) = [''e2'', ''e1'']"
proof -
  let ?rs = "[enqueue_record (sample_item ''e1'' ''k1''), enqueue_record (sample_item ''e2'' ''k2''),
        claim_record (sample_item ''e1'' ''k1''), claim_record (sample_item ''e2'' ''k2'')]"
  have ok: "log_ok (replay_records ?rs)" by code_simp
  have "map queue_entry_id (rev (rs_claimed (replay_records ?rs)) @ rs_queue (replay_records ?rs)) = [''e2'', ''e1'']"
    by code_simp
  then show ?thesis unfolding Let_def recovery_requeues_claims [OF ok] by simp
qed

text \<open>
  Cancelling a prompt in flight does not keep it out of the queue: when its dispatch then
  fails and the claim is released, the replay finds no claim and takes the item from the
  release record, so the cancelled prompt is at the head of the queue again.
\<close>

theorem released_after_cancel_returns:
  assumes "mp_operation p = QCancel" and "mp_queue_entry_id p = Some (queue_entry_id item)"
  shows "\<exists>q. rs_queue (replay_records (rs @ [mutation_record p (replay_records rs), finish_record RRelease item]))
    = item\<lparr>qi_position := 0\<rparr> # q"
proof -
  let ?st = "replay_step (mutation_record p (replay_records rs)) (replay_records rs)"
  have "position (\<lambda>it. queue_entry_id it = queue_entry_id item) (rs_claimed ?st) = None"
    by (simp add: position_None_iff replay_step_def mutation_record_simps assms without_entry_def)
  then have "rs_queue (replay_step (finish_record RRelease item) ?st) = item # rs_queue ?st"
    by (subst replay_step_def) (simp add: finish_record_def)
  then show ?thesis unfolding replay_append_list by (simp add: number_queue_def)
qed

theorem released_after_cancel_returns_witness:
  "\<exists>q. rs_queue (replay_records ([enqueue_record (sample_item ''e1'' ''k1''), claim_record (sample_item ''e1'' ''k1'')]
      @ [mutation_record \<lparr>mp_idempotency_key = ''c'', mp_operation = QCancel, mp_queue_entry_id = Some ''e1'', mp_text = None\<rparr>
          (replay_records [enqueue_record (sample_item ''e1'' ''k1''), claim_record (sample_item ''e1'' ''k1'')]),
         finish_record RRelease (sample_item ''e1'' ''k1'')])) = (sample_item ''e1'' ''k1'')\<lparr>qi_position := 0\<rparr> # q"
  by (rule released_after_cancel_returns) (simp_all add: sample_item_def)

text \<open>
  An accepted message can be missing from the log: when the client gives no id and the id
  made from the key is that of a queued item, the mutation answers with a queue that holds
  the new message, but its record carries the old item and the replay does not change.
\<close>

theorem implicit_id_collision_not_durable:
  assumes "mp_operation p = QEnqueue" and "mp_queue_entry_id p = None"
    and "find_duplicate p (replay_records rs) = None"
    and "old \<in> set (rs_queue (replay_records rs))" and "queue_entry_id old = ''queue-'' @ mp_idempotency_key p"
  shows "length (fst (mutate_plan p (replay_records rs))) = length (rs_queue (replay_records rs)) + 1
    \<and> rs_queue (replay_records (rs @ [mutation_record p (replay_records rs)])) = rs_queue (replay_records rs)"
proof -
  let ?st = "replay_records rs"
  define j where "j = ''queue-'' @ mp_idempotency_key p"
  have i: "mutation_entry_id p ?st = j" by (simp add: mutation_entry_id_def assms(2,3) j_def)
  have q: "mutated_queue p ?st = (rs_queue ?st @ [new_item p j], rs_paused ?st)"
    by (simp add: mutated_queue_def assms(1,3) i)
  have numbered: "number_queue (rs_queue ?st @ [new_item p j])
      = rs_queue ?st @ [(new_item p j)\<lparr>qi_position := of_nat (length (rs_queue ?st))\<rparr>]"
    using replay_numbered [of rs] by (simp add: number_queue_def enumerate_append_eq)
  have "find (\<lambda>it. queue_entry_id it = j) (rs_queue ?st) \<noteq> None"
    using assms(4,5) by (auto simp: find_None_set j_def)
  then obtain x where x: "find (\<lambda>it. queue_entry_id it = j) (rs_queue ?st) = Some x" by blast
  then have "x \<in> set (rs_queue ?st)" using find_in_set by fastforce
  then have "list_ex (\<lambda>c. idempotency_key c = idempotency_key x) (rs_queue ?st)" by (auto simp: list_ex_iff)
  then have "replay_step (mutation_record p ?st) ?st = ?st"
    by (simp add: replay_step_def mutation_record_simps assms(1) i q numbered find_append x)
  then show ?thesis
    by (simp add: replay_append mutate_plan_def q i Let_def)
qed

theorem implicit_id_collision_not_durable_witness:
  "let p = \<lparr>mp_idempotency_key = ''k2'', mp_operation = QEnqueue, mp_queue_entry_id = None, mp_text = Some ''lost''\<rparr>;
       rs = [enqueue_record (sample_item ''queue-k2'' ''k1'')]
   in length (fst (mutate_plan p (replay_records rs))) = length (rs_queue (replay_records rs)) + 1
     \<and> rs_queue (replay_records (rs @ [mutation_record p (replay_records rs)])) = rs_queue (replay_records rs)"
  unfolding Let_def
proof (rule implicit_id_collision_not_durable)
  show "sample_item ''queue-k2'' ''k1'' \<in> set (rs_queue (replay_records [enqueue_record (sample_item ''queue-k2'' ''k1'')]))"
    by code_simp
  show "find_duplicate \<lparr>mp_idempotency_key = ''k2'', mp_operation = QEnqueue, mp_queue_entry_id = None, mp_text = Some ''lost''\<rparr>
      (replay_records [enqueue_record (sample_item ''queue-k2'' ''k1'')]) = None"
    by code_simp
qed (simp_all add: sample_item_def)

end
