(* ===== verification/SessionFile.thy ===== *)
theory SessionFile
  imports LineCodec
begin

text \<open>
  What the two JSONL repositories of the gateway share (\<open>acpx-core/src/persistence\<close>): the
  error type, the check on session ids, the paths of the files under one root, and the file
  system as a map from paths to contents.
\<close>

datatype transcript_error =
    IoError | JsonError | TaskError | InvalidSessionId string | InvalidCursor string

type_synonym disk = "path \<rightharpoonup> string"

definition bad_session_id :: "string \<Rightarrow> bool" where
  "bad_session_id sid = (sid = [] \<or> sid = ''.'' \<or> sid = ''..''
     \<or> CHR ''/'' \<in> set sid \<or> CHR 0x5C \<in> set sid)"

definition path_for :: "string \<Rightarrow> string \<Rightarrow> transcript_error + path" where
  "path_for root sid =
     (if bad_session_id sid then Inl (InvalidSessionId sid) else Inr (root, sid @ ''.jsonl''))"

definition queue_path :: "string \<Rightarrow> string \<Rightarrow> transcript_error + path" where
  "queue_path root sid =
     (if bad_session_id sid then Inl (InvalidSessionId sid) else Inr (root, sid @ ''.queue.jsonl''))"

lemma queue_path_inj: "queue_path root sid = Inr p \<Longrightarrow> queue_path root sid' = Inr p \<Longrightarrow> sid = sid'"
  by (auto simp: queue_path_def split: if_splits)

lemma path_for_inj: "path_for root sid = Inr p \<Longrightarrow> path_for root sid' = Inr p \<Longrightarrow> sid = sid'"
  by (auto simp: path_for_def split: if_splits)

text \<open>The file at a path holds the given values, one line each; no file holds none.\<close>

definition file_holds :: "('r \<Rightarrow> string) \<Rightarrow> string option \<Rightarrow> 'r list \<Rightarrow> bool" where
  "file_holds enc c rs = (case c of None \<Rightarrow> rs = [] | Some content \<Rightarrow> content = unlines (map enc rs))"

lemma file_holds_None [simp]: "file_holds enc None rs \<longleftrightarrow> rs = []"
  by (simp add: file_holds_def)

lemma file_holds_Some [simp]: "file_holds enc (Some content) rs \<longleftrightarrow> content = unlines (map enc rs)"
  by (simp add: file_holds_def)

text \<open>The bytes of a file, none when there is no file: what an append starts from.\<close>

definition file_bytes :: "string option \<Rightarrow> string" where
  "file_bytes c = (case c of None \<Rightarrow> [] | Some content \<Rightarrow> content)"

lemma file_bytes_simps [simp]: "file_bytes None = []" "file_bytes (Some content) = content"
  by (simp_all add: file_bytes_def)

lemma file_bytes_holds: "file_holds enc c rs \<Longrightarrow> file_bytes c = unlines (map enc rs)"
  by (cases c) simp_all

end
