(* ===== verification/QueueFile.thy ===== *)
theory QueueFile
  imports QueueLog SessionFile
begin

text \<open>
  The durable queue on disk: \<open>QueueStore\<close> of \<open>acpx-core/src/persistence/queue.rs\<close>.  A
  session's log is a JSONL file.  The serializer and the parser of a record are the arguments
  \<open>ser\<close> and \<open>de\<close>; how the writes of an operation end is the argument \<open>io\<close>.  The operations
  of a session run one at a time, under the session's lock.
\<close>

section \<open>Reading the log\<close>

text \<open>
  The loop of \<open>read_records\<close>: a line that does not parse is an error, unless it is the last
  one and unterminated; then it is dropped, and the flag says that the file has to be cut.
\<close>

fun parse_records ::
  "(string \<Rightarrow> queue_record option) \<Rightarrow> bool \<Rightarrow> string list \<Rightarrow> transcript_error + queue_record list \<times> bool"
where
  "parse_records de unterminated [] = Inr ([], False)"
| "parse_records de unterminated (line # ls) =
     (case de line of
        Some r \<Rightarrow> map_sum id (\<lambda>(rs, cut_tail). (r # rs, cut_tail)) (parse_records de unterminated ls)
      | None \<Rightarrow> if unterminated \<and> ls = [] then Inr ([], True) else Inl JsonError)"

definition read_records ::
  "(string \<Rightarrow> queue_record option) \<Rightarrow> string option \<Rightarrow> string option \<times> (transcript_error + queue_record list)"
where
  "read_records de c =
     (case c of
        None \<Rightarrow> (None, Inr [])
      | Some content \<Rightarrow>
          (let unterminated_tail = \<not> ends_with_newline content;
               ls = filter (\<lambda>l. \<not> is_blank l) (str_lines content)
           in case parse_records de unterminated_tail ls of
                Inl e \<Rightarrow> (Some content, Inl e)
              | Inr (records, cut_tail) \<Rightarrow>
                  (Some (if cut_tail then through_last_newline content else content), Inr records)))"

section \<open>Appending and compacting\<close>

text \<open>
  An append writes the record and a newline; a compaction writes a temporary file and renames
  it.
\<close>

record queue_io =
  io_append :: append_outcome
  io_compacts :: bool

definition compact_if_needed ::
  "(queue_record \<Rightarrow> string) \<Rightarrow> (string \<Rightarrow> queue_record option) \<Rightarrow> bool \<Rightarrow> string option \<Rightarrow>
   string option \<times> (transcript_error + unit)"
where
  "compact_if_needed ser de compacts c =
     (case read_records de c of
        (c', Inl e) \<Rightarrow> (c', Inl e)
      | (c', Inr records) \<Rightarrow>
          if length records \<le> compaction_record_limit then (c', Inr ())
          else
            (let state = replay_records records;
                 live_records = length (rs_queue state) + length (rs_claimed state)
             in if length records \<le> live_records + 32 then (c', Inr ())
                else if compacts then (Some (unlines (map ser (compacted_records state))), Inr ())
                else (c', Inl IoError)))"

definition append_record ::
  "(queue_record \<Rightarrow> string) \<Rightarrow> (string \<Rightarrow> queue_record option) \<Rightarrow> queue_io \<Rightarrow> string option \<Rightarrow> queue_record \<Rightarrow>
   string option \<times> (transcript_error + unit)"
where
  "append_record ser de io c r =
     (case io_append io of
        AppendStops part \<Rightarrow> (Some (file_bytes c @ part), Inl IoError)
      | Appended \<Rightarrow> compact_if_needed ser de (io_compacts io) (Some (file_bytes c @ ser r @ [newline])))"

section \<open>The operations of the store\<close>

datatype queue_mutation = Inserted | SentPrompt | Removed

record queue_state_event =
  ev_session_id :: string
  ev_queue_entry_id :: string
  ev_mutation :: queue_mutation
  ev_idempotency_key :: "string option"
  ev_position :: "32 word option"
  ev_text :: "string option"
  ev_completed :: bool

record queue_mutation_result =
  qm_session_id :: string
  qm_idempotency_key :: string
  qm_accepted :: bool
  qm_queue_entry_id :: "string option"
  qm_queue :: "queue_item list"
  qm_paused :: bool

definition mutation_event ::
  "string \<Rightarrow> mutation_params \<Rightarrow> queue_item list \<Rightarrow> string \<Rightarrow> queue_state_event"
where
  "mutation_event sid p queue entry_id =
     (let hit = find (\<lambda>item. queue_entry_id item = entry_id) queue
      in \<lparr>ev_session_id = sid, ev_queue_entry_id = entry_id,
          ev_mutation = (if mp_operation p = QCancel then Removed else Inserted),
          ev_idempotency_key = Some (mp_idempotency_key p),
          ev_position = map_option qi_position hit,
          ev_text = (case hit of Some item \<Rightarrow> Some (qi_text item) | None \<Rightarrow> mp_text p),
          ev_completed = False\<rparr>)"

text \<open>Run an operation on the session's file: the path is checked, the new content is stored.\<close>

definition on_session_file ::
  "string \<Rightarrow> string \<Rightarrow> (string option \<Rightarrow> string option \<times> (transcript_error + 'a)) \<Rightarrow> disk \<Rightarrow>
   disk \<times> (transcript_error + 'a)"
where
  "on_session_file root sid f fs =
     (case queue_path root sid of
        Inl e \<Rightarrow> (fs, Inl e)
      | Inr path \<Rightarrow> (case f (fs path) of (c, r) \<Rightarrow> (fs(path := c), r)))"

definition mutate_file ::
  "(queue_record \<Rightarrow> string) \<Rightarrow> (string \<Rightarrow> queue_record option) \<Rightarrow> queue_io \<Rightarrow> string \<Rightarrow> mutation_params \<Rightarrow>
   string option \<Rightarrow> string option \<times> (transcript_error + queue_mutation_result \<times> queue_state_event)"
where
  "mutate_file ser de io sid p c =
     (case read_records de c of
        (c1, Inl e) \<Rightarrow> (c1, Inl e)
      | (c1, Inr records) \<Rightarrow>
          (case mutate_plan p (replay_records records) of
             (queue, paused, entry_id, r) \<Rightarrow>
               (case append_record ser de io c1 r of
                  (c2, Inl e) \<Rightarrow> (c2, Inl e)
                | (c2, Inr _) \<Rightarrow>
                    (c2, Inr (\<lparr>qm_session_id = sid, qm_idempotency_key = mp_idempotency_key p,
                               qm_accepted = True, qm_queue_entry_id = Some entry_id,
                               qm_queue = queue, qm_paused = paused\<rparr>,
                              mutation_event sid p queue entry_id)))))"

definition store_mutate ::
  "(queue_record \<Rightarrow> string) \<Rightarrow> (string \<Rightarrow> queue_record option) \<Rightarrow> queue_io \<Rightarrow> string \<Rightarrow> string \<Rightarrow> mutation_params \<Rightarrow>
   disk \<Rightarrow> disk \<times> (transcript_error + queue_mutation_result \<times> queue_state_event)"
where
  "store_mutate ser de io root sid p = on_session_file root sid (mutate_file ser de io sid p)"

definition snapshot_file ::
  "(string \<Rightarrow> queue_record option) \<Rightarrow> string option \<Rightarrow> string option \<times> (transcript_error + queue_item list \<times> bool)"
where
  "snapshot_file de c =
     (case read_records de c of
        (c1, Inl e) \<Rightarrow> (c1, Inl e)
      | (c1, Inr records) \<Rightarrow>
          (c1, Inr (rs_queue (replay_records records), rs_paused (replay_records records))))"

definition store_snapshot ::
  "(string \<Rightarrow> queue_record option) \<Rightarrow> string \<Rightarrow> string \<Rightarrow> disk \<Rightarrow> disk \<times> (transcript_error + queue_item list \<times> bool)"
where
  "store_snapshot de root sid = on_session_file root sid (snapshot_file de)"

definition sent_event :: "string \<Rightarrow> queue_item \<Rightarrow> queue_state_event" where
  "sent_event sid item =
     \<lparr>ev_session_id = sid, ev_queue_entry_id = queue_entry_id item, ev_mutation = SentPrompt,
      ev_idempotency_key = Some (idempotency_key item), ev_position = None,
      ev_text = Some (qi_text item), ev_completed = False\<rparr>"

definition take_next_file ::
  "(queue_record \<Rightarrow> string) \<Rightarrow> (string \<Rightarrow> queue_record option) \<Rightarrow> queue_io \<Rightarrow> string \<Rightarrow>
   string option \<Rightarrow> string option \<times> (transcript_error + (queue_item \<times> queue_state_event) option)"
where
  "take_next_file ser de io sid c =
     (case read_records de c of
        (c1, Inl e) \<Rightarrow> (c1, Inl e)
      | (c1, Inr records) \<Rightarrow>
          (case take_next_plan (replay_records records) of
             None \<Rightarrow> (c1, Inr None)
           | Some (item, r) \<Rightarrow>
               (case append_record ser de io c1 r of
                  (c2, Inl e) \<Rightarrow> (c2, Inl e)
                | (c2, Inr _) \<Rightarrow> (c2, Inr (Some (item, sent_event sid item))))))"

definition store_take_next ::
  "(queue_record \<Rightarrow> string) \<Rightarrow> (string \<Rightarrow> queue_record option) \<Rightarrow> queue_io \<Rightarrow> string \<Rightarrow> string \<Rightarrow>
   disk \<Rightarrow> disk \<times> (transcript_error + (queue_item \<times> queue_state_event) option)"
where
  "store_take_next ser de io root sid = on_session_file root sid (take_next_file ser de io sid)"

definition finish_event :: "record_operation \<Rightarrow> string \<Rightarrow> queue_item \<Rightarrow> queue_state_event" where
  "finish_event operation sid item =
     \<lparr>ev_session_id = sid, ev_queue_entry_id = queue_entry_id item,
      ev_mutation = (if operation = RComplete then Removed else Inserted),
      ev_idempotency_key = Some (idempotency_key item),
      ev_position = (if operation = RRelease then Some 0 else None),
      ev_text = Some (qi_text item), ev_completed = (operation = RComplete)\<rparr>"

definition finish_claim_file ::
  "(queue_record \<Rightarrow> string) \<Rightarrow> (string \<Rightarrow> queue_record option) \<Rightarrow> queue_io \<Rightarrow> string \<Rightarrow> record_operation \<Rightarrow>
   queue_item \<Rightarrow> string option \<Rightarrow> string option \<times> (transcript_error + queue_state_event)"
where
  "finish_claim_file ser de io sid operation item c =
     (case append_record ser de io c (finish_record operation item) of
        (c1, Inl e) \<Rightarrow> (c1, Inl e)
      | (c1, Inr _) \<Rightarrow>
          (case read_records de c1 of
             (c2, Inl e) \<Rightarrow> (c2, Inl e)
           | (c2, Inr _) \<Rightarrow> (c2, Inr (finish_event operation sid item))))"

definition store_complete ::
  "(queue_record \<Rightarrow> string) \<Rightarrow> (string \<Rightarrow> queue_record option) \<Rightarrow> queue_io \<Rightarrow> string \<Rightarrow> string \<Rightarrow> queue_item \<Rightarrow>
   disk \<Rightarrow> disk \<times> (transcript_error + queue_state_event)"
where
  "store_complete ser de io root sid item =
     on_session_file root sid (finish_claim_file ser de io sid RComplete item)"

definition store_release ::
  "(queue_record \<Rightarrow> string) \<Rightarrow> (string \<Rightarrow> queue_record option) \<Rightarrow> queue_io \<Rightarrow> string \<Rightarrow> string \<Rightarrow> queue_item \<Rightarrow>
   disk \<Rightarrow> disk \<times> (transcript_error + queue_state_event)"
where
  "store_release ser de io root sid item =
     on_session_file root sid (finish_claim_file ser de io sid RRelease item)"

text \<open>The loop of \<open>recover_inflight\<close>; \<open>ios\<close> has the outcome of each append.\<close>

fun recover_loop ::
  "(queue_record \<Rightarrow> string) \<Rightarrow> (string \<Rightarrow> queue_record option) \<Rightarrow> (nat \<Rightarrow> queue_io) \<Rightarrow> nat \<Rightarrow> queue_item list \<Rightarrow>
   string option \<Rightarrow> string option \<times> (transcript_error + unit)"
where
  "recover_loop ser de ios n [] c = (c, Inr ())"
| "recover_loop ser de ios n (item # items) c =
     (case append_record ser de (ios n) c (recovery_record item) of
        (c1, Inl e) \<Rightarrow> (c1, Inl e)
      | (c1, Inr _) \<Rightarrow> recover_loop ser de ios (Suc n) items c1)"

definition recover_file ::
  "(queue_record \<Rightarrow> string) \<Rightarrow> (string \<Rightarrow> queue_record option) \<Rightarrow> (nat \<Rightarrow> queue_io) \<Rightarrow>
   string option \<Rightarrow> string option \<times> (transcript_error + unit)"
where
  "recover_file ser de ios c =
     (case read_records de c of
        (c1, Inl e) \<Rightarrow> (c1, Inl e)
      | (c1, Inr records) \<Rightarrow> recover_loop ser de ios 0 (rs_claimed (replay_records records)) c1)"

definition store_recover_inflight ::
  "(queue_record \<Rightarrow> string) \<Rightarrow> (string \<Rightarrow> queue_record option) \<Rightarrow> (nat \<Rightarrow> queue_io) \<Rightarrow> string \<Rightarrow> string \<Rightarrow>
   disk \<Rightarrow> disk \<times> (transcript_error + unit)"
where
  "store_recover_inflight ser de ios root sid = on_session_file root sid (recover_file ser de ios)"

section \<open>Files that hold a log\<close>

lemma parse_records_enc:
  assumes "line_codec ser de"
  shows "parse_records de u (map ser rs) = Inr (rs, False)"
  by (induction rs) (simp_all add: line_codec.dec_enc [OF assms])

lemma parse_records_torn:
  assumes "line_codec ser de" and "de tail = None"
  shows "parse_records de True (map ser rs @ [tail]) = Inr (rs, True)"
  using assms(2) by (induction rs) (simp_all add: line_codec.dec_enc [OF assms(1)])

lemma parse_records_bad:
  assumes "line_codec ser de" and "de bad = None"
  shows "parse_records de False (map ser rs @ bad # ls) = Inl JsonError"
  using assms(2) by (induction rs) (simp_all add: line_codec.dec_enc [OF assms(1)])

lemma read_records_holds:
  assumes codec: "line_codec ser de" and "file_holds ser c rs"
  shows "read_records de c = (c, Inr rs)"
  using assms(2)
  by (cases c)
    (simp_all add: read_records_def line_codec.lines_of_file [OF codec] line_codec.visible_lines [OF codec]
      parse_records_enc [OF codec])

text \<open>A tail that is no record: what a kill in the middle of an append leaves.\<close>

definition torn_tail :: "(string \<Rightarrow> queue_record option) \<Rightarrow> string \<Rightarrow> bool" where
  "torn_tail de tail = (de tail = None \<and> newline \<notin> set tail \<and> \<not> is_blank tail)"

lemma torn_tail_end:
  assumes "newline \<notin> set tail" and "tail \<noteq> []"
  shows "\<not> ends_with_newline (unlines ls @ tail)"
  using assms by (auto simp: ends_with_newline_unlines dest: last_in_set)

lemma read_records_torn:
  assumes codec: "line_codec ser de" and "torn_tail de tail"
  shows "read_records de (Some (unlines (map ser rs) @ tail)) = (Some (unlines (map ser rs)), Inr rs)"
proof -
  have tail: "newline \<notin> set tail" "tail \<noteq> []" "\<not> is_blank tail" "de tail = None"
    using assms(2) by (auto simp: torn_tail_def)
  show ?thesis
    using torn_tail_end [OF tail(1,2), of "map ser rs"] tail
    by (simp add: read_records_def line_codec.lines_of_torn_file [OF codec tail(1,2)]
        line_codec.visible_lines [OF codec] parse_records_torn [OF codec] through_last_newline_unlines)
qed

lemma compact_holds:
  assumes codec: "line_codec ser de" and "file_holds ser c rs" and "log_ok (replay_records rs)"
    and "compact_if_needed ser de compacts c = (c', Inr u)"
  shows "\<exists>rs'. file_holds ser c' rs' \<and> replay_records rs' = replay_records rs"
proof (cases "c' = Some (unlines (map ser (compacted_records (replay_records rs))))")
  case True
  then show ?thesis using compacted_replay [OF assms(3)] by auto
next
  case False
  then have "c' = c"
    using assms(4)
    by (auto simp: compact_if_needed_def read_records_holds [OF codec assms(2)] Let_def split: if_splits)
  then show ?thesis using assms(2) by blast
qed

lemma append_holds:
  assumes codec: "line_codec ser de" and "file_holds ser c rs" and "log_ok (replay_records (rs @ [r]))"
    and "append_record ser de io c r = (c', Inr u)"
  shows "\<exists>rs'. file_holds ser c' rs' \<and> replay_records rs' = replay_records (rs @ [r])"
proof -
  have "file_holds ser (Some (file_bytes c @ ser r @ [newline])) (rs @ [r])"
    using file_bytes_holds [OF assms(2)] by simp
  from compact_holds [OF codec this assms(3)] assms(4) show ?thesis
    by (auto simp: append_record_def split: append_outcome.splits)
qed

lemma log_ok_take_next:
  assumes "log_ok (replay_records rs)" and "take_next_plan (replay_records rs) = Some (item, r)"
  shows "log_ok (replay_records (rs @ [r]))"
    and "replay_records (rs @ [r]) = (replay_records rs)\<lparr>rs_queue := number_queue (tl (rs_queue (replay_records rs))),
      rs_claimed := rs_claimed (replay_records rs) @ [item]\<rparr>"
proof -
  let ?st = "replay_records rs"
  note step = take_next_record [OF assms]
  have "mset (tl (rs_queue ?st) @ rs_claimed ?st @ [item]) = mset (rs_queue ?st @ rs_claimed ?st)"
    by (subst (2) step(1)) simp
  then have "log_ok (?st\<lparr>rs_queue := tl (rs_queue ?st), rs_claimed := rs_claimed ?st @ [item]\<rparr>)"
    using assms(1) by (subst log_ok_perm [of _ ?st]) simp_all
  then show "log_ok (replay_records (rs @ [r]))"
    by (simp add: replay_append step(3))
  show "replay_records (rs @ [r]) = ?st\<lparr>rs_queue := number_queue (tl (rs_queue ?st)), rs_claimed := rs_claimed ?st @ [item]\<rparr>"
    by (simp add: replay_append step(3) renumber_def)
qed

text \<open>The file of a session holds a well-formed log.\<close>

definition session_log ::
  "(queue_record \<Rightarrow> string) \<Rightarrow> string \<Rightarrow> string \<Rightarrow> disk \<Rightarrow> queue_record list \<Rightarrow> bool"
where
  "session_log ser root sid fs rs =
     (case queue_path root sid of
        Inl _ \<Rightarrow> False
      | Inr path \<Rightarrow> file_holds ser (fs path) rs \<and> log_ok (replay_records rs))"

lemma session_logD:
  assumes "session_log ser root sid fs rs"
  obtains path where "queue_path root sid = Inr path" "file_holds ser (fs path) rs" "log_ok (replay_records rs)"
  using assms by (auto simp: session_log_def split: sum.splits)

lemma session_log_other:
  assumes "queue_path root sid = Inr path" and "sid' \<noteq> sid"
  shows "session_log ser root sid' (fs(path := c)) rs = session_log ser root sid' fs rs"
  using queue_path_inj [OF assms(1), of sid'] assms(2)
  by (auto simp: session_log_def split: sum.splits)

lemma snapshot_holds:
  assumes codec: "line_codec ser de" and "session_log ser root sid fs rs"
  shows "store_snapshot de root sid fs = (fs, Inr (rs_queue (replay_records rs), rs_paused (replay_records rs)))"
  using assms(2)
  by (auto simp: store_snapshot_def on_session_file_def snapshot_file_def read_records_holds [OF codec]
      elim!: session_logD)

text \<open>A record the log accepts, appended by an operation on the session's file.\<close>

lemma session_append:
  assumes codec: "line_codec ser de" and path: "queue_path root sid = Inr path"
    and holds: "file_holds ser (fs path) rs" and ok: "log_ok (replay_records (rs @ [r]))"
    and app: "append_record ser de io (fs path) r = (c, Inr u)"
  shows "\<exists>rs'. session_log ser root sid (fs(path := c)) rs' \<and> replay_records rs' = replay_records (rs @ [r])"
proof -
  from append_holds [OF codec holds ok app] obtain rs' where
    "file_holds ser c rs'" "replay_records rs' = replay_records (rs @ [r])" by blast
  then show ?thesis using path ok by (auto simp: session_log_def)
qed

text \<open>The loop of the recovery.\<close>

lemma recover_loop_holds:
  assumes codec: "line_codec ser de"
    and "file_holds ser c rs" and "log_ok (replay_records rs)" and "rs_claimed (replay_records rs) = items"
    and "recover_loop ser de ios n items c = (c', Inr u)"
  shows "\<exists>rs'. file_holds ser c' rs' \<and> log_ok (replay_records rs')
    \<and> replay_records rs' = (replay_records rs)\<lparr>rs_claimed := [],
          rs_queue := number_queue (rev items @ rs_queue (replay_records rs))\<rparr>"
  using assms(2-5)
proof (induction items arbitrary: c rs n)
  case Nil
  then have "(replay_records rs)\<lparr>rs_claimed := [], rs_queue := number_queue (rs_queue (replay_records rs))\<rparr>
      = replay_records rs"
    by (intro replay_state.equality) simp_all
  with Nil show ?case by auto
next
  case (Cons item items)
  let ?st = "replay_records rs" and ?r = "recovery_record item"
  have step: "replay_step ?r ?st = ?st\<lparr>rs_claimed := items, rs_queue := item # rs_queue ?st\<rparr>"
    using release_claimed [OF Cons.prems(2), of "[]" item items] Cons.prems(3)
    by (simp add: recovery_record_def)
  have "log_ok (?st\<lparr>rs_claimed := items, rs_queue := item # rs_queue ?st\<rparr>)"
    using Cons.prems(2,3) by (subst log_ok_perm [of _ ?st]) simp_all
  then have ok: "log_ok (replay_records (rs @ [?r]))" by (simp add: replay_append step)
  obtain c1 where app: "append_record ser de (ios n) c ?r = (c1, Inr ())"
    and rest: "recover_loop ser de ios (Suc n) items c1 = (c', Inr u)"
    using Cons.prems(4) by (auto split: prod.splits sum.splits)
  obtain rs1 where rs1: "file_holds ser c1 rs1" "replay_records rs1 = replay_records (rs @ [?r])"
    using append_holds [OF codec Cons.prems(1) ok app] by blast
  then have st1: "replay_records rs1 = renumber (?st\<lparr>rs_claimed := items, rs_queue := item # rs_queue ?st\<rparr>)"
    by (simp add: replay_append step)
  have "number_queue (rev items @ number_queue (item # rs_queue ?st)) = number_queue (rev (item # items) @ rs_queue ?st)"
    by (rule number_queue_core) simp
  moreover have "log_ok (replay_records rs1)" "rs_claimed (replay_records rs1) = items"
    using ok rs1(2) by simp (simp add: st1)
  ultimately show ?case using Cons.IH [OF rs1(1) _ _ rest] by (simp add: st1 renumber_def)
qed

section \<open>A concrete codec for the records\<close>

fun enc_operation :: "record_operation \<Rightarrow> string" where
  "enc_operation REnqueue = ''enqueue''"
| "enc_operation RSendNow = ''send_now''"
| "enc_operation RCancel = ''cancel''"
| "enc_operation RPause = ''pause''"
| "enc_operation RResume = ''resume''"
| "enc_operation RClaim = ''claim''"
| "enc_operation RComplete = ''complete''"
| "enc_operation RRelease = ''release''"

definition dec_operation :: "string \<Rightarrow> record_operation option" where
  "dec_operation s = find (\<lambda>op. enc_operation op = s)
     [REnqueue, RSendNow, RCancel, RPause, RResume, RClaim, RComplete, RRelease]"

lemma dec_enc_operation [simp]: "dec_operation (enc_operation op) = Some op"
  by (cases op) (simp_all add: dec_operation_def)

fun enc_item :: "queue_item option \<Rightarrow> string list" where
  "enc_item None = []"
| "enc_item (Some i) = [queue_entry_id i, idempotency_key i, qi_text i, qi_state i, show_nat (unat (qi_position i))]"

definition dec_item :: "string list \<Rightarrow> queue_item option option" where
  "dec_item fs =
     (case fs of
        [] \<Rightarrow> Some None
      | [i, k, t, st, n] \<Rightarrow>
          Some (Some \<lparr>queue_entry_id = i, idempotency_key = k, qi_text = t, qi_state = st,
            qi_position = of_nat (read_nat n)\<rparr>)
      | _ \<Rightarrow> None)"

lemma dec_enc_item [simp]: "dec_item (enc_item i) = Some i"
  by (cases i) (simp_all add: dec_item_def)

definition record_fields :: "queue_record \<Rightarrow> string list" where
  "record_fields r =
     enc_operation (qr_operation r) # qr_key r # enc_bool (qr_entry_id r \<noteq> None)
     # (case qr_entry_id r of Some i \<Rightarrow> i | None \<Rightarrow> []) # enc_item (qr_item r)"

definition fields_record :: "string list \<Rightarrow> queue_record option" where
  "fields_record fs =
     (case fs of
        op # k # b # i # rest \<Rightarrow>
          (case (dec_operation op, dec_bool b, dec_item rest) of
             (Some op', Some b', Some it) \<Rightarrow>
               Some \<lparr>qr_operation = op', qr_item = it, qr_key = k, qr_entry_id = (if b' then Some i else None)\<rparr>
           | _ \<Rightarrow> None)
      | _ \<Rightarrow> None)"

lemma fields_of_record: "fields_record (record_fields r) = Some r"
  by (cases r; cases "qr_entry_id r") (simp_all add: fields_record_def record_fields_def)

definition ser_record :: "queue_record \<Rightarrow> string" where
  "ser_record r = enc_fields (record_fields r)"

definition de_record :: "string \<Rightarrow> queue_record option" where
  "de_record s = Option.bind (dec_fields s) fields_record"

interpretation record_codec: line_codec ser_record de_record
  using line_codec_via_fields [of fields_record record_fields] fields_of_record
  by (simp add: ser_record_def [abs_def] de_record_def [abs_def])

text \<open>An append to a short log succeeds when the writes do.\<close>

lemma append_short:
  assumes codec: "line_codec ser de" and "file_holds ser c rs" and "length rs < compaction_record_limit"
    and "io_append io = Appended"
  shows "append_record ser de io c r = (Some (file_bytes c @ ser r @ [newline]), Inr ())"
proof -
  have "file_holds ser (Some (file_bytes c @ ser r @ [newline])) (rs @ [r])"
    using file_bytes_holds [OF assms(2)] by simp
  from read_records_holds [OF codec this] show ?thesis
    using assms(3,4) by (simp add: append_record_def compact_if_needed_def)
qed

definition good_io :: queue_io where
  "good_io = \<lparr>io_append = Appended, io_compacts = True\<rparr>"

definition sample_disk :: "queue_record list \<Rightarrow> disk" where
  "sample_disk rs = [(''root'', ''s1.queue.jsonl'') \<mapsto> unlines (map ser_record rs)]"

lemma sample_path: "queue_path ''root'' ''s1'' = Inr (''root'', ''s1.queue.jsonl'')"
  by (simp add: queue_path_def bad_session_id_def)

lemma sample_log: "log_ok (replay_records rs) \<Longrightarrow> session_log ser_record ''root'' ''s1'' (sample_disk rs) rs"
  by (simp add: session_log_def sample_path sample_disk_def)

lemma sample_read:
  "read_records de_record (sample_disk rs (''root'', ''s1.queue.jsonl'')) = (Some (unlines (map ser_record rs)), Inr rs)"
  using read_records_holds [OF record_codec.line_codec_axioms, of "Some (unlines (map ser_record rs))" rs]
  by (simp add: sample_disk_def)

lemma sample_append:
  "length rs < compaction_record_limit \<Longrightarrow>
   append_record ser_record de_record good_io (Some (unlines (map ser_record rs))) r
     = (Some (unlines (map ser_record (rs @ [r]))), Inr ())"
  using append_short [OF record_codec.line_codec_axioms, of "Some (unlines (map ser_record rs))" rs good_io r]
  by (simp add: good_io_def)

section \<open>Properties\<close>



text \<open>
  A claim is durable: when \<open>take_next\<close> returns an item, it was the head of the queue, the
  queue was not paused, and the file now holds it as claimed and the rest as the queue, so
  that no other client and no restart takes it again.
\<close>

theorem claim_is_durable:
  assumes "line_codec ser de" and "session_log ser root sid fs rs"
    and "store_take_next ser de io root sid fs = (fs', Inr (Some (item, ev)))"
  shows "\<exists>q rs'. rs_queue (replay_records rs) = item # q \<and> \<not> rs_paused (replay_records rs)
    \<and> session_log ser root sid fs' rs'
    \<and> replay_records rs' = (replay_records rs)\<lparr>rs_queue := number_queue q, rs_claimed := rs_claimed (replay_records rs) @ [item]\<rparr>
    \<and> store_snapshot de root sid fs' = (fs', Inr (number_queue q, False))"
proof -
  obtain path where path: "queue_path root sid = Inr path" and holds: "file_holds ser (fs path) rs"
    and ok: "log_ok (replay_records rs)" using assms(2) by (rule session_logD)
  obtain r c where plan: "take_next_plan (replay_records rs) = Some (item, r)"
    and app: "append_record ser de io (fs path) r = (c, Inr ())" and fs': "fs' = fs(path := c)"
    using assms(3)
    by (auto simp: store_take_next_def on_session_file_def path take_next_file_def
        read_records_holds [OF assms(1) holds] split: prod.splits sum.splits option.splits)
  note step = take_next_record [OF ok plan]
  obtain rs' where rs': "session_log ser root sid fs' rs'" "replay_records rs' = replay_records (rs @ [r])"
    using session_append [where fs = fs and path = path, OF assms(1) path holds
        log_ok_take_next(1) [OF ok plan] app] fs' by blast
  then show ?thesis
    using step(1,2) log_ok_take_next(2) [OF ok plan] snapshot_holds [OF assms(1) rs'(1)] by auto
qed

theorem claim_is_durable_witness:
  "\<exists>fs' item ev q. store_take_next ser_record de_record good_io ''root'' ''s1''
        (sample_disk [enqueue_record (sample_item ''e1'' ''k1'')]) = (fs', Inr (Some (item, ev)))
    \<and> store_snapshot de_record ''root'' ''s1'' fs' = (fs', Inr (number_queue q, False))"
proof -
  let ?rs = "[enqueue_record (sample_item ''e1'' ''k1'')]"
  have ok: "log_ok (replay_records ?rs)" by code_simp
  have "take_next_plan (replay_records ?rs) \<noteq> None" by code_simp
  then obtain item r where plan: "take_next_plan (replay_records ?rs) = Some (item, r)" by auto
  obtain fs' ev where run: "store_take_next ser_record de_record good_io ''root'' ''s1'' (sample_disk ?rs)
      = (fs', Inr (Some (item, ev)))"
    using sample_append [of ?rs r] plan
    by (simp add: store_take_next_def on_session_file_def sample_path take_next_file_def sample_read
        compaction_record_limit_def)
  show ?thesis
    using claim_is_durable [OF record_codec.line_codec_axioms sample_log [OF ok] run] run by blast
qed

text \<open>
  The recovery after a crash, on the file: when it succeeds, with or without compactions
  on its way, every claim is back in the queue, before what was queued, and none is left.
\<close>

theorem recovery_on_file:
  assumes "line_codec ser de" and "session_log ser root sid fs rs"
    and "store_recover_inflight ser de ios root sid fs = (fs', Inr u)"
  shows "\<exists>rs'. session_log ser root sid fs' rs' \<and> rs_claimed (replay_records rs') = []
    \<and> rs_queue (replay_records rs') = number_queue (rev (rs_claimed (replay_records rs)) @ rs_queue (replay_records rs))
    \<and> rs_paused (replay_records rs') = rs_paused (replay_records rs)"
proof -
  obtain path where path: "queue_path root sid = Inr path" and holds: "file_holds ser (fs path) rs"
    and ok: "log_ok (replay_records rs)" using assms(2) by (rule session_logD)
  obtain c where loop: "recover_loop ser de ios 0 (rs_claimed (replay_records rs)) (fs path) = (c, Inr u)"
    and fs': "fs' = fs(path := c)"
    using assms(3)
    by (auto simp: store_recover_inflight_def on_session_file_def path recover_file_def
        read_records_holds [OF assms(1) holds] split: prod.splits)
  from recover_loop_holds [OF assms(1) holds ok refl loop] obtain rs' where
    "file_holds ser c rs'" "log_ok (replay_records rs')"
    "replay_records rs' = (replay_records rs)\<lparr>rs_claimed := [],
        rs_queue := number_queue (rev (rs_claimed (replay_records rs)) @ rs_queue (replay_records rs))\<rparr>" by blast
  then show ?thesis using path fs' by (intro exI [of _ rs']) (simp add: session_log_def)
qed

theorem recovery_on_file_witness:
  "\<exists>fs' rs'. store_recover_inflight ser_record de_record (\<lambda>_. good_io) ''root'' ''s1''
        (sample_disk [claim_record (sample_item ''e1'' ''k1'')]) = (fs', Inr ())
    \<and> session_log ser_record ''root'' ''s1'' fs' rs' \<and> rs_claimed (replay_records rs') = []"
proof -
  let ?rs = "[claim_record (sample_item ''e1'' ''k1'')]"
  have ok: "log_ok (replay_records ?rs)" by code_simp
  have claimed: "rs_claimed (replay_records ?rs) = [sample_item ''e1'' ''k1'']"
    by (simp add: replay_records_def replay_step_def claim_record_def replay_empty_def without_entry_def Let_def)
  obtain fs' where run: "store_recover_inflight ser_record de_record (\<lambda>_. good_io) ''root'' ''s1'' (sample_disk ?rs)
      = (fs', Inr ())"
    using sample_append [of ?rs "recovery_record (sample_item ''e1'' ''k1'')"]
    by (simp add: store_recover_inflight_def on_session_file_def sample_path recover_file_def sample_read
        claimed compaction_record_limit_def)
  show ?thesis
    using recovery_on_file [OF record_codec.line_codec_axioms sample_log [OF ok] run] run by blast
qed



text \<open>
  A crash between a record and its newline is not recovered: the record is complete, so the
  next read takes it and leaves the file unterminated; the append of any further record puts
  it on the same line, and from then on every read of the session's queue is an error.
\<close>

theorem unterminated_record_corrupts:
  assumes "line_codec ser de" and "session_log ser root sid fs rs"
    and "queue_path root sid = Inr path" and "fs1 = fs(path \<mapsto> unlines (map ser rs) @ ser r)"
    and "io_append io = Appended" and "store_mutate ser de io root sid p fs1 = (fs2, result)"
  shows "store_snapshot de root sid fs1
      = (fs1, Inr (rs_queue (replay_records (rs @ [r])), rs_paused (replay_records (rs @ [r]))))
    \<and> result = Inl JsonError \<and> store_snapshot de root sid fs2 = (fs2, Inl JsonError)"
proof -
  note codec = assms(1)
  have visible: "\<not> is_blank (ser a @ b)" for a b by (rule line_codec.enc_visible_append [OF codec])
  have "str_lines (unlines (map ser rs) @ ser r) = map ser (rs @ [r])"
    using line_codec.lines_of_torn_file [OF codec line_codec.enc_no_newline [OF codec]
        line_codec.enc_nonempty [OF codec]] by simp
  then have read1: "read_records de (Some (unlines (map ser rs) @ ser r)) = (Some (unlines (map ser rs) @ ser r), Inr (rs @ [r]))"
    using line_codec.visible_lines [OF codec, of "rs @ [r]"] parse_records_enc [OF codec, of _ "rs @ [r]"]
    by (simp add: read_records_def del: filter_append)
  have snap: "store_snapshot de root sid fs1
      = (fs1, Inr (rs_queue (replay_records (rs @ [r])), rs_paused (replay_records (rs @ [r]))))"
    by (auto simp: store_snapshot_def on_session_file_def assms(3,4) snapshot_file_def read1)
  obtain queue paused i r2 where plan: "mutate_plan p (replay_records (rs @ [r])) = (queue, paused, i, r2)"
    by (metis prod.exhaust)
  let ?c = "unlines (map ser rs @ [ser r @ ser r2])"
  have plain: "list_all plain_line (map ser rs @ [ser r @ ser r2])"
    using line_codec.enc_plain [OF codec] by (auto simp: list_all_iff plain_line_def)
  have "filter (\<lambda>l. \<not> is_blank l) (str_lines ?c) = map ser rs @ [ser r @ ser r2]"
    using str_lines_unlines [OF plain, of "[]"] line_codec.visible_lines [OF codec, of rs] visible by simp
  moreover have "ends_with_newline ?c"
    using ends_with_newline_unlines [of "map ser rs @ [ser r @ ser r2]" "[]"] by simp
  moreover have "parse_records de False (map ser rs @ [ser r @ ser r2]) = Inl JsonError"
    by (rule parse_records_bad [OF codec line_codec.dec_two [OF codec]])
  ultimately have read2: "read_records de (Some ?c) = (Some ?c, Inl JsonError)"
    by (simp add: read_records_def del: unlines_simps)
  have "append_record ser de io (Some (unlines (map ser rs) @ ser r)) r2 = (Some ?c, Inl JsonError)"
    using read2 by (simp add: append_record_def assms(5) compact_if_needed_def)
  then have "result = Inl JsonError \<and> fs2 = fs1(path \<mapsto> ?c)"
    using assms(6)
    by (auto simp: store_mutate_def on_session_file_def assms(3,4) mutate_file_def read1 plan)
  then show ?thesis
    using snap read2 by (auto simp: store_snapshot_def on_session_file_def assms(3) snapshot_file_def)
qed

theorem unterminated_record_corrupts_witness:
  "\<exists>fs2. store_snapshot de_record ''root'' ''s1'' fs2 = (fs2, Inl JsonError)"
proof -
  let ?r = "enqueue_record (sample_item ''e1'' ''k1'')"
  let ?fs1 = "(sample_disk [])((''root'', ''s1.queue.jsonl'') \<mapsto> unlines (map ser_record []) @ ser_record ?r)"
  obtain fs2 result where run: "store_mutate ser_record de_record good_io ''root'' ''s1''
      (enqueue_params (''e2'', ''k2'', ''hi'')) ?fs1 = (fs2, result)" by (metis prod.exhaust)
  have log: "session_log ser_record ''root'' ''s1'' (sample_disk []) []" by (rule sample_log) simp
  have io: "io_append good_io = Appended" by (simp add: good_io_def)
  show ?thesis
    using unterminated_record_corrupts [OF record_codec.line_codec_axioms log sample_path refl io run] by blast
qed

end
