(* ===== verification/Transcripts.thy ===== *)
theory Transcripts
  imports SessionFile JsonCodec
begin

text \<open>
  The gateway's append-only transcripts: \<open>acpx-core/src/persistence/transcripts.rs\<close>.  A
  session's transcript is a JSONL file of messages; the serializer and the parser of a message
  are the arguments \<open>ser\<close> and \<open>de\<close>.  Pages are read from the end of the transcript to its
  beginning; a reconciliation replaces everything after the matched prefix.
\<close>

section \<open>Constants and results\<close>

definition initial_history_limit :: nat where "initial_history_limit = 50"

definition older_history_limit :: nat where "older_history_limit = 40"

definition max_history_limit :: nat where "max_history_limit = 40"

record 'v page_result =
  pg_messages :: "'v list"
  pg_next_cursor :: "string option"
  pg_has_more :: bool

record 'v transcript_patch =
  pt_start_index :: nat
  pt_replace_count :: nat
  pt_messages :: "'v list"

section \<open>Reading and appending\<close>

text \<open>The first line that does not parse is the error of the whole read.\<close>

fun parse_lines :: "(string \<Rightarrow> 'v option) \<Rightarrow> string list \<Rightarrow> transcript_error + 'v list" where
  "parse_lines de [] = Inr []"
| "parse_lines de (line # ls) =
     (case de line of
        None \<Rightarrow> Inl JsonError
      | Some v \<Rightarrow> map_sum id (Cons v) (parse_lines de ls))"

definition read_lines :: "(string \<Rightarrow> 'v option) \<Rightarrow> string option \<Rightarrow> transcript_error + 'v list" where
  "read_lines de c =
     (case c of
        None \<Rightarrow> Inr []
      | Some content \<Rightarrow> parse_lines de (filter (\<lambda>l. \<not> is_blank l) (str_lines content)))"

definition ts_append ::
  "('v \<Rightarrow> string) \<Rightarrow> append_outcome \<Rightarrow> string \<Rightarrow> string \<Rightarrow> 'v list \<Rightarrow> disk \<Rightarrow> disk \<times> (transcript_error + unit)"
where
  "ts_append ser outcome root sid messages fs =
     (case path_for root sid of
        Inl e \<Rightarrow> (fs, Inl e)
      | Inr path \<Rightarrow>
          (case outcome of
             AppendStops part \<Rightarrow> (fs(path \<mapsto> file_bytes (fs path) @ part), Inl IoError)
           | Appended \<Rightarrow> (fs(path \<mapsto> file_bytes (fs path) @ unlines (map ser messages)), Inr ())))"

definition read_all :: "(string \<Rightarrow> 'v option) \<Rightarrow> string \<Rightarrow> string \<Rightarrow> disk \<Rightarrow> transcript_error + 'v list" where
  "read_all de root sid fs = (case path_for root sid of Inl e \<Rightarrow> Inl e | Inr path \<Rightarrow> read_lines de (fs path))"

section \<open>Pages\<close>

definition parse_cursor :: "string \<Rightarrow> transcript_error + nat" where
  "parse_cursor cursor = (case parse_usize cursor of None \<Rightarrow> Inl (InvalidCursor cursor) | Some n \<Rightarrow> Inr n)"

definition page_limit :: "bool \<Rightarrow> nat option \<Rightarrow> nat" where
  "page_limit first_page requested =
     min (case requested of
            Some n \<Rightarrow> n
          | None \<Rightarrow> if first_page then initial_history_limit else older_history_limit)
       (if first_page then initial_history_limit else max_history_limit)"

definition page_of :: "nat option \<Rightarrow> nat \<Rightarrow> 'v list \<Rightarrow> 'v page_result" where
  "page_of before limit messages =
     (let end_index = min (case before of Some n \<Rightarrow> n | None \<Rightarrow> length messages) (length messages);
          start = end_index - limit
      in \<lparr>pg_messages = drop start (take end_index messages),
          pg_next_cursor = (if 0 < start then Some (show_nat start) else None),
          pg_has_more = (0 < start)\<rparr>)"

definition paginate ::
  "(string \<Rightarrow> 'v option) \<Rightarrow> string \<Rightarrow> string \<Rightarrow> string option \<Rightarrow> nat option \<Rightarrow> disk \<Rightarrow>
   transcript_error + 'v page_result"
where
  "paginate de root sid before requested fs =
     (case path_for root sid of
        Inl e \<Rightarrow> Inl e
      | Inr path \<Rightarrow>
          (case (case before of None \<Rightarrow> Inr None | Some cursor \<Rightarrow> map_sum id Some (parse_cursor cursor)) of
             Inl e \<Rightarrow> Inl e
           | Inr end_index \<Rightarrow>
               (case read_lines de (fs path) of
                  Inl e \<Rightarrow> Inl e
                | Inr messages \<Rightarrow> Inr (page_of end_index (page_limit (end_index = None) requested) messages))))"

section \<open>Reconciliation\<close>

fun json_field :: "string \<Rightarrow> json \<Rightarrow> json option" where
  "json_field k (JObject kvs) = map_of kvs k"
| "json_field k v = None"

fun json_str :: "json \<Rightarrow> string option" where
  "json_str (JString s) = Some s"
| "json_str v = None"

definition message_id_of :: "json \<Rightarrow> string option" where
  "message_id_of message =
     (case Option.bind (json_field ''messageId'' message) json_str of
        Some i \<Rightarrow> Some i
      | None \<Rightarrow> Option.bind (json_field ''id'' message) json_str)"

text \<open>
  The loop after the choice of the start has a body that only breaks, so it changes nothing.
\<close>

definition patch_start :: "nat option \<Rightarrow> string option \<Rightarrow> json list \<Rightarrow> nat" where
  "patch_start known last_matched existing =
     (let start = min (case known of Some n \<Rightarrow> n | None \<Rightarrow> 0) (length existing)
      in case last_matched of
           Some i \<Rightarrow>
             (case rposition (\<lambda>m. message_id_of m = Some i) existing of
                Some index \<Rightarrow> index + 1
              | None \<Rightarrow> start)
         | None \<Rightarrow> start)"

definition patch_for :: "nat option \<Rightarrow> string option \<Rightarrow> json list \<Rightarrow> json list \<Rightarrow> json transcript_patch" where
  "patch_for known last_matched existing canonical =
     (let start = patch_start known last_matched existing
      in \<lparr>pt_start_index = start, pt_replace_count = length existing - start, pt_messages = drop start canonical\<rparr>)"

definition patch_against ::
  "(string \<Rightarrow> json option) \<Rightarrow> string \<Rightarrow> string \<Rightarrow> nat option \<Rightarrow> string option \<Rightarrow> json list \<Rightarrow> disk \<Rightarrow>
   transcript_error + json transcript_patch"
where
  "patch_against de root sid known last_matched canonical fs =
     (case read_all de root sid fs of
        Inl e \<Rightarrow> Inl e
      | Inr existing \<Rightarrow> Inr (patch_for known last_matched existing canonical))"

definition merge_patch :: "'v transcript_patch \<Rightarrow> 'v list \<Rightarrow> 'v list" where
  "merge_patch patch existing =
     (let start = min (pt_start_index patch) (length existing);
          replace_end = min (start + pt_replace_count patch) (length existing)
      in take start existing @ pt_messages patch @ drop replace_end existing)"

definition apply_patch ::
  "('v \<Rightarrow> string) \<Rightarrow> (string \<Rightarrow> 'v option) \<Rightarrow> write_outcome \<Rightarrow> string \<Rightarrow> string \<Rightarrow> 'v transcript_patch \<Rightarrow>
   disk \<Rightarrow> disk \<times> (transcript_error + unit)"
where
  "apply_patch ser de outcome root sid patch fs =
     (case path_for root sid of
        Inl e \<Rightarrow> (fs, Inl e)
      | Inr path \<Rightarrow>
          (case read_lines de (fs path) of
             Inl e \<Rightarrow> (fs, Inl e)
           | Inr existing \<Rightarrow>
               (let out = unlines (map ser (merge_patch patch existing));
                    temp = with_extension path ''jsonl.tmp''
                in case outcome of
                     CreateFails \<Rightarrow> (fs, Inl IoError)
                   | WriteFails part \<Rightarrow> (fs(temp \<mapsto> part), Inl IoError)
                   | RenameFails \<Rightarrow> (fs(temp \<mapsto> out), Inl IoError)
                   | Written \<Rightarrow> ((fs(temp := None))(path \<mapsto> out), Inr ()))))"

text \<open>The sync request: the patch against the backend's history is computed and applied.\<close>

definition sync_transcript ::
  "(json \<Rightarrow> string) \<Rightarrow> (string \<Rightarrow> json option) \<Rightarrow> write_outcome \<Rightarrow> string \<Rightarrow> string \<Rightarrow> nat option \<Rightarrow> string option \<Rightarrow>
   json list \<Rightarrow> disk \<Rightarrow> disk \<times> (transcript_error + json transcript_patch)"
where
  "sync_transcript ser de outcome root sid known last_matched canonical fs =
     (case patch_against de root sid known last_matched canonical fs of
        Inl e \<Rightarrow> (fs, Inl e)
      | Inr patch \<Rightarrow>
          (case apply_patch ser de outcome root sid patch fs of
             (fs', Inl e) \<Rightarrow> (fs', Inl e)
           | (fs', Inr _) \<Rightarrow> (fs', Inr patch)))"

section \<open>Lemmas\<close>

lemma parse_lines_enc: "line_codec ser de \<Longrightarrow> parse_lines de (map ser vs) = Inr vs"
  by (induction vs) (simp_all add: line_codec.dec_enc)

lemma read_lines_holds:
  assumes codec: "line_codec ser de" and "file_holds ser c vs"
  shows "read_lines de c = Inr vs"
  using assms(2)
  by (cases c)
    (simp_all add: read_lines_def line_codec.lines_of_file [OF codec] line_codec.visible_lines [OF codec]
      parse_lines_enc [OF codec])

text \<open>The transcript of a session.\<close>

definition transcript_is :: "('v \<Rightarrow> string) \<Rightarrow> string \<Rightarrow> string \<Rightarrow> disk \<Rightarrow> 'v list \<Rightarrow> bool" where
  "transcript_is ser root sid fs vs =
     (case path_for root sid of Inl _ \<Rightarrow> False | Inr path \<Rightarrow> file_holds ser (fs path) vs)"

lemma transcript_isD:
  assumes "transcript_is ser root sid fs vs"
  obtains path where "path_for root sid = Inr path" "file_holds ser (fs path) vs"
  using assms by (auto simp: transcript_is_def split: sum.splits)

lemma read_all_transcript:
  assumes "line_codec ser de" and "transcript_is ser root sid fs vs"
  shows "read_all de root sid fs = Inr vs"
  using assms(2) by (auto simp: read_all_def read_lines_holds [OF assms(1)] elim!: transcript_isD)

lemma paginate_transcript:
  assumes "line_codec ser de" and "transcript_is ser root sid fs vs"
  shows "paginate de root sid None requested fs = Inr (page_of None (page_limit True requested) vs)"
    and "n < 2 ^ 64 \<Longrightarrow> paginate de root sid (Some (show_nat n)) requested fs
      = Inr (page_of (Some n) (page_limit False requested) vs)"
  using assms(2)
  by (auto simp: paginate_def parse_cursor_def read_lines_holds [OF assms(1)] elim!: transcript_isD)

lemma page_limit_pos: "requested \<noteq> Some 0 \<Longrightarrow> 0 < page_limit b requested"
  by (cases requested) (auto simp: page_limit_def initial_history_limit_def older_history_limit_def max_history_limit_def)

lemma patch_start_le: "patch_start known last_matched existing \<le> length existing"
  using rposition_SomeD(1) [of "\<lambda>m. message_id_of m = Some (the last_matched)" existing]
  by (cases last_matched) (auto simp: patch_start_def Let_def Suc_le_eq split: option.splits)

lemma merge_patch_for:
  "merge_patch (patch_for known last_matched existing canonical) existing
    = take (patch_start known last_matched existing) existing @ drop (patch_start known last_matched existing) canonical"
  using patch_start_le [of known last_matched existing]
  by (simp add: merge_patch_def patch_for_def Let_def min_def)

lemma temp_neq: "with_extension path ''jsonl.tmp'' \<noteq> path"
  by (rule with_extension_neq) simp

lemma apply_patch_transcript:
  assumes "line_codec ser de" and "transcript_is ser root sid fs vs"
  shows "\<exists>fs' r. apply_patch ser de outcome root sid patch fs = (fs', r)
    \<and> transcript_is ser root sid fs' (if outcome = Written then merge_patch patch vs else vs)
    \<and> (r = Inr () \<longleftrightarrow> outcome = Written)"
proof -
  obtain path where path: "path_for root sid = Inr path" "file_holds ser (fs path) vs"
    using assms(2) by (rule transcript_isD)
  show ?thesis
    using path temp_neq [of path]
    by (cases outcome)
      (simp_all add: apply_patch_def read_lines_holds [OF assms(1)] transcript_is_def Let_def)
qed

section \<open>Reading the whole history\<close>

text \<open>
  The client's way through the history: the newest page first, then the page before it, by the
  cursor of each page; \<open>None\<close> when the fuel is used up or a page is an error.
\<close>

fun all_pages ::
  "(string \<Rightarrow> 'v option) \<Rightarrow> string \<Rightarrow> string \<Rightarrow> nat option \<Rightarrow> disk \<Rightarrow> nat \<Rightarrow> string option \<Rightarrow> 'v list option"
where
  "all_pages de root sid requested fs 0 before = None"
| "all_pages de root sid requested fs (Suc fuel) before =
     (case paginate de root sid before requested fs of
        Inl _ \<Rightarrow> None
      | Inr page \<Rightarrow>
          (case pg_next_cursor page of
             None \<Rightarrow> Some (pg_messages page)
           | Some cursor \<Rightarrow>
               map_option (\<lambda>older. older @ pg_messages page) (all_pages de root sid requested fs fuel (Some cursor))))"

lemma all_pages_before:
  assumes codec: "line_codec ser de" and vs: "transcript_is ser root sid fs vs" and "requested \<noteq> Some 0"
    and "length vs < 2 ^ 64" and "n \<le> length vs" and "n < fuel"
  shows "all_pages de root sid requested fs fuel (Some (show_nat n)) = Some (take n vs)"
  using assms(5,6)
proof (induction fuel arbitrary: n)
  case 0
  then show ?case by simp
next
  case (Suc fuel)
  let ?l = "page_limit False requested"
  have l: "0 < ?l" by (rule page_limit_pos [OF assms(3)])
  have n: "n < 2 ^ 64" using Suc.prems(1) assms(4) by linarith
  have page: "paginate de root sid (Some (show_nat n)) requested fs = Inr (page_of (Some n) ?l vs)"
    by (rule paginate_transcript(2) [OF codec vs n])
  show ?case
  proof (cases "n - ?l = 0")
    case True
    then show ?thesis using Suc.prems(1) page by (simp add: page_of_def Let_def)
  next
    case False
    then have "all_pages de root sid requested fs fuel (Some (show_nat (n - ?l))) = Some (take (n - ?l) vs)"
      using Suc.prems l by (intro Suc.IH) linarith+
    moreover have "take (n - ?l) vs @ drop (n - ?l) (take n vs) = take n vs"
      by (metis append_take_drop_id diff_le_self min.absorb1 take_take)
    ultimately show ?thesis using False Suc.prems(1) page by (simp add: page_of_def Let_def)
  qed
qed

section \<open>A concrete codec for messages\<close>

text \<open>Messages of the witnesses: an object with an id and a text.\<close>

definition sample_message :: "string \<Rightarrow> string \<Rightarrow> json" where
  "sample_message i t = JObject [(''messageId'', JString i), (''text'', JString t)]"

lemma sample_message_id [simp]: "message_id_of (sample_message i t) = Some i"
  by (simp add: message_id_of_def sample_message_def)

section \<open>Properties\<close>

text \<open>
  Pagination loses and repeats nothing: following the cursors from the newest page on
  ends after finitely many pages, and the pages put together, oldest first, are exactly the
  transcript.  Any limit but zero may be requested.
\<close>

theorem pagination_complete:
  assumes "line_codec ser de" and "transcript_is ser root sid fs vs" and "requested \<noteq> Some 0"
    and "length vs < 2 ^ 64"
  shows "all_pages de root sid requested fs (length vs + 1) None = Some vs"
proof -
  let ?l = "page_limit True requested"
  have l: "0 < ?l" by (rule page_limit_pos [OF assms(3)])
  have page: "paginate de root sid None requested fs = Inr (page_of None ?l vs)"
    by (rule paginate_transcript(1) [OF assms(1,2)])
  show ?thesis
  proof (cases "length vs - ?l = 0")
    case True
    then show ?thesis using page by (simp add: page_of_def Let_def)
  next
    case False
    then have "all_pages de root sid requested fs (length vs) (Some (show_nat (length vs - ?l)))
        = Some (take (length vs - ?l) vs)"
      using l by (intro all_pages_before [OF assms]) linarith+
    then show ?thesis using False page by (simp add: page_of_def Let_def)
  qed
qed

theorem pagination_complete_witness:
  "all_pages dec_fields ''root'' ''s1'' (Some 2)
      [(''root'', ''s1.jsonl'') \<mapsto> unlines (map enc_fields [[''a''], [''b''], [''c'']])] (length [[''a''], [''b''], [''c'']] + 1) None
    = Some [[''a''], [''b''], [''c'']]"
proof -
  have "transcript_is enc_fields ''root'' ''s1'' [(''root'', ''s1.jsonl'') \<mapsto> unlines (map enc_fields [[''a''], [''b''], [''c'']])]
      [[''a''], [''b''], [''c'']]"
    by (simp add: transcript_is_def path_for_def bad_session_id_def)
  then show ?thesis by (rule pagination_complete [OF fields.line_codec_axioms]) simp_all
qed

text \<open>
  A requested limit of zero is accepted and makes no progress: every page is empty and
  points to its own position, so following the cursors never ends.
\<close>

theorem pagination_limit_zero_never_ends:
  assumes "line_codec ser de" and "transcript_is ser root sid fs vs" and "vs \<noteq> []" and "length vs < 2 ^ 64"
  shows "all_pages de root sid (Some 0) fs fuel None = None
    \<and> paginate de root sid (Some (show_nat (length vs))) (Some 0) fs
        = Inr \<lparr>pg_messages = [], pg_next_cursor = Some (show_nat (length vs)), pg_has_more = True\<rparr>"
proof -
  have zero: "page_limit b (Some 0) = 0" for b by (simp add: page_limit_def)
  have page: "paginate de root sid (Some (show_nat (length vs))) (Some 0) fs
      = Inr \<lparr>pg_messages = [], pg_next_cursor = Some (show_nat (length vs)), pg_has_more = True\<rparr>"
    using paginate_transcript(2) [OF assms(1,2,4), of "Some 0"] assms(3)
    by (simp add: zero page_of_def Let_def)
  have "all_pages de root sid (Some 0) fs fuel (Some (show_nat (length vs))) = None" for fuel
    by (induction fuel) (simp_all add: page)
  then have "all_pages de root sid (Some 0) fs fuel None = None"
    using paginate_transcript(1) [OF assms(1,2), of "Some 0"] assms(3)
    by (cases fuel) (simp_all add: zero page_of_def Let_def)
  with page show ?thesis by blast
qed

theorem pagination_limit_zero_never_ends_witness:
  "all_pages dec_fields ''root'' ''s1'' (Some 0) [(''root'', ''s1.jsonl'') \<mapsto> unlines (map enc_fields [[''a'']])] 100 None = None"
proof -
  have "transcript_is enc_fields ''root'' ''s1'' [(''root'', ''s1.jsonl'') \<mapsto> unlines (map enc_fields [[''a'']])] [[''a'']]"
    by (simp add: transcript_is_def path_for_def bad_session_id_def)
  from pagination_limit_zero_never_ends [OF fields.line_codec_axioms this, of 100] show ?thesis
    by (simp del: all_pages.simps)
qed

text \<open>
  Appending is what reading sees: after an append the transcript of the session is the old
  one followed by the new messages, and the transcripts of the other sessions are unchanged.
\<close>

theorem append_extends_transcript:
  assumes "line_codec ser de" and "transcript_is ser root sid fs vs"
  shows "\<exists>fs'. ts_append ser Appended root sid new fs = (fs', Inr ())
    \<and> read_all de root sid fs' = Inr (vs @ new)
    \<and> (\<forall>sid'. sid' = sid \<or> read_all de root sid' fs' = read_all de root sid' fs)"
proof -
  obtain path where path: "path_for root sid = Inr path" "file_holds ser (fs path) vs"
    using assms(2) by (rule transcript_isD)
  let ?fs' = "fs(path \<mapsto> file_bytes (fs path) @ unlines (map ser new))"
  have "transcript_is ser root sid ?fs' (vs @ new)"
    by (simp add: transcript_is_def path(1) file_bytes_holds [OF path(2)])
  moreover have "sid' = sid \<or> read_all de root sid' ?fs' = read_all de root sid' fs" for sid'
    using path_for_inj [OF path(1), of sid'] by (auto simp: read_all_def split: sum.splits)
  ultimately show ?thesis
    using read_all_transcript [OF assms(1)] by (auto simp: ts_append_def path(1))
qed

theorem append_extends_transcript_witness:
  "\<exists>fs'. ts_append enc_fields Appended ''root'' ''s1'' [[''b'']] [(''root'', ''s1.jsonl'') \<mapsto> unlines (map enc_fields [[''a'']])] = (fs', Inr ())
    \<and> read_all dec_fields ''root'' ''s1'' fs' = Inr [[''a''], [''b'']]"
proof -
  have "transcript_is enc_fields ''root'' ''s1'' [(''root'', ''s1.jsonl'') \<mapsto> unlines (map enc_fields [[''a'']])] [[''a'']]"
    by (simp add: transcript_is_def path_for_def bad_session_id_def)
  from append_extends_transcript [OF fields.line_codec_axioms this, of "[[''b'']]"] show ?thesis by auto
qed

text \<open>
  A sync ends in the backend's history exactly when the part of the transcript that it
  keeps is a prefix of that history: nothing else is checked or repaired.  When the rewrite
  fails, at whatever stage, the transcript is unchanged.
\<close>

theorem sync_reaches_canonical_iff:
  assumes "line_codec ser de" and "transcript_is ser root sid fs existing"
    and "start = patch_start known last_matched existing"
  shows "\<exists>fs' r. sync_transcript ser de outcome root sid known last_matched canonical fs = (fs', r)
    \<and> transcript_is ser root sid fs'
        (if outcome = Written then take start existing @ drop start canonical else existing)
    \<and> (take start existing @ drop start canonical = canonical \<longleftrightarrow> take start existing = take start canonical)"
proof -
  let ?patch = "patch_for known last_matched existing canonical"
  have patch: "patch_against de root sid known last_matched canonical fs = Inr ?patch"
    using read_all_transcript [OF assms(1,2)] by (simp add: patch_against_def)
  obtain fs' r where app: "apply_patch ser de outcome root sid ?patch fs = (fs', r)"
    "transcript_is ser root sid fs' (if outcome = Written then merge_patch ?patch existing else existing)"
    using apply_patch_transcript [OF assms(1,2)] by blast
  have "take start existing @ drop start canonical = canonical \<longleftrightarrow> take start existing = take start canonical"
  proof
    assume eq: "take start existing @ drop start canonical = canonical"
    have len: "length (take start existing) = start"
      using patch_start_le [of known last_matched existing] assms(3) by simp
    have "take start (take start existing @ drop start canonical) = take start existing"
      using len by simp
    with eq show "take start existing = take start canonical" by simp
  next
    assume "take start existing = take start canonical"
    then show "take start existing @ drop start canonical = canonical" by simp
  qed
  moreover have "\<exists>r'. sync_transcript ser de outcome root sid known last_matched canonical fs = (fs', r')"
    by (cases r) (simp_all add: sync_transcript_def patch app(1))
  ultimately show ?thesis
    using app(2) by (auto simp: merge_patch_for assms(3) [symmetric])
qed

theorem sync_reaches_canonical_iff_witness:
  "\<exists>fs' r. sync_transcript ser_json de_json Written ''root'' ''s1'' (Some 1) None [sample_message ''m1'' ''new'']
      [(''root'', ''s1.jsonl'') \<mapsto> unlines (map ser_json [sample_message ''m1'' ''old''])] = (fs', r)
    \<and> transcript_is ser_json ''root'' ''s1'' fs' [sample_message ''m1'' ''old'']"
proof -
  let ?fs = "[(''root'', ''s1.jsonl'') \<mapsto> unlines (map ser_json [sample_message ''m1'' ''old''])]"
  have here: "transcript_is ser_json ''root'' ''s1'' ?fs [sample_message ''m1'' ''old'']"
    by (simp add: transcript_is_def path_for_def bad_session_id_def)
  have start: "1 = patch_start (Some 1) None [sample_message ''m1'' ''old'']" by (simp add: patch_start_def)
  from sync_reaches_canonical_iff [OF json_codec.line_codec_axioms here start, of Written "[sample_message ''m1'' ''new'']"]
  show ?thesis by simp
qed

end
