(* ===== verification/Lifecycle.thy ===== *)
theory Lifecycle
  imports Prelude
begin

text \<open>
  The session limits of the gateway: \<open>acpx-core/src/lifecycle.rs\<close>.  Durations and instants are
  whole nanoseconds; an instant counts from an arbitrary origin, as the monotonic clock does.
\<close>

type_synonym duration = nat

type_synonym instant = nat

definition from_secs :: "nat \<Rightarrow> duration" where "from_secs n = n * 1000000000"

text \<open>\<open>saturating_duration_since\<close>: zero when the second instant is later.\<close>

definition saturating_since :: "instant \<Rightarrow> instant \<Rightarrow> duration" where "saturating_since now earlier = now - earlier"

record lifecycle_config =
  max_sessions_total :: nat
  max_sessions_per_tenant :: nat
  idle_session_ttl :: duration
  unbound_bridge_session_ttl :: duration
  absolute_session_ttl :: "duration option"
  max_pinned_sessions_per_tenant :: "nat option"
  connector_idle_shutdown_ttl :: "duration option"
  active_turn_deadline :: "duration option"
  background_mode :: bool
  startup_recovery_max_age :: "duration option"
  max_new_sessions_per_list_call :: "nat option"

definition default_lifecycle :: lifecycle_config where
  "default_lifecycle =
     \<lparr>max_sessions_total = 128,
      max_sessions_per_tenant = 16,
      idle_session_ttl = from_secs (30 * 60),
      unbound_bridge_session_ttl = from_secs (5 * 60),
      absolute_session_ttl = None,
      max_pinned_sessions_per_tenant = None,
      connector_idle_shutdown_ttl = None,
      active_turn_deadline = None,
      background_mode = False,
      startup_recovery_max_age = Some (from_secs (24 * 60 * 60)),
      max_new_sessions_per_list_call = Some 50\<rparr>"

datatype lifecycle_config_error = ZeroLimit string | ZeroDuration string

definition lifecycle_validate :: "lifecycle_config \<Rightarrow> lifecycle_config_error + unit" where
  "lifecycle_validate c =
     (if max_sessions_total c = 0 then Inl (ZeroLimit ''max_sessions_total'')
      else if max_sessions_per_tenant c = 0 then Inl (ZeroLimit ''max_sessions_per_tenant'')
      else if idle_session_ttl c = 0 then Inl (ZeroDuration ''idle_session_ttl'')
      else if unbound_bridge_session_ttl c = 0 then Inl (ZeroDuration ''unbound_bridge_session_ttl'')
      else if absolute_session_ttl c = Some 0 then Inl (ZeroDuration ''absolute_session_ttl'')
      else if max_pinned_sessions_per_tenant c = Some 0 then Inl (ZeroLimit ''max_pinned_sessions_per_tenant'')
      else if connector_idle_shutdown_ttl c = Some 0 then Inl (ZeroDuration ''connector_idle_shutdown_ttl'')
      else if active_turn_deadline c = Some 0 then Inl (ZeroDuration ''active_turn_deadline'')
      else if startup_recovery_max_age c = Some 0 then Inl (ZeroDuration ''startup_recovery_max_age'')
      else if max_new_sessions_per_list_call c = Some 0 then Inl (ZeroLimit ''max_new_sessions_per_list_call'')
      else Inr ())"

lemma default_lifecycle_valid: "lifecycle_validate default_lifecycle = Inr ()"
  by (simp add: lifecycle_validate_def default_lifecycle_def from_secs_def)

lemma lifecycle_validD:
  assumes "lifecycle_validate c = Inr ()"
  shows "0 < max_sessions_total c" and "0 < max_sessions_per_tenant c" and "0 < idle_session_ttl c"
    and "absolute_session_ttl c \<noteq> Some 0" and "active_turn_deadline c \<noteq> Some 0"
    and "max_pinned_sessions_per_tenant c \<noteq> Some 0"
  using assms by (auto simp: lifecycle_validate_def split: if_splits)

end
