(* ===== verification/SessionRegistry.thy ===== *)
theory SessionRegistry
  imports Lifecycle Nested
begin

text \<open>
  The registry of live sessions: \<open>acpx-core/src/session_registry.rs\<close>, with the permission
  profiles of \<open>profile.rs\<close>.  Sessions are kept per tenant; \<open>Instant::now()\<close> and the fresh
  gateway id of a new session are arguments.
\<close>

section \<open>State\<close>

type_synonym tenant_id = string

definition default_tenant :: tenant_id where "default_tenant = ''default''"

record session_entry =
  agent_id :: string
  backend_session_id :: string
  profile_name :: "string option"
  cwd :: "string option"
  created_at :: instant
  last_activity_at :: instant
  in_flight :: nat
  in_flight_since :: "instant option"
  pinned :: bool
  custom_idle_ttl :: "duration option"
  capacity_counted :: bool

datatype permission_policy = AutoAllow | AutoReject

datatype permission_profile_type = AgentFullAccess | Readonly | NotAllowed

record permission_profile =
  profile_type :: permission_profile_type
  allow_fs_access :: bool
  allow_terminal_access :: bool
  permission_policy :: permission_policy

definition agent_full_access :: permission_profile where
  "agent_full_access =
     \<lparr>profile_type = AgentFullAccess, allow_fs_access = True, allow_terminal_access = True, permission_policy = AutoAllow\<rparr>"

definition readonly_profile :: permission_profile where
  "readonly_profile =
     \<lparr>profile_type = Readonly, allow_fs_access = True, allow_terminal_access = False, permission_policy = AutoReject\<rparr>"

definition not_allowed :: permission_profile where
  "not_allowed =
     \<lparr>profile_type = NotAllowed, allow_fs_access = False, allow_terminal_access = False, permission_policy = AutoReject\<rparr>"

definition builtin_profiles :: "permission_profile list" where
  "builtin_profiles = [agent_full_access, readonly_profile, not_allowed]"

record session_registry =
  sessions :: "(tenant_id \<times> (string \<times> session_entry) list) list"
  permission_profiles :: "(tenant_id \<times> (string \<times> permission_profile) list) list"

definition registry_new :: session_registry where
  "registry_new = \<lparr>sessions = [], permission_profiles = []\<rparr>"

section \<open>Permission profiles\<close>

definition set_permission_profile ::
  "tenant_id \<Rightarrow> string \<Rightarrow> permission_profile \<Rightarrow> session_registry \<Rightarrow> session_registry"
where
  "set_permission_profile t sid profile r =
     r\<lparr>permission_profiles := nested_insert t sid profile (permission_profiles r)\<rparr>"

definition permission_profile_of :: "tenant_id \<Rightarrow> string \<Rightarrow> session_registry \<Rightarrow> permission_profile option" where
  "permission_profile_of t sid r = nested_get (permission_profiles r) t sid"

definition clear_permission_profile :: "tenant_id \<Rightarrow> string \<Rightarrow> session_registry \<Rightarrow> session_registry" where
  "clear_permission_profile t sid r =
     (case map_of (permission_profiles r) t of
        None \<Rightarrow> r
      | Some profiles \<Rightarrow>
          (let profiles' = AList.delete sid profiles
           in r\<lparr>permission_profiles :=
                  (if profiles' = [] then AList.delete t (permission_profiles r)
                   else AList.update t profiles' (permission_profiles r))\<rparr>))"

section \<open>Registration and lookup\<close>

definition new_entry :: "instant \<Rightarrow> string \<Rightarrow> string \<Rightarrow> string option \<Rightarrow> string option \<Rightarrow> session_entry" where
  "new_entry now agent backend profile dir =
     \<lparr>agent_id = agent, backend_session_id = backend, profile_name = profile, cwd = dir,
      created_at = now, last_activity_at = now, in_flight = 0, in_flight_since = None,
      pinned = False, custom_idle_ttl = None, capacity_counted = True\<rparr>"

definition reg_insert :: "tenant_id \<Rightarrow> string \<Rightarrow> session_entry \<Rightarrow> session_registry \<Rightarrow> session_registry" where
  "reg_insert t sid entry r = r\<lparr>sessions := nested_insert t sid entry (sessions r)\<rparr>"

definition register_with_id ::
  "instant \<Rightarrow> tenant_id \<Rightarrow> string \<Rightarrow> string \<Rightarrow> string \<Rightarrow> string option \<Rightarrow> string option \<Rightarrow> session_registry \<Rightarrow>
   session_registry"
where
  "register_with_id now t sid agent backend profile dir r =
     reg_insert t sid (new_entry now agent backend profile dir) r"

definition reg_resolve :: "tenant_id \<Rightarrow> string \<Rightarrow> session_registry \<Rightarrow> session_entry option" where
  "reg_resolve t sid r = nested_get (sessions r) t sid"

text \<open>A mutation of an entry in place; it answers whether the session exists.\<close>

definition update_session ::
  "tenant_id \<Rightarrow> string \<Rightarrow> (session_entry \<Rightarrow> session_entry) \<Rightarrow> session_registry \<Rightarrow> session_registry \<times> bool"
where
  "update_session t sid f r =
     (case reg_resolve t sid r of
        None \<Rightarrow> (r, False)
      | Some _ \<Rightarrow> (r\<lparr>sessions := nested_modify t sid f (sessions r)\<rparr>, True))"

definition touch_session :: "instant \<Rightarrow> tenant_id \<Rightarrow> string \<Rightarrow> session_registry \<Rightarrow> session_registry \<times> bool" where
  "touch_session now t sid = update_session t sid (\<lambda>e. e\<lparr>last_activity_at := now\<rparr>)"

definition entry_in_flight :: "instant \<Rightarrow> nat \<Rightarrow> session_entry \<Rightarrow> session_entry" where
  "entry_in_flight now n e =
     (let was_idle = in_flight e = 0;
          e' = e\<lparr>in_flight := n\<rparr>
      in if n = 0 then e'\<lparr>last_activity_at := now, in_flight_since := None\<rparr>
         else if was_idle then e'\<lparr>in_flight_since := Some now\<rparr>
         else e')"

definition set_in_flight ::
  "instant \<Rightarrow> tenant_id \<Rightarrow> string \<Rightarrow> nat \<Rightarrow> session_registry \<Rightarrow> session_registry \<times> bool"
where
  "set_in_flight now t sid n = update_session t sid (entry_in_flight now n)"

definition set_pinned :: "instant \<Rightarrow> tenant_id \<Rightarrow> string \<Rightarrow> bool \<Rightarrow> session_registry \<Rightarrow> session_registry \<times> bool" where
  "set_pinned now t sid b = update_session t sid (\<lambda>e. e\<lparr>pinned := b, last_activity_at := now\<rparr>)"

definition set_custom_ttl ::
  "tenant_id \<Rightarrow> string \<Rightarrow> duration option \<Rightarrow> session_registry \<Rightarrow> session_registry \<times> bool"
where
  "set_custom_ttl t sid ttl = update_session t sid (\<lambda>e. e\<lparr>custom_idle_ttl := ttl\<rparr>)"

definition reg_remove :: "tenant_id \<Rightarrow> string \<Rightarrow> session_registry \<Rightarrow> session_registry \<times> session_entry option" where
  "reg_remove t sid r =
     (case map_of (sessions r) t of
        None \<Rightarrow> (r, None)
      | Some inner \<Rightarrow>
          (let inner' = AList.delete sid inner
           in (r\<lparr>sessions :=
                   (if inner' = [] \<and> t \<noteq> default_tenant then AList.delete t (sessions r)
                    else AList.update t inner' (sessions r))\<rparr>,
               map_of inner sid)))"

section \<open>Counts and lists\<close>

definition pinned_count :: "tenant_id \<Rightarrow> session_registry \<Rightarrow> nat" where
  "pinned_count t r = count_vals pinned (inner_map (sessions r) t)"

definition list_for_tenant :: "tenant_id \<Rightarrow> session_registry \<Rightarrow> (string \<times> session_entry) list" where
  "list_for_tenant t r = inner_map (sessions r) t"

definition count_by_agent_id :: "string \<Rightarrow> session_registry \<Rightarrow> nat" where
  "count_by_agent_id key r = sum_list (map (\<lambda>(t, kvs). count_vals (\<lambda>e. agent_id e = key) kvs) (sessions r))"

definition tenant_count :: "session_registry \<Rightarrow> nat" where "tenant_count r = length (sessions r)"

definition reg_len :: "session_registry \<Rightarrow> nat" where
  "reg_len r = sum_list (map (\<lambda>(t, kvs). length kvs) (sessions r))"

definition reg_is_empty :: "session_registry \<Rightarrow> bool" where
  "reg_is_empty r = list_all (\<lambda>(t, kvs). kvs = []) (sessions r)"

definition len_for_tenant :: "tenant_id \<Rightarrow> session_registry \<Rightarrow> nat" where
  "len_for_tenant t r = length (inner_map (sessions r) t)"

section \<open>Reaping\<close>

definition is_expired :: "instant \<Rightarrow> lifecycle_config \<Rightarrow> session_entry \<Rightarrow> bool" where
  "is_expired now lc e =
     (if pinned e \<or> in_flight e \<noteq> 0 then False
      else (let idle = saturating_since now (last_activity_at e);
                effective_idle_ttl = (case custom_idle_ttl e of Some ttl \<Rightarrow> ttl | None \<Rightarrow> idle_session_ttl lc);
                absolute = (case absolute_session_ttl lc of
                              None \<Rightarrow> False
                            | Some ttl \<Rightarrow> ttl \<le> saturating_since now (created_at e))
            in effective_idle_ttl \<le> idle \<or> absolute))"

definition reap_candidates :: "instant \<Rightarrow> lifecycle_config \<Rightarrow> session_registry \<Rightarrow> (tenant_id \<times> string) list" where
  "reap_candidates now lc r =
     map (\<lambda>(t, sid, e). (t, sid)) (filter (\<lambda>(t, sid, e). is_expired now lc e) (nested_entries (sessions r)))"

definition is_stuck :: "instant \<Rightarrow> duration \<Rightarrow> session_entry \<Rightarrow> bool" where
  "is_stuck now deadline e =
     (case in_flight_since e of
        None \<Rightarrow> False
      | Some since \<Rightarrow> if in_flight e = 0 then False else deadline \<le> saturating_since now since)"

definition stuck_in_flight_candidates ::
  "instant \<Rightarrow> lifecycle_config \<Rightarrow> session_registry \<Rightarrow> (tenant_id \<times> string) list"
where
  "stuck_in_flight_candidates now lc r =
     (case active_turn_deadline lc of
        None \<Rightarrow> []
      | Some deadline \<Rightarrow>
          map (\<lambda>(t, sid, e). (t, sid)) (filter (\<lambda>(t, sid, e). is_stuck now deadline e) (nested_entries (sessions r))))"

section \<open>Reverse lookup\<close>

definition owns_backend :: "string \<Rightarrow> string \<Rightarrow> session_entry \<Rightarrow> bool" where
  "owns_backend agent backend e \<longleftrightarrow> agent_id e = agent \<and> backend_session_id e = backend"

definition find_by_backend :: "tenant_id \<Rightarrow> string \<Rightarrow> string \<Rightarrow> session_registry \<Rightarrow> string option" where
  "find_by_backend t agent backend r =
     (case map_of (sessions r) t of
        None \<Rightarrow> None
      | Some inner \<Rightarrow> map_option fst (find (\<lambda>(sid, e). owns_backend agent backend e) inner))"

definition find_owner :: "string \<Rightarrow> string \<Rightarrow> session_registry \<Rightarrow> tenant_id option" where
  "find_owner agent backend r =
     map_option fst (find (\<lambda>(t, inner). list_ex (\<lambda>(sid, e). owns_backend agent backend e) inner) (sessions r))"

definition find_by_backend_any_tenant :: "string \<Rightarrow> string \<Rightarrow> session_registry \<Rightarrow> (tenant_id \<times> string) option" where
  "find_by_backend_any_tenant agent backend r =
     map_option (\<lambda>(t, sid, e). (t, sid))
       (find (\<lambda>(t, sid, e). owns_backend agent backend e) (nested_entries (sessions r)))"

section \<open>The invariant\<close>

definition entry_ok :: "session_entry \<Rightarrow> bool" where
  "entry_ok e \<longleftrightarrow> (in_flight e = 0 \<longleftrightarrow> in_flight_since e = None)"

text \<open>
  Keys are unique, the start of a turn is recorded exactly while one is running, and only the
  default tenant may be left without sessions.
\<close>

definition registry_ok :: "session_registry \<Rightarrow> bool" where
  "registry_ok r \<longleftrightarrow>
     nested_ok (sessions r) \<and> nested_ok (permission_profiles r) \<and>
     (\<forall>t sid e. reg_resolve t sid r = Some e \<longrightarrow> entry_ok e) \<and>
     (\<forall>t. map_of (sessions r) t = Some [] \<longrightarrow> t = default_tenant) \<and>
     (\<forall>t. map_of (permission_profiles r) t \<noteq> Some [])"

lemma registry_okD:
  assumes "registry_ok r"
  shows "nested_ok (sessions r)" and "nested_ok (permission_profiles r)"
    and "reg_resolve t sid r = Some e \<Longrightarrow> entry_ok e"
    and "map_of (sessions r) t = Some [] \<Longrightarrow> t = default_tenant"
  using assms by (auto simp: registry_ok_def)

text \<open>What each operation does to the lookup.\<close>

lemma resolve_insert [simp]:
  "reg_resolve t' sid' (reg_insert t sid e r) = (if t' = t \<and> sid' = sid then Some e else reg_resolve t' sid' r)"
  by (simp add: reg_resolve_def reg_insert_def)

lemma resolve_update [simp]:
  "reg_resolve t' sid' (fst (update_session t sid f r))
    = (if t' = t \<and> sid' = sid then map_option f (reg_resolve t sid r) else reg_resolve t' sid' r)"
  by (auto simp: update_session_def reg_resolve_def split: option.splits)

lemma resolve_remove [simp]:
  "reg_resolve t' sid' (fst (reg_remove t sid r)) = (if t' = t \<and> sid' = sid then None else reg_resolve t' sid' r)"
proof (cases "map_of (sessions r) t")
  case None
  then show ?thesis by (simp add: reg_remove_def reg_resolve_def nested_get_def)
next
  case (Some inner)
  have "map_of inner sid' = None" if "AList.delete sid inner = []" "sid' \<noteq> sid" for sid'
    using map_of_delete [OF that(2), of inner] that(1) by simp
  then show ?thesis using Some
    by (auto simp: reg_remove_def reg_resolve_def nested_get_def Let_def update_conv' delete_conv')
qed

lemma removed_entry [simp]: "snd (reg_remove t sid r) = reg_resolve t sid r"
  by (simp add: reg_remove_def reg_resolve_def nested_get_def Let_def split: option.splits)

lemma inner_remove [simp]:
  "inner_map (sessions (fst (reg_remove t sid r))) t'
    = (if t' = t then AList.delete sid (inner_map (sessions r) t) else inner_map (sessions r) t')"
proof (cases "map_of (sessions r) t")
  case None
  then show ?thesis by (simp add: reg_remove_def inner_map_def)
next
  case (Some inner)
  then have "inner_map (sessions r) t = inner" by (simp add: inner_map_def)
  with Some show ?thesis by (simp add: reg_remove_def Let_def)
qed

lemma inner_insert [simp]:
  "inner_map (sessions (reg_insert t sid e r)) t'
    = (if t' = t then AList.update sid e (inner_map (sessions r) t) else inner_map (sessions r) t')"
  by (simp add: reg_insert_def)

lemma inner_update_session [simp]:
  "inner_map (sessions (fst (update_session t sid f r))) t'
    = (if t' = t then (case reg_resolve t sid r of None \<Rightarrow> inner_map (sessions r) t
                                                 | Some e \<Rightarrow> AList.update sid (f e) (inner_map (sessions r) t))
       else inner_map (sessions r) t')"
  by (auto simp: update_session_def nested_modify_def reg_resolve_def split: option.splits)

lemma sessions_permission [simp]:
  "sessions (set_permission_profile t sid p r) = sessions r"
  "sessions (clear_permission_profile t sid r) = sessions r"
  by (simp_all add: set_permission_profile_def clear_permission_profile_def Let_def split: option.splits)

lemma permission_sessions [simp]:
  "permission_profiles (reg_insert t sid e r) = permission_profiles r"
  "permission_profiles (fst (update_session t sid f r)) = permission_profiles r"
  "permission_profiles (fst (reg_remove t sid r)) = permission_profiles r"
  by (simp_all add: reg_insert_def update_session_def reg_remove_def Let_def split: option.splits)

section \<open>Preservation\<close>

lemma map_of_nested_insert: "map_of (nested_insert t k v m) t' = Some [] \<Longrightarrow> map_of m t' = Some []"
  by (simp add: nested_insert_def update_conv' split: if_splits)

lemma registry_ok_new [simp]: "registry_ok registry_new"
  by (simp add: registry_ok_def registry_new_def reg_resolve_def)

lemma registry_ok_insert:
  assumes "registry_ok r" and "entry_ok e"
  shows "registry_ok (reg_insert t sid e r)"
proof -
  have "map_of (sessions (reg_insert t sid e r)) t' = Some [] \<Longrightarrow> map_of (sessions r) t' = Some []" for t'
    by (simp add: reg_insert_def map_of_nested_insert)
  moreover have "nested_ok (sessions (reg_insert t sid e r))"
    using assms(1) by (simp add: reg_insert_def registry_ok_def)
  ultimately show ?thesis
    using assms unfolding registry_ok_def by (auto split: if_splits)
qed

lemma entry_ok_new [simp]: "entry_ok (new_entry now agent backend profile dir)"
  by (simp add: entry_ok_def new_entry_def)

lemma entry_ok_in_flight: "entry_ok e \<Longrightarrow> entry_ok (entry_in_flight now n e)"
  by (simp add: entry_ok_def entry_in_flight_def Let_def)

lemma registry_ok_update:
  assumes "registry_ok r" and "\<And>e. entry_ok e \<Longrightarrow> entry_ok (f e)"
  shows "registry_ok (fst (update_session t sid f r))"
proof -
  let ?r' = "fst (update_session t sid f r)"
  have "map_of (sessions ?r') t' = Some [] \<Longrightarrow> map_of (sessions r) t' = Some []" for t'
    by (auto simp: update_session_def nested_modify_def split: option.splits dest: map_of_nested_insert)
  moreover have "nested_ok (sessions ?r')"
    using assms(1) by (simp add: update_session_def registry_ok_def split: option.splits)
  moreover have "entry_ok e" if "reg_resolve t' sid' ?r' = Some e" for t' sid' e
    using that assms by (auto simp: registry_ok_def split: if_splits)
  ultimately show ?thesis
    using assms(1) unfolding registry_ok_def by auto
qed

lemma registry_ok_remove:
  assumes "registry_ok r"
  shows "registry_ok (fst (reg_remove t sid r))"
proof -
  let ?r' = "fst (reg_remove t sid r)"
  have ok: "nested_ok (sessions r)" by (rule registry_okD(1) [OF assms])
  have empty: "t' = default_tenant" if "map_of (sessions ?r') t' = Some []" for t'
    using that assms
    by (auto simp: reg_remove_def registry_ok_def Let_def update_conv' delete_conv' split: option.splits if_splits)
  have "distinct (map fst (AList.delete sid inner))" if "map_of (sessions r) t = Some inner" for inner
    using nested_ok_inner [OF ok, of t] that by (simp add: inner_map_def distinct_delete)
  then have "nested_ok (sessions ?r')"
    using ok by (auto simp: reg_remove_def Let_def nested_ok_delete nested_ok_update split: option.splits)
  moreover have "entry_ok e" if "reg_resolve t' sid' ?r' = Some e" for t' sid' e
    using that assms by (auto simp: registry_ok_def split: if_splits)
  ultimately show ?thesis
    using assms empty unfolding registry_ok_def by auto
qed

lemma registry_ok_set_permission: "registry_ok r \<Longrightarrow> registry_ok (set_permission_profile t sid p r)"
  unfolding registry_ok_def
  by (auto simp: reg_resolve_def set_permission_profile_def dest: map_of_nested_insert)

lemma registry_ok_clear_permission:
  assumes "registry_ok r"
  shows "registry_ok (clear_permission_profile t sid r)"
proof (cases "map_of (permission_profiles r) t")
  case None
  then show ?thesis using assms by (simp add: clear_permission_profile_def)
next
  case (Some profiles)
  let ?r' = "clear_permission_profile t sid r"
  have ok: "nested_ok (permission_profiles r)" by (rule registry_okD(2) [OF assms])
  have "distinct (map fst (AList.delete sid profiles))"
    using nested_ok_inner [OF ok, of t] Some by (simp add: inner_map_def distinct_delete)
  then have "nested_ok (permission_profiles ?r')"
    using ok Some by (simp add: clear_permission_profile_def Let_def nested_ok_delete nested_ok_update)
  moreover have "map_of (permission_profiles ?r') t' \<noteq> Some []" for t'
    using assms Some by (simp add: clear_permission_profile_def Let_def registry_ok_def update_conv' delete_conv')
  moreover have "reg_resolve t' sid' ?r' = reg_resolve t' sid' r" for t' sid'
    by (simp add: reg_resolve_def)
  ultimately show ?thesis
    using assms unfolding registry_ok_def by simp
qed

section \<open>Reachable registries\<close>

text \<open>A step of the registry, labelled with the tenant that the caller passes.\<close>

inductive registry_step :: "tenant_id \<Rightarrow> session_registry \<Rightarrow> session_registry \<Rightarrow> bool" where
  StepRegister: "registry_step t r (register_with_id now t sid agent backend profile dir r)"
| StepInsert: "entry_ok e \<Longrightarrow> registry_step t r (reg_insert t sid e r)"
| StepTouch: "registry_step t r (fst (touch_session now t sid r))"
| StepInFlight: "registry_step t r (fst (set_in_flight now t sid n r))"
| StepPinned: "registry_step t r (fst (set_pinned now t sid b r))"
| StepTtl: "registry_step t r (fst (set_custom_ttl t sid ttl r))"
| StepCounted: "registry_step t r (fst (update_session t sid (\<lambda>e. e\<lparr>capacity_counted := b\<rparr>) r))"
| StepRemove: "registry_step t r (fst (reg_remove t sid r))"
| StepSetPermission: "registry_step t r (set_permission_profile t sid profile r)"
| StepClearPermission: "registry_step t r (clear_permission_profile t sid r)"

inductive registry_reachable :: "session_registry \<Rightarrow> bool" where
  ReachNew: "registry_reachable registry_new"
| ReachStep: "registry_reachable r \<Longrightarrow> registry_step t r r' \<Longrightarrow> registry_reachable r'"

lemma registry_ok_step:
  assumes "registry_step t r r'" and "registry_ok r"
  shows "registry_ok r'"
  using assms
proof (induction rule: registry_step.induct)
  case StepRegister
  then show ?case by (simp add: register_with_id_def registry_ok_insert)
next
  case StepInFlight
  then show ?case by (auto simp: set_in_flight_def intro!: registry_ok_update entry_ok_in_flight)
qed (auto simp: touch_session_def set_pinned_def set_custom_ttl_def entry_ok_def registry_ok_insert registry_ok_remove
    registry_ok_set_permission registry_ok_clear_permission intro!: registry_ok_update)

lemma registry_reachable_ok: "registry_reachable r \<Longrightarrow> registry_ok r"
  by (induction rule: registry_reachable.induct) (auto intro: registry_ok_step)

lemma inner_map_other:
  assumes "registry_step t r r'" and "t' \<noteq> t"
  shows "inner_map (sessions r') t' = inner_map (sessions r) t'"
  using assms
  by (induction rule: registry_step.induct)
    (simp_all add: register_with_id_def touch_session_def set_in_flight_def set_pinned_def set_custom_ttl_def)

lemma inner_permission_other:
  assumes "registry_step t r r'" and "t' \<noteq> t"
  shows "inner_map (permission_profiles r') t' = inner_map (permission_profiles r) t'"
  using assms
  by (induction rule: registry_step.induct)
    (auto simp: register_with_id_def touch_session_def set_in_flight_def set_pinned_def set_custom_ttl_def
      set_permission_profile_def clear_permission_profile_def Let_def split: option.splits)

section \<open>Lookups and candidates\<close>

lemma find_by_backend_inner:
  "find_by_backend t agent backend r
    = map_option fst (find (\<lambda>(sid, e). owns_backend agent backend e) (inner_map (sessions r) t))"
  by (simp add: find_by_backend_def inner_map_def split: option.splits)

lemma find_by_backend_Some:
  assumes "registry_ok r" and "find_by_backend t agent backend r = Some sid"
  shows "\<exists>e. reg_resolve t sid r = Some e \<and> owns_backend agent backend e"
proof -
  obtain e where "(sid, e) \<in> set (inner_map (sessions r) t)" "owns_backend agent backend e"
    using assms(2) by (auto simp: find_by_backend_inner dest!: find_SomeD)
  then show ?thesis
    using nested_ok_inner [OF registry_okD(1) [OF assms(1)], of t]
    by (auto simp: reg_resolve_def nested_get_inner)
qed

lemma find_by_backend_None:
  "find_by_backend t agent backend r = None \<Longrightarrow> reg_resolve t sid r = Some e \<Longrightarrow> \<not> owns_backend agent backend e"
  by (auto simp: find_by_backend_inner find_None_iff reg_resolve_def nested_get_inner dest!: map_of_SomeD)

lemma find_owner_Some:
  assumes "registry_ok r" and "find_owner agent backend r = Some t"
  shows "\<exists>sid e. reg_resolve t sid r = Some e \<and> owns_backend agent backend e"
proof -
  obtain inner sid e where "(t, inner) \<in> set (sessions r)" "(sid, e) \<in> set inner" "owns_backend agent backend e"
    using assms(2) by (auto simp: find_owner_def list_ex_iff dest!: find_SomeD)
  then have "map_of (sessions r) t = Some inner" "map_of inner sid = Some e"
    using registry_okD(1) [OF assms(1)] by (auto simp: nested_ok_def)
  then show ?thesis using \<open>owns_backend agent backend e\<close> by (auto simp: reg_resolve_def nested_get_def)
qed

lemma find_owner_None:
  assumes "find_owner agent backend r = None" and "reg_resolve t sid r = Some e"
  shows "\<not> owns_backend agent backend e"
  using assms
  by (auto simp: find_owner_def find_None_iff list_ex_iff reg_resolve_def nested_get_def split: option.splits
      dest!: map_of_SomeD)

lemma is_expired_iff:
  "is_expired now lc e \<longleftrightarrow> \<not> pinned e \<and> in_flight e = 0 \<and>
    (idle_session_ttl lc \<le> now - last_activity_at e \<and> custom_idle_ttl e = None
     \<or> (\<exists>ttl. custom_idle_ttl e = Some ttl \<and> ttl \<le> now - last_activity_at e)
     \<or> (\<exists>ttl. absolute_session_ttl lc = Some ttl \<and> ttl \<le> now - created_at e))"
  by (cases "custom_idle_ttl e"; cases "absolute_session_ttl lc")
    (simp_all add: is_expired_def saturating_since_def Let_def)

lemma reap_candidates_iff:
  assumes "registry_ok r"
  shows "(t, sid) \<in> set (reap_candidates now lc r) \<longleftrightarrow> (\<exists>e. reg_resolve t sid r = Some e \<and> is_expired now lc e)"
  using nested_entries_get [OF registry_okD(1) [OF assms]]
  by (force simp: reap_candidates_def reg_resolve_def)

lemma stuck_candidates_iff:
  assumes "registry_ok r"
  shows "(t, sid) \<in> set (stuck_in_flight_candidates now lc r) \<longleftrightarrow>
    (\<exists>deadline e. active_turn_deadline lc = Some deadline \<and> reg_resolve t sid r = Some e \<and> is_stuck now deadline e)"
  using nested_entries_get [OF registry_okD(1) [OF assms]]
  by (force simp: stuck_in_flight_candidates_def reg_resolve_def split: option.splits)

lemma reg_len_entries: "reg_len r = length (nested_entries (sessions r))"
  by (simp add: reg_len_def nested_entries_def length_concat o_def case_prod_unfold)

section \<open>Properties\<close>

text \<open>
  The reaper selects exactly the sessions that are unpinned, idle and past their own idle
  limit or the absolute limit; the sessions selected as stuck are others, which are working;
  and a session marked as working is not selected at any later time.
\<close>

theorem reaper_spares_working_sessions:
  assumes "registry_reachable r"
  shows "((t, sid) \<in> set (reap_candidates now lc r) \<longleftrightarrow>
      (\<exists>e. reg_resolve t sid r = Some e \<and> \<not> pinned e \<and> in_flight e = 0 \<and>
        (idle_session_ttl lc \<le> now - last_activity_at e \<and> custom_idle_ttl e = None
         \<or> (\<exists>ttl. custom_idle_ttl e = Some ttl \<and> ttl \<le> now - last_activity_at e)
         \<or> (\<exists>ttl. absolute_session_ttl lc = Some ttl \<and> ttl \<le> now - created_at e))))
    \<and> set (reap_candidates now lc r) \<inter> set (stuck_in_flight_candidates now lc r) = {}
    \<and> (t, sid) \<notin> set (reap_candidates now lc (fst (set_in_flight start t sid (Suc n) r)))"
proof -
  have ok: "registry_ok r" by (rule registry_reachable_ok [OF assms])
  then have ok': "registry_ok (fst (set_in_flight start t sid (Suc n) r))"
    by (auto simp: set_in_flight_def intro!: registry_ok_update entry_ok_in_flight)
  have marked: "(t, sid) \<notin> set (reap_candidates now lc (fst (set_in_flight start t sid (Suc n) r)))"
    unfolding reap_candidates_iff [OF ok']
    by (auto simp: set_in_flight_def is_expired_def entry_in_flight_def Let_def)
  have disjoint: "set (reap_candidates now lc r) \<inter> set (stuck_in_flight_candidates now lc r) = {}"
    by (auto simp: reap_candidates_iff [OF ok] stuck_candidates_iff [OF ok] is_expired_def is_stuck_def
        split: option.splits if_splits)
  have "(t, sid) \<in> set (reap_candidates now lc r) \<longleftrightarrow>
      (\<exists>e. reg_resolve t sid r = Some e \<and> \<not> pinned e \<and> in_flight e = 0 \<and>
        (idle_session_ttl lc \<le> now - last_activity_at e \<and> custom_idle_ttl e = None
         \<or> (\<exists>ttl. custom_idle_ttl e = Some ttl \<and> ttl \<le> now - last_activity_at e)
         \<or> (\<exists>ttl. absolute_session_ttl lc = Some ttl \<and> ttl \<le> now - created_at e)))"
    by (simp only: reap_candidates_iff [OF ok] is_expired_iff)
  with disjoint marked show ?thesis by (intro conjI)
qed

definition sample_registry :: session_registry where
  "sample_registry = register_with_id 5 ''acme'' ''g1'' ''codex'' ''b1'' None None registry_new"

lemma sample_registry_reachable: "registry_reachable sample_registry"
  unfolding sample_registry_def by (rule ReachStep [OF ReachNew StepRegister])

lemma sample_registry_resolve [simp]:
  "reg_resolve ''acme'' ''g1'' sample_registry = Some (new_entry 5 ''codex'' ''b1'' None None)"
  by (simp add: sample_registry_def register_with_id_def)

theorem reaper_spares_working_sessions_witness:
  "(''acme'', ''g1'') \<in> set (reap_candidates (from_secs 3600) default_lifecycle sample_registry)
    \<and> (''acme'', ''g1'') \<notin> set (reap_candidates (from_secs 9000) default_lifecycle
        (fst (set_in_flight 6 ''acme'' ''g1'' (Suc 0) sample_registry)))"
proof
  from reaper_spares_working_sessions [OF sample_registry_reachable, of "''acme''" "''g1''" "from_secs 3600" default_lifecycle]
  show "(''acme'', ''g1'') \<in> set (reap_candidates (from_secs 3600) default_lifecycle sample_registry)"
    by (simp add: new_entry_def default_lifecycle_def from_secs_def)
  show "(''acme'', ''g1'') \<notin> set (reap_candidates (from_secs 9000) default_lifecycle
      (fst (set_in_flight 6 ''acme'' ''g1'' (Suc 0) sample_registry)))"
    using reaper_spares_working_sessions [OF sample_registry_reachable] by blast
qed

text \<open>
  Tenants do not see each other: no operation made for one tenant changes what any other
  tenant can list, resolve, look up by backend id or read as permission profile.
\<close>

theorem registry_tenant_isolation:
  assumes "registry_step t r r'" and "t' \<noteq> t"
  shows "list_for_tenant t' r' = list_for_tenant t' r
    \<and> reg_resolve t' sid r' = reg_resolve t' sid r
    \<and> find_by_backend t' agent backend r' = find_by_backend t' agent backend r
    \<and> pinned_count t' r' = pinned_count t' r
    \<and> permission_profile_of t' sid r' = permission_profile_of t' sid r"
  using inner_map_other [OF assms] inner_permission_other [OF assms]
  by (simp_all add: list_for_tenant_def reg_resolve_def find_by_backend_inner pinned_count_def
      permission_profile_of_def nested_get_inner)

theorem registry_tenant_isolation_witness:
  "list_for_tenant ''acme'' (fst (reg_remove ''other'' ''g1'' sample_registry)) = list_for_tenant ''acme'' sample_registry"
  by (rule registry_tenant_isolation [THEN conjunct1, OF StepRemove]) simp

text \<open>
  A caller that invents tenant names cannot make the registry grow: at any time there is at
  most one more tenant than there are live sessions.
\<close>

lemma tenants_le_sessions:
  assumes "distinct (map fst m)" and "\<forall>(t, kvs)\<in>set m. kvs = [] \<longrightarrow> t = d"
  shows "length m \<le> sum_list (map (\<lambda>(t, kvs). length kvs) m) + (if d \<in> fst ` set m then 1 else 0)"
  using assms
proof (induction m)
  case (Cons p m)
  obtain t kvs where p: "p = (t, kvs)" by (cases p)
  have "length m \<le> sum_list (map (\<lambda>(t, kvs). length kvs) m) + (if d \<in> fst ` set m then 1 else 0)"
    using Cons by simp
  moreover have "kvs = [] \<Longrightarrow> t = d \<and> d \<notin> fst ` set m" using Cons.prems p by auto
  ultimately show ?case by (cases "kvs = []") (auto simp: p Suc_le_eq split: if_splits simp flip: length_greater_0_conv)
qed simp

theorem tenant_namespaces_bounded:
  assumes "registry_reachable r"
  shows "tenant_count r \<le> reg_len r + 1"
proof -
  have ok: "registry_ok r" by (rule registry_reachable_ok [OF assms])
  then have "\<forall>(t, kvs)\<in>set (sessions r). kvs = [] \<longrightarrow> t = default_tenant"
    using registry_okD(1) [OF ok] registry_okD(4) [OF ok] by (auto simp: nested_ok_def)
  then have "length (sessions r) \<le> sum_list (map (\<lambda>(t, kvs). length kvs) (sessions r))
      + (if default_tenant \<in> fst ` set (sessions r) then 1 else 0)"
    using registry_okD(1) [OF ok] by (intro tenants_le_sessions) (auto simp: nested_ok_def)
  then show ?thesis by (simp add: tenant_count_def reg_len_def split: if_splits)
qed

theorem tenant_namespaces_bounded_witness: "tenant_count sample_registry \<le> reg_len sample_registry + 1"
  by (rule tenant_namespaces_bounded [OF sample_registry_reachable])

text \<open>
  The count of running calls is only ever set to one and to zero, so it does not count: when a
  second call on the same session (a change of mode during a prompt) ends, the session is idle
  for the reaper although the first call still runs, and it is reaped after the idle limit.
\<close>

theorem overlapping_calls_are_reaped:
  assumes "registry_reachable r" and "reg_resolve t sid r = Some e" and "\<not> pinned e"
    and "custom_idle_ttl e = None" and "finished + idle_session_ttl lc \<le> now"
  shows "(t, sid) \<in> set (reap_candidates now lc
      (fst (set_in_flight finished t sid 0 (fst (set_in_flight second t sid 1 (fst (set_in_flight first t sid 1 r)))))))"
proof -
  let ?r = "fst (set_in_flight finished t sid 0 (fst (set_in_flight second t sid 1 (fst (set_in_flight first t sid 1 r)))))"
  have "registry_reachable ?r"
    by (intro ReachStep [OF _ StepInFlight] assms(1))
  moreover have "reg_resolve t sid ?r = Some (entry_in_flight finished 0 (entry_in_flight second 1 (entry_in_flight first 1 e)))"
    using assms(2) by (simp add: set_in_flight_def)
  moreover have "idle_session_ttl lc \<le> now - finished" using assms(5) by simp
  ultimately show ?thesis
    using assms(3,4)
    by (simp add: reap_candidates_iff registry_reachable_ok is_expired_iff entry_in_flight_def Let_def)
qed

theorem overlapping_calls_are_reaped_witness:
  "(''acme'', ''g1'') \<in> set (reap_candidates (from_secs 3600) default_lifecycle
      (fst (set_in_flight 8 ''acme'' ''g1'' 0 (fst (set_in_flight 7 ''acme'' ''g1'' 1
        (fst (set_in_flight 6 ''acme'' ''g1'' 1 sample_registry)))))))"
  by (rule overlapping_calls_are_reaped [OF sample_registry_reachable sample_registry_resolve])
    (simp_all add: new_entry_def default_lifecycle_def from_secs_def)

end
