(* ===== verification/Admission.thy ===== *)
theory Admission
  imports SessionRegistry
begin

text \<open>
  The admission counters of the gateway: \<open>AdmissionState\<close> in \<open>acpx-core/src/router.rs\<close>.  A
  session first reserves a slot; the reservation is turned into a live session or given back.
  An operation that panics (a debug assertion, or the lookup of a tenant that must exist) is
  \<open>None\<close>.
\<close>

section \<open>The interface\<close>

text \<open>
  What the router relies on: the counters of a tenant, the operations, and the two limits.
\<close>

locale slot_ledger =
  fixes ledger_ok :: "'s \<Rightarrow> bool"
    and live reserved :: "'s \<Rightarrow> 'k \<Rightarrow> nat"
    and take give_back fill free :: "'k \<Rightarrow> 's \<Rightarrow> 's option"
    and total_limit key_limit :: nat
  assumes take_some: "ledger_ok s \<Longrightarrow> take k s = Some s' \<Longrightarrow>
      ledger_ok s' \<and> live s' = live s \<and> reserved s' = (reserved s)(k := reserved s k + 1)"
    and give_back_some: "ledger_ok s \<Longrightarrow> 0 < reserved s k \<Longrightarrow>
      \<exists>s'. give_back k s = Some s' \<and> ledger_ok s' \<and> live s' = live s \<and> reserved s' = (reserved s)(k := reserved s k - 1)"
    and fill_some: "ledger_ok s \<Longrightarrow> 0 < reserved s k \<Longrightarrow>
      \<exists>s'. fill k s = Some s' \<and> ledger_ok s' \<and> live s' = (live s)(k := live s k + 1)
        \<and> reserved s' = (reserved s)(k := reserved s k - 1)"
    and free_some: "ledger_ok s \<Longrightarrow> 0 < live s k \<Longrightarrow>
      \<exists>s'. free k s = Some s' \<and> ledger_ok s' \<and> live s' = (live s)(k := live s k - 1) \<and> reserved s' = reserved s"
    and free_none: "ledger_ok s \<Longrightarrow> live s k = 0 \<Longrightarrow> free k s = None"
    and key_bound: "ledger_ok s \<Longrightarrow> live s k + reserved s k \<le> key_limit"
    and total_bound: "ledger_ok s \<Longrightarrow> finite A \<Longrightarrow> (\<Sum>k\<in>A. live s k + reserved s k) \<le> total_limit"
begin

text \<open>
  The client's view: \<open>held\<close> is the list of the reservations its requests hold, \<open>members\<close> the
  number of sessions of a tenant that occupy a slot, of which \<open>unfilled\<close> still hold their
  reservation.
\<close>

definition matches :: "'s \<Rightarrow> 'k list \<Rightarrow> ('k \<Rightarrow> nat) \<Rightarrow> ('k \<Rightarrow> nat) \<Rightarrow> bool" where
  "matches s held members unfilled \<longleftrightarrow>
     ledger_ok s \<and> (\<forall>k. reserved s k = count_list held k) \<and> (\<forall>k. members k = live s k + unfilled k)
     \<and> (\<forall>k. unfilled k \<le> count_list held k)"

lemma count_list_remove1: "count_list (remove1 k ks) k' = (if k' = k then count_list ks k - 1 else count_list ks k')"
  by (induction ks) auto

lemma count_list_pos: "0 < count_list ks k \<longleftrightarrow> k \<in> set ks"
  by (metis count_list_0_iff gr0I less_numeral_extra(3))

lemma take_matches:
  assumes "matches s held members unfilled" and "take k s = Some s'"
  shows "matches s' (k # held) members unfilled"
  using assms take_some [of s k s'] by (auto simp: matches_def intro: le_SucI)

lemma give_back_matches:
  assumes "matches s held members unfilled" and "unfilled k < count_list held k"
  shows "\<exists>s'. give_back k s = Some s' \<and> matches s' (remove1 k held) members unfilled"
proof -
  have ok: "ledger_ok s" and res: "reserved s k = count_list held k" using assms(1) by (simp_all add: matches_def)
  then obtain s' where "give_back k s = Some s'" "ledger_ok s'" "live s' = live s"
      "reserved s' = (reserved s)(k := reserved s k - 1)"
    using give_back_some [of s k] assms(2) by auto
  then show ?thesis using assms by (auto simp: matches_def count_list_remove1)
qed

text \<open>A new member that takes over a reservation held for it.\<close>

lemma fill_matches:
  assumes "matches s held members unfilled" and "unfilled k < count_list held k"
  shows "\<exists>s'. fill k s = Some s' \<and> matches s' (remove1 k held) (members(k := members k + 1)) unfilled"
proof -
  have ok: "ledger_ok s" and res: "reserved s k = count_list held k" using assms(1) by (simp_all add: matches_def)
  then obtain s' where "fill k s = Some s'" "ledger_ok s'" "live s' = (live s)(k := live s k + 1)"
      "reserved s' = (reserved s)(k := reserved s k - 1)"
    using fill_some [of s k] assms(2) by auto
  then show ?thesis using assms by (auto simp: matches_def count_list_remove1)
qed

lemma join_matches:
  assumes "matches s held members unfilled" and "unfilled k < count_list held k"
  shows "matches s held (members(k := members k + 1)) (unfilled(k := unfilled k + 1))"
  using assms by (auto simp: matches_def)

lemma settle_matches:
  assumes "matches s held members unfilled" and "0 < unfilled k"
  shows "\<exists>s'. fill k s = Some s' \<and> matches s' (remove1 k held) members (unfilled(k := unfilled k - 1))"
proof -
  have "unfilled k \<le> count_list held k" "ledger_ok s" "reserved s k = count_list held k"
    using assms(1) by (simp_all add: matches_def)
  then obtain s' where "fill k s = Some s'" "ledger_ok s'" "live s' = (live s)(k := live s k + 1)"
      "reserved s' = (reserved s)(k := reserved s k - 1)"
    using fill_some [of s k] assms(2) by auto
  then show ?thesis using assms by (auto simp: matches_def count_list_remove1 intro: diff_le_mono)
qed

lemma abandon_matches:
  assumes "matches s held members unfilled" and "0 < unfilled k"
  shows "\<exists>s'. give_back k s = Some s'
    \<and> matches s' (remove1 k held) (members(k := members k - 1)) (unfilled(k := unfilled k - 1))"
proof -
  have le: "unfilled k \<le> count_list held k" and ok: "ledger_ok s" "reserved s k = count_list held k"
    using assms(1) by (simp_all add: matches_def)
  then obtain s' where "give_back k s = Some s'" "ledger_ok s'" "live s' = live s"
      "reserved s' = (reserved s)(k := reserved s k - 1)"
    using give_back_some [of s k] assms(2) by auto
  then show ?thesis using assms by (auto simp: matches_def count_list_remove1 intro: diff_le_mono)
qed

lemma leave_matches:
  assumes "matches s held members unfilled" and "unfilled k < members k"
  shows "\<exists>s'. free k s = Some s' \<and> matches s' held (members(k := members k - 1)) unfilled"
proof -
  have "ledger_ok s" "0 < live s k" using assms by (auto simp: matches_def)
  then obtain s' where "free k s = Some s'" "ledger_ok s'" "live s' = (live s)(k := live s k - 1)" "reserved s' = reserved s"
    using free_some [of s k] by auto
  then show ?thesis using assms by (auto simp: matches_def)
qed

lemma leave_unfilled:
  "matches s held members unfilled \<Longrightarrow> members k = unfilled k \<Longrightarrow> free k s = None"
  by (auto simp: matches_def intro: free_none)

lemma members_bounded:
  assumes "matches s held members unfilled"
  shows "members k \<le> key_limit" and "finite A \<Longrightarrow> (\<Sum>k\<in>A. members k) \<le> total_limit"
proof -
  have ok: "ledger_ok s" and le: "members k \<le> live s k + reserved s k" for k
    using assms by (simp_all add: matches_def)
  show "members k \<le> key_limit" using le [of k] key_bound [OF ok, of k] by simp
  show "(\<Sum>k\<in>A. members k) \<le> total_limit" if "finite A"
    using sum_mono [of A members "\<lambda>k. live s k + reserved s k"] le total_bound [OF ok that] by (meson order_trans)
qed

end

section \<open>The counters\<close>

record admission_state =
  live_total :: nat
  live_by_tenant :: "(tenant_id \<times> nat) list"
  reserved_total :: nat
  reserved_by_tenant :: "(tenant_id \<times> nat) list"

definition admission_new :: admission_state where
  "admission_new = \<lparr>live_total = 0, live_by_tenant = [], reserved_total = 0, reserved_by_tenant = []\<rparr>"

datatype admission_error =
    GlobalSessionCapacity nat nat
  | TenantSessionCapacity tenant_id nat nat

definition reserve :: "tenant_id \<Rightarrow> lifecycle_config \<Rightarrow> admission_state \<Rightarrow> admission_error + admission_state" where
  "reserve t lc a =
     (let total = live_total a + reserved_total a;
          tenant = counter (live_by_tenant a) t + counter (reserved_by_tenant a) t
      in if max_sessions_total lc \<le> total then Inl (GlobalSessionCapacity total (max_sessions_total lc))
         else if max_sessions_per_tenant lc \<le> tenant then Inl (TenantSessionCapacity t tenant (max_sessions_per_tenant lc))
         else Inr (a\<lparr>reserved_total := reserved_total a + 1,
                     reserved_by_tenant := AList.update t (counter (reserved_by_tenant a) t + 1) (reserved_by_tenant a)\<rparr>))"

text \<open>One counter less; a counter that reaches zero is removed.\<close>

definition decrement :: "tenant_id \<Rightarrow> (tenant_id \<times> nat) list \<Rightarrow> (tenant_id \<times> nat) list option" where
  "decrement t kvs =
     (case map_of kvs t of
        None \<Rightarrow> None
      | Some 0 \<Rightarrow> None
      | Some (Suc n) \<Rightarrow> Some (if n = 0 then AList.delete t kvs else AList.update t n kvs))"

definition release_reservation :: "tenant_id \<Rightarrow> admission_state \<Rightarrow> admission_state option" where
  "release_reservation t a =
     (if reserved_total a = 0 then None
      else map_option (\<lambda>kvs. a\<lparr>reserved_total := reserved_total a - 1, reserved_by_tenant := kvs\<rparr>)
             (decrement t (reserved_by_tenant a)))"

definition commit_reservation :: "tenant_id \<Rightarrow> admission_state \<Rightarrow> admission_state option" where
  "commit_reservation t a =
     map_option (\<lambda>a'. a'\<lparr>live_total := live_total a' + 1,
                          live_by_tenant := AList.update t (counter (live_by_tenant a') t + 1) (live_by_tenant a')\<rparr>)
       (release_reservation t a)"

definition release_live :: "tenant_id \<Rightarrow> admission_state \<Rightarrow> admission_state option" where
  "release_live t a =
     (if live_total a = 0 then None
      else map_option (\<lambda>kvs. a\<lparr>live_total := live_total a - 1, live_by_tenant := kvs\<rparr>)
             (decrement t (live_by_tenant a)))"

section \<open>The counters implement the interface\<close>

definition admission_ok :: "lifecycle_config \<Rightarrow> admission_state \<Rightarrow> bool" where
  "admission_ok lc a \<longleftrightarrow>
     distinct (map fst (live_by_tenant a)) \<and> distinct (map fst (reserved_by_tenant a)) \<and>
     live_total a = total_of (live_by_tenant a) \<and> reserved_total a = total_of (reserved_by_tenant a) \<and>
     live_total a + reserved_total a \<le> max_sessions_total lc \<and>
     (\<forall>t. counter (live_by_tenant a) t + counter (reserved_by_tenant a) t \<le> max_sessions_per_tenant lc)"

lemma admission_ok_new [simp]: "admission_ok lc admission_new"
  by (simp add: admission_ok_def admission_new_def)

lemma counter_le_total: "distinct (map fst kvs) \<Longrightarrow> counter kvs t \<le> total_of kvs"
  by (metis le_add2 total_of_delete)

lemma decrement_Some:
  assumes "distinct (map fst kvs)" and "0 < counter kvs t"
  obtains kvs' where "decrement t kvs = Some kvs'" "distinct (map fst kvs')"
    "counter kvs' = (counter kvs)(t := counter kvs t - 1)" "total_of kvs = total_of kvs' + 1"
proof -
  obtain n where n: "map_of kvs t = Some (Suc n)" "counter kvs t = Suc n"
    using assms(2) by (auto simp: counter_def split: option.splits dest: gr0_implies_Suc)
  let ?kvs' = "if n = 0 then AList.delete t kvs else AList.update t n kvs"
  have "total_of kvs = total_of ?kvs' + 1"
    using total_of_delete [OF assms(1), of t] n(2) total_of_update [OF assms(1), of t n] by simp
  moreover have "counter ?kvs' = (counter kvs)(t := counter kvs t - 1)" using n(2) by auto
  moreover have "distinct (map fst ?kvs')" using assms(1) by (simp add: distinct_delete distinct_update)
  ultimately show thesis using n(1) by (intro that [of ?kvs']) (simp_all add: decrement_def)
qed

lemma decrement_None: "counter kvs t = 0 \<Longrightarrow> decrement t kvs = None"
  by (simp add: decrement_def counter_def split: option.splits)

lemma reserve_some:
  assumes "admission_ok lc a" and "reserve t lc a = Inr a'"
  shows "admission_ok lc a' \<and> live_by_tenant a' = live_by_tenant a
    \<and> counter (reserved_by_tenant a') = (counter (reserved_by_tenant a))(t := counter (reserved_by_tenant a) t + 1)"
proof -
  have "total_of (AList.update t (counter (reserved_by_tenant a) t + 1) (reserved_by_tenant a))
      = total_of (reserved_by_tenant a) + 1"
    using assms(1) total_of_delete [of "reserved_by_tenant a" t] by (simp add: total_of_update admission_ok_def)
  then show ?thesis
    using assms by (auto simp: reserve_def Let_def admission_ok_def distinct_update Suc_le_eq split: if_splits)
qed

lemma release_reservation_some:
  assumes "admission_ok lc a" and "0 < counter (reserved_by_tenant a) t"
  shows "\<exists>a'. release_reservation t a = Some a' \<and> admission_ok lc a' \<and> live_by_tenant a' = live_by_tenant a
    \<and> live_total a' = live_total a \<and> reserved_total a' + 1 = reserved_total a
    \<and> counter (reserved_by_tenant a') = (counter (reserved_by_tenant a))(t := counter (reserved_by_tenant a) t - 1)"
proof -
  have d: "distinct (map fst (reserved_by_tenant a))" using assms(1) by (simp add: admission_ok_def)
  obtain kvs' where kvs': "decrement t (reserved_by_tenant a) = Some kvs'" "distinct (map fst kvs')"
    "counter kvs' = (counter (reserved_by_tenant a))(t := counter (reserved_by_tenant a) t - 1)"
    "total_of (reserved_by_tenant a) = total_of kvs' + 1"
    using decrement_Some [OF d assms(2)] by blast
  have "counter (live_by_tenant a) t' + counter (reserved_by_tenant a) t' \<le> max_sessions_per_tenant lc" for t'
    using assms(1) by (simp add: admission_ok_def)
  then have "counter (live_by_tenant a) t' + counter kvs' t' \<le> max_sessions_per_tenant lc" for t'
    by (metis (no_types, lifting) add_leD1 diff_le_self fun_upd_apply kvs'(3) nat_add_left_cancel_le order_trans)
  then show ?thesis
    using assms(1) kvs' by (auto simp: release_reservation_def admission_ok_def)
qed

lemma release_live_some:
  assumes "admission_ok lc a" and "0 < counter (live_by_tenant a) t"
  shows "\<exists>a'. release_live t a = Some a' \<and> admission_ok lc a' \<and> reserved_by_tenant a' = reserved_by_tenant a
    \<and> counter (live_by_tenant a') = (counter (live_by_tenant a))(t := counter (live_by_tenant a) t - 1)"
proof -
  have d: "distinct (map fst (live_by_tenant a))" using assms(1) by (simp add: admission_ok_def)
  obtain kvs' where kvs': "decrement t (live_by_tenant a) = Some kvs'" "distinct (map fst kvs')"
    "counter kvs' = (counter (live_by_tenant a))(t := counter (live_by_tenant a) t - 1)"
    "total_of (live_by_tenant a) = total_of kvs' + 1"
    using decrement_Some [OF d assms(2)] by blast
  have "counter (live_by_tenant a) t' + counter (reserved_by_tenant a) t' \<le> max_sessions_per_tenant lc" for t'
    using assms(1) by (simp add: admission_ok_def)
  moreover have "counter kvs' t' \<le> counter (live_by_tenant a) t'" for t' using kvs'(3) by simp
  ultimately have "counter kvs' t' + counter (reserved_by_tenant a) t' \<le> max_sessions_per_tenant lc" for t'
    by (meson add_le_mono1 order_trans)
  then show ?thesis
    using assms(1) kvs' by (auto simp: release_live_def admission_ok_def)
qed

lemma commit_reservation_some:
  assumes "admission_ok lc a" and "0 < counter (reserved_by_tenant a) t"
  shows "\<exists>a'. commit_reservation t a = Some a' \<and> admission_ok lc a'
    \<and> counter (live_by_tenant a') = (counter (live_by_tenant a))(t := counter (live_by_tenant a) t + 1)
    \<and> counter (reserved_by_tenant a') = (counter (reserved_by_tenant a))(t := counter (reserved_by_tenant a) t - 1)"
proof -
  obtain b where b: "release_reservation t a = Some b" "admission_ok lc b" "live_by_tenant b = live_by_tenant a"
    "live_total b = live_total a" "reserved_total b + 1 = reserved_total a"
    "counter (reserved_by_tenant b) = (counter (reserved_by_tenant a))(t := counter (reserved_by_tenant a) t - 1)"
    using release_reservation_some [OF assms] by blast
  let ?kvs = "AList.update t (counter (live_by_tenant b) t + 1) (live_by_tenant b)"
  have "total_of ?kvs = total_of (live_by_tenant b) + 1"
    using b(2) total_of_delete [of "live_by_tenant b" t] by (simp add: total_of_update admission_ok_def)
  moreover have "counter ?kvs t' + counter (reserved_by_tenant b) t' \<le> max_sessions_per_tenant lc" for t'
  proof -
    have "counter (live_by_tenant a) t' + counter (reserved_by_tenant a) t' \<le> max_sessions_per_tenant lc"
      using assms(1) by (simp add: admission_ok_def)
    then show ?thesis using assms(2) b(3,6) by (cases "t' = t") simp_all
  qed
  moreover have "live_total b + 1 + reserved_total b \<le> max_sessions_total lc"
    using assms(1) b(4,5) by (simp add: admission_ok_def)
  ultimately have "admission_ok lc (b\<lparr>live_total := live_total b + 1, live_by_tenant := ?kvs\<rparr>)"
    using b(2) by (simp add: admission_ok_def distinct_update)
  then show ?thesis using b by (auto simp: commit_reservation_def)
qed

lemma admission_sum_bound:
  assumes "admission_ok lc a" and "finite A"
  shows "(\<Sum>t\<in>A. counter (live_by_tenant a) t + counter (reserved_by_tenant a) t) \<le> max_sessions_total lc"
proof -
  have bound: "(\<Sum>t\<in>A. counter kvs t) \<le> total_of kvs" if "distinct (map fst kvs)" for kvs :: "(tenant_id \<times> nat) list"
  proof -
    have "(\<Sum>t\<in>A. counter kvs t) \<le> (\<Sum>t\<in>A \<union> fst ` set kvs. counter kvs t)"
      using assms(2) by (intro sum_mono2) auto
    then show ?thesis using total_of_sum_superset [OF that, of "A \<union> fst ` set kvs"] assms(2) by simp
  qed
  have "(\<Sum>t\<in>A. counter (live_by_tenant a) t) \<le> live_total a" "(\<Sum>t\<in>A. counter (reserved_by_tenant a) t) \<le> reserved_total a"
    using bound assms(1) by (simp_all add: admission_ok_def)
  then show ?thesis using assms(1) by (simp add: sum.distrib admission_ok_def)
qed

definition reserve_slot :: "lifecycle_config \<Rightarrow> tenant_id \<Rightarrow> admission_state \<Rightarrow> admission_state option" where
  "reserve_slot lc t a = (case reserve t lc a of Inl _ \<Rightarrow> None | Inr a' \<Rightarrow> Some a')"

interpretation slots: slot_ledger "admission_ok lc" "\<lambda>a. counter (live_by_tenant a)" "\<lambda>a. counter (reserved_by_tenant a)"
    "reserve_slot lc" release_reservation commit_reservation release_live "max_sessions_total lc" "max_sessions_per_tenant lc"
  for lc
proof
  fix s s' :: admission_state and k
  assume "admission_ok lc s" "reserve_slot lc k s = Some s'"
  then show "admission_ok lc s' \<and> counter (live_by_tenant s') = counter (live_by_tenant s)
      \<and> counter (reserved_by_tenant s') = (counter (reserved_by_tenant s))(k := counter (reserved_by_tenant s) k + 1)"
    using reserve_some [of lc s k s'] by (auto simp: reserve_slot_def split: sum.splits)
next
  fix s :: admission_state and k
  assume "admission_ok lc s" "counter (live_by_tenant s) k = 0"
  then show "release_live k s = None" by (simp add: release_live_def decrement_None)
next
  fix s :: admission_state and k
  assume "admission_ok lc s"
  then show "counter (live_by_tenant s) k + counter (reserved_by_tenant s) k \<le> max_sessions_per_tenant lc"
    by (simp add: admission_ok_def)
next
  fix s :: admission_state and k
  assume "admission_ok lc s" "0 < counter (reserved_by_tenant s) k"
  then show "\<exists>s'. release_reservation k s = Some s' \<and> admission_ok lc s' \<and> counter (live_by_tenant s') = counter (live_by_tenant s)
      \<and> counter (reserved_by_tenant s') = (counter (reserved_by_tenant s))(k := counter (reserved_by_tenant s) k - 1)"
    using release_reservation_some [of lc s k] by auto
next
  fix s :: admission_state and k
  assume "admission_ok lc s" "0 < counter (live_by_tenant s) k"
  then show "\<exists>s'. release_live k s = Some s' \<and> admission_ok lc s'
      \<and> counter (live_by_tenant s') = (counter (live_by_tenant s))(k := counter (live_by_tenant s) k - 1)
      \<and> counter (reserved_by_tenant s') = counter (reserved_by_tenant s)"
    using release_live_some [of lc s k] by auto
qed (rule commit_reservation_some admission_sum_bound; assumption)+

end
