(* ===== verification/Gateway.thy ===== *)
theory Gateway
  imports Admission
begin

text \<open>
  Sessions and admission together, as \<open>acpx-core/src/router.rs\<close> uses them: creating, recovering,
  discovering, promoting and removing sessions.  Each operation is what the router does while it
  holds its lock; between two of them other requests run.  \<open>gw_permits\<close> are the admission
  permits that requests hold (\<open>SessionAdmissionPermit\<close>), \<open>gw_creating\<close> the sessions that
  \<open>session/new\<close> has registered and whose permit it has not committed yet, because it is writing
  the session to the database.  A panic is \<open>None\<close>.
\<close>

section \<open>State and operations\<close>

record gateway =
  gw_registry :: session_registry
  gw_admission :: admission_state
  gw_permits :: "tenant_id list"
  gw_creating :: "(tenant_id \<times> string) list"

definition gateway_new :: gateway where
  "gateway_new = \<lparr>gw_registry = registry_new, gw_admission = admission_new, gw_permits = [], gw_creating = []\<rparr>"

definition admit_session :: "lifecycle_config \<Rightarrow> tenant_id \<Rightarrow> gateway \<Rightarrow> admission_error + gateway" where
  "admit_session lc t g =
     map_sum id (\<lambda>a. g\<lparr>gw_admission := a, gw_permits := t # gw_permits g\<rparr>) (reserve t lc (gw_admission g))"

text \<open>Dropping a permit that was not committed.\<close>

definition drop_permit :: "tenant_id \<Rightarrow> gateway \<Rightarrow> gateway option" where
  "drop_permit t g =
     map_option (\<lambda>a. g\<lparr>gw_admission := a, gw_permits := remove1 t (gw_permits g)\<rparr>)
       (release_reservation t (gw_admission g))"

definition commit_permit :: "tenant_id \<Rightarrow> gateway \<Rightarrow> gateway option" where
  "commit_permit t g =
     map_option (\<lambda>a. g\<lparr>gw_admission := a, gw_permits := remove1 t (gw_permits g)\<rparr>)
       (commit_reservation t (gw_admission g))"

text \<open>\<open>session/load\<close> and \<open>session/resume\<close> of a session that is only in the database.\<close>

definition rehydrate_session ::
  "lifecycle_config \<Rightarrow> tenant_id \<Rightarrow> string \<Rightarrow> session_entry \<Rightarrow> gateway \<Rightarrow> (admission_error + gateway) option"
where
  "rehydrate_session lc t sid entry g =
     (case admit_session lc t g of
        Inl e \<Rightarrow> Some (Inl e)
      | Inr g1 \<Rightarrow> map_option Inr (commit_permit t (g1\<lparr>gw_registry := reg_insert t sid entry (gw_registry g1)\<rparr>)))"

definition ensure_capacity_for_active_turn ::
  "lifecycle_config \<Rightarrow> tenant_id \<Rightarrow> string \<Rightarrow> gateway \<Rightarrow> (admission_error + gateway) option"
where
  "ensure_capacity_for_active_turn lc t sid g =
     (let needs_admit = (case reg_resolve t sid (gw_registry g) of None \<Rightarrow> False | Some e \<Rightarrow> \<not> capacity_counted e)
      in if \<not> needs_admit then Some (Inr g)
         else case admit_session lc t g of
                Inl e \<Rightarrow> Some (Inl e)
              | Inr g1 \<Rightarrow>
                  map_option Inr
                    (commit_permit t
                       (g1\<lparr>gw_registry := fst (update_session t sid (\<lambda>e. e\<lparr>capacity_counted := True\<rparr>) (gw_registry g1))\<rparr>)))"

text \<open>
  Removing a session, as \<open>session/close\<close> and the reaper do: its slot is given back when it has
  one.
\<close>

definition evict_session :: "tenant_id \<Rightarrow> string \<Rightarrow> gateway \<Rightarrow> gateway option" where
  "evict_session t sid g =
     (case reg_remove t sid (gw_registry g) of
        (r, None) \<Rightarrow> Some (g\<lparr>gw_registry := r\<rparr>)
      | (r, Some removed) \<Rightarrow>
          if capacity_counted removed
          then map_option (\<lambda>a. g\<lparr>gw_registry := r, gw_admission := a\<rparr>) (release_live t (gw_admission g))
          else Some (g\<lparr>gw_registry := r\<rparr>))"

text \<open>
  \<open>session/new\<close> holds a permit while the backend answers; then it registers the session, writes
  it to the database without the lock, and commits the permit or removes the session again.
\<close>

definition create_register ::
  "instant \<Rightarrow> tenant_id \<Rightarrow> string \<Rightarrow> string \<Rightarrow> string \<Rightarrow> string option \<Rightarrow> string option \<Rightarrow> gateway \<Rightarrow> gateway"
where
  "create_register now t sid agent backend profile dir g =
     g\<lparr>gw_registry := register_with_id now t sid agent backend profile dir (gw_registry g),
       gw_creating := (t, sid) # gw_creating g\<rparr>"

definition create_commit :: "tenant_id \<Rightarrow> string \<Rightarrow> gateway \<Rightarrow> gateway option" where
  "create_commit t sid g = commit_permit t (g\<lparr>gw_creating := remove1 (t, sid) (gw_creating g)\<rparr>)"

definition create_fail :: "tenant_id \<Rightarrow> string \<Rightarrow> gateway \<Rightarrow> gateway option" where
  "create_fail t sid g =
     drop_permit t (g\<lparr>gw_registry := fst (reg_remove t sid (gw_registry g)),
                      gw_creating := remove1 (t, sid) (gw_creating g)\<rparr>)"

text \<open>
  \<open>session/list\<close>: the gateway id of a backend session, registered without a slot when nobody
  owns it.  \<open>used\<close> counts the registrations of the call; \<open>sid\<close> is the fresh id.
\<close>

definition translate_or_register ::
  "lifecycle_config \<Rightarrow> instant \<Rightarrow> tenant_id \<Rightarrow> string \<Rightarrow> string \<Rightarrow> string \<Rightarrow> string option \<Rightarrow> string option \<Rightarrow> nat \<Rightarrow>
   gateway \<Rightarrow> gateway \<times> nat \<times> string option"
where
  "translate_or_register lc now t sid agent backend profile dir used g =
     (let r = gw_registry g
      in case find_by_backend t agent backend r of
           Some existing \<Rightarrow> (g, used, Some existing)
         | None \<Rightarrow>
             (if (case find_owner agent backend r of None \<Rightarrow> False | Some owner \<Rightarrow> owner \<noteq> t) then (g, used, None)
              else if (case max_new_sessions_per_list_call lc of None \<Rightarrow> False | Some cap \<Rightarrow> cap \<le> used) then (g, used, None)
              else (let r' = register_with_id now t sid agent backend profile dir r;
                        r'' = fst (update_session t sid (\<lambda>e. e\<lparr>capacity_counted := False\<rparr>) r')
                    in (g\<lparr>gw_registry := r''\<rparr>, used + 1, Some sid))))"

section \<open>Steps\<close>

definition keeps_counting :: "(session_entry \<Rightarrow> session_entry) \<Rightarrow> bool" where
  "keeps_counting f \<longleftrightarrow> (\<forall>e. capacity_counted (f e) = capacity_counted e) \<and> (\<forall>e. entry_ok e \<longrightarrow> entry_ok (f e))"

definition creating_of :: "gateway \<Rightarrow> tenant_id \<Rightarrow> nat" where
  "creating_of g t = count_list (map fst (gw_creating g)) t"

text \<open>
  Everything the router does to sessions and slots.  A permit is dropped or used only by the
  request that holds it, so it is not one of those that belong to a session being created.  The
  last guard of \<open>GwEvict\<close> is not in the code: see the property on evictions during a creation.
\<close>

inductive gateway_step :: "lifecycle_config \<Rightarrow> gateway \<Rightarrow> gateway \<Rightarrow> bool" for lc where
  GwAdmit: "admit_session lc t g = Inr g' \<Longrightarrow> gateway_step lc g g'"
| GwDrop: "creating_of g t < count_list (gw_permits g) t \<Longrightarrow> drop_permit t g = Some g' \<Longrightarrow> gateway_step lc g g'"
| GwRehydrate: "reg_resolve t sid (gw_registry g) = None \<Longrightarrow> entry_ok entry \<Longrightarrow> capacity_counted entry \<Longrightarrow>
    rehydrate_session lc t sid entry g = Some (Inr g') \<Longrightarrow> gateway_step lc g g'"
| GwPromote: "ensure_capacity_for_active_turn lc t sid g = Some (Inr g') \<Longrightarrow> gateway_step lc g g'"
| GwDiscover: "reg_resolve t sid (gw_registry g) = None \<Longrightarrow>
    translate_or_register lc now t sid agent backend profile dir used g = (g', used', answer) \<Longrightarrow> gateway_step lc g g'"
| GwRegister: "reg_resolve t sid (gw_registry g) = None \<Longrightarrow> creating_of g t < count_list (gw_permits g) t \<Longrightarrow>
    gateway_step lc g (create_register now t sid agent backend profile dir g)"
| GwCommit: "(t, sid) \<in> set (gw_creating g) \<Longrightarrow> create_commit t sid g = Some g' \<Longrightarrow> gateway_step lc g g'"
| GwFail: "(t, sid) \<in> set (gw_creating g) \<Longrightarrow> create_fail t sid g = Some g' \<Longrightarrow> gateway_step lc g g'"
| GwUpdate: "keeps_counting f \<Longrightarrow>
    gateway_step lc g (g\<lparr>gw_registry := fst (update_session t sid f (gw_registry g))\<rparr>)"
| GwEvict: "(t, sid) \<notin> set (gw_creating g) \<Longrightarrow> evict_session t sid g = Some g' \<Longrightarrow> gateway_step lc g g'"

inductive gateway_reachable :: "lifecycle_config \<Rightarrow> gateway \<Rightarrow> bool" for lc where
  GwNew: "gateway_reachable lc gateway_new"
| GwStep: "gateway_reachable lc g \<Longrightarrow> gateway_step lc g g' \<Longrightarrow> gateway_reachable lc g'"

text \<open>The operations of the code that are updates of one entry.\<close>

lemma keeps_counting_ops [simp]:
  "keeps_counting (entry_in_flight now n)"
  "keeps_counting (\<lambda>e. e\<lparr>last_activity_at := now\<rparr>)"
  "keeps_counting (\<lambda>e. e\<lparr>pinned := b, last_activity_at := now\<rparr>)"
  "keeps_counting (\<lambda>e. e\<lparr>custom_idle_ttl := ttl\<rparr>)"
  by (auto simp: keeps_counting_def entry_in_flight_def entry_ok_def Let_def)

section \<open>The invariant\<close>

definition counted :: "gateway \<Rightarrow> tenant_id \<Rightarrow> nat" where
  "counted g t = count_vals capacity_counted (inner_map (sessions (gw_registry g)) t)"

text \<open>
  The counters are exact: a tenant's live count and its sessions under creation are its sessions
  that occupy a slot, and the reserved count is the number of its permits.
\<close>

definition gateway_ok :: "lifecycle_config \<Rightarrow> gateway \<Rightarrow> bool" where
  "gateway_ok lc g \<longleftrightarrow>
     registry_ok (gw_registry g) \<and>
     slots.matches lc (gw_admission g) (gw_permits g) (counted g) (creating_of g) \<and>
     distinct (gw_creating g) \<and>
     (\<forall>(t, sid)\<in>set (gw_creating g). \<exists>e. reg_resolve t sid (gw_registry g) = Some e \<and> capacity_counted e)"

lemma count_vals_card:
  assumes "distinct (map fst kvs)"
  shows "count_vals P kvs = card {k. \<exists>v. map_of kvs k = Some v \<and> P v}"
proof -
  have "{k. \<exists>v. map_of kvs k = Some v \<and> P v} = fst ` set (filter (\<lambda>(k, v). P v) kvs)"
    using assms by (force simp: image_iff)
  moreover have "distinct (map fst (filter (\<lambda>(k, v). P v) kvs))"
    using assms by (rule distinct_map_filter)
  ultimately show ?thesis
    by (simp add: count_vals_def card_image distinct_card distinct_map flip: distinct_card)
qed

lemma creating_of_card:
  assumes "distinct (gw_creating g)"
  shows "creating_of g t = card {sid. (t, sid) \<in> set (gw_creating g)}"
proof -
  have "distinct xs \<Longrightarrow> count_list (map fst xs) t = card {sid. (t, sid) \<in> set xs}" for xs :: "(tenant_id \<times> string) list"
  proof (induction xs)
    case (Cons p xs)
    obtain t' sid where p: "p = (t', sid)" by (cases p)
    have fin: "finite {sid'. (t, sid') \<in> set xs}"
      by (rule finite_subset [of _ "snd ` set xs"]) (force, simp)
    have "{sid'. (t, sid') \<in> set (p # xs)}
        = (if t' = t then insert sid {sid'. (t, sid') \<in> set xs} else {sid'. (t, sid') \<in> set xs})"
      by (auto simp: p)
    then show ?case using Cons fin by (auto simp: p)
  qed simp
  then show ?thesis using assms by (simp add: creating_of_def)
qed

lemma count_remove1_fst:
  "p \<in> set xs \<Longrightarrow> count_list (map fst (remove1 p xs)) t = (if t = fst p then count_list (map fst xs) t - 1 else count_list (map fst xs) t)"
proof (induction xs)
  case (Cons q xs)
  have "0 < count_list (map fst xs) (fst p)" if "p \<in> set xs"
    using that by (metis count_list_0_iff gr0I image_eqI list.set_map)
  then show ?case using Cons by (cases "q = p") auto
qed simp

lemma gateway_okD:
  assumes "gateway_ok lc g"
  shows "registry_ok (gw_registry g)"
    and "slots.matches lc (gw_admission g) (gw_permits g) (counted g) (creating_of g)"
    and "distinct (gw_creating g)"
    and "(t, sid) \<in> set (gw_creating g) \<Longrightarrow> \<exists>e. reg_resolve t sid (gw_registry g) = Some e \<and> capacity_counted e"
  using assms by (auto simp: gateway_ok_def)

lemma inner_distinct: "registry_ok r \<Longrightarrow> distinct (map fst (inner_map (sessions r) t))"
  by (rule nested_ok_inner [OF registry_okD(1)])

lemma counted_insert:
  assumes "registry_ok r" and "reg_resolve t sid r = None"
  shows "count_vals P (AList.update sid e (inner_map (sessions r) t))
    = count_vals P (inner_map (sessions r) t) + (if P e then 1 else 0)"
  using assms(2) count_vals_update [OF inner_distinct [OF assms(1)], of P sid e t]
    count_vals_delete [OF inner_distinct [OF assms(1)], of P t sid]
  by (simp add: reg_resolve_def nested_get_inner)

lemma counted_replace:
  assumes "registry_ok r" and "reg_resolve t sid r = Some e"
  shows "count_vals P (AList.update sid e' (inner_map (sessions r) t)) + (if P e then 1 else 0)
    = count_vals P (inner_map (sessions r) t) + (if P e' then 1 else 0)"
  using assms(2) count_vals_update [OF inner_distinct [OF assms(1)], of P sid e' t]
    count_vals_delete [OF inner_distinct [OF assms(1)], of P t sid]
  by (simp add: reg_resolve_def nested_get_inner)

lemma counted_remove:
  assumes "registry_ok r" and "reg_resolve t sid r = Some e"
  shows "count_vals P (AList.delete sid (inner_map (sessions r) t)) + (if P e then 1 else 0)
    = count_vals P (inner_map (sessions r) t)"
  using assms(2) count_vals_delete [OF inner_distinct [OF assms(1)], of P t sid]
  by (simp add: reg_resolve_def nested_get_inner)

lemma creating_lt_counted:
  assumes "gateway_ok lc g" and "reg_resolve t sid (gw_registry g) = Some e" and "capacity_counted e"
    and "(t, sid) \<notin> set (gw_creating g)"
  shows "creating_of g t < counted g t"
proof -
  let ?C = "{sid'. (t, sid') \<in> set (gw_creating g)}"
  let ?L = "{sid'. \<exists>e. map_of (inner_map (sessions (gw_registry g)) t) sid' = Some e \<and> capacity_counted e}"
  have fin: "finite ?L"
    by (rule finite_subset [of _ "dom (map_of (inner_map (sessions (gw_registry g)) t))"]) (auto simp: finite_dom_map_of)
  have "insert sid ?C \<subseteq> ?L"
    using gateway_okD(4) [OF assms(1)] assms(2,3) by (auto simp: reg_resolve_def nested_get_inner)
  moreover have "finite ?C" using calculation fin by (meson finite_insert finite_subset)
  ultimately have "card ?C < card ?L"
    using assms(4) card_mono [OF fin, of "insert sid ?C"] by simp
  then show ?thesis
    using creating_of_card [OF gateway_okD(3) [OF assms(1)], of t]
      count_vals_card [OF inner_distinct [OF gateway_okD(1) [OF assms(1)]], of capacity_counted t]
    by (simp add: counted_def)
qed

section \<open>Every operation keeps the invariant\<close>

lemma counted_simps [simp]:
  "counted (g\<lparr>gw_admission := a\<rparr>) = counted g"
  "counted (g\<lparr>gw_permits := ps\<rparr>) = counted g"
  "counted (g\<lparr>gw_creating := cs\<rparr>) = counted g"
  by (simp_all add: fun_eq_iff counted_def)

lemma creating_of_simps [simp]:
  "creating_of (g\<lparr>gw_admission := a\<rparr>) = creating_of g"
  "creating_of (g\<lparr>gw_permits := ps\<rparr>) = creating_of g"
  "creating_of (g\<lparr>gw_registry := r\<rparr>) = creating_of g"
  by (simp_all add: fun_eq_iff creating_of_def)

lemma gateway_ok_new [simp]: "gateway_ok lc gateway_new"
  by (simp add: gateway_ok_def gateway_new_def slots.matches_def counted_def creating_of_def registry_new_def
      admission_new_def admission_ok_def registry_ok_def reg_resolve_def)

lemma gateway_ok_admit:
  assumes "gateway_ok lc g" and "admit_session lc t g = Inr g'"
  shows "gateway_ok lc g'" and "gw_registry g' = gw_registry g" and "gw_creating g' = gw_creating g"
    and "creating_of g' t < count_list (gw_permits g') t"
proof -
  obtain a where a: "reserve t lc (gw_admission g) = Inr a" "g' = g\<lparr>gw_admission := a, gw_permits := t # gw_permits g\<rparr>"
    using assms(2) by (cases "reserve t lc (gw_admission g)") (auto simp: admit_session_def)
  have m: "slots.matches lc (gw_admission g) (gw_permits g) (counted g) (creating_of g)"
    by (rule gateway_okD(2) [OF assms(1)])
  have "slots.matches lc a (t # gw_permits g) (counted g) (creating_of g)"
    using slots.take_matches [OF m, of t a] a(1) by (simp add: reserve_slot_def)
  then show "gateway_ok lc g'" using assms(1) by (simp add: a(2) gateway_ok_def)
  show "gw_registry g' = gw_registry g" "gw_creating g' = gw_creating g" by (simp_all add: a(2))
  show "creating_of g' t < count_list (gw_permits g') t"
    using m by (simp add: a(2) slots.matches_def le_imp_less_Suc)
qed

lemma gateway_ok_drop:
  assumes "gateway_ok lc g" and "creating_of g t < count_list (gw_permits g) t"
  shows "\<exists>g'. drop_permit t g = Some g' \<and> gateway_ok lc g'"
  using slots.give_back_matches [OF gateway_okD(2) [OF assms(1)] assms(2)] assms(1)
  by (auto simp: drop_permit_def gateway_ok_def)

text \<open>A permit is committed for a session that occupies a slot from now on.\<close>

lemma gateway_ok_fill:
  assumes "gateway_ok lc g" and "creating_of g t < count_list (gw_permits g) t" and "registry_ok r"
    and "\<And>t'. count_vals capacity_counted (inner_map (sessions r) t') = (if t' = t then counted g t + 1 else counted g t')"
    and "\<And>t' sid e. reg_resolve t' sid (gw_registry g) = Some e \<Longrightarrow> capacity_counted e \<Longrightarrow>
      \<exists>e'. reg_resolve t' sid r = Some e' \<and> capacity_counted e'"
  shows "\<exists>g'. commit_permit t (g\<lparr>gw_registry := r\<rparr>) = Some g' \<and> gateway_ok lc g' \<and> gw_registry g' = r"
proof -
  have c: "counted (g\<lparr>gw_registry := r\<rparr>) = (counted g)(t := counted g t + 1)"
    using assms(4) by (simp add: fun_eq_iff counted_def)
  obtain a where "commit_reservation t (gw_admission g) = Some a"
    "slots.matches lc a (remove1 t (gw_permits g)) ((counted g)(t := counted g t + 1)) (creating_of g)"
    using slots.fill_matches [OF gateway_okD(2) [OF assms(1)] assms(2)] by blast
  moreover have "\<forall>(t', sid)\<in>set (gw_creating g). \<exists>e. reg_resolve t' sid r = Some e \<and> capacity_counted e"
    using gateway_okD(4) [OF assms(1)] assms(5) by blast
  ultimately show ?thesis
    using assms(1,3) c by (auto simp: commit_permit_def gateway_ok_def)
qed

lemma gateway_ok_rehydrate:
  assumes "gateway_ok lc g" and "reg_resolve t sid (gw_registry g) = None" and "entry_ok entry"
    and "capacity_counted entry" and "admit_session lc t g = Inr g1"
  shows "\<exists>g'. rehydrate_session lc t sid entry g = Some (Inr g') \<and> gateway_ok lc g'
    \<and> gw_registry g' = reg_insert t sid entry (gw_registry g)"
proof -
  note g1 = gateway_ok_admit [OF assms(1,5)]
  have "\<exists>g'. commit_permit t (g1\<lparr>gw_registry := reg_insert t sid entry (gw_registry g1)\<rparr>) = Some g' \<and> gateway_ok lc g'
      \<and> gw_registry g' = reg_insert t sid entry (gw_registry g1)"
    using assms(2) counted_insert [OF gateway_okD(1) [OF assms(1)] assms(2)] assms(4)
    by (intro gateway_ok_fill [OF g1(1,4)])
      (auto simp: g1(2) counted_def intro!: registry_ok_insert gateway_okD(1) [OF assms(1)] assms(3))
  then show ?thesis using g1(2) by (auto simp: rehydrate_session_def assms(5))
qed

lemma gateway_ok_promote:
  assumes "gateway_ok lc g" and "reg_resolve t sid (gw_registry g) = Some e" and "\<not> capacity_counted e"
    and "admit_session lc t g = Inr g1"
  shows "\<exists>g'. ensure_capacity_for_active_turn lc t sid g = Some (Inr g') \<and> gateway_ok lc g'
    \<and> gw_registry g' = fst (update_session t sid (\<lambda>e. e\<lparr>capacity_counted := True\<rparr>) (gw_registry g))"
proof -
  note g1 = gateway_ok_admit [OF assms(1,4)]
  let ?r = "fst (update_session t sid (\<lambda>e. e\<lparr>capacity_counted := True\<rparr>) (gw_registry g1))"
  have "\<exists>g'. commit_permit t (g1\<lparr>gw_registry := ?r\<rparr>) = Some g' \<and> gateway_ok lc g' \<and> gw_registry g' = ?r"
  proof (rule gateway_ok_fill [OF g1(1,4)])
    show "registry_ok ?r" using gateway_okD(1) [OF assms(1)] by (auto simp: g1(2) entry_ok_def intro!: registry_ok_update)
    show "count_vals capacity_counted (inner_map (sessions ?r) t') = (if t' = t then counted g1 t + 1 else counted g1 t')" for t'
      using counted_replace [OF gateway_okD(1) [OF assms(1)] assms(2), of capacity_counted "e\<lparr>capacity_counted := True\<rparr>"] assms(2,3)
      by (simp add: g1(2) counted_def)
    show "\<exists>e'. reg_resolve t' sid' ?r = Some e' \<and> capacity_counted e'"
      if "reg_resolve t' sid' (gw_registry g1) = Some e'" "capacity_counted e'" for t' sid' e'
      using that by auto
  qed
  then show ?thesis using g1(2) assms(2,3) by (auto simp: ensure_capacity_for_active_turn_def assms(4))
qed

text \<open>A change of the registry that leaves every slot as it is.\<close>

lemma gateway_ok_registry:
  assumes "gateway_ok lc g" and "registry_ok r"
    and "\<And>t'. count_vals capacity_counted (inner_map (sessions r) t') = counted g t'"
    and "\<And>t' sid e. (t', sid) \<in> set (gw_creating g) \<Longrightarrow> reg_resolve t' sid (gw_registry g) = Some e \<Longrightarrow> capacity_counted e \<Longrightarrow>
      \<exists>e'. reg_resolve t' sid r = Some e' \<and> capacity_counted e'"
  shows "gateway_ok lc (g\<lparr>gw_registry := r\<rparr>)"
proof -
  have "counted (g\<lparr>gw_registry := r\<rparr>) = counted g" using assms(3) by (simp add: fun_eq_iff counted_def)
  moreover have "\<forall>(t', sid)\<in>set (gw_creating g). \<exists>e. reg_resolve t' sid r = Some e \<and> capacity_counted e"
    using gateway_okD(4) [OF assms(1)] assms(4) by blast
  ultimately show ?thesis using assms(1,2) by (simp add: gateway_ok_def)
qed

lemma gateway_ok_update:
  assumes "gateway_ok lc g" and "keeps_counting f"
  shows "gateway_ok lc (g\<lparr>gw_registry := fst (update_session t sid f (gw_registry g))\<rparr>)"
proof (rule gateway_ok_registry [OF assms(1)])
  have f: "capacity_counted (f e) = capacity_counted e" "entry_ok e \<Longrightarrow> entry_ok (f e)" for e
    using assms(2) by (simp_all add: keeps_counting_def)
  show "registry_ok (fst (update_session t sid f (gw_registry g)))"
    using gateway_okD(1) [OF assms(1)] f(2) by (rule registry_ok_update)
  show "count_vals capacity_counted (inner_map (sessions (fst (update_session t sid f (gw_registry g)))) t') = counted g t'" for t'
  proof (cases "reg_resolve t sid (gw_registry g)")
    case (Some e)
    show ?thesis
      using counted_replace [OF gateway_okD(1) [OF assms(1)] Some, of capacity_counted "f e"] f(1) Some
      by (simp add: counted_def)
  qed (simp add: counted_def)
  show "\<exists>e'. reg_resolve t' sid' (fst (update_session t sid f (gw_registry g))) = Some e' \<and> capacity_counted e'"
    if "reg_resolve t' sid' (gw_registry g) = Some e" "capacity_counted e" for t' sid' e
    using that f(1) by auto
qed

lemma gateway_ok_discover:
  assumes "gateway_ok lc g" and "reg_resolve t sid (gw_registry g) = None"
    and "translate_or_register lc now t sid agent backend profile dir used g = (g', used', answer)"
  shows "gateway_ok lc g'"
proof (cases "g' = g")
  case False
  let ?r' = "register_with_id now t sid agent backend profile dir (gw_registry g)"
  let ?r'' = "fst (update_session t sid (\<lambda>e. e\<lparr>capacity_counted := False\<rparr>) ?r')"
  have g': "g' = g\<lparr>gw_registry := ?r''\<rparr>"
    using assms(3) False by (auto simp: translate_or_register_def Let_def split: option.splits if_splits)
  have r': "registry_ok ?r'"
    using gateway_okD(1) [OF assms(1)] by (simp add: register_with_id_def registry_ok_insert)
  then have "registry_ok ?r''" by (auto simp: entry_ok_def intro!: registry_ok_update)
  moreover have "count_vals capacity_counted (inner_map (sessions ?r'') t') = counted g t'" for t'
  proof -
    have "reg_resolve t sid ?r' = Some (new_entry now agent backend profile dir)" by (simp add: register_with_id_def)
    from counted_replace [OF r' this, of capacity_counted "(new_entry now agent backend profile dir)\<lparr>capacity_counted := False\<rparr>"]
      counted_insert [OF gateway_okD(1) [OF assms(1)] assms(2), of capacity_counted "new_entry now agent backend profile dir"]
    show ?thesis by (simp add: register_with_id_def counted_def new_entry_def)
  qed
  ultimately show ?thesis
    unfolding g' using gateway_okD(4) [OF assms(1)] assms(2)
    by (intro gateway_ok_registry [OF assms(1)]) (auto simp: register_with_id_def split: if_splits)
qed (use assms(1) in simp)

lemma gateway_ok_register:
  assumes "gateway_ok lc g" and "reg_resolve t sid (gw_registry g) = None" and "creating_of g t < count_list (gw_permits g) t"
  shows "gateway_ok lc (create_register now t sid agent backend profile dir g)"
proof -
  let ?g' = "create_register now t sid agent backend profile dir g"
  have "counted ?g' = (counted g)(t := counted g t + 1)"
    using counted_insert [OF gateway_okD(1) [OF assms(1)] assms(2)]
    by (simp add: fun_eq_iff counted_def create_register_def register_with_id_def new_entry_def)
  moreover have "creating_of ?g' = (creating_of g)(t := creating_of g t + 1)"
    by (simp add: fun_eq_iff creating_of_def create_register_def)
  moreover have "(t, sid) \<notin> set (gw_creating g)" using gateway_okD(4) [OF assms(1), of t sid] assms(2) by auto
  moreover have "registry_ok (gw_registry ?g')"
    using gateway_okD(1) [OF assms(1)] by (simp add: create_register_def register_with_id_def registry_ok_insert)
  ultimately show ?thesis
    using slots.join_matches [OF gateway_okD(2) [OF assms(1)] assms(3)] gateway_okD(3,4) [OF assms(1)]
    by (auto simp: gateway_ok_def create_register_def register_with_id_def new_entry_def)
qed

lemma creating_pos: "(t, sid) \<in> set (gw_creating g) \<Longrightarrow> 0 < creating_of g t"
  unfolding creating_of_def by (metis count_list_0_iff fst_conv gr0I image_eqI list.set_map)

lemma creating_of_settled:
  assumes "(t, sid) \<in> set (gw_creating g)"
  shows "creating_of (g\<lparr>gw_creating := remove1 (t, sid) (gw_creating g)\<rparr>) = (creating_of g)(t := creating_of g t - 1)"
  using count_remove1_fst [OF assms] by (simp add: fun_eq_iff creating_of_def)

lemma gateway_ok_commit:
  assumes "gateway_ok lc g" and "(t, sid) \<in> set (gw_creating g)"
  shows "\<exists>g'. create_commit t sid g = Some g' \<and> gateway_ok lc g'"
proof -
  obtain a where "commit_reservation t (gw_admission g) = Some a"
    "slots.matches lc a (remove1 t (gw_permits g)) (counted g) ((creating_of g)(t := creating_of g t - 1))"
    using slots.settle_matches [OF gateway_okD(2) [OF assms(1)] creating_pos [OF assms(2)]] by blast
  then show ?thesis
    using assms(1) creating_of_settled [OF assms(2)] gateway_okD(4) [OF assms(1)]
    by (auto simp: create_commit_def commit_permit_def gateway_ok_def dest!: set_remove1_subset [THEN subsetD])
qed

lemma gateway_ok_fail:
  assumes "gateway_ok lc g" and "(t, sid) \<in> set (gw_creating g)"
  shows "\<exists>g'. create_fail t sid g = Some g' \<and> gateway_ok lc g'"
proof -
  let ?r = "fst (reg_remove t sid (gw_registry g))"
  let ?g1 = "g\<lparr>gw_registry := ?r, gw_creating := remove1 (t, sid) (gw_creating g)\<rparr>"
  obtain e where e: "reg_resolve t sid (gw_registry g) = Some e" "capacity_counted e"
    using gateway_okD(4) [OF assms] by blast
  have "counted ?g1 = (counted g)(t := counted g t - 1)"
    using counted_remove [OF gateway_okD(1) [OF assms(1)] e(1), of capacity_counted] e(2)
    by (simp add: fun_eq_iff counted_def)
  moreover have "creating_of ?g1 = (creating_of g)(t := creating_of g t - 1)"
    using count_remove1_fst [OF assms(2)] by (simp add: fun_eq_iff creating_of_def)
  moreover obtain a where "release_reservation t (gw_admission g) = Some a"
    "slots.matches lc a (remove1 t (gw_permits g)) ((counted g)(t := counted g t - 1)) ((creating_of g)(t := creating_of g t - 1))"
    using slots.abandon_matches [OF gateway_okD(2) [OF assms(1)] creating_pos [OF assms(2)]] by blast
  moreover have "distinct (gw_creating g)" by (rule gateway_okD(3) [OF assms(1)])
  then have "\<exists>e. reg_resolve t' sid' ?r = Some e \<and> capacity_counted e" if "(t', sid') \<in> set (remove1 (t, sid) (gw_creating g))" for t' sid'
    using that gateway_okD(4) [OF assms(1), of t' sid'] by auto
  ultimately show ?thesis
    using assms(1) registry_ok_remove [OF gateway_okD(1) [OF assms(1)], of t sid]
    by (auto simp: create_fail_def drop_permit_def gateway_ok_def)
qed

lemma gateway_ok_evict:
  assumes "gateway_ok lc g" and "(t, sid) \<notin> set (gw_creating g)"
  shows "\<exists>g'. evict_session t sid g = Some g' \<and> gateway_ok lc g'"
proof (cases "reg_resolve t sid (gw_registry g)")
  case None
  let ?r = "fst (reg_remove t sid (gw_registry g))"
  have "evict_session t sid g = Some (g\<lparr>gw_registry := ?r\<rparr>)"
    using None removed_entry [of t sid "gw_registry g"]
    by (cases "reg_remove t sid (gw_registry g)") (simp add: evict_session_def)
  moreover have "AList.delete sid (inner_map (sessions (gw_registry g)) t) = inner_map (sessions (gw_registry g)) t"
    using None by (intro delete_id) (simp add: reg_resolve_def nested_get_inner map_of_eq_None_iff)
  then have "gateway_ok lc (g\<lparr>gw_registry := ?r\<rparr>)"
    using None by (intro gateway_ok_registry [OF assms(1)]) (auto simp: counted_def gateway_okD(1) [OF assms(1)] registry_ok_remove)
  ultimately show ?thesis by blast
next
  case (Some e)
  let ?r = "fst (reg_remove t sid (gw_registry g))"
  have remove: "reg_remove t sid (gw_registry g) = (?r, Some e)"
    using Some removed_entry [of t sid "gw_registry g"] by (metis prod.collapse)
  have ok: "registry_ok ?r" by (rule registry_ok_remove [OF gateway_okD(1) [OF assms(1)]])
  have rest: "\<exists>e. reg_resolve t' sid' ?r = Some e \<and> capacity_counted e" if "(t', sid') \<in> set (gw_creating g)" for t' sid'
    using that gateway_okD(4) [OF assms(1) that] assms(2) by auto
  have count: "counted (g\<lparr>gw_registry := ?r\<rparr>) = (counted g)(t := counted g t - (if capacity_counted e then 1 else 0))"
    using counted_remove [OF gateway_okD(1) [OF assms(1)] Some, of capacity_counted]
    by (auto simp: fun_eq_iff counted_def)
  show ?thesis
  proof (cases "capacity_counted e")
    case True
    obtain a where a: "release_live t (gw_admission g) = Some a"
      "slots.matches lc a (gw_permits g) ((counted g)(t := counted g t - 1)) (creating_of g)"
      using slots.leave_matches [OF gateway_okD(2) [OF assms(1)] creating_lt_counted [OF assms(1) Some True assms(2)]] by blast
    let ?g' = "g\<lparr>gw_registry := ?r, gw_admission := a\<rparr>"
    have "counted ?g' = (counted g)(t := counted g t - 1)" using count True by simp
    moreover have "\<forall>(t', sid')\<in>set (gw_creating g). \<exists>e. reg_resolve t' sid' ?r = Some e \<and> capacity_counted e"
      using rest by blast
    ultimately have "gateway_ok lc ?g'"
      using a(2) ok gateway_okD(3) [OF assms(1)] by (simp add: gateway_ok_def)
    moreover have "evict_session t sid g = Some ?g'" by (subst evict_session_def, subst remove) (simp add: True a(1))
    ultimately show ?thesis by blast
  next
    case False
    then have "count_vals capacity_counted (inner_map (sessions ?r) t') = counted g t'" for t'
      using fun_cong [OF count, of t'] by (simp add: counted_def split: if_splits)
    then have "gateway_ok lc (g\<lparr>gw_registry := ?r\<rparr>)"
      using ok rest by (intro gateway_ok_registry [OF assms(1)])
    moreover have "evict_session t sid g = Some (g\<lparr>gw_registry := ?r\<rparr>)"
      by (subst evict_session_def, subst remove) (simp add: False)
    ultimately show ?thesis by blast
  qed
qed

lemma gateway_ok_step:
  assumes "gateway_step lc g g'" and "gateway_ok lc g"
  shows "gateway_ok lc g'"
  using assms
proof (induction rule: gateway_step.induct)
  case (GwAdmit t g g')
  then show ?case by (blast intro: gateway_ok_admit(1))
next
  case (GwDrop g t g')
  then show ?case using gateway_ok_drop by fastforce
next
  case (GwRehydrate t sid g entry g')
  then obtain g1 where "admit_session lc t g = Inr g1"
    by (cases "admit_session lc t g") (auto simp: rehydrate_session_def)
  then show ?case using gateway_ok_rehydrate [of lc g t sid entry g1] GwRehydrate by auto
next
  case (GwPromote t sid g g')
  show ?case
  proof (cases "g' = g")
    case False
    obtain e where e: "reg_resolve t sid (gw_registry g) = Some e" "\<not> capacity_counted e"
      using GwPromote False by (auto simp: ensure_capacity_for_active_turn_def split: option.splits if_splits)
    obtain g1 where "admit_session lc t g = Inr g1"
      using GwPromote e by (cases "admit_session lc t g") (auto simp: ensure_capacity_for_active_turn_def)
    then show ?thesis using gateway_ok_promote [OF GwPromote(2) e] GwPromote(1) by auto
  qed (use GwPromote in simp)
next
  case (GwDiscover t sid g now agent backend profile dir used g' used' answer)
  then show ?case by (blast intro: gateway_ok_discover)
next
  case (GwRegister t sid g)
  then show ?case by (blast intro: gateway_ok_register)
next
  case (GwCommit t sid g g')
  then show ?case using gateway_ok_commit by fastforce
next
  case (GwFail t sid g g')
  then show ?case using gateway_ok_fail by fastforce
next
  case (GwUpdate f g t sid)
  then show ?case by (blast intro: gateway_ok_update)
next
  case (GwEvict t sid g g')
  then show ?case using gateway_ok_evict by fastforce
qed

lemma gateway_reachable_ok: "gateway_reachable lc g \<Longrightarrow> gateway_ok lc g"
  by (induction rule: gateway_reachable.induct) (auto intro: gateway_ok_step)

text \<open>The registry of a gateway only makes registry steps.\<close>

definition counted_entries :: "gateway \<Rightarrow> (tenant_id \<times> string \<times> session_entry) list" where
  "counted_entries g = filter (\<lambda>(t, sid, e). capacity_counted e) (nested_entries (sessions (gw_registry g)))"

lemma counted_entries_sum:
  assumes "registry_ok (gw_registry g)"
  shows "length (counted_entries g) = (\<Sum>t\<in>fst ` set (sessions (gw_registry g)). counted g t)"
  unfolding counted_entries_def count_vals_entries count_vals_total [OF registry_okD(1) [OF assms]] counted_def ..

section \<open>Properties\<close>


text \<open>A gateway that has created one session.\<close>

definition sample_gateway :: gateway where
  "sample_gateway =
     \<lparr>gw_registry = register_with_id 5 ''acme'' ''g1'' ''codex'' ''b1'' None None registry_new,
      gw_admission = \<lparr>live_total = 0, live_by_tenant = [], reserved_total = 1, reserved_by_tenant = [(''acme'', 1)]\<rparr>,
      gw_permits = [''acme''], gw_creating = [(''acme'', ''g1'')]\<rparr>"

lemma sample_gateway_reachable: "gateway_reachable default_lifecycle sample_gateway"
proof -
  let ?g1 = "\<lparr>gw_registry = registry_new,
      gw_admission = \<lparr>live_total = 0, live_by_tenant = [], reserved_total = 1, reserved_by_tenant = [(''acme'', 1)]\<rparr>,
      gw_permits = [''acme''], gw_creating = []\<rparr>"
  have "admit_session default_lifecycle ''acme'' gateway_new = Inr ?g1"
    by (simp add: admit_session_def gateway_new_def reserve_def admission_new_def default_lifecycle_def)
  then have "gateway_reachable default_lifecycle ?g1" by (blast intro: GwNew GwStep GwAdmit)
  moreover have "gateway_step default_lifecycle ?g1 sample_gateway"
    using GwRegister [of "''acme''" "''g1''" ?g1 default_lifecycle 5 "''codex''" "''b1''" None None]
    by (simp add: create_register_def sample_gateway_def reg_resolve_def registry_new_def creating_of_def)
  ultimately show ?thesis by (rule GwStep)
qed


text \<open>
  The counters never underflow and the tenant they look up always exists: in a reachable
  state no operation of the router panics, unless it removes a session that is being created.
\<close>

theorem gateway_never_panics:
  assumes "gateway_reachable lc g"
  shows "((t, sid) \<in> set (gw_creating g) \<longrightarrow> create_commit t sid g \<noteq> None \<and> create_fail t sid g \<noteq> None)
    \<and> ((t, sid) \<notin> set (gw_creating g) \<longrightarrow> evict_session t sid g \<noteq> None)
    \<and> (creating_of g t < count_list (gw_permits g) t \<longrightarrow> drop_permit t g \<noteq> None)
    \<and> ensure_capacity_for_active_turn lc t sid g \<noteq> None
    \<and> (reg_resolve t sid (gw_registry g) = None \<and> entry_ok entry \<and> capacity_counted entry \<longrightarrow>
        rehydrate_session lc t sid entry g \<noteq> None)"
proof -
  have ok: "gateway_ok lc g" by (rule gateway_reachable_ok [OF assms])
  have "ensure_capacity_for_active_turn lc t sid g \<noteq> None"
  proof (cases "\<exists>e. reg_resolve t sid (gw_registry g) = Some e \<and> \<not> capacity_counted e")
    case True
    then show ?thesis
      using gateway_ok_promote [OF ok, of t sid]
      by (cases "admit_session lc t g") (auto simp: ensure_capacity_for_active_turn_def)
  qed (auto simp: ensure_capacity_for_active_turn_def split: option.splits)
  moreover have "rehydrate_session lc t sid entry g \<noteq> None"
    if "reg_resolve t sid (gw_registry g) = None" "entry_ok entry" "capacity_counted entry"
    using gateway_ok_rehydrate [OF ok that] by (cases "admit_session lc t g") (auto simp: rehydrate_session_def)
  ultimately show ?thesis
    using gateway_ok_commit [OF ok, of t sid] gateway_ok_fail [OF ok, of t sid] gateway_ok_evict [OF ok, of t sid]
      gateway_ok_drop [OF ok, of t]
    by auto
qed

theorem gateway_never_panics_witness:
  "create_commit ''acme'' ''g1'' sample_gateway \<noteq> None"
  using gateway_never_panics [OF sample_gateway_reachable, of "''acme''" "''g1''"] by (simp add: sample_gateway_def)

text \<open>
  A session that is removed while \<open>session/new\<close> is still writing it to the database makes
  the router panic when its tenant has no other live session: the session is counted already,
  its slot is still a reservation.
\<close>

theorem eviction_during_creation_panics:
  assumes "gateway_reachable lc g" and "(t, sid) \<in> set (gw_creating g)"
    and "counter (live_by_tenant (gw_admission g)) t = 0"
  shows "evict_session t sid g = None"
proof -
  have ok: "gateway_ok lc g" by (rule gateway_reachable_ok [OF assms(1)])
  obtain e where e: "reg_resolve t sid (gw_registry g) = Some e" "capacity_counted e"
    using gateway_okD(4) [OF ok assms(2)] by blast
  then obtain r where "reg_remove t sid (gw_registry g) = (r, Some e)"
    using removed_entry [of t sid "gw_registry g"] by (metis prod.collapse)
  moreover have "release_live t (gw_admission g) = None"
    using assms(3) by (simp add: release_live_def decrement_None)
  ultimately show ?thesis using e(2) by (simp add: evict_session_def)
qed

theorem eviction_during_creation_panics_witness: "evict_session ''acme'' ''g1'' sample_gateway = None"
  by (rule eviction_during_creation_panics [OF sample_gateway_reachable]) (simp_all add: sample_gateway_def)

text \<open>
  C38. \<open>session/list\<close> translates a backend session to a session of the tenant that asks for it,
  never to one of another tenant: the answer is a session of this tenant for this backend
  session, there is none when only another tenant owns it, no other tenant's sessions change, no
  slot is used, and one call registers at most the configured number of sessions.
\<close>

theorem discovery_respects_owner:
  assumes "gateway_reachable lc g" and "reg_resolve t sid (gw_registry g) = None"
    and "translate_or_register lc now t sid agent backend profile dir used g = (g', used', answer)"
  shows "(case answer of
            Some gid \<Rightarrow> \<exists>e. reg_resolve t gid (gw_registry g') = Some e \<and> owns_backend agent backend e
          | None \<Rightarrow> g' = g \<and> used' = used)
    \<and> ((\<exists>t' sid' e. t' \<noteq> t \<and> reg_resolve t' sid' (gw_registry g) = Some e \<and> owns_backend agent backend e)
        \<and> (\<forall>sid' e. reg_resolve t sid' (gw_registry g) = Some e \<longrightarrow> \<not> owns_backend agent backend e) \<longrightarrow> answer = None)
    \<and> (\<forall>t' sid'. t' \<noteq> t \<longrightarrow> reg_resolve t' sid' (gw_registry g') = reg_resolve t' sid' (gw_registry g))
    \<and> counted g' = counted g
    \<and> (\<forall>cap. max_new_sessions_per_list_call lc = Some cap \<and> used \<le> cap \<longrightarrow> used' \<le> cap)"
proof -
  have ok: "gateway_ok lc g" by (rule gateway_reachable_ok [OF assms(1)])
  then have ok': "gateway_ok lc g'" by (rule gateway_ok_discover [OF _ assms(2,3)])
  have same: "gw_admission g' = gw_admission g \<and> creating_of g' = creating_of g"
    using assms(3) by (auto simp: translate_or_register_def Let_def split: option.splits if_splits)
  have "counted g' t' = counted g t'" for t'
    using gateway_okD(2) [OF ok] gateway_okD(2) [OF ok'] same by (simp add: slots.matches_def)
  then have "counted g' = counted g" by blast
  moreover have "answer = None"
    if other: "t' \<noteq> t" "reg_resolve t' sid' (gw_registry g) = Some e" "owns_backend agent backend e"
      and own: "\<And>sid' e. reg_resolve t sid' (gw_registry g) = Some e \<Longrightarrow> \<not> owns_backend agent backend e" for t' sid' e
  proof -
    have "find_by_backend t agent backend (gw_registry g) = None"
      using find_by_backend_Some [OF gateway_okD(1) [OF ok]] own by (metis option.exhaust)
    moreover obtain owner where owner: "find_owner agent backend (gw_registry g) = Some owner"
      using find_owner_None other(2,3) by (metis option.exhaust)
    moreover have "owner \<noteq> t"
      using find_owner_Some [OF gateway_okD(1) [OF ok] owner] own by auto
    ultimately show ?thesis using assms(3) by (simp add: translate_or_register_def)
  qed
  moreover have "case answer of
      Some gid \<Rightarrow> \<exists>e. reg_resolve t gid (gw_registry g') = Some e \<and> owns_backend agent backend e
    | None \<Rightarrow> g' = g \<and> used' = used"
  proof (cases "find_by_backend t agent backend (gw_registry g)")
    case (Some gid)
    then have "g' = g" "answer = Some gid" using assms(3) by (simp_all add: translate_or_register_def)
    then show ?thesis using find_by_backend_Some [OF gateway_okD(1) [OF ok] Some] by simp
  next
    case None
    then show ?thesis
      using assms(3)
      by (auto simp: translate_or_register_def Let_def register_with_id_def owns_backend_def new_entry_def
          split: option.splits if_splits)
  qed
  moreover have "reg_resolve t' sid' (gw_registry g') = reg_resolve t' sid' (gw_registry g)" if "t' \<noteq> t" for t' sid'
    using assms(3) that
    by (auto simp: translate_or_register_def Let_def register_with_id_def split: option.splits if_splits)
  moreover have "used' \<le> cap" if "max_new_sessions_per_list_call lc = Some cap" "used \<le> cap" for cap
    using assms(3) that by (auto simp: translate_or_register_def Let_def split: option.splits if_splits)
  ultimately show ?thesis by blast
qed

theorem discovery_respects_owner_witness:
  "snd (snd (translate_or_register default_lifecycle 9 ''other'' ''g2'' ''codex'' ''b1'' None None 0 sample_gateway)) = None"
proof -
  obtain g' used' answer where
    r: "translate_or_register default_lifecycle 9 ''other'' ''g2'' ''codex'' ''b1'' None None 0 sample_gateway = (g', used', answer)"
    by (rule prod_cases3)
  have none: "reg_resolve ''other'' sid (gw_registry sample_gateway) = None" for sid
    by (simp add: sample_gateway_def register_with_id_def reg_resolve_def registry_new_def reg_insert_def)
  have "reg_resolve ''acme'' ''g1'' (gw_registry sample_gateway) = Some (new_entry 5 ''codex'' ''b1'' None None)"
    by (simp add: sample_gateway_def register_with_id_def)
  moreover have "owns_backend ''codex'' ''b1'' (new_entry 5 ''codex'' ''b1'' None None)"
    by (simp add: owns_backend_def new_entry_def)
  ultimately have "\<exists>t' sid' e. t' \<noteq> ''other'' \<and> reg_resolve t' sid' (gw_registry sample_gateway) = Some e
      \<and> owns_backend ''codex'' ''b1'' e"
    by (intro exI [of _ "''acme''"] exI [of _ "''g1''"]) simp
  with discovery_respects_owner [OF sample_gateway_reachable none r] none have "answer = None" by simp
  then show ?thesis by (simp add: r)
qed

end
