(* ===== verification/Notify.thy ===== *)
theory Notify
  imports SessionRegistry Payload
begin

text \<open>
  The live update streams of the gateway: \<open>acpx-core/src/notify.rs\<close>.  A stream numbers its
  envelopes, keeps the last of them for replay and sends them to its receivers; a client that
  reconnects resumes with the number of the last envelope it has seen and the epoch of the
  stream.

  The broadcast channel of the runtime is not modelled: a stream records what it has sent
  (\<open>st_sent\<close>) and how many receivers it has, and what a receiver yields is an argument; the
  documented behaviour, that a receiver which keeps up yields everything sent after it was made,
  is a hypothesis where it is used.
\<close>

section \<open>State\<close>

record 'v envelope =
  env_seq :: nat
  env_epoch :: string
  env_value :: 'v

type_synonym stream_key = "tenant_id \<times> string"

record epoch_state =
  ep_generation :: nat
  ep_backend :: "string option"
  ep_value :: string

record 'v session_stream =
  st_replay :: "'v envelope list"
  st_next_seq :: nat
  st_epoch :: epoch_state
  st_last_activity :: instant
  st_reaper_started :: bool
  st_sent :: "'v envelope list"
  st_receivers :: nat

record resume_cursor =
  cur_last_seq :: nat
  cur_epoch :: string

record resume_state =
  rs_backend :: "string option"
  rs_durable_changed :: bool

definition default_resume_state :: resume_state where
  "default_resume_state = \<lparr>rs_backend = None, rs_durable_changed = False\<rparr>"

datatype subscribe_error = TooManySubscribers nat | ResyncRequired string nat

record 'v subscription =
  sub_replay :: "'v envelope list"
  sub_from :: nat
  sub_floor :: "nat option"

record 'v notification_hub =
  hub_streams :: "(stream_key \<times> 'v session_stream) list"
  hub_reaped :: "(stream_key \<times> nat) list"
  hub_capacity :: nat
  hub_max_subscribers :: nat
  hub_replay_size :: nat
  hub_nonce :: string
  hub_retention :: duration

definition with_stream_retention :: "string \<Rightarrow> nat \<Rightarrow> nat \<Rightarrow> nat \<Rightarrow> duration \<Rightarrow> 'v notification_hub" where
  "with_stream_retention nonce capacity subscribers replay_size retention =
     \<lparr>hub_streams = [], hub_reaped = [], hub_capacity = max capacity 1, hub_max_subscribers = max subscribers 1,
      hub_replay_size = max replay_size 1, hub_nonce = nonce, hub_retention = retention\<rparr>"

definition hub_new :: "string \<Rightarrow> 'v notification_hub" where
  "hub_new nonce = with_stream_retention nonce 256 16 200 (from_secs 300)"

section \<open>Resume metadata in the update\<close>

fun set_object_field :: "string \<Rightarrow> json \<Rightarrow> json \<Rightarrow> json" where
  "set_object_field k v (JObject kvs) = JObject (AList.update k v kvs)"
| "set_object_field k v j = j"

text \<open>Only a JSON object under \<open>params\<close> is extended, and only an object (or nothing) under \<open>_acpx\<close>.\<close>

definition into_value :: "json envelope \<Rightarrow> json" where
  "into_value env =
     (case env_value env of
        JObject kvs \<Rightarrow>
          (case map_of kvs ''params'' of
             Some (JObject params) \<Rightarrow>
               (let extension = (case map_of params ''_acpx'' of Some j \<Rightarrow> j | None \<Rightarrow> JObject []);
                    extension' = set_object_field ''epoch'' (JString (env_epoch env))
                                   (set_object_field ''seq'' (JNumber (show_nat (env_seq env))) extension)
                in JObject (AList.update ''params'' (JObject (AList.update ''_acpx'' extension' params)) kvs))
           | _ \<Rightarrow> env_value env)
      | j \<Rightarrow> j)"

section \<open>Epochs\<close>

definition hex_char :: "nat \<Rightarrow> char" where
  "hex_char d = char_of (if d < 10 then 48 + d else 87 + d)"

fun hex_fixed :: "nat \<Rightarrow> nat \<Rightarrow> string" where
  "hex_fixed 0 n = []"
| "hex_fixed (Suc k) n = hex_fixed k (n div 16) @ [hex_char (n mod 16)]"

definition fnv_prime :: "64 word" where "fnv_prime = 0x100000001b3"

definition fnv_step :: "64 word \<Rightarrow> nat \<Rightarrow> 64 word" where
  "fnv_step h byte = xor h (of_nat byte) * fnv_prime"

definition string_bytes :: "string \<Rightarrow> nat list" where "string_bytes s = map of_char s"

definition u64_le_bytes :: "nat \<Rightarrow> nat list" where
  "u64_le_bytes n = map (\<lambda>i. n div 256 ^ i mod 256) [0..<8]"

definition epoch_value :: "stream_key \<Rightarrow> string \<Rightarrow> nat \<Rightarrow> string option \<Rightarrow> string" where
  "epoch_value key nonce generation backend =
     hex_fixed 16 (unat (foldl fnv_step 0xcbf29ce484222325
       (string_bytes (fst key) @ string_bytes (snd key) @ string_bytes nonce @ u64_le_bytes generation @
        string_bytes (case backend of None \<Rightarrow> [] | Some b \<Rightarrow> b))))"

section \<open>Publishing\<close>

text \<open>The three steps of a publication; between them other tasks may run.\<close>

definition take_seq :: "'v \<Rightarrow> 'v session_stream \<Rightarrow> 'v envelope \<times> 'v session_stream" where
  "take_seq v st =
     (\<lparr>env_seq = st_next_seq st, env_epoch = ep_value (st_epoch st), env_value = v\<rparr>,
      st\<lparr>st_next_seq := st_next_seq st + 1\<rparr>)"

function pop_excess :: "nat \<Rightarrow> 'a list \<Rightarrow> 'a list" where
  "pop_excess limit es = (if limit < length es then pop_excess limit (tl es) else es)"
  by pat_completeness auto
termination by (relation "measure (length o snd)") auto

definition push_replay :: "nat \<Rightarrow> 'v envelope \<Rightarrow> 'v session_stream \<Rightarrow> 'v session_stream" where
  "push_replay limit env st = st\<lparr>st_replay := pop_excess limit (st_replay st @ [env])\<rparr>"

definition send_live :: "'v envelope \<Rightarrow> 'v session_stream \<Rightarrow> 'v session_stream \<times> bool" where
  "send_live env st = (st\<lparr>st_sent := st_sent st @ [env]\<rparr>, 0 < st_receivers st)"

definition publish :: "instant \<Rightarrow> stream_key \<Rightarrow> 'v \<Rightarrow> 'v notification_hub \<Rightarrow> 'v notification_hub \<times> bool" where
  "publish now key v hub =
     (case map_of (hub_streams hub) key of
        None \<Rightarrow> (hub, False)
      | Some st \<Rightarrow>
          (let (env, st1) = take_seq v st;
               st2 = push_replay (hub_replay_size hub) env st1;
               (st3, heard) = send_live env (st2\<lparr>st_last_activity := now\<rparr>)
           in (hub\<lparr>hub_streams := AList.update key st3 (hub_streams hub)\<rparr>, heard)))"

section \<open>Subscribing\<close>

definition new_stream :: "instant \<Rightarrow> stream_key \<Rightarrow> string \<Rightarrow> nat \<Rightarrow> 'v session_stream" where
  "new_stream now key nonce generation =
     \<lparr>st_replay = [], st_next_seq = 1,
      st_epoch = \<lparr>ep_generation = generation, ep_backend = None, ep_value = epoch_value key nonce generation None\<rparr>,
      st_last_activity = now, st_reaper_started = False, st_sent = [], st_receivers = 0\<rparr>"

text \<open>The epoch for the observed state of the session, and whether the replay is invalid.\<close>

definition resume_epoch :: "stream_key \<Rightarrow> string \<Rightarrow> resume_state \<Rightarrow> epoch_state \<Rightarrow> epoch_state \<times> bool" where
  "resume_epoch key nonce rs ep =
     (let backend_changed = (case (ep_backend ep, rs_backend rs) of (Some old, Some new) \<Rightarrow> old \<noteq> new | _ \<Rightarrow> False);
          changed = (backend_changed \<or> rs_durable_changed rs);
          ep' = (if changed
                 then \<lparr>ep_generation = ep_generation ep + 1, ep_backend = rs_backend rs,
                       ep_value = epoch_value key nonce (ep_generation ep + 1) (rs_backend rs)\<rparr>
                 else if ep_backend ep = None \<and> rs_backend rs \<noteq> None then ep\<lparr>ep_backend := rs_backend rs\<rparr>
                 else ep)
      in (ep', changed))"

text \<open>The receiver is made before the replay is read.\<close>

definition attach_receiver :: "'v session_stream \<Rightarrow> nat \<times> 'v session_stream" where
  "attach_receiver st = (length (st_sent st), st\<lparr>st_receivers := st_receivers st + 1\<rparr>)"

definition replay_snapshot :: "resume_cursor option \<Rightarrow> nat \<Rightarrow> 'v session_stream \<Rightarrow> 'v subscription" where
  "replay_snapshot cursor from_index st =
     (let replay = (case cursor of None \<Rightarrow> [] | Some c \<Rightarrow> filter (\<lambda>env. cur_last_seq c < env_seq env) (st_replay st))
      in \<lparr>sub_replay = replay, sub_from = from_index,
          sub_floor = (if replay = [] then None else Some (env_seq (last replay)))\<rparr>)"

definition subscribe_resuming ::
  "instant \<Rightarrow> stream_key \<Rightarrow> resume_cursor option \<Rightarrow> resume_state \<Rightarrow> 'v notification_hub \<Rightarrow>
   'v notification_hub \<times> (subscribe_error + 'v subscription)"
where
  "subscribe_resuming now key cursor rs hub =
     (let generation = counter (hub_reaped hub) key;
          st0 = (case map_of (hub_streams hub) key of
                   Some st \<Rightarrow> st
                 | None \<Rightarrow> new_stream now key (hub_nonce hub) generation);
          st1 = st0\<lparr>st_reaper_started := True\<rparr>;
          put = (\<lambda>st. hub\<lparr>hub_streams := AList.update key st (hub_streams hub)\<rparr>)
      in if hub_max_subscribers hub \<le> st_receivers st1 then (put st1, Inl (TooManySubscribers (hub_max_subscribers hub)))
         else (let (ep, clear_replay) = resume_epoch key (hub_nonce hub) rs (st_epoch st1);
                   st2 = st1\<lparr>st_epoch := ep, st_replay := (if clear_replay then [] else st_replay st1), st_last_activity := now\<rparr>
               in if (case cursor of None \<Rightarrow> False | Some c \<Rightarrow> cur_epoch c \<noteq> ep_value ep)
                  then (put st2, Inl (ResyncRequired (ep_value ep) (st_next_seq st2 - 1)))
                  else (let (from_index, st3) = attach_receiver st2
                        in (put st3, Inr (replay_snapshot cursor from_index st3)))))"

definition hub_subscribe ::
  "instant \<Rightarrow> stream_key \<Rightarrow> nat option \<Rightarrow> 'v notification_hub \<Rightarrow> 'v notification_hub \<times> (subscribe_error + 'v subscription)"
where
  "hub_subscribe now key last_seq =
     subscribe_resuming now key (map_option (\<lambda>n. \<lparr>cur_last_seq = n, cur_epoch = []\<rparr>) last_seq) default_resume_state"

definition remove_stream :: "stream_key \<Rightarrow> 'v notification_hub \<Rightarrow> 'v notification_hub" where
  "remove_stream key hub =
     hub\<lparr>hub_streams := AList.delete key (hub_streams hub), hub_reaped := AList.delete key (hub_reaped hub)\<rparr>"

text \<open>One round of the idle reaper of a stream.\<close>

definition reap_idle :: "instant \<Rightarrow> stream_key \<Rightarrow> 'v notification_hub \<Rightarrow> 'v notification_hub" where
  "reap_idle now key hub =
     (case map_of (hub_streams hub) key of
        None \<Rightarrow> hub
      | Some st \<Rightarrow>
          if st_receivers st \<noteq> 0 \<or> saturating_since now (st_last_activity st) < hub_retention hub then hub
          else hub\<lparr>hub_streams := AList.delete key (hub_streams hub),
                   hub_reaped := AList.update key (ep_generation (st_epoch st) + 1) (hub_reaped hub)\<rparr>)"

section \<open>Receiving\<close>

text \<open>\<open>incoming\<close> is what the receiver still yields; live envelopes up to the floor are skipped.\<close>

fun next_live :: "nat option \<Rightarrow> 'v envelope list \<Rightarrow> ('v envelope \<times> 'v envelope list) option" where
  "next_live floor [] = None"
| "next_live floor (env # incoming) =
     (if (case floor of None \<Rightarrow> True | Some f \<Rightarrow> f < env_seq env) then Some (env, incoming) else next_live floor incoming)"

definition sub_recv ::
  "'v subscription \<Rightarrow> 'v envelope list \<Rightarrow> ('v envelope \<times> 'v subscription \<times> 'v envelope list) option"
where
  "sub_recv sub incoming =
     (case sub_replay sub of
        env # rest \<Rightarrow> Some (env, sub\<lparr>sub_replay := rest\<rparr>, incoming)
      | [] \<Rightarrow> map_option (\<lambda>(env, incoming'). (env, sub, incoming')) (next_live (sub_floor sub) incoming))"

text \<open>Everything a client reads until nothing is left; \<open>fuel\<close> bounds the number of reads.\<close>

fun recv_all :: "nat \<Rightarrow> 'v subscription \<Rightarrow> 'v envelope list \<Rightarrow> 'v envelope list" where
  "recv_all 0 sub incoming = []"
| "recv_all (Suc fuel) sub incoming =
     (case sub_recv sub incoming of
        None \<Rightarrow> []
      | Some (env, sub', incoming') \<Rightarrow> env # recv_all fuel sub' incoming')"

declare pop_excess.simps [simp del]

section \<open>Lemmas\<close>

lemma pop_excess_drop: "pop_excess limit es = drop (length es - limit) es"
proof (induction limit es rule: pop_excess.induct)
  case (1 limit es)
  show ?case
  proof (cases "limit < length es")
    case True
    then have "drop (length es - limit) es = drop (length (tl es) - limit) (tl es)"
      by (cases es) (simp_all add: Suc_diff_le)
    with 1 True show ?thesis by (subst pop_excess.simps) simp
  qed (subst pop_excess.simps, simp)
qed

text \<open>The last \<open>limit\<close> elements.\<close>

definition last_n :: "nat \<Rightarrow> 'a list \<Rightarrow> 'a list" where "last_n limit xs = drop (length xs - limit) xs"

lemma last_n_Nil [simp]: "last_n limit [] = []"
  by (simp add: last_n_def)

lemma pop_excess_last_n: "pop_excess limit (last_n limit xs @ [x]) = last_n limit (xs @ [x])"
  by (cases "limit \<le> length xs") (simp_all add: pop_excess_drop last_n_def Suc_diff_le)

definition above_floor :: "nat option \<Rightarrow> 'v envelope \<Rightarrow> bool" where
  "above_floor floor env = (case floor of None \<Rightarrow> True | Some f \<Rightarrow> f < env_seq env)"

lemma next_live_filter:
  "next_live floor incoming = None \<Longrightarrow> filter (above_floor floor) incoming = []"
  "next_live floor incoming = Some (env, incoming') \<Longrightarrow>
    filter (above_floor floor) incoming = env # filter (above_floor floor) incoming' \<and> length incoming' < length incoming"
  by (induction incoming) (auto simp: above_floor_def split: if_splits)

text \<open>A client reads the replay and then the live envelopes above the floor.\<close>

lemma recv_all_reads:
  "length (sub_replay sub) + length incoming < fuel \<Longrightarrow>
    recv_all fuel sub incoming = sub_replay sub @ filter (above_floor (sub_floor sub)) incoming"
proof (induction fuel arbitrary: sub incoming)
  case (Suc fuel)
  show ?case
  proof (cases "sub_replay sub")
    case (Cons env rest)
    then show ?thesis using Suc.IH [of "sub\<lparr>sub_replay := rest\<rparr>" incoming] Suc.prems by (simp add: sub_recv_def)
  next
    case Nil
    show ?thesis
    proof (cases "next_live (sub_floor sub) incoming")
      case None
      then show ?thesis using Nil next_live_filter(1) [OF None] by (simp add: sub_recv_def)
    next
      case (Some p)
      then obtain env incoming' where p: "next_live (sub_floor sub) incoming = Some (env, incoming')" by (cases p) auto
      from next_live_filter(2) [OF p] show ?thesis
        using Nil Suc.IH [of sub incoming'] Suc.prems by (simp add: sub_recv_def p)
    qed
  qed
qed simp

text \<open>Consecutive numbers from \<open>k + 1\<close> on: the envelopes above a number are those after that many.\<close>

primrec numbered :: "nat \<Rightarrow> 'v envelope list \<Rightarrow> bool" where
  "numbered k [] = True"
| "numbered k (env # es) = (env_seq env = Suc k \<and> numbered (Suc k) es)"

lemma numbered_append [simp]: "numbered k (xs @ ys) \<longleftrightarrow> numbered k xs \<and> numbered (k + length xs) ys"
  by (induction xs arbitrary: k) auto

lemma numbered_drop: "numbered k es \<Longrightarrow> numbered (k + n) (drop n es)"
proof (cases "n \<le> length es")
  case True
  assume "numbered k es"
  then have "numbered k (take n es @ drop n es)" by simp
  then show ?thesis using True unfolding numbered_append by simp
qed simp

lemma filter_numbered: "numbered k es \<Longrightarrow> filter (\<lambda>env. m < env_seq env) es = drop (m - k) es"
proof (induction es arbitrary: k)
  case (Cons env es)
  then have "filter (\<lambda>env. m < env_seq env) es = drop (m - Suc k) es" "env_seq env = Suc k" by simp_all
  then show ?case by (cases "m \<le> k") (simp_all add: not_le Suc_diff_Suc flip: Suc_diff_Suc)
qed simp

lemma filter_last_n:
  assumes "numbered 0 es" and "length es \<le> last_seq + limit"
  shows "filter (\<lambda>env. last_seq < env_seq env) (last_n limit es) = drop last_seq es"
  using filter_numbered [OF numbered_drop [OF assms(1), of "length es - limit"], of last_seq] assms(2)
  by (simp add: last_n_def)

section \<open>One publication at a time\<close>

text \<open>
  The publication under way: none, numbered but not retained, or retained but not sent.  Between
  the steps of a publication other tasks may do anything that leaves the numbers, the replay
  and the channel alone.
\<close>

datatype 'v phase = Quiet | Numbered "'v envelope" | Retained "'v envelope"

inductive serial :: "nat \<Rightarrow> 'v session_stream \<times> 'v phase \<Rightarrow> 'v session_stream \<times> 'v phase \<Rightarrow> bool" for limit where
  SerialTake: "take_seq v st = (env, st') \<Longrightarrow> serial limit (st, Quiet) (st', Numbered env)"
| SerialPush: "serial limit (st, Numbered env) (push_replay limit env st, Retained env)"
| SerialSend: "serial limit (st, Retained env) (fst (send_live env st), Quiet)"
| SerialOther: "st_replay st' = st_replay st \<Longrightarrow> st_next_seq st' = st_next_seq st \<Longrightarrow> st_sent st' = st_sent st \<Longrightarrow>
    serial limit (st, ph) (st', ph)"

fun retained :: "'v session_stream \<times> 'v phase \<Rightarrow> 'v envelope list" where
  "retained (st, Retained env) = st_sent st @ [env]"
| "retained (st, ph) = st_sent st"

fun serial_ok :: "nat \<Rightarrow> 'v session_stream \<times> 'v phase \<Rightarrow> bool" where
  "serial_ok limit (st, ph) \<longleftrightarrow>
     numbered 0 (st_sent st) \<and> st_replay st = last_n limit (retained (st, ph)) \<and>
     (case ph of
        Quiet \<Rightarrow> st_next_seq st = length (st_sent st) + 1
      | Numbered env \<Rightarrow> env_seq env = length (st_sent st) + 1 \<and> st_next_seq st = length (st_sent st) + 2
      | Retained env \<Rightarrow> env_seq env = length (st_sent st) + 1 \<and> st_next_seq st = length (st_sent st) + 2)"

lemma serial_ok_new: "serial_ok limit (new_stream now key nonce g, Quiet)"
  by (simp add: new_stream_def)

lemma retained_step: "serial limit a b \<Longrightarrow> \<exists>es. retained b = retained a @ es"
  by (induction rule: serial.induct) (auto simp: take_seq_def push_replay_def send_live_def elim: phase.exhaust,
      (metis append_Nil2 phase.exhaust retained.simps)?)

lemma sent_step: "serial limit a b \<Longrightarrow> \<exists>es. st_sent (fst b) = st_sent (fst a) @ es"
  by (induction rule: serial.induct) (auto simp: take_seq_def push_replay_def send_live_def)

lemma serial_ok_step: "serial limit a b \<Longrightarrow> serial_ok limit a \<Longrightarrow> serial_ok limit b"
proof (induction rule: serial.induct)
  case (SerialPush st env)
  then show ?case by (simp add: push_replay_def pop_excess_last_n)
next
  case (SerialOther st' st ph)
  then show ?case by (cases ph) simp_all
qed (auto simp: take_seq_def send_live_def)

lemma serial_run:
  assumes "(serial limit)\<^sup>*\<^sup>* a b" and "serial_ok limit a"
  shows "serial_ok limit b" and "\<exists>es. retained b = retained a @ es" and "\<exists>es. st_sent (fst b) = st_sent (fst a) @ es"
  using assms(1)
proof (induction rule: rtranclp_induct)
  case base
  { case 1 show ?case by (rule assms(2)) }
  { case 2 show ?case by simp }
  { case 3 show ?case by simp }
next
  case (step b c)
  { case 1 show ?case by (rule serial_ok_step [OF step(2) step.IH(1)]) }
  { case 2 show ?case using step.IH(2) retained_step [OF step(2)] by auto }
  { case 3 show ?case using step.IH(3) sent_step [OF step(2)] by auto }
qed

text \<open>Nothing is retained before its number is free, nothing sent that was not retained.\<close>

lemma retained_numbered: "serial_ok limit (st, ph) \<Longrightarrow> numbered 0 (retained (st, ph))"
  by (cases ph) auto

lemma sent_retained: "\<exists>es. retained (st, ph) = st_sent st @ es \<and> length es \<le> 1"
  by (cases ph) auto

section \<open>Properties\<close>

lemma last_numbered: "numbered k es \<Longrightarrow> es \<noteq> [] \<Longrightarrow> env_seq (last es) = k + length es"
  by (induction es arbitrary: k) auto

lemma resume_reads:
  assumes "(serial limit)\<^sup>*\<^sup>* (new_stream now key nonce g, Quiet) (st1, ph1)"
    and "attach_receiver st1 = (from_index, st1')"
    and "(serial limit)\<^sup>*\<^sup>* (st1', ph1) (st2, ph2)" and "(serial limit)\<^sup>*\<^sup>* (st2, ph2) (st3, Quiet)"
    and "n \<le> length (st_sent st1)" and "length (retained (st2, ph2)) \<le> n + limit"
    and "sub = replay_snapshot (Some \<lparr>cur_last_seq = n, cur_epoch = ep\<rparr>) from_index st2"
    and "incoming = drop from_index (st_sent st3)" and "length (sub_replay sub) + length incoming < fuel"
  shows "recv_all fuel sub incoming = drop n (st_sent st3) \<and> numbered 0 (st_sent st3)"
proof -
  let ?R = "retained (st2, ph2)"
  have at: "from_index = length (st_sent st1)" "st_sent st1' = st_sent st1" "st_replay st1' = st_replay st1"
    "st_next_seq st1' = st_next_seq st1"
    using assms(2) by (auto simp: attach_receiver_def)
  have ok1: "serial_ok limit (st1, ph1)" by (rule serial_run(1) [OF assms(1) serial_ok_new])
  then have ok1': "serial_ok limit (st1', ph1)" using at by (cases ph1) auto
  have ok2: "serial_ok limit (st2, ph2)" by (rule serial_run(1) [OF assms(3) ok1'])
  have numbered3: "numbered 0 (st_sent st3)"
    using serial_run(1) [OF assms(4) ok2] by simp
  have num: "numbered 0 ?R" by (rule retained_numbered [OF ok2])
  obtain es where es: "st_sent st3 = ?R @ es" using serial_run(2) [OF assms(4) ok2] by auto
  have s1: "length (st_sent st1) \<le> length ?R"
    using serial_run(3) [OF assms(3) ok1'] sent_retained [of st2 ph2] at(2) by auto
  have replay: "sub_replay sub = drop n ?R"
    using ok2 filter_last_n [OF num assms(6)] by (simp add: assms(7) replay_snapshot_def Let_def)
  have reads: "recv_all fuel sub incoming = drop n ?R @ filter (above_floor (sub_floor sub)) incoming"
    using recv_all_reads [OF assms(9)] replay by simp
  show ?thesis
  proof (cases "drop n ?R = []")
    case True
    then have "sub_floor sub = None" using replay by (simp add: assms(7) replay_snapshot_def Let_def split: if_splits)
    moreover have "n = length ?R" "from_index = n" using True assms(5) s1 at(1) by simp_all
    ultimately show ?thesis using reads numbered3 by (simp add: assms(8) es above_floor_def)
  next
    case False
    have "sub_floor sub = Some (length ?R)"
    proof -
      have "env_seq (last (drop n ?R)) = length ?R"
        using last_numbered [OF num] False by (cases "?R = []") (simp_all add: last_drop)
      then show ?thesis using False replay by (simp add: assms(7) replay_snapshot_def Let_def split: if_splits)
    qed
    moreover have "filter (\<lambda>env. length ?R < env_seq env) incoming = drop (length ?R - from_index) incoming"
      unfolding assms(8) using numbered_drop [OF numbered3, of from_index] by (intro filter_numbered) simp
    then have "filter (above_floor (Some (length ?R))) incoming = es"
      using s1 at(1) by (simp add: assms(8) es above_floor_def [abs_def])
    ultimately show ?thesis using reads numbered3 False by (simp add: es)
  qed
qed

text \<open>
  A client that reconnects loses and repeats nothing: when publications come one at a time, the
  client has seen the first \<open>n\<close> envelopes, the stream still retains the ones after them, and
  the receiver keeps up, the client reads exactly the envelopes after the first \<open>n\<close>, in order,
  wherever a publication stands when the receiver is made and when the replay is read.
\<close>

theorem resume_exactly_once:
  assumes "(serial limit)\<^sup>*\<^sup>* (new_stream now key nonce g, Quiet) (st1, ph1)"
    and "attach_receiver st1 = (from_index, st1')"
    and "(serial limit)\<^sup>*\<^sup>* (st1', ph1) (st2, ph2)" and "(serial limit)\<^sup>*\<^sup>* (st2, ph2) (st3, Quiet)"
    and "n \<le> length (st_sent st1)" and "length (retained (st2, ph2)) \<le> n + limit"
    and "sub = replay_snapshot (Some \<lparr>cur_last_seq = n, cur_epoch = ep\<rparr>) from_index st2"
    and "incoming = drop from_index (st_sent st3)" and "length (sub_replay sub) + length incoming < fuel"
  shows "recv_all fuel sub incoming = drop n (st_sent st3) \<and> numbered 0 (st_sent st3)"
  by (rule resume_reads [OF assms])

theorem resume_exactly_once_witness:
  "recv_all 5 (replay_snapshot (Some \<lparr>cur_last_seq = 0, cur_epoch = []\<rparr>) 0
      (fst (send_live \<lparr>env_seq = 1, env_epoch = epoch_value (''t'', ''s'') ''p'' 0 None, env_value = ''a''\<rparr>
        (push_replay 2 \<lparr>env_seq = 1, env_epoch = epoch_value (''t'', ''s'') ''p'' 0 None, env_value = ''a''\<rparr>
          (snd (take_seq ''a'' (snd (attach_receiver (new_stream 0 (''t'', ''s'') ''p'' 0)))))))))
      [\<lparr>env_seq = 1, env_epoch = epoch_value (''t'', ''s'') ''p'' 0 None, env_value = ''a''\<rparr>]
    = [\<lparr>env_seq = 1, env_epoch = epoch_value (''t'', ''s'') ''p'' 0 None, env_value = ''a''\<rparr>]"
proof -
  let ?st = "new_stream 0 (''t'', ''s'') ''p'' 0 :: string session_stream"
  let ?env = "\<lparr>env_seq = 1, env_epoch = epoch_value (''t'', ''s'') ''p'' 0 None, env_value = ''a''\<rparr>"
  let ?st1 = "snd (attach_receiver ?st)"
  let ?st2 = "snd (take_seq ''a'' ?st1)"
  let ?st3 = "fst (send_live ?env (push_replay 2 ?env ?st2))"
  have "serial 2 (?st1, Quiet) (?st2, Numbered ?env)"
    by (intro SerialTake) (simp add: take_seq_def attach_receiver_def new_stream_def)
  moreover have "serial 2 (?st2, Numbered ?env) (push_replay 2 ?env ?st2, Retained ?env)" by (rule SerialPush)
  moreover have "serial 2 (push_replay 2 ?env ?st2, Retained ?env) (?st3, Quiet)" by (rule SerialSend)
  ultimately have "(serial 2)\<^sup>*\<^sup>* (?st1, Quiet) (?st3, Quiet)"
    by (blast intro: rtranclp.rtrancl_into_rtrancl)
  moreover have "attach_receiver ?st = (0, ?st1)" by (simp add: attach_receiver_def new_stream_def)
  ultimately have "recv_all 5 (replay_snapshot (Some \<lparr>cur_last_seq = 0, cur_epoch = []\<rparr>) 0 ?st3) (drop 0 (st_sent ?st3))
      = drop 0 (st_sent ?st3) \<and> numbered 0 (st_sent ?st3)"
    by (intro resume_exactly_once [where limit = 2, OF rtranclp.rtrancl_refl _ _ rtranclp.rtrancl_refl])
      (auto simp: replay_snapshot_def send_live_def push_replay_def take_seq_def attach_receiver_def new_stream_def pop_excess_drop)
  then show ?thesis
    by (simp add: send_live_def push_replay_def take_seq_def attach_receiver_def new_stream_def)
qed

text \<open>
  A cursor that is older than the replay is accepted: the client is told to refresh only when
  the epoch differs, so the envelopes between its cursor and the oldest retained one are
  skipped without an error.
\<close>

theorem old_cursor_skips_envelopes:
  assumes "map_of (hub_streams hub) key = Some st"
    and "(serial (hub_replay_size hub))\<^sup>*\<^sup>* (new_stream start key (hub_nonce hub) g, Quiet) (st, Quiet)"
    and "st_receivers st < hub_max_subscribers hub" and "n + hub_replay_size hub \<le> length (st_sent st)"
  shows "\<exists>hub' sub. subscribe_resuming now key (Some \<lparr>cur_last_seq = n, cur_epoch = ep_value (st_epoch st)\<rparr>) default_resume_state hub
      = (hub', Inr sub)
    \<and> sub_replay sub = drop (length (st_sent st) - hub_replay_size hub) (st_sent st)
    \<and> sub_from sub = length (st_sent st)"
proof -
  have ok: "serial_ok (hub_replay_size hub) (st, Quiet)" by (rule serial_run(1) [OF assms(2) serial_ok_new])
  have epoch: "resume_epoch key (hub_nonce hub) default_resume_state ep = (ep, False)" for ep
    by (simp add: resume_epoch_def default_resume_state_def Let_def split: option.splits)
  have "numbered (0 + (length (st_sent st) - hub_replay_size hub)) (drop (length (st_sent st) - hub_replay_size hub) (st_sent st))"
    using ok by (intro numbered_drop) simp
  from filter_numbered [OF this, of n]
  have "filter (\<lambda>env. n < env_seq env) (last_n (hub_replay_size hub) (st_sent st))
      = drop (length (st_sent st) - hub_replay_size hub) (st_sent st)"
    using assms(4) by (simp add: last_n_def)
  then show ?thesis
    using assms(1,3) ok
    by (simp add: subscribe_resuming_def epoch attach_receiver_def replay_snapshot_def Let_def)
qed

text \<open>A hub that retains one envelope and has published two.\<close>

definition two_published :: "string notification_hub" where
  "two_published =
     fst (publish 0 (''t'', ''s'') ''b'' (fst (publish 0 (''t'', ''s'') ''a''
       (fst (subscribe_resuming 0 (''t'', ''s'') None default_resume_state (with_stream_retention ''p'' 1 16 1 0))))))"

theorem old_cursor_skips_envelopes_witness:
  "\<exists>hub' sub. subscribe_resuming 9 (''t'', ''s'')
      (Some \<lparr>cur_last_seq = 0, cur_epoch = epoch_value (''t'', ''s'') ''p'' 0 None\<rparr>) default_resume_state two_published
      = (hub', Inr sub)
    \<and> map env_value (sub_replay sub) = [''b'']"
proof -
  let ?key = "(''t'', ''s'')"
  let ?new = "new_stream 0 ?key ''p'' 0 :: string session_stream"
  let ?st0 = "?new\<lparr>st_reaper_started := True, st_receivers := 1\<rparr>"
  let ?env = "\<lambda>i v. \<lparr>env_seq = i, env_epoch = epoch_value ?key ''p'' 0 None, env_value = v\<rparr>"
  let ?st1 = "?st0\<lparr>st_next_seq := 2, st_replay := [?env 1 ''a''], st_sent := [?env 1 ''a'']\<rparr>"
  let ?st2 = "?st0\<lparr>st_next_seq := 3, st_replay := [?env 2 ''b''], st_sent := [?env 1 ''a'', ?env 2 ''b'']\<rparr>"
  have hub: "hub_streams two_published = [(?key, ?st2)]" "hub_replay_size two_published = 1"
    "hub_max_subscribers two_published = 16" "hub_nonce two_published = ''p''"
    by (simp_all add: two_published_def publish_def subscribe_resuming_def with_stream_retention_def resume_epoch_def
        default_resume_state_def attach_receiver_def take_seq_def push_replay_def send_live_def pop_excess_drop new_stream_def)
  have run: "(serial 1)\<^sup>*\<^sup>* (st, Quiet) (fst (send_live env (push_replay 1 env st')), Quiet)"
    if "take_seq v st = (env, st')" for v :: string and st env st'
  proof -
    have "serial 1 (st, Quiet) (st', Numbered env)" by (rule SerialTake [OF that])
    moreover have "serial 1 (st', Numbered env) (push_replay 1 env st', Retained env)" by (rule SerialPush)
    moreover have "serial 1 (push_replay 1 env st', Retained env) (fst (send_live env (push_replay 1 env st')), Quiet)"
      by (rule SerialSend)
    ultimately show ?thesis by (blast intro: rtranclp.rtrancl_into_rtrancl)
  qed
  have "serial 1 (?new, Quiet) (?st0, Quiet)" by (intro SerialOther) simp_all
  moreover have "(serial 1)\<^sup>*\<^sup>* (?st0, Quiet) (?st1, Quiet)"
    using run [of "''a''" ?st0 "?env 1 ''a''" "?st0\<lparr>st_next_seq := 2\<rparr>"]
    by (simp add: take_seq_def push_replay_def send_live_def pop_excess_drop new_stream_def)
  moreover have "(serial 1)\<^sup>*\<^sup>* (?st1, Quiet) (?st2, Quiet)"
    using run [of "''b''" ?st1 "?env 2 ''b''" "?st1\<lparr>st_next_seq := 3\<rparr>"]
    by (simp add: take_seq_def push_replay_def send_live_def pop_excess_drop new_stream_def)
  ultimately have "(serial 1)\<^sup>*\<^sup>* (?new, Quiet) (?st2, Quiet)" by (meson rtranclp.rtrancl_refl rtranclp.rtrancl_into_rtrancl rtranclp_trans)
  then show ?thesis
    using old_cursor_skips_envelopes [of two_published ?key ?st2 0 0 0 9] hub by (auto simp: new_stream_def)
qed

section \<open>Other behaviours\<close>

text \<open>
  Two publications at the same time: the number is taken before the replay is locked, so the
  second envelope can be retained first.  A client that reads the replay at that moment takes
  the second number as its floor and drops the first envelope when it arrives.
\<close>

lemma concurrent_publishers_lose_envelope:
  assumes "st = new_stream now key nonce g" and "0 < limit"
    and "take_seq a st = (env_a, st1)" and "take_seq b st1 = (env_b, st2)"
    and "st3 = push_replay limit env_b st2"
    and "attach_receiver st3 = (from_index, st4)"
    and "sub = replay_snapshot (Some \<lparr>cur_last_seq = 0, cur_epoch = ep\<rparr>) from_index st4"
    and "st5 = fst (send_live env_b (fst (send_live env_a (push_replay limit env_a st4))))"
  shows "recv_all 9 sub (drop from_index (st_sent st5)) = [env_b] \<and> st_sent st5 = [env_a, env_b]"
  using assms
  by (auto simp: take_seq_def new_stream_def push_replay_def attach_receiver_def replay_snapshot_def send_live_def
      pop_excess_drop recv_all_reads above_floor_def)

text \<open>
  A removed stream starts again with the same epoch: the generation that tells it from the old
  one is removed with it, so a cursor of the old stream is accepted.
\<close>

lemma removed_stream_accepts_old_cursor:
  assumes "0 < hub_max_subscribers hub"
  shows "\<exists>hub' sub. subscribe_resuming now key
      (Some \<lparr>cur_last_seq = n, cur_epoch = epoch_value key (hub_nonce hub) 0 None\<rparr>) default_resume_state (remove_stream key hub)
    = (hub', Inr sub)"
proof -
  have "resume_epoch key nonce default_resume_state ep = (ep, False)" for nonce ep
    by (simp add: resume_epoch_def default_resume_state_def Let_def split: option.splits)
  moreover have "map_of (AList.delete key (hub_streams hub)) key = None" "counter (AList.delete key (hub_reaped hub)) key = 0"
    by (simp_all add: delete_conv')
  ultimately show ?thesis
    using assms
    by (simp add: subscribe_resuming_def remove_stream_def new_stream_def attach_receiver_def Let_def del: counter_delete)
qed

section \<open>Epochs differ\<close>

text \<open>A step of the hash loses no information: the factor has an inverse modulo \<open>2 ^ 64\<close>.\<close>

lemma fnv_prime_inverse: "fnv_prime * 0xce965057aff6957b = 1"
  by (simp add: fnv_prime_def)

lemma fnv_cancel: "x * fnv_prime = y * fnv_prime \<Longrightarrow> x = y"
proof -
  assume "x * fnv_prime = y * fnv_prime"
  then have "(x * fnv_prime) * 0xce965057aff6957b = (y * fnv_prime) * 0xce965057aff6957b" by (rule arg_cong)
  then show "x = y" by (simp only: mult.assoc fnv_prime_inverse mult_1_right)
qed

lemma xor_same: "xor (h :: 64 word) (xor h k) = k"
  by (simp flip: xor.assoc)

lemma fnv_step_inj:
  assumes "fnv_step g b = fnv_step h b"
  shows "g = h"
proof -
  have "xor g (of_nat b) = xor h (of_nat b)" using assms unfolding fnv_step_def by (rule fnv_cancel)
  then have "xor (of_nat b) (xor (of_nat b) g) = xor (of_nat b) (xor (of_nat b) h)" by (simp add: xor.commute)
  then show ?thesis by (simp only: xor_same)
qed

lemma foldl_fnv_inj: "foldl fnv_step g bs = foldl fnv_step h bs \<Longrightarrow> g = h"
  by (induction bs arbitrary: g h) (auto dest: fnv_step_inj)

lemma fnv_step_byte:
  assumes "b < 256" and "c < 256" and "fnv_step h b = fnv_step h c"
  shows "b = c"
proof -
  have "xor h (of_nat b) = xor h (of_nat c)" using assms(3) unfolding fnv_step_def by (rule fnv_cancel)
  then have "xor h (xor h (of_nat b)) = xor h (xor h (of_nat c))" by (rule arg_cong)
  then have "unat (of_nat b :: 64 word) = unat (of_nat c :: 64 word)" by (simp only: xor_same)
  then show "b = c" using assms(1,2) by (simp add: unat_of_nat)
qed

lemma of_char_hex: "d < 16 \<Longrightarrow> of_char (hex_char d) = (if d < 10 then 48 + d else 87 + d)"
  by (simp add: hex_char_def)

lemma hex_char_inj:
  assumes "d < 16" and "e < 16" and "hex_char d = hex_char e"
  shows "d = e"
proof -
  have "(if d < 10 then 48 + d else 87 + d) = (if e < 10 then 48 + e else 87 + (e :: nat))"
    using of_char_hex [OF assms(1)] of_char_hex [OF assms(2)] assms(3) by metis
  then show ?thesis using assms(1,2) by (simp split: if_splits)
qed

lemma hex_fixed_inj: "m < 16 ^ k \<Longrightarrow> n < 16 ^ k \<Longrightarrow> hex_fixed k m = hex_fixed k n \<Longrightarrow> m = n"
proof (induction k arbitrary: m n)
  case (Suc k)
  then have "hex_fixed k (m div 16) = hex_fixed k (n div 16)" and h: "hex_char (m mod 16) = hex_char (n mod 16)"
    by simp_all
  then have "m div 16 = n div 16" using Suc by (intro Suc.IH) (simp_all add: less_mult_imp_div_less mult.commute)
  moreover have "m mod 16 = n mod 16" using h by (intro hex_char_inj) simp_all
  ultimately show ?case by (metis div_mult_mod_eq)
qed simp

text \<open>
  The epochs of two generations of a stream are different, as long as the generations are below
  256 and the backend session is the same: a cursor of a reaped stream is refused.
\<close>

lemma epoch_generations_differ:
  assumes "g < 256" and "h < 256" and "epoch_value key nonce g backend = epoch_value key nonce h backend"
  shows "g = h"
proof -
  let ?pre = "foldl fnv_step 0xcbf29ce484222325 (string_bytes (fst key) @ string_bytes (snd key) @ string_bytes nonce)"
  let ?post = "string_bytes (case backend of None \<Rightarrow> [] | Some b \<Rightarrow> b)"
  have below: "unat (w :: 64 word) < 16 ^ 16" for w using unsigned_less [of w, where ?'a = nat] by simp
  have bytes: "u64_le_bytes n = n # [0, 0, 0, 0, 0, 0, 0]" if "n < 256" for n
    using that by (simp add: u64_le_bytes_def upt_rec)
  have "unat (foldl fnv_step ?pre (u64_le_bytes g @ ?post)) = unat (foldl fnv_step ?pre (u64_le_bytes h @ ?post))"
    by (rule hex_fixed_inj [OF below below]) (use assms(3) in \<open>simp add: epoch_value_def\<close>)
  then have "foldl fnv_step ?pre (u64_le_bytes g @ ?post) = foldl fnv_step ?pre (u64_le_bytes h @ ?post)"
    by (rule unsigned_word_eqI)
  then have "foldl fnv_step (fnv_step ?pre g) ([0, 0, 0, 0, 0, 0, 0] @ ?post)
      = foldl fnv_step (fnv_step ?pre h) ([0, 0, 0, 0, 0, 0, 0] @ ?post)"
    unfolding bytes [OF assms(1)] bytes [OF assms(2)] by (simp only: append_Cons foldl_Cons)
  then have "fnv_step ?pre g = fnv_step ?pre h" by (rule foldl_fnv_inj)
  then show ?thesis by (rule fnv_step_byte [OF assms(1,2)])
qed

lemma reaped_stream_refuses_cursor:
  assumes "map_of (hub_streams hub) key = Some st" and "st_receivers st = 0"
    and "hub_retention hub \<le> now - st_last_activity st" and "0 < hub_max_subscribers hub"
    and "ep_generation (st_epoch st) < 255"
    and "ep_value (st_epoch st) = epoch_value key (hub_nonce hub) (ep_generation (st_epoch st)) None"
    and "cur_epoch c = ep_value (st_epoch st)"
  shows "snd (subscribe_resuming later key (Some c) default_resume_state (reap_idle now key hub))
    = Inl (ResyncRequired (epoch_value key (hub_nonce hub) (ep_generation (st_epoch st) + 1) None) 0)"
proof -
  have "resume_epoch key nonce default_resume_state ep = (ep, False)" for nonce ep
    by (simp add: resume_epoch_def default_resume_state_def Let_def split: option.splits)
  moreover have "epoch_value key (hub_nonce hub) (ep_generation (st_epoch st)) None
      \<noteq> epoch_value key (hub_nonce hub) (ep_generation (st_epoch st) + 1) None"
    using epoch_generations_differ [of "ep_generation (st_epoch st)" "ep_generation (st_epoch st) + 1"] assms(5) by fastforce
  ultimately show ?thesis
    using assms
    by (simp add: subscribe_resuming_def reap_idle_def saturating_since_def new_stream_def delete_conv' Let_def)
qed

end
