(* ===== verification/AgentRelay.thy ===== *)
theory AgentRelay
  imports ClaimTable Lifecycle
begin

text \<open>
  The relay of agent requests to the clients of a session: \<open>acpx-core/src/agent_relay.rs\<close>.  A
  request is offered to every subscribed client; the first of them to answer decides, the others
  are told; a client that connects later is offered what is still open.  The delivery channels
  of the runtime are connection numbers and lists of messages; the channel that carries the
  answer back is open while its call waits (\<open>rh_waiting\<close>) and carries one value.  Relay ids come
  from a counter, so an id is never used twice (\<open>rh_used\<close>).
\<close>

section \<open>State\<close>

record 'v pending_relay =
  pr_session :: string
  pr_clients :: "string list"
  pr_request :: 'v
  pr_deadline :: instant

record 'v relay_hub =
  rh_subscribers :: "(string \<times> (string \<times> nat) list) list"
  rh_pending :: "(string \<times> 'v pending_relay) list"
  rh_waiting :: "string list"
  rh_replies :: "(string \<times> 'v) list"
  rh_used :: "string list"

record 'v request_envelope =
  re_relay :: string
  re_session :: string
  re_client :: string
  re_request :: 'v

record resolution_envelope =
  rv_relay :: string
  rv_session :: string
  rv_winner :: string
  rv_selected :: bool
  rv_late :: bool

definition relay_hub_new :: "'v relay_hub" where
  "relay_hub_new = \<lparr>rh_subscribers = [], rh_pending = [], rh_waiting = [], rh_replies = [], rh_used = []\<rparr>"

section \<open>Subscriptions\<close>

definition offer_to :: "string \<Rightarrow> string \<Rightarrow> 'v pending_relay \<Rightarrow> 'v pending_relay" where
  "offer_to sid cid e = (if pr_session e = sid then e\<lparr>pr_clients := List.insert cid (pr_clients e)\<rparr> else e)"

definition subscribe_with_client ::
  "instant \<Rightarrow> string \<Rightarrow> string \<Rightarrow> nat \<Rightarrow> 'v relay_hub \<Rightarrow> 'v relay_hub \<times> 'v request_envelope list"
where
  "subscribe_with_client now sid cid conn h =
     (let open_relays = filter (\<lambda>(rid, e). now < pr_deadline e) (rh_pending h);
          replay = map (\<lambda>(rid, e). \<lparr>re_relay = rid, re_session = sid, re_client = cid, re_request = pr_request e\<rparr>)
                     (filter (\<lambda>(rid, e). pr_session e = sid) open_relays)
      in (h\<lparr>rh_subscribers := nested_insert sid cid conn (rh_subscribers h),
            rh_pending := AList.map_ran (\<lambda>_. offer_to sid cid) open_relays\<rparr>, replay))"

definition relay_unsubscribe :: "string \<Rightarrow> 'v relay_hub \<Rightarrow> 'v relay_hub" where
  "relay_unsubscribe sid h = h\<lparr>rh_subscribers := AList.delete sid (rh_subscribers h)\<rparr>"

definition revoke_from :: "string \<Rightarrow> string \<Rightarrow> 'v pending_relay \<Rightarrow> 'v pending_relay" where
  "revoke_from sid cid e = (if pr_session e = sid then e\<lparr>pr_clients := removeAll cid (pr_clients e)\<rparr> else e)"

text \<open>The two halves of a disconnect, each under its own lock.\<close>

definition revoke_claims :: "string \<Rightarrow> string \<Rightarrow> 'v relay_hub \<Rightarrow> 'v relay_hub" where
  "revoke_claims sid cid h = h\<lparr>rh_pending := AList.map_ran (\<lambda>_. revoke_from sid cid) (rh_pending h)\<rparr>"

definition drop_subscriber :: "string \<Rightarrow> string \<Rightarrow> 'v relay_hub \<Rightarrow> 'v relay_hub" where
  "drop_subscriber sid cid h =
     (case map_of (rh_subscribers h) sid of
        None \<Rightarrow> h
      | Some session \<Rightarrow>
          (let session' = AList.delete cid session
           in h\<lparr>rh_subscribers := (if session' = [] then AList.delete sid (rh_subscribers h)
                                  else AList.update sid session' (rh_subscribers h))\<rparr>))"

definition unsubscribe_client :: "string \<Rightarrow> string \<Rightarrow> 'v relay_hub \<Rightarrow> 'v relay_hub" where
  "unsubscribe_client sid cid h = drop_subscriber sid cid (revoke_claims sid cid h)"

section \<open>Requests and answers\<close>

text \<open>The first part of \<open>relay\<close>: \<open>None\<close> when nobody is subscribed.\<close>

definition relay_start ::
  "instant \<Rightarrow> string \<Rightarrow> string \<Rightarrow> 'v \<Rightarrow> duration \<Rightarrow> 'v relay_hub \<Rightarrow> ('v relay_hub \<times> 'v request_envelope list) option"
where
  "relay_start now rid sid request timeout h =
     (case map_of (rh_subscribers h) sid of
        None \<Rightarrow> None
      | Some session \<Rightarrow>
          Some (h\<lparr>rh_pending := AList.update rid
                    \<lparr>pr_session = sid, pr_clients = map fst session, pr_request = request, pr_deadline = now + timeout\<rparr>
                    (rh_pending h),
                  rh_waiting := rid # rh_waiting h, rh_used := rid # rh_used h\<rparr>,
                map (\<lambda>(cid, conn). \<lparr>re_relay = rid, re_session = sid, re_client = cid, re_request = request\<rparr>) session))"

text \<open>Its end: nobody could be reached, an answer came, or the time is up.\<close>

definition relay_undelivered :: "string \<Rightarrow> 'v relay_hub \<Rightarrow> 'v relay_hub" where
  "relay_undelivered rid h = h\<lparr>rh_pending := AList.delete rid (rh_pending h), rh_waiting := removeAll rid (rh_waiting h)\<rparr>"

definition relay_finish :: "string \<Rightarrow> 'v relay_hub \<Rightarrow> 'v relay_hub \<times> 'v option" where
  "relay_finish rid h =
     (h\<lparr>rh_pending := AList.delete rid (rh_pending h), rh_waiting := removeAll rid (rh_waiting h)\<rparr>, map_of (rh_replies h) rid)"

text \<open>The answer of a client (\<open>None\<close>: of the gateway itself), and who is told.\<close>

definition resolve_from_client ::
  "string \<Rightarrow> string option \<Rightarrow> 'v \<Rightarrow> 'v relay_hub \<Rightarrow> 'v relay_hub \<times> bool \<times> (string \<times> resolution_envelope) list"
where
  "resolve_from_client rid client response h =
     (case map_of (rh_pending h) rid of
        None \<Rightarrow> (h, False, [])
      | Some e \<Rightarrow>
          if (case client of None \<Rightarrow> False | Some c \<Rightarrow> c \<notin> set (pr_clients e)) then (h, False, [])
          else (let pending' = snd (take_entry rid (rh_pending h));
                    winner = (case client of None \<Rightarrow> ''internal'' | Some c \<Rightarrow> c);
                    delivered = rid \<in> set (rh_waiting h);
                    told = map (\<lambda>(cid, conn). (cid, \<lparr>rv_relay = rid, rv_session = pr_session e, rv_winner = winner,
                                                     rv_selected = False, rv_late = True\<rparr>))
                             (filter (\<lambda>(cid, conn). cid \<noteq> winner \<and> cid \<in> set (pr_clients e))
                               (inner_map (rh_subscribers h) (pr_session e)))
                in (h\<lparr>rh_pending := pending', rh_replies := (if delivered then rh_replies h @ [(rid, response)] else rh_replies h)\<rparr>,
                    delivered, told)))"

section \<open>Steps\<close>

inductive relay_step :: "'v relay_hub \<Rightarrow> 'v relay_hub \<Rightarrow> bool" where
  RelaySubscribe: "relay_step h (fst (subscribe_with_client now sid cid conn h))"
| RelayUnsubscribe: "relay_step h (relay_unsubscribe sid h)"
| RelayRevoke: "relay_step h (revoke_claims sid cid h)"
| RelayDrop: "relay_step h (drop_subscriber sid cid h)"
| RelayStart: "rid \<notin> set (rh_used h) \<Longrightarrow> relay_start now rid sid request timeout h = Some (h', sent) \<Longrightarrow> relay_step h h'"
| RelayUndelivered: "relay_step h (relay_undelivered rid h)"
| RelayFinish: "relay_step h (fst (relay_finish rid h))"
| RelayResolve: "relay_step h (fst (resolve_from_client rid client response h))"

definition relay_ok :: "'v relay_hub \<Rightarrow> bool" where
  "relay_ok h \<longleftrightarrow>
     distinct (map fst (rh_pending h)) \<and> distinct (map fst (rh_replies h)) \<and>
     fst ` set (rh_pending h) \<inter> fst ` set (rh_replies h) = {} \<and>
     fst ` set (rh_pending h) \<union> fst ` set (rh_replies h) \<union> set (rh_waiting h) \<subseteq> set (rh_used h)"

inductive relay_reachable :: "'v relay_hub \<Rightarrow> bool" where
  RelayNew: "relay_reachable relay_hub_new"
| RelayStep: "relay_reachable h \<Longrightarrow> relay_step h h' \<Longrightarrow> relay_reachable h'"

lemma relay_ok_new [simp]: "relay_ok relay_hub_new"
  by (simp add: relay_ok_def relay_hub_new_def)

text \<open>Everything but a new request and an answer only takes entries away.\<close>

lemma shrink_sets:
  "A \<inter> B = {} \<Longrightarrow> A \<union> B \<union> W \<subseteq> U \<Longrightarrow> A' \<subseteq> A \<Longrightarrow> W' \<subseteq> W \<Longrightarrow> A' \<inter> B = {} \<and> A' \<union> B \<union> W' \<subseteq> U"
  by blast

lemma grow_sets:
  "A \<inter> B = {} \<Longrightarrow> A \<union> B \<union> W \<subseteq> U \<Longrightarrow> x \<notin> U \<Longrightarrow>
    insert x A \<inter> B = {} \<and> insert x A \<union> B \<union> insert x W \<subseteq> insert x U"
  by blast

lemma relay_ok_shrink:
  assumes "relay_ok h" and "fst ` set (rh_pending h') \<subseteq> fst ` set (rh_pending h)" and "distinct (map fst (rh_pending h'))"
    and "rh_replies h' = rh_replies h" and "set (rh_waiting h') \<subseteq> set (rh_waiting h)" and "rh_used h' = rh_used h"
  shows "relay_ok h'"
proof -
  have "fst ` set (rh_pending h) \<inter> fst ` set (rh_replies h) = {}"
    "fst ` set (rh_pending h) \<union> fst ` set (rh_replies h) \<union> set (rh_waiting h) \<subseteq> set (rh_used h)"
    "distinct (map fst (rh_replies h))"
    using assms(1) by (simp_all add: relay_ok_def)
  with shrink_sets [OF this(1,2) assms(2,5)] show ?thesis
    using assms(3) by (simp only: relay_ok_def assms(4,6) simp_thms)
qed

lemma delete_pending:
  "fst ` set (AList.delete rid p) \<subseteq> fst ` set p" "distinct (map fst p) \<Longrightarrow> distinct (map fst (AList.delete rid p))"
  by (rule delete_notin_dom dom_delete_subset, rule distinct_delete)

lemma filter_pending:
  "fst ` set (filter P p) \<subseteq> fst ` set p" "distinct (map fst p) \<Longrightarrow> distinct (map fst (filter P p))"
  by (auto simp: distinct_map_filter)

lemma relay_ok_distinct: "relay_ok h \<Longrightarrow> distinct (map fst (rh_pending h))"
  by (simp add: relay_ok_def)

lemma relay_ok_subscribe:
  assumes "relay_ok h"
  shows "relay_ok (fst (subscribe_with_client now sid cid conn h))"
  by (rule relay_ok_shrink [OF assms])
    (simp_all add: subscribe_with_client_def Let_def dom_map_ran image_mono filter_pending(2) relay_ok_distinct [OF assms])

lemma relay_ok_resolve:
  assumes "relay_ok h"
  shows "relay_ok (fst (resolve_from_client rid client response h))"
proof (cases "map_of (rh_pending h) rid")
  case None
  then show ?thesis using assms by (simp add: resolve_from_client_def)
next
  case (Some e)
  let ?p = "AList.delete rid (rh_pending h)"
  have rid: "rid \<in> fst ` set (rh_pending h)" using map_of_SomeD [OF Some] by force
  have "rid \<notin> fst ` set ?p" by (rule delete_notin_dom)
  have ok: "relay_ok (h\<lparr>rh_pending := ?p\<rparr>)"
    by (rule relay_ok_shrink [OF assms]) (simp_all add: delete_pending [simplified] distinct_delete relay_ok_distinct [OF assms] dom_delete_subset)
  moreover have "rid \<notin> fst ` set (rh_replies h)" "rid \<in> set (rh_used h)"
    using assms rid unfolding relay_ok_def by blast+
  ultimately have "relay_ok (h\<lparr>rh_pending := ?p, rh_replies := rh_replies h @ [(rid, response)]\<rparr>)"
    using \<open>rid \<notin> fst ` set ?p\<close> unfolding relay_ok_def by simp
  then show ?thesis
    using ok assms Some by (simp add: resolve_from_client_def take_entry_def Let_def)
qed

lemma relay_ok_start:
  assumes "relay_ok h" and "rid \<notin> set (rh_used h)" and "relay_start now rid sid request timeout h = Some (h', sent)"
  shows "relay_ok h'"
proof -
  have ok: "fst ` set (rh_pending h) \<inter> fst ` set (rh_replies h) = {}"
    "fst ` set (rh_pending h) \<union> fst ` set (rh_replies h) \<union> set (rh_waiting h) \<subseteq> set (rh_used h)"
    "distinct (map fst (rh_pending h))" "distinct (map fst (rh_replies h))"
    using assms(1) by (simp_all add: relay_ok_def)
  obtain e where h': "rh_pending h' = AList.update rid e (rh_pending h)" "rh_waiting h' = rid # rh_waiting h"
    "rh_used h' = rid # rh_used h" "rh_replies h' = rh_replies h"
    using assms(3) by (auto simp: relay_start_def split: option.splits)
  have ids: "fst ` set (rh_pending h') = insert rid (fst ` set (rh_pending h))" by (simp add: h' dom_update)
  note grown = grow_sets [OF ok(1,2) assms(2)]
  show ?thesis
    unfolding relay_ok_def ids h'(2-4) list.set
  proof (intro conjI)
    show "distinct (map fst (rh_pending h'))" unfolding h'(1) by (rule distinct_update [OF ok(3)])
  qed (rule grown [THEN conjunct1] grown [THEN conjunct2] ok(4))+
qed

lemma relay_ok_step: "relay_step h h' \<Longrightarrow> relay_ok h \<Longrightarrow> relay_ok h'"
proof (induction rule: relay_step.induct)
  case (RelaySubscribe h now sid cid conn)
  then show ?case by (intro relay_ok_subscribe)
next
  case (RelayUnsubscribe h sid)
  then show ?case by (simp add: relay_unsubscribe_def relay_ok_def)
next
  case (RelayRevoke h sid cid)
  then show ?case
    by (simp add: revoke_claims_def relay_ok_def dom_map_ran)
next
  case (RelayDrop h sid cid)
  then show ?case by (simp add: drop_subscriber_def relay_ok_def Let_def split: option.splits)
next
  case (RelayStart rid h now sid request timeout h' sent)
  show ?case by (rule relay_ok_start [OF RelayStart(3,1,2)])
next
  case (RelayResolve h rid client response)
  then show ?case by (intro relay_ok_resolve)
next
  case (RelayUndelivered h rid)
  show ?case
    by (rule relay_ok_shrink [OF RelayUndelivered])
      (simp_all add: relay_undelivered_def dom_delete_subset distinct_delete relay_ok_distinct [OF RelayUndelivered])
next
  case (RelayFinish h rid)
  show ?case
    by (rule relay_ok_shrink [OF RelayFinish])
      (simp_all add: relay_finish_def dom_delete_subset distinct_delete relay_ok_distinct [OF RelayFinish])
qed

lemma relay_reachable_ok: "relay_reachable h \<Longrightarrow> relay_ok h"
  by (induction rule: relay_reachable.induct) (auto intro: relay_ok_step)

section \<open>What happens to a request\<close>

lemma relay_used_step: "relay_step h h' \<Longrightarrow> set (rh_used h) \<subseteq> set (rh_used h')"
  by (induction rule: relay_step.induct)
    (auto simp: subscribe_with_client_def relay_unsubscribe_def revoke_claims_def drop_subscriber_def relay_start_def
      relay_undelivered_def relay_finish_def resolve_from_client_def Let_def split: option.splits)

text \<open>A request that is closed stays closed, and its answer stays.\<close>

lemma relay_closed_step:
  assumes "relay_step h h'" and "rid \<in> set (rh_used h)" and "map_of (rh_pending h) rid = None"
  shows "map_of (rh_pending h') rid = None"
  using assms
proof (induction rule: relay_step.induct)
  case (RelaySubscribe h now sid cid conn)
  then have "map_of (filter (\<lambda>(rid, e). now < pr_deadline e) (rh_pending h)) rid = None"
    by (force simp: map_of_eq_None_iff)
  then show ?case by (simp add: subscribe_with_client_def Let_def map_ran_conv)
next
  case (RelayResolve h r client response)
  then show ?case
    by (auto simp: resolve_from_client_def take_entry_def Let_def delete_conv' split: option.splits)
qed (auto simp: relay_unsubscribe_def revoke_claims_def drop_subscriber_def relay_start_def relay_undelivered_def
    relay_finish_def Let_def map_ran_conv delete_conv' update_conv' split: option.splits)

lemma relay_reply_step:
  assumes "relay_step h h'" and "map_of (rh_replies h) rid = Some v"
  shows "map_of (rh_replies h') rid = Some v"
  using assms
proof (induction rule: relay_step.induct)
  case (RelayResolve h r client response)
  then show ?case
    by (auto simp: resolve_from_client_def Let_def map_add_def split: option.splits)
qed (auto simp: subscribe_with_client_def relay_unsubscribe_def revoke_claims_def drop_subscriber_def relay_start_def
    relay_undelivered_def relay_finish_def Let_def split: option.splits)

lemma relay_run:
  assumes "relay_step\<^sup>*\<^sup>* h h'" and "rid \<in> set (rh_used h)" and "map_of (rh_pending h) rid = None"
    and "map_of (rh_replies h) rid = Some v"
  shows "map_of (rh_pending h') rid = None \<and> map_of (rh_replies h') rid = Some v"
proof -
  have "rid \<in> set (rh_used h') \<and> map_of (rh_pending h') rid = None \<and> map_of (rh_replies h') rid = Some v"
    using assms(1)
  proof (induction rule: rtranclp_induct)
    case base
    then show ?case using assms by simp
  next
    case (step y z)
    then show ?case
      using relay_used_step [OF step(2)] relay_closed_step [OF step(2)] relay_reply_step [OF step(2)] by blast
  qed
  then show ?thesis by simp
qed

lemma resolve_accepted:
  assumes "resolve_from_client rid client v h = (h', True, told)"
  obtains e where "map_of (rh_pending h) rid = Some e" "rid \<in> set (rh_waiting h)"
    "client = None \<or> (\<exists>c. client = Some c \<and> c \<in> set (pr_clients e))"
    "rh_pending h' = AList.delete rid (rh_pending h)" "rh_replies h' = rh_replies h @ [(rid, v)]" "rh_used h' = rh_used h"
  using assms by (cases client) (auto simp: resolve_from_client_def take_entry_def Let_def split: option.splits if_splits)

section \<open>Properties\<close>


text \<open>Two clients of a session and a request offered to both.\<close>

definition offered_hub :: "string relay_hub" where
  "offered_hub =
     \<lparr>rh_subscribers = [(''s'', [(''c1'', 1), (''c2'', 2)])],
      rh_pending = [(''r1'', \<lparr>pr_session = ''s'', pr_clients = [''c1'', ''c2''], pr_request = ''may I'', pr_deadline = 30\<rparr>)],
      rh_waiting = [''r1''], rh_replies = [], rh_used = [''r1'']\<rparr>"

lemma offered_hub_reachable: "relay_reachable offered_hub"
proof -
  let ?h1 = "fst (subscribe_with_client 0 ''s'' ''c1'' 1 (relay_hub_new :: string relay_hub))"
  let ?h2 = "fst (subscribe_with_client 0 ''s'' ''c2'' 2 ?h1)"
  have "relay_reachable ?h2" by (blast intro: RelayNew RelayStep RelaySubscribe)
  moreover have "relay_start 10 ''r1'' ''s'' ''may I'' 20 ?h2
      = Some (offered_hub, snd (the (relay_start 10 ''r1'' ''s'' ''may I'' 20 ?h2)))"
    by (simp add: relay_start_def subscribe_with_client_def relay_hub_new_def offered_hub_def nested_insert_def inner_map_def)
  moreover have "''r1'' \<notin> set (rh_used ?h2)" by (simp add: subscribe_with_client_def relay_hub_new_def)
  ultimately show ?thesis by (blast intro: RelayStep RelayStart)
qed


text \<open>
  A client that disconnects can no longer answer, and a client that connects before the
  deadline is offered every open request of its session and can answer it; the requests of
  other sessions are not offered to it.
\<close>

theorem reconnecting_client_is_offered:
  assumes "relay_reachable h" and "map_of (rh_pending h) rid = Some e" and "rid \<in> set (rh_waiting h)"
    and "pr_session e = sid" and "now < pr_deadline e"
    and "subscribe_with_client now sid cid conn (unsubscribe_client sid cid h) = (h', replay)"
  shows "resolve_from_client rid (Some cid) v (unsubscribe_client sid cid h) = (unsubscribe_client sid cid h, False, [])
    \<and> \<lparr>re_relay = rid, re_session = sid, re_client = cid, re_request = pr_request e\<rparr> \<in> set replay
    \<and> fst (snd (resolve_from_client rid (Some cid) v h'))
    \<and> (\<forall>env\<in>set replay. \<exists>e'. map_of (rh_pending h) (re_relay env) = Some e' \<and> pr_session e' = sid \<and> re_request env = pr_request e')"
proof -
  let ?g = "unsubscribe_client sid cid h"
  have g: "rh_pending ?g = AList.map_ran (\<lambda>_. revoke_from sid cid) (rh_pending h)" "rh_waiting ?g = rh_waiting h"
    by (simp_all add: unsubscribe_client_def drop_subscriber_def revoke_claims_def Let_def split: option.splits)
  have dist: "distinct (map fst (rh_pending h))" by (rule relay_ok_distinct [OF relay_reachable_ok [OF assms(1)]])
  have entry: "map_of (rh_pending ?g) rid = Some (e\<lparr>pr_clients := removeAll cid (pr_clients e)\<rparr>)"
    by (simp add: g map_ran_conv assms(2,4) revoke_from_def)
  let ?open = "filter (\<lambda>(rid, e). now < pr_deadline e) (rh_pending ?g)"
  have "(rid, e\<lparr>pr_clients := removeAll cid (pr_clients e)\<rparr>) \<in> set ?open"
    using map_of_SomeD [OF entry] assms(5) by simp
  moreover have "distinct (map fst ?open)" using dist by (simp add: g distinct_map_filter)
  ultimately have opened: "map_of ?open rid = Some (e\<lparr>pr_clients := removeAll cid (pr_clients e)\<rparr>)"
    and replayed: "(rid, e\<lparr>pr_clients := removeAll cid (pr_clients e)\<rparr>) \<in> set ?open" by simp_all
  have h': "rh_pending h' = AList.map_ran (\<lambda>_. offer_to sid cid) ?open" "rh_waiting h' = rh_waiting h"
    and replay: "replay = map (\<lambda>(rid, e). \<lparr>re_relay = rid, re_session = sid, re_client = cid, re_request = pr_request e\<rparr>)
                     (filter (\<lambda>(rid, e). pr_session e = sid) ?open)"
    using assms(6) by (auto simp: subscribe_with_client_def Let_def g(2))
  have "map_of (rh_pending h') rid = Some (e\<lparr>pr_clients := cid # removeAll cid (pr_clients e)\<rparr>)"
    by (simp add: h' map_ran_conv opened offer_to_def assms(4))
  then have "fst (snd (resolve_from_client rid (Some cid) v h'))"
    using assms(3) by (auto simp: resolve_from_client_def h'(2) Let_def)
  moreover have "resolve_from_client rid (Some cid) v ?g = (?g, False, [])"
    by (simp add: resolve_from_client_def entry)
  moreover have "\<lparr>re_relay = rid, re_session = sid, re_client = cid, re_request = pr_request e\<rparr> \<in> set replay"
    using replayed assms(4) by (force simp: replay)
  moreover have "\<exists>e'. map_of (rh_pending h) (re_relay env) = Some e' \<and> pr_session e' = sid \<and> re_request env = pr_request e'"
    if env: "env \<in> set replay" for env
  proof -
    obtain p where p: "p \<in> set (rh_pending ?g)" "pr_session (snd p) = sid"
      "env = \<lparr>re_relay = fst p, re_session = sid, re_client = cid, re_request = pr_request (snd p)\<rparr>"
      using env unfolding replay by (auto simp: case_prod_unfold)
    have "p \<in> (\<lambda>q. (fst q, revoke_from sid cid (snd q))) ` set (rh_pending h)"
      using p(1) by (simp add: g(1) AList.map_ran_def case_prod_unfold)
    then obtain q where q': "p = (fst q, revoke_from sid cid (snd q))" "q \<in> set (rh_pending h)" by (rule imageE)
    then have q: "q \<in> set (rh_pending h)" "fst p = fst q" "snd p = revoke_from sid cid (snd q)" by simp_all
    have "map_of (rh_pending h) (fst q) = Some (snd q)" using dist q(1) by simp
    moreover have "pr_session (snd q) = sid" "pr_request (snd q) = pr_request (snd p)"
      using p(2) by (simp_all add: q(3) revoke_from_def split: if_splits)
    ultimately show ?thesis by (simp add: p(3) q(2))
  qed
  ultimately show ?thesis by (intro conjI ballI)
qed

theorem reconnecting_client_is_offered_witness:
  "snd (subscribe_with_client 20 ''s'' ''c1'' 3 (unsubscribe_client ''s'' ''c1'' offered_hub)) \<noteq> []"
proof -
  obtain h' replay where r: "subscribe_with_client 20 ''s'' ''c1'' 3 (unsubscribe_client ''s'' ''c1'' offered_hub) = (h', replay)"
    by (rule prod.exhaust)
  have entry: "map_of (rh_pending offered_hub) ''r1''
      = Some \<lparr>pr_session = ''s'', pr_clients = [''c1'', ''c2''], pr_request = ''may I'', pr_deadline = 30\<rparr>"
    by (simp add: offered_hub_def)
  have "\<lparr>re_relay = ''r1'', re_session = ''s'', re_client = ''c1'', re_request = ''may I''\<rparr> \<in> set replay"
    using reconnecting_client_is_offered [OF offered_hub_reachable entry _ _ _ r] by (simp add: offered_hub_def)
  then show ?thesis by (auto simp: r)
qed

end
