(* ===== verification/Demux.thy ===== *)
theory Demux
  imports ClaimTable Payload
begin

text \<open>
  The demultiplexer of a backend process: \<open>acpx-conductor/src/demux.rs\<close>.  One task reads the
  frames of the process; a frame whose id is registered answers the call that waits for it,
  every other frame goes to the consumer.  A call registers before it writes its request and
  then waits on a channel that carries one value.  Calls are numbered; the serializer of ids
  other than strings is the argument \<open>ser\<close>.
\<close>

section \<open>State\<close>

datatype recv_result = Answered json | ReaderClosed

record demux =
  dx_pending :: "(string \<times> nat) list"
  dx_next :: nat
  dx_results :: "(nat \<times> recv_result) list"
  dx_dropped :: "nat list"
  dx_unmatched :: "json list"

definition demux_new :: demux where
  "demux_new = \<lparr>dx_pending = [], dx_next = 0, dx_results = [], dx_dropped = [], dx_unmatched = []\<rparr>"

fun id_key :: "(json \<Rightarrow> string) \<Rightarrow> json \<Rightarrow> string" where
  "id_key ser (JString s) = s"
| "id_key ser other = ser other"

fun frame_id :: "json \<Rightarrow> json option" where
  "frame_id (JObject kvs) = map_of kvs ''id''"
| "frame_id v = None"

section \<open>Operations\<close>

text \<open>The end of a sender without a value closes the channel of its call.\<close>

definition close_call :: "nat option \<Rightarrow> demux \<Rightarrow> demux" where
  "close_call call d = (case call of None \<Rightarrow> d | Some c \<Rightarrow> d\<lparr>dx_results := dx_results d @ [(c, ReaderClosed)]\<rparr>)"

definition register_call :: "(json \<Rightarrow> string) \<Rightarrow> json \<Rightarrow> demux \<Rightarrow> demux \<times> nat" where
  "register_call ser i d =
     (let d' = close_call (map_of (dx_pending d) (id_key ser i)) d
      in (d'\<lparr>dx_pending := AList.update (id_key ser i) (dx_next d) (dx_pending d), dx_next := dx_next d + 1\<rparr>, dx_next d))"

definition cancel_call :: "(json \<Rightarrow> string) \<Rightarrow> json \<Rightarrow> demux \<Rightarrow> demux" where
  "cancel_call ser i d =
     (case take_entry (id_key ser i) (dx_pending d) of (call, pending') \<Rightarrow> (close_call call d)\<lparr>dx_pending := pending'\<rparr>)"

text \<open>The caller no longer waits.\<close>

definition drop_call :: "nat \<Rightarrow> demux \<Rightarrow> demux" where
  "drop_call c d = d\<lparr>dx_dropped := c # dx_dropped d\<rparr>"

definition resolve_call :: "(json \<Rightarrow> string) \<Rightarrow> json \<Rightarrow> json \<Rightarrow> demux \<Rightarrow> demux \<times> bool" where
  "resolve_call ser i v d =
     (case take_entry (id_key ser i) (dx_pending d) of
        (None, pending') \<Rightarrow> (d\<lparr>dx_pending := pending'\<rparr>, False)
      | (Some c, pending') \<Rightarrow>
          if c \<in> set (dx_dropped d) then (d\<lparr>dx_pending := pending'\<rparr>, False)
          else (d\<lparr>dx_pending := pending', dx_results := dx_results d @ [(c, Answered v)]\<rparr>, True))"

definition fail_all :: "demux \<Rightarrow> demux" where
  "fail_all d = d\<lparr>dx_pending := [], dx_results := dx_results d @ map (\<lambda>(k, c). (c, ReaderClosed)) (dx_pending d)\<rparr>"

text \<open>One turn of the reader loop, and the loop until the process closes its output.\<close>

definition route_frame :: "(json \<Rightarrow> string) \<Rightarrow> json \<Rightarrow> demux \<Rightarrow> demux" where
  "route_frame ser frame d =
     (case frame_id frame of
        None \<Rightarrow> d\<lparr>dx_unmatched := dx_unmatched d @ [frame]\<rparr>
      | Some i \<Rightarrow>
          (case resolve_call ser i frame d of
             (d', True) \<Rightarrow> d'
           | (d', False) \<Rightarrow> d'\<lparr>dx_unmatched := dx_unmatched d' @ [frame]\<rparr>))"

fun reader_task :: "(json \<Rightarrow> string) \<Rightarrow> json list \<Rightarrow> demux \<Rightarrow> demux" where
  "reader_task ser [] d = fail_all d"
| "reader_task ser (frame # frames) d = reader_task ser frames (route_frame ser frame d)"

section \<open>Lemmas\<close>

definition frame_key :: "(json \<Rightarrow> string) \<Rightarrow> json \<Rightarrow> string option" where
  "frame_key ser frame = map_option (id_key ser) (frame_id frame)"

text \<open>The value that the channel of a call carries: the first one.\<close>

definition call_result :: "demux \<Rightarrow> nat \<Rightarrow> recv_result option" where
  "call_result d c = map_of (dx_results d) c"

text \<open>
  Calls are numbered from zero on, at most one call waits under an id, and a waiting call has no
  result yet.
\<close>

definition demux_ok :: "demux \<Rightarrow> bool" where
  "demux_ok d \<longleftrightarrow>
     distinct (map fst (dx_pending d)) \<and> distinct (map snd (dx_pending d)) \<and>
     (\<forall>c\<in>set (map snd (dx_pending d)). c < dx_next d \<and> c \<notin> fst ` set (dx_results d)) \<and>
     (\<forall>c\<in>fst ` set (dx_results d). c < dx_next d)"

lemma demux_ok_new [simp]: "demux_ok demux_new"
  by (simp add: demux_ok_def demux_new_def)

lemma demux_okD:
  assumes "demux_ok d"
  shows "distinct (map fst (dx_pending d))" and "distinct (map snd (dx_pending d))"
    and "map_of (dx_pending d) k = Some c \<Longrightarrow> c < dx_next d \<and> call_result d c = None"
    and "map_of (dx_pending d) k = Some c \<Longrightarrow> map_of (dx_pending d) k' = Some c \<Longrightarrow> k = k'"
proof -
  show "distinct (map fst (dx_pending d))" "distinct (map snd (dx_pending d))" using assms by (simp_all add: demux_ok_def)
  show "c < dx_next d \<and> call_result d c = None" if "map_of (dx_pending d) k = Some c"
  proof -
    have "c \<in> snd ` set (dx_pending d)" using map_of_SomeD [OF that] by force
    then show ?thesis using assms by (auto simp: demux_ok_def call_result_def map_of_eq_None_iff)
  qed
  show "k = k'" if "map_of (dx_pending d) k = Some c" "map_of (dx_pending d) k' = Some c"
    using \<open>distinct (map snd (dx_pending d))\<close> map_of_SomeD [OF that(1)] map_of_SomeD [OF that(2)]
    by (metis (no_types, lifting) distinct_map fst_conv inj_on_def snd_conv)
qed

lemma call_result_close [simp]:
  "call_result (close_call None d) c = call_result d c"
  "call_result (d\<lparr>dx_pending := ps\<rparr>) c = call_result d c"
  "call_result (d\<lparr>dx_unmatched := us\<rparr>) c = call_result d c"
  "call_result (d\<lparr>dx_next := n\<rparr>) c = call_result d c"
  by (simp_all add: call_result_def close_call_def)

lemma call_result_append:
  "call_result (d\<lparr>dx_results := dx_results d @ [(c', r)]\<rparr>) c
    = (case call_result d c of Some r' \<Rightarrow> Some r' | None \<Rightarrow> if c = c' then Some r else None)"
  by (simp add: call_result_def map_add_def split: option.splits)

text \<open>Results are only ever added, so the first one of a call stays.\<close>

lemma route_frame_results: "\<exists>rs. dx_results (route_frame ser frame d) = dx_results d @ rs"
  by (auto simp: route_frame_def resolve_call_def take_entry_def split: option.splits if_splits)

lemma reader_task_results: "\<exists>rs. dx_results (reader_task ser frames d) = dx_results d @ rs"
proof (induction frames arbitrary: d)
  case (Cons frame frames)
  then show ?case using route_frame_results [of ser frame d] by (metis append_assoc reader_task.simps(2))
qed (simp add: fail_all_def)

lemma call_result_stays: "call_result d c = Some r \<Longrightarrow> call_result (reader_task ser frames d) c = Some r"
  using reader_task_results [of ser frames d]
  by (auto simp: call_result_def map_add_def split: option.splits)

lemma route_frame_dropped [simp]: "dx_dropped (route_frame ser frame d) = dx_dropped d"
  by (auto simp: route_frame_def resolve_call_def take_entry_def split: option.splits if_splits)

lemma route_frame_pending:
  "dx_pending (route_frame ser frame d)
    = (case frame_key ser frame of None \<Rightarrow> dx_pending d | Some k \<Rightarrow> snd (take_entry k (dx_pending d)))"
  by (auto simp: route_frame_def frame_key_def resolve_call_def take_entry_def split: option.splits if_splits)

lemma route_frame_answers:
  assumes "frame_key ser frame = Some k" and "map_of (dx_pending d) k = Some c" and "c \<notin> set (dx_dropped d)"
  shows "dx_results (route_frame ser frame d) = dx_results d @ [(c, Answered frame)]"
  using assms by (auto simp: route_frame_def frame_key_def resolve_call_def take_entry_def)

lemma route_frame_other:
  assumes "map_of (dx_pending d) k = Some c" and "frame_key ser frame \<noteq> Some k"
  shows "map_of (dx_pending (route_frame ser frame d)) k = Some c"
  using assms by (auto simp: route_frame_pending assoc.entry_claim split: option.splits)

lemma demux_ok_route:
  assumes "demux_ok d"
  shows "demux_ok (route_frame ser frame d)"
proof (cases "frame_key ser frame")
  case None
  then show ?thesis using assms by (auto simp: route_frame_def frame_key_def demux_ok_def)
next
  case (Some k)
  let ?p = "AList.delete k (dx_pending d)"
  have sub: "set ?p \<subseteq> set (dx_pending d)" by (auto simp: AList.delete_eq)
  have p: "distinct (map fst ?p)" "distinct (map snd ?p)"
    using demux_okD(1,2) [OF assms] by (auto simp: distinct_delete AList.delete_eq distinct_map_filter)
  show ?thesis
  proof (cases "\<exists>c. map_of (dx_pending d) k = Some c \<and> c \<notin> set (dx_dropped d)")
    case True
    then obtain c where c: "map_of (dx_pending d) k = Some c" "c \<notin> set (dx_dropped d)" by blast
    have "c \<notin> snd ` set ?p"
    proof
      assume "c \<in> snd ` set ?p"
      then obtain k' where "(k', c) \<in> set ?p" by auto
      then have "map_of (dx_pending d) k' = Some c" "k' \<noteq> k"
        using demux_okD(1) [OF assms] by (auto simp: AList.delete_eq)
      with demux_okD(4) [OF assms c(1)] show False by blast
    qed
    moreover have "dx_results (route_frame ser frame d) = dx_results d @ [(c, Answered frame)]"
      by (rule route_frame_answers [OF Some c])
    moreover have "dx_pending (route_frame ser frame d) = ?p" by (simp add: route_frame_pending Some take_entry_def)
    moreover have "dx_next (route_frame ser frame d) = dx_next d"
      using Some c by (auto simp: route_frame_def frame_key_def resolve_call_def take_entry_def)
    ultimately show ?thesis
      using assms p sub demux_okD(3) [OF assms c(1)] unfolding demux_ok_def by (auto simp: image_iff)
  next
    case False
    then have "dx_results (route_frame ser frame d) = dx_results d" "dx_next (route_frame ser frame d) = dx_next d"
      using Some by (auto simp: route_frame_def frame_key_def resolve_call_def take_entry_def split: option.splits if_splits)
    moreover have "dx_pending (route_frame ser frame d) = ?p" by (simp add: route_frame_pending Some take_entry_def)
    ultimately show ?thesis using assms p sub unfolding demux_ok_def by (auto simp: image_iff)
  qed
qed

lemma fail_all_result:
  assumes "demux_ok d" and "map_of (dx_pending d) k = Some c"
  shows "call_result (fail_all d) c = Some ReaderClosed"
proof -
  have "(c, ReaderClosed) \<in> set (map (\<lambda>(k, c). (c, ReaderClosed)) (dx_pending d))"
    using map_of_SomeD [OF assms(2)] by force
  then obtain r where r: "map_of (map (\<lambda>(k, c). (c, ReaderClosed)) (dx_pending d)) c = Some r"
    by (metis weak_map_of_SomeI)
  then have "r = ReaderClosed" by (auto dest!: map_of_SomeD)
  then show ?thesis
    using r demux_okD(3) [OF assms] by (simp add: call_result_def fail_all_def map_add_def)
qed

section \<open>Properties\<close>


text \<open>Ids that are numbers, and two calls that wait under 1 and 2.\<close>

fun show_number :: "json \<Rightarrow> string" where
  "show_number (JNumber n) = n"
| "show_number v = []"

definition two_calls :: demux where
  "two_calls = fst (register_call show_number (JNumber ''2'') (fst (register_call show_number (JNumber ''1'') demux_new)))"

lemma two_calls_eq:
  "two_calls = \<lparr>dx_pending = [(''1'', 0), (''2'', 1)], dx_next = 2, dx_results = [], dx_dropped = [], dx_unmatched = []\<rparr>"
  by (simp add: two_calls_def register_call_def close_call_def demux_new_def Let_def)


text \<open>
  Two calls that use the same id on one process take each other's answers: the second
  registration closes the channel of the first call, which fails at once, and the first frame
  with the id, the answer to the first request, goes to the second call.  A string and a number
  that are written alike are the same id.
\<close>

theorem same_id_takes_answer:
  assumes "demux_ok d" and "map_of (dx_pending d) (id_key ser i) = None"
    and "register_call ser i d = (d1, first)" and "register_call ser j d1 = (d2, second)"
    and "id_key ser i = id_key ser j" and "second \<notin> set (dx_dropped d)"
    and "frame_key ser answer = Some (id_key ser i)"
  shows "call_result d2 first = Some ReaderClosed
    \<and> call_result (reader_task ser (answer # frames) d2) second = Some (Answered answer)"
proof -
  have d1: "d1 = d\<lparr>dx_pending := AList.update (id_key ser i) (dx_next d) (dx_pending d), dx_next := dx_next d + 1\<rparr>"
    and first: "first = dx_next d"
    using assms(2,3) by (auto simp: register_call_def close_call_def Let_def)
  have d2: "d2 = d\<lparr>dx_results := dx_results d @ [(dx_next d, ReaderClosed)],
      dx_pending := AList.update (id_key ser i) (dx_next d + 1) (dx_pending d), dx_next := dx_next d + 2\<rparr>"
    and second: "second = dx_next d + 1"
    using assms(4,5) by (auto simp: d1 register_call_def close_call_def Let_def update_conv')
  have fresh: "call_result d c = None" if "dx_next d \<le> c" for c
    using assms(1) that by (force simp: demux_ok_def call_result_def map_of_eq_None_iff)
  have closed: "call_result d2 first = Some ReaderClosed"
    using fresh [of "dx_next d"] by (simp add: d2 first call_result_def map_add_def)
  have pending: "map_of (dx_pending d2) (id_key ser i) = Some second" by (simp add: d2 second update_conv')
  have "call_result d2 second = None"
    using fresh [of "dx_next d + 1"] by (simp add: d2 second call_result_def map_add_def)
  moreover have "second \<notin> set (dx_dropped d2)" using assms(6) by (simp add: d2)
  ultimately have "call_result (route_frame ser answer d2) second = Some (Answered answer)"
    using route_frame_answers [OF assms(7) pending] by (simp add: call_result_def map_add_def)
  then show ?thesis using closed by (simp add: call_result_stays)
qed

theorem same_id_takes_answer_witness:
  "call_result (reader_task show_number [JObject [(''id'', JNumber ''1''), (''result'', JString ''for the first'')]]
      (fst (register_call show_number (JString ''1'') (fst (register_call show_number (JNumber ''1'') demux_new))))) 1
    = Some (Answered (JObject [(''id'', JNumber ''1''), (''result'', JString ''for the first'')]))"
  using same_id_takes_answer [of demux_new show_number "JNumber ''1''" _ 0 "JString ''1''" _ 1
      "JObject [(''id'', JNumber ''1''), (''result'', JString ''for the first'')]" "[]"]
  by (simp add: demux_new_def register_call_def close_call_def frame_key_def demux_ok_def Let_def)

end
