(* ===== verification/Supervisor.thy ===== *)
theory Supervisor
  imports Prelude
begin

text \<open>
  The supervision of backend processes: \<open>acpx-conductor/src/backoff.rs\<close> and
  \<open>acpx-conductor/src/supervisor.rs\<close>.  One process per agent, respawned when it has exited,
  with a delay that doubles from one failed attempt to the next.  Durations and instants are
  natural numbers of nanoseconds; processes are numbers, given by the operating system when a
  spawn succeeds, and stand for their writer handle as well.  What the environment decides is
  an argument of each operation: the clock, what the attempt to lock the process shows, the
  outcome of the spawn and of the kill.
\<close>

section \<open>The backoff delay\<close>

definition from_millis :: "nat \<Rightarrow> nat" where
  "from_millis n = n * 1000000"

definition duration_secs :: "nat \<Rightarrow> nat" where
  "duration_secs n = n * 1000000000"

definition base_delay_millis :: nat where
  "base_delay_millis = 500"

definition max_delay :: nat where
  "max_delay = duration_secs 30"

definition stable_after_default :: nat where
  "stable_after_default = duration_secs 10"

definition stop_lock_timeout :: nat where
  "stop_lock_timeout = duration_secs 15"

text \<open>\<open>1u64.checked_shl(exponent)\<close> is \<open>None\<close> only when the exponent is at least 64.\<close>

definition u64_max :: nat where
  "u64_max = 2 ^ 64 - 1"

definition next_delay :: "32 word \<Rightarrow> nat" where
  "next_delay consecutive_failures =
     (if consecutive_failures = 0 then 0
      else
        let exponent = unat (consecutive_failures - 1);
            multiplier = (if exponent < 64 then 2 ^ exponent else u64_max);
            millis = min (base_delay_millis * multiplier) u64_max
        in min (from_millis millis) max_delay)"

text \<open>The same delay without fixed-width arithmetic.\<close>

definition delay_after :: "nat \<Rightarrow> nat" where
  "delay_after n = (if n = 0 then 0 else min (from_millis (base_delay_millis * 2 ^ (n - 1))) max_delay)"

lemma delay_after_capped: "7 \<le> n \<Longrightarrow> delay_after n = max_delay"
proof -
  assume n: "7 \<le> n"
  then have "(2::nat) ^ 6 \<le> 2 ^ (n - 1)" by (intro power_increasing) auto
  then show ?thesis
    using n by (simp add: delay_after_def max_delay_def from_millis_def duration_secs_def base_delay_millis_def)
qed

lemma delay_after_mono: "m \<le> n \<Longrightarrow> delay_after m \<le> delay_after n"
proof -
  assume "m \<le> n"
  then have "(2::nat) ^ (m - 1) \<le> 2 ^ (n - 1)" by (intro power_increasing) auto
  with \<open>m \<le> n\<close> show ?thesis
    by (auto simp: delay_after_def from_millis_def base_delay_millis_def intro!: min.mono
        intro: min.coboundedI1)
qed

lemma next_delay_nat: "next_delay w = delay_after (unat w)"
proof (cases "w = 0")
  case True
  then show ?thesis by (simp add: next_delay_def delay_after_def)
next
  case False
  then have pos: "0 < unat w" by (simp add: unat_gt_0)
  have e: "unat (w - 1) = unat w - 1" using False by (simp add: unat_minus_one)
  show ?thesis
  proof (cases "unat w - 1 < 6")
    case True
    then have "unat w \<in> {1, 2, 3, 4, 5, 6}" using pos by auto
    then show ?thesis
      using False e
      by (auto simp: next_delay_def delay_after_def Let_def u64_max_def base_delay_millis_def)
  next
    case False
    then have seven: "7 \<le> unat w" by simp
    let ?mult = "if unat w - 1 < 64 then (2::nat) ^ (unat w - 1) else u64_max"
    have "(2::nat) ^ 6 \<le> 2 ^ (unat w - 1)" using seven by (intro power_increasing) auto
    then have "64 \<le> ?mult" by (auto simp: u64_max_def)
    then have "32000 \<le> min (base_delay_millis * ?mult) u64_max"
      by (auto simp: base_delay_millis_def u64_max_def)
    then have "max_delay \<le> from_millis (min (base_delay_millis * ?mult) u64_max)"
      unfolding max_delay_def from_millis_def duration_secs_def by linarith
    then show ?thesis
      using \<open>w \<noteq> 0\<close> e delay_after_capped [OF seven]
      by (simp only: next_delay_def Let_def if_False min_absorb2)
  qed
qed

section \<open>State\<close>

record backoff_state =
  consecutive_failures :: "32 word"
  last_spawn_at :: "nat option"

definition backoff_default :: backoff_state where
  "backoff_default = \<lparr>consecutive_failures = 0, last_spawn_at = None\<rparr>"

datatype process_status = NotStarted | Running | Exited "int option"

datatype 'e supervisor_error =
    ProcessFailed 'e
  | UnknownAgent string
  | InBackoff string nat

record 's supervisor =
  specs :: "string \<rightharpoonup> 's"
  running :: "string \<rightharpoonup> nat"
  write_handles :: "string \<rightharpoonup> nat"
  attempts :: "string \<rightharpoonup> backoff_state"
  stable_after :: nat

definition supervisor_new :: "'s supervisor" where
  "supervisor_new = \<lparr>specs = Map.empty, running = Map.empty, write_handles = Map.empty,
     attempts = Map.empty, stable_after = stable_after_default\<rparr>"

text \<open>What \<open>try_lock\<close> on the process and, when it succeeds, \<open>try_wait\<close> show.\<close>

datatype probe = Contended | StillRunning | HasExited "int option"

section \<open>Operations\<close>

definition register_spec :: "string \<Rightarrow> 's \<Rightarrow> 's supervisor \<Rightarrow> 's supervisor" where
  "register_spec agent spec s = s\<lparr>specs := (specs s)(agent \<mapsto> spec)\<rparr>"

definition spec_of :: "'s supervisor \<Rightarrow> string \<Rightarrow> 's option" where
  "spec_of s agent = specs s agent"

definition set_stable_after :: "nat \<Rightarrow> 's supervisor \<Rightarrow> 's supervisor" where
  "set_stable_after d s = s\<lparr>stable_after := d\<rparr>"

definition process_status_of :: "probe \<Rightarrow> 's supervisor \<Rightarrow> string \<Rightarrow> process_status" where
  "process_status_of pr s agent =
     (case running s agent of
        None \<Rightarrow> NotStarted
      | Some _ \<Rightarrow> (case pr of HasExited code \<Rightarrow> Exited code | StillRunning \<Rightarrow> Running | Contended \<Rightarrow> Running))"

definition sat_inc :: "32 word \<Rightarrow> 32 word" where
  "sat_inc w = (if w = - 1 then w else w + 1)"

definition attempts_of :: "'s supervisor \<Rightarrow> string \<Rightarrow> backoff_state" where
  "attempts_of s agent = (case attempts s agent of None \<Rightarrow> backoff_default | Some b \<Rightarrow> b)"

text \<open>\<open>last_spawn_at.map(|last| now.duration_since(last) >= stable_after).unwrap_or(false)\<close>.\<close>

definition survived :: "nat \<Rightarrow> 's supervisor \<Rightarrow> backoff_state \<Rightarrow> bool" where
  "survived now s b = (case last_spawn_at b of None \<Rightarrow> False | Some t \<Rightarrow> stable_after s \<le> now - t)"

text \<open>The process still runs: the failures are forgotten once it has proven stable.\<close>

definition note_running :: "nat \<Rightarrow> string \<Rightarrow> 's supervisor \<Rightarrow> 's supervisor" where
  "note_running now agent s =
     (case attempts s agent of
        None \<Rightarrow> s
      | Some b \<Rightarrow>
          if survived now s b
          then s\<lparr>attempts := (attempts s)(agent \<mapsto> b\<lparr>consecutive_failures := 0\<rparr>)\<rparr>
          else s)"

definition note_exit :: "nat \<Rightarrow> string \<Rightarrow> 's supervisor \<Rightarrow> 's supervisor" where
  "note_exit now agent s =
     (let b = attempts_of s agent;
          failures = (if survived now s b then 0 else sat_inc (consecutive_failures b))
      in s\<lparr>running := (running s)(agent := None),
           attempts := (attempts s)(agent \<mapsto> b\<lparr>consecutive_failures := failures\<rparr>)\<rparr>)"

text \<open>The second half of \<open>ensure_running\<close>: wait for the backoff window, or spawn.\<close>

definition try_spawn ::
  "nat \<Rightarrow> ('e + nat) \<Rightarrow> string \<Rightarrow> 's supervisor \<Rightarrow> 's supervisor \<times> ('e supervisor_error + nat)"
where
  "try_spawn now spawned agent s =
     (let b = attempts_of s agent;
          wait = (if 0 < consecutive_failures b
                  then (case last_spawn_at b of
                          None \<Rightarrow> None
                        | Some t \<Rightarrow>
                            (let ready_at = t + next_delay (consecutive_failures b)
                             in if now < ready_at then Some (ready_at - now) else None))
                  else None)
      in case wait of
           Some retry_after \<Rightarrow> (s\<lparr>attempts := (attempts s)(agent \<mapsto> b)\<rparr>, Inl (InBackoff agent retry_after))
         | None \<Rightarrow>
             (case spawned of
                Inr p \<Rightarrow>
                  (s\<lparr>write_handles := (write_handles s)(agent \<mapsto> p), running := (running s)(agent \<mapsto> p),
                     attempts := (attempts s)(agent \<mapsto> b\<lparr>last_spawn_at := Some now\<rparr>)\<rparr>, Inr p)
              | Inl e \<Rightarrow>
                  (s\<lparr>attempts := (attempts s)(agent \<mapsto> b\<lparr>last_spawn_at := Some now,
                     consecutive_failures := sat_inc (consecutive_failures b)\<rparr>)\<rparr>, Inl (ProcessFailed e))))"

definition ensure_running ::
  "nat \<Rightarrow> probe \<Rightarrow> ('e + nat) \<Rightarrow> string \<Rightarrow> 's supervisor \<Rightarrow> 's supervisor \<times> ('e supervisor_error + nat)"
where
  "ensure_running now pr spawned agent s =
     (if specs s agent = None then (s, Inl (UnknownAgent agent))
      else case running s agent of
        None \<Rightarrow> try_spawn now spawned agent s
      | Some p \<Rightarrow>
          (case pr of
             HasExited _ \<Rightarrow> try_spawn now spawned agent (note_exit now agent s)
           | StillRunning \<Rightarrow> (note_running now agent s, Inr p)
           | Contended \<Rightarrow> (note_running now agent s, Inr p)))"

text \<open>
  How a stop ends: the lock is taken in time and the process killed or the kill fails, or the
  kill is left to a task of its own.
\<close>

datatype 'e stop_outcome = Killed | KillFails 'e | Detached

definition stop_agent ::
  "'e stop_outcome \<Rightarrow> string \<Rightarrow> 's supervisor \<Rightarrow> 's supervisor \<times> ('e supervisor_error + unit)"
where
  "stop_agent outcome agent s =
     (let s' = (if running s agent = None then s
                else s\<lparr>running := (running s)(agent := None), write_handles := (write_handles s)(agent := None)\<rparr>)
      in case (running s agent, outcome) of
           (Some p, KillFails e) \<Rightarrow> (s', Inl (ProcessFailed e))
         | _ \<Rightarrow> (s'\<lparr>attempts := (attempts s')(agent := None)\<rparr>, Inr ()))"

fun stop_each ::
  "(string \<Rightarrow> 'e stop_outcome) \<Rightarrow> string list \<Rightarrow> 's supervisor \<Rightarrow> 's supervisor \<times> ('e supervisor_error + unit)"
where
  "stop_each outcome [] s = (s, Inr ())"
| "stop_each outcome (k # ks) s =
     (case stop_agent (outcome k) k s of
        (s', Inl e) \<Rightarrow> (s', Inl e)
      | (s', Inr _) \<Rightarrow> stop_each outcome ks s')"

text \<open>The keys of a hash map come in some order: \<open>order\<close> lists the keys of the map.\<close>

definition stop_prefix ::
  "(string \<Rightarrow> 'e stop_outcome) \<Rightarrow> string list \<Rightarrow> string \<Rightarrow> 's supervisor \<Rightarrow> 's supervisor \<times> ('e supervisor_error + unit)"
where
  "stop_prefix outcome order pre s =
     stop_each outcome (filter (\<lambda>k. running s k \<noteq> None \<and> prefix pre k) order) s"

definition cancel_writer :: "'s supervisor \<Rightarrow> string \<Rightarrow> nat option" where
  "cancel_writer s agent = write_handles s agent"

lemmas supervisor_defs = ensure_running_def try_spawn_def note_running_def note_exit_def attempts_of_def
  backoff_default_def survived_def Let_def

section \<open>The state of the supervisor\<close>

text \<open>
  Every running process belongs to a registered agent, has its writer at hand and the instant
  of its spawn on record.
\<close>

definition supervisor_ok :: "'s supervisor \<Rightarrow> bool" where
  "supervisor_ok s = (\<forall>a p. running s a = Some p \<longrightarrow>
     specs s a \<noteq> None \<and> write_handles s a = Some p
     \<and> (\<exists>b. attempts s a = Some b \<and> last_spawn_at b \<noteq> None))"

lemma supervisor_okI:
  assumes "\<And>a p. running s a = Some p \<Longrightarrow> specs s a \<noteq> None"
    and "\<And>a p. running s a = Some p \<Longrightarrow> write_handles s a = Some p"
    and "\<And>a p. running s a = Some p \<Longrightarrow> \<exists>b. attempts s a = Some b \<and> last_spawn_at b \<noteq> None"
  shows "supervisor_ok s"
  using assms by (simp add: supervisor_ok_def)

lemma supervisor_okD:
  assumes "supervisor_ok s" and "running s a = Some p"
  shows "specs s a \<noteq> None" and "write_handles s a = Some p"
    and "\<exists>b. attempts s a = Some b \<and> last_spawn_at b \<noteq> None"
  using assms by (auto simp: supervisor_ok_def)

inductive supervised :: "'s supervisor \<Rightarrow> bool" where
  init: "supervised supervisor_new"
| register: "supervised s \<Longrightarrow> supervised (register_spec agent spec s)"
| threshold: "supervised s \<Longrightarrow> supervised (set_stable_after d s)"
| ensure: "supervised s \<Longrightarrow> supervised (fst (ensure_running now pr (spawned :: nat + nat) agent s))"
| stop: "supervised s \<Longrightarrow> supervised (fst (stop_agent (outcome :: nat stop_outcome) agent s))"
| stop_all: "supervised s \<Longrightarrow> supervised (fst (stop_prefix (out :: string \<Rightarrow> nat stop_outcome) order pre s))"

lemma ok_note_exit: "supervisor_ok s \<Longrightarrow> supervisor_ok (note_exit now agent s)"
  by (rule supervisor_okI) (auto simp: note_exit_def Let_def split: if_splits dest: supervisor_okD)

lemma ok_note_running: "supervisor_ok s \<Longrightarrow> supervisor_ok (note_running now agent s)"
  by (rule supervisor_okI)
    (fastforce simp: note_running_def split: option.splits if_splits dest: supervisor_okD)+

lemma ok_try_spawn:
  assumes "supervisor_ok s" and "specs s agent \<noteq> None"
  shows "supervisor_ok (fst (try_spawn now spawned agent s))"
  using assms
  by (auto simp: supervisor_ok_def try_spawn_def attempts_of_def Let_def
      split: option.splits sum.splits if_splits)

lemma ok_ensure_running:
  assumes "supervisor_ok s"
  shows "supervisor_ok (fst (ensure_running now pr spawned agent s))"
proof -
  have "specs (note_exit now agent s) = specs s" by (simp add: note_exit_def Let_def)
  then show ?thesis
    using assms
    by (auto simp: ensure_running_def ok_note_running ok_note_exit ok_try_spawn split: option.split probe.split)
qed

lemma ok_stop_agent: "supervisor_ok s \<Longrightarrow> supervisor_ok (fst (stop_agent outcome agent s))"
  by (auto simp: supervisor_ok_def stop_agent_def Let_def split: option.splits stop_outcome.splits)

lemma ok_stop_each: "supervisor_ok s \<Longrightarrow> supervisor_ok (fst (stop_each outcome ks s))"
proof (induction ks arbitrary: s)
  case (Cons k ks)
  then show ?case
    using ok_stop_agent [OF Cons.prems, of "outcome k" k]
    by (auto split: prod.split sum.split)
qed simp

text \<open>C29. Every running process is that of a registered agent, its writer is reachable and its spawn is on record.\<close>

theorem supervised_well_formed:
  assumes "supervised s"
  shows "supervisor_ok s"
  using assms
proof induction
  case init
  then show ?case by (simp add: supervisor_ok_def supervisor_new_def)
next
  case (register s agent spec)
  then show ?case by (auto simp: supervisor_ok_def register_spec_def)
next
  case (threshold s d)
  then show ?case by (simp add: supervisor_ok_def set_stable_after_def)
qed (simp_all add: ok_ensure_running ok_stop_agent ok_stop_each stop_prefix_def)

theorem supervised_well_formed_witness:
  "let s = fst (ensure_running 5 StillRunning (Inr 7 :: nat + nat) ''a'' (register_spec ''a'' () supervisor_new))
   in supervisor_ok s \<and> running s ''a'' = Some 7"
  unfolding Let_def
proof
  show "supervisor_ok (fst (ensure_running 5 StillRunning (Inr 7 :: nat + nat) ''a''
      (register_spec ''a'' () supervisor_new)))"
    by (rule supervised_well_formed [OF supervised.ensure [OF supervised.register [OF supervised.init]]])
qed (simp add: register_spec_def supervisor_new_def supervisor_defs)

section \<open>Throttling\<close>

text \<open>The delay is 500 ms doubled per failure, never above 30 s and never shorter after more failures.\<close>

theorem next_delay_exact:
  "next_delay w = (if w = 0 then 0 else min (from_millis (500 * 2 ^ (unat w - 1))) (duration_secs 30))
   \<and> (v \<le> w \<longrightarrow> next_delay v \<le> next_delay w)"
proof
  show "next_delay w = (if w = 0 then 0 else min (from_millis (500 * 2 ^ (unat w - 1))) (duration_secs 30))"
    by (simp add: next_delay_nat delay_after_def max_delay_def base_delay_millis_def unat_eq_zero)
  show "v \<le> w \<longrightarrow> next_delay v \<le> next_delay w"
    by (simp add: next_delay_nat delay_after_mono word_le_nat_alt)
qed

theorem next_delay_exact_witness:
  "next_delay 3 = from_millis 2000 \<and> next_delay 4 \<le> next_delay 1000"
  using next_delay_exact [of 3 3] next_delay_exact [of 1000 4]
  by (simp add: from_millis_def duration_secs_def)

text \<open>The spawns attempted by a sequence of calls for one agent, by their instants.\<close>

definition attempted :: "probe \<Rightarrow> string \<Rightarrow> 's supervisor \<Rightarrow> 'e supervisor_error + nat \<Rightarrow> bool" where
  "attempted pr agent s r =
     (case r of Inl (ProcessFailed e) \<Rightarrow> True | Inl _ \<Rightarrow> False
      | Inr _ \<Rightarrow> running s agent = None \<or> (case pr of HasExited c \<Rightarrow> True | _ \<Rightarrow> False))"

type_synonym 'e ensure_call = "nat \<times> probe \<times> ('e + nat)"

fun spawn_times :: "string \<Rightarrow> 'e ensure_call list \<Rightarrow> 's supervisor \<Rightarrow> nat list" where
  "spawn_times agent [] s = []"
| "spawn_times agent ((now, pr, spawned) # calls) s =
     (let (s', r) = ensure_running now pr spawned agent s
      in (if attempted pr agent s r then [now] else []) @ spawn_times agent calls s')"

text \<open>No call finds the process stable, or finds its end only when it would have been stable.\<close>

fun unstable_run :: "string \<Rightarrow> 'e ensure_call list \<Rightarrow> 's supervisor \<Rightarrow> bool" where
  "unstable_run agent [] s = True"
| "unstable_run agent ((now, pr, spawned) # calls) s =
     ((running s agent \<noteq> None \<longrightarrow> \<not> survived now s (attempts_of s agent))
      \<and> unstable_run agent calls (fst (ensure_running now pr spawned agent s)))"

fun spaced :: "nat \<Rightarrow> nat \<Rightarrow> nat list \<Rightarrow> bool" where
  "spaced n t [] = True"
| "spaced n t (x # xs) = (t + delay_after n \<le> x \<and> spaced (Suc n) x xs)"

definition failures_due :: "string \<Rightarrow> 's supervisor \<Rightarrow> nat" where
  "failures_due agent s = unat (consecutive_failures (attempts_of s agent)) + (if running s agent = None then 0 else 1)"

definition attempts_counted :: "string \<Rightarrow> nat \<Rightarrow> nat \<Rightarrow> 's supervisor \<Rightarrow> bool" where
  "attempts_counted agent n t s =
     (specs s agent \<noteq> None \<and> last_spawn_at (attempts_of s agent) = Some t \<and> min n 7 \<le> failures_due agent s)"

lemma unat_sat_inc: "unat (sat_inc w) = min (unat w + 1) (2 ^ 32 - 1)"
proof (cases "w = - 1")
  case True
  then show ?thesis by (simp add: sat_inc_def unsigned_minus_1_eq_mask mask_eq_exp_minus_1)
next
  case False
  then have "unat (w + 1) = unat w + 1" by (metis Suc_eq_plus1 add.commute unatSuc add_eq_0_iff2 minus_equation_iff)
  moreover have "unat (w + 1) < 2 ^ 32" by (rule order_less_le_trans [OF unsigned_less]) simp
  ultimately show ?thesis using False by (simp add: sat_inc_def)
qed

lemma delay_after_min7: "delay_after (min n 7) = delay_after n"
  by (cases "7 \<le> n") (simp_all add: delay_after_capped min_def)

text \<open>What one call makes of the failures counted so far.\<close>

definition spawn_tried :: "'e supervisor_error + nat \<Rightarrow> bool" where
  "spawn_tried r = (case r of Inl (ProcessFailed e) \<Rightarrow> True | Inl _ \<Rightarrow> False | Inr _ \<Rightarrow> True)"

lemma try_spawn_counted:
  assumes run: "running s agent = None" and pos: "0 < n" and inv: "attempts_counted agent n t s"
    and step: "try_spawn now spawned agent s = (s', r)"
  shows "if spawn_tried r then t + delay_after n \<le> now \<and> attempts_counted agent (Suc n) now s'
         else attempts_counted agent n t s' \<and> running s' agent = None"
proof -
  let ?f = "consecutive_failures (attempts_of s agent)"
  have last: "last_spawn_at (attempts_of s agent) = Some t" and n: "min n 7 \<le> unat ?f"
    using inv run by (auto simp: attempts_counted_def failures_due_def)
  have delay: "delay_after n \<le> next_delay ?f"
    using delay_after_mono [OF n] by (simp add: next_delay_nat delay_after_min7)
  have nonzero: "?f \<noteq> 0"
    using n pos by auto
  have spec: "specs s agent \<noteq> None" using inv by (simp add: attempts_counted_def)
  show ?thesis
  proof (cases "0 < ?f \<and> now < t + next_delay ?f")
    case True
    then have "s' = s\<lparr>attempts := (attempts s)(agent \<mapsto> attempts_of s agent)\<rparr>" "\<not> spawn_tried r"
      using step last by (auto simp: try_spawn_def Let_def spawn_tried_def)
    then show ?thesis
      using inv run by (simp add: attempts_counted_def failures_due_def attempts_of_def)
  next
    case False
    then have time: "t + delay_after n \<le> now"
      using delay nonzero by (simp add: word_gt_0)
    from False step last have tried: "spawn_tried r"
      by (auto simp: try_spawn_def Let_def spawn_tried_def word_gt_0 split: sum.splits if_splits)
    have "attempts_counted agent (Suc n) now s'"
    proof (cases spawned)
      case (Inl e)
      with False step last run n spec show ?thesis
        by (auto simp: try_spawn_def Let_def attempts_counted_def failures_due_def attempts_of_def
            unat_sat_inc word_gt_0 split: if_splits)
    next
      case (Inr p)
      with False step last run n spec show ?thesis
        by (auto simp: try_spawn_def Let_def attempts_counted_def failures_due_def attempts_of_def
            word_gt_0 split: if_splits)
    qed
    with time tried show ?thesis by simp
  qed
qed

lemma ensure_counted:
  assumes inv: "attempts_counted agent n t s" and pos: "0 < n"
    and young: "running s agent \<noteq> None \<longrightarrow> \<not> survived now s (attempts_of s agent)"
    and step: "ensure_running now pr spawned agent s = (s', r)"
  shows "if attempted pr agent s r then t + delay_after n \<le> now \<and> attempts_counted agent (Suc n) now s'
         else attempts_counted agent n t s'"
proof (cases "running s agent")
  case None
  then have "try_spawn now spawned agent s = (s', r)"
    using step inv by (auto simp: ensure_running_def attempts_counted_def)
  from try_spawn_counted [OF None pos inv this] None show ?thesis
    by (auto simp: attempted_def spawn_tried_def split: sum.splits supervisor_error.splits if_splits)
next
  case (Some p)
  show ?thesis
  proof (cases "\<exists>c. pr = HasExited c")
    case True
    let ?s = "note_exit now agent s"
    have tried: "try_spawn now spawned agent ?s = (s', r)"
      using step inv Some True by (auto simp: ensure_running_def attempts_counted_def)
    have inv': "attempts_counted agent n t ?s"
      using inv Some young
      by (auto simp: attempts_counted_def failures_due_def note_exit_def attempts_of_def Let_def
          unat_sat_inc)
    have "running ?s agent = None" by (simp add: note_exit_def Let_def)
    from try_spawn_counted [OF this pos inv' tried] True show ?thesis
      by (auto simp: attempted_def spawn_tried_def split: sum.splits supervisor_error.splits if_splits)
  next
    case False
    then have s': "s' = note_running now agent s" and r: "r = Inr p"
      using step inv Some by (cases pr; auto simp: ensure_running_def attempts_counted_def)+
    have "note_running now agent s = s"
      using young Some by (auto simp: note_running_def attempts_of_def split: option.split)
    with inv s' r False Some show ?thesis by (auto simp: attempted_def split: probe.splits)
  qed
qed

lemma spawn_times_spaced:
  "attempts_counted agent n t s \<Longrightarrow> 0 < n \<Longrightarrow> unstable_run agent calls s \<Longrightarrow> spaced n t (spawn_times agent calls s)"
proof (induction calls arbitrary: n t s)
  case (Cons call calls)
  obtain now pr spawned where call: "call = (now, pr, spawned)" by (cases call)
  obtain s' r where step: "ensure_running now pr spawned agent s = (s', r)" by fastforce
  from Cons.prems call step have young: "running s agent \<noteq> None \<longrightarrow> \<not> survived now s (attempts_of s agent)"
    and rest: "unstable_run agent calls s'" by auto
  from ensure_counted [OF Cons.prems(1,2) young step] Cons.IH [OF _ _ rest] Cons.prems(2) show ?case
    by (auto simp: call step split: if_splits)
qed simp

lemma spaced_nth: "spaced n t (x # xs) \<Longrightarrow> k < length xs \<Longrightarrow> (x # xs) ! k + delay_after (n + 1 + k) \<le> xs ! k"
proof (induction xs arbitrary: n t x k)
  case (Cons y ys)
  show ?case
  proof (cases k)
    case (Suc j)
    with Cons.prems Cons.IH [of "Suc n" x y j] show ?thesis by simp
  qed (use Cons.prems in simp)
qed simp

text \<open>
  C30. A process that keeps failing is throttled: if no call finds it stable, the spawn number
  k + 1 comes at least the backoff delay of k failures after the spawn number k.
\<close>

theorem crash_loop_throttled:
  assumes "specs s agent \<noteq> None" and "running s agent = None" and "attempts s agent = None"
    and "unstable_run agent calls s" and "Suc k < length (spawn_times agent calls s)"
  shows "spawn_times agent calls s ! k + delay_after (Suc k) \<le> spawn_times agent calls s ! Suc k"
proof (cases calls)
  case Nil
  with assms show ?thesis by simp
next
  case (Cons call rest)
  obtain now pr spawned where call: "call = (now, pr, spawned)" by (cases call)
  obtain s' r where step: "ensure_running now pr spawned agent s = (s', r)" by fastforce
  have "spawn_times agent calls s = now # spawn_times agent rest s'" and "attempts_counted agent 1 now s'"
    using step assms(1-3)
    by (auto simp: Cons call attempted_def ensure_running_def try_spawn_def attempts_of_def backoff_default_def
        attempts_counted_def failures_due_def unat_sat_inc Let_def split: sum.splits)
  moreover have "unstable_run agent rest s'" using assms(4) step by (simp add: Cons call)
  ultimately show ?thesis
    using spaced_nth [of 0 0 now "spawn_times agent rest s'" k] spawn_times_spaced [of agent 1 now s' rest] assms(5)
    by (simp add: delay_after_def)
qed

lemma next_delay_1: "next_delay 1 = 500000000"
  by (simp add: next_delay_nat delay_after_def from_millis_def base_delay_millis_def max_delay_def duration_secs_def)

theorem crash_loop_throttled_witness:
  "let s = register_spec ''a'' () supervisor_new;
       calls = [(0, StillRunning, Inl 9 :: nat + nat), (10, StillRunning, Inr 2), (500000000, StillRunning, Inr 3)]
   in spawn_times ''a'' calls s = [0, 500000000]
      \<and> spawn_times ''a'' calls s ! 0 + delay_after 1 \<le> spawn_times ''a'' calls s ! 1"
  unfolding Let_def
proof (intro conjI)
  let ?s = "register_spec ''a'' () supervisor_new"
  let ?t = "?s\<lparr>attempts := [''a'' \<mapsto> \<lparr>consecutive_failures = 1, last_spawn_at = Some 0\<rparr>]\<rparr>"
  let ?calls = "[(0, StillRunning, Inl 9 :: nat + nat), (10, StillRunning, Inr 2), (500000000, StillRunning, Inr 3)]"
  have first: "ensure_running 0 StillRunning (Inl 9 :: nat + nat) ''a'' ?s = (?t, Inl (ProcessFailed 9))"
    by (simp add: supervisor_defs register_spec_def supervisor_new_def sat_inc_def)
  have second: "ensure_running 10 StillRunning (Inr 2 :: nat + nat) ''a'' ?t = (?t, Inl (InBackoff ''a'' 499999990))"
    by (simp add: supervisor_defs register_spec_def supervisor_new_def next_delay_1)
  obtain s' where third: "ensure_running 500000000 StillRunning (Inr 3 :: nat + nat) ''a'' ?t = (s', Inr 3)"
    by (simp add: supervisor_defs register_spec_def supervisor_new_def next_delay_1)
  have none: "running ?s ''a'' = None" "running ?t ''a'' = None" "specs ?s ''a'' \<noteq> None" "attempts ?s ''a'' = None"
    by (simp_all add: register_spec_def supervisor_new_def)
  show times: "spawn_times ''a'' ?calls ?s = [0, 500000000]"
    by (simp add: first second third none attempted_def)
  have "unstable_run ''a'' ?calls ?s" by (simp add: first second none)
  then show "spawn_times ''a'' ?calls ?s ! 0 + delay_after 1 \<le> spawn_times ''a'' ?calls ?s ! 1"
    using crash_loop_throttled [of ?s "''a''" ?calls 0] unfolding times by (simp add: none)
qed

text \<open>
  However often it has failed, an agent is never locked out: a call that comes the maximal
  delay after the last spawn tries to spawn again, and when that works the process is running
  and can be cancelled.
\<close>

theorem backoff_ends:
  assumes "specs s agent \<noteq> None" and "running s agent = None \<or> (\<exists>c. pr = HasExited c)"
    and "\<And>t. last_spawn_at (attempts_of s agent) = Some t \<Longrightarrow> t + max_delay \<le> now"
  shows "ensure_running now pr (Inl e) agent s = (fst (ensure_running now pr (Inl e) agent s), Inl (ProcessFailed e))
    \<and> (case ensure_running now pr (Inr p) agent s of (s', r) \<Rightarrow>
         r = Inr p \<and> running s' agent = Some p \<and> cancel_writer s' agent = Some p)"
proof -
  have "next_delay w \<le> max_delay" for w
    by (simp add: next_delay_nat delay_after_def)
  then have late: "\<not> now < t + next_delay w" if "last_spawn_at (attempts_of s agent) = Some t" for t w
    using assms(3) [OF that] by (meson add_left_mono leD le_less_trans less_le_trans)
  have "last_spawn_at (attempts_of (note_exit now agent s) agent) = last_spawn_at (attempts_of s agent)"
    by (simp add: note_exit_def attempts_of_def Let_def)
  then show ?thesis
    using assms(1,2) late
    by (auto simp: ensure_running_def try_spawn_def cancel_writer_def Let_def
        split: option.splits probe.splits if_splits)
qed

lemma snd_of_case: "(case x of (a, b) \<Rightarrow> b = r \<and> Q a) \<Longrightarrow> snd x = r"
  by (cases x) simp

theorem backoff_ends_witness:
  "let s = (register_spec ''a'' () supervisor_new)\<lparr>attempts := [''a'' \<mapsto> \<lparr>consecutive_failures = 3, last_spawn_at = Some 8\<rparr>]\<rparr>
   in snd (ensure_running (8 + max_delay) StillRunning (Inr 4 :: nat + nat) ''a'' s) = Inr 4"
  unfolding Let_def
proof -
  let ?s = "(register_spec ''a'' () supervisor_new)\<lparr>attempts := [''a'' \<mapsto> \<lparr>consecutive_failures = 3, last_spawn_at = Some 8\<rparr>]\<rparr>"
  have s: "specs ?s ''a'' \<noteq> None" "running ?s ''a'' = None" "last_spawn_at (attempts_of ?s ''a'') = Some 8"
    by (simp_all add: register_spec_def supervisor_new_def attempts_of_def)
  have "\<And>t. last_spawn_at (attempts_of ?s ''a'') = Some t \<Longrightarrow> t + max_delay \<le> 8 + max_delay"
    unfolding s(3) by simp
  note ends = backoff_ends [where pr = StillRunning and e = "9 :: nat" and p = 4, OF s(1) disjI1 [OF s(2)] this]
  show "snd (ensure_running (8 + max_delay) StillRunning (Inr 4 :: nat + nat) ''a'' ?s) = Inr 4"
    by (rule snd_of_case [OF conjunct2 [OF ends]])
qed

text \<open>
  The age of a process is measured when its end is noticed, not when it ended: whatever it has
  failed before and however early it crashed, a call that comes after the stability threshold
  forgets every failure and spawns at once.
\<close>

theorem late_detection_resets_backoff:
  assumes "specs s agent \<noteq> None" and "running s agent = Some p"
    and "last_spawn_at (attempts_of s agent) = Some t" and "t + stable_after s \<le> now"
  shows "snd (ensure_running now (HasExited code) (Inr q) agent s) = Inr q
    \<and> consecutive_failures (attempts_of (fst (ensure_running now (HasExited code) (Inr q) agent s)) agent) = 0"
proof -
  have "stable_after s \<le> now - t" using assms(4) by simp
  then show ?thesis
    using assms(1-3)
    by (auto simp: ensure_running_def try_spawn_def note_exit_def attempts_of_def survived_def Let_def)
qed

text \<open>Stopping by prefix.\<close>

lemma stop_agent_running:
  "stop_agent outcome k s = (s', r) \<Longrightarrow> running s' = (running s)(k := None)"
  by (auto simp: stop_agent_def Let_def fun_eq_iff split: option.splits stop_outcome.splits)

lemma stop_each_running:
  "stop_each outcome ks s = (s', Inr ()) \<Longrightarrow> running s' = (\<lambda>a. if a \<in> set ks then None else running s a)"
  by (induction ks arbitrary: s)
    (auto simp: fun_eq_iff dest!: stop_agent_running split: prod.splits sum.splits)

theorem stop_prefix_stops_all:
  assumes "\<forall>k. running s k \<noteq> None \<longrightarrow> k \<in> set order"
    and "stop_prefix outcome order pre s = (s', Inr ())"
  shows "running s' k = (if prefix pre k then None else running s k)"
  using assms stop_each_running [of outcome "filter (\<lambda>k. running s k \<noteq> None \<and> prefix pre k) order" s s']
  by (auto simp: stop_prefix_def)

end
