(* ===== verification/JsonView.thy ===== *)
theory JsonView
  imports Payload
begin

text \<open>
  Reading parts of a JSON value the way \<open>serde_json::Value\<close> offers it: \<open>get\<close> on an object,
  \<open>as_str\<close>, \<open>as_array\<close>, and the \<open>and_then\<close> chains of the code as \<open>Option.bind\<close>.
\<close>

fun json_get :: "string \<Rightarrow> json \<Rightarrow> json option" where
  "json_get k (JObject kvs) = map_of kvs k"
| "json_get k v = None"

fun as_str :: "json \<Rightarrow> string option" where
  "as_str (JString s) = Some s"
| "as_str v = None"

fun as_array :: "json \<Rightarrow> json list option" where
  "as_array (JArray xs) = Some xs"
| "as_array v = None"

fun as_bool :: "json \<Rightarrow> bool option" where
  "as_bool (JBool b) = Some b"
| "as_bool v = None"

definition str_field :: "string \<Rightarrow> json \<Rightarrow> string option" where
  "str_field k v = Option.bind (json_get k v) as_str"

definition json_array :: "string \<Rightarrow> json \<Rightarrow> json list option" where
  "json_array k v = Option.bind (json_get k v) as_array"

definition str_or :: "string \<Rightarrow> string option \<Rightarrow> string" where
  "str_or d s = (case s of None \<Rightarrow> d | Some t \<Rightarrow> t)"

lemma str_or_simps [simp]: "str_or d None = d" "str_or d (Some s) = s"
  by (simp_all add: str_or_def)

lemmas json_view_defs = str_field_def json_array_def

end
