(* ===== verification/Permission.thy ===== *)
theory Permission
  imports JsonView
begin

text \<open>
  The cards for requests of an agent and the answers built from them:
  \<open>panel-rust/src/permission.rs\<close>.  A request is the JSON-RPC frame of the agent, the options
  shown are those that the frame offers (or a synthetic pair for the file and terminal
  requests), and an answer is built from the option that was picked, or from the two keyboard
  shortcuts for approval and rejection.
\<close>

section \<open>Data\<close>

record agent_request_event =
  relay_id :: string
  request_method :: string
  raw_request :: json

record permission_option =
  option_id :: string
  option_name :: string
  option_kind :: string
  is_allow :: bool

record pending_request_view =
  view_relay_id :: string
  view_method :: string
  view_title :: string
  view_summary :: string
  view_options :: "permission_option list"

section \<open>Projection of a request\<close>

definition is_supported_method :: "string \<Rightarrow> bool" where
  "is_supported_method m =
     (m \<in> {''session/request_permission'', ''fs/read_text_file'', ''fs/write_text_file'', ''terminal/create''})"

definition kind_is_allow :: "string \<Rightarrow> bool" where
  "kind_is_allow kind = (prefix ''allow_'' kind \<or> kind = ''approve'')"

definition kind_is_reject :: "string \<Rightarrow> bool" where
  "kind_is_reject kind = (prefix ''reject_'' kind \<or> kind = ''reject'')"

definition offered_options :: "agent_request_event \<Rightarrow> json list" where
  "offered_options event =
     (case Option.bind (json_get ''params'' (raw_request event)) (json_array ''options'') of
        None \<Rightarrow> [] | Some options \<Rightarrow> options)"

definition option_view :: "json \<Rightarrow> permission_option option" where
  "option_view opt =
     (let i = str_or [] (str_field ''optionId'' opt);
          kind = str_or [] (str_field ''kind'' opt)
      in if i = [] then None
         else Some \<lparr>option_id = i, option_name = str_or i (str_field ''name'' opt), option_kind = kind,
                    is_allow = kind_is_allow kind\<rparr>)"

definition synthetic_pair :: "permission_option list" where
  "synthetic_pair =
     [\<lparr>option_id = ''approve'', option_name = ''Approve'', option_kind = ''allow_once'', is_allow = True\<rparr>,
      \<lparr>option_id = ''reject'', option_name = ''Reject'', option_kind = ''reject_once'', is_allow = False\<rparr>]"

definition extract_options :: "agent_request_event \<Rightarrow> permission_option list" where
  "extract_options event =
     (if request_method event = ''session/request_permission''
      then List.map_filter option_view (offered_options event)
      else if request_method event \<in> {''fs/read_text_file'', ''fs/write_text_file'', ''terminal/create''}
      then synthetic_pair
      else [])"

definition trim_end :: "string \<Rightarrow> string" where
  "trim_end s = rev (strip_front (map rev white_chars) (rev s))"

fun join_space :: "string list \<Rightarrow> string" where
  "join_space [] = []"
| "join_space [w] = w"
| "join_space (w # ws) = w @ '' '' @ join_space ws"

definition command_args :: "json option \<Rightarrow> string" where
  "command_args params =
     (case Option.bind params (json_array ''args'') of
        None \<Rightarrow> []
      | Some args \<Rightarrow> join_space (List.map_filter as_str args))"

definition request_title :: "agent_request_event \<Rightarrow> string \<times> string" where
  "request_title event =
     (let params = json_get ''params'' (raw_request event);
          path = str_or ''(unknown path)'' (Option.bind params (str_field ''path''))
      in if request_method event = ''session/request_permission'' then
           (''Permission requested'',
            ''The agent wants to run: '' @ str_or ''a tool call''
              (Option.bind (Option.bind params (json_get ''toolCall'')) (str_field ''title'')))
         else if request_method event = ''fs/read_text_file'' then
           (''File read requested'', ''The agent wants to read: '' @ path)
         else if request_method event = ''fs/write_text_file'' then
           (''File write requested'', ''The agent wants to write: '' @ path)
         else if request_method event = ''terminal/create'' then
           (''Terminal command requested'',
            trim_end (''The agent wants to run: ''
              @ str_or ''(unknown command)'' (Option.bind params (str_field ''command''))
              @ '' '' @ command_args params))
         else (''Unsupported request: '' @ request_method event,
               ''This request kind isn't handled by this UI yet.''))"

definition to_pending_request_view :: "agent_request_event \<Rightarrow> pending_request_view" where
  "to_pending_request_view event =
     \<lparr>view_relay_id = relay_id event, view_method = request_method event,
      view_title = fst (request_title event), view_summary = snd (request_title event),
      view_options = extract_options event\<rparr>"

definition default_allow_option_id :: "permission_option list \<Rightarrow> string option" where
  "default_allow_option_id options = map_option option_id (find is_allow options)"

definition default_reject_option_id :: "permission_option list \<Rightarrow> string option" where
  "default_reject_option_id options = map_option option_id (find (\<lambda>o'. kind_is_reject (option_kind o')) options)"

section \<open>Answers\<close>

definition permission_answer :: "agent_request_event \<Rightarrow> json \<Rightarrow> json" where
  "permission_answer event outcome =
     JObject [(''jsonrpc'', JString ''2.0''),
       (''id'', case json_get ''id'' (raw_request event) of None \<Rightarrow> JNull | Some i \<Rightarrow> i),
       (''result'', JObject [(''outcome'', outcome)])]"

definition cancelled_outcome :: json where
  "cancelled_outcome = JObject [(''outcome'', JString ''cancelled'')]"

definition selected_outcome :: "string \<Rightarrow> json" where
  "selected_outcome i = JObject [(''outcome'', JString ''selected''), (''optionId'', JString i)]"

definition approval_answer :: "bool \<Rightarrow> json" where
  "approval_answer approved = JObject [(''approved'', JBool approved)]"

definition build_response_for_option :: "agent_request_event \<Rightarrow> string \<Rightarrow> json" where
  "build_response_for_option event picked =
     (if request_method event \<noteq> ''session/request_permission''
      then approval_answer (picked \<noteq> ''reject'' \<and> \<not> prefix ''reject'' picked)
      else
        let chosen = find (\<lambda>opt. str_field ''optionId'' opt = Some picked) (offered_options event)
        in permission_answer event
             (case Option.bind chosen (str_field ''optionId'') of
                Some i \<Rightarrow> selected_outcome i
              | None \<Rightarrow> cancelled_outcome))"

definition build_response :: "agent_request_event \<Rightarrow> bool \<Rightarrow> json" where
  "build_response event approved =
     (let options = extract_options event
      in case (if approved then default_allow_option_id options else default_reject_option_id options) of
           Some i \<Rightarrow> build_response_for_option event i
         | None \<Rightarrow>
             if \<not> approved \<and> request_method event = ''session/request_permission''
             then permission_answer event cancelled_outcome
             else build_response_for_option event (if approved then ''approve'' else ''reject''))"

section \<open>What an answer can be\<close>

lemma extract_permission:
  "request_method event = ''session/request_permission'' \<Longrightarrow>
   extract_options event = List.map_filter option_view (offered_options event)"
  by (simp add: extract_options_def)

lemma option_viewD:
  assumes "option_view opt = Some row"
  shows "str_field ''optionId'' opt = Some (option_id row)"
    and "option_kind row = str_or [] (str_field ''kind'' opt)"
    and "is_allow row = kind_is_allow (option_kind row)"
  using assms by (auto simp: option_view_def str_or_def Let_def split: option.splits if_splits)

lemma shown_option_offered:
  assumes "row \<in> set (List.map_filter option_view options)"
  obtains opt where "opt \<in> set options" and "option_view opt = Some row"
  using assms by (auto simp: List.map_filter_def)

lemma answer_for_option:
  assumes "request_method event = ''session/request_permission''"
  shows "build_response_for_option event i
    = permission_answer event
        (if \<exists>opt\<in>set (offered_options event). str_field ''optionId'' opt = Some i
         then selected_outcome i else cancelled_outcome)"
proof (cases "find (\<lambda>opt. str_field ''optionId'' opt = Some i) (offered_options event)")
  case None
  then have "\<not> (\<exists>opt\<in>set (offered_options event). str_field ''optionId'' opt = Some i)"
    by (auto simp: find_None_iff)
  with None assms show ?thesis by (simp add: build_response_for_option_def)
next
  case (Some opt)
  then have "opt \<in> set (offered_options event)" "str_field ''optionId'' opt = Some i"
    by (auto simp: find_Some_iff)
  with Some assms show ?thesis by (auto simp: build_response_for_option_def)
qed

lemma shown_option_selected:
  assumes "request_method event = ''session/request_permission''" and "row \<in> set (extract_options event)"
  shows "build_response_for_option event (option_id row) = permission_answer event (selected_outcome (option_id row))"
proof -
  obtain opt where "opt \<in> set (offered_options event)" "option_view opt = Some row"
    using assms by (auto simp: extract_permission elim: shown_option_offered)
  then show ?thesis
    using option_viewD(1) by (auto simp: answer_for_option [OF assms(1)])
qed

text \<open>
  Picking an option of a permission card selects exactly that option of the request, under
  the id of the request; an id that the request does not offer cancels it and selects nothing.
\<close>

theorem permission_answer_is_offered:
  assumes "request_method event = ''session/request_permission''"
  shows "(row \<in> set (extract_options event) \<longrightarrow>
      build_response_for_option event (option_id row) = permission_answer event (selected_outcome (option_id row)))
    \<and> ((\<forall>opt\<in>set (offered_options event). str_field ''optionId'' opt \<noteq> Some i) \<longrightarrow>
      build_response_for_option event i = permission_answer event cancelled_outcome)"
  using shown_option_selected [OF assms] by (auto simp: answer_for_option [OF assms, of i])

definition sample_option :: "string \<Rightarrow> string \<Rightarrow> json" where
  "sample_option i kind = JObject [(''optionId'', JString i), (''kind'', JString kind)]"

definition sample_request :: "json list \<Rightarrow> agent_request_event" where
  "sample_request options = \<lparr>relay_id = ''r'', request_method = ''session/request_permission'',
     raw_request = JObject [(''id'', JNumber ''42''), (''params'', JObject [(''options'', JArray options)])]\<rparr>"

lemmas sample_defs = sample_option_def sample_request_def offered_options_def json_view_defs option_view_def
  extract_options_def kind_is_allow_def kind_is_reject_def List.map_filter_def Let_def

theorem permission_answer_is_offered_witness:
  "let ev = sample_request [sample_option ''a1'' ''allow_once'', sample_option ''r1'' ''reject_once'']
   in build_response_for_option ev ''r1'' = permission_answer ev (selected_outcome ''r1'')
      \<and> build_response_for_option ev ''zz'' = permission_answer ev cancelled_outcome"
  unfolding Let_def
proof
  let ?ev = "sample_request [sample_option ''a1'' ''allow_once'', sample_option ''r1'' ''reject_once'']"
  let ?row = "\<lparr>option_id = ''r1'', option_name = ''r1'', option_kind = ''reject_once'', is_allow = False\<rparr>"
  have m: "request_method ?ev = ''session/request_permission''" by (simp add: sample_request_def)
  have "?row \<in> set (extract_options ?ev)" by (simp add: sample_defs)
  with permission_answer_is_offered [OF m, of ?row "''zz''"]
  show "build_response_for_option ?ev ''r1'' = permission_answer ?ev (selected_outcome ''r1'')" by simp
  have "\<forall>opt\<in>set (offered_options ?ev). str_field ''optionId'' opt \<noteq> Some ''zz''" by (simp add: sample_defs)
  with permission_answer_is_offered [OF m, of ?row "''zz''"]
  show "build_response_for_option ?ev ''zz'' = permission_answer ?ev cancelled_outcome" by simp
qed

lemma find_shown:
  assumes "request_method event = ''session/request_permission''" and "find P (extract_options event) = Some row"
  shows "\<exists>opt\<in>set (offered_options event). option_view opt = Some row \<and> P row"
  using assms by (auto simp: extract_permission find_Some_iff dest!: nth_mem elim!: shown_option_offered)

text \<open>
  A rejection never approves: the answer is a refusal, a cancellation, or the selection of
  an option that the request itself offers as a rejection.
\<close>

theorem denial_never_approves:
  "build_response event False = approval_answer False
   \<or> build_response event False = permission_answer event cancelled_outcome
   \<or> (\<exists>opt i. opt \<in> set (offered_options event) \<and> str_field ''optionId'' opt = Some i
        \<and> kind_is_reject (str_or [] (str_field ''kind'' opt))
        \<and> build_response event False = permission_answer event (selected_outcome i))"
proof (cases "request_method event = ''session/request_permission''")
  case True
  show ?thesis
  proof (cases "find (\<lambda>row. kind_is_reject (option_kind row)) (extract_options event)")
    case None
    with True show ?thesis by (simp add: build_response_def default_reject_option_id_def)
  next
    case (Some row)
    then have "row \<in> set (extract_options event)" by (auto simp: find_Some_iff)
    then have "build_response event False = permission_answer event (selected_outcome (option_id row))"
      using Some True by (simp add: build_response_def default_reject_option_id_def shown_option_selected)
    moreover obtain opt where "opt \<in> set (offered_options event)" "option_view opt = Some row"
      "kind_is_reject (option_kind row)"
      using find_shown [OF True Some] by blast
    ultimately show ?thesis using option_viewD(1,2) [of opt row] by auto
  qed
next
  case False
  then have "build_response event False = approval_answer False"
    by (auto simp: build_response_def default_reject_option_id_def extract_options_def synthetic_pair_def
        kind_is_reject_def build_response_for_option_def Let_def)
  then show ?thesis by blast
qed

text \<open>
  Approving a permission request that offers no option to allow it cancels it, unless an option
  of whatever kind happens to have the id \<open>approve\<close>.
\<close>

theorem approval_selects_allow:
  assumes "request_method event = ''session/request_permission''"
  shows "build_response event True =
    (case find (\<lambda>row. kind_is_allow (option_kind row)) (extract_options event) of
       Some row \<Rightarrow> permission_answer event (selected_outcome (option_id row))
     | None \<Rightarrow>
         if \<exists>opt\<in>set (offered_options event). str_field ''optionId'' opt = Some ''approve''
         then permission_answer event (selected_outcome ''approve'')
         else permission_answer event cancelled_outcome)"
proof -
  have "find is_allow (extract_options event) = find (\<lambda>row. kind_is_allow (option_kind row)) (extract_options event)"
    using assms by (intro find_cong) (auto simp: extract_permission option_viewD elim: shown_option_offered)
  moreover have "build_response_for_option event (option_id row) = permission_answer event (selected_outcome (option_id row))"
    if "find (\<lambda>row. kind_is_allow (option_kind row)) (extract_options event) = Some row" for row
    using that by (intro shown_option_selected [OF assms]) (auto simp: find_Some_iff)
  ultimately show ?thesis
    using assms answer_for_option [OF assms, of "''approve''"]
    by (auto simp: build_response_def default_allow_option_id_def split: option.split)
qed

end
