(* ===== verification/Markdown.thy ===== *)
theory Markdown
  imports Payload
begin

text \<open>
  The markdown renderer of the panel: \<open>panel-rust/src/markdown.rs\<close>.  The parser is the
  package \<open>pulldown-cmark\<close>; what it delivers, a list of events with their byte ranges, is the
  input of the model.  The code walks that list by index.  An index past its end panics, so
  every walk yields a \<open>run\<close>: a value, a panic, or (for the recursive walks, which are given a
  number of steps) no steps left; that the last never happens is a theorem.  Byte offsets,
  counters and block ids are unbounded numbers, nesting depths the \<open>u8\<close> of the code.
\<close>

section \<open>Results\<close>

datatype 'a run = Done 'a | Panic | NoFuel

fun run_bind :: "'a run \<Rightarrow> ('a \<Rightarrow> 'b run) \<Rightarrow> 'b run" where
  "run_bind (Done x) f = f x"
| "run_bind Panic f = Panic"
| "run_bind NoFuel f = NoFuel"

lemma run_bind_Done: "run_bind r f = Done y \<longleftrightarrow> (\<exists>x. r = Done x \<and> f x = Done y)"
  by (cases r) auto

lemma run_bind_NoFuel: "run_bind r f = NoFuel \<longleftrightarrow> r = NoFuel \<or> (\<exists>x. r = Done x \<and> f x = NoFuel)"
  by (cases r) auto

section \<open>Events of the parser\<close>

datatype tag =
    TagHeading nat | TagParagraph | TagCodeBlock | TagBlockQuote | TagList "nat option" | TagItem
  | TagTable | TagTableHead | TagTableRow | TagTableCell
  | TagStrong | TagEmphasis | TagStrikethrough | TagLink string | TagImage | TagOther

datatype tag_end =
    EndHeading nat | EndParagraph | EndCodeBlock | EndBlockQuote | EndList bool | EndItem
  | EndTable | EndTableHead | EndTableRow | EndTableCell
  | EndStrong | EndEmphasis | EndStrikethrough | EndLink | EndImage | EndOther

datatype event =
    EvStart tag | EvEnd tag_end | EvText string | EvCode string
  | EvSoftBreak | EvHardBreak | EvRule | EvOther

type_synonym events = "(event \<times> nat \<times> nat) list"

definition event_at :: "events \<Rightarrow> nat \<Rightarrow> (event \<times> nat \<times> nat) run" where
  "event_at evs i = (if i < length evs then Done (evs ! i) else Panic)"

text \<open>\<open>while !matches!(&events[j].0, end) { j += 1; }\<close>\<close>

definition scan_to :: "(event \<Rightarrow> bool) \<Rightarrow> events \<Rightarrow> nat \<Rightarrow> nat run" where
  "scan_to is_end evs j =
     (case position (\<lambda>e. is_end (fst e)) (drop j evs) of None \<Rightarrow> Panic | Some k \<Rightarrow> Done (j + k))"

text \<open>\<open>while depth > 0 { match &events[j].0 { ... } j += 1; }\<close>\<close>

fun depth_scan :: "(event \<Rightarrow> bool) \<Rightarrow> (event \<Rightarrow> bool) \<Rightarrow> nat \<Rightarrow> events \<Rightarrow> nat \<Rightarrow> nat run" where
  "depth_scan opens closes 0 evs j = Done j"
| "depth_scan opens closes (Suc d) [] j = Panic"
| "depth_scan opens closes (Suc d) (e # evs) j =
     depth_scan opens closes
       (if opens (fst e) then Suc (Suc d) else if closes (fst e) then d else Suc d) evs (Suc j)"

definition skip_nested :: "(event \<Rightarrow> bool) \<Rightarrow> (event \<Rightarrow> bool) \<Rightarrow> events \<Rightarrow> nat \<Rightarrow> nat run" where
  "skip_nested opens closes evs j = depth_scan opens closes 1 (drop j evs) j"

definition opens_quote :: "event \<Rightarrow> bool" where "opens_quote e = (e = EvStart TagBlockQuote)"
definition closes_quote :: "event \<Rightarrow> bool" where "closes_quote e = (e = EvEnd EndBlockQuote)"
definition opens_list :: "event \<Rightarrow> bool" where
  "opens_list e = (case e of EvStart (TagList _) \<Rightarrow> True | _ \<Rightarrow> False)"
definition closes_list :: "event \<Rightarrow> bool" where
  "closes_list e = (case e of EvEnd (EndList _) \<Rightarrow> True | _ \<Rightarrow> False)"
definition opens_item :: "event \<Rightarrow> bool" where "opens_item e = (e = EvStart TagItem)"
definition closes_item :: "event \<Rightarrow> bool" where "closes_item e = (e = EvEnd EndItem)"
definition closes_heading :: "event \<Rightarrow> bool" where
  "closes_heading e = (case e of EvEnd (EndHeading _) \<Rightarrow> True | _ \<Rightarrow> False)"
definition starts_row :: "event \<Rightarrow> bool" where
  "starts_row e = (e = EvStart TagTableRow \<or> e = EvStart TagTableHead)"
definition ends_row :: "event \<Rightarrow> bool" where
  "ends_row e = (e = EvEnd EndTableRow \<or> e = EvEnd EndTableHead)"

lemmas event_class_defs = opens_quote_def closes_quote_def opens_list_def closes_list_def opens_item_def
  closes_item_def closes_heading_def starts_row_def ends_row_def

section \<open>Inline runs\<close>

record md_run =
  run_text :: string
  run_bold :: bool
  run_italic :: bool
  run_code :: bool
  run_strike :: bool
  run_link :: string

definition plain_run :: "string \<Rightarrow> md_run" where
  "plain_run s = \<lparr>run_text = s, run_bold = False, run_italic = False, run_code = False,
     run_strike = False, run_link = []\<rparr>"

record inline_state =
  bold_depth :: nat
  italic_depth :: nat
  strike_depth :: nat
  link_stack :: "string list"

definition inline_start :: inline_state where
  "inline_start = \<lparr>bold_depth = 0, italic_depth = 0, strike_depth = 0, link_stack = []\<rparr>"

definition styled_run :: "inline_state \<Rightarrow> bool \<Rightarrow> string \<Rightarrow> md_run" where
  "styled_run st code s =
     \<lparr>run_text = s, run_bold = (0 < bold_depth st), run_italic = (0 < italic_depth st),
      run_code = code, run_strike = (0 < strike_depth st),
      run_link = (if link_stack st = [] then [] else last (link_stack st))\<rparr>"

text \<open>The effect of one event inside a block: the runs it adds and the new state.\<close>

fun inline_event :: "inline_state \<Rightarrow> event \<Rightarrow> md_run list \<times> inline_state" where
  "inline_event st (EvText t) = ([styled_run st False t], st)"
| "inline_event st (EvCode t) = ([styled_run st True t], st)"
| "inline_event st EvSoftBreak = ([plain_run '' ''], st)"
| "inline_event st EvHardBreak = ([plain_run '' ''], st)"
| "inline_event st (EvStart TagStrong) = ([], st\<lparr>bold_depth := bold_depth st + 1\<rparr>)"
| "inline_event st (EvEnd EndStrong) = ([], st\<lparr>bold_depth := bold_depth st - 1\<rparr>)"
| "inline_event st (EvStart TagEmphasis) = ([], st\<lparr>italic_depth := italic_depth st + 1\<rparr>)"
| "inline_event st (EvEnd EndEmphasis) = ([], st\<lparr>italic_depth := italic_depth st - 1\<rparr>)"
| "inline_event st (EvStart TagStrikethrough) = ([], st\<lparr>strike_depth := strike_depth st + 1\<rparr>)"
| "inline_event st (EvEnd EndStrikethrough) = ([], st\<lparr>strike_depth := strike_depth st - 1\<rparr>)"
| "inline_event st (EvStart (TagLink url)) = ([], st\<lparr>link_stack := link_stack st @ [url]\<rparr>)"
| "inline_event st (EvEnd EndLink) = ([], st\<lparr>link_stack := butlast (link_stack st)\<rparr>)"
| "inline_event st e = ([], st)"

fun collect_runs ::
  "tag_end \<Rightarrow> inline_state \<Rightarrow> events \<Rightarrow> nat \<Rightarrow> md_run list \<Rightarrow> (md_run list \<times> nat \<times> nat) run"
where
  "collect_runs end_tag st [] i runs = Panic"
| "collect_runs end_tag st ((e, rng) # evs) i runs =
     (if e = EvEnd end_tag then Done (runs, Suc i, snd rng)
      else
        let (new_runs, st') = inline_event st e
        in collect_runs end_tag st' evs (Suc i) (runs @ new_runs))"

definition collect_inline_runs :: "events \<Rightarrow> nat \<Rightarrow> tag_end \<Rightarrow> (md_run list \<times> nat \<times> nat) run" where
  "collect_inline_runs evs start end_tag = collect_runs end_tag inline_start (drop start evs) start []"

section \<open>Parsing blocks\<close>

datatype block_ast =
    Heading nat "md_run list"
  | Paragraph "md_run list"
  | CodeLines "string list"
  | Quote "block_ast list"
  | ListBlock bool nat "block_ast list list"
  | RuleBlock
  | TableBlock "string list list"

text \<open>\<open>str::split\<close> at one character.\<close>

fun split_char :: "char \<Rightarrow> string \<Rightarrow> string list" where
  "split_char c [] = [[]]"
| "split_char c (x # xs) =
     (if x = c then [] # split_char c xs
      else case split_char c xs of [] \<Rightarrow> [[x]] | p # ps \<Rightarrow> (x # p) # ps)"

text \<open>The parts of a text go to the open line, each newline opens a new one.\<close>

definition add_code_text :: "string list \<Rightarrow> string \<Rightarrow> string list" where
  "add_code_text ls t =
     (case split_char newline t of [] \<Rightarrow> ls | part # parts \<Rightarrow> butlast ls @ [last ls @ part] @ parts)"

fun code_lines :: "events \<Rightarrow> nat \<Rightarrow> string list \<Rightarrow> (string list \<times> nat \<times> nat) run" where
  "code_lines [] j ls = Panic"
| "code_lines ((e, rng) # evs) j ls =
     (case e of
        EvText t \<Rightarrow> code_lines evs (Suc j) (add_code_text ls t)
      | EvEnd EndCodeBlock \<Rightarrow> Done (ls, Suc j, snd rng)
      | _ \<Rightarrow> code_lines evs (Suc j) ls)"

definition drop_last_blank :: "string list \<Rightarrow> string list" where
  "drop_last_blank ls = (if ls \<noteq> [] \<and> last ls = [] \<and> 1 < length ls then butlast ls else ls)"

fun leaf_event_text :: "event \<Rightarrow> string" where
  "leaf_event_text (EvText t) = t"
| "leaf_event_text (EvCode t) = t"
| "leaf_event_text e = []"

text \<open>The cells of a row, and the rows of a table; every turn of a loop takes one step.\<close>

fun table_cells :: "nat \<Rightarrow> events \<Rightarrow> nat \<Rightarrow> string list \<Rightarrow> (string list \<times> nat) run" where
  "table_cells 0 evs k cells = NoFuel"
| "table_cells (Suc n) evs k cells =
     run_bind (event_at evs k) (\<lambda>(e, rng).
       if ends_row e then Done (cells, Suc k)
       else if e = EvStart TagTableCell then
         run_bind (collect_inline_runs evs (Suc k) EndTableCell) (\<lambda>(runs, next_k, _).
           table_cells n evs next_k (cells @ [concat (map run_text runs)]))
       else table_cells n evs (Suc k) cells)"

fun table_rows :: "nat \<Rightarrow> events \<Rightarrow> nat \<Rightarrow> string list list \<Rightarrow> (string list list \<times> nat \<times> nat) run" where
  "table_rows 0 evs j rows = NoFuel"
| "table_rows (Suc n) evs j rows =
     run_bind (event_at evs j) (\<lambda>(e, rng).
       if e = EvEnd EndTable then Done (rows, Suc j, snd rng)
       else if starts_row e then
         run_bind (table_cells n evs (Suc j) []) (\<lambda>(cells, k). table_rows n evs k (rows @ [cells]))
       else table_rows n evs (Suc j) rows)"

definition starts_block :: "event \<Rightarrow> bool" where
  "starts_block e =
     (case e of
        EvStart TagParagraph \<Rightarrow> True | EvStart (TagHeading _) \<Rightarrow> True | EvStart TagCodeBlock \<Rightarrow> True
      | EvStart TagBlockQuote \<Rightarrow> True | EvStart (TagList _) \<Rightarrow> True | EvStart TagTable \<Rightarrow> True
      | EvRule \<Rightarrow> True | _ \<Rightarrow> False)"

type_synonym parsed_block = "block_ast \<times> nat \<times> nat \<times> nat"

fun list_start :: "event \<Rightarrow> nat option" where
  "list_start (EvStart (TagList start)) = start"
| "list_start e = None"

text \<open>The blocks without blocks inside; the last arm keeps the text of a stray event.\<close>

definition simple_block :: "nat \<Rightarrow> events \<Rightarrow> nat \<Rightarrow> event \<Rightarrow> nat \<Rightarrow> nat \<Rightarrow> parsed_block run" where
  "simple_block n evs i e start_byte end_byte =
     (case e of
         EvStart (TagHeading level) \<Rightarrow>
           run_bind (collect_inline_runs evs (Suc i) (EndHeading level)) (\<lambda>(runs, end_i, to_byte).
             Done (Heading level runs, end_i, start_byte, to_byte))
       | EvStart TagParagraph \<Rightarrow>
           run_bind (collect_inline_runs evs (Suc i) EndParagraph) (\<lambda>(runs, end_i, to_byte).
             Done (Paragraph runs, end_i, start_byte, to_byte))
       | EvStart TagCodeBlock \<Rightarrow>
           run_bind (code_lines (drop (Suc i) evs) (Suc i) [[]]) (\<lambda>(ls, j, to_byte).
             Done (CodeLines (drop_last_blank ls), j, start_byte, to_byte))
       | EvRule \<Rightarrow> Done (RuleBlock, Suc i, start_byte, end_byte)
       | EvStart TagTable \<Rightarrow>
           run_bind (table_rows n evs (Suc i) []) (\<lambda>(rows, j, to_byte).
             Done (TableBlock rows, j, start_byte, to_byte))
       | _ \<Rightarrow> Done (Paragraph [plain_run (leaf_event_text e)], Suc i, start_byte, end_byte))"

function parse_one_block :: "nat \<Rightarrow> events \<Rightarrow> nat \<Rightarrow> parsed_block run"
and parse_quote :: "nat \<Rightarrow> events \<Rightarrow> nat \<Rightarrow> block_ast list \<Rightarrow> (block_ast list \<times> nat \<times> nat) run"
and parse_items :: "nat \<Rightarrow> events \<Rightarrow> nat \<Rightarrow> block_ast list list \<Rightarrow> (block_ast list list \<times> nat \<times> nat) run"
and parse_item :: "nat \<Rightarrow> events \<Rightarrow> nat \<Rightarrow> block_ast list \<Rightarrow> (block_ast list \<times> nat) run"
where
  "parse_one_block 0 evs i = NoFuel"
| "parse_one_block (Suc n) evs i =
     run_bind (event_at evs i) (\<lambda>(e, start_byte, end_byte).
       if opens_quote e then
         run_bind (parse_quote n evs (Suc i) []) (\<lambda>(inner, j, to_byte).
           Done (Quote inner, j, start_byte, to_byte))
       else if opens_list e then
         run_bind (parse_items n evs (Suc i) []) (\<lambda>(items, j, to_byte).
           Done (ListBlock (list_start e \<noteq> None) (case list_start e of None \<Rightarrow> 0 | Some s \<Rightarrow> s mod 2 ^ 32) items,
             j, start_byte, to_byte))
       else simple_block n evs i e start_byte end_byte)"
| "parse_quote 0 evs j inner = NoFuel"
| "parse_quote (Suc n) evs j inner =
     run_bind (event_at evs j) (\<lambda>(e, rng).
       if closes_quote e then Done (inner, Suc j, snd rng)
       else run_bind (parse_one_block n evs j) (\<lambda>(ast, next_i, _). parse_quote n evs next_i (inner @ [ast])))"
| "parse_items 0 evs j items = NoFuel"
| "parse_items (Suc n) evs j items =
     run_bind (event_at evs j) (\<lambda>(e, rng).
       if closes_list e then Done (items, Suc j, snd rng)
       else if opens_item e then
         run_bind (parse_item n evs (Suc j) []) (\<lambda>(blocks, k). parse_items n evs k (items @ [blocks]))
       else parse_items n evs (Suc j) items)"
| "parse_item 0 evs k blocks = NoFuel"
| "parse_item (Suc n) evs k blocks =
     run_bind (event_at evs k) (\<lambda>(e, rng).
       if closes_item e then Done (blocks, Suc k)
       else if starts_block e then
         run_bind (parse_one_block n evs k) (\<lambda>(ast, next_k, _). parse_item n evs next_k (blocks @ [ast]))
       else
         run_bind (collect_inline_runs evs k EndItem) (\<lambda>(runs, next_k, _).
           Done (blocks @ [Paragraph runs], next_k)))"
  by pat_completeness auto
termination
  by (relation "measure (case_sum (case_sum (\<lambda>(n, _). n) (\<lambda>(n, _). n)) (case_sum (\<lambda>(n, _). n) (\<lambda>(n, _). n)))")
    simp_all

text \<open>Two steps per event are enough (\<open>parse_terminates\<close> below).\<close>

definition parse_fuel :: "events \<Rightarrow> nat" where
  "parse_fuel evs = 2 * length evs + 2"

fun parse_from :: "nat \<Rightarrow> events \<Rightarrow> nat \<Rightarrow> block_ast list \<Rightarrow> block_ast list run" where
  "parse_from 0 evs i blocks = NoFuel"
| "parse_from (Suc n) evs i blocks =
     (if i < length evs
      then run_bind (parse_one_block (parse_fuel evs) evs i) (\<lambda>(ast, end_i, _).
             parse_from n evs end_i (blocks @ [ast]))
      else Done blocks)"

definition parse_blocks :: "events \<Rightarrow> block_ast list run" where
  "parse_blocks evs = parse_from (Suc (length evs)) evs 0 []"

section \<open>The walks end\<close>

text \<open>Every walk moves forward.\<close>

lemma collect_runs_progress: "collect_runs end_tag st evs i acc = Done (runs, j, b) \<Longrightarrow> i < j"
proof (induction evs arbitrary: st i acc)
  case (Cons e evs)
  then show ?case
    by (cases e) (fastforce simp: Let_def split: if_splits prod.splits)
qed simp

lemma collect_inline_progress: "collect_inline_runs evs i end_tag = Done (runs, j, b) \<Longrightarrow> i < j"
  by (auto simp: collect_inline_runs_def dest: collect_runs_progress)

lemma code_lines_progress: "code_lines evs i ls = Done (ls', j, b) \<Longrightarrow> i < j"
  by (induction evs i ls rule: code_lines.induct)
    (auto split: if_splits event.splits tag_end.splits)

lemma table_cells_progress: "table_cells n evs k cells = Done (cells', j) \<Longrightarrow> k < j"
proof (induction n evs k cells rule: table_cells.induct)
  case (2 n evs k cells)
  then show ?case
    by (fastforce simp: run_bind_Done dest: collect_inline_progress split: if_splits prod.splits)
qed simp

lemma table_rows_progress: "table_rows n evs j rows = Done (rows', k, b) \<Longrightarrow> j < k"
proof (induction n evs j rows rule: table_rows.induct)
  case (2 n evs j rows)
  then show ?case
    by (fastforce simp: run_bind_Done dest: table_cells_progress split: if_splits prod.splits)
qed simp

lemma simple_block_progress: "simple_block n evs i e a b = Done (ast, j, x) \<Longrightarrow> i < j"
  by (fastforce simp: simple_block_def run_bind_Done dest: collect_inline_progress code_lines_progress
      table_rows_progress split: event.splits tag.splits prod.splits)

lemma parse_progress:
  "(\<forall>ast j x. parse_one_block n evs i = Done (ast, j, x) \<longrightarrow> i < j)
   \<and> (\<forall>inner inner' j x. parse_quote n evs i inner = Done (inner', j, x) \<longrightarrow> i < j)
   \<and> (\<forall>items items' j x. parse_items n evs i items = Done (items', j, x) \<longrightarrow> i < j)
   \<and> (\<forall>blocks blocks' j. parse_item n evs i blocks = Done (blocks', j) \<longrightarrow> i < j)"
proof (induction n arbitrary: i)
  case (Suc n)
  note block = Suc.IH [THEN conjunct1, rule_format]
  note quote = Suc.IH [THEN conjunct2, THEN conjunct1, rule_format]
  note items = Suc.IH [THEN conjunct2, THEN conjunct2, THEN conjunct1, rule_format]
  note item = Suc.IH [THEN conjunct2, THEN conjunct2, THEN conjunct2, rule_format]
  show ?case
  proof (intro conjI allI impI)
    fix ast j x assume "parse_one_block (Suc n) evs i = Done (ast, j, x)"
    then show "i < j"
      by (auto simp: run_bind_Done dest!: quote items simple_block_progress split: if_splits prod.splits)
  next
    fix inner inner' j x assume "parse_quote (Suc n) evs i inner = Done (inner', j, x)"
    then show "i < j"
      by (fastforce simp: run_bind_Done dest!: quote block split: if_splits prod.splits)
  next
    fix its its' j x assume "parse_items (Suc n) evs i its = Done (its', j, x)"
    then show "i < j"
      by (fastforce simp: run_bind_Done dest!: items item split: if_splits prod.splits)
  next
    fix blocks blocks' j assume "parse_item (Suc n) evs i blocks = Done (blocks', j)"
    then show "i < j"
      by (fastforce simp: run_bind_Done dest!: item block collect_inline_progress split: if_splits prod.splits)
  qed
qed simp

lemmas block_progress = parse_progress [THEN conjunct1, rule_format]
  and item_progress = parse_progress [THEN conjunct2, THEN conjunct2, THEN conjunct2, rule_format]

text \<open>None of the loops runs out of steps.\<close>

lemma event_at_fuel [simp]: "event_at evs i \<noteq> NoFuel" by (simp add: event_at_def)

lemma event_at_Done: "event_at evs i = Done x \<longleftrightarrow> i < length evs \<and> evs ! i = x"
  by (auto simp: event_at_def)

lemma collect_fuel [simp]: "collect_inline_runs evs i end_tag \<noteq> NoFuel"
proof -
  have "collect_runs end_tag st es j acc \<noteq> NoFuel" for st es j acc
    by (induction end_tag st es j acc rule: collect_runs.induct) (auto simp: Let_def split: prod.splits)
  then show ?thesis by (simp add: collect_inline_runs_def)
qed

lemma code_lines_fuel [simp]: "code_lines evs j ls \<noteq> NoFuel"
  by (induction evs j ls rule: code_lines.induct) (auto split: event.splits tag_end.splits)

lemma table_cells_fuel: "length evs - k < n \<Longrightarrow> table_cells n evs k cells \<noteq> NoFuel"
proof (induction n evs k cells rule: table_cells.induct)
  case (2 n evs k cells)
  show ?case
  proof
    assume "table_cells (Suc n) evs k cells = NoFuel"
    then show False
      using "2.prems" "2.IH"
      by (fastforce simp: run_bind_NoFuel event_at_Done dest: collect_inline_progress split: if_splits prod.splits)
  qed
qed simp

lemma table_rows_fuel: "length evs - j + 1 < n \<Longrightarrow> table_rows n evs j rows \<noteq> NoFuel"
proof (induction n evs j rows rule: table_rows.induct)
  case (2 n evs j rows)
  show ?case
  proof
    assume "table_rows (Suc n) evs j rows = NoFuel"
    then show False
      using "2.prems" "2.IH" table_cells_fuel [of evs "Suc j" n]
      by (fastforce simp: run_bind_NoFuel event_at_Done dest: table_cells_progress split: if_splits prod.splits)
  qed
qed simp

lemma simple_block_fuel:
  assumes "i < length evs" and "2 * (length evs - i) \<le> n"
  shows "simple_block n evs i e a b \<noteq> NoFuel"
proof -
  have "table_rows n evs (Suc i) [] \<noteq> NoFuel" using assms by (intro table_rows_fuel) linarith
  then show ?thesis
    by (auto simp: simple_block_def run_bind_NoFuel split: event.splits tag.splits prod.splits)
qed

lemma parse_enough:
  "(2 * (length evs - i) + 1 \<le> n \<longrightarrow> parse_one_block n evs i \<noteq> NoFuel)
   \<and> (2 * (length evs - i) + 2 \<le> n \<longrightarrow> (\<forall>inner. parse_quote n evs i inner \<noteq> NoFuel))
   \<and> (2 * (length evs - i) + 2 \<le> n \<longrightarrow> (\<forall>items. parse_items n evs i items \<noteq> NoFuel))
   \<and> (2 * (length evs - i) + 2 \<le> n \<longrightarrow> (\<forall>blocks. parse_item n evs i blocks \<noteq> NoFuel))"
proof (induction n arbitrary: i)
  case (Suc n)
  have block: "parse_one_block n evs k \<noteq> NoFuel" if "2 * (length evs - k) + 1 \<le> n" for k
    using Suc.IH that by blast
  have quote: "parse_quote n evs k inner \<noteq> NoFuel" if "2 * (length evs - k) + 2 \<le> n" for k inner
    using Suc.IH that by blast
  have items: "parse_items n evs k its \<noteq> NoFuel" if "2 * (length evs - k) + 2 \<le> n" for k its
    using Suc.IH that by blast
  have item: "parse_item n evs k blocks \<noteq> NoFuel" if "2 * (length evs - k) + 2 \<le> n" for k blocks
    using Suc.IH that by blast
  have later: "2 * (length evs - k) + 2 \<le> n" if "2 * (length evs - i) + 1 \<le> Suc n" "i < length evs" "i < k" for k
    using that by linarith
  show ?case
  proof (intro conjI impI allI)
    assume n: "2 * (length evs - i) + 1 \<le> Suc n"
    show "parse_one_block (Suc n) evs i \<noteq> NoFuel"
    proof (cases "i < length evs")
      case True
      then show ?thesis
        using n quote [OF later [OF n True]] items [OF later [OF n True]] simple_block_fuel [OF True]
        by (auto simp: run_bind_NoFuel event_at_Done split: prod.splits)
    qed (simp add: event_at_def)
  next
    fix inner assume n: "2 * (length evs - i) + 2 \<le> Suc n"
    show "parse_quote (Suc n) evs i inner \<noteq> NoFuel"
    proof (cases "i < length evs")
      case True
      then show ?thesis
        using n block [of i] quote [OF later [OF _ True]] block_progress
        by (fastforce simp: run_bind_NoFuel event_at_Done split: prod.splits if_splits)
    qed (simp add: event_at_def)
  next
    fix its assume n: "2 * (length evs - i) + 2 \<le> Suc n"
    show "parse_items (Suc n) evs i its \<noteq> NoFuel"
    proof (cases "i < length evs")
      case True
      then show ?thesis
        using n item [OF later [OF _ True]] items [OF later [OF _ True]] item_progress
        by (fastforce simp: run_bind_NoFuel event_at_Done split: prod.splits if_splits)
    qed (simp add: event_at_def)
  next
    fix blocks assume n: "2 * (length evs - i) + 2 \<le> Suc n"
    show "parse_item (Suc n) evs i blocks \<noteq> NoFuel"
    proof (cases "i < length evs")
      case True
      then show ?thesis
        using n block [of i] item [OF later [OF _ True]] block_progress
        by (fastforce simp: run_bind_NoFuel event_at_Done split: prod.splits if_splits)
    qed (simp add: event_at_def)
  qed
qed simp

text \<open>
  C39. Parsing always ends: whatever the events, two steps per event are enough for every block,
  and one block per event for the document, so the result is the blocks or a panic.
\<close>

theorem parse_terminates:
  "parse_blocks evs \<noteq> NoFuel \<and> parse_one_block (parse_fuel evs) evs i \<noteq> NoFuel"
proof
  have block: "parse_one_block (parse_fuel evs) evs k \<noteq> NoFuel" for k
    using parse_enough [of evs k "parse_fuel evs", THEN conjunct1] by (simp add: parse_fuel_def)
  have from_i: "parse_from n evs k blocks \<noteq> NoFuel" if "length evs - k < n" for n k blocks
    using that
  proof (induction n arbitrary: k blocks)
    case (Suc n)
    show ?case
    proof
      assume "parse_from (Suc n) evs k blocks = NoFuel"
      then show False
        using Suc.prems Suc.IH block [of k] block_progress [of "parse_fuel evs" evs k]
        by (fastforce simp: run_bind_NoFuel split: prod.splits if_splits)
    qed
  qed simp
  show "parse_blocks evs \<noteq> NoFuel" unfolding parse_blocks_def by (rule from_i) simp
  show "parse_one_block (parse_fuel evs) evs i \<noteq> NoFuel" by (rule block)
qed

section \<open>More steps do not change a result\<close>

definition fuel_le :: "'a run \<Rightarrow> 'a run \<Rightarrow> bool" where
  "fuel_le r r' = (r \<noteq> NoFuel \<longrightarrow> r' = r)"

lemma fuel_le_refl: "fuel_le r r"
  and fuel_le_NoFuel: "fuel_le NoFuel r"
  and fuel_le_if: "fuel_le r1 r1' \<Longrightarrow> fuel_le r2 r2' \<Longrightarrow> fuel_le (if c then r1 else r2) (if c then r1' else r2')"
  by (simp_all add: fuel_le_def)

lemma fuel_le_prod: "(\<And>x y. fuel_le (f x y) (g x y)) \<Longrightarrow> fuel_le (case p of (x, y) \<Rightarrow> f x y) (case p of (x, y) \<Rightarrow> g x y)"
  by (cases p) simp

lemma fuel_le_bind:
  "fuel_le r r' \<Longrightarrow> (\<And>y. fuel_le (f y) (f' y)) \<Longrightarrow> fuel_le (run_bind r f) (run_bind r' f')"
  by (cases r) (auto simp: fuel_le_def)

lemmas fuel_le_rules = fuel_le_bind fuel_le_prod fuel_le_if

lemma table_cells_mono: "n \<le> m \<Longrightarrow> fuel_le (table_cells n evs k cells) (table_cells m evs k cells)"
proof (induction n arbitrary: m k cells)
  case (Suc n)
  from \<open>Suc n \<le> m\<close> obtain m' where m: "m = Suc m'" "n \<le> m'" by (cases m) auto
  show ?case
    unfolding m(1) table_cells.simps by (intro fuel_le_rules Suc.IH m(2) fuel_le_refl)
qed (simp add: fuel_le_NoFuel)

lemma table_rows_mono: "n \<le> m \<Longrightarrow> fuel_le (table_rows n evs j rows) (table_rows m evs j rows)"
proof (induction n arbitrary: m j rows)
  case (Suc n)
  from \<open>Suc n \<le> m\<close> obtain m' where m: "m = Suc m'" "n \<le> m'" by (cases m) auto
  show ?case
    unfolding m(1) table_rows.simps
    by (intro fuel_le_rules Suc.IH m(2) table_cells_mono fuel_le_refl)
qed (simp add: fuel_le_NoFuel)

lemma simple_block_mono: "n \<le> m \<Longrightarrow> fuel_le (simple_block n evs i e a b) (simple_block m evs i e a b)"
  by (auto simp: simple_block_def fuel_le_refl intro!: fuel_le_bind table_rows_mono split: event.split tag.split)

lemma parse_mono:
  "n \<le> m \<Longrightarrow>
   fuel_le (parse_one_block n evs i) (parse_one_block m evs i)
   \<and> (\<forall>inner. fuel_le (parse_quote n evs i inner) (parse_quote m evs i inner))
   \<and> (\<forall>items. fuel_le (parse_items n evs i items) (parse_items m evs i items))
   \<and> (\<forall>blocks. fuel_le (parse_item n evs i blocks) (parse_item m evs i blocks))"
proof (induction n arbitrary: m i)
  case (Suc n)
  from \<open>Suc n \<le> m\<close> obtain m' where m: "m = Suc m'" "n \<le> m'" by (cases m) auto
  note IH = Suc.IH [OF m(2)]
  note block = IH [THEN conjunct1] and quote = IH [THEN conjunct2, THEN conjunct1, THEN spec]
    and items = IH [THEN conjunct2, THEN conjunct2, THEN conjunct1, THEN spec]
    and item = IH [THEN conjunct2, THEN conjunct2, THEN conjunct2, THEN spec]
  show ?case
    unfolding m(1) parse_one_block.simps parse_quote.simps parse_items.simps parse_item.simps
    by (intro conjI allI fuel_le_rules block quote items item simple_block_mono m(2) fuel_le_refl)
qed (simp add: fuel_le_NoFuel)

lemma parse_one_block_any:
  assumes "parse_one_block n evs i = Done r"
  shows "parse_one_block (parse_fuel evs) evs i = Done r"
proof (cases "n \<le> parse_fuel evs")
  case True
  from parse_mono [OF this, of evs i] assms show ?thesis by (simp add: fuel_le_def)
next
  case False
  then have "parse_fuel evs \<le> n" by simp
  from parse_mono [OF this, of evs i] assms parse_terminates [of evs i] show ?thesis by (simp add: fuel_le_def)
qed

section \<open>Well-nested documents\<close>

text \<open>
  What the events of a well-nested document are, and the blocks it should become.  The items of
  a list are loose (blocks) or tight (inline content without a paragraph around it).
\<close>

datatype inline =
    InText string | InCode string | InBreak bool
  | InStrong "inline list" | InEmphasis "inline list" | InStrike "inline list"
  | InLink string "inline list" | InImage "inline list"

primrec inline_events :: "inline \<Rightarrow> event list" where
  "inline_events (InText t) = [EvText t]"
| "inline_events (InCode t) = [EvCode t]"
| "inline_events (InBreak hard) = [if hard then EvHardBreak else EvSoftBreak]"
| "inline_events (InStrong xs) = EvStart TagStrong # concat (map inline_events xs) @ [EvEnd EndStrong]"
| "inline_events (InEmphasis xs) = EvStart TagEmphasis # concat (map inline_events xs) @ [EvEnd EndEmphasis]"
| "inline_events (InStrike xs) = EvStart TagStrikethrough # concat (map inline_events xs) @ [EvEnd EndStrikethrough]"
| "inline_events (InLink url xs) = EvStart (TagLink url) # concat (map inline_events xs) @ [EvEnd EndLink]"
| "inline_events (InImage xs) = EvStart TagImage # concat (map inline_events xs) @ [EvEnd EndImage]"

primrec inline_runs :: "inline \<Rightarrow> inline_state \<Rightarrow> md_run list" where
  "inline_runs (InText t) = (\<lambda>st. [styled_run st False t])"
| "inline_runs (InCode t) = (\<lambda>st. [styled_run st True t])"
| "inline_runs (InBreak hard) = (\<lambda>st. [plain_run '' ''])"
| "inline_runs (InStrong xs) = (\<lambda>st. concat (map (\<lambda>f. f (st\<lparr>bold_depth := bold_depth st + 1\<rparr>)) (map inline_runs xs)))"
| "inline_runs (InEmphasis xs) = (\<lambda>st. concat (map (\<lambda>f. f (st\<lparr>italic_depth := italic_depth st + 1\<rparr>)) (map inline_runs xs)))"
| "inline_runs (InStrike xs) = (\<lambda>st. concat (map (\<lambda>f. f (st\<lparr>strike_depth := strike_depth st + 1\<rparr>)) (map inline_runs xs)))"
| "inline_runs (InLink url xs) = (\<lambda>st. concat (map (\<lambda>f. f (st\<lparr>link_stack := link_stack st @ [url]\<rparr>)) (map inline_runs xs)))"
| "inline_runs (InImage xs) = (\<lambda>st. concat (map (\<lambda>f. f st) (map inline_runs xs)))"

definition runs_of :: "inline list \<Rightarrow> md_run list" where
  "runs_of xs = concat (map (\<lambda>x. inline_runs x inline_start) xs)"

definition block_end :: "tag_end \<Rightarrow> bool" where
  "block_end e = (e = EndParagraph \<or> e = EndItem \<or> e = EndTableCell \<or> (\<exists>l. e = EndHeading l))"

lemma map_fst_ConsD: "map fst es = e # es' \<Longrightarrow> \<exists>r es''. es = (e, r) # es'' \<and> map fst es'' = es'"
  by (cases es) auto

lemma map_fst_appendD: "map fst es = xs @ ys \<Longrightarrow> \<exists>es1 es2. es = es1 @ es2 \<and> map fst es1 = xs \<and> map fst es2 = ys"
  by (auto simp only: map_eq_append_conv)

lemma collect_inline_list:
  assumes "\<And>x es st i acc rest. x \<in> set xs \<Longrightarrow> map fst es = inline_events x \<Longrightarrow>
      collect_runs end_tag st (es @ rest) i acc = collect_runs end_tag st rest (i + length es) (acc @ inline_runs x st)"
    and "map fst es = concat (map inline_events xs)"
  shows "collect_runs end_tag st (es @ rest) i acc
    = collect_runs end_tag st rest (i + length es) (acc @ concat (map (\<lambda>x. inline_runs x st) xs))"
  using assms
proof (induction xs arbitrary: es i acc)
  case (Cons x xs)
  obtain es1 es2 where es: "es = es1 @ es2" "map fst es1 = inline_events x"
    "map fst es2 = concat (map inline_events xs)"
    using Cons.prems(2) by (auto dest: map_fst_appendD)
  show ?case
    using Cons.prems(1) [of x es1 st "es2 @ rest"] Cons.IH [OF Cons.prems(1) es(3)] es(1,2)
    by (simp add: add.assoc)
qed simp

lemma collect_container:
  assumes list: "\<And>x es st i acc rest. x \<in> set xs \<Longrightarrow> map fst es = inline_events x \<Longrightarrow>
      collect_runs end_tag st (es @ rest) i acc = collect_runs end_tag st rest (i + length es) (acc @ inline_runs x st)"
    and es: "map fst es = EvStart t # concat (map inline_events xs) @ [EvEnd e]"
    and "inline_event st (EvStart t) = ([], st')" and "inline_event st' (EvEnd e) = ([], st)" and "e \<noteq> end_tag"
  shows "collect_runs end_tag st (es @ rest) i acc
    = collect_runs end_tag st rest (i + length es) (acc @ concat (map (\<lambda>x. inline_runs x st') xs))"
proof -
  obtain r1 es' where 1: "es = (EvStart t, r1) # es'" "map fst es' = concat (map inline_events xs) @ [EvEnd e]"
    using es by (auto dest: map_fst_ConsD)
  obtain es2 r2 where 2: "es' = es2 @ [(EvEnd e, r2)]" "map fst es2 = concat (map inline_events xs)"
    using map_fst_appendD [OF 1(2)] by (auto dest!: map_fst_ConsD)
  show ?thesis
    using collect_inline_list [OF list 2(2), of st' "(EvEnd e, r2) # rest" "Suc i" acc] assms(3-5)
    by (simp add: 1(1) 2(1))
qed

lemma collect_inline:
  assumes end_tag: "block_end end_tag" and "map fst es = inline_events x"
  shows "collect_runs end_tag st (es @ rest) i acc
    = collect_runs end_tag st rest (i + length es) (acc @ inline_runs x st)"
  using assms(2)
proof (induction x arbitrary: es st i acc rest)
  case (InStrong xs)
  have "collect_runs end_tag st (es @ rest) i acc = collect_runs end_tag st rest (i + length es)
      (acc @ concat (map (\<lambda>x. inline_runs x (st\<lparr>bold_depth := bold_depth st + 1\<rparr>)) xs))"
    by (rule collect_container [OF InStrong.IH InStrong.prems [unfolded inline_events.simps]])
      (use end_tag in \<open>auto simp: block_end_def\<close>)
  then show ?case by (simp add: o_def)
next
  case (InEmphasis xs)
  have "collect_runs end_tag st (es @ rest) i acc = collect_runs end_tag st rest (i + length es)
      (acc @ concat (map (\<lambda>x. inline_runs x (st\<lparr>italic_depth := italic_depth st + 1\<rparr>)) xs))"
    by (rule collect_container [OF InEmphasis.IH InEmphasis.prems [unfolded inline_events.simps]])
      (use end_tag in \<open>auto simp: block_end_def\<close>)
  then show ?case by (simp add: o_def)
next
  case (InStrike xs)
  have "collect_runs end_tag st (es @ rest) i acc = collect_runs end_tag st rest (i + length es)
      (acc @ concat (map (\<lambda>x. inline_runs x (st\<lparr>strike_depth := strike_depth st + 1\<rparr>)) xs))"
    by (rule collect_container [OF InStrike.IH InStrike.prems [unfolded inline_events.simps]])
      (use end_tag in \<open>auto simp: block_end_def\<close>)
  then show ?case by (simp add: o_def)
next
  case (InLink url xs)
  have "collect_runs end_tag st (es @ rest) i acc = collect_runs end_tag st rest (i + length es)
      (acc @ concat (map (\<lambda>x. inline_runs x (st\<lparr>link_stack := link_stack st @ [url]\<rparr>)) xs))"
    by (rule collect_container [OF InLink.IH InLink.prems [unfolded inline_events.simps]])
      (use end_tag in \<open>auto simp: block_end_def\<close>)
  then show ?case by (simp add: o_def)
next
  case (InImage xs)
  have "collect_runs end_tag st (es @ rest) i acc = collect_runs end_tag st rest (i + length es)
      (acc @ concat (map (\<lambda>x. inline_runs x st) xs))"
    by (rule collect_container [OF InImage.IH InImage.prems [unfolded inline_events.simps]])
      (use end_tag in \<open>auto simp: block_end_def\<close>)
  then show ?case by (simp add: o_def)
qed (use end_tag in \<open>auto simp: block_end_def\<close>)

lemma collect_block:
  assumes "block_end end_tag" and "map fst es = concat (map inline_events xs)"
  shows "collect_inline_runs (pre @ es @ (EvEnd end_tag, a, b) # post) (length pre) end_tag
    = Done (runs_of xs, length pre + length es + 1, b)"
  using collect_inline_list [of xs end_tag es inline_start, OF collect_inline [OF assms(1)] assms(2)]
  by (simp add: collect_inline_runs_def runs_of_def)

datatype doc =
    DHeading nat "inline list" | DParagraph "inline list" | DCode "string list" | DQuote "doc list"
  | DList "nat option" "doc_item list" | DRule | DTable "inline list list list"
and doc_item = Loose "doc list" | Tight "inline list"

definition cell_events :: "inline list \<Rightarrow> event list" where
  "cell_events xs = EvStart TagTableCell # concat (map inline_events xs) @ [EvEnd EndTableCell]"

definition row_events :: "inline list list \<Rightarrow> event list" where
  "row_events cells = EvStart TagTableRow # concat (map cell_events cells) @ [EvEnd EndTableRow]"

primrec doc_events :: "doc \<Rightarrow> event list" and item_events :: "doc_item \<Rightarrow> event list" where
  "doc_events (DHeading l xs) = EvStart (TagHeading l) # concat (map inline_events xs) @ [EvEnd (EndHeading l)]"
| "doc_events (DParagraph xs) = EvStart TagParagraph # concat (map inline_events xs) @ [EvEnd EndParagraph]"
| "doc_events (DCode ts) = EvStart TagCodeBlock # map EvText ts @ [EvEnd EndCodeBlock]"
| "doc_events (DQuote ds) = EvStart TagBlockQuote # concat (map doc_events ds) @ [EvEnd EndBlockQuote]"
| "doc_events (DList start items) = EvStart (TagList start) # concat (map item_events items) @ [EvEnd (EndList (start \<noteq> None))]"
| "doc_events DRule = [EvRule]"
| "doc_events (DTable rows) = EvStart TagTable # concat (map row_events rows) @ [EvEnd EndTable]"
| "item_events (Loose ds) = EvStart TagItem # concat (map doc_events ds) @ [EvEnd EndItem]"
| "item_events (Tight xs) = EvStart TagItem # concat (map inline_events xs) @ [EvEnd EndItem]"

definition code_block_lines :: "string list \<Rightarrow> string list" where
  "code_block_lines ts = drop_last_blank (foldl add_code_text [[]] ts)"

primrec doc_ast :: "doc \<Rightarrow> block_ast" and item_asts :: "doc_item \<Rightarrow> block_ast list" where
  "doc_ast (DHeading l xs) = Heading l (runs_of xs)"
| "doc_ast (DParagraph xs) = Paragraph (runs_of xs)"
| "doc_ast (DCode ts) = CodeLines (code_block_lines ts)"
| "doc_ast (DQuote ds) = Quote (map doc_ast ds)"
| "doc_ast (DList start items) =
     ListBlock (start \<noteq> None) (case start of None \<Rightarrow> 0 | Some s \<Rightarrow> s mod 2 ^ 32) (map item_asts items)"
| "doc_ast DRule = RuleBlock"
| "doc_ast (DTable rows) = TableBlock (map (map (\<lambda>xs. concat (map run_text (runs_of xs)))) rows)"
| "item_asts (Loose ds) = map doc_ast ds"
| "item_asts (Tight xs) = (if xs = [] then [] else [Paragraph (runs_of xs)])"

end
