(* ===== verification/MarkdownDocs.thy ===== *)
theory MarkdownDocs
  imports Markdown
begin

text \<open>
  The markdown parser of the panel (\<open>panel-rust/src/markdown.rs\<close>) on well-nested documents: it
  rebuilds the blocks the events came from.  A walk over the events is described by its big steps:
  where it starts, what it yields and where it stops, for some number of steps.
\<close>

section \<open>Big steps of the walks\<close>

definition block_step :: "events \<Rightarrow> nat \<Rightarrow> block_ast \<Rightarrow> nat \<Rightarrow> bool" where
  "block_step evs i ast j = (\<exists>n a b. parse_one_block n evs i = Done (ast, j, a, b))"

definition quote_steps :: "events \<Rightarrow> nat \<Rightarrow> block_ast list \<Rightarrow> block_ast list \<Rightarrow> nat \<Rightarrow> bool" where
  "quote_steps evs i inner res j = (\<exists>n b. parse_quote n evs i inner = Done (res, j, b))"

definition items_steps :: "events \<Rightarrow> nat \<Rightarrow> block_ast list list \<Rightarrow> block_ast list list \<Rightarrow> nat \<Rightarrow> bool" where
  "items_steps evs i items res j = (\<exists>n b. parse_items n evs i items = Done (res, j, b))"

definition item_steps :: "events \<Rightarrow> nat \<Rightarrow> block_ast list \<Rightarrow> block_ast list \<Rightarrow> nat \<Rightarrow> bool" where
  "item_steps evs i blocks res j = (\<exists>n. parse_item n evs i blocks = Done (res, j))"

definition cells_steps :: "events \<Rightarrow> nat \<Rightarrow> string list \<Rightarrow> string list \<Rightarrow> nat \<Rightarrow> bool" where
  "cells_steps evs i cells res j = (\<exists>n. table_cells n evs i cells = Done (res, j))"

definition rows_steps :: "events \<Rightarrow> nat \<Rightarrow> string list list \<Rightarrow> string list list \<Rightarrow> nat \<Rightarrow> bool" where
  "rows_steps evs i rows res j = (\<exists>n b. table_rows n evs i rows = Done (res, j, b))"

lemma fuel_le_Done: "fuel_le r r' \<Longrightarrow> r = Done x \<Longrightarrow> r' = Done x"
  by (simp add: fuel_le_def)

lemma block_mono: "parse_one_block n evs i = Done r \<Longrightarrow> n \<le> m \<Longrightarrow> parse_one_block m evs i = Done r"
  and quote_mono: "parse_quote n evs i inner = Done r2 \<Longrightarrow> n \<le> m \<Longrightarrow> parse_quote m evs i inner = Done r2"
  and items_mono: "parse_items n evs i items = Done r3 \<Longrightarrow> n \<le> m \<Longrightarrow> parse_items m evs i items = Done r3"
  and item_mono: "parse_item n evs i blocks = Done r4 \<Longrightarrow> n \<le> m \<Longrightarrow> parse_item m evs i blocks = Done r4"
  using parse_mono [of n m evs i] by (blast intro: fuel_le_Done)+

lemma cells_mono: "table_cells n evs i cells = Done r \<Longrightarrow> n \<le> m \<Longrightarrow> table_cells m evs i cells = Done r"
  and rows_mono: "table_rows n evs i rows = Done r2 \<Longrightarrow> n \<le> m \<Longrightarrow> table_rows m evs i rows = Done r2"
  using table_cells_mono [of n m evs i cells] table_rows_mono [of n m evs i rows]
  by (blast intro: fuel_le_Done)+

lemma quote_stop:
  "i < length evs \<Longrightarrow> closes_quote (fst (evs ! i)) \<Longrightarrow> quote_steps evs i inner inner (Suc i)"
  unfolding quote_steps_def
  by (rule exI [of _ "Suc 0"]) (simp add: event_at_def case_prod_beta)

lemma quote_step:
  assumes "i < length evs" "\<not> closes_quote (fst (evs ! i))" "block_step evs i ast k"
    and "quote_steps evs k (inner @ [ast]) res j"
  shows "quote_steps evs i inner res j"
proof -
  obtain n1 a b n2 c where 1: "parse_one_block n1 evs i = Done (ast, k, a, b)"
    and 2: "parse_quote n2 evs k (inner @ [ast]) = Done (res, j, c)"
    using assms(3,4) by (auto simp: block_step_def quote_steps_def)
  have "parse_quote (Suc (max n1 n2)) evs i inner = Done (res, j, c)"
    using assms(1,2) block_mono [OF 1, of "max n1 n2"] quote_mono [OF 2, of "max n1 n2"]
    by (simp add: event_at_def case_prod_beta)
  then show ?thesis unfolding quote_steps_def by blast
qed

lemma items_stop:
  "i < length evs \<Longrightarrow> closes_list (fst (evs ! i)) \<Longrightarrow> items_steps evs i items items (Suc i)"
  unfolding items_steps_def
  by (rule exI [of _ "Suc 0"]) (simp add: event_at_def case_prod_beta)

lemma items_step:
  assumes "i < length evs" "fst (evs ! i) = EvStart TagItem" "item_steps evs (Suc i) [] blocks k"
    and "items_steps evs k (items @ [blocks]) res j"
  shows "items_steps evs i items res j"
proof -
  obtain n1 n2 c where 1: "parse_item n1 evs (Suc i) [] = Done (blocks, k)"
    and 2: "parse_items n2 evs k (items @ [blocks]) = Done (res, j, c)"
    using assms(3,4) by (auto simp: item_steps_def items_steps_def)
  have "parse_items (Suc (max n1 n2)) evs i items = Done (res, j, c)"
    using assms(1,2) item_mono [OF 1, of "max n1 n2"] items_mono [OF 2, of "max n1 n2"]
    by (simp add: event_at_def closes_list_def opens_item_def case_prod_beta)
  then show ?thesis unfolding items_steps_def by blast
qed

lemma item_stop:
  "i < length evs \<Longrightarrow> closes_item (fst (evs ! i)) \<Longrightarrow> item_steps evs i blocks blocks (Suc i)"
  unfolding item_steps_def
  by (rule exI [of _ "Suc 0"]) (simp add: event_at_def case_prod_beta)

lemma item_step:
  assumes "i < length evs" "\<not> closes_item (fst (evs ! i))" "starts_block (fst (evs ! i))"
    and "block_step evs i ast k" "item_steps evs k (blocks @ [ast]) res j"
  shows "item_steps evs i blocks res j"
proof -
  obtain n1 a b n2 where 1: "parse_one_block n1 evs i = Done (ast, k, a, b)"
    and 2: "parse_item n2 evs k (blocks @ [ast]) = Done (res, j)"
    using assms(4,5) by (auto simp: block_step_def item_steps_def)
  have "parse_item (Suc (max n1 n2)) evs i blocks = Done (res, j)"
    using assms(1-3) block_mono [OF 1, of "max n1 n2"] item_mono [OF 2, of "max n1 n2"]
    by (simp add: event_at_def case_prod_beta)
  then show ?thesis unfolding item_steps_def by blast
qed

lemma item_tight:
  assumes "i < length evs" "\<not> closes_item (fst (evs ! i))" "\<not> starts_block (fst (evs ! i))"
    and "collect_inline_runs evs i EndItem = Done (runs, j, b)"
  shows "item_steps evs i blocks (blocks @ [Paragraph runs]) j"
  unfolding item_steps_def using assms
  by (intro exI [of _ "Suc 0"]) (simp add: event_at_def case_prod_beta)

lemma cells_stop:
  "i < length evs \<Longrightarrow> ends_row (fst (evs ! i)) \<Longrightarrow> cells_steps evs i cells cells (Suc i)"
  unfolding cells_steps_def
  by (rule exI [of _ "Suc 0"]) (simp add: event_at_def case_prod_beta)

lemma cells_step:
  assumes "i < length evs" "fst (evs ! i) = EvStart TagTableCell"
    and "collect_inline_runs evs (Suc i) EndTableCell = Done (runs, k, b)"
    and "cells_steps evs k (cells @ [concat (map run_text runs)]) res j"
  shows "cells_steps evs i cells res j"
proof -
  obtain n where n: "table_cells n evs k (cells @ [concat (map run_text runs)]) = Done (res, j)"
    using assms(4) by (auto simp: cells_steps_def)
  have "table_cells (Suc n) evs i cells = Done (res, j)"
    using assms(1-3) n by (simp add: event_at_def ends_row_def case_prod_beta)
  then show ?thesis unfolding cells_steps_def by blast
qed

lemma rows_stop:
  "i < length evs \<Longrightarrow> fst (evs ! i) = EvEnd EndTable \<Longrightarrow> rows_steps evs i rows rows (Suc i)"
  unfolding rows_steps_def
  by (rule exI [of _ "Suc 0"]) (simp add: event_at_def case_prod_beta)

lemma rows_step:
  assumes "i < length evs" "fst (evs ! i) = EvStart TagTableRow" "cells_steps evs (Suc i) [] cells k"
    and "rows_steps evs k (rows @ [cells]) res j"
  shows "rows_steps evs i rows res j"
proof -
  obtain n1 n2 c where 1: "table_cells n1 evs (Suc i) [] = Done (cells, k)"
    and 2: "table_rows n2 evs k (rows @ [cells]) = Done (res, j, c)"
    using assms(3,4) by (auto simp: cells_steps_def rows_steps_def)
  have "table_rows (Suc (max n1 n2)) evs i rows = Done (res, j, c)"
    using assms(1,2) cells_mono [OF 1, of "max n1 n2"] rows_mono [OF 2, of "max n1 n2"]
    by (simp add: event_at_def starts_row_def case_prod_beta)
  then show ?thesis unfolding rows_steps_def by blast
qed

section \<open>Well-nested documents are rebuilt\<close>

lemma doc_events_Cons: "\<exists>h t. doc_events d = h # t \<and> starts_block h \<and> \<not> closes_quote h \<and> \<not> closes_item h"
  by (cases d) (auto simp: starts_block_def closes_quote_def closes_item_def)

lemma inline_events_Cons: "\<exists>h t. inline_events x = h # t \<and> \<not> starts_block h \<and> \<not> closes_item h"
  by (cases x) (auto simp: starts_block_def closes_item_def)

lemma cells_walk:
  assumes "map fst es = concat (map cell_events cs)" and "ends_row (fst x)"
  shows "cells_steps (pre @ es @ x # post) (length pre) cells
    (cells @ map (\<lambda>xs. concat (map run_text (runs_of xs))) cs) (length pre + length es + 1)"
  using assms(1)
proof (induction cs arbitrary: pre es cells)
  case Nil
  then show ?case using cells_stop [of "length pre" "pre @ x # post"] assms(2) by simp
next
  case (Cons c cs)
  obtain es1 es2 where es: "es = es1 @ es2" "map fst es1 = cell_events c" "map fst es2 = concat (map cell_events cs)"
    using map_fst_appendD [of es "cell_events c"] Cons.prems by auto
  obtain r1 es3 r2 where es1: "es1 = (EvStart TagTableCell, r1) # es3 @ [(EvEnd EndTableCell, r2)]"
    "map fst es3 = concat (map inline_events c)"
    using es(2) by (auto simp: cell_events_def dest!: map_fst_ConsD map_fst_appendD)
  have "collect_inline_runs ((pre @ [(EvStart TagTableCell, r1)]) @ es3 @ (EvEnd EndTableCell, fst r2, snd r2) # es2 @ x # post)
      (length (pre @ [(EvStart TagTableCell, r1)])) EndTableCell
    = Done (runs_of c, length pre + length es1, snd r2)"
    by (subst collect_block [OF _ es1(2)]) (simp_all add: block_end_def es1(1))
  then have inl: "collect_inline_runs (pre @ es @ x # post) (Suc (length pre)) EndTableCell
    = Done (runs_of c, length pre + length es1, snd r2)"
    by (simp add: es(1) es1(1))
  show ?case
    using Cons.IH [OF es(3), of "pre @ es1" "cells @ [concat (map run_text (runs_of c))]"]
    by (intro cells_step [OF _ _ inl]) (simp_all add: es(1) es1(1) nth_append add.assoc)
qed

lemma rows_walk:
  assumes "map fst es = concat (map row_events rs)" and "fst x = EvEnd EndTable"
  shows "rows_steps (pre @ es @ x # post) (length pre) rows
    (rows @ map (map (\<lambda>xs. concat (map run_text (runs_of xs)))) rs) (length pre + length es + 1)"
  using assms(1)
proof (induction rs arbitrary: pre es rows)
  case Nil
  then show ?case using rows_stop [of "length pre" "pre @ x # post"] assms(2) by simp
next
  case (Cons r rs)
  obtain es1 es2 where es: "es = es1 @ es2" "map fst es1 = row_events r" "map fst es2 = concat (map row_events rs)"
    using map_fst_appendD [of es "row_events r"] Cons.prems by auto
  obtain r1 es3 r2 where es1: "es1 = (EvStart TagTableRow, r1) # es3 @ [(EvEnd EndTableRow, r2)]"
    "map fst es3 = concat (map cell_events r)"
    using es(2) by (auto simp: row_events_def dest!: map_fst_ConsD map_fst_appendD)
  have cells: "cells_steps (pre @ es @ x # post) (Suc (length pre)) []
      (map (\<lambda>xs. concat (map run_text (runs_of xs))) r) (length pre + length es1)"
    using cells_walk [OF es1(2), of "(EvEnd EndTableRow, r2)" "pre @ [(EvStart TagTableRow, r1)]" "es2 @ x # post" "[]"]
    by (simp add: es(1) es1(1) ends_row_def)
  show ?case
    using Cons.IH [OF es(3), of "pre @ es1" "rows @ [map (\<lambda>xs. concat (map run_text (runs_of xs))) r]"]
    by (intro rows_step [OF _ _ cells]) (simp_all add: es(1) es1(1) nth_append add.assoc)
qed

definition block_walk :: "doc \<Rightarrow> bool" where
  "block_walk d = (\<forall>pre es post. map fst es = doc_events d
     \<longrightarrow> block_step (pre @ es @ post) (length pre) (doc_ast d) (length pre + length es))"

definition item_walk :: "doc_item \<Rightarrow> bool" where
  "item_walk it = (\<forall>pre es post. map fst es = item_events it
     \<longrightarrow> item_steps (pre @ es @ post) (Suc (length pre)) [] (item_asts it) (length pre + length es))"

lemma quote_walk:
  assumes "\<forall>d \<in> set ds. block_walk d" "map fst es = concat (map doc_events ds)" "closes_quote (fst x)"
  shows "quote_steps (pre @ es @ x # post) (length pre) inner (inner @ map doc_ast ds) (length pre + length es + 1)"
  using assms(1,2)
proof (induction ds arbitrary: pre es inner)
  case Nil
  then show ?case using quote_stop [of "length pre" "pre @ x # post"] assms(3) by simp
next
  case (Cons d ds)
  obtain es1 es2 where es: "es = es1 @ es2" "map fst es1 = doc_events d" "map fst es2 = concat (map doc_events ds)"
    using map_fst_appendD [of es "doc_events d"] Cons.prems(2) by auto
  obtain h r t where es1: "es1 = (h, r) # t" "\<not> closes_quote h"
    using doc_events_Cons [of d] es(2) by (auto dest!: map_fst_ConsD)
  have d: "block_step (pre @ es @ x # post) (length pre) (doc_ast d) (length pre + length es1)"
    using Cons.prems(1) es(2) by (simp add: block_walk_def es(1))
  show ?case
    using Cons.IH [of es2 "pre @ es1" "inner @ [doc_ast d]"] Cons.prems(1) es(3) es1
    by (intro quote_step [OF _ _ d]) (simp_all add: es(1) nth_append add.assoc)
qed

lemma loose_walk:
  assumes "\<forall>d \<in> set ds. block_walk d" "map fst es = concat (map doc_events ds)" "closes_item (fst x)"
  shows "item_steps (pre @ es @ x # post) (length pre) blocks (blocks @ map doc_ast ds) (length pre + length es + 1)"
  using assms(1,2)
proof (induction ds arbitrary: pre es blocks)
  case Nil
  then show ?case using item_stop [of "length pre" "pre @ x # post"] assms(3) by simp
next
  case (Cons d ds)
  obtain es1 es2 where es: "es = es1 @ es2" "map fst es1 = doc_events d" "map fst es2 = concat (map doc_events ds)"
    using map_fst_appendD [of es "doc_events d"] Cons.prems(2) by auto
  obtain h r t where es1: "es1 = (h, r) # t" "\<not> closes_item h" "starts_block h"
    using doc_events_Cons [of d] es(2) by (auto dest!: map_fst_ConsD)
  have d: "block_step (pre @ es @ x # post) (length pre) (doc_ast d) (length pre + length es1)"
    using Cons.prems(1) es(2) by (simp add: block_walk_def es(1))
  show ?case
    using Cons.IH [of es2 "pre @ es1" "blocks @ [doc_ast d]"] Cons.prems(1) es(3) es1
    by (intro item_step [OF _ _ _ d]) (simp_all add: es(1) nth_append add.assoc)
qed

lemma items_walk:
  assumes "\<forall>it \<in> set its. item_walk it" "map fst es = concat (map item_events its)" "closes_list (fst x)"
  shows "items_steps (pre @ es @ x # post) (length pre) items (items @ map item_asts its) (length pre + length es + 1)"
  using assms(1,2)
proof (induction its arbitrary: pre es items)
  case Nil
  then show ?case using items_stop [of "length pre" "pre @ x # post"] assms(3) by simp
next
  case (Cons it its)
  obtain es1 es2 where es: "es = es1 @ es2" "map fst es1 = item_events it" "map fst es2 = concat (map item_events its)"
    using map_fst_appendD [of es "item_events it"] Cons.prems(2) by auto
  obtain r t where es1: "es1 = (EvStart TagItem, r) # t"
    using es(2) by (cases it) (auto dest!: map_fst_ConsD)
  have it: "item_steps (pre @ es @ x # post) (Suc (length pre)) [] (item_asts it) (length pre + length es1)"
    using Cons.prems(1) es(2) by (simp add: item_walk_def es(1))
  show ?case
    using Cons.IH [of es2 "pre @ es1" "items @ [item_asts it]"] Cons.prems(1) es(3) es1
    by (intro items_step [OF _ _ it]) (simp_all add: es(1) nth_append add.assoc)
qed

lemma tight_walk:
  assumes es: "map fst es = concat (map inline_events xs)" and x: "fst x = EvEnd EndItem"
  shows "item_steps (pre @ es @ x # post) (length pre) blocks
    (blocks @ (if xs = [] then [] else [Paragraph (runs_of xs)])) (length pre + length es + 1)"
proof (cases xs)
  case Nil
  then show ?thesis using es x item_stop [of "length pre" "pre @ x # post"] by (simp add: closes_item_def)
next
  case (Cons y ys)
  obtain h r t where es1: "es = (h, r) # t" "\<not> closes_item h" "\<not> starts_block h"
    using inline_events_Cons [of y] es Cons by (auto dest!: map_fst_ConsD)
  have "collect_inline_runs (pre @ es @ x # post) (length pre) EndItem
      = Done (runs_of xs, length pre + length es + 1, snd (snd x))"
    using collect_block [OF _ es, of EndItem pre "fst (snd x)" "snd (snd x)" post] x
    by (cases x) (simp add: block_end_def)
  from item_tight [OF _ _ _ this, of blocks] es1 Cons show ?thesis by (simp add: nth_append)
qed

lemma code_lines_walk:
  "map fst es = map EvText ts \<Longrightarrow> fst x = EvEnd EndCodeBlock \<Longrightarrow>
   code_lines (es @ x # post) j ls = Done (foldl add_code_text ls ts, j + length es + 1, snd (snd x))"
proof (induction ts arbitrary: es j ls)
  case Nil
  then show ?case by (cases x) simp
next
  case (Cons t ts)
  obtain r es2 where "es = (EvText t, r) # es2" "map fst es2 = map EvText ts"
    using Cons.prems(1) by (auto dest!: map_fst_ConsD)
  with Cons.IH [of es2] Cons.prems(2) show ?case by simp
qed

text \<open>An opening event, what it encloses, and the closing event.\<close>

lemma block_parts:
  assumes "map fst (es :: events) = h # body @ [c]"
  obtains r es' r' where "es = (h, r) # es' @ [(c, r')]" "map fst es' = body"
  using assms by (auto dest!: map_fst_ConsD map_fst_appendD)

lemma simple_step:
  assumes "i < length evs" "evs ! i = (e, a, b)" "\<not> opens_quote e" "\<not> opens_list e"
    and "simple_block n evs i e a b = Done (ast, j, x, y)"
  shows "block_step evs i ast j"
  unfolding block_step_def using assms by (rule_tac x = "Suc n" in exI) (simp add: event_at_def)

lemma quoted_step:
  assumes "i < length evs" "fst (evs ! i) = EvStart TagBlockQuote" "quote_steps evs (Suc i) [] res j"
  shows "block_step evs i (Quote res) j"
proof -
  obtain n b where "parse_quote n evs (Suc i) [] = Done (res, j, b)"
    using assms(3) by (auto simp: quote_steps_def)
  then show ?thesis
    unfolding block_step_def using assms(1,2)
    by (rule_tac x = "Suc n" in exI) (simp add: event_at_def case_prod_beta opens_quote_def)
qed

lemma listed_step:
  assumes "i < length evs" "fst (evs ! i) = EvStart (TagList start)" "items_steps evs (Suc i) [] res j"
  shows "block_step evs i (ListBlock (start \<noteq> None) (case start of None \<Rightarrow> 0 | Some s \<Rightarrow> s mod 2 ^ 32) res) j"
proof -
  obtain n b where "parse_items n evs (Suc i) [] = Done (res, j, b)"
    using assms(3) by (auto simp: items_steps_def)
  then show ?thesis
    unfolding block_step_def using assms(1,2)
    by (rule_tac x = "Suc n" in exI) (simp add: event_at_def case_prod_beta opens_quote_def opens_list_def)
qed

lemma block_walkI:
  assumes "doc_events d = h # body @ [c]"
    and "\<And>pre r es r' post. map fst es = body
      \<Longrightarrow> block_step (pre @ (h, r) # es @ (c, r') # post) (length pre) (doc_ast d) (length pre + length es + 2)"
  shows "block_walk d"
  unfolding block_walk_def
proof (intro allI impI)
  fix pre post es :: events
  assume "map fst es = doc_events d"
  then obtain r es' r' where "es = (h, r) # es' @ [(c, r')]" "map fst es' = body"
    unfolding assms(1) by (rule block_parts)
  with assms(2) [of es' pre r r' post]
  show "block_step (pre @ es @ post) (length pre) (doc_ast d) (length pre + length es)" by simp
qed

lemma item_walkI:
  assumes "item_events it = EvStart TagItem # body @ [EvEnd EndItem]"
    and "\<And>pre r es r' post. map fst es = body
      \<Longrightarrow> item_steps (pre @ es @ (EvEnd EndItem, r') # post) (length pre) [] (item_asts it) (length pre + length es + 1)"
  shows "item_walk it"
  unfolding item_walk_def
proof (intro allI impI)
  fix pre post es :: events
  assume "map fst es = item_events it"
  then obtain r es' r' where "es = (EvStart TagItem, r) # es' @ [(EvEnd EndItem, r')]" "map fst es' = body"
    unfolding assms(1) by (rule block_parts)
  with assms(2) [of es' "pre @ [(EvStart TagItem, r)]" r' post]
  show "item_steps (pre @ es @ post) (Suc (length pre)) [] (item_asts it) (length pre + length es)" by simp
qed

lemmas simple_cases = nth_append opens_quote_def opens_list_def simple_block_def

lemma heading_walk: "block_walk (DHeading l xs)"
proof (rule block_walkI)
  fix pre post es :: events and r r'
  assume body: "map fst es = concat (map inline_events xs)"
  show "block_step (pre @ (EvStart (TagHeading l), r) # es @ (EvEnd (EndHeading l), r') # post) (length pre)
      (doc_ast (DHeading l xs)) (length pre + length es + 2)"
    using collect_block [OF _ body, of "EndHeading l" "pre @ [(EvStart (TagHeading l), r)]" "fst r'" "snd r'" post]
    by (intro simple_step [where a = "fst r" and b = "snd r"]) (auto simp: simple_cases block_end_def)
qed simp

lemma paragraph_walk: "block_walk (DParagraph xs)"
proof (rule block_walkI)
  fix pre post es :: events and r r'
  assume body: "map fst es = concat (map inline_events xs)"
  show "block_step (pre @ (EvStart TagParagraph, r) # es @ (EvEnd EndParagraph, r') # post) (length pre)
      (doc_ast (DParagraph xs)) (length pre + length es + 2)"
    using collect_block [OF _ body, of EndParagraph "pre @ [(EvStart TagParagraph, r)]" "fst r'" "snd r'" post]
    by (intro simple_step [where a = "fst r" and b = "snd r"]) (auto simp: simple_cases block_end_def)
qed simp

lemma code_walk: "block_walk (DCode ts)"
proof (rule block_walkI)
  fix pre post es :: events and r r'
  assume body: "map fst es = map EvText ts"
  show "block_step (pre @ (EvStart TagCodeBlock, r) # es @ (EvEnd EndCodeBlock, r') # post) (length pre)
      (doc_ast (DCode ts)) (length pre + length es + 2)"
    using code_lines_walk [OF body, of "(EvEnd EndCodeBlock, r')" post "Suc (length pre)" "[[]]"]
    by (intro simple_step [where a = "fst r" and b = "snd r"]) (auto simp: simple_cases code_block_lines_def)
qed simp

lemma table_walk: "block_walk (DTable rows)"
proof (rule block_walkI)
  fix pre post es :: events and r r'
  assume body: "map fst es = concat (map row_events rows)"
  let ?evs = "pre @ (EvStart TagTable, r) # es @ (EvEnd EndTable, r') # post"
  obtain n b where "table_rows n ?evs (Suc (length pre)) []
      = Done (map (map (\<lambda>xs. concat (map run_text (runs_of xs)))) rows, length pre + length es + 2, b)"
    using rows_walk [OF body, of "(EvEnd EndTable, r')" "pre @ [(EvStart TagTable, r)]" post "[]"]
    by (auto simp: rows_steps_def)
  then show "block_step ?evs (length pre) (doc_ast (DTable rows)) (length pre + length es + 2)"
    by (intro simple_step [where a = "fst r" and b = "snd r" and n = n]) (auto simp: simple_cases)
qed simp

lemma rule_walk: "block_walk DRule"
  unfolding block_walk_def
  by (auto simp: simple_cases dest!: map_fst_ConsD intro!: simple_step [where n = 0])

lemma quoted_walk:
  assumes "\<forall>d \<in> set ds. block_walk d"
  shows "block_walk (DQuote ds)"
proof (rule block_walkI)
  fix pre post es :: events and r r'
  assume body: "map fst es = concat (map doc_events ds)"
  show "block_step (pre @ (EvStart TagBlockQuote, r) # es @ (EvEnd EndBlockQuote, r') # post) (length pre)
      (doc_ast (DQuote ds)) (length pre + length es + 2)"
    using quote_walk [OF assms body, of "(EvEnd EndBlockQuote, r')" "pre @ [(EvStart TagBlockQuote, r)]" post "[]"]
    by (auto simp: nth_append closes_quote_def intro!: quoted_step)
qed simp

lemma list_walk:
  assumes "\<forall>it \<in> set its. item_walk it"
  shows "block_walk (DList start its)"
proof (rule block_walkI)
  fix pre post es :: events and r r'
  assume body: "map fst es = concat (map item_events its)"
  show "block_step (pre @ (EvStart (TagList start), r) # es @ (EvEnd (EndList (start \<noteq> None)), r') # post) (length pre)
      (doc_ast (DList start its)) (length pre + length es + 2)"
    unfolding doc_ast.simps
    using items_walk [OF assms body, of "(EvEnd (EndList (start \<noteq> None)), r')" "pre @ [(EvStart (TagList start), r)]" post "[]"]
    by (intro listed_step) (auto simp: nth_append closes_list_def)
qed simp

lemma doc_walks: "block_walk d" and item_walks: "item_walk it"
proof (induction d and it)
  case (Loose ds)
  then have all: "\<forall>d \<in> set ds. block_walk d" by blast
  show ?case
    using loose_walk [OF all, where blocks = "[]"] 
    by (intro item_walkI [where body = "concat (map doc_events ds)"]) (auto simp: closes_item_def)
next
  case (Tight xs)
  show ?case
    using tight_walk [where xs = xs and blocks = "[]"]
    by (intro item_walkI [where body = "concat (map inline_events xs)"]) auto
qed (auto intro!: heading_walk paragraph_walk code_walk table_walk rule_walk quoted_walk list_walk)

lemma parse_docs:
  assumes "map fst es = concat (map doc_events ds)" "length es < n"
  shows "parse_from n (pre @ es) (length pre) blocks = Done (blocks @ map doc_ast ds)"
  using assms
proof (induction ds arbitrary: pre es n blocks)
  case Nil
  then show ?case by (cases n) auto
next
  case (Cons d ds)
  obtain es1 es2 where es: "es = es1 @ es2" "map fst es1 = doc_events d" "map fst es2 = concat (map doc_events ds)"
    using map_fst_appendD [of es "doc_events d"] Cons.prems(1) by auto
  obtain n' where n: "n = Suc n'" using Cons.prems(2) by (cases n) auto
  have ne: "es1 \<noteq> []" using doc_events_Cons [of d] es(2) by auto
  have "block_step (pre @ es) (length pre) (doc_ast d) (length pre + length es1)"
    using doc_walks [of d] es(2) by (simp add: block_walk_def es(1))
  then obtain a b where "parse_one_block (parse_fuel (pre @ es)) (pre @ es) (length pre)
      = Done (doc_ast d, length pre + length es1, a, b)"
    by (auto simp: block_step_def dest: parse_one_block_any)
  with Cons.IH [of es2 n' "pre @ es1" "blocks @ [doc_ast d]"] Cons.prems(2) es ne show ?case
    by (simp add: n) (cases es1; simp)
qed


definition sample_document :: "doc list" where
  "sample_document =
     [DHeading 2 [InText ''Plan''],
      DParagraph [InText ''use '', InStrong [InText ''two '', InEmphasis [InCode ''f(x)'']], InBreak False],
      DList (Some 3) [Loose [DParagraph [InText ''a''], DQuote [DRule, DCode [''x\<newline>y\<newline>'']]], Tight [InText ''b''], Tight []],
      DTable [[[InText ''k''], [InLink ''u'' [InText ''v'']]]]]"


text \<open>
  A tight item with a list inside is not of that shape: its text is followed by the events of
  the inner list.  The inline walk that collects the text stops at the first end of an item, the
  inner one, so the inner list and its nesting are lost, and the outer list is closed by the end
  of the inner one.
\<close>
theorem nested_tight_list_is_flattened:
  "parse_blocks (map (\<lambda>e. (e, 0, 0))
     [EvStart (TagList None), EvStart TagItem, EvText ''a'', EvStart (TagList None), EvStart TagItem,
      EvText ''b'', EvEnd EndItem, EvEnd (EndList False), EvEnd EndItem, EvEnd (EndList False)])
   = Done
      [ListBlock False 0 [[Paragraph [plain_run ''a'', plain_run ''b'']]],
       Paragraph [plain_run []], Paragraph [plain_run []]]"
  by code_simp

end
