(* ===== verification/MarkdownSpans.thy ===== *)
theory MarkdownSpans
  imports Markdown
begin

text \<open>
  The block spans of a message (\<open>segment_blocks\<close> of \<open>panel-rust/src/markdown.rs\<close>), which the
  view styles block by block, and the repair of a half-received block (\<open>heal_open_markers\<close>).
\<close>

section \<open>Spans\<close>

datatype span_kind =
    SpanText
  | SpanCode string
  | SpanTable "(nat \<times> nat) list" nat
  | SpanRule

record block_span =
  span_kind :: span_kind
  source_range :: "nat \<times> nat"
  heading_level :: "nat option"
  span_indent :: "8 word"

definition text_span :: "nat \<Rightarrow> nat \<Rightarrow> nat option \<Rightarrow> 8 word \<Rightarrow> block_span" where
  "text_span a b level ind =
     \<lparr>span_kind = SpanText, source_range = (a, b), heading_level = level, span_indent = ind\<rparr>"

definition code_body :: "events \<Rightarrow> nat \<Rightarrow> nat \<Rightarrow> string" where
  "code_body evs i j =
     (let body = concat (map (\<lambda>e. case fst e of EvText t \<Rightarrow> t | _ \<Rightarrow> []) (take (j - i) (drop i evs)))
      in if ends_with_newline body then butlast body else body)"

text \<open>The ranges of the cells of a row, and of a table with its number of columns.\<close>

fun span_row :: "nat \<Rightarrow> events \<Rightarrow> nat \<Rightarrow> (nat \<times> nat) list \<Rightarrow> nat \<Rightarrow> ((nat \<times> nat) list \<times> nat \<times> nat) run" where
  "span_row 0 evs k cells row_len = NoFuel"
| "span_row (Suc n) evs k cells row_len =
     run_bind (event_at evs k) (\<lambda>(e, cell_start, _).
       if ends_row e then Done (cells, row_len, Suc k)
       else if e = EvStart TagTableCell then
         run_bind (scan_to (\<lambda>e. e = EvEnd EndTableCell) evs (Suc k)) (\<lambda>m.
           span_row n evs (Suc m) (cells @ [(cell_start, snd (snd (evs ! m)))]) (Suc row_len))
       else span_row n evs (Suc k) cells row_len)"

fun span_table ::
  "nat \<Rightarrow> events \<Rightarrow> nat \<Rightarrow> (nat \<times> nat) list \<Rightarrow> nat \<Rightarrow> ((nat \<times> nat) list \<times> nat \<times> nat) run"
where
  "span_table 0 evs j cells col_count = NoFuel"
| "span_table (Suc n) evs j cells col_count =
     run_bind (event_at evs j) (\<lambda>(e, _).
       if e = EvEnd EndTable then Done (cells, col_count, Suc j)
       else if starts_row e then
         run_bind (span_row n evs (Suc j) cells 0) (\<lambda>(cells', row_len, k).
           span_table n evs k cells' (max col_count row_len))
       else span_table n evs (Suc j) cells col_count)"

text \<open>The blocks without blocks inside: the span they add, and where the walk goes on.\<close>

definition simple_span :: "nat \<Rightarrow> events \<Rightarrow> nat \<Rightarrow> event \<Rightarrow> nat \<times> nat \<Rightarrow> 8 word \<Rightarrow> (block_span list \<times> nat) run" where
  "simple_span n evs i e rng ind =
     (case e of
        EvStart (TagHeading level) \<Rightarrow>
          run_bind (scan_to closes_heading evs (Suc i)) (\<lambda>j.
            Done ([text_span (fst rng) (snd (snd (evs ! j))) (Some level) ind], Suc j))
      | EvStart TagParagraph \<Rightarrow>
          run_bind (scan_to (\<lambda>e. e = EvEnd EndParagraph) evs (Suc i)) (\<lambda>j.
            Done ([text_span (fst rng) (snd (snd (evs ! j))) None ind], Suc j))
      | EvStart TagCodeBlock \<Rightarrow>
          run_bind (scan_to (\<lambda>e. e = EvEnd EndCodeBlock) evs (Suc i)) (\<lambda>j.
            Done ([\<lparr>span_kind = SpanCode (code_body evs (Suc i) j), source_range = (fst rng, snd (snd (evs ! j))),
              heading_level = None, span_indent = ind\<rparr>], Suc j))
      | EvRule \<Rightarrow>
          Done ([\<lparr>span_kind = SpanRule, source_range = rng, heading_level = None, span_indent = ind\<rparr>], Suc i)
      | EvStart TagTable \<Rightarrow>
          run_bind (span_table n evs (Suc i) [] 0) (\<lambda>(cells, col_count, j).
            Done ([\<lparr>span_kind = SpanTable cells col_count, source_range = (fst rng, snd (snd (evs ! (j - 1)))),
              heading_level = None, span_indent = ind\<rparr>], j))
      | _ \<Rightarrow> Done ([], Suc i))"

definition is_block_child :: "event \<Rightarrow> bool" where
  "is_block_child e =
     (case e of
        EvStart TagParagraph \<Rightarrow> True | EvStart (TagList _) \<Rightarrow> True | EvStart TagCodeBlock \<Rightarrow> True
      | EvStart TagBlockQuote \<Rightarrow> True | EvStart TagTable \<Rightarrow> True | _ \<Rightarrow> False)"

definition has_block_child :: "events \<Rightarrow> nat \<Rightarrow> nat \<Rightarrow> bool" where
  "has_block_child evs a b = list_ex (\<lambda>e. is_block_child (fst e)) (take (b - a) (drop a evs))"

function segment_events ::
  "nat \<Rightarrow> events \<Rightarrow> nat \<Rightarrow> nat \<Rightarrow> 8 word \<Rightarrow> block_span list \<Rightarrow> block_span list run"
and segment_items ::
  "nat \<Rightarrow> events \<Rightarrow> nat \<Rightarrow> nat \<Rightarrow> 8 word \<Rightarrow> block_span list \<Rightarrow> block_span list run"
where
  "segment_events 0 evs i fin ind spans = NoFuel"
| "segment_events (Suc n) evs i fin ind spans =
     (if \<not> i < fin then Done spans
      else run_bind (event_at evs i) (\<lambda>(e, rng).
        if opens_quote e then
          run_bind (skip_nested opens_quote closes_quote evs (Suc i)) (\<lambda>j.
            run_bind (segment_events n evs (Suc i) (j - 1) (ind + 1) spans) (\<lambda>spans'.
              segment_events n evs j fin ind spans'))
        else if opens_list e then
          run_bind (skip_nested opens_list closes_list evs (Suc i)) (\<lambda>j.
            run_bind (segment_items n evs (Suc i) (j - 1) ind spans) (\<lambda>spans'.
              segment_events n evs j fin ind spans'))
        else
          run_bind (simple_span n evs i e rng ind) (\<lambda>(new, j).
            segment_events n evs j fin ind (spans @ new))))"
| "segment_items 0 evs k list_end ind spans = NoFuel"
| "segment_items (Suc n) evs k list_end ind spans =
     (if \<not> k < list_end then Done spans
      else run_bind (event_at evs k) (\<lambda>(e, _).
        if opens_item e then
          run_bind (skip_nested opens_item closes_item evs (Suc k)) (\<lambda>m.
            let item_start = Suc k; item_end = m - 1
            in run_bind
                 (if has_block_child evs item_start item_end
                  then segment_events n evs item_start item_end (ind + 1) spans
                  else if item_start < item_end
                  then Done (spans @ [text_span (fst (snd (evs ! item_start))) (snd (snd (evs ! item_end))) None (ind + 1)])
                  else Done spans)
                 (\<lambda>spans'. segment_items n evs m list_end ind spans'))
        else segment_items n evs (Suc k) list_end ind spans))"
  by pat_completeness auto
termination
  by (relation "measure (case_sum (\<lambda>(n, _). n) (\<lambda>(n, _). n))") simp_all

definition segment_blocks :: "events \<Rightarrow> block_span list run" where
  "segment_blocks evs = segment_events (2 * length evs + 2) evs 0 (length evs) 0 []"

section \<open>Repairing a half-received block\<close>

definition close_u :: string where "close_u = ''</u>''"
definition close_font :: string where "close_font = ''</font>''"

text \<open>
  The scan from the position where \<open>rest\<close> starts: the tags still open (innermost last) and the
  part of the text that is kept.
\<close>

function heal_scan :: "string \<Rightarrow> string list \<Rightarrow> string \<Rightarrow> string \<times> string list" where
  "heal_scan seen tags rest =
     (case rest of
        [] \<Rightarrow> (seen, tags)
      | c # cs \<Rightarrow>
          if prefix ''<u>'' rest then heal_scan (seen @ take 3 rest) (tags @ [close_u]) (drop 3 rest)
          else if prefix ''<font'' rest then
            (case position (\<lambda>d. d = CHR ''>'') rest of
               Some close \<Rightarrow>
                 heal_scan (seen @ take (Suc close) rest) (tags @ [close_font]) (drop (Suc close) rest)
             | None \<Rightarrow> (seen, tags))
          else if prefix close_u rest then
            heal_scan (seen @ take 4 rest) (if tags \<noteq> [] \<and> last tags = close_u then butlast tags else tags) (drop 4 rest)
          else if prefix close_font rest then
            heal_scan (seen @ take 7 rest) (if tags \<noteq> [] \<and> last tags = close_font then butlast tags else tags) (drop 7 rest)
          else heal_scan (seen @ [c]) tags cs)"
  by pat_completeness auto
termination
  by (relation "measure (\<lambda>(seen, tags, rest). length rest)") (auto simp: prefix_def close_u_def close_font_def)

declare heal_scan.simps [simp del]

definition heal_open_markers :: "string \<Rightarrow> string" where
  "heal_open_markers partial =
     (let (kept, tags) = heal_scan [] [] partial in kept @ concat (rev tags))"

section \<open>The walk over the spans ends\<close>

lemma depth_scan_progress: "depth_scan opens closes d evs j = Done k \<Longrightarrow> 0 < d \<Longrightarrow> j < k"
proof (induction opens closes d evs j rule: depth_scan.induct)
  case (3 opens closes d e evs j)
  show ?case
  proof (cases "\<not> opens (fst e) \<and> closes (fst e) \<and> d = 0")
    case True
    with 3 show ?thesis by simp
  next
    case False
    then have "0 < (if opens (fst e) then Suc (Suc d) else if closes (fst e) then d else Suc d)" by auto
    with 3 show ?thesis by fastforce
  qed
qed simp_all

lemma skip_progress: "skip_nested opens closes evs i = Done j \<Longrightarrow> i < j"
  by (auto simp: skip_nested_def dest: depth_scan_progress)

lemma depth_scan_ends: "depth_scan opens closes d evs j \<noteq> NoFuel"
  by (induction opens closes d evs j rule: depth_scan.induct) simp_all

lemma skip_ends: "skip_nested opens closes evs i \<noteq> NoFuel"
  by (simp add: skip_nested_def depth_scan_ends)

lemma scan_ends: "scan_to p evs i \<noteq> NoFuel"
  by (simp add: scan_to_def split: option.split)

lemma scan_progress: "scan_to p evs i = Done j \<Longrightarrow> i \<le> j"
  by (auto simp: scan_to_def split: option.splits)

lemma event_at_ends: "event_at evs i \<noteq> NoFuel"
  by (simp add: event_at_def)

lemma event_at_inside: "event_at evs i = Done x \<Longrightarrow> i < length evs"
  by (simp add: event_at_def split: if_splits)

lemmas walk_ends = run_bind_NoFuel event_at_ends scan_ends skip_ends

lemma span_row_progress: "span_row n evs k cells row_len = Done (cells', len', j) \<Longrightarrow> k < j"
proof (induction n evs k cells row_len rule: span_row.induct)
  case (2 n evs k cells row_len)
  then show ?case
    by (fastforce simp: run_bind_Done dest: scan_progress split: if_splits prod.splits)
qed simp

lemma span_row_ends: "length evs - k < n \<Longrightarrow> span_row n evs k cells row_len \<noteq> NoFuel"
proof (induction n evs k cells row_len rule: span_row.induct)
  case (2 n evs k cells row_len)
  show ?case
  proof
    assume "span_row (Suc n) evs k cells row_len = NoFuel"
    with 2 show False
      by (fastforce simp: walk_ends dest: scan_progress event_at_inside split: if_splits prod.splits)
  qed
qed simp

lemma span_table_ends: "length evs - j < n \<Longrightarrow> span_table n evs j cells cols \<noteq> NoFuel"
proof (induction n evs j cells cols rule: span_table.induct)
  case (2 n evs j cells cols)
  show ?case
  proof
    assume "span_table (Suc n) evs j cells cols = NoFuel"
    with 2 span_row_ends [of evs "Suc j" n cells 0] show False
      by (fastforce simp: walk_ends dest: span_row_progress event_at_inside split: if_splits prod.splits)
  qed
qed simp

lemma span_table_progress: "span_table n evs j cells cols = Done (cells', cols', k) \<Longrightarrow> j < k"
proof (induction n evs j cells cols rule: span_table.induct)
  case (2 n evs j cells cols)
  then show ?case
    by (fastforce simp: run_bind_Done dest: span_row_progress split: if_splits prod.splits)
qed simp

lemma simple_span_progress: "simple_span n evs i e rng ind = Done (new, j) \<Longrightarrow> i < j"
  by (auto simp: simple_span_def run_bind_Done dest: scan_progress span_table_progress
    split: event.splits tag.splits)

lemma simple_span_ends: "length evs - Suc i < n \<Longrightarrow> simple_span n evs i e rng ind \<noteq> NoFuel"
  using span_table_ends [of evs "Suc i" n "[]" 0]
  by (auto simp: simple_span_def walk_ends split: event.split tag.split)

lemma segment_ends:
  "length evs - i < n \<Longrightarrow>
   (\<forall>fin ind spans. segment_events n evs i fin ind spans \<noteq> NoFuel)
   \<and> (\<forall>fin ind spans. segment_items n evs i fin ind spans \<noteq> NoFuel)"
proof (induction n arbitrary: i)
  case (Suc n)
  have IH: "segment_events n evs k fin ind spans \<noteq> NoFuel" "segment_items n evs k fin ind spans \<noteq> NoFuel"
    if "i < k" "i < length evs" for k fin ind spans
    using Suc.IH [of k] Suc.prems that by auto
  have "segment_events (Suc n) evs i fin ind spans \<noteq> NoFuel" for fin ind spans
  proof
    assume "segment_events (Suc n) evs i fin ind spans = NoFuel"
    with IH simple_span_ends [of evs i n] Suc.prems show False
      by (fastforce simp: walk_ends dest: skip_progress simple_span_progress event_at_inside
        split: if_splits prod.splits)
  qed
  moreover have "segment_items (Suc n) evs i fin ind spans \<noteq> NoFuel" for fin ind spans
  proof
    assume "segment_items (Suc n) evs i fin ind spans = NoFuel"
    with IH show False
      by (fastforce simp: walk_ends Let_def dest: skip_progress event_at_inside split: if_splits prod.splits)
  qed
  ultimately show ?case by blast
qed simp

text \<open>
  Dividing a message into the spans the view styles always ends: whatever events the parser
  delivers, balanced or not, the walk comes to its end or to an index past the events.
\<close>
theorem segment_terminates: "segment_blocks evs \<noteq> NoFuel"
  unfolding segment_blocks_def by (rule segment_ends [THEN conjunct1, rule_format]) simp

text \<open>
  An item whose text is followed by an inner list has a block child, so its own events are walked
  as blocks, and the walk over blocks skips text: the item's text gets no span.
\<close>
theorem nested_tight_item_loses_its_text:
  "segment_blocks
     [(EvStart (TagList None), 0, 9), (EvStart TagItem, 0, 9), (EvText ''a'', 2, 3), (EvStart (TagList None), 6, 9),
      (EvStart TagItem, 6, 9), (EvText ''b'', 8, 9), (EvEnd EndItem, 6, 9), (EvEnd (EndList False), 6, 9),
      (EvEnd EndItem, 0, 9), (EvEnd (EndList False), 0, 9)]
   = Done [text_span 8 9 None 2]"
  by code_simp

section \<open>The repaired text is closed\<close>

abbreviation closers :: "string set" where
  "closers \<equiv> {close_u, close_font}"

lemma closers_start: "set ts \<subseteq> closers \<Longrightarrow> concat (rev ts) = [] \<or> (\<exists>r. concat (rev ts) = CHR ''<'' # r)"
proof (induction ts rule: rev_induct)
  case (snoc t ts)
  then show ?case by (auto simp: close_u_def close_font_def)
qed simp

text \<open>The scan, one marker at a time.\<close>

definition open_u :: string where "open_u = ''<u>''"
definition open_font :: string where "open_font = ''<font''"

lemmas marker_defs = open_u_def open_font_def close_u_def close_font_def

lemma marker_length: "length open_u = 3" "length open_font = 5" "length close_u = 4" "length close_font = 7"
  by (simp_all add: marker_defs)

definition marker_free :: "string \<Rightarrow> bool" where
  "marker_free s = (\<not> prefix open_u s \<and> \<not> prefix open_font s \<and> \<not> prefix close_u s \<and> \<not> prefix close_font s)"

lemma heal_nil: "heal_scan seen tags [] = (seen, tags)"
  by (subst heal_scan.simps) (simp add: marker_defs)

lemma heal_u: "heal_scan seen tags (open_u @ r) = heal_scan (seen @ open_u) (tags @ [close_u]) r"
  by (subst heal_scan.simps) (simp add: marker_defs)

lemma heal_font:
  "heal_scan seen tags (open_font @ r) =
    (case position (\<lambda>d. d = CHR ''>'') r of
       Some i \<Rightarrow> heal_scan (seen @ open_font @ take (Suc i) r) (tags @ [close_font]) (drop (Suc i) r)
     | None \<Rightarrow> (seen, tags))"
  by (subst heal_scan.simps) (simp add: marker_defs split: option.split)

lemma heal_close_u:
  "heal_scan seen tags (close_u @ r) =
    heal_scan (seen @ close_u) (if tags \<noteq> [] \<and> last tags = close_u then butlast tags else tags) r"
  by (subst heal_scan.simps) (simp add: marker_defs)

lemma heal_close_font:
  "heal_scan seen tags (close_font @ r) =
    heal_scan (seen @ close_font) (if tags \<noteq> [] \<and> last tags = close_font then butlast tags else tags) r"
  by (subst heal_scan.simps) (simp add: marker_defs)

lemma heal_plain: "marker_free (c # cs) \<Longrightarrow> heal_scan seen tags (c # cs) = heal_scan (seen @ [c]) tags cs"
  by (subst heal_scan.simps) (simp only: marker_free_def marker_defs list.case if_False)

lemma heal_cases:
  obtains "s = []" | r where "s = open_u @ r" | r where "s = open_font @ r" | r where "s = close_u @ r"
  | r where "s = close_font @ r" | c r where "s = c # r" "marker_free s"
  by (cases s) (auto simp: marker_free_def prefix_def)

lemma heal_closers:
  "set ts \<subseteq> closers \<Longrightarrow> heal_scan seen ts (concat (rev ts)) = (seen @ concat (rev ts), [])"
proof (induction ts arbitrary: seen rule: rev_induct)
  case (snoc t ts)
  then consider "t = close_u" | "t = close_font" by auto
  then show ?case
    using snoc by cases (auto simp: heal_close_u heal_close_font)
qed (simp add: heal_nil)

text \<open>No closing tag completes a marker whose first characters are already there.\<close>

lemma prefix_of_kept:
  assumes "prefix (CHR ''<'' # q) (c # k @ t)" and "CHR ''<'' \<notin> set q"
    and "t = [] \<or> (\<exists>r. t = CHR ''<'' # r)"
  shows "prefix (CHR ''<'' # q) (c # k)"
proof -
  have "prefix p k" if "prefix p (k @ t)" "CHR ''<'' \<notin> set p" for p
    using that
  proof (induction p arbitrary: k)
    case (Cons x p)
    show ?case
    proof (cases k)
      case Nil
      with Cons.prems assms(3) show ?thesis by auto
    next
      case (Cons y k')
      with Cons.IH [of k'] Cons.prems show ?thesis by simp
    qed
  qed simp
  with assms(1,2) show ?thesis by simp
qed

lemma position_append:
  "position p xs = Some i \<Longrightarrow> position p (take (Suc i) xs @ ys) = Some i"
  by (induction xs arbitrary: i) (auto split: if_splits option.splits)


lemma marker_free_kept:
  assumes "marker_free (c # cs)" "prefix k cs" "t = [] \<or> (\<exists>r. t = CHR ''<'' # r)"
  shows "marker_free (c # k @ t)"
proof -
  have "\<not> prefix (CHR ''<'' # q) (c # k @ t)" if "CHR ''<'' \<notin> set q" "\<not> prefix (CHR ''<'' # q) (c # cs)" for q
    using prefix_of_kept [OF _ that(1) assms(3), of c k] that(2) assms(2)
    by (metis prefix_order.trans Cons_prefix_Cons)
  from this [of "''u>''"] this [of "''font''"] this [of "''/u>''"] this [of "''/font>''"] assms(1)
  show ?thesis by (simp add: marker_free_def marker_defs del: Cons_prefix_Cons)
qed

definition heals :: "string list \<Rightarrow> string \<Rightarrow> string \<Rightarrow> string list \<Rightarrow> bool" where
  "heals tags rest k ts = (prefix k rest \<and> set ts \<subseteq> closers
     \<and> (\<forall>seen. heal_scan seen tags (k @ concat (rev ts)) = (seen @ k @ concat (rev ts), [])))"

lemma heal_scan_kept:
  "heal_scan seen tags rest = (seen', ts) \<Longrightarrow> set tags \<subseteq> closers \<Longrightarrow> \<exists>k. seen' = seen @ k \<and> heals tags rest k ts"
proof (induction "length rest" arbitrary: seen tags rest rule: less_induct)
  case less
  show ?case
  proof (cases rest rule: heal_cases)
    case 1
    with less.prems show ?thesis by (simp add: heal_nil heals_def heal_closers)
  next
    case (2 r)
    from less.hyps [of r "seen @ open_u" "tags @ [close_u]"] less.prems 2
    obtain k where "seen' = seen @ open_u @ k" "heals (tags @ [close_u]) r k ts" by (auto simp: heal_u marker_length)
    with 2 show ?thesis
      by (intro exI [of _ "open_u @ k"]) (auto simp: heals_def heal_u)
  next
    case (3 r)
    show ?thesis
    proof (cases "position (\<lambda>d. d = CHR ''>'') r")
      case None
      with less.prems 3 show ?thesis by (simp add: heal_font heals_def heal_closers)
    next
      case (Some i)
      from less.hyps [of "drop (Suc i) r" "seen @ open_font @ take (Suc i) r" "tags @ [close_font]"] less.prems 3 Some
      obtain k where k: "seen' = seen @ open_font @ take (Suc i) r @ k" "heals (tags @ [close_font]) (drop (Suc i) r) k ts"
        by (simp add: heal_font marker_length) fastforce
      have "i < length r" using position_SomeD [OF Some] by simp
      moreover have "prefix (take (Suc i) r @ k) r"
        using k(2) by (metis heals_def append_take_drop_id same_prefix_prefix)
      ultimately show ?thesis
        using k 3 position_append [OF Some]
        by (intro exI [of _ "open_font @ take (Suc i) r @ k"]) (auto simp: heals_def heal_font)
    qed
  next
    case (4 r)
    let ?tags = "if tags \<noteq> [] \<and> last tags = close_u then butlast tags else tags"
    from less.hyps [of r "seen @ close_u" ?tags] less.prems 4
    obtain k where "seen' = seen @ close_u @ k" "heals ?tags r k ts"
      by (auto simp: heal_close_u marker_length dest: in_set_butlastD split: if_splits)
    with 4 show ?thesis
      by (intro exI [of _ "close_u @ k"]) (auto simp: heals_def heal_close_u)
  next
    case (5 r)
    let ?tags = "if tags \<noteq> [] \<and> last tags = close_font then butlast tags else tags"
    from less.hyps [of r "seen @ close_font" ?tags] less.prems 5
    obtain k where "seen' = seen @ close_font @ k" "heals ?tags r k ts"
      by (auto simp: heal_close_font marker_length dest: in_set_butlastD split: if_splits)
    with 5 show ?thesis
      by (intro exI [of _ "close_font @ k"]) (auto simp: heals_def heal_close_font)
  next
    case (6 c r)
    from less.hyps [of r "seen @ [c]" tags] less.prems 6
    obtain k where k: "seen' = seen @ c # k" "heals tags r k ts" by (auto simp: heal_plain)
    have "marker_free (c # k @ concat (rev ts))"
      using marker_free_kept [of c r k] closers_start [of ts] 6 k(2) by (auto simp: heals_def)
    with k 6 show ?thesis
      by (intro exI [of _ "c # k"]) (auto simp: heals_def heal_plain)
  qed
qed

text \<open>
  A half-received block is repaired by closing what it left open: the result is a beginning
  of what arrived followed by closing tags only, scanning it leaves no tag open, and repairing it
  again changes nothing.
\<close>
theorem healed_is_closed:
  "heal_scan [] [] (heal_open_markers s) = (heal_open_markers s, [])
   \<and> heal_open_markers (heal_open_markers s) = heal_open_markers s
   \<and> (\<exists>k ts. heal_open_markers s = k @ concat ts \<and> prefix k s \<and> set ts \<subseteq> {close_u, close_font})"
proof -
  obtain k ts where scan: "heal_scan [] [] s = (k, ts)" by (cases "heal_scan [] [] s")
  from heal_scan_kept [OF this] have k: "heals [] s k ts" by auto
  have h: "heal_open_markers s = k @ concat (rev ts)" by (simp add: heal_open_markers_def scan)
  then have closed: "heal_scan [] [] (heal_open_markers s) = (heal_open_markers s, [])"
    using k by (simp add: heals_def)
  then have "heal_open_markers (heal_open_markers s) = heal_open_markers s"
    by (subst heal_open_markers_def) simp
  with closed h k show ?thesis unfolding heals_def by (metis set_rev)
qed

end
