(* ===== verification/MessageRows.thy ===== *)
theory MessageRows
  imports Conversation SendQueue RowDiff JsonView
begin

text \<open>
  What a transcript becomes on screen: the message rows of a thread and their keys
  (\<open>panel-rust/src/models.rs\<close>).  A row holds the fields of \<open>MessageItem\<close>
  (\<open>panel-rust/ui/types.slint\<close>) but the rendered markdown, which the per-thread cache of
  \<open>MessageIndex\<close> supplies.  \<open>str::to_uppercase\<close> (Unicode tables) and the JSON parser are
  arguments, \<open>upper\<close> and \<open>parse\<close>; the row counter of type \<open>i32\<close> is a natural number.
\<close>

section \<open>Texts that decide about a row\<close>

definition agent_text_skips_markdown :: "string \<Rightarrow> bool" where
  "agent_text_skips_markdown text =
     (let trimmed = trim text
      in trimmed = []
         \<or> list_all (\<lambda>l. let line = trim l
              in line = [] \<or> prefix ''Reconnecting...'' line \<or> prefix ''unexpected status '' line
                 \<or> contains line ''502 Bad Gateway'' \<or> contains line ''Bad Gateway'') (str_lines trimmed))"

definition agent_text_is_hard_failure :: "string \<Rightarrow> bool" where
  "agent_text_is_hard_failure text =
     (let lower = to_ascii_lowercase text
      in contains lower ''502 bad gateway'' \<or> contains lower ''unexpected status 5''
         \<or> contains lower ''unexpected status 4''
         \<or> contains lower ''reconnecting... 5/5''
           \<and> (contains lower ''unexpected status'' \<or> contains lower ''bad gateway''))"

definition is_backend_requires_authentication_error :: "string \<Rightarrow> bool" where
  "is_backend_requires_authentication_error message =
     contains message ''backend requires authentication before session/new''"

definition is_missing_runtime_prerequisite_error :: "string \<Rightarrow> bool" where
  "is_missing_runtime_prerequisite_error message =
     (let lower = to_ascii_lowercase message
      in list_ex (contains lower) [''node'', ''npm'', ''npx'', ''python'', ''uv'']
         \<and> list_ex (contains lower)
             [''not found'', ''not recognized'', ''no such file or directory'',
              ''cannot find the file specified'', ''enoent'', ''os error 2''])"

definition missing_prerequisite_hint :: string where
  "missing_prerequisite_hint =
     newline # newline # ''This looks like a missing runtime dependency (Node.js/npm or Python/uv) rather ''
     @ ''than an agent bug. Run your daemon's diagnostic/doctor command (e.g. `snapflowd doctor`) to ''
     @ ''check what's installed.''"

definition annotate_missing_prerequisite_hint :: "string \<Rightarrow> string" where
  "annotate_missing_prerequisite_hint message =
     (if is_missing_runtime_prerequisite_error message then message @ missing_prerequisite_hint else message)"

section \<open>Kinds of tool rows\<close>

definition skill_key :: "json option \<Rightarrow> string option" where
  "skill_key raw = Option.bind raw (str_field ''skill'')"

definition classify_tool_call_kind :: "string \<Rightarrow> json option \<Rightarrow> string" where
  "classify_tool_call_kind ttl raw =
     (if prefix ''Run MCP tool `'' ttl \<or> prefix ''mcp__'' ttl then ''mcp_server_call''
      else if skill_key raw \<noteq> None \<or> to_ascii_lowercase ttl = ''skill'' \<or> prefix ''Skill:'' ttl
        \<or> prefix ''Skill '' ttl \<or> prefix ''skill:'' (to_ascii_lowercase ttl)
      then (if contains (to_ascii_lowercase ttl) ''load'' then ''skill_load'' else ''skill_use'')
      else ''tool_use'')"

definition skill_tracking_name :: "string \<Rightarrow> json option \<Rightarrow> string" where
  "skill_tracking_name ttl raw = (case skill_key raw of Some s \<Rightarrow> s | None \<Rightarrow> ttl)"

fun message_kind_str :: "message_kind \<Rightarrow> string \<Rightarrow> json option \<Rightarrow> string" where
  "message_kind_str KUser ttl raw = ''user''"
| "message_kind_str KAgent ttl raw = ''agent''"
| "message_kind_str KThinking ttl raw = ''thinking''"
| "message_kind_str KToolCall ttl raw = classify_tool_call_kind ttl raw"

definition is_tool_kind :: "string \<Rightarrow> bool" where
  "is_tool_kind k = (k \<in> {''tool_use'', ''mcp_server_call'', ''skill_use'', ''skill_load'', ''terminal''})"

section \<open>Rows of a transcript\<close>

record message_row =
  row_kind :: string
  row_text :: string
  row_status :: string
  row_expanded :: bool
  row_index :: nat
  row_raw_input :: string
  row_raw_output :: string
  row_queued :: bool
  row_can_edit :: bool
  row_can_send_now :: bool
  row_sending :: bool
  row_first_use :: bool
  tool_group_len :: nat

text \<open>\<open>MessageItem::default()\<close>.\<close>

definition default_row :: message_row where
  "default_row = \<lparr>row_kind = [], row_text = [], row_status = [], row_expanded = False, row_index = 0,
     row_raw_input = [], row_raw_output = [], row_queued = False, row_can_edit = False,
     row_can_send_now = False, row_sending = False, row_first_use = False, tool_group_len = 0\<rparr>"

primrec transcript_row_key :: "transcript_item \<Rightarrow> string" where
  "transcript_row_key (User i s) = ''user:'' @ i"
| "transcript_row_key (Assistant i s st) = ''assistant:'' @ i"
| "transcript_row_key (Thought i s st) = ''thought:'' @ i"
| "transcript_row_key (Tool i ti st de ri ro) = ''tool:'' @ i"
| "transcript_row_key (Terminal i ti out ec) = ''terminal:'' @ i"
| "transcript_row_key (Notice s) = ''notice:'' @ s"

definition is_notice :: "transcript_item \<Rightarrow> bool" where
  "is_notice item = (case item of Notice _ \<Rightarrow> True | _ \<Rightarrow> False)"

definition transcript_row_keys :: "transcript_item list \<Rightarrow> string list" where
  "transcript_row_keys items = map transcript_row_key (filter (\<lambda>i. \<not> is_notice i) items)"

text \<open>Kind, text, status and the two payload texts of an item; the display form of an \<open>i32\<close>.\<close>

definition show_i32 :: "32 word \<Rightarrow> string" where
  "show_i32 w = (if sint w < 0 then CHR ''-'' # show_nat (nat (- sint w)) else show_nat (nat (sint w)))"

definition str_default :: "string option \<Rightarrow> string" where
  "str_default s = (case s of None \<Rightarrow> [] | Some x \<Rightarrow> x)"

fun row_fields ::
  "(string \<Rightarrow> string) \<Rightarrow> (string \<Rightarrow> json option) \<Rightarrow> transcript_item
    \<Rightarrow> (string \<times> string \<times> string \<times> string \<times> string) option"
where
  "row_fields upper parse (User i s) = Some (''user'', s, [], [], [])"
| "row_fields upper parse (Assistant i s st) = Some (''agent'', s, [], [], [])"
| "row_fields upper parse (Thought i s st) = Some (''thinking'', s, [], [], [])"
| "row_fields upper parse (Tool i ti st de ri ro) =
     Some (classify_tool_call_kind ti (parse (str_default ri)), ti,
       (case st of None \<Rightarrow> [] | Some s \<Rightarrow> upper s), str_default ri, str_default ro)"
| "row_fields upper parse (Terminal i ti out ec) =
     Some (''terminal'', ti, [], (case ec of None \<Rightarrow> [] | Some c \<Rightarrow> show_i32 c), out)"
| "row_fields upper parse (Notice s) = None"

text \<open>The rows, with the counter and the set of skill names already seen.\<close>

fun transcript_rows ::
  "(string \<Rightarrow> string) \<Rightarrow> (string \<Rightarrow> json option) \<Rightarrow> bool list \<Rightarrow> nat \<Rightarrow> string set
    \<Rightarrow> transcript_item list \<Rightarrow> message_row list"
where
  "transcript_rows upper parse expanded index seen [] = []"
| "transcript_rows upper parse expanded index seen (item # items) =
     (case row_fields upper parse item of
        None \<Rightarrow> transcript_rows upper parse expanded index seen items
      | Some (kind, txt, stat, raw_in, raw_out) \<Rightarrow>
          \<lparr>row_kind = kind, row_text = txt, row_status = stat,
           row_expanded = (index < length expanded \<and> expanded ! index), row_index = index,
           row_raw_input = raw_in, row_raw_output = raw_out, row_queued = False, row_can_edit = False,
           row_can_send_now = False, row_sending = False,
           row_first_use = (kind = ''skill_use'' \<and> txt \<notin> seen), tool_group_len = 0\<rparr>
          # transcript_rows upper parse expanded (Suc index)
              (if kind = ''skill_use'' then insert txt seen else seen) items)"

text \<open>The length of every run of tool rows, on its first row.\<close>

function assign_tool_group_lengths :: "message_row list \<Rightarrow> message_row list" where
  "assign_tool_group_lengths [] = []"
| "assign_tool_group_lengths (r # rows) =
     (if is_tool_kind (row_kind r)
      then let run = takeWhile (\<lambda>x. is_tool_kind (row_kind x)) rows
           in r\<lparr>tool_group_len := Suc (length run)\<rparr> # run @ assign_tool_group_lengths (drop (length run) rows)
      else r # assign_tool_group_lengths rows)"
  by pat_completeness auto
termination by (relation "measure length") auto

definition to_message_rows_from_transcript ::
  "(string \<Rightarrow> string) \<Rightarrow> (string \<Rightarrow> json option) \<Rightarrow> transcript_item list \<Rightarrow> bool list \<Rightarrow> message_row list"
where
  "to_message_rows_from_transcript upper parse items expanded =
     assign_tool_group_lengths (transcript_rows upper parse expanded 0 {} items)"

section \<open>Queued rows\<close>

definition queue_row :: "nat \<Rightarrow> nat \<Rightarrow> bool \<Rightarrow> nat \<Rightarrow> queue_entry \<Rightarrow> message_row" where
  "queue_row index i generating last_i entry =
     default_row\<lparr>row_kind := ''user'', row_text := entry_text entry, row_index := index, row_queued := True,
       row_can_edit := (i = last_i \<and> \<not> (generating \<and> i = 0)), row_sending := (generating \<and> i = 0),
       row_can_send_now := (\<not> (generating \<and> i = 0))\<rparr>"

definition queue_key :: "nat \<Rightarrow> string" where
  "queue_key i = ''queue:'' @ show_nat i"

definition append_send_queue_rows ::
  "message_row list \<Rightarrow> string list \<Rightarrow> send_queue \<Rightarrow> bool \<Rightarrow> message_row list \<times> string list"
where
  "append_send_queue_rows rows keys queue generating =
     (rows @ map (\<lambda>(i, e). queue_row (length rows + i) i generating (sq_len queue - 1) e)
        (enumerate 0 (q_entries queue)),
      keys @ map (\<lambda>e. queue_key (entry_id e)) (q_entries queue))"

definition pending_key :: string where
  "pending_key = ''pending:awaiting-response''"

definition reindex :: "message_row list \<Rightarrow> message_row list" where
  "reindex rows = map (\<lambda>(i, r). r\<lparr>row_index := i\<rparr>) (enumerate 0 rows)"

definition message_rows_for_thread_with_state ::
  "(string \<Rightarrow> string) \<Rightarrow> (string \<Rightarrow> json option) \<Rightarrow> transcript_item list \<Rightarrow> bool list \<Rightarrow> send_queue \<Rightarrow> bool
    \<Rightarrow> message_row list \<times> string list"
where
  "message_rows_for_thread_with_state upper parse transcript expanded queue generating =
     (let keys = transcript_row_keys transcript;
          rows = to_message_rows_from_transcript upper parse transcript expanded;
          last_is_user = (rows \<noteq> [] \<and> row_kind (last rows) = ''user'');
          (rows', keys') =
            (if generating \<and> last_is_user
             then (rows @ [default_row\<lparr>row_kind := ''pending''\<rparr>], keys @ [pending_key])
             else (rows, keys));
          (rows'', keys'') = append_send_queue_rows rows' keys' queue generating
      in (reindex rows'', keys''))"

definition message_rows_for_thread ::
  "(string \<Rightarrow> string) \<Rightarrow> (string \<Rightarrow> json option) \<Rightarrow> transcript_item list \<Rightarrow> bool list \<Rightarrow> send_queue
    \<Rightarrow> message_row list \<times> string list"
where
  "message_rows_for_thread upper parse transcript expanded queue =
     message_rows_for_thread_with_state upper parse transcript expanded queue False"

section \<open>Every key belongs to one row\<close>

lemma rows_length:
  "length (transcript_rows upper parse ex n seen items) = length (filter (\<lambda>i. \<not> is_notice i) items)"
proof (induction items arbitrary: n seen)
  case (Cons item items)
  then show ?case by (cases item) (auto simp: is_notice_def Let_def)
qed simp

lemma groups_length: "length (assign_tool_group_lengths rows) = length rows"
proof (induction rows rule: assign_tool_group_lengths.induct)
  case (2 r rows)
  then show ?case using length_takeWhile_le [of "\<lambda>x. is_tool_kind (row_kind x)" rows]
    by (auto simp: Let_def)
qed simp

lemma reindex_index: "map row_index (reindex rows) = [0..<length rows]"
  by (simp add: reindex_def o_def case_prod_unfold enumerate_eq_zip)

lemma reindex_length: "length (reindex rows) = length rows"
  by (simp add: reindex_def)

text \<open>Distinct items have distinct keys, and no item has the key of a queued or pending row.\<close>

lemma item_keys_distinct:
  assumes "distinct (filter (\<lambda>k. k \<noteq> None) (map key_of_item items))"
  shows "distinct (transcript_row_keys items)"
  using assms
proof (induction items)
  case (Cons item items)
  have "transcript_row_key item \<noteq> transcript_row_key x"
    if "x \<in> set items" "\<not> is_notice x" "\<not> is_notice item" for x
  proof
    assume "transcript_row_key item = transcript_row_key x"
    then have "key_of_item item = key_of_item x" "key_of_item item \<noteq> None"
      using that(2,3) by (cases item; cases x; simp add: is_notice_def)+
    with Cons.prems that(1) show False by (auto simp: image_iff split: if_splits)
  qed
  with Cons show ?case
    by (cases "is_notice item") (auto simp: transcript_row_keys_def split: if_splits)
qed (simp add: transcript_row_keys_def)

lemma item_keys_apart:
  "x \<in> set (transcript_row_keys items) \<Longrightarrow> x \<noteq> pending_key \<and> x \<noteq> queue_key i"
proof -
  assume "x \<in> set (transcript_row_keys items)"
  then obtain item where "x = transcript_row_key item" "\<not> is_notice item"
    by (auto simp: transcript_row_keys_def)
  then show ?thesis by (cases item) (auto simp: pending_key_def queue_key_def is_notice_def)
qed

lemma queue_keys_distinct: "distinct (map entry_id es) \<Longrightarrow> distinct (map (\<lambda>e. queue_key (entry_id e)) es)"
  by (induction es) (auto simp: queue_key_def image_iff)

lemma rows_correspond:
  assumes "distinct (filter (\<lambda>k. k \<noteq> None) (map key_of_item items))" "distinct (map entry_id (q_entries q))"
    and run: "message_rows_for_thread_with_state upper parse items ex q generating = (rows, keys)"
  shows "length rows = length keys \<and> distinct keys \<and> map row_index rows = [0..<length rows]"
proof -
  let ?base = "to_message_rows_from_transcript upper parse items ex"
  let ?pend = "generating \<and> ?base \<noteq> [] \<and> row_kind (last ?base) = ''user''"
  let ?r = "?base @ (if ?pend then [default_row\<lparr>row_kind := ''pending''\<rparr>] else [])"
  let ?k = "transcript_row_keys items @ (if ?pend then [pending_key] else [])"
  have rows: "rows = reindex (?r @ map (\<lambda>(i, e). queue_row (length ?r + i) i generating (sq_len q - 1) e)
      (enumerate 0 (q_entries q)))"
    and keys: "keys = ?k @ map (\<lambda>e. queue_key (entry_id e)) (q_entries q)"
    using run by (auto simp: message_rows_for_thread_with_state_def append_send_queue_rows_def Let_def split: if_splits)
  have "length ?base = length (transcript_row_keys items)"
    by (simp add: to_message_rows_from_transcript_def groups_length rows_length transcript_row_keys_def)
  moreover have "distinct keys"
    unfolding keys
    using item_keys_distinct [OF assms(1)] queue_keys_distinct [OF assms(2)] item_keys_apart [of _ items]
    by (auto simp: queue_key_def pending_key_def)
  ultimately show ?thesis
    by (simp add: rows keys reindex_index reindex_length)
qed

lemma conversation_items_distinct:
  "distinct (filter (\<lambda>k. k \<noteq> None) (map key_of_item (conv_items (conv_run evs (conv_new t)))))"
  unfolding conv_run_own conv_new_def conversation_state.simps append_Nil keys_fold by simp

text \<open>
  The rows shown for a thread and the keys the view diffs them by correspond: whatever
  events made the transcript and whatever is queued, there is one key per row, no two rows
  share a key, and every row carries its position.
\<close>
theorem rows_have_unique_keys:
  assumes "sq_inv q"
    and "message_rows_for_thread_with_state upper parse (conv_items (conv_run evs (conv_new t))) expanded q generating
      = (rows, keys)"
  shows "length rows = length keys \<and> distinct keys \<and> map row_index rows = [0..<length rows]"
  using rows_correspond [OF conversation_items_distinct _ assms(2)] assms(1)
  by (simp add: sq_inv_def entries_ok_def)

definition sample_queue :: send_queue where
  "sample_queue = sq_default\<lparr>q_entries := [\<lparr>entry_id = 0, entry_text = ''next'', entry_steer = False\<rparr>], q_next_id := 1\<rparr>"

theorem rows_have_unique_keys_witness:
  "\<exists>rows keys. message_rows_for_thread_with_state id (\<lambda>s. None)
      (conv_items (conv_run [UserMessage ''t'' ''1'' ''hi''] (conv_new ''t''))) [] sample_queue True = (rows, keys)
    \<and> length rows = length keys \<and> distinct keys \<and> map row_index rows = [0..<length rows]"
proof -
  have inv: "sq_inv sample_queue" by (simp add: sample_queue_def sq_inv_def entries_ok_def sq_default_def)
  obtain rows keys where "message_rows_for_thread_with_state id (\<lambda>s. None)
      (conv_items (conv_run [UserMessage ''t'' ''1'' ''hi''] (conv_new ''t''))) [] sample_queue True = (rows, keys)"
    by fastforce
  with rows_have_unique_keys [OF inv this] show ?thesis by blast
qed

section \<open>Groups of tool rows\<close>

text \<open>
  The groups are exactly the maximal runs of tool rows: the first row of a run carries its
  length, every other row keeps what it had, and nothing else changes.
\<close>

lemma groups_parts:
  "list_all (\<lambda>r. \<not> is_tool_kind (row_kind r)) xs \<Longrightarrow> assign_tool_group_lengths (xs @ ys) = xs @ assign_tool_group_lengths ys"
  by (induction xs) auto

theorem tool_groups_are_runs:
  "list_all (\<lambda>r. \<not> is_tool_kind (row_kind r)) xs \<Longrightarrow> list_all (\<lambda>r. is_tool_kind (row_kind r)) (t # ts) \<Longrightarrow>
   (ys = [] \<or> \<not> is_tool_kind (row_kind (hd ys))) \<Longrightarrow>
   assign_tool_group_lengths (xs @ (t # ts) @ ys)
     = xs @ (t\<lparr>tool_group_len := Suc (length ts)\<rparr> # ts) @ assign_tool_group_lengths ys"
proof -
  assume *: "list_all (\<lambda>r. \<not> is_tool_kind (row_kind r)) xs" "list_all (\<lambda>r. is_tool_kind (row_kind r)) (t # ts)"
    "ys = [] \<or> \<not> is_tool_kind (row_kind (hd ys))"
  then have "takeWhile (\<lambda>x. is_tool_kind (row_kind x)) (ts @ ys) = ts"
    by (cases ys) (auto simp: list_all_iff takeWhile_append)
  with * show ?thesis by (simp add: groups_parts Let_def)
qed

theorem tool_groups_are_runs_witness:
  "assign_tool_group_lengths ([] @ [default_row\<lparr>row_kind := ''tool_use''\<rparr>, default_row\<lparr>row_kind := ''terminal''\<rparr>] @ [])
    = [] @ [default_row\<lparr>row_kind := ''tool_use'', tool_group_len := 2\<rparr>, default_row\<lparr>row_kind := ''terminal''\<rparr>] @ []"
  using tool_groups_are_runs [of "[]" "default_row\<lparr>row_kind := ''tool_use''\<rparr>" "[default_row\<lparr>row_kind := ''terminal''\<rparr>]" "[]"]
  by (simp add: is_tool_kind_def)

text \<open>
  The mark for the first use of a skill goes by the row's text: of two calls titled \<open>Skill\<close>
  that name different skills, the second is not a first use, although
  \<open>skill_tracking_name\<close>, which says what is tracked, tells them apart.
\<close>
theorem second_skill_is_no_first_use:
  "skill_tracking_name ''Skill'' (Some (JObject [(''skill'', JString ''a'')])) \<noteq> skill_tracking_name ''Skill'' (Some (JObject [(''skill'', JString ''b'')]))
   \<and> map row_first_use (to_message_rows_from_transcript id
        (\<lambda>s. if s = ''a'' then Some (JObject [(''skill'', JString ''a'')]) else Some (JObject [(''skill'', JString ''b'')]))
        [Tool ''1'' ''Skill'' None None (Some ''a'') None, Tool ''2'' ''Skill'' None None (Some ''b'') None] [])
     = [True, False]"
  by code_simp

end
