(* ===== verification/PanelModel.thy ===== *)
theory PanelModel
  imports MessageRows
begin

text \<open>
  The state of the panel: \<open>panel-rust/src/model.rs\<close> and the values it holds from
  \<open>protocol_types.rs\<close>, \<open>appearance.rs\<close>, \<open>msg.rs\<close> and \<open>ui/types.slint\<close>.  Left out are the Slint
  models that mirror the state on screen (\<open>thread_model\<close> and its siblings; the rows of a retained
  chat view are kept, as \<open>view_rows\<close>) and a thread's markdown cache (\<open>MessageIndex\<close>).  Values that
  are only stored and handed on keep the shape they have on the wire (\<open>json\<close>).  Where the code
  holds the same group of fields in the state and in a snapshot, the group is one record.  What
  the code asks of the outside in the middle of a step (the clock, \<open>Uuid::new_v4\<close>, the outcome of
  a queue file's rewrite and the system's text for its error) and the Unicode case tables are a record, \<open>panel_env\<close>.
\<close>

section \<open>What a step reads from outside\<close>

record panel_env =
  env_now :: nat
  env_uuid :: string
  env_lower :: "string \<Rightarrow> string"
  env_upper :: "string \<Rightarrow> string"
  env_parse :: "string \<Rightarrow> json option"
  env_ser :: "persisted_entry \<Rightarrow> string"
  env_disk :: write_outcome
  env_io_error :: "io_error \<Rightarrow> string"

section \<open>Values\<close>

datatype thread_state = Idle | Loading | Cancelling | ErrorState | Stale

primrec state_str :: "thread_state \<Rightarrow> string" where
  "state_str Idle = ''idle''"
| "state_str Loading = ''loading''"
| "state_str Cancelling = ''cancelling''"
| "state_str ErrorState = ''error''"
| "state_str Stale = ''stale''"

definition in_flight :: "thread_state \<Rightarrow> bool" where
  "in_flight s = (s = Loading \<or> s = Cancelling)"

datatype project_identity = NoProject | Untitled string | Saved string

datatype agent_status = NotInstalled | Installed | InstalledNoSession | RuntimeMissing | UnknownStatus string

record agent_catalog_entry =
  agent_id :: string
  agent_name :: string
  agent_version :: string
  agent_website :: string
  agent_status :: agent_status
  agent_enabled :: bool

record profile_summary =
  profile_name :: string
  profile_agent_id :: string
  allow_terminal_access :: bool
  allow_fs_access :: bool

record config_option_value =
  option_value :: string
  option_value_name :: string
  option_value_description :: "string option"

record config_option =
  option_id :: string
  option_name :: string
  option_description :: "string option"
  option_category :: "string option"
  option_kind :: string
  current_value :: "string option"
  option_values :: "config_option_value list"

record pending_request =
  request_active :: bool
  request_relay_id :: string
  request_method :: string
  request_title :: string
  request_summary :: string
  request_supported :: bool
  request_options :: json

record terminal_item =
  terminal_item_id :: string
  terminal_text :: string
  terminal_truncated :: bool
  terminal_has_exited :: bool
  terminal_exit_code :: "32 word"
  terminal_title :: string
  terminal_last_command :: string
  terminal_started_at :: string
  terminal_active :: bool

record local_terminal =
  lt_open :: bool
  lt_screen_text :: string
  lt_size :: "32 word \<times> 32 word"
  lt_cursor :: "32 word \<times> 32 word"
  lt_has_exited :: bool

datatype color_scheme = Dark | Light

text \<open>The two \<open>f32\<close> factors are kept as their bits.\<close>

record host_appearance =
  ap_generation :: "64 word"
  ap_scheme :: color_scheme
  ap_language :: string
  ap_font :: string
  ap_font_scale :: "32 word"
  ap_density :: "32 word"

type_synonym appearance_state = "host_appearance option"

definition appearance_apply :: "host_appearance \<Rightarrow> appearance_state \<Rightarrow> bool \<times> appearance_state" where
  "appearance_apply new current =
     (case current of
        Some c \<Rightarrow> if ap_generation new \<le> ap_generation c then (False, current) else (True, Some new)
      | None \<Rightarrow> (True, Some new))"

record skill_editor =
  editor_name :: string
  editor_path :: string
  editor_md_path :: string
  editor_content :: string
  editor_detected :: "string list"

record skill_entry =
  skill_name :: string
  skill_description :: string
  skill_path :: string
  skill_global :: bool
  skill_started_from :: "string option"
  skill_dev_only :: bool

text \<open>The settings both the model and \<open>SettingsPreferencesSnapshot\<close> hold, and the gateway's catalogs.\<close>

record preferences =
  pref_scope :: string
  pref_default_profile :: string
  pref_permission_profile :: string
  pref_background_default :: bool
  pref_default_agent_id :: string
  pref_dev_mode :: bool
  pref_background_override_set :: bool
  pref_background_override :: bool
  pref_show_global_skills :: bool

record gateway_catalog =
  gw_profiles :: "profile_summary list"
  gw_mcp_servers :: "json list"
  gw_agents :: "agent_catalog_entry list"
  gw_agents_fetched :: bool
  gw_catalog_error :: string
  gw_recoverable :: "json list"
  gw_recovery_provider :: string

section \<open>Threads\<close>

text \<open>The part of a thread every frame snapshot replaces as a whole.\<close>

record thread_surface =
  has_older_messages :: bool
  pending_request :: pending_request
  terminals :: "terminal_item list"
  expanded_terminal :: "terminal_item option"
  open_terminals :: "terminal_item list"
  local_terminal :: local_terminal
  connection_status :: string
  session_modes :: "json option"
  available_commands :: json
  usage :: "64 word \<times> 64 word"
  plan :: json
  session_title :: "string option"

record thread =
  thread_id :: string
  display_name :: string
  provider :: string
  thread_profile :: "string option"
  thread_permission :: "string option"
  session_id :: "string option"
  thread_state :: thread_state
  last_activity :: "nat option"
  thread_error :: "string option"
  unauthenticated :: bool
  agent_content_this_turn :: bool
  send_queue :: send_queue
  server_queue :: bool
  compose_draft :: string
  closed :: bool
  archived :: bool
  unread :: bool
  message_ids :: "string list"
  transcript :: "transcript_item list"
  transcript_keys :: "string list"
  rows_synced_with :: "(send_queue \<times> bool) option"
  surface :: thread_surface
  config_options :: "config_option list"

definition default_request :: pending_request where
  "default_request = \<lparr>request_active = False, request_relay_id = [], request_method = [], request_title = [],
     request_summary = [], request_supported = False, request_options = JArray []\<rparr>"

definition default_local_terminal :: local_terminal where
  "default_local_terminal = \<lparr>lt_open = False, lt_screen_text = [], lt_size = (0, 0), lt_cursor = (0, 0), lt_has_exited = False\<rparr>"

definition default_surface :: thread_surface where
  "default_surface = \<lparr>has_older_messages = False, pending_request = default_request, terminals = [],
     expanded_terminal = None, open_terminals = [], local_terminal = default_local_terminal,
     connection_status = ''Connecting...'', session_modes = None, available_commands = JArray [],
     usage = (0, 0), plan = JArray [], session_title = None\<rparr>"

definition default_thread :: "panel_env \<Rightarrow> thread" where
  "default_thread env = \<lparr>thread_id = [], display_name = [], provider = [], thread_profile = None,
     thread_permission = None, session_id = None, thread_state = Idle, last_activity = Some (env_now env),
     thread_error = None, unauthenticated = False, agent_content_this_turn = False, send_queue = sq_default,
     server_queue = True, compose_draft = [], closed = False, archived = False, unread = False, message_ids = [],
     transcript = [], transcript_keys = [], rows_synced_with = None, surface = default_surface, config_options = []\<rparr>"

text \<open>A row of the thread list: \<open>VisibleThreadItem\<close> and its \<open>ThreadItem\<close>.\<close>

record thread_item =
  item_name :: string
  item_relative_time :: string
  item_status :: string
  item_busy :: bool
  item_open :: bool
  item_background :: bool
  item_description :: string
  item_closed :: bool
  item_archived :: bool
  item_unread :: bool
  item_provider :: string
  item_model :: string
  item_project_path :: string
  item_project_name :: string
  item_project_live :: bool
  item_profile :: string
  item_has_session :: bool

record visible_thread =
  real_index :: nat
  visible_id :: string
  visible_session :: "string option"
  agent_detected :: "bool option"
  visible_item :: thread_item

end
