(* ===== verification/PanelState.thy ===== *)
theory PanelState
  imports PanelModel
begin

text \<open>
  The panel's state and what the reducer reads from it: \<open>Model\<close> and its identity indices, the
  selection, hydration at start (\<open>panel-rust/src/model.rs\<close>), and the helpers of
  \<open>panel-rust/src/update.rs\<close> that every handler uses.
\<close>

section \<open>The state\<close>

record panel =
  threads :: "thread list"
  thread_id_index :: "string \<rightharpoonup> nat"
  session_id_index :: "string \<rightharpoonup> nat"
  selected_thread :: nat
  compose_text :: string
  search_query :: string
  visible_indices :: "nat list"
  expanded :: "bool list"
  displayed_thread :: "nat option"
  expanded_terminal_id :: "string option"
  open_terminal_ids :: "string list"
  active_project_path :: "string option"
  active_project :: project_identity
  project_generation :: "64 word"
  project_lifecycle_reason :: string
  synced_project_path :: "string option"
  live_daemon_projects :: json
  traced_attachments :: "string set"
  appearance :: appearance_state
  theme_variant :: string
  language :: string
  settings_open :: bool
  prefs :: preferences
  catalog :: gateway_catalog
  onboarding_completed :: bool
  agent_operations :: "string list"
  mcp_operations :: "string list"
  recover_operations :: "string list"
  visible_list_synced :: bool
  toast :: "string \<times> string"
  toast_seq :: "32 word"
  provider_errors :: "string \<rightharpoonup> string"
  provider_probes :: "string set"
  first_attach :: "string set"
  skill_editor :: skill_editor
  skill_saving :: bool
  active_pane :: string
  skills :: "skill_entry list"
  thread_rows :: "visible_thread list"
  thread_model_keys :: "string list"
  view_rows :: "string \<rightharpoonup> message_row list"
  disk :: files

definition default_prefs :: preferences where
  "default_prefs = \<lparr>pref_scope = [], pref_default_profile = [], pref_permission_profile = [],
     pref_background_default = False, pref_default_agent_id = [], pref_dev_mode = False,
     pref_background_override_set = False, pref_background_override = False, pref_show_global_skills = False\<rparr>"

definition default_catalog :: gateway_catalog where
  "default_catalog = \<lparr>gw_profiles = [], gw_mcp_servers = [], gw_agents = [], gw_agents_fetched = False,
     gw_catalog_error = [], gw_recoverable = [], gw_recovery_provider = []\<rparr>"

definition default_editor :: skill_editor where
  "default_editor = \<lparr>editor_name = [], editor_path = [], editor_md_path = [], editor_content = [], editor_detected = []\<rparr>"

definition default_panel :: panel where
  "default_panel = \<lparr>threads = [], thread_id_index = Map.empty, session_id_index = Map.empty, selected_thread = 0,
     compose_text = [], search_query = [], visible_indices = [], expanded = [], displayed_thread = None,
     expanded_terminal_id = None, open_terminal_ids = [], active_project_path = None, active_project = NoProject,
     project_generation = 0, project_lifecycle_reason = [], synced_project_path = None,
     live_daemon_projects = JArray [], traced_attachments = {}, appearance = None, theme_variant = [], language = [],
     settings_open = False, prefs = default_prefs, catalog = default_catalog, onboarding_completed = False,
     agent_operations = [], mcp_operations = [], recover_operations = [], visible_list_synced = False,
     toast = ([], []), toast_seq = 0, provider_errors = Map.empty, provider_probes = {}, first_attach = {},
     skill_editor = default_editor, skill_saving = False, active_pane = [], skills = [], thread_rows = [],
     thread_model_keys = [], view_rows = Map.empty, disk = Map.empty\<rparr>"

text \<open>\<open>threads.get(i)\<close>, and a change of one thread in place.\<close>

definition thread_at :: "panel \<Rightarrow> nat \<Rightarrow> thread option" where
  "thread_at m i = (if i < length (threads m) then Some (threads m ! i) else None)"

definition set_thread :: "nat \<Rightarrow> thread \<Rightarrow> panel \<Rightarrow> panel" where
  "set_thread i t m = m\<lparr>threads := (threads m)[i := t]\<rparr>"

definition nth_opt :: "'a list \<Rightarrow> nat \<Rightarrow> 'a option" where
  "nth_opt xs i = (if i < length xs then Some (xs ! i) else None)"

section \<open>Identity\<close>

text \<open>\<open>entry(id).or_insert(index)\<close> for every thread in order: the first thread with an id has it.\<close>

fun index_from :: "(thread \<Rightarrow> string option) \<Rightarrow> nat \<Rightarrow> thread list \<Rightarrow> (string \<rightharpoonup> nat) \<Rightarrow> string \<rightharpoonup> nat" where
  "index_from f i [] index = index"
| "index_from f i (t # ts) index =
     index_from f (Suc i) ts
       (case f t of None \<Rightarrow> index
        | Some key \<Rightarrow> (case index key of None \<Rightarrow> index(key \<mapsto> i) | Some _ \<Rightarrow> index))"

definition durable_key :: "thread \<Rightarrow> string option" where
  "durable_key t = (if thread_id t = [] then None else Some (thread_id t))"

definition session_key :: "thread \<Rightarrow> string option" where
  "session_key t = (case session_id t of None \<Rightarrow> None | Some s \<Rightarrow> if s = [] then None else Some s)"

definition retain_views :: "string list \<Rightarrow> (string \<rightharpoonup> message_row list) \<Rightarrow> string \<rightharpoonup> message_row list" where
  "retain_views ids views = (\<lambda>i. if i \<in> set ids then (case views i of None \<Rightarrow> Some [] | Some rows \<Rightarrow> Some rows) else None)"

definition rebuild_thread_indices :: "panel \<Rightarrow> panel" where
  "rebuild_thread_indices m =
     m\<lparr>thread_id_index := index_from durable_key 0 (threads m) Map.empty,
       session_id_index := index_from session_key 0 (threads m) Map.empty,
       view_rows := retain_views (map thread_id (threads m)) (view_rows m)\<rparr>"

definition or_else :: "'a option \<Rightarrow> 'a option \<Rightarrow> 'a option" where
  "or_else x y = (case x of None \<Rightarrow> y | Some _ \<Rightarrow> x)"

text \<open>The map entry, when the thread it names still has the id; otherwise a scan of the threads.\<close>

definition checked :: "(thread \<Rightarrow> bool) \<Rightarrow> panel \<Rightarrow> nat option \<Rightarrow> nat option" where
  "checked P m i =
     (case i of None \<Rightarrow> None
      | Some k \<Rightarrow> (case thread_at m k of None \<Rightarrow> None | Some t \<Rightarrow> if P t then Some k else None))"

definition thread_index_for_id :: "panel \<Rightarrow> string \<Rightarrow> nat option" where
  "thread_index_for_id m i =
     (if i = [] then None
      else or_else (checked (\<lambda>t. thread_id t = i) m (thread_id_index m i))
        (or_else (checked (\<lambda>t. session_id t = Some i) m (session_id_index m i))
          (or_else (position (\<lambda>t. thread_id t = i) (threads m))
            (position (\<lambda>t. session_id t = Some i) (threads m)))))"

section \<open>Hydration\<close>

record thread_spec =
  spec_thread_id :: "string option"
  spec_display_name :: string
  spec_provider :: string
  spec_session_id :: "string option"
  spec_profile :: "string option"
  spec_project_path :: "string option"

record initial_state =
  init_threads :: "thread_spec list"
  init_thread_ids :: "string list"
  init_selected :: "string option"
  init_permissions :: "string option list"
  init_states :: "thread_state list"
  init_warnings :: "string list"
  init_queues :: "send_queue list"
  init_server_queue :: bool
  init_onboarded :: bool

definition value_or :: "'a \<Rightarrow> 'a option \<Rightarrow> 'a" where
  "value_or d x = (case x of None \<Rightarrow> d | Some y \<Rightarrow> y)"

definition synthetic_thread_id :: "nat \<Rightarrow> string" where
  "synthetic_thread_id i = ''thread:'' @ show_nat i"

definition hydrated_thread :: "panel_env \<Rightarrow> initial_state \<Rightarrow> nat \<Rightarrow> thread_spec \<Rightarrow> thread" where
  "hydrated_thread env ini i spec =
     (default_thread env)
       \<lparr>thread_id := (case nth_opt (init_thread_ids ini) i of
            Some (c # cs) \<Rightarrow> c # cs
          | _ \<Rightarrow> value_or (synthetic_thread_id i) (spec_session_id spec)),
        display_name := spec_display_name spec, provider := spec_provider spec,
        thread_profile := spec_profile spec,
        thread_permission := value_or None (nth_opt (init_permissions ini) i),
        thread_state := value_or Idle (nth_opt (init_states ini) i), session_id := spec_session_id spec,
        send_queue := value_or sq_default (nth_opt (init_queues ini) i),
        server_queue := init_server_queue ini\<rparr>"

definition from_initial_state :: "panel_env \<Rightarrow> initial_state \<Rightarrow> panel" where
  "from_initial_state env ini =
     (let ts = map (\<lambda>(i, spec). hydrated_thread env ini i spec) (enumerate 0 (init_threads ini));
          sel = (case init_selected ini of None \<Rightarrow> None
                 | Some i \<Rightarrow> position (\<lambda>t. thread_id t = i \<or> session_id t = Some i) ts)
      in rebuild_thread_indices
           (default_panel\<lparr>threads := ts, selected_thread := value_or 0 sel, visible_indices := [0..<length ts],
              onboarding_completed := init_onboarded ini\<rparr>))"

definition selectable :: "panel \<Rightarrow> nat \<Rightarrow> bool" where
  "selectable m i = (case thread_at m i of None \<Rightarrow> False | Some t \<Rightarrow> \<not> archived t \<and> \<not> closed t)"

definition startup_selection :: "panel \<Rightarrow> nat option \<Rightarrow> nat option" where
  "startup_selection m preferred =
     (case preferred of
        Some i \<Rightarrow> if selectable m i then Some i else find (selectable m) (visible_indices m)
      | None \<Rightarrow> find (selectable m) (visible_indices m))"

section \<open>Selection and the visible list\<close>

definition wrap_thread_index :: "nat \<Rightarrow> int \<Rightarrow> nat \<Rightarrow> nat" where
  "wrap_thread_index current delta visible_len =
     (if visible_len = 0 then 0 else nat ((int current + delta) mod int visible_len))"

definition current_visible_indices :: "panel \<Rightarrow> nat list" where
  "current_visible_indices m =
     (if visible_indices m = [] \<and> threads m \<noteq> [] \<and> \<not> visible_list_synced m then [0..<length (threads m)]
      else visible_indices m)"

definition current_visible_keys :: "panel \<Rightarrow> string list" where
  "current_visible_keys m = map thread_id (List.map_filter (thread_at m) (current_visible_indices m))"

definition selected_real_index :: "panel \<Rightarrow> nat option" where
  "selected_real_index m = nth_opt (current_visible_indices m) (selected_thread m)"

definition visible_thread_indices :: "panel_env \<Rightarrow> panel \<Rightarrow> nat list" where
  "visible_thread_indices env m =
     (let query = env_lower env (trim (search_query m))
      in filter (\<lambda>i. query = [] \<or> contains (env_lower env (display_name (threads m ! i))) query)
           [0..<length (threads m)])"

definition thread_agent_usable :: "panel \<Rightarrow> nat \<Rightarrow> bool" where
  "thread_agent_usable m i =
     (case thread_at m i of None \<Rightarrow> True | Some t \<Rightarrow> thread_state t \<noteq> Stale \<and> \<not> unauthenticated t)"

text \<open>The clock of the model counts seconds.\<close>

definition format_relative_time :: "panel_env \<Rightarrow> nat option \<Rightarrow> thread_state \<Rightarrow> string" where
  "format_relative_time env last_act st =
     (if in_flight st then ''now''
      else case last_act of
        None \<Rightarrow> ''now''
      | Some t \<Rightarrow>
          (let elapsed = env_now env - t
           in if elapsed < 60 then ''now''
              else if elapsed < 3600 then show_nat (elapsed div 60) @ ''m''
              else if elapsed < 86400 then show_nat (elapsed div 3600) @ ''h''
              else if elapsed < 604800 then show_nat (elapsed div 86400) @ ''d''
              else show_nat (elapsed div 604800) @ ''w''))"

definition visible_thread_row :: "panel_env \<Rightarrow> panel \<Rightarrow> nat \<Rightarrow> visible_thread option" where
  "visible_thread_row env m i =
     (case thread_at m i of
        None \<Rightarrow> None
      | Some t \<Rightarrow>
          (let key = (if thread_id t = [] then synthetic_thread_id i else thread_id t);
               cached = map_option visible_item
                 (find (\<lambda>row. real_index row = i \<or> visible_id row = key) (thread_rows m));
               from_cache = (\<lambda>f d. case cached of None \<Rightarrow> d | Some c \<Rightarrow> f c)
           in Some \<lparr>real_index = i, visible_id = key, visible_session = session_id t, agent_detected = None,
             visible_item =
               \<lparr>item_name = display_name t,
                item_relative_time = format_relative_time env (last_activity t) (thread_state t),
                item_status = (if archived t then ''archived'' else if closed t then ''closed'' else state_str (thread_state t)),
                item_busy = (in_flight (thread_state t) \<and> \<not> closed t \<and> \<not> archived t),
                item_open = True,
                item_background = (case cached of None \<Rightarrow> False | Some c \<Rightarrow> item_background c),
                item_description = from_cache item_description [],
                item_closed = closed t, item_archived = archived t, item_unread = unread t,
                item_provider = from_cache item_provider (provider t),
                item_model = from_cache item_model [],
                item_project_path = from_cache item_project_path [],
                item_project_name = from_cache item_project_name [],
                item_project_live = (case cached of None \<Rightarrow> False | Some c \<Rightarrow> item_project_live c),
                item_profile = value_or [] (thread_profile t),
                item_has_session = (session_id t \<noteq> None)\<rparr>\<rparr>))"

end
