(* ===== verification/PanelMsg.thy ===== *)
theory PanelMsg
  imports PanelState
begin

text \<open>
  What can happen to the panel, what it asks for and what it marks as changed:
  \<open>panel-rust/src/msg.rs\<close>, \<open>effect.rs\<close> and \<open>dirty.rs\<close>, variant by variant; only the pure text
  helpers of the compose box, which are messages that change nothing, are one message here.
\<close>

section \<open>Messages from the view and the host\<close>

datatype thread_msg =
    NewThread
  | NewResolved string string "string option" "string option" "string option" "string option"
  | Selected nat
  | NavigateDelta int
  | CloseRequested nat
  | DeleteRequested nat
  | ArchiveRequested nat
  | RenameRequested nat string
  | ToggleBackground nat
  | RecoverSession string string string "string option"

datatype compose_msg =
    DraftChanged string | SendRequested string | StopRequested | GenerationStopped
  | QueueCancel nat | QueueEdit nat | QueueSendNow nat | QueueFastTrack | QueueStop | TextHelper

datatype request_msg = Approve string | Reject string | OptionSelected string string | LoadOlderRequested string

datatype terminal_msg =
    ExpandTerminal string | CloseOverlay | LocalToggle | LocalClose | LocalKeyInput "8 word list"
  | KillTerminal string | SelectTab string | CloseTab string

record settings_input =
  in_scope :: string
  in_default_profile :: string
  in_permission_profile :: string
  in_background_default :: bool
  in_default_agent_id :: string
  in_selected_thread_id :: "string option"
  in_background_override_set :: bool
  in_background_override :: bool
  in_show_global_skills :: bool

datatype settings_msg =
    SettingsOpen | SettingsClose | SettingsSave settings_input | ScopeChanged string
  | ConfigOptionSelected string string | ModeSelected string | ProfileSelected string string
  | DevModeToggled bool
  | McpCreate json | McpUpdate json | McpDelete string | McpEnabledChanged string bool
  | McpAuthenticate string | McpLogout string | McpToolEnabledChanged string string bool
  | McpToolDeferredChanged string string bool | McpToolsFetch string
  | ProfileCreate string "string option" bool bool | ProfileDelete string
  | AgentInstall string | AgentSetEnabled string bool

datatype skill_msg =
    NewSkill string string | ContentEdited string string | CopyPath string | EditorOpen string
  | OpenInEditor string string | OpenWithOsDefault string | PromoteToGlobal string

datatype chrome_msg =
    SearchChanged string | SearchSubmitted string bool bool | ToggleExpanded nat
  | CopyMessage string | ErrorBannerDismissed | CompleteOnboarding

datatype ui_msg =
    ThreadMsg thread_msg | ComposeMsg compose_msg | RequestMsg request_msg | TerminalMsg terminal_msg
  | SettingsMsg settings_msg | SkillMsg skill_msg | ChromeMsg chrome_msg

datatype host_msg =
    InvokeCommand string | AppearanceChanged appearance_state | ThemeChanged string
  | ProjectPathChanged "string option" | ProjectCreatedUntitled | ProjectClosed
  | ProjectPathRenamed string string | LanguageChanged string | HostInit

section \<open>Effects\<close>

record thread_record =
  rec_thread_id :: string
  rec_display_name :: string
  rec_provider :: string
  rec_session_id :: string
  rec_profile :: "string option"
  rec_permission :: "string option"
  rec_background :: "bool option"
  rec_project_path :: "string option"

text \<open>The calls about one thread's MCP servers, profiles and agents carry its index.\<close>

datatype gateway_call =
    CallMcpCreate json | CallMcpUpdate json | CallMcpDelete string | CallMcpEnabled string bool
  | CallMcpAuthenticate string | CallMcpLogout string | CallMcpToolEnabled string string bool
  | CallMcpToolDeferred string string bool | CallMcpToolsFetch string
  | CallProfileCreate string "string option" bool bool | CallProfileDelete string
  | CallAgentInstall string | CallAgentSetEnabled string bool

datatype effect =
    LoadInitialState
  | NewThreadDeferred nat string string
  | CloseThreadEffect nat
  | PersistSelectedThread string
  | ToggleBackgroundEffect nat
  | DeleteThreadEffect nat
  | ArchiveThreadEffect nat bool
  | RenameThreadEffect nat string
  | PersistThread nat
  | PersistThreadRecord thread_record
  | RecoverSessionEffect nat string string string
  | SendPrompt string string
  | RecordLocalMessage string string
  | MutateQueue nat json
  | ProbeProvider nat string "string option"
  | CancelGeneration nat
  | RespondAgentRequest nat string bool
  | RespondPermissionOption nat string string
  | LoadOlderMessages nat
  | LocalTerminalSpawn
  | LocalTerminalKill
  | LocalTerminalWrite "8 word list"
  | KillAgentTerminal nat string
  | SaveSettings settings_input
  | SetConfigOption nat string string
  | SetMode nat string
  | SaveDevMode bool
  | GatewayCall nat gateway_call
  | SkillWrite string string
  | CreateSkill string string "string option"
  | SkillPromote string
  | OpenSkillEditor string
  | OpenInEditorEffect string string
  | OpenWithOsDefaultEffect string
  | ClipboardWrite string
  | SetActiveProjectPath "string option"
  | RenameProjectAssociation string string project_identity
  | RefreshDaemonProjects

section \<open>Marks of what changed\<close>

datatype scalar_field = SelectedThreadField | ComposeTextField | SettingsOpenField | SettingsScopeField | SearchQueryField

datatype dirty =
    Scalar scalar_field
  | ToastDirty
  | ThreadRow string
  | ThreadListDiff "visible_thread row_op list"
  | MessageAppended string
  | MessagesDiff string "message_row row_op list"
  | StreamingDelta string string string
  | MessageRowPatch string nat
  | ConnectionDirty string
  | ProviderSwitch string
  | ThreadAttaching string
  | ErrorDirty string string
  | PendingRequestDirty string
  | TerminalDirty string
  | LocalTerminalDirty
  | ProjectPathDirty
  | AppearanceDirty
  | ThemeDirty
  | LanguageDirty
  | SettingsDirty
  | SkillsListDiff "skill_entry row_op list"
  | SkillEditorDirty
  | CapabilitiesDirty string

type_synonym outcome = "panel \<times> effect list \<times> dirty list"

text \<open>The handler returns without a change.\<close>

definition nothing :: "panel \<Rightarrow> outcome" where
  "nothing m = (m, [], [])"

section \<open>Results of effects\<close>

datatype effect_result =
    InitialStateLoaded "string + initial_state"
  | ThreadPersisted nat "string + unit"
  | ThreadRecordPersisted "string + unit"
  | SessionAttached nat "string option" "string option" "string + string"
  | SessionAttachStarted string
  | ProviderProbeSkipped nat string
  | ThreadCreationFailed nat string
  | SkillWritten "string + unit"
  | SkillCreated "string + string"
  | SkillPromoted "string + unit"
  | ExternalEditorOpened "string + unit"
  | OsDefaultOpened "string + unit"
  | SkillEditorLoaded "string + skill_editor"
  | SkillReactiveSyncFailed string string
  | PromptStreamDelta string string string
  | PromptSent nat "string + unit"
  | SettingsSaved "string + unit"
  | GatewayCallCompleted nat "string + unit"
  | StateEffectFailed string string
  | McpServerOperationCompleted "string + string"
  | AgentOperationCompleted "string + string"
  | DaemonProjectInstancesLoaded "string + json"

section \<open>The frame\<close>

record queue_item_info =
  info_entry_id :: string
  info_idempotency_key :: string
  info_text :: string
  info_state :: string
  info_position :: "32 word"

text \<open>The events of the bridge; those the reducer only answers with a redrawn row are one.\<close>

datatype agent_event =
    ConnectionRestored
  | AgentMessage chat_message
  | HistoryPage "chat_message list" "string option"
  | QueueChanged "queue_item_info list" bool
  | TurnEnded string
  | AgentError string
  | ProviderProbe string "string + unit"
  | ConfigOptions "config_option list"
  | UsageUpdate "64 word" "64 word"
  | OtherEvent json

record thread_list_snapshot =
  tls_visible_indices :: "nat list"
  tls_visible_ids :: "string list"
  tls_rows :: "visible_thread list"
  tls_archived :: "bool list"
  tls_project_path :: "string option"

record thread_frame_snapshot =
  tfs_thread_id :: string
  tfs_real_index :: nat
  tfs_transcript :: "transcript_item list"
  tfs_config_options :: "config_option list"
  tfs_surface :: thread_surface

record frame_input =
  bridge_events :: "(agent_event \<times> string option) list"
  bridge_events_pending :: bool
  thread_records :: "thread_record list"
  settings_reload_pending :: bool
  prepend_expanded_rows :: nat
  list_snapshot :: "thread_list_snapshot option"
  selected_snapshot :: "thread_frame_snapshot option"
  clear_selected_thread :: bool
  prefs_snapshot :: "preferences option"
  catalog_snapshot :: "gateway_catalog option"
  frame_agent_operations :: "string list"
  frame_mcp_operations :: "string list"
  frame_recover_operations :: "string list"
  skills_snapshot :: "skill_entry list option"
  daemon_refresh_due :: bool

datatype msg = UiEvent ui_msg | EffectResult effect_result | HostEvent host_msg | Frame frame_input

end
