(* ===== verification/PanelThreads.thy ===== *)
theory PanelThreads
  imports PanelMsg
begin

text \<open>
  The thread messages of the reducer: \<open>update_thread\<close> of \<open>panel-rust/src/update.rs\<close>, one
  definition per message, and the helpers it calls.  A handler returns the new state, the
  effects to run and the marks for the view.
\<close>

section \<open>Marks\<close>

text \<open>
  \<open>diff_by_id\<close> indexes the rows by the position of their keys; the lists here are aligned, so
  the case of a panic never arises.
\<close>

definition diff_ops :: "string list \<Rightarrow> string list \<Rightarrow> 'a list \<Rightarrow> 'a row_op list" where
  "diff_ops old_keys new_keys rows = value_or [] (diff_by_id old_keys new_keys rows)"

definition show_toast :: "string \<Rightarrow> string \<Rightarrow> panel \<Rightarrow> panel" where
  "show_toast kind message m = m\<lparr>toast := (message, kind), toast_seq := toast_seq m + 1\<rparr>"

definition id_of_thread :: "panel \<Rightarrow> nat \<Rightarrow> string" where
  "id_of_thread m i = (case thread_at m i of None \<Rightarrow> [] | Some t \<Rightarrow> thread_id t)"

definition session_of_thread :: "panel \<Rightarrow> nat \<Rightarrow> string" where
  "session_of_thread m i = (case thread_at m i of None \<Rightarrow> [] | Some t \<Rightarrow> value_or [] (session_id t))"

definition thread_row_dirty :: "panel \<Rightarrow> nat \<Rightarrow> dirty" where
  "thread_row_dirty m i = ThreadRow (id_of_thread m i)"

definition thread_list_dirty_with_keys :: "panel_env \<Rightarrow> string list \<Rightarrow> panel \<Rightarrow> panel \<times> dirty" where
  "thread_list_dirty_with_keys env old_keys m =
     (let rows = List.map_filter (visible_thread_row env m) (visible_thread_indices env m)
      in (m\<lparr>visible_indices := map real_index rows, thread_rows := rows\<rparr>,
          ThreadListDiff (diff_ops old_keys (map visible_id rows) rows)))"

section \<open>Switching threads\<close>

text \<open>The compose text goes to the thread that is left, when there is one, and the other one's draft comes in.\<close>

definition leave_thread :: "nat option \<Rightarrow> panel \<Rightarrow> panel" where
  "leave_thread prev m =
     (case prev of None \<Rightarrow> m
      | Some p \<Rightarrow>
          (case thread_at m p of None \<Rightarrow> m
           | Some t \<Rightarrow> (set_thread p (t\<lparr>compose_draft := compose_text m\<rparr>) m)\<lparr>compose_text := []\<rparr>))"

definition thread_of :: "panel \<Rightarrow> nat option \<Rightarrow> thread option" where
  "thread_of m i = Option.bind i (thread_at m)"

definition enter_thread :: "nat option \<Rightarrow> panel \<Rightarrow> panel" where
  "enter_thread target m =
     m\<lparr>compose_text := (case thread_of m target of None \<Rightarrow> [] | Some t \<Rightarrow> compose_draft t),
       displayed_thread := target\<rparr>"

definition mark_read :: "nat option \<Rightarrow> panel \<Rightarrow> panel \<times> dirty list" where
  "mark_read target m =
     (case target of None \<Rightarrow> (m, [])
      | Some i \<Rightarrow>
          (case thread_at m i of None \<Rightarrow> (m, [])
           | Some t \<Rightarrow> if unread t then (set_thread i (t\<lparr>unread := False\<rparr>) m, [ThreadRow (thread_id t)]) else (m, [])))"

definition pane_marks :: "thread option \<Rightarrow> dirty list" where
  "pane_marks target =
     (let target_id = (case target of None \<Rightarrow> [] | Some t \<Rightarrow> thread_id t)
      in [PendingRequestDirty target_id,
          ErrorDirty target_id (case target of None \<Rightarrow> [] | Some t \<Rightarrow> value_or [] (thread_error t)),
          TerminalDirty (case target of None \<Rightarrow> []
            | Some t \<Rightarrow> (case expanded_terminal (surface t) of None \<Rightarrow> [] | Some e \<Rightarrow> terminal_item_id e)),
          LocalTerminalDirty,
          ConnectionDirty target_id,
          CapabilitiesDirty (case target of None \<Rightarrow> [] | Some t \<Rightarrow> value_or [] (session_id t))])"

definition apply_thread_selection_switch :: "panel \<Rightarrow> outcome" where
  "apply_thread_selection_switch m =
     (let target = selected_real_index m;
          (m', marks) =
            (if displayed_thread m \<noteq> target
             then let m1 = enter_thread target (leave_thread (displayed_thread m) m);
                      (m2, read) = mark_read target m1
                  in (m2, Scalar ComposeTextField # read @ pane_marks (thread_of m2 target))
             else (m, []))
      in (m', (case thread_of m' target of None \<Rightarrow> [] | Some t \<Rightarrow> [PersistSelectedThread (thread_id t)]),
          Scalar SelectedThreadField # marks))"

section \<open>New threads\<close>

definition no_provider_requested_fallback :: string where
  "no_provider_requested_fallback = ''codex''"

definition fallback_provider_for_new_thread :: "panel \<Rightarrow> string" where
  "fallback_provider_for_new_thread m =
     (case find (\<lambda>e. agent_enabled e \<and> agent_status e = Installed) (gw_agents (catalog m)) of
        None \<Rightarrow> no_provider_requested_fallback
      | Some e \<Rightarrow> agent_id e)"

text \<open>A profile name the settings may hold: neither empty nor the reserved word.\<close>

definition real_profile :: "string \<Rightarrow> string option" where
  "real_profile p = (if p \<noteq> [] \<and> p \<noteq> ''default'' then Some p else None)"

definition nonempty :: "string \<Rightarrow> string option" where
  "nonempty s = (if s = [] then None else Some s)"

definition new_thread_row :: "panel_env \<Rightarrow> panel \<Rightarrow> thread" where
  "new_thread_row env m =
     (let i = length (threads m); default_agent = pref_default_agent_id (prefs m)
      in (default_thread env)
        \<lparr>thread_id := synthetic_thread_id i, display_name := ''New thread '' @ show_nat (i + 1),
         provider := (if default_agent = [] then fallback_provider_for_new_thread m else default_agent),
         thread_profile := or_else (real_profile (pref_default_profile (prefs m))) (nonempty default_agent),
         thread_permission := real_profile (pref_permission_profile (prefs m)),
         archived := False, send_queue := sq_new\<rparr>)"

definition push_thread :: "thread \<Rightarrow> panel \<Rightarrow> panel" where
  "push_thread t m = rebuild_thread_indices (m\<lparr>threads := threads m @ [t]\<rparr>)"

definition update_new_thread :: "panel_env \<Rightarrow> panel \<Rightarrow> outcome" where
  "update_new_thread env m =
     (let old_keys = current_visible_keys m;
          m1 = m\<lparr>compose_text := [], search_query := []\<rparr>;
          i = length (threads m);
          t = new_thread_row env m;
          (m2, list_dirty) = thread_list_dirty_with_keys env old_keys (push_thread t m1);
          (m3, effects, marks) =
            (case position (\<lambda>k. k = i) (visible_indices m2) of
               None \<Rightarrow> (m2, [], [])
             | Some k \<Rightarrow> apply_thread_selection_switch (m2\<lparr>selected_thread := k\<rparr>))
      in (m3, NewThreadDeferred i (display_name t) (provider t) # effects,
          [list_dirty, Scalar ComposeTextField, Scalar SearchQueryField] @ marks))"

definition update_new_resolved ::
  "panel_env \<Rightarrow> string \<Rightarrow> string \<Rightarrow> string option \<Rightarrow> string option \<Rightarrow> string option \<Rightarrow> string option
    \<Rightarrow> panel \<Rightarrow> outcome"
where
  "update_new_resolved env name prov profile permission session tid m =
     (if active_project m = NoProject then nothing m
      else
        let old_keys = current_visible_keys m;
            m1 = m\<lparr>compose_text := [], search_query := []\<rparr>;
            t = (default_thread env)
              \<lparr>thread_id := value_or (synthetic_thread_id (length (threads m))) (or_else tid session),
               display_name := name, provider := prov, thread_profile := profile, thread_permission := permission,
               session_id := session, send_queue := sq_new\<rparr>;
            (m2, list_dirty) = thread_list_dirty_with_keys env old_keys (push_thread t m1)
        in (m2, [], [list_dirty, Scalar ComposeTextField, Scalar SearchQueryField]))"

definition update_recover_session ::
  "panel_env \<Rightarrow> string \<Rightarrow> string \<Rightarrow> string \<Rightarrow> string option \<Rightarrow> panel \<Rightarrow> outcome"
where
  "update_recover_session env session prov ttl tid m =
     (let old_keys = current_visible_keys m;
          t = (default_thread env)
            \<lparr>thread_id := value_or (synthetic_thread_id (length (threads m))) tid, display_name := ttl,
             provider := prov, session_id := Some session, send_queue := sq_new\<rparr>;
          (m1, list_dirty) = thread_list_dirty_with_keys env old_keys (push_thread t (m\<lparr>search_query := []\<rparr>))
      in (m1, [RecoverSessionEffect (length (threads m)) session prov ttl], [list_dirty, Scalar SearchQueryField]))"

section \<open>Selection\<close>

definition selection_length :: "panel \<Rightarrow> nat" where
  "selection_length m = (if visible_indices m = [] then length (threads m) else length (visible_indices m))"

definition update_selected :: "nat \<Rightarrow> panel \<Rightarrow> outcome" where
  "update_selected i m =
     (if selection_length m = 0 then nothing m
      else apply_thread_selection_switch (m\<lparr>selected_thread := min i (selection_length m - 1)\<rparr>))"

definition update_navigate :: "int \<Rightarrow> panel \<Rightarrow> outcome" where
  "update_navigate delta m =
     (if selection_length m = 0 then nothing m
      else apply_thread_selection_switch
        (m\<lparr>selected_thread := wrap_thread_index (selected_thread m) delta (selection_length m)\<rparr>))"

section \<open>Changes of one thread\<close>

definition update_close :: "nat \<Rightarrow> panel \<Rightarrow> outcome" where
  "update_close i m =
     (case thread_at m i of
        None \<Rightarrow> nothing m
      | Some t \<Rightarrow>
          (let t' = t\<lparr>closed := True, thread_state := (if in_flight (thread_state t) then Idle else thread_state t)\<rparr>
           in (set_thread i t' m, [CloseThreadEffect i], [ThreadRow (thread_id t)])))"

definition update_delete :: "panel_env \<Rightarrow> nat \<Rightarrow> panel \<Rightarrow> outcome" where
  "update_delete env i m =
     (case thread_at m i of
        None \<Rightarrow> nothing m
      | Some t \<Rightarrow>
          (let (m', list_dirty) = thread_list_dirty_with_keys env (current_visible_keys m)
                 (set_thread i (t\<lparr>closed := True, thread_state := Idle\<rparr>) m)
           in (m', [DeleteThreadEffect i], [list_dirty])))"

definition archive_pool_cap :: nat where
  "archive_pool_cap = 10"

definition archived_indices :: "panel \<Rightarrow> nat list" where
  "archived_indices m = filter (\<lambda>i. archived (threads m ! i) \<and> \<not> closed (threads m ! i)) [0..<length (threads m)]"

text \<open>Beyond the cap the first archived thread other than the one just archived goes.\<close>

definition drop_oldest_archived :: "nat \<Rightarrow> panel \<Rightarrow> outcome" where
  "drop_oldest_archived i m =
     (if archive_pool_cap < length (archived_indices m)
      then case find (\<lambda>k. k \<noteq> i) (archived_indices m) of
             None \<Rightarrow> nothing m
           | Some k \<Rightarrow>
               (case thread_at m k of
                  None \<Rightarrow> (m, [DeleteThreadEffect k], [thread_row_dirty m k])
                | Some t \<Rightarrow> (set_thread k (t\<lparr>closed := True\<rparr>) m, [DeleteThreadEffect k], [ThreadRow (thread_id t)]))
      else nothing m)"

definition update_archive :: "nat \<Rightarrow> panel \<Rightarrow> outcome" where
  "update_archive i m =
     (case thread_at m i of
        None \<Rightarrow> nothing m
      | Some t \<Rightarrow>
          (let now_archived = (\<not> archived t);
               cancels = (now_archived \<and> thread_state t = Loading);
               t' = t\<lparr>archived := now_archived, thread_state := (if cancels then Cancelling else thread_state t)\<rparr>;
               m1 = set_thread i t' m;
               (m2, dropped, marks) = (if now_archived then drop_oldest_archived i m1 else nothing m1)
           in (m2, ArchiveThreadEffect i now_archived # (if cancels then [CancelGeneration i] else []) @ dropped,
               ThreadRow (thread_id t) # marks)))"

definition update_rename :: "panel_env \<Rightarrow> nat \<Rightarrow> string \<Rightarrow> panel \<Rightarrow> outcome" where
  "update_rename env i name m =
     (case thread_at m i of
        None \<Rightarrow> nothing m
      | Some t \<Rightarrow>
          (let (m', list_dirty) = thread_list_dirty_with_keys env (current_visible_keys m)
                 (set_thread i (t\<lparr>display_name := name\<rparr>) m)
           in (m', [RenameThreadEffect i name], [list_dirty])))"

definition update_toggle_background :: "nat \<Rightarrow> panel \<Rightarrow> outcome" where
  "update_toggle_background i m =
     (if length (threads m) \<le> i then nothing m
      else (m, [ToggleBackgroundEffect i], [thread_row_dirty m i]))"

fun update_thread :: "panel_env \<Rightarrow> thread_msg \<Rightarrow> panel \<Rightarrow> outcome" where
  "update_thread env NewThread m = update_new_thread env m"
| "update_thread env (NewResolved name prov profile permission session tid) m =
     update_new_resolved env name prov profile permission session tid m"
| "update_thread env (Selected i) m = update_selected i m"
| "update_thread env (NavigateDelta delta) m = update_navigate delta m"
| "update_thread env (CloseRequested i) m = update_close i m"
| "update_thread env (DeleteRequested i) m = update_delete env i m"
| "update_thread env (ArchiveRequested i) m = update_archive i m"
| "update_thread env (RenameRequested i name) m = update_rename env i name m"
| "update_thread env (ToggleBackground i) m = update_toggle_background i m"
| "update_thread env (RecoverSession session prov ttl tid) m = update_recover_session env session prov ttl tid m"

end
