(* ===== verification/PanelCompose.thy ===== *)
theory PanelCompose
  imports PanelThreads
begin

text \<open>
  The compose messages of the reducer: \<open>update_compose\<close> of \<open>panel-rust/src/update.rs\<close>.  All of
  them act on the thread the selection names.  A thread's queue is the one of \<open>SendQueue\<close>; the
  files it writes are the \<open>disk\<close> of the state.
\<close>

section \<open>The projection of the queue\<close>

definition thread_rows_of :: "panel_env \<Rightarrow> bool list \<Rightarrow> thread \<Rightarrow> message_row list \<times> string list" where
  "thread_rows_of env ex t =
     message_rows_for_thread_with_state (env_upper env) (env_parse env) (transcript t) ex (send_queue t)
       (in_flight (thread_state t))"

text \<open>The new keys of a thread and the diff from the old ones.\<close>

definition project_rows :: "panel_env \<Rightarrow> bool list \<Rightarrow> thread \<Rightarrow> thread \<times> message_row row_op list" where
  "project_rows env ex t =
     (let (rows, keys) = thread_rows_of env ex t
      in (t\<lparr>transcript_keys := keys\<rparr>, diff_ops (transcript_keys t) keys rows))"

definition rebuild_send_queue_projection :: "panel_env \<Rightarrow> nat \<Rightarrow> panel \<Rightarrow> panel \<times> dirty list" where
  "rebuild_send_queue_projection env i m =
     (case thread_at m i of
        None \<Rightarrow> (m, [])
      | Some t \<Rightarrow>
          (let (t', ops) = project_rows env (expanded m) t
           in (set_thread i t' m, [ThreadRow (thread_id t), MessagesDiff (thread_id t) ops])))"

text \<open>\<open>queue:{n}\<close> with a \<open>u64\<close>.\<close>

definition queue_entry_id_at :: "thread \<Rightarrow> nat \<Rightarrow> nat option" where
  "queue_entry_id_at t message_index =
     (case nth_opt (transcript_keys t) message_index of
        None \<Rightarrow> None
      | Some key \<Rightarrow> if prefix ''queue:'' key then parse_usize (drop 6 key) else None)"

section \<open>Mutations of the server's queue\<close>

definition json_opt :: "string option \<Rightarrow> json" where
  "json_opt s = (case s of None \<Rightarrow> JNull | Some x \<Rightarrow> JString x)"

definition queue_request ::
  "nat \<Rightarrow> string option \<Rightarrow> string \<Rightarrow> nat option \<Rightarrow> string option \<Rightarrow> string option \<Rightarrow> effect"
where
  "queue_request i session operation entry remote msg_text =
     MutateQueue i
       (JObject
         [(''sessionId'', json_opt session),
          (''idempotencyKey'', JString (''panel:'' @ value_or ''unbound'' session @ '':'' @ operation @ '':''
             @ (case entry of None \<Rightarrow> ''none'' | Some n \<Rightarrow> show_nat n))),
          (''operation'', JString operation),
          (''queueEntryId'', json_opt (or_else remote (map_option (\<lambda>n. ''queue-'' @ show_nat n) entry))),
          (''text'', json_opt msg_text)])"

text \<open>An operation of the thread's queue, its file on the panel's disk.\<close>

definition fail_thread :: "nat \<Rightarrow> thread \<Rightarrow> string \<Rightarrow> panel \<Rightarrow> outcome" where
  "fail_thread i t message m =
     (set_thread i (t\<lparr>thread_error := Some message\<rparr>) m, [], [ErrorDirty (thread_id t) message])"

section \<open>The messages\<close>

definition update_draft_changed :: "nat \<Rightarrow> string \<Rightarrow> panel \<Rightarrow> outcome" where
  "update_draft_changed i s m =
     (case thread_at m i of
        None \<Rightarrow> (m\<lparr>compose_text := s\<rparr>, [], [])
      | Some t \<Rightarrow> ((set_thread i (t\<lparr>compose_draft := s\<rparr>) m)\<lparr>compose_text := s\<rparr>, [], []))"

text \<open>A send while a turn runs queues the text, one while idle starts a turn.\<close>

definition update_send_queued :: "panel_env \<Rightarrow> nat \<Rightarrow> string \<Rightarrow> thread \<Rightarrow> panel \<Rightarrow> outcome" where
  "update_send_queued env i s t m =
     (case sq_enqueue (env_ser env) (env_disk env) s False (send_queue t) (disk m) of
        (q, fs, Inr entry) \<Rightarrow>
          (let (t', ops) = project_rows env (expanded m) (t\<lparr>send_queue := q\<rparr>);
               effects = (if server_queue t
                 then [queue_request i (session_id t) ''enqueue'' (Some entry) (Some (''queue-'' @ show_nat entry))
                         (Some (case entry_by_id q entry of None \<Rightarrow> [] | Some e \<Rightarrow> entry_text e))]
                 else [])
           in ((set_thread i t' m)\<lparr>disk := fs\<rparr>, effects,
               [ThreadRow (thread_id t), Scalar ComposeTextField, MessagesDiff (thread_id t) ops]))
      | (q, fs, Inl e) \<Rightarrow>
          ((set_thread i (t\<lparr>send_queue := q, thread_error := Some (env_io_error env e), thread_state := ErrorState\<rparr>) m)
             \<lparr>disk := fs\<rparr>, [],
           [Scalar ComposeTextField, ErrorDirty (thread_id t) (env_io_error env e)]))"

definition update_send_now_idle :: "panel_env \<Rightarrow> nat \<Rightarrow> string \<Rightarrow> thread \<Rightarrow> panel \<Rightarrow> outcome" where
  "update_send_now_idle env i s t m =
     (let t' = t\<lparr>thread_error := None, thread_state := Loading, agent_content_this_turn := False,
                last_activity := Some (env_now env), send_queue := sq_resume (send_queue t)\<rparr>;
          resume = (case session_id t of
              Some session \<Rightarrow> if server_queue t then [queue_request i (Some session) ''resume'' None None None] else []
            | None \<Rightarrow> [])
      in (set_thread i t' m, resume @ [SendPrompt (thread_id t) s],
          [ThreadRow (thread_id t), ConnectionDirty (thread_id t), Scalar ComposeTextField]))"

definition update_send_requested :: "panel_env \<Rightarrow> nat \<Rightarrow> string \<Rightarrow> panel \<Rightarrow> outcome" where
  "update_send_requested env i s m =
     (let m1 = m\<lparr>compose_text := []\<rparr>
      in case thread_at m1 i of
           None \<Rightarrow> nothing m1
         | Some t \<Rightarrow>
             if in_flight (thread_state t) then update_send_queued env i s t m1
             else update_send_now_idle env i s t m1)"

definition update_stop :: "nat \<Rightarrow> panel \<Rightarrow> outcome" where
  "update_stop i m =
     (case thread_at m i of
        None \<Rightarrow> nothing m
      | Some t \<Rightarrow>
          (let pause = (case session_id t of
              Some session \<Rightarrow> if server_queue t then [queue_request i (Some session) ''pause'' None None None] else []
            | None \<Rightarrow> [])
           in (set_thread i (t\<lparr>send_queue := sq_pause (send_queue t), thread_state := Cancelling\<rparr>) m,
               CancelGeneration i # pause, [ThreadRow (thread_id t)])))"

definition update_generation_stopped :: "nat \<Rightarrow> panel \<Rightarrow> outcome" where
  "update_generation_stopped i m =
     (case thread_at m i of
        None \<Rightarrow> nothing m
      | Some t \<Rightarrow> (set_thread i (t\<lparr>thread_state := Idle\<rparr>) m, [], [ThreadRow (thread_id t)]))"

text \<open>Cancelling and editing a queued row both take the entry out of the local queue.\<close>

definition update_queue_cancel :: "panel_env \<Rightarrow> nat \<Rightarrow> nat \<Rightarrow> panel \<Rightarrow> outcome" where
  "update_queue_cancel env i message_index m =
     (case thread_at m i of
        None \<Rightarrow> nothing m
      | Some t \<Rightarrow>
          (case queue_entry_id_at t message_index of
             None \<Rightarrow> nothing m
           | Some entry \<Rightarrow>
               (case sq_remove (env_ser env) (env_disk env) entry (send_queue t) (disk m) of
                  (q, fs, Inr (Some _)) \<Rightarrow>
                    (let m1 = (set_thread i (t\<lparr>send_queue := q\<rparr>) m)\<lparr>disk := fs\<rparr>;
                         effects = (case session_id t of
                             Some session \<Rightarrow> if server_queue t
                               then [queue_request i (Some session) ''cancel'' (Some entry) (remote_id_for q entry) None]
                               else []
                           | None \<Rightarrow> []);
                         (m2, marks) = rebuild_send_queue_projection env i m1
                     in (m2, effects, marks))
                | (q, fs, Inr None) \<Rightarrow> nothing ((set_thread i (t\<lparr>send_queue := q\<rparr>) m)\<lparr>disk := fs\<rparr>)
                | (q, fs, Inl e) \<Rightarrow> fail_thread i (t\<lparr>send_queue := q\<rparr>) (env_io_error env e) (m\<lparr>disk := fs\<rparr>))))"

definition update_queue_edit :: "panel_env \<Rightarrow> nat \<Rightarrow> nat \<Rightarrow> panel \<Rightarrow> outcome" where
  "update_queue_edit env i message_index m =
     (case thread_at m i of
        None \<Rightarrow> nothing m
      | Some t \<Rightarrow>
          (case queue_entry_id_at t message_index of
             None \<Rightarrow> nothing m
           | Some entry \<Rightarrow>
               (case sq_remove (env_ser env) (env_disk env) entry (send_queue t) (disk m) of
                  (q, fs, Inr (Some e)) \<Rightarrow>
                    (let (m1, marks) = rebuild_send_queue_projection env i
                           ((set_thread i (t\<lparr>send_queue := q\<rparr>) m)\<lparr>disk := fs, compose_text := entry_text e\<rparr>)
                     in (m1, [], marks @ [Scalar ComposeTextField]))
                | (q, fs, Inr None) \<Rightarrow> nothing ((set_thread i (t\<lparr>send_queue := q\<rparr>) m)\<lparr>disk := fs\<rparr>)
                | (q, fs, Inl e) \<Rightarrow> fail_thread i (t\<lparr>send_queue := q\<rparr>) (env_io_error env e) (m\<lparr>disk := fs\<rparr>))))"

text \<open>What sending one queued entry out of turn and the fast track have in common: the entry is out of the queue.\<close>

definition dispatch_entry :: "panel_env \<Rightarrow> nat \<Rightarrow> bool \<Rightarrow> thread \<Rightarrow> queue_entry \<Rightarrow> panel \<Rightarrow> outcome" where
  "dispatch_entry env i is_generating t entry m =
     (let (m1, marks) = rebuild_send_queue_projection env i
            (set_thread i (t\<lparr>thread_error := None, thread_state := Loading\<rparr>) m);
          effects = (if is_generating \<and> \<not> server_queue t then [CancelGeneration i] else [])
            @ (if server_queue t
               then [queue_request i (session_id t) ''sendNow'' (Some (entry_id entry))
                       (remote_id_for (send_queue t) (entry_id entry)) (Some (entry_text entry))]
               else [SendPrompt (thread_id t) (entry_text entry)])
      in (m1, effects, marks @ [ConnectionDirty (thread_id t)]))"

definition update_queue_send_now :: "panel_env \<Rightarrow> nat \<Rightarrow> nat \<Rightarrow> panel \<Rightarrow> outcome" where
  "update_queue_send_now env i message_index m =
     (case thread_at m i of
        None \<Rightarrow> nothing m
      | Some t \<Rightarrow>
          (case queue_entry_id_at t message_index of
             None \<Rightarrow> nothing m
           | Some entry \<Rightarrow>
               (case send_now (env_ser env) (env_disk env) entry (in_flight (thread_state t)) (send_queue t) (disk m) of
                  (q, fs, Inr (Some e)) \<Rightarrow>
                    dispatch_entry env i (in_flight (thread_state t)) (t\<lparr>send_queue := q\<rparr>) e (m\<lparr>disk := fs\<rparr>)
                | (q, fs, Inr None) \<Rightarrow> nothing ((set_thread i (t\<lparr>send_queue := q\<rparr>) m)\<lparr>disk := fs\<rparr>)
                | (q, fs, Inl e) \<Rightarrow> fail_thread i (t\<lparr>send_queue := q\<rparr>) (env_io_error env e) (m\<lparr>disk := fs\<rparr>))))"

definition update_queue_fast_track :: "panel_env \<Rightarrow> nat \<Rightarrow> panel \<Rightarrow> outcome" where
  "update_queue_fast_track env i m =
     (case thread_at m i of
        None \<Rightarrow> nothing m
      | Some t \<Rightarrow>
          (case try_fast_track (env_ser env) (env_disk env) (in_flight (thread_state t)) (send_queue t) (disk m) of
             (q, fs, Inr (Some e)) \<Rightarrow>
               dispatch_entry env i (in_flight (thread_state t)) (t\<lparr>send_queue := q\<rparr>) e (m\<lparr>disk := fs\<rparr>)
           | (q, fs, Inr None) \<Rightarrow> nothing ((set_thread i (t\<lparr>send_queue := q\<rparr>) m)\<lparr>disk := fs\<rparr>)
           | (q, fs, Inl e) \<Rightarrow> fail_thread i (t\<lparr>send_queue := q\<rparr>) (env_io_error env e) (m\<lparr>disk := fs\<rparr>)))"

fun compose_at :: "panel_env \<Rightarrow> nat \<Rightarrow> compose_msg \<Rightarrow> panel \<Rightarrow> outcome" where
  "compose_at env i (DraftChanged s) m = update_draft_changed i s m"
| "compose_at env i (SendRequested s) m = update_send_requested env i s m"
| "compose_at env i StopRequested m = update_stop i m"
| "compose_at env i QueueStop m = update_stop i m"
| "compose_at env i GenerationStopped m = update_generation_stopped i m"
| "compose_at env i (QueueCancel k) m = update_queue_cancel env i k m"
| "compose_at env i (QueueEdit k) m = update_queue_edit env i k m"
| "compose_at env i (QueueSendNow k) m = update_queue_send_now env i k m"
| "compose_at env i QueueFastTrack m = update_queue_fast_track env i m"
| "compose_at env i TextHelper m = nothing m"

definition update_compose :: "panel_env \<Rightarrow> compose_msg \<Rightarrow> panel \<Rightarrow> outcome" where
  "update_compose env msg m =
     (case selected_real_index m of None \<Rightarrow> nothing m | Some i \<Rightarrow> compose_at env i msg m)"

end
