(* ===== verification/PanelChrome.thy ===== *)
theory PanelChrome
  imports PanelThreads
begin

text \<open>
  The rest of the reducer's view and host messages (\<open>panel-rust/src/update.rs\<close>): agent requests,
  terminals, settings, skills, search and project lifecycle.
\<close>

section \<open>Requests of the agent\<close>

fun request_at :: "nat \<Rightarrow> request_msg \<Rightarrow> panel \<Rightarrow> outcome" where
  "request_at i (Approve request) m =
     (m, [RespondAgentRequest i request True], [PendingRequestDirty (session_of_thread m i)])"
| "request_at i (Reject request) m =
     (m, [RespondAgentRequest i request False], [PendingRequestDirty (session_of_thread m i)])"
| "request_at i (OptionSelected request opt) m = (m, [RespondPermissionOption i request opt], [])"
| "request_at i (LoadOlderRequested tid) m = (m, [LoadOlderMessages i], [MessagesDiff tid []])"

definition update_request :: "request_msg \<Rightarrow> panel \<Rightarrow> outcome" where
  "update_request msg m =
     (case selected_real_index m of None \<Rightarrow> nothing m | Some i \<Rightarrow> request_at i msg m)"

section \<open>Terminal tabs\<close>

definition update_expand_terminal :: "string \<Rightarrow> panel \<Rightarrow> outcome" where
  "update_expand_terminal i m =
     (m\<lparr>open_terminal_ids := (if i \<in> set (open_terminal_ids m) then open_terminal_ids m else open_terminal_ids m @ [i]),
        expanded_terminal_id := Some i\<rparr>, [], [TerminalDirty i])"

definition update_select_tab :: "string \<Rightarrow> panel \<Rightarrow> outcome" where
  "update_select_tab i m =
     (if i \<in> set (open_terminal_ids m) then m\<lparr>expanded_terminal_id := Some i\<rparr> else m, [], [TerminalDirty i])"

definition update_close_tab :: "string \<Rightarrow> panel \<Rightarrow> outcome" where
  "update_close_tab i m =
     (let m' = (case position (\<lambda>open_id. open_id = i) (open_terminal_ids m) of
            None \<Rightarrow> m
          | Some pos \<Rightarrow>
              (let ids = remove_at pos (open_terminal_ids m)
               in if expanded_terminal_id m = Some i
                  then m\<lparr>open_terminal_ids := ids,
                         expanded_terminal_id := or_else (nth_opt ids pos) (if pos = 0 then None else nth_opt ids (pos - 1))\<rparr>
                  else m\<lparr>open_terminal_ids := ids\<rparr>))
      in (m', [], [TerminalDirty (value_or [] (expanded_terminal_id m'))]))"

definition update_close_overlay :: "panel \<Rightarrow> outcome" where
  "update_close_overlay m =
     (m\<lparr>expanded_terminal_id := None, open_terminal_ids := []\<rparr>, [],
      [case expanded_terminal_id m of None \<Rightarrow> LocalTerminalDirty | Some i \<Rightarrow> TerminalDirty i])"

fun update_terminal :: "terminal_msg \<Rightarrow> panel \<Rightarrow> outcome" where
  "update_terminal (ExpandTerminal i) m = update_expand_terminal i m"
| "update_terminal (SelectTab i) m = update_select_tab i m"
| "update_terminal (CloseTab i) m = update_close_tab i m"
| "update_terminal CloseOverlay m = update_close_overlay m"
| "update_terminal LocalToggle m = (m, [LocalTerminalSpawn], [LocalTerminalDirty])"
| "update_terminal LocalClose m = (m, [LocalTerminalKill], [LocalTerminalDirty])"
| "update_terminal (LocalKeyInput bytes) m = (m, [LocalTerminalWrite bytes], [])"
| "update_terminal (KillTerminal i) m =
     (case selected_real_index m of None \<Rightarrow> nothing m | Some k \<Rightarrow> (m, [KillAgentTerminal k i], []))"

section \<open>Settings\<close>

definition without_sentinel :: "string \<Rightarrow> string" where
  "without_sentinel s = (if s = ''default'' then [] else s)"

definition update_settings_save :: "settings_input \<Rightarrow> panel \<Rightarrow> outcome" where
  "update_settings_save input m =
     (m\<lparr>prefs := (prefs m)
          \<lparr>pref_default_profile := without_sentinel (in_default_profile input),
           pref_permission_profile := without_sentinel (in_permission_profile input),
           pref_background_default := in_background_default input,
           pref_default_agent_id := in_default_agent_id input,
           pref_background_override_set := in_background_override_set input,
           pref_background_override := in_background_override input,
           pref_show_global_skills := in_show_global_skills input\<rparr>,
        settings_open := False\<rparr>,
      [SaveSettings input], [SettingsDirty, Scalar SettingsOpenField])"

definition offers :: "string \<Rightarrow> string \<Rightarrow> config_option \<Rightarrow> bool" where
  "offers key val opt = (option_id opt = key \<and> list_ex (\<lambda>v. option_value v = val) (option_values opt))"

fun update_first :: "('a \<Rightarrow> bool) \<Rightarrow> ('a \<Rightarrow> 'a) \<Rightarrow> 'a list \<Rightarrow> 'a list" where
  "update_first P f [] = []"
| "update_first P f (x # xs) = (if P x then f x # xs else x # update_first P f xs)"

definition update_config_option :: "string \<Rightarrow> string \<Rightarrow> panel \<Rightarrow> outcome" where
  "update_config_option key val m =
     (case selected_real_index m of
        None \<Rightarrow> nothing m
      | Some i \<Rightarrow>
          (case thread_at m i of
             None \<Rightarrow> nothing m
           | Some t \<Rightarrow>
               if session_id t = None
               then (set_thread i (t\<lparr>config_options :=
                       update_first (offers key val) (\<lambda>o'. o'\<lparr>current_value := Some val\<rparr>) (config_options t)\<rparr>) m,
                     [], [SettingsDirty, CapabilitiesDirty (thread_id t)])
               else (m, [SetConfigOption i key val], [SettingsDirty])))"

definition resolved_agent :: "string \<Rightarrow> string \<Rightarrow> panel \<Rightarrow> string" where
  "resolved_agent profile agent m =
     (if agent \<noteq> [] then agent
      else case find (\<lambda>p. profile_name p = profile) (gw_profiles (catalog m)) of
             None \<Rightarrow> [] | Some p \<Rightarrow> profile_agent_id p)"

definition update_profile_selected :: "string \<Rightarrow> string \<Rightarrow> panel \<Rightarrow> outcome" where
  "update_profile_selected profile agent m =
     (case selected_real_index m of
        None \<Rightarrow> nothing m
      | Some i \<Rightarrow>
          (case thread_at m i of
             None \<Rightarrow> nothing m
           | Some t \<Rightarrow>
               if session_id t \<noteq> None then nothing m
               else
                 let found = resolved_agent profile agent m;
                     t' = t\<lparr>thread_profile := Some profile, provider := (if found = [] then provider t else found)\<rparr>;
                     m' = set_thread i t' m
                 in if provider t' = [] then (m', [], [ThreadRow (thread_id t), CapabilitiesDirty (thread_id t)])
                    else (m'\<lparr>provider_probes := insert (provider t') (provider_probes m)\<rparr>,
                          [ProbeProvider i (provider t') (Some profile)],
                          [ThreadRow (thread_id t), CapabilitiesDirty (thread_id t), ProviderSwitch (thread_id t)])))"

text \<open>A call about the selected thread, and one the thread's agent has to be usable for.\<close>

definition thread_call :: "gateway_call \<Rightarrow> panel \<Rightarrow> outcome" where
  "thread_call call m =
     (case selected_real_index m of None \<Rightarrow> nothing m | Some i \<Rightarrow> (m, [GatewayCall i call], [SettingsDirty]))"

definition granting_call :: "bool \<Rightarrow> string \<Rightarrow> gateway_call \<Rightarrow> panel \<Rightarrow> outcome" where
  "granting_call grants complaint call m =
     (case selected_real_index m of
        None \<Rightarrow> nothing m
      | Some i \<Rightarrow>
          if grants \<and> \<not> thread_agent_usable m i then (show_toast ''error'' complaint m, [], [ToastDirty])
          else (m, [GatewayCall i call], [SettingsDirty]))"

fun update_settings :: "settings_msg \<Rightarrow> panel \<Rightarrow> outcome" where
  "update_settings SettingsOpen m = (m\<lparr>settings_open := True\<rparr>, [], [Scalar SettingsOpenField, SettingsDirty])"
| "update_settings SettingsClose m = (m\<lparr>settings_open := False\<rparr>, [], [Scalar SettingsOpenField])"
| "update_settings (SettingsSave input) m = update_settings_save input m"
| "update_settings (ScopeChanged scope) m =
     (m\<lparr>prefs := (prefs m)\<lparr>pref_scope := scope\<rparr>\<rparr>, [], [Scalar SettingsScopeField, SettingsDirty])"
| "update_settings (ConfigOptionSelected key val) m = update_config_option key val m"
| "update_settings (ModeSelected mode) m =
     (case selected_real_index m of None \<Rightarrow> nothing m | Some i \<Rightarrow> (m, [SetMode i mode], [SettingsDirty]))"
| "update_settings (ProfileSelected profile agent) m = update_profile_selected profile agent m"
| "update_settings (DevModeToggled enabled) m =
     (m\<lparr>prefs := (prefs m)\<lparr>pref_dev_mode := enabled\<rparr>\<rparr>, [SaveDevMode enabled], [SettingsDirty])"
| "update_settings (McpCreate entry) m =
     granting_call True ''Can't add an MCP server: this thread's agent is stale or unauthenticated'' (CallMcpCreate entry) m"
| "update_settings (McpUpdate entry) m = thread_call (CallMcpUpdate entry) m"
| "update_settings (McpDelete name) m = thread_call (CallMcpDelete name) m"
| "update_settings (McpEnabledChanged name enabled) m =
     granting_call enabled ''Can't enable this MCP server: this thread's agent is stale or unauthenticated''
       (CallMcpEnabled name enabled) m"
| "update_settings (McpAuthenticate name) m = thread_call (CallMcpAuthenticate name) m"
| "update_settings (McpLogout name) m = thread_call (CallMcpLogout name) m"
| "update_settings (McpToolEnabledChanged server tool enabled) m =
     granting_call enabled ''Can't enable this tool: this thread's agent is stale or unauthenticated''
       (CallMcpToolEnabled server tool enabled) m"
| "update_settings (McpToolDeferredChanged server tool deferred) m = thread_call (CallMcpToolDeferred server tool deferred) m"
| "update_settings (McpToolsFetch server) m = thread_call (CallMcpToolsFetch server) m"
| "update_settings (ProfileCreate name agent term fs) m = thread_call (CallProfileCreate name agent term fs) m"
| "update_settings (ProfileDelete name) m = thread_call (CallProfileDelete name) m"
| "update_settings (AgentInstall agent) m = thread_call (CallAgentInstall agent) m"
| "update_settings (AgentSetEnabled agent enabled) m = thread_call (CallAgentSetEnabled agent enabled) m"

section \<open>Skills\<close>

fun update_skill :: "skill_msg \<Rightarrow> panel \<Rightarrow> outcome" where
  "update_skill (NewSkill name scope) m = (m, [CreateSkill name scope (active_project_path m)], [SkillsListDiff []])"
| "update_skill (ContentEdited path content) m =
     (m\<lparr>skill_saving := True, skill_editor := (skill_editor m)\<lparr>editor_content := content\<rparr>\<rparr>,
      [SkillWrite path content], [SkillEditorDirty])"
| "update_skill (CopyPath path) m = (show_toast ''info'' ''Path copied to clipboard'' m, [ClipboardWrite path], [ToastDirty])"
| "update_skill (EditorOpen path) m = (m, [OpenSkillEditor path], [])"
| "update_skill (OpenInEditor name path) m = (m, [OpenInEditorEffect name path], [])"
| "update_skill (OpenWithOsDefault path) m = (m, [OpenWithOsDefaultEffect path], [])"
| "update_skill (PromoteToGlobal path) m = (m, [SkillPromote path], [SkillsListDiff []])"

section \<open>Search, expanded rows, banners\<close>

definition update_search :: "panel_env \<Rightarrow> string \<Rightarrow> panel \<Rightarrow> outcome" where
  "update_search env query m =
     (let (m1, list_dirty) = thread_list_dirty_with_keys env (current_visible_keys m) (m\<lparr>search_query := query\<rparr>)
      in (m1\<lparr>selected_thread := min (selected_thread m1) (length (visible_indices m1) - 1)\<rparr>, [],
          [Scalar SearchQueryField, list_dirty, Scalar SelectedThreadField]))"

definition row_count_of :: "panel \<Rightarrow> thread option \<Rightarrow> nat" where
  "row_count_of m t = (case t of None \<Rightarrow> 0 | Some t' \<Rightarrow> (case view_rows m (thread_id t') of None \<Rightarrow> 0 | Some rows \<Rightarrow> length rows))"

definition resized :: "nat \<Rightarrow> bool list \<Rightarrow> bool list" where
  "resized n xs = take n xs @ replicate (n - length xs) False"

definition update_toggle_expanded :: "nat \<Rightarrow> panel \<Rightarrow> outcome" where
  "update_toggle_expanded k m =
     (case displayed_thread m of
        None \<Rightarrow> nothing m
      | Some i \<Rightarrow>
          (let rows = row_count_of m (thread_at m i);
               flags = (if length (expanded m) \<le> k then resized (max rows (k + 1)) (expanded m) else expanded m);
               m1 = m\<lparr>expanded := flags[k := \<not> flags ! k]\<rparr>
           in case thread_at m i of
                None \<Rightarrow> nothing m1
              | Some t \<Rightarrow> if k < rows then (m1, [], [MessageRowPatch (thread_id t) k]) else nothing m1))"

definition update_banner_dismissed :: "panel \<Rightarrow> outcome" where
  "update_banner_dismissed m =
     (case selected_real_index m of
        None \<Rightarrow> nothing m
      | Some i \<Rightarrow>
          (case thread_at m i of
             None \<Rightarrow> nothing m
           | Some t \<Rightarrow> (set_thread i (t\<lparr>thread_error := None\<rparr>) m, [], [ThreadRow (thread_id t), ErrorDirty (thread_id t) []])))"

fun update_chrome :: "panel_env \<Rightarrow> chrome_msg \<Rightarrow> panel \<Rightarrow> outcome" where
  "update_chrome env (SearchChanged query) m = update_search env query m"
| "update_chrome env (SearchSubmitted query skills_too globals) m = update_search env query m"
| "update_chrome env (ToggleExpanded k) m = update_toggle_expanded k m"
| "update_chrome env (CopyMessage s) m = (m, [ClipboardWrite s], [])"
| "update_chrome env ErrorBannerDismissed m = update_banner_dismissed m"
| "update_chrome env CompleteOnboarding m = (m\<lparr>onboarding_completed := True\<rparr>, [], [SettingsDirty])"

section \<open>The host\<close>

definition next_generation :: "64 word \<Rightarrow> 64 word" where
  "next_generation g = (if g = - 1 then g else g + 1)"

definition lifecycle :: "string \<Rightarrow> project_identity \<Rightarrow> string option \<Rightarrow> panel \<Rightarrow> panel" where
  "lifecycle reason project path m =
     m\<lparr>project_generation := next_generation (project_generation m), project_lifecycle_reason := reason,
       active_project := project, active_project_path := path\<rparr>"

definition saved_project :: "string option \<Rightarrow> project_identity" where
  "saved_project path = (case path of None \<Rightarrow> NoProject | Some p \<Rightarrow> Saved p)"

definition update_project_path :: "string option \<Rightarrow> panel \<Rightarrow> outcome" where
  "update_project_path path m =
     (lifecycle (if active_project_path m \<noteq> None then ''switched'' else if path \<noteq> None then ''opened'' else ''closed'')
        (saved_project path) path m,
      [SetActiveProjectPath path], [ProjectPathDirty, SkillsListDiff []])"

definition update_project_closed :: "panel \<Rightarrow> outcome" where
  "update_project_closed m =
     ((lifecycle ''closed'' NoProject None m)\<lparr>displayed_thread := None\<rparr>, [SetActiveProjectPath None],
      [ProjectPathDirty, PendingRequestDirty [], TerminalDirty [], LocalTerminalDirty, SkillsListDiff []])"

definition update_project_renamed :: "string \<Rightarrow> string \<Rightarrow> panel \<Rightarrow> outcome" where
  "update_project_renamed old new m =
     (let path = nonempty new
      in (lifecycle ''saved_as'' (saved_project path) path m,
          SetActiveProjectPath path # (if new = [] then [] else [RenameProjectAssociation old new (active_project m)]),
          [ProjectPathDirty, SkillsListDiff []]))"

definition theme_of_appearance :: "appearance_state \<Rightarrow> string" where
  "theme_of_appearance a = (case a of None \<Rightarrow> ''dark'' | Some h \<Rightarrow> (case ap_scheme h of Dark \<Rightarrow> ''dark'' | Light \<Rightarrow> ''light''))"

fun update_host :: "panel_env \<Rightarrow> host_msg \<Rightarrow> panel \<Rightarrow> outcome" where
  "update_host env (InvokeCommand command) m =
     (if command = ''previous-thread'' then update_thread env (NavigateDelta (- 1)) m
      else if command = ''next-thread'' then update_thread env (NavigateDelta 1) m
      else nothing m)"
| "update_host env (AppearanceChanged a) m = (m\<lparr>appearance := a, theme_variant := theme_of_appearance a\<rparr>, [], [AppearanceDirty])"
| "update_host env (ThemeChanged theme) m =
     (m\<lparr>theme_variant := (if to_ascii_lowercase theme = ''light'' then ''light'' else ''dark'')\<rparr>, [], [ThemeDirty])"
| "update_host env (LanguageChanged l) m = (m\<lparr>language := l\<rparr>, [], [LanguageDirty])"
| "update_host env (ProjectPathChanged path) m = update_project_path path m"
| "update_host env ProjectCreatedUntitled m =
     (lifecycle ''created_untitled'' (Untitled (env_uuid env)) None m, [SetActiveProjectPath None], [ProjectPathDirty, SkillsListDiff []])"
| "update_host env ProjectClosed m = update_project_closed m"
| "update_host env (ProjectPathRenamed old new) m = update_project_renamed old new m"
| "update_host env HostInit m = (m, [LoadInitialState], [])"

end
