(* ===== verification/PanelResults.thy ===== *)
theory PanelResults
  imports PanelChrome
begin

text \<open>
  What the reducer does with the results of its effects: \<open>update_effect\<close> of
  \<open>panel-rust/src/update.rs\<close>.  The delivery of a background rendering
  (\<open>MarkdownBlocksReady\<close>) is an operation of \<open>MessageIndex\<close> and not repeated here.
\<close>

definition failed :: "string \<Rightarrow> panel \<Rightarrow> outcome" where
  "failed message m = (m, [], [ErrorDirty [] message])"

definition toasted :: "string \<Rightarrow> string \<Rightarrow> panel \<Rightarrow> outcome" where
  "toasted kind message m = (show_toast kind message m, [], [ToastDirty])"

definition result_initial_state :: "panel_env \<Rightarrow> initial_state \<Rightarrow> panel \<Rightarrow> outcome" where
  "result_initial_state env ini m =
     (let m1 = (from_initial_state env ini)
            \<lparr>active_project := active_project m, active_project_path := active_project_path m,
             thread_model_keys := thread_model_keys m, view_rows := view_rows m, disk := disk m\<rparr>;
          (m2, list_dirty) = thread_list_dirty_with_keys env (thread_model_keys m) m1
      in (m2, [], [list_dirty, Scalar SelectedThreadField, ProjectPathDirty] @ map (ErrorDirty []) (init_warnings ini)))"

definition result_persisted :: "nat \<Rightarrow> string + unit \<Rightarrow> dirty \<Rightarrow> panel \<Rightarrow> outcome" where
  "result_persisted i r mark m =
     (case r of Inr _ \<Rightarrow> (m, [], [mark]) | Inl message \<Rightarrow> (m, [], [ErrorDirty (session_of_thread m i) message]))"

definition end_attach :: "string \<Rightarrow> panel \<Rightarrow> panel \<times> dirty list" where
  "end_attach tid m =
     (if tid \<in> first_attach m then (m\<lparr>first_attach := first_attach m - {tid}\<rparr>, [ThreadAttaching tid]) else (m, []))"

definition result_session_attached ::
  "nat \<Rightarrow> string option \<Rightarrow> string option \<Rightarrow> string + string \<Rightarrow> panel \<Rightarrow> outcome"
where
  "result_session_attached i tid prov r m =
     (case thread_at m i of
        None \<Rightarrow> nothing m
      | Some t \<Rightarrow>
          (case r of
             Inr session \<Rightarrow>
               (let t' = t\<lparr>session_id := Some session, thread_id := value_or (thread_id t) tid, provider := value_or (provider t) prov\<rparr>
                in (rebuild_thread_indices (set_thread i t' m), [PersistThread i], [ThreadRow (thread_id t')]))
           | Inl err \<Rightarrow>
               (let message = annotate_missing_prerequisite_hint err;
                    (m', attach) = end_attach (thread_id t)
                      (set_thread i (t\<lparr>thread_state := ErrorState, thread_error := Some message\<rparr>) m)
                in (m', [], [ErrorDirty (thread_id t) message, ThreadRow (thread_id t), ConnectionDirty (thread_id t)] @ attach))))"

definition result_probe_skipped :: "nat \<Rightarrow> string \<Rightarrow> panel \<Rightarrow> outcome" where
  "result_probe_skipped i prov m =
     (let m' = m\<lparr>provider_probes := provider_probes m - {prov}\<rparr>
      in (m', [], if prov \<in> provider_probes m
            then (case thread_at m i of None \<Rightarrow> [] | Some t \<Rightarrow> [ProviderSwitch (thread_id t)]) else []))"

text \<open>The row a failed creation left is removed again, the selection clamped.\<close>

definition result_creation_failed :: "panel_env \<Rightarrow> nat \<Rightarrow> string \<Rightarrow> panel \<Rightarrow> outcome" where
  "result_creation_failed env i message m =
     (if length (threads m) \<le> i then nothing m
      else
        let (m1, list_dirty) = thread_list_dirty_with_keys env (current_visible_keys m)
              (rebuild_thread_indices (m\<lparr>threads := remove_at i (threads m)\<rparr>));
            visible_len = length (current_visible_indices m1);
            marks = [ErrorDirty (id_of_thread m i) message, list_dirty]
        in if visible_len \<le> selected_thread m1
           then (m1\<lparr>selected_thread := visible_len - 1\<rparr>, [], marks @ [Scalar SelectedThreadField])
           else (m1, [], marks))"

definition result_skill_written :: "string + unit \<Rightarrow> panel \<Rightarrow> outcome" where
  "result_skill_written r m =
     (let m' = m\<lparr>skill_saving := False\<rparr>
      in case r of
           Inr _ \<Rightarrow> (m', [], [SkillEditorDirty])
         | Inl err \<Rightarrow> (show_toast ''error'' (''Skill save failed: '' @ err) m', [], [SkillEditorDirty, ToastDirty, ErrorDirty [] err]))"

definition result_action :: "string + 'a \<Rightarrow> ('a \<Rightarrow> panel \<Rightarrow> outcome) \<Rightarrow> panel \<Rightarrow> outcome" where
  "result_action r ok m =
     (case r of Inr x \<Rightarrow> ok x m | Inl err \<Rightarrow> (show_toast ''error'' err m, [], [ToastDirty, ErrorDirty [] err]))"

definition result_editor_loaded :: "string + skill_editor \<Rightarrow> panel \<Rightarrow> outcome" where
  "result_editor_loaded r m =
     (case r of
        Inr state \<Rightarrow> (m\<lparr>skill_editor := state, active_pane := ''skill''\<rparr>, [], [SkillEditorDirty])
      | Inl err \<Rightarrow> failed err m)"

definition result_stream_delta :: "string \<Rightarrow> string \<Rightarrow> string \<Rightarrow> panel \<Rightarrow> outcome" where
  "result_stream_delta tid mid delta m =
     (case thread_of m (thread_index_for_id m tid) of
        None \<Rightarrow> nothing m
      | Some t \<Rightarrow> if mid \<in> set (message_ids t) then (m, [], [StreamingDelta tid mid delta]) else nothing m)"

definition result_prompt_sent :: "nat \<Rightarrow> string + unit \<Rightarrow> panel \<Rightarrow> outcome" where
  "result_prompt_sent i r m =
     (case thread_at m i of
        None \<Rightarrow> nothing m
      | Some t \<Rightarrow>
          (case r of
             Inr _ \<Rightarrow> (set_thread i (t\<lparr>thread_state := Idle\<rparr>) m, [], [MessagesDiff (thread_id t) [], ConnectionDirty (thread_id t)])
           | Inl err \<Rightarrow> (set_thread i (t\<lparr>thread_state := ErrorState, thread_error := Some err\<rparr>) m, [],
               [ErrorDirty (thread_id t) err, ThreadRow (thread_id t), ConnectionDirty (thread_id t)])))"

definition result_settings_saved :: "string + unit \<Rightarrow> panel \<Rightarrow> outcome" where
  "result_settings_saved r m =
     (case r of
        Inr _ \<Rightarrow> (show_toast ''status'' ''Settings saved'' m, [], [SettingsDirty, ToastDirty])
      | Inl err \<Rightarrow> (show_toast ''error'' (''Settings save failed: '' @ err) m, [], [ToastDirty, ErrorDirty [] err]))"

definition result_operation :: "string + string \<Rightarrow> panel \<Rightarrow> outcome" where
  "result_operation r m = (case r of Inr message \<Rightarrow> toasted ''status'' message m | Inl err \<Rightarrow> toasted ''error'' err m)"

definition result_projects_loaded :: "string + json \<Rightarrow> panel \<Rightarrow> outcome" where
  "result_projects_loaded r m = (case r of Inr ps \<Rightarrow> nothing (m\<lparr>live_daemon_projects := ps\<rparr>) | Inl _ \<Rightarrow> nothing m)"

fun update_effect :: "panel_env \<Rightarrow> effect_result \<Rightarrow> panel \<Rightarrow> outcome" where
  "update_effect env (InitialStateLoaded (Inr ini)) m = result_initial_state env ini m"
| "update_effect env (InitialStateLoaded (Inl err)) m = failed err m"
| "update_effect env (ThreadPersisted i r) m = result_persisted i r (thread_row_dirty m i) m"
| "update_effect env (ThreadRecordPersisted (Inr u)) m = nothing m"
| "update_effect env (ThreadRecordPersisted (Inl err)) m = failed err m"
| "update_effect env (StateEffectFailed tid message) m = (m, [], [ErrorDirty tid message])"
| "update_effect env (SessionAttached i tid prov r) m = result_session_attached i tid prov r m"
| "update_effect env (SessionAttachStarted tid) m = (m\<lparr>first_attach := insert tid (first_attach m)\<rparr>, [], [ThreadAttaching tid])"
| "update_effect env (ProviderProbeSkipped i prov) m = result_probe_skipped i prov m"
| "update_effect env (ThreadCreationFailed i message) m = result_creation_failed env i message m"
| "update_effect env (SkillWritten r) m = result_skill_written r m"
| "update_effect env (SkillCreated r) m =
     result_action r (\<lambda>path m. (show_toast ''status'' ''Skill created'' m, [OpenSkillEditor path], [ToastDirty])) m"
| "update_effect env (SkillPromoted r) m = result_action r (\<lambda>u. toasted ''status'' ''Skill promoted to global'') m"
| "update_effect env (ExternalEditorOpened r) m = result_action r (\<lambda>u. nothing) m"
| "update_effect env (OsDefaultOpened r) m = result_action r (\<lambda>u. nothing) m"
| "update_effect env (SkillEditorLoaded r) m = result_editor_loaded r m"
| "update_effect env (SkillReactiveSyncFailed operation why) m =
     toasted ''error'' (''Skill sync to agent failed ('' @ operation @ ''): '' @ why) m"
| "update_effect env (PromptStreamDelta tid mid delta) m = result_stream_delta tid mid delta m"
| "update_effect env (PromptSent i r) m = result_prompt_sent i r m"
| "update_effect env (SettingsSaved r) m = result_settings_saved r m"
| "update_effect env (McpServerOperationCompleted r) m = result_operation r m"
| "update_effect env (AgentOperationCompleted r) m = result_operation r m"
| "update_effect env (GatewayCallCompleted i r) m = result_persisted i r (CapabilitiesDirty (session_of_thread m i)) m"
| "update_effect env (DaemonProjectInstancesLoaded r) m = result_projects_loaded r m"

end
