(* ===== verification/PanelFrame.thy ===== *)
theory PanelFrame
  imports PanelCompose PanelResults
begin

text \<open>
  The reducer's frame tick: \<open>update_frame\<close> of \<open>panel-rust/src/update.rs\<close>.  It folds the events of
  the bridge, then the snapshots collected for this frame, in the order of the code; every stage
  is one definition that takes the state, the effects and the marks so far.
\<close>

section \<open>Events of one thread\<close>

text \<open>
  A bridge event is routed by its identity; one without a current identity is dropped.  The
  events of a thread return the changed thread, effects and marks.
\<close>

type_synonym thread_outcome = "thread \<times> effect list \<times> dirty list"

definition event_message_id :: "chat_message \<Rightarrow> thread \<Rightarrow> thread" where
  "event_message_id msg t =
     (case cm_id msg of
        None \<Rightarrow> t
      | Some i \<Rightarrow> if i \<in> set (message_ids t) then t else t\<lparr>message_ids := message_ids t @ [i]\<rparr>)"

text \<open>Output the user sees: not a thought, not the user's own text, not a status line.\<close>

definition visible_output :: "chat_message \<Rightarrow> bool" where
  "visible_output msg =
     ((cm_kind msg = KAgent \<or> cm_kind msg = KToolCall)
      \<and> \<not> (cm_kind msg = KAgent \<and> agent_text_skips_markdown (cm_text msg)))"

definition hard_failure :: "chat_message \<Rightarrow> thread \<Rightarrow> bool" where
  "hard_failure msg t =
     (cm_kind msg = KAgent \<and> agent_text_is_hard_failure (cm_text msg) \<and> in_flight (thread_state t))"

definition already_appended :: "string \<Rightarrow> dirty list \<Rightarrow> bool" where
  "already_appended tid marks = list_ex (\<lambda>d. d = MessageAppended tid) marks"

text \<open>The last component says whether the thread was marked unread.\<close>

definition event_message ::
  "panel_env \<Rightarrow> bool \<Rightarrow> dirty list \<Rightarrow> chat_message \<Rightarrow> thread \<Rightarrow> thread \<times> dirty list \<times> bool"
where
  "event_message env is_displayed marks msg t =
     (let t1 = (if cm_kind msg = KUser \<and> server_queue t
                then t\<lparr>send_queue := snd (dequeue_matching_remote_message (cm_text msg) (send_queue t))\<rparr> else t);
          t2 = event_message_id msg t1;
          newly_unread = (visible_output msg \<and> \<not> is_displayed \<and> \<not> unread t2);
          t3 = (if visible_output msg
                then t2\<lparr>agent_content_this_turn := True, unread := (unread t2 \<or> newly_unread)\<rparr> else t2);
          t4 = t3\<lparr>last_activity := Some (env_now env)\<rparr>;
          message = trim (cm_text msg);
          (t5, failure) = (if hard_failure msg t4
            then (t4\<lparr>thread_state := ErrorState, thread_error := Some message\<rparr>,
                  [ErrorDirty (thread_id t4) message, ThreadRow (thread_id t4)])
            else (t4, []))
      in (t5, failure @ (if already_appended (thread_id t5) (marks @ failure) then [] else [MessageAppended (thread_id t5)]),
          newly_unread))"

definition event_queue_changed :: "panel_env \<Rightarrow> bool list \<Rightarrow> queue_item_info list \<Rightarrow> bool \<Rightarrow> thread \<Rightarrow> thread_outcome" where
  "event_queue_changed env ex items paused t =
     (let (dispatched, q) = replace_remote_items (map (\<lambda>i. (info_entry_id i, info_text i)) items) paused (send_queue t);
          t1 = t\<lparr>send_queue := q\<rparr>;
          t2 = (if server_queue t \<and> dispatched \<noteq> [] \<and> \<not> agent_content_this_turn t
                then t1\<lparr>thread_state := Loading, thread_error := None\<rparr> else t1);
          (t3, ops) = project_rows env ex t2;
          t4 = t3\<lparr>rows_synced_with := Some (q, in_flight (thread_state t3))\<rparr>
      in (t4, map (RecordLocalMessage (thread_id t)) dispatched,
          [ThreadRow (thread_id t), MessagesDiff (thread_id t) ops]))"

definition empty_turn_notice :: "string \<Rightarrow> string \<Rightarrow> string" where
  "empty_turn_notice reason prov =
     ''Agent ended its turn without a response (stopReason: '' @ reason @ ''). Check gateway-'' @ prov
     @ ''.stderr.log in the chat cache directory for backend diagnostics.''"

definition event_turn_ended :: "panel_env \<Rightarrow> files \<Rightarrow> string \<Rightarrow> thread \<Rightarrow> thread_outcome \<times> files" where
  "event_turn_ended env fs reason t =
     (let empty_turn = (thread_state t = Loading \<and> \<not> agent_content_this_turn t);
          message = empty_turn_notice reason (provider t);
          t1 = t\<lparr>thread_state := Idle, thread_error := (if empty_turn then Some message else None), unauthenticated := False,
                last_activity := Some (env_now env), agent_content_this_turn := False\<rparr>;
          notice = (if empty_turn then [ErrorDirty (thread_id t) message] else []);
          (t2, effects, fs') =
            (if server_queue t then (t1, [], fs)
             else case on_generation_stopped (env_ser env) (env_disk env) False (send_queue t1) fs of
                    (q, fs1, Inr (Some e)) \<Rightarrow>
                      (t1\<lparr>send_queue := q, thread_state := Loading\<rparr>, [SendPrompt (thread_id t) (entry_text e)], fs1)
                  | (q, fs1, _) \<Rightarrow> (t1\<lparr>send_queue := q\<rparr>, [], fs1))
      in ((t2, effects, notice @ [ThreadRow (thread_id t)]), fs'))"

definition event_error :: "string \<Rightarrow> thread \<Rightarrow> thread_outcome" where
  "event_error err t =
     (let message = annotate_missing_prerequisite_hint err
      in (t\<lparr>thread_state := ErrorState, thread_error := Some message,
            unauthenticated := is_backend_requires_authentication_error err\<rparr>, [],
          [ErrorDirty (thread_id t) message, ThreadRow (thread_id t), ConnectionDirty (thread_id t)]))"

definition event_provider_probe :: "nat \<Rightarrow> string \<Rightarrow> string + unit \<Rightarrow> panel \<Rightarrow> panel \<times> dirty list" where
  "event_provider_probe i prov r m =
     (let (m1, marks) =
        (case r of
           Inr _ \<Rightarrow> (m\<lparr>provider_errors := (provider_errors m)(prov := None)\<rparr>, [])
         | Inl err \<Rightarrow>
             (show_toast ''error'' (''Provider '' @ prov @ '' unavailable: '' @ err)
                (m\<lparr>provider_errors := (provider_errors m)(prov \<mapsto> err)\<rparr>), [ToastDirty]))
      in if prov \<in> provider_probes m1
         then (m1\<lparr>provider_probes := provider_probes m1 - {prov}\<rparr>, marks @ [ProviderSwitch (id_of_thread m1 i)])
         else (m1, marks))"

section \<open>The fold over the events\<close>

record frame_state =
  fr_panel :: panel
  fr_effects :: "effect list"
  fr_marks :: "dirty list"
  fr_unread :: "nat list"

definition emit :: "panel \<Rightarrow> effect list \<Rightarrow> dirty list \<Rightarrow> frame_state \<Rightarrow> frame_state" where
  "emit m effects marks f = f\<lparr>fr_panel := m, fr_effects := fr_effects f @ effects, fr_marks := fr_marks f @ marks\<rparr>"

fun event_at_thread :: "panel_env \<Rightarrow> nat option \<Rightarrow> nat \<Rightarrow> thread \<Rightarrow> agent_event \<Rightarrow> frame_state \<Rightarrow> frame_state" where
  "event_at_thread env shown i t (ProviderProbe prov r) f =
     (let (m, marks) = event_provider_probe i prov r (fr_panel f) in emit m [] marks f)"
| "event_at_thread env shown i t ConnectionRestored f = f"
| "event_at_thread env shown i t (AgentMessage msg) f =
     (let (t', marks, newly_unread) = event_message env (shown = Some i) (fr_marks f) msg t;
          f' = emit (set_thread i t' (fr_panel f)) [] marks f
      in if newly_unread then f'\<lparr>fr_unread := fr_unread f' @ [i]\<rparr> else f')"
| "event_at_thread env shown i t (QueueChanged items paused) f =
     (let (t', effects, marks) = event_queue_changed env (expanded (fr_panel f)) items paused t
      in emit (set_thread i t' (fr_panel f)) effects marks f)"
| "event_at_thread env shown i t (HistoryPage msgs cursor) f = emit (fr_panel f) [] [MessagesDiff (thread_id t) []] f"
| "event_at_thread env shown i t (TurnEnded reason) f =
     (let ((t', effects, marks), fs) = event_turn_ended env (disk (fr_panel f)) reason t
      in emit ((set_thread i t' (fr_panel f))\<lparr>disk := fs\<rparr>) effects marks f)"
| "event_at_thread env shown i t (AgentError err) f =
     (let (t', effects, marks) = event_error err t;
          (m, attach) = end_attach (thread_id t) (set_thread i t' (fr_panel f))
      in emit m effects (marks @ attach) f)"
| "event_at_thread env shown i t (UsageUpdate used window) f = f"
| "event_at_thread env shown i t (ConfigOptions options) f = emit (fr_panel f) [] [CapabilitiesDirty (thread_id t)] f"
| "event_at_thread env shown i t (OtherEvent e) f = emit (fr_panel f) [] [ThreadRow (thread_id t)] f"

definition fold_event :: "panel_env \<Rightarrow> nat option \<Rightarrow> agent_event \<times> string option \<Rightarrow> frame_state \<Rightarrow> frame_state" where
  "fold_event env shown ev f =
     (case snd ev of
        None \<Rightarrow> f
      | Some i \<Rightarrow>
          (case thread_index_for_id (fr_panel f) i of
             None \<Rightarrow> f
           | Some k \<Rightarrow>
               (case thread_at (fr_panel f) k of None \<Rightarrow> f | Some t \<Rightarrow> event_at_thread env shown k t (fst ev) f)))"

definition fold_events :: "panel_env \<Rightarrow> (agent_event \<times> string option) list \<Rightarrow> panel \<Rightarrow> frame_state" where
  "fold_events env evs m =
     (let f = fold (fold_event env (displayed_thread m)) evs
            \<lparr>fr_panel = m, fr_effects = [], fr_marks = [], fr_unread = []\<rparr>
      in f\<lparr>fr_marks := fr_marks f @ map (thread_row_dirty (fr_panel f)) (fr_unread f)\<rparr>)"

section \<open>The snapshots of a frame\<close>

definition frame_flags :: "frame_input \<Rightarrow> frame_state \<Rightarrow> frame_state" where
  "frame_flags fr f =
     (let m = fr_panel f;
          fresh = filter (\<lambda>r. rec_thread_id r \<notin> traced_attachments m) (thread_records fr);
          distinct_fresh = fold (\<lambda>r acc. if rec_thread_id r \<in> rec_thread_id ` set acc then acc else acc @ [r]) fresh [];
          m1 = m\<lparr>traced_attachments := traced_attachments m \<union> set (map rec_thread_id (thread_records fr)),
                 expanded := replicate (prepend_expanded_rows fr) False @ expanded m,
                 displayed_thread := (if clear_selected_thread fr then None else displayed_thread m)\<rparr>
      in emit m1
           (map PersistThreadRecord distinct_fresh @ (if daemon_refresh_due fr then [RefreshDaemonProjects] else []))
           ((if bridge_events_pending fr then [MessagesDiff [] [], ConnectionDirty []] else [])
            @ (if settings_reload_pending fr then [SettingsDirty] else [])) f)"

text \<open>A row of the list binds its thread: its id, and a session found in the background.\<close>

definition fold_list_row :: "visible_thread \<Rightarrow> frame_state \<Rightarrow> frame_state" where
  "fold_list_row row f =
     (case thread_at (fr_panel f) (real_index row) of
        None \<Rightarrow> f
      | Some t \<Rightarrow>
          (let tid = visible_id row;
               t1 = t\<lparr>thread_id := tid\<rparr>;
               binds = (session_id t = None \<and> visible_session row \<noteq> None);
               t2 = (if binds then t1\<lparr>session_id := visible_session row,
                        thread_state := (if agent_detected row = Some False then Stale else thread_state t1)\<rparr> else t1);
               m1 = set_thread (real_index row) t2 (fr_panel f);
               (m2, attach) = (if visible_session row \<noteq> None then end_attach tid m1 else (m1, []))
           in emit m2 (if binds then [PersistThread (real_index row)] else [])
                ((if binds then [ThreadRow tid, CapabilitiesDirty tid] else []) @ attach) f))"

fun hydrate_archived :: "bool list \<Rightarrow> thread list \<Rightarrow> thread list" where
  "hydrate_archived (a # as) (t # ts) = t\<lparr>archived := a\<rparr> # hydrate_archived as ts"
| "hydrate_archived as ts = ts"

text \<open>Where the selection goes when the list changed: the same thread by its key, else by the rule for its absence.\<close>

definition reanchored :: "thread_list_snapshot \<Rightarrow> string list \<Rightarrow> panel \<Rightarrow> nat" where
  "reanchored snap old_keys m =
     (case Option.bind (nth_opt old_keys (selected_thread m)) (\<lambda>i. position (\<lambda>k. k = i) (tls_visible_ids snap)) of
        Some k \<Rightarrow> k
      | None \<Rightarrow> if synced_project_path m \<noteq> tls_project_path snap then 0
                else min (selected_thread m) (length (tls_visible_ids snap) - 1))"

definition install_list :: "thread_list_snapshot \<Rightarrow> string list \<Rightarrow> panel \<Rightarrow> panel \<times> dirty list" where
  "install_list snap old_keys m =
     (let m1 = m\<lparr>visible_indices := tls_visible_indices snap, thread_rows := tls_rows snap\<rparr>;
          k = reanchored snap old_keys m;
          m2 = m1\<lparr>selected_thread := k, displayed_thread := (if tls_visible_ids snap = [] then None else displayed_thread m1)\<rparr>
      in (m2, ThreadListDiff (diff_ops old_keys (tls_visible_ids snap) (tls_rows snap))
            # (if k \<noteq> selected_thread m then [Scalar SelectedThreadField] else [])))"

definition frame_list :: "thread_list_snapshot \<Rightarrow> frame_state \<Rightarrow> frame_state" where
  "frame_list snap f =
     (let old_keys = thread_model_keys (fr_panel f);
          changed = (old_keys \<noteq> tls_visible_ids snap \<or> thread_rows (fr_panel f) \<noteq> tls_rows snap);
          f1 = fold fold_list_row (tls_rows snap) f;
          m1 = rebuild_thread_indices (fr_panel f1);
          m2 = m1\<lparr>threads := hydrate_archived (tls_archived snap) (threads m1), visible_list_synced := True\<rparr>;
          current = (tls_project_path snap = active_project_path m2);
          (m3, marks) = (if changed \<and> current then install_list snap old_keys m2 else (m2, []))
      in emit (if current then m3\<lparr>synced_project_path := tls_project_path snap\<rparr> else m3) [] marks f1)"

definition frame_catalog :: "gateway_catalog \<Rightarrow> frame_state \<Rightarrow> frame_state" where
  "frame_catalog cat f =
     (if catalog (fr_panel f) = cat then f else emit ((fr_panel f)\<lparr>catalog := cat\<rparr>) [] [SettingsDirty] f)"

definition frame_operations :: "frame_input \<Rightarrow> frame_state \<Rightarrow> frame_state" where
  "frame_operations fr f =
     (let m = fr_panel f;
          changes = filter id [agent_operations m \<noteq> frame_agent_operations fr, mcp_operations m \<noteq> frame_mcp_operations fr,
            recover_operations m \<noteq> frame_recover_operations fr]
      in emit (m\<lparr>agent_operations := frame_agent_operations fr, mcp_operations := frame_mcp_operations fr,
                 recover_operations := frame_recover_operations fr\<rparr>) [] (map (\<lambda>c. SettingsDirty) changes) f)"

definition frame_prefs :: "preferences \<Rightarrow> frame_state \<Rightarrow> frame_state" where
  "frame_prefs p f = (if prefs (fr_panel f) = p then f else emit ((fr_panel f)\<lparr>prefs := p\<rparr>) [] [SettingsDirty] f)"

definition frame_skills :: "skill_entry list \<Rightarrow> frame_state \<Rightarrow> frame_state" where
  "frame_skills entries f =
     (let m = fr_panel f
      in if skills m = entries then f
         else emit (m\<lparr>skills := entries\<rparr>) []
           [SkillsListDiff (diff_ops (map skill_path (skills m)) (map skill_path entries) entries)] f)"

section \<open>The snapshot of the selected thread\<close>

definition keeps_value :: "config_option list \<Rightarrow> config_option \<Rightarrow> config_option" where
  "keeps_value old opt =
     (case find (\<lambda>c. option_id c = option_id opt) old of
        None \<Rightarrow> opt
      | Some o' \<Rightarrow>
          (case current_value o' of
             None \<Rightarrow> opt
           | Some v \<Rightarrow> if list_ex (\<lambda>c. option_value c = v) (option_values opt) then opt\<lparr>current_value := Some v\<rparr> else opt))"

definition merge_config_options :: "config_option list \<Rightarrow> config_option list \<Rightarrow> config_option list" where
  "merge_config_options old new = map (keeps_value old) new"

text \<open>The expand flag a key had, and the flags carried over to new rows.\<close>

definition prior_flag :: "string list \<Rightarrow> message_row list \<Rightarrow> string \<Rightarrow> bool option" where
  "prior_flag old_keys old_rows key =
     map_option (\<lambda>p. row_expanded (snd p)) (find (\<lambda>p. fst p = key) (rev (zip old_keys old_rows)))"

definition merge_expanded_by_key ::
  "string list \<Rightarrow> message_row list \<Rightarrow> string list \<Rightarrow> message_row list \<Rightarrow> message_row list"
where
  "merge_expanded_by_key old_keys old_rows new_keys new_rows =
     map (\<lambda>(i, r). case Option.bind (nth_opt new_keys i) (prior_flag old_keys old_rows) of
            None \<Rightarrow> r | Some e \<Rightarrow> r\<lparr>row_expanded := e\<rparr>) (enumerate 0 new_rows)"

text \<open>Rows are reused when nothing that feeds them changed, and otherwise projected again.\<close>

definition snapshot_rows ::
  "panel_env \<Rightarrow> bool \<Rightarrow> bool list \<Rightarrow> message_row list option \<Rightarrow> thread_frame_snapshot \<Rightarrow> thread
    \<Rightarrow> message_row list \<times> string list"
where
  "snapshot_rows env switched ex views snap t =
     (let fresh = thread_rows_of env ex (t\<lparr>transcript := tfs_transcript snap\<rparr>);
          unchanged = (\<not> switched \<and> transcript t = tfs_transcript snap
            \<and> rows_synced_with t = Some (send_queue t, in_flight (thread_state t)))
      in if unchanged
         then case views of
                Some rows \<Rightarrow> if length rows = length (transcript_keys t) then (rows, transcript_keys t) else fresh
              | None \<Rightarrow> fresh
         else (merge_expanded_by_key (transcript_keys t) (value_or [] views) (snd fresh) (fst fresh), snd fresh))"

definition key_id :: "string \<Rightarrow> string option" where
  "key_id key = (case position (\<lambda>c. c = CHR '':'') key of None \<Rightarrow> None | Some k \<Rightarrow> Some (drop (Suc k) key))"

text \<open>The marks of a snapshot: each pane when it changed, all of them on a switch.\<close>

definition snapshot_marks ::
  "bool \<Rightarrow> message_row list \<Rightarrow> string list \<Rightarrow> thread_frame_snapshot \<Rightarrow> thread \<Rightarrow> dirty list"
where
  "snapshot_marks switched rows keys snap t =
     (let tid = thread_id t; old = surface t; new = tfs_surface snap
      in (if switched \<or> transcript_keys t \<noteq> keys \<or> transcript t \<noteq> tfs_transcript snap
          then [MessagesDiff tid (diff_ops (transcript_keys t) keys rows)] else [])
       @ (if switched \<or> pending_request old \<noteq> pending_request new then [PendingRequestDirty tid] else [])
       @ (if switched \<or> terminals old \<noteq> terminals new \<or> expanded_terminal old \<noteq> expanded_terminal new
            \<or> open_terminals old \<noteq> open_terminals new
          then [TerminalDirty (case expanded_terminal new of None \<Rightarrow> [] | Some e \<Rightarrow> terminal_item_id e)] else [])
       @ (if switched \<or> local_terminal old \<noteq> local_terminal new then [LocalTerminalDirty] else [])
       @ (if switched \<or> connection_status old \<noteq> connection_status new then [ConnectionDirty tid] else [])
       @ (if switched \<or> session_modes old \<noteq> session_modes new \<or> config_options t \<noteq> tfs_config_options snap
            \<or> usage old \<noteq> usage new \<or> plan old \<noteq> plan new \<or> session_title old \<noteq> session_title new
          then [CapabilitiesDirty tid] else []))"

definition snapshot_thread :: "string list \<Rightarrow> thread_frame_snapshot \<Rightarrow> thread \<Rightarrow> thread" where
  "snapshot_thread keys snap t =
     t\<lparr>rows_synced_with := Some (send_queue t, in_flight (thread_state t)), transcript := tfs_transcript snap,
       transcript_keys := keys, message_ids := List.map_filter key_id keys, surface := tfs_surface snap,
       config_options := merge_config_options (config_options t) (tfs_config_options snap)\<rparr>"

definition snapshot_target :: "thread_frame_snapshot \<Rightarrow> panel \<Rightarrow> nat option" where
  "snapshot_target snap m =
     (if tfs_thread_id snap = [] then Some (tfs_real_index snap) else thread_index_for_id m (tfs_thread_id snap))"

definition frame_selected :: "panel_env \<Rightarrow> thread_frame_snapshot \<Rightarrow> frame_state \<Rightarrow> frame_state" where
  "frame_selected env snap f =
     (let m = fr_panel f
      in case snapshot_target snap m of
           None \<Rightarrow> emit (m\<lparr>displayed_thread := None\<rparr>) [] [] f
         | Some i \<Rightarrow>
             (let matches = (Some i = selected_real_index m);
                  switched = (matches \<and> displayed_thread m \<noteq> Some i);
                  had_prior = (displayed_thread m \<noteq> None);
                  count = length (transcript_row_keys (tfs_transcript snap));
                  m1 = m\<lparr>displayed_thread := (if switched then Some i else displayed_thread m),
                         expanded := (if length (expanded m) < count then resized count (expanded m) else expanded m)\<rparr>
              in case thread_at m1 i of
                   None \<Rightarrow> emit m1 [] [] f
                 | Some t \<Rightarrow>
                     (let (rows, keys) = snapshot_rows env switched (expanded m1) (view_rows m1 (thread_id t)) snap t;
                          m2 = set_thread i (snapshot_thread keys snap t) m1;
                          m3 = (if matches then m2\<lparr>expanded := map row_expanded rows\<rparr> else m2)
                      in emit m3 []
                           (snapshot_marks switched rows keys snap t
                            @ (if switched \<and> had_prior then [ErrorDirty (thread_id t) (value_or [] (thread_error t))] else [])) f)))"

definition on_snapshot :: "('a \<Rightarrow> frame_state \<Rightarrow> frame_state) \<Rightarrow> 'a option \<Rightarrow> frame_state \<Rightarrow> frame_state" where
  "on_snapshot stage snap f = (case snap of None \<Rightarrow> f | Some s \<Rightarrow> stage s f)"

definition update_frame :: "panel_env \<Rightarrow> frame_input \<Rightarrow> panel \<Rightarrow> outcome" where
  "update_frame env fr m =
     (let f1 = frame_flags fr (fold_events env (bridge_events fr) m);
          f2 = on_snapshot frame_list (list_snapshot fr) f1;
          f3 = frame_operations fr (on_snapshot frame_catalog (catalog_snapshot fr) f2);
          f4 = on_snapshot frame_skills (skills_snapshot fr) (on_snapshot frame_prefs (prefs_snapshot fr) f3);
          f5 = on_snapshot (frame_selected env) (selected_snapshot fr) f4
      in (fr_panel f5, fr_effects f5, fr_marks f5))"

end
