(* ===== verification/PanelUpdate.thy ===== *)
theory PanelUpdate
  imports PanelFrame
begin

text \<open>
  The reducer as a whole: \<open>update\<close> of \<open>panel-rust/src/update.rs\<close>, and what it keeps true of the
  panel's state.
\<close>

fun update_ui :: "panel_env \<Rightarrow> ui_msg \<Rightarrow> panel \<Rightarrow> outcome" where
  "update_ui env (ThreadMsg msg) m = update_thread env msg m"
| "update_ui env (ComposeMsg msg) m = update_compose env msg m"
| "update_ui env (RequestMsg msg) m = update_request msg m"
| "update_ui env (TerminalMsg msg) m = update_terminal msg m"
| "update_ui env (SettingsMsg msg) m = update_settings msg m"
| "update_ui env (SkillMsg msg) m = update_skill msg m"
| "update_ui env (ChromeMsg msg) m = update_chrome env msg m"

fun update :: "panel_env \<Rightarrow> msg \<Rightarrow> panel \<Rightarrow> outcome" where
  "update env (UiEvent ui) m = update_ui env ui m"
| "update env (EffectResult r) m = update_effect env r m"
| "update env (HostEvent h) m = update_host env h m"
| "update env (Frame fr) m = update_frame env fr m"

end
