(* ===== verification/PanelTable.thy ===== *)
theory PanelTable
  imports PanelUpdate
begin

text \<open>
  What the reducer can do to the panel's threads, as a small transition system: a thread changes
  while it keeps its identity (its queue by an operation of the queue, never from closed to open),
  a new thread with an empty queue comes in at the end, ids are bound, a thread whose creation
  failed goes, or the state is hydrated.  Every step that changes an identity ends with rebuilt
  indices.  The reducer refines this system, and what the system keeps true the reducer keeps true.
\<close>

section \<open>The transition system\<close>

type_synonym thread_table = "thread list \<times> (string \<rightharpoonup> nat) \<times> (string \<rightharpoonup> nat)"

definition table :: "panel \<Rightarrow> thread_table" where
  "table m = (threads m, thread_id_index m, session_id_index m)"

definition indexed :: "thread list \<Rightarrow> thread_table" where
  "indexed ts = (ts, index_from durable_key 0 ts Map.empty, index_from session_key 0 ts Map.empty)"

definition thread_touch :: "thread \<Rightarrow> thread \<Rightarrow> bool" where
  "thread_touch t t' =
     (thread_id t' = thread_id t \<and> session_id t' = session_id t \<and> server_queue t' = server_queue t
      \<and> (closed t \<longrightarrow> closed t') \<and> (send_queue t' = send_queue t \<or> sq_step (send_queue t) (send_queue t')))"

definition thread_rebind :: "thread \<Rightarrow> thread \<Rightarrow> bool" where
  "thread_rebind t t' = (server_queue t' = server_queue t \<and> closed t' = closed t \<and> send_queue t' = send_queue t)"

inductive table_step :: "thread_table \<Rightarrow> thread_table \<Rightarrow> bool" where
  touched: "i < length ts \<Longrightarrow> thread_touch (ts ! i) t' \<Longrightarrow> table_step (ts, di, si) (ts[i := t'], di, si)"
| appended: "send_queue t = sq_new \<Longrightarrow> \<not> closed t \<Longrightarrow> table_step (ts, di, si) (indexed (ts @ [t]))"
| rebound: "list_all2 thread_rebind ts ts' \<Longrightarrow> table_step (ts, di, si) (indexed ts')"
| removed: "i < length ts \<Longrightarrow> table_step (ts, di, si) (indexed (remove_at i ts))"
| hydrated: "\<forall>q \<in> set (init_queues ini). sq_inv q \<Longrightarrow> table_step tab (table (from_initial_state env ini))"

abbreviation steps :: "panel \<Rightarrow> panel \<Rightarrow> bool" where
  "steps m m' \<equiv> table_step\<^sup>*\<^sup>* (table m) (table m')"

lemma table_frame [simp]:
  "table (m\<lparr>selected_thread := a1\<rparr>) = table m" "table (m\<lparr>compose_text := a2\<rparr>) = table m"
  "table (m\<lparr>search_query := a2\<rparr>) = table m" "table (m\<lparr>visible_indices := a3\<rparr>) = table m"
  "table (m\<lparr>expanded := a4\<rparr>) = table m" "table (m\<lparr>displayed_thread := a5\<rparr>) = table m"
  "table (m\<lparr>expanded_terminal_id := a6\<rparr>) = table m" "table (m\<lparr>open_terminal_ids := a7\<rparr>) = table m"
  "table (m\<lparr>active_project_path := a8\<rparr>) = table m" "table (m\<lparr>active_project := a9\<rparr>) = table m"
  "table (m\<lparr>project_generation := b1\<rparr>) = table m" "table (m\<lparr>project_lifecycle_reason := a2\<rparr>) = table m"
  "table (m\<lparr>synced_project_path := a8\<rparr>) = table m" "table (m\<lparr>live_daemon_projects := b2\<rparr>) = table m"
  "table (m\<lparr>traced_attachments := b3\<rparr>) = table m" "table (m\<lparr>appearance := b4\<rparr>) = table m"
  "table (m\<lparr>theme_variant := a2\<rparr>) = table m" "table (m\<lparr>language := a2\<rparr>) = table m"
  "table (m\<lparr>settings_open := b5\<rparr>) = table m" "table (m\<lparr>prefs := b6\<rparr>) = table m"
  "table (m\<lparr>catalog := b7\<rparr>) = table m" "table (m\<lparr>onboarding_completed := b5\<rparr>) = table m"
  "table (m\<lparr>agent_operations := a7\<rparr>) = table m" "table (m\<lparr>mcp_operations := a7\<rparr>) = table m"
  "table (m\<lparr>recover_operations := a7\<rparr>) = table m" "table (m\<lparr>visible_list_synced := b5\<rparr>) = table m"
  "table (m\<lparr>toast := b8\<rparr>) = table m" "table (m\<lparr>toast_seq := b9\<rparr>) = table m"
  "table (m\<lparr>provider_errors := c1\<rparr>) = table m" "table (m\<lparr>provider_probes := b3\<rparr>) = table m"
  "table (m\<lparr>first_attach := b3\<rparr>) = table m" "table (m\<lparr>skill_editor := c2\<rparr>) = table m"
  "table (m\<lparr>skill_saving := b5\<rparr>) = table m" "table (m\<lparr>active_pane := a2\<rparr>) = table m"
  "table (m\<lparr>skills := c3\<rparr>) = table m" "table (m\<lparr>thread_rows := c4\<rparr>) = table m"
  "table (m\<lparr>thread_model_keys := a7\<rparr>) = table m" "table (m\<lparr>view_rows := c5\<rparr>) = table m"
  "table (m\<lparr>disk := c6\<rparr>) = table m"
  by (simp_all add: table_def)

lemma thread_at_table: "table m = table m' \<Longrightarrow> thread_at m i = thread_at m' i"
  by (simp add: table_def thread_at_def)

lemma steps_touch: "thread_at m i = Some t \<Longrightarrow> thread_touch t t' \<Longrightarrow> steps m (set_thread i t' m)"
  by (rule r_into_rtranclp)
    (auto simp: table_def set_thread_def thread_at_def split: if_splits intro: table_step.touched)

lemma thread_at_set: "thread_at m i = Some t \<Longrightarrow> thread_at (set_thread i t' m) j = (if j = i then Some t' else thread_at m j)"
  by (auto simp: thread_at_def set_thread_def split: if_splits)

lemma set_thread_frame [simp]:
  "set_thread i t (m\<lparr>compose_text := a\<rparr>) = (set_thread i t m)\<lparr>compose_text := a\<rparr>"
  "set_thread i t (m\<lparr>disk := b\<rparr>) = (set_thread i t m)\<lparr>disk := b\<rparr>"
  by (simp_all add: set_thread_def)

lemma thread_at_frame [simp]:
  "thread_at (m\<lparr>compose_text := a2\<rparr>) i = thread_at m i" "thread_at (m\<lparr>disk := c6\<rparr>) i = thread_at m i"
  "thread_at (m\<lparr>displayed_thread := a5\<rparr>) i = thread_at m i" "thread_at (m\<lparr>selected_thread := a1\<rparr>) i = thread_at m i"
  "thread_at (m\<lparr>expanded := a4\<rparr>) i = thread_at m i" "thread_at (m\<lparr>visible_indices := a3\<rparr>) i = thread_at m i"
  "thread_at (m\<lparr>thread_rows := c4\<rparr>) i = thread_at m i" "thread_at (m\<lparr>search_query := a2\<rparr>) i = thread_at m i"
  by (simp_all add: thread_at_def)

lemma steps_push: "send_queue t = sq_new \<Longrightarrow> \<not> closed t \<Longrightarrow> steps m (push_thread t m)"
  by (rule r_into_rtranclp)
    (auto simp: table_def push_thread_def rebuild_thread_indices_def intro: table_step.appended [unfolded indexed_def])

lemma table_list_dirty [simp]: "table (fst (thread_list_dirty_with_keys env old_keys m)) = table m"
  by (simp add: thread_list_dirty_with_keys_def Let_def)

lemma thread_touch_refl [simp]: "thread_touch t t"
  by (simp add: thread_touch_def)

text \<open>Steps in a row.\<close>

lemma steps_via: "table m1 = table m \<Longrightarrow> steps m1 m' \<Longrightarrow> steps m m'"
  by simp

lemma leave_steps: "steps m (leave_thread prev m)"
proof (cases "Option.bind prev (thread_at m)")
  case None
  then show ?thesis by (cases prev) (simp_all add: leave_thread_def)
next
  case (Some t)
  then obtain p where p: "prev = Some p" "thread_at m p = Some t" by (cases prev) auto
  then show ?thesis by (simp add: leave_thread_def steps_touch [OF p(2)] thread_touch_def)
qed

lemma read_steps: "steps m (fst (mark_read target m))"
  by (auto simp: mark_read_def thread_touch_def intro!: steps_touch split: option.split)

lemma switch_steps: "steps m (fst (apply_thread_selection_switch m))"
proof (cases "displayed_thread m = selected_real_index m")
  case True
  then show ?thesis by (simp add: apply_thread_selection_switch_def Let_def)
next
  case False
  let ?m1 = "enter_thread (selected_real_index m) (leave_thread (displayed_thread m) m)"
  have 1: "steps m ?m1" using leave_steps [of m "displayed_thread m"] by (simp add: enter_thread_def)
  have 2: "fst (apply_thread_selection_switch m) = fst (mark_read (selected_real_index m) ?m1)"
    using False by (simp add: apply_thread_selection_switch_def Let_def case_prod_beta)
  show ?thesis
    unfolding 2 by (rule rtranclp_trans [OF 1 read_steps])
qed

section \<open>Thread messages\<close>

lemma new_thread_steps: "steps m (fst (update_new_thread env m))"
proof -
  let ?m1 = "m\<lparr>compose_text := [], search_query := []\<rparr>"
  let ?t = "new_thread_row env m"
  let ?m2 = "fst (thread_list_dirty_with_keys env (current_visible_keys m) (push_thread ?t ?m1))"
  have "send_queue ?t = sq_new" "\<not> closed ?t"
    by (simp_all add: new_thread_row_def default_thread_def Let_def)
  then have 1: "steps m ?m2" using steps_push [of ?t ?m1] by simp
  have "fst (update_new_thread env m) = ?m2
      \<or> (\<exists>k. fst (update_new_thread env m) = fst (apply_thread_selection_switch (?m2\<lparr>selected_thread := k\<rparr>)))"
    by (auto simp: update_new_thread_def Let_def case_prod_beta split: option.split)
  then show ?thesis
  proof
    assume "fst (update_new_thread env m) = ?m2"
    with 1 show ?thesis by simp
  next
    assume "\<exists>k. fst (update_new_thread env m) = fst (apply_thread_selection_switch (?m2\<lparr>selected_thread := k\<rparr>))"
    then obtain k where k: "fst (update_new_thread env m) = fst (apply_thread_selection_switch (?m2\<lparr>selected_thread := k\<rparr>))" ..
    have "steps (?m2\<lparr>selected_thread := k\<rparr>) (fst (update_new_thread env m))" unfolding k by (rule switch_steps)
    with 1 show ?thesis by (auto intro: rtranclp_trans)
  qed
qed

lemma new_resolved_steps: "steps m (fst (update_new_resolved env name prov profile permission session tid m))"
  unfolding update_new_resolved_def nothing_def
  by (auto simp: Let_def case_prod_beta default_thread_def intro!: steps_via [OF _ steps_push])

lemma recover_steps: "steps m (fst (update_recover_session env session prov ttl tid m))"
  unfolding update_recover_session_def
  by (auto simp: Let_def case_prod_beta default_thread_def intro!: steps_via [OF _ steps_push])

lemma select_steps: "steps m (fst (apply_thread_selection_switch (m\<lparr>selected_thread := k\<rparr>)))"
  by (rule steps_via [OF _ switch_steps]) simp

lemma archive_steps: "steps m (fst (update_archive i m))"
proof (cases "thread_at m i")
  case None
  then show ?thesis by (simp add: update_archive_def nothing_def)
next
  case (Some t)
  define t' where "t' = t\<lparr>archived := \<not> archived t,
    thread_state := (if \<not> archived t \<and> thread_state t = Loading then Cancelling else thread_state t)\<rparr>"
  have touch: "steps m (set_thread i t' m)"
    using Some by (rule steps_touch) (simp add: t'_def thread_touch_def)
  have drop: "steps m1 (fst (drop_oldest_archived i m1))" for m1
    by (auto simp: drop_oldest_archived_def nothing_def thread_touch_def intro!: steps_touch split: option.split)
  have "fst (update_archive i m) = (if archived t then set_thread i t' m else fst (drop_oldest_archived i (set_thread i t' m)))"
    using Some by (simp add: update_archive_def t'_def Let_def nothing_def case_prod_beta)
  with touch drop [of "set_thread i t' m"] show ?thesis by (auto intro: rtranclp_trans)
qed

lemma thread_steps: "steps m (fst (update_thread env msg m))"
proof (cases msg)
  case NewThread
  then show ?thesis by (simp add: new_thread_steps)
next
  case (NewResolved name prov profile permission session tid)
  then show ?thesis by (simp add: new_resolved_steps)
next
  case (Selected i)
  then show ?thesis by (simp add: update_selected_def nothing_def select_steps)
next
  case (NavigateDelta d)
  then show ?thesis by (simp add: update_navigate_def nothing_def select_steps)
next
  case (ArchiveRequested i)
  then show ?thesis by (simp add: archive_steps)
next
  case (RecoverSession session prov ttl tid)
  then show ?thesis by (simp add: recover_steps)
qed (auto simp: update_close_def update_delete_def update_rename_def update_toggle_background_def nothing_def
  thread_touch_def Let_def case_prod_beta intro!: steps_touch split: option.split)

section \<open>Compose messages\<close>

lemma project_rows_thread: "\<exists>keys. fst (project_rows env ex t) = t\<lparr>transcript_keys := keys\<rparr>"
  by (auto simp: project_rows_def Let_def case_prod_beta)

lemma project_touch: "thread_touch t t' \<Longrightarrow> thread_touch t (fst (project_rows env ex t'))"
  using project_rows_thread [of env ex t'] by (auto simp: thread_touch_def)

lemma projection_steps: "steps m (fst (rebuild_send_queue_projection env i m))"
  by (auto simp: rebuild_send_queue_projection_def Let_def case_prod_beta intro!: steps_touch project_touch split: option.split)

lemma touch_queue: "sq_step (send_queue t) q \<Longrightarrow> thread_touch t (t\<lparr>send_queue := q\<rparr>)"
  by (simp add: thread_touch_def)

lemma queue_then_project:
  assumes "thread_at m i = Some t" "thread_touch t t'" "table m1 = table (set_thread i t' m)"
  shows "steps m (fst (rebuild_send_queue_projection env i m1))"
  by (rule rtranclp_trans [OF steps_touch [OF assms(1,2), folded assms(3)] projection_steps])

lemma sq_step_of:
  "sq_enqueue ser outcome s st q fs = (q', r) \<Longrightarrow> sq_step q q'"
  "sq_remove ser outcome i q fs = (q', r2) \<Longrightarrow> sq_step q q'"
  "send_now ser outcome i g q fs = (q', r2) \<Longrightarrow> sq_step q q'"
  "try_fast_track ser outcome g q fs = (q', r2) \<Longrightarrow> sq_step q q'"
  "on_generation_stopped ser outcome g q fs = (q', r2) \<Longrightarrow> sq_step q q'"
  by (metis fst_conv sq_step.intros)+

lemma send_queued_steps:
  assumes "thread_at m i = Some t"
  shows "steps m (fst (update_send_queued env i s t m))"
proof -
  obtain q fs r where q: "sq_enqueue (env_ser env) (env_disk env) s False (send_queue t) (disk m) = (q, fs, r)"
    by (cases "sq_enqueue (env_ser env) (env_disk env) s False (send_queue t) (disk m)") auto
  from touch_queue [OF sq_step_of(1) [OF this]] have touch: "thread_touch t (t\<lparr>send_queue := q\<rparr>)" .
  show ?thesis
  proof (cases r)
    case (Inl e)
    have "thread_touch t (t\<lparr>send_queue := q, thread_error := Some (env_io_error env e), thread_state := ErrorState\<rparr>)"
      using touch by (simp add: thread_touch_def)
    from steps_touch [OF assms this] show ?thesis by (simp add: update_send_queued_def q Inl)
  next
    case (Inr entry)
    from steps_touch [OF assms project_touch [OF touch]] show ?thesis
      by (simp add: update_send_queued_def q Inr Let_def case_prod_beta)
  qed
qed

lemma dispatch_steps:
  assumes "thread_at m0 i = Some t0" "thread_touch t0 (t\<lparr>thread_error := None, thread_state := Loading\<rparr>)"
    and "table m = table m0"
  shows "steps m0 (fst (dispatch_entry env i g t entry m))"
proof -
  have "thread_at m i = Some t0" using assms(1,3) thread_at_table by metis
  from queue_then_project [OF this assms(2) refl] show ?thesis
    using assms(3) by (simp add: dispatch_entry_def Let_def case_prod_beta)
qed

lemma failed_steps:
  assumes "thread_at m i = Some t" "thread_touch t t'" "table m1 = table m"
  shows "steps m (fst (fail_thread i t' message m1))"
proof -
  have "thread_at m1 i = Some t" using assms(1,3) thread_at_table by metis
  moreover have "thread_touch t (t'\<lparr>thread_error := Some message\<rparr>)" using assms(2) by (simp add: thread_touch_def)
  ultimately show ?thesis using steps_touch [of m1 i t] assms(3) by (simp add: fail_thread_def)
qed

lemma queue_cancel_steps: "steps m (fst (update_queue_cancel env i k m))"
proof (cases "thread_at m i")
  case (Some t)
  show ?thesis
  proof (cases "queue_entry_id_at t k")
    case (Some entry)
    obtain q fs r where q: "sq_remove (env_ser env) (env_disk env) entry (send_queue t) (disk m) = (q, fs, r)"
      by (cases "sq_remove (env_ser env) (env_disk env) entry (send_queue t) (disk m)") auto
    note touch = touch_queue [OF sq_step_of(2) [OF q]]
    show ?thesis
      using \<open>thread_at m i = Some t\<close> Some steps_touch [OF \<open>thread_at m i = Some t\<close> touch]
        queue_then_project [OF \<open>thread_at m i = Some t\<close> touch] failed_steps [OF \<open>thread_at m i = Some t\<close> touch]
      by (auto simp: update_queue_cancel_def q nothing_def Let_def case_prod_beta split: option.split sum.split)
  qed (simp add: update_queue_cancel_def \<open>thread_at m i = Some t\<close> nothing_def)
qed (simp add: update_queue_cancel_def nothing_def)

lemma queue_edit_steps: "steps m (fst (update_queue_edit env i k m))"
proof (cases "thread_at m i")
  case (Some t)
  show ?thesis
  proof (cases "queue_entry_id_at t k")
    case (Some entry)
    obtain q fs r where q: "sq_remove (env_ser env) (env_disk env) entry (send_queue t) (disk m) = (q, fs, r)"
      by (cases "sq_remove (env_ser env) (env_disk env) entry (send_queue t) (disk m)") auto
    note touch = touch_queue [OF sq_step_of(2) [OF q]]
    show ?thesis
      using \<open>thread_at m i = Some t\<close> Some steps_touch [OF \<open>thread_at m i = Some t\<close> touch]
        queue_then_project [OF \<open>thread_at m i = Some t\<close> touch] failed_steps [OF \<open>thread_at m i = Some t\<close> touch]
      by (auto simp: update_queue_edit_def q nothing_def Let_def case_prod_beta split: option.split sum.split)
  qed (simp add: update_queue_edit_def \<open>thread_at m i = Some t\<close> nothing_def)
qed (simp add: update_queue_edit_def nothing_def)

lemma touch_dispatched: "thread_touch t t' \<Longrightarrow> thread_touch t (t'\<lparr>thread_error := None, thread_state := Loading\<rparr>)"
  by (simp add: thread_touch_def)

lemma queue_send_now_steps: "steps m (fst (update_queue_send_now env i k m))"
proof (cases "thread_at m i")
  case (Some t)
  show ?thesis
  proof (cases "queue_entry_id_at t k")
    case (Some entry)
    obtain q fs r where q: "send_now (env_ser env) (env_disk env) entry (in_flight (thread_state t)) (send_queue t) (disk m) = (q, fs, r)"
      by (cases "send_now (env_ser env) (env_disk env) entry (in_flight (thread_state t)) (send_queue t) (disk m)") auto
    note touch = touch_queue [OF sq_step_of(3) [OF q]]
    show ?thesis
      using \<open>thread_at m i = Some t\<close> Some steps_touch [OF \<open>thread_at m i = Some t\<close> touch]
        dispatch_steps [OF \<open>thread_at m i = Some t\<close> touch_dispatched [OF touch]] failed_steps [OF \<open>thread_at m i = Some t\<close> touch]
      by (auto simp: update_queue_send_now_def q nothing_def split: option.split sum.split)
  qed (simp add: update_queue_send_now_def \<open>thread_at m i = Some t\<close> nothing_def)
qed (simp add: update_queue_send_now_def nothing_def)

lemma queue_fast_track_steps: "steps m (fst (update_queue_fast_track env i m))"
proof (cases "thread_at m i")
  case (Some t)
  obtain q fs r where q: "try_fast_track (env_ser env) (env_disk env) (in_flight (thread_state t)) (send_queue t) (disk m) = (q, fs, r)"
    by (cases "try_fast_track (env_ser env) (env_disk env) (in_flight (thread_state t)) (send_queue t) (disk m)") auto
  note touch = touch_queue [OF sq_step_of(4) [OF q]]
  show ?thesis
    using Some steps_touch [OF Some touch] dispatch_steps [OF Some touch_dispatched [OF touch]] failed_steps [OF Some touch]
    by (auto simp: update_queue_fast_track_def q nothing_def split: option.split sum.split)
qed (simp add: update_queue_fast_track_def nothing_def)

lemma send_requested_steps: "steps m (fst (update_send_requested env i s m))"
proof (cases "thread_at m i")
  case (Some t)
  then have "steps (m\<lparr>compose_text := []\<rparr>) (fst (update_send_queued env i s t (m\<lparr>compose_text := []\<rparr>)))"
    by (intro send_queued_steps) simp
  moreover have "steps m (fst (update_send_now_idle env i s t (m\<lparr>compose_text := []\<rparr>)))"
    using Some sq_step.resumed [of "send_queue t"]
    by (auto simp: update_send_now_idle_def Let_def thread_touch_def intro!: steps_touch)
  ultimately show ?thesis using Some by (simp add: update_send_requested_def Let_def)
qed (simp add: update_send_requested_def nothing_def)

lemma compose_steps: "steps m (fst (update_compose env msg m))"
proof (cases "selected_real_index m")
  case (Some i)
  have "steps m (fst (compose_at env i msg m))"
    by (cases msg)
      (auto simp: send_requested_steps queue_cancel_steps queue_edit_steps queue_send_now_steps queue_fast_track_steps
        update_draft_changed_def update_stop_def update_generation_stopped_def nothing_def thread_touch_def
        sq_step.paused intro!: steps_touch split: option.split)
  with Some show ?thesis by (simp add: update_compose_def)
qed (simp add: update_compose_def nothing_def)

section \<open>The other messages of the view and the host\<close>

lemma request_steps: "fst (update_request msg m) = m"
  by (cases msg) (simp_all add: update_request_def nothing_def split: option.split)

lemma terminal_steps: "table (fst (update_terminal msg m)) = table m"
  by (cases msg) (auto simp: update_expand_terminal_def update_select_tab_def update_close_tab_def
    update_close_overlay_def nothing_def Let_def split: option.split)

lemma settings_steps: "steps m (fst (update_settings msg m))"
  by (cases msg) (auto simp: update_settings_save_def update_config_option_def update_profile_selected_def thread_call_def
    granting_call_def show_toast_def nothing_def thread_touch_def Let_def intro!: steps_touch split: option.split)

lemma skill_steps: "table (fst (update_skill msg m)) = table m"
  by (cases msg) (simp_all add: show_toast_def)

lemma chrome_steps: "steps m (fst (update_chrome env msg m))"
  by (cases msg) (auto simp: update_search_def update_toggle_expanded_def update_banner_dismissed_def nothing_def
    thread_touch_def Let_def case_prod_beta intro!: steps_touch split: option.split)

lemma host_steps: "steps m (fst (update_host env msg m))"
proof (cases msg)
  case (InvokeCommand c)
  then show ?thesis using thread_steps [of m env] by (simp add: nothing_def del: update_thread.simps)
qed (simp_all add: update_project_path_def update_project_closed_def update_project_renamed_def lifecycle_def Let_def)

section \<open>Results of effects\<close>

lemma table_rebuild: "table (rebuild_thread_indices m) = indexed (threads m)"
  by (simp add: table_def indexed_def rebuild_thread_indices_def)

lemma rebuild_steps: "list_all2 thread_rebind (threads m) (threads m') \<Longrightarrow> steps m (rebuild_thread_indices m')"
  unfolding table_rebuild by (rule r_into_rtranclp) (auto simp: table_def intro: table_step.rebound)

lemma rebind_refl: "list_all2 thread_rebind ts ts"
  by (auto simp: list_all2_conv_all_nth thread_rebind_def)

lemma rebind_set: "thread_at m i = Some t \<Longrightarrow> thread_rebind t t' \<Longrightarrow> list_all2 thread_rebind (threads m) (threads (set_thread i t' m))"
  by (auto simp: list_all2_conv_all_nth set_thread_def thread_at_def nth_list_update thread_rebind_def split: if_splits)

lemma rebind_trans: "list_all2 thread_rebind as bs \<Longrightarrow> list_all2 thread_rebind bs cs \<Longrightarrow> list_all2 thread_rebind as cs"
  by (auto simp: list_all2_conv_all_nth thread_rebind_def)

lemma end_attach_table: "table (fst (end_attach tid m)) = table m"
  by (simp add: end_attach_def)

lemma session_attached_steps: "steps m (fst (result_session_attached i tid prov r m))"
proof (cases "thread_at m i")
  case (Some t)
  show ?thesis
  proof (cases r)
    case (Inr session)
    with Some show ?thesis
      by (auto simp: result_session_attached_def Let_def thread_rebind_def intro!: rebuild_steps rebind_set)
  next
    case (Inl err)
    have "thread_touch t (t\<lparr>thread_state := ErrorState, thread_error := x\<rparr>)" for x by (simp add: thread_touch_def)
    from steps_touch [OF Some this] Inl Some show ?thesis
      by (simp add: result_session_attached_def Let_def case_prod_beta end_attach_table)
  qed
qed (simp add: result_session_attached_def nothing_def)

lemma creation_failed_steps: "steps m (fst (result_creation_failed env i message m))"
proof (cases "length (threads m) \<le> i")
  case False
  let ?m1 = "rebuild_thread_indices (m\<lparr>threads := remove_at i (threads m)\<rparr>)"
  have 1: "steps m ?m1"
    using False unfolding table_rebuild by (intro r_into_rtranclp) (auto simp: table_def intro: table_step.removed)
  have "table (fst (result_creation_failed env i message m)) = table ?m1"
    using False by (simp add: result_creation_failed_def Let_def case_prod_beta)
  with 1 show ?thesis by simp
qed (simp add: result_creation_failed_def nothing_def)

text \<open>Hydration brings queues that were loaded from their files.\<close>

definition hydrates_loaded :: "effect_result \<Rightarrow> bool" where
  "hydrates_loaded r =
     (case r of InitialStateLoaded (Inr ini) \<Rightarrow> (\<forall>q \<in> set (init_queues ini). sq_inv q) | _ \<Rightarrow> True)"

lemma initial_state_steps:
  assumes "\<forall>q \<in> set (init_queues ini). sq_inv q"
  shows "steps m (fst (result_initial_state env ini m))"
proof -
  have "table (fst (result_initial_state env ini m)) = table (from_initial_state env ini)"
    by (simp add: result_initial_state_def Let_def case_prod_beta)
  then show ?thesis by (metis assms r_into_rtranclp table_step.hydrated)
qed

lemma effect_steps:
  assumes "hydrates_loaded r"
  shows "steps m (fst (update_effect env r m))"
proof (cases "(env, r, m)" rule: update_effect.cases)
  case (1 env' ini m')
  then show ?thesis using initial_state_steps assms by (simp add: hydrates_loaded_def)
next
  case (7 env' i tid prov r' m')
  then show ?thesis using session_attached_steps by simp
next
  case (10 env' i message m')
  then show ?thesis using creation_failed_steps by simp
qed (auto simp: failed_def nothing_def result_persisted_def result_probe_skipped_def result_skill_written_def
  result_action_def result_editor_loaded_def result_stream_delta_def result_prompt_sent_def result_settings_saved_def
  result_operation_def result_projects_loaded_def toasted_def show_toast_def thread_touch_def Let_def
  intro!: steps_touch split: option.split sum.split)

section \<open>The frame\<close>

lemma message_touch: "thread_touch t (fst (event_message env shown marks msg t))"
proof -
  have "sq_step (send_queue t) (snd (dequeue_matching_remote_message (cm_text msg) (send_queue t)))"
    by (rule sq_step.dequeued)
  then show ?thesis
    by (auto simp: event_message_def event_message_id_def thread_touch_def Let_def split: option.split)
qed

lemma queue_changed_touch: "thread_touch t (fst (event_queue_changed env ex items paused t))"
proof -
  obtain d q where q: "replace_remote_items (map (\<lambda>i. (info_entry_id i, info_text i)) items) paused (send_queue t) = (d, q)"
    by fastforce
  then have step: "sq_step (send_queue t) q" by (metis snd_conv sq_step.merged)
  show ?thesis
    using project_rows_thread [of env ex "t\<lparr>send_queue := q\<rparr>"]
      project_rows_thread [of env ex "t\<lparr>send_queue := q, thread_state := Loading, thread_error := None\<rparr>"] step
    by (auto simp: event_queue_changed_def q thread_touch_def Let_def case_prod_beta)
qed

lemma turn_ended_touch: "thread_touch t (fst (fst (event_turn_ended env fs reason t)))"
proof -
  have "sq_step (send_queue t) q" if "on_generation_stopped (env_ser env) (env_disk env) False (send_queue t) fs = (q, r)" for q r
    using that by (rule sq_step_of(5))
  then show ?thesis
    by (auto simp: event_turn_ended_def thread_touch_def Let_def split: prod.split sum.split option.split)
qed

lemma event_steps:
  assumes "thread_at (fr_panel f) i = Some t"
  shows "steps (fr_panel f) (fr_panel (event_at_thread env shown i t ev f))"
  using assms
proof (cases ev)
  case (AgentMessage msg)
  with steps_touch [OF assms message_touch] show ?thesis by (simp add: emit_def Let_def case_prod_beta)
next
  case (QueueChanged items paused)
  with steps_touch [OF assms queue_changed_touch] show ?thesis by (simp add: emit_def Let_def case_prod_beta)
next
  case (TurnEnded reason)
  with steps_touch [OF assms turn_ended_touch] show ?thesis by (simp add: emit_def Let_def case_prod_beta)
next
  case (AgentError err)
  have "thread_touch t (fst (event_error err t))" by (simp add: event_error_def thread_touch_def Let_def)
  from steps_touch [OF assms this] AgentError show ?thesis
    by (simp add: emit_def Let_def case_prod_beta end_attach_table)
next
  case (ProviderProbe prov r)
  then show ?thesis
    by (auto simp: emit_def event_provider_probe_def show_toast_def Let_def split: sum.split)
qed (auto simp: emit_def)

lemma fold_event_steps: "steps (fr_panel f) (fr_panel (fold_event env shown ev f))"
  by (auto simp: fold_event_def intro: event_steps split: option.split)

lemma fold_steps:
  assumes "\<And>x f. steps (fr_panel f) (fr_panel (g x f))"
  shows "steps (fr_panel f) (fr_panel (fold g xs f))"
proof (induction xs arbitrary: f)
  case (Cons x xs)
  show ?case using rtranclp_trans [OF assms Cons.IH, of f x] by simp
qed simp

lemma fold_events_steps: "steps m (fr_panel (fold_events env evs m))"
  using fold_steps [of "fold_event env (displayed_thread m)", OF fold_event_steps,
      of "\<lparr>fr_panel = m, fr_effects = [], fr_marks = [], fr_unread = []\<rparr>" evs]
  by (simp add: fold_events_def Let_def)

lemma list_row_rebind:
  "list_all2 thread_rebind (threads (fr_panel f)) (threads (fr_panel (fold_list_row row f)))"
proof (cases "thread_at (fr_panel f) (real_index row)")
  case None
  then show ?thesis by (simp add: fold_list_row_def rebind_refl)
next
  case (Some t)
  have "list_all2 thread_rebind (threads (fr_panel f)) (threads (set_thread (real_index row) t' (fr_panel f)))"
    if "thread_rebind t t'" for t' using rebind_set [OF Some that] .
  then show ?thesis
    using Some by (auto simp: fold_list_row_def emit_def end_attach_def thread_rebind_def Let_def case_prod_beta)
qed

lemma list_rows_rebind:
  "list_all2 thread_rebind (threads (fr_panel f)) (threads (fr_panel (fold fold_list_row rows f)))"
proof (induction rows arbitrary: f)
  case (Cons row rows)
  show ?case using rebind_trans [OF list_row_rebind Cons.IH, of f row] by simp
qed (simp add: rebind_refl)

lemma index_from_same_ids:
  "map f ts = map f ts' \<Longrightarrow> index_from f i ts index = index_from f i ts' index"
proof (induction ts arbitrary: ts' i index)
  case (Cons t ts)
  then obtain t' us where us: "ts' = t' # us" "f t' = f t" "map f ts = map f us" by (cases ts') auto
  show ?case unfolding us(1) index_from.simps us(2) by (rule Cons.IH [OF us(3)])
qed simp

lemma indexed_same_ids:
  "map durable_key ts = map durable_key ts' \<Longrightarrow> map session_key ts = map session_key ts' \<Longrightarrow>
   indexed ts' = (ts', snd (indexed ts))"
  by (simp add: indexed_def index_from_same_ids [of durable_key ts ts'] index_from_same_ids [of session_key ts ts'])

lemma hydrate_archived_keeps:
  "list_all2 thread_rebind ts (hydrate_archived as ts)
   \<and> map durable_key ts = map durable_key (hydrate_archived as ts) \<and> map session_key ts = map session_key (hydrate_archived as ts)"
proof (induction as ts rule: hydrate_archived.induct)
  case (1 a as t ts)
  have "thread_rebind t (t\<lparr>archived := a\<rparr>)" by (simp add: thread_rebind_def)
  with 1 show ?case by (simp add: durable_key_def session_key_def)
qed (simp_all add: rebind_refl)

lemma list_steps: "steps (fr_panel f) (fr_panel (frame_list snap f))"
proof -
  let ?f1 = "fold fold_list_row (tls_rows snap) f"
  let ?m1 = "rebuild_thread_indices (fr_panel ?f1)"
  let ?ts = "hydrate_archived (tls_archived snap) (threads ?m1)"
  have ts: "threads ?m1 = threads (fr_panel ?f1)" by (simp add: rebuild_thread_indices_def)
  have "list_all2 thread_rebind (threads (fr_panel f)) ?ts"
    unfolding ts by (rule rebind_trans [OF list_rows_rebind hydrate_archived_keeps [THEN conjunct1]])
  then have "table_step (table (fr_panel f)) (indexed ?ts)" by (simp add: table_def table_step.rebound)
  moreover have "indexed ?ts = (?ts, snd (table ?m1))"
    using indexed_same_ids [of "threads ?m1" ?ts] hydrate_archived_keeps [of "threads ?m1" "tls_archived snap"]
    unfolding table_rebuild ts by simp
  moreover have "table (fr_panel (frame_list snap f)) = (?ts, snd (table ?m1))"
    by (simp add: frame_list_def install_list_def emit_def Let_def case_prod_beta) (simp add: table_def)
  ultimately show ?thesis by auto
qed

lemma snapshot_touch: "thread_touch t (snapshot_thread keys snap t)"
  by (simp add: snapshot_thread_def thread_touch_def)

lemma selected_steps: "steps (fr_panel f) (fr_panel (frame_selected env snap f))"
proof (cases "snapshot_target snap (fr_panel f)")
  case None
  then show ?thesis by (simp add: frame_selected_def emit_def Let_def)
next
  case (Some i)
  let ?m = "fr_panel f"
  show ?thesis
  proof (cases "thread_at ?m i")
    case None
    with Some show ?thesis by (simp add: frame_selected_def emit_def Let_def)
  next
    case (Some t)
    have "steps ?m (set_thread i (snapshot_thread keys snap t) m1)" if "table m1 = table ?m" for m1 keys
      using steps_touch [of m1 i t, OF _ snapshot_touch] thread_at_table [OF that] Some that by simp
    with \<open>snapshot_target snap ?m = Some i\<close> Some show ?thesis
      by (auto simp: frame_selected_def emit_def Let_def case_prod_beta)
  qed
qed

lemma stage_steps: "(\<And>s f. steps (fr_panel f) (fr_panel (stage s f))) \<Longrightarrow> steps (fr_panel f) (fr_panel (on_snapshot stage snap f))"
  by (simp add: on_snapshot_def split: option.split)

lemma frame_steps: "steps m (fst (update_frame env fr m))"
proof -
  have flags: "steps (fr_panel f) (fr_panel (frame_flags fr f))" for f
    by (simp add: frame_flags_def emit_def Let_def)
  have cat: "steps (fr_panel f) (fr_panel (frame_catalog c f))" for c f by (simp add: frame_catalog_def emit_def)
  have ops: "steps (fr_panel f) (fr_panel (frame_operations fr f))" for f by (simp add: frame_operations_def emit_def Let_def)
  have prefs: "steps (fr_panel f) (fr_panel (frame_prefs c f))" for c f by (simp add: frame_prefs_def emit_def)
  have skills: "steps (fr_panel f) (fr_panel (frame_skills c f))" for c f by (simp add: frame_skills_def emit_def Let_def)
  show ?thesis
    unfolding update_frame_def Let_def fst_conv
    by (rule rtranclp_trans [OF _ stage_steps [OF selected_steps]] rtranclp_trans [OF _ stage_steps [OF skills]]
        rtranclp_trans [OF _ stage_steps [OF prefs]] rtranclp_trans [OF _ ops] rtranclp_trans [OF _ stage_steps [OF cat]]
        rtranclp_trans [OF _ stage_steps [OF list_steps]] rtranclp_trans [OF fold_events_steps flags])+
qed

section \<open>The reducer refines the transition system\<close>

definition hydration_ok :: "msg \<Rightarrow> bool" where
  "hydration_ok msg = (case msg of EffectResult r \<Rightarrow> hydrates_loaded r | _ \<Rightarrow> True)"

lemma update_steps:
  assumes "hydration_ok msg"
  shows "steps m (fst (update env msg m))"
proof (cases msg)
  case (UiEvent ui)
  then show ?thesis
    by (cases ui) (simp_all add: thread_steps compose_steps request_steps terminal_steps settings_steps skill_steps chrome_steps)
next
  case (EffectResult r)
  with assms show ?thesis by (simp add: hydration_ok_def effect_steps)
qed (simp_all add: host_steps frame_steps)

text \<open>
  C1. Whatever message the reducer handles, from the view, the host, a finished effect or a
  frame, its change of the panel's threads is a sequence of steps of the transition system.
\<close>
theorem reducer_refines_table:
  "hydration_ok msg \<Longrightarrow> table_step\<^sup>*\<^sup>* (table m) (table (fst (update env msg m)))"
  by (rule update_steps)

definition sample_env :: panel_env where
  "sample_env = \<lparr>env_now = 0, env_uuid = ''u'', env_lower = to_ascii_lowercase, env_upper = id, env_parse = (\<lambda>s. None),
     env_ser = p_text, env_disk = Written, env_io_error = (\<lambda>e. ''error'')\<rparr>"

theorem reducer_refines_table_witness:
  "table_step\<^sup>*\<^sup>* (table default_panel) (table (fst (update sample_env (UiEvent (ThreadMsg NewThread)) default_panel)))"
  by (rule reducer_refines_table) (simp add: hydration_ok_def)

section \<open>What the steps keep\<close>

definition indices_fresh :: "thread_table \<Rightarrow> bool" where
  "indices_fresh tab = (tab = indexed (fst tab))"

definition queues_ok :: "thread_table \<Rightarrow> bool" where
  "queues_ok tab = (\<forall>t \<in> set (fst tab). sq_inv (send_queue t))"

lemma indexed_fst [simp]: "fst (indexed ts) = ts"
  by (simp add: indexed_def)

lemma fresh_indexed [simp]: "indices_fresh (indexed ts)"
  by (simp add: indices_fresh_def)

lemma hydrated_indexed: "\<exists>ts. table (from_initial_state env ini) = indexed ts"
  unfolding from_initial_state_def Let_def table_rebuild by blast

lemma map_update_same: "i < length ts \<Longrightarrow> f t' = f (ts ! i) \<Longrightarrow> map f (ts[i := t']) = map f ts"
  by (metis list_update_id map_update nth_map)

lemma step_fresh: "table_step tab tab' \<Longrightarrow> indices_fresh tab \<Longrightarrow> indices_fresh tab'"
proof (induction rule: table_step.induct)
  case (touched i ts t' di si)
  have "map durable_key ts = map durable_key (ts[i := t'])" "map session_key ts = map session_key (ts[i := t'])"
    using touched(1,2) by (simp_all add: map_update_same durable_key_def session_key_def thread_touch_def)
  from indexed_same_ids [OF this] touched(3) show ?case by (auto simp: indices_fresh_def indexed_def)
next
  case (hydrated ini tab env)
  then show ?case using hydrated_indexed [of env ini] by auto
qed simp_all

text \<open>
  Looking an incoming id up: with fresh indices it is the first thread with that durable id, and
  only without one the first with that session id.
\<close>

definition owner_of_id :: "thread list \<Rightarrow> string \<Rightarrow> nat option" where
  "owner_of_id ts i =
     (if i = [] then None
      else or_else (position (\<lambda>t. thread_id t = i) ts) (position (\<lambda>t. session_id t = Some i) ts))"

lemma index_from_lookup:
  "index_from f n ts index k
    = (case index k of Some v \<Rightarrow> Some v | None \<Rightarrow> map_option ((+) n) (position (\<lambda>t. f t = Some k) ts))"
proof (induction f n ts index rule: index_from.induct)
  case (2 f n t ts index)
  have shift: "map_option ((+) (Suc n)) p = map_option ((+) n) (map_option Suc p)" for p by (cases p) auto
  show ?case using 2 by (auto simp: shift split: option.splits)
qed (simp split: option.split)

lemma indexed_lookup:
  assumes "indices_fresh (table m)" "i \<noteq> []"
  shows "thread_id_index m i = position (\<lambda>t. thread_id t = i) (threads m)"
    and "session_id_index m i = position (\<lambda>t. session_id t = Some i) (threads m)"
proof -
  have "durable_key t = Some i \<longleftrightarrow> thread_id t = i" "session_key t = Some i \<longleftrightarrow> session_id t = Some i" for t
    using assms(2) by (auto simp: durable_key_def session_key_def split: option.splits)
  moreover have "map_option ((+) 0) p = p" for p :: "nat option" by (cases p) auto
  ultimately show "thread_id_index m i = position (\<lambda>t. thread_id t = i) (threads m)"
    and "session_id_index m i = position (\<lambda>t. session_id t = Some i) (threads m)"
    using assms(1) by (simp_all add: indices_fresh_def table_def indexed_def index_from_lookup)
qed

lemma lookup_is_owner:
  assumes "indices_fresh (table m)"
  shows "thread_index_for_id m i = owner_of_id (threads m) i"
proof (cases "i = []")
  case False
  have checked: "checked P m (position P (threads m)) = position P (threads m)" for P
    by (auto simp: checked_def thread_at_def dest: position_SomeD split: option.splits)
  show ?thesis
    using False by (auto simp: thread_index_for_id_def owner_of_id_def indexed_lookup [OF assms False] checked or_else_def
      split: option.split)
qed (simp add: thread_index_for_id_def owner_of_id_def)

lemma step_queues: "table_step tab tab' \<Longrightarrow> queues_ok tab \<Longrightarrow> queues_ok tab'"
proof (induction rule: table_step.induct)
  case (touched i ts t' di si)
  have "sq_inv (send_queue (ts ! i))" using touched(1,3) by (simp add: queues_ok_def)
  then have "sq_inv (send_queue t')" using touched(2) by (auto simp: thread_touch_def intro: sq_step_inv)
  then show ?case using touched(1,3) set_update_subset_insert [of ts i t'] by (auto simp: queues_ok_def)
next
  case (appended t ts di si)
  then show ?case by (auto simp: queues_ok_def sq_new_def sq_inv_default)
next
  case (rebound ts ts' di si)
  then show ?case by (fastforce simp: queues_ok_def list_all2_conv_all_nth thread_rebind_def in_set_conv_nth)
next
  case (removed i ts di si)
  then show ?case using set_remove_at_subset [of i ts] by (auto simp: queues_ok_def)
next
  case (hydrated ini tab env)
  have "sq_inv (value_or sq_default (nth_opt (init_queues ini) i))" for i
    using hydrated by (auto simp: nth_opt_def value_or_def sq_inv_default)
  then show ?case
    by (auto simp: queues_ok_def from_initial_state_def table_rebuild hydrated_thread_def Let_def)
qed

lemma steps_keep:
  assumes "table_step\<^sup>*\<^sup>* tab tab'"
  shows "(indices_fresh tab \<longrightarrow> indices_fresh tab') \<and> (queues_ok tab \<longrightarrow> queues_ok tab')"
  using assms by (induction rule: rtranclp_induct) (auto dest: step_fresh step_queues)

definition panel_run :: "(panel_env \<times> msg) list \<Rightarrow> panel \<Rightarrow> panel" where
  "panel_run evs m = fold (\<lambda>(env, msg) m. fst (update env msg m)) evs m"

lemma run_steps: "\<forall>(env, msg) \<in> set evs. hydration_ok msg \<Longrightarrow> steps m (panel_run evs m)"
proof (induction evs arbitrary: m)
  case (Cons ev evs)
  obtain env msg where ev: "ev = (env, msg)" by (cases ev)
  then have "steps m (fst (update env msg m))" using Cons.prems by (simp add: update_steps)
  moreover have "steps (fst (update env msg m)) (panel_run evs (fst (update env msg m)))" using Cons by simp
  ultimately show ?case by (simp add: panel_run_def ev)
qed (simp add: panel_run_def)

lemma default_table: "table default_panel = indexed []"
  by (simp add: table_def default_panel_def indexed_def)

text \<open>
  C4. From start-up on, through any sequence of messages, an incoming id resolves to exactly the
  thread it belongs to: the first with that durable id, and only without one the first with that
  session id; and the entries of every thread's queue have ids of their own.
\<close>
theorem ids_resolve_to_owner:
  assumes "\<forall>(env, msg) \<in> set evs. hydration_ok msg" and "m = panel_run evs default_panel"
  shows "thread_index_for_id m i = owner_of_id (threads m) i \<and> (\<forall>t \<in> set (threads m). sq_inv (send_queue t))"
proof -
  have "indices_fresh (table default_panel)" "queues_ok (table default_panel)"
    by (simp_all add: default_table queues_ok_def)
  with steps_keep [OF run_steps [OF assms(1), of default_panel]]
  have "indices_fresh (table m)" "queues_ok (table m)" by (simp_all add: assms(2))
  then show ?thesis by (simp add: lookup_is_owner queues_ok_def) (simp add: table_def)
qed

definition sample_events :: "(panel_env \<times> msg) list" where
  "sample_events =
     [(sample_env, UiEvent (ThreadMsg (RecoverSession ''s1'' ''codex'' ''old'' (Some ''t1'')))),
      (sample_env, EffectResult (SessionAttached 0 (Some ''s2'') None (Inr ''s3''))),
      (sample_env, UiEvent (ThreadMsg (RecoverSession ''s2'' ''codex'' ''new'' (Some ''t2''))))]"

theorem ids_resolve_to_owner_witness:
  "\<exists>m. m = panel_run sample_events default_panel \<and> thread_index_for_id m ''s2'' = owner_of_id (threads m) ''s2''
     \<and> (\<forall>t \<in> set (threads m). sq_inv (send_queue t))"
proof -
  have "\<forall>(env, msg) \<in> set sample_events. hydration_ok msg"
    by (simp add: sample_events_def hydration_ok_def hydrates_loaded_def)
  from ids_resolve_to_owner [OF this refl] show ?thesis by blast
qed

end
