(* ===== verification/PanelTabs.thy ===== *)
theory PanelTabs
  imports PanelTable
begin

text \<open>
  The terminal tabs of the panel (\<open>open_terminal_ids\<close> and \<open>expanded_terminal_id\<close> of
  \<open>panel-rust/src/model.rs\<close>, changed by \<open>update_terminal\<close> of \<open>update.rs\<close>): they stay consistent
  through every message of the reducer.
\<close>

definition tabs :: "panel \<Rightarrow> string option \<times> string list" where
  "tabs m = (expanded_terminal_id m, open_terminal_ids m)"

text \<open>No terminal is open twice, and one of the open ones is shown as long as there is one.\<close>

definition tabs_ok :: "string option \<times> string list \<Rightarrow> bool" where
  "tabs_ok ts = (distinct (snd ts) \<and> (case fst ts of None \<Rightarrow> snd ts = [] | Some i \<Rightarrow> i \<in> set (snd ts)))"

lemma tabs_frame [simp]:
  "tabs (set_thread i t m) = tabs m" "tabs (rebuild_thread_indices m) = tabs m"
  "tabs (fst (thread_list_dirty_with_keys env keys m)) = tabs m" "tabs (show_toast k msg m) = tabs m"
  "tabs (lifecycle r p path m) = tabs m" "tabs (fst (end_attach tid m)) = tabs m"
  "tabs (m\<lparr>compose_text := a2\<rparr>) = tabs m" "tabs (m\<lparr>selected_thread := a1\<rparr>) = tabs m"
  "tabs (m\<lparr>search_query := a2\<rparr>) = tabs m" "tabs (m\<lparr>displayed_thread := a5\<rparr>) = tabs m"
  "tabs (m\<lparr>disk := c6\<rparr>) = tabs m" "tabs (m\<lparr>expanded := a4\<rparr>) = tabs m" "tabs (m\<lparr>threads := ts\<rparr>) = tabs m"
  "tabs (m\<lparr>visible_indices := a3\<rparr>) = tabs m" "tabs (m\<lparr>thread_rows := c4\<rparr>) = tabs m"
  "tabs (m\<lparr>provider_errors := c1\<rparr>) = tabs m" "tabs (m\<lparr>provider_probes := b3\<rparr>) = tabs m"
  by (simp_all add: tabs_def set_thread_def rebuild_thread_indices_def thread_list_dirty_with_keys_def show_toast_def
    lifecycle_def end_attach_def Let_def)

lemma tabs_switch [simp]: "tabs (fst (apply_thread_selection_switch m)) = tabs m"
  by (auto simp: apply_thread_selection_switch_def enter_thread_def leave_thread_def mark_read_def Let_def
    split: option.split)

lemma tabs_thread: "tabs (fst (update_thread env msg m)) = tabs m"
  by (cases msg) (auto simp: update_new_thread_def update_new_resolved_def update_recover_session_def update_selected_def
    update_navigate_def update_close_def update_delete_def update_archive_def drop_oldest_archived_def update_rename_def
    update_toggle_background_def push_thread_def nothing_def Let_def case_prod_beta split: option.split)

lemma tabs_projection [simp]: "tabs (fst (rebuild_send_queue_projection env i m)) = tabs m"
  by (auto simp: rebuild_send_queue_projection_def Let_def case_prod_beta split: option.split)

lemma tabs_dispatch [simp]: "tabs (fst (dispatch_entry env i g t e m)) = tabs m"
  by (simp add: dispatch_entry_def Let_def case_prod_beta)

lemma tabs_compose: "tabs (fst (update_compose env msg m)) = tabs m"
  by (cases msg) (auto simp: update_compose_def update_draft_changed_def update_send_requested_def update_send_queued_def
    update_send_now_idle_def update_stop_def update_generation_stopped_def update_queue_cancel_def update_queue_edit_def
    update_queue_send_now_def update_queue_fast_track_def fail_thread_def nothing_def Let_def case_prod_beta
    split: option.split prod.split sum.split)

lemma tabs_effect: "tabs_ok (tabs m) \<Longrightarrow> tabs_ok (tabs (fst (update_effect env r m)))"
proof (cases "(env, r, m)" rule: update_effect.cases)
  case (1 env' ini m')
  then show ?thesis
    by (simp add: result_initial_state_def Let_def case_prod_beta)
      (simp add: tabs_def tabs_ok_def from_initial_state_def default_panel_def rebuild_thread_indices_def Let_def)
qed (auto simp: failed_def nothing_def result_persisted_def result_probe_skipped_def result_skill_written_def
  result_action_def result_editor_loaded_def result_stream_delta_def result_prompt_sent_def result_settings_saved_def
  result_operation_def result_projects_loaded_def result_session_attached_def result_creation_failed_def toasted_def
  Let_def case_prod_beta split: option.split sum.split, simp_all add: tabs_def)

lemma tabs_event: "tabs (fr_panel (event_at_thread env shown i t ev f)) = tabs (fr_panel f)"
proof (cases ev)
  case (ProviderProbe prov r)
  have "tabs (fst (event_provider_probe i prov r m)) = tabs m" for m
    by (cases r) (simp_all add: event_provider_probe_def del: list.simps)
  with ProviderProbe show ?thesis by (simp add: emit_def case_prod_beta)
qed (simp_all add: emit_def Let_def case_prod_beta)

lemma tabs_fold: "(\<And>x f. tabs (fr_panel (g x f)) = tabs (fr_panel f)) \<Longrightarrow> tabs (fr_panel (fold g xs f)) = tabs (fr_panel f)"
  by (induction xs arbitrary: f) simp_all

lemma tabs_stage: "(\<And>s f. tabs (fr_panel (g s f)) = tabs (fr_panel f)) \<Longrightarrow> tabs (fr_panel (on_snapshot g s f)) = tabs (fr_panel f)"
  by (simp add: on_snapshot_def split: option.split)

lemma tabs_list: "tabs (fr_panel (frame_list snap f)) = tabs (fr_panel f)"
proof -
  have row: "tabs (fr_panel (fold_list_row row f)) = tabs (fr_panel f)" for row f
    by (auto simp: fold_list_row_def emit_def Let_def case_prod_beta split: option.split)
  then have rows: "tabs (fr_panel (fold fold_list_row rows f)) = tabs (fr_panel f)" for rows
    by (rule tabs_fold)
  show ?thesis
    unfolding rows [of "tls_rows snap", symmetric] frame_list_def Let_def
    by (simp add: emit_def install_list_def Let_def case_prod_beta) (simp add: tabs_def rebuild_thread_indices_def)
qed

lemma tabs_update_frame: "tabs (fst (update_frame env fr m)) = tabs m"
proof -
  have events: "tabs (fr_panel (fold_events env evs m)) = tabs m" for evs
  proof -
    have "tabs (fr_panel (fold_event env s ev f)) = tabs (fr_panel f)" for s ev f
      by (simp add: fold_event_def tabs_event split: option.split)
    then show ?thesis by (simp add: fold_events_def Let_def tabs_fold)
  qed
  have flags: "tabs (fr_panel (frame_flags fr f)) = tabs (fr_panel f)" for f
    by (simp add: frame_flags_def emit_def Let_def tabs_def)
  have ops: "tabs (fr_panel (frame_operations fr f)) = tabs (fr_panel f)" for f
    by (simp add: frame_operations_def emit_def Let_def tabs_def)
  have simple: "tabs (fr_panel (frame_catalog c f)) = tabs (fr_panel f)" "tabs (fr_panel (frame_prefs p f)) = tabs (fr_panel f)"
    "tabs (fr_panel (frame_skills ss f)) = tabs (fr_panel f)" for c p ss f
    by (simp_all add: frame_catalog_def frame_prefs_def frame_skills_def emit_def Let_def tabs_def)
  have selected: "tabs (fr_panel (frame_selected env snap f)) = tabs (fr_panel f)" for snap f
    by (auto simp: frame_selected_def emit_def Let_def case_prod_beta split: option.split)
  show ?thesis
    by (simp add: update_frame_def Let_def tabs_stage [OF selected] tabs_stage [OF simple(3)] tabs_stage [OF simple(2)] ops
      tabs_stage [OF simple(1)] tabs_stage [OF tabs_list] flags events)
qed

lemma tabs_terminal: "tabs_ok (tabs m) \<Longrightarrow> tabs_ok (tabs (fst (update_terminal msg m)))"
proof (cases msg)
  case (CloseTab i)
  assume ok: "tabs_ok (tabs m)"
  show ?thesis
  proof (cases "position (\<lambda>open_id. open_id = i) (open_terminal_ids m)")
    case None
    with CloseTab ok show ?thesis by (simp add: update_close_tab_def Let_def)
  next
    case (Some pos)
    let ?ids = "remove_at pos (open_terminal_ids m)"
    from position_SomeD [OF Some] have pos: "pos < length (open_terminal_ids m)" "open_terminal_ids m ! pos = i" by auto
    have split: "open_terminal_ids m = take pos (open_terminal_ids m) @ i # drop (Suc pos) (open_terminal_ids m)"
      using id_take_nth_drop [OF pos(1)] pos(2) by simp
    have "distinct (open_terminal_ids m)" using ok by (simp add: tabs_ok_def tabs_def)
    then have "distinct (take pos (open_terminal_ids m) @ i # drop (Suc pos) (open_terminal_ids m))" using split by metis
    moreover have "set (open_terminal_ids m) = insert i (set ?ids)"
      by (subst split) (auto simp: remove_at_def)
    ultimately have rest: "distinct ?ids" "set ?ids = set (open_terminal_ids m) - {i}" by (auto simp: remove_at_def)
    have "or_else (nth_opt ?ids pos) (if pos = 0 then None else nth_opt ?ids (pos - 1)) = None \<Longrightarrow> ?ids = []"
      using pos by (auto simp: or_else_def nth_opt_def remove_at_def split: if_splits)
    moreover have "or_else (nth_opt ?ids pos) (if pos = 0 then None else nth_opt ?ids (pos - 1)) = Some k \<Longrightarrow> k \<in> set ?ids" for k
      by (auto simp: or_else_def nth_opt_def split: if_splits)
    ultimately show ?thesis
      using CloseTab ok rest
      by (auto simp: update_close_tab_def Some Let_def tabs_ok_def tabs_def split: option.splits)
  qed
qed (auto simp: update_expand_terminal_def update_select_tab_def update_close_overlay_def nothing_def tabs_ok_def tabs_def
  split: option.splits)

lemma tabs_settings: "tabs (fst (update_settings msg m)) = tabs m"
  by (cases msg) (auto simp: update_settings_save_def update_config_option_def update_profile_selected_def thread_call_def
    granting_call_def nothing_def Let_def split: option.split, auto simp: tabs_def)

lemma tabs_chrome: "tabs (fst (update_chrome env msg m)) = tabs m"
  by (cases msg) (auto simp: update_search_def update_toggle_expanded_def update_banner_dismissed_def nothing_def Let_def
    case_prod_beta split: option.split, auto simp: tabs_def)

lemma tabs_host: "tabs (fst (update_host env msg m)) = tabs m"
  by (cases msg) (auto simp: update_project_path_def update_project_closed_def update_project_renamed_def tabs_thread
    nothing_def Let_def simp del: update_thread.simps, auto simp: tabs_def)

lemma tabs_update: "tabs_ok (tabs m) \<Longrightarrow> tabs_ok (tabs (fst (update env msg m)))"
proof (cases msg)
  case (UiEvent ui)
  assume ok: "tabs_ok (tabs m)"
  show ?thesis
  proof (cases ui)
    case (RequestMsg r)
    have "tabs (fst (update_request r m)) = tabs m"
      by (cases r) (simp_all add: update_request_def nothing_def split: option.split)
    with UiEvent RequestMsg ok show ?thesis by simp
  next
    case (SkillMsg r)
    have "tabs (fst (update_skill r m)) = tabs m" by (cases r) (simp_all, simp add: tabs_def)
    with UiEvent SkillMsg ok show ?thesis by simp
  qed (use UiEvent ok in \<open>simp_all add: tabs_thread tabs_compose tabs_terminal tabs_settings tabs_chrome\<close>)
qed (simp_all add: tabs_effect tabs_host tabs_update_frame)

text \<open>
  From start-up on, through any sequence of messages, the terminal tabs are consistent: no
  terminal has two tabs, the terminal shown is one of the tabs, and one is shown exactly as long
  as there is a tab.
\<close>
theorem terminal_tabs_consistent: "tabs_ok (tabs (panel_run evs default_panel))"
proof -
  have "tabs_ok (tabs m) \<Longrightarrow> tabs_ok (tabs (panel_run evs m))" for m
    unfolding panel_run_def by (induction evs arbitrary: m) (auto simp: tabs_update simp del: update.simps)
  then show ?thesis by (simp add: tabs_ok_def tabs_def default_panel_def)
qed

end
