(* ===== verification/PanelProps.thy ===== *)
theory PanelProps
  imports PanelTable
begin

text \<open>
  What the panel's reducer guarantees (\<open>panel-rust/src/update.rs\<close>): drafts stay with their threads,
  and capabilities are granted only to usable agents.
\<close>

section \<open>Drafts stay with their threads\<close>

abbreviation select_thread :: "panel_env \<Rightarrow> nat \<Rightarrow> panel \<Rightarrow> panel" where
  "select_thread env k m \<equiv> fst (update env (UiEvent (ThreadMsg (Selected k))) m)"

abbreviation type_text :: "panel_env \<Rightarrow> string \<Rightarrow> panel \<Rightarrow> panel" where
  "type_text env s m \<equiv> fst (update env (UiEvent (ComposeMsg (DraftChanged s))) m)"

lemma list_choice_in_range:
  assumes "nth_opt (current_visible_indices m) k = Some i"
  shows "k < selection_length m" "selection_length m \<noteq> 0"
  using assms by (auto simp: nth_opt_def current_visible_indices_def selection_length_def split: if_splits)

lemma selected_visible [simp]: "current_visible_indices (m\<lparr>selected_thread := k\<rparr>) = current_visible_indices m"
  by (simp add: current_visible_indices_def)

lemma visible_frame [simp]:
  "current_visible_indices (m\<lparr>compose_text := s, displayed_thread := d\<rparr>) = current_visible_indices m"
  "current_visible_indices (m\<lparr>compose_text := s\<rparr>) = current_visible_indices m"
  "current_visible_indices (m\<lparr>displayed_thread := d\<rparr>) = current_visible_indices m"
  "current_visible_indices (set_thread i t m) = current_visible_indices m"
  by (auto simp: current_visible_indices_def set_thread_def)

lemma select_shows:
  assumes "nth_opt (current_visible_indices m) k = Some j" "thread_at m j = Some u"
    and "displayed_thread m = Some i" "thread_at m i = Some t" "i \<noteq> j"
  shows "displayed_thread (select_thread env k m) = Some j"
    and "compose_text (select_thread env k m) = compose_draft u"
    and "thread_at (select_thread env k m) i = Some (t\<lparr>compose_draft := compose_text m\<rparr>)"
    and "thread_at (select_thread env k m) j = Some (u\<lparr>unread := False\<rparr>)"
    and "current_visible_indices (select_thread env k m) = current_visible_indices m"
    and "selected_real_index (select_thread env k m) = Some j"
proof -
  let ?m0 = "m\<lparr>selected_thread := k\<rparr>"
  let ?m1 = "enter_thread (Some j) (leave_thread (Some i) ?m0)"
  have k: "min k (selection_length m - 1) = k" using list_choice_in_range [OF assms(1)] by simp
  have sel: "selected_real_index ?m0 = Some j" using assms(1) by (simp add: selected_real_index_def)
  have m1: "?m1 = (set_thread i (t\<lparr>compose_draft := compose_text m\<rparr>) ?m0)\<lparr>compose_text := compose_draft u, displayed_thread := Some j\<rparr>"
    using assms(2,4,5) by (simp add: enter_thread_def leave_thread_def thread_of_def thread_at_set)
  have at: "thread_at ?m1 j = Some u" "thread_at ?m1 i = Some (t\<lparr>compose_draft := compose_text m\<rparr>)"
    using assms(2,4,5) by (simp_all add: m1 thread_at_set)
  have *: "select_thread env k m = (if unread u then set_thread j (u\<lparr>unread := False\<rparr>) ?m1 else ?m1)"
    using list_choice_in_range(2) [OF assms(1)] assms(3,5) sel k at(1)
    by (simp add: update_selected_def apply_thread_selection_switch_def mark_read_def Let_def case_prod_beta)
  have u: "\<not> unread u \<Longrightarrow> u\<lparr>unread := False\<rparr> = u" by simp
  show "displayed_thread (select_thread env k m) = Some j"
    "compose_text (select_thread env k m) = compose_draft u"
    "current_visible_indices (select_thread env k m) = current_visible_indices m"
    "selected_real_index (select_thread env k m) = Some j"
    unfolding * using assms(1) by (auto simp: m1 set_thread_def selected_real_index_def current_visible_indices_def)
  show "thread_at (select_thread env k m) i = Some (t\<lparr>compose_draft := compose_text m\<rparr>)"
    "thread_at (select_thread env k m) j = Some (u\<lparr>unread := False\<rparr>)"
    unfolding * using at assms(5) u by (auto simp: thread_at_set [OF at(1)])
qed

lemma type_text_shows:
  assumes "selected_real_index m = Some i" "thread_at m i = Some t"
  shows "type_text env s m = (set_thread i (t\<lparr>compose_draft := s\<rparr>) m)\<lparr>compose_text := s\<rparr>"
  using assms by (simp add: update_compose_def update_draft_changed_def)

text \<open>
  C28. Switching to another thread shows its draft, and typing there never touches the draft that
  was left: back on the first thread the compose box holds exactly what it held before, and the
  text typed meanwhile comes back with the other thread, which counts as read.
\<close>
theorem switch_keeps_drafts:
  assumes "nth_opt (current_visible_indices m) a = Some i" "nth_opt (current_visible_indices m) b = Some j" "i \<noteq> j"
    and "displayed_thread m = Some i" "thread_at m i = Some t" "thread_at m j = Some u"
    and "m1 = select_thread env b m" "m2 = type_text env s m1" "m3 = select_thread env a m2" "m4 = select_thread env b m3"
  shows "compose_text m1 = compose_draft u \<and> compose_text m3 = compose_text m \<and> compose_text m4 = s
    \<and> displayed_thread m3 = Some i \<and> displayed_thread m4 = Some j \<and> map_option unread (thread_at m4 j) = Some False"
proof -
  note to_b = select_shows [OF assms(2,6,4,5,3), of env, folded assms(7)]
  have m2: "m2 = (set_thread j (u\<lparr>unread := False, compose_draft := s\<rparr>) m1)\<lparr>compose_text := s\<rparr>"
    unfolding assms(8) by (subst type_text_shows [OF to_b(6,4)]) (simp only: thread.surjective)
  have in2: "thread_at m2 j = Some (u\<lparr>unread := False, compose_draft := s\<rparr>)"
    "thread_at m2 i = Some (t\<lparr>compose_draft := compose_text m\<rparr>)" "displayed_thread m2 = Some j" "compose_text m2 = s"
    "current_visible_indices m2 = current_visible_indices m"
    using to_b assms(3) by (simp_all add: m2 thread_at_set [OF to_b(4)]) (simp add: set_thread_def)
  note to_a = select_shows [OF _ in2(2,3,1) assms(3) [symmetric], where k = a and env = env, folded assms(9), unfolded in2(5),
      OF assms(1)]
  note to_b' = select_shows [OF _ to_a(3,1,4) assms(3), where k = b and env = env, folded assms(10), unfolded to_a(5) in2(5),
      OF assms(2)]
  show ?thesis using to_b to_a to_b' in2 by simp
qed

definition two_threads :: panel where
  "two_threads = default_panel\<lparr>threads :=
     [(default_thread sample_env)\<lparr>thread_id := ''t1''\<rparr>,
      (default_thread sample_env)\<lparr>thread_id := ''t2'', compose_draft := ''draft'', unread := True\<rparr>],
     visible_indices := [0, 1], compose_text := ''hello'', displayed_thread := Some 0\<rparr>"

theorem switch_keeps_drafts_witness:
  "compose_text (select_thread sample_env 0 (type_text sample_env ''more'' (select_thread sample_env 1 two_threads))) = ''hello''"
proof -
  let ?m = two_threads
  have "nth_opt (current_visible_indices ?m) 0 = Some 0" "nth_opt (current_visible_indices ?m) 1 = Some 1" "(0::nat) \<noteq> 1"
    "displayed_thread ?m = Some 0" "thread_at ?m 0 = Some (threads ?m ! 0)" "thread_at ?m 1 = Some (threads ?m ! 1)"
    by (simp_all add: two_threads_def nth_opt_def current_visible_indices_def thread_at_def)
  from switch_keeps_drafts [OF this refl refl refl refl] show ?thesis by (simp add: two_threads_def)
qed

section \<open>Capabilities\<close>

text \<open>The calls that give the thread's agent something new.\<close>

fun grants :: "gateway_call \<Rightarrow> bool" where
  "grants (CallMcpCreate entry) = True"
| "grants (CallMcpEnabled name enabled) = enabled"
| "grants (CallMcpToolEnabled server tool enabled) = enabled"
| "grants call = False"

definition calls :: "effect list \<Rightarrow> (nat \<times> gateway_call) list" where
  "calls effects = List.map_filter (\<lambda>e. case e of GatewayCall i call \<Rightarrow> Some (i, call) | _ \<Rightarrow> None) effects"

lemma calls_simps [simp]: "calls [] = []" "calls (xs @ ys) = calls xs @ calls ys"
  "calls (e # xs) = (case e of GatewayCall i call \<Rightarrow> (i, call) # calls xs | _ \<Rightarrow> calls xs)"
  by (simp_all add: calls_def List.map_filter_def split: effect.split)

lemma calls_settings:
  "(i, call) \<in> set (calls (fst (snd (update_settings msg m)))) \<Longrightarrow> grants call \<Longrightarrow> thread_agent_usable m i"
  by (cases msg) (auto simp: update_settings_save_def update_config_option_def update_profile_selected_def thread_call_def
    granting_call_def nothing_def Let_def split: option.splits if_splits)

lemma calls_switch [simp]: "calls (fst (snd (apply_thread_selection_switch m))) = []"
  by (simp add: apply_thread_selection_switch_def Let_def case_prod_beta split: option.split)

lemma calls_thread: "calls (fst (snd (update_thread env msg m))) = []"
  by (cases msg) (auto simp: update_new_thread_def update_new_resolved_def update_recover_session_def update_selected_def
    update_navigate_def update_close_def update_delete_def update_archive_def drop_oldest_archived_def update_rename_def
    update_toggle_background_def nothing_def Let_def case_prod_beta split: option.split)

lemma calls_compose: "calls (fst (snd (update_compose env msg m))) = []"
  by (cases msg) (auto simp: update_compose_def update_draft_changed_def update_send_requested_def update_send_queued_def
    update_send_now_idle_def update_stop_def update_generation_stopped_def update_queue_cancel_def update_queue_edit_def
    update_queue_send_now_def update_queue_fast_track_def fail_thread_def nothing_def dispatch_entry_def queue_request_def
    Let_def case_prod_beta split: option.split prod.split sum.split)

lemma calls_ui: "(i, call) \<in> set (calls (fst (snd (update_ui env ui m)))) \<Longrightarrow> grants call \<Longrightarrow> thread_agent_usable m i"
proof (cases ui)
  case (RequestMsg r)
  have "calls (fst (snd (update_request r m))) = []"
    by (cases r) (simp_all add: update_request_def nothing_def split: option.split)
  moreover assume "(i, call) \<in> set (calls (fst (snd (update_ui env ui m))))"
  ultimately show ?thesis using RequestMsg by simp
next
  case (TerminalMsg r)
  have "calls (fst (snd (update_terminal r m))) = []"
    by (cases r) (simp_all add: update_expand_terminal_def update_select_tab_def update_close_tab_def
      update_close_overlay_def nothing_def Let_def split: option.split)
  moreover assume "(i, call) \<in> set (calls (fst (snd (update_ui env ui m))))"
  ultimately show ?thesis using TerminalMsg by simp
next
  case (SkillMsg r)
  have "calls (fst (snd (update_skill r m))) = []" by (cases r) simp_all
  moreover assume "(i, call) \<in> set (calls (fst (snd (update_ui env ui m))))"
  ultimately show ?thesis using SkillMsg by simp
next
  case (ChromeMsg r)
  have "calls (fst (snd (update_chrome env r m))) = []"
    by (cases r) (simp_all add: update_search_def update_toggle_expanded_def update_banner_dismissed_def nothing_def
      Let_def case_prod_beta split: option.split)
  moreover assume "(i, call) \<in> set (calls (fst (snd (update_ui env ui m))))"
  ultimately show ?thesis using ChromeMsg by simp
qed (use calls_settings in \<open>auto simp: calls_thread calls_compose\<close>)

lemma calls_effect: "calls (fst (snd (update_effect env r m))) = []"
  by (cases "(env, r, m)" rule: update_effect.cases)
    (auto simp: failed_def nothing_def result_persisted_def result_probe_skipped_def result_skill_written_def
      result_action_def result_editor_loaded_def result_stream_delta_def result_prompt_sent_def result_settings_saved_def
      result_operation_def result_projects_loaded_def result_session_attached_def result_creation_failed_def toasted_def
      result_initial_state_def Let_def case_prod_beta split: option.split sum.split)

lemma calls_host: "calls (fst (snd (update_host env msg m))) = []"
  by (cases msg) (auto simp: update_project_path_def update_project_closed_def update_project_renamed_def calls_thread
    nothing_def Let_def simp del: update_thread.simps)

lemma calls_emit [simp]: "calls (fr_effects (emit m es ds f)) = calls (fr_effects f) @ calls es"
  by (simp add: emit_def)

lemma calls_event: "calls (fr_effects (fold_event env shown ev f)) = calls (fr_effects f)"
proof -
  have queue: "calls (fst (snd (event_queue_changed env ex items paused t))) = []" for ex items paused t
  proof -
    have "calls (map (RecordLocalMessage (thread_id t)) xs) = []" for xs by (induction xs) simp_all
    then show ?thesis by (simp add: event_queue_changed_def Let_def case_prod_beta)
  qed
  have turn: "calls (fst (snd (fst (event_turn_ended env fs reason t)))) = []" for fs reason t
    by (auto simp: event_turn_ended_def Let_def case_prod_beta split: prod.split sum.split option.split)
  have "calls (fr_effects (event_at_thread env shown i t e f)) = calls (fr_effects f)" for i t e
    by (cases e) (simp_all add: Let_def case_prod_beta queue turn event_error_def)
  then show ?thesis by (simp add: fold_event_def split: option.split)
qed

lemma calls_fold: "(\<And>x f. calls (fr_effects (g x f)) = calls (fr_effects f)) \<Longrightarrow> calls (fr_effects (fold g xs f)) = calls (fr_effects f)"
  by (induction xs arbitrary: f) simp_all

lemma calls_stage:
  "(\<And>s f. calls (fr_effects (g s f)) = calls (fr_effects f)) \<Longrightarrow> calls (fr_effects (on_snapshot g s f)) = calls (fr_effects f)"
  by (simp add: on_snapshot_def split: option.split)

lemma calls_frame: "calls (fst (snd (update_frame env fr m))) = []"
proof -
  have events: "calls (fr_effects (fold_events env evs m)) = []" for evs
    by (simp add: fold_events_def Let_def calls_fold [OF calls_event])
  have recs: "calls (map PersistThreadRecord xs) = []" for xs by (induction xs) simp_all
  have flags: "calls (fr_effects (frame_flags fr f)) = calls (fr_effects f)" for f
    by (simp add: frame_flags_def Let_def recs)
  have row: "calls (fr_effects (fold_list_row r f)) = calls (fr_effects f)" for r f
    by (simp add: fold_list_row_def Let_def case_prod_beta split: option.split)
  have list: "calls (fr_effects (frame_list s f)) = calls (fr_effects f)" for s f
    by (simp add: frame_list_def Let_def case_prod_beta calls_fold [OF row])
  have stages: "calls (fr_effects (frame_catalog c f)) = calls (fr_effects f)"
    "calls (fr_effects (frame_prefs p f)) = calls (fr_effects f)"
    "calls (fr_effects (frame_skills ss f)) = calls (fr_effects f)"
    "calls (fr_effects (frame_operations fr f)) = calls (fr_effects f)" for c p ss f
    by (simp_all add: frame_catalog_def frame_prefs_def frame_skills_def frame_operations_def Let_def)
  have selected: "calls (fr_effects (frame_selected env snap f)) = calls (fr_effects f)" for snap f
    by (simp add: frame_selected_def Let_def case_prod_beta split: option.split)
  show ?thesis
    by (simp add: update_frame_def Let_def calls_stage [OF selected] calls_stage [OF stages(3)] calls_stage [OF stages(2)]
      stages(4) calls_stage [OF stages(1)] calls_stage [OF list] flags events)
qed

text \<open>
  Whatever message the reducer handles, a call that adds an MCP server, enables one or enables
  one of its tools is only made for a thread whose agent is neither stale nor unauthenticated.
\<close>
theorem capabilities_need_usable_agent:
  assumes "update env msg m = (m', effects, marks)" "GatewayCall i call \<in> set effects" "grants call"
  shows "thread_agent_usable m i"
proof -
  have "(i, call) \<in> set (calls effects)"
    using assms(2) by (induction effects) (auto split: effect.split)
  then have *: "(i, call) \<in> set (calls (fst (snd (update env msg m))))" by (simp add: assms(1))
  show ?thesis
  proof (cases msg)
    case (UiEvent ui)
    with * assms(3) show ?thesis using calls_ui [of i call env ui m] by simp
  qed (use * in \<open>simp_all add: calls_effect calls_host calls_frame\<close>)
qed

definition connected :: panel where
  "connected = two_threads\<lparr>threads := map (\<lambda>t. t\<lparr>session_id := Some (thread_id t)\<rparr>) (threads two_threads)\<rparr>"

theorem capabilities_need_usable_agent_witness:
  "\<exists>m' effects marks.
     update sample_env (UiEvent (SettingsMsg (McpCreate JNull))) connected = (m', effects, marks)
     \<and> GatewayCall 0 (CallMcpCreate JNull) \<in> set effects \<and> thread_agent_usable connected 0"
proof -
  have u: "update sample_env (UiEvent (SettingsMsg (McpCreate JNull))) connected
      = (connected, [GatewayCall 0 (CallMcpCreate JNull)], [SettingsDirty])"
    by (simp add: granting_call_def selected_real_index_def connected_def two_threads_def current_visible_indices_def
      nth_opt_def thread_agent_usable_def thread_at_def default_panel_def default_thread_def)
  from capabilities_need_usable_agent [OF u, of 0 "CallMcpCreate JNull"] u show ?thesis by simp
qed

end
