(* ===== verification/PanelRouting.thy ===== *)
theory PanelRouting
  imports PanelProps
begin

text \<open>
  Which thread a message of the panel is about: a compose message acts on the selected thread only,
  an event of the bridge on the thread its identity resolves to (\<open>update_compose\<close> and the event
  fold of \<open>update_frame\<close> in \<open>panel-rust/src/update.rs\<close>).
\<close>

section \<open>Changes of one thread\<close>

definition only_thread :: "nat \<Rightarrow> panel \<Rightarrow> panel \<Rightarrow> bool" where
  "only_thread i m m' = (length (threads m') = length (threads m) \<and> (\<forall>k. k \<noteq> i \<longrightarrow> thread_at m' k = thread_at m k))"

lemma only_refl [simp]: "only_thread i m m"
  by (simp add: only_thread_def)

lemma only_set: "only_thread i m m1 \<Longrightarrow> only_thread i m (set_thread i t m1)"
  by (auto simp: only_thread_def set_thread_def thread_at_def nth_list_update split: if_splits)

lemma only_frame [simp]:
  "only_thread i m (m1\<lparr>disk := c6\<rparr>) = only_thread i m m1" "only_thread i m (m1\<lparr>compose_text := a2\<rparr>) = only_thread i m m1"
  by (simp_all add: only_thread_def)

text \<open>What an effect of a thread's compose box may be about.\<close>

fun concerns :: "nat \<Rightarrow> thread \<Rightarrow> effect \<Rightarrow> bool" where
  "concerns i t (SendPrompt tid s) = (tid = thread_id t)"
| "concerns i t (CancelGeneration k) = (k = i)"
| "concerns i t (MutateQueue k params) = (k = i \<and> json_get ''sessionId'' params = Some (json_opt (session_id t)))"
| "concerns i t e = False"

definition compose_ok :: "nat \<Rightarrow> thread \<Rightarrow> panel \<Rightarrow> outcome \<Rightarrow> bool" where
  "compose_ok i t m out = (only_thread i m (fst out) \<and> list_all (concerns i t) (fst (snd out)))"

lemma concerns_mutation [simp]:
  "concerns i t (queue_request k session operation entry remote text) = (k = i \<and> json_opt session = json_opt (session_id t))"
  by (simp add: queue_request_def)

lemma compose_nothing: "only_thread i m m1 \<Longrightarrow> compose_ok i t m (nothing m1)"
  by (simp add: compose_ok_def nothing_def)

lemma only_projection: "only_thread i m m1 \<Longrightarrow> only_thread i m (fst (rebuild_send_queue_projection env i m1))"
  by (simp add: rebuild_send_queue_projection_def Let_def case_prod_beta only_set split: option.split)

lemma compose_fail: "only_thread i m m1 \<Longrightarrow> compose_ok i t m (fail_thread i t' s m1)"
  by (simp add: compose_ok_def fail_thread_def only_set)

lemma compose_dispatch:
  "only_thread i m m1 \<Longrightarrow> thread_id t' = thread_id t \<Longrightarrow> session_id t' = session_id t \<Longrightarrow>
   compose_ok i t m (dispatch_entry env i g t' e m1)"
  by (simp add: compose_ok_def dispatch_entry_def Let_def case_prod_beta only_set only_projection)

lemmas compose_intros = compose_nothing compose_fail compose_dispatch only_set only_projection

lemma compose_at_ok: "thread_at m i = Some t \<Longrightarrow> compose_ok i t m (compose_at env i msg m)"
proof (cases msg)
  case (SendRequested s)
  assume t: "thread_at m i = Some t"
  have "compose_ok i t m (update_send_queued env i s t m1)" if "only_thread i m m1" for m1
    using that by (auto simp: compose_ok_def update_send_queued_def Let_def case_prod_beta intro!: compose_intros
      split: prod.split sum.split)
  moreover have "compose_ok i t m (update_send_now_idle env i s t m1)" if "only_thread i m m1" for m1
    using that by (auto simp: compose_ok_def update_send_now_idle_def Let_def intro!: compose_intros split: option.split)
  ultimately show ?thesis using t SendRequested by (simp add: update_send_requested_def Let_def)
next
  case (QueueCancel k)
  assume t: "thread_at m i = Some t"
  have "compose_ok i t m (update_queue_cancel env i k m)"
    using t unfolding update_queue_cancel_def
    by (auto simp: Let_def case_prod_beta intro!: compose_intros split: prod.split sum.split option.split)
      (auto simp: compose_ok_def intro!: compose_intros split: option.split)
  then show ?thesis by (simp add: QueueCancel)
next
  case (QueueEdit k)
  assume t: "thread_at m i = Some t"
  have "compose_ok i t m (update_queue_edit env i k m)"
    using t unfolding update_queue_edit_def
    by (auto simp: Let_def case_prod_beta intro!: compose_intros split: prod.split sum.split option.split)
      (auto simp: compose_ok_def intro!: compose_intros)
  then show ?thesis by (simp add: QueueEdit)
next
  case (QueueSendNow k)
  assume t: "thread_at m i = Some t"
  have "compose_ok i t m (update_queue_send_now env i k m)"
    using t unfolding update_queue_send_now_def
    by (auto intro!: compose_intros split: prod.split sum.split option.split)
  then show ?thesis by (simp add: QueueSendNow)
next
  case QueueFastTrack
  assume t: "thread_at m i = Some t"
  have "compose_ok i t m (update_queue_fast_track env i m)"
    using t unfolding update_queue_fast_track_def
    by (auto intro!: compose_intros split: prod.split sum.split option.split)
  then show ?thesis by (simp add: QueueFastTrack)
qed (auto simp: compose_ok_def update_draft_changed_def update_stop_def update_generation_stopped_def nothing_def Let_def
  intro!: only_set split: option.split)

text \<open>
  C26. Whatever is done in the compose box changes the selected thread only, and every effect it
  asks for, a prompt, a stop or a change of the server's queue, carries that thread's identity.
\<close>
theorem compose_acts_on_selected:
  assumes "selected_real_index m = Some i" "thread_at m i = Some t" "update_compose env msg m = (m', effects, marks)"
  shows "length (threads m') = length (threads m) \<and> (\<forall>k. k \<noteq> i \<longrightarrow> thread_at m' k = thread_at m k)
    \<and> list_all (concerns i t) effects"
  using compose_at_ok [OF assms(2), of env msg] assms(1,3)
  by (simp add: update_compose_def compose_ok_def only_thread_def)

definition one_thread :: panel where
  "one_thread = default_panel\<lparr>threads := [(default_thread sample_env)\<lparr>thread_id := ''t1'', session_id := Some ''s1''\<rparr>],
     visible_indices := [0], displayed_thread := Some 0\<rparr>"

theorem compose_acts_on_selected_witness:
  "list_all (concerns 0 (threads one_thread ! 0))
     (fst (snd (update_compose sample_env (SendRequested ''hi'') one_thread)))"
proof -
  have sel: "selected_real_index one_thread = Some 0" and at: "thread_at one_thread 0 = Some (threads one_thread ! 0)"
    by (simp_all add: one_thread_def selected_real_index_def current_visible_indices_def nth_opt_def thread_at_def
      default_panel_def)
  obtain m' effects marks where u: "update_compose sample_env (SendRequested ''hi'') one_thread = (m', effects, marks)"
    by (cases "update_compose sample_env (SendRequested ''hi'') one_thread")
  from compose_acts_on_selected [OF sel at u] show ?thesis by (simp add: u)
qed

section \<open>Events reach their thread\<close>

text \<open>What resolves an incoming id, the same through every event.\<close>

definition identities :: "panel \<Rightarrow> string list \<times> string option list \<times> (string \<rightharpoonup> nat) \<times> (string \<rightharpoonup> nat)" where
  "identities m = (map thread_id (threads m), map session_id (threads m), thread_id_index m, session_id_index m)"

lemma position_map: "position P (map f xs) = position (\<lambda>x. P (f x)) xs"
  by (induction xs) simp_all

lemma same_identities:
  assumes "identities m = identities m'"
  shows "thread_index_for_id m i = thread_index_for_id m' i"
proof -
  have ids: "map thread_id (threads m) = map thread_id (threads m')" "map session_id (threads m) = map session_id (threads m')"
    "thread_id_index m = thread_id_index m'" "session_id_index m = session_id_index m'"
    using assms by (simp_all add: identities_def)
  have "checked (\<lambda>t. P (f t)) m k = checked (\<lambda>t. P (f t)) m' k" if "map f (threads m) = map f (threads m')" for P f k
  proof -
    have "length (threads m) = length (threads m')" using that map_eq_imp_length_eq by blast
    moreover have "f (threads m ! j) = f (threads m' ! j)" if "j < length (threads m)" for j
      using arg_cong [OF \<open>map f (threads m) = map f (threads m')\<close>, of "\<lambda>xs. xs ! j"] that calculation by simp
    ultimately show ?thesis by (cases k) (simp_all add: checked_def thread_at_def)
  qed
  note checked = this [OF ids(1), of "\<lambda>x. x = i"] this [OF ids(2), of "\<lambda>x. x = Some i"]
  have scans: "position (\<lambda>t. thread_id t = i) (threads m) = position (\<lambda>t. thread_id t = i) (threads m')"
    "position (\<lambda>t. session_id t = Some i) (threads m) = position (\<lambda>t. session_id t = Some i) (threads m')"
    using position_map [of "\<lambda>x. x = i" thread_id "threads m"] position_map [of "\<lambda>x. x = i" thread_id "threads m'"]
      position_map [of "\<lambda>x. x = Some i" session_id "threads m"] position_map [of "\<lambda>x. x = Some i" session_id "threads m'"]
    by (simp_all add: ids(1,2))
  show ?thesis unfolding thread_index_for_id_def ids(3,4) checked scans by (rule refl)
qed

lemma identities_set: "thread_at m i = Some t \<Longrightarrow> thread_touch t t' \<Longrightarrow> identities (set_thread i t' m) = identities m"
  by (auto simp: identities_def set_thread_def thread_at_def thread_touch_def map_update_same split: if_splits)

lemma identities_frame [simp]:
  "identities (m\<lparr>disk := c6\<rparr>) = identities m" "identities (m\<lparr>provider_errors := c1\<rparr>) = identities m"
  "identities (m\<lparr>provider_probes := b3\<rparr>) = identities m" "identities (m\<lparr>first_attach := b3\<rparr>) = identities m"
  "identities (m\<lparr>toast := b8, toast_seq := b9\<rparr>) = identities m"
  by (simp_all add: identities_def)

lemma only_more [simp]:
  "only_thread i m (m1\<lparr>provider_errors := c1\<rparr>) = only_thread i m m1"
  "only_thread i m (m1\<lparr>provider_probes := b3\<rparr>) = only_thread i m m1"
  "only_thread i m (m1\<lparr>first_attach := b3\<rparr>) = only_thread i m m1"
  "only_thread i m (m1\<lparr>toast := b8, toast_seq := b9\<rparr>) = only_thread i m m1"
  by (simp_all add: only_thread_def thread_at_def)

text \<open>The prompts and local messages an event asks for are its own thread's.\<close>

fun addressed_to :: "thread \<Rightarrow> effect \<Rightarrow> bool" where
  "addressed_to t (SendPrompt tid s) = (tid = thread_id t)"
| "addressed_to t (RecordLocalMessage tid s) = (tid = thread_id t)"
| "addressed_to t e = False"

definition event_ok :: "nat \<Rightarrow> thread \<Rightarrow> frame_state \<Rightarrow> frame_state \<Rightarrow> bool" where
  "event_ok i t f f' =
     (only_thread i (fr_panel f) (fr_panel f') \<and> identities (fr_panel f') = identities (fr_panel f)
      \<and> (\<exists>es. fr_effects f' = fr_effects f @ es \<and> list_all (addressed_to t) es))"

lemma event_ok_emit:
  assumes "only_thread i (fr_panel f) m" "identities m = identities (fr_panel f)" "list_all (addressed_to t) es"
  shows "event_ok i t f (emit m es ds f)"
  using assms by (simp add: event_ok_def emit_def)

lemma event_ok_unread [simp]: "event_ok i t f (f'\<lparr>fr_unread := us\<rparr>) = event_ok i t f f'"
  by (simp add: event_ok_def)

lemma event_ok_refl: "event_ok i t f f"
  by (simp add: event_ok_def)

lemma queue_effects: "list_all (addressed_to t) (fst (snd (event_queue_changed env ex items paused t)))"
  by (simp add: event_queue_changed_def Let_def case_prod_beta list_all_length)

lemma turn_effects: "list_all (addressed_to t) (fst (snd (fst (event_turn_ended env fs reason t))))"
  by (auto simp: event_turn_ended_def Let_def case_prod_beta split: prod.split sum.split option.split)

lemma event_thread:
  assumes at: "thread_at (fr_panel f) i = Some t"
  shows "event_ok i t f (event_at_thread env shown i t ev f)"
proof -
  have set: "event_ok i t f (emit (set_thread i t' (fr_panel f)) es ds f)" if "thread_touch t t'" "list_all (addressed_to t) es"
    for t' es ds using identities_set [OF at that(1)] that(2) by (intro event_ok_emit) (simp_all add: only_set)
  have set': "event_ok i t f (emit ((set_thread i t' (fr_panel f))\<lparr>disk := fs\<rparr>) es ds f)"
    if "thread_touch t t'" "list_all (addressed_to t) es"
    for t' fs es ds using identities_set [OF at that(1)] that(2) by (intro event_ok_emit) (simp_all add: only_set)
  have keep: "event_ok i t f (emit (fr_panel f) [] ds f)" for ds by (rule event_ok_emit) simp_all
  show ?thesis
  proof (cases ev)
    case (ProviderProbe prov r)
    have "only_thread i (fr_panel f) (fst (event_provider_probe i prov r (fr_panel f)))
        \<and> identities (fst (event_provider_probe i prov r (fr_panel f))) = identities (fr_panel f)"
      by (cases r) (simp_all add: event_provider_probe_def show_toast_def del: list.simps)
    with ProviderProbe show ?thesis by (simp add: case_prod_beta event_ok_emit)
  next
    case (AgentMessage msg)
    then show ?thesis using set [OF message_touch] by (simp add: Let_def case_prod_beta)
  next
    case (QueueChanged items paused)
    then show ?thesis using set [OF queue_changed_touch queue_effects] by (simp add: case_prod_beta)
  next
    case (TurnEnded reason)
    then show ?thesis using set' [OF turn_ended_touch turn_effects] by (simp add: case_prod_beta)
  next
    case (AgentError err)
    have touch: "thread_touch t (fst (event_error err t))" by (simp add: event_error_def thread_touch_def Let_def)
    have "event_ok i t f (emit (fst (end_attach tid (set_thread i (fst (event_error err t)) (fr_panel f)))) [] ds f)" for tid ds
      using identities_set [OF at touch] by (intro event_ok_emit) (simp_all add: end_attach_def only_set)
    moreover have "fst (snd (event_error err t)) = []" by (simp add: event_error_def Let_def)
    ultimately show ?thesis using AgentError by (simp add: case_prod_beta)
  qed (simp_all add: keep event_ok_refl)
qed

lemma fold_keeps:
  assumes "identities (fr_panel f) = identities m0" "\<forall>ev \<in> set evs. \<forall>i. snd ev = Some i \<longrightarrow> thread_index_for_id m0 i \<noteq> Some k"
  shows "identities (fr_panel (fold (fold_event env shown) evs f)) = identities m0
    \<and> thread_at (fr_panel (fold (fold_event env shown) evs f)) k = thread_at (fr_panel f) k"
  using assms
proof (induction evs arbitrary: f)
  case (Cons ev evs)
  let ?f = "fold_event env shown ev f"
  have "identities (fr_panel ?f) = identities (fr_panel f) \<and> thread_at (fr_panel ?f) k = thread_at (fr_panel f) k"
  proof (cases "Option.bind (snd ev) (thread_index_for_id (fr_panel f))")
    case None
    then show ?thesis by (auto simp: fold_event_def bind_eq_None_conv split: option.split)
  next
    case (Some j)
    then obtain i where i: "snd ev = Some i" "thread_index_for_id (fr_panel f) i = Some j" by (cases "snd ev") auto
    then have "j \<noteq> k" using Cons.prems same_identities [OF Cons.prems(1), of i] by auto
    with i event_thread [of f j _ env shown "fst ev"] show ?thesis
      by (cases "thread_at (fr_panel f) j") (auto simp: fold_event_def event_ok_def only_thread_def)
  qed
  with Cons show ?case by simp
qed simp

text \<open>
  C25. The events of a frame change only the threads they are for: a thread that no event of the
  frame resolves to, by durable id or session id, is afterwards exactly as it was before.
\<close>
theorem events_reach_their_thread:
  assumes "\<forall>(ev, identity) \<in> set evs. \<forall>i. identity = Some i \<longrightarrow> thread_index_for_id m i \<noteq> Some k"
  shows "thread_at (fr_panel (fold_events env evs m)) k = thread_at m k"
proof -
  have "\<forall>ev \<in> set evs. \<forall>i. snd ev = Some i \<longrightarrow> thread_index_for_id m i \<noteq> Some k" using assms by fastforce
  from fold_keeps [of "\<lparr>fr_panel = m, fr_effects = [], fr_marks = [], fr_unread = []\<rparr>" m, OF _ this]
  show ?thesis by (simp add: fold_events_def Let_def)
qed

theorem events_reach_their_thread_witness:
  "thread_at (fr_panel (fold_events sample_env [(TurnEnded ''end_turn'', Some ''t2''), (AgentError ''x'', None)] two_threads)) 0
    = thread_at two_threads 0"
  by (rule events_reach_their_thread)
    (simp add: two_threads_def thread_index_for_id_def default_panel_def default_thread_def or_else_def checked_def)

end
