(* ===== verification/PanelTurns.thy ===== *)
theory PanelTurns
  imports PanelProps
begin

text \<open>
  Limits and turns of the panel (\<open>panel-rust/src/update.rs\<close>): the cap on archived threads and what
  the end of a turn sends next.
\<close>

section \<open>The archive\<close>

lemma archived_set:
  assumes "thread_at m i = Some t"
  shows "archived_indices (set_thread i t' m)
    = filter (\<lambda>k. if k = i then archived t' \<and> \<not> closed t' else archived (threads m ! k) \<and> \<not> closed (threads m ! k))
        [0..<length (threads m)]"
proof -
  have "i < length (threads m)" using assms by (simp add: thread_at_def split: if_splits)
  then have "(threads m)[i := t'] ! k = (if k = i then t' else threads m ! k)" for k by (simp add: nth_list_update)
  then show ?thesis by (intro trans [OF archived_indices_def] filter_cong) (auto simp: set_thread_def)
qed

lemma distinct_archived: "distinct (archived_indices m)"
  by (simp add: archived_indices_def)

lemma find_hd_filter: "find P xs = (case filter P xs of [] \<Rightarrow> None | x # _ \<Rightarrow> Some x)"
  by (induction xs) simp_all

lemma archive_adds:
  assumes "thread_at m i = Some t" "archived t'" "\<not> closed t'" "i \<notin> set (archived_indices m)"
  shows "set (archived_indices (set_thread i t' m)) = insert i (set (archived_indices m))"
    and "filter (\<lambda>k. k \<noteq> i) (archived_indices (set_thread i t' m)) = archived_indices m"
    and "length (archived_indices (set_thread i t' m)) = Suc (length (archived_indices m))"
proof -
  have i: "i < length (threads m)" using assms(1) by (simp add: thread_at_def split: if_splits)
  show set: "set (archived_indices (set_thread i t' m)) = insert i (set (archived_indices m))"
    using assms(2-4) i unfolding archived_set [OF assms(1)] by (auto simp: archived_indices_def)
  show "filter (\<lambda>k. k \<noteq> i) (archived_indices (set_thread i t' m)) = archived_indices m"
    using assms(4) i unfolding archived_set [OF assms(1)] by (auto simp: archived_indices_def intro!: filter_cong)
  show "length (archived_indices (set_thread i t' m)) = Suc (length (archived_indices m))"
    using distinct_card [OF distinct_archived, of "set_thread i t' m"] distinct_card [OF distinct_archived, of m] set assms(4) by simp
qed

text \<open>
  Archiving a thread keeps the archive within its cap of ten.  Below the cap nothing is lost;
  at the cap exactly the first archived thread is deleted, in the state and by the one delete
  effect, and never the thread just archived.
\<close>
theorem archive_evicts_oldest:
  assumes "thread_at m i = Some t" "\<not> archived t" "\<not> closed t" "length (archived_indices m) \<le> archive_pool_cap"
    and "update_archive i m = (m', effects, marks)"
    and "evicted = (if length (archived_indices m) = archive_pool_cap then {hd (archived_indices m)} else {})"
  shows "i \<in> set (archived_indices m') \<and> length (archived_indices m') \<le> archive_pool_cap
    \<and> set (archived_indices m') = insert i (set (archived_indices m)) - evicted
    \<and> {k. DeleteThreadEffect k \<in> set effects} = evicted"
proof -
  define t' where "t' = t\<lparr>archived := True, thread_state := (if thread_state t = Loading then Cancelling else thread_state t)\<rparr>"
  define m1 where "m1 = set_thread i t' m"
  have i: "i \<notin> set (archived_indices m)" using assms(1,2) by (auto simp: archived_indices_def thread_at_def split: if_splits)
  have t': "archived t'" "\<not> closed t'" using assms(3) by (simp_all add: t'_def)
  note adds = archive_adds [OF assms(1) t' i, folded m1_def]
  have out: "m' = fst (drop_oldest_archived i m1)"
    "{k. DeleteThreadEffect k \<in> set effects} = {k. DeleteThreadEffect k \<in> set (fst (snd (drop_oldest_archived i m1)))}"
    using assms(1,2,5) by (auto simp: update_archive_def Let_def case_prod_beta m1_def t'_def)
  show ?thesis
  proof (cases "length (archived_indices m) = archive_pool_cap")
    case False
    then have "drop_oldest_archived i m1 = nothing m1" using assms(4) adds(3) by (simp add: drop_oldest_archived_def)
    with False show ?thesis using assms(4,6) adds i by (simp add: out nothing_def)
  next
    case True
    then obtain k ks where ks: "archived_indices m = k # ks" by (cases "archived_indices m") (auto simp: archive_pool_cap_def)
    have k: "k \<noteq> i" using i by (auto simp: ks)
    have "find (\<lambda>k. k \<noteq> i) (archived_indices m1) = Some k" using adds(2) by (simp add: find_hd_filter ks)
    moreover have "k \<in> set (archived_indices m)" by (simp add: ks)
    then have "thread_at m1 k = Some (threads m1 ! k)" using k by (auto simp: archived_indices_def thread_at_def m1_def set_thread_def)
    ultimately have drop: "drop_oldest_archived i m1
        = (set_thread k ((threads m1 ! k)\<lparr>closed := True\<rparr>) m1, [DeleteThreadEffect k], [ThreadRow (thread_id (threads m1 ! k))])"
      using True adds(3) by (simp add: drop_oldest_archived_def)
    have gone: "set (archived_indices m') = set (archived_indices m1) - {k}"
      by (auto simp: out drop archived_set [OF \<open>thread_at m1 k = Some (threads m1 ! k)\<close>])
        (auto simp: archived_indices_def)
    then have "card (set (archived_indices m')) = length (archived_indices m)"
      using adds(1) distinct_card [OF distinct_archived, of m] i k \<open>k \<in> set (archived_indices m)\<close> by (simp add: adds(1))
    then have "length (archived_indices m') = length (archived_indices m)" by (simp add: distinct_card [OF distinct_archived])
    then show ?thesis using gone adds(1) k True assms(6) by (auto simp: out(2) drop ks)
  qed
qed

definition full_archive :: panel where
  "full_archive = default_panel\<lparr>threads := replicate 10 ((default_thread sample_env)\<lparr>archived := True\<rparr>) @ [default_thread sample_env]\<rparr>"

theorem archive_evicts_oldest_witness:
  "\<exists>m' effects marks. update_archive 10 full_archive = (m', effects, marks)
     \<and> {k. DeleteThreadEffect k \<in> set effects} = {0} \<and> length (archived_indices m') \<le> archive_pool_cap"
proof -
  obtain m' effects marks where u: "update_archive 10 full_archive = (m', effects, marks)"
    by (cases "update_archive 10 full_archive")
  have at: "thread_at full_archive 10 = Some (default_thread sample_env)"
    by (simp add: full_archive_def thread_at_def nth_append)
  have idx: "archived_indices full_archive = [0..<10]"
    by (simp add: full_archive_def archived_indices_def upt_rec numeral_eq_Suc default_thread_def)
  have "\<not> archived (default_thread sample_env)" "\<not> closed (default_thread sample_env)" by (simp_all add: default_thread_def)
  from archive_evicts_oldest [OF at this _ u refl] u show ?thesis by (simp add: idx archive_pool_cap_def)
qed

section \<open>The end of a turn\<close>

definition next_prompt :: "thread \<Rightarrow> queue_entry option" where
  "next_prompt t = (if server_queue t \<or> q_state (send_queue t) \<noteq> AutoProcess then None else sq_first (send_queue t))"

lemma persisted_then: "persist_then ser Written q fs v = (q, fst (sq_persist ser Written q fs), Inr v)"
  by (simp add: persist_then_def sq_persist_def Let_def split: option.split)

lemma stopped_written:
  "on_generation_stopped ser Written False q fs
    = (case (if q_state q = AutoProcess then sq_first q else None) of
         None \<Rightarrow> (if q_state q = AbsorbingCancel then q\<lparr>q_state := AutoProcess\<rparr> else q, fs, Inr None)
       | Some e \<Rightarrow> (let q' = q\<lparr>q_entries := tl (q_entries q)\<rparr> in (q', fst (sq_persist ser Written q' fs), Inr (Some e))))"
  by (cases "q_state q"; cases "q_entries q")
    (simp_all add: on_generation_stopped_def pop_front_def sq_first_def persisted_then Let_def)

text \<open>
  The end of a turn sends at most one prompt, to the thread whose turn ended: the first entry
  of its local queue, unless the queue is paused, is absorbing a cancelled turn or belongs to the
  gateway.  The thread is loading again exactly when a prompt went out, and only the entry that
  was sent left the queue.
\<close>
theorem turn_end_sends_front:
  assumes "env_disk env = Written" "event_turn_ended env fs reason t = ((t', effects, marks), fs')"
  shows "effects = (case next_prompt t of None \<Rightarrow> [] | Some e \<Rightarrow> [SendPrompt (thread_id t) (entry_text e)])
    \<and> thread_state t' = (if next_prompt t = None then Idle else Loading)
    \<and> q_entries (send_queue t) = (case next_prompt t of None \<Rightarrow> [] | Some e \<Rightarrow> [e]) @ q_entries (send_queue t')"
  using assms
  by (cases "server_queue t"; cases "q_state (send_queue t)"; cases "q_entries (send_queue t)")
    (auto simp: event_turn_ended_def stopped_written next_prompt_def sq_first_def Let_def)

definition local_thread :: thread where
  "local_thread = (default_thread sample_env)\<lparr>thread_id := ''t1'', server_queue := False, thread_state := Loading,
     send_queue := snd (next_id sq_default)\<lparr>q_entries := [\<lparr>entry_id = 0, entry_text = ''next'', entry_steer = False\<rparr>]\<rparr>\<rparr>"

theorem turn_end_sends_front_witness:
  "\<exists>t' effects marks fs'. event_turn_ended sample_env Map.empty ''end_turn'' local_thread = ((t', effects, marks), fs')
     \<and> effects = [SendPrompt ''t1'' ''next''] \<and> thread_state t' = Loading"
proof -
  obtain t' effects marks fs' where
    u: "event_turn_ended sample_env Map.empty ''end_turn'' local_thread = ((t', effects, marks), fs')"
    by (metis prod_cases3 surj_pair)
  have "next_prompt local_thread = Some \<lparr>entry_id = 0, entry_text = ''next'', entry_steer = False\<rparr>"
    by (simp add: next_prompt_def local_thread_def sq_first_def next_id_def sq_default_def)
  moreover have "thread_id local_thread = ''t1''" by (simp add: local_thread_def)
  ultimately show ?thesis using turn_end_sends_front [OF _ u] u by (simp add: sample_env_def)
qed

end
