(* ===== verification/PanelFlaws.thy ===== *)
theory PanelFlaws
  imports PanelTurns
begin

text \<open>
  Where the panel's reducer (\<open>panel-rust/src/update.rs\<close>) does not do what its comments say, each as
  a run of the reducer on a concrete state.
\<close>

section \<open>A new thread\<close>

text \<open>
  \<open>NewThread\<close> clears the compose text before the switch stores it as the draft of the thread that
  is left: what was typed there is gone.
\<close>

lemma two_threads_shown:
  "env_lower sample_env [] = []" "displayed_thread two_threads = Some 0"
  "thread_at two_threads 0 = Some (threads two_threads ! 0)" "length (threads two_threads) = 2"
  by (simp_all add: two_threads_def sample_env_def to_ascii_lowercase_def thread_at_def)

lemma trim_Nil: "trim [] = []"
  by code_simp

lemma list_all_rows:
  assumes "\<forall>i \<in> set is. i < length (threads m)"
  shows "map real_index (List.map_filter (visible_thread_row env m) is) = is"
  using assms by (induction "is") (simp_all add: List.map_filter_simps visible_thread_row_def thread_at_def Let_def)

lemma unsearched_list:
  assumes "search_query m = []" "env_lower env [] = []"
  shows "visible_indices (fst (thread_list_dirty_with_keys env ks m)) = [0..<length (threads m)]"
  using assms by (simp add: thread_list_dirty_with_keys_def Let_def visible_thread_indices_def trim_Nil list_all_rows)

lemma position_upt: "k < n \<Longrightarrow> position (\<lambda>j. j = k) [0..<n] = Some k"
  using position_append_hit [of "[0..<k]" "\<lambda>j. j = k" k "[Suc k..<n]"] upt_add_eq_append [of 0 k "n - k"]
  by (simp add: upt_conv_Cons)

lemma new_thread_switch:
  assumes "env_lower env [] = []" "displayed_thread m = Some i" "thread_at m i = Some t"
    and "m' = fst (update env (UiEvent (ThreadMsg NewThread)) m)"
  shows "displayed_thread m' = Some (length (threads m))" "length (threads m') = Suc (length (threads m))"
    and "thread_at m' i = Some (t\<lparr>compose_draft := []\<rparr>)"
proof -
  let ?n = "length (threads m)"
  let ?m2 = "fst (thread_list_dirty_with_keys env (current_visible_keys m)
      (push_thread (new_thread_row env m) (m\<lparr>compose_text := [], search_query := []\<rparr>)))"
  let ?m3 = "?m2\<lparr>selected_thread := ?n\<rparr>"
  let ?m4 = "enter_thread (Some ?n) (leave_thread (Some i) ?m3)"
  have i: "i < ?n" "t = threads m ! i" using assms(3) by (auto simp: thread_at_def split: if_splits)
  have list: "visible_indices ?m2 = [0..<Suc ?n]"
    by (subst unsearched_list) (simp_all add: assms(1) push_thread_def rebuild_thread_indices_def)
  have keeps: "threads ?m2 = threads m @ [new_thread_row env m]" "displayed_thread ?m2 = Some i" "compose_text ?m2 = []"
    by (simp_all add: thread_list_dirty_with_keys_def push_thread_def rebuild_thread_indices_def Let_def assms(2))
  have "m' = fst (apply_thread_selection_switch ?m3)"
    using list by (simp add: assms(4) update_new_thread_def Let_def case_prod_beta position_upt del: upt_Suc)
  moreover have sel: "selected_real_index ?m3 = Some ?n"
    using list by (simp add: selected_real_index_def current_visible_indices_def nth_opt_def nth_append del: upt_Suc)
  ultimately have m': "m' = fst (mark_read (Some ?n) ?m4)"
    using i(1) keeps(2) by (simp add: apply_thread_selection_switch_def Let_def case_prod_beta)
  have "thread_at ?m3 i = Some t" using i by (simp add: thread_at_def keeps nth_append)
  then have m4: "thread_at ?m4 i = Some (t\<lparr>compose_draft := []\<rparr>)" "displayed_thread ?m4 = Some ?n"
    "length (threads ?m4) = Suc ?n" using i(1)
    by (simp_all add: enter_thread_def leave_thread_def keeps thread_at_set) (simp add: set_thread_def keeps)
  then show "displayed_thread m' = Some ?n" "length (threads m') = Suc ?n" "thread_at m' i = Some (t\<lparr>compose_draft := []\<rparr>)"
    unfolding m' using i(1) by (auto simp: mark_read_def thread_at_set split: option.split) (auto simp: set_thread_def)
qed

theorem new_thread_erases_draft:
  assumes "env_lower env [] = []" "displayed_thread m = Some i" "thread_at m i = Some t"
  shows "map_option compose_draft (thread_at (fst (update env (UiEvent (ThreadMsg NewThread)) m)) i) = Some []"
  using new_thread_switch(3) [OF assms refl] by simp

theorem new_thread_erases_draft_witness:
  "compose_text two_threads = ''hello''
   \<and> map_option compose_draft (thread_at (fst (update sample_env (UiEvent (ThreadMsg NewThread)) two_threads)) 0) = Some []"
  using new_thread_erases_draft [OF two_threads_shown(1-3)] by (simp add: two_threads_def del: update.simps)

text \<open>
  The row a failed creation left is removed, but the new thread was on display: afterwards the
  panel displays an index no thread has.
\<close>

theorem failed_creation_stays_displayed:
  assumes "env_lower env [] = []" "displayed_thread m = Some i" "thread_at m i = Some t"
    and "m' = fst (update env (UiEvent (ThreadMsg NewThread)) m)"
    and "m'' = fst (update env (EffectResult (ThreadCreationFailed (length (threads m)) message)) m')"
  shows "displayed_thread m'' = Some (length (threads m'')) \<and> thread_of m'' (displayed_thread m'') = None"
proof -
  note new = new_thread_switch [OF assms(1-4)]
  have "displayed_thread m'' = displayed_thread m'" "threads m'' = remove_at (length (threads m)) (threads m')"
    using new(2) by (simp_all add: assms(5) result_creation_failed_def Let_def case_prod_beta
      thread_list_dirty_with_keys_def rebuild_thread_indices_def)
  then show ?thesis using new(1,2) by (simp add: thread_of_def thread_at_def)
qed

theorem failed_creation_stays_displayed_witness:
  "\<exists>m'. thread_of m' (displayed_thread m') = None \<and> displayed_thread m' \<noteq> None
     \<and> m' = fst (update sample_env (EffectResult (ThreadCreationFailed 2 ''no agent''))
         (fst (update sample_env (UiEvent (ThreadMsg NewThread)) two_threads)))"
  using failed_creation_stays_displayed [OF two_threads_shown(1-3) refl refl, of "''no agent''"] two_threads_shown(4)
  by (metis option.distinct(1))

section \<open>A promotion by a frame\<close>

text \<open>
  A frame whose snapshot is the selected thread's puts that thread on display without the switch:
  the draft of the thread on display before stays in the compose box, and the thread stays unread.
  A search that narrows the list selects a thread this way.
\<close>

definition frame_with :: "thread_frame_snapshot \<Rightarrow> panel \<Rightarrow> frame_input" where
  "frame_with snap m = \<lparr>bridge_events = [], bridge_events_pending = False, thread_records = [], settings_reload_pending = False,
     prepend_expanded_rows = 0, list_snapshot = None, selected_snapshot = Some snap, clear_selected_thread = False,
     prefs_snapshot = None, catalog_snapshot = None, frame_agent_operations = agent_operations m,
     frame_mcp_operations = mcp_operations m, frame_recover_operations = recover_operations m, skills_snapshot = None,
     daemon_refresh_due = False\<rparr>"

theorem frame_promotion_skips_switch:
  assumes "snapshot_target snap m = Some i" "selected_real_index m = Some i" "displayed_thread m \<noteq> Some i"
    and "thread_at m i = Some t" "m' = fst (update env (Frame (frame_with snap m)) m)"
  shows "displayed_thread m' = Some i \<and> map_option unread (thread_at m' i) = Some (unread t)
    \<and> compose_text m' = compose_text m"
proof -
  let ?f = "\<lparr>fr_panel = m, fr_effects = [], fr_marks = [], fr_unread = []\<rparr>"
  have flags: "fr_panel (frame_flags (frame_with snap m) ?f) = m"
    by (simp add: frame_flags_def frame_with_def emit_def)
  have ops: "fr_panel (frame_operations (frame_with snap m) f) = fr_panel f" if "fr_panel f = m" for f
    using that by (simp add: frame_operations_def frame_with_def emit_def Let_def)
  have m': "\<exists>f. fr_panel f = m \<and> m' = fr_panel (frame_selected env snap f)"
    using ops [OF flags] flags unfolding assms(5)
    by (intro exI [of _ "frame_operations (frame_with snap m) (frame_flags (frame_with snap m) ?f)"])
      (simp add: update_frame_def fold_events_def on_snapshot_def frame_with_def Let_def)
  then obtain f where f: "fr_panel f = m" "m' = fr_panel (frame_selected env snap f)" by blast
  let ?m1 = "\<lambda>ex. m\<lparr>displayed_thread := Some i, expanded := ex\<rparr>"
  have "thread_at (?m1 ex) i = Some t" for ex using assms(4) by simp
  then show ?thesis
    using assms(1-3) f
    by (simp add: frame_selected_def emit_def Let_def case_prod_beta thread_at_set snapshot_thread_def)
      (simp add: set_thread_def)
qed

definition t2_snapshot :: thread_frame_snapshot where
  "t2_snapshot = \<lparr>tfs_thread_id = ''t2'', tfs_real_index = 1, tfs_transcript = [], tfs_config_options = [],
     tfs_surface = default_surface\<rparr>"

theorem frame_promotion_skips_switch_witness:
  "displayed_thread two_threads = Some 0
   \<and> (let m = two_threads\<lparr>visible_indices := [1]\<rparr>; m' = fst (update sample_env (Frame (frame_with t2_snapshot m)) m)
      in displayed_thread m' = Some 1 \<and> map_option unread (thread_at m' 1) = Some True \<and> compose_text m' = ''hello'')"
proof -
  let ?m = "two_threads\<lparr>visible_indices := [1]\<rparr>"
  have "thread_at ?m 1 = Some (threads two_threads ! 1)" by (simp add: two_threads_def thread_at_def)
  moreover have "selected_real_index ?m = Some 1" "displayed_thread ?m \<noteq> Some 1"
    by (simp_all add: two_threads_def selected_real_index_def current_visible_indices_def nth_opt_def default_panel_def)
  moreover have "snapshot_target t2_snapshot ?m = Some 1"
    by (simp add: snapshot_target_def t2_snapshot_def two_threads_def thread_index_for_id_def default_panel_def
      default_thread_def or_else_def checked_def)
  ultimately show ?thesis
    using frame_promotion_skips_switch [of t2_snapshot ?m 1 _ _ sample_env, OF _ _ _ _ refl]
    by (simp add: Let_def two_threads_shown(2) del: update.simps) (simp add: two_threads_def)
qed

section \<open>Editing a queued message\<close>

text \<open>
  Cancelling a queued message tells the gateway that owns the queue; editing takes the message out
  of the local copy just the same, and tells nobody: the gateway still has it and will send it.
\<close>

theorem edit_leaves_gateway_entry:
  assumes "thread_at m i = Some t" "server_queue t" "session_id t = Some s" "queue_entry_id_at t k = Some e"
    and "sq_remove (env_ser env) (env_disk env) e (send_queue t) (disk m) = (q, fs, Inr (Some entry))"
  shows "fst (snd (update_queue_edit env i k m)) = []
    \<and> fst (snd (update_queue_cancel env i k m)) = [queue_request i (Some s) ''cancel'' (Some e) (remote_id_for q e) None]
    \<and> map_option send_queue (thread_at (fst (update_queue_edit env i k m)) i) = Some q
    \<and> map_option send_queue (thread_at (fst (update_queue_cancel env i k m)) i) = Some q"
proof -
  have "map_option send_queue (thread_at (fst (rebuild_send_queue_projection env i m1)) i) = Some q"
    if "thread_at m1 i = Some (t\<lparr>send_queue := q\<rparr>)" for m1
    using that project_rows_thread [of env "expanded m1" "t\<lparr>send_queue := q\<rparr>"]
    by (auto simp: rebuild_send_queue_projection_def Let_def case_prod_beta thread_at_set [OF that])
  then show ?thesis
    using assms by (simp add: update_queue_edit_def update_queue_cancel_def Let_def case_prod_beta thread_at_set)
qed

definition queued :: panel where
  "queued = default_panel\<lparr>threads := [(default_thread sample_env)\<lparr>session_id := Some ''s'', transcript_keys := [''queue:0''],
     send_queue := (snd (next_id sq_default))\<lparr>q_entries := [\<lparr>entry_id = 0, entry_text = ''hi'', entry_steer = False\<rparr>]\<rparr>\<rparr>]\<rparr>"

theorem edit_leaves_gateway_entry_witness:
  "fst (snd (update_queue_edit sample_env 0 0 queued)) = []
   \<and> fst (snd (update_queue_cancel sample_env 0 0 queued)) = [queue_request 0 (Some ''s'') ''cancel'' (Some 0) None None]"
proof -
  let ?t = "threads queued ! 0"
  have t: "thread_at queued 0 = Some ?t" "server_queue ?t" "session_id ?t = Some ''s''"
    by (simp_all add: queued_def thread_at_def default_thread_def)
  have "show_nat 0 = ''0''" by code_simp
  then have "parse_usize ''0'' = Some 0" using parse_show_nat [of 0] by simp
  then have "queue_entry_id_at ?t 0 = Some 0"
    by (simp add: queued_def queue_entry_id_at_def nth_opt_def prefix_def)
  moreover have "sq_remove (env_ser sample_env) (env_disk sample_env) 0 (send_queue ?t) (disk queued)
      = ((snd (next_id sq_default))\<lparr>q_entries := []\<rparr>, disk queued, Inr (Some \<lparr>entry_id = 0, entry_text = ''hi'', entry_steer = False\<rparr>))"
    by (simp add: sq_remove_def take_entry_def queued_def persist_then_def sq_persist_def next_id_def sq_default_def)
  moreover have "remote_id_for ((snd (next_id sq_default))\<lparr>q_entries := []\<rparr>) 0 = None"
    by (simp add: remote_id_for_def next_id_def sq_default_def)
  ultimately show ?thesis using edit_leaves_gateway_entry [OF t] by simp
qed

end
