(* ===== verification/QueueBridge.thy ===== *)
theory QueueBridge
  imports QueueLog PanelTurns
begin

text \<open>
  The two ends of a server-owned prompt queue: what the panel asks for (\<open>queue_mutation\<close> of
  \<open>panel-rust/src/update.rs\<close>, the session filled in by \<open>mutate_queue\<close> of \<open>agent_bridge.rs\<close>), how the
  gateway reads it (\<open>QueueMutationParams\<close> of \<open>acpx-proto/src/session_stream.rs\<close>) and applies it
  (\<open>QueueLog\<close>), and the snapshot that comes back (\<open>SendQueue\<close>).
\<close>

section \<open>The request on the wire\<close>

text \<open>\<open>params["sessionId"] = Value::String(session_id)\<close> on an object.\<close>

fun bind_session :: "string \<Rightarrow> json \<Rightarrow> json" where
  "bind_session s (JObject kvs) =
     JObject (if map_of kvs ''sessionId'' = None then kvs @ [(''sessionId'', JString s)]
              else map (\<lambda>(k, v). if k = ''sessionId'' then (k, JString s) else (k, v)) kvs)"
| "bind_session s v = v"

definition operation_of_name :: "string \<Rightarrow> queue_operation option" where
  "operation_of_name s =
     (if s = ''enqueue'' then Some QEnqueue else if s = ''sendNow'' then Some QSendNow
      else if s = ''cancel'' then Some QCancel else if s = ''pause'' then Some QPause
      else if s = ''resume'' then Some QResume else None)"

text \<open>An optional field may be absent or null; anything but a string is an error.\<close>

definition optional_field :: "string \<Rightarrow> json \<Rightarrow> string option option" where
  "optional_field k v =
     (case json_get k v of None \<Rightarrow> Some None | Some JNull \<Rightarrow> Some None | Some w \<Rightarrow> map_option Some (as_str w))"

definition read_mutation :: "json \<Rightarrow> (string \<times> mutation_params) option" where
  "read_mutation v =
     Option.bind (str_field ''sessionId'' v) (\<lambda>s.
     Option.bind (str_field ''idempotencyKey'' v) (\<lambda>key.
     Option.bind (Option.bind (str_field ''operation'' v) operation_of_name) (\<lambda>operation.
     Option.bind (optional_field ''queueEntryId'' v) (\<lambda>entry.
     Option.bind (optional_field ''text'' v) (\<lambda>txt.
       Some (s, \<lparr>mp_idempotency_key = key, mp_operation = operation, mp_queue_entry_id = entry, mp_text = txt\<rparr>))))))"

definition mutation_body :: "effect \<Rightarrow> json" where
  "mutation_body e = (case e of MutateQueue i params \<Rightarrow> params | _ \<Rightarrow> JNull)"

definition request_key :: "string option \<Rightarrow> string \<Rightarrow> nat option \<Rightarrow> string" where
  "request_key session operation entry =
     ''panel:'' @ value_or ''unbound'' session @ '':'' @ operation @ '':''
       @ (case entry of None \<Rightarrow> ''none'' | Some n \<Rightarrow> show_nat n)"

lemma optional_json_opt: "json_get k v = Some (json_opt x) \<Longrightarrow> optional_field k v = Some x"
  by (cases x) (simp_all add: optional_field_def json_opt_def)

text \<open>
  What the panel asks of the gateway's queue is what the gateway reads: the session the bridge
  fills in, the operation, and the entry id and text the reducer chose.
\<close>

lemma queue_request_read:
  assumes "operation_of_name operation = Some oper"
  shows "read_mutation (bind_session s (mutation_body (queue_request i session operation entry remote txt)))
    = Some (s, \<lparr>mp_idempotency_key = request_key session operation entry, mp_operation = oper,
        mp_queue_entry_id = or_else remote (map_option (\<lambda>n. ''queue-'' @ show_nat n) entry), mp_text = txt\<rparr>)"
proof -
  let ?v = "bind_session s (mutation_body (queue_request i session operation entry remote txt))"
  have fields: "json_get ''sessionId'' ?v = Some (JString s)"
    "json_get ''idempotencyKey'' ?v = Some (JString (request_key session operation entry))"
    "json_get ''operation'' ?v = Some (JString operation)"
    "json_get ''queueEntryId'' ?v = Some (json_opt (or_else remote (map_option (\<lambda>n. ''queue-'' @ show_nat n) entry)))"
    "json_get ''text'' ?v = Some (json_opt txt)"
    by (simp_all add: mutation_body_def queue_request_def request_key_def)
  show ?thesis
    using optional_json_opt [OF fields(4)] optional_json_opt [OF fields(5)] fields(1-3) assms
    by (simp add: read_mutation_def str_field_def)
qed

section \<open>A snapshot that the panel is in step with\<close>

definition queue_rows :: "queue_item list \<Rightarrow> (string \<times> string) list" where
  "queue_rows items = map (\<lambda>item. (queue_entry_id item, qi_text item)) items"

text \<open>The panel's entries are the gateway's items, each under the server id it has there.\<close>

definition in_step :: "send_queue \<Rightarrow> queue_item list \<Rightarrow> bool" where
  "in_step q items =
     (map (\<lambda>e. (q_remote_ids q (entry_id e), entry_text e)) (q_entries q)
       = map (\<lambda>row. (Some (fst row), snd row)) (queue_rows items))"

lemma sort_entries_append:
  "sort_entries R I (es @ fs) d c u
    = (let (d1, c1, u1) = sort_entries R I es d c u in sort_entries R I fs d1 c1 u1)"
  by (induction es arbitrary: d c u) (simp_all split: option.split del: fun_upd_apply)

definition confirm_all :: "(string \<times> queue_entry) list \<Rightarrow> (string \<rightharpoonup> queue_entry) \<Rightarrow> string \<rightharpoonup> queue_entry" where
  "confirm_all ps c = fold (\<lambda>(r, e) c. c(r \<mapsto> e)) ps c"

lemma sort_confirmed:
  "map (\<lambda>e. R (entry_id e)) es = map (\<lambda>r. Some r) rs \<Longrightarrow> set rs \<subseteq> I \<Longrightarrow>
   sort_entries R I es d c u = (d, confirm_all (zip rs es) c, u)"
proof (induction es arbitrary: rs c)
  case (Cons e es)
  then obtain r rs' where "rs = r # rs'" "R (entry_id e) = Some r" "map (\<lambda>e. R (entry_id e)) es = map (\<lambda>r. Some r) rs'"
    by (cases rs) auto
  with Cons.IH [of rs'] Cons.prems(2) show ?case by (simp add: confirm_all_def)
qed (simp add: confirm_all_def)

lemma confirm_all_distinct: "distinct (map fst ps) \<Longrightarrow> confirm_all ps Map.empty = map_of ps"
proof -
  have "distinct (map fst ps) \<Longrightarrow> confirm_all ps c = c ++ map_of ps" for c
  proof (induction ps arbitrary: c)
    case (Cons p ps)
    obtain r e where p: "p = (r, e)" by (cases p)
    have "confirm_all (p # ps) c = c(r \<mapsto> e) ++ map_of ps" using Cons by (simp add: confirm_all_def p)
    also have "\<dots> = c ++ map_of (p # ps)"
    proof
      fix x show "(c(r \<mapsto> e) ++ map_of ps) x = (c ++ map_of (p # ps)) x"
        using Cons.prems map_of_eq_None_iff [of ps r] by (auto simp: p map_add_def split: option.split)
    qed
    finally show ?case .
  qed (simp add: confirm_all_def)
  then show "distinct (map fst ps) \<Longrightarrow> confirm_all ps Map.empty = map_of ps" by simp
qed

text \<open>Rows that are all confirmed are placed in order, each as the entry it had.\<close>

definition place_all :: "(string \<times> queue_entry) list \<Rightarrow> send_queue \<Rightarrow> send_queue" where
  "place_all ps q = fold (\<lambda>(r, e). place_row r (entry_text e) e) ps q"

lemma merge_confirmed:
  "distinct (map fst ps) \<Longrightarrow>
   merge_incoming (map (\<lambda>(r, e). (r, entry_text e)) ps @ rows) (map_of ps) u q
     = merge_incoming rows Map.empty u (place_all ps q)"
proof (induction ps arbitrary: q)
  case (Cons p ps)
  obtain r e where p: "p = (r, e)" by (cases p)
  have "(map_of (p # ps))(r := None) = map_of ps"
  proof
    fix x show "((map_of (p # ps))(r := None)) x = map_of ps x"
      using Cons.prems map_of_eq_None_iff [of ps r] by (auto simp: p)
  qed
  then have "merge_incoming (map (\<lambda>(r, e). (r, entry_text e)) (p # ps) @ rows) (map_of (p # ps)) u q
      = merge_incoming (map (\<lambda>(r, e). (r, entry_text e)) ps @ rows) (map_of ps) u (place_row r (entry_text e) e q)"
    using merge_incoming_hit [of "map_of (p # ps)" r e] by (simp add: p)
  also have "\<dots> = merge_incoming rows Map.empty u (place_all ps (place_row r (entry_text e) e q))"
    using Cons.prems by (intro Cons.IH) simp
  also have "place_all ps (place_row r (entry_text e) e q) = place_all (p # ps) q" by (simp add: place_all_def p)
  finally show ?case .
qed (simp add: place_all_def)

lemma place_all_entries: "q_entries (place_all ps q) = q_entries q @ map snd ps"
  by (induction ps arbitrary: q) (simp_all add: place_all_def place_row_def case_prod_beta)

lemma place_all_ids:
  "i \<notin> entry_id ` snd ` set ps \<Longrightarrow> q_remote_ids (place_all ps q) i = q_remote_ids q i"
  by (induction ps arbitrary: q) (simp_all add: place_all_def place_row_def case_prod_beta)

lemma place_all_mapped:
  "distinct (map (entry_id \<circ> snd) ps) \<Longrightarrow> (r, e) \<in> set ps \<Longrightarrow> q_remote_ids (place_all ps q) (entry_id e) = Some r"
proof (induction ps arbitrary: q)
  case (Cons p ps)
  show ?case
  proof (cases "p = (r, e)")
    case True
    with Cons.prems have "entry_id e \<notin> entry_id ` snd ` set ps" by (auto simp: image_image)
    from place_all_ids [OF this] show ?thesis by (simp add: True place_all_def place_row_def)
  next
    case False
    with Cons show ?thesis by (simp add: place_all_def)
  qed
qed simp

text \<open>What the two loops make of a queue in step with the gateway and one entry that waits.\<close>

lemma step_loops:
  assumes inv: "sq_inv q" and step: "in_step q items" and ids: "distinct (map queue_entry_id items)"
    and q': "q_entries q' = q_entries q @ [e]" "q_remote_ids q' = q_remote_ids q" "entry_id e = q_next_id q"
    and ps: "ps = zip (map queue_entry_id items) (q_entries q)"
  shows "set (map queue_entry_id items) \<subseteq> I \<Longrightarrow>
      sort_entries (q_remote_ids q') I (q_entries q') [] Map.empty [] = ([], map_of ps, [e])"
    and "merge_incoming (queue_rows items @ rows) (map_of ps) u q0 = merge_incoming rows Map.empty u (place_all ps q0)"
    and "q_entries (place_all ps q0) = q_entries q0 @ q_entries q"
    and "map (\<lambda>e. q_remote_ids (place_all ps q0) (entry_id e)) (q_entries q) = map (\<lambda>item. Some (queue_entry_id item)) items"
    and "q_remote_ids (place_all ps q0) (entry_id e) = q_remote_ids q0 (entry_id e)"
    and "\<forall>x \<in> set (q_entries q). entry_id x \<noteq> entry_id e"
proof -
  let ?rs = "map queue_entry_id items"
  have len: "length (q_entries q) = length items"
    using arg_cong [OF step [unfolded in_step_def], of length] by (simp add: queue_rows_def)
  have remotes: "map (\<lambda>e. q_remote_ids q (entry_id e)) (q_entries q) = map (\<lambda>r. Some r) ?rs"
    and texts: "map entry_text (q_entries q) = map qi_text items"
    using arg_cong [OF step [unfolded in_step_def], of "map fst"] arg_cong [OF step [unfolded in_step_def], of "map snd"]
    by (simp_all add: queue_rows_def comp_def)
  have rows: "queue_rows items = map (\<lambda>(r, e). (r, entry_text e)) ps"
    using texts len by (auto simp: ps queue_rows_def list_eq_iff_nth_eq)
  have fsts: "map fst ps = ?rs" and snds: "map snd ps = q_entries q" using len by (simp_all add: ps)
  have fresh: "q_remote_ids q (entry_id e) = None" using inv q'(3) by (simp add: sq_inv_def)
  have ids_q: "distinct (map entry_id (q_entries q))" "\<forall>x \<in> set (q_entries q). entry_id x < q_next_id q"
    using inv by (simp_all add: sq_inv_def entries_ok_def)
  show "sort_entries (q_remote_ids q') I (q_entries q') [] Map.empty [] = ([], map_of ps, [e])" if "set ?rs \<subseteq> I"
    using sort_confirmed [OF remotes that] confirm_all_distinct [of ps] ids fresh fsts
    by (simp add: q'(1,2) sort_entries_append ps)
  show "merge_incoming (queue_rows items @ rows) (map_of ps) u q0 = merge_incoming rows Map.empty u (place_all ps q0)" for rows
    unfolding rows by (rule merge_confirmed) (use fsts ids in simp)
  show "q_entries (place_all ps q0) = q_entries q0 @ q_entries q" by (simp add: place_all_entries snds)
  show others: "\<forall>x \<in> set (q_entries q). entry_id x \<noteq> entry_id e" using ids_q(2) q'(3) by auto
  then show "q_remote_ids (place_all ps q0) (entry_id e) = q_remote_ids q0 (entry_id e)"
    by (intro place_all_ids) (auto simp: snds [symmetric])
  have mapped: "q_remote_ids (place_all ps q0) (entry_id x) = Some s" if "(s, x) \<in> set ps" for s x
    using ids_q(1) arg_cong [OF snds, of "map entry_id"] by (intro place_all_mapped [OF _ that]) simp
  have "q_remote_ids (place_all ps q0) (entry_id (q_entries q ! k)) = Some (?rs ! k)" if "k < length items" for k
    using that len by (intro mapped) (auto simp: ps in_set_zip intro!: exI [of _ k])
  then show "map (\<lambda>e. q_remote_ids (place_all ps q0) (entry_id e)) (q_entries q) = map (\<lambda>item. Some (queue_entry_id item)) items"
    using len by (auto simp: list_eq_iff_nth_eq)
qed

text \<open>
  The snapshot that follows an enqueue: everything known is confirmed in place, and the new row is
  the entry that has been waiting for it.
\<close>

lemma step_snapshot:
  assumes step: "sq_inv q" "in_step q items" "distinct (map queue_entry_id items)"
      "q_entries q' = q_entries q @ [e]" "q_remote_ids q' = q_remote_ids q" "entry_id e = q_next_id q"
    and last: "queue_entry_id item \<notin> set (map queue_entry_id items)" "qi_text item = entry_text e"
    and out: "replace_remote_items (queue_rows (items @ [item])) paused q' = (dispatched, q'')"
  shows "dispatched = [] \<and> in_step q'' (items @ [item])"
proof -
  define ps where "ps = zip (map queue_entry_id items) (q_entries q)"
  define q0 where "q0 = q'\<lparr>q_entries := [], q_remote_ids := Map.empty, q_state := paused_state paused\<rparr>"
  note loops = step_loops [OF step ps_def]
  have rows: "queue_rows (items @ [item]) = queue_rows items @ [(queue_entry_id item, entry_text e)]"
    by (simp add: queue_rows_def last(2))
  have I: "set (map queue_entry_id items) \<subseteq> set (map fst (queue_rows (items @ [item])))" by (auto simp: queue_rows_def)
  have "merge_incoming (queue_rows (items @ [item])) (map_of ps) [e] q0
      = ([], place_row (queue_entry_id item) (entry_text e) e (place_all ps q0))"
    unfolding rows loops(2) by (subst merge_incoming_adopt [of _ _ _ _ 0]) simp_all
  note merged = this [unfolded q0_def]
  have tidy: "x\<lparr>q_entries := q_entries x @ [], q_can_fast_track := q_can_fast_track x\<rparr> = x" for x :: send_queue by simp
  have "q_entries (place_row r s x y) \<noteq> []" for r s x y by (simp add: place_row_def)
  then have out': "(dispatched, q'') = ([], place_row (queue_entry_id item) (entry_text e) e (place_all ps q0))"
    unfolding out [symmetric] replace_remote_items_def loops(1) [OF I] Let_def prod.case merged by (simp add: tidy q0_def)
  have "map entry_text (q_entries q) = map qi_text items"
    using arg_cong [OF step(2) [unfolded in_step_def], of "map snd"] by (simp add: queue_rows_def comp_def)
  moreover have "map (\<lambda>x. q_remote_ids q'' (entry_id x)) (q_entries q) = map (\<lambda>item. Some (queue_entry_id item)) items"
    using loops(4) [of q0] loops(6) out' by (simp add: place_row_def cong: map_cong)
  ultimately have "map (\<lambda>x. (q_remote_ids q'' (entry_id x), entry_text x)) (q_entries q)
      = map (\<lambda>row. (Some (fst row), snd row)) (queue_rows items)"
    by (simp add: list_eq_iff_nth_eq queue_rows_def)
  moreover have "q_entries q'' = q_entries q @ [e]" "q_remote_ids q'' (entry_id e) = Some (queue_entry_id item)"
    using out' loops(3) [of q0] by (simp_all add: place_row_def q0_def)
  ultimately show ?thesis using out' rows by (simp add: in_step_def last(2))
qed

text \<open>A snapshot that does not know the waiting entry leaves it waiting.\<close>

lemma step_ignored:
  assumes step: "sq_inv q" "in_step q items" "distinct (map queue_entry_id items)"
      "q_entries q' = q_entries q @ [e]" "q_remote_ids q' = q_remote_ids q" "entry_id e = q_next_id q"
    and out: "replace_remote_items (queue_rows items) paused q' = (dispatched, q'')"
  shows "dispatched = [] \<and> e \<in> set (q_entries q'') \<and> q_remote_ids q'' (entry_id e) = None"
proof -
  define ps where "ps = zip (map queue_entry_id items) (q_entries q)"
  define q0 where "q0 = q'\<lparr>q_entries := [], q_remote_ids := Map.empty, q_state := paused_state paused\<rparr>"
  note loops = step_loops [OF step ps_def]
  have I: "set (map queue_entry_id items) \<subseteq> set (map fst (queue_rows items))" by (auto simp: queue_rows_def)
  have "merge_incoming (queue_rows items) (map_of ps) [e] q0 = ([e], place_all ps q0)"
    using loops(2) [of "[]" "[e]" q0] by simp
  note merged = this [unfolded q0_def]
  have "dispatched = [] \<and> q'' = (place_all ps q0)\<lparr>q_entries := q_entries (place_all ps q0) @ [e], q_can_fast_track := True\<rparr>"
    using out unfolding replace_remote_items_def loops(1) [OF I] Let_def prod.case merged by (auto simp: q0_def)
  then show ?thesis using loops(5) [of q0] by (simp add: q0_def)
qed

section \<open>From the compose box to the gateway's queue and back\<close>

definition info_of :: "queue_item \<Rightarrow> queue_item_info" where
  "info_of item = \<lparr>info_entry_id = queue_entry_id item, info_idempotency_key = idempotency_key item,
     info_text = qi_text item, info_state = qi_state item, info_position = qi_position item\<rparr>"

lemma info_rows: "map (\<lambda>i. (info_entry_id i, info_text i)) (map info_of items) = queue_rows items"
  by (simp add: info_of_def queue_rows_def)

lemmas info_rows_comp = info_rows [unfolded map_map]

lemma number_rows: "queue_rows (number_queue items) = queue_rows items"
proof -
  have "queue_rows (map (\<lambda>(i, item). item\<lparr>qi_position := of_nat i\<rparr>) (enumerate n items)) = queue_rows items" for n
    by (induction items arbitrary: n) (simp_all add: queue_rows_def)
  then show ?thesis by (simp add: number_queue_def)
qed

text \<open>The enqueue of a thread whose queue belongs to the gateway, as it is sent.\<close>

definition prompt_params :: "string \<Rightarrow> nat \<Rightarrow> string \<Rightarrow> mutation_params" where
  "prompt_params s n txt = \<lparr>mp_idempotency_key = request_key (Some s) ''enqueue'' (Some n), mp_operation = QEnqueue,
     mp_queue_entry_id = Some (''queue-'' @ show_nat n), mp_text = Some txt\<rparr>"

lemma prompt_params_simps [simp]:
  "mp_idempotency_key (prompt_params s n prompt) = request_key (Some s) ''enqueue'' (Some n)"
  "mp_operation (prompt_params s n prompt) = QEnqueue"
  "mp_queue_entry_id (prompt_params s n prompt) = Some (''queue-'' @ show_nat n)"
  "mp_text (prompt_params s n prompt) = Some prompt"
  by (simp_all add: prompt_params_def)

definition waiting_entry :: "send_queue \<Rightarrow> string \<Rightarrow> queue_entry" where
  "waiting_entry q txt = \<lparr>entry_id = q_next_id q, entry_text = txt, entry_steer = False\<rparr>"

lemma enqueue_written:
  "sq_enqueue ser Written txt False q fs
    = (let q' = q\<lparr>q_next_id := q_next_id q + 1, q_entries := q_entries q @ [waiting_entry q txt],
         q_state := AutoProcess, q_can_fast_track := True\<rparr> in (q', fst (sq_persist ser Written q' fs), Inr (q_next_id q)))"
  by (simp add: sq_enqueue_def next_id_def persisted_then waiting_entry_def)

lemma send_while_running:
  assumes "thread_at m i = Some t" "in_flight (thread_state t)" "server_queue t" "session_id t = Some s"
    and "sq_inv (send_queue t)" "env_disk env = Written"
    and "update_send_requested env i txt m = (m', effects, marks)"
  shows "\<exists>t'. thread_at m' i = Some t' \<and> server_queue t' \<and> in_flight (thread_state t')
      \<and> send_queue t' = fst (sq_enqueue (env_ser env) Written txt False (send_queue t) (disk m))
      \<and> map (\<lambda>e. read_mutation (bind_session s (mutation_body e))) effects
          = [Some (s, prompt_params s (q_next_id (send_queue t)) txt)]"
proof -
  let ?q = "send_queue t"
  have lookup: "entry_by_id (fst (sq_enqueue (env_ser env) Written txt False ?q (disk m))) (q_next_id ?q) = Some (waiting_entry ?q txt)"
  proof -
    have "find (\<lambda>e. entry_id e = q_next_id ?q) (q_entries ?q) = None"
      using assms(5) by (auto simp: sq_inv_def entries_ok_def find_None_iff)
    then show ?thesis by (simp add: enqueue_written entry_by_id_def waiting_entry_def Let_def find_append)
  qed
  define q1 fs1 where "q1 = fst (sq_enqueue (env_ser env) Written txt False ?q (disk m))"
    and "fs1 = fst (snd (sq_enqueue (env_ser env) Written txt False ?q (disk m)))"
  then have r: "sq_enqueue (env_ser env) Written txt False ?q (disk m) = (q1, fs1, Inr (q_next_id ?q))"
    by (simp add: enqueue_written Let_def)
  have found: "entry_by_id q1 (q_next_id ?q) = Some (waiting_entry ?q txt)" using lookup by (simp add: r)
  have "update_send_queued env i txt t (m\<lparr>compose_text := []\<rparr>) = (m', effects, marks)"
    using assms(1,2,7) by (simp add: update_send_requested_def Let_def)
  then have m': "m' = (set_thread i (fst (project_rows env (expanded m) (t\<lparr>send_queue := q1\<rparr>))) (m\<lparr>compose_text := []\<rparr>))\<lparr>disk := fs1\<rparr>"
    and effects: "effects = [queue_request i (Some s) ''enqueue'' (Some (q_next_id ?q)) (Some (''queue-'' @ show_nat (q_next_id ?q)))
        (Some txt)]"
    by (auto simp: update_send_queued_def r assms(3,4,6) found Let_def case_prod_beta waiting_entry_def)
  obtain keys where keys: "fst (project_rows env (expanded m) (t\<lparr>send_queue := q1\<rparr>)) = t\<lparr>send_queue := q1, transcript_keys := keys\<rparr>"
    using project_rows_thread by blast
  have "map (\<lambda>e. read_mutation (bind_session s (mutation_body e))) effects = [Some (s, prompt_params s (q_next_id ?q) txt)]"
    by (simp add: effects queue_request_read operation_of_name_def prompt_params_def or_else_def)
  moreover have "thread_at m' i = Some (t\<lparr>send_queue := q1, transcript_keys := keys\<rparr>)"
    using assms(1) by (simp add: m' keys thread_at_set)
  ultimately show ?thesis using assms(2,3) by (simp add: r)
qed

lemma queue_changed_queue:
  assumes "server_queue t" "event_queue_changed env ex (map info_of items) paused t = (t', effects, marks)"
    and "replace_remote_items (queue_rows items) paused (send_queue t) = (dispatched, q)"
  shows "send_queue t' = q \<and> effects = map (RecordLocalMessage (thread_id t)) dispatched"
proof -
  have keep: "send_queue (fst (project_rows env ex u)) = send_queue u" for u
    using project_rows_thread [of env ex u] by auto
  show ?thesis using assms(2,3) keep by (auto simp: event_queue_changed_def info_rows_comp Let_def case_prod_beta)
qed

lemma enqueued_queue:
  assumes "q' = fst (sq_enqueue ser Written s False q fs)"
  shows "q_entries q' = q_entries q @ [waiting_entry q s]" "q_remote_ids q' = q_remote_ids q"
    "entry_id (waiting_entry q s) = q_next_id q"
  by (simp_all add: assms enqueue_written waiting_entry_def Let_def)


text \<open>A panel that has one queued prompt, known to the gateway under the given id, and a running turn.\<close>

definition gateway_item :: "string \<Rightarrow> queue_item" where
  "gateway_item i = \<lparr>queue_entry_id = i, idempotency_key = ''panel:s:enqueue:0'', qi_text = ''first'', qi_state = ''queued'', qi_position = 0\<rparr>"

definition gateway_state :: "string \<Rightarrow> replay_state" where
  "gateway_state i = \<lparr>rs_queue = [gateway_item i], rs_paused = False, rs_claimed = []\<rparr>"

definition restarted_thread :: "string \<Rightarrow> thread" where
  "restarted_thread i = (default_thread sample_env)\<lparr>session_id := Some ''s'', thread_state := Loading,
     send_queue := snd (replace_remote_items (queue_rows [gateway_item i]) False sq_default)\<rparr>"

definition restarted :: "string \<Rightarrow> panel" where
  "restarted i = default_panel\<lparr>threads := [restarted_thread i], visible_indices := [0]\<rparr>"

lemma restarted_queue:
  "send_queue (restarted_thread i) = sq_default\<lparr>q_entries := [\<lparr>entry_id = 0, entry_text = ''first'', entry_steer = False\<rparr>],
     q_next_id := 1, q_remote_ids := [0 \<mapsto> i]\<rparr>"
  by (simp add: restarted_thread_def gateway_item_def queue_rows_def replace_remote_items_def sq_default_def next_id_def
    paused_state_def merge_incoming.simps Let_def)

lemma restarted_facts:
  "thread_at (restarted i) 0 = Some (restarted_thread i)" "in_flight (thread_state (restarted_thread i))"
  "server_queue (restarted_thread i)" "session_id (restarted_thread i) = Some ''s''"
  "sq_inv (send_queue (restarted_thread i))" "env_disk sample_env = Written"
  "in_step (send_queue (restarted_thread i)) (rs_queue (gateway_state i))"
  "distinct (map queue_entry_id (rs_queue (gateway_state i)))"
  "q_next_id (send_queue (restarted_thread i)) = 1"
proof -
  show "sq_inv (send_queue (restarted_thread i))"
    by (simp add: restarted_queue sq_inv_def entries_ok_def)
  show "in_step (send_queue (restarted_thread i)) (rs_queue (gateway_state i))"
    by (simp add: restarted_queue in_step_def queue_rows_def gateway_state_def gateway_item_def)
  show "in_flight (thread_state (restarted_thread i))" "server_queue (restarted_thread i)"
    "session_id (restarted_thread i) = Some ''s''"
    by (simp_all add: restarted_thread_def default_thread_def in_flight_def)
qed (simp_all add: restarted_queue restarted_def thread_at_def gateway_state_def sample_env_def)


section \<open>After a restart of the panel\<close>

text \<open>
  The panel numbers its entries from 0 again after a restart, while the gateway still queues items
  under the ids of the run before.  A prompt whose new number is one of those ids is a duplicate
  for the gateway: it answers with its old queue, the prompt is not in it, and the panel's entry
  waits for a confirmation that no later snapshot of that queue brings.
\<close>

theorem reused_entry_id_loses_prompt:
  assumes thread: "thread_at m i = Some t" "in_flight (thread_state t)" "server_queue t" "session_id t = Some s"
      "sq_inv (send_queue t)" "env_disk env = Written"
    and step: "in_step (send_queue t) (rs_queue st)" "distinct (map queue_entry_id (rs_queue st))"
    and reused: "''queue-'' @ show_nat (q_next_id (send_queue t)) \<in> set (map queue_entry_id (rs_queue st))"
    and sent: "update_send_requested env i prompt m = (m', effects, marks)" "thread_at m' i = Some t'"
    and applied: "mutate_plan (prompt_params s (q_next_id (send_queue t)) prompt) st = (items, paused, entry, rc)"
    and returned: "event_queue_changed env ex (map info_of items) paused t' = (t'', effects', marks')"
  shows "map qi_text items = map qi_text (rs_queue st)
    \<and> waiting_entry (send_queue t) prompt \<in> set (q_entries (send_queue t''))
    \<and> remote_id_for (send_queue t'') (q_next_id (send_queue t)) = None"
proof -
  let ?q = "send_queue t" and ?p = "prompt_params s (q_next_id (send_queue t)) prompt"
  from send_while_running [OF thread sent(1)] sent(2)
  have t': "server_queue t'" "send_queue t' = fst (sq_enqueue (env_ser env) Written prompt False ?q (disk m))" by auto
  have "\<exists>x \<in> set (rs_queue st @ rs_claimed st). is_duplicate ?p x"
    using reused by (auto simp: is_duplicate_def)
  then have "find_duplicate ?p st \<noteq> None" by (auto simp: find_duplicate_def find_None_iff)
  then have items: "items = number_queue (rs_queue st)"
    using applied by (auto simp: mutate_plan_def mutated_queue_def Let_def)
  have texts: "map qi_text items = map qi_text (rs_queue st)"
    using arg_cong [OF number_rows [of "rs_queue st"], of "map snd"] by (simp add: items queue_rows_def comp_def)
  obtain dispatched q where merged: "replace_remote_items (queue_rows items) paused (send_queue t') = (dispatched, q)" by fastforce
  have "waiting_entry ?q prompt \<in> set (q_entries q) \<and> q_remote_ids q (entry_id (waiting_entry ?q prompt)) = None"
    using step_ignored [OF thread(5) step enqueued_queue [OF t'(2)]] merged unfolding items number_rows by blast
  then show ?thesis
    using texts queue_changed_queue [OF t'(1) returned merged] by (simp add: remote_id_for_def waiting_entry_def)
qed

theorem reused_entry_id_loses_prompt_witness:
  "\<exists>(items :: queue_item list) (q :: send_queue). map qi_text items = [''first''] \<and> waiting_entry (send_queue (restarted_thread ''queue-1'')) ''second'' \<in> set (q_entries q)"
proof -
  let ?m = "restarted ''queue-1''" and ?t = "restarted_thread ''queue-1''" and ?st = "gateway_state ''queue-1''"
  obtain m' effects marks where sent: "update_send_requested sample_env 0 ''second'' ?m = (m', effects, marks)"
    by (metis prod_cases3)
  obtain t' where t': "thread_at m' 0 = Some t'"
    using send_while_running [OF restarted_facts(1-6) sent] by blast
  obtain items paused entry rc where applied:
    "mutate_plan (prompt_params ''s'' (q_next_id (send_queue ?t)) ''second'') ?st = (items, paused, entry, rc)"
    by (metis prod_cases4)
  obtain t'' effects' marks' where returned: "event_queue_changed sample_env [] (map info_of items) paused t' = (t'', effects', marks')"
    by (metis prod_cases3)
  have "show_nat 1 = ''1''" by code_simp
  then have "''queue-'' @ show_nat (q_next_id (send_queue ?t)) \<in> set (map queue_entry_id (rs_queue ?st))"
    by (simp add: restarted_facts(9) gateway_state_def gateway_item_def)
  from reused_entry_id_loses_prompt [OF restarted_facts(1-8) this sent t' applied returned]
  have "map qi_text items = [''first'']" "waiting_entry (send_queue ?t) ''second'' \<in> set (q_entries (send_queue t''))"
    by (simp_all add: gateway_state_def gateway_item_def)
  then show ?thesis by (intro exI [of _ items] exI [of _ "send_queue t''"] conjI)
qed

end
