(* ===== verification/JsonPath.thy ===== *)
theory JsonPath
  imports JsonView "HOL-Library.AList"
begin

text \<open>
  Paths into a JSON value: \<open>Value::pointer\<close> with names, \<open>as_u64\<close>, \<open>as_object\<close>, and assignment through
  \<open>IndexMut\<close> (\<open>request["params"]["sessionId"] = \<dots>\<close>), which makes an object of \<open>null\<close>, adds a
  missing field, and panics (\<open>None\<close>) on any other value.
\<close>

fun pointer :: "string list \<Rightarrow> json \<Rightarrow> json option" where
  "pointer [] v = Some v"
| "pointer (k # ks) v = Option.bind (json_get k v) (pointer ks)"

definition str_at :: "string list \<Rightarrow> json \<Rightarrow> string option" where
  "str_at ks v = Option.bind (pointer ks v) as_str"

fun as_u64 :: "json \<Rightarrow> nat option" where
  "as_u64 (JNumber n) = parse_usize n"
| "as_u64 v = None"

fun as_object :: "json \<Rightarrow> (string \<times> json) list option" where
  "as_object (JObject kvs) = Some kvs"
| "as_object v = None"

fun set_path :: "string list \<Rightarrow> json \<Rightarrow> json \<Rightarrow> json option" where
  "set_path [] x v = Some x"
| "set_path (k # ks) x (JObject kvs) =
     map_option (\<lambda>y. JObject (AList.update k y kvs))
       (set_path ks x (case map_of kvs k of None \<Rightarrow> JNull | Some v \<Rightarrow> v))"
| "set_path (k # ks) x JNull = map_option (\<lambda>y. JObject [(k, y)]) (set_path ks x JNull)"
| "set_path (k # ks) x v = None"

lemma json_get_update: "json_get k (JObject (AList.update k' x kvs)) = (if k = k' then Some x else map_of kvs k)"
  by (simp add: update_conv')

lemma set_path_pointer: "set_path ks x v = Some v' \<Longrightarrow> pointer ks v' = Some x"
  by (induction ks x v arbitrary: v' rule: set_path.induct) (auto simp: update_conv' split: option.splits)

text \<open>What stands at a path can be replaced, and nothing beside the path changes.\<close>

lemma set_path_present: "pointer ks v \<noteq> None \<Longrightarrow> set_path ks x v \<noteq> None"
proof (induction ks arbitrary: v)
  case (Cons k ks)
  then obtain kvs w where "v = JObject kvs" "map_of kvs k = Some w" "pointer ks w \<noteq> None"
    by (cases v) (auto simp: bind_eq_Some_conv)
  with Cons.IH [of w] show ?case by auto
qed simp

lemma set_path_elsewhere:
  "set_path (k # ks) x v = Some v' \<Longrightarrow> j \<noteq> k \<Longrightarrow> json_get j v' = json_get j v"
  by (cases v) (auto simp: update_conv' split: option.splits)

lemma json_get_object: "json_get k v = Some x \<Longrightarrow> \<exists>kvs. v = JObject kvs \<and> map_of kvs k = Some x"
  by (cases v) auto

end
