(* ===== verification/BridgeSessions.thy ===== *)
theory BridgeSessions
  imports SessionRegistry JsonView
begin

text \<open>
  The virtual sessions of the ACP bridge: \<open>acpx-core/src/bridge_sessions.rs\<close>.  A virtual session
  exists before the agent's session does; the first prompt claims the work of creating it.  Every
  operation of the code runs under one mutex and is one function here; the fresh id of
  \<open>Uuid::new_v4\<close> and \<open>Instant::now()\<close> are arguments.
\<close>

section \<open>State\<close>

text \<open>The parameters of \<open>session/new\<close> (\<open>NewSessionParams\<close> of \<open>acpx-proto/src/session.rs\<close>), kept as sent.\<close>

record new_session_params =
  np_cwd :: string
  np_mcp_servers :: "json list"
  np_acpx :: "string option option"
  np_rest :: "(string \<times> json) list"

datatype bridge_session_state = Unbound | Binding | Bound | Failed

record bridge_session =
  bs_id :: string
  bs_params :: new_session_params
  bs_cwd :: string
  bs_model :: "string option"
  bs_options :: "(string \<times> string) list"
  bs_gateway_id :: "string option"
  bs_state :: bridge_session_state
  bs_created_at :: instant

datatype binding_claim = Owner | ClaimBinding | ClaimBound | ClaimFailed

datatype bridge_session_error =
    BridgeNotFound tenant_id string
  | InvalidState string string bridge_session_state
  | VirtualSessionQuotaExceeded tenant_id nat nat

type_synonym bridge_store = "(tenant_id \<times> (string \<times> bridge_session) list) list"

section \<open>Operations\<close>

definition new_bridge_session :: "string \<Rightarrow> new_session_params \<Rightarrow> instant \<Rightarrow> bridge_session" where
  "new_bridge_session fresh params now =
     \<lparr>bs_id = fresh, bs_params = params, bs_cwd = np_cwd params, bs_model = None, bs_options = [],
      bs_gateway_id = None, bs_state = Unbound, bs_created_at = now\<rparr>"

definition bound_bridge_session ::
  "string \<Rightarrow> new_session_params \<Rightarrow> string option \<Rightarrow> (string \<times> string) list \<Rightarrow> string \<Rightarrow> instant \<Rightarrow> bridge_session"
where
  "bound_bridge_session i params model options gateway now =
     \<lparr>bs_id = i, bs_params = params, bs_cwd = np_cwd params, bs_model = model, bs_options = options,
      bs_gateway_id = Some gateway, bs_state = Bound, bs_created_at = now\<rparr>"

text \<open>\<open>entry(tenant).or_default()\<close> leaves an empty map behind when the quota refuses the session.\<close>

definition or_default :: "tenant_id \<Rightarrow> bridge_store \<Rightarrow> bridge_store" where
  "or_default t m = AList.update t (inner_map m t) m"

definition count_for_tenant :: "tenant_id \<Rightarrow> bridge_store \<Rightarrow> nat" where
  "count_for_tenant t m = length (inner_map m t)"

definition try_register ::
  "string \<Rightarrow> instant \<Rightarrow> tenant_id \<Rightarrow> new_session_params \<Rightarrow> nat option \<Rightarrow> bridge_store
    \<Rightarrow> bridge_store \<times> (bridge_session_error + string)"
where
  "try_register fresh now t params limit m =
     (let current = count_for_tenant t m
      in case limit of
           Some n \<Rightarrow>
             if n \<le> current then (or_default t m, Inl (VirtualSessionQuotaExceeded t current n))
             else (nested_insert t fresh (new_bridge_session fresh params now) m, Inr fresh)
         | None \<Rightarrow> (nested_insert t fresh (new_bridge_session fresh params now) m, Inr fresh))"

definition stale_unbound :: "instant \<Rightarrow> duration \<Rightarrow> bridge_session \<Rightarrow> bool" where
  "stale_unbound now ttl s \<longleftrightarrow> bs_state s = Unbound \<and> ttl \<le> now - bs_created_at s"

definition reap_stale_unbound :: "instant \<Rightarrow> duration \<Rightarrow> bridge_store \<Rightarrow> bridge_store \<times> nat" where
  "reap_stale_unbound now ttl m =
     (map (\<lambda>(t, kvs). (t, filter (\<lambda>(k, s). \<not> stale_unbound now ttl s) kvs)) m,
      length (filter (\<lambda>(t, k, s). stale_unbound now ttl s) (nested_entries m)))"

text \<open>
  The shape of the operations on one session: look it up (\<open>session_mut\<close>), refuse it in a wrong
  state, or change it in place.
\<close>

definition on_session ::
  "tenant_id \<Rightarrow> string \<Rightarrow> (bridge_session \<Rightarrow> bridge_session_error + bridge_session \<times> 'a) \<Rightarrow> bridge_store
    \<Rightarrow> bridge_store \<times> (bridge_session_error + 'a)"
where
  "on_session t k f m =
     (case nested_get m t k of
        None \<Rightarrow> (m, Inl (BridgeNotFound t k))
      | Some s \<Rightarrow> (case f s of Inl e \<Rightarrow> (m, Inl e) | Inr (s', x) \<Rightarrow> (nested_insert t k s' m, Inr x)))"

definition in_state ::
  "bridge_session_state \<Rightarrow> string \<Rightarrow> string \<Rightarrow> (bridge_session \<Rightarrow> bridge_session) \<Rightarrow> bridge_session
    \<Rightarrow> bridge_session_error + bridge_session \<times> bridge_session"
where
  "in_state required operation k change s =
     (if bs_state s \<noteq> required then Inl (InvalidState operation k (bs_state s))
      else let s' = change s in Inr (s', s'))"

definition select_model ::
  "tenant_id \<Rightarrow> string \<Rightarrow> string \<Rightarrow> bridge_store \<Rightarrow> bridge_store \<times> (bridge_session_error + bridge_session)"
where
  "select_model t k alias =
     on_session t k (in_state Unbound ''select model'' k (\<lambda>s. s\<lparr>bs_model := Some alias\<rparr>))"

definition update_bound_model ::
  "tenant_id \<Rightarrow> string \<Rightarrow> string \<Rightarrow> bridge_store \<Rightarrow> bridge_store \<times> (bridge_session_error + bridge_session)"
where
  "update_bound_model t k alias =
     on_session t k (in_state Bound ''update bound model'' k (\<lambda>s. s\<lparr>bs_model := Some alias\<rparr>))"

definition set_option :: "string \<Rightarrow> string \<Rightarrow> bridge_session \<Rightarrow> bridge_session" where
  "set_option config val s = s\<lparr>bs_options := AList.update config val (bs_options s)\<rparr>"

definition update_bound_adapter_config_option ::
  "tenant_id \<Rightarrow> string \<Rightarrow> string \<Rightarrow> string \<Rightarrow> bridge_store \<Rightarrow> bridge_store \<times> (bridge_session_error + bridge_session)"
where
  "update_bound_adapter_config_option t k config val =
     on_session t k (in_state Bound ''update adapter config option'' k (set_option config val))"

definition select_adapter_config_option ::
  "tenant_id \<Rightarrow> string \<Rightarrow> string \<Rightarrow> string \<Rightarrow> bridge_store \<Rightarrow> bridge_store \<times> (bridge_session_error + bridge_session)"
where
  "select_adapter_config_option t k config val =
     on_session t k (in_state Unbound ''select adapter config option'' k (set_option config val))"

definition register_bound ::
  "string \<Rightarrow> instant \<Rightarrow> tenant_id \<Rightarrow> new_session_params \<Rightarrow> string option \<Rightarrow> (string \<times> string) list \<Rightarrow> string
    \<Rightarrow> bridge_store \<Rightarrow> bridge_store \<times> string"
where
  "register_bound fresh now t params model options gateway m =
     (nested_insert t fresh (bound_bridge_session fresh params model options gateway now) m, fresh)"

definition restore_bound ::
  "instant \<Rightarrow> tenant_id \<Rightarrow> string \<Rightarrow> new_session_params \<Rightarrow> string option \<Rightarrow> (string \<times> string) list \<Rightarrow> string
    \<Rightarrow> bridge_store \<Rightarrow> bridge_store \<times> (bridge_session_error + unit)"
where
  "restore_bound now t k params model options gateway m =
     (case nested_get m t k of
        Some existing \<Rightarrow> (or_default t m, Inl (InvalidState ''restore binding'' k (bs_state existing)))
      | None \<Rightarrow> (nested_insert t k (bound_bridge_session k params model options gateway now) m, Inr ()))"

definition begin_binding ::
  "tenant_id \<Rightarrow> string \<Rightarrow> bridge_store \<Rightarrow> bridge_store \<times> (bridge_session_error + binding_claim)"
where
  "begin_binding t k =
     on_session t k (\<lambda>s. Inr
       (case bs_state s of
          Unbound \<Rightarrow> (s\<lparr>bs_state := Binding\<rparr>, Owner)
        | Binding \<Rightarrow> (s, ClaimBinding)
        | Bound \<Rightarrow> (s, ClaimBound)
        | Failed \<Rightarrow> (s, ClaimFailed)))"

definition finish_binding ::
  "tenant_id \<Rightarrow> string \<Rightarrow> string \<Rightarrow> bridge_store \<Rightarrow> bridge_store \<times> (bridge_session_error + bridge_session)"
where
  "finish_binding t k gateway =
     on_session t k (in_state Binding ''finish binding'' k (\<lambda>s. s\<lparr>bs_gateway_id := Some gateway, bs_state := Bound\<rparr>))"

definition transition_from_binding ::
  "tenant_id \<Rightarrow> string \<Rightarrow> bridge_session_state \<Rightarrow> string \<Rightarrow> bridge_store
    \<Rightarrow> bridge_store \<times> (bridge_session_error + bridge_session)"
where
  "transition_from_binding t k next_state operation =
     on_session t k (in_state Binding operation k (\<lambda>s. s\<lparr>bs_state := next_state\<rparr>))"

definition fail_binding ::
  "tenant_id \<Rightarrow> string \<Rightarrow> bridge_store \<Rightarrow> bridge_store \<times> (bridge_session_error + bridge_session)"
where
  "fail_binding t k = transition_from_binding t k Failed ''fail binding''"

definition remove_bridge_session :: "tenant_id \<Rightarrow> string \<Rightarrow> bridge_store \<Rightarrow> bridge_store \<times> bridge_session option" where
  "remove_bridge_session t k m =
     (case map_of m t of
        None \<Rightarrow> (m, None)
      | Some kvs \<Rightarrow> (AList.update t (AList.delete k kvs) m, map_of kvs k))"

definition get_bridge_session :: "tenant_id \<Rightarrow> string \<Rightarrow> bridge_store \<Rightarrow> bridge_session option" where
  "get_bridge_session t k m = nested_get m t k"

definition bound_gateway_session_id :: "tenant_id \<Rightarrow> string \<Rightarrow> bridge_store \<Rightarrow> string option" where
  "bound_gateway_session_id t k m = Option.bind (get_bridge_session t k m) bs_gateway_id"

definition find_by_bound_gateway_session_id :: "tenant_id \<Rightarrow> string \<Rightarrow> bridge_store \<Rightarrow> string option" where
  "find_by_bound_gateway_session_id t gateway m =
     map_option fst (find (\<lambda>(k, s). bs_gateway_id s = Some gateway) (inner_map m t))"

section \<open>What the operations do to one session\<close>

lemma bridge_get_update:
  "nested_get (AList.update t kvs m) t' k' = (if t' = t then map_of kvs k' else nested_get m t' k')"
  by (simp add: nested_get_inner)

lemma get_or_default [simp]: "nested_get (or_default t m) t' k' = nested_get m t' k'"
  by (simp add: or_default_def bridge_get_update nested_get_inner)

lemma get_try_register:
  "nested_get (fst (try_register fresh now t params limit m)) t' k' =
     (if t' = t \<and> k' = fresh \<and> (\<forall>n. limit = Some n \<longrightarrow> count_for_tenant t m < n)
      then Some (new_bridge_session fresh params now) else nested_get m t' k')"
  by (auto simp: try_register_def Let_def split: option.split)

lemma get_on_session:
  "nested_get (fst (on_session t k f m)) t' k' =
     (if t' = t \<and> k' = k
      then (case nested_get m t k of None \<Rightarrow> None
            | Some s \<Rightarrow> (case f s of Inl e \<Rightarrow> Some s | Inr (s', x) \<Rightarrow> Some s'))
      else nested_get m t' k')"
  by (auto simp: on_session_def split: option.split sum.split)

lemma get_register_bound:
  "nested_get (fst (register_bound fresh now t params model options gateway m)) t' k' =
     (if t' = t \<and> k' = fresh then Some (bound_bridge_session fresh params model options gateway now)
      else nested_get m t' k')"
  by (simp add: register_bound_def)

lemma get_restore_bound:
  "nested_get (fst (restore_bound now t k params model options gateway m)) t' k' =
     (if t' = t \<and> k' = k \<and> nested_get m t k = None
      then Some (bound_bridge_session k params model options gateway now) else nested_get m t' k')"
  by (auto simp: restore_bound_def split: option.split)

lemma get_remove:
  "nested_get (fst (remove_bridge_session t k m)) t' k' = (if t' = t \<and> k' = k then None else nested_get m t' k')"
proof (cases "map_of m t")
  case (Some kvs)
  then have "nested_get m t = map_of kvs" by (simp add: nested_get_def fun_eq_iff)
  with Some show ?thesis by (auto simp: remove_bridge_session_def bridge_get_update delete_conv')
qed (auto simp: remove_bridge_session_def nested_get_def)

lemma map_of_filter_snd:
  "distinct (map fst kvs) \<Longrightarrow>
    map_of (filter (\<lambda>(k, s). P s) kvs) k = (case map_of kvs k of Some s \<Rightarrow> if P s then Some s else None | None \<Rightarrow> None)"
proof (induction kvs)
  case (Cons p kvs)
  then have "map_of kvs (fst p) = None" by (simp add: map_of_eq_None_iff)
  with Cons show ?case by (cases p) (auto split: option.splits)
qed simp

lemma map_of_map_snd: "map_of (map (\<lambda>(t, kvs). (t, f kvs)) m) t = map_option f (map_of m t)"
  by (induction m) auto

lemma get_reap:
  assumes "nested_ok m"
  shows "nested_get (fst (reap_stale_unbound now ttl m)) t k =
    (case nested_get m t k of None \<Rightarrow> None | Some s \<Rightarrow> if stale_unbound now ttl s then None else Some s)"
proof (cases "map_of m t")
  case (Some kvs)
  then have "distinct (map fst kvs)" using nested_ok_inner [OF assms, of t] by (simp add: inner_map_def)
  from map_of_filter_snd [OF this, of "\<lambda>s. \<not> stale_unbound now ttl s" k] Some
  show ?thesis by (simp add: reap_stale_unbound_def nested_get_def map_of_map_snd split: option.split)
qed (simp add: reap_stale_unbound_def nested_get_def map_of_map_snd)

lemmas bridge_gets =
  get_try_register get_on_session get_register_bound get_restore_bound get_remove

section \<open>Runs\<close>

text \<open>Everything the gateway does to the store, as operations that can come in any order.\<close>

datatype bridge_op =
    Register string instant tenant_id new_session_params "nat option"
  | SelectModel tenant_id string string
  | UpdateBoundModel tenant_id string string
  | SelectOption tenant_id string string string
  | UpdateBoundOption tenant_id string string string
  | RegisterBound string instant tenant_id new_session_params "string option" "(string \<times> string) list" string
  | RestoreBound instant tenant_id string new_session_params "string option" "(string \<times> string) list" string
  | BeginBinding tenant_id string
  | FinishBinding tenant_id string string
  | FailBinding tenant_id string
  | RemoveSession tenant_id string
  | ReapStale instant duration

fun bridge_apply :: "bridge_op \<Rightarrow> bridge_store \<Rightarrow> bridge_store" where
  "bridge_apply (Register fresh now t params limit) m = fst (try_register fresh now t params limit m)"
| "bridge_apply (SelectModel t k alias) m = fst (select_model t k alias m)"
| "bridge_apply (UpdateBoundModel t k alias) m = fst (update_bound_model t k alias m)"
| "bridge_apply (SelectOption t k c v) m = fst (select_adapter_config_option t k c v m)"
| "bridge_apply (UpdateBoundOption t k c v) m = fst (update_bound_adapter_config_option t k c v m)"
| "bridge_apply (RegisterBound fresh now t params model options g) m = fst (register_bound fresh now t params model options g m)"
| "bridge_apply (RestoreBound now t k params model options g) m = fst (restore_bound now t k params model options g m)"
| "bridge_apply (BeginBinding t k) m = fst (begin_binding t k m)"
| "bridge_apply (FinishBinding t k g) m = fst (finish_binding t k g m)"
| "bridge_apply (FailBinding t k) m = fst (fail_binding t k m)"
| "bridge_apply (RemoveSession t k) m = fst (remove_bridge_session t k m)"
| "bridge_apply (ReapStale now ttl) m = fst (reap_stale_unbound now ttl m)"

definition bridge_run :: "bridge_op list \<Rightarrow> bridge_store \<Rightarrow> bridge_store" where
  "bridge_run ops m = fold bridge_apply ops m"

lemmas bridge_on_session_defs =
  select_model_def update_bound_model_def update_bound_adapter_config_option_def
  select_adapter_config_option_def begin_binding_def finish_binding_def fail_binding_def
  transition_from_binding_def

section \<open>The invariant\<close>

text \<open>A session is filed under its own id, and it has a gateway id exactly when it is bound.\<close>

definition bridge_session_ok :: "string \<Rightarrow> bridge_session \<Rightarrow> bool" where
  "bridge_session_ok k s \<longleftrightarrow>
     bs_id s = k \<and> bs_cwd s = np_cwd (bs_params s) \<and> (bs_state s = Bound \<longleftrightarrow> bs_gateway_id s \<noteq> None)"

definition bridge_store_ok :: "bridge_store \<Rightarrow> bool" where
  "bridge_store_ok m \<longleftrightarrow> nested_ok m \<and> (\<forall>t k s. nested_get m t k = Some s \<longrightarrow> bridge_session_ok k s)"

lemma store_ok_nested: "bridge_store_ok m \<Longrightarrow> nested_ok m"
  by (simp add: bridge_store_ok_def)

lemma store_ok_get: "bridge_store_ok m \<Longrightarrow> nested_get m t k = Some s \<Longrightarrow> bridge_session_ok k s"
  by (simp add: bridge_store_ok_def)

lemma nested_ok_or_default: "nested_ok m \<Longrightarrow> nested_ok (or_default t m)"
  by (simp add: or_default_def nested_ok_update nested_ok_inner)

lemma nested_ok_reap: "nested_ok m \<Longrightarrow> nested_ok (fst (reap_stale_unbound now ttl m))"
  by (auto simp: reap_stale_unbound_def nested_ok_def map_map o_def case_prod_unfold distinct_map_filter)

lemma nested_ok_remove_bridge: "nested_ok m \<Longrightarrow> nested_ok (fst (remove_bridge_session t k m))"
  by (auto simp: remove_bridge_session_def inner_map_def dest: nested_ok_inner [of m t] split: option.split
      intro!: nested_ok_update distinct_delete)

lemma nested_ok_on_session: "nested_ok m \<Longrightarrow> nested_ok (fst (on_session t k f m))"
  by (auto simp: on_session_def split: option.split sum.split)

lemma nested_ok_bridge: "nested_ok m \<Longrightarrow> nested_ok (bridge_apply op m)"
  by (cases op)
    (simp_all add: try_register_def register_bound_def restore_bound_def Let_def nested_ok_or_default nested_ok_reap
      nested_ok_remove_bridge nested_ok_on_session bridge_on_session_defs split: option.split)

lemma store_ok_on_session:
  assumes "bridge_store_ok m" "\<And>s s' x. f s = Inr (s', x) \<Longrightarrow> bridge_session_ok k s \<Longrightarrow> bridge_session_ok k s'"
  shows "bridge_store_ok (fst (on_session t k f m))"
  using assms unfolding bridge_store_ok_def
  by (auto simp: get_on_session nested_ok_on_session split: if_splits option.splits sum.splits)

lemma in_state_ok:
  assumes "in_state required operation k' change s = Inr (s', x)" "bridge_session_ok k s"
    and "bs_state s = required \<Longrightarrow> bridge_session_ok k (change s)"
  shows "bridge_session_ok k s'"
  using assms by (auto simp: in_state_def Let_def split: if_splits)

lemma bridge_ok_apply: "bridge_store_ok m \<Longrightarrow> bridge_store_ok (bridge_apply op m)"
proof (cases op)
  case (BeginBinding t k)
  assume "bridge_store_ok m"
  with BeginBinding show ?thesis
    by (auto simp: begin_binding_def bridge_session_ok_def intro!: store_ok_on_session split: bridge_session_state.splits)
next
  case (ReapStale now ttl)
  assume ok: "bridge_store_ok m"
  with ReapStale show ?thesis
    by (auto simp: bridge_store_ok_def nested_ok_reap get_reap split: option.splits if_splits)
next
  case (Register fresh now t params limit)
  assume ok: "bridge_store_ok m"
  with Register nested_ok_bridge [OF store_ok_nested, of m op] show ?thesis
    by (auto simp: bridge_store_ok_def get_try_register new_bridge_session_def bridge_session_ok_def)
next
  case (RegisterBound fresh now t params model options g)
  assume ok: "bridge_store_ok m"
  with RegisterBound nested_ok_bridge [OF store_ok_nested, of m op] show ?thesis
    by (auto simp: bridge_store_ok_def get_register_bound bound_bridge_session_def bridge_session_ok_def)
next
  case (RestoreBound now t k params model options g)
  assume ok: "bridge_store_ok m"
  with RestoreBound nested_ok_bridge [OF store_ok_nested, of m op] show ?thesis
    by (auto simp: bridge_store_ok_def get_restore_bound bound_bridge_session_def bridge_session_ok_def split: if_splits)
next
  case (RemoveSession t k)
  assume ok: "bridge_store_ok m"
  with RemoveSession show ?thesis by (auto simp: bridge_store_ok_def nested_ok_remove_bridge get_remove)
qed (auto simp: bridge_on_session_defs set_option_def bridge_session_ok_def intro!: store_ok_on_session elim!: in_state_ok)

lemma bridge_ok_run: "bridge_store_ok m \<Longrightarrow> bridge_store_ok (bridge_run ops m)"
  by (induction ops arbitrary: m) (simp_all add: bridge_run_def bridge_ok_apply)

lemma bridge_ok_empty [simp]: "bridge_store_ok []"
  by (simp add: bridge_store_ok_def)

section \<open>One owner\<close>

text \<open>How often the run lets a prompt own the binding of a session, and how often it registers one.\<close>

fun owner_claims :: "tenant_id \<Rightarrow> string \<Rightarrow> bridge_op list \<Rightarrow> bridge_store \<Rightarrow> nat" where
  "owner_claims t k [] m = 0"
| "owner_claims t k (op # ops) m =
     (if op = BeginBinding t k \<and> snd (begin_binding t k m) = Inr Owner then 1 else 0)
     + owner_claims t k ops (bridge_apply op m)"

fun registers :: "tenant_id \<Rightarrow> string \<Rightarrow> bridge_op \<Rightarrow> bool" where
  "registers t k (Register fresh now t' params limit) = (t' = t \<and> fresh = k)"
| "registers t k op = False"

definition unbound_there :: "tenant_id \<Rightarrow> string \<Rightarrow> bridge_store \<Rightarrow> bool" where
  "unbound_there t k m \<longleftrightarrow> (\<exists>s. nested_get m t k = Some s \<and> bs_state s = Unbound)"

lemma unbound_on_session:
  assumes "unbound_there t k (fst (on_session t' k' f m))"
    and "\<And>s s' x. f s = Inr (s', x) \<Longrightarrow> bs_state s' = Unbound \<Longrightarrow> bs_state s = Unbound"
  shows "unbound_there t k m"
  using assms by (auto simp: unbound_there_def get_on_session split: if_splits option.splits sum.splits)

lemma unbound_step:
  assumes "nested_ok m" "unbound_there t k (bridge_apply op m)"
  shows "unbound_there t k m \<or> registers t k op"
proof (cases op)
  case (ReapStale now ttl)
  with assms show ?thesis by (auto simp: unbound_there_def get_reap split: option.splits if_splits)
qed (use assms in \<open>auto simp: bridge_on_session_defs in_state_def Let_def set_option_def
      split: if_splits bridge_session_state.splits elim!: unbound_on_session\<close>,
     auto simp: unbound_there_def bridge_gets bound_bridge_session_def split: if_splits)

lemma owner_step:
  "snd (begin_binding t k m) = Inr Owner \<longleftrightarrow> unbound_there t k m"
  "snd (begin_binding t k m) = Inr Owner \<Longrightarrow> \<not> unbound_there t k (fst (begin_binding t k m))"
  by (auto simp: begin_binding_def on_session_def unbound_there_def split: option.splits bridge_session_state.splits)

lemma owner_claims_le:
  "nested_ok m \<Longrightarrow> owner_claims t k ops m \<le> (if unbound_there t k m then 1 else 0) + length (filter (registers t k) ops)"
proof (induction ops arbitrary: m)
  case (Cons op ops)
  from Cons.IH [OF nested_ok_bridge [OF Cons.prems, of op]] unbound_step [OF Cons.prems, of t k op] owner_step [of t k m]
  show ?case by (auto split: if_splits)
qed simp

text \<open>
  C40. Whatever the gateway does with its virtual sessions, in whatever order: a session is filed under
  its own id and has an agent session exactly when it is bound, and no prompt owns the binding of
  a session more often than the session was registered, so with fresh ids at most one prompt does.
\<close>

theorem binding_has_one_owner:
  "bridge_store_ok (bridge_run ops []) \<and> owner_claims t k ops [] \<le> length (filter (registers t k) ops)"
  using owner_claims_le [of "[]" t k ops] by (simp add: bridge_ok_run unbound_there_def)

section \<open>The quota\<close>

lemma length_update_le: "length (AList.update k v kvs) \<le> Suc (length kvs)"
  by (induction kvs) auto

lemma length_update_present: "map_of kvs k \<noteq> None \<Longrightarrow> length (AList.update k v kvs) = length kvs"
  by (induction kvs) auto

lemma count_insert:
  "count_for_tenant t' (nested_insert t k v m) \<le> (if t' = t then Suc (count_for_tenant t m) else count_for_tenant t' m)"
  using length_update_le [of k v "inner_map m t"] by (simp add: count_for_tenant_def)

lemma count_on_session [simp]: "count_for_tenant t' (fst (on_session t k f m)) = count_for_tenant t' m"
  by (auto simp: on_session_def count_for_tenant_def nested_get_inner length_update_present split: option.split sum.split)

lemma count_remove: "count_for_tenant t' (fst (remove_bridge_session t k m)) \<le> count_for_tenant t' m"
proof (cases "map_of m t")
  case (Some kvs)
  then show ?thesis
    by (simp add: remove_bridge_session_def count_for_tenant_def inner_map_def update_conv' AList.delete_eq)
qed (simp add: remove_bridge_session_def)

lemma count_reap: "count_for_tenant t (fst (reap_stale_unbound now ttl m)) \<le> count_for_tenant t m"
  by (auto simp: count_for_tenant_def inner_map_def reap_stale_unbound_def map_of_map_snd split: option.split)

text \<open>Sessions come in by \<open>session/new\<close> under the limit only: nothing is forked or restored.\<close>

fun under_quota :: "tenant_id \<Rightarrow> nat \<Rightarrow> bridge_op \<Rightarrow> bool" where
  "under_quota t limit (Register fresh now t' params n) = (t' = t \<longrightarrow> n = Some limit)"
| "under_quota t limit (RegisterBound fresh now t' params model options g) = (t' \<noteq> t)"
| "under_quota t limit (RestoreBound now t' k params model options g) = (t' \<noteq> t)"
| "under_quota t limit op = True"

lemma count_or_default [simp]: "count_for_tenant t' (or_default t m) = count_for_tenant t' m"
  by (simp add: or_default_def count_for_tenant_def)

lemma quota_step:
  assumes "under_quota t limit op" "count_for_tenant t m \<le> limit"
  shows "count_for_tenant t (bridge_apply op m) \<le> limit"
proof (cases op)
  case (Register fresh now t' params n)
  with assms show ?thesis
    using count_insert [of t t' fresh "new_bridge_session fresh params now" m]
    by (auto simp: try_register_def Let_def split: option.split if_splits)
next
  case (RegisterBound fresh now t' params model options g)
  with assms show ?thesis
    using count_insert [of t t' fresh "bound_bridge_session fresh params model options g now" m]
    by (simp add: register_bound_def)
next
  case (RestoreBound now t' k params model options g)
  with assms show ?thesis
    using count_insert [of t t' k "bound_bridge_session k params model options g now" m]
    by (simp add: restore_bound_def split: option.split)
next
  case (RemoveSession t' k)
  with assms(2) count_remove [of t t' k m] show ?thesis by simp
next
  case (ReapStale now ttl)
  with assms(2) count_reap [of t now ttl m] show ?thesis by simp
qed (use assms in \<open>simp_all add: bridge_on_session_defs\<close>)

lemma quota_kept:
  "\<forall>op \<in> set ops. under_quota t limit op \<Longrightarrow> count_for_tenant t m \<le> limit
    \<Longrightarrow> count_for_tenant t (bridge_run ops m) \<le> limit"
  by (induction ops arbitrary: m) (simp_all add: bridge_run_def quota_step)

text \<open>A fork registers its session without asking for the limit.\<close>

definition plain_params :: new_session_params where
  "plain_params = \<lparr>np_cwd = ''/w'', np_mcp_servers = [], np_acpx = None, np_rest = []\<rparr>"

lemma fork_exceeds_quota:
  "count_for_tenant ''t''
     (bridge_run
       [Register ''a'' 0 ''t'' plain_params (Some 1), BeginBinding ''t'' ''a'', FinishBinding ''t'' ''a'' ''g'',
        RegisterBound ''b'' 0 ''t'' plain_params None [] ''h''] []) = 2"
  by code_simp

text \<open>The reaper takes exactly the sessions that nobody has prompted for as long as the limit.\<close>

lemma reap_takes_stale_unbound:
  assumes "bridge_store_ok m"
  shows "nested_get (fst (reap_stale_unbound now ttl m)) t k = Some s \<longleftrightarrow>
    nested_get m t k = Some s \<and> \<not> (bs_state s = Unbound \<and> ttl \<le> now - bs_created_at s)"
  using get_reap [OF store_ok_nested [OF assms], of now ttl t k]
  by (auto simp: stale_unbound_def split: option.splits if_splits)

section \<open>Tenants\<close>

fun op_tenant :: "bridge_op \<Rightarrow> tenant_id option" where
  "op_tenant (Register fresh now t params limit) = Some t"
| "op_tenant (SelectModel t k alias) = Some t"
| "op_tenant (UpdateBoundModel t k alias) = Some t"
| "op_tenant (SelectOption t k c v) = Some t"
| "op_tenant (UpdateBoundOption t k c v) = Some t"
| "op_tenant (RegisterBound fresh now t params model options g) = Some t"
| "op_tenant (RestoreBound now t k params model options g) = Some t"
| "op_tenant (BeginBinding t k) = Some t"
| "op_tenant (FinishBinding t k g) = Some t"
| "op_tenant (FailBinding t k) = Some t"
| "op_tenant (RemoveSession t k) = Some t"
| "op_tenant (ReapStale now ttl) = None"

lemma other_tenants_untouched:
  "op_tenant op = Some t \<Longrightarrow> t' \<noteq> t \<Longrightarrow> nested_get (bridge_apply op m) t' k = nested_get m t' k"
  by (cases op) (auto simp: bridge_gets bridge_on_session_defs)

end
