(* ===== verification/BridgeDispatch.thy ===== *)
theory BridgeDispatch
  imports BridgeSessions JsonPath
begin

text \<open>
  The strict ACP bridge: \<open>acpx-server/src/transport/acp_bridge.rs\<close> and the model catalog of
  \<open>acpx-bridge/src/lib.rs\<close>.  A request about a virtual session is turned into requests about the
  agent's session behind it, which is created by the first prompt.  The router behind the bridge
  (\<open>dispatch_shared_for_tenant\<close>, the agents, the persistent store, the connection that answers the
  agent) is a state of its own, \<open>'r\<close>, and every call to it a function of the environment.  A
  handler returns what it leaves behind also when it fails, and when an \<open>expect\<close> panics.
\<close>

section \<open>The catalog of models\<close>

record bridge_model =
  bm_id :: string
  bm_name :: "string option"
  bm_agent :: string
  bm_model :: string

record bridge_config =
  bc_default_model :: string
  bc_models :: "bridge_model list"
  bc_max_virtual :: "nat option"

datatype bridge_config_error =
    UnknownDefaultModel string
  | EmptyField nat string
  | DuplicateModel string
  | UnknownModelAlias string

fun validate_models :: "nat \<Rightarrow> string set \<Rightarrow> bridge_model list \<Rightarrow> bridge_config_error + string set" where
  "validate_models i seen [] = Inr seen"
| "validate_models i seen (x # xs) =
     (if is_blank (bm_id x) then Inl (EmptyField i ''id'')
      else if is_blank (bm_agent x) then Inl (EmptyField i ''agent_id'')
      else if is_blank (bm_model x) then Inl (EmptyField i ''model_id'')
      else if bm_id x \<in> seen then Inl (DuplicateModel (bm_id x))
      else validate_models (Suc i) (insert (bm_id x) seen) xs)"

definition validate_config :: "bridge_config \<Rightarrow> bridge_config_error + unit" where
  "validate_config c =
     (case validate_models 0 {} (bc_models c) of
        Inl e \<Rightarrow> Inl e
      | Inr ids \<Rightarrow>
          if bc_default_model c \<noteq> [] \<and> bc_default_model c \<notin> ids then Inl (UnknownDefaultModel (bc_default_model c))
          else Inr ())"

definition model_by_alias :: "string \<Rightarrow> bridge_model list \<Rightarrow> bridge_model option" where
  "model_by_alias alias models = find (\<lambda>x. bm_id x = alias) models"

definition installed_agents :: "json \<Rightarrow> string list" where
  "installed_agents agents_result =
     List.map_filter (\<lambda>agent. if str_field ''status'' agent = Some ''installed'' then str_field ''id'' agent else None)
       (case json_array ''agents'' agents_result of None \<Rightarrow> [] | Some xs \<Rightarrow> xs)"

record public_model =
  pm_id :: string
  pm_name :: string
  pm_agent :: string
  pm_available :: bool

definition model_label :: "bridge_model \<Rightarrow> string" where
  "model_label x = (case bm_name x of None \<Rightarrow> bm_id x | Some n \<Rightarrow> n)"

definition public_models_for :: "bridge_model list \<Rightarrow> json \<Rightarrow> public_model list" where
  "public_models_for models agents_result =
     map (\<lambda>x. \<lparr>pm_id = bm_id x, pm_name = model_label x, pm_agent = bm_agent x,
                pm_available = (bm_agent x \<in> set (installed_agents agents_result))\<rparr>) models"

text \<open>What is added of the discovered models: the first with each id that is not there yet.\<close>

fun add_unseen :: "string set \<Rightarrow> bridge_model list \<Rightarrow> bridge_model list" where
  "add_unseen seen [] = []"
| "add_unseen seen (x # xs) =
     (if bm_id x \<in> seen then add_unseen seen xs else x # add_unseen (insert (bm_id x) seen) xs)"

definition merge_discovered_models ::
  "string set \<Rightarrow> string set \<Rightarrow> bridge_model list \<Rightarrow> bridge_model list \<Rightarrow> bridge_model list"
where
  "merge_discovered_models static_ids succeeded discovered models =
     (let kept = filter (\<lambda>x. bm_id x \<in> static_ids \<or> bm_agent x \<notin> succeeded) models
      in kept @ add_unseen (bm_id ` set kept) discovered)"

text \<open>The time of the last refresh is claimed before any probe; within the cooldown nobody probes again.\<close>

definition claim_refresh :: "instant \<Rightarrow> duration \<Rightarrow> instant option \<Rightarrow> instant option \<times> bool" where
  "claim_refresh now cooldown attempt =
     (case attempt of
        Some previous \<Rightarrow> if now - previous < cooldown then (attempt, False) else (Some now, True)
      | None \<Rightarrow> (Some now, True))"

section \<open>The environment\<close>

datatype router_error =
    MissingMethod
  | MissingParams
  | MissingBackendSessionId
  | BackendSessionNewError json
  | OtherRouterError string

datatype bridge_dispatch_error =
    AcpxExtensionNotAllowed
  | MissingSessionId
  | BindingInProgress
  | BindingFailed
  | InvalidModelSelection
  | UnknownModel string
  | CrossAdapterModelSwitch
  | SessionError bridge_session_error
  | RouterFailure router_error
  | PersistenceFailure string

record recovery_record =
  rr_gateway_id :: string
  rr_bridge_id :: "string option"
  rr_alias :: "string option"
  rr_params :: "json option"
  rr_options :: "json option"

record 'r bridge_env =
  be_dispatch :: "tenant_id \<Rightarrow> json \<Rightarrow> 'r \<Rightarrow> 'r \<times> (router_error + json)"
  be_ensure_agent :: "string \<Rightarrow> 'r \<Rightarrow> 'r \<times> (router_error + unit)"
  be_interactive :: bool
  be_claim :: "tenant_id \<Rightarrow> string \<Rightarrow> 'r \<Rightarrow> 'r"
  be_persistent :: "'r \<Rightarrow> bool"
  be_find_session :: "tenant_id \<Rightarrow> string \<Rightarrow> 'r \<Rightarrow> string + recovery_record option"
  be_update_binding :: "string \<Rightarrow> string \<Rightarrow> string \<Rightarrow> json \<Rightarrow> 'r \<Rightarrow> 'r \<times> (string + unit)"
  be_config :: bridge_config
  be_models :: "bridge_model list"
  be_options :: "json list"
  be_fresh :: string
  be_now :: instant

record 'r bridge_world =
  bw_sessions :: bridge_store
  bw_router :: 'r

datatype 'a reply = Panicked | Refused bridge_dispatch_error | Answered 'a

type_synonym ('r, 'a) handler = "'r bridge_world \<Rightarrow> 'r bridge_world \<times> 'a reply"

text \<open>The \<open>?\<close> and \<open>await\<close> of the code: go on with the answer, or leave.\<close>

definition and_then :: "('r, 'a) handler \<Rightarrow> ('a \<Rightarrow> ('r, 'b) handler) \<Rightarrow> ('r, 'b) handler" where
  "and_then h f w =
     (case h w of (w', Answered x) \<Rightarrow> f x w' | (w', Refused e) \<Rightarrow> (w', Refused e) | (w', Panicked) \<Rightarrow> (w', Panicked))"

definition answered :: "'a \<Rightarrow> ('r, 'a) handler" where "answered x w = (w, Answered x)"
definition refused :: "bridge_dispatch_error \<Rightarrow> ('r, 'a) handler" where "refused e w = (w, Refused e)"

definition checked_with :: "(bridge_dispatch_error + 'a) \<Rightarrow> ('r, 'a) handler" where
  "checked_with r w = (case r of Inl e \<Rightarrow> (w, Refused e) | Inr x \<Rightarrow> (w, Answered x))"

text \<open>\<open>expect\<close>: a missing value panics.\<close>

definition expected :: "'a option \<Rightarrow> ('r, 'a) handler" where
  "expected x w = (case x of None \<Rightarrow> (w, Panicked) | Some y \<Rightarrow> (w, Answered y))"

definition on_sessions :: "(bridge_store \<Rightarrow> bridge_store \<times> (bridge_session_error + 'a)) \<Rightarrow> ('r, 'a) handler" where
  "on_sessions f w =
     (case f (bw_sessions w) of
        (m, Inl e) \<Rightarrow> (w\<lparr>bw_sessions := m\<rparr>, Refused (SessionError e))
      | (m, Inr x) \<Rightarrow> (w\<lparr>bw_sessions := m\<rparr>, Answered x))"

definition change_sessions :: "(bridge_store \<Rightarrow> bridge_store) \<Rightarrow> 'r bridge_world \<Rightarrow> 'r bridge_world" where
  "change_sessions f w = w\<lparr>bw_sessions := f (bw_sessions w)\<rparr>"

definition call_router :: "'r bridge_env \<Rightarrow> tenant_id \<Rightarrow> json \<Rightarrow> ('r, json) handler" where
  "call_router env t request w =
     (case be_dispatch env t request (bw_router w) of
        (r, Inl e) \<Rightarrow> (w\<lparr>bw_router := r\<rparr>, Refused (RouterFailure e))
      | (r, Inr response) \<Rightarrow> (w\<lparr>bw_router := r\<rparr>, Answered response))"

section \<open>Requests and responses\<close>

definition has_extension :: "json \<Rightarrow> bool" where
  "has_extension request \<longleftrightarrow> pointer [''params'', ''_acpx''] request \<noteq> None"

definition reject_acpx_extension :: "json \<Rightarrow> bridge_dispatch_error + unit" where
  "reject_acpx_extension request = (if has_extension request then Inl AcpxExtensionNotAllowed else Inr ())"

definition reject_acpx_extension_except_bg :: "json \<Rightarrow> bridge_dispatch_error + unit" where
  "reject_acpx_extension_except_bg request =
     (case Option.bind (pointer [''params'', ''_acpx''] request) as_object of
        None \<Rightarrow> Inr ()
      | Some extension \<Rightarrow> if list_ex (\<lambda>(k, v). k \<noteq> ''bg'') extension then Inl AcpxExtensionNotAllowed else Inr ())"

definition request_session_id :: "json \<Rightarrow> bridge_dispatch_error + string" where
  "request_session_id request =
     (case str_at [''params'', ''sessionId''] request of None \<Rightarrow> Inl MissingSessionId | Some i \<Rightarrow> Inr i)"

definition request_id :: "json \<Rightarrow> json" where
  "request_id request = (case json_get ''id'' request of None \<Rightarrow> JNull | Some i \<Rightarrow> i)"

definition success :: "json \<Rightarrow> json \<Rightarrow> json" where
  "success request answer =
     JObject [(''jsonrpc'', JString ''2.0''), (''id'', request_id request), (''result'', answer)]"

definition internal_request :: "string \<Rightarrow> json \<Rightarrow> json" where
  "internal_request method params =
     JObject [(''jsonrpc'', JString ''2.0''), (''id'', JNumber ''1000000''), (''method'', JString method), (''params'', params)]"

text \<open>\<open>serde\<close> on \<open>NewSessionParams\<close>: \<open>cwd\<close> is required, other keys are kept.\<close>

definition read_acpx :: "json option \<Rightarrow> string option option option" where
  "read_acpx v =
     (case v of
        None \<Rightarrow> Some None
      | Some JNull \<Rightarrow> Some None
      | Some (JObject e) \<Rightarrow>
          (case map_of e ''profile'' of
             None \<Rightarrow> Some (Some None) | Some JNull \<Rightarrow> Some (Some None) | Some (JString p) \<Rightarrow> Some (Some (Some p))
           | _ \<Rightarrow> None)
      | _ \<Rightarrow> None)"

definition read_session_params :: "json \<Rightarrow> new_session_params option" where
  "read_session_params v =
     Option.bind (as_object v) (\<lambda>kvs.
     Option.bind (Option.bind (map_of kvs ''cwd'') as_str) (\<lambda>dir.
     Option.bind (case map_of kvs ''mcpServers'' of None \<Rightarrow> Some [] | Some x \<Rightarrow> as_array x) (\<lambda>servers.
     Option.bind (read_acpx (map_of kvs ''_acpx'')) (\<lambda>acpx.
       Some \<lparr>np_cwd = dir, np_mcp_servers = servers, np_acpx = acpx,
             np_rest = filter (\<lambda>(k, x). k \<notin> {''cwd'', ''mcpServers'', ''_acpx''}) kvs\<rparr>))))"

definition session_params_json :: "new_session_params \<Rightarrow> json" where
  "session_params_json p =
     JObject ((''cwd'', JString (np_cwd p))
       # (if np_mcp_servers p = [] then [] else [(''mcpServers'', JArray (np_mcp_servers p))])
       @ (case np_acpx p of
            None \<Rightarrow> []
          | Some profile \<Rightarrow> [(''_acpx'', JObject (case profile of None \<Rightarrow> [] | Some s \<Rightarrow> [(''profile'', JString s)]))])
       @ np_rest p)"

text \<open>What the agent is asked for: its adapter by name, and always a list of servers.\<close>

definition native_new_params :: "string \<Rightarrow> new_session_params \<Rightarrow> json" where
  "native_new_params agent p =
     (case session_params_json p of
        JObject kvs \<Rightarrow>
          JObject (AList.update ''_acpx'' (JObject [(''agentId'', JString agent)])
            (case map_of kvs ''mcpServers'' of None \<Rightarrow> AList.update ''mcpServers'' (JArray []) kvs | Some x \<Rightarrow> kvs))
      | v \<Rightarrow> v)"

fun update_field :: "string \<Rightarrow> (json \<Rightarrow> json) \<Rightarrow> json \<Rightarrow> json" where
  "update_field k f (JObject kvs) =
     JObject (case map_of kvs k of None \<Rightarrow> kvs | Some v \<Rightarrow> AList.update k (f v) kvs)"
| "update_field k f v = v"

text \<open>The agent's session id gives way to the virtual one, in the result and in buffered updates.\<close>

definition publish_session_id :: "string \<Rightarrow> json \<Rightarrow> json" where
  "publish_session_id virtual response =
     (let named = update_field ''result'' (update_field ''sessionId'' (\<lambda>_. JString virtual)) response;
          rename = update_field ''params'' (update_field ''sessionId'' (\<lambda>_. JString virtual))
      in update_field ''_acpx'' (update_field ''updates'' (\<lambda>v. case v of JArray us \<Rightarrow> JArray (map rename us) | _ \<Rightarrow> v)) named)"

section \<open>Options\<close>

definition effective_default_model :: "'r bridge_env \<Rightarrow> string" where
  "effective_default_model env =
     (if bc_default_model (be_config env) \<noteq> [] then bc_default_model (be_config env)
      else case be_models env of [] \<Rightarrow> [] | x # xs \<Rightarrow> bm_id x)"

definition model_config_options :: "'r bridge_env \<Rightarrow> string option \<Rightarrow> json" where
  "model_config_options env current =
     JArray (JObject
       [(''id'', JString ''model''), (''name'', JString ''Model''), (''category'', JString ''model''), (''type'', JString ''select''),
        (''currentValue'', JString (case current of Some alias \<Rightarrow> alias | None \<Rightarrow> effective_default_model env)),
        (''options'', JArray (map (\<lambda>x. JObject [(''value'', JString (bm_id x)), (''name'', JString (model_label x))]) (be_models env)))]
      # be_options env)"

definition adapter_config_option :: "'r bridge_env \<Rightarrow> string \<Rightarrow> string \<Rightarrow> (string \<times> string) option" where
  "adapter_config_option env config val =
     (if list_ex (\<lambda>option. json_get ''id'' option = Some (JString config)
          \<and> (case json_array ''options'' option of
               None \<Rightarrow> False
             | Some choices \<Rightarrow> list_ex (\<lambda>choice. json_get ''value'' choice = Some (JString val)) choices)) (be_options env)
      then Some (config, val) else None)"

definition resolve_model :: "'r bridge_env \<Rightarrow> string \<Rightarrow> bridge_model option" where
  "resolve_model env alias = model_by_alias alias (be_models env)"

section \<open>The store and the agent's session\<close>

definition options_json :: "(string \<times> string) list \<Rightarrow> json" where
  "options_json os = JObject (map (\<lambda>(k, v). (k, JString v)) os)"

definition persist_bridge_binding :: "'r bridge_env \<Rightarrow> bridge_session \<Rightarrow> ('r, unit) handler" where
  "persist_bridge_binding env s w =
     (if \<not> be_persistent env (bw_router w) then (w, Answered ())
      else case bs_gateway_id s of
        None \<Rightarrow> (w, Panicked)
      | Some g \<Rightarrow>
          (case be_update_binding env g (bs_id s)
              (case bs_model s of Some alias \<Rightarrow> alias | None \<Rightarrow> effective_default_model env)
              (options_json (bs_options s)) (bw_router w) of
             (r, Inl e) \<Rightarrow> (w\<lparr>bw_router := r\<rparr>, Refused (PersistenceFailure e))
           | (r, Inr _) \<Rightarrow> (w\<lparr>bw_router := r\<rparr>, Answered ())))"

definition close_native_session :: "'r bridge_env \<Rightarrow> tenant_id \<Rightarrow> string \<Rightarrow> 'r bridge_world \<Rightarrow> 'r bridge_world" where
  "close_native_session env t g w =
     fst (call_router env t (internal_request ''session/close'' (JObject [(''sessionId'', JString g)])) w)"

definition forward_session_request :: "'r bridge_env \<Rightarrow> tenant_id \<Rightarrow> bridge_session \<Rightarrow> json \<Rightarrow> ('r, json) handler" where
  "forward_session_request env t s request =
     and_then (expected (bs_gateway_id s)) (\<lambda>g.
     and_then (expected (set_path [''params'', ''sessionId''] (JString g) request)) (\<lambda>native.
     and_then (call_router env t native) (\<lambda>response.
       answered (publish_session_id (bs_id s) response))))"

text \<open>Creating the agent's session: the agent, the session, its model, its options.\<close>

definition refuse_error :: "json \<Rightarrow> ('r, unit) handler" where
  "refuse_error response w =
     (case json_get ''error'' response of
        Some e \<Rightarrow> (w, Refused (RouterFailure (BackendSessionNewError e)))
      | None \<Rightarrow> (w, Answered ()))"

definition select_request :: "string \<Rightarrow> string \<Rightarrow> string \<Rightarrow> json" where
  "select_request g config val =
     internal_request ''session/set_config_option''
       (JObject [(''sessionId'', JString g), (''configId'', JString config), (''value'', JString val)])"

fun apply_options :: "'r bridge_env \<Rightarrow> tenant_id \<Rightarrow> string \<Rightarrow> (string \<times> string) list \<Rightarrow> ('r, unit) handler" where
  "apply_options env t g [] = answered ()"
| "apply_options env t g ((config, val) # os) =
     and_then (call_router env t (select_request g config val)) (\<lambda>response.
     and_then (refuse_error response) (\<lambda>_. apply_options env t g os))"

definition ensure_agent :: "'r bridge_env \<Rightarrow> string \<Rightarrow> ('r, unit) handler" where
  "ensure_agent env agent w =
     (case be_ensure_agent env agent (bw_router w) of
        (r, Inl e) \<Rightarrow> (w\<lparr>bw_router := r\<rparr>, Refused (RouterFailure e))
      | (r, Inr _) \<Rightarrow> (w\<lparr>bw_router := r\<rparr>, Answered ()))"

definition create_native :: "'r bridge_env \<Rightarrow> tenant_id \<Rightarrow> bridge_session \<Rightarrow> bridge_model \<Rightarrow> ('r, string) handler" where
  "create_native env t s model =
     and_then (ensure_agent env (bm_agent model)) (\<lambda>_.
     and_then (call_router env t (internal_request ''session/new'' (native_new_params (bm_agent model) (bs_params s)))) (\<lambda>response.
     and_then (refuse_error response) (\<lambda>_.
     and_then (checked_with (case str_at [''result'', ''sessionId''] response of
         None \<Rightarrow> Inl (RouterFailure MissingBackendSessionId) | Some g \<Rightarrow> Inr g)) (\<lambda>g.
     and_then (call_router env t (select_request g ''model'' (bm_model model))) (\<lambda>selection.
     and_then (refuse_error selection) (\<lambda>_.
     and_then (apply_options env t g (bs_options s)) (\<lambda>_. answered g)))))))"

text \<open>\<open>bind\<close>: the session is the snapshot that the request has read.\<close>

definition bind_owned :: "'r bridge_env \<Rightarrow> tenant_id \<Rightarrow> string \<Rightarrow> bridge_session \<Rightarrow> ('r, bridge_session) handler" where
  "bind_owned env t k s w =
     (let alias = (case bs_model s of Some a \<Rightarrow> a | None \<Rightarrow> effective_default_model env)
      in case resolve_model env alias of
           None \<Rightarrow> (change_sessions (\<lambda>m. fst (fail_binding t k m)) w, Refused (UnknownModel alias))
         | Some model \<Rightarrow>
             (case create_native env t s model w of
                (w1, Panicked) \<Rightarrow> (w1, Panicked)
              | (w1, Refused e) \<Rightarrow> (change_sessions (\<lambda>m. fst (fail_binding t k m)) w1, Refused e)
              | (w1, Answered g) \<Rightarrow>
                  (case on_sessions (finish_binding t k g) w1 of
                     (w2, Answered bound) \<Rightarrow>
                       (case persist_bridge_binding env bound w2 of
                          (w3, Refused e) \<Rightarrow>
                            (change_sessions (\<lambda>m. fst (remove_bridge_session t k m)) (close_native_session env t g w3), Refused e)
                        | (w3, Answered _) \<Rightarrow> (w3, Answered bound)
                        | (w3, Panicked) \<Rightarrow> (w3, Panicked))
                   | (w2, Refused e) \<Rightarrow> (w2, Refused e)
                   | (w2, Panicked) \<Rightarrow> (w2, Panicked))))"

definition bind_session :: "'r bridge_env \<Rightarrow> tenant_id \<Rightarrow> string \<Rightarrow> bridge_session \<Rightarrow> ('r, bridge_session) handler" where
  "bind_session env t k s =
     and_then (on_sessions (begin_binding t k)) (\<lambda>claim.
       case claim of
         Owner \<Rightarrow> bind_owned env t k s
       | ClaimBinding \<Rightarrow> refused BindingInProgress
       | ClaimFailed \<Rightarrow> refused BindingFailed
       | ClaimBound \<Rightarrow> (\<lambda>w. expected (get_bridge_session t k (bw_sessions w)) w))"

section \<open>Handlers\<close>

definition handle_new_session :: "'r bridge_env \<Rightarrow> tenant_id \<Rightarrow> json \<Rightarrow> ('r, json) handler" where
  "handle_new_session env t request =
     and_then (checked_with (reject_acpx_extension request)) (\<lambda>_.
     and_then (checked_with (case Option.bind (json_get ''params'' request) read_session_params of
         None \<Rightarrow> Inl (RouterFailure MissingParams) | Some p \<Rightarrow> Inr p)) (\<lambda>p.
     and_then (on_sessions (try_register (be_fresh env) (be_now env) t p (bc_max_virtual (be_config env)))) (\<lambda>k.
       answered (success request
         (JObject [(''sessionId'', JString k), (''configOptions'', model_config_options env None)])))))"

text \<open>A session that is not in memory is looked up among the persisted ones.\<close>

definition read_options :: "json option \<Rightarrow> (string \<times> string) list" where
  "read_options v =
     (case Option.bind v as_object of
        None \<Rightarrow> []
      | Some kvs \<Rightarrow> if list_all (\<lambda>(k, x). as_str x \<noteq> None) kvs then map (\<lambda>(k, x). (k, str_or [] (as_str x))) kvs else [])"

definition recover_record :: "'r bridge_env \<Rightarrow> tenant_id \<Rightarrow> string \<Rightarrow> recovery_record \<Rightarrow> ('r, bridge_session) handler" where
  "recover_record env t k r w =
     (case (rr_bridge_id r, rr_alias r, Option.bind (rr_params r) read_session_params) of
        (Some virtual, Some alias, Some p) \<Rightarrow>
          (let m = fst (restore_bound (be_now env) t virtual p (Some alias) (read_options (rr_options r)) (rr_gateway_id r)
                     (bw_sessions w))
           in (w\<lparr>bw_sessions := m\<rparr>,
               case get_bridge_session t k m of
                 None \<Rightarrow> Refused (SessionError (BridgeNotFound t k)) | Some s \<Rightarrow> Answered s))
      | _ \<Rightarrow> (w, Refused (SessionError (BridgeNotFound t k))))"

definition resolve_or_recover :: "'r bridge_env \<Rightarrow> tenant_id \<Rightarrow> string \<Rightarrow> ('r, bridge_session) handler" where
  "resolve_or_recover env t k w =
     (case get_bridge_session t k (bw_sessions w) of
        Some s \<Rightarrow> (w, Answered s)
      | None \<Rightarrow>
          if \<not> be_persistent env (bw_router w) then (w, Refused (SessionError (BridgeNotFound t k)))
          else case be_find_session env t k (bw_router w) of
            Inl e \<Rightarrow> (w, Refused (PersistenceFailure e))
          | Inr None \<Rightarrow> (w, Refused (SessionError (BridgeNotFound t k)))
          | Inr (Some r) \<Rightarrow> recover_record env t k r w)"

definition handle_close_or_delete :: "'r bridge_env \<Rightarrow> tenant_id \<Rightarrow> json \<Rightarrow> ('r, json) handler" where
  "handle_close_or_delete env t request =
     and_then (checked_with (reject_acpx_extension_except_bg request)) (\<lambda>_.
     and_then (checked_with (request_session_id request)) (\<lambda>k.
     and_then (resolve_or_recover env t k) (\<lambda>s.
       if bs_state s = Unbound
       then (\<lambda>w. (change_sessions (\<lambda>m. fst (remove_bridge_session t k m)) w, Answered (success request (JObject []))))
       else and_then (forward_session_request env t s request) (\<lambda>response w.
         (if json_get ''error'' response = None \<and> str_field ''method'' request = Some ''session/delete''
          then change_sessions (\<lambda>m. fst (remove_bridge_session t k m)) w else w, Answered response)))))"

text \<open>The session a turn runs in, bound first when it is not.\<close>

definition bound_for_turn :: "'r bridge_env \<Rightarrow> tenant_id \<Rightarrow> string \<Rightarrow> bridge_session \<Rightarrow> ('r, bridge_session) handler" where
  "bound_for_turn env t k s =
     (case bs_state s of
        Unbound \<Rightarrow> bind_session env t k s
      | Binding \<Rightarrow> refused BindingInProgress
      | Failed \<Rightarrow> refused BindingFailed
      | Bound \<Rightarrow> answered s)"

definition claim_connection :: "'r bridge_env \<Rightarrow> tenant_id \<Rightarrow> string option \<Rightarrow> ('r, unit) handler" where
  "claim_connection env t g w =
     (case g of
        Some native \<Rightarrow> if be_interactive env then (w\<lparr>bw_router := be_claim env t native (bw_router w)\<rparr>, Answered ()) else (w, Answered ())
      | None \<Rightarrow> (w, Answered ()))"

definition handle_forward_bound :: "'r bridge_env \<Rightarrow> tenant_id \<Rightarrow> json \<Rightarrow> ('r, json) handler" where
  "handle_forward_bound env t request =
     and_then (checked_with (reject_acpx_extension request)) (\<lambda>_.
     and_then (checked_with (request_session_id request)) (\<lambda>k.
     and_then (resolve_or_recover env t k) (\<lambda>s0.
     and_then (bound_for_turn env t k s0) (\<lambda>s.
     and_then (claim_connection env t (bs_gateway_id s)) (\<lambda>_.
       forward_session_request env t s request)))))"

definition in_memory :: "tenant_id \<Rightarrow> string \<Rightarrow> ('r, bridge_session) handler" where
  "in_memory t k w =
     (case get_bridge_session t k (bw_sessions w) of
        None \<Rightarrow> (w, Refused (SessionError (BridgeNotFound t k))) | Some s \<Rightarrow> (w, Answered s))"

text \<open>A fork that cannot be persisted is closed and forgotten.\<close>

definition register_fork :: "'r bridge_env \<Rightarrow> tenant_id \<Rightarrow> bridge_session \<Rightarrow> string \<Rightarrow> ('r, string) handler" where
  "register_fork env t source g =
     and_then (\<lambda>w. (change_sessions (\<lambda>m. fst (register_bound (be_fresh env) (be_now env) t (bs_params source) (bs_model source)
         (bs_options source) g m)) w, Answered ())) (\<lambda>_.
     and_then (claim_connection env t (Some g)) (\<lambda>_ w.
       case get_bridge_session t (be_fresh env) (bw_sessions w) of
         None \<Rightarrow> (w, Panicked)
       | Some fork \<Rightarrow>
           (case persist_bridge_binding env fork w of
              (w', Refused e) \<Rightarrow>
                (change_sessions (\<lambda>m. fst (remove_bridge_session t (be_fresh env) m)) (close_native_session env t g w'), Refused e)
            | (w', Answered _) \<Rightarrow> (w', Answered (be_fresh env))
            | (w', Panicked) \<Rightarrow> (w', Panicked))))"

definition handle_fork_session :: "'r bridge_env \<Rightarrow> tenant_id \<Rightarrow> json \<Rightarrow> ('r, json) handler" where
  "handle_fork_session env t request =
     and_then (checked_with (reject_acpx_extension request)) (\<lambda>_.
     and_then (checked_with (request_session_id request)) (\<lambda>k.
     and_then (in_memory t k) (\<lambda>s0.
     and_then (bound_for_turn env t k s0) (\<lambda>source.
     and_then (claim_connection env t (bs_gateway_id source)) (\<lambda>_.
     and_then (expected (bs_gateway_id source)) (\<lambda>g.
     and_then (expected (set_path [''params'', ''sessionId''] (JString g) request)) (\<lambda>native.
     and_then (call_router env t native) (\<lambda>response.
       case str_at [''result'', ''sessionId''] response of
         None \<Rightarrow> answered response
       | Some forked \<Rightarrow>
           and_then (register_fork env t source forked) (\<lambda>public.
           and_then (expected (set_path [''result'', ''sessionId''] (JString public) response)) answered)))))))))"

section \<open>Configuration\<close>

text \<open>An option of the adapter: stored until the session is bound, sent on afterwards.\<close>

definition set_adapter_option ::
  "'r bridge_env \<Rightarrow> tenant_id \<Rightarrow> string \<Rightarrow> bridge_session \<Rightarrow> string \<times> string \<Rightarrow> json \<Rightarrow> ('r, json) handler"
where
  "set_adapter_option env t k s option request =
     (case bs_state s of
        Unbound \<Rightarrow>
          and_then (on_sessions (select_adapter_config_option t k (fst option) (snd option))) (\<lambda>_.
            answered (success request (JObject [(''configOptions'', model_config_options env (bs_model s))])))
      | Binding \<Rightarrow> refused BindingInProgress
      | Failed \<Rightarrow> refused BindingFailed
      | Bound \<Rightarrow>
          and_then (expected (bs_gateway_id s)) (\<lambda>g.
          and_then (expected (Option.bind (set_path [''params'', ''sessionId''] (JString g) request)
              (\<lambda>r. Option.bind (set_path [''params'', ''configId''] (JString (fst option)) r)
                (set_path [''params'', ''value''] (JString (snd option)))))) (\<lambda>native.
          and_then (forward_session_request env t s native) (\<lambda>response.
            if json_get ''error'' response = None
            then and_then (on_sessions (update_bound_adapter_config_option t k (fst option) (snd option))) (\<lambda>updated.
                 and_then (persist_bridge_binding env updated) (\<lambda>_. answered response))
            else answered response))))"

definition switch_bound_model ::
  "'r bridge_env \<Rightarrow> tenant_id \<Rightarrow> string \<Rightarrow> bridge_session \<Rightarrow> bridge_model \<Rightarrow> json \<Rightarrow> ('r, json) handler"
where
  "switch_bound_model env t k s selected request =
     (let alias = (case bs_model s of Some a \<Rightarrow> a | None \<Rightarrow> effective_default_model env)
      in case resolve_model env alias of
           None \<Rightarrow> refused (UnknownModel alias)
         | Some current \<Rightarrow>
             if bm_agent current \<noteq> bm_agent selected then refused CrossAdapterModelSwitch
             else
               and_then (expected (bs_gateway_id s)) (\<lambda>g.
               and_then (expected (Option.bind (set_path [''params'', ''sessionId''] (JString g) request)
                   (set_path [''params'', ''value''] (JString (bm_model selected))))) (\<lambda>native.
               and_then (call_router env t native) (\<lambda>response.
                 if json_get ''error'' response = None
                 then and_then (on_sessions (update_bound_model t k (bm_id selected))) (\<lambda>updated.
                      and_then (persist_bridge_binding env updated) (\<lambda>_.
                        answered (update_field ''result'' (\<lambda>answer. case answer of
                            JObject kvs \<Rightarrow> JObject (AList.update ''configOptions'' (model_config_options env (Some (bm_id selected))) kvs)
                          | v \<Rightarrow> v) response)))
                 else answered response))))"

definition set_model_option :: "'r bridge_env \<Rightarrow> tenant_id \<Rightarrow> string \<Rightarrow> bridge_session \<Rightarrow> string \<Rightarrow> json \<Rightarrow> ('r, json) handler" where
  "set_model_option env t k s val request =
     (case resolve_model env val of
        None \<Rightarrow> refused (UnknownModel val)
      | Some selected \<Rightarrow>
          (case bs_state s of
             Unbound \<Rightarrow>
               and_then (on_sessions (select_model t k (bm_id selected))) (\<lambda>_.
                 answered (success request (JObject [(''configOptions'', model_config_options env (Some (bm_id selected)))])))
           | Binding \<Rightarrow> refused BindingInProgress
           | Failed \<Rightarrow> refused BindingFailed
           | Bound \<Rightarrow> switch_bound_model env t k s selected request))"

definition handle_set_config_option :: "'r bridge_env \<Rightarrow> tenant_id \<Rightarrow> json \<Rightarrow> ('r, json) handler" where
  "handle_set_config_option env t request =
     and_then (checked_with (reject_acpx_extension request)) (\<lambda>_.
     and_then (checked_with (request_session_id request)) (\<lambda>k.
     and_then (checked_with (case str_at [''params'', ''configId''] request of
         None \<Rightarrow> Inl InvalidModelSelection | Some c \<Rightarrow> Inr c)) (\<lambda>config.
     and_then (checked_with (case str_at [''params'', ''value''] request of
         None \<Rightarrow> Inl InvalidModelSelection | Some v \<Rightarrow> Inr v)) (\<lambda>val.
     and_then (in_memory t k) (\<lambda>s.
       if config \<noteq> ''model''
       then (case adapter_config_option env config val of
               None \<Rightarrow> refused InvalidModelSelection
             | Some option \<Rightarrow> set_adapter_option env t k s option request)
       else set_model_option env t k s val request)))))"

definition turn_methods :: "string list" where
  "turn_methods = [''session/prompt'', ''session/cancel'', ''session/load'', ''session/resume'', ''session/set_mode'']"

definition bridge_dispatch :: "'r bridge_env \<Rightarrow> tenant_id \<Rightarrow> json \<Rightarrow> ('r, json) handler" where
  "bridge_dispatch env t request =
     (case str_field ''method'' request of
        None \<Rightarrow> refused (RouterFailure MissingMethod)
      | Some method \<Rightarrow>
          if method = ''session/new'' then handle_new_session env t request
          else if method = ''session/set_config_option'' then handle_set_config_option env t request
          else if method = ''session/close'' \<or> method = ''session/delete'' then handle_close_or_delete env t request
          else if method = ''session/fork'' then handle_fork_session env t request
          else if method \<in> set turn_methods then handle_forward_bound env t request
          else and_then (checked_with (reject_acpx_extension request)) (\<lambda>_. call_router env t request))"

end
