(* ===== verification/BridgeFacts.thy ===== *)
theory BridgeFacts
  imports BridgeDispatch
begin

text \<open>
  What the strict bridge (\<open>acp_bridge.rs\<close>) guarantees for its virtual sessions, whatever the router
  behind it answers; and the virtual session it can never let go of.
\<close>

section \<open>Relations that handlers keep\<close>

definition keeps :: "('r bridge_world \<Rightarrow> 'r bridge_world \<Rightarrow> bool) \<Rightarrow> ('r, 'a) handler \<Rightarrow> bool" where
  "keeps R h \<longleftrightarrow> (\<forall>w. R w (fst (h w)))"

lemma keeps_and_then:
  assumes "transp R" "keeps R h" "\<And>x. keeps R (f x)"
  shows "keeps R (and_then h f)"
  unfolding keeps_def
proof
  fix w
  have "R w (fst (h w))" using assms(2) by (simp add: keeps_def)
  moreover have "R w' (fst (f x w'))" for x w' using assms(3) by (simp add: keeps_def)
  ultimately show "R w (fst (and_then h f w))"
    using assms(1) unfolding and_then_def transp_def by (auto split: prod.split reply.split)
qed

text \<open>A relation on the store alone: the calls to the router keep it.\<close>

locale store_relation =
  fixes S :: "bridge_store \<Rightarrow> bridge_store \<Rightarrow> bool"
  assumes same: "S m m" and chain: "S m1 m2 \<Longrightarrow> S m2 m3 \<Longrightarrow> S m1 m3"
begin

definition kept :: "('r, 'a) handler \<Rightarrow> bool" where
  "kept h \<longleftrightarrow> keeps (\<lambda>w w'. S (bw_sessions w) (bw_sessions w')) h"

lemma kept_then: "kept h \<Longrightarrow> (\<And>x. kept (f x)) \<Longrightarrow> kept (and_then h f)"
  unfolding kept_def by (rule keeps_and_then) (auto intro: transpI chain)

lemma keptI: "(\<And>w. S (bw_sessions w) (bw_sessions (fst (h w)))) \<Longrightarrow> kept h"
  by (simp add: kept_def keeps_def)

lemma keptD: "kept h \<Longrightarrow> S (bw_sessions w) (bw_sessions (fst (h w)))"
  by (simp add: kept_def keeps_def)

lemma kept_router_only:
  "kept (answered x)" "kept (refused e)" "kept (checked_with c)" "kept (expected o')" "kept (call_router env t r)"
  "kept (refuse_error j)" "kept (ensure_agent env a)" "kept (persist_bridge_binding env s)" "kept (claim_connection env t g)"
  "kept (in_memory t k)"
  by (auto intro!: keptI simp: same answered_def refused_def checked_with_def expected_def call_router_def refuse_error_def
      ensure_agent_def persist_bridge_binding_def claim_connection_def in_memory_def split: sum.split prod.split option.split)

lemma kept_on_sessions: "(\<And>m. S m (fst (f m))) \<Longrightarrow> kept (on_sessions f)"
  by (rule keptI) (auto simp: on_sessions_def case_prod_unfold split: sum.split)

lemma kept_apply_options: "kept (apply_options env t g os)"
  by (induction os) (auto intro!: kept_then kept_router_only)

lemma kept_create_native: "kept (create_native env t s model)"
  by (auto intro!: kept_then kept_router_only kept_apply_options simp: create_native_def)

lemma kept_forward: "kept (forward_session_request env t s request)"
  by (auto intro!: kept_then kept_router_only simp: forward_session_request_def)

end

lemma then_checked: "and_then (checked_with c) f = (case c of Inl e \<Rightarrow> refused e | Inr x \<Rightarrow> f x)"
  by (auto simp: fun_eq_iff and_then_def checked_with_def refused_def split: sum.split)

text \<open>
  The operations that a request performs on the virtual session it names and on the one it makes; a
  session comes back from the persistent store under any id, but never over an existing one.
\<close>

locale bridge_relation = store_relation S for S +
  fixes env :: "'r bridge_env" and allowed :: "tenant_id \<Rightarrow> string \<Rightarrow> bool"
  assumes binds: "allowed t k \<Longrightarrow> S (bw_sessions w) (bw_sessions (fst (bind_session env t k s w)))"
    and registers: "allowed t k \<Longrightarrow> S m (fst (try_register k now t p n m))"
    and forks: "allowed t k \<Longrightarrow> S m (fst (register_bound k now t p model os g m))"
    and restores: "S m (fst (restore_bound now t k p model os g m))"
    and removes: "allowed t k \<Longrightarrow> S m (fst (remove_bridge_session t k m))"
    and selects: "allowed t k \<Longrightarrow> S m (fst (select_model t k a m))"
    and selects_option: "allowed t k \<Longrightarrow> S m (fst (select_adapter_config_option t k c v m))"
    and switches: "allowed t k \<Longrightarrow> S m (fst (update_bound_model t k a m))"
    and switches_option: "allowed t k \<Longrightarrow> S m (fst (update_bound_adapter_config_option t k c v m))"
begin

lemma kept_recover: "kept (resolve_or_recover env t k)"
  by (auto intro!: keptI simp: resolve_or_recover_def recover_record_def Let_def same restores split: option.split sum.split prod.split)

lemma kept_bound_for_turn: "allowed t k \<Longrightarrow> kept (bound_for_turn env t k s)"
  by (auto simp: bound_for_turn_def kept_router_only binds intro!: keptI [of "bind_session env t k s"] split: bridge_session_state.split)

lemma kept_new_session: "allowed t (be_fresh env) \<Longrightarrow> kept (handle_new_session env t request)"
  by (auto intro!: kept_then kept_router_only kept_on_sessions registers simp: handle_new_session_def)

lemma kept_removal: "allowed t k \<Longrightarrow> kept (\<lambda>w. (if c then change_sessions (\<lambda>m. fst (remove_bridge_session t k m)) w else w, x))"
  by (rule keptI) (simp add: change_sessions_def same removes)

lemmas kept_removal_always = kept_removal [of _ _ True, simplified]

lemma kept_close_or_delete:
  "(\<And>k. request_session_id request = Inr k \<Longrightarrow> allowed t k) \<Longrightarrow> kept (handle_close_or_delete env t request)"
  unfolding handle_close_or_delete_def then_checked
  by (auto intro!: kept_then kept_router_only kept_recover kept_forward kept_removal kept_removal_always split: sum.split)

lemma kept_forward_bound:
  "(\<And>k. request_session_id request = Inr k \<Longrightarrow> allowed t k) \<Longrightarrow> kept (handle_forward_bound env t request)"
  unfolding handle_forward_bound_def then_checked
  by (auto intro!: kept_then kept_router_only kept_recover kept_forward kept_bound_for_turn split: sum.split)

lemma kept_register_fork:
  assumes fresh: "allowed t (be_fresh env)"
  shows "kept (register_fork env t source g)"
proof -
  have persisted: "kept (\<lambda>w. case get_bridge_session t (be_fresh env) (bw_sessions w) of
         None \<Rightarrow> (w, Panicked)
       | Some fork \<Rightarrow>
           (case persist_bridge_binding env fork w of
              (w', Refused e) \<Rightarrow>
                (change_sessions (\<lambda>m. fst (remove_bridge_session t (be_fresh env) m)) (close_native_session env t g w'), Refused e)
            | (w', Answered _) \<Rightarrow> (w', Answered (be_fresh env))
            | (w', Panicked) \<Rightarrow> (w', Panicked)))"
  proof (rule keptI)
    fix w :: "'r bridge_world"
    have close: "S (bw_sessions w') (bw_sessions (close_native_session env t g w'))" for w'
      using keptD [OF kept_router_only(5)] by (simp add: close_native_session_def)
    have persist: "S (bw_sessions w) (bw_sessions (fst (persist_bridge_binding env fork w)))" for fork
      by (rule keptD [OF kept_router_only(8)])
    show "S (bw_sessions w) (bw_sessions (fst (case get_bridge_session t (be_fresh env) (bw_sessions w) of
         None \<Rightarrow> (w, Panicked)
       | Some fork \<Rightarrow>
           (case persist_bridge_binding env fork w of
              (w', Refused e) \<Rightarrow>
                (change_sessions (\<lambda>m. fst (remove_bridge_session t (be_fresh env) m)) (close_native_session env t g w'), Refused e)
            | (w', Answered _) \<Rightarrow> (w', Answered (be_fresh env))
            | (w', Panicked) \<Rightarrow> (w', Panicked)))))"
      using persist chain [OF chain [OF persist close] removes [OF fresh]]
      by (auto simp: same change_sessions_def split: option.split prod.split reply.split)
        (metis fst_conv)+
  qed
  show ?thesis unfolding register_fork_def
    by (intro kept_then kept_router_only persisted) (auto intro!: keptI forks fresh simp: change_sessions_def)
qed

lemma kept_fork_session:
  "allowed t (be_fresh env) \<Longrightarrow> (\<And>k. request_session_id request = Inr k \<Longrightarrow> allowed t k) \<Longrightarrow> kept (handle_fork_session env t request)"
  unfolding handle_fork_session_def then_checked
  by (auto intro!: kept_then kept_router_only kept_bound_for_turn kept_register_fork split: sum.split option.split)

lemma kept_set_adapter_option: "allowed t k \<Longrightarrow> kept (set_adapter_option env t k s option request)"
  by (auto intro!: kept_then kept_router_only kept_forward kept_on_sessions selects_option switches_option
      simp: set_adapter_option_def split: bridge_session_state.split)

lemma kept_set_model_option: "allowed t k \<Longrightarrow> kept (set_model_option env t k s val request)"
  by (auto intro!: kept_then kept_router_only kept_on_sessions selects switches
      simp: set_model_option_def switch_bound_model_def Let_def split: bridge_session_state.split option.split)

lemma kept_set_config_option:
  "(\<And>k. request_session_id request = Inr k \<Longrightarrow> allowed t k) \<Longrightarrow> kept (handle_set_config_option env t request)"
  unfolding handle_set_config_option_def then_checked
  by (auto intro!: kept_then kept_router_only kept_set_adapter_option kept_set_model_option split: sum.split option.split)

lemma kept_dispatch:
  "allowed t (be_fresh env) \<Longrightarrow> (\<And>k. request_session_id request = Inr k \<Longrightarrow> allowed t k) \<Longrightarrow> kept (bridge_dispatch env t request)"
  by (auto simp: bridge_dispatch_def kept_new_session kept_close_or_delete kept_forward_bound kept_fork_session
      kept_set_config_option intro!: kept_then kept_router_only split: option.split)

end

section \<open>Binding\<close>

interpretation unchanged: store_relation "(=) :: bridge_store \<Rightarrow> bridge_store \<Rightarrow> bool"
  by unfold_locales simp_all

lemma store_unchanged:
  "bw_sessions (fst (create_native env t s model w)) = bw_sessions w"
  "bw_sessions (fst (persist_bridge_binding env s w)) = bw_sessions w"
  "bw_sessions (close_native_session env t g w) = bw_sessions w"
  by (simp_all add: close_native_session_def unchanged.keptD [OF unchanged.kept_create_native, symmetric]
      unchanged.keptD [OF unchanged.kept_router_only(8), symmetric] unchanged.keptD [OF unchanged.kept_router_only(5), symmetric])

definition no_panic :: "('r, 'a) handler \<Rightarrow> bool" where
  "no_panic h \<longleftrightarrow> (\<forall>w. snd (h w) \<noteq> Panicked)"

lemma no_panic_then: "no_panic h \<Longrightarrow> (\<And>x. no_panic (f x)) \<Longrightarrow> no_panic (and_then h f)"
  by (auto simp: no_panic_def and_then_def split: prod.split reply.split) (metis snd_conv)+

lemma no_panic_basic:
  "no_panic (answered x)" "no_panic (checked_with c)" "no_panic (call_router env t r)" "no_panic (refuse_error j)"
  "no_panic (ensure_agent env a)"
  by (auto simp: no_panic_def answered_def checked_with_def call_router_def refuse_error_def ensure_agent_def
      split: sum.split prod.split option.split)

lemma no_panic_options: "no_panic (apply_options env t g os)"
  by (induction os) (auto intro!: no_panic_then no_panic_basic)

lemma create_no_panic: "snd (create_native env t s model w) \<noteq> Panicked"
proof -
  have "no_panic (create_native env t s model)"
    by (auto intro!: no_panic_then no_panic_basic no_panic_options simp: create_native_def)
  then show ?thesis by (simp add: no_panic_def)
qed

lemma persist_no_panic: "bs_gateway_id s \<noteq> None \<Longrightarrow> snd (persist_bridge_binding env s w) \<noteq> Panicked"
  by (auto simp: persist_bridge_binding_def split: sum.split prod.split option.split)

text \<open>Every way out of a binding leaves the session bound, failed or gone, and the others alone.\<close>

lemma bind_owned_ends:
  assumes "nested_get (bw_sessions w) t k = Some s0" "bs_state s0 = Binding"
  shows "(\<not> (t' = t \<and> k' = k) \<longrightarrow>
      nested_get (bw_sessions (fst (bind_owned env t k s w))) t' k' = nested_get (bw_sessions w) t' k')
    \<and> (\<forall>s'. nested_get (bw_sessions (fst (bind_owned env t k s w))) t k = Some s' \<longrightarrow> bs_state s' \<noteq> Binding)
    \<and> snd (bind_owned env t k s w) \<noteq> Panicked"
proof -
  have failing: "nested_get (fst (fail_binding t k (bw_sessions w))) t' k' =
      (if t' = t \<and> k' = k then Some (s0\<lparr>bs_state := Failed\<rparr>) else nested_get (bw_sessions w) t' k')" for t' k'
    using assms by (simp add: fail_binding_def transition_from_binding_def get_on_session in_state_def Let_def)
  have finishing: "on_sessions (finish_binding t k g) w1 =
      (w1\<lparr>bw_sessions := nested_insert t k (s0\<lparr>bs_gateway_id := Some g, bs_state := Bound\<rparr>) (bw_sessions w)\<rparr>,
       Answered (s0\<lparr>bs_gateway_id := Some g, bs_state := Bound\<rparr>))" if "bw_sessions w1 = bw_sessions w" for g and w1 :: "'a bridge_world"
    using assms that by (simp add: on_sessions_def finish_binding_def on_session_def in_state_def Let_def)
  show ?thesis
  proof (cases "resolve_model env (case bs_model s of Some a \<Rightarrow> a | None \<Rightarrow> effective_default_model env)")
    case None
    then show ?thesis by (simp add: bind_owned_def Let_def change_sessions_def failing)
  next
    case (Some model)
    obtain w1 r where c: "create_native env t s model w = (w1, r)" by (cases "create_native env t s model w")
    have w1: "bw_sessions w1 = bw_sessions w" using store_unchanged(1) [of env t s model w] c by simp
    show ?thesis
    proof (cases r)
      case Panicked
      then show ?thesis using create_no_panic [of env t s model w] c by simp
    next
      case (Refused e)
      then show ?thesis using Some c w1 by (simp add: bind_owned_def Let_def change_sessions_def failing)
    next
      case (Answered g)
      let ?b = "s0\<lparr>bs_gateway_id := Some g, bs_state := Bound\<rparr>"
      let ?w2 = "w1\<lparr>bw_sessions := nested_insert t k ?b (bw_sessions w)\<rparr>"
      obtain w3 r3 where p: "persist_bridge_binding env ?b ?w2 = (w3, r3)" by (cases "persist_bridge_binding env ?b ?w2")
      have w3: "bw_sessions w3 = bw_sessions ?w2" using store_unchanged(2) [of env ?b ?w2] p by simp
      have "r3 \<noteq> Panicked" using persist_no_panic [of ?b env ?w2] p by simp
      then show ?thesis
        using Some c Answered finishing [OF w1] p w3
        by (cases r3) (simp_all add: bind_owned_def Let_def change_sessions_def get_remove store_unchanged)
    qed
  qed
qed

definition settles :: "bridge_store \<Rightarrow> bridge_store \<Rightarrow> bool" where
  "settles m m' \<longleftrightarrow> (\<forall>t k s'. nested_get m' t k = Some s' \<and> bs_state s' = Binding \<longrightarrow>
     (\<exists>s. nested_get m t k = Some s \<and> bs_state s = Binding))"

lemma bind_settles: "settles (bw_sessions w) (bw_sessions (fst (bind_session env t k s w)))"
proof (cases "nested_get (bw_sessions w) t k")
  case None
  then show ?thesis by (simp add: bind_session_def and_then_def on_sessions_def begin_binding_def on_session_def settles_def)
next
  case (Some s0)
  show ?thesis
  proof (cases "bs_state s0")
    case Unbound
    let ?s1 = "s0\<lparr>bs_state := Binding\<rparr>"
    let ?w = "w\<lparr>bw_sessions := nested_insert t k ?s1 (bw_sessions w)\<rparr>"
    have "bind_session env t k s w = bind_owned env t k s ?w"
      using Some Unbound by (simp add: bind_session_def and_then_def on_sessions_def begin_binding_def on_session_def
          split: prod.split reply.split)
    moreover have there: "nested_get (bw_sessions ?w) t k = Some ?s1" "bs_state ?s1 = Binding" by simp_all
    have "settles (bw_sessions w) (bw_sessions (fst (bind_owned env t k s ?w)))"
      unfolding settles_def
    proof (intro allI impI, elim conjE)
      fix t' k' s'
      assume s': "nested_get (bw_sessions (fst (bind_owned env t k s ?w))) t' k' = Some s'" "bs_state s' = Binding"
      have elsewhere: "\<not> (t' = t \<and> k' = k)" using bind_owned_ends [OF there, of t' k' env s] s' by auto
      then have "nested_get (bw_sessions ?w) t' k' = Some s'"
        using bind_owned_ends [OF there, of t' k' env s] s'(1) by simp
      with elsewhere s'(2) show "\<exists>s. nested_get (bw_sessions w) t' k' = Some s \<and> bs_state s = Binding" by auto
    qed
    ultimately show ?thesis by simp
  qed (use Some in \<open>auto simp: bind_session_def and_then_def on_sessions_def begin_binding_def on_session_def settles_def
        refused_def expected_def split: if_splits option.splits\<close>)
qed

interpretation settling: bridge_relation settles env "\<lambda>t k. True" for env
proof unfold_locales
  show "settles m1 m3" if "settles m1 m2" "settles m2 m3" for m1 m2 m3 using that unfolding settles_def by blast
  show "settles (bw_sessions w) (bw_sessions (fst (bind_session env t k s w)))" for w t k s by (rule bind_settles)
qed (auto simp: settles_def get_try_register get_register_bound get_restore_bound get_remove
      bridge_on_session_defs get_on_session in_state_def Let_def set_option_def new_bridge_session_def
      bound_bridge_session_def split: if_splits option.splits sum.splits)

text \<open>
  C13. No request leaves a binding open: whatever the router, the agents and the persistent store answer,
  when a request of the bridge ends, no session is being bound that was not being bound before.
\<close>

theorem bindings_settle:
  "bridge_dispatch env t request w = (w', r) \<Longrightarrow> nested_get (bw_sessions w') t' k = Some s' \<Longrightarrow> bs_state s' = Binding
    \<Longrightarrow> \<exists>s. nested_get (bw_sessions w) t' k = Some s \<and> bs_state s = Binding"
  using settling.keptD [OF settling.kept_dispatch [OF TrueI TrueI], of w env t request] by (auto simp: settles_def)

definition sample_bridge :: "bridge_model list \<Rightarrow> string \<Rightarrow> json list bridge_env" where
  "sample_bridge models fresh =
     \<lparr>be_dispatch = (\<lambda>t request log. (log @ [request], Inr (JObject [(''result'', JObject [(''sessionId'', JString ''g'')])]))),
      be_ensure_agent = (\<lambda>agent log. (log, Inr ())), be_interactive = False, be_claim = (\<lambda>t g log. log),
      be_persistent = (\<lambda>log. False), be_find_session = (\<lambda>t k log. Inr None), be_update_binding = (\<lambda>g k a os log. (log, Inr ())),
      be_config = \<lparr>bc_default_model = [], bc_models = [], bc_max_virtual = Some 2\<rparr>, be_models = models, be_options = [],
      be_fresh = fresh, be_now = 0\<rparr>"

definition session_request :: "string \<Rightarrow> string \<Rightarrow> json" where
  "session_request method k = JObject [(''method'', JString method), (''params'', JObject [(''sessionId'', JString k)])]"

text \<open>A session being bound, while a prompt to another one fails for want of a model.\<close>

definition one_binding :: "json list bridge_world" where
  "one_binding = \<lparr>bw_sessions = bridge_run
     [Register ''a'' 0 ''t'' plain_params None, Register ''b'' 0 ''t'' plain_params None, BeginBinding ''t'' ''b''] [], bw_router = []\<rparr>"

theorem bindings_settle_witness:
  "\<exists>w' r s'. bridge_dispatch (sample_bridge [] ''f'') ''t'' (session_request ''session/prompt'' ''a'') one_binding = (w', r)
     \<and> nested_get (bw_sessions w') ''t'' ''b'' = Some s' \<and> bs_state s' = Binding
     \<and> (\<exists>s. nested_get (bw_sessions one_binding) ''t'' ''b'' = Some s \<and> bs_state s = Binding)"
proof -
  let ?res = "bridge_dispatch (sample_bridge [] ''f'') ''t'' (session_request ''session/prompt'' ''a'') one_binding"
  have "map_option bs_state (nested_get (bw_sessions (fst ?res)) ''t'' ''b'') = Some Binding" by code_simp
  then obtain s' where s': "nested_get (bw_sessions (fst ?res)) ''t'' ''b'' = Some s'" "bs_state s' = Binding" by auto
  moreover have "?res = (fst ?res, snd ?res)" by simp
  ultimately show ?thesis using bindings_settle [of _ _ _ _ "fst ?res" "snd ?res", OF _ s'] by blast
qed

section \<open>A session that failed to bind\<close>

lemma bind_elsewhere:
  assumes "\<not> (t' = t \<and> k' = k)"
  shows "nested_get (bw_sessions (fst (bind_session env t k s w))) t' k' = nested_get (bw_sessions w) t' k'"
proof (cases "nested_get (bw_sessions w) t k")
  case None
  then show ?thesis by (simp add: bind_session_def and_then_def on_sessions_def begin_binding_def on_session_def)
next
  case (Some s0)
  show ?thesis
  proof (cases "bs_state s0")
    case Unbound
    let ?s1 = "s0\<lparr>bs_state := Binding\<rparr>"
    let ?w = "w\<lparr>bw_sessions := nested_insert t k ?s1 (bw_sessions w)\<rparr>"
    have "bind_session env t k s w = bind_owned env t k s ?w"
      using Some Unbound by (simp add: bind_session_def and_then_def on_sessions_def begin_binding_def on_session_def
          split: prod.split reply.split)
    moreover have "nested_get (bw_sessions ?w) t k = Some ?s1" "bs_state ?s1 = Binding" by simp_all
    from bind_owned_ends [OF this, of t' k' env s] assms
    have "nested_get (bw_sessions (fst (bind_owned env t k s ?w))) t' k' = nested_get (bw_sessions w) t' k'" by auto
    ultimately show ?thesis by simp
  qed (use Some assms in \<open>auto simp: bind_session_def and_then_def on_sessions_def begin_binding_def on_session_def
        refused_def expected_def split: option.splits\<close>)
qed

definition stays :: "tenant_id \<Rightarrow> string \<Rightarrow> bridge_session \<Rightarrow> bridge_store \<Rightarrow> bridge_store \<Rightarrow> bool" where
  "stays t k f m m' \<longleftrightarrow> (nested_get m t k = Some f \<longrightarrow> nested_get m' t k = Some f)"

interpretation staying: bridge_relation "stays t0 k0 f" env "\<lambda>t k. \<not> (t = t0 \<and> k = k0)" for t0 k0 f env
proof unfold_locales
  show "stays t0 k0 f (bw_sessions w) (bw_sessions (fst (bind_session env t k s w)))"
    if "\<not> (t = t0 \<and> k = k0)" for t k w s
    using bind_elsewhere [of t0 t k0 k env s w] that by (auto simp: stays_def)
qed (auto simp: stays_def get_try_register get_register_bound get_restore_bound get_remove
      bridge_on_session_defs get_on_session)

text \<open>No request that names the session changes it; to close or to delete it panics.\<close>

lemma failed_unchanged:
  assumes "nested_get (bw_sessions w) t k = Some f" "bs_state f = Failed" "bs_gateway_id f = None"
    and "request_session_id request = Inr k"
  shows "bw_sessions (fst (handle_set_config_option env t request w)) = bw_sessions w"
    and "bw_sessions (fst (handle_close_or_delete env t request w)) = bw_sessions w"
    and "bw_sessions (fst (handle_fork_session env t request w)) = bw_sessions w"
    and "bw_sessions (fst (handle_forward_bound env t request w)) = bw_sessions w"
    and "reject_acpx_extension_except_bg request = Inr () \<Longrightarrow> snd (handle_close_or_delete env t request w) = Panicked"
  using assms
  by (auto simp: handle_set_config_option_def handle_close_or_delete_def handle_fork_session_def handle_forward_bound_def
      then_checked and_then_def in_memory_def get_bridge_session_def resolve_or_recover_def bound_for_turn_def refused_def
      set_adapter_option_def set_model_option_def forward_session_request_def expected_def
      split: sum.split option.split)

lemma failed_stays:
  assumes "bs_state f = Failed" "bs_gateway_id f = None" "be_fresh env \<noteq> k"
  shows "stays t k f (bw_sessions w) (bw_sessions (fst (bridge_dispatch env t' request w)))"
proof (cases "t' = t \<and> request_session_id request = Inr k")
  case True
  have new: "stays t k f (bw_sessions w) (bw_sessions (fst (handle_new_session env t request w)))"
    using assms(3) by (intro staying.keptD staying.kept_new_session) simp
  have other: "stays t k f (bw_sessions w)
      (bw_sessions (fst (and_then (checked_with (reject_acpx_extension request)) (\<lambda>_. call_router env t request) w)))"
    by (intro staying.keptD staying.kept_then staying.kept_router_only)
  show ?thesis
  proof (cases "nested_get (bw_sessions w) t k = Some f")
    case there: True
    note failed_unchanged [OF there assms(1,2) conjunct2 [OF True], of env]
    with new other True show ?thesis
      by (auto simp: bridge_dispatch_def stays_def refused_def split: option.split)
  qed (simp add: stays_def)
next
  case False
  then show ?thesis using assms(3) by (intro staying.keptD staying.kept_dispatch) auto
qed

definition bridge_requests ::
  "('r bridge_env \<times> tenant_id \<times> json) list \<Rightarrow> 'r bridge_world \<Rightarrow> 'r bridge_world"
where
  "bridge_requests reqs w = fold (\<lambda>(env, t, request) w. fst (bridge_dispatch env t request w)) reqs w"

lemma failed_stays_run:
  assumes "bs_state f = Failed" "bs_gateway_id f = None" "\<forall>(env, t', request) \<in> set reqs. be_fresh env \<noteq> k"
  shows "stays t k f (bw_sessions w) (bw_sessions (bridge_requests reqs w))"
  using assms(3)
proof (induction reqs arbitrary: w)
  case (Cons r reqs)
  obtain env t' request where r: "r = (env, t', request)" by (cases r)
  have "stays t k f (bw_sessions w) (bw_sessions (fst (bridge_dispatch env t' request w)))"
    using failed_stays [OF assms(1,2)] Cons.prems r by auto
  moreover have "stays t k f (bw_sessions (fst (bridge_dispatch env t' request w))) (bw_sessions (bridge_requests (r # reqs) w))"
    using Cons.IH [of "fst (bridge_dispatch env t' request w)"] Cons.prems by (simp add: bridge_requests_def r)
  ultimately show ?case unfolding stays_def by blast
qed (simp add: bridge_requests_def stays_def)

text \<open>
  A virtual session whose binding failed stays for ever and counts against its tenant's quota: no sequence
  of requests removes or revives it, and a request to close or to delete it, the only way to free it,
  panics in \<open>forward_session_request\<close>, which expects a bound session.
\<close>

theorem failed_session_is_never_freed:
  assumes "bridge_store_ok (bw_sessions w)" "nested_get (bw_sessions w) t k = Some f" "bs_state f = Failed"
    and "\<forall>(env, t', request) \<in> set reqs. be_fresh env \<noteq> k"
    and "str_field ''method'' closing \<in> {Some ''session/close'', Some ''session/delete''}"
    and "request_session_id closing = Inr k" "reject_acpx_extension_except_bg closing = Inr ()"
  shows "nested_get (bw_sessions (bridge_requests reqs w)) t k = Some f
    \<and> snd (bridge_dispatch env t closing (bridge_requests reqs w)) = Panicked"
proof -
  have g: "bs_gateway_id f = None" using store_ok_get [OF assms(1,2)] assms(3) by (auto simp: bridge_session_ok_def)
  have there: "nested_get (bw_sessions (bridge_requests reqs w)) t k = Some f"
    using failed_stays_run [OF assms(3) g assms(4), of t w] assms(2) by (simp add: stays_def)
  moreover have "snd (bridge_dispatch env t closing (bridge_requests reqs w)) = Panicked"
    using failed_unchanged(5) [OF there assms(3) g assms(6,7), of env] assms(5) by (auto simp: bridge_dispatch_def)
  ultimately show ?thesis by simp
qed

theorem failed_session_is_never_freed_witness:
  "\<exists>f :: bridge_session. bs_state f = Failed \<and> snd (bridge_dispatch (sample_bridge [] ''f'') ''t'' (session_request ''session/delete'' ''a'')
     (bridge_requests [] (fst (bridge_dispatch (sample_bridge [] ''f'') ''t'' (session_request ''session/prompt'' ''a'') one_binding))))
     = Panicked"
proof -
  let ?w = "fst (bridge_dispatch (sample_bridge [] ''f'') ''t'' (session_request ''session/prompt'' ''a'') one_binding)"
  have w: "bw_sessions ?w = bridge_run
     [Register ''a'' 0 ''t'' plain_params None, Register ''b'' 0 ''t'' plain_params None, BeginBinding ''t'' ''b'',
      BeginBinding ''t'' ''a'', FailBinding ''t'' ''a''] []" by code_simp
  have "map_option bs_state (nested_get (bw_sessions ?w) ''t'' ''a'') = Some Failed" by code_simp
  then obtain f where f: "nested_get (bw_sessions ?w) ''t'' ''a'' = Some f" "bs_state f = Failed" by auto
  have ok: "bridge_store_ok (bw_sessions ?w)" unfolding w by (rule bridge_ok_run) simp
  have closing: "str_field ''method'' (session_request ''session/delete'' ''a'') \<in> {Some ''session/close'', Some ''session/delete''}"
    "request_session_id (session_request ''session/delete'' ''a'') = Inr ''a''"
    "reject_acpx_extension_except_bg (session_request ''session/delete'' ''a'') = Inr ()"
    by (simp_all add: session_request_def str_field_def request_session_id_def str_at_def reject_acpx_extension_except_bg_def)
  have "\<forall>(env, t', request) \<in> set []. be_fresh (env :: json list bridge_env) \<noteq> ''a''" by simp
  note panics = conjunct2 [OF failed_session_is_never_freed [OF ok f this closing, of "sample_bridge [] ''f''"]]
  show ?thesis by (rule exI [of _ f], rule conjI [OF f(2) panics])
qed

section \<open>What the agent and the client see\<close>

lemma pointer_set_elsewhere:
  assumes "set_path [k, k'] x v = Some v'" "j \<noteq> k'"
  shows "pointer [k, j] v' = pointer [k, j] v"
proof (cases v)
  case (JObject kvs)
  with assms show ?thesis
    by (cases "map_of kvs k") (auto simp: update_conv' split: option.splits elim!: set_path.elims)
qed (use assms in auto)

lemma field_update: "json_get k (update_field k' f v) = (if k = k' then map_option f (json_get k v) else json_get k v)"
  by (cases v) (auto simp: update_conv' split: option.split)

lemma published_result: "str_at [''result'', ''sessionId''] (publish_session_id i response) \<in> {None, Some i}"
  by (auto simp: str_at_def publish_session_id_def Let_def field_update bind_eq_None_conv split: option.split)
    (metis as_str.simps(1) bind.bind_lunit field_update option.map_disc_iff option.simps(9) pointer.simps)?

lemma published_updates:
  assumes "pointer [''_acpx'', ''updates''] (publish_session_id i response) = Some (JArray us)" "u \<in> set us"
  shows "pointer [''params'', ''sessionId''] u \<in> {None, Some (JString i)}"
proof -
  let ?r = "update_field ''params'' (update_field ''sessionId'' (\<lambda>_. JString i))"
  have "pointer [''params'', ''sessionId''] (?r x) \<in> {None, Some (JString i)}" for x
    by (cases "json_get ''params'' x"; cases "json_get ''sessionId'' (the (json_get ''params'' x))") (auto simp: field_update)
  moreover from assms(1) obtain v where "(case v of JArray us \<Rightarrow> JArray (map ?r us) | _ \<Rightarrow> v) = JArray us"
    by (auto simp: publish_session_id_def Let_def field_update bind_eq_Some_conv)
  then have "\<exists>us0. us = map ?r us0" by (cases v) auto
  then obtain us0 where "us = map ?r us0" by blast
  ultimately show ?thesis using assms(2) by auto
qed

text \<open>
  A turn of a bound session: the agent gets the client's request with its own session id in place of
  the virtual one and nothing else changed, and what the client gets back names the virtual session only, in
  the result and in every buffered update.
\<close>

theorem bridge_translates_ids:
  assumes "nested_get (bw_sessions w) t k = Some s" "bs_state s = Bound" "bs_gateway_id s = Some g" "bs_id s = k"
    and "request_session_id request = Inr k" "\<not> has_extension request"
    and "str_field ''method'' request = Some method" "method \<in> set turn_methods"
  shows "\<exists>native router.
      pointer [''params'', ''sessionId''] native = Some (JString g)
      \<and> (\<forall>j. j \<noteq> ''params'' \<longrightarrow> json_get j native = json_get j request)
      \<and> (\<forall>j. j \<noteq> ''sessionId'' \<longrightarrow> pointer [''params'', j] native = pointer [''params'', j] request)
      \<and> router = (if be_interactive env then be_claim env t g (bw_router w) else bw_router w)
      \<and> (case be_dispatch env t native router of
           (r, Inl e) \<Rightarrow> bridge_dispatch env t request w = (w\<lparr>bw_router := r\<rparr>, Refused (RouterFailure e))
         | (r, Inr response) \<Rightarrow>
             \<exists>public. bridge_dispatch env t request w = (w\<lparr>bw_router := r\<rparr>, Answered public)
               \<and> str_at [''result'', ''sessionId''] public \<in> {None, Some k}
               \<and> (\<forall>us. pointer [''_acpx'', ''updates''] public = Some (JArray us) \<longrightarrow>
                    (\<forall>u \<in> set us. pointer [''params'', ''sessionId''] u \<in> {None, Some (JString k)})))"
proof -
  have "pointer [''params'', ''sessionId''] request \<noteq> None"
    using assms(5) by (auto simp: request_session_id_def str_at_def bind_eq_Some_conv split: option.splits)
  then obtain native where n: "set_path [''params'', ''sessionId''] (JString g) request = Some native"
    using set_path_present by blast
  let ?router = "if be_interactive env then be_claim env t g (bw_router w) else bw_router w"
  have run: "bridge_dispatch env t request w =
      (case be_dispatch env t native ?router of
         (r, Inl e) \<Rightarrow> (w\<lparr>bw_router := r\<rparr>, Refused (RouterFailure e))
       | (r, Inr response) \<Rightarrow> (w\<lparr>bw_router := r\<rparr>, Answered (publish_session_id k response)))"
    using assms n
    by (auto simp: bridge_dispatch_def turn_methods_def handle_forward_bound_def then_checked and_then_def
        reject_acpx_extension_def resolve_or_recover_def get_bridge_session_def bound_for_turn_def answered_def
        claim_connection_def forward_session_request_def expected_def call_router_def split: prod.split sum.split)
  show ?thesis
  proof (intro exI [of _ native] exI [of _ ?router] conjI allI impI)
    show "pointer [''params'', ''sessionId''] native = Some (JString g)" by (rule set_path_pointer [OF n])
    show "json_get j native = json_get j request" if "j \<noteq> ''params''" for j by (rule set_path_elsewhere [OF n that])
    show "pointer [''params'', j] native = pointer [''params'', j] request" if "j \<noteq> ''sessionId''" for j
      by (rule pointer_set_elsewhere [OF n that])
    show "case be_dispatch env t native ?router of
           (r, Inl e) \<Rightarrow> bridge_dispatch env t request w = (w\<lparr>bw_router := r\<rparr>, Refused (RouterFailure e))
         | (r, Inr response) \<Rightarrow>
             \<exists>public. bridge_dispatch env t request w = (w\<lparr>bw_router := r\<rparr>, Answered public)
               \<and> str_at [''result'', ''sessionId''] public \<in> {None, Some k}
               \<and> (\<forall>us. pointer [''_acpx'', ''updates''] public = Some (JArray us) \<longrightarrow>
                    (\<forall>u \<in> set us. pointer [''params'', ''sessionId''] u \<in> {None, Some (JString k)}))"
      unfolding run using published_result published_updates by (auto split: prod.split sum.split simp del: pointer.simps)
  qed simp
qed

definition bound_world :: "json list bridge_world" where
  "bound_world = \<lparr>bw_sessions = bridge_run
     [Register ''a'' 0 ''t'' plain_params None, BeginBinding ''t'' ''a'', FinishBinding ''t'' ''a'' ''g''] [], bw_router = []\<rparr>"

theorem bridge_translates_ids_witness:
  "\<exists>native router. pointer [''params'', ''sessionId''] native = Some (JString ''g'')
     \<and> router = bw_router bound_world
     \<and> (\<forall>j. j \<noteq> ''params'' \<longrightarrow> json_get j native = json_get j (session_request ''session/prompt'' ''a''))"
proof -
  let ?s = "bound_bridge_session ''a'' plain_params None [] ''g'' 0"
  have s: "nested_get (bw_sessions bound_world) ''t'' ''a'' = Some ?s" by code_simp
  have fields: "bs_state ?s = Bound" "bs_gateway_id ?s = Some ''g''" "bs_id ?s = ''a''" by (simp_all add: bound_bridge_session_def)
  have request: "request_session_id (session_request ''session/prompt'' ''a'') = Inr ''a''"
    "\<not> has_extension (session_request ''session/prompt'' ''a'')"
    "str_field ''method'' (session_request ''session/prompt'' ''a'') = Some ''session/prompt''"
    "''session/prompt'' \<in> set turn_methods"
    by (simp_all add: session_request_def request_session_id_def str_at_def has_extension_def str_field_def turn_methods_def)
  note bridge_translates_ids [OF s fields request, of "sample_bridge [] ''f''"]
  moreover have "\<not> be_interactive (sample_bridge [] ''f'')" by (simp add: sample_bridge_def)
  ultimately show ?thesis by (elim exE conjE) (intro exI conjI, assumption, simp_all)
qed

section \<open>A selection that is lost\<close>

text \<open>
  A prompt binds with the session it read before it claimed the binding.  When a model is selected in between,
  the selection is accepted and shown, but the agent was told to use the model of the snapshot.
\<close>

definition two_models :: "bridge_model list" where
  "two_models = [\<lparr>bm_id = ''x/old'', bm_name = None, bm_agent = ''x'', bm_model = ''old''\<rparr>,
                 \<lparr>bm_id = ''x/new'', bm_name = None, bm_agent = ''x'', bm_model = ''new''\<rparr>]"

theorem selection_during_bind_is_lost:
  "let env = sample_bridge two_models ''f''; snapshot = new_bridge_session ''a'' plain_params 0;
       w = \<lparr>bw_sessions = bridge_run [Register ''a'' 0 ''t'' plain_params None, SelectModel ''t'' ''a'' ''x/new''] [], bw_router = []\<rparr>;
       w' = fst (bind_session env ''t'' ''a'' snapshot w)
   in map_option (\<lambda>s. (bs_state s, bs_model s)) (nested_get (bw_sessions w') ''t'' ''a'') = Some (Bound, Some ''x/new'')
     \<and> select_request ''g'' ''model'' ''old'' \<in> set (bw_router w') \<and> select_request ''g'' ''model'' ''new'' \<notin> set (bw_router w')"
  by code_simp

section \<open>The catalog\<close>

lemma validated_distinct: "validate_models i seen xs = Inr ids \<Longrightarrow> distinct (map bm_id xs) \<and> bm_id ` set xs \<inter> seen = {} \<and> ids = seen \<union> bm_id ` set xs"
  by (induction i seen xs rule: validate_models.induct) (auto split: if_splits)

lemma validated_config:
  "validate_config c = Inr () \<Longrightarrow> distinct (map bm_id (bc_models c))
    \<and> (bc_default_model c \<noteq> [] \<longrightarrow> (\<exists>x. model_by_alias (bc_default_model c) (bc_models c) = Some x))"
  using validated_distinct [of 0 "{}" "bc_models c"]
  by (auto simp: validate_config_def model_by_alias_def find_None_iff not_None_eq [symmetric] simp del: not_None_eq split: sum.splits if_splits)

lemma add_unseen_ids:
  "distinct (map bm_id (add_unseen seen xs)) \<and> bm_id ` set (add_unseen seen xs) = bm_id ` set xs - seen
    \<and> set (add_unseen seen xs) \<subseteq> set xs"
  by (induction seen xs rule: add_unseen.induct) auto

text \<open>
  A refresh of the catalog keeps the aliases distinct, keeps what the operator pinned and what agents without an
  answer offered before, and of the agents that answered offers exactly what they report now.
\<close>

theorem catalog_follows_agents:
  assumes "distinct (map bm_id models)"
  shows "distinct (map bm_id (merge_discovered_models static_ids succeeded discovered models))
    \<and> (\<forall>x \<in> set models. bm_id x \<in> static_ids \<or> bm_agent x \<notin> succeeded \<longrightarrow>
          x \<in> set (merge_discovered_models static_ids succeeded discovered models))
    \<and> (\<forall>x \<in> set (merge_discovered_models static_ids succeeded discovered models).
          bm_agent x \<in> succeeded \<longrightarrow> x \<in> set discovered \<or> (x \<in> set models \<and> bm_id x \<in> static_ids))
    \<and> (\<forall>x \<in> set discovered. bm_id x \<in> bm_id ` set (merge_discovered_models static_ids succeeded discovered models))"
proof -
  let ?kept = "filter (\<lambda>x. bm_id x \<in> static_ids \<or> bm_agent x \<notin> succeeded) models"
  note new = add_unseen_ids [of "bm_id ` set ?kept" discovered]
  have "distinct (map bm_id ?kept)" using assms by (simp add: distinct_map_filter)
  with new have "distinct (map bm_id (?kept @ add_unseen (bm_id ` set ?kept) discovered))" by auto
  moreover have "bm_id x \<in> bm_id ` set (?kept @ add_unseen (bm_id ` set ?kept) discovered)" if "x \<in> set discovered" for x
    using new that by auto
  ultimately show ?thesis using new by (auto simp: merge_discovered_models_def Let_def)
qed

theorem catalog_follows_agents_witness:
  "distinct (map bm_id (merge_discovered_models {''x/old''} {''x''}
     [\<lparr>bm_id = ''x/next'', bm_name = None, bm_agent = ''x'', bm_model = ''next''\<rparr>] two_models))
   \<and> merge_discovered_models {''x/old''} {''x''}
     [\<lparr>bm_id = ''x/next'', bm_name = None, bm_agent = ''x'', bm_model = ''next''\<rparr>] two_models
     = [hd two_models, \<lparr>bm_id = ''x/next'', bm_name = None, bm_agent = ''x'', bm_model = ''next''\<rparr>]"
proof
  have "distinct (map bm_id two_models)" by (simp add: two_models_def)
  from catalog_follows_agents [OF this] show "distinct (map bm_id (merge_discovered_models {''x/old''} {''x''}
     [\<lparr>bm_id = ''x/next'', bm_name = None, bm_agent = ''x'', bm_model = ''next''\<rparr>] two_models))" by blast
qed (simp add: merge_discovered_models_def two_models_def)

end
