(* ===== verification/Interaction.thy ===== *)
theory Interaction
  imports SessionRegistry ClaimTable JsonPath
begin

text \<open>
  Requests of an agent that one client connection answers: \<open>InteractionHub\<close> of
  \<open>acpx-core/src/interaction.rs\<close>.  A session is bound to the connection that claimed it last; a
  request goes to that connection under a public id, and the response with that id goes back to
  the call that waits.  Connections (the sender of their bounded channel) are numbers, fresh ids and
  whether \<open>try_send\<close> finds room are arguments.  A call waits while it is in \<open>ih_waiting\<close>; when its time
  is up it stops listening first and takes its entry out afterwards, in two steps as in the code.
\<close>

section \<open>State\<close>

type_synonym interaction_key = "tenant_id \<times> string"

record interaction_binding =
  ib_id :: string
  ib_connection :: nat

datatype interaction_error = ClientDisconnected | TimedOut

record interaction_hub =
  ih_bindings :: "(interaction_key \<times> interaction_binding) list"
  ih_pending :: "(string \<times> string) list"
  ih_waiting :: "string list"
  ih_results :: "(string \<times> (interaction_error + json)) list"

definition interaction_hub_new :: interaction_hub where
  "interaction_hub_new = \<lparr>ih_bindings = [], ih_pending = [], ih_waiting = [], ih_results = []\<rparr>"

section \<open>Operations\<close>

definition hub_bind :: "string \<Rightarrow> interaction_key \<Rightarrow> nat \<Rightarrow> interaction_hub \<Rightarrow> interaction_hub" where
  "hub_bind fresh key conn h = h\<lparr>ih_bindings := AList.update key \<lparr>ib_id = fresh, ib_connection = conn\<rparr> (ih_bindings h)\<rparr>"

text \<open>A oneshot send reaches the call when the call still listens.\<close>

definition answer :: "string \<Rightarrow> interaction_error + json \<Rightarrow> interaction_hub \<Rightarrow> interaction_hub \<times> bool" where
  "answer rid r h =
     (if rid \<in> set (ih_waiting h)
      then (h\<lparr>ih_waiting := removeAll rid (ih_waiting h), ih_results := ih_results h @ [(rid, r)]\<rparr>, True)
      else (h, False))"

definition hub_unbind :: "interaction_key \<Rightarrow> string \<Rightarrow> interaction_hub \<Rightarrow> interaction_hub" where
  "hub_unbind key i h =
     (if (case map_of (ih_bindings h) key of None \<Rightarrow> False | Some b \<Rightarrow> ib_id b = i)
      then
        let failed = map fst (filter (\<lambda>(rid, bid). bid = i) (ih_pending h));
            h' = h\<lparr>ih_bindings := AList.delete key (ih_bindings h),
                   ih_pending := filter (\<lambda>(rid, bid). bid \<noteq> i) (ih_pending h)\<rparr>
        in fold (\<lambda>rid h. fst (answer rid (Inl ClientDisconnected) h)) failed h'
      else h)"

datatype request_outcome = NoClient | DeliveryFailed | Delivered nat json

text \<open>\<open>request["id"] = public_id\<close> on the frame of the agent, an object.\<close>

definition public_request :: "string \<Rightarrow> json \<Rightarrow> json" where
  "public_request rid frame = (case set_path [''id''] (JString rid) frame of None \<Rightarrow> frame | Some v \<Rightarrow> v)"

definition hub_request ::
  "string \<Rightarrow> interaction_key \<Rightarrow> json \<Rightarrow> bool \<Rightarrow> interaction_hub \<Rightarrow> interaction_hub \<times> request_outcome"
where
  "hub_request rid key frame room h =
     (case map_of (ih_bindings h) key of
        None \<Rightarrow> (h, NoClient)
      | Some b \<Rightarrow>
          if room
          then (h\<lparr>ih_pending := AList.update rid (ib_id b) (ih_pending h), ih_waiting := ih_waiting h @ [rid]\<rparr>,
                Delivered (ib_connection b) (public_request rid frame))
          else (h\<lparr>ih_pending := AList.delete rid (ih_pending h), ih_bindings := AList.delete key (ih_bindings h)\<rparr>,
                DeliveryFailed))"

text \<open>The timeout: the receiver is dropped, later the entry is removed.\<close>

definition request_expires :: "string \<Rightarrow> interaction_hub \<Rightarrow> interaction_hub" where
  "request_expires rid h =
     h\<lparr>ih_waiting := removeAll rid (ih_waiting h), ih_results := ih_results h @ [(rid, Inl TimedOut)]\<rparr>"

definition request_forgotten :: "string \<Rightarrow> interaction_hub \<Rightarrow> interaction_hub" where
  "request_forgotten rid h = h\<lparr>ih_pending := AList.delete rid (ih_pending h)\<rparr>"

definition hub_resolve :: "json \<Rightarrow> interaction_hub \<Rightarrow> interaction_hub \<times> bool" where
  "hub_resolve response h =
     (case str_field ''id'' response of
        None \<Rightarrow> (h, False)
      | Some rid \<Rightarrow>
          (case take_entry rid (ih_pending h) of
             (None, rest) \<Rightarrow> (h\<lparr>ih_pending := rest\<rparr>, False)
           | (Some b, rest) \<Rightarrow> answer rid (Inr response) (h\<lparr>ih_pending := rest\<rparr>)))"

section \<open>Runs\<close>

inductive hub_step :: "interaction_hub \<Rightarrow> interaction_hub \<Rightarrow> bool" where
  bind: "hub_step h (hub_bind fresh key conn h)"
| unbind: "hub_step h (hub_unbind key i h)"
| request: "hub_step h (fst (hub_request rid key frame room h))"
    if "rid \<notin> set (ih_waiting h) \<union> fst ` set (ih_pending h) \<union> fst ` set (ih_results h)"
| resolve: "hub_step h (fst (hub_resolve response h))"
| expire: "hub_step h (request_expires rid h)" if "rid \<in> set (ih_waiting h)"
| forget: "hub_step h (request_forgotten rid h)" if "rid \<notin> set (ih_waiting h)"

text \<open>
  A call that waits has its entry, entries and calls have ids of their own, and a call that has its
  outcome does not wait any more.
\<close>

definition hub_ok :: "interaction_hub \<Rightarrow> bool" where
  "hub_ok h \<longleftrightarrow>
     distinct (map fst (ih_pending h)) \<and> distinct (map fst (ih_results h))
     \<and> set (ih_waiting h) \<subseteq> fst ` set (ih_pending h) \<and> set (ih_waiting h) \<inter> fst ` set (ih_results h) = {}
     \<and> distinct (ih_waiting h)"

lemma keys_delete [simp]: "fst ` set (AList.delete k kvs) = fst ` set kvs - {k}"
  by (simp add: delete_keys flip: set_map)

lemma answer_ok:
  assumes "hub_ok h" "rid \<notin> fst ` set rest" "set (ih_waiting h) - {rid} \<subseteq> fst ` set rest"
    and "distinct (map fst rest)"
  shows "hub_ok (fst (answer rid r (h\<lparr>ih_pending := rest\<rparr>)))"
  using assms by (auto simp: hub_ok_def answer_def distinct_removeAll)

lemma hub_ok_new: "hub_ok interaction_hub_new"
  by (simp add: hub_ok_def interaction_hub_new_def)

lemma hub_ok_bindings [simp]: "hub_ok (h\<lparr>ih_bindings := bs\<rparr>) = hub_ok h"
  by (simp add: hub_ok_def)

text \<open>Telling a list of calls that their client is gone, when their entries are out.\<close>

lemma tell_all_ok:
  assumes "distinct rids" "set rids \<inter> fst ` set (ih_pending h) = {}"
    and "distinct (map fst (ih_pending h))" "distinct (map fst (ih_results h))" "distinct (ih_waiting h)"
    and "set (ih_waiting h) \<subseteq> fst ` set (ih_pending h) \<union> set rids" "set (ih_waiting h) \<inter> fst ` set (ih_results h) = {}"
  shows "hub_ok (fold (\<lambda>rid h. fst (answer rid r h)) rids h)"
  using assms
proof (induction rids arbitrary: h)
  case (Cons rid rids)
  show ?case using Cons.prems by (simp, intro Cons.IH) (auto simp: answer_def distinct_removeAll)
qed (auto simp: hub_ok_def)

lemma hub_ok_unbind: "hub_ok h \<Longrightarrow> hub_ok (hub_unbind key i h)"
proof -
  assume ok: "hub_ok h"
  let ?failed = "map fst (filter (\<lambda>(rid, bid). bid = i) (ih_pending h))"
  have d: "distinct (map fst (ih_pending h))" using ok by (simp add: hub_ok_def)
  have apart: "set ?failed \<inter> fst ` set (filter (\<lambda>(rid, bid). bid \<noteq> i) (ih_pending h)) = {}"
    using d by (auto simp: distinct_map inj_on_def)
  have split: "x \<in> set (ih_waiting h) \<Longrightarrow>
      x \<in> fst ` set (filter (\<lambda>(rid, bid). bid \<noteq> i) (ih_pending h)) \<union> set ?failed" for x
    using ok by (force simp: hub_ok_def)
  have "hub_ok (fold (\<lambda>rid h. fst (answer rid r h)) ?failed
      (h\<lparr>ih_bindings := bs, ih_pending := filter (\<lambda>(rid, bid). bid \<noteq> i) (ih_pending h)\<rparr>))" for bs r
    using ok apart d split by (intro tell_all_ok) (auto simp: hub_ok_def distinct_map_filter)
  with ok show ?thesis by (simp add: hub_unbind_def Let_def)
qed

lemma hub_ok_resolve: "hub_ok h \<Longrightarrow> hub_ok (fst (hub_resolve response h))"
proof -
  assume ok: "hub_ok h"
  have "hub_ok (fst (answer rid r (h\<lparr>ih_pending := AList.delete rid (ih_pending h)\<rparr>)))" for rid r
    using ok by (intro answer_ok) (auto simp: hub_ok_def distinct_delete)
  moreover have "rid \<notin> fst ` set (ih_pending h) \<Longrightarrow> hub_ok (h\<lparr>ih_pending := AList.delete rid (ih_pending h)\<rparr>)" for rid
    using ok by (simp add: delete_id)
  ultimately show ?thesis using ok
    by (auto simp: hub_resolve_def take_entry_def map_of_eq_None_iff split: option.split)
qed

lemma hub_ok_step: "hub_step h h' \<Longrightarrow> hub_ok h \<Longrightarrow> hub_ok h'"
proof (induction rule: hub_step.induct)
  case (request rid h key frame room)
  then show ?case
    by (auto simp: hub_request_def hub_ok_def distinct_update dom_update map_of_eq_None_iff split: option.split)
next
  case (expire rid h)
  then show ?case by (auto simp: hub_ok_def request_expires_def distinct_removeAll)
next
  case (forget rid h)
  then show ?case by (auto simp: hub_ok_def request_forgotten_def distinct_delete)
qed (auto simp: hub_bind_def hub_ok_unbind hub_ok_resolve)

lemma hub_ok_run: "hub_step\<^sup>*\<^sup>* h h' \<Longrightarrow> hub_ok h \<Longrightarrow> hub_ok h'"
  by (induction rule: rtranclp_induct) (auto intro: hub_ok_step)

lemma answer_results: "\<exists>rs. ih_results (fst (answer rid r h)) = ih_results h @ rs"
  by (simp add: answer_def)

lemma tell_all_results: "\<exists>rs. ih_results (fold (\<lambda>rid h. fst (answer rid r h)) rids h) = ih_results h @ rs"
proof (induction rids arbitrary: h)
  case (Cons rid rids)
  obtain rs where rs: "ih_results (fst (answer rid r h)) = ih_results h @ rs" using answer_results by blast
  from Cons [of "fst (answer rid r h)"] show ?case by (auto simp: rs)
qed simp

lemma results_step: "hub_step h h' \<Longrightarrow> \<exists>rs. ih_results h' = ih_results h @ rs"
proof (induction rule: hub_step.induct)
  case (unbind h key i)
  have "\<exists>rs. ih_results (fold (\<lambda>rid h. fst (answer rid r h)) rids
      (h\<lparr>ih_bindings := bs, ih_pending := ps\<rparr>)) = ih_results h @ rs" for r rids bs ps
    using tell_all_results [of r rids "h\<lparr>ih_bindings := bs, ih_pending := ps\<rparr>"] by simp
  then show ?case by (simp add: hub_unbind_def Let_def)
next
  case (request rid h key frame room)
  show ?case by (simp add: hub_request_def split: option.split)
next
  case (resolve h response)
  show ?case by (auto simp: hub_resolve_def take_entry_def answer_def split: option.split)
qed (simp_all add: hub_bind_def request_expires_def request_forgotten_def)

lemma results_run: "hub_step\<^sup>*\<^sup>* h h' \<Longrightarrow> set (ih_results h) \<subseteq> set (ih_results h')"
  by (induction rule: rtranclp_induct) (use results_step in fastforce)+

text \<open>
  The call of an agent gets one outcome: a response that is accepted carries the id of a call that
  still waits, is that call's first and only outcome, and no later response with this id
  is accepted, whatever happens to the connections meanwhile.
\<close>

theorem interaction_answered_once:
  assumes "hub_step\<^sup>*\<^sup>* interaction_hub_new h" "hub_resolve response h = (h1, True)"
    and "hub_step\<^sup>*\<^sup>* h1 h2" "str_field ''id'' late = str_field ''id'' response"
  shows "\<exists>rid. str_field ''id'' response = Some rid \<and> rid \<in> set (ih_waiting h)
      \<and> ih_results h1 = ih_results h @ [(rid, Inr response)] \<and> distinct (map fst (ih_results h2))
      \<and> map_of (ih_results h2) rid = Some (Inr response) \<and> \<not> snd (hub_resolve late h2)"
proof -
  from assms(2) obtain rid where rid: "str_field ''id'' response = Some rid" "rid \<in> set (ih_waiting h)"
      "ih_results h1 = ih_results h @ [(rid, Inr response)]"
    by (auto simp: hub_resolve_def take_entry_def answer_def split: option.splits if_splits)
  have ok: "hub_ok h2"
    using hub_ok_run [OF assms(3)] hub_ok_resolve [OF hub_ok_run [OF assms(1) hub_ok_new], of response] assms(2) by simp
  then have d: "distinct (map fst (ih_results h2))" by (simp add: hub_ok_def)
  have mem: "(rid, Inr response) \<in> set (ih_results h2)" using results_run [OF assms(3)] rid(3) by auto
  then have "rid \<notin> set (ih_waiting h2)" using ok by (force simp: hub_ok_def)
  then have "\<not> snd (hub_resolve late h2)"
    using rid(1) assms(4) by (simp add: hub_resolve_def take_entry_def answer_def split: option.split)
  with rid d mem show ?thesis by (intro exI [of _ rid]) simp
qed

text \<open>One call, answered.\<close>

definition asked_hub :: interaction_hub where
  "asked_hub = fst (hub_request ''r1'' (''t'', ''s'') (JObject [(''method'', JString ''fs/read'')]) True
     (hub_bind ''b1'' (''t'', ''s'') 7 interaction_hub_new))"

lemma asked_hub_eq:
  "asked_hub = \<lparr>ih_bindings = [((''t'', ''s''), \<lparr>ib_id = ''b1'', ib_connection = 7\<rparr>)], ih_pending = [(''r1'', ''b1'')],
     ih_waiting = [''r1''], ih_results = []\<rparr>"
  by (simp add: asked_hub_def hub_request_def hub_bind_def interaction_hub_new_def)

lemma asked_hub_reachable: "hub_step\<^sup>*\<^sup>* interaction_hub_new asked_hub"
proof -
  have "hub_step interaction_hub_new (hub_bind ''b1'' (''t'', ''s'') 7 interaction_hub_new)" by (rule hub_step.bind)
  moreover have "hub_step (hub_bind ''b1'' (''t'', ''s'') 7 interaction_hub_new) asked_hub"
    unfolding asked_hub_def by (rule hub_step.request) (simp add: hub_bind_def interaction_hub_new_def)
  ultimately show ?thesis by (meson rtranclp.rtrancl_refl rtranclp.rtrancl_into_rtrancl)
qed

theorem interaction_answered_once_witness:
  "\<exists>h1. hub_resolve (JObject [(''id'', JString ''r1'')]) asked_hub = (h1, True)
     \<and> map_of (ih_results h1) ''r1'' = Some (Inr (JObject [(''id'', JString ''r1'')]))
     \<and> \<not> snd (hub_resolve (JObject [(''id'', JString ''r1'')]) h1)"
proof -
  let ?r = "JObject [(''id'', JString ''r1'')]"
  obtain h1 where h1: "hub_resolve ?r asked_hub = (h1, True)"
    by (simp add: asked_hub_eq hub_resolve_def str_field_def take_entry_def answer_def)
  from interaction_answered_once [OF asked_hub_reachable h1 rtranclp.rtrancl_refl refl] h1 show ?thesis
    by (auto simp: str_field_def)
qed

section \<open>Calls that nobody fails\<close>

text \<open>
  A connection that takes over a session leaves the calls of the one before it waiting: when the old
  connection ends, its calls are not told, and only their timeout ends them.  The same happens
  to the calls that wait when one more request does not fit into the connection's channel.
\<close>

theorem replaced_connection_strands_calls:
  assumes "i \<noteq> j"
  shows "hub_unbind key i (hub_bind j key conn h) = hub_bind j key conn h
    \<and> hub_unbind key i (fst (hub_request rid key frame False h)) = fst (hub_request rid key frame False h)"
  using assms by (simp add: hub_unbind_def hub_bind_def hub_request_def update_conv' delete_conv' split: option.split)

theorem replaced_connection_strands_calls_witness:
  "ih_waiting (hub_unbind (''t'', ''s'') ''b1'' (hub_bind ''b2'' (''t'', ''s'') 8 asked_hub)) = [''r1'']
   \<and> ih_waiting (hub_unbind (''t'', ''s'') ''b1'' (fst (hub_request ''r2'' (''t'', ''s'') JNull False asked_hub))) = [''r1'']"
proof -
  have "''b1'' \<noteq> ''b2''" by simp
  from replaced_connection_strands_calls [OF this, of "(''t'', ''s'')" 8 asked_hub "''r2''" JNull]
  have "hub_unbind (''t'', ''s'') ''b1'' (hub_bind ''b2'' (''t'', ''s'') 8 asked_hub) = hub_bind ''b2'' (''t'', ''s'') 8 asked_hub"
    "hub_unbind (''t'', ''s'') ''b1'' (fst (hub_request ''r2'' (''t'', ''s'') JNull False asked_hub))
      = fst (hub_request ''r2'' (''t'', ''s'') JNull False asked_hub)" by blast+
  then show ?thesis by (simp add: asked_hub_eq hub_bind_def hub_request_def)
qed

end
