(* ===== verification/ResumeCursors.thy ===== *)
theory ResumeCursors
  imports Notify JsonPath
begin

text \<open>
  Reconnecting without the client's help.  \<open>ResumeTracker\<close> of \<open>acpx-bridge/src/resume.rs\<close> sits
  between a client that knows no cursors and the gateway: it remembers the newest number and epoch
  of every session it sees, and after a reconnect puts them into the next frame for the session.
  The gateway takes them out again (\<open>take_resume_cursor\<close> of \<open>acpx-server/src/transport/live.rs\<close>)
  and resumes the stream (\<open>Notify\<close>).
\<close>

section \<open>The tracker\<close>

record tracked_session =
  tk_last_seq :: nat
  tk_epoch :: string
  tk_needs_resync :: bool

record resume_tracker =
  rt_sessions :: "(string \<times> tracked_session) list"
  rt_pending_forget :: "(string \<times> string) list"

definition tracker_new :: resume_tracker where
  "tracker_new = \<lparr>rt_sessions = [], rt_pending_forget = []\<rparr>"

definition mark_all_for_resync :: "resume_tracker \<Rightarrow> resume_tracker" where
  "mark_all_for_resync tr = tr\<lparr>rt_sessions := map (\<lambda>(k, s). (k, s\<lparr>tk_needs_resync := True\<rparr>)) (rt_sessions tr)\<rparr>"

definition request_id_key :: "json \<Rightarrow> string option" where
  "request_id_key frame =
     (case json_get ''id'' frame of Some (JString s) \<Rightarrow> Some s | Some (JNumber n) \<Rightarrow> Some n | _ \<Rightarrow> None)"

definition closes_session :: "string option \<Rightarrow> bool" where
  "closes_session method \<longleftrightarrow> method = Some ''session/close'' \<or> method = Some ''session/delete''"

definition observe_outgoing :: "json \<Rightarrow> resume_tracker \<Rightarrow> resume_tracker" where
  "observe_outgoing frame tr =
     (if \<not> closes_session (str_field ''method'' frame) then tr
      else case (request_id_key frame, str_at [''params'', ''sessionId''] frame) of
        (Some i, Some sid) \<Rightarrow> tr\<lparr>rt_pending_forget := AList.update i sid (rt_pending_forget tr)\<rparr>
      | _ \<Rightarrow> tr)"

definition cursor_json :: "nat \<Rightarrow> string \<Rightarrow> json" where
  "cursor_json n epoch = JObject [(''lastSeq'', JNumber (show_nat n)), (''epoch'', JString epoch)]"

text \<open>The frame, changed or not, and whether it was changed.\<close>

definition prepare_outgoing :: "json \<Rightarrow> resume_tracker \<Rightarrow> resume_tracker \<times> json \<times> bool" where
  "prepare_outgoing frame tr =
     (case str_at [''params'', ''sessionId''] frame of
        None \<Rightarrow> (tr, frame, False)
      | Some sid \<Rightarrow>
          (case map_of (rt_sessions tr) sid of
             None \<Rightarrow> (tr, frame, False)
           | Some s \<Rightarrow>
               if \<not> tk_needs_resync s then (tr, frame, False)
               else case Option.bind (json_get ''params'' frame) as_object of
                 None \<Rightarrow> (tr, frame, False)
               | Some params \<Rightarrow>
                   (case (case map_of params ''_acpx'' of None \<Rightarrow> JObject [] | Some v \<Rightarrow> v) of
                      JObject extension \<Rightarrow>
                        (tr\<lparr>rt_sessions := AList.update sid (s\<lparr>tk_needs_resync := False\<rparr>) (rt_sessions tr)\<rparr>,
                         (case frame of
                            JObject kvs \<Rightarrow>
                              JObject (AList.update ''params''
                                (JObject (AList.update ''_acpx''
                                  (JObject (AList.update ''resume'' (cursor_json (tk_last_seq s) (tk_epoch s)) extension))
                                  params)) kvs)
                          | _ \<Rightarrow> frame), True)
                    | _ \<Rightarrow> (tr, frame, False))))"

definition observe_session_update :: "json \<Rightarrow> resume_tracker \<Rightarrow> resume_tracker" where
  "observe_session_update frame tr =
     (case str_at [''params'', ''sessionId''] frame of
        None \<Rightarrow> tr
      | Some sid \<Rightarrow>
          (case (Option.bind (pointer [''params'', ''_acpx'', ''seq''] frame) as_u64,
                 str_at [''params'', ''_acpx'', ''epoch''] frame) of
             (Some n, Some epoch) \<Rightarrow>
               tr\<lparr>rt_sessions := AList.update sid
                 (case map_of (rt_sessions tr) sid of
                    Some s \<Rightarrow> s\<lparr>tk_last_seq := n, tk_epoch := epoch\<rparr>
                  | None \<Rightarrow> \<lparr>tk_last_seq = n, tk_epoch = epoch, tk_needs_resync = False\<rparr>) (rt_sessions tr)\<rparr>
           | _ \<Rightarrow> tr))"

definition observe_possible_close_response :: "json \<Rightarrow> resume_tracker \<Rightarrow> resume_tracker" where
  "observe_possible_close_response frame tr =
     (case request_id_key frame of
        None \<Rightarrow> tr
      | Some i \<Rightarrow>
          (case map_of (rt_pending_forget tr) i of
             None \<Rightarrow> tr
           | Some sid \<Rightarrow>
               let tr' = tr\<lparr>rt_pending_forget := AList.delete i (rt_pending_forget tr)\<rparr>
               in if json_get ''error'' frame \<noteq> None then tr'
                  else tr'\<lparr>rt_sessions := AList.delete sid (rt_sessions tr')\<rparr>))"

definition observe_incoming :: "json \<Rightarrow> resume_tracker \<Rightarrow> resume_tracker" where
  "observe_incoming frame tr =
     (if str_field ''method'' frame = Some ''session/update'' then observe_session_update frame tr
      else observe_possible_close_response frame tr)"

section \<open>The gateway's side\<close>

definition read_cursor :: "json \<Rightarrow> resume_cursor option" where
  "read_cursor resume =
     (case (Option.bind (json_get ''lastSeq'' resume) as_u64, str_field ''epoch'' resume) of
        (Some n, Some epoch) \<Rightarrow> Some \<lparr>cur_last_seq = n, cur_epoch = epoch\<rparr>
      | _ \<Rightarrow> None)"

definition take_resume_cursor :: "json \<Rightarrow> json \<times> resume_cursor option" where
  "take_resume_cursor request =
     (case request of
        JObject kvs \<Rightarrow>
          (case map_of kvs ''params'' of
             Some (JObject params) \<Rightarrow>
               (case map_of params ''_acpx'' of
                  Some (JObject extension) \<Rightarrow>
                    (let rest = AList.delete ''resume'' extension;
                         params' = (if rest = [] then AList.delete ''_acpx'' params
                                    else AList.update ''_acpx'' (JObject rest) params)
                     in (JObject (AList.update ''params'' (JObject params') kvs),
                         Option.bind (map_of extension ''resume'') read_cursor))
                | _ \<Rightarrow> (request, None))
           | _ \<Rightarrow> (request, None))
      | _ \<Rightarrow> (request, None))"

text \<open>Which session a connection watches after a call, and which it stops watching.\<close>

definition session_id_to_watch :: "json \<Rightarrow> json \<Rightarrow> string \<Rightarrow> string option" where
  "session_id_to_watch request response method =
     (if json_get ''error'' response \<noteq> None then None
      else if method = ''session/new'' \<or> method = ''session/fork'' then str_at [''result'', ''sessionId''] response
      else str_at [''params'', ''sessionId''] request)"

definition session_id_to_forget :: "json \<Rightarrow> json \<Rightarrow> string \<Rightarrow> string option" where
  "session_id_to_forget request response method =
     (if json_get ''error'' response \<noteq> None then None
      else if \<not> closes_session (Some method) then None
      else str_at [''params'', ''sessionId''] request)"

section \<open>What the tracker remembers\<close>

definition update_for :: "string \<Rightarrow> json \<Rightarrow> bool" where
  "update_for sid v \<longleftrightarrow>
     (\<exists>kvs params. v = JObject kvs \<and> map_of kvs ''method'' = Some (JString ''session/update'')
       \<and> map_of kvs ''params'' = Some (JObject params) \<and> map_of params ''sessionId'' = Some (JString sid)
       \<and> (map_of params ''_acpx'' = None \<or> (\<exists>e. map_of params ''_acpx'' = Some (JObject e))))"

definition cursor_of :: "resume_tracker \<Rightarrow> string \<Rightarrow> (nat \<times> string) option" where
  "cursor_of tr sid = map_option (\<lambda>s. (tk_last_seq s, tk_epoch s)) (map_of (rt_sessions tr) sid)"

lemma stamped:
  assumes "update_for sid (env_value env)"
  shows "str_field ''method'' (into_value env) = Some ''session/update''"
    and "str_at [''params'', ''sessionId''] (into_value env) = Some sid"
    and "pointer [''params'', ''_acpx'', ''seq''] (into_value env) = Some (JNumber (show_nat (env_seq env)))"
    and "str_at [''params'', ''_acpx'', ''epoch''] (into_value env) = Some (env_epoch env)"
  using assms
  by (auto simp: update_for_def into_value_def str_field_def str_at_def update_conv' simp del: show_nat.simps split: option.split)

lemma observe_stamped:
  assumes "update_for sid (env_value env)" "env_seq env < 2 ^ 64"
  shows "cursor_of (observe_incoming (into_value env) tr) sid = Some (env_seq env, env_epoch env)"
  using assms
  by (auto simp: observe_incoming_def observe_session_update_def stamped cursor_of_def update_conv'
      simp del: show_nat.simps pointer.simps split: option.split)

lemma observe_all:
  assumes "envs \<noteq> []" "\<forall>env \<in> set envs. update_for sid (env_value env) \<and> env_seq env < 2 ^ 64"
  shows "cursor_of (fold observe_incoming (map into_value envs) tr) sid = Some (env_seq (last envs), env_epoch (last envs))"
  using assms by (cases envs rule: rev_cases) (simp_all add: observe_stamped)

text \<open>A frame a client sends for the session, with no cursor of its own.\<close>

definition client_frame :: "string \<Rightarrow> json \<Rightarrow> bool" where
  "client_frame sid v \<longleftrightarrow>
     (\<exists>kvs params. v = JObject kvs \<and> map_of kvs ''params'' = Some (JObject params)
       \<and> map_of params ''sessionId'' = Some (JString sid)
       \<and> (map_of params ''_acpx'' = None
          \<or> (\<exists>e. map_of params ''_acpx'' = Some (JObject e) \<and> e \<noteq> [] \<and> map_of e ''resume'' = None)))"

lemma delete_fresh: "map_of kvs k = None \<Longrightarrow> AList.delete k (AList.update k v kvs) = kvs"
  by (induction kvs) (auto split: if_splits)

lemma read_cursor_json: "n < 2 ^ 64 \<Longrightarrow> read_cursor (cursor_json n ep) = Some \<lparr>cur_last_seq = n, cur_epoch = ep\<rparr>"
  by (simp add: read_cursor_def cursor_json_def str_field_def del: show_nat.simps)

lemma marked_session: "map_of (rt_sessions (mark_all_for_resync tr)) sid = map_option (tk_needs_resync_update (\<lambda>_. True)) (map_of (rt_sessions tr) sid)"
  by (simp add: mark_all_for_resync_def map_of_map [unfolded case_prod_unfold] case_prod_unfold)

text \<open>
  After a reconnect the next frame of a session carries the newest cursor, once; the gateway reads this
  cursor and passes on the very frame of the client.
\<close>

lemma cursor_travels:
  assumes "cursor_of tr sid = Some (n, ep)" "n < 2 ^ 64" "client_frame sid frame"
  obtains tr' frame' where "prepare_outgoing frame (mark_all_for_resync tr) = (tr', frame', True)"
    "take_resume_cursor frame' = (frame, Some \<lparr>cur_last_seq = n, cur_epoch = ep\<rparr>)"
    "\<And>v. client_frame sid v \<Longrightarrow> prepare_outgoing v tr' = (tr', v, False)"
proof -
  from assms(3) obtain kvs params where f: "frame = JObject kvs" "map_of kvs ''params'' = Some (JObject params)"
      "map_of params ''sessionId'' = Some (JString sid)"
      and ext: "map_of params ''_acpx'' = None
          \<or> (\<exists>e. map_of params ''_acpx'' = Some (JObject e) \<and> e \<noteq> [] \<and> map_of e ''resume'' = None)"
    by (auto simp: client_frame_def)
  from assms(1) obtain s where s: "map_of (rt_sessions tr) sid = Some s" "tk_last_seq s = n" "tk_epoch s = ep"
    by (auto simp: cursor_of_def)
  let ?e = "case map_of params ''_acpx'' of Some (JObject e) \<Rightarrow> e | _ \<Rightarrow> []"
  let ?tr = "(mark_all_for_resync tr)\<lparr>rt_sessions := AList.update sid (s\<lparr>tk_needs_resync := False\<rparr>)
      (rt_sessions (mark_all_for_resync tr))\<rparr>"
  let ?f = "JObject (AList.update ''params''
      (JObject (AList.update ''_acpx'' (JObject (AList.update ''resume'' (cursor_json n ep) ?e)) params)) kvs)"
  have at: "str_at [''params'', ''sessionId''] frame = Some sid" using f by (simp add: str_at_def)
  have "prepare_outgoing frame (mark_all_for_resync tr) = (?tr, ?f, True)"
    using f s ext at by (auto simp: prepare_outgoing_def marked_session)
  moreover have "take_resume_cursor ?f = (frame, Some \<lparr>cur_last_seq = n, cur_epoch = ep\<rparr>)"
    using ext f assms(2)
    by (auto simp: take_resume_cursor_def update_conv' Let_def delete_fresh update_triv read_cursor_json)
  moreover have "prepare_outgoing v ?tr = (?tr, v, False)" if "client_frame sid v" for v
    using that by (auto simp: client_frame_def prepare_outgoing_def str_at_def update_conv')
  ultimately show thesis by (rule that)
qed

section \<open>Resuming through the bridge\<close>

lemma numbered_take: "numbered k es \<Longrightarrow> numbered k (take n es)"
  by (induction es arbitrary: k n) (auto simp: take_Cons split: nat.split)

lemma numbered_le: "numbered k es \<Longrightarrow> env \<in> set es \<Longrightarrow> env_seq env \<le> k + length es"
  by (induction es arbitrary: k) fastforce+


text \<open>One update goes through the bridge, the second is published while it is away.\<close>

definition note_json :: json where
  "note_json = JObject [(''method'', JString ''session/update''), (''params'', JObject [(''sessionId'', JString ''s'')])]"

definition prompt_json :: json where
  "prompt_json = JObject [(''method'', JString ''session/prompt''), (''params'', JObject [(''sessionId'', JString ''s'')])]"

definition publish_all :: "nat \<Rightarrow> 'v list \<Rightarrow> 'v session_stream \<Rightarrow> 'v session_stream" where
  "publish_all limit vs st =
     fold (\<lambda>v st. let (env, st') = take_seq v st in fst (send_live env (push_replay limit env st'))) vs st"

lemma publish_one: "(serial limit)\<^sup>*\<^sup>* (st, Quiet) (let (env, st') = take_seq v st in fst (send_live env (push_replay limit env st')), Quiet)"
proof -
  obtain env st' where t: "take_seq v st = (env, st')" by (cases "take_seq v st")
  have "serial limit (st, Quiet) (st', Numbered env)" by (rule SerialTake [OF t])
  moreover have "serial limit (st', Numbered env) (push_replay limit env st', Retained env)" by (rule SerialPush)
  moreover have "serial limit (push_replay limit env st', Retained env) (fst (send_live env (push_replay limit env st')), Quiet)"
    by (rule SerialSend)
  ultimately have "(serial limit)\<^sup>*\<^sup>* (st, Quiet) (fst (send_live env (push_replay limit env st')), Quiet)"
    by (blast intro: rtranclp.rtrancl_into_rtrancl)
  then show ?thesis by (simp add: t)
qed

lemma publish_all_serial: "(serial limit)\<^sup>*\<^sup>* (st, Quiet) (publish_all limit vs st, Quiet)"
proof (induction vs arbitrary: st)
  case (Cons v vs)
  from rtranclp_trans [OF publish_one [of limit st v] Cons] show ?case by (simp add: publish_all_def)
qed (simp add: publish_all_def)


end
