(* ===== verification/AgentHost.thy ===== *)
theory AgentHost
  imports SessionRegistry JsonPath
begin

text \<open>
  What the gateway does for an agent in the middle of a call: \<open>acpx-core/src/router.rs\<close> from
  \<open>build_permission_reply\<close> to \<open>attach_updates\<close>, and the captured terminals of
  \<open>acpx-conductor/src/terminal.rs\<close>.  An agent asks for permission, for files and for terminals of the
  gateway's host; a live client may decide, else the policy of the profile does.  The files and the
  terminals are the state; the operating system's answers, fresh ids, the clients' answers and
  \<open>String::from_utf8_lossy\<close> are arguments.
\<close>

section \<open>Captured terminals\<close>

record exit_status =
  es_code :: "int option"
  es_signal :: "int option"

record terminal_handle =
  th_process :: nat
  th_limit :: "nat option"
  th_output :: string
  th_truncated :: bool
  th_exit :: "exit_status option"
  th_joined :: bool

definition spawned_terminal :: "nat \<Rightarrow> nat option \<Rightarrow> terminal_handle" where
  "spawned_terminal p limit =
     \<lparr>th_process = p, th_limit = limit, th_output = [], th_truncated = False, th_exit = None, th_joined = False\<rparr>"

text \<open>One read of a capture task: the chunk is appended and the oldest bytes go.\<close>

definition capture :: "string \<Rightarrow> terminal_handle \<Rightarrow> terminal_handle" where
  "capture chunk h =
     (let out = th_output h @ chunk
      in case th_limit h of
           None \<Rightarrow> h\<lparr>th_output := out\<rparr>
         | Some limit \<Rightarrow>
             if limit < length out then h\<lparr>th_output := drop (length out - limit) out, th_truncated := True\<rparr>
             else h\<lparr>th_output := out\<rparr>)"

text \<open>
  The end of \<open>wait_for_exit\<close> and \<open>try_wait_for_exit\<close>: the capture tasks are joined through
  \<open>&mut JoinHandle\<close>, which panics (\<open>None\<close>) when it is polled again after it gave its result.
\<close>

definition join_capture :: "exit_status \<Rightarrow> terminal_handle \<Rightarrow> terminal_handle option" where
  "join_capture s h = (if th_joined h then None else Some (h\<lparr>th_exit := Some s, th_joined := True\<rparr>))"

definition try_wait_for_exit :: "exit_status option \<Rightarrow> terminal_handle \<Rightarrow> terminal_handle option" where
  "try_wait_for_exit os h = (case os of None \<Rightarrow> Some h | Some s \<Rightarrow> join_capture s h)"

text \<open>
  One turn of the task that streams a terminal to the clients: what it knows afterwards, and the
  snapshot it sends.  It ends with the snapshot that has an exit status, and by the panic.
\<close>

definition stream_tick ::
  "exit_status option \<Rightarrow> terminal_handle \<Rightarrow> nat \<times> bool
    \<Rightarrow> (terminal_handle \<times> (nat \<times> bool) \<times> (string \<times> bool \<times> exit_status option) option) option"
where
  "stream_tick os h known =
     map_option (\<lambda>h.
       let changed = (length (th_output h) \<noteq> fst known \<or> th_truncated h \<noteq> snd known)
       in if changed \<or> th_exit h \<noteq> None
          then (h, (length (th_output h), th_truncated h), Some (th_output h, th_truncated h, th_exit h))
          else (h, known, None))
       (try_wait_for_exit os h)"

section \<open>The host\<close>

record agent_host =
  ah_files :: "string \<rightharpoonup> string"
  ah_terminals :: "(string \<times> terminal_handle) list"

datatype wait_outcome = Exited exit_status | WaitFails string | WaitTimesOut

datatype pipe_outcome = Written | PipeFails string | PipeStalls

record host_env =
  he_read_error :: "string \<Rightarrow> string"
  he_write_error :: "string \<Rightarrow> string option"
  he_spawn :: "string \<Rightarrow> string list \<Rightarrow> (string \<times> string) list \<Rightarrow> string option \<Rightarrow> string + nat"
  he_fresh :: string
  he_wait :: "nat \<Rightarrow> wait_outcome"
  he_kill_error :: "nat \<Rightarrow> string option"
  he_lossy :: "string \<Rightarrow> string"
  he_pipe :: "json \<Rightarrow> pipe_outcome"

definition frame_id :: "json \<Rightarrow> json" where
  "frame_id request = (case json_get ''id'' request of None \<Rightarrow> JNull | Some i \<Rightarrow> i)"

definition rpc_result :: "json \<Rightarrow> json \<Rightarrow> json" where
  "rpc_result i v = JObject [(''jsonrpc'', JString ''2.0''), (''id'', i), (''result'', v)]"

definition rpc_error :: "json \<Rightarrow> string \<Rightarrow> string \<Rightarrow> json" where
  "rpc_error i code message =
     JObject [(''jsonrpc'', JString ''2.0''), (''id'', i),
       (''error'', JObject [(''code'', JNumber code), (''message'', JString message)])]"

text \<open>The errors of the operating system on a file carry its path.\<close>

definition path_error :: "json \<Rightarrow> string \<Rightarrow> string \<Rightarrow> json" where
  "path_error i message path =
     JObject [(''jsonrpc'', JString ''2.0''), (''id'', i),
       (''error'', JObject [(''code'', JNumber ''-32001''), (''message'', JString message), (''data'', JObject [(''path'', JString path)])])]"

definition quoted :: "string \<Rightarrow> string" where
  "quoted s = CHR 0x27 # s @ [CHR 0x27]"

definition param :: "string \<Rightarrow> json \<Rightarrow> json option" where
  "param k request = pointer [''params'', k] request"

definition str_param :: "string \<Rightarrow> json \<Rightarrow> string option" where
  "str_param k request = Option.bind (param k request) as_str"

section \<open>Permissions\<close>

definition starts_with :: "string \<Rightarrow> string \<Rightarrow> bool" where
  "starts_with p s \<longleftrightarrow> take (length p) s = p"

definition kind_is :: "string \<Rightarrow> json \<Rightarrow> bool" where
  "kind_is p option = (case str_field ''kind'' option of None \<Rightarrow> False | Some k \<Rightarrow> starts_with p k)"

definition build_permission_reply :: "json \<Rightarrow> permission_policy \<Rightarrow> json" where
  "build_permission_reply request policy =
     (let options = (case Option.bind (param ''options'' request) as_array of None \<Rightarrow> [] | Some os \<Rightarrow> os);
          by_kind = find (kind_is (case policy of AutoAllow \<Rightarrow> ''allow_'' | AutoReject \<Rightarrow> ''reject_'')) options;
          chosen = (case by_kind of
              Some option \<Rightarrow> Some option
            | None \<Rightarrow> (case (policy, options) of (AutoAllow, option # os) \<Rightarrow> Some option | _ \<Rightarrow> None));
          outcome = (case Option.bind chosen (str_field ''optionId'') of
              Some i \<Rightarrow> JObject [(''outcome'', JString ''selected''), (''optionId'', JString i)]
            | None \<Rightarrow> JObject [(''outcome'', JString ''cancelled'')])
      in rpc_result (frame_id request) (JObject [(''outcome'', outcome)]))"

section \<open>Files\<close>

fun join_lines :: "string list \<Rightarrow> string" where
  "join_lines [] = []"
| "join_lines [l] = l"
| "join_lines (l # ls) = l @ newline # join_lines ls"

text \<open>\<open>lines.get(start..end)\<close>; the end is computed in \<open>usize\<close> and wraps around.\<close>

definition file_slice :: "nat option \<Rightarrow> nat option \<Rightarrow> string \<Rightarrow> string" where
  "file_slice line limit content =
     (if line = None \<and> limit = None then content
      else
        let start = (case line of None \<Rightarrow> 0 | Some l \<Rightarrow> l - 1);
            ls = str_lines content;
            stop = (case limit of None \<Rightarrow> length ls | Some n \<Rightarrow> min ((start + n) mod 2 ^ 64) (length ls))
        in if start \<le> stop then join_lines (drop start (take stop ls)) else [])"

definition handle_fs_request :: "host_env \<Rightarrow> json \<Rightarrow> string \<Rightarrow> agent_host \<Rightarrow> agent_host \<times> json" where
  "handle_fs_request env request method host =
     (let i = frame_id request
      in case str_param ''path'' request of
           None \<Rightarrow> (host, rpc_error i ''-32602'' ''missing required 'path' param'')
         | Some path \<Rightarrow>
             if method = ''fs/read_text_file'' then
               (case ah_files host path of
                  Some content \<Rightarrow>
                    (host, rpc_result i (JObject [(''content'', JString
                      (file_slice (Option.bind (param ''line'' request) as_u64) (Option.bind (param ''limit'' request) as_u64) content))]))
                | None \<Rightarrow> (host, path_error i (''fs/read_text_file: '' @ he_read_error env path) path))
             else if method = ''fs/write_text_file'' then
               (case he_write_error env path of
                  None \<Rightarrow> (host\<lparr>ah_files := (ah_files host)(path \<mapsto> str_or [] (str_param ''content'' request))\<rparr>, rpc_result i (JObject []))
                | Some e \<Rightarrow> (host, path_error i (''fs/write_text_file: '' @ e) path))
             else (host, rpc_error i ''-32601'' (''acpx gateway does not implement '' @ quoted method)))"

section \<open>Terminals\<close>

definition show_int :: "int \<Rightarrow> string" where
  "show_int n = (if n < 0 then CHR ''-'' # show_nat (nat (- n)) else show_nat (nat n))"

definition int_json :: "int option \<Rightarrow> json" where
  "int_json n = (case n of None \<Rightarrow> JNull | Some m \<Rightarrow> JNumber (show_int m))"

definition exit_json :: "exit_status \<Rightarrow> json" where
  "exit_json s = JObject [(''exitCode'', int_json (es_code s)), (''signal'', int_json (es_signal s))]"

definition env_entry :: "json \<Rightarrow> (string \<times> string) option" where
  "env_entry v =
     (case (str_field ''name'' v, str_field ''value'' v) of (Some n, Some x) \<Rightarrow> Some (n, x) | _ \<Rightarrow> None)"

definition string_args :: "json option \<Rightarrow> string list" where
  "string_args v = (case Option.bind v as_array of None \<Rightarrow> [] | Some vs \<Rightarrow> List.map_filter as_str vs)"

text \<open>\<open>collect\<close> into a hash map: the last entry with a name counts.\<close>

definition env_vars :: "json option \<Rightarrow> (string \<times> string) list" where
  "env_vars v =
     fold (\<lambda>(n, x) vars. AList.update n x vars)
       (case Option.bind v as_array of None \<Rightarrow> [] | Some vs \<Rightarrow> List.map_filter env_entry vs) []"

definition create_terminal :: "host_env \<Rightarrow> json \<Rightarrow> agent_host \<Rightarrow> agent_host \<times> json" where
  "create_terminal env request host =
     (let i = frame_id request
      in case str_param ''command'' request of
           None \<Rightarrow> (host, rpc_error i ''-32602'' ''missing required 'command' param'')
         | Some command \<Rightarrow>
             (case he_spawn env command (string_args (param ''args'' request)) (env_vars (param ''env'' request)) (str_param ''cwd'' request) of
                Inl e \<Rightarrow> (host, rpc_error i ''-32001'' (''terminal/create: '' @ e))
              | Inr p \<Rightarrow>
                  (let tid = ''term-'' @ he_fresh env;
                       h = spawned_terminal p (Option.bind (param ''outputByteLimit'' request) as_u64)
                   in (host\<lparr>ah_terminals := AList.update tid h (ah_terminals host)\<rparr>,
                       rpc_result i (JObject [(''terminalId'', JString tid)])))))"

definition wait_timeout_message :: string where
  "wait_timeout_message = ''terminal/wait_for_exit exceeded 1200s; the command is still running -- poll terminal/output or call terminal/kill instead of waiting again''"

definition terminal_snapshot :: "host_env \<Rightarrow> terminal_handle \<Rightarrow> (string \<times> json) list" where
  "terminal_snapshot env h =
     [(''output'', JString (he_lossy env (th_output h))), (''truncated'', JBool (th_truncated h)),
      (''exitStatus'', (case th_exit h of None \<Rightarrow> JNull | Some s \<Rightarrow> exit_json s))]"

definition on_terminal ::
  "host_env \<Rightarrow> json \<Rightarrow> string \<Rightarrow> string \<Rightarrow> terminal_handle \<Rightarrow> agent_host \<Rightarrow> (agent_host \<times> json) option"
where
  "on_terminal env i method tid h host =
     (if method = ''terminal/output'' then Some (host, rpc_result i (JObject (terminal_snapshot env h)))
      else if method = ''terminal/wait_for_exit'' then
        (case he_wait env (th_process h) of
           Exited s \<Rightarrow>
             map_option (\<lambda>h'. (host\<lparr>ah_terminals := AList.update tid h' (ah_terminals host)\<rparr>,
               rpc_result i (JObject [(''exitStatus'', exit_json s)]))) (join_capture s h)
         | WaitFails e \<Rightarrow> Some (host, rpc_error i ''-32001'' (''terminal/wait_for_exit: '' @ e))
         | WaitTimesOut \<Rightarrow> Some (host, rpc_error i ''-32001'' wait_timeout_message))
      else if method = ''terminal/kill'' then
        (case he_kill_error env (th_process h) of
           None \<Rightarrow> Some (host, rpc_result i (JObject []))
         | Some e \<Rightarrow> Some (host, rpc_error i ''-32001'' (''terminal/kill: '' @ e)))
      else if method = ''terminal/release'' then
        Some (host\<lparr>ah_terminals := AList.delete tid (ah_terminals host)\<rparr>, rpc_result i (JObject []))
      else Some (host, rpc_error i ''-32601'' (''acpx gateway does not implement '' @ quoted method)))"

definition terminal_methods :: "string list" where
  "terminal_methods = [''terminal/output'', ''terminal/wait_for_exit'', ''terminal/kill'', ''terminal/release'']"

definition handle_terminal_request :: "host_env \<Rightarrow> json \<Rightarrow> string \<Rightarrow> agent_host \<Rightarrow> (agent_host \<times> json) option" where
  "handle_terminal_request env request method host =
     (let i = frame_id request
      in if method = ''terminal/create'' then Some (create_terminal env request host)
         else case str_param ''terminalId'' request of
           None \<Rightarrow> Some (host, rpc_error i ''-32602'' ''missing required 'terminalId' param'')
         | Some tid \<Rightarrow>
             if method \<notin> set terminal_methods then Some (host, rpc_error i ''-32601'' (''acpx gateway does not implement '' @ quoted method))
             else case map_of (ah_terminals host) tid of
               None \<Rightarrow> Some (host, rpc_error i ''-32602'' (''unknown terminalId '' @ quoted tid))
             | Some h \<Rightarrow> on_terminal env i method tid h host)"

section \<open>Streaming a terminal\<close>

definition terminal_output_frame :: "host_env \<Rightarrow> string \<Rightarrow> string \<Rightarrow> terminal_handle \<Rightarrow> json" where
  "terminal_output_frame env gid tid h =
     JObject [(''jsonrpc'', JString ''2.0''), (''method'', JString ''acpx/terminal_output''),
       (''params'', JObject ([(''sessionId'', JString gid), (''terminalId'', JString tid)] @ terminal_snapshot env h))]"

datatype stream_end = Streaming "nat \<times> bool" | StreamDone | StreamPanics

text \<open>One turn of the loop against the registry of terminals.\<close>

definition stream_turn ::
  "host_env \<Rightarrow> string \<Rightarrow> string \<Rightarrow> exit_status option \<Rightarrow> nat \<times> bool \<Rightarrow> agent_host \<Rightarrow> agent_host \<times> json option \<times> stream_end"
where
  "stream_turn env gid tid os known host =
     (case map_of (ah_terminals host) tid of
        None \<Rightarrow> (host, None, StreamDone)
      | Some h \<Rightarrow>
          (case stream_tick os h known of
             None \<Rightarrow> (host, None, StreamPanics)
           | Some (h', known', snapshot) \<Rightarrow>
               (host\<lparr>ah_terminals := AList.update tid h' (ah_terminals host)\<rparr>,
                if snapshot = None then None else Some (terminal_output_frame env gid tid h'),
                if th_exit h' = None then Streaming known' else StreamDone)))"

end
