(* ===== verification/AgentRequests.thy ===== *)
theory AgentRequests
  imports AgentHost Interaction
begin

text \<open>
  Frames of an agent that no call waits for: \<open>handle_unmatched_frame\<close> of \<open>acpx-core/src/router.rs\<close> and
  its three readers, the loop of a call (\<open>read_matching_response\<close>), the consumer of a shared process
  (\<open>spawn_demux_consumer\<close>) and the scavenger of an idle one.  What the two hubs of clients answer
  (see \<open>AgentRelay\<close> and \<open>Interaction\<close>) and the pipe of the agent are arguments; what is written to the
  agent, appended to transcripts and published to clients is a list of effects.
\<close>

section \<open>Policies\<close>

record agent_profile =
  ap_policy :: permission_policy
  ap_fs :: bool
  ap_terminal :: bool
  ap_auth :: "string option"

record call_policy =
  cp_policy :: permission_policy
  cp_fs :: bool
  cp_terminal :: bool
  cp_auth :: "string option"

definition policy_from_profile :: "agent_profile option \<Rightarrow> call_policy" where
  "policy_from_profile p =
     (case p of
        Some p \<Rightarrow> \<lparr>cp_policy = ap_policy p, cp_fs = ap_fs p, cp_terminal = ap_terminal p, cp_auth = ap_auth p\<rparr>
      | None \<Rightarrow> \<lparr>cp_policy = AutoReject, cp_fs = False, cp_terminal = False, cp_auth = None\<rparr>)"

definition with_permission_profile :: "permission_profile option \<Rightarrow> call_policy \<Rightarrow> call_policy" where
  "with_permission_profile p c =
     (case p of
        Some p \<Rightarrow> c\<lparr>cp_policy := permission_policy p, cp_fs := allow_fs_access p, cp_terminal := allow_terminal_access p\<rparr>
      | None \<Rightarrow> c)"

section \<open>Live clients\<close>

record live_ctx =
  lv_agent :: string
  lv_tenant :: "tenant_id option"
  lv_session :: "string option"
  lv_registry :: session_registry
  lv_transcripts :: bool
  lv_relay :: "string \<Rightarrow> json \<Rightarrow> json option"
  lv_interaction :: "tenant_id \<Rightarrow> string \<Rightarrow> json \<Rightarrow> interaction_error + (string \<times> json) list option"
  lv_listening :: "tenant_id \<Rightarrow> string \<Rightarrow> bool"
  lv_now :: string

datatype host_effect =
    ToAgent json
  | ToTranscript string json
  | ToClients tenant_id string json
  | StreamTerminal tenant_id string string
  | KillAgent

datatype agent_io_error = ReadFailed string | WriteFailed string | WriteTimeout | IdleReadTimeout | Panicked

datatype unmatched_outcome = AgentRequestAnswered json json | DeliveredLive | Notification json

definition frame_method :: "json \<Rightarrow> string option" where
  "frame_method v = str_field ''method'' v"

definition resolve_gateway_session :: "live_ctx \<Rightarrow> string \<Rightarrow> (tenant_id \<times> string) option" where
  "resolve_gateway_session ctx backend =
     (case lv_tenant ctx of
        Some t \<Rightarrow> map_option (Pair t) (find_by_backend t (lv_agent ctx) backend (lv_registry ctx))
      | None \<Rightarrow> find_by_backend_any_tenant (lv_agent ctx) backend (lv_registry ctx))"

definition frame_session :: "live_ctx \<Rightarrow> json \<Rightarrow> (tenant_id \<times> string) option" where
  "frame_session ctx v = Option.bind (str_param ''sessionId'' v) (resolve_gateway_session ctx)"

text \<open>The frame under the gateway's session id; the field is there when the session was found by it.\<close>

definition translated :: "string \<Rightarrow> json \<Rightarrow> json" where
  "translated gid v =
     (if pointer [''params'', ''sessionId''] v = None then v
      else case set_path [''params'', ''sessionId''] (JString gid) v of None \<Rightarrow> v | Some v' \<Rightarrow> v')"

definition relay_session :: "live_ctx \<Rightarrow> json \<Rightarrow> string option" where
  "relay_session ctx v =
     (case lv_session ctx of Some gid \<Rightarrow> Some gid | None \<Rightarrow> map_option snd (frame_session ctx v))"

definition try_relay_agent_request :: "live_ctx option \<Rightarrow> json \<Rightarrow> json option" where
  "try_relay_agent_request live v =
     Option.bind live (\<lambda>ctx. Option.bind (relay_session ctx v) (\<lambda>gid. lv_relay ctx gid v))"

definition try_relay_approval :: "live_ctx option \<Rightarrow> json \<Rightarrow> bool option" where
  "try_relay_approval live v =
     Option.bind (try_relay_agent_request live v) (\<lambda>d. Option.bind (json_get ''approved'' d) as_bool)"

definition try_forward_interaction :: "live_ctx \<Rightarrow> json \<Rightarrow> interaction_error + (string \<times> json) list option" where
  "try_forward_interaction ctx v =
     (case frame_session ctx v of
        None \<Rightarrow> Inr None
      | Some (t, gid) \<Rightarrow> lv_interaction ctx t gid (translated gid v))"

text \<open>\<open>reply["id"] = \<dots>\<close>; the hub only delivers answers with an id, so they are objects.\<close>

definition with_frame_id :: "json \<Rightarrow> (string \<times> json) list \<Rightarrow> json" where
  "with_frame_id v reply = JObject (AList.update ''id'' (frame_id v) reply)"

definition try_deliver_live :: "live_ctx \<Rightarrow> json \<Rightarrow> host_effect list \<times> bool" where
  "try_deliver_live ctx v =
     (case frame_session ctx v of
        None \<Rightarrow> ([], False)
      | Some (t, gid) \<Rightarrow>
          ((if lv_transcripts ctx then [ToTranscript gid (translated gid v)] else [])
             @ [ToClients t gid (translated gid v)], lv_listening ctx t gid))"

section \<open>Answering a request of the agent\<close>

definition dedicated_relay :: "string list" where
  "dedicated_relay = [''session/request_permission'', ''fs/read_text_file'', ''fs/write_text_file'', ''terminal/create'']"

definition fs_methods :: "string list" where
  "fs_methods = [''fs/read_text_file'', ''fs/write_text_file'']"

definition approval_rejected_reply :: "json \<Rightarrow> string \<Rightarrow> json" where
  "approval_rejected_reply v method =
     rpc_error (frame_id v) ''-32002'' (quoted method @ '' was rejected by the interactive client'')"

definition disabled_reply :: "json \<Rightarrow> string \<Rightarrow> string \<Rightarrow> json" where
  "disabled_reply v method capability =
     rpc_error (frame_id v) ''-32601''
       (quoted method @ '' is disabled for this profile (Profile::'' @ capability @ '' is false)'')"

definition permission_reply :: "live_ctx option \<Rightarrow> call_policy \<Rightarrow> json \<Rightarrow> json" where
  "permission_reply live policy v =
     (case try_relay_agent_request live v of
        Some relayed \<Rightarrow> relayed
      | None \<Rightarrow>
          (case live of
             None \<Rightarrow> build_permission_reply v (cp_policy policy)
           | Some ctx \<Rightarrow>
               (case try_forward_interaction ctx v of
                  Inr (Some reply) \<Rightarrow> with_frame_id v reply
                | _ \<Rightarrow> build_permission_reply v (cp_policy policy))))"

definition terminal_created :: "live_ctx \<Rightarrow> string \<Rightarrow> string \<Rightarrow> json \<Rightarrow> json" where
  "terminal_created ctx gid tid v =
     JObject [(''jsonrpc'', JString ''2.0''), (''method'', JString ''acpx/terminal_created''),
       (''params'', JObject [(''sessionId'', JString gid), (''terminalId'', JString tid),
         (''command'', JString (str_or [] (str_param ''command'' v))),
         (''args'', JArray (map JString (string_args (param ''args'' v)))), (''startedAt'', JString (lv_now ctx))])]"

definition terminal_session :: "live_ctx \<Rightarrow> json \<Rightarrow> (tenant_id \<times> string) option" where
  "terminal_session ctx v =
     (case (lv_tenant ctx, lv_session ctx) of (Some t, Some gid) \<Rightarrow> Some (t, gid) | _ \<Rightarrow> frame_session ctx v)"

definition announce_terminal :: "live_ctx option \<Rightarrow> json \<Rightarrow> json \<Rightarrow> host_effect list" where
  "announce_terminal live v reply =
     (case (live, str_at [''result'', ''terminalId''] reply) of
        (Some ctx, Some tid) \<Rightarrow>
          (case terminal_session ctx v of
             Some (t, gid) \<Rightarrow> [ToClients t gid (terminal_created ctx gid tid v), StreamTerminal t gid tid]
           | None \<Rightarrow> [])
      | _ \<Rightarrow> [])"

definition policy_answer ::
  "host_env \<Rightarrow> call_policy \<Rightarrow> live_ctx option \<Rightarrow> json \<Rightarrow> string \<Rightarrow> agent_host \<Rightarrow> (agent_host \<times> host_effect list \<times> json) option"
where
  "policy_answer env policy live v method host =
     (if method = ''session/request_permission'' then Some (host, [], permission_reply live policy v)
      else if method \<in> set fs_methods then
        (if \<not> cp_fs policy then Some (host, [], disabled_reply v method ''allow_fs_access'')
         else if try_relay_approval live v = Some False then Some (host, [], approval_rejected_reply v method)
         else (case handle_fs_request env v method host of (host', reply) \<Rightarrow> Some (host', [], reply)))
      else if method \<in> set (''terminal/create'' # terminal_methods) then
        (if \<not> cp_terminal policy then Some (host, [], disabled_reply v method ''allow_terminal_access'')
         else if method = ''terminal/create'' \<and> try_relay_approval live v = Some False
           then Some (host, [], approval_rejected_reply v method)
         else map_option (\<lambda>(host', reply).
           (host', if method = ''terminal/create'' then announce_terminal live v reply else [], reply))
           (handle_terminal_request env v method host))
      else Some (host, [], rpc_error (frame_id v) ''-32601''
        (''acpx gateway does not support agent-initiated method '' @ quoted method)))"

text \<open>A request without a relay of its own goes to the bound client first.\<close>

definition agent_answer ::
  "host_env \<Rightarrow> call_policy \<Rightarrow> live_ctx option \<Rightarrow> (interaction_error \<Rightarrow> string) \<Rightarrow> json \<Rightarrow> string \<Rightarrow> agent_host
    \<Rightarrow> (agent_host \<times> host_effect list \<times> json) option"
where
  "agent_answer env policy live show_error v method host =
     (case (if method \<in> set dedicated_relay then Inr None
            else case live of None \<Rightarrow> Inr None | Some ctx \<Rightarrow> try_forward_interaction ctx v) of
        Inr (Some reply) \<Rightarrow> Some (host, [], with_frame_id v reply)
      | Inr None \<Rightarrow> policy_answer env policy live v method host
      | Inl e \<Rightarrow> Some (host, [], rpc_error (frame_id v) ''-32001'' (''acpx interactive client request failed: '' @ show_error e)))"

definition write_backend_value :: "host_env \<Rightarrow> json \<Rightarrow> host_effect list \<times> agent_io_error option" where
  "write_backend_value env v =
     (case he_pipe env v of
        Written \<Rightarrow> ([ToAgent v], None)
      | PipeFails e \<Rightarrow> ([], Some (WriteFailed e))
      | PipeStalls \<Rightarrow> ([KillAgent], Some WriteTimeout))"

definition show_interaction_error :: "interaction_error \<Rightarrow> string" where
  "show_interaction_error e =
     (case e of
        ClientDisconnected \<Rightarrow> ''the client disconnected before responding to the agent request''
      | TimedOut \<Rightarrow> ''timed out after 30s waiting for the client to answer the agent request'')"

definition is_agent_request :: "json \<Rightarrow> bool" where
  "is_agent_request v \<longleftrightarrow> json_get ''id'' v \<noteq> None \<and> frame_method v \<noteq> None"

definition handle_unmatched_frame ::
  "host_env \<Rightarrow> call_policy \<Rightarrow> live_ctx option \<Rightarrow> json \<Rightarrow> agent_host
    \<Rightarrow> agent_host \<times> host_effect list \<times> (agent_io_error + unmatched_outcome)"
where
  "handle_unmatched_frame env policy live v host =
     (case (json_get ''id'' v, frame_method v) of
        (Some i, Some method) \<Rightarrow>
          (case agent_answer env policy live show_interaction_error v method host of
             None \<Rightarrow> (host, [], Inl Panicked)
           | Some (host', effects, reply) \<Rightarrow>
               (case write_backend_value env reply of
                  (written, None) \<Rightarrow> (host', effects @ written, Inr (AgentRequestAnswered v reply))
                | (written, Some e) \<Rightarrow> (host', effects @ written, Inl e)))
      | _ \<Rightarrow>
          (case live of
             None \<Rightarrow> (host, [], Inr (Notification v))
           | Some ctx \<Rightarrow>
               if frame_method v = Some ''session/update'' then
                 (case try_deliver_live ctx v of (effects, delivered) \<Rightarrow>
                    (host, effects, Inr (if delivered then DeliveredLive else Notification v)))
               else (host, [], Inr (Notification v))))"

section \<open>The loop of a call\<close>

datatype read_outcome = Frame json | ReadError string | Quiet

text \<open>When the reads end the agent stays quiet for longer than the idle timeout.\<close>

fun read_matching_response ::
  "host_env \<Rightarrow> call_policy \<Rightarrow> live_ctx option \<Rightarrow> json \<Rightarrow> read_outcome list \<Rightarrow> agent_host \<Rightarrow> json list \<Rightarrow> (json \<times> json) list
    \<Rightarrow> agent_host \<times> host_effect list \<times> (agent_io_error + json \<times> json list \<times> (json \<times> json) list)"
where
  "read_matching_response env policy live i [] host notes reqs = (host, [KillAgent], Inl IdleReadTimeout)"
| "read_matching_response env policy live i (Quiet # rs) host notes reqs = (host, [KillAgent], Inl IdleReadTimeout)"
| "read_matching_response env policy live i (ReadError e # rs) host notes reqs = (host, [], Inl (ReadFailed e))"
| "read_matching_response env policy live i (Frame v # rs) host notes reqs =
     (if json_get ''id'' v = Some i then (host, [], Inr (v, notes, reqs))
      else case handle_unmatched_frame env policy live v host of
        (host', effects, Inl e) \<Rightarrow> (host', effects, Inl e)
      | (host', effects, Inr out) \<Rightarrow>
          (case (case out of
                   AgentRequestAnswered q a \<Rightarrow> read_matching_response env policy live i rs host' notes (reqs @ [(q, a)])
                 | DeliveredLive \<Rightarrow> read_matching_response env policy live i rs host' notes reqs
                 | Notification n \<Rightarrow> read_matching_response env policy live i rs host' (notes @ [n]) reqs) of
             (host'', effects', r) \<Rightarrow> (host'', effects @ effects', r)))"

definition agent_request_json :: "json \<times> json \<Rightarrow> json" where
  "agent_request_json q = JObject [(''request'', fst q), (''reply'', snd q)]"

definition attach_session_new_extras :: "json \<Rightarrow> json list \<Rightarrow> (json \<times> json) list \<Rightarrow> json option \<Rightarrow> json" where
  "attach_session_new_extras response notes reqs capabilities =
     (if notes = [] \<and> reqs = [] \<and> capabilities = None then response
      else case response of
        JObject kvs \<Rightarrow> JObject (AList.update ''_acpx'' (JObject
            ((if notes = [] then [] else [(''updates'', JArray notes)])
             @ (if reqs = [] then [] else [(''agentRequests'', JArray (map agent_request_json reqs))])
             @ (case capabilities of None \<Rightarrow> [] | Some c \<Rightarrow> [(''agentCapabilities'', c)]))) kvs)
      | _ \<Rightarrow> response)"

definition attach_updates :: "json \<Rightarrow> json list \<Rightarrow> (json \<times> json) list \<Rightarrow> json" where
  "attach_updates response notes reqs =
     (if notes = [] \<and> reqs = [] then response
      else case response of
        JObject kvs \<Rightarrow> JObject (AList.update ''_acpx'' (JObject
            ((if notes = [] then [] else [(''updates'', JArray notes)])
             @ (if reqs = [] then [] else [(''agentRequests'', JArray (map agent_request_json reqs))]))) kvs)
      | _ \<Rightarrow> response)"

section \<open>The other readers\<close>

type_synonym pending_updates = "((tenant_id \<times> string) \<times> json list) list"

definition max_buffered_updates :: nat where
  "max_buffered_updates = 256"

definition pending_push :: "tenant_id \<Rightarrow> string \<Rightarrow> json \<Rightarrow> pending_updates \<Rightarrow> pending_updates" where
  "pending_push t gid v p =
     (let queue = (case map_of p (t, gid) of None \<Rightarrow> [] | Some q \<Rightarrow> q) @ [v]
      in AList.update (t, gid) (drop (length queue - max_buffered_updates) queue) p)"

definition pending_drain :: "tenant_id \<Rightarrow> string \<Rightarrow> pending_updates \<Rightarrow> pending_updates \<times> json list" where
  "pending_drain t gid p = (AList.delete (t, gid) p, case map_of p (t, gid) of None \<Rightarrow> [] | Some q \<Rightarrow> q)"

text \<open>One frame of a shared process; its context names no tenant and no session.\<close>

definition demux_consume ::
  "host_env \<Rightarrow> call_policy \<Rightarrow> live_ctx \<Rightarrow> json \<Rightarrow> agent_host \<times> pending_updates \<Rightarrow> (agent_host \<times> pending_updates) \<times> host_effect list"
where
  "demux_consume env policy ctx v = (\<lambda>(host, pending).
     (case handle_unmatched_frame env policy (Some ctx) v host of
        (host', effects, Inr (Notification n)) \<Rightarrow>
          ((host', case frame_session ctx n of
             Some (t, gid) \<Rightarrow> pending_push t gid (translated gid n) pending | None \<Rightarrow> pending), effects)
      | (host', effects, r) \<Rightarrow> ((host', pending), effects)))"

text \<open>A panic ends the consumer; the frames that follow are received by nobody.\<close>

fun demux_run ::
  "host_env \<Rightarrow> call_policy \<Rightarrow> live_ctx \<Rightarrow> json list \<Rightarrow> agent_host \<times> pending_updates \<Rightarrow> (agent_host \<times> pending_updates) \<times> host_effect list"
where
  "demux_run env policy ctx [] st = (st, [])"
| "demux_run env policy ctx (v # vs) st =
     (case handle_unmatched_frame env policy (Some ctx) v (fst st) of
        (host, effects, Inl Panicked) \<Rightarrow> (st, effects)
      | _ \<Rightarrow>
          (case demux_consume env policy ctx v st of
             (st', effects) \<Rightarrow> (case demux_run env policy ctx vs st' of (st'', effects') \<Rightarrow> (st'', effects @ effects'))))"

text \<open>One frame that the scavenger finds while no call holds the process.\<close>

definition scavenge_frame :: "live_ctx \<Rightarrow> json \<Rightarrow> host_effect list" where
  "scavenge_frame ctx v =
     (if json_get ''id'' v \<noteq> None then []
      else if frame_method v = Some ''session/update'' then fst (try_deliver_live ctx v)
      else [])"

end
