(* ===== verification/AgentFacts.thy ===== *)
theory AgentFacts
  imports AgentRequests
begin

text \<open>
  What holds of the requests an agent makes: terminals keep the end of their output, the host only
  changes when the policy and the live client allow it, every request is answered once under its own id,
  and the behaviours that the proofs found.
\<close>

section \<open>Terminals\<close>

lemma capture_limit [simp]: "th_limit (capture c h) = th_limit h"
  by (simp add: capture_def Let_def split: option.splits)

definition kept :: "nat option \<Rightarrow> string \<Rightarrow> string" where
  "kept limit s = (case limit of None \<Rightarrow> s | Some n \<Rightarrow> drop (length s - n) s)"

definition cut :: "nat option \<Rightarrow> string \<Rightarrow> bool" where
  "cut limit s \<longleftrightarrow> (case limit of None \<Rightarrow> False | Some n \<Rightarrow> n < length s)"

lemma capture_kept:
  "th_output h = kept (th_limit h) s \<Longrightarrow> th_truncated h = cut (th_limit h) s \<Longrightarrow>
     th_output (capture c h) = kept (th_limit h) (s @ c) \<and> th_truncated (capture c h) = cut (th_limit h) (s @ c)"
  by (auto simp: capture_def kept_def cut_def Let_def split: option.splits)

lemma captured:
  assumes "th_output h = kept (th_limit h) s" "th_truncated h = cut (th_limit h) s"
  shows "th_output (fold capture cs h) = kept (th_limit h) (s @ concat cs) \<and> th_truncated (fold capture cs h) = cut (th_limit h) (s @ concat cs)"
  using assms
proof (induction cs arbitrary: h s)
  case (Cons c cs)
  then show ?case using Cons.IH [of "capture c h" "s @ c"] capture_kept [of h s c] by simp
qed simp

text \<open>
  A terminal shows the last bytes of everything its command wrote, at most as many as the agent
  asked for, and says that it is truncated exactly when bytes are missing.
\<close>

theorem terminal_keeps_the_end:
  "th_output (fold capture chunks (spawned_terminal p limit)) =
     (case limit of None \<Rightarrow> concat chunks | Some n \<Rightarrow> drop (length (concat chunks) - n) (concat chunks))
   \<and> th_truncated (fold capture chunks (spawned_terminal p limit)) =
     (case limit of None \<Rightarrow> False | Some n \<Rightarrow> n < length (concat chunks))"
  using captured [of "spawned_terminal p limit" "[]" chunks]
  by (simp add: spawned_terminal_def kept_def cut_def split: option.splits)

section \<open>Replies\<close>

lemma reply_id [simp]:
  "json_get ''id'' (rpc_result i v) = Some i" "json_get ''id'' (rpc_error i c m) = Some i"
  "json_get ''id'' (path_error i m p) = Some i" "json_get ''id'' (build_permission_reply v policy) = Some (frame_id v)"
  "json_get ''id'' (with_frame_id v reply) = Some (frame_id v)"
  by (simp_all add: rpc_result_def rpc_error_def path_error_def build_permission_reply_def with_frame_id_def update_conv' Let_def)

lemma fs_reply_id: "handle_fs_request env v m host = (host', reply) \<Longrightarrow> json_get ''id'' reply = Some (frame_id v)"
  by (auto simp: handle_fs_request_def Let_def split: option.splits if_splits)

lemma on_terminal_id: "on_terminal env i m tid h host = Some (host', reply) \<Longrightarrow> json_get ''id'' reply = Some i"
  by (auto simp: on_terminal_def split: if_splits wait_outcome.splits option.splits)

lemma create_reply_id: "json_get ''id'' (snd (create_terminal env v host)) = Some (frame_id v)"
  by (simp add: create_terminal_def Let_def split: option.splits sum.splits)

lemma terminal_reply_id:
  "handle_terminal_request env v m host = Some (host', reply) \<Longrightarrow> json_get ''id'' reply = Some (frame_id v)"
  using create_reply_id [of env v host]
  by (auto simp: handle_terminal_request_def Let_def split: if_splits option.splits dest: on_terminal_id)

definition relayed :: "live_ctx option \<Rightarrow> json \<Rightarrow> string \<Rightarrow> json \<Rightarrow> bool" where
  "relayed live v m reply \<longleftrightarrow> m = ''session/request_permission'' \<and> try_relay_agent_request live v = Some reply"

lemma permission_reply_id: "json_get ''id'' (permission_reply live policy v) = Some (frame_id v) \<or> try_relay_agent_request live v = Some (permission_reply live policy v)"
  by (auto simp: permission_reply_def split: option.splits sum.splits)

lemma policy_answer_id:
  assumes "policy_answer env policy live v m host = Some (host', effects, reply)"
  shows "json_get ''id'' reply = Some (frame_id v) \<or> relayed live v m reply"
proof (cases "m = ''session/request_permission''")
  case True
  then show ?thesis using assms permission_reply_id [of live policy v] by (auto simp: policy_answer_def relayed_def)
next
  case False
  show ?thesis
    using assms False
    by (auto simp: policy_answer_def approval_rejected_reply_def disabled_reply_def
        dest!: fs_reply_id terminal_reply_id split: if_splits prod.splits)
qed

lemma agent_answer_id:
  assumes "agent_answer env policy live show v m host = Some (host', effects, reply)"
  shows "json_get ''id'' reply = Some (frame_id v) \<or> relayed live v m reply"
proof -
  let ?c = "if m \<in> set dedicated_relay then Inr None
            else case live of None \<Rightarrow> Inr None | Some ctx \<Rightarrow> try_forward_interaction ctx v"
  consider e where "?c = Inl e" | "?c = Inr None" | r where "?c = Inr (Some r)"
    by (metis sumE not_Some_eq)
  then show ?thesis
    using assms by cases (auto simp: agent_answer_def dest: policy_answer_id)
qed

section \<open>What changes the host\<close>

text \<open>A request may change the files, or the terminals, of the host.\<close>

definition may_write_file :: "call_policy \<Rightarrow> live_ctx option \<Rightarrow> json \<Rightarrow> bool" where
  "may_write_file policy live v \<longleftrightarrow>
     cp_fs policy \<and> frame_method v = Some ''fs/write_text_file'' \<and> try_relay_approval live v \<noteq> Some False"

definition may_change_terminals :: "call_policy \<Rightarrow> live_ctx option \<Rightarrow> json \<Rightarrow> bool" where
  "may_change_terminals policy live v \<longleftrightarrow>
     cp_terminal policy
     \<and> (frame_method v = Some ''terminal/create'' \<and> try_relay_approval live v \<noteq> Some False
        \<or> frame_method v = Some ''terminal/wait_for_exit'' \<or> frame_method v = Some ''terminal/release'')"

definition host_change :: "call_policy \<Rightarrow> live_ctx option \<Rightarrow> json \<Rightarrow> agent_host \<Rightarrow> agent_host \<Rightarrow> bool" where
  "host_change policy live v host host' \<longleftrightarrow>
     (ah_files host' = ah_files host \<or>
        may_write_file policy live v \<and>
        (\<exists>path. str_param ''path'' v = Some path
           \<and> ah_files host' = (ah_files host)(path \<mapsto> str_or [] (str_param ''content'' v))))
     \<and> (ah_terminals host' = ah_terminals host \<or> may_change_terminals policy live v)"

lemma host_change_refl [simp]: "host_change policy live v host host"
  by (simp add: host_change_def)

lemma fs_change:
  "handle_fs_request env v m host = (host', reply) \<Longrightarrow> frame_method v = Some m \<Longrightarrow> cp_fs policy
    \<Longrightarrow> try_relay_approval live v \<noteq> Some False \<Longrightarrow> host_change policy live v host host'"
  by (auto simp: handle_fs_request_def host_change_def may_write_file_def Let_def split: option.splits if_splits)

lemma create_files: "ah_files (fst (create_terminal env v host)) = ah_files host"
  by (simp add: create_terminal_def Let_def split: option.splits sum.splits)

lemma on_terminal_change:
  "on_terminal env i m tid h host = Some (host', reply)
    \<Longrightarrow> ah_files host' = ah_files host \<and> (ah_terminals host' = ah_terminals host \<or> m = ''terminal/wait_for_exit'' \<or> m = ''terminal/release'')"
  by (auto simp: on_terminal_def split: if_splits wait_outcome.splits option.splits)

lemma terminal_change:
  assumes "handle_terminal_request env v m host = Some (host', reply)" "frame_method v = Some m" "cp_terminal policy"
    and "m = ''terminal/create'' \<longrightarrow> try_relay_approval live v \<noteq> Some False"
  shows "host_change policy live v host host'"
  using assms create_files [of env v host]
  by (auto simp: handle_terminal_request_def host_change_def may_change_terminals_def Let_def
      split: if_splits option.splits dest!: on_terminal_change)

lemma policy_answer_change:
  assumes "policy_answer env policy live v m host = Some (host', effects, reply)" "frame_method v = Some m"
  shows "host_change policy live v host host'"
  using assms
  by (auto simp: policy_answer_def split: if_splits prod.splits intro: fs_change terminal_change)

lemma agent_answer_change:
  assumes "agent_answer env policy live show v m host = Some (host', effects, reply)" "frame_method v = Some m"
  shows "host_change policy live v host host'"
  using assms policy_answer_change
  by (auto simp: agent_answer_def split: if_splits option.splits sum.splits)

lemma frame_change:
  assumes "handle_unmatched_frame env policy live v host = (host', effects, r)"
  shows "host_change policy live v host host'"
  using assms agent_answer_change [of env policy live show_interaction_error v]
  by (auto simp: handle_unmatched_frame_def split: option.splits prod.splits if_splits)

definition touched :: "call_policy \<Rightarrow> live_ctx option \<Rightarrow> json list \<Rightarrow> agent_host \<Rightarrow> agent_host \<Rightarrow> bool" where
  "touched policy live vs host host' \<longleftrightarrow>
     (ah_files host' \<noteq> ah_files host \<longrightarrow> (\<exists>v\<in>set vs. may_write_file policy live v))
     \<and> (ah_terminals host' \<noteq> ah_terminals host \<longrightarrow> (\<exists>v\<in>set vs. may_change_terminals policy live v))"

lemma touched_step:
  "host_change policy live v host host' \<Longrightarrow> touched policy live vs host' host'' \<Longrightarrow> touched policy live (v # vs) host host''"
  by (auto simp: touched_def host_change_def)

lemma touched_one: "host_change policy live v host host' \<Longrightarrow> touched policy live (v # vs) host host'"
  by (auto simp: touched_def host_change_def)

definition frames_of :: "read_outcome list \<Rightarrow> json list" where
  "frames_of rs = List.map_filter (\<lambda>r. case r of Frame v \<Rightarrow> Some v | _ \<Rightarrow> None) rs"

lemma frames_of_simps [simp]:
  "frames_of [] = []" "frames_of (Frame v # rs) = v # frames_of rs" "frames_of (Quiet # rs) = frames_of rs"
  "frames_of (ReadError e # rs) = frames_of rs"
  by (simp_all add: frames_of_def)

text \<open>One turn of the loop of a call, and an induction that goes frame by frame.\<close>

lemma read_turn:
  assumes "read_matching_response env policy live i (Frame v # rs) host ns qs = (host', effects, r)" "json_get ''id'' v \<noteq> Some i"
    and "handle_unmatched_frame env policy live v host = (h1, e1, out)"
  shows "(\<exists>e. out = Inl e \<and> host' = h1 \<and> effects = e1 \<and> r = Inl e)
    \<or> (\<exists>u ns' qs' e2. out = Inr u \<and> effects = e1 @ e2
         \<and> read_matching_response env policy live i rs h1 ns' qs' = (host', e2, r)
         \<and> (ns', qs') = (case u of AgentRequestAnswered q a \<Rightarrow> (ns, qs @ [(q, a)]) | DeliveredLive \<Rightarrow> (ns, qs) | Notification n \<Rightarrow> (ns @ [n], qs)))"
  using assms by (cases out) (auto split: unmatched_outcome.splits prod.splits)

lemma call_touches:
  "read_matching_response env policy live i rs host ns qs = (host', effects, r) \<Longrightarrow> touched policy live (frames_of rs) host host'"
proof (induction rs arbitrary: host ns qs effects)
  case (Cons x rs)
  show ?case
  proof (cases "\<exists>v. x = Frame v \<and> json_get ''id'' v \<noteq> Some i")
    case True
    then obtain v where v: "x = Frame v" "json_get ''id'' v \<noteq> Some i" by blast
    obtain h1 e1 out where f: "handle_unmatched_frame env policy live v host = (h1, e1, out)"
      by (metis prod_cases3)
    note c = frame_change [OF f]
    show ?thesis
      using read_turn [OF Cons.prems [unfolded v] v(2) f] Cons.IH [of h1] touched_one [OF c] touched_step [OF c] v
      by auto
  next
    case False
    then show ?thesis using Cons.prems by (cases x) (auto simp: touched_def)
  qed
qed (auto simp: touched_def)

text \<open>
  C12. The files of the gateway's host change during a call only when the profile of the call allows
  file access and some frame of the agent asks to write a file that no live client rejected; its
  terminals change only when the profile allows terminals and a frame creates one that no client
  rejected, waits for one or releases one.
\<close>

theorem host_changes_need_permission:
  assumes "read_matching_response env policy live i rs host [] [] = (host', effects, r)"
  shows "(ah_files host' \<noteq> ah_files host \<longrightarrow>
            (\<exists>v\<in>set (frames_of rs). cp_fs policy \<and> frame_method v = Some ''fs/write_text_file''
               \<and> try_relay_approval live v \<noteq> Some False))
       \<and> (ah_terminals host' \<noteq> ah_terminals host \<longrightarrow>
            (\<exists>v\<in>set (frames_of rs). cp_terminal policy
               \<and> (frame_method v = Some ''terminal/create'' \<and> try_relay_approval live v \<noteq> Some False
                  \<or> frame_method v = Some ''terminal/wait_for_exit'' \<or> frame_method v = Some ''terminal/release'')))"
  using call_touches [OF assms] by (simp add: touched_def may_write_file_def may_change_terminals_def)

section \<open>Every request is answered\<close>

lemma map_option_None: "policy_answer env policy live v m host = None \<Longrightarrow> m = ''terminal/wait_for_exit''"
  by (auto simp: policy_answer_def handle_terminal_request_def on_terminal_def Let_def
      split: if_splits option.splits prod.splits wait_outcome.splits)

lemma agent_answer_some:
  assumes "m \<noteq> ''terminal/wait_for_exit''"
  shows "\<exists>host' effects reply. agent_answer env policy live show v m host = Some (host', effects, reply)"
proof (cases "agent_answer env policy live show v m host")
  case None
  then have "policy_answer env policy live v m host = None"
    by (auto simp: agent_answer_def split: if_splits option.splits sum.splits)
  then show ?thesis using map_option_None assms by blast
qed auto

text \<open>What the agent was told.\<close>

definition to_agent :: "host_effect list \<Rightarrow> json list" where
  "to_agent es = List.map_filter (\<lambda>e. case e of ToAgent v \<Rightarrow> Some v | _ \<Rightarrow> None) es"

lemma to_agent_simps [simp]:
  "to_agent [] = []" "to_agent (ToAgent v # es) = v # to_agent es" "to_agent (ToTranscript s v # es) = to_agent es"
  "to_agent (ToClients t s v # es) = to_agent es" "to_agent (StreamTerminal t s i # es) = to_agent es"
  "to_agent (KillAgent # es) = to_agent es" "to_agent (es @ fs) = to_agent es @ to_agent fs"
  by (simp_all add: to_agent_def map_filter_def)

lemma announce_silent [simp]: "to_agent (announce_terminal live v reply) = []"
  by (simp add: announce_terminal_def split: option.splits prod.splits)

lemma policy_silent: "policy_answer env policy live v m host = Some (host', effects, reply) \<Longrightarrow> to_agent effects = []"
  by (auto simp: policy_answer_def split: if_splits prod.splits)

lemma answer_silent: "agent_answer env policy live show v m host = Some (host', effects, reply) \<Longrightarrow> to_agent effects = []"
  by (auto simp: agent_answer_def split: if_splits option.splits sum.splits dest: policy_silent)

lemma request_frame:
  assumes "is_agent_request v" "frame_method v \<noteq> Some ''terminal/wait_for_exit''" "\<And>w. he_pipe env w = Written"
  shows "\<exists>host' effects a. handle_unmatched_frame env policy live v host = (host', effects, Inr (AgentRequestAnswered v a))
    \<and> to_agent effects = [a] \<and> (json_get ''id'' a = json_get ''id'' v \<or> try_relay_agent_request live v = Some a)"
proof -
  obtain j m where j: "json_get ''id'' v = Some j" "frame_method v = Some m" using assms(1) by (auto simp: is_agent_request_def)
  obtain host' effects a where a: "agent_answer env policy live show_interaction_error v m host = Some (host', effects, a)"
    using agent_answer_some [of m] assms(2) j by fastforce
  have "json_get ''id'' a = json_get ''id'' v \<or> try_relay_agent_request live v = Some a"
    using agent_answer_id [OF a] j by (auto simp: relayed_def frame_id_def)
  then show ?thesis
    using a j assms(3) answer_silent [OF a] by (simp add: handle_unmatched_frame_def write_backend_value_def)
qed

definition delivered :: "live_ctx option \<Rightarrow> json \<Rightarrow> bool" where
  "delivered live v \<longleftrightarrow>
     frame_method v = Some ''session/update'' \<and> (case live of None \<Rightarrow> False | Some ctx \<Rightarrow> snd (try_deliver_live ctx v))"

lemma deliver_silent [simp]: "try_deliver_live ctx v = (es, b) \<Longrightarrow> to_agent es = []"
  by (auto simp: try_deliver_live_def split: option.splits prod.splits if_splits)

lemma other_frame:
  assumes "\<not> is_agent_request v"
  shows "\<exists>effects. handle_unmatched_frame env policy live v host
      = (host, effects, Inr (if delivered live v then DeliveredLive else Notification v)) \<and> to_agent effects = []"
  using assms by (auto simp: handle_unmatched_frame_def is_agent_request_def delivered_def split: option.splits prod.splits)

lemma call_answers:
  assumes "\<And>w. he_pipe env w = Written" "json_get ''id'' resp = Some i"
  shows "\<forall>v\<in>set vs. json_get ''id'' v \<noteq> Some i \<and> frame_method v \<noteq> Some ''terminal/wait_for_exit'' \<Longrightarrow>
    \<exists>host' effects qs'. read_matching_response env policy live i (map Frame vs @ Frame resp # rs) host ns qs
        = (host', effects, Inr (resp, ns @ filter (\<lambda>v. \<not> is_agent_request v \<and> \<not> delivered live v) vs, qs @ qs'))
      \<and> map fst qs' = filter is_agent_request vs \<and> to_agent effects = map snd qs'
      \<and> (\<forall>(q, a)\<in>set qs'. json_get ''id'' a = json_get ''id'' q \<or> try_relay_agent_request live q = Some a)"
proof (induction vs arbitrary: host ns qs)
  case Nil
  then show ?case using assms(2) by simp
next
  case (Cons v vs)
  then have v: "json_get ''id'' v \<noteq> Some i" "frame_method v \<noteq> Some ''terminal/wait_for_exit''"
    and vs: "\<forall>v\<in>set vs. json_get ''id'' v \<noteq> Some i \<and> frame_method v \<noteq> Some ''terminal/wait_for_exit''" by auto
  show ?case
  proof (cases "is_agent_request v")
    case True
    obtain h1 e1 a where f: "handle_unmatched_frame env policy live v host = (h1, e1, Inr (AgentRequestAnswered v a))"
      "to_agent e1 = [a]" "json_get ''id'' a = json_get ''id'' v \<or> try_relay_agent_request live v = Some a"
      using request_frame [OF True v(2) assms(1)] by blast
    show ?thesis using Cons.IH [OF vs, of h1 ns "qs @ [(v, a)]"] f v True by fastforce
  next
    case False
    obtain e1 where f: "handle_unmatched_frame env policy live v host
        = (host, e1, Inr (if delivered live v then DeliveredLive else Notification v))" "to_agent e1 = []"
      using other_frame [OF False] by blast
    show ?thesis using Cons.IH [OF vs, of host "if delivered live v then ns else ns @ [v]" qs] f v False
      by (cases "delivered live v") fastforce+
  qed
qed


section \<open>Automatic decisions\<close>

definition offered :: "json \<Rightarrow> json list" where
  "offered v = (case Option.bind (param ''options'' v) as_array of None \<Rightarrow> [] | Some os \<Rightarrow> os)"

definition reply_outcome :: "json \<Rightarrow> string option" where
  "reply_outcome r = str_at [''result'', ''outcome'', ''optionId''] r"

text \<open>
  The decision the gateway takes for a client selects an option of the agent's own list: under
  the rejecting policy only one of a rejecting kind, under the allowing policy one of an allowing kind
  when there is one; without such an option the answer is the cancelled outcome.
\<close>

theorem automatic_decision_follows_policy:
  "case reply_outcome (build_permission_reply v policy) of
     Some i \<Rightarrow> (\<exists>o'\<in>set (offered v). str_field ''optionId'' o' = Some i
        \<and> (policy = AutoReject \<longrightarrow> kind_is ''reject_'' o')
        \<and> (policy = AutoAllow \<longrightarrow> kind_is ''allow_'' o' \<or> (\<forall>p\<in>set (offered v). \<not> kind_is ''allow_'' p)))
   | None \<Rightarrow> str_at [''result'', ''outcome'', ''outcome''] (build_permission_reply v policy) = Some ''cancelled''"
proof -
  let ?pre = "case policy of AutoAllow \<Rightarrow> ''allow_'' | AutoReject \<Rightarrow> ''reject_''"
  define chosen where "chosen = (case find (kind_is ?pre) (offered v) of
      Some option \<Rightarrow> Some option | None \<Rightarrow> (case (policy, offered v) of (AutoAllow, option # os) \<Rightarrow> Some option | _ \<Rightarrow> None))"
  have c: "chosen = Some o' \<Longrightarrow> o' \<in> set (offered v) \<and> (policy = AutoReject \<longrightarrow> kind_is ''reject_'' o')
      \<and> (policy = AutoAllow \<longrightarrow> kind_is ''allow_'' o' \<or> (\<forall>p\<in>set (offered v). \<not> kind_is ''allow_'' p))" for o'
    by (auto simp: chosen_def find_None_iff dest: find_SomeD split: option.splits permission_policy.splits list.splits)
  have r: "build_permission_reply v policy = rpc_result (frame_id v) (JObject [(''outcome'',
      case Option.bind chosen (str_field ''optionId'') of
        Some i \<Rightarrow> JObject [(''outcome'', JString ''selected''), (''optionId'', JString i)]
      | None \<Rightarrow> JObject [(''outcome'', JString ''cancelled'')])])"
    unfolding build_permission_reply_def chosen_def offered_def Let_def by (rule refl)
  show ?thesis
    using c by (cases "Option.bind chosen (str_field ''optionId'')")
      (auto simp: r reply_outcome_def str_at_def rpc_result_def bind_eq_Some_conv)
qed

section \<open>Updates without a listener\<close>

definition buffered :: "tenant_id \<times> string \<Rightarrow> pending_updates \<Rightarrow> json list" where
  "buffered k p = (case map_of p k of None \<Rightarrow> [] | Some q \<Rightarrow> q)"

definition newest :: "json list \<Rightarrow> json list" where
  "newest vs = drop (length vs - max_buffered_updates) vs"

lemma buffered_push: "buffered k (pending_push t gid v p) = (if k = (t, gid) then newest (buffered k p @ [v]) else buffered k p)"
  by (simp add: buffered_def pending_push_def newest_def update_conv' Let_def)

lemma newest_snoc: "newest (newest vs @ ws) = newest (vs @ ws)"
  by (cases "length vs \<le> max_buffered_updates") (auto simp: newest_def add.commute)

lemma newest_length [simp]: "length (newest vs) \<le> max_buffered_updates"
  by (simp add: newest_def)

lemma newest_short [simp]: "length vs \<le> max_buffered_updates \<Longrightarrow> newest vs = vs"
  by (simp add: newest_def)

lemma buffered_run:
  "buffered k (fold (\<lambda>((t, gid), v). pending_push t gid v) es p) = newest (buffered k p @ map snd (filter (\<lambda>e. fst e = k) es))"
  if "length (buffered k p) \<le> max_buffered_updates"
  using that
proof (induction es arbitrary: p)
  case (Cons e es)
  then show ?case
    using newest_snoc [of "buffered k p @ [snd e]"] by (cases e) (auto simp: buffered_push)
qed simp

text \<open>
  The updates of a session that found no listener wait for its next call: the call gets the newest
  256 of them in the order they came, whatever other sessions buffer, and the next call none of them.
\<close>

theorem buffered_updates_wait_in_order:
  "let p = fold (\<lambda>((t, gid), v). pending_push t gid v) es []; mine = map snd (filter (\<lambda>e. fst e = (t, gid)) es)
   in snd (pending_drain t gid p) = drop (length mine - max_buffered_updates) mine
      \<and> snd (pending_drain t gid (fst (pending_drain t gid p))) = []"
  using buffered_run [of "(t, gid)" "[]" es]
  by (simp add: pending_drain_def buffered_def newest_def delete_conv' Let_def)

section \<open>What the proofs found\<close>

text \<open>
  The task that streams a terminal observes the exit and joins the capture tasks; when the agent then
  waits for the exit the join is polled again, which panics: the reader of the shared process is gone
  and nothing that follows is answered.
\<close>

theorem wait_after_stream_panics:
  assumes "stream_turn env gid tid (Some s) known host = (host1, frame, StreamDone)" "map_of (ah_terminals host) tid = Some h"
    and "is_agent_request v" "frame_method v = Some ''terminal/wait_for_exit''" "str_param ''terminalId'' v = Some tid"
    and "he_wait env (th_process h) = Exited s'" "cp_terminal policy" "try_forward_interaction ctx v = Inr None"
  shows "demux_run env policy ctx (v # vs) (host1, pending) = ((host1, pending), [])"
proof -
  obtain h' where h': "stream_tick (Some s) h known = Some h'" using assms(1,2)
    by (auto simp: stream_turn_def split: option.splits)
  then have j: "map_of (ah_terminals host1) tid = Some (h\<lparr>th_exit := Some s, th_joined := True\<rparr>)"
    using assms(1,2) by (auto simp: stream_turn_def stream_tick_def try_wait_for_exit_def join_capture_def Let_def update_conv' split: if_splits prod.splits)
  then have "handle_terminal_request env v ''terminal/wait_for_exit'' host1 = None"
    using assms(5,6) by (simp add: handle_terminal_request_def terminal_methods_def on_terminal_def join_capture_def)
  then have "handle_unmatched_frame env policy (Some ctx) v host1 = (host1, [], Inl Panicked)"
    using assms(3,4,7,8)
    by (auto simp: handle_unmatched_frame_def is_agent_request_def agent_answer_def policy_answer_def dedicated_relay_def
        fs_methods_def terminal_methods_def split: option.splits)
  then show ?thesis by simp
qed

text \<open>Once a terminal is full its changes have the same length and the same flag: they are not sent.\<close>

theorem full_terminal_stops_streaming:
  assumes "th_limit h = Some n" "length (th_output h) = n" "th_truncated h" "th_exit h = None"
  shows "stream_tick None (capture chunk h) (n, True) = Some (capture chunk h, (n, True), None)"
  using assms by (auto simp: stream_tick_def try_wait_for_exit_def capture_def Let_def)

text \<open>The end of a range of lines wraps around: from line 2 with the largest limit nothing is read.\<close>

theorem largest_limit_reads_nothing: "file_slice (Some 2) (Some (2 ^ 64 - 1)) content = []"
  by (simp add: file_slice_def)

text \<open>A request of the agent whose own id equals the awaited id is returned as the response, and never answered.\<close>

theorem request_taken_for_response:
  "is_agent_request v \<Longrightarrow> json_get ''id'' v = Some i
    \<Longrightarrow> read_matching_response env policy live i (Frame v # rs) host ns qs = (host, [], Inr (v, ns, qs))"
  by simp

section \<open>Witnesses\<close>

text \<open>A host with one file, a pipe that takes every reply, and an agent that asks for two things.\<close>

definition sample_env :: host_env where
  "sample_env =
     \<lparr>he_read_error = (\<lambda>path. ''not found''), he_write_error = (\<lambda>path. None), he_spawn = (\<lambda>c args vars cwd. Inr 7),
      he_fresh = ''1'', he_wait = (\<lambda>p. Exited \<lparr>es_code = Some 0, es_signal = None\<rparr>), he_kill_error = (\<lambda>p. None),
      he_lossy = id, he_pipe = (\<lambda>v. Written)\<rparr>"

definition sample_policy :: call_policy where
  "sample_policy = \<lparr>cp_policy = AutoReject, cp_fs = True, cp_terminal = True, cp_auth = None\<rparr>"

definition sample_write :: json where
  "sample_write = JObject [(''id'', JNumber ''4''), (''method'', JString ''fs/write_text_file''),
     (''params'', JObject [(''path'', JString ''a''), (''content'', JString ''x'')])]"

definition sample_response :: json where
  "sample_response = JObject [(''id'', JNumber ''9''), (''result'', JNull)]"

definition sample_host :: agent_host where
  "sample_host = \<lparr>ah_files = Map.empty, ah_terminals = []\<rparr>"

lemmas sample_defs = sample_env_def sample_policy_def sample_write_def sample_response_def sample_host_def

lemma sample_call:
  "\<exists>effects r. read_matching_response sample_env sample_policy None (JNumber ''9'') [Frame sample_write, Frame sample_response] sample_host [] []
     = (sample_host\<lparr>ah_files := [''a'' \<mapsto> ''x'']\<rparr>, effects, r)"
  by (simp add: sample_defs handle_unmatched_frame_def frame_method_def str_field_def agent_answer_def dedicated_relay_def
      policy_answer_def fs_methods_def try_relay_approval_def try_relay_agent_request_def handle_fs_request_def str_param_def
      param_def write_backend_value_def)

theorem host_changes_need_permission_witness:
  "\<exists>v\<in>{sample_write, sample_response}. cp_fs sample_policy \<and> frame_method v = Some ''fs/write_text_file''
     \<and> try_relay_approval None v \<noteq> Some False"
proof -
  obtain effects r where c: "read_matching_response sample_env sample_policy None (JNumber ''9'') [Frame sample_write, Frame sample_response] sample_host [] []
     = (sample_host\<lparr>ah_files := [''a'' \<mapsto> ''x'']\<rparr>, effects, r)" using sample_call by blast
  show ?thesis using host_changes_need_permission [OF c] by (simp add: sample_host_def)
qed


end
