(* ===== verification/SessionPool.thy ===== *)
theory SessionPool
  imports Nested JsonView
begin

text \<open>
  The pool of reusable sessions: \<open>acpx-client/src/pool.rs\<close>.  A key names sessions that threads may take
  over from each other; a thread leases one at a time, and a background task keeps some ready.  Every
  section of the code that holds the pool's lock is one definition; between two of them, while a session is
  opened, anything else may happen.  What the transport answers (\<open>SessionOpener\<close>) is an argument.
\<close>

section \<open>State\<close>

record pool_key =
  pk_project :: string
  pk_agent :: string
  pk_profile :: string

datatype turn_state = NotStarted | ActiveTurn

datatype entry_state = Idle | Leased nat string turn_state | Recovering

record pool_entry =
  pe_session :: string
  pe_state :: entry_state
  pe_generation :: nat
  pe_capabilities :: "json option"

record session_lease =
  sl_id :: nat
  sl_key :: pool_key
  sl_session :: string
  sl_thread :: string
  sl_resumed :: bool
  sl_capabilities :: "json option"

datatype pool_error = OpenFailed string | OpenTimeout | UnknownLease | ActiveTurnNotReleasable | NotOwner

record open_error =
  oe_message :: string
  oe_terminal :: bool

text \<open>Who holds the gate of a key: an acquisition or the warm-up task, before and during the opening.\<close>

datatype gate = GateFree | AcquireReady | AcquireOpens nat | WarmOpens nat

record key_pool =
  kp_entries :: "pool_entry list"
  kp_gate :: gate
  kp_warmup_inflight :: bool
  kp_activated :: bool
  kp_generation :: nat
  kp_warm_left :: nat

text \<open>The generation is a \<open>u64\<close>; \<open>kp_warm_left\<close> counts the turns the warm-up task has left.\<close>

record pool =
  sp_keys :: "(pool_key \<times> key_pool) list"
  sp_next_lease :: nat

definition key_pool_new :: key_pool where
  "key_pool_new =
     \<lparr>kp_entries = [], kp_gate = GateFree, kp_warmup_inflight = False, kp_activated = False, kp_generation = 0, kp_warm_left = 0\<rparr>"

definition pool_new :: pool where
  "pool_new = \<lparr>sp_keys = [], sp_next_lease = 1\<rparr>"

definition warm_target_per_key :: nat where
  "warm_target_per_key = 4"

definition idle_deficit :: "key_pool \<Rightarrow> nat" where
  "idle_deficit kp = warm_target_per_key - length (kp_entries kp)"

text \<open>\<open>entry(key).or_insert_with(KeyPool::new)\<close>.\<close>

definition key_pool_of :: "pool_key \<Rightarrow> pool \<Rightarrow> key_pool" where
  "key_pool_of k p = (case map_of (sp_keys p) k of None \<Rightarrow> key_pool_new | Some kp \<Rightarrow> kp)"

definition set_key_pool :: "pool_key \<Rightarrow> key_pool \<Rightarrow> pool \<Rightarrow> pool" where
  "set_key_pool k kp p = p\<lparr>sp_keys := AList.update k kp (sp_keys p)\<rparr>"

section \<open>Leases\<close>

definition holds_lease :: "nat \<Rightarrow> pool_entry \<Rightarrow> bool" where
  "holds_lease l e = (case pe_state e of Leased l' t s \<Rightarrow> l' = l | _ \<Rightarrow> False)"

definition is_idle :: "pool_entry \<Rightarrow> bool" where
  "is_idle e \<longleftrightarrow> pe_state e = Idle"

text \<open>The first entry that satisfies a predicate, with the entries before and after it.\<close>

fun split_first :: "('a \<Rightarrow> bool) \<Rightarrow> 'a list \<Rightarrow> ('a list \<times> 'a \<times> 'a list) option" where
  "split_first P [] = None"
| "split_first P (x # xs) =
     (if P x then Some ([], x, xs) else map_option (\<lambda>(us, y, vs). (x # us, y, vs)) (split_first P xs))"

definition lease_entry :: "nat \<Rightarrow> string \<Rightarrow> pool_entry \<Rightarrow> pool_entry" where
  "lease_entry l t e = e\<lparr>pe_state := Leased l t NotStarted\<rparr>"

definition lease_of :: "nat \<Rightarrow> pool_key \<Rightarrow> string \<Rightarrow> bool \<Rightarrow> pool_entry \<Rightarrow> session_lease" where
  "lease_of l k t resumed e =
     \<lparr>sl_id = l, sl_key = k, sl_session = pe_session e, sl_thread = t, sl_resumed = resumed, sl_capabilities = pe_capabilities e\<rparr>"

definition lease_first_idle :: "pool_key \<Rightarrow> string \<Rightarrow> key_pool \<Rightarrow> pool \<Rightarrow> pool \<times> session_lease option" where
  "lease_first_idle k t kp p =
     (case split_first is_idle (kp_entries kp) of
        None \<Rightarrow> (set_key_pool k kp p, None)
      | Some (us, e, vs) \<Rightarrow>
          (let l = sp_next_lease p
           in (set_key_pool k (kp\<lparr>kp_entries := us @ lease_entry l t e # vs\<rparr>) (p\<lparr>sp_next_lease := Suc l\<rparr>),
               Some (lease_of l k t False e))))"

text \<open>\<open>acquire\<close>, when a session is idle.\<close>

definition acquire_idle :: "pool_key \<Rightarrow> string \<Rightarrow> pool \<Rightarrow> pool \<times> session_lease option" where
  "acquire_idle k t p = lease_first_idle k t ((key_pool_of k p)\<lparr>kp_activated := True\<rparr>) p"

definition prewarm :: "pool_key \<Rightarrow> pool \<Rightarrow> pool" where
  "prewarm k p = set_key_pool k ((key_pool_of k p)\<lparr>kp_activated := True\<rparr>) p"

text \<open>\<open>open_and_lease\<close>: the gate and the second look, the generation, and after the opening the entry.\<close>

definition open_check :: "pool_key \<Rightarrow> string \<Rightarrow> pool \<Rightarrow> pool \<times> session_lease option" where
  "open_check k t p =
     (let kp = key_pool_of k p
      in if kp_gate kp \<noteq> GateFree then (p, None)
         else case lease_first_idle k t kp p of
           (p', Some lease) \<Rightarrow> (p', Some lease)
         | (p', None) \<Rightarrow> (set_key_pool k (kp\<lparr>kp_gate := AcquireReady\<rparr>) p', None))"

definition open_snapshot :: "pool_key \<Rightarrow> pool \<Rightarrow> pool" where
  "open_snapshot k p =
     (let kp = key_pool_of k p
      in if kp_gate kp = AcquireReady then set_key_pool k (kp\<lparr>kp_gate := AcquireOpens (kp_generation kp)\<rparr>) p else p)"

text \<open>\<open>open_session\<close>: what the transport answers, \<open>None\<close> when the time is up before it does.\<close>

definition open_session ::
  "string option \<Rightarrow> (string \<Rightarrow> (open_error + string) option) \<Rightarrow> (open_error + string \<times> json option) option
    \<Rightarrow> pool_error + string \<times> json option \<times> bool"
where
  "open_session saved resume create =
     (let fresh = (case create of
          None \<Rightarrow> Inl OpenTimeout
        | Some (Inl e) \<Rightarrow> Inl (OpenFailed (oe_message e))
        | Some (Inr (s, c)) \<Rightarrow> Inr (s, c, False))
      in case saved of
           None \<Rightarrow> fresh
         | Some i \<Rightarrow>
             (case resume i of
                None \<Rightarrow> Inl OpenTimeout
              | Some (Inr s) \<Rightarrow> Inr (s, None, True)
              | Some (Inl e) \<Rightarrow> if oe_terminal e then Inl (OpenFailed (oe_message e)) else fresh))"

definition open_done ::
  "pool_key \<Rightarrow> string \<Rightarrow> pool_error + string \<times> json option \<times> bool \<Rightarrow> pool \<Rightarrow> pool \<times> session_lease option"
where
  "open_done k t result p =
     (let kp = key_pool_of k p
      in case kp_gate kp of
           AcquireOpens g \<Rightarrow>
             (case result of
                Inl e \<Rightarrow> (set_key_pool k (kp\<lparr>kp_gate := GateFree\<rparr>) p, None)
              | Inr (s, c, resumed) \<Rightarrow>
                  (let l = sp_next_lease p;
                       e = \<lparr>pe_session = s, pe_state = Leased l t NotStarted, pe_generation = g, pe_capabilities = c\<rparr>
                   in (set_key_pool k (kp\<lparr>kp_entries := kp_entries kp @ [e], kp_gate := GateFree\<rparr>) (p\<lparr>sp_next_lease := Suc l\<rparr>),
                       Some (lease_of l k t resumed e))))
         | _ \<Rightarrow> (p, None))"

section \<open>The life of a lease\<close>

definition owned_by :: "string \<Rightarrow> pool_entry \<Rightarrow> bool" where
  "owned_by t e = (case pe_state e of Leased l t' s \<Rightarrow> t' = t | _ \<Rightarrow> False)"

definition turn_of :: "pool_entry \<Rightarrow> turn_state" where
  "turn_of e = (case pe_state e of Leased l t s \<Rightarrow> s | _ \<Rightarrow> NotStarted)"

definition set_turn :: "turn_state \<Rightarrow> pool_entry \<Rightarrow> pool_entry" where
  "set_turn s e = (case pe_state e of Leased l t s' \<Rightarrow> e\<lparr>pe_state := Leased l t s\<rparr> | _ \<Rightarrow> e)"

text \<open>\<open>mark_turn_started\<close> and \<open>mark_turn_finished\<close>.\<close>

definition mark_turn :: "turn_state \<Rightarrow> session_lease \<Rightarrow> pool \<Rightarrow> pool \<times> (pool_error + unit)" where
  "mark_turn s lease p =
     (case map_of (sp_keys p) (sl_key lease) of
        None \<Rightarrow> (p, Inl UnknownLease)
      | Some kp \<Rightarrow>
          (case split_first (holds_lease (sl_id lease)) (kp_entries kp) of
             None \<Rightarrow> (p, Inl UnknownLease)
           | Some (us, e, vs) \<Rightarrow>
               if \<not> owned_by (sl_thread lease) e then (p, Inl NotOwner)
               else (set_key_pool (sl_key lease) (kp\<lparr>kp_entries := us @ set_turn s e # vs\<rparr>) p, Inr ())))"

definition release :: "session_lease \<Rightarrow> pool \<Rightarrow> pool \<times> (pool_error + unit)" where
  "release lease p =
     (case map_of (sp_keys p) (sl_key lease) of
        None \<Rightarrow> (p, Inl UnknownLease)
      | Some kp \<Rightarrow>
          (case split_first (holds_lease (sl_id lease)) (kp_entries kp) of
             None \<Rightarrow> (p, Inl UnknownLease)
           | Some (us, e, vs) \<Rightarrow>
               if \<not> owned_by (sl_thread lease) e then (p, Inl NotOwner)
               else if turn_of e = ActiveTurn then (p, Inl ActiveTurnNotReleasable)
               else (set_key_pool (sl_key lease)
                       (kp\<lparr>kp_entries := us @ (if pe_generation e = kp_generation kp then [e\<lparr>pe_state := Idle\<rparr>] else []) @ vs\<rparr>) p,
                     Inr ())))"

definition invalidate :: "session_lease \<Rightarrow> pool \<Rightarrow> pool \<times> (pool_error + unit)" where
  "invalidate lease p =
     (case map_of (sp_keys p) (sl_key lease) of
        None \<Rightarrow> (p, Inl UnknownLease)
      | Some kp \<Rightarrow>
          (let kept = filter (\<lambda>e. \<not> holds_lease (sl_id lease) e) (kp_entries kp)
           in if length kept = length (kp_entries kp) then (p, Inl UnknownLease)
              else (set_key_pool (sl_key lease) (kp\<lparr>kp_entries := kept\<rparr>) p, Inr ())))"

definition is_lease_stale :: "session_lease \<Rightarrow> pool \<Rightarrow> bool" where
  "is_lease_stale lease p =
     (case map_of (sp_keys p) (sl_key lease) of
        None \<Rightarrow> False
      | Some kp \<Rightarrow>
          (case find (holds_lease (sl_id lease)) (kp_entries kp) of
             None \<Rightarrow> False | Some e \<Rightarrow> pe_generation e \<noteq> kp_generation kp))"

section \<open>Recovery and refresh\<close>

definition on_key_pool :: "pool_key \<Rightarrow> (key_pool \<Rightarrow> key_pool) \<Rightarrow> pool \<Rightarrow> pool" where
  "on_key_pool k f p = (case map_of (sp_keys p) k of None \<Rightarrow> p | Some kp \<Rightarrow> set_key_pool k (f kp) p)"

definition mark_recovering :: "pool_key \<Rightarrow> string \<Rightarrow> pool \<Rightarrow> pool" where
  "mark_recovering k s =
     on_key_pool k (\<lambda>kp. kp\<lparr>kp_entries := map (\<lambda>e. if pe_session e = s then e\<lparr>pe_state := Recovering\<rparr> else e) (kp_entries kp)\<rparr>)"

definition recovering_as :: "string \<Rightarrow> pool_entry \<Rightarrow> bool" where
  "recovering_as s e \<longleftrightarrow> pe_session e = s \<and> pe_state e = Recovering"

text \<open>The end of \<open>resume_recovering\<close>, with the answer of the transport.\<close>

definition resume_recovering :: "pool_key \<Rightarrow> string \<Rightarrow> open_error + string \<Rightarrow> pool \<Rightarrow> pool \<times> (pool_error + unit)" where
  "resume_recovering k s resumed p =
     (case map_of (sp_keys p) k of
        None \<Rightarrow> (p, Inl UnknownLease)
      | Some kp \<Rightarrow>
          (case resumed of
             Inr i \<Rightarrow>
               (set_key_pool k (kp\<lparr>kp_entries := map (\<lambda>e. if recovering_as s e then e\<lparr>pe_state := Idle\<rparr> else e)
                  (filter (\<lambda>e. \<not> (recovering_as s e \<and> pe_generation e \<noteq> kp_generation kp)) (kp_entries kp))\<rparr>) p, Inr ())
           | Inl e \<Rightarrow>
               (set_key_pool k (kp\<lparr>kp_entries := filter (\<lambda>e. \<not> recovering_as s e) (kp_entries kp)\<rparr>) p,
                Inl (OpenFailed (oe_message e)))))"

definition refreshed :: "key_pool \<Rightarrow> key_pool" where
  "refreshed kp =
     kp\<lparr>kp_generation := Suc (kp_generation kp) mod 2 ^ 64, kp_entries := filter (\<lambda>e. \<not> is_idle e) (kp_entries kp)\<rparr>"

definition refresh_key :: "pool_key \<Rightarrow> pool \<Rightarrow> pool" where
  "refresh_key k = on_key_pool k refreshed"

definition refresh_all :: "pool \<Rightarrow> pool" where
  "refresh_all p = p\<lparr>sp_keys := map (\<lambda>(k, kp). (k, refreshed kp)) (sp_keys p)\<rparr>"

section \<open>Warm-up\<close>

definition warm_begin :: "pool_key \<Rightarrow> pool \<Rightarrow> pool" where
  "warm_begin k =
     on_key_pool k (\<lambda>kp. if kp_activated kp \<and> \<not> kp_warmup_inflight kp \<and> idle_deficit kp \<noteq> 0
       then kp\<lparr>kp_warmup_inflight := True, kp_warm_left := idle_deficit kp\<rparr> else kp)"

text \<open>One turn: under the gate the deficit is looked at again, then a session is opened.\<close>

definition warm_check :: "pool_key \<Rightarrow> pool \<Rightarrow> pool" where
  "warm_check k =
     on_key_pool k (\<lambda>kp. if kp_warmup_inflight kp \<and> kp_warm_left kp \<noteq> 0 \<and> kp_gate kp = GateFree
       then (if idle_deficit kp = 0 then kp\<lparr>kp_warm_left := 0\<rparr> else kp\<lparr>kp_gate := WarmOpens (kp_generation kp)\<rparr>) else kp)"

definition warm_done :: "pool_key \<Rightarrow> (string \<times> json option) option \<Rightarrow> pool \<Rightarrow> pool" where
  "warm_done k opened =
     on_key_pool k (\<lambda>kp. case kp_gate kp of
         WarmOpens g \<Rightarrow>
           (case opened of
              None \<Rightarrow> kp\<lparr>kp_gate := GateFree, kp_warm_left := 0\<rparr>
            | Some (s, c) \<Rightarrow>
                kp\<lparr>kp_entries := kp_entries kp @ [\<lparr>pe_session = s, pe_state = Idle, pe_generation = g, pe_capabilities = c\<rparr>],
                   kp_gate := GateFree, kp_warm_left := kp_warm_left kp - 1\<rparr>)
       | _ \<Rightarrow> kp)"

definition warm_end :: "pool_key \<Rightarrow> pool \<Rightarrow> pool" where
  "warm_end k =
     on_key_pool k (\<lambda>kp. if kp_warmup_inflight kp \<and> kp_warm_left kp = 0 then kp\<lparr>kp_warmup_inflight := False\<rparr> else kp)"

definition total_for_key :: "pool_key \<Rightarrow> pool \<Rightarrow> nat" where
  "total_for_key k p = (case map_of (sp_keys p) k of None \<Rightarrow> 0 | Some kp \<Rightarrow> length (kp_entries kp))"

definition idle_for_key :: "pool_key \<Rightarrow> pool \<Rightarrow> nat" where
  "idle_for_key k p = (case map_of (sp_keys p) k of None \<Rightarrow> 0 | Some kp \<Rightarrow> length (filter is_idle (kp_entries kp)))"

end
