(* ===== verification/PoolFacts.thy ===== *)
theory PoolFacts
  imports SessionPool
begin

text \<open>
  Runs of the pool: every order of its atomic sections.  A lease has one owner until it ends and
  ends once, and the warm-up keeps its target; a session that is opened while the configuration
  changes, or that is resumed by its saved id, escapes these rules.
\<close>

section \<open>Runs\<close>

datatype pool_op =
    Acquire pool_key string
  | Prewarm pool_key
  | OpenCheck pool_key string
  | OpenSnapshot pool_key
  | OpenDone pool_key string "pool_error + string \<times> json option \<times> bool"
  | MarkTurn turn_state session_lease
  | Release session_lease
  | Invalidate session_lease
  | MarkRecovering pool_key string
  | ResumeRecovering pool_key string "open_error + string"
  | RefreshKey pool_key
  | RefreshAll
  | WarmBegin pool_key
  | WarmCheck pool_key
  | WarmDone pool_key "(string \<times> json option) option"
  | WarmEnd pool_key

fun pool_apply :: "pool_op \<Rightarrow> pool \<Rightarrow> pool \<times> session_lease option" where
  "pool_apply (Acquire k t) p = acquire_idle k t p"
| "pool_apply (Prewarm k) p = (prewarm k p, None)"
| "pool_apply (OpenCheck k t) p = open_check k t p"
| "pool_apply (OpenSnapshot k) p = (open_snapshot k p, None)"
| "pool_apply (OpenDone k t r) p = open_done k t r p"
| "pool_apply (MarkTurn s lease) p = (fst (mark_turn s lease p), None)"
| "pool_apply (Release lease) p = (fst (release lease p), None)"
| "pool_apply (Invalidate lease) p = (fst (invalidate lease p), None)"
| "pool_apply (MarkRecovering k s) p = (mark_recovering k s p, None)"
| "pool_apply (ResumeRecovering k s r) p = (fst (resume_recovering k s r p), None)"
| "pool_apply (RefreshKey k) p = (refresh_key k p, None)"
| "pool_apply RefreshAll p = (refresh_all p, None)"
| "pool_apply (WarmBegin k) p = (warm_begin k p, None)"
| "pool_apply (WarmCheck k) p = (warm_check k p, None)"
| "pool_apply (WarmDone k r) p = (warm_done k r p, None)"
| "pool_apply (WarmEnd k) p = (warm_end k p, None)"

fun pool_run :: "pool_op list \<Rightarrow> pool \<Rightarrow> pool \<times> session_lease list" where
  "pool_run [] p = (p, [])"
| "pool_run (x # xs) p =
     (case pool_apply x p of (p', issued) \<Rightarrow>
        (case pool_run xs p' of (p'', leases) \<Rightarrow> (p'', (case issued of None \<Rightarrow> leases | Some l \<Rightarrow> l # leases))))"

section \<open>One key at a time\<close>

lemma key_pool_set [simp]: "key_pool_of k' (set_key_pool k kp p) = (if k' = k then kp else key_pool_of k' p)"
  by (simp add: key_pool_of_def set_key_pool_def update_conv')

lemma next_set [simp]: "sp_next_lease (set_key_pool k kp p) = sp_next_lease p"
  by (simp add: set_key_pool_def)

lemma key_pool_next [simp]: "key_pool_of k (p\<lparr>sp_next_lease := l\<rparr>) = key_pool_of k p"
  by (simp add: key_pool_of_def)

lemma key_pool_known: "map_of (sp_keys p) k = Some kp \<Longrightarrow> key_pool_of k p = kp"
  by (simp add: key_pool_of_def)

lemma on_key_next [simp]: "sp_next_lease (on_key_pool k f p) = sp_next_lease p"
  by (simp add: on_key_pool_def split: option.split)

lemma key_pool_on: "key_pool_of k' (on_key_pool k f p) = (if k' = k \<and> k \<in> dom (map_of (sp_keys p)) then f (key_pool_of k p) else key_pool_of k' p)"
  by (auto simp: on_key_pool_def key_pool_known split: option.split)

lemma key_pool_refresh_all:
  "key_pool_of k (refresh_all p) = (if k \<in> dom (map_of (sp_keys p)) then refreshed (key_pool_of k p) else key_pool_of k p)"
  by (auto simp: key_pool_of_def refresh_all_def map_of_map split: option.split)

lemma split_first_Some: "split_first P xs = Some (us, x, vs) \<Longrightarrow> xs = us @ x # vs \<and> P x \<and> (\<forall>u\<in>set us. \<not> P u)"
  by (induction xs arbitrary: us) (auto split: if_splits)

lemma split_first_None: "split_first P xs = None \<longleftrightarrow> (\<forall>x\<in>set xs. \<not> P x)"
  by (induction xs) auto

section \<open>Who holds a lease\<close>

definition thread_of :: "pool_entry \<Rightarrow> string" where
  "thread_of e = (case pe_state e of Leased l t s \<Rightarrow> t | _ \<Rightarrow> [])"

definition holders :: "nat \<Rightarrow> pool_key \<Rightarrow> pool \<Rightarrow> (string \<times> string) list" where
  "holders l k p = map (\<lambda>e. (pe_session e, thread_of e)) (filter (holds_lease l) (kp_entries (key_pool_of k p)))"

definition ends_lease :: "session_lease \<Rightarrow> pool_op \<Rightarrow> bool" where
  "ends_lease L x = (case x of
       Release L' \<Rightarrow> sl_id L' = sl_id L \<and> sl_key L' = sl_key L \<and> sl_thread L' = sl_thread L
     | Invalidate L' \<Rightarrow> sl_id L' = sl_id L \<and> sl_key L' = sl_key L
     | MarkRecovering k s \<Rightarrow> k = sl_key L \<and> s = sl_session L
     | _ \<Rightarrow> False)"

lemma holds_simps [simp]:
  "holds_lease l (lease_entry l' t e) = (l = l')" "\<not> holds_lease l (e\<lparr>pe_state := Idle\<rparr>)" "\<not> holds_lease l (e\<lparr>pe_state := Recovering\<rparr>)"
  "holds_lease l (set_turn s e) = holds_lease l e" "thread_of (set_turn s e) = thread_of e" "pe_session (set_turn s e) = pe_session e"
  "thread_of (lease_entry l' t e) = t" "pe_session (lease_entry l' t e) = pe_session e"
  by (auto simp: holds_lease_def lease_entry_def set_turn_def thread_of_def split: entry_state.splits)

lemma holds_idle [simp]: "is_idle e \<Longrightarrow> \<not> holds_lease l e"
  by (simp add: holds_lease_def is_idle_def)

lemma holds_recovering [simp]: "recovering_as s e \<Longrightarrow> \<not> holds_lease l e"
  by (simp add: holds_lease_def recovering_as_def)

lemma holds_unique: "holds_lease l e \<Longrightarrow> holds_lease l' e \<Longrightarrow> l = l'"
  by (auto simp: holds_lease_def split: entry_state.splits)

lemma owned_thread: "holds_lease l e \<Longrightarrow> owned_by t e \<longleftrightarrow> thread_of e = t"
  by (auto simp: holds_lease_def owned_by_def thread_of_def split: entry_state.splits)

lemma holders_set [simp]:
  "holders l k' (set_key_pool k kp p) =
     (if k' = k then map (\<lambda>e. (pe_session e, thread_of e)) (filter (holds_lease l) (kp_entries kp)) else holders l k' p)"
  "holders l k' (p\<lparr>sp_next_lease := n\<rparr>) = holders l k' p"
  by (simp_all add: holders_def)

lemma lease_first_idle_holders:
  assumes "lease_first_idle k t kp p = (p', issued)" "kp_entries kp = kp_entries (key_pool_of k p)"
  shows "(case issued of
        None \<Rightarrow> (\<forall>l k'. holders l k' p' = holders l k' p) \<and> sp_next_lease p' = sp_next_lease p
      | Some L \<Rightarrow> sl_id L = sp_next_lease p \<and> sl_key L = k \<and> sl_thread L = t \<and> sp_next_lease p' = Suc (sp_next_lease p)
          \<and> (\<forall>l k'. l \<noteq> sl_id L \<longrightarrow> holders l k' p' = holders l k' p)
          \<and> (holders (sl_id L) k p = [] \<longrightarrow> holders (sl_id L) k p' = [(sl_session L, t)]))"
proof (cases "split_first is_idle (kp_entries kp)")
  case None
  then show ?thesis using assms by (auto simp: lease_first_idle_def holders_def)
next
  case (Some x)
  obtain us e vs where x: "x = (us, e, vs)" by (cases x)
  note s = split_first_Some [OF Some [unfolded x]]
  have ent: "kp_entries (key_pool_of k p) = us @ e # vs" using s assms(2) by simp
  have idle: "is_idle e" using s by simp
  have p': "p' = set_key_pool k (kp\<lparr>kp_entries := us @ lease_entry (sp_next_lease p) t e # vs\<rparr>) (p\<lparr>sp_next_lease := Suc (sp_next_lease p)\<rparr>)"
    and i: "issued = Some (lease_of (sp_next_lease p) k t False e)"
    using assms(1) Some x by (auto simp: lease_first_idle_def Let_def)
  show ?thesis using ent idle by (auto simp: p' i lease_of_def holders_def)
qed

lemma lease_first_idle_other:
  "lease_first_idle k t kp p = (p', issued) \<Longrightarrow> kp_entries kp = kp_entries (key_pool_of k p) \<Longrightarrow> l < sp_next_lease p
    \<Longrightarrow> holders l k' p' = holders l k' p \<and> sp_next_lease p \<le> sp_next_lease p' \<and> (\<forall>L. issued = Some L \<longrightarrow> sp_next_lease p \<le> sl_id L)"
  by (drule (1) lease_first_idle_holders) (auto split: option.splits)

definition keeps :: "nat \<Rightarrow> pool_key \<Rightarrow> pool \<Rightarrow> pool \<times> session_lease option \<Rightarrow> bool" where
  "keeps l k p r \<longleftrightarrow> holders l k (fst r) = holders l k p \<and> sp_next_lease p \<le> sp_next_lease (fst r)
     \<and> (\<forall>L. snd r = Some L \<longrightarrow> sp_next_lease p \<le> sl_id L)"

lemma keeps_same [simp]: "keeps l k p (p, None)"
  by (simp add: keeps_def)

lemma keeps_entries: "kp_entries kp = kp_entries (key_pool_of k' p) \<Longrightarrow> keeps l k p (set_key_pool k' kp p, None)"
  by (simp add: keeps_def holders_def)

lemma keeps_on_key:
  "filter (holds_lease l) (kp_entries (f (key_pool_of k' p))) = filter (holds_lease l) (kp_entries (key_pool_of k' p))
    \<Longrightarrow> keeps l k p (on_key_pool k' f p, None)"
  by (auto simp: keeps_def holders_def key_pool_on)

lemma keeps_acquire: "l < sp_next_lease p \<Longrightarrow> keeps l k p (acquire_idle k' t p)"
  using lease_first_idle_other [of k' t "(key_pool_of k' p)\<lparr>kp_activated := True\<rparr>" p]
  by (cases "acquire_idle k' t p") (auto simp: keeps_def acquire_idle_def)

lemma keeps_open_check: "l < sp_next_lease p \<Longrightarrow> keeps l k p (open_check k' t p)"
proof -
  assume l: "l < sp_next_lease p"
  obtain p' r where a: "lease_first_idle k' t (key_pool_of k' p) p = (p', r)" by fastforce
  note b = lease_first_idle_other [OF a refl l] and c = lease_first_idle_holders [OF a refl]
  show ?thesis
  proof (cases r)
    case None
    then have "p' = set_key_pool k' (key_pool_of k' p) p" using a
      by (auto simp: lease_first_idle_def Let_def split: option.splits prod.splits)
    then show ?thesis using a None by (simp add: open_check_def Let_def keeps_def holders_def)
  next
    case (Some L)
    then show ?thesis using a b by (simp add: open_check_def Let_def keeps_def)
  qed
qed

lemma keeps_open_done: "l < sp_next_lease p \<Longrightarrow> keeps l k p (open_done k' t r p)"
  by (auto simp: open_done_def keeps_def holders_def holds_lease_def lease_of_def Let_def split: gate.splits sum.splits)

lemma keeps_mark_turn: "keeps l k p (fst (mark_turn s lease p), None)"
  by (auto simp: mark_turn_def keeps_def holders_def key_pool_known split: option.splits prod.splits dest!: split_first_Some)

lemma keeps_release:
  assumes "holders (sl_id L) (sl_key L) p = [(sl_session L, sl_thread L)]" "\<not> ends_lease L (Release lease)"
  shows "keeps (sl_id L) (sl_key L) p (fst (release lease p), None)"
proof (cases "map_of (sp_keys p) (sl_key lease)")
  case (Some kp)
  show ?thesis
  proof (cases "split_first (holds_lease (sl_id lease)) (kp_entries kp)")
    case f: (Some x)
    obtain us e vs where x: "x = (us, e, vs)" by (cases x)
    note s = split_first_Some [OF f [unfolded x]]
    have kp: "key_pool_of (sl_key lease) p = kp" by (rule key_pool_known [OF Some])
    show ?thesis
    proof (cases "sl_key lease = sl_key L \<and> sl_id lease = sl_id L")
      case True
      then have "thread_of e = sl_thread L" using assms(1) s kp by (auto simp: holders_def)
      then have "\<not> owned_by (sl_thread lease) e" using True assms(2) s owned_thread by (auto simp: ends_lease_def)
      then show ?thesis using Some f x by (simp add: release_def)
    next
      case False
      then have "\<not> holds_lease (sl_id L) e \<or> sl_key lease \<noteq> sl_key L" using s holds_unique by blast
      then show ?thesis using Some f x s kp by (auto simp: release_def keeps_def holders_def)
    qed
  qed (simp add: release_def Some)
qed (simp add: release_def)

lemma keeps_invalidate:
  assumes "\<not> ends_lease L (Invalidate lease)"
  shows "keeps (sl_id L) (sl_key L) p (fst (invalidate lease p), None)"
proof -
  have "sl_key lease = sl_key L \<longrightarrow> sl_id lease \<noteq> sl_id L" using assms by (auto simp: ends_lease_def)
  moreover have "l \<noteq> l' \<Longrightarrow> filter (holds_lease l) (filter (\<lambda>e. \<not> holds_lease l' e) es) = filter (holds_lease l) es" for l l' es
    by (induction es) (auto dest: holds_unique)
  ultimately show ?thesis by (auto simp: invalidate_def keeps_def holders_def key_pool_known Let_def split: option.splits)
qed

lemma keeps_resume: "keeps l k p (fst (resume_recovering k' s r p), None)"
proof -
  have 1: "filter (holds_lease l) (map (\<lambda>e. if recovering_as s e then e\<lparr>pe_state := Idle\<rparr> else e)
      (filter (\<lambda>e. \<not> (recovering_as s e \<and> pe_generation e \<noteq> g)) es)) = filter (holds_lease l) es" for es g
    by (induction es) auto
  have 2: "filter (holds_lease l) (filter (\<lambda>e. \<not> recovering_as s e) es) = filter (holds_lease l) es" for es
    by (induction es) auto
  show ?thesis using 1 2
    by (auto simp: resume_recovering_def keeps_def holders_def key_pool_known split: option.splits sum.splits)
qed

lemma filter_refreshed [simp]: "filter (holds_lease l) (kp_entries (refreshed kp)) = filter (holds_lease l) (kp_entries kp)"
  by (auto simp: refreshed_def intro: filter_cong)

lemma keeps_refresh_all: "keeps l k p (refresh_all p, None)"
  by (simp add: keeps_def holders_def key_pool_refresh_all) (simp add: refresh_all_def)

lemma keeps_mark_recovering:
  assumes "holders (sl_id L) (sl_key L) p = [(sl_session L, sl_thread L)]" "\<not> ends_lease L (MarkRecovering k s)"
  shows "keeps (sl_id L) (sl_key L) p (mark_recovering k s p, None)"
proof (cases "k = sl_key L")
  case True
  then have s: "s \<noteq> sl_session L" using assms(2) by (simp add: ends_lease_def)
  have one: "\<forall>e\<in>set es. holds_lease (sl_id L) e \<longrightarrow> pe_session e \<noteq> s \<Longrightarrow>
      filter (holds_lease (sl_id L)) (map (\<lambda>e. if pe_session e = s then e\<lparr>pe_state := Recovering\<rparr> else e) es) = filter (holds_lease (sl_id L)) es" for es
    by (induction es) auto
  have "(pe_session e, thread_of e) \<in> set (holders (sl_id L) (sl_key L) p)"
    if "e \<in> set (kp_entries (key_pool_of k p))" "holds_lease (sl_id L) e" for e
    using that True by (auto simp: holders_def)
  then have "\<forall>e\<in>set (kp_entries (key_pool_of k p)). holds_lease (sl_id L) e \<longrightarrow> pe_session e \<noteq> s" using assms(1) s by auto
  then show ?thesis unfolding mark_recovering_def by (intro keeps_on_key) (simp add: one)
next
  case False
  then show ?thesis by (simp add: mark_recovering_def keeps_def holders_def key_pool_on)
qed

lemma op_keeps:
  assumes "holders (sl_id L) (sl_key L) p = [(sl_session L, sl_thread L)]" "\<not> ends_lease L x" "sl_id L < sp_next_lease p"
  shows "keeps (sl_id L) (sl_key L) p (pool_apply x p)"
proof (cases x)
  case (Release lease)
  then show ?thesis using keeps_release assms by simp
next
  case (MarkRecovering k s)
  then show ?thesis using keeps_mark_recovering assms by simp
next
  case (Invalidate lease)
  then show ?thesis using keeps_invalidate assms by simp
qed (use assms in \<open>simp_all add: keeps_acquire keeps_open_check keeps_open_done keeps_mark_turn keeps_resume keeps_refresh_all
      prewarm_def keeps_entries open_snapshot_def Let_def refresh_key_def warm_begin_def warm_check_def warm_end_def warm_done_def keeps_on_key
      is_idle_def holds_lease_def split: gate.splits option.splits\<close>)

section \<open>Lease ids are used once\<close>

definition used :: "nat \<Rightarrow> pool_key \<Rightarrow> pool \<Rightarrow> bool" where
  "used l k p \<longleftrightarrow> (\<exists>e\<in>set (kp_entries (key_pool_of k p)). holds_lease l e)"

lemma usedI: "e \<in> set (kp_entries (key_pool_of k p)) \<Longrightarrow> holds_lease l e \<Longrightarrow> used l k p"
  by (auto simp: used_def)

lemma used_set [simp]:
  "used l k' (set_key_pool k kp p) = (if k' = k then \<exists>e\<in>set (kp_entries kp). holds_lease l e else used l k' p)"
  by (simp add: used_def)

lemma holds_new [simp]: "\<not> holds_lease l \<lparr>pe_session = s, pe_state = Idle, pe_generation = g, pe_capabilities = c\<rparr>"
  by (simp add: holds_lease_def)

lemma used_holders: "used l k p \<longleftrightarrow> holders l k p \<noteq> []"
  by (auto simp: used_def holders_def filter_empty_conv)

text \<open>An operation makes no lease but the one it issues, under the next id.\<close>

definition makes :: "pool \<Rightarrow> pool \<times> session_lease option \<Rightarrow> bool" where
  "makes p r \<longleftrightarrow> (\<forall>l k. used l k (fst r) \<longrightarrow> used l k p \<or> (\<exists>L. snd r = Some L \<and> sl_id L = l))
     \<and> (case snd r of None \<Rightarrow> sp_next_lease (fst r) = sp_next_lease p
        | Some L \<Rightarrow> sl_id L = sp_next_lease p \<and> sp_next_lease (fst r) = Suc (sl_id L))"

lemma makes_set:
  "(\<And>l e. e \<in> set (kp_entries kp) \<Longrightarrow> holds_lease l e \<Longrightarrow> used l k p) \<Longrightarrow> makes p (set_key_pool k kp p, None)"
  by (auto simp: makes_def used_def)

lemma makes_on_key:
  "(\<And>l e. e \<in> set (kp_entries (f (key_pool_of k p))) \<Longrightarrow> holds_lease l e \<Longrightarrow> used l k p) \<Longrightarrow> makes p (on_key_pool k f p, None)"
  by (auto simp: makes_def used_def key_pool_on split: if_splits)

lemma makes_same [simp]: "makes p (p, None)"
  by (simp add: makes_def)

lemma makes_lease_first_idle: "kp_entries kp = kp_entries (key_pool_of k p) \<Longrightarrow> makes p (lease_first_idle k t kp p)"
  by (auto simp: lease_first_idle_def makes_def used_def lease_of_def Let_def split: option.splits prod.splits
      dest!: split_first_Some)

lemma makes_open_check: "makes p (open_check k t p)"
proof -
  obtain p' r where a: "lease_first_idle k t (key_pool_of k p) p = (p', r)" by fastforce
  have m: "makes p (p', r)" using makes_lease_first_idle [of "key_pool_of k p" k p t] a by simp
  show ?thesis
  proof (cases r)
    case None
    then have "p' = set_key_pool k (key_pool_of k p) p" using a
      by (auto simp: lease_first_idle_def Let_def split: option.splits prod.splits)
    then show ?thesis using a None by (auto simp: open_check_def Let_def makes_def intro: usedI)
  next
    case (Some L)
    then show ?thesis using a m by (simp add: open_check_def Let_def)
  qed
qed

lemma makes_mark_turn: "makes p (fst (mark_turn s lease p), None)"
  by (auto simp: mark_turn_def key_pool_known used_def intro!: makes_set split: option.splits prod.splits dest!: split_first_Some)

lemma makes_release: "makes p (fst (release lease p), None)"
  by (auto simp: release_def key_pool_known used_def intro!: makes_set split: option.splits prod.splits dest!: split_first_Some)

lemma makes_invalidate: "makes p (fst (invalidate lease p), None)"
  by (auto simp: invalidate_def key_pool_known used_def Let_def intro!: makes_set split: option.splits)

lemma makes_resume: "makes p (fst (resume_recovering k s r p), None)"
  by (auto simp: resume_recovering_def key_pool_known used_def intro!: makes_set split: option.splits sum.splits if_splits)

lemma makes_refresh_all: "makes p (refresh_all p, None)"
  by (auto simp: makes_def used_holders holders_def key_pool_refresh_all) (simp add: refresh_all_def)

lemma makes_open_done: "makes p (open_done k t r p)"
  by (auto simp: open_done_def makes_def used_def holds_lease_def lease_of_def Let_def split: gate.splits sum.splits if_splits)

lemma makes_warm_done: "makes p (warm_done k r p, None)"
  unfolding warm_done_def by (rule makes_on_key) (auto split: gate.splits option.splits intro: usedI)

lemma op_makes: "makes p (pool_apply x p)"
  by (cases x)
    (auto simp: acquire_idle_def makes_lease_first_idle makes_open_check makes_open_done makes_mark_turn makes_release makes_invalidate
      makes_resume makes_refresh_all makes_warm_done prewarm_def open_snapshot_def Let_def mark_recovering_def refresh_key_def refreshed_def
      warm_begin_def warm_check_def warm_end_def
      intro!: makes_set makes_on_key intro: usedI split: gate.splits option.splits if_splits)

definition leases_below :: "pool \<Rightarrow> bool" where
  "leases_below p \<longleftrightarrow> (\<forall>l k. used l k p \<longrightarrow> l < sp_next_lease p)"

lemma op_leases_below: "leases_below p \<Longrightarrow> leases_below (fst (pool_apply x p)) \<and> sp_next_lease p \<le> sp_next_lease (fst (pool_apply x p))"
  using op_makes [of p x] unfolding leases_below_def makes_def
  by (fastforce split: option.splits)

lemma run_leases_below: "leases_below p \<Longrightarrow> leases_below (fst (pool_run xs p))"
proof (induction xs arbitrary: p)
  case (Cons x xs)
  from Cons.IH [OF conjunct1 [OF op_leases_below [OF Cons.prems, of x]]] show ?case by (auto split: prod.splits)
qed simp

lemma leases_below_new: "leases_below pool_new"
  by (simp add: leases_below_def used_def pool_new_def key_pool_of_def key_pool_new_def)

section \<open>Exclusive leases\<close>

lemma issued_holds:
  assumes "pool_apply x p = (p', Some L)" "leases_below p"
  shows "holders (sl_id L) (sl_key L) p' = [(sl_session L, sl_thread L)] \<and> sl_id L < sp_next_lease p'"
proof -
  have fresh: "holders (sp_next_lease p) k p = []" for k
    using assms(2) used_holders unfolding leases_below_def by blast
  have idle: "lease_first_idle k t kp p = (p', Some L) \<Longrightarrow> kp_entries kp = kp_entries (key_pool_of k p) \<Longrightarrow> ?thesis" for k t kp
    using fresh lease_first_idle_holders [of k t kp p p' "Some L"] by auto
  show ?thesis
  proof (cases x)
    case (Acquire k t)
    then show ?thesis using assms(1) idle [of k t "(key_pool_of k p)\<lparr>kp_activated := True\<rparr>"] by (simp add: acquire_idle_def)
  next
    case (OpenCheck k t)
    then show ?thesis using assms(1) idle [of k t "key_pool_of k p"]
      by (auto simp: open_check_def Let_def split: if_splits prod.splits option.splits)
  next
    case (OpenDone k t r)
    then show ?thesis using assms(1) fresh [of k]
      by (auto simp: open_done_def Let_def lease_of_def holders_def holds_lease_def thread_of_def filter_empty_conv
          split: gate.splits sum.splits)
  qed (use assms(1) in auto)
qed

lemma run_keeps:
  assumes "holders (sl_id L) (sl_key L) p = [(sl_session L, sl_thread L)]" "sl_id L < sp_next_lease p" "\<forall>y\<in>set ys. \<not> ends_lease L y"
  shows "holders (sl_id L) (sl_key L) (fst (pool_run ys p)) = [(sl_session L, sl_thread L)]
    \<and> sl_id L \<notin> sl_id ` set (snd (pool_run ys p))"
  using assms
proof (induction ys arbitrary: p)
  case (Cons y ys)
  have k: "keeps (sl_id L) (sl_key L) p (pool_apply y p)" using Cons.prems by (intro op_keeps) auto
  obtain p1 i where a: "pool_apply y p = (p1, i)" by fastforce
  have "holders (sl_id L) (sl_key L) p1 = [(sl_session L, sl_thread L)]" "sl_id L < sp_next_lease p1"
    and i: "\<forall>L'. i = Some L' \<longrightarrow> sl_id L' \<noteq> sl_id L"
    using k a Cons.prems by (auto simp: keeps_def)
  with Cons.IH [of p1] Cons.prems(3) show ?case using a i by (auto split: prod.splits option.splits)
qed simp

text \<open>
  C15. A lease is exclusive: from the moment it is issued, through any sequence of operations of any thread
  and of the warm-up, exactly one entry of the pool has the lease, with its session and its thread, and no
  other lease has its number, until its own thread releases it, it is invalidated or its session is
  marked as recovering.
\<close>

theorem lease_is_exclusive:
  assumes "pool_apply x (fst (pool_run before pool_new)) = (p, Some L)" "\<forall>y\<in>set after. \<not> ends_lease L y"
  shows "holders (sl_id L) (sl_key L) (fst (pool_run after p)) = [(sl_session L, sl_thread L)]
    \<and> sl_id L \<notin> sl_id ` set (snd (pool_run after p))"
  using run_keeps [OF conjunct1 conjunct2 assms(2), OF issued_holds issued_holds] assms(1) run_leases_below [OF leases_below_new] by blast

text \<open>An ended lease stays ended.\<close>

lemma ended_keeps:
  "l < sp_next_lease p \<Longrightarrow> \<not> used l k p \<Longrightarrow> \<not> used l k (fst (pool_run ys p)) \<and> l < sp_next_lease (fst (pool_run ys p))"
proof (induction ys arbitrary: p)
  case (Cons y ys)
  obtain p1 i where a: "pool_apply y p = (p1, i)" by fastforce
  have "\<not> used l k p1 \<and> l < sp_next_lease p1"
    using op_makes [of p y, unfolded makes_def a fst_conv snd_conv] Cons.prems by (cases i) (force, force)
  with Cons.IH [of p1] show ?case using a by (auto split: prod.splits)
qed simp

lemma unused_unknown:
  "\<not> used (sl_id L) (sl_key L) p \<Longrightarrow> release L p = (p, Inl UnknownLease) \<and> invalidate L p = (p, Inl UnknownLease) \<and> mark_turn s L p = (p, Inl UnknownLease)"
proof (cases "map_of (sp_keys p) (sl_key L)")
  case (Some kp)
  assume "\<not> used (sl_id L) (sl_key L) p"
  then have n: "\<forall>e\<in>set (kp_entries kp). \<not> holds_lease (sl_id L) e" using Some by (auto simp: used_def key_pool_known)
  then have "split_first (holds_lease (sl_id L)) (kp_entries kp) = None" by (simp add: split_first_None)
  moreover have "filter (\<lambda>e. \<not> holds_lease (sl_id L) e) (kp_entries kp) = kp_entries kp" using n by (simp add: filter_id_conv)
  ultimately show ?thesis using Some by (simp add: release_def invalidate_def mark_turn_def)
qed (simp add: release_def invalidate_def mark_turn_def)

lemma release_Inr:
  assumes "release L p = (p', Inr ())" "holders (sl_id L) (sl_key L) p = [(sl_session L, sl_thread L)]"
  shows "\<not> used (sl_id L) (sl_key L) p' \<and> sp_next_lease p' = sp_next_lease p"
proof -
  obtain kp us e vs where kp: "map_of (sp_keys p) (sl_key L) = Some kp" "split_first (holds_lease (sl_id L)) (kp_entries kp) = Some (us, e, vs)"
    and p': "p' = set_key_pool (sl_key L) (kp\<lparr>kp_entries := us @ (if pe_generation e = kp_generation kp then [e\<lparr>pe_state := Idle\<rparr>] else []) @ vs\<rparr>) p"
    using assms(1) by (auto simp: release_def split: option.splits prod.splits if_splits)
  note s = split_first_Some [OF kp(2)]
  have "length (filter (holds_lease (sl_id L)) (us @ e # vs)) = 1"
    using assms(2) s key_pool_known [OF kp(1)] by (metis holders_def length_map list.size(3) length_Cons One_nat_def)
  then have "\<forall>v\<in>set vs. \<not> holds_lease (sl_id L) v" using s by (auto simp: filter_empty_conv)
  then show ?thesis using s by (auto simp: p')
qed


section \<open>What changes in a key\<close>

text \<open>
  The entries and the gate of a key after an operation, as far as the warm-up and the generations are
  concerned: nothing is added and the gate stays, except by the ends of the openings and by the gate's own steps.
\<close>

definition warm_ok :: "key_pool \<Rightarrow> bool" where
  "warm_ok kp \<longleftrightarrow> (\<forall>g. kp_gate kp = WarmOpens g \<longrightarrow> length (kp_entries kp) < warm_target_per_key)"

definition idle_current :: "key_pool \<Rightarrow> bool" where
  "idle_current kp \<longleftrightarrow> (\<forall>e\<in>set (kp_entries kp). is_idle e \<longrightarrow> pe_generation e = kp_generation kp)
     \<and> (\<forall>g. kp_gate kp = WarmOpens g \<longrightarrow> g = kp_generation kp)"

definition calmer :: "key_pool \<Rightarrow> key_pool \<Rightarrow> bool" where
  "calmer kp kp' \<longleftrightarrow> length (kp_entries kp') \<le> length (kp_entries kp) \<and> kp_gate kp' = kp_gate kp \<and> kp_generation kp' = kp_generation kp
     \<and> (\<forall>e\<in>set (kp_entries kp'). is_idle e \<longrightarrow> e \<in> set (kp_entries kp) \<or> pe_generation e = kp_generation kp)"

lemma calmer_refl [simp]: "calmer kp kp"
  by (simp add: calmer_def)

lemma calmer_ok: "calmer kp kp' \<Longrightarrow> warm_ok kp \<Longrightarrow> warm_ok kp'" "calmer kp kp' \<Longrightarrow> idle_current kp \<Longrightarrow> idle_current kp'"
  by (auto simp: calmer_def warm_ok_def idle_current_def)

lemma not_idle [simp]: "\<not> is_idle (lease_entry l t e)" "is_idle (set_turn s e) = is_idle e" "is_idle (e\<lparr>pe_state := Idle\<rparr>)"
  "\<not> is_idle (e\<lparr>pe_state := Recovering\<rparr>)" "\<not> is_idle \<lparr>pe_session = i, pe_state = Leased l t n, pe_generation = g, pe_capabilities = c\<rparr>"
  by (auto simp: is_idle_def lease_entry_def set_turn_def split: entry_state.splits)

lemma set_turn_idle: "is_idle e \<Longrightarrow> set_turn s e = e"
  by (simp add: is_idle_def set_turn_def)

lemma calmer_lease_first_idle:
  "kp_entries kp = kp_entries (key_pool_of k p) \<Longrightarrow> kp_gate kp = kp_gate (key_pool_of k p) \<Longrightarrow> kp_generation kp = kp_generation (key_pool_of k p)
    \<Longrightarrow> calmer (key_pool_of k' p) (key_pool_of k' (fst (lease_first_idle k t kp p)))"
  by (auto simp: lease_first_idle_def calmer_def Let_def split: option.splits prod.splits dest!: split_first_Some)

lemma calmer_mark_turn: "calmer (key_pool_of k p) (key_pool_of k (fst (mark_turn s lease p)))"
  by (auto simp: mark_turn_def calmer_def key_pool_known set_turn_idle split: option.splits prod.splits dest!: split_first_Some)

lemma calmer_release: "calmer (key_pool_of k p) (key_pool_of k (fst (release lease p)))"
  by (auto simp: release_def calmer_def key_pool_known split: option.splits prod.splits dest!: split_first_Some)

lemma calmer_invalidate: "calmer (key_pool_of k p) (key_pool_of k (fst (invalidate lease p)))"
  by (auto simp: invalidate_def calmer_def key_pool_known Let_def split: option.splits)

lemma calmer_resume: "calmer (key_pool_of k p) (key_pool_of k (fst (resume_recovering k' s r p)))"
  by (auto simp: resume_recovering_def calmer_def key_pool_known recovering_as_def intro: le_trans [OF length_filter_le]
      split: option.splits sum.splits)

lemma calmer_mark_recovering: "calmer (key_pool_of k p) (key_pool_of k (mark_recovering k' s p))"
  by (auto simp: mark_recovering_def key_pool_on calmer_def split: if_splits)

lemma calmer_acquire: "calmer (key_pool_of k p) (key_pool_of k (fst (acquire_idle k' t p)))"
  by (simp add: acquire_idle_def calmer_lease_first_idle)

lemma calmer_flags:
  "calmer (key_pool_of k p) (key_pool_of k (prewarm k' p))" "calmer (key_pool_of k p) (key_pool_of k (warm_begin k' p))"
  "calmer (key_pool_of k p) (key_pool_of k (warm_end k' p))"
  by (simp_all add: prewarm_def warm_begin_def warm_end_def key_pool_on calmer_def)

fun refreshes :: "pool_op \<Rightarrow> bool" where
  "refreshes (RefreshKey k) = True"
| "refreshes RefreshAll = True"
| "refreshes x = False"

lemma kp_new_ok [simp]: "warm_ok key_pool_new" "idle_current key_pool_new"
  by (simp_all add: warm_ok_def idle_current_def key_pool_new_def)

lemma refreshed_ok: "warm_ok kp \<Longrightarrow> warm_ok (refreshed kp)" "\<forall>g. kp_gate kp \<noteq> WarmOpens g \<Longrightarrow> idle_current (refreshed kp)"
  by (auto simp: warm_ok_def idle_current_def refreshed_def intro: le_less_trans [OF length_filter_le])

text \<open>The steps that are not calm: the gate's and the ends of openings.\<close>

lemma gate_steps:
  "warm_ok (key_pool_of k p) \<Longrightarrow> warm_ok (key_pool_of k (open_snapshot k' p))" "idle_current (key_pool_of k p) \<Longrightarrow> idle_current (key_pool_of k (open_snapshot k' p))"
  "warm_ok (key_pool_of k p) \<Longrightarrow> warm_ok (key_pool_of k (warm_check k' p))" "idle_current (key_pool_of k p) \<Longrightarrow> idle_current (key_pool_of k (warm_check k' p))"
  "warm_ok (key_pool_of k p) \<Longrightarrow> warm_ok (key_pool_of k (warm_done k' r p))" "idle_current (key_pool_of k p) \<Longrightarrow> idle_current (key_pool_of k (warm_done k' r p))"
  "warm_ok (key_pool_of k p) \<Longrightarrow> warm_ok (key_pool_of k (fst (open_done k' t o' p)))"
  "idle_current (key_pool_of k p) \<Longrightarrow> idle_current (key_pool_of k (fst (open_done k' t o' p)))"
  by (auto simp: warm_ok_def idle_current_def open_snapshot_def warm_check_def warm_done_def open_done_def key_pool_on idle_deficit_def Let_def
      split: if_splits gate.splits option.splits sum.splits)

lemma calmer_open_check:
  "warm_ok (key_pool_of k p) \<Longrightarrow> warm_ok (key_pool_of k (fst (open_check k' t p)))"
  "idle_current (key_pool_of k p) \<Longrightarrow> idle_current (key_pool_of k (fst (open_check k' t p)))"
proof -
  obtain p' r where a: "lease_first_idle k' t (key_pool_of k' p) p = (p', r)" by fastforce
  have c: "calmer (key_pool_of k p) (key_pool_of k p')" using calmer_lease_first_idle [of "key_pool_of k' p" k' p k t] a by simp
  have n: "r = None \<Longrightarrow> p' = set_key_pool k' (key_pool_of k' p) p" using a
    by (auto simp: lease_first_idle_def Let_def split: option.splits prod.splits)
  show "warm_ok (key_pool_of k p) \<Longrightarrow> warm_ok (key_pool_of k (fst (open_check k' t p)))"
    using calmer_ok(1) [OF c] a n by (cases r) (auto simp: open_check_def Let_def warm_ok_def)
  show "idle_current (key_pool_of k p) \<Longrightarrow> idle_current (key_pool_of k (fst (open_check k' t p)))"
    using calmer_ok(2) [OF c] a n by (cases r) (auto simp: open_check_def Let_def idle_current_def)
qed

lemma calm_ops:
  "\<not> refreshes x \<Longrightarrow> warm_ok (key_pool_of k p) \<Longrightarrow> warm_ok (key_pool_of k (fst (pool_apply x p)))"
  "\<not> refreshes x \<Longrightarrow> idle_current (key_pool_of k p) \<Longrightarrow> idle_current (key_pool_of k (fst (pool_apply x p)))"
proof -
  have calm: "calmer (key_pool_of k p) (key_pool_of k (fst (pool_apply x p)))"
    if "\<not> refreshes x" "case x of OpenCheck _ _ \<Rightarrow> False | OpenSnapshot _ \<Rightarrow> False | WarmCheck _ \<Rightarrow> False | WarmDone _ _ \<Rightarrow> False | OpenDone _ _ _ \<Rightarrow> False | _ \<Rightarrow> True"
    using that
    by (cases x) (auto simp: calmer_acquire calmer_flags calmer_mark_turn calmer_release calmer_invalidate calmer_resume calmer_mark_recovering)
  show "\<not> refreshes x \<Longrightarrow> warm_ok (key_pool_of k p) \<Longrightarrow> warm_ok (key_pool_of k (fst (pool_apply x p)))"
    using calm calmer_ok(1) gate_steps calmer_open_check by (cases x) auto
  show "\<not> refreshes x \<Longrightarrow> idle_current (key_pool_of k p) \<Longrightarrow> idle_current (key_pool_of k (fst (pool_apply x p)))"
    using calm calmer_ok(2) gate_steps calmer_open_check by (cases x) auto
qed

lemma refresh_ops:
  assumes "refreshes x"
  shows "warm_ok (key_pool_of k p) \<Longrightarrow> warm_ok (key_pool_of k (fst (pool_apply x p)))"
    and "\<forall>g. kp_gate (key_pool_of k p) \<noteq> WarmOpens g \<Longrightarrow> idle_current (key_pool_of k p) \<Longrightarrow> idle_current (key_pool_of k (fst (pool_apply x p)))"
  using assms by (cases x; auto simp: refresh_key_def key_pool_on key_pool_refresh_all refreshed_ok)+

section \<open>The warm-up\<close>

lemma run_warm_ok: "warm_ok (key_pool_of k p) \<Longrightarrow> warm_ok (key_pool_of k (fst (pool_run xs p)))"
proof (induction xs arbitrary: p)
  case (Cons x xs)
  have "warm_ok (key_pool_of k (fst (pool_apply x p)))"
    using calm_ops(1) refresh_ops(1) Cons.prems by (cases "refreshes x") blast+
  from Cons.IH [OF this] show ?case by (auto split: prod.splits)
qed simp

lemma pool_new_key [simp]: "key_pool_of k pool_new = key_pool_new"
  by (simp add: key_pool_of_def pool_new_def)

lemma total_key: "total_for_key k p = length (kp_entries (key_pool_of k p))"
  by (simp add: total_for_key_def key_pool_of_def key_pool_new_def split: option.split)

text \<open>
  However acquisitions, refreshes and the warm-up interleave, a session that the warm-up adds never takes a
  key over the target of four sessions, leased ones included.
\<close>

theorem warm_up_keeps_target:
  "total_for_key k (warm_done k' opened (fst (pool_run ops pool_new))) \<le> max (total_for_key k (fst (pool_run ops pool_new))) warm_target_per_key"
proof -
  let ?p = "fst (pool_run ops pool_new)"
  have "warm_ok (key_pool_of k ?p)" by (rule run_warm_ok) simp
  then show ?thesis
    by (auto simp: total_key warm_done_def key_pool_on warm_ok_def split: gate.splits option.splits)
qed

text \<open>A refresh that no warm-up opening overlaps.\<close>

definition warm_opening :: "key_pool \<Rightarrow> bool" where
  "warm_opening kp \<longleftrightarrow> (case kp_gate kp of WarmOpens g \<Rightarrow> True | _ \<Rightarrow> False)"

fun calm_run :: "pool_op list \<Rightarrow> pool \<Rightarrow> bool" where
  "calm_run [] p = True"
| "calm_run (x # xs) p = ((refreshes x \<longrightarrow> list_all (\<lambda>(k, kp). \<not> warm_opening kp) (sp_keys p)) \<and> calm_run xs (fst (pool_apply x p)))"

lemma no_opening: "list_all (\<lambda>(k, kp). \<not> warm_opening kp) (sp_keys p) \<Longrightarrow> kp_gate (key_pool_of k p) \<noteq> WarmOpens g"
  by (auto simp: key_pool_of_def key_pool_new_def warm_opening_def list_all_iff dest!: map_of_SomeD split: option.split)

lemma run_idle_current: "calm_run xs p \<Longrightarrow> idle_current (key_pool_of k p) \<Longrightarrow> idle_current (key_pool_of k (fst (pool_run xs p)))"
proof (induction xs arbitrary: p)
  case (Cons x xs)
  have "idle_current (key_pool_of k (fst (pool_apply x p)))"
  proof (cases "refreshes x")
    case True
    then show ?thesis using Cons.prems no_opening by (intro refresh_ops(2)) auto
  next
    case False
    then show ?thesis using Cons.prems calm_ops(2) by blast
  qed
  with Cons.IH [OF _ this] Cons.prems show ?case by (auto split: prod.splits)
qed simp

text \<open>
  A thread that takes over an idle session gets one that was opened under the present configuration: the
  fresh lease is never stale, whatever was released, resumed and refreshed before, as long as no refresh came
  in the middle of an opening by the warm-up.
\<close>

theorem acquired_session_is_current:
  assumes "calm_run ops pool_new" "acquire_idle k t (fst (pool_run ops pool_new)) = (p', Some L)"
  shows "\<not> is_lease_stale L p'"
proof -
  let ?p = "fst (pool_run ops pool_new)" and ?l = "sp_next_lease (fst (pool_run ops pool_new))"
  have cur: "idle_current (key_pool_of k ?p)" by (rule run_idle_current [OF assms(1)]) simp
  have fresh: "\<not> holds_lease ?l e" if "e \<in> set (kp_entries (key_pool_of k ?p))" for e
    using run_leases_below [OF leases_below_new, of ops] that unfolding leases_below_def used_def by blast
  obtain us e vs where f: "split_first is_idle (kp_entries (key_pool_of k ?p)) = Some (us, e, vs)"
    using assms(2) by (auto simp: acquire_idle_def lease_first_idle_def split: option.splits prod.splits)
  note s = split_first_Some [OF f]
  have p': "map_of (sp_keys p') k = Some ((key_pool_of k ?p)\<lparr>kp_activated := True, kp_entries := us @ lease_entry ?l t e # vs\<rparr>)"
    and L: "sl_id L = ?l" "sl_key L = k"
    using assms(2) f by (auto simp: acquire_idle_def lease_first_idle_def set_key_pool_def update_conv' lease_of_def Let_def)
  have "pe_generation e' = kp_generation (key_pool_of k ?p)" if "find (holds_lease ?l) (us @ lease_entry ?l t e # vs) = Some e'" for e'
  proof -
    have "e' \<in> set (us @ lease_entry ?l t e # vs)" "holds_lease ?l e'" using find_SomeD [OF that] by auto
    moreover have "e' \<notin> set us" "e' \<notin> set vs" using fresh [of e'] s calculation(2) by auto
    ultimately have "e' = lease_entry ?l t e" by simp
    then show ?thesis using cur s by (auto simp: idle_current_def lease_entry_def)
  qed
  then show ?thesis using p' L by (auto simp: is_lease_stale_def split: option.splits)
qed

section \<open>What the proofs found\<close>

definition some_key :: pool_key where
  "some_key = \<lparr>pk_project = ''/p'', pk_agent = ''a'', pk_profile = ''d''\<rparr>"

text \<open>
  A refresh in the middle of an opening by the warm-up: the session that was opened under the old
  configuration becomes idle all the same, and the next thread is given it.
\<close>

definition refreshed_warm_up :: "pool_op list" where
  "refreshed_warm_up = [Prewarm some_key, WarmBegin some_key, WarmCheck some_key, RefreshKey some_key, WarmDone some_key (Some (''s'', None))]"

theorem stale_warm_session_is_leased:
  "case acquire_idle some_key ''A'' (fst (pool_run refreshed_warm_up pool_new)) of
     (p, Some L) \<Rightarrow> sl_session L = ''s'' \<and> is_lease_stale L p
   | _ \<Rightarrow> False"
  by (simp add: refreshed_warm_up_def prewarm_def warm_begin_def warm_check_def warm_done_def refresh_key_def refreshed_def on_key_pool_def
      idle_deficit_def warm_target_per_key_def acquire_idle_def lease_first_idle_def lease_entry_def lease_of_def key_pool_new_def
      pool_new_def key_pool_of_def set_key_pool_def is_lease_stale_def holds_lease_def is_idle_def Let_def)

text \<open>
  A session is released with its saved id still known to its thread, another thread takes it over, and the
  first thread opens it again by the saved id: both lease the same session.
\<close>

definition open_ops :: "string \<Rightarrow> string option \<Rightarrow> pool_op list" where
  "open_ops t saved = [OpenCheck some_key t, OpenSnapshot some_key, OpenDone some_key t
     (open_session saved (\<lambda>i. Some (Inr i)) (Some (Inr (''s'', None))))]"

definition first_lease :: session_lease where
  "first_lease = \<lparr>sl_id = 1, sl_key = some_key, sl_session = ''s'', sl_thread = ''A'', sl_resumed = False, sl_capabilities = None\<rparr>"

theorem saved_session_is_leased_twice:
  "let run = pool_run (open_ops ''A'' None @ [Release first_lease, Acquire some_key ''B''] @ open_ops ''A'' (Some ''s'')) pool_new
   in map (\<lambda>L. (sl_session L, sl_thread L)) (snd run) = [(''s'', ''A''), (''s'', ''B''), (''s'', ''A'')]
      \<and> holders 2 some_key (fst run) = [(''s'', ''B'')] \<and> holders 3 some_key (fst run) = [(''s'', ''A'')]"
  by (simp add: open_ops_def open_session_def open_check_def open_snapshot_def open_done_def acquire_idle_def release_def
      lease_first_idle_def lease_entry_def lease_of_def first_lease_def key_pool_new_def pool_new_def key_pool_of_def set_key_pool_def
      holders_def holds_lease_def owned_by_def turn_of_def thread_of_def is_idle_def Let_def)

section \<open>Witnesses\<close>

definition opened_pool :: pool where
  "opened_pool = fst (pool_run (open_ops ''A'' None) pool_new)"

lemma opened: "pool_apply (OpenDone some_key ''A'' (Inr (''s'', None, False)))
    (fst (pool_run [OpenCheck some_key ''A'', OpenSnapshot some_key] pool_new)) = (opened_pool, Some first_lease)"
  by (simp add: opened_pool_def open_ops_def open_session_def open_check_def open_snapshot_def open_done_def lease_first_idle_def
      lease_of_def first_lease_def key_pool_new_def pool_new_def key_pool_of_def set_key_pool_def Let_def)

theorem lease_is_exclusive_witness:
  "holders 1 some_key (fst (pool_run [Acquire some_key ''B'', RefreshAll] opened_pool)) = [(''s'', ''A'')]"
proof -
  have "\<forall>y\<in>set [Acquire some_key ''B'', RefreshAll]. \<not> ends_lease first_lease y" by (simp add: ends_lease_def)
  from lease_is_exclusive [OF opened this] show ?thesis by (simp add: first_lease_def)
qed


theorem acquired_session_is_current_witness:
  "\<exists>p' L. acquire_idle some_key ''B'' (fst (pool_run (open_ops ''A'' None @ [Release first_lease]) pool_new)) = (p', Some L)
     \<and> sl_session L = ''s'' \<and> \<not> is_lease_stale L p'"
proof -
  let ?ops = "open_ops ''A'' None @ [Release first_lease]"
  let ?r = "acquire_idle some_key ''B'' (fst (pool_run ?ops pool_new))"
  have calm: "calm_run ?ops pool_new" by code_simp
  have "map_option sl_session (snd ?r) = Some ''s''" by code_simp
  then obtain L where L: "snd ?r = Some L" "sl_session L = ''s''" by auto
  have e: "?r = (fst ?r, Some L)" using L(1) by (metis prod.collapse)
  from acquired_session_is_current [OF calm e] L e show ?thesis by blast
qed

end
