(* ===== verification/Dispatcher.thy ===== *)
theory Dispatcher
  imports QueueLog
begin

text \<open>
  How the gateway empties the prompt queue of a session: \<open>spawn_queue_dispatcher\<close> of
  \<open>acpx-core/src/router.rs\<close> with the calls it shares a session with.  A mutation of the queue spawns a
  task; the first task becomes the dispatcher of the session, takes the reservation that ordinary prompts
  take too, claims the first item, sends it as a prompt and records how it ended.  Every section between
  two suspensions of the code is one step, so any interleaving of the tasks is a list of steps.  What the
  backend and the file system answer are arguments of the steps.
\<close>

section \<open>State\<close>

text \<open>
  Where the dispatcher of the session is: waiting for the reservation, holding it, past the look at
  \<open>in_flight\<close>, with a claimed item, while the prompt runs, after its answer or its failure, asleep before
  the next try, or out of its loop but still registered as active.
\<close>

datatype worker =
  Absent | Waiting | Reserved | Claiming | Claimed queue_item | Sending queue_item
  | Answered queue_item | Failing queue_item | BackingOff | Leaving

text \<open>The calls that take the reservation, and who holds it; a call has begun once its session is in flight.\<close>

datatype reserved_call = PromptCall | LifecycleCall

datatype holder = Unreserved | ByWorker | ByCall reserved_call bool

text \<open>
  The record of the queue, the set \<open>queue_active\<close> restricted to this session, the dispatcher and whether
  its tenant owns the session, the tasks that were spawned but have not run yet, the reservation of the
  owner and the flag \<open>in_flight\<close> of the session.
\<close>

record dispatch =
  dq_log :: "queue_record list"
  dq_active :: bool
  dq_worker :: worker
  dq_own :: bool
  dq_spawned :: "bool list"
  dq_reservation :: holder
  dq_in_flight :: bool

definition dispatch_new :: "queue_record list \<Rightarrow> dispatch" where
  "dispatch_new log =
     \<lparr>dq_log = log, dq_active = False, dq_worker = Absent, dq_own = True, dq_spawned = [],
      dq_reservation = Unreserved, dq_in_flight = False\<rparr>"

text \<open>What a client can observe: a prompt or another reserved call reaches the backend.\<close>

datatype dispatch_event = QueuedPrompt queue_item | DirectCall reserved_call

section \<open>Requests on the queue\<close>

definition spawn_queue_dispatcher :: "bool \<Rightarrow> dispatch \<Rightarrow> dispatch" where
  "spawn_queue_dispatcher own d = d\<lparr>dq_spawned := dq_spawned d @ [own]\<rparr>"

text \<open>\<open>session/queue\<close> and \<open>session/steer\<close>, which do not ask whose session it is.\<close>

definition queue_mutation :: "bool \<Rightarrow> mutation_params \<Rightarrow> dispatch \<Rightarrow> dispatch" where
  "queue_mutation own p d =
     (let d' = d\<lparr>dq_log := dq_log d @ [snd (snd (snd (mutate_plan p (replay_records (dq_log d)))))]\<rparr>
      in if mp_operation p \<in> {QEnqueue, QSendNow, QResume} then spawn_queue_dispatcher own d' else d')"

text \<open>\<open>acpx/sessions/queue/subscribe\<close>.\<close>

definition queue_subscription :: "bool \<Rightarrow> dispatch \<Rightarrow> dispatch" where
  "queue_subscription own d = spawn_queue_dispatcher own d"

section \<open>The dispatcher\<close>

text \<open>A spawned task runs: it becomes the dispatcher unless the session has one.\<close>

definition task_starts :: "bool \<Rightarrow> dispatch \<Rightarrow> dispatch option" where
  "task_starts own d =
     (if own \<notin> set (dq_spawned d) then None
      else let d' = d\<lparr>dq_spawned := remove1 own (dq_spawned d)\<rparr>
        in Some (if dq_active d' then d' else d'\<lparr>dq_active := True, dq_worker := Waiting, dq_own := own\<rparr>))"

text \<open>The reservation belongs to a tenant and a session, so only the owner's dispatcher competes for this one.\<close>

definition worker_reserves :: "dispatch \<Rightarrow> dispatch option" where
  "worker_reserves d =
     (if dq_worker d \<noteq> Waiting then None
      else if \<not> dq_own d then Some (d\<lparr>dq_worker := Reserved\<rparr>)
      else if dq_reservation d = Unreserved then Some (d\<lparr>dq_worker := Reserved, dq_reservation := ByWorker\<rparr>)
      else None)"

definition worker_frees :: "dispatch \<Rightarrow> dispatch" where
  "worker_frees d = (if dq_own d then d\<lparr>dq_reservation := Unreserved\<rparr> else d)"

text \<open>\<open>session_is_in_flight\<close> finds nothing for a tenant that does not own the session.\<close>

definition worker_checks :: "dispatch \<Rightarrow> dispatch option" where
  "worker_checks d =
     (if dq_worker d \<noteq> Reserved then None
      else if dq_own d \<and> dq_in_flight d then Some (worker_frees (d\<lparr>dq_worker := Leaving\<rparr>))
      else Some (d\<lparr>dq_worker := Claiming\<rparr>))"

text \<open>\<open>take_next\<close>, which may fail on the file.\<close>

definition worker_claims :: "bool \<Rightarrow> dispatch \<Rightarrow> dispatch option" where
  "worker_claims ok d =
     (if dq_worker d \<noteq> Claiming then None
      else case (if ok then take_next_plan (replay_records (dq_log d)) else None) of
          None \<Rightarrow> Some (worker_frees (d\<lparr>dq_worker := Leaving\<rparr>))
        | Some (item, r) \<Rightarrow> Some (d\<lparr>dq_log := dq_log d @ [r], dq_worker := Claimed item\<rparr>))"

text \<open>
  The prompt of the item enters \<open>dispatch_proxied_shared_reserved\<close>: the session is resolved for the tenant
  of the dispatcher, its backend runs and there is capacity, or the call fails before it is in flight.
\<close>

definition worker_begins :: "bool \<Rightarrow> dispatch \<Rightarrow> (dispatch \<times> dispatch_event option) option" where
  "worker_begins found d =
     (case dq_worker d of
        Claimed item \<Rightarrow>
          Some (if found \<and> dq_own d
            then (d\<lparr>dq_worker := Sending item, dq_in_flight := True\<rparr>, Some (QueuedPrompt item))
            else (d\<lparr>dq_worker := Failing item\<rparr>, None))
      | _ \<Rightarrow> None)"

text \<open>The end of the call: the flag is cleared and a task is spawned, whatever the outcome.\<close>

definition worker_answered :: "bool \<Rightarrow> dispatch \<Rightarrow> dispatch option" where
  "worker_answered ok d =
     (case dq_worker d of
        Sending item \<Rightarrow>
          Some (spawn_queue_dispatcher (dq_own d)
            (d\<lparr>dq_worker := (if ok then Answered item else Failing item), dq_in_flight := False\<rparr>))
      | _ \<Rightarrow> None)"

text \<open>\<open>complete\<close> and the end of the turn of the loop, which gives the reservation back.\<close>

definition worker_completes :: "bool \<Rightarrow> dispatch \<Rightarrow> dispatch option" where
  "worker_completes ok d =
     (case dq_worker d of
        Answered item \<Rightarrow>
          Some (worker_frees (d\<lparr>dq_worker := Waiting,
            dq_log := (if ok then dq_log d @ [finish_record RComplete item] else dq_log d)\<rparr>))
      | _ \<Rightarrow> None)"

text \<open>\<open>release\<close>; the pause before the next try still holds the reservation.\<close>

definition worker_releases :: "bool \<Rightarrow> dispatch \<Rightarrow> dispatch option" where
  "worker_releases ok d =
     (case dq_worker d of
        Failing item \<Rightarrow>
          Some (d\<lparr>dq_worker := BackingOff,
            dq_log := (if ok then dq_log d @ [finish_record RRelease item] else dq_log d)\<rparr>)
      | _ \<Rightarrow> None)"

definition worker_retries :: "dispatch \<Rightarrow> dispatch option" where
  "worker_retries d = (if dq_worker d = BackingOff then Some (worker_frees (d\<lparr>dq_worker := Waiting\<rparr>)) else None)"

text \<open>After the loop the session is removed from the active ones.\<close>

definition worker_leaves :: "dispatch \<Rightarrow> dispatch option" where
  "worker_leaves d = (if dq_worker d = Leaving then Some (d\<lparr>dq_worker := Absent, dq_active := False\<rparr>) else None)"

section \<open>Calls of the owner\<close>

text \<open>\<open>session/prompt\<close>, and \<open>session/close\<close>, \<open>session/resume\<close> and \<open>session/load\<close>: the reservation first.\<close>

definition call_reserves :: "reserved_call \<Rightarrow> dispatch \<Rightarrow> dispatch option" where
  "call_reserves c d = (if dq_reservation d = Unreserved then Some (d\<lparr>dq_reservation := ByCall c False\<rparr>) else None)"

definition call_begins :: "bool \<Rightarrow> dispatch \<Rightarrow> (dispatch \<times> dispatch_event option) option" where
  "call_begins found d =
     (case dq_reservation d of
        ByCall c False \<Rightarrow>
          Some (if found then (d\<lparr>dq_reservation := ByCall c True, dq_in_flight := True\<rparr>, Some (DirectCall c))
            else (d\<lparr>dq_reservation := Unreserved\<rparr>, None))
      | _ \<Rightarrow> None)"

text \<open>Only the end of a prompt starts the dispatcher again.\<close>

definition call_ends :: "dispatch \<Rightarrow> dispatch option" where
  "call_ends d =
     (case dq_reservation d of
        ByCall c True \<Rightarrow>
          (let d' = d\<lparr>dq_reservation := Unreserved, dq_in_flight := False\<rparr>
           in Some (if c = PromptCall then spawn_queue_dispatcher True d' else d'))
      | _ \<Rightarrow> None)"

text \<open>The other calls that are passed on, such as \<open>session/set_mode\<close>, take no reservation.\<close>

definition plain_begins :: "dispatch \<Rightarrow> dispatch" where
  "plain_begins d = d\<lparr>dq_in_flight := True\<rparr>"

definition plain_ends :: "dispatch \<Rightarrow> dispatch" where
  "plain_ends d = d\<lparr>dq_in_flight := False\<rparr>"

section \<open>Steps\<close>

datatype dispatch_op =
  Mutation bool mutation_params | Subscription bool | TaskStarts bool
  | WorkerReserves | WorkerChecks | WorkerClaims bool | WorkerBegins bool | WorkerAnswered bool
  | WorkerCompletes bool | WorkerReleases bool | WorkerRetries | WorkerLeaves
  | CallReserves reserved_call | CallBegins bool | CallEnds | PlainBegins | PlainEnds

definition silently :: "dispatch option \<Rightarrow> (dispatch \<times> dispatch_event option) option" where
  "silently = map_option (\<lambda>d. (d, None))"

text \<open>\<open>None\<close>: the step is not possible in this state.\<close>

fun dispatch_step :: "dispatch_op \<Rightarrow> dispatch \<Rightarrow> (dispatch \<times> dispatch_event option) option" where
  "dispatch_step (Mutation own p) d = Some (queue_mutation own p d, None)"
| "dispatch_step (Subscription own) d = Some (queue_subscription own d, None)"
| "dispatch_step (TaskStarts own) d = silently (task_starts own d)"
| "dispatch_step WorkerReserves d = silently (worker_reserves d)"
| "dispatch_step WorkerChecks d = silently (worker_checks d)"
| "dispatch_step (WorkerClaims ok) d = silently (worker_claims ok d)"
| "dispatch_step (WorkerBegins found) d = worker_begins found d"
| "dispatch_step (WorkerAnswered ok) d = silently (worker_answered ok d)"
| "dispatch_step (WorkerCompletes ok) d = silently (worker_completes ok d)"
| "dispatch_step (WorkerReleases ok) d = silently (worker_releases ok d)"
| "dispatch_step WorkerRetries d = silently (worker_retries d)"
| "dispatch_step WorkerLeaves d = silently (worker_leaves d)"
| "dispatch_step (CallReserves c) d = silently (call_reserves c d)"
| "dispatch_step (CallBegins found) d = call_begins found d"
| "dispatch_step CallEnds d = silently (call_ends d)"
| "dispatch_step PlainBegins d = Some (plain_begins d, None)"
| "dispatch_step PlainEnds d = Some (plain_ends d, None)"

fun dispatch_run :: "dispatch_op list \<Rightarrow> dispatch \<Rightarrow> (dispatch \<times> dispatch_event list) option" where
  "dispatch_run [] d = Some (d, [])"
| "dispatch_run (x # xs) d =
     (case dispatch_step x d of
        None \<Rightarrow> None
      | Some (d', event) \<Rightarrow>
          (case dispatch_run xs d' of
             None \<Rightarrow> None
           | Some (d'', events) \<Rightarrow> Some (d'', (case event of None \<Rightarrow> events | Some e \<Rightarrow> e # events))))"

end
