(* ===== verification/DispatchFacts.thy ===== *)
theory DispatchFacts
  imports Dispatcher
begin

text \<open>
  What the dispatcher of \<open>Dispatcher\<close> guarantees: turns of a session exclude each other, a queued prompt
  is not forgotten, and the queue is sent in order; and the runs on which it does forget one.
\<close>

section \<open>The dispatcher and its reservation\<close>

lemma spawned_simps [simp]:
  "dq_log (spawn_queue_dispatcher own d) = dq_log d" "dq_active (spawn_queue_dispatcher own d) = dq_active d"
  "dq_worker (spawn_queue_dispatcher own d) = dq_worker d" "dq_own (spawn_queue_dispatcher own d) = dq_own d"
  "dq_reservation (spawn_queue_dispatcher own d) = dq_reservation d" "dq_in_flight (spawn_queue_dispatcher own d) = dq_in_flight d"
  "dq_spawned (spawn_queue_dispatcher own d) = dq_spawned d @ [own]"
  by (simp_all add: spawn_queue_dispatcher_def)

definition wakes :: "mutation_params \<Rightarrow> bool" where
  "wakes p \<longleftrightarrow> mp_operation p \<in> {QEnqueue, QSendNow, QResume}"

lemma mutation_simps [simp]:
  "dq_log (queue_mutation own p d) = dq_log d @ [mutation_record p (replay_records (dq_log d))]"
  "dq_active (queue_mutation own p d) = dq_active d" "dq_worker (queue_mutation own p d) = dq_worker d"
  "dq_own (queue_mutation own p d) = dq_own d" "dq_reservation (queue_mutation own p d) = dq_reservation d"
  "dq_in_flight (queue_mutation own p d) = dq_in_flight d"
  "dq_spawned (queue_mutation own p d) = dq_spawned d @ (if wakes p then [own] else [])"
  by (simp_all add: queue_mutation_def mutation_record_def wakes_def Let_def)

lemma freed_simps [simp]:
  "dq_log (worker_frees d) = dq_log d" "dq_active (worker_frees d) = dq_active d" "dq_worker (worker_frees d) = dq_worker d"
  "dq_own (worker_frees d) = dq_own d" "dq_in_flight (worker_frees d) = dq_in_flight d" "dq_spawned (worker_frees d) = dq_spawned d"
  "dq_reservation (worker_frees d) = (if dq_own d then Unreserved else dq_reservation d)"
  by (simp_all add: worker_frees_def)

text \<open>When a step is possible and what it gives.\<close>

lemma silently_Some [simp]: "silently o' = Some (d', e) \<longleftrightarrow> o' = Some d' \<and> e = None"
  by (auto simp: silently_def)

lemma task_starts_Some:
  "task_starts own d = Some d' \<longleftrightarrow> own \<in> set (dq_spawned d) \<and>
     (dq_active d \<and> d' = d\<lparr>dq_spawned := remove1 own (dq_spawned d)\<rparr>
      \<or> \<not> dq_active d \<and> d' = d\<lparr>dq_spawned := remove1 own (dq_spawned d), dq_active := True, dq_worker := Waiting, dq_own := own\<rparr>)"
  by (auto simp: task_starts_def Let_def)

lemma worker_reserves_Some:
  "worker_reserves d = Some d' \<longleftrightarrow> dq_worker d = Waiting \<and>
     (\<not> dq_own d \<and> d' = d\<lparr>dq_worker := Reserved\<rparr>
      \<or> dq_own d \<and> dq_reservation d = Unreserved \<and> d' = d\<lparr>dq_worker := Reserved, dq_reservation := ByWorker\<rparr>)"
  by (auto simp: worker_reserves_def)

lemma worker_checks_Some:
  "worker_checks d = Some d' \<longleftrightarrow> dq_worker d = Reserved \<and>
     (dq_own d \<and> dq_in_flight d \<and> d' = worker_frees (d\<lparr>dq_worker := Leaving\<rparr>)
      \<or> \<not> (dq_own d \<and> dq_in_flight d) \<and> d' = d\<lparr>dq_worker := Claiming\<rparr>)"
  by (auto simp: worker_checks_def)

lemma worker_claims_Some:
  "worker_claims ok d = Some d' \<longleftrightarrow> dq_worker d = Claiming \<and>
     ((\<not> ok \<or> take_next_plan (replay_records (dq_log d)) = None) \<and> d' = worker_frees (d\<lparr>dq_worker := Leaving\<rparr>)
      \<or> ok \<and> (\<exists>item. take_next_plan (replay_records (dq_log d)) = Some (item, claim_record item)
           \<and> d' = d\<lparr>dq_log := dq_log d @ [claim_record item], dq_worker := Claimed item\<rparr>))"
  by (auto simp: worker_claims_def take_next_plan_def)

lemma worker_begins_Some:
  "worker_begins found d = Some (d', e) \<longleftrightarrow> (\<exists>item. dq_worker d = Claimed item \<and>
     (found \<and> dq_own d \<and> d' = d\<lparr>dq_worker := Sending item, dq_in_flight := True\<rparr> \<and> e = Some (QueuedPrompt item)
      \<or> \<not> (found \<and> dq_own d) \<and> d' = d\<lparr>dq_worker := Failing item\<rparr> \<and> e = None))"
  by (auto simp: worker_begins_def split: worker.splits)

lemma worker_answered_Some:
  "worker_answered ok d = Some d' \<longleftrightarrow> (\<exists>item. dq_worker d = Sending item \<and>
     (ok \<and> d' = spawn_queue_dispatcher (dq_own d) (d\<lparr>dq_worker := Answered item, dq_in_flight := False\<rparr>)
      \<or> \<not> ok \<and> d' = spawn_queue_dispatcher (dq_own d) (d\<lparr>dq_worker := Failing item, dq_in_flight := False\<rparr>)))"
  by (auto simp: worker_answered_def split: worker.splits)

lemma worker_completes_Some:
  "worker_completes ok d = Some d' \<longleftrightarrow> (\<exists>item. dq_worker d = Answered item \<and>
     (ok \<and> d' = worker_frees (d\<lparr>dq_worker := Waiting, dq_log := dq_log d @ [finish_record RComplete item]\<rparr>)
      \<or> \<not> ok \<and> d' = worker_frees (d\<lparr>dq_worker := Waiting\<rparr>)))"
  by (auto simp: worker_completes_def split: worker.splits)

lemma worker_releases_Some:
  "worker_releases ok d = Some d' \<longleftrightarrow> (\<exists>item. dq_worker d = Failing item \<and>
     (ok \<and> d' = d\<lparr>dq_worker := BackingOff, dq_log := dq_log d @ [finish_record RRelease item]\<rparr>
      \<or> \<not> ok \<and> d' = d\<lparr>dq_worker := BackingOff\<rparr>))"
  by (auto simp: worker_releases_def split: worker.splits)

lemma worker_retries_Some:
  "worker_retries d = Some d' \<longleftrightarrow> dq_worker d = BackingOff \<and> d' = worker_frees (d\<lparr>dq_worker := Waiting\<rparr>)"
  by (auto simp: worker_retries_def)

lemma worker_leaves_Some:
  "worker_leaves d = Some d' \<longleftrightarrow> dq_worker d = Leaving \<and> d' = d\<lparr>dq_worker := Absent, dq_active := False\<rparr>"
  by (auto simp: worker_leaves_def)

lemma call_reserves_Some:
  "call_reserves c d = Some d' \<longleftrightarrow> dq_reservation d = Unreserved \<and> d' = d\<lparr>dq_reservation := ByCall c False\<rparr>"
  by (auto simp: call_reserves_def)

lemma call_begins_Some:
  "call_begins found d = Some (d', e) \<longleftrightarrow> (\<exists>c. dq_reservation d = ByCall c False \<and>
     (found \<and> d' = d\<lparr>dq_reservation := ByCall c True, dq_in_flight := True\<rparr> \<and> e = Some (DirectCall c)
      \<or> \<not> found \<and> d' = d\<lparr>dq_reservation := Unreserved\<rparr> \<and> e = None))"
  by (auto simp: call_begins_def split: holder.splits bool.splits)

lemma call_ends_Some:
  "call_ends d = Some d' \<longleftrightarrow>
     dq_reservation d = ByCall PromptCall True \<and> d' = spawn_queue_dispatcher True (d\<lparr>dq_reservation := Unreserved, dq_in_flight := False\<rparr>)
     \<or> dq_reservation d = ByCall LifecycleCall True \<and> d' = d\<lparr>dq_reservation := Unreserved, dq_in_flight := False\<rparr>"
  by (cases "dq_reservation d") (auto simp: call_ends_def Let_def split: bool.splits intro: reserved_call.exhaust)

lemma request_steps_Some:
  "dispatch_step (Mutation own p) d = Some (d', e) \<longleftrightarrow> d' = queue_mutation own p d \<and> e = None"
  "dispatch_step (Subscription own) d = Some (d', e) \<longleftrightarrow> d' = spawn_queue_dispatcher own d \<and> e = None"
  "dispatch_step PlainBegins d = Some (d', e) \<longleftrightarrow> d' = d\<lparr>dq_in_flight := True\<rparr> \<and> e = None"
  "dispatch_step PlainEnds d = Some (d', e) \<longleftrightarrow> d' = d\<lparr>dq_in_flight := False\<rparr> \<and> e = None"
  by (auto simp: queue_subscription_def plain_begins_def plain_ends_def)

lemmas steps_Some = request_steps_Some dispatch_step.simps(3-15) silently_Some task_starts_Some worker_reserves_Some worker_checks_Some
  worker_claims_Some worker_begins_Some worker_answered_Some worker_completes_Some worker_releases_Some worker_retries_Some
  worker_leaves_Some call_reserves_Some call_begins_Some call_ends_Some

text \<open>A step and what it may emit, one fact for each kind of step.\<close>

lemmas dispatch_cases = dispatch_op.exhaust [case_names mutation subscription task_starts worker_reserves worker_checks worker_claims
  worker_begins worker_answered worker_completes worker_releases worker_retries worker_leaves call_reserves call_begins call_ends
  plain_begins plain_ends]

text \<open>An invariant of the steps holds after every run.\<close>

lemma run_induct:
  assumes "dispatch_run ops d = Some (d', events)" "I d"
    and "\<And>x d d' e. I d \<Longrightarrow> x \<in> set ops \<Longrightarrow> dispatch_step x d = Some (d', e) \<Longrightarrow> I d'"
  shows "I d'"
  using assms
proof (induction ops arbitrary: d events)
  case (Cons x xs)
  obtain d1 e rest where s: "dispatch_step x d = Some (d1, e)" "dispatch_run xs d1 = Some (d', rest)"
    using Cons.prems(1) by (auto split: option.splits)
  show ?case by (rule Cons.IH [OF s(2)]) (use Cons.prems(2,3) s(1) in \<open>auto intro: list.set_intros\<close>)
qed simp

fun in_hand :: "worker \<Rightarrow> queue_item option" where
  "in_hand (Claimed item) = Some item"
| "in_hand (Sending item) = Some item"
| "in_hand (Answered item) = Some item"
| "in_hand (Failing item) = Some item"
| "in_hand _ = None"

fun is_sending :: "worker \<Rightarrow> bool" where
  "is_sending (Sending i) = True"
| "is_sending _ = False"

fun is_calling :: "holder \<Rightarrow> bool" where
  "is_calling (ByCall c b) = b"
| "is_calling _ = False"

definition turns_in_progress :: "dispatch \<Rightarrow> nat" where
  "turns_in_progress d = (if is_sending (dq_worker d) then 1 else 0) + (if is_calling (dq_reservation d) then 1 else 0)"

definition dispatch_ok :: "dispatch \<Rightarrow> bool" where
  "dispatch_ok d \<longleftrightarrow> (dq_active d \<longleftrightarrow> dq_worker d \<noteq> Absent)
     \<and> (dq_reservation d = ByWorker \<longleftrightarrow> dq_own d \<and> dq_worker d \<notin> {Absent, Waiting, Leaving})
     \<and> (\<forall>i. dq_worker d = Sending i \<or> dq_worker d = Answered i \<longrightarrow> dq_own d)"

lemma dispatch_ok_new [simp]: "dispatch_ok (dispatch_new log)"
  by (simp add: dispatch_ok_def dispatch_new_def)

lemma dispatch_ok_step:
  assumes "dispatch_ok d" "dispatch_step x d = Some (d', e)"
  shows "dispatch_ok d'"
  using assms
  by (cases x rule: dispatch_cases; simp only: steps_Some dispatch_ok_def; elim exE conjE disjE; simp; blast?)

lemma run_ok: "dispatch_run ops (dispatch_new log) = Some (d, events) \<Longrightarrow> dispatch_ok d"
  by (rule run_induct [of ops "dispatch_new log" d events dispatch_ok]) (auto intro: dispatch_ok_step)

lemma sending_reserved: "dispatch_ok d \<Longrightarrow> is_sending (dq_worker d) \<Longrightarrow> dq_own d \<and> dq_reservation d = ByWorker"
  by (cases "dq_worker d") (auto simp: dispatch_ok_def)

lemma one_turn: "dispatch_ok d \<Longrightarrow> turns_in_progress d \<le> 1"
  using sending_reserved [of d] by (auto simp: turns_in_progress_def)

text \<open>Without calls that take no reservation the flag of the session says whether a turn is in progress.\<close>

definition flag_ok :: "dispatch \<Rightarrow> bool" where
  "flag_ok d \<longleftrightarrow> dispatch_ok d \<and> (dq_in_flight d \<longleftrightarrow> is_sending (dq_worker d) \<or> is_calling (dq_reservation d))"

lemma flag_turns: "flag_ok d \<Longrightarrow> dq_in_flight d \<longleftrightarrow> turns_in_progress d = 1"
  using sending_reserved [of d] by (auto simp: flag_ok_def turns_in_progress_def)

lemma flag_ok_step:
  assumes "flag_ok d" "x \<notin> {PlainBegins, PlainEnds}" "dispatch_step x d = Some (d', e)"
  shows "flag_ok d'"
proof -
  have ok: "dispatch_ok d" "dispatch_ok d'" and f: "dq_in_flight d \<longleftrightarrow> is_sending (dq_worker d) \<or> is_calling (dq_reservation d)"
    using assms(1,3) dispatch_ok_step by (auto simp: flag_ok_def)
  have w: "is_sending (dq_worker d) \<longrightarrow> dq_own d \<and> dq_reservation d = ByWorker"
    "\<not> dq_active d \<longrightarrow> dq_worker d = Absent"
    "dq_own d \<and> dq_worker d \<notin> {Absent, Waiting, Leaving} \<longrightarrow> \<not> is_calling (dq_reservation d)"
    using ok(1) sending_reserved [OF ok(1)] by (auto simp: dispatch_ok_def)
  from assms(3,2) f w have "dq_in_flight d' \<longleftrightarrow> is_sending (dq_worker d') \<or> is_calling (dq_reservation d')"
    by (cases x rule: dispatch_cases) ((hypsubst, simp only: steps_Some; elim exE conjE disjE; simp)[1])+
  with ok(2) show ?thesis by (simp add: flag_ok_def)
qed

lemma run_flag:
  assumes "dispatch_run ops (dispatch_new log) = Some (d, events)" "PlainBegins \<notin> set ops" "PlainEnds \<notin> set ops"
  shows "flag_ok d"
proof (rule run_induct [OF assms(1)])
  show "flag_ok (dispatch_new log)" by (simp add: flag_ok_def) (simp add: dispatch_new_def)
  fix x d d' e
  assume d: "flag_ok d" and x: "x \<in> set ops" and step: "dispatch_step x d = Some (d', e)"
  have "x \<notin> {PlainBegins, PlainEnds}" using x assms(2,3) by blast
  with d show "flag_ok d'" using step by (rule flag_ok_step)
qed

section \<open>Claims\<close>

lemma replay_mutation_claimed:
  "rs_claimed (replay_records (rs @ [mutation_record p (replay_records rs)])) = mutated_claimed p (replay_records rs)"
  unfolding replay_append
  by (cases "mp_operation p"; cases "mp_queue_entry_id p")
    (simp_all add: replay_step_def mutation_record_simps mutated_claimed_def split: option.splits)

lemma replay_claim_claimed:
  "rs_claimed (replay_records (rs @ [claim_record item])) = without_entry (queue_entry_id item) (rs_claimed (replay_records rs)) @ [item]"
  unfolding replay_append by (simp add: replay_step_def claim_record_def)

lemma replay_complete_claimed:
  "rs_claimed (replay_records (rs @ [finish_record RComplete item])) = without_entry (queue_entry_id item) (rs_claimed (replay_records rs))"
  unfolding replay_append by (simp add: complete_record)

lemma replay_release_claimed:
  assumes "rs_claimed (replay_records rs) = [] \<or> map queue_entry_id (rs_claimed (replay_records rs)) = [queue_entry_id item]"
  shows "rs_claimed (replay_records (rs @ [finish_record RRelease item])) = []"
  using assms unfolding replay_append
  by (cases "rs_claimed (replay_records rs)") (auto simp: replay_step_def finish_record_def remove_at_def)

text \<open>The item that the record says is claimed is the one the dispatcher has in hand, if any.\<close>

definition claims_ok :: "dispatch \<Rightarrow> bool" where
  "claims_ok d \<longleftrightarrow> (let claimed = rs_claimed (replay_records (dq_log d))
     in claimed = [] \<or> map queue_entry_id claimed = (case in_hand (dq_worker d) of None \<Rightarrow> [] | Some item \<Rightarrow> [queue_entry_id item]))"

lemma claims_same:
  assumes "claims_ok d" "rs_claimed (replay_records (dq_log d')) = rs_claimed (replay_records (dq_log d))"
    "in_hand (dq_worker d') = in_hand (dq_worker d)"
  shows "claims_ok d'"
  using assms by (simp add: claims_ok_def)

lemma claims_empty: "rs_claimed (replay_records (dq_log d)) = [] \<Longrightarrow> claims_ok d"
  by (simp add: claims_ok_def)

lemma claims_none: "claims_ok d \<Longrightarrow> in_hand (dq_worker d) = None \<Longrightarrow> rs_claimed (replay_records (dq_log d)) = []"
  by (simp add: claims_ok_def)

lemma claims_hand:
  "claims_ok d \<Longrightarrow> in_hand (dq_worker d) = Some item \<Longrightarrow>
     rs_claimed (replay_records (dq_log d)) = [] \<or> map queue_entry_id (rs_claimed (replay_records (dq_log d))) = [queue_entry_id item]"
  by (simp add: claims_ok_def Let_def)

lemma without_one:
  "xs = [] \<or> map queue_entry_id xs = [queue_entry_id item] \<Longrightarrow> without_entry (queue_entry_id item) xs = []"
  by (auto simp: without_entry_def)

lemma claims_mutation:
  assumes "claims_ok d" shows "claims_ok (queue_mutation own p d)"
proof (cases "rs_claimed (replay_records (dq_log (queue_mutation own p d))) = rs_claimed (replay_records (dq_log d))")
  case True
  with assms show ?thesis by (rule claims_same) simp
next
  case False
  then obtain i where "rs_claimed (replay_records (dq_log (queue_mutation own p d))) = without_entry i (rs_claimed (replay_records (dq_log d)))"
    by (auto simp: replay_mutation_claimed mutated_claimed_def split: queue_operation.splits option.splits)
  moreover have "length (rs_claimed (replay_records (dq_log d))) \<le> 1"
    using assms by (cases "in_hand (dq_worker d)") (auto simp: claims_ok_def Let_def dest: arg_cong [of _ _ length])
  ultimately have "rs_claimed (replay_records (dq_log (queue_mutation own p d))) = []"
    using False by (cases "rs_claimed (replay_records (dq_log d))") (auto simp: without_entry_def split: if_splits)
  then show ?thesis by (rule claims_empty)
qed

lemma claims_ok_step:
  assumes "claims_ok d" "dispatch_ok d" "x \<notin> {WorkerCompletes False, WorkerReleases False}" "dispatch_step x d = Some (d', e)"
  shows "claims_ok d'"
proof (cases x rule: dispatch_cases)
  case (mutation own p)
  with assms(1,4) show ?thesis by (simp only: steps_Some claims_mutation)
next
  case (worker_claims ok)
  with assms(4) consider "d' = worker_frees (d\<lparr>dq_worker := Leaving\<rparr>)" "dq_worker d = Claiming"
    | item where "d' = d\<lparr>dq_log := dq_log d @ [claim_record item], dq_worker := Claimed item\<rparr>" "dq_worker d = Claiming"
    by (auto simp only: steps_Some)
  then show ?thesis
  proof cases
    case 1
    then show ?thesis by (intro claims_same [OF assms(1)]) simp_all
  next
    case 2
    then have "rs_claimed (replay_records (dq_log d)) = []" using claims_none [OF assms(1)] by simp
    with 2 show ?thesis by (simp add: claims_ok_def replay_claim_claimed without_entry_def)
  qed
next
  case (worker_completes ok)
  with assms(3,4) obtain item where w: "dq_worker d = Answered item" 
    "d' = worker_frees (d\<lparr>dq_worker := Waiting, dq_log := dq_log d @ [finish_record RComplete item]\<rparr>)"
    by (auto simp only: steps_Some)
  then show ?thesis
    using without_one [OF claims_hand [OF assms(1)]] by (intro claims_empty) (simp add: replay_complete_claimed)
next
  case (worker_releases ok)
  with assms(3,4) obtain item where w: "dq_worker d = Failing item" 
    "d' = d\<lparr>dq_worker := BackingOff, dq_log := dq_log d @ [finish_record RRelease item]\<rparr>"
    by (auto simp only: steps_Some)
  then show ?thesis
    using replay_release_claimed [OF claims_hand [OF assms(1)]] by (intro claims_empty) simp
qed ((insert assms(2,4), hypsubst, simp only: steps_Some dispatch_ok_def; elim exE conjE disjE; rule claims_same [OF assms(1)]; simp)[1])+

lemma run_claims:
  assumes "dispatch_run ops (dispatch_new log) = Some (d, events)" "rs_claimed (replay_records log) = []"
    "WorkerCompletes False \<notin> set ops" "WorkerReleases False \<notin> set ops"
  shows "claims_ok d"
proof -
  have "claims_ok d \<and> dispatch_ok d"
  proof (rule run_induct [OF assms(1), of "\<lambda>d. claims_ok d \<and> dispatch_ok d"])
    show "claims_ok (dispatch_new log) \<and> dispatch_ok (dispatch_new log)"
      using assms(2) by (auto intro!: claims_empty) (simp add: dispatch_new_def)
    fix x d d' e
    assume d: "claims_ok d \<and> dispatch_ok d" and x: "x \<in> set ops" and step: "dispatch_step x d = Some (d', e)"
    have "x \<notin> {WorkerCompletes False, WorkerReleases False}" using x assms(3,4) by blast
    with d step show "claims_ok d' \<and> dispatch_ok d'" using claims_ok_step dispatch_ok_step by blast
  qed
  then show ?thesis by blast
qed


section \<open>A queued prompt is not forgotten\<close>

definition pending :: "dispatch \<Rightarrow> bool" where
  "pending d \<longleftrightarrow> take_next_plan (replay_records (dq_log d)) \<noteq> None"

text \<open>Somebody will look at the queue: a task that was spawned, the dispatcher, or the end of a prompt.\<close>

definition looked_after :: "dispatch \<Rightarrow> bool" where
  "looked_after d \<longleftrightarrow> dq_spawned d \<noteq> [] \<or> dq_worker d \<notin> {Absent, Leaving} \<or> dq_reservation d = ByCall PromptCall True"

text \<open>
  The runs on which this holds: no other tenant asks, no unreserved call is passed on, the queue can be
  read, and no task starts between the dispatcher's decision to stop and its removal from the active ones.
\<close>

definition careful_step :: "dispatch_op \<Rightarrow> dispatch \<Rightarrow> bool" where
  "careful_step x d =
     (case x of
        Mutation own p \<Rightarrow> own
      | Subscription own \<Rightarrow> own
      | TaskStarts own \<Rightarrow> dq_worker d \<noteq> Leaving
      | WorkerClaims ok \<Rightarrow> ok
      | PlainBegins \<Rightarrow> False
      | PlainEnds \<Rightarrow> False
      | _ \<Rightarrow> True)"

fun careful :: "dispatch_op list \<Rightarrow> dispatch \<Rightarrow> bool" where
  "careful [] d = True"
| "careful (x # xs) d \<longleftrightarrow> careful_step x d \<and> (case dispatch_step x d of None \<Rightarrow> True | Some (d', e) \<Rightarrow> careful xs d')"

definition own_ok :: "dispatch \<Rightarrow> bool" where
  "own_ok d \<longleftrightarrow> flag_ok d \<and> dq_own d \<and> False \<notin> set (dq_spawned d)"

definition care_ok :: "dispatch \<Rightarrow> bool" where
  "care_ok d \<longleftrightarrow> own_ok d \<and> (pending d \<longrightarrow> looked_after d)"

lemma own_ok_step:
  assumes "own_ok d" "careful_step x d" "dispatch_step x d = Some (d', e)"
  shows "own_ok d'"
proof -
  have "x \<notin> {PlainBegins, PlainEnds}" using assms(2) by (auto simp: careful_step_def)
  then have f: "flag_ok d'" using assms(1,3) flag_ok_step by (auto simp: own_ok_def)
  have "dq_own d" "False \<notin> set (dq_spawned d)" using assms(1) by (simp_all add: own_ok_def)
  moreover have "own" if "own \<in> set (dq_spawned d)" for own using that calculation(2) by (metis (full_types))
  ultimately have "dq_own d' \<and> False \<notin> set (dq_spawned d')"
    using assms(2,3) by (cases x rule: dispatch_cases)
      ((hypsubst, simp only: steps_Some careful_step_def dispatch_op.case; elim exE conjE disjE; auto dest: notin_set_remove1)[1])+
  with f show ?thesis by (simp add: own_ok_def)
qed

lemma pending_queue: "pending d \<longleftrightarrow> rs_queue (replay_records (dq_log d)) \<noteq> [] \<and> \<not> rs_paused (replay_records (dq_log d))"
  by (auto simp: pending_def take_next_plan_def)

text \<open>A mutation that does not wake the dispatcher only pauses the queue or takes items away.\<close>

lemma pending_mutation: "\<not> wakes p \<Longrightarrow> pending (queue_mutation own p d) \<Longrightarrow> pending d"
  unfolding pending_queue mutation_simps replay_append
  by (cases "mp_operation p") (auto simp: wakes_def replay_step_def mutation_record_simps without_entry_def split: option.splits)

lemma pending_finish: "pending (d\<lparr>dq_log := dq_log d @ [finish_record RComplete item]\<rparr>) \<longleftrightarrow> pending d"
  unfolding pending_queue by (simp add: replay_append complete_record)

lemma pending_same: "dq_log d' = dq_log d \<Longrightarrow> pending d' \<longleftrightarrow> pending d"
  by (simp add: pending_def)

lemma care_ok_step:
  assumes "care_ok d" "careful_step x d" "dispatch_step x d = Some (d', e)"
  shows "care_ok d'"
proof -
  have own: "own_ok d" "own_ok d'" and p: "pending d \<Longrightarrow> looked_after d"
    using assms own_ok_step by (auto simp: care_ok_def)
  have idle: "dq_worker d = Reserved \<Longrightarrow> \<not> dq_in_flight d"
    and active: "dq_active d \<longleftrightarrow> dq_worker d \<noteq> Absent"
    using own(1) by (auto simp: own_ok_def flag_ok_def dispatch_ok_def)
  have "pending d' \<longrightarrow> looked_after d'"
  proof (cases x rule: dispatch_cases)
    case (mutation own p)
    with assms(3) have d': "d' = queue_mutation own p d" by (simp only: steps_Some)
    show ?thesis
      using p pending_mutation [of p own d] unfolding d' by (cases "wakes p") (auto simp: looked_after_def)
  next
    case (task_starts own)
    with assms(2,3) active p show ?thesis
      by (simp only: steps_Some careful_step_def dispatch_op.case; elim exE conjE disjE; simp add: looked_after_def)
  next
    case (worker_claims ok)
    with assms(2,3) show ?thesis
      by (simp only: steps_Some careful_step_def dispatch_op.case; elim exE conjE disjE; simp add: looked_after_def pending_def)
  qed (insert assms(3) p idle, (hypsubst, simp only: steps_Some; elim exE conjE disjE; simp add: looked_after_def pending_finish cong: pending_same)[1])+
  with own(2) show ?thesis by (simp add: care_ok_def)
qed

lemma run_careful:
  "dispatch_run ops d = Some (d', events) \<Longrightarrow> careful ops d \<Longrightarrow> care_ok d \<Longrightarrow> care_ok d'"
proof (induction ops arbitrary: d events)
  case (Cons x xs)
  obtain d1 e rest where "dispatch_step x d = Some (d1, e)" "dispatch_run xs d1 = Some (d', rest)"
    using Cons.prems(1) by (auto split: option.splits)
  with Cons care_ok_step show ?case by auto
qed simp

lemma care_ok_new [simp]: "care_ok (dispatch_new log) \<longleftrightarrow> \<not> pending (dispatch_new log)"
  by (auto simp: care_ok_def own_ok_def flag_ok_def looked_after_def) (simp_all add: dispatch_new_def)

lemma run_append:
  "dispatch_run (xs @ ys) d = (case dispatch_run xs d of None \<Rightarrow> None | Some (d', e) \<Rightarrow>
     (case dispatch_run ys d' of None \<Rightarrow> None | Some (d'', e') \<Rightarrow> Some (d'', e @ e')))"
  by (induction xs arbitrary: d) (auto split: option.splits)

text \<open>Steps that need no client: the dispatcher, spawned tasks and the end of calls that are running.\<close>

fun internal :: "dispatch_op \<Rightarrow> bool" where
  "internal (Mutation own p) = False"
| "internal (Subscription own) = False"
| "internal (CallReserves c) = False"
| "internal PlainBegins = False"
| "internal PlainEnds = False"
| "internal _ = True"

text \<open>One way on: the call that holds the reservation ends, and the dispatcher comes round to its next item.\<close>

definition end_call :: "holder \<Rightarrow> dispatch_op list" where
  "end_call h = (case h of ByCall c b \<Rightarrow> (if b then [CallEnds] else [CallBegins True, CallEnds]) | _ \<Rightarrow> [])"

fun next_item :: "worker \<Rightarrow> dispatch_op list" where
  "next_item Absent = [TaskStarts True, WorkerReserves, WorkerChecks, WorkerClaims True, WorkerBegins True]"
| "next_item Leaving = [WorkerLeaves, TaskStarts True, WorkerReserves, WorkerChecks, WorkerClaims True, WorkerBegins True]"
| "next_item Waiting = [WorkerReserves, WorkerChecks, WorkerClaims True, WorkerBegins True]"
| "next_item Reserved = [WorkerChecks, WorkerClaims True, WorkerBegins True]"
| "next_item Claiming = [WorkerClaims True, WorkerBegins True]"
| "next_item (Claimed item) = [WorkerBegins True]"
| "next_item (Sending item) = [WorkerAnswered True, WorkerCompletes True, WorkerReserves, WorkerChecks, WorkerClaims True, WorkerBegins True]"
| "next_item (Answered item) = [WorkerCompletes True, WorkerReserves, WorkerChecks, WorkerClaims True, WorkerBegins True]"
| "next_item (Failing item) = [WorkerReleases True, WorkerRetries, WorkerReserves, WorkerChecks, WorkerClaims True, WorkerBegins True]"
| "next_item BackingOff = [WorkerRetries, WorkerReserves, WorkerChecks, WorkerClaims True, WorkerBegins True]"

definition serve :: "dispatch \<Rightarrow> dispatch_op list" where
  "serve d = end_call (dq_reservation d) @ next_item (dq_worker d)"

definition sends :: "dispatch_op list \<Rightarrow> dispatch \<Rightarrow> bool" where
  "sends ops d \<longleftrightarrow> (\<exists>d' events item. dispatch_run ops d = Some (d', events @ [QueuedPrompt item]))"

lemma sends_Cons:
  assumes "dispatch_step x d = Some (d1, e)" "sends xs d1"
  shows "sends (x # xs) d"
proof -
  obtain d' events item where "dispatch_run xs d1 = Some (d', events @ [QueuedPrompt item])"
    using assms(2) unfolding sends_def by blast
  with assms(1) have "dispatch_run (x # xs) d = Some (d', (case e of None \<Rightarrow> events | Some a \<Rightarrow> a # events) @ [QueuedPrompt item])"
    by (cases e) simp_all
  then show ?thesis unfolding sends_def by blast
qed

lemma sends_claimed: "dq_worker d = Claimed item \<Longrightarrow> dq_own d \<Longrightarrow> sends [WorkerBegins True] d"
  unfolding sends_def by (rule exI, rule exI [of _ "[]"], rule exI [of _ item]) (simp add: worker_begins_def)

lemma sends_claiming:
  assumes "dq_worker d = Claiming" "dq_own d" "pending d"
  shows "sends [WorkerClaims True, WorkerBegins True] d"
proof -
  obtain item r where t: "take_next_plan (replay_records (dq_log d)) = Some (item, r)" using assms(3) by (auto simp: pending_def)
  show ?thesis
    by (rule sends_Cons [of _ _ "d\<lparr>dq_log := dq_log d @ [r], dq_worker := Claimed item\<rparr>"], use assms t in \<open>simp add: worker_claims_def silently_def\<close>)
      (use assms in \<open>simp add: sends_claimed\<close>)
qed

lemma sends_reserved:
  assumes "dq_worker d = Reserved" "dq_own d" "\<not> dq_in_flight d" "pending d"
  shows "sends [WorkerChecks, WorkerClaims True, WorkerBegins True] d"
  by (rule sends_Cons [of _ _ "d\<lparr>dq_worker := Claiming\<rparr>"], use assms in \<open>simp add: worker_checks_def silently_def\<close>)
    (rule sends_claiming, use assms in \<open>simp_all add: pending_def\<close>)

lemma sends_waiting:
  assumes "dq_worker d = Waiting" "dq_own d" "\<not> dq_in_flight d" "dq_reservation d = Unreserved" "pending d"
  shows "sends (next_item Waiting) d"
  unfolding next_item.simps
  by (rule sends_Cons [of _ _ "d\<lparr>dq_worker := Reserved, dq_reservation := ByWorker\<rparr>"], use assms in \<open>simp add: worker_reserves_def silently_def\<close>)
    (rule sends_reserved, use assms in \<open>simp_all add: pending_def\<close>)

lemma sends_absent:
  assumes "dq_worker d = Absent" "\<not> dq_active d" "True \<in> set (dq_spawned d)" "\<not> dq_in_flight d" "dq_reservation d = Unreserved" "pending d"
  shows "sends (next_item Absent) d"
  unfolding next_item.simps
  by (rule sends_Cons [of _ _ "d\<lparr>dq_spawned := remove1 True (dq_spawned d), dq_active := True, dq_worker := Waiting, dq_own := True\<rparr>"],
      use assms in \<open>simp add: task_starts_def silently_def\<close>)
    (rule sends_waiting [unfolded next_item.simps], use assms in \<open>simp_all add: pending_def\<close>)

lemma pending_release: "pending d \<Longrightarrow> pending (d\<lparr>dq_log := dq_log d @ [finish_record RRelease item]\<rparr>)"
  unfolding pending_queue by (simp add: replay_append replay_step_def finish_record_def split: option.splits)

text \<open>Once no call holds the reservation, the dispatcher comes round.\<close>

lemma sends_next_item:
  assumes "care_ok d" "pending d" "\<not> is_calling (dq_reservation d)" "\<forall>c. dq_reservation d \<noteq> ByCall c False"
  shows "sends (next_item (dq_worker d)) d"
proof -
  have own: "dq_own d" "False \<notin> set (dq_spawned d)" and flag: "dq_in_flight d \<longleftrightarrow> is_sending (dq_worker d)"
    and active: "dq_active d \<longleftrightarrow> dq_worker d \<noteq> Absent"
    and held: "dq_reservation d = ByWorker \<longleftrightarrow> dq_worker d \<notin> {Absent, Waiting, Leaving}"
    using assms(1,3) by (auto simp: care_ok_def own_ok_def flag_ok_def dispatch_ok_def)
  have free: "dq_reservation d = Unreserved" if "dq_worker d \<in> {Absent, Waiting, Leaving}"
    using that held assms(3,4) by (cases "dq_reservation d") (auto split: bool.splits)
  have spawned: "True \<in> set (dq_spawned d)" if "dq_worker d \<in> {Absent, Leaving}"
  proof -
    have "dq_spawned d \<noteq> []" using that assms(1,2) free by (auto simp: care_ok_def looked_after_def)
    then show ?thesis using own(2) by (cases "dq_spawned d") auto
  qed
  note waiting = sends_waiting [unfolded next_item.simps]
  show ?thesis
  proof (cases "dq_worker d")
    case Absent
    then show ?thesis using sends_absent [of d] active spawned flag free assms(2) by simp
  next
    case Waiting
    then show ?thesis using sends_waiting [of d] own flag free assms(2) by simp
  next
    case Leaving
    show ?thesis unfolding Leaving next_item.simps
      by (rule sends_Cons [of _ _ "d\<lparr>dq_worker := Absent, dq_active := False\<rparr>"], use Leaving in \<open>simp add: worker_leaves_def silently_def\<close>)
        (rule sends_absent [unfolded next_item.simps], use Leaving spawned flag free assms(2) in \<open>simp_all add: pending_def\<close>)
  next
    case (Answered item)
    show ?thesis unfolding Answered next_item.simps
      by (rule sends_Cons [of _ _ "worker_frees (d\<lparr>dq_worker := Waiting, dq_log := dq_log d @ [finish_record RComplete item]\<rparr>)"],
          use Answered in \<open>simp add: worker_completes_def silently_def\<close>)
        (rule waiting, use Answered own flag assms(2) pending_finish [of d item] in \<open>simp_all add: pending_def\<close>)
  next
    case (Sending item)
    show ?thesis unfolding Sending next_item.simps
      by (rule sends_Cons [of _ _ "spawn_queue_dispatcher True (d\<lparr>dq_worker := Answered item, dq_in_flight := False\<rparr>)"],
          use Sending own in \<open>simp add: worker_answered_def silently_def\<close>,
          rule sends_Cons [of _ _ "worker_frees ((spawn_queue_dispatcher True (d\<lparr>dq_worker := Answered item, dq_in_flight := False\<rparr>))
            \<lparr>dq_worker := Waiting, dq_log := dq_log d @ [finish_record RComplete item]\<rparr>)"],
          use Sending in \<open>simp add: worker_completes_def silently_def\<close>)
        (rule waiting, use Sending own assms(2) pending_finish [of d item] in \<open>simp_all add: pending_def\<close>)
  next
    case BackingOff
    show ?thesis unfolding BackingOff next_item.simps
      by (rule sends_Cons [of _ _ "worker_frees (d\<lparr>dq_worker := Waiting\<rparr>)"], use BackingOff in \<open>simp add: worker_retries_def silently_def\<close>)
        (rule waiting, use BackingOff own flag assms(2) in \<open>simp_all add: pending_def\<close>)
  next
    case (Failing item)
    show ?thesis unfolding Failing next_item.simps
      by (rule sends_Cons [of _ _ "d\<lparr>dq_worker := BackingOff, dq_log := dq_log d @ [finish_record RRelease item]\<rparr>"],
          use Failing in \<open>simp add: worker_releases_def silently_def\<close>,
          rule sends_Cons [of _ _ "worker_frees (d\<lparr>dq_worker := Waiting, dq_log := dq_log d @ [finish_record RRelease item]\<rparr>)"],
          use Failing in \<open>simp add: worker_retries_def silently_def\<close>)
        (rule waiting, use Failing own flag assms(2) pending_release [of d item] in \<open>simp_all add: pending_def\<close>)
  qed (use own flag assms(2) sends_reserved sends_claiming sends_claimed in auto)
qed

lemma internal_serve: "\<forall>x\<in>set (serve d). internal x"
  by (cases "dq_worker d") (auto simp: serve_def end_call_def split: holder.splits)

lemma sends_append:
  assumes "dispatch_run xs d = Some (d1, e)" "sends ys d1"
  shows "sends (xs @ ys) d"
proof -
  obtain d' events item where "dispatch_run ys d1 = Some (d', events @ [QueuedPrompt item])"
    using assms(2) unfolding sends_def by blast
  with assms(1) have "dispatch_run (xs @ ys) d = Some (d', (e @ events) @ [QueuedPrompt item])" by (simp add: run_append)
  then show ?thesis unfolding sends_def by blast
qed

lemma call_ended:
  assumes "dq_reservation d = ByCall c b"
  shows "\<exists>d1 events. dispatch_run (end_call (ByCall c b)) d = Some (d1, events) \<and> dq_reservation d1 = Unreserved
    \<and> dq_worker d1 = dq_worker d \<and> dq_log d1 = dq_log d"
  using assms by (cases b; cases c) (simp_all add: end_call_def call_begins_def call_ends_def silently_def)

lemma careful_end_call: "careful (end_call h) d"
  by (auto simp: end_call_def careful_step_def split: holder.splits option.splits)

lemma sends_serve:
  assumes "care_ok d" "pending d"
  shows "sends (serve d) d"
proof (cases "dq_reservation d")
  case (ByCall c b)
  obtain d1 e where run: "dispatch_run (end_call (dq_reservation d)) d = Some (d1, e)" and d1: "dq_reservation d1 = Unreserved"
    "dq_worker d1 = dq_worker d" "dq_log d1 = dq_log d"
    using call_ended [OF ByCall] unfolding ByCall by blast
  have "care_ok d1" by (rule run_careful [OF run careful_end_call assms(1)])
  then have "sends (next_item (dq_worker d1)) d1"
    using assms(2) d1 by (intro sends_next_item) (simp_all add: pending_def)
  then show ?thesis unfolding serve_def using sends_append [OF run] d1(2) by simp
qed (use sends_next_item [OF assms] in \<open>simp_all add: serve_def end_call_def\<close>)

text \<open>
  C7. A queued prompt is not forgotten.  From the recovery of a session on, whatever its owner asks and however
  the tasks and calls interleave, when a prompt is queued and the queue is not paused then the steps that
  are under way anyway, without any further request, bring a queued prompt to the backend.  The runs
  excluded are those with requests of another tenant, calls that take no reservation, an unreadable queue,
  and a task that starts while the dispatcher is leaving.
\<close>

theorem queued_prompt_is_sent:
  assumes "dispatch_run ops (spawn_queue_dispatcher True (dispatch_new log)) = Some (d, events)"
    and "careful ops (spawn_queue_dispatcher True (dispatch_new log))" "take_next_plan (replay_records (dq_log d)) \<noteq> None"
  shows "(\<forall>x\<in>set (serve d). internal x) \<and> (\<exists>d' before item. dispatch_run (serve d) d = Some (d', before @ [QueuedPrompt item]))"
proof -
  have "care_ok (spawn_queue_dispatcher True (dispatch_new log))"
    by (simp add: care_ok_def own_ok_def flag_ok_def looked_after_def dispatch_ok_def) (simp add: dispatch_new_def)
  then have "care_ok d" by (rule run_careful [OF assms(1,2)])
  moreover have "pending d" using assms(3) by (simp add: pending_def)
  ultimately show ?thesis using sends_serve internal_serve unfolding sends_def by blast
qed

section \<open>The queue is sent in order\<close>

definition one_turn_ops :: "dispatch_op list" where
  "one_turn_ops = next_item Waiting @ [WorkerAnswered True, WorkerCompletes True]"

definition at_rest :: "dispatch \<Rightarrow> bool" where
  "at_rest d \<longleftrightarrow> dq_worker d = Waiting \<and> dq_own d \<and> dq_reservation d = Unreserved \<and> \<not> dq_in_flight d"

lemma one_turn_sends:
  assumes "at_rest d" "take_next_plan (replay_records (dq_log d)) = Some (item, r)"
  shows "\<exists>d'. dispatch_run one_turn_ops d = Some (d', [QueuedPrompt item]) \<and> at_rest d' \<and> dq_log d' = snd (log_pop (dq_log d))"
  using assms
  by (auto simp: at_rest_def one_turn_ops_def worker_reserves_def worker_checks_def worker_claims_def worker_begins_def
      worker_answered_def worker_completes_def silently_def log_pop_def split: option.splits)

lemma drained:
  assumes "at_rest d" "log_ready (dq_log d)"
  shows "\<exists>d' items. dispatch_run (concat (replicate (length (log_items (dq_log d))) one_turn_ops)) d = Some (d', map QueuedPrompt items)
    \<and> map message_of items = log_items (dq_log d) \<and> at_rest d' \<and> log_items (dq_log d') = []"
  using assms
proof (induction "log_items (dq_log d)" arbitrary: d)
  case Nil
  then show ?case by (intro exI [of _ d] exI [of _ "[]"]) (simp flip: Nil.hyps)
next
  case (Cons m ms)
  have plan: "\<exists>item r. take_next_plan (replay_records (dq_log d)) = Some (item, r) \<and> message_of item = m"
    using Cons.hyps(2) Cons.prems(2) by (auto simp: log_items_def log_ready_def take_next_plan_def)
  then obtain item r where plan: "take_next_plan (replay_records (dq_log d)) = Some (item, r)" "message_of item = m" by blast
  obtain d1 where run: "dispatch_run one_turn_ops d = Some (d1, [QueuedPrompt item])" and d1: "at_rest d1"
    "dq_log d1 = snd (log_pop (dq_log d))"
    using one_turn_sends [OF Cons.prems(1) plan(1)] by blast
  have ms: "ms = log_items (dq_log d1)" "log_ready (dq_log d1)"
    using log_fifo.items_pop [OF Cons.prems(2)] log_fifo.ready_pop [OF Cons.prems(2)]
    unfolding d1(2) Cons.hyps(2) [symmetric] by simp_all
  obtain d' items where rest: "dispatch_run (concat (replicate (length ms) one_turn_ops)) d1 = Some (d', map QueuedPrompt items)"
    "map message_of items = ms" "at_rest d'" "log_items (dq_log d') = []"
    using Cons.hyps(1) [OF ms(1) d1(1) ms(2)] unfolding ms(1) [symmetric] by blast
  have "dispatch_run (concat (replicate (length (m # ms)) one_turn_ops)) d = Some (d', map QueuedPrompt (item # items))"
    using run rest(1) by (simp add: run_append)
  then show ?case
    using rest(2-) plan(2) unfolding Cons.hyps(2) [symmetric] by (intro exI [of _ d'] exI [of _ "item # items"]) simp
qed

text \<open>
  First in, first out: a dispatcher that is left alone and whose prompts are answered sends exactly
  the queued messages, each once and in order, and leaves an empty queue.
\<close>

theorem queue_sent_in_order:
  assumes "dq_worker d = Waiting" "dq_own d" "dq_reservation d = Unreserved" "\<not> dq_in_flight d" "log_ready (dq_log d)"
  shows "\<exists>d' items. dispatch_run (concat (replicate (length (log_items (dq_log d))) one_turn_ops)) d = Some (d', map QueuedPrompt items)
    \<and> map message_of items = log_items (dq_log d) \<and> log_items (dq_log d') = []"
proof -
  have "at_rest d" using assms by (simp add: at_rest_def)
  from drained [OF this assms(5)] show ?thesis by blast
qed

section \<open>What the proofs found\<close>

definition prompt_request :: "string \<Rightarrow> mutation_params" where
  "prompt_request i = \<lparr>mp_idempotency_key = i, mp_operation = QEnqueue, mp_queue_entry_id = Some i, mp_text = Some ''hi''\<rparr>"

text \<open>Nobody is left to look at the queue: no task, no dispatcher and no call.\<close>

definition stranded :: "dispatch \<Rightarrow> bool" where
  "stranded d \<longleftrightarrow> pending d \<and> dq_spawned d = [] \<and> dq_worker d = Absent \<and> dq_reservation d = Unreserved \<and> \<not> dq_in_flight d"

text \<open>
  A wake-up is lost: the dispatcher finds the queue empty, a prompt is queued and its task finds the session
  still active, and only then the dispatcher takes the session out of the active ones.
\<close>

definition lost_wakeup :: "dispatch_op list" where
  "lost_wakeup = [Subscription True, TaskStarts True, WorkerReserves, WorkerChecks, WorkerClaims True,
     Mutation True (prompt_request ''a''), TaskStarts True, WorkerLeaves]"

lemmas run_defs = task_starts_def worker_reserves_def worker_checks_def worker_claims_def worker_leaves_def worker_frees_def
  queue_subscription_def spawn_queue_dispatcher_def plain_begins_def plain_ends_def silently_def dispatch_new_def
  Let_def

lemma one_prompt: "mutation_record (prompt_request i) replay_empty =
    \<lparr>qr_operation = REnqueue, qr_item = Some \<lparr>queue_entry_id = i, idempotency_key = i, qi_text = ''hi'', qi_state = ''queued'', qi_position = 0\<rparr>,
     qr_key = i, qr_entry_id = Some i\<rparr>"
  by (simp add: mutation_record_def mutate_plan_def mutated_queue_def mutation_entry_id_def find_duplicate_def prompt_request_def
      replay_empty_def new_item_def number_queue_def Let_def)

lemma one_prompt_pending: "take_next_plan (replay_records [mutation_record (prompt_request i) replay_empty]) \<noteq> None"
  unfolding one_prompt by (simp add: replay_records_def replay_step_def replay_empty_def number_queue_def take_next_plan_def)

lemma empty_plan: "take_next_plan replay_empty = None"
  by (simp add: take_next_plan_def replay_empty_def)

lemma prompt_mutation: "queue_mutation own (prompt_request i) d =
    d\<lparr>dq_log := dq_log d @ [mutation_record (prompt_request i) (replay_records (dq_log d))], dq_spawned := dq_spawned d @ [own]\<rparr>"
  by (simp add: queue_mutation_def spawn_queue_dispatcher_def mutation_record_def Let_def) (simp add: prompt_request_def)

lemma stranded_one:
  "dq_log d = [mutation_record (prompt_request i) replay_empty] \<Longrightarrow> dq_spawned d = [] \<Longrightarrow> dq_worker d = Absent \<Longrightarrow>
   dq_reservation d = Unreserved \<Longrightarrow> \<not> dq_in_flight d \<Longrightarrow> stranded d"
  using one_prompt_pending [of i] by (simp add: stranded_def pending_def)

theorem queue_stranded_by_leaving_dispatcher:
  "\<exists>d. dispatch_run lost_wakeup (dispatch_new []) = Some (d, []) \<and> stranded d"
  unfolding lost_wakeup_def
  by (rule exI, rule conjI, simp add: run_defs empty_plan prompt_mutation, rule stranded_one [of _ "''a''"]) simp_all

text \<open>
  A call that takes no reservation, such as \<open>session/set_mode\<close>, sets the flag that the dispatcher looks at:
  the dispatcher stops, and the end of that call does not start it again.
\<close>

definition set_mode_during_dispatch :: "dispatch_op list" where
  "set_mode_during_dispatch = [PlainBegins, Mutation True (prompt_request ''a''), TaskStarts True, WorkerReserves, WorkerChecks,
     WorkerLeaves, PlainEnds]"

theorem queue_stranded_by_unreserved_call:
  "\<exists>d. dispatch_run set_mode_during_dispatch (dispatch_new []) = Some (d, []) \<and> stranded d"
  unfolding set_mode_during_dispatch_def
  by (rule exI, rule conjI, simp add: run_defs prompt_mutation, rule stranded_one [of _ "''a''"]) simp_all

text \<open>
  The queue is not protected by its tenant, and the set of active sessions is not keyed by it: once a task
  of another tenant is the dispatcher, no queued prompt reaches the backend, whatever the owner asks, for
  as long as the queue can be read and written and nobody pauses or cancels.
\<close>

definition foreign_ok :: "dispatch \<Rightarrow> bool" where
  "foreign_ok d \<longleftrightarrow> \<not> dq_own d \<and> dq_active d \<and> (case dq_worker d of
       Waiting \<Rightarrow> pending d | Reserved \<Rightarrow> pending d | Claiming \<Rightarrow> pending d | BackingOff \<Rightarrow> pending d
     | Claimed item \<Rightarrow> \<not> rs_paused (replay_records (dq_log d)) | Failing item \<Rightarrow> \<not> rs_paused (replay_records (dq_log d))
     | _ \<Rightarrow> False)"

definition no_way_out :: "dispatch_op \<Rightarrow> bool" where
  "no_way_out x \<longleftrightarrow> (case x of
       Mutation own p \<Rightarrow> mp_operation p \<in> {QEnqueue, QSendNow, QResume}
     | WorkerClaims ok \<Rightarrow> ok
     | WorkerReleases ok \<Rightarrow> ok
     | _ \<Rightarrow> True)"

lemma pending_more: "wakes p \<Longrightarrow> pending d \<Longrightarrow> pending (queue_mutation own p d)"
  unfolding pending_queue mutation_simps replay_append
  by (cases "mp_operation p") (auto simp: wakes_def replay_step_def mutation_record_simps split: option.splits)

lemma running_more: "wakes p \<Longrightarrow> \<not> rs_paused (replay_records rs) \<Longrightarrow> \<not> rs_paused (replay_records (rs @ [mutation_record p (replay_records rs)]))"
  unfolding replay_append
  by (cases "mp_operation p") (auto simp: wakes_def replay_step_def mutation_record_simps split: option.splits)

lemma running_claim: "rs_paused (replay_records (rs @ [claim_record item])) = rs_paused (replay_records rs)"
  unfolding replay_append by (simp add: replay_step_def claim_record_def)

lemma pending_released:
  "\<not> rs_paused (replay_records (dq_log d)) \<Longrightarrow> dq_log d' = dq_log d @ [finish_record RRelease item] \<Longrightarrow> pending d'"
  unfolding pending_queue by (simp add: replay_append replay_step_def finish_record_def split: option.splits)

lemma pending_running: "pending d \<Longrightarrow> \<not> rs_paused (replay_records (dq_log d))"
  by (simp add: pending_queue)

lemma foreign_ok_step:
  assumes "foreign_ok d" "no_way_out x" "dispatch_step x d = Some (d', e)"
  shows "foreign_ok d' \<and> e \<noteq> Some (QueuedPrompt item)"
proof (cases x rule: dispatch_cases)
  case (mutation own p)
  have "wakes p" using assms(2) by (simp add: mutation no_way_out_def wakes_def)
  note more = pending_more [OF this] running_more [OF this]
  have "d' = queue_mutation own p d" "e = None" using assms(3) unfolding mutation by (simp_all only: steps_Some)
  then show ?thesis using assms(1) more by (cases "dq_worker d") (simp_all add: foreign_ok_def)
next
  case (worker_claims ok)
  then show ?thesis
    using assms pending_running [of d]
    by (simp only: steps_Some no_way_out_def dispatch_op.case; elim exE conjE disjE; simp add: foreign_ok_def pending_def running_claim)
next
  case (worker_releases ok)
  with assms(2) have x: "x = WorkerReleases True" by (simp add: no_way_out_def)
  from assms(1,3) pending_released [of d d'] show ?thesis
    unfolding x by (simp only: steps_Some; elim exE conjE disjE; simp add: foreign_ok_def)
qed (insert assms(1,3), (hypsubst, simp only: steps_Some; elim exE conjE disjE; simp add: foreign_ok_def pending_def split: worker.splits)[1])+

theorem foreign_dispatcher_blocks_queue:
  assumes "foreign_ok d" "\<forall>x\<in>set ops. no_way_out x" "dispatch_run ops d = Some (d', events)"
  shows "QueuedPrompt item \<notin> set events"
  using assms
proof (induction ops arbitrary: d events)
  case (Cons x xs)
  obtain d1 e rest where s: "dispatch_step x d = Some (d1, e)" "dispatch_run xs d1 = Some (d', rest)"
      "events = (case e of None \<Rightarrow> rest | Some a \<Rightarrow> a # rest)"
    using Cons.prems(3) by (auto split: option.splits)
  have "foreign_ok d1" "e \<noteq> Some (QueuedPrompt item)"
    using foreign_ok_step [OF Cons.prems(1) _ s(1)] Cons.prems(2) by auto
  with Cons.IH [OF _ _ s(2)] Cons.prems(2) s(3) show ?case by (auto split: option.splits)
qed simp

text \<open>Another tenant subscribes to the queue while the owner's prompt runs, and its task starts first.\<close>

definition foreign_subscription :: "dispatch_op list" where
  "foreign_subscription = [CallReserves PromptCall, CallBegins True, Subscription False, Mutation True (prompt_request ''a''), TaskStarts False]"

theorem foreign_dispatcher_blocks_queue_witness:
  "\<exists>d. dispatch_run foreign_subscription (dispatch_new []) = Some (d, [DirectCall PromptCall]) \<and> foreign_ok d
     \<and> (\<forall>d' events. dispatch_run (serve d) d = Some (d', events) \<longrightarrow> QueuedPrompt item \<notin> set events)"
proof -
  let ?d = "\<lparr>dq_log = [mutation_record (prompt_request ''a'') replay_empty], dq_active = True, dq_worker = Waiting, dq_own = False,
    dq_spawned = [True], dq_reservation = ByCall PromptCall True, dq_in_flight = True\<rparr>"
  have run: "dispatch_run foreign_subscription (dispatch_new []) = Some (?d, [DirectCall PromptCall])"
    unfolding foreign_subscription_def by (simp add: run_defs prompt_mutation call_reserves_def call_begins_def)
  have ok: "foreign_ok ?d" using one_prompt_pending [of "''a''"] by (simp add: foreign_ok_def pending_def)
  have "\<forall>x\<in>set (serve ?d). no_way_out x" by (simp add: serve_def end_call_def no_way_out_def)
  from foreign_dispatcher_blocks_queue [OF ok this] run ok show ?thesis by blast
qed

section \<open>Witnesses\<close>

definition prompt_while_busy :: "dispatch_op list" where
  "prompt_while_busy = [CallReserves PromptCall, CallBegins True, Mutation True (prompt_request ''a''), TaskStarts True]"

definition busy :: "bool list \<Rightarrow> dispatch" where
  "busy spawned = \<lparr>dq_log = [mutation_record (prompt_request ''a'') replay_empty], dq_active = True, dq_worker = Waiting, dq_own = True,
     dq_spawned = spawned, dq_reservation = ByCall PromptCall True, dq_in_flight = True\<rparr>"

lemma busy_run:
  "dispatch_run prompt_while_busy (dispatch_new []) = Some (busy [], [DirectCall PromptCall])"
  "dispatch_run prompt_while_busy (spawn_queue_dispatcher True (dispatch_new [])) = Some (busy [True], [DirectCall PromptCall])"
  by (simp_all add: prompt_while_busy_def busy_def run_defs prompt_mutation call_reserves_def call_begins_def)

lemma busy_steps: "dq_worker (busy spawned) = Waiting" "dq_reservation (busy spawned) = ByCall PromptCall True"
    "dq_log (busy spawned) = [mutation_record (prompt_request ''a'') replay_empty]" "dq_in_flight (busy spawned)"
  by (simp_all add: busy_def)


theorem queued_prompt_is_sent_witness:
  "\<exists>d' before item. dispatch_run (CallEnds # next_item Waiting) (busy [True]) = Some (d', before @ [QueuedPrompt item])"
proof -
  have "careful prompt_while_busy (spawn_queue_dispatcher True (dispatch_new []))"
    by (simp add: prompt_while_busy_def careful_step_def run_defs prompt_mutation call_reserves_def call_begins_def)
  from queued_prompt_is_sent [OF busy_run(2) this] one_prompt_pending [of "''a''"] show ?thesis
    by (simp add: busy_steps serve_def end_call_def)
qed

definition resting :: "queue_record list \<Rightarrow> dispatch" where
  "resting log = (dispatch_new log)\<lparr>dq_active := True, dq_worker := Waiting\<rparr>"

theorem queue_sent_in_order_witness:
  "\<exists>d' items. dispatch_run (concat (replicate 2 one_turn_ops)) (resting (log_push (''b'', ''k2'', ''y'') (log_push (''a'', ''k1'', ''x'') [])))
       = Some (d', map QueuedPrompt items)
    \<and> map message_of items = [(''a'', ''k1'', ''x''), (''b'', ''k2'', ''y'')] \<and> log_items (dq_log d') = []"
proof -
  let ?log = "log_push (''b'', ''k2'', ''y'') (log_push (''a'', ''k1'', ''x'') [])"
  have items: "log_items ?log = [(''a'', ''k1'', ''x''), (''b'', ''k2'', ''y'')]" and ready: "log_ready ?log"
    by code_simp+
  have r: "dq_worker (resting ?log) = Waiting" "dq_own (resting ?log)" "dq_reservation (resting ?log) = Unreserved"
    "\<not> dq_in_flight (resting ?log)" "dq_log (resting ?log) = ?log"
    by (simp_all add: resting_def dispatch_new_def)
  show ?thesis
    using queue_sent_in_order [OF r(1-4)] ready unfolding r(5) items by (simp add: numeral_2_eq_2)
qed

end
