(* ===== verification/SessionRows.thy ===== *)
theory SessionRows
  imports Payload "HOL-Library.AList"
begin

text \<open>
  The durable record of sessions: \<open>acpx-core/src/persistence/sessions.rs\<close> and the statements on the table
  \<open>sessions\<close> in \<open>store.rs\<close>.  The table is a list of rows by their primary key; a statement is what its SQL
  does to the rows.  JSON columns are values, since \<open>serde_json\<close> reads back what it wrote; times are
  arguments.  The store also remembers the revision of each session that it has seen.
\<close>

section \<open>Rows\<close>

datatype recovery_status = StatusActive | StatusRestoring | StatusRestored | StatusRecoveryFailed | StatusClosed

datatype recovery_method = MethodLoad | MethodResume | MethodNone

fun recovery_status_str :: "recovery_status \<Rightarrow> string" where
  "recovery_status_str StatusActive = ''active''"
| "recovery_status_str StatusRestoring = ''restoring''"
| "recovery_status_str StatusRestored = ''restored''"
| "recovery_status_str StatusRecoveryFailed = ''recovery_failed''"
| "recovery_status_str StatusClosed = ''closed''"

fun recovery_method_str :: "recovery_method \<Rightarrow> string" where
  "recovery_method_str MethodLoad = ''load''"
| "recovery_method_str MethodResume = ''resume''"
| "recovery_method_str MethodNone = ''none''"

definition read_recovery_status :: "string \<Rightarrow> recovery_status option" where
  "read_recovery_status s =
     (if s = ''active'' then Some StatusActive
      else if s = ''restoring'' then Some StatusRestoring
      else if s = ''restored'' then Some StatusRestored
      else if s = ''recovery_failed'' then Some StatusRecoveryFailed
      else if s = ''closed'' then Some StatusClosed
      else None)"

definition read_recovery_method :: "string \<Rightarrow> recovery_method option" where
  "read_recovery_method s =
     (if s = ''load'' then Some MethodLoad
      else if s = ''resume'' then Some MethodResume
      else if s = ''none'' then Some MethodNone
      else None)"

text \<open>\<open>SessionRecord\<close> without its key; times in nanoseconds are \<open>i64\<close>.\<close>

record session_row =
  sw_agent :: string
  sw_backend :: string
  sw_profile :: "string option"
  sw_created_at :: string
  sw_closed_at :: "string option"
  sw_tenant :: string
  sw_cwd :: "string option"
  sw_recovery_params :: "json option"
  sw_status :: recovery_status
  sw_method :: recovery_method
  sw_last_error :: "string option"
  sw_pinned :: bool
  sw_created_nanos :: "int option"
  sw_activity_nanos :: "int option"
  sw_bridge_id :: "string option"
  sw_bridge_alias :: "string option"
  sw_bridge_options :: "json option"
  sw_idle_ttl_seconds :: "int option"
  sw_revision :: int
  sw_creation_id :: "string option"
  sw_creation_workspace :: "string option"
  sw_creation_params :: "string option"
  sw_creation_used :: bool

record recovery_metadata =
  rm_cwd :: "string option"
  rm_recovery_params :: "json option"
  rm_status :: recovery_status
  rm_method :: recovery_method
  rm_last_error :: "string option"
  rm_created_nanos :: "int option"
  rm_activity_nanos :: "int option"
  rm_pinned :: bool
  rm_bridge_id :: "string option"
  rm_bridge_alias :: "string option"
  rm_bridge_options :: "json option"

definition recovery_default :: recovery_metadata where
  "recovery_default =
     \<lparr>rm_cwd = None, rm_recovery_params = None, rm_status = StatusActive, rm_method = MethodNone, rm_last_error = None,
      rm_created_nanos = None, rm_activity_nanos = None, rm_pinned = False, rm_bridge_id = None, rm_bridge_alias = None,
      rm_bridge_options = None\<rparr>"

record creation_metadata =
  cm_request_id :: string
  cm_workspace_id :: "string option"
  cm_params_json :: string

record session_db =
  db_rows :: "(string \<times> session_row) list"
  db_revisions :: "(string \<times> int) list"

text \<open>The errors of the statements below; \<open>StoreFailed\<close> stands for the failures of SQLite itself.\<close>

datatype persistence_error = SessionNotFound string | UniqueViolation | RevisionUnknown string | StoreFailed

definition session_db_new :: session_db where
  "session_db_new = \<lparr>db_rows = [], db_revisions = []\<rparr>"

section \<open>Statements\<close>

definition get_row :: "string \<Rightarrow> session_db \<Rightarrow> session_row option" where
  "get_row g db = map_of (db_rows db) g"

text \<open>\<open>UPDATE sessions SET \<dots> WHERE gateway_session_id = ?\<close>, an error when it changes no row.\<close>

definition update_row :: "string \<Rightarrow> (session_row \<Rightarrow> session_row) \<Rightarrow> session_db \<Rightarrow> session_db \<times> (persistence_error + unit)" where
  "update_row g f db =
     (case get_row g db of
        None \<Rightarrow> (db, Inl (SessionNotFound g))
      | Some row \<Rightarrow> (db\<lparr>db_rows := AList.update g (f row) (db_rows db)\<rparr>, Inr ()))"

text \<open>The unique index on the tenant and the creation request.\<close>

definition creation_taken :: "string \<Rightarrow> string \<Rightarrow> session_db \<Rightarrow> bool" where
  "creation_taken t request db = list_ex (\<lambda>(g, row). sw_tenant row = t \<and> sw_creation_id row = Some request) (db_rows db)"

definition fresh_row ::
  "int \<Rightarrow> string \<Rightarrow> string \<Rightarrow> string option \<Rightarrow> string \<Rightarrow> string \<Rightarrow> recovery_metadata \<Rightarrow> creation_metadata option \<Rightarrow> session_row"
where
  "fresh_row now agent backend profile created tenant m creation =
     (let created_nanos = (case rm_created_nanos m of Some n \<Rightarrow> n | None \<Rightarrow> now)
      in \<lparr>sw_agent = agent, sw_backend = backend, sw_profile = profile, sw_created_at = created, sw_closed_at = None,
          sw_tenant = tenant, sw_cwd = rm_cwd m, sw_recovery_params = rm_recovery_params m, sw_status = rm_status m,
          sw_method = rm_method m, sw_last_error = rm_last_error m, sw_pinned = rm_pinned m,
          sw_created_nanos = Some created_nanos,
          sw_activity_nanos = Some (case rm_activity_nanos m of Some n \<Rightarrow> n | None \<Rightarrow> created_nanos),
          sw_bridge_id = rm_bridge_id m, sw_bridge_alias = rm_bridge_alias m, sw_bridge_options = rm_bridge_options m,
          sw_idle_ttl_seconds = None, sw_revision = 0,
          sw_creation_id = map_option cm_request_id creation,
          sw_creation_workspace = Option.bind creation cm_workspace_id,
          sw_creation_params = map_option cm_params_json creation, sw_creation_used = False\<rparr>)"

text \<open>\<open>record_session_with_recovery_and_creation\<close>: a known session only has its activity refreshed.\<close>

definition record_session ::
  "int \<Rightarrow> string \<Rightarrow> string \<Rightarrow> string \<Rightarrow> string option \<Rightarrow> string \<Rightarrow> string \<Rightarrow> recovery_metadata \<Rightarrow> creation_metadata option
    \<Rightarrow> session_db \<Rightarrow> session_db \<times> (persistence_error + unit)"
where
  "record_session now g agent backend profile created tenant m creation db =
     (let row = fresh_row now agent backend profile created tenant m creation
      in case get_row g db of
           Some old \<Rightarrow> (db\<lparr>db_rows := AList.update g (old\<lparr>sw_activity_nanos := sw_activity_nanos row\<rparr>) (db_rows db)\<rparr>, Inr ())
         | None \<Rightarrow>
             (if (case creation of None \<Rightarrow> False | Some c \<Rightarrow> creation_taken tenant (cm_request_id c) db)
              then (db, Inl UniqueViolation)
              else (db\<lparr>db_rows := db_rows db @ [(g, row)]\<rparr>, Inr ())))"

definition close_session :: "string \<Rightarrow> string \<Rightarrow> session_db \<Rightarrow> session_db \<times> (persistence_error + unit)" where
  "close_session g closed_at = update_row g (\<lambda>row. row\<lparr>sw_closed_at := Some closed_at, sw_status := StatusClosed\<rparr>)"

definition find_by_creation_request :: "string \<Rightarrow> string \<Rightarrow> session_db \<Rightarrow> (string \<times> session_row) option" where
  "find_by_creation_request t request db =
     find (\<lambda>(g, row). sw_tenant row = t \<and> sw_creation_id row = Some request) (db_rows db)"

definition mark_creation_used :: "string \<Rightarrow> session_db \<Rightarrow> session_db" where
  "mark_creation_used g db =
     fst (update_row g (\<lambda>row. if sw_creation_id row \<noteq> None then row\<lparr>sw_creation_used := True\<rparr> else row) db)"

text \<open>Texts are compared byte by byte; rows of the same time stay in the order of the table.\<close>

fun text_le :: "string \<Rightarrow> string \<Rightarrow> bool" where
  "text_le [] t = True"
| "text_le (c # s) [] = False"
| "text_le (c # s) (d # t) = (if c = d then text_le s t else (of_char c :: nat) < of_char d)"

fun insert_by_created :: "string \<times> session_row \<Rightarrow> (string \<times> session_row) list \<Rightarrow> (string \<times> session_row) list" where
  "insert_by_created x [] = [x]"
| "insert_by_created x (y # ys) =
     (if text_le (sw_created_at (snd x)) (sw_created_at (snd y)) then x # y # ys else y # insert_by_created x ys)"

definition order_by_created :: "(string \<times> session_row) list \<Rightarrow> (string \<times> session_row) list" where
  "order_by_created rows = foldr insert_by_created rows []"

definition list_session_rows :: "session_db \<Rightarrow> (string \<times> session_row) list" where
  "list_session_rows db = order_by_created (db_rows db)"

text \<open>\<open>COALESCE(last_activity_at_unix_nanos, created_at_unix_nanos, 0)\<close>.\<close>

definition last_known_nanos :: "session_row \<Rightarrow> int" where
  "last_known_nanos row =
     (case sw_activity_nanos row of Some n \<Rightarrow> n | None \<Rightarrow> (case sw_created_nanos row of Some n \<Rightarrow> n | None \<Rightarrow> 0))"

definition is_recoverable :: "int option \<Rightarrow> session_row \<Rightarrow> bool" where
  "is_recoverable cutoff row \<longleftrightarrow>
     sw_closed_at row = None \<and> sw_status row \<noteq> StatusClosed \<and> sw_status row \<noteq> StatusRecoveryFailed
     \<and> sw_method row \<in> {MethodLoad, MethodResume}
     \<and> (case cutoff of None \<Rightarrow> True | Some c \<Rightarrow> c \<le> last_known_nanos row)"

text \<open>The cutoff is computed in \<open>i64\<close> and saturates; the age is given in nanoseconds.\<close>

definition recovery_cutoff :: "int \<Rightarrow> nat option \<Rightarrow> int option" where
  "recovery_cutoff now max_age =
     map_option (\<lambda>age. max (- (2 ^ 63)) (min (2 ^ 63 - 1) (now - sint (word_of_nat age :: 64 word)))) max_age"

definition list_recoverable_sessions :: "int \<Rightarrow> nat option \<Rightarrow> session_db \<Rightarrow> (string \<times> session_row) list" where
  "list_recoverable_sessions now max_age db =
     order_by_created (filter (\<lambda>(g, row). is_recoverable (recovery_cutoff now max_age) row) (db_rows db))"

text \<open>\<open>ORDER BY created_at DESC LIMIT 1\<close>.\<close>

definition find_by_bridge_session_id :: "string \<Rightarrow> string \<Rightarrow> session_db \<Rightarrow> (string \<times> session_row) option" where
  "find_by_bridge_session_id t bridge db =
     (case rev (order_by_created (filter (\<lambda>(g, row). sw_bridge_id row = Some bridge \<and> sw_tenant row = t) (db_rows db))) of
        [] \<Rightarrow> None | x # xs \<Rightarrow> Some x)"

definition max_recovery_error_bytes :: nat where
  "max_recovery_error_bytes = 512"

text \<open>\<open>bound_recovery_error\<close>: one line, cut at the boundary of a character.\<close>

definition bound_recovery_error :: "string \<Rightarrow> string" where
  "bound_recovery_error e =
     (let flattened = map (\<lambda>c. if of_char c = (10 :: nat) \<or> of_char c = (13 :: nat) then CHR '' '' else c) e
      in if length flattened \<le> max_recovery_error_bytes then flattened
         else take (boundary_cut flattened max_recovery_error_bytes) flattened @ ''...'')"

definition update_recovery_status ::
  "string \<Rightarrow> recovery_status \<Rightarrow> string option \<Rightarrow> session_db \<Rightarrow> session_db \<times> (persistence_error + unit)"
where
  "update_recovery_status g status err =
     update_row g (\<lambda>row. row\<lparr>sw_status := status, sw_last_error := map_option bound_recovery_error err\<rparr>)"

definition recovery_status_count :: "recovery_status \<Rightarrow> session_db \<Rightarrow> nat" where
  "recovery_status_count status db = length (filter (\<lambda>(g, row). sw_status row = status) (db_rows db))"

definition update_session_activity :: "string \<Rightarrow> int \<Rightarrow> session_db \<Rightarrow> session_db \<times> (persistence_error + unit)" where
  "update_session_activity g now = update_row g (\<lambda>row. row\<lparr>sw_activity_nanos := Some now\<rparr>)"

definition update_session_pinned :: "string \<Rightarrow> bool \<Rightarrow> int \<Rightarrow> session_db \<Rightarrow> session_db \<times> (persistence_error + unit)" where
  "update_session_pinned g pin now = update_row g (\<lambda>row. row\<lparr>sw_pinned := pin, sw_activity_nanos := Some now\<rparr>)"

definition update_session_custom_ttl :: "string \<Rightarrow> int option \<Rightarrow> session_db \<Rightarrow> session_db \<times> (persistence_error + unit)" where
  "update_session_custom_ttl g ttl = update_row g (\<lambda>row. row\<lparr>sw_idle_ttl_seconds := ttl\<rparr>)"

definition update_bridge_binding :: "string \<Rightarrow> string \<Rightarrow> string \<Rightarrow> json \<Rightarrow> session_db \<Rightarrow> session_db \<times> (persistence_error + unit)" where
  "update_bridge_binding g bridge alias options =
     update_row g (\<lambda>row. row\<lparr>sw_bridge_id := Some bridge, sw_bridge_alias := Some alias, sw_bridge_options := Some options\<rparr>)"

section \<open>Revisions\<close>

definition bump_state_revision :: "string \<Rightarrow> session_db \<Rightarrow> session_db \<times> (persistence_error + int)" where
  "bump_state_revision g db =
     (case get_row g db of
        None \<Rightarrow> (db, Inl (SessionNotFound g))
      | Some row \<Rightarrow>
          (let revision = sw_revision row + 1;
               baseline = (case map_of (db_revisions db) g of None \<Rightarrow> 0 | Some n \<Rightarrow> n)
           in (db\<lparr>db_rows := AList.update g (row\<lparr>sw_revision := revision\<rparr>) (db_rows db),
                  db_revisions := AList.update g (max baseline revision) (db_revisions db)\<rparr>,
               Inr revision)))"

definition state_revision_changed :: "string \<Rightarrow> session_db \<Rightarrow> session_db \<times> (persistence_error + bool)" where
  "state_revision_changed g db =
     (case get_row g db of
        None \<Rightarrow> (db, Inl (RevisionUnknown g))
      | Some row \<Rightarrow>
          (let actual = sw_revision row;
               seen = db\<lparr>db_revisions := AList.update g actual (db_revisions db)\<rparr>
           in case map_of (db_revisions db) g of
                Some expected \<Rightarrow> if expected = actual then (db, Inr False) else (seen, Inr True)
              | None \<Rightarrow> (seen, Inr False)))"

section \<open>Laws of the table\<close>

lemma get_row_new [simp]: "get_row g session_db_new = None"
  by (simp add: get_row_def session_db_new_def)

lemma get_row_revisions [simp]: "get_row g (db\<lparr>db_revisions := rs\<rparr>) = get_row g db"
  by (simp add: get_row_def)

lemma get_row_set [simp]: "get_row g' (db\<lparr>db_rows := AList.update g row (db_rows db)\<rparr>) = (if g' = g then Some row else get_row g' db)"
  by (simp add: get_row_def update_conv')

lemma get_row_update [simp]:
  "get_row g' (fst (update_row g f db)) = (if g' = g then map_option f (get_row g db) else get_row g' db)"
  by (auto simp: update_row_def split: option.splits)

lemma update_row_ok [simp]: "snd (update_row g f db) = Inr () \<longleftrightarrow> get_row g db \<noteq> None"
  by (simp add: update_row_def split: option.splits)

lemma update_row_error: "get_row g db = None \<Longrightarrow> update_row g f db = (db, Inl (SessionNotFound g))"
  by (simp add: update_row_def)

lemma update_row_some: "get_row g db = Some row \<Longrightarrow>
    update_row g f db = (db\<lparr>db_rows := AList.update g (f row) (db_rows db)\<rparr>, Inr ())"
  by (simp add: update_row_def)

lemmas row_statements = close_session_def update_recovery_status_def update_session_activity_def update_session_pinned_def
  update_session_custom_ttl_def update_bridge_binding_def

lemma map_of_append_new: "map_of kvs k = None \<Longrightarrow> map_of (kvs @ [(k, v)]) k' = (if k' = k then Some v else map_of kvs k')"
  by (auto simp: map_add_def split: option.splits)

text \<open>Two rows of one tenant never carry the same creation request, and keys are unique.\<close>

definition rows_ok :: "session_db \<Rightarrow> bool" where
  "rows_ok db \<longleftrightarrow> distinct (map fst (db_rows db)) \<and>
     (\<forall>g g' row row' request. get_row g db = Some row \<longrightarrow> get_row g' db = Some row' \<longrightarrow> sw_tenant row = sw_tenant row' \<longrightarrow>
        sw_creation_id row = Some request \<longrightarrow> sw_creation_id row' = Some request \<longrightarrow> g = g')"

lemma rows_ok_new [simp]: "rows_ok session_db_new"
  by (simp add: rows_ok_def) (simp add: session_db_new_def)

lemma rows_ok_update:
  assumes "rows_ok db" and "\<And>row. sw_tenant (f row) = sw_tenant row" and "\<And>row. sw_creation_id (f row) = sw_creation_id row"
  shows "rows_ok (fst (update_row g f db))"
proof (cases "get_row g db")
  case None
  then show ?thesis using assms(1) by (simp add: update_row_error)
next
  case (Some row)
  have keys: "distinct (map fst (db_rows (fst (update_row g f db))))"
    using assms(1) Some by (simp add: update_row_some rows_ok_def distinct_update)
  have old: "\<exists>old. get_row k db = Some old \<and> sw_tenant old = sw_tenant r \<and> sw_creation_id old = sw_creation_id r"
    if "get_row k (fst (update_row g f db)) = Some r" for k r
    using that assms(2,3) by (cases "k = g") auto
  show ?thesis unfolding rows_ok_def
  proof (intro conjI allI impI)
    fix k k' r r' request
    assume "get_row k (fst (update_row g f db)) = Some r" "get_row k' (fst (update_row g f db)) = Some r'"
      "sw_tenant r = sw_tenant r'" "sw_creation_id r = Some request" "sw_creation_id r' = Some request"
    with old [of k r] old [of k' r'] assms(1) show "k = k'" unfolding rows_ok_def by metis
  qed (rule keys)
qed

lemma creation_taken_iff:
  "distinct (map fst (db_rows db)) \<Longrightarrow>
    creation_taken t request db \<longleftrightarrow> (\<exists>g row. get_row g db = Some row \<and> sw_tenant row = t \<and> sw_creation_id row = Some request)"
  by (auto simp: creation_taken_def get_row_def list_ex_iff)

end
