(* ===== verification/RowFacts.thy ===== *)
theory RowFacts
  imports SessionRows
begin

text \<open>
  Runs of statements on the table of sessions: a creation request belongs to one session for ever,
  statuses are read back as they are written, stored errors are bounded, and what the revisions of the
  store notice.
\<close>

section \<open>Runs\<close>

text \<open>\<open>ForeignWrite\<close> is a change of the revision by another program.\<close>

datatype row_op =
    RecordRow int string string string "string option" string string recovery_metadata "creation_metadata option"
  | CloseRow string string
  | StatusRow string recovery_status "string option"
  | ActivityRow string int
  | PinRow string bool int
  | TtlRow string "int option"
  | BridgeRow string string string json
  | UsedRow string
  | BumpRow string
  | AskRow string
  | ForeignWrite string int

fun row_apply :: "row_op \<Rightarrow> session_db \<Rightarrow> session_db" where
  "row_apply (RecordRow now g agent backend profile created t m creation) db =
     fst (record_session now g agent backend profile created t m creation db)"
| "row_apply (CloseRow g at_time) db = fst (close_session g at_time db)"
| "row_apply (StatusRow g status err) db = fst (update_recovery_status g status err db)"
| "row_apply (ActivityRow g now) db = fst (update_session_activity g now db)"
| "row_apply (PinRow g pin now) db = fst (update_session_pinned g pin now db)"
| "row_apply (TtlRow g ttl) db = fst (update_session_custom_ttl g ttl db)"
| "row_apply (BridgeRow g bridge alias options) db = fst (update_bridge_binding g bridge alias options db)"
| "row_apply (UsedRow g) db = mark_creation_used g db"
| "row_apply (BumpRow g) db = fst (bump_state_revision g db)"
| "row_apply (AskRow g) db = fst (state_revision_changed g db)"
| "row_apply (ForeignWrite g n) db = fst (update_row g (\<lambda>row. row\<lparr>sw_revision := n\<rparr>) db)"

definition row_run :: "row_op list \<Rightarrow> session_db \<Rightarrow> session_db" where
  "row_run ops db = fold row_apply ops db"

lemma row_run_simps [simp]:
  "row_run [] db = db"
  "row_run (x # xs) db = row_run xs (row_apply x db)"
  "row_run (xs @ ys) db = row_run ys (row_run xs db)"
  by (simp_all add: row_run_def)

section \<open>A row keeps its tenant and its request\<close>

lemma rows_of_record:
  "get_row g' (fst (record_session now g agent backend profile created t m creation db)) =
     (if g' = g
      then (case get_row g db of
              Some old \<Rightarrow> Some (old\<lparr>sw_activity_nanos := sw_activity_nanos (fresh_row now agent backend profile created t m creation)\<rparr>)
            | None \<Rightarrow> if (case creation of None \<Rightarrow> False | Some c \<Rightarrow> creation_taken t (cm_request_id c) db) then None
                      else Some (fresh_row now agent backend profile created t m creation))
      else get_row g' db)"
proof (cases "get_row g db")
  case None
  then have "map_of (db_rows db) g = None" by (simp add: get_row_def)
  from map_of_append_new [OF this] None show ?thesis by (simp add: record_session_def Let_def get_row_def)
qed (simp add: record_session_def Let_def)

lemma get_row_bump [simp]:
  "get_row g' (fst (bump_state_revision g db)) =
     (if g' = g then map_option (\<lambda>row. row\<lparr>sw_revision := sw_revision row + 1\<rparr>) (get_row g db) else get_row g' db)"
  by (auto simp: bump_state_revision_def get_row_def update_conv' Let_def split: option.splits)

lemma get_row_ask [simp]: "get_row g' (fst (state_revision_changed g db)) = get_row g' db"
  by (simp add: state_revision_changed_def Let_def split: option.splits)

lemma fresh_row_fields [simp]:
  "sw_tenant (fresh_row now agent backend profile created t m creation) = t"
  "sw_creation_id (fresh_row now agent backend profile created t m creation) = map_option cm_request_id creation"
  "sw_status (fresh_row now agent backend profile created t m creation) = rm_status m"
  "sw_closed_at (fresh_row now agent backend profile created t m creation) = None"
  by (simp_all add: fresh_row_def Let_def)

lemma row_kept:
  assumes "get_row g db = Some row"
  shows "\<exists>row'. get_row g (row_apply x db) = Some row' \<and> sw_tenant row' = sw_tenant row \<and> sw_creation_id row' = sw_creation_id row"
  using assms by (cases x) (auto simp: row_statements mark_creation_used_def rows_of_record simp del: map_option_eq_Some)

lemma row_kept_run:
  assumes "get_row g db = Some row"
  shows "\<exists>row'. get_row g (row_run ops db) = Some row' \<and> sw_tenant row' = sw_tenant row \<and> sw_creation_id row' = sw_creation_id row"
  using assms
proof (induction ops arbitrary: db row)
  case (Cons x xs)
  from row_kept [OF Cons.prems, of x] Cons.IH [of "row_apply x db"] show ?case by fastforce
qed simp

lemma distinct_rows_record:
  assumes "distinct (map fst (db_rows db))"
  shows "distinct (map fst (db_rows (fst (record_session now g agent backend profile created t m creation db))))"
proof -
  have "g \<notin> fst ` set (db_rows db)" if "get_row g db = None"
    using that by (metis get_row_def map_of_eq_None_iff)
  then show ?thesis using assms by (auto simp: record_session_def Let_def distinct_update split: option.splits)
qed

lemma rows_ok_record:
  assumes "rows_ok db"
  shows "rows_ok (fst (record_session now g agent backend profile created t m creation db))" (is "rows_ok ?db")
proof (cases "get_row g db")
  case None
  have d: "distinct (map fst (db_rows db))" using assms by (simp add: rows_ok_def)
  have keys: "distinct (map fst (db_rows ?db))" by (rule distinct_rows_record [OF d])
  show ?thesis
  proof (cases "case creation of None \<Rightarrow> False | Some c \<Rightarrow> creation_taken t (cm_request_id c) db")
    case True
    with None have "?db = db" by (simp add: record_session_def Let_def)
    with assms show ?thesis by simp
  next
    case False
    have rows: "get_row k ?db = (if k = g then Some (fresh_row now agent backend profile created t m creation) else get_row k db)" for k
      using None False by (simp add: rows_of_record)
    have free: "\<not> (sw_tenant r = t \<and> sw_creation_id r = map_option cm_request_id creation \<and> sw_creation_id r \<noteq> None)"
      if "get_row k db = Some r" for k r
      using that False creation_taken_iff [OF d, of t] by (auto split: option.splits)
    show ?thesis unfolding rows_ok_def
    proof (intro conjI allI impI)
      fix k k' r r' request
      assume a: "get_row k ?db = Some r" "get_row k' ?db = Some r'" "sw_tenant r = sw_tenant r'"
        "sw_creation_id r = Some request" "sw_creation_id r' = Some request"
      show "k = k'"
        using a free [of k r] free [of k' r'] assms
        unfolding rows rows_ok_def by (auto split: if_splits)
    qed (rule keys)
  qed
next
  case (Some old)
  then have "?db = fst (update_row g (\<lambda>row. row\<lparr>sw_activity_nanos := sw_activity_nanos (fresh_row now agent backend profile created t m creation)\<rparr>) db)"
    by (simp add: record_session_def update_row_def Let_def)
  then show ?thesis using rows_ok_update [OF assms] by simp
qed

lemma rows_ok_revisions [simp]: "rows_ok (db\<lparr>db_revisions := rs\<rparr>) = rows_ok db"
  by (simp add: rows_ok_def)

lemma bump_is_update:
  "\<exists>rs. fst (bump_state_revision g db) = fst (update_row g (\<lambda>row. row\<lparr>sw_revision := sw_revision row + 1\<rparr>) db)\<lparr>db_revisions := rs\<rparr>"
proof (cases "get_row g db")
  case None
  then show ?thesis by (intro exI [of _ "db_revisions db"]) (simp add: bump_state_revision_def update_row_def)
qed (auto simp: bump_state_revision_def update_row_def Let_def)

lemma ask_is_update: "\<exists>rs. fst (state_revision_changed g db) = db\<lparr>db_revisions := rs\<rparr>"
proof -
  have same: "\<exists>rs. db = db\<lparr>db_revisions := rs\<rparr>" by (rule exI [of _ "db_revisions db"]) simp
  then show ?thesis by (auto simp: state_revision_changed_def Let_def split: option.splits)
qed

lemma rows_ok_apply:
  assumes "rows_ok db"
  shows "rows_ok (row_apply x db)"
proof (cases x)
  case (BumpRow g)
  obtain rs where "row_apply x db = fst (update_row g (\<lambda>row. row\<lparr>sw_revision := sw_revision row + 1\<rparr>) db)\<lparr>db_revisions := rs\<rparr>"
    using bump_is_update [of g db] BumpRow by auto
  then show ?thesis using rows_ok_update [OF assms] by simp
next
  case (AskRow g)
  then show ?thesis using ask_is_update [of g db] assms by auto
qed (auto simp: row_statements mark_creation_used_def intro!: rows_ok_update rows_ok_record assms)

lemma rows_ok_run: "rows_ok db \<Longrightarrow> rows_ok (row_run ops db)"
  by (induction ops arbitrary: db) (simp_all add: rows_ok_apply)

lemma find_by_creation_iff:
  assumes "rows_ok db"
  shows "find_by_creation_request t request db = Some (g, row)
    \<longleftrightarrow> get_row g db = Some row \<and> sw_tenant row = t \<and> sw_creation_id row = Some request" (is "?l \<longleftrightarrow> ?r")
proof
  assume ?l
  then have "(g, row) \<in> set (db_rows db)" "sw_tenant row = t" "sw_creation_id row = Some request"
    unfolding find_by_creation_request_def find_Some_iff by (auto dest!: nth_mem)
  with assms show ?r by (simp add: rows_ok_def get_row_def)
next
  assume r: ?r
  then have "(g, row) \<in> set (db_rows db)" by (simp add: get_row_def map_of_SomeD)
  with r have "find_by_creation_request t request db \<noteq> None"
    unfolding find_by_creation_request_def find_None_iff by fastforce
  then obtain g' row' where f: "find_by_creation_request t request db = Some (g', row')" by auto
  then have "(g', row') \<in> set (db_rows db)" "sw_tenant row' = t" "sw_creation_id row' = Some request"
    unfolding find_by_creation_request_def find_Some_iff by (auto dest!: nth_mem)
  with assms have "get_row g' db = Some row'" by (simp add: rows_ok_def get_row_def)
  with r assms \<open>sw_tenant row' = t\<close> \<open>sw_creation_id row' = Some request\<close> have "g' = g" unfolding rows_ok_def by metis
  with f r \<open>get_row g' db = Some row'\<close> show ?l by simp
qed

text \<open>
  C23. A creation request belongs to one session of its tenant, whatever statements run afterwards: the
  lookup finds that session again, and no other session can be recorded for the request.
\<close>

theorem creation_request_has_one_session:
  assumes "find_by_creation_request t request (row_run ops session_db_new) = Some (g, row)"
  shows "(\<exists>row'. find_by_creation_request t request (row_run (ops @ later) session_db_new) = Some (g, row'))
    \<and> (get_row g' (row_run (ops @ later) session_db_new) = None \<longrightarrow> cm_request_id c = request \<longrightarrow>
        record_session now g' agent backend profile created t m (Some c) (row_run (ops @ later) session_db_new)
          = (row_run (ops @ later) session_db_new, Inl UniqueViolation))"
proof -
  let ?db = "row_run ops session_db_new" and ?db' = "row_run later (row_run ops session_db_new)"
  have ok: "rows_ok ?db" "rows_ok ?db'" by (simp_all add: rows_ok_run)
  from assms ok(1) have r: "get_row g ?db = Some row" "sw_tenant row = t" "sw_creation_id row = Some request"
    by (simp_all add: find_by_creation_iff)
  from row_kept_run [OF r(1), of later] r(2,3) obtain row' where
    r': "get_row g ?db' = Some row'" "sw_tenant row' = t" "sw_creation_id row' = Some request" by auto
  then have "creation_taken t request ?db'" using ok(2) by (auto simp: creation_taken_iff rows_ok_def)
  moreover have "find_by_creation_request t request ?db' = Some (g, row')" using r' ok(2) by (simp add: find_by_creation_iff)
  ultimately show ?thesis by (simp add: record_session_def Let_def)
qed

definition asked_twice :: creation_metadata where
  "asked_twice = \<lparr>cm_request_id = ''r'', cm_workspace_id = None, cm_params_json = ''{}''\<rparr>"

definition one_record :: "row_op list" where
  "one_record = [RecordRow 1 ''g'' ''a'' ''b'' None ''2025'' ''t'' recovery_default (Some asked_twice)]"

lemma creation_request_has_one_session_witness:
  "record_session 2 ''h'' ''a'' ''b'' None ''2026'' ''t'' recovery_default (Some asked_twice)
      (row_run (one_record @ [CloseRow ''g'' ''2025'']) session_db_new)
    = (row_run (one_record @ [CloseRow ''g'' ''2025'']) session_db_new, Inl UniqueViolation)"
proof -
  let ?row = "fresh_row 1 ''a'' ''b'' None ''2025'' ''t'' recovery_default (Some asked_twice)"
  have f: "find_by_creation_request ''t'' ''r'' (row_run one_record session_db_new) = Some (''g'', ?row)"
    by (simp add: one_record_def record_session_def Let_def find_by_creation_request_def creation_taken_def session_db_new_def
        get_row_def asked_twice_def)
  have "get_row ''h'' (row_run (one_record @ [CloseRow ''g'' ''2025'']) session_db_new) = None"
    by (simp add: one_record_def row_statements rows_of_record)
  with creation_request_has_one_session [OF f, where later = "[CloseRow ''g'' ''2025'']"] show ?thesis
    by (simp add: asked_twice_def)
qed

section \<open>Statuses and errors\<close>

lemma status_round_trip [simp]: "read_recovery_status (recovery_status_str s) = Some s"
  by (cases s) (simp_all add: read_recovery_status_def)

lemma method_round_trip [simp]: "read_recovery_method (recovery_method_str x) = Some x"
  by (cases x) (simp_all add: read_recovery_method_def)

lemma cut_bounded:
  assumes "\<forall>c\<in>set s. P c" and "P CHR ''.''"
  shows "length (if length s \<le> 512 then s else take (boundary_cut s 512) s @ ''...'') \<le> 515
    \<and> (\<forall>c\<in>set (if length s \<le> 512 then s else take (boundary_cut s 512) s @ ''...''). P c)"
  using boundary_cut_le [of s 512] assms by (auto dest: in_set_takeD)

text \<open>A stored error is one line of at most 515 bytes.\<close>

lemma stored_error_is_bounded:
  "length (bound_recovery_error e) \<le> 515
    \<and> (\<forall>c\<in>set (bound_recovery_error e). of_char c \<noteq> (10 :: nat) \<and> of_char c \<noteq> (13 :: nat))"
  unfolding bound_recovery_error_def Let_def max_recovery_error_bytes_def by (rule cut_bounded) auto

section \<open>Revisions\<close>

fun is_foreign :: "row_op \<Rightarrow> bool" where
  "is_foreign (ForeignWrite g n) = True"
| "is_foreign x = False"

definition revisions_ok :: "session_db \<Rightarrow> bool" where
  "revisions_ok db \<longleftrightarrow>
     (\<forall>g row. get_row g db = Some row \<longrightarrow> 0 \<le> sw_revision row) \<and>
     (\<forall>g n. map_of (db_revisions db) g = Some n \<longrightarrow> (\<exists>row. get_row g db = Some row \<and> sw_revision row = n))"

lemma revisions_okD:
  assumes "revisions_ok db"
  shows "get_row g db = Some row \<Longrightarrow> 0 \<le> sw_revision row"
    and "map_of (db_revisions db) g = Some n \<Longrightarrow> get_row g db = Some row \<Longrightarrow> sw_revision row = n"
    and "map_of (db_revisions db) g = Some n \<Longrightarrow> get_row g db \<noteq> None"
  using assms unfolding revisions_ok_def by fastforce+

lemma revisions_of_statements [simp]:
  "db_revisions (fst (update_row g f db)) = db_revisions db"
  "db_revisions (fst (record_session now g agent backend profile created t m creation db)) = db_revisions db"
  by (simp_all add: update_row_def record_session_def Let_def split: option.splits)

lemma revisions_ok_keep:
  assumes "revisions_ok db" and "db_revisions db' = db_revisions db"
    and "\<And>g row. get_row g db = Some row \<Longrightarrow> \<exists>row'. get_row g db' = Some row' \<and> sw_revision row' = sw_revision row"
    and "\<And>g row'. get_row g db' = Some row' \<Longrightarrow> get_row g db = None \<Longrightarrow> sw_revision row' = 0"
  shows "revisions_ok db'"
  unfolding revisions_ok_def
proof (intro conjI allI impI)
  fix g row' assume r: "get_row g db' = Some row'"
  show "0 \<le> sw_revision row'"
  proof (cases "get_row g db")
    case None
    with assms(4) [OF r] show ?thesis by simp
  next
    case (Some row)
    with assms(3) [of g row] r assms(1) show ?thesis by (auto simp: revisions_ok_def)
  qed
next
  fix g n assume "map_of (db_revisions db') g = Some n"
  then obtain row where "get_row g db = Some row" "sw_revision row = n"
    using revisions_okD(2,3) [OF assms(1), of g n] assms(2) by auto
  with assms(3) show "\<exists>row. get_row g db' = Some row \<and> sw_revision row = n" by fastforce
qed

lemma revisions_ok_bump:
  assumes "revisions_ok db"
  shows "revisions_ok (fst (bump_state_revision g db))"
proof (cases "get_row g db")
  case None
  then show ?thesis using assms by (simp add: bump_state_revision_def)
next
  case (Some row)
  have pos: "0 \<le> sw_revision row" using assms Some by (simp add: revisions_ok_def)
  have base: "max (case map_of (db_revisions db) g of None \<Rightarrow> 0 | Some n \<Rightarrow> n) (sw_revision row + 1) = sw_revision row + 1"
    using revisions_okD(2) [OF assms _ Some] pos by (simp split: option.split)
  have "db_revisions (fst (bump_state_revision g db)) = AList.update g (sw_revision row + 1) (db_revisions db)"
    using Some base by (simp add: bump_state_revision_def Let_def)
  with assms Some pos show ?thesis unfolding revisions_ok_def get_row_bump by (auto simp: update_conv')
qed

lemma ask_answer: "get_row g db = Some row \<Longrightarrow> map_of (db_revisions db) g = Some n \<Longrightarrow>
    snd (state_revision_changed g db) = Inr (sw_revision row \<noteq> n)"
  by (simp add: state_revision_changed_def Let_def)

lemma ask_known: "revisions_ok db \<Longrightarrow> get_row g db = Some row \<Longrightarrow> snd (state_revision_changed g db) = Inr False"
  using revisions_okD(2) [of db g _ row] by (simp add: state_revision_changed_def Let_def split: option.split)

lemma revisions_ok_ask:
  assumes "revisions_ok db"
  shows "revisions_ok (fst (state_revision_changed g db))"
  using assms by (auto simp: state_revision_changed_def revisions_ok_def Let_def update_conv' split: option.splits)

lemma revisions_ok_apply:
  assumes "revisions_ok db" and "\<not> is_foreign x"
  shows "revisions_ok (row_apply x db)"
proof (cases x)
  case BumpRow
  then show ?thesis using assms(1) by (simp add: revisions_ok_bump)
next
  case AskRow
  then show ?thesis using assms(1) by (simp add: revisions_ok_ask)
next
  case (ForeignWrite g n)
  then show ?thesis using assms(2) by simp
qed (auto simp: row_statements mark_creation_used_def rows_of_record fresh_row_def Let_def split: option.splits if_splits
      simp del: map_option_eq_Some intro!: revisions_ok_keep [OF assms(1)])

lemma revisions_ok_run: "revisions_ok db \<Longrightarrow> \<forall>x\<in>set ops. \<not> is_foreign x \<Longrightarrow> revisions_ok (row_run ops db)"
  by (induction ops arbitrary: db) (simp_all add: revisions_ok_apply)

lemma revisions_ok_new: "revisions_ok session_db_new"
  by (simp add: revisions_ok_def) (simp add: session_db_new_def)

text \<open>
  The writes of the store itself are never taken for changes from outside, and a change from outside is
  noticed when the store asks next.
\<close>

theorem own_writes_are_not_drift:
  assumes "\<forall>x\<in>set ops. \<not> is_foreign x" and "get_row g (row_run ops session_db_new) = Some row"
  shows "snd (state_revision_changed g (row_run ops session_db_new)) = Inr False
    \<and> (n \<noteq> sw_revision row \<longrightarrow>
        snd (state_revision_changed g (row_run (ops @ [AskRow g, ForeignWrite g n]) session_db_new)) = Inr True)"
proof -
  let ?db = "row_run ops session_db_new"
  have ok: "revisions_ok ?db" using assms(1) by (simp add: revisions_ok_run revisions_ok_new)
  have known: "map_of (db_revisions (fst (state_revision_changed g ?db))) g = Some (sw_revision row)"
    using revisions_okD(2) [OF ok _ assms(2)] assms(2) by (simp add: state_revision_changed_def Let_def update_conv' split: option.split)
  have "snd (state_revision_changed g (row_apply (ForeignWrite g n) (row_apply (AskRow g) ?db))) = Inr True" if "n \<noteq> sw_revision row"
    using assms(2) known that by (simp add: state_revision_changed_def [of g "fst (update_row _ _ _)"] Let_def)
  then show ?thesis using ask_known [OF ok assms(2)] by simp
qed

lemma own_writes_are_not_drift_witness:
  "snd (state_revision_changed ''g'' (row_run (one_record @ [BumpRow ''g''] @ [AskRow ''g'', ForeignWrite ''g'' 7]) session_db_new)) = Inr True"
proof -
  have r: "\<exists>row. get_row ''g'' (row_run (one_record @ [BumpRow ''g'']) session_db_new) = Some row \<and> sw_revision row \<noteq> 7"
    by (simp add: one_record_def rows_of_record creation_taken_def fresh_row_def Let_def del: map_option_eq_Some) (simp add: session_db_new_def)
  then obtain row where row: "get_row ''g'' (row_run (one_record @ [BumpRow ''g'']) session_db_new) = Some row" "sw_revision row \<noteq> 7"
    by blast
  have "\<forall>x\<in>set (one_record @ [BumpRow ''g'']). \<not> is_foreign x" by (simp add: one_record_def)
  from own_writes_are_not_drift [OF this row(1), of 7] row(2) show ?thesis by simp
qed

text \<open>
  A change from outside followed by a write of the store goes unnoticed: the write takes the revision that
  the other program left as its own.
\<close>

theorem bump_hides_foreign_write:
  assumes "get_row g db = Some row" and "map_of (db_revisions db) g = Some (sw_revision row)" and "sw_revision row \<le> n"
  shows "snd (state_revision_changed g (row_run [ForeignWrite g n, BumpRow g] db)) = Inr False"
proof -
  let ?db = "fst (update_row g (\<lambda>row. row\<lparr>sw_revision := n\<rparr>) db)"
  have row: "get_row g ?db = Some (row\<lparr>sw_revision := n\<rparr>)" using assms(1) by simp
  have "map_of (db_revisions (fst (bump_state_revision g ?db))) g = Some (n + 1)"
    unfolding bump_state_revision_def row using assms(2,3) by (simp add: Let_def update_conv')
  moreover have "get_row g (fst (bump_state_revision g ?db)) = Some (row\<lparr>sw_revision := n + 1\<rparr>)" using assms(1) by simp
  ultimately show ?thesis by (simp del: get_row_bump add: ask_answer)
qed

lemma bump_hides_foreign_write_witness:
  "snd (state_revision_changed ''g'' (row_run [ForeignWrite ''g'' 5, BumpRow ''g''] (row_run (one_record @ [BumpRow ''g'']) session_db_new)))
    = Inr False"
proof -
  let ?db = "row_run (one_record @ [BumpRow ''g'']) session_db_new"
  have "\<exists>row. get_row ''g'' ?db = Some row \<and> sw_revision row = 1 \<and> map_of (db_revisions ?db) ''g'' = Some 1"
    by (simp add: one_record_def rows_of_record record_session_def creation_taken_def session_db_new_def fresh_row_def Let_def get_row_def
        bump_state_revision_def update_conv' asked_twice_def)
  then obtain row where row: "get_row ''g'' ?db = Some row" "sw_revision row = 1" "map_of (db_revisions ?db) ''g'' = Some 1" by blast
  show ?thesis by (rule bump_hides_foreign_write [OF row(1)]) (use row in simp_all)
qed

end
