(* ===== verification/SessionLife.thy ===== *)
theory SessionLife
  imports Gateway SessionRows JsonPath
begin

text \<open>
  The life of a session in \<open>acpx-core/src/router.rs\<close>: the live registry (\<open>Gateway\<close>) and the durable rows
  (\<open>SessionRows\<close>) together.  A session is brought back on demand or at start-up, pinned, given its own
  idle time, reaped, and its backend process is stopped when nobody refers to it.  Each operation is
  what the router does under its lock; what a backend answers, the clocks and the result of resolving a
  profile are arguments.  A panic is \<open>None\<close>.
\<close>

section \<open>State\<close>

record life_settings =
  ls_lifecycle :: lifecycle_config
  ls_on_demand :: bool
  ls_tenant_isolation :: bool

text \<open>\<open>lf_stopped\<close> are the supervisor keys whose process the router has asked to stop.\<close>

record life =
  lf_gateway :: gateway
  lf_store :: "session_db option"
  lf_unreferenced :: "(string \<times> instant) list"
  lf_stopped :: "string list"

datatype life_error =
    UnknownSession string
  | SessionNotPersisted string
  | SessionRestoring string
  | NotAdmitted admission_error
  | RowError persistence_error
  | PinQuotaExceeded tenant_id nat nat
  | UnknownProfile string
  | InvalidRecoveryParams string
  | BackendError json
  | BackendCallFailed
  | RecoveryTimeout string
  | MissingMethod
  | MissingId
  | MissingSessionId
  | MissingParams
  | InvalidCreationMetadata string
  | SessionCreationConflict string string
  | ConflictingSessionSelection
  | AgentDisabled string
  | UnknownProviderRef string string
  | KeyUnavailable string
  | UnknownAgentId string
  | MissingBackendSessionId
  | InvalidSessionEstablishParams string
  | CustomAgentIdConflict string
  | NoLaunchableDistribution string string

definition life_new :: "session_db option \<Rightarrow> life" where
  "life_new store = \<lparr>lf_gateway = gateway_new, lf_store = store, lf_unreferenced = [], lf_stopped = []\<rparr>"

abbreviation lf_registry :: "life \<Rightarrow> session_registry" where
  "lf_registry l \<equiv> gw_registry (lf_gateway l)"

abbreviation lookup_session :: "tenant_id \<Rightarrow> string \<Rightarrow> life \<Rightarrow> session_entry option" where
  "lookup_session t g l \<equiv> reg_resolve t g (lf_registry l)"

definition on_gateway :: "(gateway \<Rightarrow> gateway) \<Rightarrow> life \<Rightarrow> life" where
  "on_gateway f l = l\<lparr>lf_gateway := f (lf_gateway l)\<rparr>"

text \<open>A mutation of one live session.\<close>

definition change_session :: "tenant_id \<Rightarrow> string \<Rightarrow> (session_entry \<Rightarrow> session_entry) \<Rightarrow> life \<Rightarrow> life" where
  "change_session t g f = on_gateway (\<lambda>gw. gw\<lparr>gw_registry := fst (update_session t g f (gw_registry gw))\<rparr>)"

section \<open>Methods\<close>

datatype method_class = GatewayNative | Hybrid | Proxied | SessionFork | UnknownClass

definition gateway_native_methods :: "string list" where
  "gateway_native_methods =
     [''initialize'', ''authenticate'', ''logout'',
      ''agents/list'', ''agents/install'', ''agents/status'', ''session/list'', ''acpx/sessions/subscribe'',
      ''acpx/sessions/paginate'', ''acpx/sessions/sync'', ''acpx/sessions/queue/subscribe'', ''session/queue'', ''session/steer'',
      ''permission_profiles/list'', ''session/permission_profile/get'', ''session/permission_profile/set'',
      ''models/list'',
      ''profiles/create'', ''profiles/list'', ''profiles/update'', ''profiles/delete'',
      ''mcp_servers/create'', ''mcp_servers/list'', ''mcp_servers/update'', ''mcp_servers/delete'', ''mcp_servers/authenticate'',
      ''mcp_servers/logout'', ''mcp_servers/tools_fetch'',
      ''session/retention/get'', ''session/retention/list'', ''session/retention/pin'', ''session/retention/unpin'',
      ''session/retention/set_ttl'',
      ''terminal/kill'']"

definition proxied_methods :: "string list" where
  "proxied_methods =
     [''session/prompt'', ''session/resume'', ''session/load'', ''session/close'', ''session/set_mode'', ''session/cancel'',
      ''session/set_config_option'', ''session/delete'']"

definition classify :: "string \<Rightarrow> method_class" where
  "classify meth =
     (if meth = ''session/new'' then Hybrid
      else if meth \<in> set proxied_methods then Proxied
      else if meth = ''session/fork'' then SessionFork
      else if meth \<in> set gateway_native_methods then GatewayNative
      else UnknownClass)"

definition is_reload :: "string \<Rightarrow> bool" where
  "is_reload meth \<longleftrightarrow> meth = ''session/load'' \<or> meth = ''session/resume''"

section \<open>Supervisor keys\<close>

definition profile_supervisor_key :: "life_settings \<Rightarrow> string \<Rightarrow> tenant_id \<Rightarrow> string" where
  "profile_supervisor_key ls name t =
     (if ls_tenant_isolation ls then ''profile:'' @ name @ '':tenant:'' @ t else ''profile:'' @ name)"

definition is_session_scoped_supervisor_key :: "string \<Rightarrow> bool" where
  "is_session_scoped_supervisor_key key \<longleftrightarrow> contains key '':session:''"

definition stop_if_session_scoped :: "string \<Rightarrow> life \<Rightarrow> life" where
  "stop_if_session_scoped key l =
     (if is_session_scoped_supervisor_key key then l\<lparr>lf_stopped := lf_stopped l @ [key]\<rparr> else l)"

definition mark_unreferenced_if_idle :: "life_settings \<Rightarrow> instant \<Rightarrow> string \<Rightarrow> life \<Rightarrow> life" where
  "mark_unreferenced_if_idle ls now key l =
     (if connector_idle_shutdown_ttl (ls_lifecycle ls) = None then l
      else if is_session_scoped_supervisor_key key \<or> \<not> (take 8 key = ''profile:'') then l
      else if count_by_agent_id key (lf_registry l) = 0 \<and> map_of (lf_unreferenced l) key = None
           then l\<lparr>lf_unreferenced := AList.update key now (lf_unreferenced l)\<rparr>
      else l)"

definition cancel_unreferenced_shutdown :: "string \<Rightarrow> life \<Rightarrow> life" where
  "cancel_unreferenced_shutdown key l = l\<lparr>lf_unreferenced := AList.delete key (lf_unreferenced l)\<rparr>"

text \<open>\<open>reap_unreferenced_backends\<close>: \<open>stops\<close> tells whether the supervisor stops a process without an error.\<close>

fun stop_expired :: "(string \<Rightarrow> bool) \<Rightarrow> string list \<Rightarrow> life \<Rightarrow> life \<times> nat" where
  "stop_expired stops [] l = (l, 0)"
| "stop_expired stops (key # keys) l =
     (let l1 = cancel_unreferenced_shutdown key l
      in if count_by_agent_id key (lf_registry l1) \<noteq> 0 then stop_expired stops keys l1
         else (let l2 = l1\<lparr>lf_stopped := lf_stopped l1 @ [key]\<rparr>;
                   (l3, n) = stop_expired stops keys l2
               in (l3, if stops key then n + 1 else n)))"

definition reap_unreferenced_backends :: "life_settings \<Rightarrow> (string \<Rightarrow> bool) \<Rightarrow> instant \<Rightarrow> life \<Rightarrow> life \<times> nat" where
  "reap_unreferenced_backends ls stops now l =
     (case connector_idle_shutdown_ttl (ls_lifecycle ls) of
        None \<Rightarrow> (l, 0)
      | Some ttl \<Rightarrow>
          stop_expired stops (map fst (filter (\<lambda>(key, since). ttl \<le> saturating_since now since) (lf_unreferenced l))) l)"

section \<open>From a row to a live session\<close>

text \<open>
  \<open>restore_lifecycle_instant\<close>: \<open>nanos\<close> is the wall clock in nanoseconds, in \<open>i64\<close>; an age before the origin of
  the monotonic clock restarts at \<open>now\<close>.
\<close>

definition sat_i64 :: "int \<Rightarrow> int" where
  "sat_i64 n = max (- (2 ^ 63)) (min (2 ^ 63 - 1) n)"

definition restore_lifecycle_instant :: "instant \<Rightarrow> int \<Rightarrow> int option \<Rightarrow> instant" where
  "restore_lifecycle_instant now nanos stored =
     (case stored of
        None \<Rightarrow> now
      | Some n \<Rightarrow>
          if n \<le> 0 then now
          else (let elapsed = sat_i64 (nanos - n);
                    age = (if elapsed < 0 then 2 ^ 64 - 1 else nat elapsed)
                in if age \<le> now then now - age else now))"

definition row_entry :: "instant \<Rightarrow> int \<Rightarrow> string \<Rightarrow> session_row \<Rightarrow> session_entry" where
  "row_entry now nanos key row =
     \<lparr>agent_id = key, backend_session_id = sw_backend row, profile_name = sw_profile row, cwd = sw_cwd row,
      created_at = restore_lifecycle_instant now nanos (sw_created_nanos row),
      last_activity_at = restore_lifecycle_instant now nanos (sw_activity_nanos row),
      in_flight = 0, in_flight_since = None, pinned = sw_pinned row,
      custom_idle_ttl = map_option (\<lambda>secs. from_secs (nat (max secs 0))) (sw_idle_ttl_seconds row),
      capacity_counted = True\<rparr>"

text \<open>\<open>resolve_profile\<close> answers the key of a profile that exists; \<open>profiles\<close> is what it finds.\<close>

definition resolve_key ::
  "life_settings \<Rightarrow> (string \<Rightarrow> life_error + unit) \<Rightarrow> tenant_id \<Rightarrow> session_row \<Rightarrow> life_error + string"
where
  "resolve_key ls profiles t row =
     (case sw_profile row of
        None \<Rightarrow> Inr (sw_agent row)
      | Some name \<Rightarrow> (case profiles name of Inl e \<Rightarrow> Inl e | Inr u \<Rightarrow> Inr (profile_supervisor_key ls name t)))"

text \<open>The guards of \<open>Router::rehydrate_session\<close>: the row that may come back, or the error.\<close>

definition row_to_revive :: "life_settings \<Rightarrow> tenant_id \<Rightarrow> string \<Rightarrow> string \<Rightarrow> life \<Rightarrow> life_error + session_row" where
  "row_to_revive ls t meth g l =
     (if classify meth \<notin> {Proxied, SessionFork} then Inl (UnknownSession g)
      else if \<not> ls_on_demand ls then Inl (UnknownSession g)
      else case lf_store l of
             None \<Rightarrow> Inl (if is_reload meth then SessionNotPersisted g else UnknownSession g)
           | Some db \<Rightarrow>
               (case get_row g db of
                  None \<Rightarrow> Inl (UnknownSession g)
                | Some row \<Rightarrow>
                    if sw_tenant row \<noteq> t then Inl (SessionNotPersisted g)
                    else if sw_status row = StatusRestoring then Inl (SessionRestoring g)
                    else if sw_status row = StatusRecoveryFailed \<and> \<not> is_reload meth then Inl (UnknownSession g)
                    else Inr row))"

definition revive_session ::
  "life_settings \<Rightarrow> (string \<Rightarrow> life_error + unit) \<Rightarrow> instant \<Rightarrow> int \<Rightarrow> tenant_id \<Rightarrow> string \<Rightarrow> string \<Rightarrow> life
    \<Rightarrow> (life \<times> (life_error + session_entry)) option"
where
  "revive_session ls profiles now nanos t meth g l =
     (case row_to_revive ls t meth g l of
        Inl e \<Rightarrow> Some (l, Inl e)
      | Inr row \<Rightarrow>
          (case resolve_key ls profiles t row of
             Inl e \<Rightarrow> Some (l, Inl e)
           | Inr key \<Rightarrow>
               (let entry = row_entry now nanos key row
                in case rehydrate_session (ls_lifecycle ls) t g entry (lf_gateway l) of
                     None \<Rightarrow> None
                   | Some (Inl e) \<Rightarrow> Some (l, Inl (NotAdmitted e))
                   | Some (Inr gw) \<Rightarrow> Some (cancel_unreferenced_shutdown key (l\<lparr>lf_gateway := gw\<rparr>), Inr entry))))"

text \<open>How the callers look a session up: the registry first, then the table.\<close>

definition resolve_or_revive ::
  "life_settings \<Rightarrow> (string \<Rightarrow> life_error + unit) \<Rightarrow> instant \<Rightarrow> int \<Rightarrow> tenant_id \<Rightarrow> string \<Rightarrow> string \<Rightarrow> life
    \<Rightarrow> (life \<times> (life_error + session_entry)) option"
where
  "resolve_or_revive ls profiles now nanos t meth g l =
     (case lookup_session t g l of
        Some e \<Rightarrow> Some (l, Inr e)
      | None \<Rightarrow> revive_session ls profiles now nanos t meth g l)"

section \<open>Closing in the background\<close>

fun background_value :: "json \<Rightarrow> bool option" where
  "background_value (JBool b) = Some b"
| "background_value (JString s) =
     (if to_ascii_lowercase s = ''off'' then Some False
      else if to_ascii_lowercase s = ''on'' then Some True else None)"
| "background_value v = None"

definition take_background_override :: "json \<Rightarrow> json \<times> bool option" where
  "take_background_override request =
     (case (request, pointer [''params''] request, pointer [''params'', ''_acpx''] request) of
        (JObject kvs, Some (JObject params), Some (JObject extension)) \<Rightarrow>
          (let override = Option.bind (map_of extension ''bg'') background_value;
               extension' = AList.delete ''bg'' extension;
               params' = (if extension' = [] then AList.delete ''_acpx'' params
                          else AList.update ''_acpx'' (JObject extension') params)
           in (JObject (AList.update ''params'' (JObject params') kvs), override))
      | _ \<Rightarrow> (request, None))"

definition background_close_reply :: "json \<Rightarrow> json" where
  "background_close_reply i =
     JObject [(''jsonrpc'', JString ''2.0''), (''id'', i), (''result'', JObject []),
              (''_acpx'', JObject [(''backgroundClose'', JBool True)])]"

text \<open>\<open>maybe_suppress_close\<close>: the request as it goes on, and the answer when the close is suppressed.\<close>

definition maybe_suppress_close ::
  "life_settings \<Rightarrow> (string \<Rightarrow> life_error + unit) \<Rightarrow> instant \<Rightarrow> int \<Rightarrow> tenant_id \<Rightarrow> json \<Rightarrow> life
    \<Rightarrow> (life \<times> (life_error + json \<times> json option)) option"
where
  "maybe_suppress_close ls profiles now nanos t request l =
     (let (request', override) = take_background_override request;
          background = (case override of Some b \<Rightarrow> b | None \<Rightarrow> background_mode (ls_lifecycle ls))
      in if \<not> background then Some (l, Inr (request', None))
         else case json_get ''id'' request' of
                None \<Rightarrow> Some (l, Inl MissingId)
              | Some i \<Rightarrow>
                  (case str_at [''params'', ''sessionId''] request' of
                     None \<Rightarrow> Some (l, Inl MissingSessionId)
                   | Some g \<Rightarrow>
                       (case resolve_or_revive ls profiles now nanos t ''session/close'' g l of
                          None \<Rightarrow> None
                        | Some (l', Inl e) \<Rightarrow> Some (l', Inl e)
                        | Some (l', Inr entry) \<Rightarrow> Some (l', Inr (request', Some (background_close_reply i))))))"

section \<open>Retention\<close>

text \<open>\<open>set_session_pinned\<close>: the row first, then the registry; a row that cannot be written leaves both.\<close>

definition write_through ::
  "(session_db \<Rightarrow> session_db \<times> (persistence_error + unit)) \<Rightarrow> tenant_id \<Rightarrow> string \<Rightarrow> (session_entry \<Rightarrow> session_entry) \<Rightarrow> life
    \<Rightarrow> life \<times> (life_error + unit)"
where
  "write_through stmt t g f l =
     (if lookup_session t g l = None then (l, Inl (UnknownSession g))
      else case lf_store l of
             None \<Rightarrow> (change_session t g f l, Inr ())
           | Some db \<Rightarrow>
               (case stmt db of
                  (db', Inl e) \<Rightarrow> (l\<lparr>lf_store := Some db'\<rparr>, Inl (RowError e))
                | (db', Inr u) \<Rightarrow> (change_session t g f (l\<lparr>lf_store := Some db'\<rparr>), Inr ())))"

definition set_session_pinned :: "instant \<Rightarrow> int \<Rightarrow> tenant_id \<Rightarrow> string \<Rightarrow> bool \<Rightarrow> life \<Rightarrow> life \<times> (life_error + unit)" where
  "set_session_pinned now nanos t g pin =
     write_through (update_session_pinned g pin nanos) t g (\<lambda>e. e\<lparr>pinned := pin, last_activity_at := now\<rparr>)"

definition set_session_pinned_administered ::
  "life_settings \<Rightarrow> instant \<Rightarrow> int \<Rightarrow> tenant_id \<Rightarrow> string \<Rightarrow> bool \<Rightarrow> life \<Rightarrow> life \<times> (life_error + unit)"
where
  "set_session_pinned_administered ls now nanos t g pin l =
     (case (pin, max_pinned_sessions_per_tenant (ls_lifecycle ls)) of
        (True, Some limit) \<Rightarrow>
          (let already = (case lookup_session t g l of None \<Rightarrow> False | Some e \<Rightarrow> pinned e);
               current = pinned_count t (lf_registry l)
           in if \<not> already \<and> limit \<le> current then (l, Inl (PinQuotaExceeded t current limit))
              else set_session_pinned now nanos t g pin l)
      | _ \<Rightarrow> set_session_pinned now nanos t g pin l)"

text \<open>\<open>set_session_custom_ttl\<close>: the row has whole seconds.\<close>

definition set_session_custom_ttl :: "tenant_id \<Rightarrow> string \<Rightarrow> duration option \<Rightarrow> life \<Rightarrow> life \<times> (life_error + unit)" where
  "set_session_custom_ttl t g ttl =
     write_through (update_session_custom_ttl g (map_option (\<lambda>d. sint (word_of_nat (d div from_secs 1) :: 64 word)) ttl)) t g
       (\<lambda>e. e\<lparr>custom_idle_ttl := ttl\<rparr>)"

section \<open>Reaping\<close>

datatype close_outcome = CloseSkipped | CloseFailed | CloseDone

text \<open>
  One turn of the loop of \<open>close_candidate_sessions\<close>; \<open>closes\<close> is the outcome of \<open>session/close\<close> at the
  backend, which also stands for its time limit.
\<close>

definition close_candidate ::
  "life_settings \<Rightarrow> instant \<Rightarrow> string \<Rightarrow> bool \<Rightarrow> tenant_id \<Rightarrow> string \<Rightarrow> life \<Rightarrow> (life \<times> close_outcome) option"
where
  "close_candidate ls now stamp closes t g l =
     (case lookup_session t g l of
        None \<Rightarrow> Some (l, CloseSkipped)
      | Some e \<Rightarrow>
          if pinned e \<or> in_flight e \<noteq> 0 then Some (l, CloseSkipped)
          else (let l1 = change_session t g (entry_in_flight now 1) l;
                    failed = Some (change_session t g (entry_in_flight now 0) l1, CloseFailed);
                    finish = (\<lambda>l2. case reg_resolve t g (lf_registry l2) of
                                     None \<Rightarrow> Some (l2, CloseSkipped)
                                   | Some removed \<Rightarrow>
                                       map_option (\<lambda>gw. (mark_unreferenced_if_idle ls now (agent_id removed)
                                                         (stop_if_session_scoped (agent_id removed) (l2\<lparr>lf_gateway := gw\<rparr>)), CloseDone))
                                         (evict_session t g (lf_gateway l2)))
                in if \<not> closes then failed
                   else case lf_store l1 of
                          None \<Rightarrow> finish l1
                        | Some db \<Rightarrow>
                            (case close_session g stamp db of
                               (db', Inl err) \<Rightarrow> failed
                             | (db', Inr u) \<Rightarrow> finish (l1\<lparr>lf_store := Some db'\<rparr>))))"

text \<open>The whole loop with its report; \<open>closes\<close> is asked once for each session.\<close>

fun close_candidates ::
  "life_settings \<Rightarrow> instant \<Rightarrow> string \<Rightarrow> (string \<Rightarrow> bool) \<Rightarrow> (tenant_id \<times> string) list \<Rightarrow> life
    \<Rightarrow> (life \<times> close_outcome list) option"
where
  "close_candidates ls now stamp closes [] l = Some (l, [])"
| "close_candidates ls now stamp closes ((t, g) # rest) l =
     (case close_candidate ls now stamp (closes g) t g l of
        None \<Rightarrow> None
      | Some (l', outcome) \<Rightarrow> map_option (\<lambda>(l'', outcomes). (l'', outcome # outcomes)) (close_candidates ls now stamp closes rest l'))"

definition reap_expired_sessions ::
  "life_settings \<Rightarrow> instant \<Rightarrow> string \<Rightarrow> (string \<Rightarrow> bool) \<Rightarrow> life \<Rightarrow> (life \<times> close_outcome list) option"
where
  "reap_expired_sessions ls now stamp closes l =
     close_candidates ls now stamp closes (reap_candidates now (ls_lifecycle ls) (lf_registry l)) l"

definition close_all_sessions_for_tenant ::
  "life_settings \<Rightarrow> instant \<Rightarrow> string \<Rightarrow> (string \<Rightarrow> bool) \<Rightarrow> tenant_id \<Rightarrow> life \<Rightarrow> (life \<times> close_outcome list) option"
where
  "close_all_sessions_for_tenant ls now stamp closes t l =
     close_candidates ls now stamp closes (map (\<lambda>(g, e). (t, g)) (list_for_tenant t (lf_registry l))) l"

text \<open>
  \<open>cancel_stuck_turns\<close>: the agents and backend sessions that are told to stop, when the agent has a
  writer, and the sessions whose turn was ended.
\<close>

fun cancel_stuck ::
  "instant \<Rightarrow> (string \<Rightarrow> bool) \<Rightarrow> (tenant_id \<times> string) list \<Rightarrow> life \<Rightarrow> life \<times> (string \<times> string) list \<times> string list"
where
  "cancel_stuck now has_writer [] l = (l, [], [])"
| "cancel_stuck now has_writer ((t, g) # rest) l =
     (case lookup_session t g l of
        None \<Rightarrow> cancel_stuck now has_writer rest l
      | Some e \<Rightarrow>
          (let sent = (if has_writer (agent_id e) then [(agent_id e, backend_session_id e)] else []);
               (l', frames, ended) = cancel_stuck now has_writer rest (change_session t g (entry_in_flight now 0) l)
           in (l', sent @ frames, g # ended)))"

definition cancel_stuck_turns ::
  "life_settings \<Rightarrow> instant \<Rightarrow> (string \<Rightarrow> bool) \<Rightarrow> life \<Rightarrow> life \<times> (string \<times> string) list \<times> string list"
where
  "cancel_stuck_turns ls now has_writer l =
     cancel_stuck now has_writer (stuck_in_flight_candidates now (ls_lifecycle ls) (lf_registry l)) l"

section \<open>Recovery at start-up\<close>

record recovery_job =
  rj_tenant :: tenant_id
  rj_session :: string
  rj_entry :: session_entry
  rj_request :: json

definition recovery_request :: "string \<Rightarrow> session_row \<Rightarrow> (string \<times> json) list \<Rightarrow> json" where
  "recovery_request g row params =
     JObject [(''jsonrpc'', JString ''2.0''), (''id'', JString (''acpx-startup-recovery:'' @ g)),
              (''method'', JString (case sw_method row of MethodResume \<Rightarrow> ''session/resume'' | _ \<Rightarrow> ''session/load'')),
              (''params'', JObject params)]"

definition recovery_params :: "session_row \<Rightarrow> (string \<times> json) list option" where
  "recovery_params row =
     map_option
       (\<lambda>params. let params' = AList.update ''sessionId'' (JString (sw_backend row)) params
                  in case sw_cwd row of None \<Rightarrow> params' | Some dir \<Rightarrow> AList.update ''cwd'' (JString dir) params')
       (case sw_recovery_params row of None \<Rightarrow> Some [] | Some v \<Rightarrow> as_object v)"

text \<open>
  \<open>prepare_open_session_recovery\<close>: \<open>starts\<close> tells whether the agent is known and its process runs.  The permit
  is dropped when the process cannot be started.
\<close>

definition prepare_open_session_recovery ::
  "life_settings \<Rightarrow> (string \<Rightarrow> life_error + unit) \<Rightarrow> (string \<Rightarrow> bool) \<Rightarrow> instant \<Rightarrow> int \<Rightarrow> string \<Rightarrow> session_row \<Rightarrow> life
    \<Rightarrow> (life \<times> (life_error + recovery_job)) option"
where
  "prepare_open_session_recovery ls profiles starts now nanos g row l =
     (case recovery_params row of
        None \<Rightarrow> Some (l, Inl (InvalidRecoveryParams g))
      | Some params \<Rightarrow>
          (case resolve_key ls profiles (sw_tenant row) row of
             Inl e \<Rightarrow> Some (l, Inl e)
           | Inr key \<Rightarrow>
               (case admit_session (ls_lifecycle ls) (sw_tenant row) (lf_gateway l) of
                  Inl e \<Rightarrow> Some (l, Inl (NotAdmitted e))
                | Inr gw \<Rightarrow>
                    if \<not> starts key
                    then map_option (\<lambda>gw'. (l\<lparr>lf_gateway := gw'\<rparr>, Inl BackendCallFailed)) (drop_permit (sw_tenant row) gw)
                    else Some (l\<lparr>lf_gateway := gw\<rparr>,
                               Inr \<lparr>rj_tenant = sw_tenant row, rj_session = g, rj_entry = row_entry now nanos key row,
                                    rj_request = recovery_request g row params\<rparr>))))"

text \<open>
  \<open>execute_open_session_recovery\<close>: the frames written to the backend, and its answer.  The request is written
  before the code looks whether the reader of the process is shared, and in that case once more.
\<close>

definition execute_open_session_recovery :: "bool \<Rightarrow> json option \<Rightarrow> recovery_job \<Rightarrow> json list \<times> (life_error + recovery_job)" where
  "execute_open_session_recovery shared_reader answer job =
     (rj_request job # (if shared_reader then [rj_request job] else []),
      case answer of
        None \<Rightarrow> Inl BackendCallFailed
      | Some response \<Rightarrow> (case json_get ''error'' response of Some e \<Rightarrow> Inl (BackendError e) | None \<Rightarrow> Inr job))"

text \<open>A recovered session goes live: the registry, the pending shutdown of its process, and its permit.\<close>

definition install_recovered :: "recovery_job \<Rightarrow> life \<Rightarrow> life option" where
  "install_recovered job l =
     (let gw = lf_gateway l;
          gw1 = gw\<lparr>gw_registry := reg_insert (rj_tenant job) (rj_session job) (rj_entry job) (gw_registry gw)\<rparr>;
          l1 = cancel_unreferenced_shutdown (agent_id (rj_entry job)) (l\<lparr>lf_gateway := gw1\<rparr>)
      in map_option (\<lambda>gw'. l1\<lparr>lf_gateway := gw'\<rparr>) (commit_permit (rj_tenant job) (lf_gateway l1)))"

definition abandon_recovery :: "recovery_job \<Rightarrow> life \<Rightarrow> life option" where
  "abandon_recovery job l = map_option (\<lambda>gw. l\<lparr>lf_gateway := gw\<rparr>) (drop_permit (rj_tenant job) (lf_gateway l))"

definition write_status :: "string \<Rightarrow> recovery_status \<Rightarrow> string option \<Rightarrow> life \<Rightarrow> life \<times> (life_error + unit)" where
  "write_status g status err l =
     (case lf_store l of
        None \<Rightarrow> (l, Inr ())
      | Some db \<Rightarrow>
          (case update_recovery_status g status err db of
             (db', Inl e) \<Rightarrow> (l\<lparr>lf_store := Some db'\<rparr>, Inl (RowError e))
           | (db', Inr u) \<Rightarrow> (l\<lparr>lf_store := Some db'\<rparr>, Inr ())))"

record recovery_report =
  rr_restored :: nat
  rr_failed :: nat
  rr_skipped :: nat

definition fail_recovery :: "string \<Rightarrow> string \<Rightarrow> recovery_report \<Rightarrow> life \<Rightarrow> life \<times> (life_error + recovery_report)" where
  "fail_recovery g message rep l =
     (case write_status g StatusRecoveryFailed (Some message) l of
        (l', Inl err) \<Rightarrow> (l', Inl err)
      | (l', Inr u) \<Rightarrow> (l', Inr (rep\<lparr>rr_failed := rr_failed rep + 1\<rparr>)))"

text \<open>
  One turn of the loop of \<open>recover_open_sessions\<close>.  \<open>backend\<close> has the shared reader and the answer of the
  backend of a session, \<open>show\<close> the text of an error.
\<close>

definition recover_one ::
  "life_settings \<Rightarrow> (string \<Rightarrow> life_error + unit) \<Rightarrow> (string \<Rightarrow> bool) \<Rightarrow> (string \<Rightarrow> bool \<times> json option) \<Rightarrow> (life_error \<Rightarrow> string)
    \<Rightarrow> instant \<Rightarrow> int \<Rightarrow> string \<times> session_row \<Rightarrow> recovery_report \<Rightarrow> life
    \<Rightarrow> (life \<times> (life_error + recovery_report)) option"
where
  "recover_one ls profiles starts backend show now nanos candidate rep l =
     (let (g, row) = candidate
      in if sw_method row = MethodNone \<or> lookup_session (sw_tenant row) g l \<noteq> None
         then Some (l, Inr (rep\<lparr>rr_skipped := rr_skipped rep + 1\<rparr>))
         else case write_status g StatusRestoring None l of
                (l1, Inl err) \<Rightarrow> Some (l1, Inl err)
              | (l1, Inr u) \<Rightarrow>
                  (case prepare_open_session_recovery ls profiles starts now nanos g row l1 of
                     None \<Rightarrow> None
                   | Some (l2, Inl e) \<Rightarrow> Some (fail_recovery g (show e) rep l2)
                   | Some (l2, Inr job) \<Rightarrow>
                       (case snd (execute_open_session_recovery (fst (backend g)) (snd (backend g)) job) of
                          Inl e \<Rightarrow> map_option (fail_recovery g (show e) rep) (abandon_recovery job l2)
                        | Inr _ \<Rightarrow>
                            (case write_status g StatusRestored None l2 of
                               (l3, Inl err) \<Rightarrow> map_option (\<lambda>l4. (l4, Inl err)) (abandon_recovery job l3)
                             | (l3, Inr u) \<Rightarrow>
                                 map_option (\<lambda>l4. (l4, Inr (rep\<lparr>rr_restored := rr_restored rep + 1\<rparr>))) (install_recovered job l3)))))"

fun recover_rows ::
  "life_settings \<Rightarrow> (string \<Rightarrow> life_error + unit) \<Rightarrow> (string \<Rightarrow> bool) \<Rightarrow> (string \<Rightarrow> bool \<times> json option) \<Rightarrow> (life_error \<Rightarrow> string)
    \<Rightarrow> instant \<Rightarrow> int \<Rightarrow> (string \<times> session_row) list \<Rightarrow> recovery_report \<Rightarrow> life
    \<Rightarrow> (life \<times> (life_error + recovery_report)) option"
where
  "recover_rows ls profiles starts backend show now nanos [] rep l = Some (l, Inr rep)"
| "recover_rows ls profiles starts backend show now nanos (x # xs) rep l =
     (case recover_one ls profiles starts backend show now nanos x rep l of
        None \<Rightarrow> None
      | Some (l', Inl e) \<Rightarrow> Some (l', Inl e)
      | Some (l', Inr rep') \<Rightarrow> recover_rows ls profiles starts backend show now nanos xs rep' l')"

definition recover_open_sessions ::
  "life_settings \<Rightarrow> (string \<Rightarrow> life_error + unit) \<Rightarrow> (string \<Rightarrow> bool) \<Rightarrow> (string \<Rightarrow> bool \<times> json option) \<Rightarrow> (life_error \<Rightarrow> string)
    \<Rightarrow> instant \<Rightarrow> int \<Rightarrow> life \<Rightarrow> (life \<times> (life_error + recovery_report)) option"
where
  "recover_open_sessions ls profiles starts backend show now nanos l =
     (case lf_store l of
        None \<Rightarrow> Some (l, Inr \<lparr>rr_restored = 0, rr_failed = 0, rr_skipped = 0\<rparr>)
      | Some db \<Rightarrow>
          recover_rows ls profiles starts backend show now nanos
            (list_recoverable_sessions nanos (startup_recovery_max_age (ls_lifecycle ls)) db)
            \<lparr>rr_restored = 0, rr_failed = 0, rr_skipped = 0\<rparr> l)"

text \<open>\<open>mark_successful_recovery_retry\<close>, after a client's own \<open>session/load\<close> or \<open>session/resume\<close>.\<close>

definition mark_successful_recovery_retry :: "string \<Rightarrow> string \<Rightarrow> life \<Rightarrow> life \<times> (life_error + unit)" where
  "mark_successful_recovery_retry g meth l =
     (if \<not> is_reload meth then (l, Inr ())
      else case Option.bind (lf_store l) (get_row g) of
             None \<Rightarrow> (l, Inr ())
           | Some row \<Rightarrow>
               if sw_closed_at row = None \<and> sw_status row = StatusRecoveryFailed then write_status g StatusRestored None l
               else (l, Inr ()))"

end
