(* ===== verification/LifeFacts.thy ===== *)
theory LifeFacts
  imports SessionLife RowFacts
begin

text \<open>
  What each operation of \<open>SessionLife\<close> leaves alone: rows and their tenants, the sessions of others, permits,
  and the exactness of the admission counters.
\<close>

section \<open>What an operation leaves alone\<close>

definition row_tenant :: "life \<Rightarrow> string \<Rightarrow> tenant_id option" where
  "row_tenant l g = map_option sw_tenant (Option.bind (lf_store l) (get_row g))"

definition store_ok :: "life \<Rightarrow> bool" where
  "store_ok l \<longleftrightarrow> (\<forall>db. lf_store l = Some db \<longrightarrow> distinct (map fst (db_rows db)))"

text \<open>
  A calm change makes no row and gives no row to another tenant; a session that appears in the registry
  belongs to the tenant of its row; permits and sessions under creation are untouched; the counters stay exact.
\<close>

definition calm :: "lifecycle_config \<Rightarrow> life \<Rightarrow> life \<Rightarrow> bool" where
  "calm lc l l' \<longleftrightarrow>
     (\<forall>g. row_tenant l' g = row_tenant l g) \<and>
     (\<forall>t g. lookup_session t g l' \<noteq> None \<longrightarrow> lookup_session t g l \<noteq> None \<or> row_tenant l g = Some t) \<and>
     gw_permits (lf_gateway l') = gw_permits (lf_gateway l) \<and> gw_creating (lf_gateway l') = gw_creating (lf_gateway l) \<and>
     (gateway_ok lc (lf_gateway l) \<longrightarrow> gateway_ok lc (lf_gateway l')) \<and> (store_ok l \<longrightarrow> store_ok l')"

lemma calm_refl [simp]: "calm lc l l"
  by (simp add: calm_def)

lemma calm_trans: "calm lc l l' \<Longrightarrow> calm lc l' l'' \<Longrightarrow> calm lc l l''"
  unfolding calm_def by metis

lemma calm_same:
  assumes "lf_gateway l' = lf_gateway l" and "\<And>g. row_tenant l' g = row_tenant l g" and "store_ok l \<Longrightarrow> store_ok l'"
  shows "calm lc l l'"
  using assms by (simp add: calm_def)

lemma row_tenant_simps [simp]:
  "row_tenant (l\<lparr>lf_gateway := gw\<rparr>) g = row_tenant l g"
  "row_tenant (l\<lparr>lf_unreferenced := u\<rparr>) g = row_tenant l g"
  "row_tenant (l\<lparr>lf_stopped := s\<rparr>) g = row_tenant l g"
  by (simp_all add: row_tenant_def)

lemma store_ok_simps [simp]:
  "store_ok (l\<lparr>lf_gateway := gw\<rparr>) = store_ok l"
  "store_ok (l\<lparr>lf_unreferenced := u\<rparr>) = store_ok l"
  "store_ok (l\<lparr>lf_stopped := s\<rparr>) = store_ok l"
  "store_ok (l\<lparr>lf_store := Some db\<rparr>) = distinct (map fst (db_rows db))"
  by (simp_all add: store_ok_def)

lemma store_ok_statement:
  "lf_store l = Some db \<Longrightarrow> store_ok l \<Longrightarrow> distinct (map fst (db_rows (fst (update_row k f db))))"
  by (auto simp: update_row_def store_ok_def distinct_update split: option.splits)

lemma row_tenant_statement:
  assumes "lf_store l = Some db" and "\<And>row. sw_tenant (f row) = sw_tenant row"
  shows "row_tenant (l\<lparr>lf_store := Some (fst (update_row k f db))\<rparr>) g = row_tenant l g"
  using assms by (cases "get_row k db") (auto simp: row_tenant_def option.map_comp o_def)

lemma calm_bookkeeping [simp]:
  "calm lc l (cancel_unreferenced_shutdown key l)"
  "calm lc l (stop_if_session_scoped key l)"
  "calm lc l (mark_unreferenced_if_idle ls now key l)"
  "calm lc l (l\<lparr>lf_stopped := s\<rparr>)"
  by (auto intro!: calm_same simp: cancel_unreferenced_shutdown_def stop_if_session_scoped_def mark_unreferenced_if_idle_def)

lemma gateway_ok_change:
  "gateway_ok lc (lf_gateway l) \<Longrightarrow> keeps_counting f \<Longrightarrow> gateway_ok lc (lf_gateway (change_session t g f l))"
  by (simp add: change_session_def on_gateway_def gateway_ok_update)

lemma change_session_simps [simp]:
  "gw_permits (lf_gateway (change_session t g f l)) = gw_permits (lf_gateway l)"
  "gw_creating (lf_gateway (change_session t g f l)) = gw_creating (lf_gateway l)"
  "lf_store (change_session t g f l) = lf_store l"
  "lf_unreferenced (change_session t g f l) = lf_unreferenced l"
  "lf_stopped (change_session t g f l) = lf_stopped l"
  "row_tenant (change_session t g f l) = row_tenant l"
  "store_ok (change_session t g f l) = store_ok l"
  "lookup_session t' g' (change_session t g f l) =
     (if t' = t \<and> g' = g then map_option f (lookup_session t g l) else lookup_session t' g' l)"
  by (simp_all add: change_session_def on_gateway_def row_tenant_def store_ok_def fun_eq_iff)

lemma calm_change: "keeps_counting f \<Longrightarrow> calm lc l (change_session t g f l)"
  by (auto simp: calm_def gateway_ok_change split: if_splits)

lemma calm_statement:
  assumes "lf_store l = Some db" and "\<And>row. sw_tenant (f row) = sw_tenant row"
  shows "calm lc l (l\<lparr>lf_store := Some (fst (update_row k f db))\<rparr>)"
  by (rule calm_same) (simp_all add: row_tenant_statement [OF assms] store_ok_statement [OF assms(1)])

section \<open>The operations are calm\<close>

lemma calm_revive:
  assumes "lookup_session t g l = None" and "revive_session ls profiles now nanos t meth g l = Some (l', r)"
  shows "calm (ls_lifecycle ls) l l'"
proof (cases "l' = l")
  case False
  obtain row key gw where r: "row_to_revive ls t meth g l = Inr row" "resolve_key ls profiles t row = Inr key"
      "rehydrate_session (ls_lifecycle ls) t g (row_entry now nanos key row) (lf_gateway l) = Some (Inr gw)"
      "l' = cancel_unreferenced_shutdown key (l\<lparr>lf_gateway := gw\<rparr>)"
    using assms(2) False
    by (auto simp: revive_session_def Let_def split: sum.splits option.splits)
  let ?e = "row_entry now nanos key row"
  obtain g1 where g1: "admit_session (ls_lifecycle ls) t (lf_gateway l) = Inr g1"
    using r(3) by (cases "admit_session (ls_lifecycle ls) t (lf_gateway l)") (auto simp: rehydrate_session_def)
  have owner: "row_tenant l g = Some t"
    using r(1) by (auto simp: row_to_revive_def row_tenant_def split: if_splits option.splits)
  have gw: "gw_registry gw = reg_insert t g ?e (gw_registry (lf_gateway l))" "gw_permits gw = gw_permits (lf_gateway l)"
      "gw_creating gw = gw_creating (lf_gateway l)"
    using r(3) g1 by (auto simp: rehydrate_session_def admit_session_def commit_permit_def map_sum_def split: sum.splits)
  have "entry_ok ?e" "capacity_counted ?e" by (simp_all add: row_entry_def entry_ok_def)
  then have "gateway_ok (ls_lifecycle ls) gw" if "gateway_ok (ls_lifecycle ls) (lf_gateway l)"
    using gateway_ok_rehydrate [OF that assms(1) _ _ g1, of ?e] r(3) by auto
  then have "calm (ls_lifecycle ls) l (l\<lparr>lf_gateway := gw\<rparr>)"
    using gw owner by (auto simp: calm_def)
  then show ?thesis unfolding r(4) by (rule calm_trans) simp
qed simp

lemma calm_resolve:
  assumes "resolve_or_revive ls profiles now nanos t meth g l = Some (l', r)"
  shows "calm (ls_lifecycle ls) l l'"
  using assms calm_revive [of t g l ls profiles now nanos meth l' r]
  by (auto simp: resolve_or_revive_def split: option.splits)

lemma calm_suppress:
  assumes "maybe_suppress_close ls profiles now nanos t request l = Some (l', r)"
  shows "calm (ls_lifecycle ls) l l'"
  using assms
  by (auto simp: maybe_suppress_close_def Let_def split: prod.splits if_splits option.splits sum.splits dest: calm_resolve)

lemma calm_write_through:
  assumes "write_through (update_row k h) t g f l = (l', r)" and "keeps_counting f" and "\<And>row. sw_tenant (h row) = sw_tenant row"
  shows "calm lc l l'"
proof (cases "lf_store l")
  case None
  then show ?thesis using assms(1) calm_change [OF assms(2)] by (auto simp: write_through_def split: if_splits)
next
  case (Some db)
  note s = calm_statement [OF Some, of h lc k, OF assms(3)]
  have "calm lc l (change_session t g f (l\<lparr>lf_store := Some (fst (update_row k h db))\<rparr>))"
    by (rule calm_trans [OF s calm_change [OF assms(2)]])
  then have c: "calm lc l (change_session t g f (l\<lparr>lf_store := Some db'\<rparr>))" "calm lc l (l\<lparr>lf_store := Some db'\<rparr>)"
    if "update_row k h db = (db', res)" for db' res
    using s that by simp_all
  obtain db' res where u: "update_row k h db = (db', res)" by (cases "update_row k h db")
  show ?thesis
  proof (cases "lookup_session t g l = None")
    case True
    then show ?thesis using assms(1) by (simp add: write_through_def)
  next
    case False
    have "l' = change_session t g f (l\<lparr>lf_store := Some db'\<rparr>) \<or> l' = l\<lparr>lf_store := Some db'\<rparr>"
      using assms(1) by (cases res) (simp_all add: write_through_def False Some u)
    with c [OF u] show ?thesis by blast
  qed
qed

lemma calm_pin: "set_session_pinned now nanos t g pin l = (l', r) \<Longrightarrow> calm lc l l'"
  unfolding set_session_pinned_def update_session_pinned_def by (erule calm_write_through) simp_all

lemma calm_pin_administered: "set_session_pinned_administered ls now nanos t g pin l = (l', r) \<Longrightarrow> calm lc l l'"
  by (auto simp: set_session_pinned_administered_def Let_def dest: calm_pin split: bool.splits option.splits if_splits)

lemma calm_ttl: "set_session_custom_ttl t g ttl l = (l', r) \<Longrightarrow> calm lc l l'"
  unfolding set_session_custom_ttl_def update_session_custom_ttl_def by (erule calm_write_through) simp_all

lemma calm_write_status: "write_status g status err l = (l', r) \<Longrightarrow> calm lc l l'"
proof (cases "lf_store l")
  case (Some db)
  let ?f = "\<lambda>row. row\<lparr>sw_status := status, sw_last_error := map_option bound_recovery_error err\<rparr>"
  assume w: "write_status g status err l = (l', r)"
  obtain db' res where u: "update_row g ?f db = (db', res)" by (cases "update_row g ?f db")
  from w have "l' = l\<lparr>lf_store := Some (fst (update_row g ?f db))\<rparr>"
    by (cases res) (simp_all add: write_status_def update_recovery_status_def Some u)
  with calm_statement [OF Some, of ?f lc g] show ?thesis by simp
qed (simp add: write_status_def)

lemma calm_retry: "mark_successful_recovery_retry g meth l = (l', r) \<Longrightarrow> calm lc l l'"
  by (auto simp: mark_successful_recovery_retry_def dest: calm_write_status split: option.splits if_splits)

lemma calm_stuck: "cancel_stuck now has_writer xs l = (l', r) \<Longrightarrow> calm lc l l'"
proof (induction xs arbitrary: l l' r)
  case (Cons x xs)
  obtain t g where x: "x = (t, g)" by (cases x)
  show ?case
  proof (cases "lookup_session t g l")
    case None
    then show ?thesis using Cons by (auto simp: x)
  next
    case (Some e)
    obtain l1 r1 where "cancel_stuck now has_writer xs (change_session t g (entry_in_flight now 0) l) = (l1, r1)"
      by (cases "cancel_stuck now has_writer xs (change_session t g (entry_in_flight now 0) l)")
    with Cons.IH [OF this] Cons.prems Some show ?thesis
      using calm_trans [OF calm_change [OF keeps_counting_ops(1), of lc l t g now 0]] by (auto simp: x split: prod.splits)
  qed
qed simp

lemma calm_stop_expired: "stop_expired stops ks l = (l', n) \<Longrightarrow> calm lc l l'"
proof (induction ks arbitrary: l l' n)
  case (Cons key ks)
  let ?l1 = "cancel_unreferenced_shutdown key l"
  have c: "calm lc l ?l1" "calm lc ?l1 (?l1\<lparr>lf_stopped := lf_stopped ?l1 @ [key]\<rparr>)" by simp_all
  show ?case
  proof (cases "count_by_agent_id key (lf_registry ?l1) = 0")
    case True
    then obtain n' where "stop_expired stops ks (?l1\<lparr>lf_stopped := lf_stopped ?l1 @ [key]\<rparr>) = (l', n')"
      using Cons.prems by (simp add: Let_def split: prod.splits)
    from Cons.IH [OF this] show ?thesis by (rule calm_trans [OF calm_trans [OF c]])
  next
    case False
    then have "stop_expired stops ks ?l1 = (l', n)" using Cons.prems by (simp add: Let_def)
    from Cons.IH [OF this] show ?thesis by (rule calm_trans [OF c(1)])
  qed
qed simp

lemma calm_reap_unreferenced: "reap_unreferenced_backends ls stops now l = (l', n) \<Longrightarrow> calm lc l l'"
  by (auto simp: reap_unreferenced_backends_def dest: calm_stop_expired split: option.splits)


section \<open>Closing and recovering\<close>

lemma calm_mark_stop: "calm lc l l' \<Longrightarrow> calm lc l (mark_unreferenced_if_idle ls now key (stop_if_session_scoped key' l'))"
  by (blast intro: calm_trans calm_bookkeeping)

lemma calm_evict:
  assumes "(t, g) \<notin> set (gw_creating (lf_gateway l))" and "evict_session t g (lf_gateway l) = Some gw"
  shows "calm lc l (l\<lparr>lf_gateway := gw\<rparr>)"
proof -
  have "gw_registry gw = fst (reg_remove t g (lf_registry l))" "gw_permits gw = gw_permits (lf_gateway l)"
      "gw_creating gw = gw_creating (lf_gateway l)"
    using assms(2) by (auto simp: evict_session_def split: prod.splits option.splits if_splits)
  then show ?thesis using gateway_ok_evict [of lc "lf_gateway l" t g] assms by (auto simp: calm_def split: if_splits)
qed

lemma calm_close_candidate:
  assumes "close_candidate ls now stamp closes t g l = Some (l', r)" and "(t, g) \<notin> set (gw_creating (lf_gateway l))"
  shows "calm (ls_lifecycle ls) l l'"
proof (cases "lookup_session t g l")
  case (Some e)
  let ?l1 = "change_session t g (entry_in_flight now 1) l" and ?lc = "ls_lifecycle ls"
  have c1: "calm ?lc l ?l1" by (rule calm_change) simp
  have failed: "calm ?lc l (change_session t g (entry_in_flight now 0) ?l1)" by (rule calm_trans [OF c1 calm_change]) simp
  have finish: "calm ?lc l (mark_unreferenced_if_idle ls now k (stop_if_session_scoped k (l2\<lparr>lf_gateway := gw\<rparr>)))"
    if "calm ?lc l l2" "lf_gateway l2 = lf_gateway ?l1" "evict_session t g (lf_gateway l2) = Some gw" for l2 gw k
    by (rule calm_mark_stop [OF calm_trans [OF that(1) calm_evict [OF _ that(3)]]]) (use assms(2) that(2) in simp)
  have row: "calm ?lc l (?l1\<lparr>lf_store := Some db'\<rparr>)" if "lf_store l = Some db" "close_session g stamp db = (db', res)" for db db' res
    using calm_trans [OF c1, of "?l1\<lparr>lf_store := Some db'\<rparr>"] that
      calm_statement [of ?l1 db "\<lambda>row. row\<lparr>sw_closed_at := Some stamp, sw_status := StatusClosed\<rparr>" ?lc g]
    by (simp add: close_session_def)
  show ?thesis
  proof (cases "pinned e \<or> in_flight e \<noteq> 0 \<or> \<not> closes")
    case True
    then show ?thesis using assms(1) Some failed by (auto simp: close_candidate_def Let_def split: if_splits)
  next
    case False
    then have False': "\<not> (pinned e \<or> in_flight e \<noteq> 0)" "closes" by auto
    show ?thesis
    proof (cases "lf_store l")
      case None
      then show ?thesis using assms(1) Some False' finish [OF c1] c1
        by (auto simp: close_candidate_def Let_def split: option.splits)
    next
      case (Some db)
      obtain db' res where u: "close_session g stamp db = (db', res)" by (cases "close_session g stamp db")
      show ?thesis using assms(1) \<open>lookup_session t g l = Some e\<close> False' failed finish [OF row [OF Some u]]
        by (cases res) (auto simp: close_candidate_def Let_def Some u split: option.splits)
    qed
  qed
qed (use assms(1) in \<open>simp add: close_candidate_def\<close>)

lemma calm_close_candidates:
  assumes "close_candidates ls now stamp closes xs l = Some (l', r)" and "\<forall>x\<in>set xs. x \<notin> set (gw_creating (lf_gateway l))"
  shows "calm (ls_lifecycle ls) l l'"
  using assms
proof (induction xs arbitrary: l r)
  case (Cons x xs)
  obtain t g where x: "x = (t, g)" by (cases x)
  obtain l1 o1 r1 where s: "close_candidate ls now stamp (closes g) t g l = Some (l1, o1)"
      "close_candidates ls now stamp closes xs l1 = Some (l', r1)"
    using Cons.prems(1) by (auto simp: x split: option.splits)
  have c: "calm (ls_lifecycle ls) l l1" by (rule calm_close_candidate [OF s(1)]) (use Cons.prems(2) x in simp)
  then have "gw_creating (lf_gateway l1) = gw_creating (lf_gateway l)" by (simp add: calm_def)
  with Cons.IH [OF s(2)] Cons.prems(2) calm_trans [OF c] show ?case by simp
qed simp

text \<open>A recovered session takes the permit that its preparation took.\<close>

definition holds_permit :: "tenant_id \<Rightarrow> life \<Rightarrow> life \<Rightarrow> lifecycle_config \<Rightarrow> bool" where
  "holds_permit t l l' lc \<longleftrightarrow>
     lf_registry l' = lf_registry l \<and> gw_creating (lf_gateway l') = gw_creating (lf_gateway l) \<and>
     gw_permits (lf_gateway l') = t # gw_permits (lf_gateway l) \<and> (\<forall>g. row_tenant l' g = row_tenant l g) \<and>
     (store_ok l \<longrightarrow> store_ok l') \<and>
     (gateway_ok lc (lf_gateway l) \<longrightarrow>
        gateway_ok lc (lf_gateway l') \<and> creating_of (lf_gateway l') t < count_list (gw_permits (lf_gateway l')) t)"

lemma holds_permitD:
  assumes "holds_permit t l l' lc"
  shows "lf_registry l' = lf_registry l" and "gw_creating (lf_gateway l') = gw_creating (lf_gateway l)"
    and "gw_permits (lf_gateway l') = t # gw_permits (lf_gateway l)" and "row_tenant l' g = row_tenant l g"
    and "store_ok l \<Longrightarrow> store_ok l'"
  using assms unfolding holds_permit_def by blast+

lemma holds_permit_rows:
  "holds_permit t l l' lc \<Longrightarrow> lf_gateway l'' = lf_gateway l' \<Longrightarrow> (\<And>g. row_tenant l'' g = row_tenant l' g) \<Longrightarrow> (store_ok l' \<Longrightarrow> store_ok l'') \<Longrightarrow>
    holds_permit t l l'' lc"
  unfolding holds_permit_def by (elim conjE) (intro conjI allI impI; simp)

lemma prepare_holds:
  assumes "prepare_open_session_recovery ls profiles starts now nanos g row l = Some (l', r)"
  shows "(case r of Inl e \<Rightarrow> calm (ls_lifecycle ls) l l'
     | Inr job \<Rightarrow> holds_permit (rj_tenant job) l l' (ls_lifecycle ls) \<and> rj_tenant job = sw_tenant row \<and> rj_session job = g
         \<and> (\<exists>key. rj_entry job = row_entry now nanos key row))"
proof (cases "lf_gateway l' = lf_gateway l \<and> l' = l \<and> isl r")
  case True
  then show ?thesis by (auto split: sum.splits)
next
  case False
  obtain params key gw where p: "recovery_params row = Some params" "resolve_key ls profiles (sw_tenant row) row = Inr key"
      "admit_session (ls_lifecycle ls) (sw_tenant row) (lf_gateway l) = Inr gw"
    using assms False by (auto simp: prepare_open_session_recovery_def split: option.splits sum.splits)
  have gw: "gw_registry gw = lf_registry l" "gw_creating gw = gw_creating (lf_gateway l)"
      "gw_permits gw = sw_tenant row # gw_permits (lf_gateway l)"
    using p(3) by (auto simp: admit_session_def map_sum_def split: sum.splits)
  have held: "holds_permit (sw_tenant row) l (l\<lparr>lf_gateway := gw\<rparr>) (ls_lifecycle ls)"
    using gw gateway_ok_admit(1,4) [OF _ p(3)] by (simp add: holds_permit_def)
  show ?thesis
  proof (cases "starts key")
    case True
    then show ?thesis using assms p held by (auto simp: prepare_open_session_recovery_def)
  next
    case False
    then obtain gw' where gw': "drop_permit (sw_tenant row) gw = Some gw'" "l' = l\<lparr>lf_gateway := gw'\<rparr>" "r = Inl BackendCallFailed"
      using assms p by (auto simp: prepare_open_session_recovery_def)
    then have "gateway_ok (ls_lifecycle ls) gw'" if "gateway_ok (ls_lifecycle ls) (lf_gateway l)"
      using gateway_ok_drop [OF gateway_ok_admit(1,4) [OF that p(3)]] by simp
    moreover have "gw_registry gw' = gw_registry gw" "gw_creating gw' = gw_creating gw"
        "gw_permits gw' = remove1 (sw_tenant row) (gw_permits gw)"
      using gw'(1) by (auto simp: drop_permit_def)
    ultimately show ?thesis using gw gw' by (simp add: calm_def)
  qed
qed

lemma abandon_calm:
  assumes "holds_permit (rj_tenant job) l l' lc" and "abandon_recovery job l' = Some l''"
  shows "calm lc l l''"
proof -
  obtain gw where gw: "drop_permit (rj_tenant job) (lf_gateway l') = Some gw" "l'' = l'\<lparr>lf_gateway := gw\<rparr>"
    using assms(2) by (auto simp: abandon_recovery_def)
  then have "gateway_ok lc gw" if "gateway_ok lc (lf_gateway l)"
    using gateway_ok_drop [of lc "lf_gateway l'" "rj_tenant job"] assms(1) that by (auto simp: holds_permit_def)
  moreover have "gw_registry gw = lf_registry l'" "gw_creating gw = gw_creating (lf_gateway l')"
      "gw_permits gw = remove1 (rj_tenant job) (gw_permits (lf_gateway l'))"
    using gw(1) by (auto simp: drop_permit_def)
  ultimately show ?thesis using assms(1) gw(2) by (simp add: calm_def holds_permit_def)
qed

lemma install_some:
  assumes "holds_permit (rj_tenant job) l l' lc" and "lookup_session (rj_tenant job) (rj_session job) l = None"
    and "entry_ok (rj_entry job)" and "capacity_counted (rj_entry job)" and "gateway_ok lc (lf_gateway l)"
  shows "\<exists>l''. install_recovered job l' = Some l'' \<and> gateway_ok lc (lf_gateway l'')"
proof -
  let ?gw = "lf_gateway l'"
  have h: "gateway_ok lc ?gw" "creating_of ?gw (rj_tenant job) < count_list (gw_permits ?gw) (rj_tenant job)"
      "reg_resolve (rj_tenant job) (rj_session job) (gw_registry ?gw) = None"
    using assms(1,2,5) by (auto simp: holds_permit_def)
  have "\<exists>g'. commit_permit (rj_tenant job) (?gw\<lparr>gw_registry := reg_insert (rj_tenant job) (rj_session job) (rj_entry job) (gw_registry ?gw)\<rparr>) = Some g'
      \<and> gateway_ok lc g' \<and> gw_registry g' = reg_insert (rj_tenant job) (rj_session job) (rj_entry job) (gw_registry ?gw)"
    using counted_insert [OF gateway_okD(1) [OF h(1)] h(3)] assms(4) h(3)
    by (intro gateway_ok_fill [OF h(1,2)])
      (auto simp: counted_def intro!: registry_ok_insert gateway_okD(1) [OF h(1)] assms(3))
  then show ?thesis by (auto simp: install_recovered_def cancel_unreferenced_shutdown_def Let_def)
qed

lemma install_effect:
  assumes "install_recovered job l' = Some l''"
  shows "lookup_session t g l'' = (if t = rj_tenant job \<and> g = rj_session job then Some (rj_entry job) else lookup_session t g l')"
    and "lf_store l'' = lf_store l'" and "gw_creating (lf_gateway l'') = gw_creating (lf_gateway l')"
    and "gw_permits (lf_gateway l'') = remove1 (rj_tenant job) (gw_permits (lf_gateway l'))"
  using assms by (auto simp: install_recovered_def cancel_unreferenced_shutdown_def commit_permit_def Let_def)

lemma install_calm:
  assumes "holds_permit (rj_tenant job) l l' lc" and "lookup_session (rj_tenant job) (rj_session job) l = None"
    and "row_tenant l (rj_session job) = Some (rj_tenant job)" and "entry_ok (rj_entry job)" and "capacity_counted (rj_entry job)"
    and "install_recovered job l' = Some l''"
  shows "calm lc l l''"
proof -
  have "gateway_ok lc (lf_gateway l'')" if "gateway_ok lc (lf_gateway l)"
    using install_some [OF assms(1,2,4,5) that] assms(6) by auto
  moreover have "row_tenant l'' g = row_tenant l g" for g
    using holds_permitD(4) [OF assms(1)] install_effect(2) [OF assms(6)] by (simp add: row_tenant_def)
  moreover have "store_ok l''" if "store_ok l"
    using holds_permitD(5) [OF assms(1) that] install_effect(2) [OF assms(6)] by (simp add: store_ok_def)
  moreover have "gw_permits (lf_gateway l'') = gw_permits (lf_gateway l)" "gw_creating (lf_gateway l'') = gw_creating (lf_gateway l)"
    using holds_permitD(2,3) [OF assms(1)] install_effect(3,4) [OF assms(6)] by simp_all
  moreover have "lookup_session t g l \<noteq> None \<or> row_tenant l g = Some t" if "lookup_session t g l'' \<noteq> None" for t g
    using that assms(3) holds_permitD(1) [OF assms(1)] install_effect(1) [OF assms(6), of t g] by (simp split: if_splits)
  ultimately show ?thesis unfolding calm_def by blast
qed

lemma row_entry_ok [simp]: "entry_ok (row_entry now nanos key row)" "capacity_counted (row_entry now nanos key row)"
  by (simp_all add: row_entry_def entry_ok_def)

lemma execute_result [simp]:
  "snd (execute_open_session_recovery shared answer job) = Inr job' \<Longrightarrow> job' = job"
  by (auto simp: execute_open_session_recovery_def split: option.splits)

lemma write_status_held:
  assumes "holds_permit t l l' lc" and "write_status g status err l' = (l'', r)"
  shows "holds_permit t l l'' lc"
proof (rule holds_permit_rows [OF assms(1)])
  show "lf_gateway l'' = lf_gateway l'"
    using assms(2) by (auto simp: write_status_def split: option.splits prod.splits sum.splits)
  show "row_tenant l'' k = row_tenant l' k" for k
    using calm_write_status [OF assms(2)] by (simp add: calm_def)
  show "store_ok l' \<Longrightarrow> store_ok l''" using calm_write_status [OF assms(2)] by (simp add: calm_def)
qed

lemma calm_recover_one:
  assumes "recover_one ls profiles starts backend show now nanos (g, row) rep l = Some (l', r)"
    and "row_tenant l g = Some (sw_tenant row)"
  shows "calm (ls_lifecycle ls) l l'"
proof (cases "sw_method row = MethodNone \<or> lookup_session (sw_tenant row) g l \<noteq> None")
  case False
  let ?lc = "ls_lifecycle ls"
  obtain l1 r1 where w1: "write_status g StatusRestoring None l = (l1, r1)" by (cases "write_status g StatusRestoring None l")
  have c1: "calm ?lc l l1" by (rule calm_write_status [OF w1])
  have reg1: "lf_gateway l1 = lf_gateway l"
    using w1 by (auto simp: write_status_def split: option.splits prod.splits sum.splits)
  have failed: "calm ?lc l l3" if "calm ?lc l1 l2" "fail_recovery g message rep l2 = (l3, r3)" for l2 l3 r3 message
    using calm_trans [OF calm_trans [OF c1 that(1)]] that(2)
    by (cases "write_status g StatusRecoveryFailed (Some message) l2")
      (auto simp: fail_recovery_def split: sum.splits dest: calm_write_status)
  show ?thesis
  proof (cases r1)
    case (Inl e)
    then show ?thesis using assms(1) False w1 c1 by (simp add: recover_one_def Let_def)
  next
    case (Inr u)
    obtain l2 r2 where p: "prepare_open_session_recovery ls profiles starts now nanos g row l1 = Some (l2, r2)"
      using assms(1) False w1 Inr by (auto simp: recover_one_def Let_def split: option.splits)
    note held = prepare_holds [OF p]
    show ?thesis
    proof (cases r2)
      case (Inl e)
      with held have c2: "calm ?lc l1 l2" by simp
      then show ?thesis
        using failed [OF c2] assms(1) False w1 p Inl \<open>r1 = Inr u\<close> by (simp add: recover_one_def Let_def)
    next
      case (Inr job)
      from held Inr have h: "holds_permit (rj_tenant job) l1 l2 ?lc" "rj_tenant job = sw_tenant row" "rj_session job = g"
          "entry_ok (rj_entry job)" "capacity_counted (rj_entry job)" by auto
      show ?thesis
      proof (cases "snd (execute_open_session_recovery (fst (backend g)) (snd (backend g)) job)")
        case (Inl e)
        obtain l3 where l3: "abandon_recovery job l2 = Some l3"
          using assms(1) False w1 p \<open>r2 = Inr job\<close> \<open>r1 = Inr u\<close> Inl
          by (cases "abandon_recovery job l2") (auto simp: recover_one_def Let_def)
        from failed [OF abandon_calm [OF h(1) l3]] show ?thesis
          using assms(1) False w1 p \<open>r2 = Inr job\<close> \<open>r1 = Inr u\<close> Inl l3 by (simp add: recover_one_def Let_def)
      next
        case (Inr job')
        obtain l3 r3 where w3: "write_status g StatusRestored None l2 = (l3, r3)" by (cases "write_status g StatusRestored None l2")
        note h3 = write_status_held [OF h(1) w3]
        have "lookup_session (rj_tenant job) (rj_session job) l1 = None" "row_tenant l1 (rj_session job) = Some (rj_tenant job)"
          using False assms(2) c1 reg1 h(2,3) by (auto simp: calm_def)
        then have "calm ?lc l1 l4" if "install_recovered job l3 = Some l4" for l4
          by (rule install_calm [OF h3 _ _ h(4,5) that])
        moreover have "calm ?lc l1 l4" if "abandon_recovery job l3 = Some l4" for l4
          by (rule abandon_calm [OF h3 that])
        ultimately show ?thesis
          using assms(1) False w1 p \<open>r2 = Inr job\<close> \<open>r1 = Inr u\<close> Inr w3 calm_trans [OF c1]
          by (cases r3) (auto simp: recover_one_def Let_def)
      qed
    qed
  qed
qed (use assms(1) in \<open>simp add: recover_one_def Let_def\<close>)

lemma calm_recover_rows:
  assumes "recover_rows ls profiles starts backend show now nanos xs rep l = Some (l', r)"
    and "\<forall>(g, row)\<in>set xs. row_tenant l g = Some (sw_tenant row)"
  shows "calm (ls_lifecycle ls) l l'"
  using assms
proof (induction xs arbitrary: l rep)
  case (Cons x xs)
  obtain g row where x: "x = (g, row)" by (cases x)
  obtain l1 r1 where s: "recover_one ls profiles starts backend show now nanos x rep l = Some (l1, r1)"
    using Cons.prems(1) by (auto split: option.splits)
  have c: "calm (ls_lifecycle ls) l l1" using calm_recover_one s Cons.prems(2) by (auto simp: x)
  show ?case
  proof (cases r1)
    case (Inl e)
    then show ?thesis using Cons.prems(1) s c by simp
  next
    case (Inr rep')
    then have "recover_rows ls profiles starts backend show now nanos xs rep' l1 = Some (l', r)" using Cons.prems(1) s by simp
    moreover have "\<forall>(g, row)\<in>set xs. row_tenant l1 g = Some (sw_tenant row)" using Cons.prems(2) c by (auto simp: calm_def)
    ultimately show ?thesis by (rule calm_trans [OF c Cons.IH])
  qed
qed simp

lemma set_insert_by_created: "set (insert_by_created x xs) = insert x (set xs)"
  by (induction xs) auto

lemma set_order_by_created [simp]: "set (order_by_created rows) = set rows"
  by (induction rows) (simp_all add: order_by_created_def set_insert_by_created)

lemma recoverable_row:
  assumes "(g, row) \<in> set (list_recoverable_sessions nanos age db)" and "distinct (map fst (db_rows db))"
  shows "get_row g db = Some row" and "sw_status row \<noteq> StatusClosed" and "sw_method row \<noteq> MethodNone"
  using assms by (auto simp: list_recoverable_sessions_def is_recoverable_def get_row_def)

lemma recoverable_tenants:
  assumes "store_ok l" and "lf_store l = Some db"
  shows "\<forall>(g, row)\<in>set (list_recoverable_sessions nanos age db). row_tenant l g = Some (sw_tenant row)"
  using assms recoverable_row(1) [of _ _ nanos age db] by (auto simp: store_ok_def row_tenant_def)

lemma calm_recover:
  assumes "recover_open_sessions ls profiles starts backend show now nanos l = Some (l', r)" and "store_ok l"
  shows "calm (ls_lifecycle ls) l l'"
  using assms calm_recover_rows [OF _ recoverable_tenants [OF assms(2)]]
  by (auto simp: recover_open_sessions_def split: option.splits)

section \<open>Permits\<close>

lemma permits_of_drop:
  "drop_permit t gw = Some gw' \<Longrightarrow> gw_registry gw' = gw_registry gw \<and> gw_creating gw' = gw_creating gw \<and> gw_permits gw' = remove1 t (gw_permits gw)"
  by (auto simp: drop_permit_def)

lemma permits_of_commit:
  "commit_permit t gw = Some gw' \<Longrightarrow> gw_registry gw' = gw_registry gw \<and> gw_creating gw' = gw_creating gw \<and> gw_permits gw' = remove1 t (gw_permits gw)"
  by (auto simp: commit_permit_def)

lemma permits_of_admit:
  "admit_session lc t gw = Inr gw' \<Longrightarrow> gw_registry gw' = gw_registry gw \<and> gw_creating gw' = gw_creating gw \<and> gw_permits gw' = t # gw_permits gw"
  by (auto simp: admit_session_def map_sum_def split: sum.splits)

lemma promote_effect:
  assumes "ensure_capacity_for_active_turn lc t g gw = Some (Inr gw')"
  shows "gw_permits gw' = gw_permits gw" and "gw_creating gw' = gw_creating gw"
    and "reg_resolve t' g' (gw_registry gw') \<noteq> None \<longleftrightarrow> reg_resolve t' g' (gw_registry gw) \<noteq> None"
proof -
  have "gw_permits gw' = gw_permits gw \<and> gw_creating gw' = gw_creating gw
      \<and> (reg_resolve t' g' (gw_registry gw') \<noteq> None \<longleftrightarrow> reg_resolve t' g' (gw_registry gw) \<noteq> None)"
  proof (cases "gw' = gw")
    case False
    then obtain g1 where g1: "admit_session lc t gw = Inr g1"
      using assms by (cases "admit_session lc t gw") (auto simp: ensure_capacity_for_active_turn_def Let_def split: if_splits)
    with False assms have "commit_permit t (g1\<lparr>gw_registry := fst (update_session t g (\<lambda>e. e\<lparr>capacity_counted := True\<rparr>) (gw_registry g1))\<rparr>) = Some gw'"
      by (auto simp: ensure_capacity_for_active_turn_def Let_def split: if_splits)
    from permits_of_commit [OF this] permits_of_admit [OF g1] show ?thesis by auto
  qed simp
  then show "gw_permits gw' = gw_permits gw" "gw_creating gw' = gw_creating gw"
    "reg_resolve t' g' (gw_registry gw') \<noteq> None \<longleftrightarrow> reg_resolve t' g' (gw_registry gw) \<noteq> None" by auto
qed

end
