(* ===== verification/Profiles.thy ===== *)
theory Profiles
  imports SessionRegistry JsonPath
begin

text \<open>
  The stores of the gateway's configuration: profiles (\<open>profile.rs\<close>), providers (\<open>provider.rs\<close>), MCP servers
  (\<open>mcp_servers.rs\<close>) and keys (\<open>keystore.rs\<close>), all of one contract; the environment in which an agent is
  started (\<open>launch.rs\<close>); and the MCP servers that a session gets (\<open>router.rs\<close>).
\<close>

section \<open>Data\<close>

datatype profile_source = Provisioned | AutoSeeded

record profile =
  pf_name :: string
  pf_agent_id :: string
  pf_source :: profile_source
  pf_provider :: "string option"
  pf_key_ref :: "string option"
  pf_launch_overrides :: "(string \<times> string) list"
  pf_mcp_servers :: "string list"
  pf_permission_policy :: permission_policy
  pf_allow_fs_access :: bool
  pf_allow_terminal_access :: bool
  pf_auth_method_id :: "string option"

definition profile_default :: profile where
  "profile_default =
     \<lparr>pf_name = [], pf_agent_id = [], pf_source = Provisioned, pf_provider = None, pf_key_ref = None,
      pf_launch_overrides = [], pf_mcp_servers = [], pf_permission_policy = AutoReject,
      pf_allow_fs_access = False, pf_allow_terminal_access = False, pf_auth_method_id = None\<rparr>"

datatype provider_kind = OpenAi | Anthropic | LiteLlm

record provider_config =
  pv_name :: string
  pv_kind :: provider_kind
  pv_base_url :: "string option"

section \<open>Profiles as JSON\<close>

definition source_name :: "profile_source \<Rightarrow> string" where
  "source_name s = (case s of Provisioned \<Rightarrow> ''provisioned'' | AutoSeeded \<Rightarrow> ''auto_seeded'')"

definition policy_name :: "permission_policy \<Rightarrow> string" where
  "policy_name p = (case p of AutoAllow \<Rightarrow> ''auto_allow'' | AutoReject \<Rightarrow> ''auto_reject'')"

definition opt_json :: "string option \<Rightarrow> json" where
  "opt_json x = (case x of None \<Rightarrow> JNull | Some s \<Rightarrow> JString s)"

definition profile_fields :: "string list" where
  "profile_fields = [''name'', ''agent_id'', ''source'', ''provider'', ''key_ref'', ''launch_overrides'', ''mcp_servers'',
     ''permission_policy'', ''allow_fs_access'', ''allow_terminal_access'', ''auth_method_id'']"

definition profile_json :: "profile \<Rightarrow> json" where
  "profile_json p =
     JObject (zip profile_fields
       [JString (pf_name p), JString (pf_agent_id p), JString (source_name (pf_source p)), opt_json (pf_provider p), opt_json (pf_key_ref p),
        JObject (map (\<lambda>(k, v). (k, JString v)) (pf_launch_overrides p)), JArray (map JString (pf_mcp_servers p)),
        JString (policy_name (pf_permission_policy p)), JBool (pf_allow_fs_access p), JBool (pf_allow_terminal_access p),
        opt_json (pf_auth_method_id p)])"

text \<open>
  How \<open>serde\<close> reads the fields: a missing field has its default, a field of another type is an error.  A variant without
  data may also be written as an object with the value \<open>null\<close>.
\<close>

fun opt_str :: "json \<Rightarrow> string option option" where
  "opt_str JNull = Some None"
| "opt_str (JString s) = Some (Some s)"
| "opt_str v = None"

fun variant_tag :: "json \<Rightarrow> string option" where
  "variant_tag (JString s) = Some s"
| "variant_tag (JObject [(k, JNull)]) = Some k"
| "variant_tag v = None"

definition read_source :: "json \<Rightarrow> profile_source option" where
  "read_source v =
     Option.bind (variant_tag v)
       (\<lambda>s. if s = ''provisioned'' then Some Provisioned else if s = ''auto_seeded'' then Some AutoSeeded else None)"

definition read_policy :: "json \<Rightarrow> permission_policy option" where
  "read_policy v =
     Option.bind (variant_tag v)
       (\<lambda>s. if s = ''auto_allow'' then Some AutoAllow else if s = ''auto_reject'' then Some AutoReject else None)"

fun all_some :: "'a option list \<Rightarrow> 'a list option" where
  "all_some [] = Some []"
| "all_some (x # xs) = (case (x, all_some xs) of (Some y, Some ys) \<Rightarrow> Some (y # ys) | _ \<Rightarrow> None)"

definition read_strings :: "json \<Rightarrow> string list option" where
  "read_strings v = Option.bind (as_array v) (\<lambda>vs. all_some (map as_str vs))"

definition read_string_map :: "json \<Rightarrow> (string \<times> string) list option" where
  "read_string_map v =
     Option.bind (as_object v) (\<lambda>kvs. all_some (map (\<lambda>(k, x). map_option (Pair k) (as_str x)) kvs))"

definition read_field :: "string \<Rightarrow> (json \<Rightarrow> 'a option) \<Rightarrow> 'a \<Rightarrow> (string \<times> json) list \<Rightarrow> 'a option" where
  "read_field name dec def kvs = (case map_of kvs name of None \<Rightarrow> Some def | Some v \<Rightarrow> dec v)"

definition profile_of_members :: "(string \<times> json) list \<Rightarrow> profile option" where
  "profile_of_members kvs =
     (let d = profile_default
      in case (read_field ''name'' as_str (pf_name d) kvs, read_field ''agent_id'' as_str (pf_agent_id d) kvs,
               read_field ''source'' read_source (pf_source d) kvs, read_field ''provider'' opt_str (pf_provider d) kvs,
               read_field ''key_ref'' opt_str (pf_key_ref d) kvs,
               read_field ''launch_overrides'' read_string_map (pf_launch_overrides d) kvs,
               read_field ''mcp_servers'' read_strings (pf_mcp_servers d) kvs,
               read_field ''permission_policy'' read_policy (pf_permission_policy d) kvs,
               read_field ''allow_fs_access'' as_bool (pf_allow_fs_access d) kvs,
               read_field ''allow_terminal_access'' as_bool (pf_allow_terminal_access d) kvs,
               read_field ''auth_method_id'' opt_str (pf_auth_method_id d) kvs) of
           (Some name, Some agent, Some source, Some provider, Some key, Some overrides, Some servers, Some policy, Some fs, Some term, Some auth) \<Rightarrow>
             Some \<lparr>pf_name = name, pf_agent_id = agent, pf_source = source, pf_provider = provider, pf_key_ref = key,
                   pf_launch_overrides = overrides, pf_mcp_servers = servers, pf_permission_policy = policy,
                   pf_allow_fs_access = fs, pf_allow_terminal_access = term, pf_auth_method_id = auth\<rparr>
         | _ \<Rightarrow> None)"

text \<open>An array has the fields in their order; what is left over is an error.\<close>

fun profile_of_json :: "json \<Rightarrow> profile option" where
  "profile_of_json (JObject kvs) = profile_of_members kvs"
| "profile_of_json (JArray vs) =
     (if length vs \<le> length profile_fields then profile_of_members (zip profile_fields vs) else None)"
| "profile_of_json v = None"

section \<open>Stores by name\<close>

datatype store_error = AlreadyExists string | NotFound string

definition store_create :: "('v \<Rightarrow> string) \<Rightarrow> 'v \<Rightarrow> (string \<times> 'v) list \<Rightarrow> store_error + (string \<times> 'v) list" where
  "store_create name v s = (if map_of s (name v) \<noteq> None then Inl (AlreadyExists (name v)) else Inr (AList.update (name v) v s))"

definition store_update :: "('v \<Rightarrow> string) \<Rightarrow> 'v \<Rightarrow> (string \<times> 'v) list \<Rightarrow> store_error + (string \<times> 'v) list" where
  "store_update name v s = (if map_of s (name v) = None then Inl (NotFound (name v)) else Inr (AList.update (name v) v s))"

definition store_delete :: "string \<Rightarrow> (string \<times> 'v) list \<Rightarrow> store_error + (string \<times> 'v) list" where
  "store_delete n s = (if map_of s n = None then Inl (NotFound n) else Inr (AList.delete n s))"

definition profile_create :: "profile \<Rightarrow> (string \<times> profile) list \<Rightarrow> store_error + (string \<times> profile) list" where
  "profile_create = store_create pf_name"

definition profile_update :: "profile \<Rightarrow> (string \<times> profile) list \<Rightarrow> store_error + (string \<times> profile) list" where
  "profile_update = store_update pf_name"

definition profile_delete :: "string \<Rightarrow> (string \<times> profile) list \<Rightarrow> store_error + (string \<times> profile) list" where
  "profile_delete = store_delete"

definition provider_create :: "provider_config \<Rightarrow> (string \<times> provider_config) list \<Rightarrow> store_error + (string \<times> provider_config) list" where
  "provider_create = store_create pv_name"

definition provider_update :: "provider_config \<Rightarrow> (string \<times> provider_config) list \<Rightarrow> store_error + (string \<times> provider_config) list" where
  "provider_update = store_update pv_name"

definition provider_delete :: "string \<Rightarrow> (string \<times> provider_config) list \<Rightarrow> store_error + (string \<times> provider_config) list" where
  "provider_delete = store_delete"

text \<open>\<open>Router::register_provider\<close> replaces or creates.\<close>

definition register_provider :: "provider_config \<Rightarrow> (string \<times> provider_config) list \<Rightarrow> (string \<times> provider_config) list" where
  "register_provider p s =
     (case provider_update p s of
        Inr s' \<Rightarrow> s'
      | Inl _ \<Rightarrow> (case provider_create p s of Inr s' \<Rightarrow> s' | Inl _ \<Rightarrow> s))"

text \<open>Entries of the MCP store are JSON; one without a name is refused.\<close>

definition mcp_name :: "json \<Rightarrow> string option" where
  "mcp_name entry = str_field ''name'' entry"

definition missing_name :: store_error where
  "missing_name = NotFound ''<missing \"name\">''"

definition mcp_create :: "json \<Rightarrow> (string \<times> json) list \<Rightarrow> store_error + (string \<times> json) list" where
  "mcp_create entry s =
     (case mcp_name entry of None \<Rightarrow> Inl missing_name | Some n \<Rightarrow> store_create (\<lambda>_. n) entry s)"

definition mcp_update :: "json \<Rightarrow> (string \<times> json) list \<Rightarrow> store_error + (string \<times> json) list" where
  "mcp_update entry s =
     (case mcp_name entry of None \<Rightarrow> Inl missing_name | Some n \<Rightarrow> store_update (\<lambda>_. n) entry s)"

definition mcp_delete :: "string \<Rightarrow> (string \<times> json) list \<Rightarrow> store_error + (string \<times> json) list" where
  "mcp_delete = store_delete"

section \<open>Keys\<close>

definition keystore_store :: "string \<Rightarrow> string \<Rightarrow> (string \<times> string) list \<Rightarrow> (string \<times> string) list" where
  "keystore_store fresh secret ks = AList.update fresh secret ks"

definition keystore_resolve :: "string \<Rightarrow> (string \<times> string) list \<Rightarrow> string option" where
  "keystore_resolve key ks = map_of ks key"

definition keystore_delete :: "string \<Rightarrow> (string \<times> string) list \<Rightarrow> (string \<times> string) list option" where
  "keystore_delete key ks = (if map_of ks key = None then None else Some (AList.delete key ks))"

section \<open>The environment of an agent\<close>

definition provider_env :: "(json \<Rightarrow> string) \<Rightarrow> provider_config \<Rightarrow> string option \<Rightarrow> (string \<times> string) list" where
  "provider_env ser p key =
     (case pv_kind p of
        Anthropic \<Rightarrow>
          (case key of None \<Rightarrow> [] | Some k \<Rightarrow> [(''ANTHROPIC_API_KEY'', k)])
          @ (case pv_base_url p of None \<Rightarrow> [] | Some url \<Rightarrow> [(''ANTHROPIC_BASE_URL'', url)])
      | _ \<Rightarrow>
          (case key of None \<Rightarrow> [] | Some k \<Rightarrow> [(''CODEX_API_KEY'', k)])
          @ (case pv_base_url p of None \<Rightarrow> [] | Some url \<Rightarrow> [(''CODEX_CONFIG'', ser (JObject [(''openai_base_url'', JString url)]))]))"

definition build_launch_env ::
  "(json \<Rightarrow> string) \<Rightarrow> profile \<Rightarrow> provider_config option \<Rightarrow> string option \<Rightarrow> (string \<times> string) list"
where
  "build_launch_env ser p provider key =
     fold (\<lambda>(k, v). AList.update k v) (pf_launch_overrides p)
       (case provider of None \<Rightarrow> [] | Some pv \<Rightarrow> provider_env ser pv key)"

section \<open>MCP servers of a session\<close>

definition mcp_entry_is_enabled :: "json \<Rightarrow> bool" where
  "mcp_entry_is_enabled entry = (case Option.bind (json_get ''enabled'' entry) as_bool of None \<Rightarrow> True | Some b \<Rightarrow> b)"

text \<open>\<open>merge_mcp_servers\<close>; the code gives the entries in no particular order.\<close>

definition put_named :: "json \<Rightarrow> (string \<times> json) list \<Rightarrow> (string \<times> json) list" where
  "put_named entry m = (case mcp_name entry of None \<Rightarrow> m | Some n \<Rightarrow> AList.update n entry m)"

definition merge_mcp_servers :: "json list \<Rightarrow> json list \<Rightarrow> json list" where
  "merge_mcp_servers client central =
     map snd (fold put_named client (fold put_named (filter mcp_entry_is_enabled central) []))"

definition list_named :: "string list \<Rightarrow> (string \<times> json) list \<Rightarrow> json list" where
  "list_named names s = filter mcp_entry_is_enabled (List.map_filter (map_of s) names)"

text \<open>\<open>inject_oauth_headers\<close>: \<open>tokens\<close> are the access tokens by server.\<close>

definition inject_oauth_header :: "(string \<times> string) list \<Rightarrow> json \<Rightarrow> json" where
  "inject_oauth_header tokens entry =
     (case (entry, Option.bind (mcp_name entry) (map_of tokens)) of
        (JObject kvs, Some token) \<Rightarrow>
          (let headers = (case map_of kvs ''headers'' of None \<Rightarrow> JObject [] | Some v \<Rightarrow> v);
               headers' = (case headers of
                             JObject hs \<Rightarrow> JObject (AList.update ''Authorization'' (JString (''Bearer '' @ token)) hs)
                           | v \<Rightarrow> v)
           in JObject (AList.update ''headers'' headers' kvs))
      | _ \<Rightarrow> entry)"

definition inject_oauth_headers :: "(string \<times> string) list \<Rightarrow> json list \<Rightarrow> json list" where
  "inject_oauth_headers tokens = map (inject_oauth_header tokens)"

section \<open>The contract of the stores\<close>

locale named_store =
  fixes name :: "'v \<Rightarrow> string option"
    and get :: "string \<Rightarrow> 's \<Rightarrow> 'v option"
    and create :: "'v \<Rightarrow> 's \<Rightarrow> store_error + 's"
    and update :: "'v \<Rightarrow> 's \<Rightarrow> store_error + 's"
    and delete :: "string \<Rightarrow> 's \<Rightarrow> store_error + 's"
  assumes create_fresh: "name v = Some n \<Longrightarrow> get n s = None \<Longrightarrow>
      \<exists>s'. create v s = Inr s' \<and> (\<forall>m. get m s' = (if m = n then Some v else get m s))"
    and create_taken: "name v = Some n \<Longrightarrow> get n s \<noteq> None \<Longrightarrow> create v s = Inl (AlreadyExists n)"
    and update_known: "name v = Some n \<Longrightarrow> get n s \<noteq> None \<Longrightarrow>
      \<exists>s'. update v s = Inr s' \<and> (\<forall>m. get m s' = (if m = n then Some v else get m s))"
    and update_unknown: "name v = Some n \<Longrightarrow> get n s = None \<Longrightarrow> update v s = Inl (NotFound n)"
    and delete_known: "get n s \<noteq> None \<Longrightarrow> \<exists>s'. delete n s = Inr s' \<and> (\<forall>m. get m s' = (if m = n then None else get m s))"
    and delete_unknown: "get n s = None \<Longrightarrow> delete n s = Inl (NotFound n)"
    and unnamed: "name v = None \<Longrightarrow> (\<exists>e. create v s = Inl e) \<and> (\<exists>e. update v s = Inl e)"
begin

lemma created:
  assumes "create v s = Inr s'"
  shows "\<exists>n. name v = Some n \<and> get n s = None \<and> (\<forall>m. get m s' = (if m = n then Some v else get m s))"
proof (cases "name v")
  case None
  then show ?thesis using unnamed [of v s] assms by auto
next
  case (Some n)
  show ?thesis
  proof (cases "get n s")
    case None
    with create_fresh [OF Some None] assms Some show ?thesis by auto
  qed (use create_taken [OF Some, of s] assms in simp)
qed

lemma updated:
  assumes "update v s = Inr s'"
  shows "\<exists>n. name v = Some n \<and> get n s \<noteq> None \<and> (\<forall>m. get m s' = (if m = n then Some v else get m s))"
proof (cases "name v")
  case None
  then show ?thesis using unnamed [of v s] assms by auto
next
  case (Some n)
  show ?thesis
  proof (cases "get n s")
    case None
    with update_unknown [OF Some None] assms show ?thesis by simp
  next
    case (Some u)
    then show ?thesis using update_known [OF \<open>name v = Some n\<close>, of s] assms \<open>name v = Some n\<close> by auto
  qed
qed

lemma saved:
  assumes "(if fresh then create else update) v s = Inr s'"
  shows "\<exists>n. name v = Some n \<and> (\<forall>m. get m s' = (if m = n then Some v else get m s))"
  using assms created [of v s s'] updated [of v s s'] by (cases fresh) auto

lemma deleted:
  assumes "delete n s = Inr s'"
  shows "get m s' = (if m = n then None else get m s)"
  using assms delete_known [of n s] delete_unknown [of n s] by (cases "get n s") auto

text \<open>What was deleted can be created again, and what was created can be deleted.\<close>

lemma create_delete:
  assumes "create v s = Inr s'" and "name v = Some n"
  shows "\<exists>s''. delete n s' = Inr s'' \<and> (\<forall>m. get m s'' = get m s)"
proof -
  have g: "get n s = None" "\<And>m. get m s' = (if m = n then Some v else get m s)" using created [OF assms(1)] assms(2) by auto
  then obtain s'' where "delete n s' = Inr s''" using delete_known [of n s'] by auto
  with deleted [OF this] g show ?thesis by auto
qed

end

lemma named_store_alist:
  "named_store (\<lambda>v. Some (name v)) (\<lambda>n s. map_of s n) (store_create name) (store_update name) store_delete"
  by unfold_locales (auto simp: store_create_def store_update_def store_delete_def update_conv' delete_conv')

interpretation profile_store: named_store "\<lambda>p. Some (pf_name p)" "\<lambda>n s. map_of s n" profile_create profile_update profile_delete
  unfolding profile_create_def profile_update_def profile_delete_def by (rule named_store_alist)

interpretation provider_store: named_store "\<lambda>p. Some (pv_name p)" "\<lambda>n s. map_of s n" provider_create provider_update provider_delete
  unfolding provider_create_def provider_update_def provider_delete_def by (rule named_store_alist)

interpretation mcp_store: named_store mcp_name "\<lambda>n s. map_of s n" mcp_create mcp_update mcp_delete
  by unfold_locales
    (auto simp: mcp_create_def mcp_update_def mcp_delete_def store_create_def store_update_def store_delete_def update_conv' delete_conv')

section \<open>Profiles are read back\<close>

lemma all_some_map: "(\<And>x. f (g x) = Some x) \<Longrightarrow> all_some (map (f \<circ> g) xs) = Some xs"
  by (induction xs) simp_all

lemma read_source_name [simp]: "read_source (JString (source_name s)) = Some s"
  by (cases s) (simp_all add: read_source_def source_name_def)

lemma read_policy_name [simp]: "read_policy (JString (policy_name q)) = Some q"
  by (cases q) (simp_all add: read_policy_def policy_name_def)

lemma opt_str_json [simp]: "opt_str (opt_json x) = Some x"
  by (cases x) (simp_all add: opt_json_def)

lemma read_collections [simp]:
  "read_strings (JArray (map JString xs)) = Some xs"
  "read_string_map (JObject (map (\<lambda>(k, v). (k, JString v)) kvs)) = Some kvs"
proof -
  show "read_strings (JArray (map JString xs)) = Some xs" by (simp add: read_strings_def all_some_map)
  have "all_some (map ((\<lambda>(k, x). map_option (Pair k) (as_str x)) \<circ> (\<lambda>(k, v). (k, JString v))) kvs) = Some kvs"
    by (rule all_some_map) auto
  then show "read_string_map (JObject (map (\<lambda>(k, v). (k, JString v)) kvs)) = Some kvs" by (simp add: read_string_map_def)
qed

lemma profile_roundtrip [simp]: "profile_of_json (profile_json p) = Some p"
  by (simp add: profile_json_def profile_fields_def profile_of_members_def read_field_def Let_def)

section \<open>The environment\<close>

lemma map_of_overlay: "map_of (fold (\<lambda>(k, v). AList.update k v) kvs env) k = (case map_of (rev kvs) k of None \<Rightarrow> map_of env k | Some v \<Rightarrow> Some v)"
  by (induction kvs arbitrary: env) (auto simp: update_conv' map_add_def split: option.splits)

text \<open>The name under which an agent of a provider finds its key.\<close>

definition key_variable :: "provider_kind \<Rightarrow> string" where
  "key_variable kind = (case kind of Anthropic \<Rightarrow> ''ANTHROPIC_API_KEY'' | _ \<Rightarrow> ''CODEX_API_KEY'')"

lemma launch_env_value:
  "map_of (build_launch_env ser p (Some pv) (Some key)) (key_variable (pv_kind pv))
     = (case map_of (rev (pf_launch_overrides p)) (key_variable (pv_kind pv)) of None \<Rightarrow> Some key | Some v \<Rightarrow> Some v)"
  by (cases "pv_kind pv") (simp_all add: build_launch_env_def map_of_overlay provider_env_def key_variable_def split: option.split)

section \<open>The servers of a session\<close>

text \<open>The entry that counts for a name is the last one, as each replaces the one before.\<close>

fun last_named :: "json list \<Rightarrow> string \<Rightarrow> json option" where
  "last_named [] n = None"
| "last_named (e # es) n = (case last_named es n of Some x \<Rightarrow> Some x | None \<Rightarrow> if mcp_name e = Some n then Some e else None)"

lemma map_of_put_named: "map_of (fold put_named es m) n = (case last_named es n of Some x \<Rightarrow> Some x | None \<Rightarrow> map_of m n)"
  by (induction es arbitrary: m) (auto simp: put_named_def update_conv' split: option.splits)

lemma distinct_put_named: "distinct (map fst m) \<Longrightarrow> distinct (map fst (fold put_named es m))"
  by (induction es arbitrary: m) (auto simp: put_named_def distinct_update split: option.splits)

lemma last_named_some: "last_named es n = Some e \<Longrightarrow> e \<in> set es \<and> mcp_name e = Some n"
  by (induction es) (auto split: option.splits if_splits)

lemma last_named_none: "last_named es n = None \<longleftrightarrow> (\<forall>e\<in>set es. mcp_name e \<noteq> Some n)"
  by (induction es) (auto split: option.splits)

lemma put_named_named: "(\<forall>(n, e)\<in>set m. mcp_name e = Some n) \<Longrightarrow> \<forall>(n, e)\<in>set (fold put_named es m). mcp_name e = Some n"
proof (induction es arbitrary: m)
  case (Cons e es)
  have "\<forall>(n, e)\<in>set (put_named e m). mcp_name e = Some n"
    using Cons.prems by (auto simp: put_named_def split: option.splits dest!: entry_of_update)
  then show ?case using Cons.IH by simp
qed simp

text \<open>
  \<open>merge_mcp_servers\<close>, entry by entry: the client's own entry of a name, else the enabled central one.
\<close>

lemma merged_entry:
  "e \<in> set (merge_mcp_servers client central) \<longleftrightarrow>
     (\<exists>n. mcp_name e = Some n \<and>
        (last_named client n = Some e \<or> last_named client n = None \<and> last_named (filter mcp_entry_is_enabled central) n = Some e))"
proof -
  let ?m = "fold put_named client (fold put_named (filter mcp_entry_is_enabled central) [])"
  have d: "distinct (map fst ?m)" by (intro distinct_put_named) simp
  have named: "\<forall>(n, e)\<in>set ?m. mcp_name e = Some n" by (intro put_named_named) simp
  have name: "mcp_name e = Some n" if "map_of ?m n = Some e" for n using bspec [OF named map_of_SomeD [OF that]] by simp
  have "e \<in> set (map snd ?m) \<longleftrightarrow> (\<exists>n. map_of ?m n = Some e)"
    using d by (metis (no_types, lifting) image_iff list.set_map map_of_SomeD map_of_is_SomeI prod.collapse snd_conv)
  also have "\<dots> \<longleftrightarrow> (\<exists>n. mcp_name e = Some n \<and> map_of ?m n = Some e)"
    using name by blast
  moreover have "map_of ?m n = Some e \<longleftrightarrow>
      last_named client n = Some e \<or> last_named client n = None \<and> last_named (filter mcp_entry_is_enabled central) n = Some e" for n
    by (cases "last_named client n") (simp_all add: map_of_put_named split: option.split)
  ultimately show ?thesis by (simp add: merge_mcp_servers_def)
qed

end
