(* ===== verification/Keyring.thy ===== *)
theory Keyring
  imports JsonPath Nested
begin

text \<open>
  \<open>MasterKeyring\<close> of \<open>acpx-core/src/keystore.rs\<close>: versioned keys for the secrets on disk, their file and their
  rotation.  AES-256-GCM (\<open>enc\<close>, \<open>dec\<close>), the random bytes and the serializer are parameters.
\<close>

section \<open>Bytes as text\<close>

definition hex_char :: "nat \<Rightarrow> char" where
  "hex_char n = char_of (if n < 10 then 48 + n else 87 + n)"

definition hex_encode :: "string \<Rightarrow> string" where
  "hex_encode bs = concat (map (\<lambda>b. [hex_char (of_char b div 16), hex_char (of_char b mod 16)]) bs)"

definition hex_digit :: "char \<Rightarrow> nat option" where
  "hex_digit c =
     (let n = of_char c :: nat
      in if 48 \<le> n \<and> n \<le> 57 then Some (n - 48)
         else if 97 \<le> n \<and> n \<le> 102 then Some (n - 87)
         else if 65 \<le> n \<and> n \<le> 70 then Some (n - 55)
         else None)"

text \<open>\<open>u8::from_str_radix\<close> also takes a plus sign before the last digit.\<close>

definition hex_pair :: "char \<Rightarrow> char \<Rightarrow> char option" where
  "hex_pair a b =
     (if a = CHR 0x2B then map_option char_of (hex_digit b)
      else case (hex_digit a, hex_digit b) of (Some m, Some n) \<Rightarrow> Some (char_of (16 * m + n)) | _ \<Rightarrow> None)"

fun hex_decode :: "string \<Rightarrow> string option" where
  "hex_decode [] = Some []"
| "hex_decode [c] = None"
| "hex_decode (a # b # s) = (case (hex_pair a b, hex_decode s) of (Some c, Some bs) \<Rightarrow> Some (c # bs) | _ \<Rightarrow> None)"

lemma of_char_hex_char: "n < 16 \<Longrightarrow> (of_char (hex_char n) :: nat) = (if n < 10 then 48 + n else 87 + n)"
  by (simp add: hex_char_def of_char_of)

lemma hex_digit_char: "n < 16 \<Longrightarrow> hex_digit (hex_char n) = Some n"
  by (simp add: hex_digit_def of_char_hex_char Let_def)

lemma hex_char_no_plus: "n < 16 \<Longrightarrow> hex_char n \<noteq> CHR 0x2B"
proof
  assume n: "n < 16" and "hex_char n = CHR 0x2B"
  then have "(of_char (hex_char n) :: nat) = 43" by simp
  with of_char_hex_char [OF n] show False by (simp split: if_splits)
qed

lemma hex_pair_encode: "hex_pair (hex_char (of_char b div 16)) (hex_char (of_char b mod 16)) = Some b"
proof -
  have "(of_char b :: nat) div 16 < 16" by (rule less_mult_imp_div_less) (use nat_of_char_less_256 [of b] in simp)
  then show ?thesis by (simp add: hex_pair_def hex_digit_char hex_char_no_plus)
qed

lemma hex_decode_encode [simp]: "hex_decode (hex_encode bs) = Some bs"
  by (induction bs) (simp_all add: hex_encode_def hex_pair_encode)

section \<open>The keyring\<close>

record keyring =
  kr_keys :: "(nat \<times> string) list"
  kr_current :: nat

datatype keystore_error = KeyNotFound string | DecryptFailed nat | UnknownKeyVersion nat

definition keyring_generate :: "string \<Rightarrow> keyring" where
  "keyring_generate key = \<lparr>kr_keys = [(1, key)], kr_current = 1\<rparr>"

text \<open>A rotation adds a key; versions are \<open>u32\<close>, and the last one cannot be rotated.\<close>

definition keyring_rotate :: "string \<Rightarrow> keyring \<Rightarrow> keyring option" where
  "keyring_rotate key kr =
     (if kr_current kr + 1 < 2 ^ 32
      then Some \<lparr>kr_keys = AList.update (kr_current kr + 1) key (kr_keys kr), kr_current = kr_current kr + 1\<rparr>
      else None)"

text \<open>\<open>encrypt\<close> panics without a current key.\<close>

definition keyring_encrypt :: "(string \<Rightarrow> string \<Rightarrow> string \<Rightarrow> string) \<Rightarrow> keyring \<Rightarrow> string \<Rightarrow> string \<Rightarrow> (nat \<times> string \<times> string) option" where
  "keyring_encrypt enc kr nonce plain =
     map_option (\<lambda>key. (kr_current kr, nonce, enc key nonce plain)) (map_of (kr_keys kr) (kr_current kr))"

definition keyring_decrypt ::
  "(string \<Rightarrow> string \<Rightarrow> string \<Rightarrow> string option) \<Rightarrow> keyring \<Rightarrow> nat \<Rightarrow> string \<Rightarrow> string \<Rightarrow> keystore_error + string"
where
  "keyring_decrypt dec kr version nonce cipher =
     (case map_of (kr_keys kr) version of
        None \<Rightarrow> Inl (UnknownKeyVersion version)
      | Some key \<Rightarrow> (case dec key nonce cipher of None \<Rightarrow> Inl (DecryptFailed version) | Some plain \<Rightarrow> Inr plain))"

section \<open>Its file\<close>

definition keyring_json :: "keyring \<Rightarrow> json" where
  "keyring_json kr =
     JObject [(''current_version'', JNumber (show_nat (kr_current kr))),
              (''keys'', JObject (map (\<lambda>(v, key). (show_nat v, JString (hex_encode key))) (kr_keys kr)))]"

definition parse_u32 :: "string \<Rightarrow> nat option" where
  "parse_u32 s = Option.bind (parse_usize s) (\<lambda>n. if n < 2 ^ 32 then Some n else None)"

fun read_keys :: "(string \<times> json) list \<Rightarrow> (nat \<times> string) list option" where
  "read_keys [] = Some []"
| "read_keys ((v, x) # kvs) =
     (case (parse_u32 v, Option.bind (as_str x) hex_decode, read_keys kvs) of
        (Some n, Some key, Some keys) \<Rightarrow> if length key = 32 then Some ((n, key) # keys) else None
      | _ \<Rightarrow> None)"

definition keyring_of_json :: "json \<Rightarrow> keyring option" where
  "keyring_of_json v =
     (case (Option.bind (json_get ''current_version'' v) as_u64, Option.bind (json_get ''keys'' v) as_object) of
        (Some n, Some kvs) \<Rightarrow>
          if n < 2 ^ 32 then map_option (\<lambda>keys. \<lparr>kr_keys = keys, kr_current = n\<rparr>) (read_keys kvs) else None
      | _ \<Rightarrow> None)"

text \<open>\<open>fs::write\<close> is not atomic: a crash leaves a prefix.\<close>

datatype save_outcome = SaveFails | SaveStops string | Saved

definition keyring_save :: "(json \<Rightarrow> string) \<Rightarrow> save_outcome \<Rightarrow> keyring \<Rightarrow> string option \<Rightarrow> string option" where
  "keyring_save ser outcome kr file =
     (case outcome of SaveFails \<Rightarrow> file | SaveStops s \<Rightarrow> Some s | Saved \<Rightarrow> Some (ser (keyring_json kr)))"

definition keyring_load :: "(string \<Rightarrow> json option) \<Rightarrow> string \<Rightarrow> keyring option" where
  "keyring_load de content = Option.bind (de content) keyring_of_json"

section \<open>A keyring is read back\<close>

definition keyring_ok :: "keyring \<Rightarrow> bool" where
  "keyring_ok kr \<longleftrightarrow>
     kr_current kr < 2 ^ 32 \<and> map_of (kr_keys kr) (kr_current kr) \<noteq> None \<and> distinct (map fst (kr_keys kr))
     \<and> (\<forall>(v, key)\<in>set (kr_keys kr). v \<le> kr_current kr \<and> length key = 32)"

lemma read_keys_written:
  assumes "\<forall>(v, key)\<in>set keys. v < 2 ^ 32 \<and> length key = 32"
  shows "read_keys (map (\<lambda>(v, key). (show_nat v, JString (hex_encode key))) keys) = Some keys"
  using assms by (induction keys) (auto simp: parse_u32_def)

lemma keyring_roundtrip:
  assumes "keyring_ok kr"
  shows "keyring_of_json (keyring_json kr) = Some kr"
proof -
  have "read_keys (map (\<lambda>(v, key). (show_nat v, JString (hex_encode key))) (kr_keys kr)) = Some (kr_keys kr)"
    by (rule read_keys_written) (use assms in \<open>fastforce simp: keyring_ok_def\<close>)
  then show ?thesis using assms by (simp add: keyring_of_json_def keyring_json_def keyring_ok_def)
qed

lemma keyring_ok_generate: "length key = 32 \<Longrightarrow> keyring_ok (keyring_generate key)"
  by (simp add: keyring_ok_def keyring_generate_def)

lemma keyring_ok_rotate:
  assumes "keyring_ok kr" and "length key = 32" and "keyring_rotate key kr = Some kr'"
  shows "keyring_ok kr'" and "v \<noteq> kr_current kr' \<Longrightarrow> map_of (kr_keys kr') v = map_of (kr_keys kr) v" and "kr_current kr' = kr_current kr + 1"
proof -
  have kr': "kr' = \<lparr>kr_keys = AList.update (kr_current kr + 1) key (kr_keys kr), kr_current = kr_current kr + 1\<rparr>"
      "kr_current kr + 1 < 2 ^ 32"
    using assms(3) by (auto simp: keyring_rotate_def split: if_splits)
  show "keyring_ok kr'"
    using assms(1,2) kr' by (auto simp: keyring_ok_def distinct_update update_conv' dest!: entry_of_update)
  show "v \<noteq> kr_current kr' \<Longrightarrow> map_of (kr_keys kr') v = map_of (kr_keys kr) v" and "kr_current kr' = kr_current kr + 1"
    using kr' by (simp_all add: update_conv')
qed

end
