(* ===== verification/ConfigStore.thy ===== *)
theory ConfigStore
  imports Profiles Keyring
begin

text \<open>
  The durable configuration of the gateway in \<open>acpx-core/src/router.rs\<close>: profiles and MCP servers that requests change,
  the secrets of profiles, their encryption and its rotation, and what a restart reads back
  (\<open>enable_durable_config\<close>).  The outcome of each statement and file operation is an argument; a panic is \<open>None\<close>.
\<close>

section \<open>State\<close>

text \<open>The cipher, and the text of the keyring file.\<close>

record crypto =
  cr_enc :: "string \<Rightarrow> string \<Rightarrow> string \<Rightarrow> string"
  cr_dec :: "string \<Rightarrow> string \<Rightarrow> string \<Rightarrow> string option"
  cr_ser :: "json \<Rightarrow> string"
  cr_de :: "string \<Rightarrow> json option"

definition crypto_sound :: "crypto \<Rightarrow> bool" where
  "crypto_sound K \<longleftrightarrow>
     (\<forall>key nonce plain. cr_dec K key nonce (cr_enc K key nonce plain) = Some plain) \<and> (\<forall>v. cr_de K (cr_ser K v) = Some v)"

text \<open>The tables of the database with the ciphertext, nonce and key version of each secret, and the keyring file.\<close>

record config_disk =
  cd_keyfile :: "string option"
  cd_secrets :: "(string \<times> string \<times> string \<times> nat) list"
  cd_profiles :: "(string \<times> json) list"
  cd_mcp :: "(string \<times> json) list"
  cd_providers :: "(string \<times> json) list"

record config =
  cf_profiles :: "(string \<times> profile) list"
  cf_providers :: "(string \<times> provider_config) list"
  cf_mcp :: "(string \<times> json) list"
  cf_keys :: "(string \<times> string) list"
  cf_keyring :: "keyring option"
  cf_disk :: "config_disk option"

datatype config_error =
    ProfileError store_error
  | McpError store_error
  | KeyringIo
  | KeyError keystore_error
  | StorageError
  | MissingConfigParams
  | RotationRequiresDurableConfig
  | DurableConfigRequiresPersistence

definition config_new :: "config_disk option \<Rightarrow> config" where
  "config_new d = \<lparr>cf_profiles = [], cf_providers = [], cf_mcp = [], cf_keys = [], cf_keyring = None, cf_disk = d\<rparr>"

definition disk_new :: config_disk where
  "disk_new = \<lparr>cd_keyfile = None, cd_secrets = [], cd_profiles = [], cd_mcp = [], cd_providers = []\<rparr>"

text \<open>One statement on the database; without a database nothing is done.\<close>

definition on_disk :: "bool \<Rightarrow> (config_disk \<Rightarrow> config_disk) \<Rightarrow> config \<Rightarrow> config \<times> (config_error + unit)" where
  "on_disk ok f c =
     (case cf_disk c of
        None \<Rightarrow> (c, Inr ())
      | Some d \<Rightarrow> if ok then (c\<lparr>cf_disk := Some (f d)\<rparr>, Inr ()) else (c, Inl StorageError))"

section \<open>Secrets\<close>

definition put_secret :: "string \<Rightarrow> nat \<times> string \<times> string \<Rightarrow> config_disk \<Rightarrow> config_disk" where
  "put_secret key sealed d =
     (let (version, nonce, cipher) = sealed in d\<lparr>cd_secrets := AList.update key (cipher, nonce, version) (cd_secrets d)\<rparr>)"

definition persist_secret :: "crypto \<Rightarrow> string \<Rightarrow> bool \<Rightarrow> string \<Rightarrow> string \<Rightarrow> config \<Rightarrow> (config \<times> (config_error + unit)) option" where
  "persist_secret K nonce ok key secret c =
     (case (cf_keyring c, cf_disk c) of
        (Some kr, Some d) \<Rightarrow> map_option (\<lambda>sealed. on_disk ok (put_secret key sealed) c) (keyring_encrypt (cr_enc K) kr nonce secret)
      | _ \<Rightarrow> Some (c, Inr ()))"

text \<open>
  The rows of a rotation, written one after another until one fails; \<open>writes\<close> has the nonce and the outcome of each.
\<close>

fun reseal :: "crypto \<Rightarrow> (string \<times> bool) list \<Rightarrow> (string \<times> string) list \<Rightarrow> config \<Rightarrow> (config \<times> (config_error + unit)) option" where
  "reseal K writes [] c = Some (c, Inr ())"
| "reseal K [] (x # xs) c = Some (c, Inl StorageError)"
| "reseal K ((nonce, ok) # writes) ((key, secret) # xs) c =
     (case persist_secret K nonce ok key secret c of
        None \<Rightarrow> None
      | Some (c', Inl e) \<Rightarrow> Some (c', Inl e)
      | Some (c', Inr u) \<Rightarrow> reseal K writes xs c')"

definition rotate_master_key ::
  "crypto \<Rightarrow> string \<Rightarrow> save_outcome \<Rightarrow> (string \<times> bool) list \<Rightarrow> config \<Rightarrow> (config \<times> (config_error + nat)) option"
where
  "rotate_master_key K key outcome writes c =
     (case (cf_keyring c, cf_disk c) of
        (Some kr, Some d) \<Rightarrow>
          (case keyring_rotate key kr of
             None \<Rightarrow> None
           | Some kr' \<Rightarrow>
               (let c1 = c\<lparr>cf_keyring := Some kr', cf_disk := Some (d\<lparr>cd_keyfile := keyring_save (cr_ser K) outcome kr' (cd_keyfile d)\<rparr>)\<rparr>
                in if outcome \<noteq> Saved then Some (c1, Inl KeyringIo)
                   else map_option (\<lambda>(c2, r). (c2, map_sum id (\<lambda>_. kr_current kr') r)) (reseal K writes (cf_keys c) c1)))
      | _ \<Rightarrow> Some (c, Inl RotationRequiresDurableConfig))"

section \<open>Profiles\<close>

definition redact_launch_overrides :: "json \<Rightarrow> json" where
  "redact_launch_overrides v =
     (case (v, Option.bind (json_get ''launch_overrides'' v) as_object) of
        (JObject kvs, Some overrides) \<Rightarrow>
          JObject (AList.update ''launch_overrides'' (JObject (map (\<lambda>(k, x). (k, JString ''***redacted***'')) overrides)) kvs)
      | _ \<Rightarrow> v)"

text \<open>\<open>profiles/create\<close> and \<open>profiles/update\<close>: a secret in the request goes to the keystore under a fresh reference.\<close>

definition keep_secret ::
  "crypto \<Rightarrow> string \<Rightarrow> string \<Rightarrow> bool \<Rightarrow> json \<Rightarrow> profile \<Rightarrow> config \<Rightarrow> (config \<times> (config_error + profile)) option"
where
  "keep_secret K fresh nonce ok params p c =
     (case Option.bind (json_get ''secret'' params) as_str of
        None \<Rightarrow> Some (c, Inr p)
      | Some secret \<Rightarrow>
          map_option (\<lambda>(c', r). (c', map_sum id (\<lambda>_. p\<lparr>pf_key_ref := Some fresh\<rparr>) r))
            (persist_secret K nonce ok fresh secret (c\<lparr>cf_keys := keystore_store fresh secret (cf_keys c)\<rparr>)))"

definition save_profile ::
  "crypto \<Rightarrow> bool \<Rightarrow> string \<Rightarrow> string \<Rightarrow> bool \<Rightarrow> bool \<Rightarrow> json \<Rightarrow> config \<Rightarrow> (config \<times> (config_error + json)) option"
where
  "save_profile K create fresh nonce secret_ok row_ok params c =
     (case profile_of_json params of
        None \<Rightarrow> Some (c, Inl MissingConfigParams)
      | Some p0 \<Rightarrow>
          (case keep_secret K fresh nonce secret_ok params p0 c of
             None \<Rightarrow> None
           | Some (c1, Inl e) \<Rightarrow> Some (c1, Inl e)
           | Some (c1, Inr p) \<Rightarrow>
               (case (if create then profile_create else profile_update) p (cf_profiles c1) of
                  Inl e \<Rightarrow> Some (c1, Inl (ProfileError e))
                | Inr profiles \<Rightarrow>
                    (case on_disk row_ok (\<lambda>d. d\<lparr>cd_profiles := AList.update (pf_name p) (profile_json p) (cd_profiles d)\<rparr>)
                            (c1\<lparr>cf_profiles := profiles\<rparr>) of
                       (c2, Inl e) \<Rightarrow> Some (c2, Inl e)
                     | (c2, Inr u) \<Rightarrow> Some (c2, Inr (redact_launch_overrides (profile_json p)))))))"

text \<open>
  \<open>profiles/delete\<close>, with the processes it stops: one key, and the keys that begin with a prefix.
\<close>

definition delete_profile :: "string \<Rightarrow> bool \<Rightarrow> config \<Rightarrow> config \<times> (config_error + string \<times> string)" where
  "delete_profile name ok c =
     (case profile_delete name (cf_profiles c) of
        Inl e \<Rightarrow> (c, Inl (ProfileError e))
      | Inr profiles \<Rightarrow>
          (case on_disk ok (\<lambda>d. d\<lparr>cd_profiles := AList.delete name (cd_profiles d)\<rparr>) (c\<lparr>cf_profiles := profiles\<rparr>) of
             (c', Inl e) \<Rightarrow> (c', Inl e)
           | (c', Inr u) \<Rightarrow> (c', Inr (''profile:'' @ name, ''profile:'' @ name @ '':tenant:''))))"

definition list_profiles :: "config \<Rightarrow> json list" where
  "list_profiles c = map (\<lambda>(n, p). redact_launch_overrides (profile_json p)) (cf_profiles c)"

text \<open>
  \<open>ensure_default_profiles_seeded\<close>: every installed agent of the registry has a profile; \<open>agents\<close> are those that
  \<open>detect\<close> finds installed.
\<close>

definition seeded_profile :: "string \<Rightarrow> profile" where
  "seeded_profile agent =
     profile_default\<lparr>pf_name := agent, pf_agent_id := agent, pf_source := AutoSeeded, pf_allow_fs_access := True, pf_allow_terminal_access := True\<rparr>"

definition seed_profile :: "string \<Rightarrow> (string \<times> profile) list \<Rightarrow> (string \<times> profile) list" where
  "seed_profile agent s =
     (if map_of s agent \<noteq> None then s else case profile_create (seeded_profile agent) s of Inr s' \<Rightarrow> s' | Inl _ \<Rightarrow> s)"

definition ensure_default_profiles_seeded :: "string list \<Rightarrow> config \<Rightarrow> config" where
  "ensure_default_profiles_seeded agents c = c\<lparr>cf_profiles := fold seed_profile agents (cf_profiles c)\<rparr>"

section \<open>MCP servers\<close>

definition save_mcp :: "bool \<Rightarrow> bool \<Rightarrow> json \<Rightarrow> config \<Rightarrow> config \<times> (config_error + json)" where
  "save_mcp create ok entry c =
     (case (if create then mcp_create else mcp_update) entry (cf_mcp c) of
        Inl e \<Rightarrow> (c, Inl (McpError e))
      | Inr servers \<Rightarrow>
          (let c1 = c\<lparr>cf_mcp := servers\<rparr>
           in case mcp_name entry of
                None \<Rightarrow> (c1, Inr entry)
              | Some n \<Rightarrow>
                  (case on_disk ok (\<lambda>d. d\<lparr>cd_mcp := AList.update n entry (cd_mcp d)\<rparr>) c1 of
                     (c2, Inl e) \<Rightarrow> (c2, Inl e)
                   | (c2, Inr u) \<Rightarrow> (c2, Inr entry))))"

definition delete_mcp :: "string \<Rightarrow> bool \<Rightarrow> config \<Rightarrow> config \<times> (config_error + unit)" where
  "delete_mcp name ok c =
     (case mcp_delete name (cf_mcp c) of
        Inl e \<Rightarrow> (c, Inl (McpError e))
      | Inr servers \<Rightarrow> on_disk ok (\<lambda>d. d\<lparr>cd_mcp := AList.delete name (cd_mcp d)\<rparr>) (c\<lparr>cf_mcp := servers\<rparr>))"

section \<open>A new process\<close>

definition read_kind :: "json \<Rightarrow> provider_kind option" where
  "read_kind v =
     Option.bind (variant_tag v)
       (\<lambda>s. if s = ''open_ai'' then Some OpenAi else if s = ''anthropic'' then Some Anthropic else if s = ''lite_llm'' then Some LiteLlm else None)"

definition provider_of_members :: "(string \<times> json) list \<Rightarrow> provider_config option" where
  "provider_of_members kvs =
     (case (Option.bind (map_of kvs ''name'') as_str, Option.bind (map_of kvs ''kind'') read_kind, read_field ''base_url'' opt_str None kvs) of
        (Some name, Some kind, Some url) \<Rightarrow> Some \<lparr>pv_name = name, pv_kind = kind, pv_base_url = url\<rparr>
      | _ \<Rightarrow> None)"

fun provider_of_json :: "json \<Rightarrow> provider_config option" where
  "provider_of_json (JObject kvs) = provider_of_members kvs"
| "provider_of_json (JArray [name, kind, url]) = provider_of_members [(''name'', name), (''kind'', kind), (''base_url'', url)]"
| "provider_of_json v = None"

text \<open>\<open>load_or_create\<close>: the keyring and the file afterwards.\<close>

definition load_or_create :: "crypto \<Rightarrow> string \<Rightarrow> save_outcome \<Rightarrow> config_disk \<Rightarrow> config_disk \<times> keyring option" where
  "load_or_create K key outcome d =
     (case cd_keyfile d of
        Some content \<Rightarrow> (d, keyring_load (cr_de K) content)
      | None \<Rightarrow>
          (let kr = keyring_generate key
           in (d\<lparr>cd_keyfile := keyring_save (cr_ser K) outcome kr None\<rparr>, if outcome = Saved then Some kr else None)))"

fun load_secrets ::
  "crypto \<Rightarrow> keyring \<Rightarrow> (string \<times> string \<times> string \<times> nat) list \<Rightarrow> (string \<times> string) list \<Rightarrow> keystore_error + (string \<times> string) list"
where
  "load_secrets K kr [] ks = Inr ks"
| "load_secrets K kr ((key, cipher, nonce, version) # rows) ks =
     (case keyring_decrypt (cr_dec K) kr version nonce cipher of
        Inl e \<Rightarrow> Inl e
      | Inr plain \<Rightarrow> load_secrets K kr rows (AList.update key plain ks))"

fun load_mcp :: "json list \<Rightarrow> (string \<times> json) list \<Rightarrow> store_error + (string \<times> json) list" where
  "load_mcp [] s = Inr s"
| "load_mcp (v # vs) s = (case mcp_create v s of Inl e \<Rightarrow> Inl e | Inr s' \<Rightarrow> load_mcp vs s')"

fun load_profiles :: "json list \<Rightarrow> (string \<times> profile) list \<Rightarrow> store_error + (string \<times> profile) list" where
  "load_profiles [] s = Inr s"
| "load_profiles (v # vs) s =
     (case profile_of_json v of
        None \<Rightarrow> load_profiles vs s
      | Some p \<Rightarrow> (case profile_create p s of Inl e \<Rightarrow> Inl e | Inr s' \<Rightarrow> load_profiles vs s'))"

text \<open>
  \<open>enable_durable_config\<close>.  The server stops when it fails, so the configuration loaded until then is not of
  interest.  The tables are read in the order of their keys, which does not matter here.
\<close>

definition enable_durable_config :: "crypto \<Rightarrow> string \<Rightarrow> save_outcome \<Rightarrow> config \<Rightarrow> config \<times> (config_error + unit)" where
  "enable_durable_config K key outcome c =
     (case cf_disk c of
        None \<Rightarrow> (c, Inl DurableConfigRequiresPersistence)
      | Some d \<Rightarrow>
          (case load_or_create K key outcome d of
             (d1, None) \<Rightarrow> (c\<lparr>cf_disk := Some d1\<rparr>, Inl KeyringIo)
           | (d1, Some kr) \<Rightarrow>
               (let c1 = c\<lparr>cf_disk := Some d1\<rparr>
                in case load_secrets K kr (cd_secrets d1) (cf_keys c) of
                     Inl e \<Rightarrow> (c1, Inl (KeyError e))
                   | Inr ks \<Rightarrow>
                       (let providers = fold register_provider (List.map_filter provider_of_json (map snd (cd_providers d1))) (cf_providers c)
                        in case load_mcp (map snd (cd_mcp d1)) (cf_mcp c) of
                             Inl e \<Rightarrow> (c1, Inl (McpError e))
                           | Inr servers \<Rightarrow>
                               (case load_profiles (map snd (cd_profiles d1)) (cf_profiles c) of
                                  Inl e \<Rightarrow> (c1, Inl (ProfileError e))
                                | Inr profiles \<Rightarrow>
                                    (c1\<lparr>cf_keys := ks, cf_providers := providers, cf_mcp := servers, cf_profiles := profiles,
                                        cf_keyring := Some kr\<rparr>, Inr ()))))))"

end
