(* ===== verification/Agents.thy ===== *)
theory Agents
  imports ConfigStore SessionLife AgentRequests
begin

text \<open>
  Which agent a session gets, in \<open>acpx-core/src/router.rs\<close>: the tables of enabled and custom agents
  (\<open>agent_state.rs\<close>, \<open>custom_agents.rs\<close>), the commands the supervisor knows, \<open>resolve_profile\<close>, and what a call
  may do on the host (\<open>call_policy\<close>).  Reading the tables does not fail; the registry of agents is an argument.
\<close>

section \<open>The tables\<close>

record custom_agent =
  ca_id :: string
  ca_name :: string
  ca_command :: string
  ca_args :: "string list"
  ca_env :: "(string \<times> string) list"
  ca_cwd :: "string option"

record agent_tables =
  at_enabled :: "(string \<times> bool) list"
  at_custom :: "(string \<times> custom_agent) list"

datatype agent_table_error = CustomAgentAlreadyExists string | CustomAgentNotFound string

definition set_agent_enabled :: "string \<Rightarrow> bool \<Rightarrow> agent_tables \<Rightarrow> agent_tables" where
  "set_agent_enabled a b ts = ts\<lparr>at_enabled := AList.update a b (at_enabled ts)\<rparr>"

definition is_enabled :: "string \<Rightarrow> agent_tables \<Rightarrow> bool" where
  "is_enabled a ts = (case map_of (at_enabled ts) a of None \<Rightarrow> True | Some b \<Rightarrow> b)"

definition create_custom_agent :: "custom_agent \<Rightarrow> agent_tables \<Rightarrow> agent_table_error + agent_tables" where
  "create_custom_agent c ts =
     (if map_of (at_custom ts) (ca_id c) \<noteq> None then Inl (CustomAgentAlreadyExists (ca_id c))
      else Inr (ts\<lparr>at_custom := at_custom ts @ [(ca_id c, c)]\<rparr>))"

definition delete_custom_agent :: "string \<Rightarrow> agent_tables \<Rightarrow> agent_table_error + agent_tables" where
  "delete_custom_agent a ts =
     (if map_of (at_custom ts) a = None then Inl (CustomAgentNotFound a)
      else Inr (ts\<lparr>at_custom := AList.delete a (at_custom ts), at_enabled := AList.delete a (at_enabled ts)\<rparr>))"

section \<open>Commands\<close>

record launch_spec =
  sp_program :: string
  sp_args :: "string list"
  sp_cwd :: "string option"
  sp_env :: "(string \<times> string) list"

text \<open>An entry of the registry, with its packages and their arguments.\<close>

record listed_agent =
  la_id :: string
  la_npx :: "(string \<times> string list) option"
  la_uvx :: "(string \<times> string list) option"

text \<open>\<open>npx\<close> is the program that the environment of the gateway names.\<close>

definition npx_spawn_spec :: "string \<Rightarrow> listed_agent \<Rightarrow> launch_spec option" where
  "npx_spawn_spec npx a =
     (case la_npx a of
        Some (package, args) \<Rightarrow> Some \<lparr>sp_program = npx, sp_args = [''-y'', package] @ args, sp_cwd = None, sp_env = []\<rparr>
      | None \<Rightarrow>
          (case la_uvx a of
             Some (package, args) \<Rightarrow> Some \<lparr>sp_program = ''uvx'', sp_args = package # args, sp_cwd = None, sp_env = []\<rparr>
           | None \<Rightarrow> None))"

text \<open>The specs of the supervisor by key, and the custom agents whose spec it has.\<close>

record roster =
  ro_tables :: "agent_tables option"
  ro_specs :: "(string \<times> launch_spec) list"
  ro_materialized :: "string list"

definition register_launch :: "string \<Rightarrow> launch_spec \<Rightarrow> roster \<Rightarrow> roster" where
  "register_launch key spec ro = ro\<lparr>ro_specs := AList.update key spec (ro_specs ro)\<rparr>"

definition ensure_agent_enabled :: "string \<Rightarrow> roster \<Rightarrow> life_error + unit" where
  "ensure_agent_enabled a ro =
     (case ro_tables ro of
        None \<Rightarrow> Inr ()
      | Some ts \<Rightarrow> if is_enabled a ts then Inr () else Inl (AgentDisabled a))"

definition custom_spawn_spec :: "string \<Rightarrow> roster \<Rightarrow> launch_spec option" where
  "custom_spawn_spec a ro =
     map_option (\<lambda>c. \<lparr>sp_program = ca_command c, sp_args = ca_args c, sp_cwd = ca_cwd c, sp_env = ca_env c\<rparr>)
       (Option.bind (ro_tables ro) (\<lambda>ts. map_of (at_custom ts) a))"

definition ensure_custom_agent_registered :: "string \<Rightarrow> roster \<Rightarrow> life_error + roster" where
  "ensure_custom_agent_registered a ro =
     (case custom_spawn_spec a ro of
        None \<Rightarrow> if a \<in> set (ro_materialized ro) then Inl (UnknownAgentId a) else Inr ro
      | Some spec \<Rightarrow>
          if map_of (ro_specs ro) a \<noteq> None \<and> a \<notin> set (ro_materialized ro) then Inl (CustomAgentIdConflict a)
          else Inr ((register_launch a spec ro)\<lparr>ro_materialized := List.insert a (ro_materialized ro)\<rparr>))"

section \<open>From a profile to a process\<close>

text \<open>
  What \<open>resolve_profile\<close> needs besides the stores: the agents found installed, the registry, the program for
  packages and the serializer.
\<close>

record surroundings =
  su_installed :: "string list"
  su_registry :: "listed_agent list"
  su_npx :: string
  su_ser :: "json \<Rightarrow> string"

definition profile_env :: "surroundings \<Rightarrow> config \<Rightarrow> profile \<Rightarrow> life_error + (string \<times> string) list" where
  "profile_env su c p =
     (case (case pf_provider p of
              None \<Rightarrow> Inr None
            | Some n \<Rightarrow> (case map_of (cf_providers c) n of None \<Rightarrow> Inl (UnknownProviderRef (pf_name p) n) | Some pv \<Rightarrow> Inr (Some pv))) of
        Inl e \<Rightarrow> Inl e
      | Inr provider \<Rightarrow>
          (case pf_key_ref p of
             None \<Rightarrow> Inr (build_launch_env (su_ser su) p provider None)
           | Some r \<Rightarrow>
               (case keystore_resolve r (cf_keys c) of
                  None \<Rightarrow> Inl (KeyUnavailable r)
                | Some key \<Rightarrow> Inr (build_launch_env (su_ser su) p provider (Some key)))))"

definition base_spec :: "surroundings \<Rightarrow> profile \<Rightarrow> roster \<Rightarrow> life_error + launch_spec" where
  "base_spec su p ro =
     (case map_of (ro_specs ro) (pf_agent_id p) of
        Some spec \<Rightarrow> Inr spec
      | None \<Rightarrow>
          (case find (\<lambda>a. la_id a = pf_agent_id p) (su_registry su) of
             None \<Rightarrow> Inl (UnknownAgentId (pf_agent_id p))
           | Some a \<Rightarrow>
               (case npx_spawn_spec (su_npx su) a of
                  None \<Rightarrow> Inl (NoLaunchableDistribution (pf_name p) (pf_agent_id p))
                | Some spec \<Rightarrow> Inr spec)))"

definition overlay_env :: "(string \<times> string) list \<Rightarrow> launch_spec \<Rightarrow> launch_spec" where
  "overlay_env env spec = spec\<lparr>sp_env := fold (\<lambda>(k, v). AList.update k v) env (sp_env spec)\<rparr>"

definition resolve_profile ::
  "life_settings \<Rightarrow> surroundings \<Rightarrow> string \<Rightarrow> tenant_id \<Rightarrow> config \<Rightarrow> roster \<Rightarrow> config \<times> roster \<times> (life_error + string \<times> profile)"
where
  "resolve_profile ls su name t c ro =
     (let c1 = ensure_default_profiles_seeded (su_installed su) c
      in case map_of (cf_profiles c1) name of
           None \<Rightarrow> (c1, ro, Inl (UnknownProfile name))
         | Some p \<Rightarrow>
             (case profile_env su c1 p of
                Inl e \<Rightarrow> (c1, ro, Inl e)
              | Inr env \<Rightarrow>
                  (case ensure_agent_enabled (pf_agent_id p) ro of
                     Inl e \<Rightarrow> (c1, ro, Inl e)
                   | Inr u \<Rightarrow>
                       (case ensure_custom_agent_registered (pf_agent_id p) ro of
                          Inl e \<Rightarrow> (c1, ro, Inl e)
                        | Inr ro1 \<Rightarrow>
                            (case base_spec su p ro1 of
                               Inl e \<Rightarrow> (c1, ro1, Inl e)
                             | Inr spec \<Rightarrow>
                                 (let key = profile_supervisor_key ls (pf_name p) t
                                  in (c1, register_launch key (overlay_env env spec) ro1, Inr (key, p))))))))"

section \<open>What a call may do\<close>

definition profile_view :: "profile \<Rightarrow> agent_profile" where
  "profile_view p =
     \<lparr>ap_policy = pf_permission_policy p, ap_fs = pf_allow_fs_access p, ap_terminal = pf_allow_terminal_access p,
      ap_auth = pf_auth_method_id p\<rparr>"

text \<open>\<open>native\<close> is the authentication method of the gateway's own settings.\<close>

definition policy_of :: "string option \<Rightarrow> profile option \<Rightarrow> call_policy" where
  "policy_of native p =
     (let policy = policy_from_profile (map_option profile_view p)
      in if cp_auth policy = None then policy\<lparr>cp_auth := native\<rparr> else policy)"

definition call_policy_for :: "string option \<Rightarrow> config \<Rightarrow> string option \<Rightarrow> string \<Rightarrow> call_policy" where
  "call_policy_for native c profile agent =
     policy_of native (map_of (cf_profiles c) (case profile of Some n \<Rightarrow> n | None \<Rightarrow> agent))"

definition call_policy_for_session :: "string option \<Rightarrow> config \<Rightarrow> life \<Rightarrow> tenant_id \<Rightarrow> string \<Rightarrow> string option \<Rightarrow> string \<Rightarrow> call_policy" where
  "call_policy_for_session native c l t g profile agent =
     with_permission_profile (permission_profile_of t g (lf_registry l)) (call_policy_for native c profile agent)"

section \<open>The permission profile of a session\<close>

fun permission_profile_name :: "permission_profile_type \<Rightarrow> string" where
  "permission_profile_name AgentFullAccess = ''agent_full_access''"
| "permission_profile_name Readonly = ''readonly''"
| "permission_profile_name NotAllowed = ''not_allowed''"

definition permission_profile_json :: "permission_profile \<Rightarrow> json" where
  "permission_profile_json p =
     JObject [(''profile_type'', JString (permission_profile_name (profile_type p))),
              (''allow_fs_access'', JBool (allow_fs_access p)), (''allow_terminal_access'', JBool (allow_terminal_access p)),
              (''permission_policy'', JString (policy_name (permission_policy p)))]"

definition read_permission_type :: "json \<Rightarrow> permission_profile_type option" where
  "read_permission_type v =
     Option.bind (variant_tag v)
       (\<lambda>s. if s = ''agent_full_access'' then Some AgentFullAccess else if s = ''readonly'' then Some Readonly
             else if s = ''not_allowed'' then Some NotAllowed else None)"

definition read_opt :: "(json \<Rightarrow> 'a option) \<Rightarrow> json \<Rightarrow> 'a option option" where
  "read_opt read v = (if v = JNull then Some None else map_option Some (read v))"

record permission_overrides =
  po_fs :: "bool option"
  po_terminal :: "bool option"
  po_policy :: "permission_policy option"

text \<open>The schema reads a structure from an object, or from an array with all its fields in order.\<close>

definition overrides_of_members :: "(string \<times> json) list \<Rightarrow> permission_overrides option" where
  "overrides_of_members kvs =
     (case (read_field ''allow_fs_access'' (read_opt as_bool) None kvs, read_field ''allow_terminal_access'' (read_opt as_bool) None kvs,
            read_field ''permission_policy'' (read_opt read_policy) None kvs) of
        (Some fs, Some terminal, Some policy) \<Rightarrow> Some \<lparr>po_fs = fs, po_terminal = terminal, po_policy = policy\<rparr>
      | _ \<Rightarrow> None)"

fun read_overrides :: "json \<Rightarrow> permission_overrides option" where
  "read_overrides (JObject kvs) = overrides_of_members kvs"
| "read_overrides (JArray [a, b, c]) = overrides_of_members [(''allow_fs_access'', a), (''allow_terminal_access'', b), (''permission_policy'', c)]"
| "read_overrides v = None"

type_synonym permission_params = "string \<times> permission_profile_type option \<times> permission_overrides option"

definition params_of_members :: "(string \<times> json) list \<Rightarrow> permission_params option" where
  "params_of_members kvs =
     (case (Option.bind (map_of kvs ''sessionId'') as_str, read_field ''profileType'' (read_opt read_permission_type) None kvs,
            read_field ''overrides'' (read_opt read_overrides) None kvs) of
        (Some g, Some ty, Some over) \<Rightarrow> Some (g, ty, over)
      | _ \<Rightarrow> None)"

fun read_permission_params :: "json \<Rightarrow> permission_params option" where
  "read_permission_params (JObject kvs) = params_of_members kvs"
| "read_permission_params (JArray [a, b, c]) = params_of_members [(''sessionId'', a), (''profileType'', b), (''overrides'', c)]"
| "read_permission_params v = None"

fun builtin_of :: "permission_profile_type \<Rightarrow> permission_profile" where
  "builtin_of AgentFullAccess = agent_full_access"
| "builtin_of Readonly = readonly_profile"
| "builtin_of NotAllowed = not_allowed"

definition or_given :: "'a option \<Rightarrow> 'a \<Rightarrow> 'a" where
  "or_given x d = (case x of None \<Rightarrow> d | Some v \<Rightarrow> v)"

definition overridden :: "permission_overrides option \<Rightarrow> permission_profile \<Rightarrow> permission_profile" where
  "overridden over p =
     (case over of
        None \<Rightarrow> p
      | Some po \<Rightarrow>
          p\<lparr>allow_fs_access := or_given (po_fs po) (allow_fs_access p),
            allow_terminal_access := or_given (po_terminal po) (allow_terminal_access p),
            permission_policy := or_given (po_policy po) (permission_policy p)\<rparr>)"

definition permission_result :: "string \<Rightarrow> permission_profile \<Rightarrow> json" where
  "permission_result g p = JObject [(''sessionId'', JString g), (''profile'', permission_profile_json p)]"

definition dispatch_permission_profile_request :: "tenant_id \<Rightarrow> string \<Rightarrow> json \<Rightarrow> life \<Rightarrow> life \<times> (life_error + json)" where
  "dispatch_permission_profile_request t meth request l =
     (if meth = ''permission_profiles/list''
      then (l, Inr (JObject [(''profiles'', JArray (map permission_profile_json builtin_profiles))]))
      else case Option.bind (json_get ''params'' request) read_permission_params of
             None \<Rightarrow> (l, Inl MissingParams)
           | Some (g, ty, over) \<Rightarrow>
               if lookup_session t g l = None then (l, Inl (UnknownSession g))
               else if meth = ''session/permission_profile/get''
               then (l, Inr (permission_result g (or_given (permission_profile_of t g (lf_registry l)) not_allowed)))
               else (case ty of
                       None \<Rightarrow> (l, Inl MissingParams)
                     | Some ty \<Rightarrow>
                         (let p = overridden over (builtin_of ty)
                          in (on_gateway (\<lambda>gw. gw\<lparr>gw_registry := set_permission_profile t g p (gw_registry gw)\<rparr>) l,
                              Inr (permission_result g p)))))"

end
