(* ===== verification/ProxiedCalls.thy ===== *)
theory ProxiedCalls
  imports Agents
begin

text \<open>
  Calls on an existing session in \<open>acpx-core/src/router.rs\<close> (\<open>dispatch_proxied_shared_inner\<close>,
  \<open>dispatch_session_fork_shared\<close>, \<open>dispatch_session_cancel_shared\<close>).  A call holds the router's lock twice: before its
  request goes to the agent and after the answer.  The reservation of the session is in \<open>Dispatcher\<close>; how the answer
  is read is in \<open>AgentRequests\<close> and \<open>Demux\<close>, so here it is an argument.
\<close>

section \<open>The request\<close>

text \<open>
  What the call needs besides the state: \<open>ce_mcp_error\<close> is the complaint of the ACP schema about a server entry,
  \<open>ce_profiles\<close> what \<open>resolve_profile\<close> answers for a session that is brought back, and \<open>ce_started\<close> the error of
  starting the agent's process, if any.
\<close>

record call_env =
  ce_now :: instant
  ce_nanos :: int
  ce_native :: "string option"
  ce_profiles :: "string \<Rightarrow> life_error + unit"
  ce_tokens :: "(string \<times> string) list"
  ce_mcp_error :: "json \<Rightarrow> string option"
  ce_ser :: "json \<Rightarrow> string"
  ce_started :: "life_error option"

fun first_mcp_error :: "(json \<Rightarrow> string option) \<Rightarrow> nat \<Rightarrow> json list \<Rightarrow> (nat \<times> string) option" where
  "first_mcp_error err i [] = None"
| "first_mcp_error err i (v # vs) = (case err v of Some e \<Rightarrow> Some (i, e) | None \<Rightarrow> first_mcp_error err (i + 1) vs)"

definition client_servers :: "call_env \<Rightarrow> string \<Rightarrow> json \<Rightarrow> life_error + json list" where
  "client_servers ce meth params =
     (case json_get ''mcpServers'' params of
        None \<Rightarrow> Inr []
      | Some JNull \<Rightarrow> Inr []
      | Some (JArray vs) \<Rightarrow>
          (case first_mcp_error (ce_mcp_error ce) 0 vs of
             None \<Rightarrow> Inr vs
           | Some (i, e) \<Rightarrow>
               Inl (InvalidSessionEstablishParams (meth @ '' params.mcpServers['' @ show_nat i @ ''] is not a valid ACP McpServer: '' @ e)))
      | Some other \<Rightarrow> Inl (InvalidSessionEstablishParams (meth @ '' params.mcpServers must be an array, got '' @ ce_ser ce other)))"

definition set_member :: "string \<Rightarrow> json \<Rightarrow> json \<Rightarrow> json" where
  "set_member k x v = (case v of JObject kvs \<Rightarrow> JObject (AList.update k x kvs) | _ \<Rightarrow> v)"

definition merge_mcp_into_session_establish_params ::
  "call_env \<Rightarrow> config \<Rightarrow> string \<Rightarrow> string option \<Rightarrow> json \<Rightarrow> life_error + json"
where
  "merge_mcp_into_session_establish_params ce c meth profile params =
     (if \<not> is_reload meth then Inr params
      else case client_servers ce meth params of
             Inl e \<Rightarrow> Inl e
           | Inr own \<Rightarrow>
               (case Option.bind profile (map_of (cf_profiles c)) of
                  None \<Rightarrow> Inr params
                | Some p \<Rightarrow>
                    if pf_mcp_servers p = [] then Inr params
                    else Inr (set_member ''mcpServers''
                           (JArray (merge_mcp_servers own (inject_oauth_headers (ce_tokens ce) (list_named (pf_mcp_servers p) (cf_mcp c)))))
                           params)))"

text \<open>The request as the agent gets it: with its own id of the session.\<close>

definition native_request :: "call_env \<Rightarrow> config \<Rightarrow> string \<Rightarrow> session_entry \<Rightarrow> json \<Rightarrow> life_error + json" where
  "native_request ce c meth e request =
     (case json_get ''params'' request of
        None \<Rightarrow> Inr request
      | Some params \<Rightarrow>
          map_sum id (\<lambda>params'. set_member ''params'' (set_member ''sessionId'' (JString (backend_session_id e)) params') request)
            (merge_mcp_into_session_establish_params ce c meth (profile_name e) params))"

section \<open>Before the agent answers\<close>

definition method_uses_dispatch_reservation :: "string \<Rightarrow> bool" where
  "method_uses_dispatch_reservation meth \<longleftrightarrow> meth \<in> {''session/prompt'', ''session/close'', ''session/resume'', ''session/load''}"

text \<open>A call is answered by the gateway itself, or its request goes to the process with this key.\<close>

datatype call_start = Answered json | Forwarded string json call_policy

definition call_enters ::
  "life_settings \<Rightarrow> call_env \<Rightarrow> config \<Rightarrow> tenant_id \<Rightarrow> string \<Rightarrow> string \<Rightarrow> json \<Rightarrow> life \<Rightarrow> (life \<times> (life_error + call_start)) option"
where
  "call_enters ls ce c t meth g request l =
     (case resolve_or_revive ls (ce_profiles ce) (ce_now ce) (ce_nanos ce) t meth g l of
        None \<Rightarrow> None
      | Some (l1, Inl e) \<Rightarrow> Some (l1, Inl e)
      | Some (l1, Inr entry) \<Rightarrow>
          (case native_request ce c meth entry request of
             Inl e \<Rightarrow> Some (l1, Inl e)
           | Inr native \<Rightarrow>
               (case ce_started ce of
                  Some e \<Rightarrow> Some (l1, Inl e)
                | None \<Rightarrow>
                    (case (if meth = ''session/close'' then Some (Inr (lf_gateway l1))
                           else ensure_capacity_for_active_turn (ls_lifecycle ls) t g (lf_gateway l1)) of
                       None \<Rightarrow> None
                     | Some (Inl e) \<Rightarrow> Some (l1, Inl (NotAdmitted e))
                     | Some (Inr gw) \<Rightarrow>
                         (let l2 = change_session t g (entry_in_flight (ce_now ce) 1) (l1\<lparr>lf_gateway := gw\<rparr>)
                          in Some (l2, Inr (Forwarded (agent_id entry) native
                               (call_policy_for_session (ce_native ce) c l2 t g (profile_name entry) (agent_id entry)))))))))"

definition call_begin ::
  "life_settings \<Rightarrow> call_env \<Rightarrow> config \<Rightarrow> tenant_id \<Rightarrow> bool \<Rightarrow> json \<Rightarrow> life \<Rightarrow> (life \<times> (life_error + call_start)) option"
where
  "call_begin ls ce c t reservation_held request l =
     (case str_at [''method''] request of
        None \<Rightarrow> Some (l, Inl MissingMethod)
      | Some meth \<Rightarrow>
          if method_uses_dispatch_reservation meth \<and> \<not> reservation_held \<and> str_at [''params'', ''sessionId''] request = None
          then Some (l, Inl MissingSessionId)
          else (case (if meth = ''session/close''
                      then maybe_suppress_close ls (ce_profiles ce) (ce_now ce) (ce_nanos ce) t request l
                      else Some (l, Inr (request, None))) of
                  None \<Rightarrow> None
                | Some (l1, Inl e) \<Rightarrow> Some (l1, Inl e)
                | Some (l1, Inr (request1, Some reply)) \<Rightarrow> Some (l1, Inr (Answered reply))
                | Some (l1, Inr (request1, None)) \<Rightarrow>
                    (case (json_get ''id'' request1, str_at [''params'', ''sessionId''] request1) of
                       (None, _) \<Rightarrow> Some (l1, Inl MissingId)
                     | (_, None) \<Rightarrow> Some (l1, Inl MissingSessionId)
                     | (Some i, Some g) \<Rightarrow> call_enters ls ce c t meth g request1 l1)))"

section \<open>After the answer\<close>

definition native_metadata :: "(string \<times> json) list" where
  "native_metadata = [(''serverPersistence'', JBool True), (''queueSubscribeMethod'', JString ''acpx/sessions/queue/subscribe'')]"

definition enrich_native_session_result :: "json \<Rightarrow> json" where
  "enrich_native_session_result response =
     (case (response, json_get ''result'' response) of
        (JObject kvs, Some (JObject result)) \<Rightarrow>
          (let extension = (case map_of result ''_acpx'' of Some (JObject x) \<Rightarrow> x | _ \<Rightarrow> []);
               extension' = fold (\<lambda>(k, v). AList.update k v) native_metadata extension
           in JObject (AList.update ''result'' (JObject (AList.update ''_acpx'' (JObject extension') result)) kvs))
      | _ \<Rightarrow> response)"

text \<open>A statement of a call; without a database nothing is done.\<close>

definition row_statement :: "(session_db \<Rightarrow> session_db \<times> (persistence_error + unit)) \<Rightarrow> life \<Rightarrow> life \<times> (life_error + unit)" where
  "row_statement stmt l =
     (case lf_store l of
        None \<Rightarrow> (l, Inr ())
      | Some db \<Rightarrow> (case stmt db of (db', r) \<Rightarrow> (l\<lparr>lf_store := Some db'\<rparr>, map_sum RowError id r)))"

text \<open>The end of \<open>session/close\<close>, with or without a session in the registry.\<close>

definition finish_close :: "life_settings \<Rightarrow> instant \<Rightarrow> string \<Rightarrow> tenant_id \<Rightarrow> string \<Rightarrow> life \<Rightarrow> (life \<times> (life_error + unit)) option" where
  "finish_close ls now stamp t g l =
     (case row_statement (close_session g stamp) l of
        (l1, Inl e) \<Rightarrow> Some (l1, Inl e)
      | (l1, Inr u) \<Rightarrow>
          (case lookup_session t g l1 of
             None \<Rightarrow> Some (l1, Inr ())
           | Some removed \<Rightarrow>
               map_option (\<lambda>gw. (mark_unreferenced_if_idle ls now (agent_id removed)
                                  (stop_if_session_scoped (agent_id removed) (l1\<lparr>lf_gateway := gw\<rparr>)), Inr ()))
                 (evict_session t g (lf_gateway l1))))"

definition mark_used :: "string \<Rightarrow> string \<Rightarrow> json \<Rightarrow> life \<Rightarrow> life" where
  "mark_used meth g response l =
     (if meth = ''session/prompt'' \<and> json_get ''error'' response = None
      then l\<lparr>lf_store := map_option (mark_creation_used g) (lf_store l)\<rparr> else l)"

definition call_settles ::
  "life_settings \<Rightarrow> instant \<Rightarrow> int \<Rightarrow> string \<Rightarrow> tenant_id \<Rightarrow> string \<Rightarrow> string \<Rightarrow> life_error + json \<Rightarrow> life \<Rightarrow> (life \<times> (life_error + json)) option"
where
  "call_settles ls now nanos stamp t meth g outcome l =
     (case row_statement (update_session_activity g nanos) (change_session t g (entry_in_flight now 0) l) of
        (l1, Inl e) \<Rightarrow> Some (l1, Inl e)
      | (l1, Inr u) \<Rightarrow>
          (case outcome of
             Inl e \<Rightarrow> Some (l1, Inl e)
           | Inr response \<Rightarrow>
               (let l2 = mark_used meth g response l1;
                    response' = (if is_reload meth then enrich_native_session_result response else response)
                in case mark_successful_recovery_retry g meth l2 of
                     (l3, Inl e) \<Rightarrow> Some (l3, Inl e)
                   | (l3, Inr u') \<Rightarrow>
                       if meth \<noteq> ''session/close'' then Some (l3, Inr response')
                       else map_option (\<lambda>(l4, r). (l4, map_sum id (\<lambda>_. response') r)) (finish_close ls now stamp t g l3))))"

section \<open>Cancelling\<close>

text \<open>The notification, its process, and the answer; nothing of the session changes.\<close>

definition session_cancel :: "tenant_id \<Rightarrow> json \<Rightarrow> life \<Rightarrow> life_error + (string \<times> json) \<times> json" where
  "session_cancel t request l =
     (case str_at [''params'', ''sessionId''] request of
        None \<Rightarrow> Inl MissingSessionId
      | Some g \<Rightarrow>
          (case lookup_session t g l of
             None \<Rightarrow> Inl (UnknownSession g)
           | Some e \<Rightarrow>
               Inr ((agent_id e,
                     JObject [(''jsonrpc'', JString ''2.0''), (''method'', JString ''session/cancel''),
                              (''params'', JObject [(''sessionId'', JString (backend_session_id e))])]),
                    JObject [(''jsonrpc'', JString ''2.0''), (''id'', case json_get ''id'' request of Some i \<Rightarrow> i | None \<Rightarrow> JNull),
                             (''result'', JObject [])])))"

section \<open>Forking\<close>

record fork_call =
  fk_agent :: string
  fk_profile :: "string option"
  fk_cwd :: "string option"
  fk_request :: json
  fk_policy :: call_policy

text \<open>A fork is admitted before its source is looked up; a permit of a refused fork is dropped.\<close>

definition fork_enters ::
  "life_settings \<Rightarrow> call_env \<Rightarrow> config \<Rightarrow> tenant_id \<Rightarrow> string \<Rightarrow> json \<Rightarrow> life \<Rightarrow> (life \<times> (life_error + fork_call)) option"
where
  "fork_enters ls ce c t g request l =
     (case resolve_or_revive ls (ce_profiles ce) (ce_now ce) (ce_nanos ce) t ''session/fork'' g l of
        None \<Rightarrow> None
      | Some (l1, Inl e) \<Rightarrow> Some (l1, Inl e)
      | Some (l1, Inr entry) \<Rightarrow>
          (case ce_started ce of
             Some e \<Rightarrow> Some (l1, Inl e)
           | None \<Rightarrow>
               Some (l1, Inr \<lparr>fk_agent = agent_id entry, fk_profile = profile_name entry,
                   fk_cwd = str_at [''params'', ''cwd''] request,
                   fk_request = (case json_get ''params'' request of
                       None \<Rightarrow> request
                     | Some params \<Rightarrow> set_member ''params'' (set_member ''sessionId'' (JString (backend_session_id entry)) params) request),
                   fk_policy = call_policy_for_session (ce_native ce) c l1 t g (profile_name entry) (agent_id entry)\<rparr>)))"

definition fork_begin ::
  "life_settings \<Rightarrow> call_env \<Rightarrow> config \<Rightarrow> tenant_id \<Rightarrow> json \<Rightarrow> life \<Rightarrow> (life \<times> (life_error + fork_call)) option"
where
  "fork_begin ls ce c t request l =
     (case (json_get ''id'' request, str_at [''params'', ''sessionId''] request) of
        (None, _) \<Rightarrow> Some (l, Inl MissingId)
      | (_, None) \<Rightarrow> Some (l, Inl MissingSessionId)
      | (Some i, Some g) \<Rightarrow>
          (case admit_session (ls_lifecycle ls) t (lf_gateway l) of
             Inl e \<Rightarrow> Some (l, Inl (NotAdmitted e))
           | Inr gw \<Rightarrow>
               (case fork_enters ls ce c t g request (l\<lparr>lf_gateway := gw\<rparr>) of
                  None \<Rightarrow> None
                | Some (l1, Inl e) \<Rightarrow> map_option (\<lambda>gw'. (l1\<lparr>lf_gateway := gw'\<rparr>, Inl e)) (drop_permit t (lf_gateway l1))
                | Some (l1, Inr fk) \<Rightarrow> Some (l1, Inr fk))))"

definition extract_backend_session_id :: "json \<Rightarrow> life_error + string" where
  "extract_backend_session_id response =
     (case json_get ''error'' response of
        Some e \<Rightarrow> Inl (BackendError e)
      | None \<Rightarrow>
          (case str_at [''result'', ''sessionId''] response of None \<Rightarrow> Inl MissingBackendSessionId | Some s \<Rightarrow> Inr s))"

definition with_gateway_id :: "string \<Rightarrow> json \<Rightarrow> json" where
  "with_gateway_id g response =
     (case json_get ''result'' response of
        None \<Rightarrow> response
      | Some result \<Rightarrow> set_member ''result'' (set_member ''sessionId'' (JString g) result) response)"

text \<open>\<open>g\<close> is the fresh id of the fork; its row is written by a task of its own.\<close>

definition fork_ends ::
  "instant \<Rightarrow> tenant_id \<Rightarrow> string \<Rightarrow> fork_call \<Rightarrow> life_error + json \<Rightarrow> life \<Rightarrow> (life \<times> (life_error + json)) option"
where
  "fork_ends now t g fk outcome l =
     (case (case outcome of Inl e \<Rightarrow> Inl e | Inr response \<Rightarrow> map_sum id (\<lambda>b. (b, response)) (extract_backend_session_id response)) of
        Inl e \<Rightarrow> map_option (\<lambda>gw. (l\<lparr>lf_gateway := gw\<rparr>, Inl e)) (drop_permit t (lf_gateway l))
      | Inr (backend, response) \<Rightarrow>
          (let gw = lf_gateway l;
               gw1 = gw\<lparr>gw_registry := register_with_id now t g (fk_agent fk) backend (fk_profile fk) (fk_cwd fk) (gw_registry gw)\<rparr>
           in map_option (\<lambda>gw2. (l\<lparr>lf_gateway := gw2\<rparr>, Inr (with_gateway_id g response))) (commit_permit t gw1)))"

definition fork_records :: "int \<Rightarrow> string \<Rightarrow> tenant_id \<Rightarrow> string \<Rightarrow> fork_call \<Rightarrow> string \<Rightarrow> life \<Rightarrow> life" where
  "fork_records nanos stamp t g fk backend l =
     fst (row_statement (record_session nanos g (fk_agent fk) backend (fk_profile fk) stamp t recovery_default None) l)"

end
