(* ===== verification/CallFacts.thy ===== *)
theory CallFacts
  imports LifeFacts ProxiedCalls
begin

text \<open>
  What a call leaves alone, whatever the agent answers: it is a calm change before and after the answer, its request
  goes to the caller's own session, and it ends with the session settled.
\<close>

section \<open>Calls are calm\<close>

lemma calm_gateway:
  assumes "\<And>t g. reg_resolve t g (gw_registry gw) \<noteq> None \<Longrightarrow> lookup_session t g l \<noteq> None"
    and "gw_permits gw = gw_permits (lf_gateway l)" and "gw_creating gw = gw_creating (lf_gateway l)"
    and "gateway_ok lc (lf_gateway l) \<Longrightarrow> gateway_ok lc gw"
  shows "calm lc l (l\<lparr>lf_gateway := gw\<rparr>)"
  using assms by (simp add: calm_def)

lemma calm_promote:
  assumes "ensure_capacity_for_active_turn lc t g (lf_gateway l) = Some (Inr gw)"
  shows "calm lc l (l\<lparr>lf_gateway := gw\<rparr>)"
proof (rule calm_gateway)
  assume ok: "gateway_ok lc (lf_gateway l)"
  show "gateway_ok lc gw" by (rule gateway_ok_step [OF GwPromote [OF assms] ok])
qed (use promote_effect [OF assms] in auto)

lemma calm_row_statement:
  assumes "row_statement (update_row k f) l = (l', r)" and "\<And>row. sw_tenant (f row) = sw_tenant row"
  shows "calm lc l l'"
  using assms calm_statement [of l _ f lc k] by (auto simp: row_statement_def split: option.splits prod.splits)

lemma calm_mark_used: "calm lc l (mark_used meth g response l)"
proof (cases "lf_store l")
  case (Some db)
  let ?f = "\<lambda>row. if sw_creation_id row \<noteq> None then row\<lparr>sw_creation_used := True\<rparr> else row"
  have "calm lc l (l\<lparr>lf_store := Some (fst (update_row g ?f db))\<rparr>)" by (rule calm_statement [OF Some]) simp
  then show ?thesis by (simp add: mark_used_def mark_creation_used_def Some)
qed (simp add: mark_used_def calm_same row_tenant_def store_ok_def)

lemma calm_finish_close:
  assumes "finish_close ls now stamp t g l = Some (l', r)" and "(t, g) \<notin> set (gw_creating (lf_gateway l))"
  shows "calm lc l l'"
proof -
  obtain l1 r1 where s: "row_statement (close_session g stamp) l = (l1, r1)" by (cases "row_statement (close_session g stamp) l")
  have c1: "calm lc l l1" by (rule calm_row_statement [OF s [unfolded close_session_def]]) simp
  then have "(t, g) \<notin> set (gw_creating (lf_gateway l1))" using assms(2) by (simp add: calm_def)
  from calm_evict [OF this] have "evict_session t g (lf_gateway l1) = Some gw \<Longrightarrow> calm lc l (l1\<lparr>lf_gateway := gw\<rparr>)" for gw
    using calm_trans [OF c1] by blast
  with assms(1) s c1 show ?thesis
    by (auto simp: finish_close_def split: sum.splits option.splits intro: calm_mark_stop)
qed

lemma calm_enters:
  assumes "call_enters ls ce c t meth g request l = Some (l', r)"
  shows "calm (ls_lifecycle ls) l l'"
proof -
  obtain l1 r1 where s: "resolve_or_revive ls (ce_profiles ce) (ce_now ce) (ce_nanos ce) t meth g l = Some (l1, r1)"
    using assms by (auto simp: call_enters_def split: option.splits)
  note c1 = calm_resolve [OF s]
  have "calm (ls_lifecycle ls) l (change_session t g (entry_in_flight (ce_now ce) 1) (l1\<lparr>lf_gateway := gw\<rparr>))"
    if "ensure_capacity_for_active_turn (ls_lifecycle ls) t g (lf_gateway l1) = Some (Inr gw) \<or> gw = lf_gateway l1" for gw
    using that calm_promote by (intro calm_trans [OF c1 calm_trans [OF _ calm_change]]) auto
  with assms s c1 show ?thesis
    by (auto simp: call_enters_def Let_def split: sum.splits option.splits if_splits)
qed

lemma calm_call_begin:
  assumes "call_begin ls ce c t held request l = Some (l', r)"
  shows "calm (ls_lifecycle ls) l l'"
  using assms
  by (auto simp: call_begin_def split: option.splits if_splits sum.splits prod.splits dest: calm_suppress calm_enters
      intro: calm_trans)

lemma calm_call_settles:
  assumes "call_settles ls now nanos stamp t meth g outcome l = Some (l', r)"
    and "meth = ''session/close'' \<Longrightarrow> (t, g) \<notin> set (gw_creating (lf_gateway l))"
  shows "calm lc l l'"
proof -
  obtain l1 r1 where s: "row_statement (update_session_activity g nanos) (change_session t g (entry_in_flight now 0) l) = (l1, r1)"
    by (cases "row_statement (update_session_activity g nanos) (change_session t g (entry_in_flight now 0) l)")
  have c1: "calm lc l l1"
    by (rule calm_trans [OF calm_change calm_row_statement [OF s [unfolded update_session_activity_def]]]) simp_all
  show ?thesis
  proof (cases r1)
    case (Inr u)
    show ?thesis
    proof (cases outcome)
      case (Inr response)
      let ?l2 = "mark_used meth g response l1"
      obtain l3 r3 where m: "mark_successful_recovery_retry g meth ?l2 = (l3, r3)" by (cases "mark_successful_recovery_retry g meth ?l2")
      have c3: "calm lc l l3" using calm_trans [OF c1 calm_trans [OF calm_mark_used calm_retry [OF m]]] .
      then have "meth = ''session/close'' \<Longrightarrow> (t, g) \<notin> set (gw_creating (lf_gateway l3))" using assms(2) by (simp add: calm_def)
      with assms(1) s Inr \<open>r1 = Inr u\<close> m c3 show ?thesis
        by (auto simp: call_settles_def Let_def split: sum.splits if_splits intro: calm_trans [OF _ calm_finish_close])
    qed (use assms s Inr c1 in \<open>auto simp: call_settles_def\<close>)
  qed (use assms s c1 in \<open>auto simp: call_settles_def\<close>)
qed

text \<open>What becomes of the processes, and of permission profiles.\<close>

lemma calm_same_parts:
  assumes "lf_gateway l' = lf_gateway l" and "lf_store l' = lf_store l"
  shows "calm lc l l'"
  using assms by (intro calm_same) (simp_all add: row_tenant_def store_ok_def)

lemma resolve_permission [simp]: "reg_resolve t' g' (set_permission_profile t g p r) = reg_resolve t' g' r"
  by (simp add: reg_resolve_def set_permission_profile_def)

lemma gateway_ok_permission:
  assumes "gateway_ok lc gw"
  shows "gateway_ok lc (gw\<lparr>gw_registry := set_permission_profile t g p (gw_registry gw)\<rparr>)"
proof -
  let ?gw = "gw\<lparr>gw_registry := set_permission_profile t g p (gw_registry gw)\<rparr>"
  have "counted ?gw = counted gw" by (simp add: counted_def fun_eq_iff set_permission_profile_def)
  with assms show ?thesis by (simp add: gateway_ok_def registry_ok_set_permission)
qed

lemma calm_set_permission: "calm lc l (on_gateway (\<lambda>gw. gw\<lparr>gw_registry := set_permission_profile t g p (gw_registry gw)\<rparr>) l)"
  unfolding on_gateway_def by (rule calm_gateway) (simp_all add: gateway_ok_permission)

lemma calm_permission:
  assumes "dispatch_permission_profile_request t meth request l = (l', r)"
  shows "calm lc l l'"
  using assms calm_set_permission
  by (auto simp: dispatch_permission_profile_request_def Let_def split: if_splits option.splits prod.splits)

end
