(* ===== verification/LifeRuns.thy ===== *)
theory LifeRuns
  imports CallFacts
begin

text \<open>
  The operations of \<open>SessionLife\<close> in any order, between the requests that create, discover and record
  sessions, and the invariant of these runs: every session id has one owner, the admission counters are
  exact, and every recovery holds its permit.
\<close>

section \<open>Runs\<close>

text \<open>
  The operations between the requests.  \<open>wd_spawned\<close> are sessions whose row a task may still write (discovered,
  listed and forked sessions), \<open>wd_jobs\<close> the recoveries that wait for their backend.  The server answers requests
  when the recovery has ended (\<open>main.rs\<close>), so the session of a job is not live.
\<close>

record world =
  wd_life :: life
  wd_spawned :: "(tenant_id \<times> string) list"
  wd_jobs :: "recovery_job list"

definition owned :: "tenant_id \<Rightarrow> string \<Rightarrow> world \<Rightarrow> bool" where
  "owned t g w \<longleftrightarrow> lookup_session t g (wd_life w) \<noteq> None \<or> row_tenant (wd_life w) g = Some t \<or> (t, g) \<in> set (wd_spawned w)"

definition jobs_of :: "world \<Rightarrow> tenant_id \<Rightarrow> nat" where
  "jobs_of w t = count_list (map rj_tenant (wd_jobs w)) t"

text \<open>A permit of the request itself, not of a session under creation or a recovery.\<close>

definition spare_permit :: "world \<Rightarrow> tenant_id \<Rightarrow> bool" where
  "spare_permit w t \<longleftrightarrow> creating_of (lf_gateway (wd_life w)) t + jobs_of w t < count_list (gw_permits (lf_gateway (wd_life w))) t"

definition fresh_id :: "world \<Rightarrow> string \<Rightarrow> bool" where
  "fresh_id w g \<longleftrightarrow> (\<forall>t. \<not> owned t g w)"

definition set_life :: "life \<Rightarrow> world \<Rightarrow> world" where
  "set_life l w = w\<lparr>wd_life := l\<rparr>"

definition set_gateway :: "gateway \<Rightarrow> world \<Rightarrow> world" where
  "set_gateway gw w = w\<lparr>wd_life := (wd_life w)\<lparr>lf_gateway := gw\<rparr>\<rparr>"

definition set_db :: "session_db \<Rightarrow> world \<Rightarrow> world" where
  "set_db db w = w\<lparr>wd_life := (wd_life w)\<lparr>lf_store := Some db\<rparr>\<rparr>"

text \<open>
  A request holds a permit while its backend works, registers the session under a fresh id, writes the row and
  commits, or undoes this.  A call on a session is \<open>LifeCall\<close> and later \<open>LifeReturn\<close>; \<open>LifeGrant\<close> is a permission profile
  that comes with a new session, \<open>LifeProcess\<close> what becomes of the processes.  \<open>LifeRestart\<close> is a new process over the same table.
\<close>

inductive life_step :: "life_settings \<Rightarrow> world \<Rightarrow> world \<Rightarrow> bool" for ls where
  LifeAdmit: "admit_session (ls_lifecycle ls) t (lf_gateway (wd_life w)) = Inr gw \<Longrightarrow> life_step ls w (set_gateway gw w)"
| LifeDrop: "spare_permit w t \<Longrightarrow> drop_permit t (lf_gateway (wd_life w)) = Some gw \<Longrightarrow> life_step ls w (set_gateway gw w)"
| LifeRegister: "spare_permit w t \<Longrightarrow> fresh_id w g \<Longrightarrow>
    life_step ls w (set_gateway (create_register now t g agent backend profile dir (lf_gateway (wd_life w))) w
      \<lparr>wd_spawned := (t, g) # wd_spawned w\<rparr>)"
| LifeRecord: "(t, g) \<in> set (gw_creating (lf_gateway (wd_life w))) \<Longrightarrow> lf_store (wd_life w) = Some db \<Longrightarrow>
    record_session nanos g agent backend profile stamp t m creation db = (db', res) \<Longrightarrow> life_step ls w (set_db db' w)"
| LifeCommit: "(t, g) \<in> set (gw_creating (lf_gateway (wd_life w))) \<Longrightarrow>
    create_commit t g (lf_gateway (wd_life w)) = Some gw \<Longrightarrow> life_step ls w (set_gateway gw w)"
| LifeFail: "(t, g) \<in> set (gw_creating (lf_gateway (wd_life w))) \<Longrightarrow>
    create_fail t g (lf_gateway (wd_life w)) = Some gw \<Longrightarrow> life_step ls w (set_gateway gw w)"
| LifeDiscover: "fresh_id w g \<Longrightarrow>
    translate_or_register (ls_lifecycle ls) now t g agent backend profile dir used (lf_gateway (wd_life w)) = (gw, used', found) \<Longrightarrow>
    life_step ls w (set_gateway gw w\<lparr>wd_spawned := (t, g) # wd_spawned w\<rparr>)"
| LifeSpawn: "lookup_session t g (wd_life w) \<noteq> None \<Longrightarrow> life_step ls w (w\<lparr>wd_spawned := (t, g) # wd_spawned w\<rparr>)"
| LifeSpawned: "(t, g) \<in> set (wd_spawned w) \<Longrightarrow> lf_store (wd_life w) = Some db \<Longrightarrow>
    record_session nanos g agent backend profile stamp t m None db = (db', res) \<Longrightarrow>
    life_step ls w (set_db db' w\<lparr>wd_spawned := remove1 (t, g) (wd_spawned w)\<rparr>)"
| LifePromote: "ensure_capacity_for_active_turn (ls_lifecycle ls) t g (lf_gateway (wd_life w)) = Some (Inr gw) \<Longrightarrow>
    life_step ls w (set_gateway gw w)"
| LifeUpdate: "keeps_counting f \<Longrightarrow> life_step ls w (set_life (change_session t g f (wd_life w)) w)"
| LifeClose: "(t, g) \<notin> set (gw_creating (lf_gateway (wd_life w))) \<Longrightarrow>
    evict_session t g (lf_gateway (wd_life w)) = Some gw \<Longrightarrow> life_step ls w (set_gateway gw w)"
| LifeStatement: "lf_store (wd_life w) = Some db \<Longrightarrow> (\<And>row. sw_tenant (f row) = sw_tenant row) \<Longrightarrow>
    update_row g f db = (db', res) \<Longrightarrow> life_step ls w (set_db db' w)"
| LifeRevive: "resolve_or_revive ls profiles now nanos t meth g (wd_life w) = Some (l', r) \<Longrightarrow> life_step ls w (set_life l' w)"
| LifeSuppress: "maybe_suppress_close ls profiles now nanos t request (wd_life w) = Some (l', q) \<Longrightarrow> life_step ls w (set_life l' w)"
| LifePin: "set_session_pinned_administered ls now nanos t g pin (wd_life w) = (l', u) \<Longrightarrow> life_step ls w (set_life l' w)"
| LifeTtl: "set_session_custom_ttl t g ttl (wd_life w) = (l', u) \<Longrightarrow> life_step ls w (set_life l' w)"
| LifeReap: "close_candidates ls now stamp closes xs (wd_life w) = Some (l', outcomes) \<Longrightarrow>
    \<forall>x\<in>set xs. x \<notin> set (gw_creating (lf_gateway (wd_life w))) \<Longrightarrow> life_step ls w (set_life l' w)"
| LifeStuck: "cancel_stuck_turns ls now has_writer (wd_life w) = (l', frames) \<Longrightarrow> life_step ls w (set_life l' w)"
| LifeIdle: "reap_unreferenced_backends ls stops now (wd_life w) = (l', n) \<Longrightarrow> life_step ls w (set_life l' w)"
| LifeRetry: "mark_successful_recovery_retry g meth (wd_life w) = (l', u) \<Longrightarrow> life_step ls w (set_life l' w)"
| LifeRecover: "recover_open_sessions ls profiles starts backend show now nanos (wd_life w) = Some (l', report) \<Longrightarrow>
    life_step ls w (set_life l' w)"
| LifePrepare: "lf_store (wd_life w) = Some db \<Longrightarrow> get_row g db = Some row \<Longrightarrow>
    prepare_open_session_recovery ls profiles starts now nanos g row (wd_life w) = Some (l', Inr job) \<Longrightarrow>
    life_step ls w (set_life l' w\<lparr>wd_jobs := job # wd_jobs w\<rparr>)"
| LifeRestored: "job \<in> set (wd_jobs w) \<Longrightarrow> lookup_session (rj_tenant job) (rj_session job) (wd_life w) = None \<Longrightarrow>
    install_recovered job (wd_life w) = Some l' \<Longrightarrow> life_step ls w (set_life l' w\<lparr>wd_jobs := remove1 job (wd_jobs w)\<rparr>)"
| LifeAbandoned: "job \<in> set (wd_jobs w) \<Longrightarrow> abandon_recovery job (wd_life w) = Some l' \<Longrightarrow>
    life_step ls w (set_life l' w\<lparr>wd_jobs := remove1 job (wd_jobs w)\<rparr>)"
| LifeCall: "call_begin ls ce c t held request (wd_life w) = Some (l', r) \<Longrightarrow> life_step ls w (set_life l' w)"
| LifeReturn: "call_settles ls now nanos stamp t meth g outcome (wd_life w) = Some (l', r) \<Longrightarrow>
    (t, g) \<notin> set (gw_creating (lf_gateway (wd_life w))) \<Longrightarrow> life_step ls w (set_life l' w)"
| LifePermission: "dispatch_permission_profile_request t meth request (wd_life w) = (l', r) \<Longrightarrow> life_step ls w (set_life l' w)"
| LifeGrant: "life_step ls w (set_life (on_gateway (\<lambda>gw. gw\<lparr>gw_registry := set_permission_profile t g p (gw_registry gw)\<rparr>) (wd_life w)) w)"
| LifeProcess: "lf_gateway l' = lf_gateway (wd_life w) \<Longrightarrow> lf_store l' = lf_store (wd_life w) \<Longrightarrow> life_step ls w (set_life l' w)"
| LifeRestart: "life_step ls w \<lparr>wd_life = life_new (lf_store (wd_life w)), wd_spawned = [], wd_jobs = []\<rparr>"

inductive life_reachable :: "life_settings \<Rightarrow> world \<Rightarrow> bool" for ls where
  LifeStart: "life_reachable ls \<lparr>wd_life = life_new None, wd_spawned = [], wd_jobs = []\<rparr>"
| LifeStartStored: "life_reachable ls \<lparr>wd_life = life_new (Some session_db_new), wd_spawned = [], wd_jobs = []\<rparr>"
| LifeMore: "life_reachable ls w \<Longrightarrow> life_step ls w w' \<Longrightarrow> life_reachable ls w'"

section \<open>The invariant\<close>

definition world_ok :: "life_settings \<Rightarrow> world \<Rightarrow> bool" where
  "world_ok ls w \<longleftrightarrow>
     gateway_ok (ls_lifecycle ls) (lf_gateway (wd_life w)) \<and> store_ok (wd_life w) \<and>
     (\<forall>t t' g. owned t g w \<longrightarrow> owned t' g w \<longrightarrow> t = t') \<and>
     (\<forall>t. creating_of (lf_gateway (wd_life w)) t + jobs_of w t \<le> count_list (gw_permits (lf_gateway (wd_life w))) t) \<and>
     (\<forall>job\<in>set (wd_jobs w). row_tenant (wd_life w) (rj_session job) = Some (rj_tenant job)
        \<and> entry_ok (rj_entry job) \<and> capacity_counted (rj_entry job))"

lemma world_okD:
  assumes "world_ok ls w"
  shows "gateway_ok (ls_lifecycle ls) (lf_gateway (wd_life w))" and "store_ok (wd_life w)"
    and "owned t g w \<Longrightarrow> owned t' g w \<Longrightarrow> t = t'"
    and "creating_of (lf_gateway (wd_life w)) t + jobs_of w t \<le> count_list (gw_permits (lf_gateway (wd_life w))) t"
    and "job \<in> set (wd_jobs w) \<Longrightarrow> row_tenant (wd_life w) (rj_session job) = Some (rj_tenant job)
      \<and> entry_ok (rj_entry job) \<and> capacity_counted (rj_entry job)"
  using assms unfolding world_ok_def by blast+

lemma world_fields [simp]:
  "wd_life (set_life l w) = l" "wd_spawned (set_life l w) = wd_spawned w" "wd_jobs (set_life l w) = wd_jobs w"
  "wd_life (set_gateway gw w) = (wd_life w)\<lparr>lf_gateway := gw\<rparr>" "wd_spawned (set_gateway gw w) = wd_spawned w" "wd_jobs (set_gateway gw w) = wd_jobs w"
  "wd_life (set_db db w) = (wd_life w)\<lparr>lf_store := Some db\<rparr>" "wd_spawned (set_db db w) = wd_spawned w" "wd_jobs (set_db db w) = wd_jobs w"
  by (simp_all add: set_life_def set_gateway_def set_db_def)

text \<open>An operation that gives a session only to its owner, or to anyone when the id is fresh, keeps the owners.\<close>

lemma owners_kept:
  assumes "world_ok ls w" and "\<And>t g. owned t g w' \<Longrightarrow> owned t g w \<or> (t = t0 \<and> g = g0)" and "owned t0 g0 w \<or> fresh_id w g0"
  shows "owned t g w' \<Longrightarrow> owned t' g w' \<Longrightarrow> t = t'"
  using assms(2) [of t g] assms(2) [of t' g] assms(3) world_okD(3) [OF assms(1), of t g t'] world_okD(3) [OF assms(1), of _ g t0]
  unfolding fresh_id_def by metis

lemma world_ok_calm:
  assumes "world_ok ls w" and "calm (ls_lifecycle ls) (wd_life w) l'"
  shows "world_ok ls (set_life l' w)"
  unfolding world_ok_def
proof (intro conjI allI impI)
  show "gateway_ok (ls_lifecycle ls) (lf_gateway (wd_life (set_life l' w)))"
    using assms(2) world_okD(1) [OF assms(1)] by (simp add: calm_def)
  show "store_ok (wd_life (set_life l' w))" using assms(2) world_okD(2) [OF assms(1)] by (simp add: calm_def)
  fix t t' g assume "owned t g (set_life l' w)" "owned t' g (set_life l' w)"
  moreover have "owned t g w" if "owned t g (set_life l' w)" for t g
    using that assms(2) unfolding owned_def calm_def by auto
  ultimately show "t = t'" using world_okD(3) [OF assms(1)] by blast
next
  fix t show "creating_of (lf_gateway (wd_life (set_life l' w))) t + jobs_of (set_life l' w) t
      \<le> count_list (gw_permits (lf_gateway (wd_life (set_life l' w)))) t"
    using assms(2) world_okD(4) [OF assms(1), of t] by (simp add: calm_def creating_of_def jobs_of_def)
next
  show "\<forall>job\<in>set (wd_jobs (set_life l' w)). row_tenant (wd_life (set_life l' w)) (rj_session job) = Some (rj_tenant job)
      \<and> entry_ok (rj_entry job) \<and> capacity_counted (rj_entry job)"
    using assms(2) world_okD(5) [OF assms(1)] by (simp add: calm_def)
qed

lemma world_ok_step:
  assumes "world_ok ls w" and "gateway_ok (ls_lifecycle ls) (lf_gateway (wd_life w'))" and "store_ok (wd_life w')"
    and "\<And>t g. owned t g w' \<Longrightarrow> owned t g w \<or> (t = t0 \<and> g = g0)" and "owned t0 g0 w \<or> fresh_id w g0"
    and "\<And>t. creating_of (lf_gateway (wd_life w')) t + jobs_of w' t \<le> count_list (gw_permits (lf_gateway (wd_life w'))) t"
    and "\<And>job. job \<in> set (wd_jobs w') \<Longrightarrow> row_tenant (wd_life w') (rj_session job) = Some (rj_tenant job)
      \<and> entry_ok (rj_entry job) \<and> capacity_counted (rj_entry job)"
  shows "world_ok ls w'"
  unfolding world_ok_def using assms(2,3,6,7) owners_kept [OF assms(1,4,5)] by blast

text \<open>The same for a change of the gateway that leaves the registry as it is or smaller.\<close>

lemma world_ok_gateway:
  assumes "world_ok ls w" and "gateway_ok (ls_lifecycle ls) gw"
    and "\<And>t g. reg_resolve t g (gw_registry gw) \<noteq> None \<Longrightarrow> lookup_session t g (wd_life w) \<noteq> None"
    and "\<And>t. creating_of gw t + jobs_of w t \<le> count_list (gw_permits gw) t"
  shows "world_ok ls (set_gateway gw w)"
proof -
  have own: "owned t g w" if "owned t g (set_gateway gw w)" for t g
    using that assms(3) [of t g] by (auto simp: owned_def)
  show ?thesis
    unfolding world_ok_def
    using assms(2,4) world_okD(2,5) [OF assms(1)] own world_okD(3) [OF assms(1)] by (auto simp: jobs_of_def) blast
qed

lemma count_permits_remove1: "count_list (remove1 t ts) t' = (if t' = t then count_list ts t - 1 else count_list ts t')"
  by (induction ts) auto

lemma creating_of_same: "gw_creating gw' = gw_creating gw \<Longrightarrow> creating_of gw' t = creating_of gw t"
  by (simp add: creating_of_def)

lemma rows_after_record:
  assumes "record_session nanos g agent backend profile stamp t m creation db = (db', res)" and "lf_store l = Some db"
  shows "row_tenant (l\<lparr>lf_store := Some db'\<rparr>) k = row_tenant l k \<or> (k = g \<and> row_tenant l k = None \<and> row_tenant (l\<lparr>lf_store := Some db'\<rparr>) k = Some t)"
    and "distinct (map fst (db_rows db)) \<Longrightarrow> distinct (map fst (db_rows db'))"
proof -
  have db': "db' = fst (record_session nanos g agent backend profile stamp t m creation db)" using assms(1) by simp
  have rows: "get_row k' db' = (if k' = g then (case get_row g db of
              Some old \<Rightarrow> Some (old\<lparr>sw_activity_nanos := sw_activity_nanos (fresh_row nanos agent backend profile stamp t m creation)\<rparr>)
            | None \<Rightarrow> if (case creation of None \<Rightarrow> False | Some c \<Rightarrow> creation_taken t (cm_request_id c) db) then None
                      else Some (fresh_row nanos agent backend profile stamp t m creation))
      else get_row k' db)" for k'
    unfolding db' by (rule rows_of_record)
  show "row_tenant (l\<lparr>lf_store := Some db'\<rparr>) k = row_tenant l k
      \<or> (k = g \<and> row_tenant l k = None \<and> row_tenant (l\<lparr>lf_store := Some db'\<rparr>) k = Some t)"
    unfolding row_tenant_def by (simp add: rows assms(2) split: option.split)
  assume "distinct (map fst (db_rows db))"
  then show "distinct (map fst (db_rows db'))" unfolding db' by (rule distinct_rows_record)
qed

lemma discover_effect:
  assumes "translate_or_register lc now t g agent backend profile dir used gw = (gw', used', found)"
  shows "gw_permits gw' = gw_permits gw" and "gw_creating gw' = gw_creating gw"
    and "reg_resolve t' g' (gw_registry gw') \<noteq> None \<Longrightarrow> reg_resolve t' g' (gw_registry gw) \<noteq> None \<or> (t' = t \<and> g' = g)"
  using assms by (auto simp: translate_or_register_def Let_def register_with_id_def split: option.splits if_splits)

lemma create_commit_effect:
  assumes "create_commit t g gw = Some gw'" and "(t, g) \<in> set (gw_creating gw)"
  shows "gw_registry gw' = gw_registry gw" and "gw_permits gw' = remove1 t (gw_permits gw)"
    and "creating_of gw' t' = (if t' = t then creating_of gw t - 1 else creating_of gw t')"
  using permits_of_commit [OF assms(1) [unfolded create_commit_def]] count_remove1_fst [OF assms(2), of t']
  by (simp_all add: creating_of_def)

lemma create_fail_effect:
  assumes "create_fail t g gw = Some gw'" and "(t, g) \<in> set (gw_creating gw)"
  shows "gw_registry gw' = fst (reg_remove t g (gw_registry gw))" and "gw_permits gw' = remove1 t (gw_permits gw)"
    and "creating_of gw' t' = (if t' = t then creating_of gw t - 1 else creating_of gw t')"
  using permits_of_drop [OF assms(1) [unfolded create_fail_def]] count_remove1_fst [OF assms(2), of t']
  by (simp_all add: creating_of_def)

lemma create_register_effect:
  "gw_permits (create_register now t g agent backend profile dir gw) = gw_permits gw"
  "creating_of (create_register now t g agent backend profile dir gw) t' = (if t' = t then creating_of gw t + 1 else creating_of gw t')"
  "reg_resolve t' g' (gw_registry (create_register now t g agent backend profile dir gw)) \<noteq> None \<Longrightarrow>
     reg_resolve t' g' (gw_registry gw) \<noteq> None \<or> (t' = t \<and> g' = g)"
  by (auto simp: create_register_def creating_of_def register_with_id_def split: if_splits)

lemma fresh_lookup: "fresh_id w g \<Longrightarrow> lookup_session t g (wd_life w) = None"
  by (auto simp: fresh_id_def owned_def)

lemma jobs_of_remove1:
  "job \<in> set (wd_jobs w) \<Longrightarrow> count_list (map rj_tenant (remove1 job (wd_jobs w))) t
     = (if t = rj_tenant job then jobs_of w t - 1 else jobs_of w t)"
proof -
  have "job \<in> set js \<Longrightarrow> count_list (map rj_tenant (remove1 job js)) t
     = (if t = rj_tenant job then count_list (map rj_tenant js) t - 1 else count_list (map rj_tenant js) t)" for js
  proof (induction js)
    case (Cons j js)
    have "0 < count_list (map rj_tenant js) (rj_tenant job)" if "job \<in> set js"
      using that by (metis count_list_0_iff gr0I image_eqI list.set_map)
    then show ?case using Cons by (cases "j = job") auto
  qed simp
  then show "job \<in> set (wd_jobs w) \<Longrightarrow> ?thesis" by (simp add: jobs_of_def)
qed

lemma jobs_of_pos: "job \<in> set (wd_jobs w) \<Longrightarrow> 0 < jobs_of w (rj_tenant job)"
  unfolding jobs_of_def by (metis count_list_0_iff gr0I image_eqI list.set_map)

lemma world_ok_life_step_gateway:
  assumes "world_ok ls w"
  shows "admit_session (ls_lifecycle ls) t (lf_gateway (wd_life w)) = Inr gw \<Longrightarrow> world_ok ls (set_gateway gw w)"
    and "spare_permit w t \<Longrightarrow> drop_permit t (lf_gateway (wd_life w)) = Some gw \<Longrightarrow> world_ok ls (set_gateway gw w)"
    and "(t, g) \<in> set (gw_creating (lf_gateway (wd_life w))) \<Longrightarrow> create_commit t g (lf_gateway (wd_life w)) = Some gw \<Longrightarrow> world_ok ls (set_gateway gw w)"
    and "(t, g) \<in> set (gw_creating (lf_gateway (wd_life w))) \<Longrightarrow> create_fail t g (lf_gateway (wd_life w)) = Some gw \<Longrightarrow> world_ok ls (set_gateway gw w)"
    and "ensure_capacity_for_active_turn (ls_lifecycle ls) t g (lf_gateway (wd_life w)) = Some (Inr gw) \<Longrightarrow> world_ok ls (set_gateway gw w)"
proof -
  let ?gw = "lf_gateway (wd_life w)"
  note ok = world_okD(1) [OF assms] and held = world_okD(4) [OF assms]
  show "world_ok ls (set_gateway gw w)" if "admit_session (ls_lifecycle ls) t ?gw = Inr gw"
  proof (rule world_ok_gateway [OF assms gateway_ok_admit(1) [OF ok that]])
    show "creating_of gw t' + jobs_of w t' \<le> count_list (gw_permits gw) t'" for t'
      using permits_of_admit [OF that] held [of t'] by (auto simp: creating_of_same [of gw ?gw] intro: le_SucI)
  qed (use permits_of_admit [OF that] in simp)
  show "world_ok ls (set_gateway gw w)" if "spare_permit w t" "drop_permit t ?gw = Some gw"
  proof (rule world_ok_gateway [OF assms])
    show "gateway_ok (ls_lifecycle ls) gw" using gateway_ok_drop [OF ok, of t] that by (auto simp: spare_permit_def)
    show "creating_of gw t' + jobs_of w t' \<le> count_list (gw_permits gw) t'" for t'
      using permits_of_drop [OF that(2)] held [of t'] that(1) by (auto simp: creating_of_same [of gw ?gw] spare_permit_def count_permits_remove1)
  qed (use permits_of_drop [OF that(2)] in simp)
  show "world_ok ls (set_gateway gw w)" if "(t, g) \<in> set (gw_creating ?gw)" "create_commit t g ?gw = Some gw"
  proof (rule world_ok_gateway [OF assms])
    show "gateway_ok (ls_lifecycle ls) gw" using gateway_ok_commit [OF ok that(1)] that(2) by auto
    show "creating_of gw t' + jobs_of w t' \<le> count_list (gw_permits gw) t'" for t'
      using create_commit_effect(2,3) [OF that(2,1)] held [of t'] creating_pos [OF that(1)] by (auto simp: count_permits_remove1)
  qed (use create_commit_effect(1) [OF that(2,1)] in simp)
  show "world_ok ls (set_gateway gw w)" if "(t, g) \<in> set (gw_creating ?gw)" "create_fail t g ?gw = Some gw"
  proof (rule world_ok_gateway [OF assms])
    show "gateway_ok (ls_lifecycle ls) gw" using gateway_ok_fail [OF ok that(1)] that(2) by auto
    show "creating_of gw t' + jobs_of w t' \<le> count_list (gw_permits gw) t'" for t'
      using create_fail_effect(2,3) [OF that(2,1)] held [of t'] creating_pos [OF that(1)] by (auto simp: count_permits_remove1)
    show "reg_resolve t' g' (gw_registry gw) \<noteq> None \<Longrightarrow> lookup_session t' g' (wd_life w) \<noteq> None" for t' g'
      using create_fail_effect(1) [OF that(2,1)] by (simp split: if_splits)
  qed
  show "world_ok ls (set_gateway gw w)" if p: "ensure_capacity_for_active_turn (ls_lifecycle ls) t g ?gw = Some (Inr gw)"
  proof (rule world_ok_gateway [OF assms])
    show "gateway_ok (ls_lifecycle ls) gw" using gateway_ok_step [OF GwPromote [OF p] ok] .
    show "creating_of gw t' + jobs_of w t' \<le> count_list (gw_permits gw) t'" for t'
      using promote_effect(1,2) [OF p] held [of t'] by (simp add: creating_of_same [of gw ?gw])
  qed (use promote_effect(3) [OF p] in simp)
qed

lemma world_ok_register:
  assumes "world_ok ls w" and "spare_permit w t" and "fresh_id w g"
  shows "world_ok ls (set_gateway (create_register now t g agent backend profile dir (lf_gateway (wd_life w))) w
    \<lparr>wd_spawned := (t, g) # wd_spawned w\<rparr>)"
proof (rule world_ok_step [OF assms(1)])
  let ?gw = "lf_gateway (wd_life w)"
  have spare: "creating_of ?gw t + jobs_of w t < count_list (gw_permits ?gw) t" using assms(2) by (simp add: spare_permit_def)
  show "gateway_ok (ls_lifecycle ls) (lf_gateway (wd_life (set_gateway (create_register now t g agent backend profile dir ?gw) w
      \<lparr>wd_spawned := (t, g) # wd_spawned w\<rparr>)))"
    using gateway_ok_register [OF world_okD(1) [OF assms(1)] fresh_lookup [OF assms(3)]] spare by simp
  show "owned t g w \<or> fresh_id w g" using assms(3) by simp
  show "owned t' g' w \<or> (t' = t \<and> g' = g)"
    if "owned t' g' (set_gateway (create_register now t g agent backend profile dir ?gw) w\<lparr>wd_spawned := (t, g) # wd_spawned w\<rparr>)" for t' g'
    using that create_register_effect(3) [of t' g' now t g agent backend profile dir ?gw] unfolding owned_def by auto
qed (use world_okD(2,4,5) [OF assms(1)] assms(2) in \<open>auto simp: create_register_effect(1,2) jobs_of_def spare_permit_def\<close>)

lemma world_ok_discover:
  assumes "world_ok ls w" and "fresh_id w g"
    and "translate_or_register (ls_lifecycle ls) now t g agent backend profile dir used (lf_gateway (wd_life w)) = (gw, used', found)"
  shows "world_ok ls (set_gateway gw w\<lparr>wd_spawned := (t, g) # wd_spawned w\<rparr>)"
proof (rule world_ok_step [OF assms(1)])
  show "gateway_ok (ls_lifecycle ls) (lf_gateway (wd_life (set_gateway gw w\<lparr>wd_spawned := (t, g) # wd_spawned w\<rparr>)))"
    using gateway_ok_discover [OF world_okD(1) [OF assms(1)] fresh_lookup [OF assms(2)] assms(3)] by simp
  show "owned t g w \<or> fresh_id w g" using assms(2) by simp
  show "owned t' g' w \<or> (t' = t \<and> g' = g)" if "owned t' g' (set_gateway gw w\<lparr>wd_spawned := (t, g) # wd_spawned w\<rparr>)" for t' g'
    using that discover_effect(3) [OF assms(3), of t' g'] unfolding owned_def by auto
qed (use world_okD(2,4,5) [OF assms(1)] discover_effect(1,2) [OF assms(3)] in
  \<open>auto simp: jobs_of_def creating_of_same [of gw "lf_gateway (wd_life w)"]\<close>)

lemma world_ok_record:
  assumes "world_ok ls w" and "owned t g w" and "lf_store (wd_life w) = Some db"
    and "record_session nanos g agent backend profile stamp t m creation db = (db', res)" and "set sp \<subseteq> set (wd_spawned w)"
  shows "world_ok ls (set_db db' w\<lparr>wd_spawned := sp\<rparr>)"
proof (rule world_ok_step [OF assms(1)])
  note rows = rows_after_record [OF assms(4,3)]
  show "owned t g w \<or> fresh_id w g" using assms(2) by simp
  show "store_ok (wd_life (set_db db' w\<lparr>wd_spawned := sp\<rparr>))"
    using rows(2) world_okD(2) [OF assms(1)] assms(3) by (simp add: store_ok_def)
  show "owned t' g' w \<or> (t' = t \<and> g' = g)" if "owned t' g' (set_db db' w\<lparr>wd_spawned := sp\<rparr>)" for t' g'
    using that rows(1) [of g'] assms(5) by (auto simp: owned_def)
  show "row_tenant (wd_life (set_db db' w\<lparr>wd_spawned := sp\<rparr>)) (rj_session job) = Some (rj_tenant job)
      \<and> entry_ok (rj_entry job) \<and> capacity_counted (rj_entry job)"
    if "job \<in> set (wd_jobs (set_db db' w\<lparr>wd_spawned := sp\<rparr>))" for job
    using that world_okD(5) [OF assms(1), of job] rows(1) [of "rj_session job"] by auto
qed (use world_okD(1,4) [OF assms(1)] in \<open>auto simp: jobs_of_def\<close>)

lemma world_ok_prepare:
  assumes "world_ok ls w" and "lf_store (wd_life w) = Some db" and "get_row g db = Some row"
    and "prepare_open_session_recovery ls profiles starts now nanos g row (wd_life w) = Some (l', Inr job)"
  shows "world_ok ls (set_life l' w\<lparr>wd_jobs := job # wd_jobs w\<rparr>)"
proof -
  let ?l = "wd_life w"
  from prepare_holds [OF assms(4)] have h: "holds_permit (rj_tenant job) ?l l' (ls_lifecycle ls)" "rj_tenant job = sw_tenant row"
      "rj_session job = g" "entry_ok (rj_entry job)" "capacity_counted (rj_entry job)" by auto
  note d = holds_permitD [OF h(1)]
  have row: "row_tenant ?l g = Some (rj_tenant job)" using assms(2,3) h(2) by (simp add: row_tenant_def)
  show ?thesis
  proof (rule world_ok_step [OF assms(1), where ?t0.0 = "rj_tenant job" and ?g0.0 = g])
    show "gateway_ok (ls_lifecycle ls) (lf_gateway (wd_life (set_life l' w\<lparr>wd_jobs := job # wd_jobs w\<rparr>)))"
      using h(1) world_okD(1) [OF assms(1)] by (simp add: holds_permit_def)
    show "store_ok (wd_life (set_life l' w\<lparr>wd_jobs := job # wd_jobs w\<rparr>))" using d(5) world_okD(2) [OF assms(1)] by simp
    show "owned (rj_tenant job) g w \<or> fresh_id w g" using row by (simp add: owned_def)
    show "creating_of (lf_gateway (wd_life (set_life l' w\<lparr>wd_jobs := job # wd_jobs w\<rparr>))) t
        + jobs_of (set_life l' w\<lparr>wd_jobs := job # wd_jobs w\<rparr>) t
      \<le> count_list (gw_permits (lf_gateway (wd_life (set_life l' w\<lparr>wd_jobs := job # wd_jobs w\<rparr>)))) t" for t
      using world_okD(4) [OF assms(1), of t] d(2,3) by (simp add: jobs_of_def creating_of_def)
  qed (use d(1,4) row h(3-5) world_okD(5) [OF assms(1)] in \<open>auto simp: owned_def\<close>)
qed

text \<open>A job holds its permit, so it can be settled either way.\<close>

lemma job_holds:
  assumes "world_ok ls w" and "job \<in> set (wd_jobs w)"
  shows "creating_of (lf_gateway (wd_life w)) (rj_tenant job) < count_list (gw_permits (lf_gateway (wd_life w))) (rj_tenant job)"
  using world_okD(4) [OF assms(1), of "rj_tenant job"] jobs_of_pos [OF assms(2)] by simp

lemma job_settled:
  assumes "world_ok ls w" and "job \<in> set (wd_jobs w)" and "gw_creating gw = gw_creating (lf_gateway (wd_life w))"
    and "gw_permits gw = remove1 (rj_tenant job) (gw_permits (lf_gateway (wd_life w)))"
  shows "creating_of gw t + count_list (map rj_tenant (remove1 job (wd_jobs w))) t \<le> count_list (gw_permits gw) t"
  using world_okD(4) [OF assms(1), of t] jobs_of_pos [OF assms(2)] assms(3,4)
  by (auto simp: jobs_of_remove1 [OF assms(2)] count_permits_remove1 creating_of_same [of gw "lf_gateway (wd_life w)"])

lemma world_ok_restored:
  assumes "world_ok ls w" and "job \<in> set (wd_jobs w)" and "lookup_session (rj_tenant job) (rj_session job) (wd_life w) = None"
    and "install_recovered job (wd_life w) = Some l'"
  shows "world_ok ls (set_life l' w\<lparr>wd_jobs := remove1 job (wd_jobs w)\<rparr>)"
proof -
  let ?gw = "lf_gateway (wd_life w)" and ?r = "reg_insert (rj_tenant job) (rj_session job) (rj_entry job) (lf_registry (wd_life w))"
  note ok = world_okD(1) [OF assms(1)] and job = world_okD(5) [OF assms(1,2)] and e = install_effect [OF assms(4)]
  have "\<exists>g'. commit_permit (rj_tenant job) (?gw\<lparr>gw_registry := ?r\<rparr>) = Some g' \<and> gateway_ok (ls_lifecycle ls) g' \<and> gw_registry g' = ?r"
    using counted_insert [OF gateway_okD(1) [OF ok] assms(3)] job assms(3)
    by (intro gateway_ok_fill [OF ok job_holds [OF assms(1,2)]])
      (auto simp: counted_def intro!: registry_ok_insert gateway_okD(1) [OF ok])
  then have gw: "gateway_ok (ls_lifecycle ls) (lf_gateway l')"
    using assms(4) by (auto simp: install_recovered_def cancel_unreferenced_shutdown_def Let_def)
  have rows: "row_tenant l' k = row_tenant (wd_life w) k" for k using e(2) by (simp add: row_tenant_def)
  show ?thesis
  proof (rule world_ok_step [OF assms(1), where ?t0.0 = "rj_tenant job" and ?g0.0 = "rj_session job"])
    show "store_ok (wd_life (set_life l' w\<lparr>wd_jobs := remove1 job (wd_jobs w)\<rparr>))"
      using e(2) world_okD(2) [OF assms(1)] by (simp add: store_ok_def)
    show "owned (rj_tenant job) (rj_session job) w \<or> fresh_id w (rj_session job)" using job by (simp add: owned_def)
    show "owned t g w \<or> (t = rj_tenant job \<and> g = rj_session job)"
      if "owned t g (set_life l' w\<lparr>wd_jobs := remove1 job (wd_jobs w)\<rparr>)" for t g
      using that e(1) [of t g] rows unfolding owned_def by (auto split: if_splits)
    show "creating_of (lf_gateway (wd_life (set_life l' w\<lparr>wd_jobs := remove1 job (wd_jobs w)\<rparr>))) t
        + jobs_of (set_life l' w\<lparr>wd_jobs := remove1 job (wd_jobs w)\<rparr>) t
      \<le> count_list (gw_permits (lf_gateway (wd_life (set_life l' w\<lparr>wd_jobs := remove1 job (wd_jobs w)\<rparr>)))) t" for t
      using job_settled [OF assms(1,2) e(3,4)] by (simp add: jobs_of_def)
  qed (use gw rows world_okD(5) [OF assms(1)] in \<open>auto dest: set_remove1_subset [THEN subsetD]\<close>)
qed

lemma world_ok_abandoned:
  assumes "world_ok ls w" and "job \<in> set (wd_jobs w)" and "abandon_recovery job (wd_life w) = Some l'"
  shows "world_ok ls (set_life l' w\<lparr>wd_jobs := remove1 job (wd_jobs w)\<rparr>)"
proof -
  obtain gw where gw: "drop_permit (rj_tenant job) (lf_gateway (wd_life w)) = Some gw" "l' = (wd_life w)\<lparr>lf_gateway := gw\<rparr>"
    using assms(3) by (auto simp: abandon_recovery_def)
  note p = permits_of_drop [OF gw(1)]
  have ok: "gateway_ok (ls_lifecycle ls) gw"
    using gateway_ok_drop [OF world_okD(1) [OF assms(1)] job_holds [OF assms(1,2)]] gw(1) by simp
  show ?thesis
  proof (rule world_ok_step [OF assms(1), where ?t0.0 = "rj_tenant job" and ?g0.0 = "rj_session job"])
    show "owned (rj_tenant job) (rj_session job) w \<or> fresh_id w (rj_session job)"
      using world_okD(5) [OF assms(1,2)] by (simp add: owned_def)
    show "creating_of (lf_gateway (wd_life (set_life l' w\<lparr>wd_jobs := remove1 job (wd_jobs w)\<rparr>))) t
        + jobs_of (set_life l' w\<lparr>wd_jobs := remove1 job (wd_jobs w)\<rparr>) t
      \<le> count_list (gw_permits (lf_gateway (wd_life (set_life l' w\<lparr>wd_jobs := remove1 job (wd_jobs w)\<rparr>)))) t" for t
      using job_settled [OF assms(1,2), of gw] p gw(2) by (simp add: jobs_of_def)
  qed (use ok p gw(2) world_okD(2,5) [OF assms(1)] in \<open>auto simp: owned_def dest: set_remove1_subset [THEN subsetD]\<close>)
qed

lemma world_ok_start:
  assumes "store_ok (life_new store)"
  shows "world_ok ls \<lparr>wd_life = life_new store, wd_spawned = [], wd_jobs = []\<rparr>"
proof -
  have "gateway_ok (ls_lifecycle ls) (lf_gateway (life_new store))" by (simp add: life_new_def)
  moreover have "lookup_session t g (life_new store) = None" for t g
    by (simp add: life_new_def gateway_new_def registry_new_def reg_resolve_def)
  moreover have "creating_of (lf_gateway (life_new store)) t = 0" for t by (simp add: life_new_def gateway_new_def creating_of_def)
  ultimately show ?thesis using assms by (auto simp: world_ok_def owned_def jobs_of_def)
qed

lemma world_ok_life_step:
  assumes "life_step ls w w'" and "world_ok ls w"
  shows "world_ok ls w'"
  using assms
proof (induction rule: life_step.induct)
  case (LifeRecord t g w db nanos agent backend profile stamp m creation db' res)
  have "owned t g w" using gateway_okD(4) [OF world_okD(1) [OF LifeRecord(4)] LifeRecord(1)] by (auto simp: owned_def)
  from world_ok_record [OF LifeRecord(4) this LifeRecord(2,3), of "wd_spawned w"] show ?case by (simp add: set_db_def)
next
  case (LifeSpawn t g w)
  then show ?case
    by (intro world_ok_step [OF LifeSpawn(2), where ?t0.0 = t and ?g0.0 = g])
      (auto simp: owned_def jobs_of_def world_ok_def)
next
  case (LifeSpawned t g w db nanos agent backend profile stamp m db' res)
  then show ?case using world_ok_record [OF LifeSpawned(4) _ LifeSpawned(2,3), of "remove1 (t, g) (wd_spawned w)"]
    by (simp add: owned_def set_remove1_subset)
next
  case (LifeClose t g w gw)
  have "set_gateway gw w = set_life ((wd_life w)\<lparr>lf_gateway := gw\<rparr>) w" by (simp add: set_gateway_def set_life_def)
  with world_ok_calm [OF LifeClose(3) calm_evict [OF LifeClose(1,2)]] show ?case by (simp only:)
next
  case (LifeStatement w db f g db' res)
  have "set_db db' w = set_life ((wd_life w)\<lparr>lf_store := Some (fst (update_row g f db))\<rparr>) w"
    using LifeStatement(3) by (simp add: set_db_def set_life_def)
  with world_ok_calm [OF LifeStatement(4) calm_statement [OF LifeStatement(1,2)]] show ?case by (simp only:)
next
  case (LifeStuck now has_writer w l' frames)
  then show ?case by (intro world_ok_calm [OF LifeStuck(2)]) (auto simp: cancel_stuck_turns_def dest: calm_stuck)
next
  case (LifeReturn now nanos stamp t meth g outcome w l' r)
  then show ?case by (blast intro: world_ok_calm calm_call_settles)
next
  case (LifeProcess l' w)
  then show ?case by (blast intro: world_ok_calm calm_same_parts)
next
  case (LifeRestart w)
  then show ?case using world_okD(2) [OF LifeRestart] by (intro world_ok_start) (simp add: store_ok_def life_new_def)
qed (blast intro: world_ok_life_step_gateway world_ok_register world_ok_discover world_ok_prepare world_ok_restored world_ok_abandoned
      world_ok_calm calm_change calm_resolve calm_suppress calm_pin_administered calm_ttl calm_close_candidates
      calm_reap_unreferenced calm_retry calm_recover calm_call_begin calm_permission calm_set_permission world_okD(2))+

lemma life_reachable_ok: "life_reachable ls w \<Longrightarrow> world_ok ls w"
proof (induction rule: life_reachable.induct)
  case LifeStart
  show ?case by (rule world_ok_start) (simp add: life_new_def store_ok_def)
next
  case LifeStartStored
  show ?case by (rule world_ok_start) (simp add: life_new_def store_ok_def session_db_new_def)
qed (rule world_ok_life_step)

end
