(* ===== verification/LifeProps.thy ===== *)
theory LifeProps
  imports LifeRuns
begin

text \<open>
  What the life of sessions guarantees: ids have one owner and other tenants are refused, nothing panics, the
  recovery at start-up settles every candidate, the quota of pinned sessions, and where the code breaks its
  own comments.
\<close>

section \<open>Owners\<close>

text \<open>
  C8. A session id has one owner: in any run of requests, background tasks, recoveries and restarts, the live
  registry, the durable rows and the rows still to be written never give one id to two tenants.
\<close>

theorem session_has_one_owner:
  assumes "life_reachable ls w" and "owned t g w" and "owned t' g w"
  shows "t = t'"
  using world_okD(3) [OF life_reachable_ok [OF assms(1)] assms(2,3)] .


text \<open>
  The comment of \<open>rehydrate_session\<close> wants the refusal to look like that of a session that was never stored; it
  does not.
\<close>

theorem foreign_session_is_distinguishable:
  assumes "ls_on_demand ls" and "classify meth \<in> {Proxied, SessionFork}" and "lf_store l = Some db"
    and "row_tenant l g = Some owner" and "owner \<noteq> t" and "lookup_session t g l = None"
    and "row_tenant l unknown = None" and "lookup_session t unknown l = None"
  shows "resolve_or_revive ls profiles now nanos t meth g l = Some (l, Inl (SessionNotPersisted g))
    \<and> resolve_or_revive ls profiles now nanos t meth unknown l = Some (l, Inl (UnknownSession unknown))"
  using assms by (auto simp: resolve_or_revive_def revive_session_def row_to_revive_def row_tenant_def)

section \<open>Recovery\<close>

lemma write_status_effect:
  assumes "lf_store l = Some db" and "get_row g db = Some row"
  shows "\<exists>db'. write_status g status err l = (l\<lparr>lf_store := Some db'\<rparr>, Inr ())
    \<and> get_row g db' = Some (row\<lparr>sw_status := status, sw_last_error := map_option bound_recovery_error err\<rparr>)
    \<and> (\<forall>k. k \<noteq> g \<longrightarrow> get_row k db' = get_row k db)"
proof -
  let ?row = "row\<lparr>sw_status := status, sw_last_error := map_option bound_recovery_error err\<rparr>"
  let ?db' = "db\<lparr>db_rows := AList.update g ?row (db_rows db)\<rparr>"
  have "write_status g status err l = (l\<lparr>lf_store := Some ?db'\<rparr>, Inr ())"
    using assms by (simp add: write_status_def update_recovery_status_def update_row_some)
  moreover have "get_row k ?db' = (if k = g then Some ?row else get_row k db)" for k by (rule get_row_set)
  ultimately show ?thesis by (intro exI [of _ ?db']) simp
qed

text \<open>How a turn of the recovery leaves the session of its row.\<close>

definition settled :: "instant \<Rightarrow> int \<Rightarrow> string \<times> session_row \<Rightarrow> life \<Rightarrow> bool" where
  "settled now nanos candidate l \<longleftrightarrow>
     (let (g, row) = candidate
      in \<exists>db row'. lf_store l = Some db \<and> get_row g db = Some row'
         \<and> ((sw_status row' = StatusRestored \<and> (\<exists>key. lookup_session (sw_tenant row) g l = Some (row_entry now nanos key row)))
            \<or> (sw_status row' = StatusRecoveryFailed \<and> lookup_session (sw_tenant row) g l = None)))"

definition same_but :: "string \<Rightarrow> life \<Rightarrow> life \<Rightarrow> bool" where
  "same_but g l l' \<longleftrightarrow>
     (\<forall>t k. k \<noteq> g \<longrightarrow> lookup_session t k l' = lookup_session t k l)
     \<and> (\<forall>db. lf_store l = Some db \<longrightarrow> (\<exists>db'. lf_store l' = Some db' \<and> (\<forall>k. k \<noteq> g \<longrightarrow> get_row k db' = get_row k db)
            \<and> (get_row g db \<noteq> None \<longrightarrow> get_row g db' \<noteq> None)))"

lemma settled_other:
  assumes "settled now nanos (g, row) l" and "same_but g' l l'" and "g \<noteq> g'"
  shows "settled now nanos (g, row) l'"
  using assms unfolding settled_def same_but_def Let_def by fastforce

lemma prepare_keeps:
  assumes "prepare_open_session_recovery ls profiles starts now nanos g row l = Some (l', r)"
  shows "lf_registry l' = lf_registry l" and "lf_store l' = lf_store l"
  using assms
  by (auto simp: prepare_open_session_recovery_def drop_permit_def dest!: permits_of_admit split: option.splits sum.splits if_splits)

lemma prepare_some:
  assumes "gateway_ok (ls_lifecycle ls) (lf_gateway l)"
  shows "\<exists>l' r. prepare_open_session_recovery ls profiles starts now nanos g row l = Some (l', r)"
proof -
  have "\<exists>gw'. drop_permit t gw = Some gw'" if "admit_session (ls_lifecycle ls) t (lf_gateway l) = Inr gw" for t gw
    using gateway_ok_drop [OF gateway_ok_admit(1,4) [OF assms that]] by blast
  then show ?thesis by (auto simp: prepare_open_session_recovery_def split: option.split sum.split)
qed

lemma abandon_some:
  assumes "holds_permit (rj_tenant job) l l' lc" and "gateway_ok lc (lf_gateway l)"
  shows "\<exists>l''. abandon_recovery job l' = Some l'' \<and> lf_registry l'' = lf_registry l' \<and> lf_store l'' = lf_store l'"
proof -
  have "\<exists>gw. drop_permit (rj_tenant job) (lf_gateway l') = Some gw"
    using gateway_ok_drop [of lc "lf_gateway l'" "rj_tenant job"] assms by (auto simp: holds_permit_def)
  then show ?thesis by (auto simp: abandon_recovery_def dest: permits_of_drop)
qed

lemma recover_one_settles:
  assumes "gateway_ok (ls_lifecycle ls) (lf_gateway l)" and "lf_store l = Some db" and "get_row g db = Some row0"
    and "sw_method row \<noteq> MethodNone" and "lookup_session (sw_tenant row) g l = None"
  shows "\<exists>l' rep'. recover_one ls profiles starts backend show now nanos (g, row) rep l = Some (l', Inr rep')
    \<and> settled now nanos (g, row) l' \<and> same_but g l l'
    \<and> rr_restored rep' + rr_failed rep' = rr_restored rep + rr_failed rep + 1 \<and> rr_skipped rep' = rr_skipped rep"
proof -
  let ?lc = "ls_lifecycle ls" and ?t = "sw_tenant row"
  obtain db1 row1 where w1: "write_status g StatusRestoring None l = (l\<lparr>lf_store := Some db1\<rparr>, Inr ())"
      "get_row g db1 = Some row1" "\<forall>k. k \<noteq> g \<longrightarrow> get_row k db1 = get_row k db"
    using write_status_effect [OF assms(2,3)] by blast
  let ?l1 = "l\<lparr>lf_store := Some db1\<rparr>"
  have failed: "\<exists>l' rep'. fail_recovery g message rep l2 = (l', Inr rep') \<and> settled now nanos (g, row) l' \<and> same_but g l l'
      \<and> rr_restored rep' + rr_failed rep' = rr_restored rep + rr_failed rep + 1 \<and> rr_skipped rep' = rr_skipped rep"
    if "lf_registry l2 = lf_registry l" "lf_store l2 = Some db1" for l2 message
    using write_status_effect [OF that(2) w1(2), of StatusRecoveryFailed "Some message"] w1(3) assms(2,3,5) that(1)
    by (auto simp: settled_def same_but_def fail_recovery_def)
  obtain l2 r2 where p: "prepare_open_session_recovery ls profiles starts now nanos g row ?l1 = Some (l2, r2)"
    using prepare_some [of ls ?l1 profiles starts now nanos g row] assms(1) by auto
  note keep = prepare_keeps [OF p]
  have reg2: "lf_registry l2 = lf_registry l" "lf_store l2 = Some db1" using keep by simp_all
  show ?thesis
  proof (cases r2)
    case (Inl e)
    then show ?thesis using failed [OF reg2] assms(4,5) w1(1) p by (simp add: recover_one_def Let_def)
  next
    case (Inr job)
    from prepare_holds [OF p] Inr have h: "holds_permit (rj_tenant job) ?l1 l2 ?lc" "rj_tenant job = ?t" "rj_session job = g"
        "\<exists>key. rj_entry job = row_entry now nanos key row" by auto
    have ok1: "gateway_ok ?lc (lf_gateway ?l1)" using assms(1) by simp
    show ?thesis
    proof (cases "snd (execute_open_session_recovery (fst (backend g)) (snd (backend g)) job)")
      case (Inl e)
      obtain l3 where l3: "abandon_recovery job l2 = Some l3" "lf_registry l3 = lf_registry l" "lf_store l3 = Some db1"
        using abandon_some [OF h(1) ok1] reg2 by auto
      then show ?thesis using failed [OF l3(2,3)] assms(4,5) w1(1) p \<open>r2 = Inr job\<close> Inl by (simp add: recover_one_def Let_def)
    next
      case (Inr job')
      obtain db3 row3 where w3: "write_status g StatusRestored None l2 = (l2\<lparr>lf_store := Some db3\<rparr>, Inr ())"
          "get_row g db3 = Some row3" "sw_status row3 = StatusRestored" "\<forall>k. k \<noteq> g \<longrightarrow> get_row k db3 = get_row k db1"
        using write_status_effect [OF reg2(2) w1(2), of StatusRestored None] by auto
      have held: "holds_permit (rj_tenant job) ?l1 (l2\<lparr>lf_store := Some db3\<rparr>) ?lc" by (rule write_status_held [OF h(1) w3(1)])
      obtain l4 where l4: "install_recovered job (l2\<lparr>lf_store := Some db3\<rparr>) = Some l4"
        using install_some [OF held] h(2-4) assms(5) ok1 by auto
      note e = install_effect [OF l4]
      have "settled now nanos (g, row) l4" using e(1) [of ?t g] e(2) h(2-4) w3(2,3) by (auto simp: settled_def)
      moreover have "same_but g l l4" using e(1,2) reg2(1) h(3) w1(3) w3(2,4) assms(2) by (auto simp: same_but_def)
      ultimately show ?thesis using assms(4,5) w1(1) p \<open>r2 = Inr job\<close> Inr w3(1) l4 by (simp add: recover_one_def Let_def)
    qed
  qed
qed

definition awaits_recovery :: "string \<times> session_row \<Rightarrow> life \<Rightarrow> bool" where
  "awaits_recovery candidate l \<longleftrightarrow>
     (let (g, row) = candidate
      in sw_method row \<noteq> MethodNone \<and> row_tenant l g = Some (sw_tenant row) \<and> lookup_session (sw_tenant row) g l = None)"

lemma awaits_other: "awaits_recovery (g, row) l \<Longrightarrow> same_but g' l l' \<Longrightarrow> calm lc l l' \<Longrightarrow> g \<noteq> g' \<Longrightarrow> awaits_recovery (g, row) l'"
  by (simp add: awaits_recovery_def same_but_def calm_def)

lemma recover_rows_settle:
  assumes "gateway_ok (ls_lifecycle ls) (lf_gateway l)" and "\<forall>x\<in>set xs. awaits_recovery x l" and "distinct (map fst xs)"
  shows "\<exists>l' rep'. recover_rows ls profiles starts backend show now nanos xs rep l = Some (l', Inr rep')
    \<and> (\<forall>x\<in>set xs. settled now nanos x l') \<and> (\<forall>x. fst x \<notin> fst ` set xs \<longrightarrow> settled now nanos x l \<longrightarrow> settled now nanos x l')
    \<and> rr_restored rep' + rr_failed rep' = rr_restored rep + rr_failed rep + length xs \<and> rr_skipped rep' = rr_skipped rep"
  using assms
proof (induction xs arbitrary: l rep)
  case (Cons x xs)
  obtain g row where x: "x = (g, row)" by (cases x)
  have a: "sw_method row \<noteq> MethodNone" "row_tenant l g = Some (sw_tenant row)" "lookup_session (sw_tenant row) g l = None"
    using Cons.prems(2) by (simp_all add: x awaits_recovery_def)
  then obtain db row0 where "lf_store l = Some db" "get_row g db = Some row0"
    by (auto simp: row_tenant_def bind_eq_Some_conv)
  from recover_one_settles [OF Cons.prems(1) this a(1,3)] obtain l1 rep1 where
    s: "recover_one ls profiles starts backend show now nanos (g, row) rep l = Some (l1, Inr rep1)" "settled now nanos (g, row) l1"
      "same_but g l l1" "rr_restored rep1 + rr_failed rep1 = rr_restored rep + rr_failed rep + 1" "rr_skipped rep1 = rr_skipped rep"
    by blast
  have c: "calm (ls_lifecycle ls) l l1" by (rule calm_recover_one [OF s(1) a(2)])
  have others: "fst y \<noteq> g" if "y \<in> set xs" for y using Cons.prems(3) that by (auto simp: x)
  have ok: "gateway_ok (ls_lifecycle ls) (lf_gateway l1)" using c Cons.prems(1) by (simp add: calm_def)
  have wait: "\<forall>y\<in>set xs. awaits_recovery y l1"
  proof
    fix y assume y: "y \<in> set xs"
    obtain k r where "y = (k, r)" by (cases y)
    with Cons.prems(2) y others [OF y] awaits_other [OF _ s(3) c] show "awaits_recovery y l1" by auto
  qed
  obtain l2 rep2 where r: "recover_rows ls profiles starts backend show now nanos xs rep1 l1 = Some (l2, Inr rep2)"
      "\<forall>x\<in>set xs. settled now nanos x l2" "\<forall>x. fst x \<notin> fst ` set xs \<longrightarrow> settled now nanos x l1 \<longrightarrow> settled now nanos x l2"
      "rr_restored rep2 + rr_failed rep2 = rr_restored rep1 + rr_failed rep1 + length xs" "rr_skipped rep2 = rr_skipped rep1"
    using Cons.IH [OF ok wait, of rep1] Cons.prems(3) by auto
  have "settled now nanos x l2" using r(3) s(2) others by (force simp: x)
  moreover have "settled now nanos y l2" if "fst y \<notin> fst ` set (x # xs)" "settled now nanos y l" for y
    using r(3) [rule_format, of y] that settled_other [of now nanos "fst y" "snd y" l g l1] s(3) by (simp add: x)
  ultimately show ?case using r(1,2,4,5) s(1,4,5) by (intro exI [of _ l2] exI [of _ rep2]) (simp add: x)
qed simp

lemma distinct_keys_order [simp]: "distinct (map fst (order_by_created rows)) = distinct (map fst rows)"
proof -
  have "distinct (map fst (insert_by_created x xs)) \<longleftrightarrow> fst x \<notin> fst ` set xs \<and> distinct (map fst xs)" for x xs
    by (induction xs) (auto simp: set_insert_by_created)
  then show ?thesis
    unfolding order_by_created_def
    by (induction rows) (auto simp flip: order_by_created_def)
qed

lemma candidates_await:
  assumes "store_ok l" and "lf_store l = Some db" and "\<And>t g. lookup_session t g l = None"
  shows "\<forall>x\<in>set (list_recoverable_sessions nanos age db). awaits_recovery x l"
    and "distinct (map fst (list_recoverable_sessions nanos age db))"
proof -
  have d: "distinct (map fst (db_rows db))" using assms(1,2) by (simp add: store_ok_def)
  show "\<forall>x\<in>set (list_recoverable_sessions nanos age db). awaits_recovery x l"
    using recoverable_row [OF _ d, of _ _ nanos age] recoverable_tenants [OF assms(1,2), of nanos age] assms(3)
    by (auto simp: awaits_recovery_def)
  show "distinct (map fst (list_recoverable_sessions nanos age db))"
    using d by (simp add: list_recoverable_sessions_def distinct_map_filter)
qed


section \<open>Nothing panics\<close>

lemma rehydrate_some:
  assumes "gateway_ok lc gw" and "reg_resolve t g (gw_registry gw) = None" and "entry_ok e" and "capacity_counted e"
  shows "rehydrate_session lc t g e gw \<noteq> None"
proof (cases "admit_session lc t gw")
  case (Inl err)
  then show ?thesis by (simp add: rehydrate_session_def)
next
  case (Inr g1)
  with gateway_ok_rehydrate [OF assms Inr] show ?thesis by auto
qed

lemma resolve_or_revive_some:
  assumes "gateway_ok (ls_lifecycle ls) (lf_gateway l)"
  shows "resolve_or_revive ls profiles now nanos t meth g l \<noteq> None"
proof (cases "lookup_session t g l")
  case None
  have "\<forall>key row. \<exists>y. rehydrate_session (ls_lifecycle ls) t g (row_entry now nanos key row) (lf_gateway l) = Some y"
    using rehydrate_some [OF assms None row_entry_ok] by (metis not_None_eq)
  then obtain out where "rehydrate_session (ls_lifecycle ls) t g (row_entry now nanos key row) (lf_gateway l) = Some (out key row)" for key row
    by metis
  then have "revive_session ls profiles now nanos t meth g l \<noteq> None"
    by (simp add: revive_session_def Let_def split: option.split sum.split)
  with None show ?thesis by (simp add: resolve_or_revive_def)
qed (simp add: resolve_or_revive_def)

lemma maybe_suppress_some:
  assumes "gateway_ok (ls_lifecycle ls) (lf_gateway l)"
  shows "maybe_suppress_close ls profiles now nanos t request l \<noteq> None"
proof -
  obtain request' bg where o: "take_background_override request = (request', bg)" by (cases "take_background_override request")
  have "(case resolve_or_revive ls profiles now nanos t ''session/close'' sid l of None \<Rightarrow> None
      | Some (l', Inl e) \<Rightarrow> Some (l', Inl e) | Some (l', Inr entry) \<Rightarrow> Some (l', Inr (y entry))) \<noteq> None"
    for sid and y :: "session_entry \<Rightarrow> json \<times> json option"
  proof -
    obtain l' r where "resolve_or_revive ls profiles now nanos t ''session/close'' sid l = Some (l', r)"
      using resolve_or_revive_some [OF assms, of profiles now nanos t "''session/close''" sid] by auto
    then show ?thesis by (cases r) simp_all
  qed
  then show ?thesis unfolding maybe_suppress_close_def Let_def o prod.case by (simp split: option.split del: not_None_eq)
qed

lemma close_candidate_some:
  assumes "gateway_ok (ls_lifecycle ls) (lf_gateway l)" and "(t, g) \<notin> set (gw_creating (lf_gateway l))"
  shows "close_candidate ls now stamp closes t g l \<noteq> None"
proof -
  have "evict_session t g (lf_gateway (change_session t g (entry_in_flight now 1) l)) \<noteq> None"
    using gateway_ok_evict [OF gateway_ok_change [OF assms(1) keeps_counting_ops(1)], of t g t g now 1] assms(2) by auto
  then show ?thesis by (auto simp: close_candidate_def Let_def split: option.split prod.split sum.split)
qed

lemma close_candidates_some:
  assumes "gateway_ok (ls_lifecycle ls) (lf_gateway l)" and "\<forall>x\<in>set xs. x \<notin> set (gw_creating (lf_gateway l))"
  shows "close_candidates ls now stamp closes xs l \<noteq> None"
  using assms
proof (induction xs arbitrary: l)
  case (Cons x xs)
  obtain t g where x: "x = (t, g)" by (cases x)
  obtain l1 o1 where s: "close_candidate ls now stamp (closes g) t g l = Some (l1, o1)"
    using close_candidate_some [OF Cons.prems(1), of t g now stamp "closes g"] Cons.prems(2) by (auto simp: x)
  from calm_close_candidate [OF s] Cons.prems have "gateway_ok (ls_lifecycle ls) (lf_gateway l1)"
      "gw_creating (lf_gateway l1) = gw_creating (lf_gateway l)"
    by (auto simp: calm_def x)
  with Cons.IH [of l1] Cons.prems(2) s show ?case by (auto simp: x)
qed simp

lemma recover_rows_some:
  assumes "gateway_ok (ls_lifecycle ls) (lf_gateway l)" and "\<forall>(g, row)\<in>set xs. row_tenant l g = Some (sw_tenant row)"
  shows "recover_rows ls profiles starts backend show now nanos xs rep l \<noteq> None"
  using assms
proof (induction xs arbitrary: l rep)
  case (Cons x xs)
  obtain g row where x: "x = (g, row)" by (cases x)
  have rt: "row_tenant l g = Some (sw_tenant row)" using Cons.prems(2) by (simp add: x)
  then obtain db row0 where db: "lf_store l = Some db" "get_row g db = Some row0"
    by (auto simp: row_tenant_def bind_eq_Some_conv)
  have "recover_one ls profiles starts backend show now nanos x rep l \<noteq> None"
  proof (cases "sw_method row \<noteq> MethodNone \<and> lookup_session (sw_tenant row) g l = None")
    case True
    with recover_one_settles [OF Cons.prems(1) db, of row profiles starts backend "show" now nanos rep] show ?thesis by (auto simp: x)
  next
    case False
    then show ?thesis by (simp add: x recover_one_def Let_def)
  qed
  then obtain l1 r1 where s: "recover_one ls profiles starts backend show now nanos x rep l = Some (l1, r1)" by auto
  have c: "calm (ls_lifecycle ls) l l1" using calm_recover_one s rt unfolding x by blast
  then have "gateway_ok (ls_lifecycle ls) (lf_gateway l1)" "\<forall>(g, row)\<in>set xs. row_tenant l1 g = Some (sw_tenant row)"
    using Cons.prems by (auto simp: calm_def)
  from Cons.IH [OF this] s show ?case by (cases r1) simp_all
qed simp


section \<open>The quota of pinned sessions\<close>

lemma pinned_count_change:
  assumes "registry_ok (lf_registry l)" and "lookup_session t g l = Some e"
  shows "pinned_count t' (lf_registry (change_session t g f l)) + (if t' = t \<and> pinned e then 1 else 0)
    = pinned_count t' (lf_registry l) + (if t' = t \<and> pinned (f e) then 1 else 0)"
  using counted_replace [OF assms, of pinned "f e"] assms(2)
  by (cases "t' = t") (simp_all add: pinned_count_def change_session_def on_gateway_def)

text \<open>
  C18. The administered pin never takes a tenant over its quota, whatever the outcome, and a session that is
  pinned already can be pinned again.
\<close>

theorem pin_quota_is_kept:
  assumes "life_reachable ls w" and "max_pinned_sessions_per_tenant (ls_lifecycle ls) = Some limit"
    and "set_session_pinned_administered ls now nanos t g pin (wd_life w) = (l', r)"
    and "pinned_count t' (lf_registry (wd_life w)) \<le> limit"
  shows "pinned_count t' (lf_registry l') \<le> limit"
proof (cases "lf_registry l' = lf_registry (wd_life w)")
  case False
  let ?l = "wd_life w" and ?f = "\<lambda>e. e\<lparr>pinned := pin, last_activity_at := now\<rparr>"
  have reg: "registry_ok (lf_registry ?l)" by (rule gateway_okD(1) [OF world_okD(1) [OF life_reachable_ok [OF assms(1)]]])
  have pinning: "set_session_pinned now nanos t g pin ?l = (l', r)"
      and room: "pin \<Longrightarrow> (case lookup_session t g ?l of None \<Rightarrow> False | Some e \<Rightarrow> pinned e) \<or> pinned_count t (lf_registry ?l) < limit"
    using assms(2,3) False
    by (auto simp: set_session_pinned_administered_def Let_def split: bool.splits if_splits option.splits)
  obtain e where e: "lookup_session t g ?l = Some e"
    using pinning False by (auto simp: set_session_pinned_def write_through_def split: if_splits)
  have "lf_registry l' = lf_registry (change_session t g ?f ?l)"
    using pinning False e
    by (auto simp: set_session_pinned_def write_through_def change_session_def on_gateway_def split: option.splits prod.splits sum.splits)
  with pinned_count_change [OF reg e, of t' ?f] assms(4) room e show ?thesis
    by (cases pin; cases "t' = t"; cases "pinned e") auto
qed (use assms(4) in simp)

section \<open>Where the code breaks its comments\<close>

text \<open>
  The recovery writes its request to a process with a shared reader twice.
\<close>

theorem recovery_request_is_sent_twice:
  "fst (execute_open_session_recovery True reply job) = [rj_request job, rj_request job]"
  by (simp add: execute_open_session_recovery_def)

text \<open>
  A row that a crash left in the state of being restored, and that is too old for the recovery at start-up, stays there:
  no request brings the session back, no reload ends the state, and no later recovery takes it.
\<close>

theorem restoring_row_is_stuck:
  assumes "lf_store l = Some db" and "get_row g db = Some row" and "sw_status row = StatusRestoring" and "sw_tenant row = t"
    and "lookup_session t g l = None" and "startup_recovery_max_age (ls_lifecycle ls) = Some age"
    and "recovery_cutoff nanos (Some age) = Some cutoff" and "last_known_nanos row < cutoff" and "distinct (map fst (db_rows db))"
  shows "(\<exists>e. resolve_or_revive ls profiles now nanos' t meth g l = Some (l, Inl e))
    \<and> mark_successful_recovery_retry g meth l = (l, Inr ())
    \<and> g \<notin> fst ` set (list_recoverable_sessions nanos (startup_recovery_max_age (ls_lifecycle ls)) db)"
proof -
  have "\<not> is_recoverable (recovery_cutoff nanos (Some age)) row"
    using assms(8) by (simp add: is_recoverable_def assms(7))
  then have "(g, row') \<notin> set (list_recoverable_sessions nanos (Some age) db)" for row'
    using recoverable_row(1) [OF _ assms(9), of g row' nanos "Some age"] assms(2) by (auto simp: list_recoverable_sessions_def)
  then show ?thesis
    using assms(1-6) by (auto simp: resolve_or_revive_def revive_session_def row_to_revive_def mark_successful_recovery_retry_def)
qed

text \<open>
  A time in the future, after the wall clock was set back, counts as the greatest age, so that the session is reaped
  at once; a missing time restarts at now.
\<close>

theorem future_time_is_the_oldest:
  assumes "nanos < n" and "0 < nanos" and "n < 2 ^ 63" and "2 ^ 64 - 1 \<le> now" and "sw_activity_nanos row = Some n"
    and "\<not> sw_pinned row" and "sw_idle_ttl_seconds row = None" and "idle_session_ttl lc \<le> 2 ^ 64 - 1"
  shows "is_expired now lc (row_entry now nanos key row)"
proof -
  have "sat_i64 (nanos - n) = nanos - n" using assms(1-3) by (simp add: sat_i64_def)
  then have "restore_lifecycle_instant now nanos (Some n) = now - (2 ^ 64 - 1)"
    using assms(1,2,4) by (simp add: restore_lifecycle_instant_def Let_def)
  then show ?thesis
    using assms(4-8) by (simp add: is_expired_def row_entry_def saturating_since_def Let_def)
qed

text \<open>
  A session that was closed is brought back by an ordinary prompt, not only by a reload; its row stays closed, so that
  the recovery at the next start does not see it.
\<close>

theorem closed_session_revives_but_stays_closed:
  assumes "lf_store l = Some db" and "get_row g db = Some row" and "sw_status row = StatusClosed" and "sw_tenant row = t"
    and "ls_on_demand ls" and "lookup_session t g l = None" and "sw_profile row = None"
    and "admit_session (ls_lifecycle ls) t (lf_gateway l) = Inr gw" and "gateway_ok (ls_lifecycle ls) (lf_gateway l)"
    and "distinct (map fst (db_rows db))"
  shows "\<exists>l' entry. resolve_or_revive ls profiles now nanos t ''session/prompt'' g l = Some (l', Inr entry)
    \<and> lookup_session t g l' = Some entry \<and> lf_store l' = Some db
    \<and> g \<notin> fst ` set (list_recoverable_sessions nanos' age db)"
proof -
  let ?e = "row_entry now nanos (sw_agent row) row"
  have "g \<notin> fst ` set (list_recoverable_sessions nanos' age db)"
    using recoverable_row [OF _ assms(10), of g _ nanos' age] assms(2,3) by fastforce
  moreover obtain g' where "rehydrate_session (ls_lifecycle ls) t g ?e (lf_gateway l) = Some (Inr g')"
      "gw_registry g' = reg_insert t g ?e (lf_registry l)"
    using gateway_ok_rehydrate [OF assms(9,6) row_entry_ok assms(8)] by blast
  moreover have "row_to_revive ls t ''session/prompt'' g l = Inr row"
    using assms(1-5) by (simp add: row_to_revive_def classify_def proxied_methods_def)
  ultimately show ?thesis
    using assms(1,6,7) by (simp add: resolve_or_revive_def revive_session_def resolve_key_def cancel_unreferenced_shutdown_def Let_def)
qed

text \<open>
  A pinned session that was closed and is brought back is pinned again without a look at the quota.
\<close>

theorem revived_pin_ignores_quota:
  assumes "revive_session ls profiles now nanos t meth g l = Some (l', Inr entry)" and "lookup_session t g l = None"
    and "gateway_ok (ls_lifecycle ls) (lf_gateway l)" and "row_to_revive ls t meth g l = Inr row" and "sw_pinned row"
  shows "pinned_count t (lf_registry l') = pinned_count t (lf_registry l) + 1"
proof -
  obtain key gw where r: "rehydrate_session (ls_lifecycle ls) t g (row_entry now nanos key row) (lf_gateway l) = Some (Inr gw)"
      "lf_registry l' = gw_registry gw"
    using assms(1,4)
    by (auto simp: revive_session_def Let_def cancel_unreferenced_shutdown_def split: sum.splits option.splits)
  then have "gw_registry gw = reg_insert t g (row_entry now nanos key row) (lf_registry l)"
    by (auto simp: rehydrate_session_def commit_permit_def dest: permits_of_admit split: sum.splits)
  with counted_insert [OF gateway_okD(1) [OF assms(3)] assms(2), of pinned "row_entry now nanos key row"] assms(5) r(2)
  show ?thesis by (simp add: pinned_count_def row_entry_def)
qed

lemma contains_middle: "contains (a @ sub @ b) sub"
proof (induction a)
  case Nil
  show ?case by (subst contains.simps) simp
next
  case (Cons c a)
  then show ?case by (subst contains.simps) simp
qed

text \<open>
  Supervisor keys are joined without quoting.  Two tenants can meet in one process although each is to have its
  own, and the process of a profile with \<open>:session:\<close> in its name is stopped when one of its sessions closes.
\<close>

theorem supervisor_keys_collide:
  "ls_tenant_isolation ls \<Longrightarrow> profile_supervisor_key ls ''a'' ''b:tenant:c'' = profile_supervisor_key ls ''a:tenant:b'' ''c''"
  "is_session_scoped_supervisor_key (profile_supervisor_key ls (''a:session:'' @ name) t)"
proof -
  show "ls_tenant_isolation ls \<Longrightarrow> profile_supervisor_key ls ''a'' ''b:tenant:c'' = profile_supervisor_key ls ''a:tenant:b'' ''c''"
    by (simp add: profile_supervisor_key_def)
  have "profile_supervisor_key ls (''a:session:'' @ name) t
      = ''profile:a'' @ '':session:'' @ name @ (if ls_tenant_isolation ls then '':tenant:'' @ t else [])"
    by (simp add: profile_supervisor_key_def)
  then show "is_session_scoped_supervisor_key (profile_supervisor_key ls (''a:session:'' @ name) t)"
    unfolding is_session_scoped_supervisor_key_def by (simp only: contains_middle)
qed

section \<open>Witnesses\<close>

definition sample_settings :: life_settings where
  "sample_settings = \<lparr>ls_lifecycle = default_lifecycle\<lparr>max_pinned_sessions_per_tenant := Some 1\<rparr>, ls_on_demand = True, ls_tenant_isolation = True\<rparr>"

definition sample_db :: session_db where
  "sample_db = \<lparr>db_rows = [(''g1'', fresh_row 7 ''codex'' ''b1'' None ''2025'' ''acme'' (recovery_default\<lparr>rm_method := MethodLoad\<rparr>) None)],
     db_revisions = []\<rparr>"

text \<open>The tenant \<open>acme\<close> has created a session, its row is written, and the server was started again.\<close>

lemma sample_world_reachable:
  "\<exists>w. life_reachable sample_settings w \<and> lf_store (wd_life w) = Some sample_db \<and> lf_gateway (wd_life w) = sample_gateway"
proof -
  let ?w0 = "\<lparr>wd_life = life_new (Some session_db_new), wd_spawned = [], wd_jobs = []\<rparr>"
  let ?a = "\<lparr>gw_registry = registry_new,
      gw_admission = \<lparr>live_total = 0, live_by_tenant = [], reserved_total = 1, reserved_by_tenant = [(''acme'', 1)]\<rparr>,
      gw_permits = [''acme''], gw_creating = []\<rparr>"
  let ?w1 = "set_gateway ?a ?w0"
  have "admit_session (ls_lifecycle sample_settings) ''acme'' (lf_gateway (wd_life ?w0)) = Inr ?a"
    by (simp add: admit_session_def life_new_def gateway_new_def reserve_def admission_new_def default_lifecycle_def sample_settings_def)
  from LifeMore [OF LifeStartStored LifeAdmit [OF this]] have r1: "life_reachable sample_settings ?w1" .
  have spare: "spare_permit ?w1 ''acme''" by (simp add: spare_permit_def creating_of_def jobs_of_def)
  have fresh: "fresh_id ?w1 ''g1''"
    by (simp add: fresh_id_def owned_def life_new_def registry_new_def reg_resolve_def row_tenant_def)
  let ?w2 = "set_gateway (create_register 5 ''acme'' ''g1'' ''codex'' ''b1'' None None (lf_gateway (wd_life ?w1))) ?w1\<lparr>wd_spawned := [(''acme'', ''g1'')]\<rparr>"
  have r2: "life_reachable sample_settings ?w2"
    using LifeMore [OF r1 LifeRegister [OF spare fresh, of sample_settings 5 "''codex''" "''b1''" None None]] by simp
  have gw: "lf_gateway (wd_life ?w2) = sample_gateway" by (simp add: create_register_def sample_gateway_def)
  have created: "(''acme'', ''g1'') \<in> set (gw_creating (lf_gateway (wd_life ?w2)))" by (simp add: create_register_def)
  have store: "lf_store (wd_life ?w2) = Some session_db_new" by (simp add: life_new_def)
  have "record_session 7 ''g1'' ''codex'' ''b1'' None ''2025'' ''acme'' (recovery_default\<lparr>rm_method := MethodLoad\<rparr>) None session_db_new = (sample_db, Inr ())"
    by (simp add: record_session_def Let_def sample_db_def session_db_new_def get_row_def)
  from LifeMore [OF r2 LifeRecord [OF created store this]] gw show ?thesis
    by (intro exI [of _ "set_db sample_db ?w2"]) simp
qed

theorem session_has_one_owner_witness: "\<exists>w. owned ''acme'' ''g1'' w \<and> \<not> owned ''other'' ''g1'' w"
proof -
  obtain w where w: "life_reachable sample_settings w" "lf_store (wd_life w) = Some sample_db" using sample_world_reachable by blast
  then have "owned ''acme'' ''g1'' w" by (simp add: owned_def row_tenant_def sample_db_def get_row_def)
  with session_has_one_owner [OF w(1) this, of "''other''"] show ?thesis by auto
qed




theorem pin_quota_is_kept_witness:
  "\<exists>(w :: world) l'. set_session_pinned_administered sample_settings 9 9 ''acme'' ''g1'' True (wd_life w) = (l', Inr ()) \<and> pinned_count ''acme'' (lf_registry l') \<le> 1"
proof -
  obtain w where w: "life_reachable sample_settings w" "lf_store (wd_life w) = Some sample_db" "lf_gateway (wd_life w) = sample_gateway"
    using sample_world_reachable by blast
  have entry: "lookup_session ''acme'' ''g1'' (wd_life w) = Some (new_entry 5 ''codex'' ''b1'' None None)"
    by (simp add: w(3) sample_gateway_def register_with_id_def)
  have none: "pinned_count ''acme'' (lf_registry (wd_life w)) = 0"
    by (simp add: w(3) sample_gateway_def register_with_id_def pinned_count_def new_entry_def registry_new_def)
  have "snd (set_session_pinned_administered sample_settings 9 9 ''acme'' ''g1'' True (wd_life w)) = Inr ()"
    using none by (simp add: set_session_pinned_administered_def set_session_pinned_def write_through_def entry w(2) sample_settings_def
        update_session_pinned_def sample_db_def update_row_def get_row_def new_entry_def)
  then obtain l' where l': "set_session_pinned_administered sample_settings 9 9 ''acme'' ''g1'' True (wd_life w) = (l', Inr ())"
    by (metis prod.collapse)
  moreover have "max_pinned_sessions_per_tenant (ls_lifecycle sample_settings) = Some 1" by (simp add: sample_settings_def)
  ultimately have "pinned_count ''acme'' (lf_registry l') \<le> 1" using pin_quota_is_kept [OF w(1) _ l', of 1 "''acme''"] none by simp
  with l' show ?thesis by blast
qed

end
