(* ===== verification/ConfigFacts.thy ===== *)
theory ConfigFacts
  imports ConfigStore JsonCodec
begin

text \<open>
  Runs of the durable configuration: requests that change profiles and MCP servers, rotations of the master key
  and restarts, with statements that fail anywhere.  What a request was told to be saved is what a restart reads
  back, secrets included.
\<close>

section \<open>What is on disk\<close>

text \<open>\<open>sec\<close> are the secrets that the process knows; each row decrypts to one of them.\<close>

definition disk_ok :: "crypto \<Rightarrow> keyring \<Rightarrow> (string \<Rightarrow> string option) \<Rightarrow> config_disk \<Rightarrow> bool" where
  "disk_ok K kr sec d \<longleftrightarrow>
     keyring_ok kr \<and> cd_keyfile d = Some (cr_ser K (keyring_json kr)) \<and>
     distinct (map fst (cd_secrets d)) \<and> distinct (map fst (cd_profiles d)) \<and> distinct (map fst (cd_mcp d)) \<and>
     (\<forall>k cipher nonce v. map_of (cd_secrets d) k = Some (cipher, nonce, v) \<longrightarrow>
        (\<exists>s. keyring_decrypt (cr_dec K) kr v nonce cipher = Inr s \<and> sec k = Some s)) \<and>
     (\<forall>n j. map_of (cd_profiles d) n = Some j \<longrightarrow> (\<exists>p. j = profile_json p \<and> pf_name p = n)) \<and>
     (\<forall>n j. map_of (cd_mcp d) n = Some j \<longrightarrow> mcp_name j = Some n)"

lemma disk_okD:
  assumes "disk_ok K kr sec d"
  shows "keyring_ok kr" and "cd_keyfile d = Some (cr_ser K (keyring_json kr))"
    and "distinct (map fst (cd_secrets d))" and "distinct (map fst (cd_profiles d))" and "distinct (map fst (cd_mcp d))"
    and "map_of (cd_secrets d) k = Some (cipher, nonce, v) \<Longrightarrow> \<exists>s. keyring_decrypt (cr_dec K) kr v nonce cipher = Inr s \<and> sec k = Some s"
    and "map_of (cd_profiles d) n = Some j \<Longrightarrow> \<exists>p. j = profile_json p \<and> pf_name p = n"
    and "map_of (cd_mcp d) n = Some j \<Longrightarrow> mcp_name j = Some n"
  using assms unfolding disk_ok_def by blast+

lemma disk_ok_secrets:
  assumes "disk_ok K kr sec d" and "\<And>k row. map_of (cd_secrets d) k = Some row \<Longrightarrow> sec' k = sec k"
  shows "disk_ok K kr sec' d"
  using assms(1) assms(2) unfolding disk_ok_def by fastforce

definition config_ok :: "crypto \<Rightarrow> config \<Rightarrow> bool" where
  "config_ok K c \<longleftrightarrow> distinct (map fst (cf_keys c)) \<and> (\<exists>d kr. cf_disk c = Some d \<and> cf_keyring c = Some kr \<and> disk_ok K kr (map_of (cf_keys c)) d)"

section \<open>Reading it back\<close>

lemma load_secrets_ok:
  assumes "distinct (map fst rows)"
    and "\<And>k cipher nonce v. map_of rows k = Some (cipher, nonce, v) \<Longrightarrow> \<exists>s. keyring_decrypt (cr_dec K) kr v nonce cipher = Inr s \<and> sec k = Some s"
  shows "\<exists>ks'. load_secrets K kr rows ks = Inr ks' \<and> (\<forall>k. map_of ks' k = (if map_of rows k = None then map_of ks k else sec k))"
  using assms
proof (induction rows arbitrary: ks)
  case (Cons row rows)
  obtain k cipher nonce v where row: "row = (k, cipher, nonce, v)" by (cases row) auto
  obtain s where s: "keyring_decrypt (cr_dec K) kr v nonce cipher = Inr s" "sec k = Some s"
    using Cons.prems(2) [of k cipher nonce v] row by auto
  have new: "map_of rows k = None" using Cons.prems(1) row by (simp add: map_of_eq_None_iff)
  have "\<exists>s. keyring_decrypt (cr_dec K) kr v' nonce' cipher' = Inr s \<and> sec k' = Some s"
    if "map_of rows k' = Some (cipher', nonce', v')" for k' cipher' nonce' v'
    using Cons.prems(2) [of k' cipher' nonce' v'] that new row by (cases "k' = k") auto
  from Cons.IH [OF _ this, of "AList.update k s ks"] Cons.prems(1) row
  obtain ks' where "load_secrets K kr rows (AList.update k s ks) = Inr ks'"
      "\<forall>k'. map_of ks' k' = (if map_of rows k' = None then map_of (AList.update k s ks) k' else sec k')" by auto
  with s new row show ?case by (auto simp: update_conv')
qed simp

lemma load_secrets_distinct: "load_secrets K kr rows ks = Inr ks' \<Longrightarrow> distinct (map fst ks) \<Longrightarrow> distinct (map fst ks')"
  by (induction K kr rows ks rule: load_secrets.induct) (auto simp: distinct_update split: sum.splits)

lemma load_profiles_ok:
  assumes "distinct (map fst rows)" and "\<And>n j. map_of rows n = Some j \<Longrightarrow> \<exists>p. j = profile_json p \<and> pf_name p = n"
    and "\<And>n j. map_of rows n = Some j \<Longrightarrow> map_of s n = None"
  shows "\<exists>s'. load_profiles (map snd rows) s = Inr s' \<and>
    (\<forall>n. map_of s' n = (case map_of rows n of Some j \<Rightarrow> profile_of_json j | None \<Rightarrow> map_of s n))"
  using assms
proof (induction rows arbitrary: s)
  case (Cons row rows)
  obtain n j where row: "row = (n, j)" by (cases row)
  obtain p where p: "j = profile_json p" "pf_name p = n" using Cons.prems(2) [of n j] row by auto
  have new: "map_of rows n = None" using Cons.prems(1) row by (simp add: map_of_eq_None_iff)
  have "map_of s n = None" using Cons.prems(3) [of n j] row by simp
  then obtain s1 where s1: "profile_create p s = Inr s1" "\<And>m. map_of s1 m = (if m = n then Some p else map_of s m)"
    using profile_store.create_fresh [of p n s] p(2) by auto
  have "\<exists>s'. load_profiles (map snd rows) s1 = Inr s' \<and>
      (\<forall>n. map_of s' n = (case map_of rows n of Some j \<Rightarrow> profile_of_json j | None \<Rightarrow> map_of s1 n))"
  proof (rule Cons.IH)
    fix m i assume m: "map_of rows m = Some i"
    with new have "m \<noteq> n" by auto
    with m row show "\<exists>p. i = profile_json p \<and> pf_name p = m" and "map_of s1 m = None"
      using Cons.prems(2) [of m i] Cons.prems(3) [of m i] s1(2) by auto
  qed (use Cons.prems(1) in simp)
  then obtain s' where s': "load_profiles (map snd rows) s1 = Inr s'"
      "\<And>m. map_of s' m = (case map_of rows m of Some j \<Rightarrow> profile_of_json j | None \<Rightarrow> map_of s1 m)" by blast
  have "map_of s' m = (case map_of (row # rows) m of Some j \<Rightarrow> profile_of_json j | None \<Rightarrow> map_of s m)" for m
    using s'(2) [of m] s1(2) [of m] new row p by (cases "m = n") (simp_all split: option.split)
  with s' s1 row p show ?case by simp
qed simp

lemma load_mcp_ok:
  assumes "distinct (map fst rows)" and "\<And>n j. map_of rows n = Some j \<Longrightarrow> mcp_name j = Some n"
    and "\<And>n j. map_of rows n = Some j \<Longrightarrow> map_of s n = None"
  shows "\<exists>s'. load_mcp (map snd rows) s = Inr s' \<and> (\<forall>n. map_of s' n = (case map_of rows n of Some j \<Rightarrow> Some j | None \<Rightarrow> map_of s n))"
  using assms
proof (induction rows arbitrary: s)
  case (Cons row rows)
  obtain n j where row: "row = (n, j)" by (cases row)
  have new: "map_of rows n = None" using Cons.prems(1) row by (simp add: map_of_eq_None_iff)
  have "map_of s n = None" "mcp_name j = Some n" using Cons.prems(2,3) [of n j] row by simp_all
  then obtain s1 where s1: "mcp_create j s = Inr s1" "\<And>m. map_of s1 m = (if m = n then Some j else map_of s m)"
    using mcp_store.create_fresh [of j n s] by auto
  have "\<exists>s'. load_mcp (map snd rows) s1 = Inr s' \<and> (\<forall>n. map_of s' n = (case map_of rows n of Some j \<Rightarrow> Some j | None \<Rightarrow> map_of s1 n))"
  proof (rule Cons.IH)
    fix m i assume m: "map_of rows m = Some i"
    with new have "m \<noteq> n" by auto
    with m row show "mcp_name i = Some m" and "map_of s1 m = None"
      using Cons.prems(2) [of m i] Cons.prems(3) [of m i] s1(2) by auto
  qed (use Cons.prems(1) in simp)
  then obtain s' where s': "load_mcp (map snd rows) s1 = Inr s'"
      "\<And>m. map_of s' m = (case map_of rows m of Some j \<Rightarrow> Some j | None \<Rightarrow> map_of s1 m)" by blast
  have "map_of s' m = (case map_of (row # rows) m of Some j \<Rightarrow> Some j | None \<Rightarrow> map_of s m)" for m
    using s'(2) [of m] s1(2) [of m] new row by (cases "m = n") (simp_all split: option.split)
  with s' s1 row show ?case by simp
qed simp

text \<open>A new process: the server stops (\<open>None\<close>) when the configuration cannot be loaded.\<close>

definition restart_config :: "crypto \<Rightarrow> string \<Rightarrow> save_outcome \<Rightarrow> config \<Rightarrow> config option" where
  "restart_config K key outcome c =
     (case enable_durable_config K key outcome (config_new (cf_disk c)) of (c', Inr u) \<Rightarrow> Some c' | (c', Inl e) \<Rightarrow> None)"

lemma restart_reads_back:
  assumes "crypto_sound K" and "cf_disk c = Some d" and "disk_ok K kr sec d"
  shows "\<exists>c'. restart_config K key outcome c = Some c' \<and> config_ok K c' \<and> cf_disk c' = Some d \<and>
    (\<forall>n. map_of (cf_profiles c') n = (case map_of (cd_profiles d) n of Some j \<Rightarrow> profile_of_json j | None \<Rightarrow> None)) \<and>
    (\<forall>n. map_of (cf_mcp c') n = map_of (cd_mcp d) n) \<and>
    (\<forall>k. map_of (cf_keys c') k = (if map_of (cd_secrets d) k = None then None else sec k))"
proof -
  have kr: "load_or_create K key outcome d = (d, Some kr)"
    using assms(1) disk_okD(1,2) [OF assms(3)] keyring_roundtrip [of kr]
    by (simp add: load_or_create_def keyring_load_def crypto_sound_def)
  have "\<exists>ks. load_secrets K kr (cd_secrets d) [] = Inr ks \<and>
      (\<forall>k. map_of ks k = (if map_of (cd_secrets d) k = None then map_of [] k else sec k))"
    by (rule load_secrets_ok [OF disk_okD(3) [OF assms(3)]]) (rule disk_okD(6) [OF assms(3)])
  then obtain ks where ks: "load_secrets K kr (cd_secrets d) [] = Inr ks"
      "\<And>k. map_of ks k = (if map_of (cd_secrets d) k = None then None else sec k)" by auto
  have same: "(case x of Some j \<Rightarrow> Some j | None \<Rightarrow> map_of [] n) = x" for x :: "json option" and n :: string by (cases x) simp_all
  have "\<exists>ms. load_mcp (map snd (cd_mcp d)) [] = Inr ms \<and>
      (\<forall>n. map_of ms n = (case map_of (cd_mcp d) n of Some j \<Rightarrow> Some j | None \<Rightarrow> map_of [] n))"
    by (rule load_mcp_ok [OF disk_okD(5) [OF assms(3)]]) (use disk_okD(8) [OF assms(3)] in simp_all)
  then obtain ms where ms: "load_mcp (map snd (cd_mcp d)) [] = Inr ms" "\<And>n. map_of ms n = map_of (cd_mcp d) n"
    by (auto simp: same)
  have "\<exists>ps. load_profiles (map snd (cd_profiles d)) [] = Inr ps \<and>
      (\<forall>n. map_of ps n = (case map_of (cd_profiles d) n of Some j \<Rightarrow> profile_of_json j | None \<Rightarrow> map_of [] n))"
    by (rule load_profiles_ok [OF disk_okD(4) [OF assms(3)]]) (use disk_okD(7) [OF assms(3)] in simp_all)
  then obtain ps where ps: "load_profiles (map snd (cd_profiles d)) [] = Inr ps"
      "\<And>n. map_of ps n = (case map_of (cd_profiles d) n of Some j \<Rightarrow> profile_of_json j | None \<Rightarrow> None)"
    by (auto cong: option.case_cong)
  have ok: "disk_ok K kr (map_of ks) d" by (rule disk_ok_secrets [OF assms(3)]) (simp add: ks(2))
  show ?thesis
    using ok ks load_secrets_distinct [OF ks(1)] ms ps by (simp add: restart_config_def enable_durable_config_def config_new_def assms(2) kr Let_def config_ok_def)
qed

section \<open>Runs\<close>

datatype config_op =
    SaveProfile bool string string bool bool json
  | DeleteProfile string bool
  | SaveMcp bool bool json
  | DeleteMcp string bool
  | SeedProfiles "string list"
  | RotateKey string save_outcome "(string \<times> bool) list"
  | RestartConfig string

text \<open>The server rotates at start-up only, and stops when a rotation fails; the next process loads what it left.\<close>

fun config_apply :: "crypto \<Rightarrow> config_op \<Rightarrow> config \<Rightarrow> config option" where
  "config_apply K (SaveProfile create fresh nonce secret_ok row_ok params) c =
     map_option fst (save_profile K create fresh nonce secret_ok row_ok params c)"
| "config_apply K (DeleteProfile name ok) c = Some (fst (delete_profile name ok c))"
| "config_apply K (SaveMcp create ok entry) c = Some (fst (save_mcp create ok entry c))"
| "config_apply K (DeleteMcp name ok) c = Some (fst (delete_mcp name ok c))"
| "config_apply K (SeedProfiles agents) c = Some (ensure_default_profiles_seeded agents c)"
| "config_apply K (RotateKey key outcome writes) c =
     (case rotate_master_key K key outcome writes c of
        None \<Rightarrow> None
      | Some (c', Inr v) \<Rightarrow> Some c'
      | Some (c', Inl e) \<Rightarrow> restart_config K key Saved c')"
| "config_apply K (RestartConfig key) c = restart_config K key Saved c"

text \<open>
  Fresh references are not in use; keys have 32 bytes; the version stays below its width; and the file of the keyring
  is written whole or not at all, which \<open>fs::write\<close> does not promise (see \<open>torn_keyring_stops_the_server\<close>).
\<close>

fun op_ok :: "config_op \<Rightarrow> config \<Rightarrow> bool" where
  "op_ok (SaveProfile create fresh nonce secret_ok row_ok params) c \<longleftrightarrow>
     map_of (cf_keys c) fresh = None \<and> (case cf_disk c of None \<Rightarrow> True | Some d \<Rightarrow> map_of (cd_secrets d) fresh = None)"
| "op_ok (RotateKey key outcome writes) c \<longleftrightarrow>
     length key = 32 \<and> (outcome = SaveFails \<or> outcome = Saved) \<and> (\<exists>kr. cf_keyring c = Some kr \<and> kr_current kr + 1 < 2 ^ 32)"
| "op_ok op c \<longleftrightarrow> True"

fun config_run :: "crypto \<Rightarrow> config_op list \<Rightarrow> config \<Rightarrow> config option" where
  "config_run K [] c = Some c"
| "config_run K (op # ops) c = (if op_ok op c then Option.bind (config_apply K op c) (config_run K ops) else None)"

section \<open>Every operation keeps the disk in order\<close>

lemma config_okE:
  assumes "config_ok K c"
  obtains d kr where "cf_disk c = Some d" "cf_keyring c = Some kr" "disk_ok K kr (map_of (cf_keys c)) d"
  using assms by (auto simp: config_ok_def)

lemma config_ok_keys: "config_ok K c \<Longrightarrow> distinct (map fst (cf_keys c))"
  by (simp add: config_ok_def)

lemma sealed_secret:
  assumes "crypto_sound K" and "keyring_ok kr"
  shows "\<exists>cipher. keyring_encrypt (cr_enc K) kr nonce secret = Some (kr_current kr, nonce, cipher)
    \<and> keyring_decrypt (cr_dec K) kr (kr_current kr) nonce cipher = Inr secret"
proof -
  obtain key where "map_of (kr_keys kr) (kr_current kr) = Some key" using assms(2) unfolding keyring_ok_def by blast
  then show ?thesis using assms(1) by (simp add: keyring_encrypt_def keyring_decrypt_def crypto_sound_def)
qed

lemma disk_ok_put_secret:
  assumes "disk_ok K kr sec d" and "keyring_decrypt (cr_dec K) kr v nonce cipher = Inr s" and "sec key = Some s"
  shows "disk_ok K kr sec (put_secret key (v, nonce, cipher) d)"
  using assms unfolding disk_ok_def put_secret_def by (auto simp: distinct_update update_conv')

text \<open>What a stored profile relies on: its row, the row of its secret, and the secret in memory.\<close>

definition stored :: "profile \<Rightarrow> string \<Rightarrow> string \<Rightarrow> config \<Rightarrow> bool" where
  "stored p k s c \<longleftrightarrow>
     (\<exists>d. cf_disk c = Some d \<and> map_of (cd_profiles d) (pf_name p) = Some (profile_json p) \<and>
       map_of (cd_secrets d) k \<noteq> None \<and> map_of (cf_keys c) k = Some s)"

text \<open>A change that keeps the disk in order and all stored profiles but those of one name.\<close>

definition keeps :: "crypto \<Rightarrow> string option \<Rightarrow> config \<Rightarrow> config \<Rightarrow> bool" where
  "keeps K name c c' \<longleftrightarrow> config_ok K c' \<and> (\<forall>p k s. stored p k s c \<longrightarrow> name \<noteq> Some (pf_name p) \<longrightarrow> stored p k s c')"

lemma keeps_trans: "keeps K name c c' \<Longrightarrow> keeps K name c' c'' \<Longrightarrow> keeps K name c c''"
  unfolding keeps_def by blast

lemma keeps_refl: "config_ok K c \<Longrightarrow> keeps K name c c"
  by (simp add: keeps_def)

lemma persist_secret_keeps:
  assumes "crypto_sound K" and "config_ok K c" and "map_of (cf_keys c) key = Some secret"
  shows "\<exists>c' r. persist_secret K nonce ok key secret c = Some (c', r) \<and> keeps K name c c'
    \<and> cf_keys c' = cf_keys c \<and> cf_profiles c' = cf_profiles c \<and> cf_keyring c' = cf_keyring c
    \<and> (r = Inr () \<longrightarrow> (\<exists>d. cf_disk c' = Some d \<and> map_of (cd_secrets d) key \<noteq> None))"
proof -
  obtain d kr where c: "cf_disk c = Some d" "cf_keyring c = Some kr" "disk_ok K kr (map_of (cf_keys c)) d"
    using config_okE [OF assms(2)] by blast
  obtain cipher where e: "keyring_encrypt (cr_enc K) kr nonce secret = Some (kr_current kr, nonce, cipher)"
      "keyring_decrypt (cr_dec K) kr (kr_current kr) nonce cipher = Inr secret"
    using sealed_secret [OF assms(1) disk_okD(1) [OF c(3)]] by blast
  let ?d = "put_secret key (kr_current kr, nonce, cipher) d"
  have "disk_ok K kr (map_of (cf_keys c)) ?d" by (rule disk_ok_put_secret [OF c(3) e(2) assms(3)])
  then have "keeps K name c (c\<lparr>cf_disk := Some ?d\<rparr>)"
    using c config_ok_keys [OF assms(2)] by (auto simp: keeps_def config_ok_def stored_def put_secret_def update_conv')
  moreover have "map_of (cd_secrets ?d) key \<noteq> None" by (simp add: put_secret_def update_conv')
  ultimately show ?thesis using keeps_refl [OF assms(2)] c e by (cases ok) (simp_all add: persist_secret_def on_disk_def)
qed

lemma reseal_keeps:
  assumes "crypto_sound K" and "config_ok K c" and "\<And>k s. (k, s) \<in> set xs \<Longrightarrow> map_of (cf_keys c) k = Some s"
  shows "\<exists>c' r. reseal K writes xs c = Some (c', r) \<and> keeps K name c c' \<and> cf_keys c' = cf_keys c \<and> cf_profiles c' = cf_profiles c"
  using assms(2,3)
proof (induction xs arbitrary: c writes)
  case (Cons x xs)
  show ?case
  proof (cases writes)
    case (Cons w ws)
    obtain k s nonce ok where x: "x = (k, s)" "w = (nonce, ok)" by (cases x, cases w)
    obtain c1 r1 where c1: "persist_secret K nonce ok k s c = Some (c1, r1)" "keeps K name c c1" "cf_keys c1 = cf_keys c" "cf_profiles c1 = cf_profiles c"
      using persist_secret_keeps [OF assms(1) Cons.prems(1), of k s nonce ok name] Cons.prems(2) [of k s] x(1) by auto
    show ?thesis
    proof (cases r1)
      case (Inl e)
      then show ?thesis using c1 x Cons by simp
    next
      case (Inr u)
      have "config_ok K c1" using c1(2) by (simp add: keeps_def)
      with Cons.IH [of c1 ws] Cons.prems(2) c1(3)
      obtain c' r where "reseal K ws xs c1 = Some (c', r)" "keeps K name c1 c'" "cf_keys c' = cf_keys c1" "cf_profiles c' = cf_profiles c1" by auto
      with c1 x Cons Inr keeps_trans [OF c1(2)] show ?thesis by auto
    qed
  qed (use keeps_refl [OF Cons.prems(1)] in simp)
qed (use keeps_refl in simp)

lemma put_profile_keeps:
  assumes "config_ok K c"
  shows "keeps K (Some (pf_name p)) c
    (fst (on_disk ok (\<lambda>d. d\<lparr>cd_profiles := AList.update (pf_name p) (profile_json p) (cd_profiles d)\<rparr>) (c\<lparr>cf_profiles := ps\<rparr>)))"
proof -
  obtain d kr where c: "cf_disk c = Some d" "cf_keyring c = Some kr" "disk_ok K kr (map_of (cf_keys c)) d"
    using config_okE [OF assms] by blast
  let ?d = "d\<lparr>cd_profiles := AList.update (pf_name p) (profile_json p) (cd_profiles d)\<rparr>"
  have "disk_ok K kr (map_of (cf_keys c)) ?d"
    using c(3) unfolding disk_ok_def by (auto simp: distinct_update update_conv')
  then show ?thesis using c config_ok_keys [OF assms] by (auto simp: keeps_def config_ok_def stored_def on_disk_def update_conv')
qed

lemma keep_secret_keeps:
  assumes "crypto_sound K" and "config_ok K c" and "op_ok (SaveProfile create fresh nonce ok row_ok params) c"
  shows "\<exists>c' r. keep_secret K fresh nonce ok params p c = Some (c', r) \<and> keeps K name c c' \<and> cf_profiles c' = cf_profiles c
    \<and> (\<forall>q. r = Inr q \<longrightarrow> pf_name q = pf_name p)
    \<and> (\<forall>q s. r = Inr q \<longrightarrow> Option.bind (json_get ''secret'' params) as_str = Some s \<longrightarrow>
         q = p\<lparr>pf_key_ref := Some fresh\<rparr> \<and> map_of (cf_keys c') fresh = Some s \<and>
         (\<exists>d. cf_disk c' = Some d \<and> map_of (cd_secrets d) fresh \<noteq> None))"
proof (cases "Option.bind (json_get ''secret'' params) as_str")
  case None
  then show ?thesis using keeps_refl [OF assms(2)] by (simp add: keep_secret_def)
next
  case (Some s)
  let ?c = "c\<lparr>cf_keys := keystore_store fresh s (cf_keys c)\<rparr>"
  obtain d kr where c: "cf_disk c = Some d" "cf_keyring c = Some kr" "disk_ok K kr (map_of (cf_keys c)) d"
    using config_okE [OF assms(2)] by blast
  have new: "map_of (cd_secrets d) fresh = None" using assms(3) c(1) by simp
  have "disk_ok K kr (map_of (cf_keys ?c)) d"
    by (rule disk_ok_secrets [OF c(3)]) (use new in \<open>auto simp: keystore_store_def update_conv'\<close>)
  then have k1: "keeps K name c ?c"
    using c new config_ok_keys [OF assms(2)]
    by (auto simp: keeps_def config_ok_def stored_def keystore_store_def update_conv' distinct_update)
  have "config_ok K ?c" "map_of (cf_keys ?c) fresh = Some s" using k1 by (simp_all add: keeps_def keystore_store_def update_conv')
  from persist_secret_keeps [OF assms(1) this, of nonce ok name]
  obtain c' r where c': "persist_secret K nonce ok fresh s ?c = Some (c', r)" "keeps K name ?c c'" "cf_keys c' = cf_keys ?c"
      "cf_profiles c' = cf_profiles ?c" "r = Inr () \<longrightarrow> (\<exists>d. cf_disk c' = Some d \<and> map_of (cd_secrets d) fresh \<noteq> None)" by auto
  have "keep_secret K fresh nonce ok params p c = Some (c', map_sum id (\<lambda>_. p\<lparr>pf_key_ref := Some fresh\<rparr>) r)"
    by (simp add: keep_secret_def Some c'(1))
  then show ?thesis using Some c' keeps_trans [OF k1 c'(2)] by (cases r) (auto simp: keystore_store_def update_conv')
qed

lemma save_profile_keeps:
  assumes "crypto_sound K" and "config_ok K c" and "op_ok (SaveProfile create fresh nonce secret_ok row_ok params) c"
  shows "\<exists>c' r. save_profile K create fresh nonce secret_ok row_ok params c = Some (c', r)
    \<and> keeps K (map_option pf_name (profile_of_json params)) c c'
    \<and> (\<forall>p s reply. r = Inr reply \<longrightarrow> profile_of_json params = Some p \<longrightarrow> Option.bind (json_get ''secret'' params) as_str = Some s \<longrightarrow>
         stored (p\<lparr>pf_key_ref := Some fresh\<rparr>) fresh s c')"
proof (cases "profile_of_json params")
  case None
  then show ?thesis using keeps_refl [OF assms(2)] by (simp add: save_profile_def)
next
  case (Some p)
  let ?name = "Some (pf_name p)"
  from keep_secret_keeps [OF assms(1,2,3), of p ?name]
  obtain c1 r1 where k: "keep_secret K fresh nonce secret_ok params p c = Some (c1, r1)" "keeps K ?name c c1"
      "\<forall>q. r1 = Inr q \<longrightarrow> pf_name q = pf_name p"
      "\<forall>q s. r1 = Inr q \<longrightarrow> Option.bind (json_get ''secret'' params) as_str = Some s \<longrightarrow>
         q = p\<lparr>pf_key_ref := Some fresh\<rparr> \<and> map_of (cf_keys c1) fresh = Some s \<and> (\<exists>d. cf_disk c1 = Some d \<and> map_of (cd_secrets d) fresh \<noteq> None)"
    by (elim exE conjE) (rule that)
  show ?thesis
  proof (cases r1)
    case (Inl e)
    then show ?thesis using Some k(1,2) by (simp add: save_profile_def)
  next
    case (Inr q)
    let ?saved = "(if create then profile_create else profile_update) q (cf_profiles c1)"
    show ?thesis
    proof (cases ?saved)
      case (Inl e)
      then show ?thesis using Some k(1,2) \<open>r1 = Inr q\<close> by (simp add: save_profile_def)
    next
      case (Inr ps)
      let ?r = "on_disk row_ok (\<lambda>d. d\<lparr>cd_profiles := AList.update (pf_name q) (profile_json q) (cd_profiles d)\<rparr>) (c1\<lparr>cf_profiles := ps\<rparr>)"
      have name: "pf_name q = pf_name p" using k(3) \<open>r1 = Inr q\<close> by blast
      have ok1: "config_ok K c1" using k(2) by (simp add: keeps_def)
      have kept: "keeps K ?name c (fst ?r)"
        by (rule keeps_trans [OF k(2)]) (use put_profile_keeps [OF ok1, of q row_ok ps] name in \<open>simp only: \<close>)
      have "stored (p\<lparr>pf_key_ref := Some fresh\<rparr>) fresh s (fst ?r)"
        if "snd ?r = Inr ()" "Option.bind (json_get ''secret'' params) as_str = Some s" for s
      proof -
        have "q = p\<lparr>pf_key_ref := Some fresh\<rparr>" "map_of (cf_keys c1) fresh = Some s" "\<exists>d. cf_disk c1 = Some d \<and> map_of (cd_secrets d) fresh \<noteq> None"
          using k(4) \<open>r1 = Inr q\<close> that(2) by blast+
        then show ?thesis using that(1) by (cases row_ok) (auto simp: stored_def on_disk_def update_conv')
      qed
      moreover obtain c2 r2 where r: "?r = (c2, r2)" by (cases ?r)
      moreover have "save_profile K create fresh nonce secret_ok row_ok params c
          = Some (c2, case r2 of Inl e \<Rightarrow> Inl e | Inr u \<Rightarrow> Inr (redact_launch_overrides (profile_json q)))"
        using r by (simp add: save_profile_def Some k(1) \<open>r1 = Inr q\<close> Inr split: sum.split)
      ultimately show ?thesis
        using kept Some by (cases r2) simp_all
    qed
  qed
qed

lemma restart_keeps:
  assumes "crypto_sound K" and "cf_disk c = Some d" and "disk_ok K kr (map_of (cf_keys c)) d"
  shows "\<exists>c'. restart_config K key outcome c = Some c' \<and> keeps K name c c'"
proof -
  obtain c' where c': "restart_config K key outcome c = Some c'" "config_ok K c'" "cf_disk c' = Some d"
      "\<forall>k. map_of (cf_keys c') k = (if map_of (cd_secrets d) k = None then None else map_of (cf_keys c) k)"
    using restart_reads_back [OF assms, of key outcome] by blast
  then have "keeps K name c c'" using assms(2) by (auto simp: keeps_def stored_def)
  with c'(1) show ?thesis by blast
qed

lemma rotated_disk_ok:
  assumes "disk_ok K kr sec d" and "length key = 32" and "keyring_rotate key kr = Some kr'"
  shows "disk_ok K kr' sec (d\<lparr>cd_keyfile := Some (cr_ser K (keyring_json kr'))\<rparr>)"
proof -
  note r = keyring_ok_rotate [OF disk_okD(1) [OF assms(1)] assms(2,3)]
  have "\<exists>s. keyring_decrypt (cr_dec K) kr' v nonce cipher = Inr s \<and> sec k = Some s"
    if row: "map_of (cd_secrets d) k = Some (cipher, nonce, v)" for k cipher nonce v
  proof -
    obtain s where s: "keyring_decrypt (cr_dec K) kr v nonce cipher = Inr s" "sec k = Some s"
      using disk_okD(6) [OF assms(1) row] by blast
    then obtain old where "map_of (kr_keys kr) v = Some old" by (auto simp: keyring_decrypt_def split: option.splits)
    then have "(v, old) \<in> set (kr_keys kr)" by (rule map_of_SomeD)
    then have "v \<noteq> kr_current kr'" using disk_okD(1) [OF assms(1)] r(3) by (auto simp: keyring_ok_def)
    with r(2) s show ?thesis by (simp add: keyring_decrypt_def)
  qed
  with assms(1) r(1) show ?thesis unfolding disk_ok_def by simp
qed

lemma rotate_keeps:
  assumes "crypto_sound K" and "config_ok K c" and "op_ok (RotateKey key outcome writes) c"
  shows "\<exists>c'. config_apply K (RotateKey key outcome writes) c = Some c' \<and> keeps K name c c'"
proof -
  obtain d kr where c: "cf_disk c = Some d" "cf_keyring c = Some kr" "disk_ok K kr (map_of (cf_keys c)) d"
    using config_okE [OF assms(2)] by blast
  obtain kr' where kr': "keyring_rotate key kr = Some kr'" using assms(3) c(2) by (auto simp: keyring_rotate_def)
  let ?c1 = "\<lambda>file. c\<lparr>cf_keyring := Some kr', cf_disk := Some (d\<lparr>cd_keyfile := file\<rparr>)\<rparr>"
  show ?thesis
  proof (cases "outcome = Saved")
    case False
    then have "outcome = SaveFails" using assms(3) by auto
    then have run: "rotate_master_key K key outcome writes c = Some (?c1 (cd_keyfile d), Inl KeyringIo)"
      by (simp add: rotate_master_key_def c kr' keyring_save_def)
    have "disk_ok K kr (map_of (cf_keys (?c1 (cd_keyfile d)))) d" using c(3) by simp
    from restart_keeps [OF assms(1) _ this, of key Saved name] obtain c' where "restart_config K key Saved (?c1 (cd_keyfile d)) = Some c'"
        "keeps K name (?c1 (cd_keyfile d)) c'" by auto
    then show ?thesis using run c(1) by (auto simp: keeps_def stored_def)
  next
    case True
    let ?c = "?c1 (Some (cr_ser K (keyring_json kr')))"
    have "config_ok K ?c"
      using rotated_disk_ok [OF c(3) _ kr'] assms(3) config_ok_keys [OF assms(2)] by (auto simp: config_ok_def)
    then have k1: "keeps K name c ?c" using c(1) by (auto simp: keeps_def stored_def)
    have ok: "config_ok K ?c" using k1 by (simp add: keeps_def)
    have "map_of (cf_keys ?c) k = Some s" if "(k, s) \<in> set (cf_keys c)" for k s
      using that config_ok_keys [OF assms(2)] by simp
    from reseal_keeps [OF assms(1) ok this, of "cf_keys c" writes name] obtain c' r where
      run: "reseal K writes (cf_keys c) ?c = Some (c', r)" "keeps K name ?c c'" by blast
    have k2: "keeps K name c c'" by (rule keeps_trans [OF k1 run(2)])
    have rot: "rotate_master_key K key outcome writes c = Some (c', map_sum id (\<lambda>_. kr_current kr') r)"
      using True run(1) by (simp add: rotate_master_key_def c kr' keyring_save_def)
    show ?thesis
    proof (cases r)
      case (Inl e)
      have "config_ok K c'" using k2 by (simp add: keeps_def)
      then obtain d' kr2 where "cf_disk c' = Some d'" "disk_ok K kr2 (map_of (cf_keys c')) d'" by (rule config_okE)
      from restart_keeps [OF assms(1) this, of key Saved name] obtain c3 where
        "restart_config K key Saved c' = Some c3" "keeps K name c' c3" by blast
      then show ?thesis using rot Inl keeps_trans [OF k2] by auto
    qed (use rot k2 in simp)
  qed
qed

text \<open>The profile that an operation names.\<close>

fun named_profile :: "config_op \<Rightarrow> string option" where
  "named_profile (SaveProfile create fresh nonce secret_ok row_ok params) = map_option pf_name (profile_of_json params)"
| "named_profile (DeleteProfile name ok) = Some name"
| "named_profile op = None"

lemma config_apply_keeps:
  assumes "crypto_sound K" and "config_ok K c" and "op_ok op c"
  shows "\<exists>c'. config_apply K op c = Some c' \<and> keeps K (named_profile op) c c'"
proof -
  obtain d kr where c: "cf_disk c = Some d" "cf_keyring c = Some kr" "disk_ok K kr (map_of (cf_keys c)) d"
    using config_okE [OF assms(2)] by blast
  show ?thesis
  proof (cases op)
    case (SaveProfile create fresh nonce secret_ok row_ok params)
    then show ?thesis using save_profile_keeps [OF assms(1,2)] assms(3) by fastforce
  next
    case (DeleteProfile name ok)
    have "disk_ok K kr (map_of (cf_keys c)) (d\<lparr>cd_profiles := AList.delete name (cd_profiles d)\<rparr>)"
      using c(3) unfolding disk_ok_def by (auto simp: distinct_delete delete_conv' split: if_splits)
    then have "keeps K (Some name) c (fst (delete_profile name ok c))"
      using c config_ok_keys [OF assms(2)] keeps_refl [OF assms(2)]
      by (auto simp: delete_profile_def on_disk_def keeps_def config_ok_def stored_def delete_conv' split: sum.split)
    then show ?thesis using DeleteProfile by simp
  next
    case (SaveMcp create ok entry)
    have "disk_ok K kr (map_of (cf_keys c)) (d\<lparr>cd_mcp := AList.update n entry (cd_mcp d)\<rparr>)" if "mcp_name entry = Some n" for n
      using c(3) that unfolding disk_ok_def by (auto simp: distinct_update update_conv')
    then have "keeps K None c (fst (save_mcp create ok entry c))"
      using c config_ok_keys [OF assms(2)] keeps_refl [OF assms(2)]
      by (auto simp: save_mcp_def on_disk_def keeps_def config_ok_def stored_def Let_def split: sum.split option.split)
    then show ?thesis using SaveMcp by simp
  next
    case (DeleteMcp name ok)
    have "disk_ok K kr (map_of (cf_keys c)) (d\<lparr>cd_mcp := AList.delete name (cd_mcp d)\<rparr>)"
      using c(3) unfolding disk_ok_def by (auto simp: distinct_delete delete_conv' split: if_splits)
    then have "keeps K None c (fst (delete_mcp name ok c))"
      using c config_ok_keys [OF assms(2)] keeps_refl [OF assms(2)]
      by (auto simp: delete_mcp_def on_disk_def keeps_def config_ok_def stored_def split: sum.split)
    then show ?thesis using DeleteMcp by simp
  next
    case (SeedProfiles agents)
    then show ?thesis using c config_ok_keys [OF assms(2)]
      by (auto simp: ensure_default_profiles_seeded_def keeps_def config_ok_def stored_def)
  next
    case (RotateKey key outcome writes)
    then show ?thesis using rotate_keeps [OF assms(1,2)] assms(3) by simp
  next
    case (RestartConfig key)
    then show ?thesis using restart_keeps [OF assms(1) c(1,3)] by simp
  qed
qed

lemma config_run_keeps:
  assumes "crypto_sound K" and "config_ok K c" and "config_run K ops c = Some c'" and "name \<notin> named_profile ` set ops" and "name \<noteq> None"
  shows "config_ok K c' \<and> (\<forall>p k s. stored p k s c \<longrightarrow> Some (pf_name p) = name \<longrightarrow> stored p k s c')"
  using assms(2-4)
proof (induction ops arbitrary: c)
  case (Cons op ops)
  then have ok: "op_ok op c" by (auto split: if_splits)
  obtain c1 where c1: "config_apply K op c = Some c1" "keeps K (named_profile op) c c1"
    using config_apply_keeps [OF assms(1) Cons.prems(1) ok] by blast
  have "config_ok K c1" using c1(2) by (simp add: keeps_def)
  moreover have "config_run K ops c1 = Some c'" using Cons.prems(2) ok c1(1) by simp
  ultimately have "config_ok K c' \<and> (\<forall>p k s. stored p k s c1 \<longrightarrow> Some (pf_name p) = name \<longrightarrow> stored p k s c')"
    using Cons.IH Cons.prems(3) by auto
  moreover have "name \<noteq> named_profile op" using Cons.prems(3) by auto
  then have "stored p k s c1" if "stored p k s c" "Some (pf_name p) = name" for p k s
    using c1(2) that by (auto simp: keeps_def)
  ultimately show ?case by blast
qed simp

section \<open>Guarantees\<close>

text \<open>The first process on an empty disk, and the configurations that runs from it reach.\<close>

definition config_start :: "crypto \<Rightarrow> string \<Rightarrow> config option" where
  "config_start K key = restart_config K key Saved (config_new (Some disk_new))"

definition config_reachable :: "crypto \<Rightarrow> config \<Rightarrow> bool" where
  "config_reachable K c \<longleftrightarrow> (\<exists>key c0 ops. length key = 32 \<and> config_start K key = Some c0 \<and> config_run K ops c0 = Some c)"

lemma config_start_ok:
  assumes "crypto_sound K" and "length key = 32"
  shows "\<exists>c. config_start K key = Some c \<and> config_ok K c"
proof -
  have "keyring_ok (keyring_generate key)" by (rule keyring_ok_generate [OF assms(2)])
  then show ?thesis
    by (simp add: config_start_def restart_config_def enable_durable_config_def load_or_create_def config_new_def disk_new_def
        keyring_save_def Let_def config_ok_def disk_ok_def)
qed

lemma config_reachable_ok:
  assumes "crypto_sound K" and "config_reachable K c"
  shows "config_ok K c"
proof -
  obtain key c0 ops where c0: "length key = 32" "config_start K key = Some c0" "config_run K ops c0 = Some c"
    using assms(2) unfolding config_reachable_def by blast
  then have ok: "config_ok K c0" using config_start_ok [OF assms(1) c0(1)] by auto
  have "config_run K ops c = Some c' \<Longrightarrow> config_ok K c \<Longrightarrow> config_ok K c'" for ops c c'
  proof (induction ops arbitrary: c)
    case (Cons op ops)
    then have "op_ok op c" by (auto split: if_splits)
    with config_apply_keeps [OF assms(1) Cons.prems(2) this] Cons show ?case by (auto simp: keeps_def)
  qed simp
  with c0(3) ok show ?thesis by blast
qed


text \<open>
  The process of an agent gets the key of its profile under the name that the provider's agents read, unless the
  profile overrides that variable itself.
\<close>

theorem launch_env_has_key:
  assumes "map_of (rev (pf_launch_overrides p)) (key_variable (pv_kind pv)) = None"
  shows "map_of (build_launch_env ser p (Some pv) (Some key)) (key_variable (pv_kind pv)) = Some key"
  using assms by (simp add: launch_env_value)

text \<open>
  No profile that a client lists shows the value of an override.
\<close>

theorem listing_hides_overrides:
  assumes "v \<in> set (list_profiles c)" and "json_get ''launch_overrides'' v = Some (JObject kvs)" and "(k, x) \<in> set kvs"
  shows "x = JString ''***redacted***''"
proof -
  obtain n p where v: "v = redact_launch_overrides (profile_json p)" using assms(1) by (auto simp: list_profiles_def)
  have "json_get ''launch_overrides'' (profile_json p) = Some (JObject (map (\<lambda>(k, v). (k, JString v)) (pf_launch_overrides p)))"
    by (simp add: profile_json_def profile_fields_def)
  then have "kvs = map (\<lambda>(k, x). (k, JString ''***redacted***'')) (map (\<lambda>(k, v). (k, JString v)) (pf_launch_overrides p))"
    using assms(2) unfolding v by (auto simp: redact_launch_overrides_def profile_json_def update_conv')
  with assms(3) show ?thesis by auto
qed

text \<open>
  A session gets one server for each name: the client's own entry, else the central entry that the profile
  names, when it is enabled.
\<close>

theorem session_servers:
  assumes "e \<in> set (merge_mcp_servers client (inject_oauth_headers tokens (list_named names servers)))"
  shows "(e \<in> set client \<or> (\<forall>x\<in>set client. mcp_name x \<noteq> mcp_name e) \<and>
      (\<exists>n entry. n \<in> set names \<and> map_of servers n = Some entry \<and> mcp_entry_is_enabled entry \<and> e = inject_oauth_header tokens entry))
    \<and> (\<forall>e'\<in>set (merge_mcp_servers client (inject_oauth_headers tokens (list_named names servers))). mcp_name e' = mcp_name e \<longrightarrow> e' = e)"
proof
  let ?central = "filter mcp_entry_is_enabled (inject_oauth_headers tokens (list_named names servers))"
  obtain n where n: "mcp_name e = Some n"
      "last_named client n = Some e \<or> last_named client n = None \<and> last_named ?central n = Some e"
    using assms unfolding merged_entry by blast
  show "e \<in> set client \<or> (\<forall>x\<in>set client. mcp_name x \<noteq> mcp_name e) \<and>
      (\<exists>n entry. n \<in> set names \<and> map_of servers n = Some entry \<and> mcp_entry_is_enabled entry \<and> e = inject_oauth_header tokens entry)"
  proof (cases "last_named client n")
    case None
    then have "e \<in> set ?central" using n(2) last_named_some by force
    then have "\<exists>n entry. n \<in> set names \<and> map_of servers n = Some entry \<and> mcp_entry_is_enabled entry \<and> e = inject_oauth_header tokens entry"
      by (auto simp: inject_oauth_headers_def list_named_def map_filter_def)
    with None n(1) show ?thesis by (auto simp: last_named_none)
  qed (use n(2) last_named_some in force)
  show "\<forall>e'\<in>set (merge_mcp_servers client (inject_oauth_headers tokens (list_named names servers))). mcp_name e' = mcp_name e \<longrightarrow> e' = e"
    using n by (auto simp: merged_entry)
qed

section \<open>Where the code breaks its comments\<close>

text \<open>
  The keyring file is not written atomically.  A crash during the write leaves a file that no process reads, and with
  it every secret is lost; the server does not start any more.
\<close>

theorem torn_keyring_stops_the_server:
  assumes "cf_disk c = Some d" and "cf_keyring c = Some kr" and "keyring_rotate key kr = Some kr'" and "cr_de K torn = None"
  shows "\<exists>c'. rotate_master_key K key (SaveStops torn) writes c = Some (c', Inl KeyringIo) \<and> restart_config K key' outcome c' = None"
  using assms
  by (simp add: rotate_master_key_def keyring_save_def restart_config_def enable_durable_config_def config_new_def load_or_create_def keyring_load_def)

text \<open>
  No operation removes a secret: neither the one of a deleted profile, nor the one that a request replaces, nor the one
  of a request that is refused because the name is taken.
\<close>

theorem refused_profile_leaves_its_secret:
  assumes "profile_of_json params = Some p" and "Option.bind (json_get ''secret'' params) as_str = Some secret"
    and "map_of (cf_profiles c) (pf_name p) \<noteq> None" and "cf_disk c = Some d" and "cf_keyring c = Some kr" and "keyring_ok kr"
  shows "\<exists>c'. save_profile K True fresh nonce True row_ok params c = Some (c', Inl (ProfileError (AlreadyExists (pf_name p))))
    \<and> map_of (cf_keys c') fresh = Some secret \<and> (\<exists>d'. cf_disk c' = Some d' \<and> map_of (cd_secrets d') fresh \<noteq> None)"
proof -
  obtain k where "map_of (kr_keys kr) (kr_current kr) = Some k" using assms(6) unfolding keyring_ok_def by blast
  then have s: "keyring_encrypt (cr_enc K) kr nonce secret = Some (kr_current kr, nonce, cr_enc K k nonce secret)"
    by (simp add: keyring_encrypt_def)
  have "profile_create (p\<lparr>pf_key_ref := Some fresh\<rparr>) (cf_profiles c) = Inl (AlreadyExists (pf_name p))"
    using profile_store.create_taken [of "p\<lparr>pf_key_ref := Some fresh\<rparr>" "pf_name p" "cf_profiles c"] assms(3) by simp
  with s show ?thesis
    using assms(4,5) by (simp add: save_profile_def assms(1,2) keep_secret_def persist_secret_def on_disk_def put_secret_def keystore_store_def update_conv')
qed

text \<open>
  A profile that has the name of an installed agent and is deleted comes back, with access to files and terminals.
\<close>

theorem deleted_profile_is_reseeded:
  assumes "delete_profile name ok c = (c', Inr stops)" and "name \<in> set agents"
  shows "map_of (cf_profiles c) name \<noteq> None
    \<and> map_of (cf_profiles (ensure_default_profiles_seeded agents c')) name = Some (seeded_profile name)
    \<and> pf_allow_fs_access (seeded_profile name) \<and> pf_allow_terminal_access (seeded_profile name)"
proof -
  have gone: "map_of (cf_profiles c) name \<noteq> None" "map_of (cf_profiles c') name = None"
    using assms(1) by (auto simp: delete_profile_def on_disk_def profile_delete_def store_delete_def delete_conv' split: sum.splits option.splits if_splits)
  have seed: "map_of (seed_profile a s) n = (if n = a \<and> map_of s a = None then Some (seeded_profile a) else map_of s n)" for a s n
    by (auto simp: seed_profile_def profile_create_def store_create_def seeded_profile_def update_conv' split: sum.split)
  have kept: "map_of (fold seed_profile xs s) n = Some p" if "map_of s n = Some p" for xs s n p
    using that
  proof (induction xs arbitrary: s)
    case (Cons a xs)
    then have "map_of (seed_profile a s) n = Some p" by (auto simp: seed)
    with Cons.IH show ?case by simp
  qed simp
  have "map_of (fold seed_profile agents s) name = Some (seeded_profile name)" if "map_of s name = None" for s
    using assms(2) that
  proof (induction agents arbitrary: s)
    case (Cons a xs)
    show ?case
    proof (cases "a = name")
      case True
      then show ?thesis using Cons.prems seed [of a s name] by (simp add: kept)
    qed (use Cons seed [of a s name] in simp)
  qed simp
  with gone show ?thesis by (simp add: ensure_default_profiles_seeded_def seeded_profile_def)
qed

section \<open>Witnesses\<close>

definition sample_crypto :: crypto where
  "sample_crypto = \<lparr>cr_enc = (\<lambda>key nonce plain. rev plain), cr_dec = (\<lambda>key nonce cipher. Some (rev cipher)), cr_ser = ser_json, cr_de = de_json\<rparr>"

definition sample_key :: string where
  "sample_key = replicate 32 (CHR ''k'')"

definition sample_config :: config where
  "sample_config = (config_new (Some (disk_new\<lparr>cd_keyfile := Some (ser_json (keyring_json (keyring_generate sample_key)))\<rparr>)))
     \<lparr>cf_keyring := Some (keyring_generate sample_key)\<rparr>"

definition sample_params :: json where
  "sample_params = JObject [(''name'', JString ''claude''), (''agent_id'', JString ''claude-acp''), (''secret'', JString ''sk-1'')]"

lemma sample_crypto_sound: "crypto_sound sample_crypto"
  using json_codec.dec_enc by (simp add: crypto_sound_def sample_crypto_def)

lemma sample_config_reachable: "config_reachable sample_crypto sample_config"
proof -
  have "config_start sample_crypto sample_key = Some sample_config"
    by (simp add: config_start_def restart_config_def enable_durable_config_def load_or_create_def config_new_def disk_new_def
        keyring_save_def Let_def sample_config_def sample_crypto_def)
  moreover have "config_run sample_crypto [] sample_config = Some sample_config" by simp
  ultimately show ?thesis unfolding config_reachable_def by (metis length_replicate sample_key_def)
qed

lemma sample_profile: "profile_of_json sample_params = Some (profile_default\<lparr>pf_name := ''claude'', pf_agent_id := ''claude-acp''\<rparr>)"
  by (simp add: sample_params_def profile_of_members_def read_field_def profile_default_def Let_def)


theorem launch_env_has_key_witness:
  "map_of (build_launch_env ser_json (profile_default\<lparr>pf_launch_overrides := [(''PATH'', ''/bin'')]\<rparr>)
      (Some \<lparr>pv_name = ''a'', pv_kind = Anthropic, pv_base_url = None\<rparr>) (Some ''sk'')) ''ANTHROPIC_API_KEY'' = Some ''sk''"
proof -
  have "map_of (rev (pf_launch_overrides (profile_default\<lparr>pf_launch_overrides := [(''PATH'', ''/bin'')]\<rparr>)))
      (key_variable (pv_kind \<lparr>pv_name = ''a'', pv_kind = Anthropic, pv_base_url = None\<rparr>)) = None"
    by (simp add: key_variable_def)
  from launch_env_has_key [OF this, of ser_json "''sk''"] show ?thesis by (simp add: key_variable_def)
qed

theorem session_servers_witness:
  "\<forall>e\<in>set (merge_mcp_servers [JObject [(''name'', JString ''fs''), (''command'', JString ''mine'')]]
      (inject_oauth_headers [] (list_named [''fs''] [(''fs'', JObject [(''name'', JString ''fs'')])]))).
    mcp_name e = Some ''fs'' \<longrightarrow> json_get ''command'' e = Some (JString ''mine'')"
proof -
  let ?c = "JObject [(''name'', JString ''fs''), (''command'', JString ''mine'')]"
  let ?m = "merge_mcp_servers [?c] (inject_oauth_headers [] (list_named [''fs''] [(''fs'', JObject [(''name'', JString ''fs'')])]))"
  have "?c \<in> set ?m" by (simp add: merged_entry mcp_name_def str_field_def)
  from session_servers [OF this, THEN conjunct2] show ?thesis by (fastforce simp: mcp_name_def str_field_def)
qed

theorem torn_keyring_stops_the_server_witness:
  "\<exists>c'. rotate_master_key sample_crypto sample_key (SaveStops []) [] sample_config = Some (c', Inl KeyringIo)
    \<and> restart_config sample_crypto sample_key Saved c' = None"
proof -
  have "cf_disk sample_config = Some (disk_new\<lparr>cd_keyfile := Some (ser_json (keyring_json (keyring_generate sample_key)))\<rparr>)"
      "cf_keyring sample_config = Some (keyring_generate sample_key)"
    by (simp_all add: sample_config_def config_new_def)
  moreover have "keyring_rotate sample_key (keyring_generate sample_key) \<noteq> None" by (simp add: keyring_rotate_def keyring_generate_def)
  moreover have "cr_de sample_crypto [] = None" by (simp add: sample_crypto_def de_json_def dec_fields_def json_of_tokens_def)
  ultimately show ?thesis using torn_keyring_stops_the_server by blast
qed

end
