(* ===== verification/Creation.thy ===== *)
theory Creation
  imports SessionLife "HOL-Library.Char_ord" "HOL-Library.List_Lexorder"
begin

text \<open>
  Requests for a new session that carry the client's own key, from \<open>acpx-core/src/router.rs\<close>
  (\<open>canonical_json\<close> to \<open>deduplicated_session_new_response\<close>).  A repeated request is answered with the
  session of the first one, and a key that is used again for another request is refused.
\<close>

section \<open>Canonical values\<close>

text \<open>\<open>canonical_json\<close>: the members of each object in the order of their names, as a \<open>BTreeMap\<close> has them.\<close>

fun canonical_json :: "json \<Rightarrow> json" where
  "canonical_json (JObject kvs) = JObject (sort_key fst (map (\<lambda>(k, v). (k, canonical_json v)) kvs))"
| "canonical_json (JArray vs) = JArray (map canonical_json vs)"
| "canonical_json v = v"

text \<open>Names are unique in a \<open>serde_json\<close> object.\<close>

fun json_wf :: "json \<Rightarrow> bool" where
  "json_wf (JObject kvs) \<longleftrightarrow> distinct (map fst kvs) \<and> (\<forall>(k, v)\<in>set kvs. json_wf v)"
| "json_wf (JArray vs) \<longleftrightarrow> (\<forall>v\<in>set vs. json_wf v)"
| "json_wf v \<longleftrightarrow> True"

text \<open>Two values that differ only in the order of members.\<close>

inductive json_alike :: "json \<Rightarrow> json \<Rightarrow> bool" where
  AlikeScalar: "(\<And>vs. v \<noteq> JArray vs) \<Longrightarrow> (\<And>kvs. v \<noteq> JObject kvs) \<Longrightarrow> json_alike v v"
| AlikeArray: "length vs = length ws \<Longrightarrow> (\<forall>i<length vs. json_alike (vs ! i) (ws ! i)) \<Longrightarrow> json_alike (JArray vs) (JArray ws)"
| AlikeObject: "(\<forall>k. map_of kvs k = None \<longrightarrow> map_of kvs' k = None) \<Longrightarrow>
    (\<forall>k v. map_of kvs k = Some v \<longrightarrow> (\<exists>w. map_of kvs' k = Some w \<and> json_alike v w)) \<Longrightarrow>
    json_alike (JObject kvs) (JObject kvs')"

lemma map_of_canonical: "map_of (map (\<lambda>(k, v). (k, canonical_json v)) kvs) k = map_option canonical_json (map_of kvs k)"
  by (induction kvs) auto

lemma keys_canonical: "map fst (map (\<lambda>(k, v). (k, canonical_json v)) kvs) = map fst kvs"
  by (induction kvs) auto

lemma sort_key_set_eq:
  assumes "distinct (map fst xs)" and "distinct (map fst ys)"
  shows "sort_key fst xs = sort_key fst ys \<longleftrightarrow> set xs = set (ys :: (string \<times> json) list)"
proof
  assume eq: "set xs = set ys"
  have d: "distinct (map fst (sort_key fst zs))" if "distinct (map fst zs)" for zs :: "(string \<times> json) list"
    using that by (simp add: distinct_map)
  have "inj_on fst (set (sort_key fst xs) \<union> set (sort_key fst ys))"
    using assms(1) eq by (simp add: distinct_map)
  from map_sorted_distinct_set_unique [OF this] d [OF assms(1)] d [OF assms(2)] eq
  show "sort_key fst xs = sort_key fst ys" by simp
qed (metis set_sort)

lemma set_eq_iff_map_of:
  assumes "distinct (map fst xs)" and "distinct (map fst ys)"
  shows "set xs = set ys \<longleftrightarrow> map_of xs = map_of ys"
  using assms by (metis map_of_inject_set)

lemma canonical_objects_eq:
  assumes "distinct (map fst kvs)" and "distinct (map fst kvs')"
  shows "canonical_json (JObject kvs) = canonical_json (JObject kvs')
    \<longleftrightarrow> (\<forall>k. map_option canonical_json (map_of kvs k) = map_option canonical_json (map_of kvs' k))"
proof -
  let ?f = "map (\<lambda>(k, v). (k, canonical_json v))"
  have d: "distinct (map fst (?f kvs))" "distinct (map fst (?f kvs'))" using assms by (simp_all only: keys_canonical)
  show ?thesis
    using sort_key_set_eq [OF d] set_eq_iff_map_of [OF d] by (simp add: fun_eq_iff map_of_canonical)
qed

lemma alike_canonical: "json_alike v w \<Longrightarrow> json_wf v \<Longrightarrow> json_wf w \<Longrightarrow> canonical_json v = canonical_json w"
proof (induction rule: json_alike.induct)
  case (AlikeArray vs ws)
  then show ?case by (auto intro!: nth_equalityI)
next
  case (AlikeObject kvs kvs')
  have "map_option canonical_json (map_of kvs k) = map_option canonical_json (map_of kvs' k)" for k
  proof (cases "map_of kvs k")
    case (Some v)
    then obtain w where w: "map_of kvs' k = Some w" "json_wf v \<longrightarrow> json_wf w \<longrightarrow> canonical_json v = canonical_json w"
      using AlikeObject.IH by blast
    then show ?thesis using AlikeObject.prems Some by (auto dest: map_of_SomeD)
  qed (use AlikeObject.hyps in simp)
  then show ?case using AlikeObject.prems canonical_objects_eq by simp
qed simp

lemma canonical_alike: "json_wf v \<Longrightarrow> json_wf w \<Longrightarrow> canonical_json v = canonical_json w \<Longrightarrow> json_alike v w"
proof (induction v arbitrary: w)
  case (JArray vs)
  from JArray.prems(3) obtain ws where w: "w = JArray ws" by (cases w; simp)
  have "map canonical_json vs = map canonical_json ws" using JArray.prems(3) w by simp
  then have l: "length vs = length ws" and e: "i < length vs \<Longrightarrow> canonical_json (vs ! i) = canonical_json (ws ! i)" for i
    by (metis length_map, metis length_map nth_map)
  show ?case unfolding w by (rule AlikeArray [OF l]) (use JArray e w l in auto)
next
  case (JObject kvs)
  from JObject.prems(3) obtain kvs' where w: "w = JObject kvs'" by (cases w; simp)
  have eq: "map_option canonical_json (map_of kvs k) = map_option canonical_json (map_of kvs' k)" for k
    using JObject.prems canonical_objects_eq [of kvs kvs'] by (simp add: w)
  show ?case unfolding w
  proof (rule AlikeObject; intro allI impI)
    fix k assume "map_of kvs k = None" with eq [of k] show "map_of kvs' k = None" by simp
  next
    fix k v assume v: "map_of kvs k = Some v"
    with eq [of k] obtain x where x: "map_of kvs' k = Some x" "canonical_json v = canonical_json x"
      by (cases "map_of kvs' k") auto
    have "json_alike v x"
      using JObject.IH [of "(k, v)" v x] v x JObject.prems(1,2) w by (auto dest!: map_of_SomeD simp: snds.simps)
    with x(1) show "\<exists>w. map_of kvs' k = Some w \<and> json_alike v w" by blast
  qed
qed (auto intro: AlikeScalar elim!: canonical_json.elims [OF sym])

section \<open>The key of a request\<close>

definition client_creation_meta_namespace :: string where
  "client_creation_meta_namespace = ''com.example.client''"

definition workspace_of :: "(string \<times> json) list \<Rightarrow> life_error + string option" where
  "workspace_of client =
     (case map_of client ''workspaceId'' of
        None \<Rightarrow> Inr None
      | Some JNull \<Rightarrow> Inr None
      | Some (JString s) \<Rightarrow> (if s \<noteq> [] \<and> length s \<le> 256 then Inr (Some s)
                             else Inl (InvalidCreationMetadata ''workspaceId must be a non-empty string of at most 256 bytes''))
      | Some _ \<Rightarrow> Inl (InvalidCreationMetadata ''workspaceId must be a non-empty string of at most 256 bytes''))"

text \<open>
  \<open>session_creation_metadata\<close>; \<open>is_uuid\<close> is what the \<open>uuid\<close> crate parses and \<open>ser\<close> the serializer.
\<close>

definition session_creation_metadata ::
  "(string \<Rightarrow> bool) \<Rightarrow> (json \<Rightarrow> string) \<Rightarrow> json \<Rightarrow> life_error + creation_metadata option"
where
  "session_creation_metadata is_uuid ser request =
     (case Option.bind (pointer [''params'', ''_meta'', client_creation_meta_namespace] request) as_object of
        None \<Rightarrow> Inr None
      | Some client \<Rightarrow>
          (case Option.bind (map_of client ''creationRequestId'') as_str of
             None \<Rightarrow> Inl (InvalidCreationMetadata ''creationRequestId must be a UUID string'')
           | Some rid \<Rightarrow>
               if \<not> is_uuid rid then Inl (InvalidCreationMetadata ''creationRequestId must be a valid UUID'')
               else (case workspace_of client of
                       Inl e \<Rightarrow> Inl e
                     | Inr workspace \<Rightarrow>
                         (case json_get ''params'' request of
                            None \<Rightarrow> Inl MissingParams
                          | Some params \<Rightarrow>
                              Inr (Some \<lparr>cm_request_id = rid, cm_workspace_id = workspace,
                                         cm_params_json = ser (canonical_json params)\<rparr>)))))"

text \<open>\<open>strip_client_creation_metadata\<close>: what goes on to the backend.\<close>

definition strip_client_creation_metadata :: "json \<Rightarrow> json" where
  "strip_client_creation_metadata request =
     (case (request, json_get ''params'' request) of
        (JObject kvs, Some (JObject params)) \<Rightarrow>
          (case map_of params ''_meta'' of
             Some (JObject meta) \<Rightarrow>
               (let meta' = AList.delete client_creation_meta_namespace meta;
                    params' = (if meta' = [] then AList.delete ''_meta'' params
                               else AList.update ''_meta'' (JObject meta') params)
                in JObject (AList.update ''params'' (JObject params') kvs))
           | _ \<Rightarrow> request)
      | _ \<Rightarrow> request)"

definition client_meta :: "string \<Rightarrow> string option \<Rightarrow> json" where
  "client_meta rid workspace =
     JObject [(client_creation_meta_namespace,
       JObject ((''creationRequestId'', JString rid) # (case workspace of None \<Rightarrow> [] | Some s \<Rightarrow> [(''workspaceId'', JString s)])))]"

definition creation_meta_json :: "session_row \<Rightarrow> json option" where
  "creation_meta_json row = map_option (\<lambda>rid. client_meta rid (sw_creation_workspace row)) (sw_creation_id row)"

text \<open>
  \<open>merge_creation_meta\<close>: assignment through \<open>IndexMut\<close> panics (\<open>None\<close>) on a target that is no object.
\<close>

definition merge_creation_meta :: "json \<Rightarrow> json \<Rightarrow> json option" where
  "merge_creation_meta target meta =
     (let prepared = (case Option.bind (json_get ''_meta'' target) as_object of
                        Some members \<Rightarrow> Some target
                      | None \<Rightarrow> set_path [''_meta''] (JObject []) target)
      in Option.bind prepared
           (\<lambda>v. case (Option.bind (json_get ''_meta'' v) as_object, as_object meta) of
                  (Some members, Some additions) \<Rightarrow>
                    set_path [''_meta''] (JObject (fold (\<lambda>(k, x). AList.update k x) additions members)) v
                | _ \<Rightarrow> Some v))"

section \<open>The answer to a repeated request\<close>

definition deduplicated_session_new_response ::
  "session_db option \<Rightarrow> tenant_id \<Rightarrow> creation_metadata option \<Rightarrow> json \<Rightarrow> (life_error + json option) option"
where
  "deduplicated_session_new_response store t metadata i =
     (case (store, metadata) of
        (Some db, Some m) \<Rightarrow>
          (case find_by_creation_request t (cm_request_id m) db of
             None \<Rightarrow> Some (Inr None)
           | Some (g, row) \<Rightarrow>
               if sw_creation_params row \<noteq> Some (cm_params_json m) \<or> sw_creation_workspace row \<noteq> cm_workspace_id m
               then Some (Inl (SessionCreationConflict (cm_request_id m) ''the key was already used with different parameters''))
               else if sw_creation_used row
               then Some (Inl (SessionCreationConflict (cm_request_id m) ''the original session has already received a turn''))
               else if sw_closed_at row \<noteq> None \<or> sw_status row = StatusClosed
               then Some (Inl (SessionCreationConflict (cm_request_id m) ''the original session is closed''))
               else (let result = JObject [(''sessionId'', JString g)]
                     in map_option (\<lambda>result. Inr (Some (JObject [(''jsonrpc'', JString ''2.0''), (''id'', i), (''result'', result)])))
                          (case creation_meta_json row of None \<Rightarrow> Some result | Some meta \<Rightarrow> merge_creation_meta result meta)))
      | _ \<Rightarrow> Some (Inr None))"

text \<open>The key of \<open>creation_request_locks\<close>.\<close>

definition creation_key :: "tenant_id \<Rightarrow> string \<Rightarrow> string" where
  "creation_key t rid = t @ [CHR 0x00] @ rid"

lemma creation_key_inj:
  assumes "CHR 0x00 \<notin> set rid" and "CHR 0x00 \<notin> set rid'" and "creation_key t rid = creation_key t' rid'"
  shows "t = t' \<and> rid = rid'"
proof -
  have "takeWhile (\<lambda>c. c \<noteq> CHR 0x00) (rev (creation_key t rid)) = rev rid" if "CHR 0x00 \<notin> set rid" for t rid
    using that by (auto simp: creation_key_def takeWhile_append2 takeWhile_tail)
  with assms have "rid = rid'" by (metis rev_is_rev_conv)
  with assms(3) show ?thesis by (simp add: creation_key_def)
qed

end
