(* ===== verification/CallProps.thy ===== *)
theory CallProps
  imports LifeProps
begin

text \<open>
  What calls on sessions guarantee in every run: a request goes to the session that its tenant has under the id,
  with the policy of that session, and whatever the agent answers the session is settled afterwards.  Then where the
  code breaks its comments.
\<close>

section \<open>Where a request goes\<close>

lemma resolve_finds:
  assumes "resolve_or_revive ls profiles now nanos t meth g l = Some (l', Inr e)"
  shows "lookup_session t g l' = Some e"
proof (cases "lookup_session t g l")
  case None
  then obtain gw where "l' = cancel_unreferenced_shutdown (agent_id e) (l\<lparr>lf_gateway := gw\<rparr>)"
      "rehydrate_session (ls_lifecycle ls) t g e (lf_gateway l) = Some (Inr gw)"
    using assms by (auto simp: resolve_or_revive_def revive_session_def row_entry_def Let_def split: sum.splits option.splits)
  then show ?thesis
    by (auto simp: rehydrate_session_def cancel_unreferenced_shutdown_def dest: permits_of_commit split: sum.splits)
qed (use assms in \<open>simp add: resolve_or_revive_def\<close>)

lemma session_id_object:
  assumes "str_at [''params'', ''sessionId''] request = Some g"
  obtains kvs ps where "request = JObject kvs" and "map_of kvs ''params'' = Some (JObject ps)" and "Option.bind (map_of ps ''sessionId'') as_str = Some g"
proof -
  obtain v where v: "json_get ''params'' request = Some v" "Option.bind (json_get ''sessionId'' v) as_str = Some g"
    using assms by (cases "json_get ''params'' request") (auto simp: str_at_def)
  then obtain x where x: "json_get ''sessionId'' v = Some x" by (cases "json_get ''sessionId'' v") auto
  from json_get_object [OF v(1)] json_get_object [OF x] v(2) that show thesis by auto
qed

lemma background_keeps_session [simp]: "str_at [''params'', ''sessionId''] (fst (take_background_override request)) = str_at [''params'', ''sessionId''] request"
  by (auto simp: take_background_override_def str_at_def Let_def update_conv' delete_conv' bind_eq_Some_conv split: json.splits option.splits)

lemma suppress_request:
  "maybe_suppress_close ls profiles now nanos t request l = Some (l', Inr (request', reply)) \<Longrightarrow> request' = fst (take_background_override request)"
  by (auto simp: maybe_suppress_close_def Let_def split: prod.splits option.splits sum.splits if_splits)

lemma merged_params_object:
  assumes "merge_mcp_into_session_establish_params ce c meth profile (JObject kvs) = Inr v"
  shows "\<exists>kvs'. v = JObject kvs'"
  using assms
  by (auto simp: merge_mcp_into_session_establish_params_def set_member_def split: if_splits sum.splits option.splits)

lemma native_session:
  assumes "native_request ce c meth e request = Inr native" and "str_at [''params'', ''sessionId''] request = Some g"
  shows "str_at [''params'', ''sessionId''] native = Some (backend_session_id e)"
proof -
  obtain kvs ps where r: "request = JObject kvs" "map_of kvs ''params'' = Some (JObject ps)"
    by (rule session_id_object [OF assms(2)])
  obtain v where m: "merge_mcp_into_session_establish_params ce c meth (profile_name e) (JObject ps) = Inr v"
      "native = set_member ''params'' (set_member ''sessionId'' (JString (backend_session_id e)) v) request"
    using assms(1) r
    by (cases "merge_mcp_into_session_establish_params ce c meth (profile_name e) (JObject ps)") (auto simp: native_request_def)
  from merged_params_object [OF m(1)] obtain ps' where "v = JObject ps'" by blast
  then show ?thesis by (simp add: m(2) r(1) set_member_def str_at_def update_conv')
qed

lemma forwarded_request:
  assumes "call_begin ls ce c t held request l = Some (l', Inr (Forwarded key native policy))"
  obtains meth g request1 l0 where "str_at [''method''] request = Some meth" and "str_at [''params'', ''sessionId''] request = Some g"
    and "str_at [''params'', ''sessionId''] request1 = Some g" and "calm (ls_lifecycle ls) l l0"
    and "call_enters ls ce c t meth g request1 l0 = Some (l', Inr (Forwarded key native policy))"
proof -
  obtain meth where meth: "str_at [''method''] request = Some meth" using assms by (auto simp: call_begin_def split: option.splits)
  show thesis
  proof (cases "meth = ''session/close''")
    case True
    obtain l0 request1 where s: "maybe_suppress_close ls (ce_profiles ce) (ce_now ce) (ce_nanos ce) t request l = Some (l0, Inr (request1, None))"
        and rest: "(case (json_get ''id'' request1, str_at [''params'', ''sessionId''] request1) of
                       (None, _) \<Rightarrow> Some (l0, Inl MissingId) | (_, None) \<Rightarrow> Some (l0, Inl MissingSessionId)
                     | (Some i, Some g) \<Rightarrow> call_enters ls ce c t meth g request1 l0) = Some (l', Inr (Forwarded key native policy))"
      using assms meth True by (auto simp: call_begin_def split: option.splits sum.splits prod.splits if_splits)
    from rest obtain g where "str_at [''params'', ''sessionId''] request1 = Some g"
        "call_enters ls ce c t meth g request1 l0 = Some (l', Inr (Forwarded key native policy))"
      by (auto split: option.splits)
    moreover from this have "str_at [''params'', ''sessionId''] request = Some g" by (simp add: suppress_request [OF s])
    ultimately show thesis using that [OF meth] calm_suppress [OF s] by blast
  next
    case False
    with assms meth that [OF meth, of _ request l] show thesis by (auto simp: call_begin_def split: option.splits if_splits)
  qed
qed

lemma entered_session:
  assumes "call_enters ls ce c t meth g request l = Some (l', Inr (Forwarded key native policy))"
  obtains e e' where "lookup_session t g l' = Some e'" and "in_flight e' = 1" and "key = agent_id e'"
    and "native_request ce c meth e request = Inr native" and "backend_session_id e' = backend_session_id e"
    and "policy = call_policy_for_session (ce_native ce) c l' t g (profile_name e') (agent_id e')"
proof -
  obtain l1 e where r: "resolve_or_revive ls (ce_profiles ce) (ce_now ce) (ce_nanos ce) t meth g l = Some (l1, Inr e)"
      "native_request ce c meth e request = Inr native"
    using assms by (auto simp: call_enters_def Let_def split: option.splits sum.splits)
  then obtain gw where gw: "(if meth = ''session/close'' then Some (Inr (lf_gateway l1))
        else ensure_capacity_for_active_turn (ls_lifecycle ls) t g (lf_gateway l1)) = Some (Inr gw)"
      and l': "l' = change_session t g (entry_in_flight (ce_now ce) 1) (l1\<lparr>lf_gateway := gw\<rparr>)" "key = agent_id e"
        "policy = call_policy_for_session (ce_native ce) c l' t g (profile_name e) (agent_id e)"
    using assms by (auto simp: call_enters_def Let_def split: option.splits sum.splits if_splits)
  obtain b where "reg_resolve t g (gw_registry gw) = Some (e\<lparr>capacity_counted := b\<rparr>)"
  proof (cases "gw = lf_gateway l1")
    case True
    then show thesis using resolve_finds [OF r(1)] that [of "capacity_counted e"] by simp
  next
    case False
    then show thesis using gw resolve_finds [OF r(1)] that [of True]
      by (auto simp: ensure_capacity_for_active_turn_def Let_def split: if_splits sum.splits option.splits dest!: permits_of_commit permits_of_admit)
  qed
  then have "lookup_session t g l' = Some (entry_in_flight (ce_now ce) 1 (e\<lparr>capacity_counted := b\<rparr>))" by (simp add: l'(1))
  moreover have "in_flight (entry_in_flight (ce_now ce) 1 x) = 1 \<and> agent_id (entry_in_flight (ce_now ce) 1 x) = agent_id x
      \<and> backend_session_id (entry_in_flight (ce_now ce) 1 x) = backend_session_id x \<and> profile_name (entry_in_flight (ce_now ce) 1 x) = profile_name x" for x
    by (simp add: entry_in_flight_def Let_def)
  ultimately show thesis using that r(2) l'(2,3) by simp
qed

text \<open>
  C20. A call that goes to an agent goes to the session that its tenant has under the id: to the process of that session,
  under the id that the agent knows, with the policy of that session, which counts as busy from then on; no other tenant
  owns the id.
\<close>

theorem call_reaches_own_session:
  assumes "life_reachable ls w" and "call_begin ls ce c t held request (wd_life w) = Some (l', Inr (Forwarded key native policy))"
  shows "\<exists>g e. str_at [''params'', ''sessionId''] request = Some g \<and> lookup_session t g l' = Some e \<and> in_flight e = 1
    \<and> key = agent_id e \<and> str_at [''params'', ''sessionId''] native = Some (backend_session_id e)
    \<and> policy = call_policy_for_session (ce_native ce) c l' t g (profile_name e) key
    \<and> (\<forall>t'. owned t' g (set_life l' w) \<longrightarrow> t' = t)"
proof -
  obtain meth g request1 l0 where r: "str_at [''params'', ''sessionId''] request = Some g" "str_at [''params'', ''sessionId''] request1 = Some g"
      "call_enters ls ce c t meth g request1 l0 = Some (l', Inr (Forwarded key native policy))"
    using forwarded_request [OF assms(2)] by metis
  obtain e e' where e: "lookup_session t g l' = Some e'" "in_flight e' = 1" "key = agent_id e'" "native_request ce c meth e request1 = Inr native"
      "backend_session_id e' = backend_session_id e" "policy = call_policy_for_session (ce_native ce) c l' t g (profile_name e') (agent_id e')"
    by (rule entered_session [OF r(3)])
  have "life_reachable ls (set_life l' w)" by (rule LifeMore [OF assms(1) LifeCall [OF assms(2)]])
  moreover have "owned t g (set_life l' w)" using e(1) by (simp add: owned_def)
  ultimately have "owned t' g (set_life l' w) \<Longrightarrow> t' = t" for t' using world_okD(3) [OF life_reachable_ok] by blast
  with r(1) e native_session [OF e(4) r(2)] show ?thesis by auto
qed

section \<open>How a call ends\<close>

lemma row_statement_registry:
  "row_statement stmt l = (l', r) \<Longrightarrow> lf_gateway l' = lf_gateway l \<and> (lf_store l' = None \<longleftrightarrow> lf_store l = None)"
  by (auto simp: row_statement_def split: option.splits prod.splits)

lemma retry_gateway: "mark_successful_recovery_retry g meth l = (l', r) \<Longrightarrow> lf_gateway l' = lf_gateway l"
  by (auto simp: mark_successful_recovery_retry_def write_status_def split: if_splits option.splits sum.splits prod.splits)

lemma evicted_session:
  assumes "evict_session t g gw = Some gw'"
  shows "reg_resolve t' g' (gw_registry gw') = (if t' = t \<and> g' = g then None else reg_resolve t' g' (gw_registry gw))"
proof -
  have "gw_registry gw' = fst (reg_remove t g (gw_registry gw))"
    using assms by (auto simp: evict_session_def split: prod.splits option.splits if_splits)
  then show ?thesis by simp
qed

lemma bookkeeping_parts [simp]:
  "lf_gateway (mark_unreferenced_if_idle ls now key l) = lf_gateway l" "lf_store (mark_unreferenced_if_idle ls now key l) = lf_store l"
  "lf_gateway (stop_if_session_scoped key l) = lf_gateway l" "lf_store (stop_if_session_scoped key l) = lf_store l"
  by (simp_all add: mark_unreferenced_if_idle_def stop_if_session_scoped_def)

lemma finish_close_ends:
  assumes "gateway_ok (ls_lifecycle ls) (lf_gateway l)" and "(t, g) \<notin> set (gw_creating (lf_gateway l))"
  shows "\<exists>l' r. finish_close ls now stamp t g l = Some (l', r)
    \<and> (r = Inr () \<and> lookup_session t g l' = None \<and> (\<forall>db row. lf_store l' = Some db \<longrightarrow> get_row g db = Some row \<longrightarrow> sw_status row = StatusClosed)
       \<or> (\<exists>e. r = Inl e) \<and> lf_gateway l' = lf_gateway l)"
proof -
  obtain l1 r1 where s: "row_statement (close_session g stamp) l = (l1, r1)" by (cases "row_statement (close_session g stamp) l")
  note gw = row_statement_registry [OF s]
  have closed: "sw_status row = StatusClosed" if "r1 = Inr ()" "lf_store l1 = Some db" "get_row g db = Some row" for db row
    using s that by (auto simp: row_statement_def close_session_def update_row_def split: option.splits prod.splits)
  obtain gw' where ev: "evict_session t g (lf_gateway l1) = Some gw'" using gateway_ok_evict [OF assms] gw by auto
  show ?thesis
  proof (cases r1)
    case (Inr u)
    then show ?thesis using s ev gw closed evicted_session [OF ev] by (auto simp: finish_close_def split: option.split)
  qed (use s gw in \<open>auto simp: finish_close_def\<close>)
qed


section \<open>Where the code breaks its comments\<close>

text \<open>
  The activity of a session is written before the answer is looked at, and an error of this statement takes the place
  of the answer.  A session without a row, such as one whose row could not be written by its task, never gets an
  answer to a client, and cannot be closed.
\<close>

theorem unrecorded_session_loses_answer:
  assumes "lf_store l = Some db" and "get_row g db = None"
  shows "\<exists>l'. call_settles ls now nanos stamp t meth g (Inr response) l = Some (l', Inl (RowError (SessionNotFound g)))
    \<and> (lookup_session t g l' \<noteq> None \<longleftrightarrow> lookup_session t g l \<noteq> None)"
  using assms by (auto simp: call_settles_def row_statement_def update_session_activity_def update_row_def)

text \<open>
  A fork runs in the process of its source.  When that process belongs to the source alone, the close of the source
  stops it under the fork.
\<close>

theorem closing_the_source_stops_the_fork:
  assumes "finish_close ls now stamp t g l = Some (l', Inr ())" and "lookup_session t g l = Some e"
    and "is_session_scoped_supervisor_key (agent_id e)" and "lookup_session t fork l = Some e'" and "agent_id e' = agent_id e" and "fork \<noteq> g"
  shows "agent_id e' \<in> set (lf_stopped l') \<and> (\<exists>e'. lookup_session t fork l' = Some e' \<and> agent_id e' = agent_id e)"
proof -
  obtain l1 gw where l1: "row_statement (close_session g stamp) l = (l1, Inr ())" and ev: "evict_session t g (lf_gateway l) = Some gw"
      and l': "l' = mark_unreferenced_if_idle ls now (agent_id e) (stop_if_session_scoped (agent_id e) (l1\<lparr>lf_gateway := gw\<rparr>))"
    using assms(1,2) by (auto simp: finish_close_def split: sum.splits option.splits prod.splits dest!: row_statement_registry)
  have "reg_resolve t fork (gw_registry gw) = Some e'"
    using assms(4,6) by (simp add: evicted_session [OF ev])
  moreover have "lf_stopped (mark_unreferenced_if_idle ls now key m) = lf_stopped m" for key m by (simp add: mark_unreferenced_if_idle_def)
  ultimately show ?thesis using assms(3,5) by (simp add: l' stop_if_session_scoped_def)
qed

text \<open>
  A session without a permission profile is shown as \<open>not_allowed\<close>, while its calls run with the policy of its agent's
  profile, which for a seeded agent has files and terminals.
\<close>

theorem shown_permission_is_not_used:
  assumes "lookup_session t g l = Some e" and "permission_profile_of t g (lf_registry l) = None"
    and "profile_name e = None" and "map_of (cf_profiles c) (agent_id e) = Some (seeded_profile (agent_id e))"
  shows "dispatch_permission_profile_request t ''session/permission_profile/get'' (JObject [(''params'', JObject [(''sessionId'', JString g)])]) l
      = (l, Inr (permission_result g not_allowed))
    \<and> cp_fs (call_policy_for_session native c l t g (profile_name e) (agent_id e))
    \<and> cp_terminal (call_policy_for_session native c l t g (profile_name e) (agent_id e))"
  using assms
  by (simp add: dispatch_permission_profile_request_def params_of_members_def read_field_def or_given_def call_policy_for_session_def
      call_policy_for_def with_permission_profile_def policy_of_def policy_from_profile_def profile_view_def seeded_profile_def Let_def)

text \<open>Permission profiles are only in memory: after a restart a session that was \<open>readonly\<close> has the policy of its agent.\<close>

theorem permission_profile_is_lost_by_restart:
  "permission_profile_of t g (lf_registry (life_new store)) = None
    \<and> call_policy_for_session native c (life_new store) t g profile agent = call_policy_for native c profile agent"
  by (simp add: life_new_def gateway_new_def registry_new_def permission_profile_of_def call_policy_for_session_def with_permission_profile_def nested_get_def)

section \<open>Witnesses\<close>

definition sample_call_env :: call_env where
  "sample_call_env = \<lparr>ce_now = 9, ce_nanos = 9, ce_native = None, ce_profiles = (\<lambda>_. Inr ()), ce_tokens = [], ce_mcp_error = (\<lambda>_. None),
     ce_ser = (\<lambda>_. []), ce_started = None\<rparr>"

definition sample_prompt :: json where
  "sample_prompt = JObject [(''id'', JNumber ''1''), (''method'', JString ''session/prompt''), (''params'', JObject [(''sessionId'', JString ''g1'')])]"

text \<open>After a restart the tenant \<open>acme\<close> prompts its session, which is brought back.\<close>

lemma sample_prompted:
  "\<exists>(w :: world) l' native policy. life_reachable sample_settings w \<and> wd_life w = life_new (Some sample_db)
    \<and> call_begin sample_settings sample_call_env (config_new None) ''acme'' False sample_prompt (wd_life w) = Some (l', Inr (Forwarded ''codex'' native policy))
    \<and> gw_creating (lf_gateway l') = []"
proof -
  obtain w where w: "life_reachable sample_settings w" "lf_store (wd_life w) = Some sample_db" using sample_world_reachable by blast
  let ?w = "\<lparr>wd_life = life_new (lf_store (wd_life w)), wd_spawned = [], wd_jobs = []\<rparr>"
  have "\<exists>l' native policy. call_begin sample_settings sample_call_env (config_new None) ''acme'' False sample_prompt (life_new (Some sample_db))
      = Some (l', Inr (Forwarded ''codex'' native policy)) \<and> gw_creating (lf_gateway l') = []"
    by (simp add: call_begin_def call_enters_def sample_prompt_def sample_call_env_def str_at_def method_uses_dispatch_reservation_def
        resolve_or_revive_def revive_session_def row_to_revive_def classify_def proxied_methods_def gateway_native_methods_def is_reload_def
        sample_settings_def life_new_def gateway_new_def registry_new_def reg_resolve_def get_row_def sample_db_def fresh_row_def recovery_default_def
        resolve_key_def row_entry_def rehydrate_session_def admit_session_def reserve_def admission_new_def default_lifecycle_def commit_permit_def
        commit_reservation_def release_reservation_def decrement_def cancel_unreferenced_shutdown_def native_request_def merge_mcp_into_session_establish_params_def
        ensure_capacity_for_active_turn_def reg_insert_def Let_def nested_get_def nested_insert_def counter_def inner_map_def)
  then show ?thesis using LifeMore [OF w(1) LifeRestart] w(2) by (intro exI [of _ ?w]) simp
qed

theorem call_reaches_own_session_witness:
  "\<exists>l' native policy. call_begin sample_settings sample_call_env (config_new None) ''acme'' False sample_prompt (life_new (Some sample_db))
      = Some (l', Inr (Forwarded ''codex'' native policy))
    \<and> (\<exists>e. lookup_session ''acme'' ''g1'' l' = Some e \<and> in_flight e = 1 \<and> str_at [''params'', ''sessionId''] native = Some (backend_session_id e))"
proof -
  obtain w l' native policy where c: "life_reachable sample_settings w" "wd_life w = life_new (Some sample_db)"
      "call_begin sample_settings sample_call_env (config_new None) ''acme'' False sample_prompt (wd_life w) = Some (l', Inr (Forwarded ''codex'' native policy))"
    using sample_prompted by blast
  have "str_at [''params'', ''sessionId''] sample_prompt = Some ''g1''" by (simp add: sample_prompt_def str_at_def)
  with call_reaches_own_session [OF c(1,3)] c(2,3) show ?thesis by auto
qed


end
