(* ===== verification/NewSession.thy ===== *)
theory NewSession
  imports ProxiedCalls Creation
begin

text \<open>
  \<open>session/new\<close> in \<open>acpx-core/src/router.rs\<close> (\<open>dispatch_session_new_shared\<close>).  The request waits for the lock of its
  creation key, looks for the row of an earlier request with that key, chooses an agent and reserves a slot under the
  router's lock, asks the agent, registers the session under the lock again, writes its row, and commits the slot.
\<close>

section \<open>State\<close>

record desk =
  dk_life :: life
  dk_config :: config
  dk_roster :: roster

record new_settings =
  ns_life :: life_settings
  ns_session_isolation :: bool
  ns_default_agent :: string

text \<open>What the agent is asked, and what the session will be.\<close>

record new_call =
  nc_agent :: string
  nc_profile :: "string option"
  nc_gid :: "string option"
  nc_cwd :: "string option"
  nc_permission :: "permission_profile option"
  nc_request :: json
  nc_policy :: call_policy

section \<open>The choice of the agent\<close>

definition requested_permission :: "json \<Rightarrow> life_error + permission_profile option" where
  "requested_permission params =
     (case str_at [''permissionProfile''] params of
        None \<Rightarrow> Inr None
      | Some n \<Rightarrow>
          if n = ''agent_full_access'' then Inr (Some agent_full_access)
          else if n = ''readonly'' then Inr (Some readonly_profile)
          else if n = ''not_allowed'' then Inr (Some not_allowed)
          else Inl MissingParams)"

text \<open>The profile and the agent that the client names in \<open>_acpx\<close>; not both.\<close>

datatype agent_choice = ByProfile string | ByAgent string | ByDefault

definition agent_choice :: "json \<Rightarrow> life_error + agent_choice" where
  "agent_choice params =
     (case (str_at [''_acpx'', ''profile''] params, str_at [''_acpx'', ''agentId''] params) of
        (Some p, Some a) \<Rightarrow> Inl ConflictingSessionSelection
      | (Some p, None) \<Rightarrow> Inr (ByProfile p)
      | (None, Some a) \<Rightarrow> Inr (ByAgent a)
      | (None, None) \<Rightarrow> Inr ByDefault)"

definition selected_agent :: "new_settings \<Rightarrow> surroundings \<Rightarrow> agent_choice \<Rightarrow> config \<Rightarrow> config \<times> (life_error + string)" where
  "selected_agent ns su choice c =
     (case choice of
        ByProfile p \<Rightarrow>
          (let c1 = ensure_default_profiles_seeded (su_installed su) c
           in case map_of (cf_profiles c1) p of None \<Rightarrow> (c1, Inl (UnknownProfile p)) | Some pf \<Rightarrow> (c1, Inr (pf_agent_id pf)))
      | ByAgent a \<Rightarrow> (c, Inr a)
      | ByDefault \<Rightarrow> (c, Inr (ns_default_agent ns)))"

definition chosen_process ::
  "new_settings \<Rightarrow> surroundings \<Rightarrow> tenant_id \<Rightarrow> agent_choice \<Rightarrow> config \<Rightarrow> roster \<Rightarrow> config \<times> roster \<times> (life_error + string \<times> profile option)"
where
  "chosen_process ns su t choice c ro =
     (case choice of
        ByProfile p \<Rightarrow> (case resolve_profile (ns_life ns) su p t c ro of (c', ro', r) \<Rightarrow> (c', ro', map_sum id (\<lambda>(key, pf). (key, Some pf)) r))
      | ByAgent a \<Rightarrow> (case ensure_custom_agent_registered a ro of Inl e \<Rightarrow> (c, ro, Inl e) | Inr ro' \<Rightarrow> (c, ro', Inr (a, None)))
      | ByDefault \<Rightarrow>
          (case ensure_custom_agent_registered (ns_default_agent ns) ro of
             Inl e \<Rightarrow> (c, ro, Inl e)
           | Inr ro' \<Rightarrow> (c, ro', Inr (ns_default_agent ns, None))))"

text \<open>A process of its own for a session with a profile: \<open>gid\<close> is the fresh id of the session.\<close>

definition session_process :: "new_settings \<Rightarrow> string \<Rightarrow> string \<Rightarrow> profile option \<Rightarrow> roster \<Rightarrow> roster \<times> string \<times> string option" where
  "session_process ns gid key profile ro =
     (if ns_session_isolation ns \<and> profile \<noteq> None
      then (let scoped = key @ '':session:'' @ gid
            in ((case map_of (ro_specs ro) key of None \<Rightarrow> ro | Some spec \<Rightarrow> register_launch scoped spec ro), scoped, Some gid))
      else (ro, key, None))"

text \<open>The parameters that the agent gets: without \<open>_acpx\<close>, and with the servers of the profile.\<close>

definition new_params :: "call_env \<Rightarrow> config \<Rightarrow> profile option \<Rightarrow> json \<Rightarrow> json" where
  "new_params ce c profile params =
     (let params1 = (case params of JObject kvs \<Rightarrow> JObject (AList.delete ''_acpx'' kvs) | _ \<Rightarrow> params)
      in case profile of
           None \<Rightarrow> params1
         | Some p \<Rightarrow>
             if pf_mcp_servers p = [] then params1
             else (let own = (case json_get ''mcpServers'' params1 of Some (JArray vs) \<Rightarrow> vs | _ \<Rightarrow> [])
                   in set_member ''mcpServers''
                        (JArray (merge_mcp_servers own (inject_oauth_headers (ce_tokens ce) (list_named (pf_mcp_servers p) (cf_mcp c)))))
                        params1))"

section \<open>Before the agent answers\<close>

text \<open>
  Everything under the first lock.  When the process does not start, the permit is dropped with the error.
\<close>

definition new_enters ::
  "new_settings \<Rightarrow> call_env \<Rightarrow> tenant_id \<Rightarrow> string \<Rightarrow> json \<Rightarrow> json \<Rightarrow> permission_profile option \<Rightarrow> string \<Rightarrow> profile option
    \<Rightarrow> desk \<Rightarrow> (desk \<times> (life_error + new_call)) option"
where
  "new_enters ns ce t gid request params permission key profile dk =
     (let (ro, agent, pre) = session_process ns gid key profile (dk_roster dk);
          dk1 = dk\<lparr>dk_roster := ro\<rparr>
      in case admit_session (ls_lifecycle (ns_life ns)) t (lf_gateway (dk_life dk1)) of
           Inl e \<Rightarrow> Some (dk1, Inl (NotAdmitted e))
         | Inr gw \<Rightarrow>
             (case ce_started ce of
                Some e \<Rightarrow> map_option (\<lambda>gw'. (dk1\<lparr>dk_life := (dk_life dk1)\<lparr>lf_gateway := gw'\<rparr>\<rparr>, Inl e)) (drop_permit t gw)
              | None \<Rightarrow>
                  Some (dk1\<lparr>dk_life := (dk_life dk1)\<lparr>lf_gateway := gw\<rparr>\<rparr>,
                        Inr \<lparr>nc_agent = agent, nc_profile = map_option pf_name profile, nc_gid = pre,
                             nc_cwd = str_at [''cwd''] params, nc_permission = permission,
                             nc_request = set_member ''params'' (new_params ce (dk_config dk1) profile params) request,
                             nc_policy = with_permission_profile permission
                               (policy_of (ce_native ce)
                                  (case profile of Some p \<Rightarrow> Some p | None \<Rightarrow> map_of (cf_profiles (dk_config dk1)) agent))\<rparr>)))"

definition new_begin ::
  "new_settings \<Rightarrow> surroundings \<Rightarrow> call_env \<Rightarrow> tenant_id \<Rightarrow> string \<Rightarrow> json \<Rightarrow> desk \<Rightarrow> (desk \<times> (life_error + new_call)) option"
where
  "new_begin ns su ce t gid request dk =
     (case json_get ''params'' request of
        None \<Rightarrow> Some (dk, Inl MissingParams)
      | Some params \<Rightarrow>
          (case requested_permission params of
             Inl e \<Rightarrow> Some (dk, Inl e)
           | Inr permission \<Rightarrow>
               (case agent_choice params of
                  Inl e \<Rightarrow> Some (dk, Inl e)
                | Inr choice \<Rightarrow>
                    (case selected_agent ns su choice (dk_config dk) of
                       (c1, Inl e) \<Rightarrow> Some (dk\<lparr>dk_config := c1\<rparr>, Inl e)
                     | (c1, Inr selected) \<Rightarrow>
                         (case ensure_agent_enabled selected (dk_roster dk) of
                            Inl e \<Rightarrow> Some (dk\<lparr>dk_config := c1\<rparr>, Inl e)
                          | Inr u \<Rightarrow>
                              (case chosen_process ns su t choice c1 (dk_roster dk) of
                                 (c2, ro2, Inl e) \<Rightarrow> Some (dk\<lparr>dk_config := c2, dk_roster := ro2\<rparr>, Inl e)
                               | (c2, ro2, Inr (key, profile)) \<Rightarrow>
                                   new_enters ns ce t gid request params permission key profile
                                     (dk\<lparr>dk_config := c2, dk_roster := ro2\<rparr>)))))))"

section \<open>After the answer\<close>

text \<open>An error of the agent, or an answer without a session, gives the slot back.\<close>

definition new_refused :: "tenant_id \<Rightarrow> life \<Rightarrow> life option" where
  "new_refused t l = map_option (\<lambda>gw. l\<lparr>lf_gateway := gw\<rparr>) (drop_permit t (lf_gateway l))"

definition backend_session :: "life_error + json \<Rightarrow> life_error + string" where
  "backend_session outcome = (case outcome of Inl e \<Rightarrow> Inl e | Inr response \<Rightarrow> extract_backend_session_id response)"

text \<open>The second lock.  \<open>fresh\<close> is the id of a session without one of its own; the answer has it with the creation key.\<close>

definition new_gid :: "string \<Rightarrow> new_call \<Rightarrow> string" where
  "new_gid fresh nc = (case nc_gid nc of Some g \<Rightarrow> g | None \<Rightarrow> fresh)"

definition new_registers :: "instant \<Rightarrow> tenant_id \<Rightarrow> string \<Rightarrow> new_call \<Rightarrow> string \<Rightarrow> life \<Rightarrow> life" where
  "new_registers now t fresh nc backend l =
     (let g = new_gid fresh nc;
          l1 = cancel_unreferenced_shutdown (nc_agent nc)
                 (l\<lparr>lf_gateway := create_register now t g (nc_agent nc) backend (nc_profile nc) (nc_cwd nc) (lf_gateway l)\<rparr>)
      in case nc_permission nc of
           None \<Rightarrow> l1
         | Some p \<Rightarrow> on_gateway (\<lambda>gw. gw\<lparr>gw_registry := set_permission_profile t g p (gw_registry gw)\<rparr>) l1)"

definition new_answer :: "tenant_id \<Rightarrow> string \<Rightarrow> creation_metadata option \<Rightarrow> json \<Rightarrow> life \<Rightarrow> json option" where
  "new_answer t g creation response l =
     (case json_get ''result'' response of
        None \<Rightarrow> Some response
      | Some result \<Rightarrow>
          map_option
            (\<lambda>result'. set_member ''result''
               (case permission_profile_of t g (lf_registry l) of
                  None \<Rightarrow> result'
                | Some p \<Rightarrow> set_member ''permissionProfile'' (permission_profile_json p) result') response)
            (case creation of
               None \<Rightarrow> Some (set_member ''sessionId'' (JString g) result)
             | Some m \<Rightarrow> merge_creation_meta (set_member ''sessionId'' (JString g) result) (client_meta (cm_request_id m) (cm_workspace_id m))))"

section \<open>The row\<close>

definition new_recovery :: "int \<Rightarrow> new_call \<Rightarrow> recovery_metadata" where
  "new_recovery nanos nc =
     \<lparr>rm_cwd = nc_cwd nc, rm_recovery_params = json_get ''params'' (nc_request nc), rm_status = StatusActive, rm_method = MethodLoad,
      rm_last_error = None, rm_created_nanos = Some nanos, rm_activity_nanos = Some nanos, rm_pinned = False, rm_bridge_id = None,
      rm_bridge_alias = None, rm_bridge_options = None\<rparr>"

definition new_records ::
  "int \<Rightarrow> string \<Rightarrow> tenant_id \<Rightarrow> string \<Rightarrow> new_call \<Rightarrow> string \<Rightarrow> creation_metadata option \<Rightarrow> life \<Rightarrow> life \<times> (life_error + unit)"
where
  "new_records nanos stamp t g nc backend creation l =
     row_statement (record_session nanos g (nc_agent nc) backend (nc_profile nc) stamp t (new_recovery nanos nc) creation) l"

text \<open>A row that cannot be written undoes the registration.\<close>

definition new_undone :: "life_settings \<Rightarrow> instant \<Rightarrow> tenant_id \<Rightarrow> string \<Rightarrow> life \<Rightarrow> life option" where
  "new_undone ls now t g l =
     (case lookup_session t g l of
        None \<Rightarrow> map_option (\<lambda>gw. l\<lparr>lf_gateway := gw\<rparr>) (create_fail t g (lf_gateway l))
      | Some e \<Rightarrow>
          map_option (\<lambda>gw. mark_unreferenced_if_idle ls now (agent_id e) (stop_if_session_scoped (agent_id e) (l\<lparr>lf_gateway := gw\<rparr>)))
            (create_fail t g (lf_gateway l)))"

definition new_committed :: "tenant_id \<Rightarrow> string \<Rightarrow> life \<Rightarrow> life option" where
  "new_committed t g l = map_option (\<lambda>gw. l\<lparr>lf_gateway := gw\<rparr>) (create_commit t g (lf_gateway l))"

end
