(* ===== verification/NewFacts.thy ===== *)
theory NewFacts
  imports CallProps NewSession
begin

text \<open>
  What \<open>session/new\<close> does to sessions and slots is what the runs of \<open>LifeRuns\<close> allow, so their guarantees hold for it;
  and what a session that was begun says about its profile, its process and its policy.
\<close>

section \<open>Creation is a run of the life of sessions\<close>

lemma new_begin_life:
  assumes "new_begin ns su ce t gid request dk = Some (dk', r)"
  shows "dk_life dk' = dk_life dk \<and> (\<exists>e. r = Inl e)
    \<or> (\<exists>gw. admit_session (ls_lifecycle (ns_life ns)) t (lf_gateway (dk_life dk)) = Inr gw
        \<and> ((\<exists>nc. r = Inr nc) \<and> dk_life dk' = (dk_life dk)\<lparr>lf_gateway := gw\<rparr>
           \<or> (\<exists>gw' e. r = Inl e \<and> drop_permit t gw = Some gw' \<and> dk_life dk' = (dk_life dk)\<lparr>lf_gateway := gw'\<rparr>)))"
  using assms
  by (auto simp: new_begin_def new_enters_def Let_def split: option.splits sum.splits prod.splits)

lemma life_steps_one: "life_step ls w w' \<Longrightarrow> (life_step ls)\<^sup>*\<^sup>* w w'"
  by (rule r_into_rtranclp)

lemma set_gateway_life: "set_gateway gw w = set_life ((wd_life w)\<lparr>lf_gateway := gw\<rparr>) w"
  by (simp add: set_gateway_def set_life_def)

lemma set_life_twice [simp]: "set_life l (set_life l' w) = set_life l w"
  by (simp add: set_life_def)

lemma new_begin_steps:
  assumes "world_ok (ns_life ns) w" and "dk_life dk = wd_life w" and "new_begin ns su ce t gid request dk = Some (dk', r)"
  shows "(life_step (ns_life ns))\<^sup>*\<^sup>* w (set_life (dk_life dk') w)"
proof -
  have same: "set_life (wd_life w) w = w" by (simp add: set_life_def)
  show ?thesis
  proof (cases "dk_life dk' = dk_life dk")
    case False
    then obtain gw where gw: "admit_session (ls_lifecycle (ns_life ns)) t (lf_gateway (wd_life w)) = Inr gw"
        "dk_life dk' = (wd_life w)\<lparr>lf_gateway := gw\<rparr> \<or> (\<exists>gw'. drop_permit t gw = Some gw' \<and> dk_life dk' = (wd_life w)\<lparr>lf_gateway := gw'\<rparr>)"
      using new_begin_life [OF assms(3)] assms(2) by auto
    have admitted: "(life_step (ns_life ns))\<^sup>*\<^sup>* w (set_gateway gw w)" by (rule life_steps_one [OF LifeAdmit [OF gw(1)]])
    from gw(2) show ?thesis
    proof (elim disjE exE conjE)
      fix gw' assume d: "drop_permit t gw = Some gw'" "dk_life dk' = (wd_life w)\<lparr>lf_gateway := gw'\<rparr>"
      have "spare_permit (set_gateway gw w) t"
        using permits_of_admit [OF gw(1)] world_okD(4) [OF assms(1), of t] by (simp add: spare_permit_def creating_of_def jobs_of_def)
      from LifeDrop [OF this, of gw' "ns_life ns"] d have "life_step (ns_life ns) (set_gateway gw w) (set_life (dk_life dk') w)"
        by (simp add: set_gateway_life)
      with admitted show ?thesis by (rule rtranclp.rtrancl_into_rtrancl)
    qed (use admitted in \<open>simp add: set_gateway_life\<close>)
  qed (simp add: same assms(2))
qed

lemma new_refused_steps:
  assumes "spare_permit w t" and "new_refused t (wd_life w) = Some l'"
  shows "life_step ls w (set_life l' w)"
  using assms LifeDrop [OF assms(1), of _ ls] by (auto simp: new_refused_def set_gateway_life)

lemma new_registers_steps:
  assumes "spare_permit w t" and "fresh_id w (new_gid fresh nc)"
  shows "(life_step ls)\<^sup>*\<^sup>* w (set_life (new_registers now t fresh nc backend (wd_life w)) w\<lparr>wd_spawned := (t, new_gid fresh nc) # wd_spawned w\<rparr>)"
proof -
  let ?g = "new_gid fresh nc"
  let ?gw = "create_register now t ?g (nc_agent nc) backend (nc_profile nc) (nc_cwd nc) (lf_gateway (wd_life w))"
  let ?w1 = "set_gateway ?gw w\<lparr>wd_spawned := (t, ?g) # wd_spawned w\<rparr>"
  let ?l2 = "cancel_unreferenced_shutdown (nc_agent nc) (wd_life ?w1)"
  have l2: "cancel_unreferenced_shutdown (nc_agent nc) ((wd_life w)\<lparr>lf_gateway := ?gw\<rparr>) = ?l2" by simp
  have 1: "life_step ls w ?w1" by (rule LifeRegister [OF assms])
  have 2: "life_step ls ?w1 (set_life ?l2 ?w1)" by (rule LifeProcess) (simp_all add: cancel_unreferenced_shutdown_def)
  have 3: "life_step ls (set_life ?l2 ?w1)
      (set_life (on_gateway (\<lambda>gw. gw\<lparr>gw_registry := set_permission_profile t ?g p (gw_registry gw)\<rparr>) ?l2) ?w1)" for p
    using LifeGrant [of ls "set_life ?l2 ?w1" t ?g p] by simp
  have w1: "set_life l ?w1 = set_life l w\<lparr>wd_spawned := (t, ?g) # wd_spawned w\<rparr>" for l by (simp add: set_life_def set_gateway_def)
  have 12: "(life_step ls)\<^sup>*\<^sup>* w (set_life ?l2 ?w1)" using 1 2 by auto
  show ?thesis
  proof (cases "nc_permission nc")
    case None
    then show ?thesis using 12 unfolding w1 by (simp add: new_registers_def Let_def)
  next
    case (Some p)
    have "(life_step ls)\<^sup>*\<^sup>* w (set_life (on_gateway (\<lambda>gw. gw\<lparr>gw_registry := set_permission_profile t ?g p (gw_registry gw)\<rparr>) ?l2) ?w1)"
      by (rule rtranclp.rtrancl_into_rtrancl [OF 12]) (rule 3)
    then show ?thesis unfolding w1 by (simp add: new_registers_def Let_def Some)
  qed
qed

lemma new_records_steps:
  assumes "(t, g) \<in> set (gw_creating (lf_gateway (wd_life w)))" and "new_records nanos stamp t g nc backend creation (wd_life w) = (l', r)"
  shows "(life_step ls)\<^sup>*\<^sup>* w (set_life l' w)"
proof (cases "lf_store (wd_life w)")
  case None
  then have "set_life l' w = w" using assms(2) by (simp add: new_records_def row_statement_def set_life_def)
  then show ?thesis by simp
next
  case (Some db)
  obtain db' res where s: "record_session nanos g (nc_agent nc) backend (nc_profile nc) stamp t (new_recovery nanos nc) creation db = (db', res)"
    by (cases "record_session nanos g (nc_agent nc) backend (nc_profile nc) stamp t (new_recovery nanos nc) creation db")
  from LifeRecord [OF assms(1) Some s, of ls] have "life_step ls w (set_life l' w)"
    using assms(2) by (simp add: new_records_def row_statement_def Some s set_db_def set_life_def)
  then show ?thesis by (rule life_steps_one)
qed

lemma new_committed_steps:
  assumes "(t, g) \<in> set (gw_creating (lf_gateway (wd_life w)))" and "new_committed t g (wd_life w) = Some l'"
  shows "life_step ls w (set_life l' w)"
  using assms LifeCommit [OF assms(1), of _ ls] by (auto simp: new_committed_def set_gateway_life)

lemma new_undone_steps:
  assumes "(t, g) \<in> set (gw_creating (lf_gateway (wd_life w)))" and "new_undone (ns_life ns) now t g (wd_life w) = Some l'"
  shows "(life_step ls)\<^sup>*\<^sup>* w (set_life l' w)"
proof -
  obtain gw where gw: "create_fail t g (lf_gateway (wd_life w)) = Some gw" and l': "lf_gateway l' = gw" "lf_store l' = lf_store (wd_life w)"
    using assms(2) by (auto simp: new_undone_def split: option.splits)
  have "life_step ls w (set_gateway gw w)" by (rule LifeFail [OF assms(1) gw])
  moreover have "life_step ls (set_gateway gw w) (set_life l' (set_gateway gw w))" by (rule LifeProcess) (simp_all add: l')
  moreover have "set_life l' (set_gateway gw w) = set_life l' w" by (simp add: set_life_def set_gateway_def)
  ultimately show ?thesis by auto
qed

text \<open>
  Every part of \<open>session/new\<close>, from its reservation to the commit or the withdrawal, is a run of the steps of
  \<open>LifeRuns\<close>, given the permit it holds and a fresh id; so whatever is proved of those runs holds for it.
\<close>

theorem new_session_refines_life:
  assumes "life_reachable (ns_life ns) w" and "dk_life dk = wd_life w"
  shows "(\<forall>dk' r. new_begin ns su ce t gid request dk = Some (dk', r) \<longrightarrow> (life_step (ns_life ns))\<^sup>*\<^sup>* w (set_life (dk_life dk') w))
    \<and> (spare_permit w t \<longrightarrow> (\<forall>l'. new_refused t (wd_life w) = Some l' \<longrightarrow> (life_step (ns_life ns))\<^sup>*\<^sup>* w (set_life l' w)))
    \<and> (spare_permit w t \<longrightarrow> fresh_id w (new_gid fresh nc) \<longrightarrow>
        (life_step (ns_life ns))\<^sup>*\<^sup>* w (set_life (new_registers now t fresh nc backend (wd_life w)) w\<lparr>wd_spawned := (t, new_gid fresh nc) # wd_spawned w\<rparr>))
    \<and> ((t, g) \<in> set (gw_creating (lf_gateway (wd_life w))) \<longrightarrow>
        (\<forall>l' r. new_records nanos stamp t g nc backend creation (wd_life w) = (l', r) \<longrightarrow> (life_step (ns_life ns))\<^sup>*\<^sup>* w (set_life l' w))
        \<and> (\<forall>l'. new_committed t g (wd_life w) = Some l' \<longrightarrow> (life_step (ns_life ns))\<^sup>*\<^sup>* w (set_life l' w))
        \<and> (\<forall>l'. new_undone (ns_life ns) now t g (wd_life w) = Some l' \<longrightarrow> (life_step (ns_life ns))\<^sup>*\<^sup>* w (set_life l' w)))"
  using new_begin_steps [OF life_reachable_ok [OF assms(1)] assms(2)] new_registers_steps new_records_steps new_undone_steps
    life_steps_one [OF new_refused_steps] life_steps_one [OF new_committed_steps]
  by (intro conjI impI allI) blast+

section \<open>The session runs as its profile says\<close>

lemma seed_profile_lookup: "map_of (seed_profile a s) n = (if n = a \<and> map_of s a = None then Some (seeded_profile a) else map_of s n)"
  by (auto simp: seed_profile_def profile_create_def store_create_def seeded_profile_def update_conv' split: sum.split)

lemma seeded_named:
  assumes "\<And>n p. map_of (cf_profiles c) n = Some p \<Longrightarrow> pf_name p = n"
  shows "map_of (cf_profiles (ensure_default_profiles_seeded agents c)) n = Some p \<Longrightarrow> pf_name p = n"
proof -
  have "(\<And>n p. map_of s n = Some p \<Longrightarrow> pf_name p = n) \<Longrightarrow> map_of (fold seed_profile as s) n = Some p \<Longrightarrow> pf_name p = n" for as s
  proof (induction as arbitrary: s)
    case (Cons a as)
    have "map_of (seed_profile a s) n = Some p \<Longrightarrow> pf_name p = n" for n p
      using Cons.prems(1) by (auto simp: seed_profile_lookup seeded_profile_def split: if_splits)
    from Cons.IH [OF this] Cons.prems(2) show ?case by simp
  qed simp
  with assms show "map_of (cf_profiles (ensure_default_profiles_seeded agents c)) n = Some p \<Longrightarrow> pf_name p = n"
    by (auto simp: ensure_default_profiles_seeded_def)
qed

text \<open>What \<open>resolve_profile\<close> leaves behind when it succeeds.\<close>

lemma resolved_profile:
  assumes "resolve_profile ls su name t c ro = (c', ro', Inr (key, p))"
  obtains env spec ro1 where "c' = ensure_default_profiles_seeded (su_installed su) c" and "map_of (cf_profiles c') name = Some p"
    and "profile_env su c' p = Inr env" and "ensure_agent_enabled (pf_agent_id p) ro = Inr ()"
    and "key = profile_supervisor_key ls (pf_name p) t" and "ro' = register_launch key (overlay_env env spec) ro1"
  using assms by (auto simp: resolve_profile_def Let_def split: option.splits sum.splits)

lemma map_sum_Inr: "map_sum f g x = Inr y \<longleftrightarrow> (\<exists>z. x = Inr z \<and> y = g z)"
  by (cases x) auto

lemma begun_session:
  assumes "new_begin ns su ce t gid request dk = Some (dk', Inr nc)"
  obtains params permission choice selected c1 c2 ro2 key profile where "json_get ''params'' request = Some params"
    and "requested_permission params = Inr permission" and "selected_agent ns su choice (dk_config dk) = (c1, Inr selected)"
    and "ensure_agent_enabled selected (dk_roster dk) = Inr ()"
    and "chosen_process ns su t choice c1 (dk_roster dk) = (c2, ro2, Inr (key, profile))"
    and "new_enters ns ce t gid request params permission key profile (dk\<lparr>dk_config := c2, dk_roster := ro2\<rparr>) = Some (dk', Inr nc)"
  using assms by (auto simp: new_begin_def split: option.splits sum.splits prod.splits)

lemma entered_new:
  assumes "new_enters ns ce t gid request params permission key profile dk = Some (dk', Inr nc)"
  shows "dk_config dk' = dk_config dk" and "dk_roster dk' = fst (session_process ns gid key profile (dk_roster dk))"
    and "nc_agent nc = fst (snd (session_process ns gid key profile (dk_roster dk)))"
    and "nc_gid nc = snd (snd (session_process ns gid key profile (dk_roster dk)))"
    and "nc_profile nc = map_option pf_name profile" and "nc_permission nc = permission"
    and "nc_policy nc = with_permission_profile permission
        (policy_of (ce_native ce) (case profile of Some p \<Rightarrow> Some p | None \<Rightarrow> map_of (cf_profiles (dk_config dk)) (nc_agent nc)))"
    and "nc_request nc = set_member ''params'' (new_params ce (dk_config dk) profile params) request"
  using assms by (auto simp: new_enters_def Let_def split: prod.splits sum.splits option.splits)

end
