(* ===== verification/CreationRuns.thy ===== *)
theory CreationRuns
  imports NewSession RowFacts
begin

text \<open>
  Requests \<open>session/new\<close> in any interleaving with each other, with everything else that happens to sessions and rows, and
  with restarts.  A client may repeat a request with the same creation key: at most one session is made for a key,
  and every answer names it.
\<close>

section \<open>Runs\<close>

text \<open>
  The stages of a request: it holds the lock of its key (\<open>Locked\<close>), has found no earlier row (\<open>Cleared\<close>), waits for its
  agent (\<open>Asking\<close>), has registered its session (\<open>Placed\<close>) and has written its row (\<open>Written\<close>).
\<close>

datatype stage =
    Locked json
  | Cleared json
  | Asking json new_call
  | Placed new_call string string json
  | Written string json

record attempt =
  an_tenant :: tenant_id
  an_creation :: "creation_metadata option"
  an_stage :: stage

text \<open>\<open>of_locks\<close> are the creation keys that are locked; \<open>of_answers\<close> the answers to requests with a key.\<close>

record office =
  of_desk :: desk
  of_locks :: "string list"
  of_attempts :: "attempt list"
  of_answers :: "(tenant_id \<times> string \<times> json) list"

definition lock_of :: "tenant_id \<Rightarrow> creation_metadata option \<Rightarrow> string option" where
  "lock_of t creation = map_option (\<lambda>m. creation_key t (cm_request_id m)) creation"

definition keys_of :: "attempt \<Rightarrow> string list" where
  "keys_of a = (case lock_of (an_tenant a) (an_creation a) of None \<Rightarrow> [] | Some k \<Rightarrow> [k])"

text \<open>A request goes on to its next stage, or leaves with or without an answer and lets its key go.\<close>

definition proceeds :: "attempt \<Rightarrow> stage \<Rightarrow> desk \<Rightarrow> office \<Rightarrow> office" where
  "proceeds a st dk w = w\<lparr>of_desk := dk, of_attempts := a\<lparr>an_stage := st\<rparr> # remove1 a (of_attempts w)\<rparr>"

definition leaves :: "attempt \<Rightarrow> desk \<Rightarrow> office \<Rightarrow> office" where
  "leaves a dk w =
     w\<lparr>of_desk := dk, of_attempts := remove1 a (of_attempts w), of_locks := fold remove1 (keys_of a) (of_locks w)\<rparr>"

definition answers :: "attempt \<Rightarrow> json \<Rightarrow> desk \<Rightarrow> office \<Rightarrow> office" where
  "answers a reply dk w =
     (leaves a dk w)\<lparr>of_answers := (case an_creation a of None \<Rightarrow> [] | Some m \<Rightarrow> [(an_tenant a, cm_request_id m, reply)]) @ of_answers w\<rparr>"

definition on_life :: "life \<Rightarrow> desk \<Rightarrow> desk" where
  "on_life l dk = dk\<lparr>dk_life := l\<rparr>"

text \<open>The creation key that a row belongs to.\<close>

definition row_claim :: "desk \<Rightarrow> string \<Rightarrow> (tenant_id \<times> string) option" where
  "row_claim dk g =
     Option.bind (Option.bind (lf_store (dk_life dk)) (get_row g)) (\<lambda>row. map_option (\<lambda>rid. (sw_tenant row, rid)) (sw_creation_id row))"

definition has_row :: "desk \<Rightarrow> string \<Rightarrow> bool" where
  "has_row dk g \<longleftrightarrow> Option.bind (lf_store (dk_life dk)) (get_row g) \<noteq> None"

definition placed_ids :: "office \<Rightarrow> string set" where
  "placed_ids w = {g. \<exists>a\<in>set (of_attempts w). \<exists>nc b reply. an_stage a = Placed nc g b reply}"

text \<open>
  \<open>OfOther\<close> is everything else, a restart apart: it may do what it likes with registry, slots, profiles and rows, except
  that no row gets or loses a creation key, and that it does not write the row of a session that is being
  created (see \<open>listing_takes_the_creation_key\<close>).  \<open>OfUndo\<close> follows a row that could not be written.
\<close>

inductive office_step :: "new_settings \<Rightarrow> (string \<Rightarrow> bool) \<Rightarrow> (json \<Rightarrow> string) \<Rightarrow> office \<Rightarrow> office \<Rightarrow> bool" for ns is_uuid ser where
  OfArrive: "session_creation_metadata is_uuid ser request = Inr creation \<Longrightarrow>
    (case lock_of t creation of None \<Rightarrow> locks = [] | Some k \<Rightarrow> k \<notin> set (of_locks w) \<and> locks = [k]) \<Longrightarrow>
    office_step ns is_uuid ser w
      (w\<lparr>of_locks := locks @ of_locks w, of_attempts := \<lparr>an_tenant = t, an_creation = creation, an_stage = Locked request\<rparr> # of_attempts w\<rparr>)"
| OfRepeat: "a \<in> set (of_attempts w) \<Longrightarrow> an_stage a = Locked request \<Longrightarrow>
    deduplicated_session_new_response (lf_store (dk_life (of_desk w))) (an_tenant a) (an_creation a) i = Some (Inr (Some reply)) \<Longrightarrow>
    office_step ns is_uuid ser w (answers a reply (of_desk w) w)"
| OfConflict: "a \<in> set (of_attempts w) \<Longrightarrow> an_stage a = Locked request \<Longrightarrow>
    deduplicated_session_new_response (lf_store (dk_life (of_desk w))) (an_tenant a) (an_creation a) i = Some (Inl e) \<Longrightarrow>
    office_step ns is_uuid ser w (leaves a (of_desk w) w)"
| OfClear: "a \<in> set (of_attempts w) \<Longrightarrow> an_stage a = Locked request \<Longrightarrow>
    deduplicated_session_new_response (lf_store (dk_life (of_desk w))) (an_tenant a) (an_creation a) i = Some (Inr None) \<Longrightarrow>
    office_step ns is_uuid ser w (proceeds a (Cleared (strip_client_creation_metadata request)) (of_desk w) w)"
| OfBegin: "a \<in> set (of_attempts w) \<Longrightarrow> an_stage a = Cleared request \<Longrightarrow>
    new_begin ns su ce (an_tenant a) gid request (of_desk w) = Some (dk, Inr nc) \<Longrightarrow>
    office_step ns is_uuid ser w (proceeds a (Asking request nc) dk w)"
| OfRefuse: "a \<in> set (of_attempts w) \<Longrightarrow> an_stage a = Cleared request \<Longrightarrow>
    new_begin ns su ce (an_tenant a) gid request (of_desk w) = Some (dk, Inl e) \<Longrightarrow>
    office_step ns is_uuid ser w (leaves a dk w)"
| OfFail: "a \<in> set (of_attempts w) \<Longrightarrow> an_stage a = Asking request nc \<Longrightarrow> backend_session outcome = Inl e \<Longrightarrow>
    new_refused (an_tenant a) (dk_life (of_desk w)) = Some l \<Longrightarrow>
    office_step ns is_uuid ser w (leaves a (on_life l (of_desk w)) w)"
| OfPlace: "a \<in> set (of_attempts w) \<Longrightarrow> an_stage a = Asking request nc \<Longrightarrow> outcome = Inr response \<Longrightarrow>
    backend_session outcome = Inr b \<Longrightarrow> g = new_gid fresh nc \<Longrightarrow> \<not> has_row (of_desk w) g \<Longrightarrow> g \<notin> placed_ids w \<Longrightarrow>
    l = new_registers now (an_tenant a) fresh nc b (dk_life (of_desk w)) \<Longrightarrow>
    new_answer (an_tenant a) g (an_creation a) response l = Some reply \<Longrightarrow>
    office_step ns is_uuid ser w (proceeds a (Placed nc g b reply) (on_life l (of_desk w)) w)"
| OfWrite: "a \<in> set (of_attempts w) \<Longrightarrow> an_stage a = Placed nc g b reply \<Longrightarrow>
    new_records nanos stamp (an_tenant a) g nc b (an_creation a) (dk_life (of_desk w)) = (l, Inr u) \<Longrightarrow>
    office_step ns is_uuid ser w (proceeds a (Written g reply) (on_life l (of_desk w)) w)"
| OfUndo: "a \<in> set (of_attempts w) \<Longrightarrow> an_stage a = Placed nc g b reply \<Longrightarrow>
    new_undone (ns_life ns) now (an_tenant a) g (dk_life (of_desk w)) = Some l' \<Longrightarrow>
    office_step ns is_uuid ser w (leaves a (on_life l' (of_desk w)) w)"
| OfCommit: "a \<in> set (of_attempts w) \<Longrightarrow> an_stage a = Written g reply \<Longrightarrow>
    new_committed (an_tenant a) g (dk_life (of_desk w)) = Some l \<Longrightarrow>
    office_step ns is_uuid ser w (answers a reply (on_life l (of_desk w)) w)"
| OfOther: "(\<And>g. row_claim dk g = row_claim (of_desk w) g) \<Longrightarrow> (\<And>g. g \<in> placed_ids w \<Longrightarrow> \<not> has_row dk g) \<Longrightarrow>
    (lf_store (dk_life dk) = None \<longleftrightarrow> lf_store (dk_life (of_desk w)) = None) \<Longrightarrow>
    (\<And>db. lf_store (dk_life dk) = Some db \<Longrightarrow> distinct (map fst (db_rows db))) \<Longrightarrow>
    office_step ns is_uuid ser w (w\<lparr>of_desk := dk\<rparr>)"
| OfRestart: "lf_store (dk_life dk) = lf_store (dk_life (of_desk w)) \<Longrightarrow>
    office_step ns is_uuid ser w (w\<lparr>of_desk := dk, of_locks := [], of_attempts := []\<rparr>)"

inductive office_reachable :: "new_settings \<Rightarrow> (string \<Rightarrow> bool) \<Rightarrow> (json \<Rightarrow> string) \<Rightarrow> office \<Rightarrow> bool" for ns is_uuid ser where
  OfStart: "lf_store (dk_life dk) = Some session_db_new \<Longrightarrow>
    office_reachable ns is_uuid ser \<lparr>of_desk = dk, of_locks = [], of_attempts = [], of_answers = []\<rparr>"
| OfMore: "office_reachable ns is_uuid ser w \<Longrightarrow> office_step ns is_uuid ser w w' \<Longrightarrow> office_reachable ns is_uuid ser w'"

section \<open>The invariant\<close>

text \<open>A request that has looked and not yet written: no row has its key, and its session has no row.\<close>

fun still_open :: "stage \<Rightarrow> bool" where
  "still_open (Locked r) = False"
| "still_open (Written g r) = False"
| "still_open st = True"

definition creation_id :: "attempt \<Rightarrow> (tenant_id \<times> string) option" where
  "creation_id a = map_option (\<lambda>m. (an_tenant a, cm_request_id m)) (an_creation a)"

definition stage_ok :: "office \<Rightarrow> attempt \<Rightarrow> bool" where
  "stage_ok w a \<longleftrightarrow>
     (still_open (an_stage a) \<longrightarrow> (\<forall>g. creation_id a \<noteq> None \<longrightarrow> row_claim (of_desk w) g \<noteq> creation_id a)) \<and>
     (case an_stage a of
        Placed nc g b reply \<Rightarrow> \<not> has_row (of_desk w) g \<and> str_at [''result'', ''sessionId''] reply = Some g
      | Written g reply \<Rightarrow> (creation_id a \<noteq> None \<longrightarrow> row_claim (of_desk w) g = creation_id a) \<and> str_at [''result'', ''sessionId''] reply = Some g
      | _ \<Rightarrow> True)"

definition placed_at :: "string \<Rightarrow> attempt \<Rightarrow> bool" where
  "placed_at g a \<longleftrightarrow> (\<exists>nc b reply. an_stage a = Placed nc g b reply)"

definition holds_key :: "string \<Rightarrow> attempt \<Rightarrow> bool" where
  "holds_key k a \<longleftrightarrow> lock_of (an_tenant a) (an_creation a) = Some k"

definition office_ok :: "office \<Rightarrow> bool" where
  "office_ok w \<longleftrightarrow>
     (\<exists>db. lf_store (dk_life (of_desk w)) = Some db \<and> distinct (map fst (db_rows db))) \<and>
     (\<forall>k. length (filter (holds_key k) (of_attempts w)) \<le> 1) \<and>
     (\<forall>a\<in>set (of_attempts w). \<forall>k. holds_key k a \<longrightarrow> k \<in> set (of_locks w)) \<and> distinct (of_locks w) \<and>
     (\<forall>g. length (filter (placed_at g) (of_attempts w)) \<le> 1) \<and>
     (\<forall>a\<in>set (of_attempts w). stage_ok w a) \<and>
     (\<forall>g g'. row_claim (of_desk w) g \<noteq> None \<longrightarrow> row_claim (of_desk w) g = row_claim (of_desk w) g' \<longrightarrow> g = g') \<and>
     (\<forall>t rid reply. (t, rid, reply) \<in> set (of_answers w) \<longrightarrow> (\<exists>g. str_at [''result'', ''sessionId''] reply = Some g \<and> row_claim (of_desk w) g = Some (t, rid)))"

lemma office_okD:
  assumes "office_ok w"
  shows "\<exists>db. lf_store (dk_life (of_desk w)) = Some db \<and> distinct (map fst (db_rows db))"
    and "length (filter (holds_key k) (of_attempts w)) \<le> 1"
    and "a \<in> set (of_attempts w) \<Longrightarrow> holds_key k a \<Longrightarrow> k \<in> set (of_locks w)" and "distinct (of_locks w)"
    and "length (filter (placed_at g) (of_attempts w)) \<le> 1"
    and "a \<in> set (of_attempts w) \<Longrightarrow> stage_ok w a"
    and "row_claim (of_desk w) g \<noteq> None \<Longrightarrow> row_claim (of_desk w) g = row_claim (of_desk w) g' \<Longrightarrow> g = g'"
    and "(t, rid, reply) \<in> set (of_answers w) \<Longrightarrow> \<exists>g. str_at [''result'', ''sessionId''] reply = Some g \<and> row_claim (of_desk w) g = Some (t, rid)"
proof -
  note ok = assms [unfolded office_ok_def]
  show "\<exists>db. lf_store (dk_life (of_desk w)) = Some db \<and> distinct (map fst (db_rows db))" using ok by (elim conjE)
  show "length (filter (holds_key k) (of_attempts w)) \<le> 1" "distinct (of_locks w)" "length (filter (placed_at g) (of_attempts w)) \<le> 1"
    using ok by simp_all
  show "a \<in> set (of_attempts w) \<Longrightarrow> holds_key k a \<Longrightarrow> k \<in> set (of_locks w)" using ok by (elim conjE) simp
  show "a \<in> set (of_attempts w) \<Longrightarrow> stage_ok w a" using ok by (elim conjE) simp
  show "row_claim (of_desk w) g \<noteq> None \<Longrightarrow> row_claim (of_desk w) g = row_claim (of_desk w) g' \<Longrightarrow> g = g'" using ok by (elim conjE) metis
  show "(t, rid, reply) \<in> set (of_answers w) \<Longrightarrow> \<exists>g. str_at [''result'', ''sessionId''] reply = Some g \<and> row_claim (of_desk w) g = Some (t, rid)"
    using ok by (elim conjE) metis
qed

lemma office_okI:
  assumes "\<exists>db. lf_store (dk_life (of_desk w)) = Some db \<and> distinct (map fst (db_rows db))"
    and "\<And>k. length (filter (holds_key k) (of_attempts w)) \<le> 1"
    and "\<And>a k. a \<in> set (of_attempts w) \<Longrightarrow> holds_key k a \<Longrightarrow> k \<in> set (of_locks w)" and "distinct (of_locks w)"
    and "\<And>g. length (filter (placed_at g) (of_attempts w)) \<le> 1"
    and "\<And>a. a \<in> set (of_attempts w) \<Longrightarrow> stage_ok w a"
    and "\<And>g g'. row_claim (of_desk w) g \<noteq> None \<Longrightarrow> row_claim (of_desk w) g = row_claim (of_desk w) g' \<Longrightarrow> g = g'"
    and "\<And>t rid reply. (t, rid, reply) \<in> set (of_answers w) \<Longrightarrow> \<exists>g. str_at [''result'', ''sessionId''] reply = Some g \<and> row_claim (of_desk w) g = Some (t, rid)"
  shows "office_ok w"
  unfolding office_ok_def by (intro conjI allI ballI impI) (fact assms(1) assms(2) assms(4) assms(5) | erule (1) assms(3) assms(7) | erule assms(6) assms(8))+

lemma filter_swap:
  assumes "a \<in> set xs"
  shows "length (filter P (b # remove1 a xs)) + (if P a then 1 else 0) = length (filter P xs) + (if P b then 1 else 0)"
proof -
  have "length (filter P (remove1 a xs)) + (if P a then 1 else 0) = length (filter P xs)"
    using assms by (induction xs) auto
  then show ?thesis by simp
qed

lemma filter_gone: "length (filter P (remove1 a xs)) \<le> length (filter P xs)"
  by (induction xs) auto

lemma only_one:
  assumes "a \<in> set xs" and "P a" and "length (filter P xs) \<le> 1" and "b \<in> set (remove1 a xs)"
  shows "\<not> P b"
proof
  assume b: "P b"
  have "b \<in> set (filter P (remove1 a xs))" using assms(4) b by simp
  then have "0 < length (filter P (remove1 a xs))" by (rule length_pos_if_in_set)
  with filter_swap [OF assms(1), of P a] assms(2,3) show False by simp
qed

lemma in_swap: "x \<in> set (b # remove1 a xs) \<Longrightarrow> x = b \<or> x \<in> set xs"
  by (auto dest: set_remove1_subset [THEN subsetD])

text \<open>What the rows say depends on the table only.\<close>

lemma same_rows:
  assumes "lf_store (dk_life dk) = lf_store (dk_life dk')"
  shows "row_claim dk g = row_claim dk' g" and "has_row dk g = has_row dk' g"
  using assms by (simp_all add: row_claim_def has_row_def)

lemma stage_ok_rows:
  assumes "\<And>g. row_claim (of_desk w') g = row_claim (of_desk w) g"
    and "\<And>nc g b reply. an_stage a = Placed nc g b reply \<Longrightarrow> has_row (of_desk w') g = has_row (of_desk w) g"
  shows "stage_ok w' a = stage_ok w a"
  using assms by (auto simp: stage_ok_def split: stage.splits)

lemma proceeds_ok:
  assumes "office_ok w" and "a \<in> set (of_attempts w)" and "lf_store (dk_life dk) = lf_store (dk_life (of_desk w))"
    and "stage_ok w (a\<lparr>an_stage := st\<rparr>)" and "\<And>g. placed_at g (a\<lparr>an_stage := st\<rparr>) \<Longrightarrow> g \<notin> placed_ids w"
  shows "office_ok (proceeds a st dk w)"
proof -
  let ?a = "a\<lparr>an_stage := st\<rparr>"
  have rows: "row_claim dk g = row_claim (of_desk w) g" "has_row dk g = has_row (of_desk w) g" for g using same_rows [OF assms(3)] by auto
  have key: "holds_key k ?a = holds_key k a" for k by (simp add: holds_key_def)
  have one: "length (filter (holds_key k) (?a # remove1 a (of_attempts w))) \<le> 1" for k
    using filter_swap [OF assms(2), of "holds_key k" ?a] office_okD(2) [OF assms(1), of k] by (simp only: key split: if_splits)
  have "length (filter (placed_at g) (of_attempts w)) = 0" if "placed_at g ?a" for g
    using assms(5) [OF that] by (auto simp: placed_ids_def placed_at_def)
  then have placed: "length (filter (placed_at g) (?a # remove1 a (of_attempts w))) \<le> 1" for g
    using filter_swap [OF assms(2), of "placed_at g" ?a] office_okD(5) [OF assms(1), of g] by (cases "placed_at g ?a") (auto split: if_splits)
  have stages: "stage_ok (proceeds a st dk w) b" if "b \<in> set (?a # remove1 a (of_attempts w))" for b
    using in_swap [OF that] office_okD(6) [OF assms(1)] assms(4) stage_ok_rows [of "proceeds a st dk w" w] rows by (auto simp: proceeds_def)
  have locks: "k \<in> set (of_locks w)" if "b \<in> set (?a # remove1 a (of_attempts w))" "holds_key k b" for b k
    using in_swap [OF that(1)] that(2) office_okD(3) [OF assms(1)] assms(2) key by auto
  have new: "of_attempts (proceeds a st dk w) = ?a # remove1 a (of_attempts w)" "of_locks (proceeds a st dk w) = of_locks w"
      "of_desk (proceeds a st dk w) = dk" "of_answers (proceeds a st dk w) = of_answers w"
    by (simp_all add: proceeds_def)
  show ?thesis
  proof (rule office_okI, unfold new)
    show "\<exists>db. lf_store (dk_life dk) = Some db \<and> distinct (map fst (db_rows db))" using office_okD(1) [OF assms(1)] assms(3) by simp
    show "\<exists>g. str_at [''result'', ''sessionId''] reply = Some g \<and> row_claim dk g = Some (t, rid)" if "(t, rid, reply) \<in> set (of_answers w)" for t rid reply
      using office_okD(8) [OF assms(1) that] rows by simp
    show "row_claim dk g \<noteq> None \<Longrightarrow> row_claim dk g = row_claim dk g' \<Longrightarrow> g = g'" for g g'
      using office_okD(7) [OF assms(1), of g g'] rows by simp
  qed (use one placed stages locks office_okD(4) [OF assms(1)] in blast)+
qed

lemma leaves_ok:
  assumes "office_ok w" and "a \<in> set (of_attempts w)" and "lf_store (dk_life dk) = lf_store (dk_life (of_desk w))"
    and "\<And>t rid reply. (t, rid, reply) \<in> set new_answers \<Longrightarrow> \<exists>g. str_at [''result'', ''sessionId''] reply = Some g \<and> row_claim (of_desk w) g = Some (t, rid)"
  shows "office_ok (leaves a dk w\<lparr>of_answers := new_answers @ of_answers w\<rparr>)"
proof -
  let ?w = "leaves a dk w\<lparr>of_answers := new_answers @ of_answers w\<rparr>"
  have new: "of_attempts ?w = remove1 a (of_attempts w)" "of_locks ?w = fold remove1 (keys_of a) (of_locks w)"
      "of_desk ?w = dk" "of_answers ?w = new_answers @ of_answers w"
    by (simp_all add: leaves_def)
  have rows: "row_claim dk g = row_claim (of_desk w) g" "has_row dk g = has_row (of_desk w) g" for g using same_rows [OF assms(3)] by auto
  have sub: "b \<in> set (remove1 a (of_attempts w)) \<Longrightarrow> b \<in> set (of_attempts w)" for b by (meson notin_set_remove1)
  show ?thesis
  proof (rule office_okI, unfold new)
    show "\<exists>db. lf_store (dk_life dk) = Some db \<and> distinct (map fst (db_rows db))" using office_okD(1) [OF assms(1)] assms(3) by simp
    show "length (filter (holds_key k) (remove1 a (of_attempts w))) \<le> 1" for k
      using filter_gone [of "holds_key k" a "of_attempts w"] office_okD(2) [OF assms(1), of k] by simp
    show "length (filter (placed_at g) (remove1 a (of_attempts w))) \<le> 1" for g
      using filter_gone [of "placed_at g" a "of_attempts w"] office_okD(5) [OF assms(1), of g] by simp
    show "distinct (fold remove1 (keys_of a) (of_locks w))"
      using office_okD(4) [OF assms(1)] by (simp add: keys_of_def split: option.split)
    fix b k assume b: "b \<in> set (remove1 a (of_attempts w))" "holds_key k b"
    have "\<not> holds_key k a" using only_one [OF assms(2), of "holds_key k" b] office_okD(2) [OF assms(1)] b by blast
    moreover have "k \<in> set (of_locks w)" using office_okD(3) [OF assms(1) sub [OF b(1)] b(2)] .
    ultimately show "k \<in> set (fold remove1 (keys_of a) (of_locks w))"
      by (auto simp: keys_of_def holds_key_def split: option.split)
  next
    fix b assume "b \<in> set (remove1 a (of_attempts w))"
    from office_okD(6) [OF assms(1) sub [OF this]] show "stage_ok ?w b" using stage_ok_rows [of ?w w b] new(3) rows by simp
  next
    show "row_claim dk g \<noteq> None \<Longrightarrow> row_claim dk g = row_claim dk g' \<Longrightarrow> g = g'" for g g'
      using office_okD(7) [OF assms(1), of g g'] rows by simp
    show "\<exists>g. str_at [''result'', ''sessionId''] reply = Some g \<and> row_claim dk g = Some (t, rid)"
      if "(t, rid, reply) \<in> set (new_answers @ of_answers w)" for t rid reply
      using that office_okD(8) [OF assms(1), of t rid reply] assms(4) [of t rid reply] rows by auto
  qed
qed

lemma leaves_quietly:
  assumes "office_ok w" and "a \<in> set (of_attempts w)" and "lf_store (dk_life dk) = lf_store (dk_life (of_desk w))"
  shows "office_ok (leaves a dk w)"
proof -
  have "leaves a dk w\<lparr>of_answers := [] @ of_answers w\<rparr> = leaves a dk w" by (simp add: leaves_def)
  with leaves_ok [OF assms, of "[]"] show ?thesis by simp
qed

lemma answers_ok:
  assumes "office_ok w" and "a \<in> set (of_attempts w)" and "lf_store (dk_life dk) = lf_store (dk_life (of_desk w))"
    and "\<And>c. creation_id a = Some c \<Longrightarrow> \<exists>g. str_at [''result'', ''sessionId''] reply = Some g \<and> row_claim (of_desk w) g = Some c"
  shows "office_ok (answers a reply dk w)"
proof -
  let ?new = "case an_creation a of None \<Rightarrow> [] | Some m \<Rightarrow> [(an_tenant a, cm_request_id m, reply)]"
  have "answers a reply dk w = leaves a dk w\<lparr>of_answers := ?new @ of_answers w\<rparr>" by (simp add: answers_def leaves_def)
  moreover have "office_ok (leaves a dk w\<lparr>of_answers := ?new @ of_answers w\<rparr>)"
    by (rule leaves_ok [OF assms(1-3)]) (use assms(4) in \<open>cases "an_creation a"; simp add: creation_id_def\<close>)
  ultimately show ?thesis by simp
qed

section \<open>The operations and the rows\<close>

lemma new_begin_store: "new_begin ns su ce t gid request dk = Some (dk', r) \<Longrightarrow> lf_store (dk_life dk') = lf_store (dk_life dk)"
  by (auto simp: new_begin_def new_enters_def Let_def split: option.splits sum.splits prod.splits)

lemma new_refused_store: "new_refused t l = Some l' \<Longrightarrow> lf_store l' = lf_store l"
  by (auto simp: new_refused_def)

lemma new_registers_store: "lf_store (new_registers now t fresh nc b l) = lf_store l"
  by (simp add: new_registers_def Let_def on_gateway_def cancel_unreferenced_shutdown_def split: option.split)

lemma new_undone_store: "new_undone ls now t g l = Some l' \<Longrightarrow> lf_store l' = lf_store l"
  by (auto simp: new_undone_def mark_unreferenced_if_idle_def stop_if_session_scoped_def split: option.splits)

lemma new_committed_store: "new_committed t g l = Some l' \<Longrightarrow> lf_store l' = lf_store l"
  by (auto simp: new_committed_def)

text \<open>The answers name the session.\<close>

lemma merge_creation_meta_other:
  assumes "merge_creation_meta v meta = Some v'" and "k \<noteq> ''_meta''"
  shows "json_get k v' = json_get k v"
proof -
  define goes_on where "goes_on u = (case (Option.bind (json_get ''_meta'' u) as_object, as_object meta) of
          (Some members, Some additions) \<Rightarrow> set_path [''_meta''] (JObject (fold (\<lambda>(k, x). AList.update k x) additions members)) u
        | _ \<Rightarrow> Some u)" for u
  have "Option.bind (case Option.bind (json_get ''_meta'' v) as_object of Some members \<Rightarrow> Some v | None \<Rightarrow> set_path [''_meta''] (JObject []) v) goes_on
      = Some v'"
    using assms(1) unfolding merge_creation_meta_def Let_def goes_on_def .
  then obtain u where u: "u = v \<or> set_path [''_meta''] (JObject []) v = Some u" "goes_on u = Some v'"
    by (cases "Option.bind (json_get ''_meta'' v) as_object") (auto simp: bind_eq_Some_conv simp del: set_path.simps)
  from u(1) have "json_get k u = json_get k v" using set_path_elsewhere [OF _ assms(2)] by blast
  moreover from u(2) have "json_get k v' = json_get k u"
    using set_path_elsewhere [OF _ assms(2)] unfolding goes_on_def by (auto simp del: set_path.simps split: option.splits)
  ultimately show ?thesis by simp
qed

lemma new_answer_session:
  assumes "backend_session (Inr response) = Inr b" and "new_answer t g creation response l = Some reply"
  shows "str_at [''result'', ''sessionId''] reply = Some g"
proof -
  have "\<exists>s. str_at [''result'', ''sessionId''] response = Some s"
    using assms(1) by (auto simp: backend_session_def extract_backend_session_id_def split: option.splits)
  then obtain result where r: "json_get ''result'' response = Some result" "\<exists>x. json_get ''sessionId'' result = Some x"
    by (auto simp: str_at_def bind_eq_Some_conv)
  then obtain kvs rs where o: "response = JObject kvs" "result = JObject rs" using json_get_object by metis
  obtain result' where r': "json_get ''sessionId'' result' = Some (JString g)" "\<exists>xs. result' = JObject xs"
      "reply = set_member ''result'' (case permission_profile_of t g (lf_registry l) of None \<Rightarrow> result'
                 | Some p \<Rightarrow> set_member ''permissionProfile'' (permission_profile_json p) result') response"
  proof (cases creation)
    case None
    have "reply = set_member ''result'' (case permission_profile_of t g (lf_registry l) of None \<Rightarrow> set_member ''sessionId'' (JString g) result
        | Some p \<Rightarrow> set_member ''permissionProfile'' (permission_profile_json p) (set_member ''sessionId'' (JString g) result)) response"
      using assms(2) by (simp add: new_answer_def r(1) None)
    moreover have "set_member ''sessionId'' (JString g) result = JObject (AList.update ''sessionId'' (JString g) rs)" by (simp add: o(2) set_member_def)
    ultimately show thesis using that [of "set_member ''sessionId'' (JString g) result"] by (simp add: update_conv')
  next
    case (Some m)
    then obtain v where v: "merge_creation_meta (set_member ''sessionId'' (JString g) result) (client_meta (cm_request_id m) (cm_workspace_id m)) = Some v"
        "reply = set_member ''result'' (case permission_profile_of t g (lf_registry l) of None \<Rightarrow> v
                 | Some p \<Rightarrow> set_member ''permissionProfile'' (permission_profile_json p) v) response"
      using assms(2) r(1) by (auto simp: new_answer_def)
    have "json_get ''sessionId'' v = Some (JString g)"
      using merge_creation_meta_other [OF v(1), of "''sessionId''"] by (simp add: o(2) set_member_def update_conv')
    then show thesis using that [of v] v(2) json_get_object by blast
  qed
  then show ?thesis by (auto simp: o set_member_def str_at_def update_conv' split: option.splits)
qed

lemma row_claim_iff:
  assumes "lf_store (dk_life dk) = Some db" and "distinct (map fst (db_rows db))"
  shows "row_claim dk g = Some (t, rid) \<longleftrightarrow> (\<exists>row. (g, row) \<in> set (db_rows db) \<and> sw_tenant row = t \<and> sw_creation_id row = Some rid)"
  using assms by (auto simp: row_claim_def get_row_def bind_eq_Some_conv map_of_eq_Some_iff)

lemma found_row:
  assumes "lf_store (dk_life dk) = Some db" and "distinct (map fst (db_rows db))"
  shows "find_by_creation_request t rid db = None \<longleftrightarrow> (\<forall>g. row_claim dk g \<noteq> Some (t, rid))"
    and "find_by_creation_request t rid db = Some (g, row) \<Longrightarrow> row_claim dk g = Some (t, rid)"
proof -
  show "find_by_creation_request t rid db = None \<longleftrightarrow> (\<forall>g. row_claim dk g \<noteq> Some (t, rid))"
    by (force simp: find_by_creation_request_def find_None_iff row_claim_iff [OF assms])
  assume "find_by_creation_request t rid db = Some (g, row)"
  then have "(g, row) \<in> set (db_rows db) \<and> sw_tenant row = t \<and> sw_creation_id row = Some rid"
    unfolding find_by_creation_request_def by (auto simp: find_Some_iff dest: nth_mem)
  then show "row_claim dk g = Some (t, rid)" by (auto simp: row_claim_iff [OF assms])
qed

lemma repeated_answer:
  assumes "lf_store (dk_life dk) = Some db" and "distinct (map fst (db_rows db))"
    and "deduplicated_session_new_response (lf_store (dk_life dk)) t creation i = Some (Inr (Some reply))"
  shows "\<exists>m g. creation = Some m \<and> row_claim dk g = Some (t, cm_request_id m) \<and> str_at [''result'', ''sessionId''] reply = Some g"
proof -
  obtain m where m: "creation = Some m" using assms(1,3) by (cases creation) (auto simp: deduplicated_session_new_response_def)
  obtain g row where f: "find_by_creation_request t (cm_request_id m) db = Some (g, row)"
    using assms(1,3) m by (auto simp: deduplicated_session_new_response_def split: option.splits)
  obtain result where r: "(case creation_meta_json row of None \<Rightarrow> Some (JObject [(''sessionId'', JString g)])
        | Some meta \<Rightarrow> merge_creation_meta (JObject [(''sessionId'', JString g)]) meta) = Some result"
      "reply = JObject [(''jsonrpc'', JString ''2.0''), (''id'', i), (''result'', result)]"
    using assms(1,3) m f by (auto simp: deduplicated_session_new_response_def Let_def split: if_splits)
  have "json_get ''sessionId'' result = Some (JString g)"
    using r(1) merge_creation_meta_other [of _ _ result "''sessionId''"] by (auto split: option.splits)
  with found_row(2) [OF assms(1,2) f] m show ?thesis by (auto simp: r(2) str_at_def)
qed

lemma cleared_key:
  assumes "lf_store (dk_life dk) = Some db" and "distinct (map fst (db_rows db))"
    and "deduplicated_session_new_response (lf_store (dk_life dk)) t (Some m) i = Some (Inr None)"
  shows "row_claim dk g \<noteq> Some (t, cm_request_id m)"
proof -
  have "find_by_creation_request t (cm_request_id m) db = None"
    using assms(1,3) by (auto simp: deduplicated_session_new_response_def Let_def split: option.splits if_splits)
  then show ?thesis by (simp add: found_row(1) [OF assms(1,2)])
qed

text \<open>The row of a placed session is written, with the key of its request.\<close>

lemma written_row:
  assumes "lf_store (dk_life dk) = Some db" and "distinct (map fst (db_rows db))" and "\<not> has_row dk g"
    and "new_records nanos stamp t g nc b creation (dk_life dk) = (l, Inr u)"
  shows "\<exists>db'. lf_store l = Some db' \<and> distinct (map fst (db_rows db'))"
    and "has_row (on_life l dk) g' \<longleftrightarrow> g' = g \<or> has_row dk g'"
    and "row_claim (on_life l dk) g' = (if g' = g then map_option (\<lambda>m. (t, cm_request_id m)) creation else row_claim dk g')"
    and "\<And>m. creation = Some m \<Longrightarrow> row_claim dk g' \<noteq> Some (t, cm_request_id m)"
proof -
  have none: "get_row g db = None" using assms(1,3) by (simp add: has_row_def)
  obtain db' r where rec: "record_session nanos g (nc_agent nc) b (nc_profile nc) stamp t (new_recovery nanos nc) creation db = (db', r)"
    by (cases "record_session nanos g (nc_agent nc) b (nc_profile nc) stamp t (new_recovery nanos nc) creation db")
  then have l: "l = (dk_life dk)\<lparr>lf_store := Some db'\<rparr>" "r = Inr ()"
    using assms(1,4) by (cases r; simp add: new_records_def row_statement_def)+
  have free: "\<not> creation_taken t (cm_request_id m) db" if "creation = Some m" for m
    using rec l(2) none that by (auto simp: record_session_def Let_def split: if_splits)
  have rows: "get_row g' db' = (if g' = g then Some (fresh_row nanos (nc_agent nc) b (nc_profile nc) stamp t (new_recovery nanos nc) creation) else get_row g' db)" for g'
    using rows_of_record [of g' nanos g "nc_agent nc" b "nc_profile nc" stamp t "new_recovery nanos nc" creation db] rec none free
    by (cases creation) simp_all
  show "\<exists>db'. lf_store l = Some db' \<and> distinct (map fst (db_rows db'))"
    using distinct_rows_record [OF assms(2), of nanos g "nc_agent nc" b "nc_profile nc" stamp t "new_recovery nanos nc" creation] rec l(1) by simp
  show "has_row (on_life l dk) g' \<longleftrightarrow> g' = g \<or> has_row dk g'" by (simp add: has_row_def on_life_def l(1) rows assms(1))
  show "row_claim (on_life l dk) g' = (if g' = g then map_option (\<lambda>m. (t, cm_request_id m)) creation else row_claim dk g')"
    by (cases creation) (simp_all add: row_claim_def on_life_def l(1) rows assms(1) fresh_row_def Let_def)
  show "row_claim dk g' \<noteq> Some (t, cm_request_id m)" if "creation = Some m" for m
    using free [OF that] by (force simp: row_claim_iff [OF assms(1,2)] creation_taken_def list_ex_iff)
qed

section \<open>Every step keeps the invariant\<close>

lemma on_life_store: "lf_store l = lf_store (dk_life dk) \<Longrightarrow> lf_store (dk_life (on_life l dk)) = lf_store (dk_life dk)"
  by (simp add: on_life_def)

lemma same_creation_one_key:
  assumes "creation_id a = Some c" and "creation_id b = Some c"
  shows "\<exists>k. holds_key k a \<and> holds_key k b"
  using assms by (auto simp: creation_id_def holds_key_def lock_of_def)

lemma creation_id_stage [simp]: "creation_id (a\<lparr>an_stage := st\<rparr>) = creation_id a"
  by (simp add: creation_id_def)

lemma arrive_ok:
  assumes "office_ok w" and "an_stage a = Locked request" and "case lock_of (an_tenant a) (an_creation a) of None \<Rightarrow> locks = [] | Some k \<Rightarrow> k \<notin> set (of_locks w) \<and> locks = [k]"
  shows "office_ok (w\<lparr>of_locks := locks @ of_locks w, of_attempts := a # of_attempts w\<rparr>)"
proof -
  let ?w = "w\<lparr>of_locks := locks @ of_locks w, of_attempts := a # of_attempts w\<rparr>"
  have key: "holds_key k a \<Longrightarrow> k \<notin> set (of_locks w) \<and> locks = [k]" for k using assms(3) by (simp add: holds_key_def)
  have "filter (holds_key k) (of_attempts w) = []" if "holds_key k a" for k
    using key [OF that] office_okD(3) [OF assms(1)] by (auto simp: filter_empty_conv)
  then have one: "length (filter (holds_key k) (a # of_attempts w)) \<le> 1" for k
    using office_okD(2) [OF assms(1), of k] by (cases "holds_key k a") simp_all
  have "\<not> placed_at g a" for g by (simp add: placed_at_def assms(2))
  then have placed: "length (filter (placed_at g) (a # of_attempts w)) \<le> 1" for g using office_okD(5) [OF assms(1), of g] by simp
  have stages: "stage_ok ?w b" if "b \<in> set (a # of_attempts w)" for b
    using that office_okD(6) [OF assms(1), of b] stage_ok_rows [of ?w w b] by (auto simp: stage_ok_def assms(2))
  have locks: "k \<in> set (locks @ of_locks w)" if "b \<in> set (a # of_attempts w)" "holds_key k b" for b k
    using that key [of k] office_okD(3) [OF assms(1), of b k] by auto
  have dist: "distinct (locks @ of_locks w)" using assms(3) office_okD(4) [OF assms(1)] by (auto split: option.splits)
  have parts: "of_attempts ?w = a # of_attempts w" "of_locks ?w = locks @ of_locks w" "of_desk ?w = of_desk w" "of_answers ?w = of_answers w"
    by simp_all
  show ?thesis
    by (rule office_okI, unfold parts)
      (fact office_okD(1) [OF assms(1)] one locks dist placed stages office_okD(7) [OF assms(1)] office_okD(8) [OF assms(1)])+
qed

lemma write_ok:
  assumes "office_ok w" and "a \<in> set (of_attempts w)" and "an_stage a = Placed nc g b reply"
    and "new_records nanos stamp (an_tenant a) g nc b (an_creation a) (dk_life (of_desk w)) = (l, Inr u)"
  shows "office_ok (proceeds a (Written g reply) (on_life l (of_desk w)) w)"
proof -
  let ?a = "a\<lparr>an_stage := Written g reply\<rparr>" let ?dk = "on_life l (of_desk w)" let ?w = "proceeds a (Written g reply) ?dk w"
  obtain db where db: "lf_store (dk_life (of_desk w)) = Some db" "distinct (map fst (db_rows db))" using office_okD(1) [OF assms(1)] by blast
  have sa: "\<not> has_row (of_desk w) g" "str_at [''result'', ''sessionId''] reply = Some g"
    using office_okD(6) [OF assms(1,2)] by (simp_all add: stage_ok_def assms(3))
  note wr = written_row [OF db sa(1) assms(4)]
  have claim: "row_claim ?dk g' = (if g' = g then creation_id a else row_claim (of_desk w) g')" for g' using wr(3) by (simp add: creation_id_def)
  have none: "row_claim (of_desk w) g = None" using sa(1) by (auto simp: has_row_def row_claim_def)
  have free: "creation_id a = Some c \<Longrightarrow> row_claim (of_desk w) g' \<noteq> Some c" for c g' using wr(4) by (auto simp: creation_id_def)
  have other: "stage_ok ?w x" if "x \<in> set (remove1 a (of_attempts w))" for x
  proof -
    have x: "x \<in> set (of_attempts w)" using that by (meson notin_set_remove1)
    have ok: "stage_ok w x" by (rule office_okD(6) [OF assms(1) x])
    have id: "creation_id x \<noteq> creation_id a \<or> creation_id x = None"
      using same_creation_one_key [of a _ x] only_one [OF assms(2) _ office_okD(2) [OF assms(1)] that] by (metis not_Some_eq)
    have gx: "\<not> placed_at g x" using only_one [OF assms(2) _ office_okD(5) [OF assms(1)] that, of g] assms(3) by (auto simp: placed_at_def)
    have 1: "row_claim ?dk g' \<noteq> creation_id x" if "still_open (an_stage x)" "creation_id x \<noteq> None" for g'
      using ok that id claim by (auto simp: stage_ok_def)
    have 2: "row_claim ?dk g' = creation_id x" if "an_stage x = Written g' rep" "creation_id x \<noteq> None" for g' rep
      using ok that none claim by (auto simp: stage_ok_def)
    show ?thesis using ok 1 2 gx wr(2) by (auto simp: stage_ok_def proceeds_def placed_at_def split: stage.splits)
  qed
  have this_one: "stage_ok ?w ?a" using sa(2) claim by (simp add: stage_ok_def proceeds_def)
  have key: "holds_key k ?a = holds_key k a" for k by (simp add: holds_key_def)
  have parts: "of_attempts ?w = ?a # remove1 a (of_attempts w)" "of_locks ?w = of_locks w" "of_desk ?w = ?dk" "of_answers ?w = of_answers w"
    by (simp_all add: proceeds_def)
  show ?thesis
  proof (rule office_okI, unfold parts)
    show "\<exists>db. lf_store (dk_life ?dk) = Some db \<and> distinct (map fst (db_rows db))" using wr(1) by (simp add: on_life_def)
    show "length (filter (holds_key k) (?a # remove1 a (of_attempts w))) \<le> 1" for k
      using filter_swap [OF assms(2), of "holds_key k" ?a] office_okD(2) [OF assms(1), of k] by (simp only: key split: if_splits)
    show "k \<in> set (of_locks w)" if "x \<in> set (?a # remove1 a (of_attempts w))" "holds_key k x" for x k
      using in_swap [OF that(1)] that(2) office_okD(3) [OF assms(1)] assms(2) key by auto
    show "distinct (of_locks w)" by (rule office_okD(4) [OF assms(1)])
    show "length (filter (placed_at g') (?a # remove1 a (of_attempts w))) \<le> 1" for g'
      using filter_gone [of "placed_at g'" a "of_attempts w"] office_okD(5) [OF assms(1), of g'] by (simp add: placed_at_def)
    show "stage_ok ?w x" if "x \<in> set (?a # remove1 a (of_attempts w))" for x using that this_one other by auto
    show "g1 = g2" if "row_claim ?dk g1 \<noteq> None" "row_claim ?dk g1 = row_claim ?dk g2" for g1 g2
      using that office_okD(7) [OF assms(1), of g1 g2] free unfolding claim by (auto split: if_splits)
    show "\<exists>g. str_at [''result'', ''sessionId''] r = Some g \<and> row_claim ?dk g = Some (t, rid)" if "(t, rid, r) \<in> set (of_answers w)" for t rid r
      using office_okD(8) [OF assms(1) that] claim none by auto
  qed
qed

lemma begin_ok:
  assumes "office_ok w" and "a \<in> set (of_attempts w)" and "an_stage a = Cleared request"
    and "lf_store (dk_life dk) = lf_store (dk_life (of_desk w))"
  shows "office_ok (proceeds a (Asking request' nc) dk w)"
proof (rule proceeds_ok [OF assms(1,2,4)])
  show "stage_ok w (a\<lparr>an_stage := Asking request' nc\<rparr>)" using office_okD(6) [OF assms(1,2)] by (simp add: stage_ok_def assms(3))
qed (simp add: placed_at_def)

lemma clear_ok:
  assumes "office_ok w" and "a \<in> set (of_attempts w)"
    and "deduplicated_session_new_response (lf_store (dk_life (of_desk w))) (an_tenant a) (an_creation a) i = Some (Inr None)"
  shows "office_ok (proceeds a (Cleared request) (of_desk w) w)"
proof (rule proceeds_ok [OF assms(1,2) refl])
  obtain db where db: "lf_store (dk_life (of_desk w)) = Some db" "distinct (map fst (db_rows db))" using office_okD(1) [OF assms(1)] by blast
  show "stage_ok w (a\<lparr>an_stage := Cleared request\<rparr>)"
    using cleared_key [OF db] assms(3) by (cases "an_creation a") (auto simp: stage_ok_def creation_id_def)
qed (simp add: placed_at_def)

lemma place_ok:
  assumes "office_ok w" and "a \<in> set (of_attempts w)" and "an_stage a = Asking request nc" and "\<not> has_row (of_desk w) g" and "g \<notin> placed_ids w"
    and "lf_store (dk_life dk) = lf_store (dk_life (of_desk w))" and "str_at [''result'', ''sessionId''] reply = Some g"
  shows "office_ok (proceeds a (Placed nc g b reply) dk w)"
proof (rule proceeds_ok [OF assms(1,2,6)])
  show "stage_ok w (a\<lparr>an_stage := Placed nc g b reply\<rparr>)" using office_okD(6) [OF assms(1,2)] assms(4,7) by (simp add: stage_ok_def assms(3))
qed (use assms(5) in \<open>simp add: placed_at_def\<close>)

lemma repeat_ok:
  assumes "office_ok w" and "a \<in> set (of_attempts w)"
    and "deduplicated_session_new_response (lf_store (dk_life (of_desk w))) (an_tenant a) (an_creation a) i = Some (Inr (Some reply))"
  shows "office_ok (answers a reply (of_desk w) w)"
proof (rule answers_ok [OF assms(1,2) refl])
  obtain db where db: "lf_store (dk_life (of_desk w)) = Some db" "distinct (map fst (db_rows db))" using office_okD(1) [OF assms(1)] by blast
  show "\<exists>g. str_at [''result'', ''sessionId''] reply = Some g \<and> row_claim (of_desk w) g = Some c" if "creation_id a = Some c" for c
    using repeated_answer [OF db assms(3)] that by (auto simp: creation_id_def)
qed

lemma commit_ok:
  assumes "office_ok w" and "a \<in> set (of_attempts w)" and "an_stage a = Written g reply" and "lf_store (dk_life dk) = lf_store (dk_life (of_desk w))"
  shows "office_ok (answers a reply dk w)"
proof (rule answers_ok [OF assms(1,2,4)])
  show "\<exists>g. str_at [''result'', ''sessionId''] reply = Some g \<and> row_claim (of_desk w) g = Some c" if "creation_id a = Some c" for c
    using office_okD(6) [OF assms(1,2)] that by (auto simp: stage_ok_def assms(3))
qed

lemma other_ok:
  assumes "office_ok w" and claims: "\<And>g. row_claim dk g = row_claim (of_desk w) g" and free: "\<And>g. g \<in> placed_ids w \<Longrightarrow> \<not> has_row dk g"
    and "lf_store (dk_life dk) = None \<longleftrightarrow> lf_store (dk_life (of_desk w)) = None"
    and "\<And>db. lf_store (dk_life dk) = Some db \<Longrightarrow> distinct (map fst (db_rows db))"
  shows "office_ok (w\<lparr>of_desk := dk\<rparr>)"
proof -
  let ?w = "w\<lparr>of_desk := dk\<rparr>"
  have placed: "\<not> has_row dk g" if "b \<in> set (of_attempts w)" "an_stage b = Placed nc g bs reply" for b nc g bs reply
    by (rule free) (use that in \<open>auto simp: placed_ids_def\<close>)
  have stages: "stage_ok ?w b" if b: "b \<in> set (of_attempts w)" for b
    using office_okD(6) [OF assms(1) b] placed [OF b] claims by (cases "an_stage b") (auto simp: stage_ok_def)
  have store: "\<exists>db. lf_store (dk_life dk) = Some db \<and> distinct (map fst (db_rows db))"
    using office_okD(1) [OF assms(1)] assms(4,5) by auto
  have parts: "of_attempts ?w = of_attempts w" "of_locks ?w = of_locks w" "of_desk ?w = dk" "of_answers ?w = of_answers w" by simp_all
  show ?thesis
    by (rule office_okI, unfold parts claims)
      (fact store office_okD(2,4,5) [OF assms(1)] | erule (1) office_okD(3,7) [OF assms(1)] | erule stages office_okD(8) [OF assms(1)])+
qed

lemma restart_ok:
  assumes "office_ok w" and "lf_store (dk_life dk) = lf_store (dk_life (of_desk w))"
  shows "office_ok (w\<lparr>of_desk := dk, of_locks := [], of_attempts := []\<rparr>)"
proof -
  have claims: "row_claim dk g = row_claim (of_desk w) g" for g by (rule same_rows(1) [OF assms(2)])
  show ?thesis
  proof (rule office_okI)
    show "\<exists>db. lf_store (dk_life (of_desk (w\<lparr>of_desk := dk, of_locks := [], of_attempts := []\<rparr>))) = Some db \<and> distinct (map fst (db_rows db))"
      using office_okD(1) [OF assms(1)] assms(2) by simp
  qed (use office_okD(7,8) [OF assms(1)] in \<open>simp_all add: claims\<close>)
qed

lemma office_step_ok:
  assumes "office_step ns is_uuid ser w w'" and "office_ok w"
  shows "office_ok w'"
  using assms
proof (cases rule: office_step.cases)
  case (OfArrive request creation t locks)
  show ?thesis unfolding OfArrive(1) by (rule arrive_ok [OF assms(2)]) (use OfArrive(3) in simp_all)
next
  case (OfPlace a request nc outcome response b g fresh l now reply)
  have "lf_store (dk_life (on_life l (of_desk w))) = lf_store (dk_life (of_desk w))" unfolding OfPlace(9) by (rule on_life_store [OF new_registers_store])
  moreover have "str_at [''result'', ''sessionId''] reply = Some g" by (rule new_answer_session [OF _ OfPlace(10)]) (use OfPlace(4,5) in simp)
  ultimately show ?thesis unfolding OfPlace(1) by (rule place_ok [OF assms(2) OfPlace(2,3,7,8)])
next
  case (OfOther dk)
  show ?thesis unfolding OfOther(1) by (rule other_ok [OF assms(2) OfOther(2-5)])
next
  case (OfRepeat a request i reply)
  show ?thesis unfolding OfRepeat(1) by (rule repeat_ok [OF assms(2) OfRepeat(2,4)])
next
  case (OfClear a request i)
  show ?thesis unfolding OfClear(1) by (rule clear_ok [OF assms(2) OfClear(2,4)])
next
  case (OfBegin a request su ce gid dk nc)
  show ?thesis unfolding OfBegin(1) by (rule begin_ok [OF assms(2) OfBegin(2,3) new_begin_store [OF OfBegin(4)]])
next
  case (OfRefuse a request su ce gid dk e)
  show ?thesis unfolding OfRefuse(1) by (rule leaves_quietly [OF assms(2) OfRefuse(2) new_begin_store [OF OfRefuse(4)]])
next
  case (OfFail a request nc outcome e l)
  show ?thesis unfolding OfFail(1) by (rule leaves_quietly [OF assms(2) OfFail(2) on_life_store [OF new_refused_store [OF OfFail(5)]]])
next
  case (OfConflict a request i e)
  show ?thesis unfolding OfConflict(1) by (rule leaves_quietly [OF assms(2) OfConflict(2) refl])
next
  case (OfWrite a nc g b reply nanos stamp l u)
  show ?thesis unfolding OfWrite(1) by (rule write_ok [OF assms(2) OfWrite(2,3,4)])
next
  case (OfUndo a nc g b reply now l')
  show ?thesis unfolding OfUndo(1) by (rule leaves_quietly [OF assms(2) OfUndo(2) on_life_store [OF new_undone_store [OF OfUndo(4)]]])
next
  case (OfCommit a g reply l)
  show ?thesis unfolding OfCommit(1) by (rule commit_ok [OF assms(2) OfCommit(2,3) on_life_store [OF new_committed_store [OF OfCommit(4)]]])
next
  case (OfRestart dk)
  show ?thesis unfolding OfRestart(1) by (rule restart_ok [OF assms(2) OfRestart(2)])
qed

lemma office_reachable_ok: "office_reachable ns is_uuid ser w \<Longrightarrow> office_ok w"
proof (induction rule: office_reachable.induct)
  case (OfStart dk)
  then show ?case by (simp add: office_ok_def row_claim_def session_db_new_def get_row_def)
next
  case (OfMore w w')
  then show ?case using office_step_ok by blast
qed

end
