(* ===== verification/CreationProps.thy ===== *)
theory CreationProps
  imports NewFacts CreationRuns
begin

text \<open>
  What repeated requests \<open>session/new\<close> get, a run of them on a concrete desk, and where the creation of sessions
  breaks what the gateway promises.
\<close>

section \<open>The policy of a session\<close>


section \<open>One session for a creation key\<close>

lemma one_attempt:
  assumes "office_ok w"
  shows "length (filter (\<lambda>a. creation_id a = Some c) (of_attempts w)) \<le> 1"
proof -
  have k: "\<And>a. creation_id a = Some c \<Longrightarrow> holds_key (creation_key (fst c) (snd c)) a"
    by (auto simp: creation_id_def holds_key_def lock_of_def)
  have "length (filter P xs) \<le> length (filter Q xs)" if "\<And>x. P x \<Longrightarrow> Q x" for P Q :: "attempt \<Rightarrow> bool" and xs
    using that by (induction xs) auto
  from this [of "\<lambda>a. creation_id a = Some c" "holds_key (creation_key (fst c) (snd c))" "of_attempts w"] k
      office_okD(2) [OF assms, of "creation_key (fst c) (snd c)"] show ?thesis by simp
qed


section \<open>A run\<close>

definition sample_ns :: new_settings where
  "sample_ns = \<lparr>ns_life = sample_settings, ns_session_isolation = False, ns_default_agent = ''codex''\<rparr>"

definition sample_desk :: desk where
  "sample_desk = \<lparr>dk_life = life_new (Some session_db_new), dk_config = config_new None, dk_roster = \<lparr>ro_tables = None, ro_specs = [], ro_materialized = []\<rparr>\<rparr>"

definition sample_new :: json where
  "sample_new = JObject [(''method'', JString ''session/new''),
     (''params'', JObject [(''cwd'', JString ''/w''),
        (''_meta'', JObject [(client_creation_meta_namespace, JObject [(''creationRequestId'', JString ''r1'')])])])]"

definition sample_created :: json where
  "sample_created = JObject [(''result'', JObject [(''sessionId'', JString ''b7'')])]"

definition sample_meta :: creation_metadata where
  "sample_meta = \<lparr>cm_request_id = ''r1'', cm_workspace_id = None, cm_params_json = ''p''\<rparr>"

definition sample_cleared :: json where
  "sample_cleared = JObject [(''method'', JString ''session/new''), (''params'', JObject [(''cwd'', JString ''/w'')])]"

abbreviation sample_office :: "office \<Rightarrow> bool" where
  "sample_office \<equiv> office_reachable sample_ns (\<lambda>s. s = ''r1'') (\<lambda>_. ''p'')"

lemma sample_new_meta: "session_creation_metadata (\<lambda>s. s = ''r1'') (\<lambda>_. ''p'') sample_new = Inr (Some sample_meta)"
  by (simp add: session_creation_metadata_def sample_new_def sample_meta_def workspace_of_def client_creation_meta_namespace_def)

lemma sample_new_cleared: "strip_client_creation_metadata sample_new = sample_cleared"
  by (simp add: strip_client_creation_metadata_def sample_new_def sample_cleared_def)

definition sample_arrived :: "desk \<Rightarrow> stage \<Rightarrow> (tenant_id \<times> string \<times> json) list \<Rightarrow> office" where
  "sample_arrived dk st as = \<lparr>of_desk = dk, of_locks = [creation_key ''acme'' ''r1''],
     of_attempts = [\<lparr>an_tenant = ''acme'', an_creation = Some sample_meta, an_stage = st\<rparr>], of_answers = as\<rparr>"

lemma sample_arrives:
  assumes "sample_office \<lparr>of_desk = dk, of_locks = [], of_attempts = [], of_answers = as\<rparr>"
  shows "sample_office (sample_arrived dk (Locked sample_new) as)"
  using OfMore [OF assms OfArrive [OF sample_new_meta, where t = "''acme''" and locks = "[creation_key ''acme'' ''r1'']" and ns = sample_ns]]
  by (simp add: lock_of_def sample_arrived_def sample_meta_def)

lemma sample_goes_on:
  assumes "sample_office (sample_arrived dk st as)"
    and "office_step sample_ns (\<lambda>s. s = ''r1'') (\<lambda>_. ''p'') (sample_arrived dk st as)
      (proceeds \<lparr>an_tenant = ''acme'', an_creation = Some sample_meta, an_stage = st\<rparr> st' dk' (sample_arrived dk st as))"
  shows "sample_office (sample_arrived dk' st' as)"
  using OfMore [OF assms] by (simp add: proceeds_def sample_arrived_def)

lemma sample_ends:
  assumes "sample_office (sample_arrived dk st as)"
    and "office_step sample_ns (\<lambda>s. s = ''r1'') (\<lambda>_. ''p'') (sample_arrived dk st as)
      (answers \<lparr>an_tenant = ''acme'', an_creation = Some sample_meta, an_stage = st\<rparr> reply dk' (sample_arrived dk st as))"
  shows "sample_office \<lparr>of_desk = dk', of_locks = [], of_attempts = [], of_answers = (''acme'', ''r1'', reply) # as\<rparr>"
  using OfMore [OF assms] by (simp add: answers_def leaves_def sample_arrived_def keys_of_def lock_of_def sample_meta_def)

definition sample_su :: surroundings where
  "sample_su = \<lparr>su_installed = [], su_registry = [], su_npx = ''npx'', su_ser = (\<lambda>_. [])\<rparr>"

definition sample_nc :: new_call where
  "sample_nc = \<lparr>nc_agent = ''codex'', nc_profile = None, nc_gid = None, nc_cwd = Some ''/w'', nc_permission = None,
     nc_request = sample_cleared, nc_policy = with_permission_profile None (policy_of None None)\<rparr>"

definition sample_admitted :: gateway where
  "sample_admitted = projr (admit_session default_lifecycle ''acme'' gateway_new)"

lemma sample_begins: "new_begin sample_ns sample_su sample_call_env ''acme'' ''s1'' sample_cleared sample_desk
    = Some (on_life ((dk_life sample_desk)\<lparr>lf_gateway := sample_admitted\<rparr>) sample_desk, Inr sample_nc)"
  by (simp add: new_begin_def new_enters_def sample_cleared_def requested_permission_def agent_choice_def selected_agent_def chosen_process_def
      session_process_def sample_desk_def sample_ns_def sample_call_env_def sample_nc_def str_at_def ensure_agent_enabled_def
      ensure_custom_agent_registered_def custom_spawn_spec_def life_new_def config_new_def set_member_def new_params_def Let_def
      sample_admitted_def admit_session_def reserve_def gateway_new_def admission_new_def default_lifecycle_def sample_settings_def counter_def
      registry_new_def on_life_def nested_get_def)

definition sample_opened :: life where
  "sample_opened = new_registers 9 ''acme'' ''s1'' sample_nc ''b7'' ((dk_life sample_desk)\<lparr>lf_gateway := sample_admitted\<rparr>)"

definition sample_answer :: json where
  "sample_answer = JObject [(''result'', JObject [(''sessionId'', JString ''s1''), (''_meta'', client_meta ''r1'' None)])]"

lemma sample_answered: "new_answer ''acme'' ''s1'' (Some sample_meta) sample_created sample_opened = Some sample_answer"
  by (simp add: new_answer_def sample_created_def sample_meta_def set_member_def merge_creation_meta_def sample_answer_def client_meta_def
      sample_opened_def new_registers_def sample_nc_def permission_profile_of_def Let_def create_register_def register_with_id_def
      cancel_unreferenced_shutdown_def sample_admitted_def admit_session_def reserve_def gateway_new_def admission_new_def default_lifecycle_def
      counter_def registry_new_def nested_get_def new_gid_def)

definition sample_rows :: session_db where
  "sample_rows = session_db_new\<lparr>db_rows := [(''s1'', fresh_row 9 ''codex'' ''b7'' None ''2025'' ''acme'' (new_recovery 9 sample_nc) (Some sample_meta))]\<rparr>"

lemma sample_recorded:
  "new_records 9 ''2025'' ''acme'' ''s1'' sample_nc ''b7'' (Some sample_meta) sample_opened = (sample_opened\<lparr>lf_store := Some sample_rows\<rparr>, Inr ())"
proof -
  have "lf_store sample_opened = Some session_db_new"
    unfolding sample_opened_def new_registers_store by (simp add: sample_desk_def life_new_def)
  then show ?thesis
    by (simp add: new_records_def row_statement_def record_session_def get_row_def session_db_new_def creation_taken_def sample_rows_def sample_nc_def)
qed

lemma sample_committed: "\<exists>l. new_committed ''acme'' ''s1'' (sample_opened\<lparr>lf_store := Some sample_rows\<rparr>) = Some l"
  by (simp add: new_committed_def create_commit_def commit_permit_def commit_reservation_def sample_opened_def new_registers_def sample_nc_def Let_def
      create_register_def cancel_unreferenced_shutdown_def sample_admitted_def admit_session_def reserve_def gateway_new_def admission_new_def
      default_lifecycle_def counter_def registry_new_def release_reservation_def decrement_def nested_get_def)

definition sample_repeated :: json where
  "sample_repeated = JObject [(''jsonrpc'', JString ''2.0''), (''id'', JNumber ''2''),
     (''result'', JObject [(''sessionId'', JString ''s1''), (''_meta'', client_meta ''r1'' None)])]"

lemma sample_repeats: "deduplicated_session_new_response (Some sample_rows) ''acme'' (Some sample_meta) (JNumber ''2'') = Some (Inr (Some sample_repeated))"
  by (simp add: deduplicated_session_new_response_def find_by_creation_request_def sample_rows_def sample_meta_def fresh_row_def new_recovery_def
      sample_repeated_def creation_meta_json_def merge_creation_meta_def client_meta_def session_db_new_def Let_def)

lemma sample_clears: "deduplicated_session_new_response (Some session_db_new) ''acme'' (Some sample_meta) (JNumber ''1'') = Some (Inr None)"
  by (simp add: deduplicated_session_new_response_def find_by_creation_request_def session_db_new_def)

text \<open>A request is answered, and repeated.\<close>

abbreviation sample_attempt :: "stage \<Rightarrow> attempt" where
  "sample_attempt st \<equiv> \<lparr>an_tenant = ''acme'', an_creation = Some sample_meta, an_stage = st\<rparr>"

lemma sample_arrived_fields [simp]:
  "of_desk (sample_arrived dk st as) = dk" "of_attempts (sample_arrived dk st as) = [sample_attempt st]"
  by (simp_all add: sample_arrived_def)

definition sample_asked :: desk where
  "sample_asked = on_life ((dk_life sample_desk)\<lparr>lf_gateway := sample_admitted\<rparr>) sample_desk"

definition sample_written :: life where
  "sample_written = sample_opened\<lparr>lf_store := Some sample_rows\<rparr>"

lemma dk_life_on_life [simp]: "dk_life (on_life l dk) = l"
  by (simp add: on_life_def)

lemma sample_store: "lf_store (dk_life sample_desk) = Some session_db_new" "lf_store (dk_life sample_asked) = Some session_db_new"
  by (simp_all add: sample_desk_def life_new_def sample_asked_def)

lemma sample_clear_step: "sample_office (sample_arrived sample_desk (Cleared sample_cleared) [])"
proof -
  have start: "sample_office \<lparr>of_desk = sample_desk, of_locks = [], of_attempts = [], of_answers = []\<rparr>"
    by (rule OfStart) (rule sample_store)
  show ?thesis
    by (rule sample_goes_on [OF sample_arrives [OF start]], unfold sample_new_cleared [symmetric],
        rule OfClear [of "sample_attempt (Locked sample_new)" "sample_arrived sample_desk (Locked sample_new) []", unfolded sample_arrived_fields])
      (simp_all add: sample_store, rule sample_clears)
qed

lemma sample_begin_step: "sample_office (sample_arrived sample_asked (Asking sample_cleared sample_nc) [])"
  by (rule sample_goes_on [OF sample_clear_step],
      rule OfBegin [of "sample_attempt (Cleared sample_cleared)" "sample_arrived sample_desk (Cleared sample_cleared) []", unfolded sample_arrived_fields])
    (simp_all add: sample_asked_def, rule sample_begins)

lemma sample_placed: "sample_opened = new_registers 9 ''acme'' ''s1'' sample_nc ''b7'' (dk_life sample_asked)"
  by (simp add: sample_opened_def sample_asked_def)

lemma sample_place_step: "sample_office (sample_arrived (on_life sample_opened sample_asked) (Placed sample_nc ''s1'' ''b7'' sample_answer) [])"
proof (rule sample_goes_on [OF sample_begin_step])
  let ?w = "sample_arrived sample_asked (Asking sample_cleared sample_nc) []"
  have answered: "new_answer (an_tenant (sample_attempt (Asking sample_cleared sample_nc))) ''s1''
      (an_creation (sample_attempt (Asking sample_cleared sample_nc))) sample_created sample_opened = Some sample_answer"
    by (simp add: sample_answered)
  have created: "backend_session (Inr sample_created) = Inr ''b7''"
    by (simp add: backend_session_def extract_backend_session_id_def str_at_def sample_created_def)
  show "office_step sample_ns (\<lambda>s. s = ''r1'') (\<lambda>_. ''p'') ?w
      (proceeds (sample_attempt (Asking sample_cleared sample_nc)) (Placed sample_nc ''s1'' ''b7'' sample_answer) (on_life sample_opened sample_asked) ?w)"
    by (rule OfPlace [of _ ?w, unfolded sample_arrived_fields, OF _ _ refl created _ _ _ _ answered])
      (simp_all add: new_gid_def sample_nc_def has_row_def sample_store get_row_def session_db_new_def placed_ids_def
        sample_placed [unfolded sample_nc_def])
qed

lemma sample_write_step: "sample_office (sample_arrived (on_life sample_written sample_asked) (Written ''s1'' sample_answer) [])"
proof (rule sample_goes_on [OF sample_place_step])
  let ?st = "Placed sample_nc ''s1'' ''b7'' sample_answer" let ?dk = "on_life sample_opened sample_asked" let ?w = "sample_arrived ?dk ?st []"
  have recorded: "new_records 9 ''2025'' (an_tenant (sample_attempt ?st)) ''s1'' sample_nc ''b7'' (an_creation (sample_attempt ?st)) (dk_life ?dk) = (sample_written, Inr ())"
    by (simp add: sample_recorded sample_written_def)
  have "on_life sample_written ?dk = on_life sample_written sample_asked" by (simp add: on_life_def)
  then show "office_step sample_ns (\<lambda>s. s = ''r1'') (\<lambda>_. ''p'') ?w (proceeds (sample_attempt ?st) (Written ''s1'' sample_answer) (on_life sample_written sample_asked) ?w)"
    using OfWrite [of "sample_attempt ?st" ?w, unfolded sample_arrived_fields, OF _ _ recorded, of sample_answer] by simp
qed

lemma sample_run:
  "\<exists>w. sample_office w \<and> of_answers w = [(''acme'', ''r1'', sample_repeated), (''acme'', ''r1'', sample_answer)]"
proof -
  let ?st = "Written ''s1'' sample_answer" let ?dk = "on_life sample_written sample_asked"
  obtain l where l: "new_committed (an_tenant (sample_attempt ?st)) ''s1'' (dk_life ?dk) = Some l" using sample_committed by (auto simp: sample_written_def)
  have "sample_office \<lparr>of_desk = on_life l ?dk, of_locks = [], of_attempts = [], of_answers = [(''acme'', ''r1'', sample_answer)]\<rparr>"
    by (rule sample_ends [OF sample_write_step],
        rule OfCommit [of "sample_attempt ?st" "sample_arrived ?dk ?st []", unfolded sample_arrived_fields, OF _ _ l]) simp_all
  note again = sample_arrives [OF this]
  let ?w = "sample_arrived (on_life l ?dk) (Locked sample_new) [(''acme'', ''r1'', sample_answer)]"
  have "lf_store l = Some sample_rows" using new_committed_store [OF l] by (simp add: sample_written_def)
  then have repeated: "deduplicated_session_new_response (lf_store (dk_life (on_life l ?dk))) (an_tenant (sample_attempt (Locked sample_new)))
      (an_creation (sample_attempt (Locked sample_new))) (JNumber ''2'') = Some (Inr (Some sample_repeated))"
    by (simp add: sample_repeats)
  have "sample_office \<lparr>of_desk = on_life l ?dk, of_locks = [], of_attempts = [],
      of_answers = [(''acme'', ''r1'', sample_repeated), (''acme'', ''r1'', sample_answer)]\<rparr>"
    by (rule sample_ends [OF again], rule OfRepeat [of _ ?w, unfolded sample_arrived_fields, OF _ _ repeated]) simp_all
  then show ?thesis by force
qed



section \<open>Where the code breaks what it promises\<close>

text \<open>
  Between the registration of a session and its row, \<open>session/list\<close> may find the session and write a row for it, which
  has no creation key; the row of the creation then only refreshes its activity, and a repeated request does not find
  the session.
\<close>

theorem listing_takes_the_creation_key:
  assumes "lf_store l = Some db" and "get_row g db = Some row" and "sw_creation_id row = None"
    and "find_by_creation_request t (cm_request_id m) db = None"
  shows "\<exists>l'. new_records nanos stamp t g nc b (Some m) l = (l', Inr ())
    \<and> deduplicated_session_new_response (lf_store l') t (Some m) i = Some (Inr None)"
proof -
  let ?row = "row\<lparr>sw_activity_nanos := sw_activity_nanos (fresh_row nanos (nc_agent nc) b (nc_profile nc) stamp t (new_recovery nanos nc) (Some m))\<rparr>"
  let ?db = "db\<lparr>db_rows := AList.update g ?row (db_rows db)\<rparr>"
  have none: "\<forall>(g', row')\<in>set (db_rows db). \<not> (sw_tenant row' = t \<and> sw_creation_id row' = Some (cm_request_id m))"
    using assms(4) by (auto simp: find_by_creation_request_def find_None_iff)
  have updated: "(g', row') \<in> set (AList.update g v xs) \<Longrightarrow> row' = v \<or> (g', row') \<in> set xs" for g' row' v and xs :: "(string \<times> session_row) list"
    by (induction xs) (auto split: if_splits)
  have "\<not> (sw_tenant row' = t \<and> sw_creation_id row' = Some (cm_request_id m))" if "(g', row') \<in> set (AList.update g ?row (db_rows db))" for g' row'
  proof -
    from updated [OF that] have "sw_creation_id row' = None \<or> (g', row') \<in> set (db_rows db)" using assms(3) by auto
    then show ?thesis using none by auto
  qed
  then have "find_by_creation_request t (cm_request_id m) ?db = None" by (auto simp: find_by_creation_request_def find_None_iff)
  then show ?thesis
    using assms(1,2) by (simp add: new_records_def row_statement_def record_session_def Let_def deduplicated_session_new_response_def)
qed

text \<open>
  The agent that a client names in \<open>_acpx\<close> is the key of the process, and the keys of the processes of profiles, with
  the tenant they belong to, are such names: with processes isolated by tenant, a client still has its session in the
  process of another tenant, whether or not the agent of that profile is enabled.
\<close>

theorem client_reaches_foreign_process:
  assumes "json_get ''params'' request = Some params" and "requested_permission params = Inr permission"
    and "agent_choice params = Inr (ByAgent (profile_supervisor_key (ns_life ns) p other))"
    and "ro_tables (dk_roster dk) = Some ts" and "map_of (at_enabled ts) (profile_supervisor_key (ns_life ns) p other) = None"
    and "map_of (at_custom ts) (profile_supervisor_key (ns_life ns) p other) = None"
    and "profile_supervisor_key (ns_life ns) p other \<notin> set (ro_materialized (dk_roster dk))"
    and "admit_session (ls_lifecycle (ns_life ns)) t (lf_gateway (dk_life dk)) = Inr gw" and "ce_started ce = None"
  shows "\<exists>dk' nc. new_begin ns su ce t gid request dk = Some (dk', Inr nc) \<and> nc_agent nc = profile_supervisor_key (ns_life ns) p other"
  using assms
  by (simp add: new_begin_def selected_agent_def ensure_agent_enabled_def is_enabled_def chosen_process_def ensure_custom_agent_registered_def
      custom_spawn_spec_def new_enters_def session_process_def)

end
