(* ===== verification/Spec2Isabelle.thy ===== *)
theory Spec2Isabelle
  imports Prelude Nested Fifo ClaimTable LineCodec JsonCodec
    RowDiff SendQueue Payload Conversation MessageIndex
    QueueLog SessionFile QueueFile Transcripts
    Lifecycle SessionRegistry Admission Gateway Notify AgentRelay Demux Supervisor
    JsonView Permission Markdown MarkdownDocs MarkdownSpans MessageRows
    PanelModel PanelState PanelMsg PanelThreads PanelCompose PanelChrome PanelResults PanelFrame
    PanelUpdate PanelTable PanelTabs PanelProps PanelRouting PanelTurns PanelFlaws QueueBridge
    JsonPath BridgeSessions BridgeDispatch BridgeFacts Interaction ResumeCursors
    AgentHost AgentRequests AgentFacts
    SessionPool PoolFacts Dispatcher DispatchFacts
    SessionRows RowFacts SessionLife LifeFacts LifeRuns LifeProps
    Profiles Keyring ConfigStore ConfigFacts Creation
    Agents ProxiedCalls CallFacts CallProps NewSession NewFacts CreationRuns CreationProps
begin

text \<open>
  A verification development for Snapflow: an agent panel (\<open>src/panel-rust\<close>) and the gateway it
  talks to (\<open>src/acpx\<close>), which runs coding agents as child processes and shares them between
  tenants, sessions and clients.

  \<^bold>\<open>The program.\<close>  The panel shows a conversation.  It merges the events of a thread into
  transcript items, keeps messages that the user wrote while the agent works in a queue, and
  updates its list models by small row operations.  The gateway keeps a registry of sessions with
  admission limits, a durable prompt queue and a transcript per session on disk, sends the
  updates of a session to every client that is subscribed, offers the questions of an agent to
  those clients, and shares one process of an agent among many calls.

  \<^bold>\<open>Shared theories.\<close>  \<open>Prelude\<close> has positions, insertion and removal by index, line splitting,
  decimal numbers and file names; \<open>Nested\<close> has hash maps as association lists, counters and
  maps of maps.  The interfaces between components are locales: \<open>Fifo.fifo_queue\<close> (a queue and
  its promise to deliver in order), \<open>LineCodec.line_codec\<close> (what a component relies on from
  \<open>serde_json\<close>: a value is one non-blank line and is read back), \<open>Conversation.keyed_upsert\<close> (merging
  by key), \<open>ClaimTable.claim_table\<close> (a waiting call is answered once), \<open>Admission.slot_ledger\<close>
  (reserve, fill and free slots) and \<open>Profiles.named_store\<close> (create, update and delete by name).  Each is interpreted on the definitions of the component that
  provides it; \<open>JsonCodec\<close> is a concrete codec that meets the contract of the serializer.

  \<^bold>\<open>The panel.\<close>
  \<^item> \<open>RowDiff\<close>: \<open>dirty.rs\<close> (\<open>diff_by_id\<close>) and \<open>list_model.rs\<close> (\<open>reconcile\<close>).  The row operations turn
    the old rows into the new ones, rows whose key survives keep their identity, and with duplicate keys
    the script is a shortest one.
  \<^item> \<open>SendQueue\<close>: \<open>send_queue.rs\<close>, every operation with the outcome of each file operation as an
    argument.  Reachable queues have unique ids, deliver in order, survive a restart, and keep
    unconfirmed messages when the server sends a snapshot.
  \<^item> \<open>Payload\<close>: the size limits of tool payloads in \<open>protocol_types.rs\<close>, on UTF-8 bytes.
  \<^item> \<open>Conversation\<close>: \<open>conversation.rs\<close>, the reducer and the rebuild from the raw feed.  The item of a
    key is the summary of the events with that key.
  \<^item> \<open>MessageIndex\<close>: \<open>thread_message_index.rs\<close>, the cache of rendered rows, never stale.
  \<^item> \<open>MessageRows\<close>: the rows of a thread and their keys, from \<open>models.rs\<close>; \<open>JsonView\<close> reads JSON values.
  \<^item> \<open>Markdown\<close>, \<open>MarkdownDocs\<close>, \<open>MarkdownSpans\<close>: the block parser of \<open>markdown.rs\<close> over the events of
    \<open>pulldown-cmark\<close>, its round trip on well-nested documents, and the spans the view styles.
  \<^item> \<open>Permission\<close>: \<open>permission.rs\<close>, the cards for requests of an agent and their answers.

  \<^bold>\<open>The reducer of the panel.\<close>  \<open>update.rs\<close> takes a state and a message and returns the next state,
  the effects to run and the marks of what changed.  \<open>PanelModel\<close>, \<open>PanelState\<close> and \<open>PanelMsg\<close> have
  the state (\<open>model.rs\<close>) and the messages, effects and marks (\<open>msg.rs\<close>, \<open>effect.rs\<close>, \<open>dirty.rs\<close>);
  \<open>PanelThreads\<close>, \<open>PanelCompose\<close>, \<open>PanelChrome\<close>, \<open>PanelResults\<close> and \<open>PanelFrame\<close> the handlers, one
  definition per message; \<open>PanelUpdate.update\<close> is the whole.  \<open>PanelTable\<close> shows that the reducer
  refines a small transition system on the threads and their indices, and that ids resolve to the thread
  they belong to.  \<open>PanelTabs\<close>, \<open>PanelProps\<close>, \<open>PanelRouting\<close> and \<open>PanelTurns\<close> have its other
  guarantees, \<open>PanelFlaws\<close> runs on which it breaks its own comments.  \<open>QueueBridge\<close> puts the panel's
  queue and the gateway's together: a queued prompt is appended once and both ends agree afterwards.

  \<^bold>\<open>The gateway.\<close>
  \<^item> \<open>QueueLog\<close>, \<open>SessionFile\<close>, \<open>QueueFile\<close>: \<open>persistence/queue.rs\<close>.  \<open>QueueLog\<close> is the log of records and
    its replay, \<open>QueueFile\<close> the operations on the file with crashes and compaction.  What an
    operation answers is what a restart reads back; a crash loses at most the record being
    written.
  \<^item> \<open>Transcripts\<close>: \<open>persistence/transcripts.rs\<close>: append, pages by cursor, reconciliation.
  \<^item> \<open>SessionRows\<close>, \<open>RowFacts\<close>: the table of sessions in \<open>persistence/sessions.rs\<close> and \<open>store.rs\<close>.  A
    creation request belongs to one session for ever; the revisions notice a change from outside unless a
    write of the store follows it.
  \<^item> \<open>SessionLife\<close>, \<open>LifeFacts\<close>, \<open>LifeRuns\<close>, \<open>LifeProps\<close>: the life of a session in \<open>router.rs\<close>, on the
    registry and the rows together: it is brought back on demand or by the recovery at start-up, pinned, closed in the
    background, reaped, and its process is stopped when nobody refers to it.  \<open>LifeFacts\<close> is what every operation
    keeps (\<open>calm\<close>), \<open>LifeRuns\<close> the runs with restarts in between; in these a session has one owner, and the
    recovery settles every session it finds.
  \<^item> \<open>Profiles\<close>, \<open>Keyring\<close>, \<open>ConfigStore\<close>, \<open>ConfigFacts\<close>: \<open>profile.rs\<close>, \<open>provider.rs\<close>, \<open>keystore.rs\<close>,
    \<open>launch.rs\<close>, \<open>mcp_servers.rs\<close> and the methods of \<open>router.rs\<close> on them: the named stores, the versioned keys
    that seal secrets on disk, and what a restart reads back.  A profile that was answered as saved survives
    every later change, rotation, failure and restart; the environment and the servers of a session are those of
    its profile (\<open>launch_env_has_key\<close>, \<open>session_servers\<close>).
  \<^item> \<open>Agents\<close>: \<open>agent_state.rs\<close>, \<open>custom_agents.rs\<close> and the methods of \<open>router.rs\<close> that lead from a profile to
    the spec of a process (\<open>resolve_profile\<close>) and to the policy of a call, with the permission profiles of sessions.
  \<^item> \<open>ProxiedCalls\<close>, \<open>CallFacts\<close>, \<open>CallProps\<close>: \<open>dispatch_proxied_shared_inner\<close>, \<open>dispatch_session_cancel_shared\<close> and
    \<open>dispatch_session_fork_shared\<close> of \<open>router.rs\<close>, before and after the agent answers.  They are steps of \<open>LifeRuns\<close>;
    a call reaches the session of its own tenant, and its end leaves no turn open.
  \<^item> \<open>Creation\<close>, \<open>NewSession\<close>, \<open>NewFacts\<close>, \<open>CreationRuns\<close>, \<open>CreationProps\<close>: \<open>session/new\<close>, from the metadata of a
    creation key (\<open>session_creation_metadata\<close>) to the commit of the slot (\<open>dispatch_session_new_shared\<close>).  Its parts are
    runs of \<open>LifeRuns\<close> (\<open>new_session_refines_life\<close>), the session keeps the policy it was created with, and a creation
    key has one session however its requests are interleaved.
  \<^item> \<open>Dispatcher\<close>, \<open>DispatchFacts\<close>: \<open>spawn_queue_dispatcher\<close> of \<open>router.rs\<close>, which sends the queued prompts
    of a session between its calls.  Turns exclude each other, a queued prompt is not forgotten outside
    four kinds of run, and the queue is sent in order (\<open>queue_sent_in_order\<close>).
  \<^item> \<open>Lifecycle\<close>, \<open>SessionRegistry\<close>, \<open>Admission\<close>, \<open>Gateway\<close>: \<open>lifecycle.rs\<close>, \<open>session_registry.rs\<close> and what
    \<open>router.rs\<close> does with sessions and slots while it holds its lock.  Tenants are isolated, the
    admission counters are exact and within the limits, and no counter underflows.
  \<^item> \<open>Notify\<close>: \<open>notify.rs\<close>, numbered streams with bounded replay.  A client that resumes reads each
    envelope once and in order when publications come one at a time.
  \<^item> \<open>AgentRelay\<close>: \<open>agent_relay.rs\<close>; the first answer to a question decides.
  \<^item> \<open>Demux\<close>: \<open>acpx-conductor/src/demux.rs\<close>; a call gets the first frame with its id.
  \<^item> \<open>Supervisor\<close>: \<open>acpx-conductor/src/supervisor.rs\<close> and \<open>backoff.rs\<close>; one process per agent, and a
    crash loop is slowed down by the growing delay.

  \<^bold>\<open>Between a client, the gateway and an agent.\<close>
  \<^item> \<open>BridgeSessions\<close>, \<open>BridgeDispatch\<close>, \<open>BridgeFacts\<close>: the strict ACP bridge
    (\<open>acpx-core/src/bridge_sessions.rs\<close>, \<open>acpx-server/src/transport/acp_bridge.rs\<close> and the catalog of
    \<open>acpx-bridge/src/lib.rs\<close>).  Its clients have virtual sessions, which the first prompt binds to a session
    of an agent.  One prompt owns the binding, no request leaves it open, and the two ids are
    translated both ways.  The router behind the bridge is a state of its own with a function per call.
  \<^item> \<open>Interaction\<close>: \<open>acpx-core/src/interaction.rs\<close>; a request that one connection answers gets one outcome.
  \<^item> \<open>ResumeCursors\<close>: \<open>acpx-bridge/src/resume.rs\<close> and \<open>acpx-server/src/transport/live.rs\<close>; with \<open>Notify\<close> a
    client that knows no cursors loses nothing and repeats nothing over a reconnect.
  \<^item> \<open>AgentHost\<close>, \<open>AgentRequests\<close>, \<open>AgentFacts\<close>: what the gateway does for an agent in the middle of
    a call (\<open>router.rs\<close> from \<open>build_permission_reply\<close> to \<open>attach_updates\<close>, and
    \<open>acpx-conductor/src/terminal.rs\<close>): permissions, files, terminals, live updates, and the three
    readers of an agent's output.  Every request is answered once, and the host changes only with
    the leave of the profile and of the live client.
  \<^item> \<open>SessionPool\<close>, \<open>PoolFacts\<close>: \<open>acpx-client/src/pool.rs\<close>, the sessions that threads of a client take
    over from each other.  A lease is exclusive and ends once; the warm-up keeps to its target
    (\<open>warm_up_keeps_target\<close>), and without a refresh in the middle of an opening an idle session is current
    (\<open>acquired_session_is_current\<close>).

  \<^bold>\<open>Conventions.\<close>  Strings are lists of bytes.  Hash maps are association lists with unique keys;
  nothing depends on their order.  Clocks, fresh ids and the outcome of file operations are
  arguments.  An error is \<open>Inl\<close>, a panic or a missing value is \<open>None\<close>.  Machine integers that only
  count are natural numbers; hashes are words of 64 bits.  Locks are modelled by taking what
  happens under one lock as one step; where the code releases a lock in the middle, there are
  several steps (\<open>Gateway.gateway_step\<close>, \<open>LifeRuns.life_step\<close>, \<open>CreationRuns.office_step\<close>, \<open>Notify.serial\<close>, \<open>AgentRelay.relay_step\<close>).

  \<^bold>\<open>Fuel.\<close>  The loops of the code are structural recursions or functions with a termination proof.
  Fuel occurs where a client repeats a request: \<open>Transcripts.all_pages\<close> (one more than the length
  of the transcript is enough, \<open>pagination_complete\<close>) and \<open>Notify.recv_all\<close> (more than the envelopes at
  hand, \<open>recv_all_reads\<close>), in the parser of \<open>JsonCodec\<close> (the number of tokens), and in \<open>Markdown\<close>, where
  the mutually recursive walks over the events take \<open>parse_fuel\<close> steps, always enough by
  \<open>parse_terminates\<close>.

  \<^bold>\<open>What the proofs found.\<close>  Some theorems state behaviour that the code does not seem to intend:
  answers that go to another call with the same id (\<open>Demux.same_id_takes_answer\<close>), sessions that are
  reaped while a call runs (\<open>SessionRegistry.overlapping_calls_are_reaped\<close>), a panic when a session is
  removed while it is created (\<open>Gateway.eviction_during_creation_panics\<close>), a message lost by a failed
  rewrite (\<open>SendQueue.failed_rewrite_loses_message\<close>), a log that a crash makes unreadable
  (\<open>QueueFile.unterminated_record_corrupts\<close>), a reconciliation that leaves a diverged prefix
  (\<open>Transcripts.sync_reaches_canonical_iff\<close>), a queued prompt that the gateway takes for a repetition
  after the panel restarts (\<open>QueueBridge.reused_entry_id_loses_prompt\<close>), a draft erased by a new thread
  (\<open>PanelFlaws.new_thread_erases_draft\<close>), a virtual session that no request can close
  (\<open>BridgeFacts.failed_session_is_never_freed\<close>), a second wait for a terminal that ends the reader of an
  agent's process (\<open>AgentFacts.wait_after_stream_panics\<close>), a session that two threads lease
  (\<open>PoolFacts.saved_session_is_leased_twice\<close>), a queued prompt that nobody sends
  (\<open>DispatchFacts.queue_stranded_by_leaving_dispatcher\<close>), a queue that another tenant can block
  (\<open>DispatchFacts.foreign_dispatcher_blocks_queue\<close>), a session that neither a request nor a restart brings
  back (\<open>LifeProps.restoring_row_is_stuck\<close>), a keyring file that a crash tears, after which the server does not
  start (\<open>ConfigFacts.torn_keyring_stops_the_server\<close>), a session without a row that never answers
  (\<open>CallProps.unrecorded_session_loses_answer\<close>), a process of another tenant that a client can name
  (\<open>CreationProps.client_reaches_foreign_process\<close>), and others named in the theories.

  \<^bold>\<open>Not modelled.\<close>  The user interface (Slint) and the list models that mirror the state on screen,
  line wrapping and the streaming renderer of \<open>markdown.rs\<close>, the helpers of \<open>models.rs\<close> for settings
  and menus, the background tasks behind the effects (\<open>agent_bridge.rs\<close>), OAuth logins and the tool catalogue
  of MCP servers, the probing of models, the methods of \<open>router.rs\<close> for the registry of agents, transports, the registry and installer of agents.  Broadcast and
  delivery channels of the runtime, \<open>serde_json\<close>, \<open>pulldown-cmark\<close> and the file system are parameters
  or explicit outcomes.
\<close>

end
